(* ===== verification/Prelude.thy ===== *)
theory Prelude
  imports
    Main
    "HOL-Library.Word"
    "HOL-Library.Finite_Map"
    "HOL-Library.Char_ord"
    "HOL-Library.List_Lexorder"
    "HOL-Library.Sublist"
    "HOL-Library.Multiset"
begin

text \<open>
  What every component of the development shares: the machine integers of Go at their
  width, Go maps (finite maps of \<open>HOL-Library.Finite_Map\<close>) with their length, zero-value
  lookup and sums over their entries, \<open>strings.TrimSpace\<close> on byte strings, and the two
  contracts that several components promise: a machine whose operations keep an invariant
  and leave the state alone when they fail, and a store that keeps one value per entity.
\<close>

named_theorems go_defs \<open>definitions of small source constants, unfolded together\<close>

section \<open>Machine integers\<close>

type_synonym u8 = "8 word"
type_synonym u16 = "16 word"
type_synonym u32 = "32 word"
type_synonym u64 = "64 word"

text \<open>The source's \<open>world.EntityID\<close>; the id 0 is never a live entity.\<close>

type_synonym entity_id = u64

text \<open>
  A signed 64-bit result: Go's \<open>int64\<close> arithmetic wraps around in two's complement.
\<close>

definition wrap_i64 :: "int \<Rightarrow> int" where
  "wrap_i64 x = (x + 2 ^ 63) mod 2 ^ 64 - 2 ^ 63"

lemma wrap_i64_id: "- (2 ^ 63) \<le> x \<Longrightarrow> x < 2 ^ 63 \<Longrightarrow> wrap_i64 x = x"
  unfolding wrap_i64_def by (subst mod_pos_pos_trivial) auto

lemma wrap_i64_bounds: "- (2 ^ 63) \<le> wrap_i64 x \<and> wrap_i64 x < 2 ^ 63"
proof -
  have "0 \<le> (x + 2 ^ 63) mod 2 ^ 64" and "(x + 2 ^ 63) mod 2 ^ 64 < 2 ^ 64"
    by simp_all
  then show ?thesis by (simp add: wrap_i64_def)
qed

text \<open>
  The overflow guard \<open>amount > MaxUint - current\<close> of the source says exactly that the
  sum does not fit.
\<close>

lemma unat_max_minus: "unat (- 1 - c :: 'a::len word) = 2 ^ LENGTH('a) - 1 - unat c"
proof -
  have "c \<le> - 1" by simp
  then have "unat (- 1 - c) = unat (- 1 :: 'a word) - unat c"
    by (rule unat_sub)
  then show ?thesis by (simp add: unsigned_minus_1_eq_mask mask_eq_exp_minus_1)
qed

lemma overflow_guard:
  fixes a c :: "'a::len word"
  shows "- 1 - c < a \<longleftrightarrow> 2 ^ LENGTH('a) \<le> unat c + unat a"
proof -
  have c: "unat c < 2 ^ LENGTH('a)" by (rule unsigned_less)
  have "- 1 - c < a \<longleftrightarrow> 2 ^ LENGTH('a) - 1 - unat c < unat a"
    by (simp add: word_less_nat_alt unat_max_minus)
  also have "\<dots> \<longleftrightarrow> 2 ^ LENGTH('a) \<le> unat c + unat a"
    using c by linarith
  finally show ?thesis .
qed

lemma unat_plus_no_overflow:
  fixes a c :: "'a::len word"
  shows "unat c + unat a < 2 ^ LENGTH('a) \<Longrightarrow> unat (c + a) = unat c + unat a"
  by (simp add: unat_word_ariths)

lemma unat_minus_le:
  fixes a c :: "'a::len word"
  shows "c \<le> a \<Longrightarrow> unat (a - c) = unat a - unat c"
  by (rule unat_sub)

lemma unat_gt_0_word: "a \<noteq> (0 :: 'a::len word) \<longleftrightarrow> 0 < unat a"
  by (simp add: unat_gt_0)

lemma unat_ucast_32_64 [simp]: "unat (ucast (a :: u32) :: u64) = unat a"
proof -
  have "unat a < 2 ^ 32" using unsigned_less [of a] by simp
  then show ?thesis by (simp add: unsigned_ucast_eq take_bit_nat_eq_self_iff)
qed

text \<open>A product of two 32-bit values fits into 64 bits.\<close>

lemma unat_mult_32_64:
  "unat ((ucast (a :: u32) :: u64) * ucast (b :: u32)) = unat a * unat b"
proof -
  have "unat a < 2 ^ 32" and "unat b < 2 ^ 32"
    using unsigned_less [of a] unsigned_less [of b] by simp_all
  then have "unat a * unat b < 2 ^ 32 * 2 ^ 32"
    by (intro mult_strict_mono) auto
  then have "unat a * unat b < 2 ^ 64" by simp
  then show ?thesis by (simp add: unat_word_ariths)
qed

text \<open>A sum of two 32-bit values fits into 64 bits.\<close>

lemma unat_plus_32_64:
  "unat ((ucast (a :: u32) :: u64) + ucast (b :: u32)) = unat a + unat b"
proof -
  have "unat a < 2 ^ 32" and "unat b < 2 ^ 32"
    using unsigned_less [of a] unsigned_less [of b] by simp_all
  then show ?thesis by (simp add: unat_word_ariths)
qed

lemma uint_word_of_int_id:
  "0 \<le> x \<Longrightarrow> x < 2 ^ LENGTH('a) \<Longrightarrow> uint (word_of_int x :: 'a::len word) = x"
  by (simp add: unsigned_of_int take_bit_int_eq_self)

lemma u32_bound: "unat (a :: u32) < 2 ^ 32"
  using unsigned_less [of a] by simp

lemma u64_bound: "unat (a :: u64) < 2 ^ 64"
  using unsigned_less [of a] by simp

section \<open>Go maps\<close>

text \<open>
  A Go map is a finite map. \<open>m[k]\<close> yields the zero value of the value type where the
  key is absent (\<open>gomap_at\<close>), \<open>len(m)\<close> counts the keys (\<open>gomap_len\<close>), and a quantity
  defined by a loop over all entries is a sum over the keys (\<open>gomap_sum\<close>).
\<close>

definition gomap_at :: "'v \<Rightarrow> ('k, 'v) fmap \<Rightarrow> 'k \<Rightarrow> 'v" where
  "gomap_at z m k = (case fmlookup m k of None \<Rightarrow> z | Some v \<Rightarrow> v)"

definition gomap_has :: "('k, 'v) fmap \<Rightarrow> 'k \<Rightarrow> bool" where
  "gomap_has m k = (fmlookup m k \<noteq> None)"

definition gomap_len :: "('k, 'v) fmap \<Rightarrow> nat" where
  "gomap_len m = card (fmdom' m)"

definition gomap_sum :: "('k \<Rightarrow> 'v \<Rightarrow> nat) \<Rightarrow> ('k, 'v) fmap \<Rightarrow> nat" where
  "gomap_sum f m = (\<Sum>k \<in> fmdom' m. f k (the (fmlookup m k)))"

lemma gomap_at_upd [simp]: "gomap_at z (fmupd k v m) k' = (if k = k' then v else gomap_at z m k')"
  by (simp add: gomap_at_def)

lemma gomap_at_drop [simp]: "gomap_at z (fmdrop k m) k' = (if k = k' then z else gomap_at z m k')"
  by (simp add: gomap_at_def)

lemma gomap_at_empty [simp]: "gomap_at z fmempty k = z"
  by (simp add: gomap_at_def)

lemma gomap_at_None: "fmlookup m k = None \<Longrightarrow> gomap_at z m k = z"
  by (simp add: gomap_at_def)

lemma gomap_at_Some: "fmlookup m k = Some v \<Longrightarrow> gomap_at z m k = v"
  by (simp add: gomap_at_def)

lemma gomap_at_neq_zero: "gomap_at z m k \<noteq> z \<Longrightarrow> fmlookup m k = Some (gomap_at z m k)"
  by (simp add: gomap_at_def split: option.splits)

lemma gomap_has_upd [simp]: "gomap_has (fmupd k v m) k' = (k = k' \<or> gomap_has m k')"
  by (simp add: gomap_has_def)

lemma gomap_has_drop [simp]: "gomap_has (fmdrop k m) k' = (k \<noteq> k' \<and> gomap_has m k')"
  by (simp add: gomap_has_def)

lemma gomap_has_empty [simp]: "\<not> gomap_has fmempty k"
  by (simp add: gomap_has_def)

lemma gomap_has_dom: "gomap_has m k \<longleftrightarrow> k \<in> fmdom' m"
  by (simp add: gomap_has_def fmlookup_dom'_iff)

lemma gomap_len_empty [simp]: "gomap_len fmempty = 0"
  by (simp add: gomap_len_def)

lemma gomap_len_upd [simp]:
  "gomap_len (fmupd k v m) = (if gomap_has m k then gomap_len m else Suc (gomap_len m))"
  by (simp add: gomap_len_def gomap_has_dom card_insert_if)

lemma gomap_len_drop: "gomap_len (fmdrop k m) = gomap_len m - (if gomap_has m k then 1 else 0)"
  by (simp add: gomap_len_def gomap_has_dom card_Diff_singleton_if)

lemma gomap_len_pos: "gomap_has m k \<Longrightarrow> 0 < gomap_len m"
  by (auto simp: gomap_len_def gomap_has_dom card_gt_0_iff)

lemma gomap_len_drop_le: "gomap_len (fmdrop k m) \<le> gomap_len m"
  by (simp add: gomap_len_drop)

lemma gomap_sum_empty [simp]: "gomap_sum f fmempty = 0"
  by (simp add: gomap_sum_def)

text \<open>The sum splits off the entry of any one key.\<close>

lemma gomap_sum_split:
  "gomap_sum f m = gomap_sum f (fmdrop k m) + (case fmlookup m k of None \<Rightarrow> 0 | Some v \<Rightarrow> f k v)"
proof (cases "fmlookup m k")
  case None
  then have "fmdrop k m = m"
    by (intro fmdrop_idle') (simp add: fmlookup_dom'_iff)
  with None show ?thesis by simp
next
  case (Some v)
  then have k: "k \<in> fmdom' m" by (simp add: fmlookup_dom'_iff)
  have "(\<Sum>j \<in> fmdom' m - {k}. f j (the (fmlookup m j))) =
        (\<Sum>j \<in> fmdom' m - {k}. f j (the (fmlookup (fmdrop k m) j)))"
    by (rule sum.cong) auto
  with k Some show ?thesis
    by (simp add: gomap_sum_def sum.remove [where x = k])
qed

lemma gomap_sum_drop:
  "fmlookup m k = Some v \<Longrightarrow> gomap_sum f m = gomap_sum f (fmdrop k m) + f k v"
  by (subst gomap_sum_split [of f m k]) simp

lemma gomap_sum_upd: "gomap_sum f (fmupd k v m) = gomap_sum f (fmdrop k m) + f k v"
  by (subst gomap_sum_split [of f "fmupd k v m" k]) (simp add: fmdrop_fmupd_same)

lemma gomap_sum_upd_new:
  "fmlookup m k = None \<Longrightarrow> gomap_sum f (fmupd k v m) = gomap_sum f m + f k v"
  by (subst gomap_sum_split [of f m k]) (simp add: gomap_sum_upd)

lemma gomap_sum_ge: "fmlookup m k = Some v \<Longrightarrow> f k v \<le> gomap_sum f m"
  by (simp add: gomap_sum_drop)

text \<open>The keys in ascending order, as the source obtains them by \<open>sort.Slice\<close>.\<close>

definition gomap_keys :: "('k::linorder, 'v) fmap \<Rightarrow> 'k list" where
  "gomap_keys m = sorted_list_of_set (fmdom' m)"

lemma gomap_keys_props:
  "sorted (gomap_keys m)" "distinct (gomap_keys m)" "set (gomap_keys m) = fmdom' m"
  by (simp_all add: gomap_keys_def)

text \<open>A Go map filled by a loop over a list, keyed by a field; a later entry replaces an earlier one.\<close>

definition gomap_of :: "('a \<Rightarrow> 'k) \<Rightarrow> 'a list \<Rightarrow> ('k, 'a) fmap" where
  "gomap_of key xs = foldl (\<lambda>m x. fmupd (key x) x m) fmempty xs"

lemma gomap_of_snoc: "gomap_of key (xs @ [x]) = fmupd (key x) x (gomap_of key xs)"
  by (simp add: gomap_of_def)

lemma gomap_of_dom: "fmdom' (gomap_of key xs) = key ` set xs"
  by (induction xs rule: rev_induct) (simp_all add: gomap_of_snoc, simp add: gomap_of_def)

lemma gomap_of_lookup:
  "distinct (map key xs) \<Longrightarrow> fmlookup (gomap_of key xs) k = Some x \<longleftrightarrow> x \<in> set xs \<and> key x = k"
proof (induction xs rule: rev_induct)
  case Nil
  show ?case by (simp add: gomap_of_def)
next
  case (snoc y ys)
  then show ?case by (auto simp: gomap_of_snoc)
qed

section \<open>strings.TrimSpace\<close>

text \<open>
  A Go string is a sequence of bytes; HOL's \<^typ>\<open>char\<close> is a byte. \<open>strings.TrimSpace\<close>
  removes the code points of \<open>unicode.IsSpace\<close> from both ends; these are their UTF-8
  encodings. An encoding at the end of the string is found by stepping back to the nearest
  byte that starts a rune, so the bytes decide alone and comparing prefixes and suffixes is
  exact.
\<close>

definition unicode_spaces :: "string list" where
  "unicode_spaces =
     [[CHR 0x09], [CHR 0x0A], [CHR 0x0B], [CHR 0x0C], [CHR 0x0D], [CHR 0x20],
      [CHR 0xC2, CHR 0x85], [CHR 0xC2, CHR 0xA0], [CHR 0xE1, CHR 0x9A, CHR 0x80]] @
     map (\<lambda>c. [CHR 0xE2, CHR 0x80, c])
       [CHR 0x80, CHR 0x81, CHR 0x82, CHR 0x83, CHR 0x84, CHR 0x85, CHR 0x86, CHR 0x87,
        CHR 0x88, CHR 0x89, CHR 0x8A, CHR 0xA8, CHR 0xA9, CHR 0xAF] @
     [[CHR 0xE2, CHR 0x81, CHR 0x9F], [CHR 0xE3, CHR 0x80, CHR 0x80]]"

fun strip_one :: "string list \<Rightarrow> string \<Rightarrow> string option" where
  "strip_one [] s = None"
| "strip_one (w # ws) s =
     (if w \<noteq> [] \<and> take (length w) s = w then Some (drop (length w) s) else strip_one ws s)"

lemma drop_shorter: "w \<noteq> [] \<Longrightarrow> take (length w) s = w \<Longrightarrow> length (drop (length w) s) < length s"
  by (cases s) auto

lemma strip_one_shorter: "strip_one ws s = Some t \<Longrightarrow> length t < length s"
proof (induction ws s rule: strip_one.induct)
  case (2 w ws s)
  then show ?case using drop_shorter [of w s] by (auto split: if_splits)
qed simp

function strip_all :: "string list \<Rightarrow> string \<Rightarrow> string" where
  "strip_all ws s = (case strip_one ws s of None \<Rightarrow> s | Some t \<Rightarrow> strip_all ws t)"
  by pat_completeness auto
termination
  by (relation "measure (\<lambda>(ws, s). length s)") (auto dest: strip_one_shorter)

declare strip_all.simps [simp del]

definition TrimSpace :: "string \<Rightarrow> string" where
  "TrimSpace s =
     rev (strip_all (map rev unicode_spaces) (rev (strip_all unicode_spaces s)))"

text \<open>No encoding of a space at the front.\<close>

definition no_lead :: "string list \<Rightarrow> string \<Rightarrow> bool" where
  "no_lead ws s = list_all (\<lambda>w. w = [] \<or> take (length w) s \<noteq> w) ws"

lemma strip_one_None: "strip_one ws s = None \<longleftrightarrow> no_lead ws s"
  by (induction ws s rule: strip_one.induct) (auto simp: no_lead_def)

lemma strip_all_no_lead: "no_lead ws (strip_all ws s)"
proof (induction ws s rule: strip_all.induct)
  case (1 ws s)
  show ?case
  proof (cases "strip_one ws s")
    case None
    then show ?thesis
      by (simp add: strip_all.simps [of ws s] flip: strip_one_None)
  next
    case (Some t)
    with "1.IH" show ?thesis by (simp add: strip_all.simps [of ws s])
  qed
qed

lemma strip_all_id: "no_lead ws s \<Longrightarrow> strip_all ws s = s"
  by (subst strip_all.simps) (simp add: strip_one_None [symmetric])

lemma strip_one_suffix: "strip_one ws s = Some t \<Longrightarrow> \<exists>p. s = p @ t"
proof (induction ws s rule: strip_one.induct)
  case (2 w ws s)
  then show ?case
    by (cases "w \<noteq> [] \<and> take (length w) s = w") (auto, metis append_take_drop_id)
qed simp

lemma strip_all_suffix: "\<exists>p. s = p @ strip_all ws s"
proof (induction ws s rule: strip_all.induct)
  case (1 ws s)
  show ?case
  proof (cases "strip_one ws s")
    case None
    then show ?thesis by (simp add: strip_all.simps [of ws s])
  next
    case (Some t)
    then obtain q where "s = q @ t" using strip_one_suffix by blast
    moreover obtain p where "t = p @ strip_all ws t" using "1.IH" Some by blast
    moreover have "strip_all ws s = strip_all ws t"
      using Some by (simp add: strip_all.simps [of ws s])
    ultimately have "s = (q @ p) @ strip_all ws s" by simp
    then show ?thesis by blast
  qed
qed

lemma no_lead_prefix: "no_lead ws (p @ q) \<Longrightarrow> no_lead ws p"
proof (unfold no_lead_def list_all_iff, intro ballI)
  fix w assume all: "\<forall>w\<in>set ws. w = [] \<or> take (length w) (p @ q) \<noteq> w" and w: "w \<in> set ws"
  show "w = [] \<or> take (length w) p \<noteq> w"
  proof (rule ccontr)
    assume "\<not> ?thesis"
    then have "w \<noteq> []" and tw: "take (length w) p = w" by auto
    then have "length w \<le> length p" by (metis length_take min.cobounded1)
    then have "take (length w) (p @ q) = w" using tw by simp
    with all w \<open>w \<noteq> []\<close> show False by blast
  qed
qed

text \<open>A string is trimmed when no space stands at either end; \<open>TrimSpace\<close> makes it so.\<close>

definition trimmed :: "string \<Rightarrow> bool" where
  "trimmed s = (no_lead unicode_spaces s \<and> no_lead (map rev unicode_spaces) (rev s))"

lemma TrimSpace_trimmed [simp]: "trimmed (TrimSpace s)"
proof -
  define t where "t = strip_all unicode_spaces s"
  obtain p where p: "rev t = p @ strip_all (map rev unicode_spaces) (rev t)"
    using strip_all_suffix by blast
  then have "t = TrimSpace s @ rev p"
    by (metis TrimSpace_def rev_append rev_rev_ident t_def)
  then have "no_lead unicode_spaces (TrimSpace s)"
    using strip_all_no_lead [of unicode_spaces s] no_lead_prefix by (metis t_def)
  then show ?thesis
    by (simp add: trimmed_def) (simp add: TrimSpace_def strip_all_no_lead)
qed

lemma TrimSpace_id: "trimmed s \<Longrightarrow> TrimSpace s = s"
  by (simp add: TrimSpace_def trimmed_def strip_all_id)

lemma TrimSpace_idem [simp]: "TrimSpace (TrimSpace s) = TrimSpace s"
  by (simp add: TrimSpace_id)

lemma trimmed_iff: "trimmed s \<longleftrightarrow> TrimSpace s = s"
  by (metis TrimSpace_id TrimSpace_trimmed)

text \<open>Most identifiers begin and end with a letter or a digit, which decides by the ends alone.\<close>

definition plain_ends :: "string \<Rightarrow> bool" where
  "plain_ends s = (s \<noteq> [] \<and> (of_char (hd s) :: nat) > 0x20 \<and> (of_char (hd s) :: nat) < 0x80 \<and>
     (of_char (last s) :: nat) > 0x20 \<and> (of_char (last s) :: nat) < 0x80)"

lemma no_lead_hd: "s \<noteq> [] \<Longrightarrow> (\<And>w. w \<in> set ws \<Longrightarrow> w \<noteq> [] \<Longrightarrow> hd w \<noteq> hd s) \<Longrightarrow> no_lead ws s"
  unfolding no_lead_def list_all_iff
  by (metis hd_take length_greater_0_conv)

lemma plain_ends_trimmed: "plain_ends s \<Longrightarrow> trimmed s"
proof -
  assume p: "plain_ends s"
  have lead: "(of_char (hd w) :: nat) \<le> 0x20 \<or> 0x80 \<le> (of_char (hd w) :: nat)"
    if "w \<in> set unicode_spaces" for w
    using that by (auto simp: unicode_spaces_def)
  have trail: "(of_char (hd w) :: nat) \<le> 0x20 \<or> 0x80 \<le> (of_char (hd w) :: nat)"
    if "w \<in> set (map rev unicode_spaces)" for w
    using that by (auto simp: unicode_spaces_def)
  show ?thesis
    unfolding trimmed_def using p lead trail
    by (intro conjI no_lead_hd) (fastforce simp: plain_ends_def hd_rev)+
qed

lemma plain_ends_TrimSpace: "plain_ends s \<Longrightarrow> TrimSpace s = s"
  by (simp add: TrimSpace_id plain_ends_trimmed)

lemma TrimSpace_Nil [simp]: "TrimSpace [] = []"
  by (rule TrimSpace_id) (simp add: trimmed_def no_lead_def unicode_spaces_def)

section \<open>Contracts\<close>

text \<open>
  An operation of a component takes its state to an answer, an error (\<open>Inl\<close>) or a
  result (\<open>Inr\<close>), and the new state. Go code mutates through a pointer, so an operation
  that fails may still have changed the state: that it does not is a law to prove.
\<close>

type_synonym ('s, 'e, 'a) op = "'s \<Rightarrow> ('e + 'a) \<times> 's"

primrec run_ops :: "('o \<Rightarrow> 's \<Rightarrow> 'r \<times> 's) \<Rightarrow> 'o list \<Rightarrow> 's \<Rightarrow> 's" where
  "run_ops step [] s = s"
| "run_ops step (x # xs) s = run_ops step xs (snd (step x s))"

primrec run_accepted :: "('o \<Rightarrow> 's \<Rightarrow> ('e + 'a) \<times> 's) \<Rightarrow> 'o list \<Rightarrow> 's \<Rightarrow> 'o list" where
  "run_accepted step [] s = []"
| "run_accepted step (x # xs) s =
     (if isl (fst (step x s)) then run_accepted step xs (snd (step x s))
      else x # run_accepted step xs (snd (step x s)))"

lemma run_ops_append: "run_ops step (xs @ ys) s = run_ops step ys (run_ops step xs s)"
  by (induction xs arbitrary: s) simp_all

text \<open>The operations that satisfy a guard keep the component's invariant.\<close>

locale guarded_invariant =
  fixes step :: "'o \<Rightarrow> 's \<Rightarrow> 'r \<times> 's"
    and allowed :: "'o \<Rightarrow> bool"
    and inv :: "'s \<Rightarrow> bool"
  assumes allowed_inv: "allowed x \<Longrightarrow> inv s \<Longrightarrow> inv (snd (step x s))"
begin

lemma run_allowed: "list_all allowed xs \<Longrightarrow> inv s \<Longrightarrow> inv (run_ops step xs s)"
  by (induction xs arbitrary: s) (auto intro: allowed_inv)

end

text \<open>Every operation of the component keeps its invariant, failed ones included.\<close>

locale kept_invariant =
  fixes step :: "'o \<Rightarrow> 's \<Rightarrow> 'r \<times> 's"
    and inv :: "'s \<Rightarrow> bool"
  assumes step_inv: "inv s \<Longrightarrow> inv (snd (step x s))"

sublocale kept_invariant \<subseteq> unguarded: guarded_invariant step "\<lambda>_. True" inv
  by unfold_locales (rule step_inv)

context kept_invariant
begin

lemma run_inv: "inv s \<Longrightarrow> inv (run_ops step xs s)"
  by (rule unguarded.run_allowed) (simp_all add: list_all_iff)

lemma prefix_inv: "inv s \<Longrightarrow> prefix xs ys \<Longrightarrow> inv (run_ops step xs s)"
  by (simp add: run_inv)

end

text \<open>
  In addition a failed operation leaves the state alone. Then a run is the run of its
  accepted operations: the rejected ones can be erased from the history.
\<close>

locale atomic_machine = kept_invariant step inv
  for step :: "'o \<Rightarrow> 's \<Rightarrow> ('e + 'a) \<times> 's"
    and inv :: "'s \<Rightarrow> bool" +
  assumes step_atomic: "inv s \<Longrightarrow> fst (step x s) = Inl e \<Longrightarrow> snd (step x s) = s"
begin

lemma run_erase_rejected: "inv s \<Longrightarrow> run_ops step (run_accepted step xs s) s = run_ops step xs s"
proof (induction xs arbitrary: s)
  case (Cons x xs)
  then show ?case
    by (cases "fst (step x s)") (simp_all add: step_atomic step_inv)
qed simp

lemma accepted_all_accepted:
  "inv s \<Longrightarrow> run_accepted step (run_accepted step xs s) s = run_accepted step xs s"
proof (induction xs arbitrary: s)
  case (Cons x xs)
  then show ?case
    by (cases "fst (step x s)") (simp_all add: step_atomic step_inv)
qed simp

end

text \<open>
  A store that keeps a value for each live entity: clearing an entity forgets its value and
  no other, which is what the world owner relies on when it recycles an entity id.
\<close>

locale entity_store =
  fixes view :: "'s \<Rightarrow> entity_id \<Rightarrow> 'v"
    and clear :: "entity_id \<Rightarrow> 's \<Rightarrow> 's"
    and none :: 'v
  assumes clear_same: "e \<noteq> 0 \<Longrightarrow> view (clear e s) e = none"
    and clear_other: "e' \<noteq> e \<Longrightarrow> view (clear e s) e' = view s e'"
begin

lemma clear_twice: "e \<noteq> 0 \<Longrightarrow> view (clear e (clear e s)) e' = view (clear e s) e'"
  by (cases "e' = e") (simp_all add: clear_same clear_other)

lemma clear_all:
  assumes "0 \<notin> set es"
  shows "view (fold clear es s) e = (if e \<in> set es then none else view s e)"
  using assms
proof (induction es rule: rev_induct)
  case (snoc x xs)
  then show ?case
    by (cases "e = x") (auto simp: clear_same clear_other)
qed simp

end

text \<open>Such a store with a write: a value put for an entity is what is read back for it.\<close>

locale entity_store_write = entity_store view clear none
  for view :: "'s \<Rightarrow> entity_id \<Rightarrow> 'v"
    and clear :: "entity_id \<Rightarrow> 's \<Rightarrow> 's"
    and none :: 'v +
  fixes put :: "entity_id \<Rightarrow> 'v \<Rightarrow> 's \<Rightarrow> 's"
    and ok :: "'v \<Rightarrow> bool"
  assumes put_same: "e \<noteq> 0 \<Longrightarrow> ok v \<Longrightarrow> view (put e v s) e = v"
    and put_other: "e' \<noteq> e \<Longrightarrow> view (put e v s) e' = view s e'"
begin

lemma put_clear: "e \<noteq> 0 \<Longrightarrow> view (clear e (put e v s)) e' = view (clear e s) e'"
  by (cases "e' = e") (simp_all add: clear_same clear_other put_other)

lemma clear_put: "e \<noteq> 0 \<Longrightarrow> ok v \<Longrightarrow> view (put e v (clear e s)) e' = view (put e v s) e'"
  by (cases "e' = e") (simp_all add: clear_other put_same put_other)

lemma put_commute:
  "a \<noteq> b \<Longrightarrow> a \<noteq> 0 \<Longrightarrow> b \<noteq> 0 \<Longrightarrow> ok v \<Longrightarrow> ok w \<Longrightarrow>
     view (put a v (put b w s)) e = view (put b w (put a v s)) e"
  by (cases "e = a"; cases "e = b") (simp_all add: put_same put_other)

end

end
