(* ===== verification/SkillCatalog.thy ===== *)
theory SkillCatalog
  imports Prelude
begin

text \<open>
  The classless skill catalog (\<open>internal/skillcatalog/catalog.go\<close>): the 20 formal skills
  with category, activation and combat-loadout eligibility, the lookup by id and the
  validation of a six-slot combat loadout. Errors carry the offending id, as the source's
  wrapped errors do.
\<close>

definition CategoryUniversal :: string where [go_defs]: "CategoryUniversal = ''universal''"
definition CategoryMelee :: string where [go_defs]: "CategoryMelee = ''melee''"
definition CategoryRanged :: string where [go_defs]: "CategoryRanged = ''ranged''"
definition CategoryMagic :: string where [go_defs]: "CategoryMagic = ''magic''"
definition CategorySupport :: string where [go_defs]: "CategorySupport = ''support''"

definition ActivationActive :: string where [go_defs]: "ActivationActive = ''active''"
definition ActivationPassive :: string where [go_defs]: "ActivationPassive = ''passive''"

definition MaxCombatLoadoutSkills :: nat where [go_defs]: "MaxCombatLoadoutSkills = 6"

definition RandomTeleport :: string where [go_defs]: "RandomTeleport = ''random-teleport''"
definition Sunlight :: string where [go_defs]: "Sunlight = ''sunlight''"
definition Guard :: string where [go_defs]: "Guard = ''guard''"
definition Heal :: string where [go_defs]: "Heal = ''heal''"
definition HeavyStrike :: string where [go_defs]: "HeavyStrike = ''heavy-strike''"
definition Flurry :: string where [go_defs]: "Flurry = ''flurry''"
definition Cleave :: string where [go_defs]: "Cleave = ''cleave''"
definition Execute :: string where [go_defs]: "Execute = ''execute''"
definition PiercingShot :: string where [go_defs]: "PiercingShot = ''piercing-shot''"
definition RapidShot :: string where [go_defs]: "RapidShot = ''rapid-shot''"
definition Volley :: string where [go_defs]: "Volley = ''volley''"
definition PinningShot :: string where [go_defs]: "PinningShot = ''pinning-shot''"
definition FireBolt :: string where [go_defs]: "FireBolt = ''fire-bolt''"
definition FrostBurst :: string where [go_defs]: "FrostBurst = ''frost-burst''"
definition Meteor :: string where [go_defs]: "Meteor = ''meteor''"
definition ArcaneLance :: string where [go_defs]: "ArcaneLance = ''arcane-lance''"
definition StrongPhysique :: string where [go_defs]: "StrongPhysique = ''strong-physique''"
definition ClearMeridians :: string where [go_defs]: "ClearMeridians = ''clear-meridians''"
definition SpiritConcentration :: string where
  [go_defs]: "SpiritConcentration = ''spirit-concentration''"
definition Haste :: string where [go_defs]: "Haste = ''haste''"

record skill_definition =
  skill_ID :: string
  skill_Category :: string
  skill_Activation :: string
  skill_CombatLoadoutEligible :: bool

definition skill_definitions :: "skill_definition list" where
  "skill_definitions =
     [\<lparr>skill_ID = RandomTeleport, skill_Category = CategoryUniversal,
        skill_Activation = ActivationActive, skill_CombatLoadoutEligible = False\<rparr>,
      \<lparr>skill_ID = Sunlight, skill_Category = CategoryUniversal,
        skill_Activation = ActivationActive, skill_CombatLoadoutEligible = False\<rparr>,
      \<lparr>skill_ID = Guard, skill_Category = CategoryUniversal,
        skill_Activation = ActivationActive, skill_CombatLoadoutEligible = False\<rparr>,
      \<lparr>skill_ID = Heal, skill_Category = CategoryUniversal,
        skill_Activation = ActivationActive, skill_CombatLoadoutEligible = False\<rparr>,
      \<lparr>skill_ID = HeavyStrike, skill_Category = CategoryMelee,
        skill_Activation = ActivationActive, skill_CombatLoadoutEligible = True\<rparr>,
      \<lparr>skill_ID = Flurry, skill_Category = CategoryMelee,
        skill_Activation = ActivationActive, skill_CombatLoadoutEligible = True\<rparr>,
      \<lparr>skill_ID = Cleave, skill_Category = CategoryMelee,
        skill_Activation = ActivationActive, skill_CombatLoadoutEligible = True\<rparr>,
      \<lparr>skill_ID = Execute, skill_Category = CategoryMelee,
        skill_Activation = ActivationActive, skill_CombatLoadoutEligible = True\<rparr>,
      \<lparr>skill_ID = PiercingShot, skill_Category = CategoryRanged,
        skill_Activation = ActivationActive, skill_CombatLoadoutEligible = True\<rparr>,
      \<lparr>skill_ID = RapidShot, skill_Category = CategoryRanged,
        skill_Activation = ActivationActive, skill_CombatLoadoutEligible = True\<rparr>,
      \<lparr>skill_ID = Volley, skill_Category = CategoryRanged,
        skill_Activation = ActivationActive, skill_CombatLoadoutEligible = True\<rparr>,
      \<lparr>skill_ID = PinningShot, skill_Category = CategoryRanged,
        skill_Activation = ActivationActive, skill_CombatLoadoutEligible = True\<rparr>,
      \<lparr>skill_ID = FireBolt, skill_Category = CategoryMagic,
        skill_Activation = ActivationActive, skill_CombatLoadoutEligible = True\<rparr>,
      \<lparr>skill_ID = FrostBurst, skill_Category = CategoryMagic,
        skill_Activation = ActivationActive, skill_CombatLoadoutEligible = True\<rparr>,
      \<lparr>skill_ID = Meteor, skill_Category = CategoryMagic,
        skill_Activation = ActivationActive, skill_CombatLoadoutEligible = True\<rparr>,
      \<lparr>skill_ID = ArcaneLance, skill_Category = CategoryMagic,
        skill_Activation = ActivationActive, skill_CombatLoadoutEligible = True\<rparr>,
      \<lparr>skill_ID = StrongPhysique, skill_Category = CategorySupport,
        skill_Activation = ActivationPassive, skill_CombatLoadoutEligible = False\<rparr>,
      \<lparr>skill_ID = ClearMeridians, skill_Category = CategorySupport,
        skill_Activation = ActivationPassive, skill_CombatLoadoutEligible = False\<rparr>,
      \<lparr>skill_ID = SpiritConcentration, skill_Category = CategorySupport,
        skill_Activation = ActivationPassive, skill_CombatLoadoutEligible = False\<rparr>,
      \<lparr>skill_ID = Haste, skill_Category = CategorySupport,
        skill_Activation = ActivationActive, skill_CombatLoadoutEligible = False\<rparr>]"

definition skill_byID :: "(string, skill_definition) fmap" where
  "skill_byID = gomap_of skill_ID skill_definitions"

datatype skill_error =
  ErrUnknownSkill string | ErrNotCombatLoadoutSkill string | ErrDuplicateSkill string |
  ErrCombatLoadoutTooLarge

definition skill_All :: "skill_definition list" where
  "skill_All = skill_definitions"

definition skill_Lookup :: "string \<Rightarrow> skill_definition option" where
  "skill_Lookup sid = fmlookup skill_byID sid"

fun checkLoadout :: "string fset \<Rightarrow> string list \<Rightarrow> skill_error option" where
  "checkLoadout seen [] = None"
| "checkLoadout seen (sid # ids) =
     (case skill_Lookup sid of
        None \<Rightarrow> Some (ErrUnknownSkill sid)
      | Some d \<Rightarrow>
          if \<not> skill_CombatLoadoutEligible d then Some (ErrNotCombatLoadoutSkill sid)
          else if sid |\<in>| seen then Some (ErrDuplicateSkill sid)
          else checkLoadout (finsert sid seen) ids)"

definition ValidateCombatLoadout :: "string list \<Rightarrow> skill_error option" where
  "ValidateCombatLoadout ids =
     (if length ids > MaxCombatLoadoutSkills then Some ErrCombatLoadoutTooLarge
      else checkLoadout {||} ids)"

section \<open>The catalog is a function of the id\<close>

lemma skill_ids_distinct: "distinct (map skill_ID skill_definitions)"
  by (simp add: skill_definitions_def go_defs)

lemma skill_count: "length skill_definitions = 20"
  by (simp add: skill_definitions_def)

lemma skill_ids_nonempty: "sid \<in> skill_ID ` set skill_definitions \<Longrightarrow> sid \<noteq> ''''"
  by (auto simp: skill_definitions_def go_defs)

lemma skill_Lookup_iff:
  "skill_Lookup sid = Some d \<longleftrightarrow> d \<in> set skill_definitions \<and> skill_ID d = sid"
  by (simp add: skill_Lookup_def skill_byID_def gomap_of_lookup skill_ids_distinct)

lemma skill_Lookup_known: "skill_Lookup sid \<noteq> None \<longleftrightarrow> sid \<in> skill_ID ` set skill_definitions"
proof
  assume "skill_Lookup sid \<noteq> None"
  then show "sid \<in> skill_ID ` set skill_definitions" by (auto simp: skill_Lookup_iff)
next
  assume "sid \<in> skill_ID ` set skill_definitions"
  then obtain d where "skill_Lookup sid = Some d" by (auto simp: skill_Lookup_iff image_iff)
  then show "skill_Lookup sid \<noteq> None" by simp
qed

lemma skill_Lookup_empty: "skill_Lookup '''' = None"
  using skill_Lookup_known skill_ids_nonempty by blast

definition combat_eligible :: "string \<Rightarrow> bool" where
  "combat_eligible sid =
     (case skill_Lookup sid of None \<Rightarrow> False | Some d \<Rightarrow> skill_CombatLoadoutEligible d)"

lemma checkLoadout_None_iff:
  "checkLoadout seen ids = None \<longleftrightarrow>
     list_all combat_eligible ids \<and> distinct ids \<and> set ids \<inter> fset seen = {}"
  by (induction seen ids rule: checkLoadout.induct)
    (auto simp: combat_eligible_def split: option.splits)

lemma ValidateCombatLoadout_None_iff:
  "ValidateCombatLoadout ids = None \<longleftrightarrow>
     length ids \<le> 6 \<and> list_all combat_eligible ids \<and> distinct ids"
  by (auto simp: ValidateCombatLoadout_def checkLoadout_None_iff MaxCombatLoadoutSkills_def)

lemma combat_eligible_nonempty: "combat_eligible sid \<Longrightarrow> sid \<noteq> ''''"
  using skill_Lookup_empty by (auto simp: combat_eligible_def)

end
