(* ===== verification/LearnedSkills.thy ===== *)
theory LearnedSkills
  imports SkillCatalog
begin

text \<open>
  Learned skills (\<open>internal/learnedskills\<close>): the canonical durable set of \<open>set.go\<close>, an
  array of 20 ids with a count, and the runtime store of \<open>store.go\<close>, a map from entities
  to sets of ids. The store methods take a pointer that may be nil, here an \<open>option\<close>.
\<close>

definition maxDurableSkills :: nat where [go_defs]: "maxDurableSkills = 20"

datatype learned_error =
  Catalog skill_error | ErrTooManySkills | ErrInvalidSet | ErrInvalidEntity | ErrNilStore

section \<open>The durable set\<close>

text \<open>The array field always holds 20 ids; unused places hold the empty string.\<close>

record learned_set =
  set_ids :: "string list"
  set_count :: u8

definition zeroSet :: learned_set where
  "zeroSet = \<lparr>set_ids = replicate maxDurableSkills '''', set_count = 0\<rparr>"

text \<open>The first loop of \<open>NewSet\<close>: formal ids only, none twice.\<close>

fun requestSkills :: "string fset \<Rightarrow> string list \<Rightarrow> learned_error + string fset" where
  "requestSkills requested [] = Inr requested"
| "requestSkills requested (sid # ids) =
     (if skill_Lookup sid = None then Inl (Catalog (ErrUnknownSkill sid))
      else if sid |\<in>| requested then Inl (Catalog (ErrDuplicateSkill sid))
      else requestSkills (finsert sid requested) ids)"

text \<open>The second loop: walk the catalog and store the requested ids in catalog order.\<close>

fun fillSet ::
  "string fset \<Rightarrow> skill_definition list \<Rightarrow> learned_set \<Rightarrow> learned_error + learned_set" where
  "fillSet requested [] s = Inr s"
| "fillSet requested (d # ds) s =
     (if skill_ID d |\<notin>| requested then fillSet requested ds s
      else if unat (set_count s) \<ge> length (set_ids s) then Inl ErrTooManySkills
      else fillSet requested ds
             (s\<lparr>set_ids := (set_ids s)[unat (set_count s) := skill_ID d],
                set_count := set_count s + 1\<rparr>))"

definition NewSet :: "string list \<Rightarrow> learned_error + learned_set" where
  "NewSet ids =
     (if length ids > maxDurableSkills then Inl ErrTooManySkills
      else if ids = [] then Inr zeroSet
      else case requestSkills {||} ids of
             Inl e \<Rightarrow> Inl e
           | Inr requested \<Rightarrow>
               (case fillSet requested skill_All zeroSet of
                  Inl e \<Rightarrow> Inl e
                | Inr s \<Rightarrow>
                    if unat (set_count s) \<noteq> fcard requested then Inl ErrInvalidSet else Inr s))"

definition set_IDs :: "learned_set \<Rightarrow> string list" where
  "set_IDs s = (if set_count s = 0 then [] else take (unat (set_count s)) (set_ids s))"

definition set_Validate :: "learned_set \<Rightarrow> learned_error option" where
  "set_Validate s =
     (if unat (set_count s) > length (set_ids s) then Some ErrInvalidSet
      else case NewSet (set_IDs s) of
             Inl e \<Rightarrow> Some e
           | Inr canonical \<Rightarrow> if canonical \<noteq> s then Some ErrInvalidSet else None)"

definition set_Contains :: "learned_set \<Rightarrow> string \<Rightarrow> bool" where
  "set_Contains s sid = (\<exists>i \<in> set [0..<unat (set_count s)]. set_ids s ! i = sid)"

definition set_Len :: "learned_set \<Rightarrow> nat" where
  "set_Len s = unat (set_count s)"

section \<open>The runtime store\<close>

type_synonym learned_store = "(entity_id, string fset) fmap"

definition learned_NewStore :: learned_store where
  "learned_NewStore = fmempty"

definition learned_validateSet :: "string list \<Rightarrow> learned_error + string fset" where
  "learned_validateSet ids = requestSkills {||} ids"

definition SetLearned ::
  "entity_id \<Rightarrow> string list \<Rightarrow> learned_store option \<Rightarrow> learned_error option \<times> learned_store option"
  where
  "SetLearned entityID ids s =
     (if entityID = 0 then (Some ErrInvalidEntity, s)
      else if ids = [] then (None, map_option (fmdrop entityID) s)
      else case s of
             None \<Rightarrow> (Some ErrNilStore, s)
           | Some m \<Rightarrow>
               (case learned_validateSet ids of
                  Inl e \<Rightarrow> (Some e, s)
                | Inr learned \<Rightarrow> (None, Some (fmupd entityID learned m))))"

definition Learned :: "learned_store option \<Rightarrow> entity_id \<Rightarrow> string list" where
  "Learned s entityID =
     (case s of
        None \<Rightarrow> []
      | Some m \<Rightarrow>
          if entityID = 0 then []
          else (let learned = gomap_at {||} m entityID
                in if fcard learned = 0 then []
                   else filter (\<lambda>sid. sid |\<in>| learned) (map skill_ID skill_All)))"

definition learned_Contains :: "learned_store option \<Rightarrow> entity_id \<Rightarrow> string \<Rightarrow> bool" where
  "learned_Contains s entityID sid =
     (case s of
        None \<Rightarrow> False
      | Some m \<Rightarrow>
          if entityID = 0 \<or> sid = '''' then False else sid |\<in>| gomap_at {||} m entityID)"

definition learned_Count :: "learned_store option \<Rightarrow> entity_id \<Rightarrow> nat" where
  "learned_Count s entityID =
     (case s of
        None \<Rightarrow> 0
      | Some m \<Rightarrow> if entityID = 0 then 0 else fcard (gomap_at {||} m entityID))"

definition learned_ClearEntity :: "entity_id \<Rightarrow> learned_store option \<Rightarrow> learned_store option" where
  "learned_ClearEntity entityID s =
     (case s of
        None \<Rightarrow> None
      | Some m \<Rightarrow> if entityID = 0 then s else Some (fmdrop entityID m))"

section \<open>The durable set is canonical\<close>

definition catalog_ids :: "string list" where
  "catalog_ids = map skill_ID skill_definitions"

lemma catalog_ids_props:
  "distinct catalog_ids" "length catalog_ids = 20" "sid \<in> set catalog_ids \<Longrightarrow> sid \<noteq> ''''"
  using skill_ids_distinct skill_count skill_ids_nonempty by (auto simp: catalog_ids_def)

lemma known_iff: "skill_Lookup sid \<noteq> None \<longleftrightarrow> sid \<in> set catalog_ids"
  by (simp add: skill_Lookup_known catalog_ids_def del: not_None_eq)

definition canon :: "string list \<Rightarrow> learned_set" where
  "canon xs = \<lparr>set_ids = xs @ replicate (20 - length xs) '''', set_count = of_nat (length xs)\<rparr>"

lemma unat_small_8: "n \<le> 20 \<Longrightarrow> unat (of_nat n :: u8) = n"
  by (simp add: unat_of_nat)

lemma canon_fields:
  "length xs \<le> 20 \<Longrightarrow> unat (set_count (canon xs)) = length xs"
  "length xs \<le> 20 \<Longrightarrow> length (set_ids (canon xs)) = 20"
  by (simp_all add: canon_def unat_small_8)

lemma canon_IDs: "length xs \<le> 20 \<Longrightarrow> set_IDs (canon xs) = xs"
proof -
  assume l: "length xs \<le> 20"
  have "(of_nat (length xs) :: u8) = 0 \<Longrightarrow> xs = []"
    using unat_small_8 [OF l] by (metis length_0_conv unat_0)
  then show ?thesis by (auto simp: set_IDs_def canon_def unat_small_8 [OF l])
qed

lemma canon_zero: "canon [] = zeroSet"
  by (simp add: canon_def zeroSet_def go_defs)

lemma canon_Contains: "length xs \<le> 20 \<Longrightarrow> set_Contains (canon xs) sid \<longleftrightarrow> sid \<in> set xs"
  by (auto simp: set_Contains_def canon_def unat_small_8 nth_append in_set_conv_nth)

lemma requestSkills_Inr:
  "requestSkills R ids = Inr T \<longleftrightarrow>
     set ids \<subseteq> set catalog_ids \<and> distinct ids \<and> set ids \<inter> fset R = {} \<and>
     T = R |\<union>| fset_of_list ids"
proof (induction R ids rule: requestSkills.induct)
  case (2 R sid ids)
  then show ?case
    using known_iff [of sid] by auto
qed auto

lemma canon_snoc:
  assumes "length xs < 20"
  shows "(canon xs)\<lparr>set_ids := (set_ids (canon xs))[length xs := x],
                    set_count := set_count (canon xs) + 1\<rparr> = canon (xs @ [x])"
proof -
  from assms obtain n where n: "20 - length xs = Suc n" by (metis Suc_diff_Suc)
  then have "20 - Suc (length xs) = n" by simp
  with n show ?thesis by (simp add: canon_def list_update_append)
qed

lemma fillSet_canon:
  "length xs + length ds \<le> 20 \<Longrightarrow>
     fillSet requested ds (canon xs) =
       Inr (canon (xs @ filter (\<lambda>sid. sid |\<in>| requested) (map skill_ID ds)))"
proof (induction ds arbitrary: xs)
  case (Cons d ds)
  then have l: "length xs < 20" by simp
  have "fillSet requested ds (canon (xs @ [skill_ID d])) =
      Inr (canon ((xs @ [skill_ID d]) @ filter (\<lambda>sid. sid |\<in>| requested) (map skill_ID ds)))"
    using Cons.prems by (intro Cons.IH) simp
  with Cons l show ?case
    by (simp add: canon_snoc canon_fields)
qed simp

text \<open>The ids in catalog order, the only order a canonical set holds.\<close>

definition in_catalog_order :: "string list \<Rightarrow> string list" where
  "in_catalog_order ids = filter (\<lambda>sid. sid \<in> set ids) catalog_ids"

lemma in_catalog_order_props:
  "distinct (in_catalog_order ids)" "length (in_catalog_order ids) \<le> 20"
  "set (in_catalog_order ids) = set ids \<inter> set catalog_ids"
  using catalog_ids_props(1,2) length_filter_le [of "\<lambda>sid. sid \<in> set ids" catalog_ids]
  by (auto simp: in_catalog_order_def)

lemma in_catalog_order_length:
  assumes "set ids \<subseteq> set catalog_ids" and "distinct ids"
  shows "length (in_catalog_order ids) = length ids"
proof -
  have "set (in_catalog_order ids) = set ids" using assms(1) in_catalog_order_props(3) by blast
  then show ?thesis
    using in_catalog_order_props(1) assms(2) by (metis distinct_card)
qed

lemma NewSet_Inr_iff:
  "NewSet ids = Inr s \<longleftrightarrow>
     set ids \<subseteq> set catalog_ids \<and> distinct ids \<and> s = canon (in_catalog_order ids)"
proof (cases "set ids \<subseteq> set catalog_ids \<and> distinct ids")
  case True
  then have len: "length ids \<le> 20"
    using in_catalog_order_length [of ids] in_catalog_order_props(2) [of ids] by simp
  have req: "requestSkills {||} ids = Inr (fset_of_list ids)"
    using True by (simp add: requestSkills_Inr)
  have "fillSet (fset_of_list ids) skill_All (canon []) = Inr (canon (in_catalog_order ids))"
    by (subst fillSet_canon)
      (simp_all add: skill_All_def skill_count in_catalog_order_def catalog_ids_def fset_of_list_elem)
  moreover have "fcard (fset_of_list ids) = length ids"
    using True by (simp add: fcard.rep_eq fset_of_list.rep_eq distinct_card)
  ultimately have "NewSet ids = Inr (canon (in_catalog_order ids))"
    using len req True in_catalog_order_length [of ids] canon_fields(1) [OF in_catalog_order_props(2)]
    by (auto simp: NewSet_def go_defs canon_zero in_catalog_order_def)
  with True show ?thesis by auto
next
  case False
  have "requestSkills {||} ids \<noteq> Inr R" for R
    using False by (auto simp: requestSkills_Inr)
  with False show ?thesis
    by (cases "requestSkills {||} ids") (auto simp: NewSet_def)
qed

lemma set_Validate_None_iff: "set_Validate s = None \<longleftrightarrow> (\<exists>ids. NewSet ids = Inr s)"
proof
  assume "set_Validate s = None"
  then have "NewSet (set_IDs s) = Inr s"
    by (auto simp: set_Validate_def split: if_splits sum.splits)
  then show "\<exists>ids. NewSet ids = Inr s" ..
next
  assume "\<exists>ids. NewSet ids = Inr s"
  then obtain ids where s: "s = canon (in_catalog_order ids)" by (auto simp: NewSet_Inr_iff)
  define xs where "xs = in_catalog_order ids"
  have xs: "set xs \<subseteq> set catalog_ids" "distinct xs" "length xs \<le> 20" "in_catalog_order xs = xs"
    unfolding xs_def using in_catalog_order_props [of ids]
    by (auto simp: in_catalog_order_def intro: filter_cong)
  then have "NewSet xs = Inr (canon xs)" by (simp add: NewSet_Inr_iff)
  then show "set_Validate s = None"
    using xs(3) by (simp add: s set_Validate_def canon_IDs canon_fields flip: xs_def)
qed

end
