(* ===== verification/SkillLoadout.thy ===== *)
theory SkillLoadout
  imports LearnedSkills
begin

text \<open>
  The combat loadout (\<open>internal/skillloadout/store.go\<close>): six slots that are filled from the
  front, their validation, and the store of the loadout of each entity. The caller supplies
  the learned-skill check (\<open>LearnedCheck\<close>), which may be nil.
\<close>

datatype loadout_error =
  Catalog skill_error | ErrInvalidEntity | ErrNilStore | ErrNonCanonicalSlots |
  ErrLearnedCheckRequired | ErrCombatSkillNotLearned string

text \<open>A \<open>Slots\<close> value is an array of six ids; the empty string is a free slot.\<close>

type_synonym slots = "string list"

definition zeroSlots :: slots where
  "zeroSlots = replicate MaxCombatLoadoutSkills ''''"

definition NewSlots :: "string list \<Rightarrow> loadout_error + slots" where
  "NewSlots ids =
     (case ValidateCombatLoadout ids of
        Some e \<Rightarrow> Inl (Catalog e)
      | None \<Rightarrow>
          (let k = min (length ids) (length zeroSlots)
           in Inr (take k ids @ drop k zeroSlots)))"

text \<open>The loop of \<open>Validate\<close>: the ids met, and whether a free slot was seen.\<close>

fun prefixSlots :: "bool \<Rightarrow> string list \<Rightarrow> slots \<Rightarrow> loadout_error + string list" where
  "prefixSlots seenEmpty ids [] = Inr ids"
| "prefixSlots seenEmpty ids (sid # rest) =
     (if sid = '''' then prefixSlots True ids rest
      else if seenEmpty then Inl ErrNonCanonicalSlots
      else prefixSlots seenEmpty (ids @ [sid]) rest)"

definition slots_Validate :: "slots \<Rightarrow> loadout_error option" where
  "slots_Validate slots =
     (case prefixSlots False [] slots of
        Inl e \<Rightarrow> Some e
      | Inr ids \<Rightarrow> map_option Catalog (ValidateCombatLoadout ids))"

definition slots_IDs :: "slots \<Rightarrow> string list" where
  "slots_IDs slots = takeWhile (\<lambda>sid. sid \<noteq> '''') slots"

type_synonym loadout_store = "(entity_id, slots) fmap"

definition SetCombat ::
  "entity_id \<Rightarrow> string list \<Rightarrow> (string \<Rightarrow> bool) option \<Rightarrow> loadout_store option \<Rightarrow>
     loadout_error option \<times> loadout_store option" where
  "SetCombat entityID ids isLearned s =
     (if entityID = 0 then (Some ErrInvalidEntity, s)
      else if ids = [] then (None, map_option (fmdrop entityID) s)
      else case s of
             None \<Rightarrow> (Some ErrNilStore, s)
           | Some m \<Rightarrow>
               (case NewSlots ids of
                  Inl e \<Rightarrow> (Some e, s)
                | Inr slots \<Rightarrow>
                    (case isLearned of
                       None \<Rightarrow> (Some ErrLearnedCheckRequired, s)
                     | Some check \<Rightarrow>
                         (case find (\<lambda>sid. \<not> check sid) (slots_IDs slots) of
                            Some sid \<Rightarrow> (Some (ErrCombatSkillNotLearned sid), s)
                          | None \<Rightarrow> (None, Some (fmupd entityID slots m))))))"

definition loadout_Slots :: "loadout_store option \<Rightarrow> entity_id \<Rightarrow> slots" where
  "loadout_Slots s entityID =
     (case s of
        None \<Rightarrow> zeroSlots
      | Some m \<Rightarrow> if entityID = 0 then zeroSlots else gomap_at zeroSlots m entityID)"

definition loadout_Combat :: "loadout_store option \<Rightarrow> entity_id \<Rightarrow> string list" where
  "loadout_Combat s entityID =
     (case s of
        None \<Rightarrow> []
      | Some m \<Rightarrow> if entityID = 0 then [] else slots_IDs (gomap_at zeroSlots m entityID))"

definition ContainsCombat :: "loadout_store option \<Rightarrow> entity_id \<Rightarrow> string \<Rightarrow> bool" where
  "ContainsCombat s entityID sid =
     (case s of
        None \<Rightarrow> False
      | Some m \<Rightarrow>
          if entityID = 0 \<or> sid = '''' then False
          else sid \<in> set (gomap_at zeroSlots m entityID))"

definition loadout_ClearEntity :: "entity_id \<Rightarrow> loadout_store option \<Rightarrow> loadout_store option" where
  "loadout_ClearEntity entityID s =
     (case s of
        None \<Rightarrow> None
      | Some m \<Rightarrow> if entityID = 0 then s else Some (fmdrop entityID m))"

section \<open>Slots are a padded prefix\<close>

definition padded :: "string list \<Rightarrow> slots" where
  "padded ids = ids @ replicate (6 - length ids) ''''"

lemma padded_IDs: "'''' \<notin> set ids \<Longrightarrow> slots_IDs (padded ids) = ids"
  by (cases "6 - length ids") (auto simp: slots_IDs_def padded_def takeWhile_append)

lemma padded_Nil: "padded [] = zeroSlots"
  by (simp add: padded_def zeroSlots_def go_defs)

lemma NewSlots_Inr_iff:
  "NewSlots ids = Inr s \<longleftrightarrow> ValidateCombatLoadout ids = None \<and> s = padded ids"
proof (cases "ValidateCombatLoadout ids")
  case None
  then have "length ids \<le> 6" by (simp add: ValidateCombatLoadout_None_iff)
  with None show ?thesis
    by (auto simp: NewSlots_def padded_def zeroSlots_def MaxCombatLoadoutSkills_def Let_def)
qed (simp add: NewSlots_def)

lemma prefixSlots_append:
  "'''' \<notin> set xs \<Longrightarrow> prefixSlots False ids (xs @ ys) = prefixSlots False (ids @ xs) ys"
  by (induction xs arbitrary: ids) auto

lemma prefixSlots_empties: "prefixSlots b ids (replicate n '''') = Inr ids"
  by (induction n arbitrary: b) auto

lemma prefixSlots_Inr:
  "prefixSlots b ids s = Inr out \<Longrightarrow>
     \<exists>xs ys. out = ids @ xs \<and> '''' \<notin> set xs \<and> (b \<longrightarrow> xs = []) \<and> s = xs @ ys \<and> set ys \<subseteq> {''''}"
proof (induction b ids s rule: prefixSlots.induct)
  case (2 b ids sid rest)
  show ?case
  proof (cases "sid = ''''")
    case True
    with "2.prems" have "prefixSlots True ids rest = Inr out" by simp
    with "2.IH"(1) True have "out = ids" and "set rest \<subseteq> {''''}" by auto
    with True show ?thesis by (intro exI [of _ "[]"] exI [of _ "sid # rest"]) simp
  next
    case False
    with "2.prems" have b: "\<not> b" and r: "prefixSlots b (ids @ [sid]) rest = Inr out"
      by (auto split: if_splits)
    with "2.IH"(2) False obtain xs ys where
      "out = (ids @ [sid]) @ xs" "'''' \<notin> set xs" "rest = xs @ ys" "set ys \<subseteq> {''''}"
      by blast
    with b False show ?thesis by (intro exI [of _ "sid # xs"] exI [of _ ys]) simp
  qed
qed auto

lemma prefixSlots_padded:
  assumes "prefixSlots False [] s = Inr out" and "length s = 6"
  shows "'''' \<notin> set out \<and> s = padded out"
proof -
  obtain ys where "'''' \<notin> set out" "s = out @ ys" "set ys \<subseteq> {''''}"
    using prefixSlots_Inr [OF assms(1)] by auto
  moreover from this have "ys = replicate (length ys) ''''"
    by (metis replicate_length_same singletonD subsetD)
  moreover have "length ys = 6 - length out"
    using assms(2) \<open>s = out @ ys\<close> by simp
  ultimately show ?thesis by (metis padded_def)
qed

lemma slots_Validate_None_iff:
  assumes "length s = 6"
  shows "slots_Validate s = None \<longleftrightarrow>
    ValidateCombatLoadout (slots_IDs s) = None \<and> s = padded (slots_IDs s)"
proof
  assume "slots_Validate s = None"
  then obtain ids where p: "prefixSlots False [] s = Inr ids" and v: "ValidateCombatLoadout ids = None"
    by (auto simp: slots_Validate_def split: sum.splits)
  from prefixSlots_padded [OF p assms] have "'''' \<notin> set ids" and s: "s = padded ids"
    by blast+
  then have "slots_IDs s = ids" by (simp add: padded_IDs)
  with v s show "ValidateCombatLoadout (slots_IDs s) = None \<and> s = padded (slots_IDs s)" by simp
next
  assume a: "ValidateCombatLoadout (slots_IDs s) = None \<and> s = padded (slots_IDs s)"
  have ne: "'''' \<notin> set (slots_IDs s)" by (auto simp: slots_IDs_def dest: set_takeWhileD)
  have "prefixSlots False [] (padded (slots_IDs s)) = Inr (slots_IDs s)"
    using prefixSlots_append [OF ne] by (simp add: padded_def prefixSlots_empties)
  with a show "slots_Validate s = None" by (simp add: slots_Validate_def)
qed

lemma slots_Validate_IDs: "slots_Validate s = None \<Longrightarrow> ValidateCombatLoadout (slots_IDs s) = None"
proof -
  assume "slots_Validate s = None"
  then obtain ids where p: "prefixSlots False [] s = Inr ids" and v: "ValidateCombatLoadout ids = None"
    by (auto simp: slots_Validate_def split: sum.splits)
  from prefixSlots_Inr [OF p] obtain ys where "'''' \<notin> set ids" "s = ids @ ys" "set ys \<subseteq> {''''}"
    by auto
  then have "slots_IDs s = ids"
    by (cases ys) (auto simp: slots_IDs_def takeWhile_append)
  with v show ?thesis by simp
qed

lemma valid_loadout_nonempty_ids: "ValidateCombatLoadout ids = None \<Longrightarrow> '''' \<notin> set ids"
  using combat_eligible_nonempty by (auto simp: ValidateCombatLoadout_None_iff list_all_iff)

lemma padded_valid:
  "ValidateCombatLoadout ids = None \<Longrightarrow> slots_Validate (padded ids) = None"
  by (subst slots_Validate_None_iff)
    (simp_all add: padded_IDs valid_loadout_nonempty_ids, simp add: padded_def ValidateCombatLoadout_None_iff)

section \<open>The store\<close>

lemma SetCombat_accepted:
  assumes "e \<noteq> 0" and "ids \<noteq> []"
  shows "SetCombat e ids (Some check) (Some m) = (None, s') \<longleftrightarrow>
    ValidateCombatLoadout ids = None \<and> list_all check ids \<and> s' = Some (fmupd e (padded ids) m)"
proof (cases "ValidateCombatLoadout ids = None")
  case True
  then have "NewSlots ids = Inr (padded ids)" by (simp add: NewSlots_Inr_iff)
  with True assms show ?thesis
    by (auto simp: SetCombat_def padded_IDs valid_loadout_nonempty_ids find_None_iff list_all_iff
        split: option.splits) (auto simp: find_Some_iff)
next
  case False
  then show ?thesis using assms
    by (auto simp: SetCombat_def NewSlots_def split: option.splits)
qed

lemma SetCombat_rejected: "fst (SetCombat e ids check s) \<noteq> None \<Longrightarrow> snd (SetCombat e ids check s) = s"
  by (auto simp: SetCombat_def split: if_splits option.splits sum.splits)

interpretation loadouts: entity_store_write
    "\<lambda>m e. loadout_Slots (Some m) e"
    "\<lambda>e m. the (loadout_ClearEntity e (Some m))" zeroSlots
    "\<lambda>e slots m. the (snd (SetCombat e (slots_IDs slots) (Some (\<lambda>_. True)) (Some m)))"
    "\<lambda>slots. length slots = 6 \<and> slots_Validate slots = None"
proof unfold_locales
  fix e :: entity_id and v :: slots and m :: loadout_store
  assume e: "e \<noteq> 0" and "length v = 6 \<and> slots_Validate v = None"
  then have v: "ValidateCombatLoadout (slots_IDs v) = None" and p: "v = padded (slots_IDs v)"
    using slots_Validate_None_iff by blast+
  show "loadout_Slots (Some (the (snd (SetCombat e (slots_IDs v) (Some (\<lambda>_. True)) (Some m))))) e = v"
  proof (cases "slots_IDs v = []")
    case True
    with p have "v = zeroSlots" by (simp add: padded_Nil)
    with True e show ?thesis by (simp add: SetCombat_def loadout_Slots_def)
  next
    case False
    then have "SetCombat e (slots_IDs v) (Some (\<lambda>_. True)) (Some m) =
        (None, Some (fmupd e (padded (slots_IDs v)) m))"
      using e v by (simp add: SetCombat_accepted list_all_iff)
    with e p show ?thesis by (simp add: loadout_Slots_def)
  qed
next
  fix e' e :: entity_id and m :: loadout_store and v :: slots
  assume "e' \<noteq> e"
  then show "loadout_Slots (Some (the (snd (SetCombat e (slots_IDs v) (Some (\<lambda>_. True)) (Some m))))) e' =
    loadout_Slots (Some m) e'"
    by (auto simp: SetCombat_def loadout_Slots_def split: option.splits sum.splits)
qed (auto simp: loadout_Slots_def loadout_ClearEntity_def)

end
