(* ===== verification/Appearance.thy ===== *)
theory Appearance
  imports Prelude
begin

text \<open>
  Character skins (\<open>internal/appearance/appearance.go\<close>): the 17 skin ids with the weapon
  type each one favours, and the store of the selected skin of each entity. The empty
  string means that no skin is selected.
\<close>

definition skin_definitions :: "(string \<times> string) list" where
  "skin_definitions =
     [(''skin_knight_d_pelegrini'', ''one_hand_sword''), (''skin_ninja'', ''dagger''),
      (''skin_peasant_girl'', ''one_hand_axe''), (''skin_castle_guard_01'', ''one_hand_spear''),
      (''skin_peasant_man'', ''warhammer''), (''skin_ortiz'', ''morning_star''),
      (''skin_drake'', ''mace''), (''skin_heraklios_by_a_dizon'', ''two_hand_sword''),
      (''skin_brute'', ''two_hand_axe''), (''skin_castle_guard_02'', ''two_hand_spear''),
      (''skin_the_boss'', ''knuckles''), (''skin_ganfaul_m_aure'', ''claw''),
      (''skin_kachujin_g_rosales'', ''dual_blades''), (''skin_erika_archer'', ''bow''),
      (''skin_swat'', ''crossbow''), (''skin_jackie'', ''sling''), (''skin_arissa'', ''staff'')]"

datatype appearance_error = ErrInvalidSkin

definition skin_Resolve :: "string \<Rightarrow> string option" where
  "skin_Resolve sid = map_of skin_definitions sid"

definition ValidSelection :: "string \<Rightarrow> bool" where
  "ValidSelection sid = (if sid = '''' then True else skin_Resolve sid \<noteq> None)"

definition WeaponAffinity :: "string \<Rightarrow> string option" where
  "WeaponAffinity sid = skin_Resolve sid"

type_synonym appearance_store = "(entity_id, string) fmap"

definition appearance_Set ::
  "entity_id \<Rightarrow> string \<Rightarrow> appearance_store \<Rightarrow> appearance_error option \<times> appearance_store" where
  "appearance_Set entityID sid s =
     (if entityID = 0 \<or> \<not> ValidSelection sid then (Some ErrInvalidSkin, s)
      else if sid = '''' then (None, fmdrop entityID s)
      else (None, fmupd entityID sid s))"

definition appearance_Get :: "appearance_store \<Rightarrow> entity_id \<Rightarrow> string" where
  "appearance_Get s entityID = (if entityID = 0 then '''' else gomap_at '''' s entityID)"

definition appearance_ClearEntity :: "entity_id \<Rightarrow> appearance_store \<Rightarrow> appearance_store" where
  "appearance_ClearEntity entityID s = (if entityID = 0 then s else fmdrop entityID s)"

interpretation skins: entity_store_write appearance_Get appearance_ClearEntity "''''"
    "\<lambda>e sid s. snd (appearance_Set e sid s)" ValidSelection
  by unfold_locales (auto simp: appearance_Get_def appearance_ClearEntity_def appearance_Set_def)

text \<open>No two skins favour the same weapon type, and none is the empty id.\<close>

lemma skin_affinity_inj:
  "skin_Resolve a = Some w \<Longrightarrow> skin_Resolve b = Some w \<Longrightarrow> a = b"
proof -
  have d: "distinct (map snd skin_definitions)" by (simp add: skin_definitions_def)
  assume "skin_Resolve a = Some w" and "skin_Resolve b = Some w"
  then have "(a, w) \<in> set skin_definitions" and "(b, w) \<in> set skin_definitions"
    by (auto simp: skin_Resolve_def dest: map_of_SomeD)
  with d show "a = b"
    by (metis distinct_map fst_conv inj_on_eq_iff snd_conv)
qed

end
