(* ===== verification/SkillUse.thy ===== *)
theory SkillUse
  imports SkillLoadout Appearance
begin

text \<open>
  Active-skill legality (\<open>internal/skilluse/policy.go\<close>) and the world owner's skill state
  (\<open>internal/worldruntime/character_skill_state.go\<close>), which composes the learned-skill
  store, the loadout store and the appearance store: restore from durable values, capture
  back to durable values, the legality check of a use, and clear.
\<close>

section \<open>Legality of an active use\<close>

datatype skilluse_error =
  ErrInvalidState | ErrUnknown skill_error | ErrPassiveSkill string | ErrSkillNotLearned string |
  ErrSkillNotConfigured string | ErrSkillUnavailable string

definition skilluse_validateState :: "learned_set \<Rightarrow> slots \<Rightarrow> skilluse_error option" where
  "skilluse_validateState learned loadout =
     (if set_Validate learned \<noteq> None then Some ErrInvalidState
      else if slots_Validate loadout \<noteq> None then Some ErrInvalidState
      else if list_ex (\<lambda>sid. \<not> set_Contains learned sid) (slots_IDs loadout) then Some ErrInvalidState
      else None)"

definition skilluse_contains :: "slots \<Rightarrow> string \<Rightarrow> bool" where
  "skilluse_contains loadout sid = list_ex (\<lambda>configured. configured = sid) (slots_IDs loadout)"

definition ValidateActive :: "string \<Rightarrow> learned_set \<Rightarrow> slots \<Rightarrow> skilluse_error option" where
  "ValidateActive sid learned loadout =
     (case skilluse_validateState learned loadout of
        Some e \<Rightarrow> Some e
      | None \<Rightarrow>
          (case skill_Lookup sid of
             None \<Rightarrow> Some (ErrUnknown (ErrUnknownSkill sid))
           | Some d \<Rightarrow>
               if skill_Activation d \<noteq> ActivationActive then Some (ErrPassiveSkill sid)
               else if skill_CombatLoadoutEligible d then
                 (if \<not> set_Contains learned sid then Some (ErrSkillNotLearned sid)
                  else if \<not> skilluse_contains loadout sid then Some (ErrSkillNotConfigured sid)
                  else None)
               else if skill_Category d = CategoryUniversal \<or> skill_Category d = CategorySupport
               then None
               else Some (ErrSkillUnavailable sid)))"

text \<open>Every formal skill outside the loadout is universal or support, so the last error is dead.\<close>

lemma not_eligible_category:
  "skill_Lookup sid = Some d \<Longrightarrow> \<not> skill_CombatLoadoutEligible d \<Longrightarrow>
     skill_Category d = CategoryUniversal \<or> skill_Category d = CategorySupport"
  by (auto simp: skill_Lookup_iff skill_definitions_def)

lemma eligible_active:
  "skill_Lookup sid = Some d \<Longrightarrow> skill_CombatLoadoutEligible d \<Longrightarrow>
     skill_Activation d = ActivationActive"
  by (auto simp: skill_Lookup_iff skill_definitions_def)

lemma ValidateActive_not_unavailable: "ValidateActive sid learned loadout \<noteq> Some (ErrSkillUnavailable sid')"
  using not_eligible_category
  by (auto simp: ValidateActive_def skilluse_validateState_def split: option.splits if_splits)

lemma skilluse_contains_iff: "skilluse_contains loadout sid \<longleftrightarrow> sid \<in> set (slots_IDs loadout)"
  by (auto simp: skilluse_contains_def list_ex_iff)

definition consistent :: "learned_set \<Rightarrow> slots \<Rightarrow> bool" where
  "consistent learned loadout =
     (set_Validate learned = None \<and> slots_Validate loadout = None \<and>
      list_all (set_Contains learned) (slots_IDs loadout))"

lemma skilluse_validateState_None: "skilluse_validateState learned loadout = None \<longleftrightarrow> consistent learned loadout"
  by (auto simp: skilluse_validateState_def consistent_def list_ex_iff list_all_iff)

lemma ValidateActive_None_iff:
  "ValidateActive sid learned loadout = None \<longleftrightarrow>
     consistent learned loadout \<and>
     (\<exists>d. skill_Lookup sid = Some d \<and> skill_Activation d = ActivationActive \<and>
        (skill_CombatLoadoutEligible d \<longrightarrow> sid \<in> set (slots_IDs loadout)))"
proof (cases "consistent learned loadout")
  case True
  then have "skilluse_validateState learned loadout = None"
    and "sid \<in> set (slots_IDs loadout) \<Longrightarrow> set_Contains learned sid"
    by (simp_all add: skilluse_validateState_None) (simp add: consistent_def list_all_iff)
  with True show ?thesis
    using not_eligible_category [of sid]
    by (auto simp: ValidateActive_def skilluse_contains_iff split: option.splits if_splits)
next
  case False
  then have "skilluse_validateState learned loadout \<noteq> None"
    by (simp add: skilluse_validateState_None del: not_None_eq)
  with False show ?thesis by (auto simp: ValidateActive_def)
qed

section \<open>The world owner's skill state\<close>

datatype skill_state_error =
  ErrCharacterSkillStateInvalid | FromLearned learned_error | FromLoadout loadout_error |
  FromUse skilluse_error | FromAppearance

record skill_runtime =
  run_learned :: learned_store
  run_loadout :: loadout_store
  run_appearance :: appearance_store

definition empty_skill_runtime :: skill_runtime where
  "empty_skill_runtime =
     \<lparr>run_learned = fmempty, run_loadout = fmempty, run_appearance = fmempty\<rparr>"

definition validateCharacterSkillValues :: "learned_set \<Rightarrow> slots \<Rightarrow> skill_state_error option" where
  "validateCharacterSkillValues learned loadout =
     (if set_Validate learned \<noteq> None then Some ErrCharacterSkillStateInvalid
      else if slots_Validate loadout \<noteq> None then Some ErrCharacterSkillStateInvalid
      else if list_ex (\<lambda>sid. \<not> set_Contains learned sid) (slots_IDs loadout)
      then Some ErrCharacterSkillStateInvalid
      else None)"

definition skill_clear :: "entity_id \<Rightarrow> skill_runtime \<Rightarrow> skill_runtime" where
  "skill_clear entityID s =
     (if entityID = 0 then s
      else s\<lparr>run_appearance := appearance_ClearEntity entityID (run_appearance s),
             run_loadout := the (loadout_ClearEntity entityID (Some (run_loadout s))),
             run_learned := the (learned_ClearEntity entityID (Some (run_learned s)))\<rparr>)"

definition skill_restore ::
  "entity_id \<Rightarrow> learned_set \<Rightarrow> slots \<Rightarrow> skill_runtime \<Rightarrow> (skill_state_error + unit) \<times> skill_runtime"
  where
  "skill_restore entityID learned loadout s =
     (if entityID = 0 then (Inl ErrCharacterSkillStateInvalid, s)
      else case validateCharacterSkillValues learned loadout of
             Some e \<Rightarrow> (Inl e, s)
           | None \<Rightarrow>
               (case SetLearned entityID (set_IDs learned) (Some (run_learned s)) of
                  (Some e, st) \<Rightarrow> (Inl (FromLearned e), s\<lparr>run_learned := the st\<rparr>)
                | (None, st) \<Rightarrow>
                    (let s1 = s\<lparr>run_learned := the st\<rparr>;
                         check = (\<lambda>sid. learned_Contains (Some (run_learned s1)) entityID sid)
                     in case SetCombat entityID (slots_IDs loadout) (Some check)
                               (Some (run_loadout s1)) of
                          (Some e, lt) \<Rightarrow>
                            (Inl (FromLoadout e), skill_clear entityID (s1\<lparr>run_loadout := the lt\<rparr>))
                        | (None, lt) \<Rightarrow> (Inr (), s1\<lparr>run_loadout := the lt\<rparr>))))"

definition skill_restoreAppearance ::
  "entity_id \<Rightarrow> string \<Rightarrow> skill_runtime \<Rightarrow> (skill_state_error + unit) \<times> skill_runtime" where
  "skill_restoreAppearance entityID skin s =
     (if entityID = 0 then (Inl FromAppearance, s)
      else case appearance_Set entityID skin (run_appearance s) of
             (Some e, st) \<Rightarrow> (Inl FromAppearance, s\<lparr>run_appearance := st\<rparr>)
           | (None, st) \<Rightarrow> (Inr (), s\<lparr>run_appearance := st\<rparr>))"

definition skill_appearanceID :: "skill_runtime \<Rightarrow> entity_id \<Rightarrow> string" where
  "skill_appearanceID s entityID = appearance_Get (run_appearance s) entityID"

definition skill_capture ::
  "entity_id \<Rightarrow> skill_runtime \<Rightarrow> skill_state_error + learned_set \<times> slots" where
  "skill_capture entityID s =
     (if entityID = 0 then Inl ErrCharacterSkillStateInvalid
      else case NewSet (Learned (Some (run_learned s)) entityID) of
             Inl e \<Rightarrow> Inl ErrCharacterSkillStateInvalid
           | Inr learned \<Rightarrow>
               (let loadout = loadout_Slots (Some (run_loadout s)) entityID
                in case validateCharacterSkillValues learned loadout of
                     Some e \<Rightarrow> Inl e
                   | None \<Rightarrow> Inr (learned, loadout)))"

definition skill_validateActiveUse ::
  "entity_id \<Rightarrow> string \<Rightarrow> skill_runtime \<Rightarrow> skill_state_error option" where
  "skill_validateActiveUse entityID sid s =
     (case skill_capture entityID s of
        Inl e \<Rightarrow> Some e
      | Inr (learned, loadout) \<Rightarrow> map_option FromUse (ValidateActive sid learned loadout))"

text \<open>
  The restore check by durable schema: before schema 7 there is neither field, schema 7 infers
  the learned skills from the loadout, later ones hold both.
\<close>

definition LoadoutSchemaVersion :: u16 where [go_defs]: "LoadoutSchemaVersion = 7"
definition LearnedSkillsSchemaVersion :: u16 where [go_defs]: "LearnedSkillsSchemaVersion = 8"

definition validateCharacterSkillRestore :: "u16 \<Rightarrow> learned_set \<Rightarrow> slots \<Rightarrow> bool" where
  "validateCharacterSkillRestore schema learned loadout =
     (if schema < LoadoutSchemaVersion then learned = zeroSet \<and> loadout = zeroSlots
      else if slots_Validate loadout \<noteq> None then False
      else if schema < LearnedSkillsSchemaVersion then
        (case NewSet (slots_IDs loadout) of Inl e \<Rightarrow> False | Inr inferred \<Rightarrow> inferred = learned)
      else validateCharacterSkillValues learned loadout = None)"

section \<open>What the loadout needs of the learned skills\<close>

lemma NewSet_IDs: "NewSet ids = Inr l \<Longrightarrow> set_IDs l = in_catalog_order ids"
  by (auto simp: NewSet_Inr_iff canon_IDs in_catalog_order_props)

lemma in_catalog_order_idem: "in_catalog_order (in_catalog_order ids) = in_catalog_order ids"
  using in_catalog_order_props(3) [of ids]
  by (auto simp: in_catalog_order_def intro: filter_cong)

lemma NewSet_IDs_again:
  assumes "NewSet ids = Inr l"
  shows "NewSet (set_IDs l) = Inr l"
proof -
  have "set_IDs l = in_catalog_order ids" and "l = canon (in_catalog_order ids)"
    using assms NewSet_IDs by (auto simp: NewSet_Inr_iff)
  then show ?thesis
    using in_catalog_order_props [of ids] by (simp add: NewSet_Inr_iff in_catalog_order_idem)
qed

lemma slots_IDs_nonempty: "'''' \<notin> set (slots_IDs sl)"
  by (auto simp: slots_IDs_def dest: set_takeWhileD)

text \<open>
  The interface between the two stores: the world owner writes the ids of a canonical set,
  and the check it then hands to the loadout store must agree with that set. The client
  lemma shows that under this contract a consistent loadout is never refused.
\<close>

locale learned_provider =
  fixes put :: "entity_id \<Rightarrow> string list \<Rightarrow> 's \<Rightarrow> learned_error option \<times> 's"
    and has :: "'s \<Rightarrow> entity_id \<Rightarrow> string \<Rightarrow> bool"
    and listing :: "'s \<Rightarrow> entity_id \<Rightarrow> string list"
  assumes put_accepts: "e \<noteq> 0 \<Longrightarrow> NewSet ids = Inr l \<Longrightarrow> fst (put e (set_IDs l) st) = None"
    and put_listing: "e \<noteq> 0 \<Longrightarrow> NewSet ids = Inr l \<Longrightarrow> listing (snd (put e (set_IDs l) st)) e = set_IDs l"
    and put_has: "e \<noteq> 0 \<Longrightarrow> NewSet ids = Inr l \<Longrightarrow>
      sid \<noteq> '''' \<Longrightarrow> has (snd (put e (set_IDs l) st)) e sid = set_Contains l sid"
begin

lemma loadout_accepted:
  assumes "e \<noteq> 0" and c: "consistent l sl" and "slots_IDs sl \<noteq> []"
  shows "SetCombat e (slots_IDs sl) (Some (has (snd (put e (set_IDs l) st)) e)) (Some m) =
    (None, Some (fmupd e (padded (slots_IDs sl)) m))"
proof -
  obtain ids where n: "NewSet ids = Inr l"
    using c by (auto simp: consistent_def set_Validate_None_iff)
  have "has (snd (put e (set_IDs l) st)) e sid" if "sid \<in> set (slots_IDs sl)" for sid
  proof -
    have "sid \<noteq> ''''" using that slots_IDs_nonempty [of sl] by auto
    moreover have "set_Contains l sid" using c that by (simp add: consistent_def list_all_iff)
    ultimately show ?thesis using put_has [OF assms(1) n] by simp
  qed
  then have "list_all (has (snd (put e (set_IDs l) st)) e) (slots_IDs sl)"
    by (simp add: list_all_iff)
  then show ?thesis
    using assms c by (simp add: SetCombat_accepted consistent_def slots_Validate_IDs)
qed

lemma listing_recaptured: "e \<noteq> 0 \<Longrightarrow> NewSet ids = Inr l \<Longrightarrow>
  NewSet (listing (snd (put e (set_IDs l) st)) e) = Inr l"
  by (simp add: put_listing NewSet_IDs_again)

end

lemma SetLearned_canonical:
  assumes "e \<noteq> 0" and "NewSet ids = Inr l"
  shows "SetLearned e (set_IDs l) (Some m) =
    (None, Some (if set_IDs l = [] then fmdrop e m else fmupd e (fset_of_list (set_IDs l)) m))"
proof -
  have "requestSkills {||} (set_IDs l) = Inr (fset_of_list (set_IDs l))"
    using assms(2) in_catalog_order_props [of ids] by (simp add: NewSet_IDs requestSkills_Inr)
  with assms(1) show ?thesis by (simp add: SetLearned_def learned_validateSet_def)
qed

lemma set_Contains_IDs: "NewSet ids = Inr l \<Longrightarrow> set_Contains l sid \<longleftrightarrow> sid \<in> set (set_IDs l)"
  by (auto simp: NewSet_Inr_iff canon_IDs canon_Contains in_catalog_order_props)

lemma Learned_upd:
  assumes "e \<noteq> 0" and "NewSet ids = Inr l" and "set_IDs l \<noteq> []"
  shows "Learned (Some (fmupd e (fset_of_list (set_IDs l)) m)) e = set_IDs l"
proof -
  have "fcard (fset_of_list (set_IDs l)) \<noteq> 0"
    using assms(3) by (cases "set_IDs l") (simp_all add: fcard_finsert)
  moreover have "filter (\<lambda>sid. sid \<in> set (set_IDs l)) catalog_ids = set_IDs l"
    using in_catalog_order_idem [of ids] assms(2)
    by (simp add: NewSet_IDs) (simp add: in_catalog_order_def)
  ultimately show ?thesis
    using assms(1) by (simp add: Learned_def Let_def skill_All_def catalog_ids_def fset_of_list_elem)
qed

interpretation learned_owner: learned_provider
    "\<lambda>e ids m. map_prod id the (SetLearned e ids (Some m))"
    "\<lambda>m e sid. learned_Contains (Some m) e sid"
    "\<lambda>m e. Learned (Some m) e"
proof unfold_locales
  fix e :: entity_id and ids l and m :: learned_store
  assume e: "e \<noteq> 0" and n: "NewSet ids = Inr l"
  show "fst (map_prod id the (SetLearned e (set_IDs l) (Some m))) = None"
    using SetLearned_canonical [OF e n] by simp
  show "Learned (Some (snd (map_prod id the (SetLearned e (set_IDs l) (Some m))))) e = set_IDs l"
    using SetLearned_canonical [OF e n, of m] Learned_upd [OF e n, of m] e
    by (auto simp: Learned_def)
  fix sid :: string assume "sid \<noteq> ''''"
  then show "learned_Contains (Some (snd (map_prod id the (SetLearned e (set_IDs l) (Some m))))) e sid =
      set_Contains l sid"
    using SetLearned_canonical [OF e n, of m] e
    by (auto simp: learned_Contains_def set_Contains_IDs [OF n] fset_of_list_elem)
qed

interpretation learned_view: entity_store "\<lambda>m e. Learned (Some m) e"
    "\<lambda>e m. the (learned_ClearEntity e (Some m))" "[]"
  by unfold_locales (auto simp: Learned_def learned_ClearEntity_def)

section \<open>Restore and capture\<close>

lemma validateCharacterSkillValues_None:
  "validateCharacterSkillValues l sl = None \<longleftrightarrow> consistent l sl"
  by (auto simp: validateCharacterSkillValues_def consistent_def list_ex_iff list_all_iff)

definition learned_after :: "entity_id \<Rightarrow> learned_set \<Rightarrow> learned_store \<Rightarrow> learned_store" where
  "learned_after e l m =
     (if set_IDs l = [] then fmdrop e m else fmupd e (fset_of_list (set_IDs l)) m)"

definition loadout_after :: "entity_id \<Rightarrow> slots \<Rightarrow> loadout_store \<Rightarrow> loadout_store" where
  "loadout_after e sl m =
     (if slots_IDs sl = [] then fmdrop e m else fmupd e (padded (slots_IDs sl)) m)"

lemma consistent_NewSet: "consistent l sl \<Longrightarrow> NewSet (set_IDs l) = Inr l"
  using NewSet_IDs_again by (auto simp: consistent_def set_Validate_None_iff)

text \<open>A restore of consistent values succeeds; the store errors inside it cannot happen.\<close>

lemma skill_restore_ok:
  assumes e: "e \<noteq> 0" and c: "consistent l sl"
  shows "skill_restore e l sl s =
    (Inr (), s\<lparr>run_learned := learned_after e l (run_learned s),
               run_loadout := loadout_after e sl (run_loadout s)\<rparr>)"
proof -
  note n = consistent_NewSet [OF c]
  have put: "SetLearned e (set_IDs l) (Some (run_learned s)) =
      (None, Some (learned_after e l (run_learned s)))"
    using SetLearned_canonical [OF e n] by (simp add: learned_after_def)
  have "SetCombat e (slots_IDs sl)
      (Some (learned_Contains (Some (learned_after e l (run_learned s))) e)) (Some (run_loadout s)) =
      (None, Some (loadout_after e sl (run_loadout s)))"
  proof (cases "slots_IDs sl = []")
    case True
    then show ?thesis using e by (simp add: SetCombat_def loadout_after_def)
  next
    case False
    from learned_owner.loadout_accepted [OF e c this, of "run_learned s" "run_loadout s"] put
    show ?thesis using False by (simp add: loadout_after_def)
  qed
  with put e c show ?thesis
    by (simp add: skill_restore_def validateCharacterSkillValues_None [THEN iffD2] Let_def)
qed

lemma skill_restore_Inr:
  "fst (skill_restore e l sl s) = Inr r \<longleftrightarrow> e \<noteq> 0 \<and> consistent l sl"
proof (cases "e \<noteq> 0 \<and> consistent l sl")
  case False
  then show ?thesis
    by (cases "validateCharacterSkillValues l sl")
      (auto simp: skill_restore_def simp flip: validateCharacterSkillValues_None)
qed (simp add: skill_restore_ok)

lemma skill_restore_Inl:
  "fst (skill_restore e l sl s) = Inl x \<Longrightarrow> snd (skill_restore e l sl s) = s"
  using skill_restore_Inr [of e l sl s "()"]
  by (cases "e \<noteq> 0 \<and> consistent l sl"; cases "validateCharacterSkillValues l sl")
    (auto simp: skill_restore_ok, auto simp: skill_restore_def simp flip: validateCharacterSkillValues_None)

lemma Learned_after:
  assumes "e \<noteq> 0" and "NewSet (set_IDs l) = Inr l"
  shows "Learned (Some (learned_after e l m)) e = set_IDs l"
  using Learned_upd [of e "set_IDs l" l m] assms by (auto simp: learned_after_def Learned_def)

lemma loadout_after_slots:
  assumes "e \<noteq> 0" and "slots_Validate sl = None" and "length sl = 6"
  shows "loadout_Slots (Some (loadout_after e sl m)) e = sl"
proof -
  have "padded (slots_IDs sl) = sl" using assms(2,3) slots_Validate_None_iff by metis
  moreover from this have "slots_IDs sl = [] \<Longrightarrow> sl = zeroSlots" by (metis padded_Nil)
  ultimately show ?thesis using assms(1) by (auto simp: loadout_Slots_def loadout_after_def)
qed

lemma skill_restore_recaptured:
  assumes "fst (skill_restore e l sl s) = Inr ()" and "length sl = 6"
  shows "skill_capture e (snd (skill_restore e l sl s)) = Inr (l, sl)"
proof -
  have e: "e \<noteq> 0" and c: "consistent l sl" using assms(1) by (simp_all add: skill_restore_Inr)
  note n = consistent_NewSet [OF c]
  have v: "slots_Validate sl = None" using c by (simp add: consistent_def)
  show ?thesis
    using e c n Learned_after [OF e n] loadout_after_slots [OF e v assms(2)]
    by (simp add: skill_capture_def skill_restore_ok Let_def
        validateCharacterSkillValues_None [THEN iffD2])
qed

text \<open>
  What the world owner restores for an entity it captures back unchanged: the durable
  learned set and the durable loadout survive the round trip through the runtime stores.
\<close>

theorem skill_restore_capture:
  assumes "fst (skill_restore e l sl s) = Inr ()" and "length sl = 6"
  shows "skill_capture e (snd (skill_restore e l sl s)) = Inr (l, sl)"
  using assms by (rule skill_restore_recaptured)

section \<open>The runtime stores stay consistent\<close>

datatype skill_op =
  RestoreSkills entity_id learned_set slots | RestoreAppearance entity_id string | ClearSkills entity_id

fun skill_step :: "skill_op \<Rightarrow> skill_runtime \<Rightarrow> (skill_state_error + unit) \<times> skill_runtime" where
  "skill_step (RestoreSkills e l sl) s = skill_restore e l sl s"
| "skill_step (RestoreAppearance e skin) s = skill_restoreAppearance e skin s"
| "skill_step (ClearSkills e) s = (Inr (), skill_clear e s)"

text \<open>
  Stored learned sets are formal ids, stored loadouts are padded valid loadouts of learned
  skills, stored skins are formal skins; nothing is stored for entity 0.
\<close>

definition learned_ok :: "string fset \<Rightarrow> bool" where
  "learned_ok T = (fset T \<subseteq> set catalog_ids)"

definition loadout_ok :: "string fset \<Rightarrow> slots \<Rightarrow> bool" where
  "loadout_ok T sl = (length sl = 6 \<and> slots_Validate sl = None \<and> set (slots_IDs sl) \<subseteq> fset T)"

definition skill_inv :: "skill_runtime \<Rightarrow> bool" where
  "skill_inv s =
     (\<forall>e. learned_ok (gomap_at {||} (run_learned s) e) \<and>
          loadout_ok (gomap_at {||} (run_learned s) e) (gomap_at zeroSlots (run_loadout s) e) \<and>
          (e = 0 \<longrightarrow> \<not> gomap_has (run_learned s) e \<and> \<not> gomap_has (run_loadout s) e))"

lemma zeroSlots_ok: "loadout_ok T zeroSlots"
  by (simp add: loadout_ok_def slots_Validate_def zeroSlots_def slots_IDs_def go_defs
      prefixSlots_empties numeral_eq_Suc ValidateCombatLoadout_None_iff)

lemma skill_inv_empty: "skill_inv empty_skill_runtime"
  using zeroSlots_ok by (simp add: skill_inv_def empty_skill_runtime_def learned_ok_def)

lemma skill_clear_inv: "skill_inv s \<Longrightarrow> skill_inv (skill_clear e s)"
  using zeroSlots_ok
  by (auto simp: skill_inv_def skill_clear_def loadout_ClearEntity_def learned_ClearEntity_def
      learned_ok_def)

lemma skill_restore_inv:
  assumes inv: "skill_inv s" and e: "e \<noteq> 0" and c: "consistent l sl"
  shows "skill_inv (s\<lparr>run_learned := learned_after e l (run_learned s),
                      run_loadout := loadout_after e sl (run_loadout s)\<rparr>)"
proof -
  note n = consistent_NewSet [OF c]
  have cat: "set (set_IDs l) \<subseteq> set catalog_ids" using n by (simp add: NewSet_Inr_iff)
  have v: "ValidateCombatLoadout (slots_IDs sl) = None"
    using c by (simp add: consistent_def slots_Validate_IDs)
  then have "loadout_ok (fset_of_list (set_IDs l)) (padded (slots_IDs sl))"
    using c padded_valid [OF v] padded_IDs [OF slots_IDs_nonempty [of sl]] set_Contains_IDs [OF n]
    by (auto simp: loadout_ok_def consistent_def list_all_iff fset_of_list_elem padded_def
        ValidateCombatLoadout_None_iff)
  moreover have "set_IDs l = [] \<Longrightarrow> slots_IDs sl = []"
    using c set_Contains_IDs [OF n] by (cases "slots_IDs sl") (auto simp: consistent_def)
  ultimately show ?thesis
    using inv e cat zeroSlots_ok
    by (auto simp: skill_inv_def learned_after_def loadout_after_def learned_ok_def
        fset_of_list_elem)
qed

interpretation skill_machine: atomic_machine skill_step skill_inv
proof unfold_locales
  fix s x assume inv: "skill_inv s"
  show "skill_inv (snd (skill_step x s))"
  proof (cases x)
    case (RestoreSkills e l sl)
    then show ?thesis
      using inv skill_restore_inv [OF inv] skill_restore_Inl [of e l sl s] skill_restore_Inr [of e l sl s "()"]
      by (cases "e \<noteq> 0 \<and> consistent l sl"; cases "fst (skill_restore e l sl s)")
        (auto simp: skill_restore_ok)
  next
    case (RestoreAppearance e skin)
    then show ?thesis
      using inv
      by (simp add: skill_restoreAppearance_def appearance_Set_def skill_inv_def)
  qed (simp add: inv skill_clear_inv)
next
  fix s x e' assume "fst (skill_step x s) = Inl e'"
  then show "snd (skill_step x s) = s"
    using skill_restore_Inl
    by (cases x) (auto simp: skill_restoreAppearance_def appearance_Set_def split: if_splits)
qed

lemma skill_capture_total:
  assumes "skill_inv s" and "e \<noteq> 0"
  shows "\<exists>l sl. skill_capture e s = Inr (l, sl) \<and> consistent l sl"
proof -
  define T where "T = gomap_at {||} (run_learned s) e"
  define sl where "sl = gomap_at zeroSlots (run_loadout s) e"
  have T: "fset T \<subseteq> set catalog_ids" and sl: "loadout_ok T sl"
    using assms(1) by (simp_all add: skill_inv_def T_def sl_def learned_ok_def)
  define ids where "ids = filter (\<lambda>sid. sid |\<in>| T) catalog_ids"
  have L: "Learned (Some (run_learned s)) e = ids"
  proof (cases "fcard T = 0")
    case True
    then have "T = {||}" by simp
    then show ?thesis using assms(2) by (simp add: Learned_def ids_def flip: T_def)
  next
    case False
    then show ?thesis
      using assms(2) by (simp add: Learned_def ids_def skill_All_def catalog_ids_def Let_def flip: T_def)
  qed
  have ids: "set ids = fset T" "distinct ids" "set ids \<subseteq> set catalog_ids"
    using T catalog_ids_props(1) by (auto simp: ids_def)
  define l where "l = canon (in_catalog_order ids)"
  have n: "NewSet ids = Inr l" using ids by (simp add: NewSet_Inr_iff l_def)
  then have "set_IDs l = in_catalog_order ids" by (rule NewSet_IDs)
  then have "set (set_IDs l) = fset T" using ids in_catalog_order_props(3) by auto
  then have "consistent l sl"
    using n sl set_Contains_IDs [OF n]
    by (auto simp: consistent_def set_Validate_None_iff loadout_ok_def list_all_iff)
  then show ?thesis
    using assms(2) n L
    by (simp add: skill_capture_def loadout_Slots_def Let_def
        validateCharacterSkillValues_None [THEN iffD2] flip: sl_def)
qed

text \<open>
  C25. After any sequence of restores, skin changes and clears, from the empty runtime, the
  world owner can capture every entity, and what it captures is a consistent pair: a
  canonical learned set and a valid loadout of learned skills. Requests that were refused
  leave no trace: erasing them from the history gives the same state.
\<close>

theorem skill_history_consistent:
  assumes "e \<noteq> 0"
  shows "(\<exists>l sl. skill_capture e (run_ops skill_step xs empty_skill_runtime) = Inr (l, sl) \<and>
      consistent l sl) \<and>
    run_ops skill_step (run_accepted skill_step xs empty_skill_runtime) empty_skill_runtime =
      run_ops skill_step xs empty_skill_runtime"
  using skill_capture_total [OF skill_machine.run_inv [OF skill_inv_empty] assms]
    skill_machine.run_erase_rejected [OF skill_inv_empty] by blast

text \<open>
  C14. The legality check of an active use accepts exactly the active skills that are
  outside the loadout, or configured in it (and then learned), for a consistent state; it
  never reports \<open>ErrSkillUnavailable\<close>.
\<close>

theorem ValidateActive_exact:
  "(ValidateActive sid learned loadout = None \<longleftrightarrow>
     consistent learned loadout \<and>
     (\<exists>d. skill_Lookup sid = Some d \<and> skill_Activation d = ActivationActive \<and>
        (skill_CombatLoadoutEligible d \<longrightarrow>
           set_Contains learned sid \<and> sid \<in> set (slots_IDs loadout)))) \<and>
   ValidateActive sid learned loadout \<noteq> Some (ErrSkillUnavailable sid')"
proof (intro conjI)
  show "ValidateActive sid learned loadout \<noteq> Some (ErrSkillUnavailable sid')"
    by (rule ValidateActive_not_unavailable)
  show "ValidateActive sid learned loadout = None \<longleftrightarrow>
     consistent learned loadout \<and>
     (\<exists>d. skill_Lookup sid = Some d \<and> skill_Activation d = ActivationActive \<and>
        (skill_CombatLoadoutEligible d \<longrightarrow>
           set_Contains learned sid \<and> sid \<in> set (slots_IDs loadout)))"
    unfolding ValidateActive_None_iff
    by (auto simp: consistent_def list_all_iff)
qed

text \<open>
  Whatever durable schema a character was saved under, values that pass the restore check
  are consistent: the world owner accepts them, and captures them back unchanged.
\<close>

theorem restore_check_accepted:
  assumes "validateCharacterSkillRestore schema learned loadout" and "e \<noteq> 0" and "length loadout = 6"
  shows "fst (skill_restore e learned loadout s) = Inr () \<and>
    skill_capture e (snd (skill_restore e learned loadout s)) = Inr (learned, loadout)"
proof -
  have z: "consistent zeroSet zeroSlots"
  proof -
    have "NewSet [] = Inr zeroSet" by (simp add: NewSet_def)
    then have "set_Validate zeroSet = None" using set_Validate_None_iff by blast
    then show ?thesis
      using zeroSlots_ok [of "{||}"] by (simp add: consistent_def loadout_ok_def)
  qed
  have "consistent learned loadout"
  proof (cases "schema < LoadoutSchemaVersion")
    case True
    with z assms(1) show ?thesis by (simp add: validateCharacterSkillRestore_def)
  next
    case False
    with assms(1) have v: "slots_Validate loadout = None"
      by (simp add: validateCharacterSkillRestore_def split: if_splits)
    show ?thesis
    proof (cases "schema < LearnedSkillsSchemaVersion")
      case True
      with False v assms(1) have n: "NewSet (slots_IDs loadout) = Inr learned"
        by (auto simp: validateCharacterSkillRestore_def split: sum.splits)
      moreover have "set (set_IDs learned) = set (slots_IDs loadout)"
        using n in_catalog_order_props(3) NewSet_IDs [OF n] by (auto simp: NewSet_Inr_iff)
      ultimately show ?thesis
        using v set_Contains_IDs [OF n] by (auto simp: consistent_def set_Validate_None_iff list_all_iff)
    next
      case False': False
      with False v assms(1) show ?thesis
        by (simp add: validateCharacterSkillRestore_def flip: validateCharacterSkillValues_None)
    qed
  qed
  with assms(2) have "fst (skill_restore e learned loadout s) = Inr ()"
    by (simp add: skill_restore_ok)
  then show ?thesis
    using skill_restore_recaptured assms(3) by blast
qed

section \<open>Witnesses\<close>

text \<open>A character with two learned skills, one of them configured.\<close>

definition sample_learned :: learned_set where
  "sample_learned = canon [HeavyStrike, Meteor]"

definition sample_loadout :: slots where
  "sample_loadout = padded [Meteor]"

lemma sample_consistent: "consistent sample_learned sample_loadout" "length sample_loadout = 6"
proof -
  have "NewSet [Meteor, HeavyStrike] = Inr sample_learned"
    by (simp add: NewSet_Inr_iff sample_learned_def in_catalog_order_def catalog_ids_def
        skill_definitions_def go_defs)
  then have "set_Validate sample_learned = None" using set_Validate_None_iff by blast
  moreover have v: "ValidateCombatLoadout [Meteor] = None"
    by (simp add: ValidateCombatLoadout_None_iff combat_eligible_def skill_Lookup_def skill_byID_def
        gomap_of_def skill_definitions_def go_defs)
  moreover have "set_Contains sample_learned Meteor"
    by (simp add: sample_learned_def canon_Contains)
  moreover have "slots_IDs (padded [Meteor]) = [Meteor]" by (simp add: padded_IDs Meteor_def)
  ultimately show "consistent sample_learned sample_loadout"
    by (simp add: consistent_def sample_loadout_def padded_valid)
  show "length sample_loadout = 6" by (simp add: sample_loadout_def padded_def)
qed

theorem skill_restore_capture_witness:
  "skill_capture 7 (snd (skill_restore 7 sample_learned sample_loadout empty_skill_runtime)) =
     Inr (sample_learned, sample_loadout)"
  by (rule skill_restore_capture) (simp_all add: skill_restore_ok sample_consistent)

theorem skill_history_consistent_witness:
  "\<exists>l sl. skill_capture 7 (run_ops skill_step
       [RestoreSkills 7 sample_learned sample_loadout, ClearSkills 7] empty_skill_runtime) =
     Inr (l, sl) \<and> consistent l sl"
  using skill_history_consistent
    [of 7 "[RestoreSkills 7 sample_learned sample_loadout, ClearSkills 7]"] by simp

theorem restore_check_accepted_witness:
  "fst (skill_restore 7 sample_learned sample_loadout empty_skill_runtime) = Inr () \<and>
   skill_capture 7 (snd (skill_restore 7 sample_learned sample_loadout empty_skill_runtime)) =
     Inr (sample_learned, sample_loadout)"
  using sample_consistent
  by (intro restore_check_accepted [of 13])
    (simp_all add: validateCharacterSkillRestore_def go_defs consistent_def
      validateCharacterSkillValues_None [THEN iffD2])

theorem ValidateActive_exact_witness: "ValidateActive Meteor sample_learned sample_loadout = None"
proof -
  have "skill_Lookup Meteor \<noteq> None \<and> skill_Activation (the (skill_Lookup Meteor)) = ActivationActive"
    by code_simp
  then obtain d where "skill_Lookup Meteor = Some d" "skill_Activation d = ActivationActive" by auto
  moreover have "set_Contains sample_learned Meteor"
    by (simp add: sample_learned_def canon_Contains)
  moreover have "Meteor \<in> set (slots_IDs sample_loadout)"
    by (simp add: sample_loadout_def padded_IDs Meteor_def)
  ultimately show ?thesis
    using ValidateActive_exact [of Meteor sample_learned sample_loadout Meteor] sample_consistent(1) by blast
qed

end
