(* ===== verification/EquipmentAffix.thy ===== *)
theory EquipmentAffix
  imports Prelude
begin

text \<open>
  Random equipment affixes (\<open>internal/equipmentaffix/affix.go\<close>): the tiers, equipment
  kinds and affix ids, the pools a kind may roll from, the roll of types without
  replacement and of strengths by a table over 10000 outcomes, and the validation of
  persisted affixes. Tiers, kinds and ids are Go strings, so any string may arrive and the
  source's \<open>default\<close> branches are reachable. The random source is the caller's
  (interface \<open>Roller\<close>): a parameter that answers \<open>Intn\<close> and moves on its own state.
\<close>

definition TierLow :: string where [go_defs]: "TierLow = ''low''"
definition TierMid :: string where [go_defs]: "TierMid = ''mid''"
definition TierHigh :: string where [go_defs]: "TierHigh = ''high''"

definition EquipmentKindWeapon :: string where [go_defs]: "EquipmentKindWeapon = ''weapon''"
definition EquipmentKindShield :: string where [go_defs]: "EquipmentKindShield = ''shield''"
definition EquipmentKindArmor :: string where [go_defs]: "EquipmentKindArmor = ''armor''"

definition AffixStrength :: string where [go_defs]: "AffixStrength = ''affix_strength''"
definition AffixDexterity :: string where [go_defs]: "AffixDexterity = ''affix_dexterity''"
definition AffixIntelligence :: string where [go_defs]: "AffixIntelligence = ''affix_intelligence''"
definition AffixConstitution :: string where [go_defs]: "AffixConstitution = ''affix_constitution''"
definition AffixSpirit :: string where [go_defs]: "AffixSpirit = ''affix_spirit''"
definition AffixCharisma :: string where [go_defs]: "AffixCharisma = ''affix_charisma''"
definition AffixPhysicalHit :: string where [go_defs]: "AffixPhysicalHit = ''affix_physical_hit''"
definition AffixCriticalRating :: string where
  [go_defs]: "AffixCriticalRating = ''affix_critical_rating''"
definition AffixPhysicalDamage :: string where
  [go_defs]: "AffixPhysicalDamage = ''affix_physical_damage''"
definition AffixMagicPower :: string where [go_defs]: "AffixMagicPower = ''affix_magic_power''"
definition AffixEvasion :: string where [go_defs]: "AffixEvasion = ''affix_evasion''"
definition AffixMaxHP :: string where [go_defs]: "AffixMaxHP = ''affix_max_hp''"
definition AffixMaxMP :: string where [go_defs]: "AffixMaxMP = ''affix_max_mp''"
definition AffixPhysicalDefense :: string where
  [go_defs]: "AffixPhysicalDefense = ''affix_physical_defense''"
definition AffixMagicDefense :: string where
  [go_defs]: "AffixMagicDefense = ''affix_magic_defense''"

datatype affix_error =
  ErrInvalidTier | ErrInvalidKind | ErrMissingRandom | ErrInvalidRandomRoll | ErrInvalidAffixes

record affix =
  affix_ID :: string
  affix_Strength :: u8
  affix_Value :: u32

definition weaponPool :: "string list" where
  "weaponPool =
     [AffixStrength, AffixDexterity, AffixIntelligence, AffixConstitution, AffixSpirit,
      AffixCharisma, AffixPhysicalHit, AffixCriticalRating, AffixPhysicalDamage,
      AffixMagicPower]"

definition shieldPool :: "string list" where
  "shieldPool =
     [AffixStrength, AffixDexterity, AffixIntelligence, AffixConstitution, AffixSpirit,
      AffixCharisma, AffixEvasion, AffixMaxHP, AffixMaxMP, AffixPhysicalDefense,
      AffixMagicDefense]"

definition armorPool :: "string list" where
  "armorPool =
     [AffixStrength, AffixDexterity, AffixIntelligence, AffixConstitution, AffixSpirit,
      AffixCharisma, AffixPhysicalHit, AffixCriticalRating, AffixEvasion, AffixMaxHP,
      AffixMaxMP, AffixPhysicalDefense, AffixMagicDefense, AffixMagicPower]"

definition AffixCount :: "string \<Rightarrow> nat option" where
  "AffixCount tier =
     (if tier = TierLow then Some 0
      else if tier = TierMid then Some 1
      else if tier = TierHigh then Some 2
      else None)"

definition AllowedPool :: "string \<Rightarrow> string list option" where
  "AllowedPool kind =
     (if kind = EquipmentKindWeapon then Some weaponPool
      else if kind = EquipmentKindShield then Some shieldPool
      else if kind = EquipmentKindArmor then Some armorPool
      else None)"

definition ValueFor :: "string \<Rightarrow> u8 \<Rightarrow> u32 option" where
  "ValueFor aid strength =
     (if strength < 1 \<or> strength > 5 then None
      else if aid \<in> set [AffixStrength, AffixDexterity, AffixIntelligence, AffixConstitution,
          AffixSpirit, AffixCharisma, AffixPhysicalHit, AffixCriticalRating,
          AffixPhysicalDamage, AffixMagicPower, AffixEvasion, AffixPhysicalDefense,
          AffixMagicDefense] then Some (ucast strength)
      else if aid = AffixMaxHP then Some (ucast strength * 20)
      else if aid = AffixMaxMP then Some (ucast strength * 10)
      else None)"

definition strengthForRoll :: "string \<Rightarrow> int \<Rightarrow> affix_error + u8" where
  "strengthForRoll tier roll =
     (if roll < 0 \<or> roll \<ge> 10000 then Inl ErrInvalidRandomRoll
      else if tier = TierMid then (if roll < 9000 then Inr 1 else Inr 2)
      else if tier = TierHigh then
        (if roll < 9000 then Inr 1
         else if roll < 9700 then Inr 2
         else if roll < 9950 then Inr 3
         else if roll < 9995 then Inr 4
         else Inr 5)
      else Inl ErrInvalidTier)"

definition strengthAllowed :: "string \<Rightarrow> u8 \<Rightarrow> bool" where
  "strengthAllowed tier strength =
     (if tier = TierLow then False
      else if tier = TierMid then strength \<ge> 1 \<and> strength \<le> 2
      else if tier = TierHigh then strength \<ge> 1 \<and> strength \<le> 5
      else False)"

text \<open>The interface \<open>Roller\<close>: the answer to \<open>Intn n\<close> and the roller's next state.\<close>

type_synonym 'r roller = "'r \<Rightarrow> int \<Rightarrow> int \<times> 'r"

definition randomIndex :: "'r roller \<Rightarrow> int \<Rightarrow> 'r \<Rightarrow> (affix_error + nat) \<times> 'r" where
  "randomIndex random n r =
     (if n \<le> 0 then (Inl ErrInvalidRandomRoll, r)
      else case random r n of (value, r') \<Rightarrow>
        (if value < 0 \<or> value \<ge> n then (Inl ErrInvalidRandomRoll, r') else (Inr (nat value), r')))"

definition randomStrength :: "'r roller \<Rightarrow> string \<Rightarrow> 'r \<Rightarrow> (affix_error + u8) \<times> 'r" where
  "randomStrength random tier r =
     (case random r 10000 of (roll, r') \<Rightarrow>
        (if roll < 0 \<or> roll \<ge> 10000 then (Inl ErrInvalidRandomRoll, r')
         else (strengthForRoll tier roll, r')))"

text \<open>
  The loop \<open>for len(affixes) < count\<close> of \<open>Generate\<close>, by the number of affixes still to
  roll; \<open>available\<close> loses the chosen id at every turn.
\<close>

fun rollAffixes ::
  "'r roller \<Rightarrow> string \<Rightarrow> nat \<Rightarrow> string list \<Rightarrow> 'r \<Rightarrow> (affix_error + affix list) \<times> 'r" where
  "rollAffixes random tier 0 available r = (Inr [], r)"
| "rollAffixes random tier (Suc k) available r =
     (case randomIndex random (int (length available)) r of
        (Inl e, r1) \<Rightarrow> (Inl e, r1)
      | (Inr index, r1) \<Rightarrow>
          (let aid = available ! index;
               rest = take index available @ drop (Suc index) available
           in case randomStrength random tier r1 of
                (Inl e, r2) \<Rightarrow> (Inl e, r2)
              | (Inr strength, r2) \<Rightarrow>
                  (case ValueFor aid strength of
                     None \<Rightarrow> (Inl ErrInvalidAffixes, r2)
                   | Some value \<Rightarrow>
                       (case rollAffixes random tier k rest r2 of
                          (Inl e, r3) \<Rightarrow> (Inl e, r3)
                        | (Inr affixes, r3) \<Rightarrow>
                            (Inr (\<lparr>affix_ID = aid, affix_Strength = strength,
                                   affix_Value = value\<rparr> # affixes), r3)))))"

definition affix_Generate ::
  "string \<Rightarrow> string \<Rightarrow> 'r roller option \<Rightarrow> 'r \<Rightarrow> (affix_error + affix list) \<times> 'r" where
  "affix_Generate tier kind random r =
     (case AffixCount tier of
        None \<Rightarrow> (Inl ErrInvalidTier, r)
      | Some cnt \<Rightarrow>
          (case AllowedPool kind of
             None \<Rightarrow> (Inl ErrInvalidKind, r)
           | Some pool \<Rightarrow>
               if cnt = 0 then (Inr [], r)
               else (case random of
                       None \<Rightarrow> (Inl ErrMissingRandom, r)
                     | Some intn \<Rightarrow>
                         (case rollAffixes intn tier cnt pool r of
                            (Inl e, r') \<Rightarrow> (Inl e, r')
                          | (Inr affixes, r') \<Rightarrow> (Inr (sort_key affix_ID affixes), r')))))"

text \<open>The loop of \<open>Validate\<close> over the affixes, with the set \<open>seen\<close> of ids met so far.\<close>

fun validateAffixes :: "string \<Rightarrow> string list \<Rightarrow> string list \<Rightarrow> affix list \<Rightarrow> affix_error option" where
  "validateAffixes tier allowed seen [] = None"
| "validateAffixes tier allowed seen (a # affixes) =
     (if affix_ID a \<notin> set allowed then Some ErrInvalidAffixes
      else if affix_ID a \<in> set seen then Some ErrInvalidAffixes
      else if \<not> strengthAllowed tier (affix_Strength a) then Some ErrInvalidAffixes
      else (case ValueFor (affix_ID a) (affix_Strength a) of
              None \<Rightarrow> Some ErrInvalidAffixes
            | Some value \<Rightarrow>
                if affix_Value a \<noteq> value then Some ErrInvalidAffixes
                else validateAffixes tier allowed (affix_ID a # seen) affixes))"

definition affix_Validate :: "string \<Rightarrow> string \<Rightarrow> affix list \<Rightarrow> affix_error option" where
  "affix_Validate tier kind affixes =
     (case AffixCount tier of
        None \<Rightarrow> Some ErrInvalidTier
      | Some cnt \<Rightarrow>
          (case AllowedPool kind of
             None \<Rightarrow> Some ErrInvalidKind
           | Some pool \<Rightarrow>
               if length affixes \<noteq> cnt then Some ErrInvalidAffixes
               else validateAffixes tier pool [] affixes))"

section \<open>What validation accepts\<close>

definition affix_ok :: "string \<Rightarrow> affix \<Rightarrow> bool" where
  "affix_ok tier a =
     (strengthAllowed tier (affix_Strength a) \<and>
      ValueFor (affix_ID a) (affix_Strength a) = Some (affix_Value a))"

lemma validateAffixes_None_iff:
  "validateAffixes tier allowed seen affixes = None \<longleftrightarrow>
     list_all (affix_ok tier) affixes \<and> set (map affix_ID affixes) \<subseteq> set allowed \<and>
     distinct (map affix_ID affixes) \<and> set (map affix_ID affixes) \<inter> set seen = {}"
  by (induction tier allowed seen affixes rule: validateAffixes.induct)
    (auto simp: affix_ok_def split: option.splits)

lemma affix_Validate_None_iff:
  "affix_Validate tier kind affixes = None \<longleftrightarrow>
     (\<exists>pool. AffixCount tier = Some (length affixes) \<and> AllowedPool kind = Some pool \<and>
        list_all (affix_ok tier) affixes \<and> set (map affix_ID affixes) \<subseteq> set pool \<and>
        distinct (map affix_ID affixes))"
  by (auto simp: affix_Validate_def validateAffixes_None_iff split: option.splits)

lemma validateAffixes_error:
  "validateAffixes tier allowed seen affixes = None \<or>
   validateAffixes tier allowed seen affixes = Some ErrInvalidAffixes"
  by (induction tier allowed seen affixes rule: validateAffixes.induct)
    (auto split: option.splits)

lemma AllowedPool_distinct: "AllowedPool kind = Some pool \<Longrightarrow> distinct pool"
  by (auto simp: AllowedPool_def weaponPool_def shieldPool_def armorPool_def go_defs
      split: if_splits)

lemma AllowedPool_length: "AllowedPool kind = Some pool \<Longrightarrow> 10 \<le> length pool"
  by (auto simp: AllowedPool_def weaponPool_def shieldPool_def armorPool_def split: if_splits)

lemma ValueFor_pool:
  assumes "AllowedPool kind = Some pool" and "aid \<in> set pool" and "1 \<le> s" and "s \<le> 5"
  shows "ValueFor aid s \<noteq> None"
proof -
  from assms(3,4) have "\<not> (s < 1 \<or> s > 5)" by auto
  with assms(1,2) show ?thesis
    by (auto simp: ValueFor_def AllowedPool_def weaponPool_def shieldPool_def armorPool_def
        split: if_splits)
qed

lemma strengthForRoll_allowed:
  "strengthForRoll tier roll = Inr s \<Longrightarrow> strengthAllowed tier s"
  by (auto simp: strengthForRoll_def strengthAllowed_def go_defs split: if_splits)

lemma strengthAllowed_range: "strengthAllowed tier s \<Longrightarrow> 1 \<le> s \<and> s \<le> 5"
  by (auto simp: strengthAllowed_def intro: order_trans split: if_splits)

section \<open>What generation rolls\<close>

lemma randomIndex_range: "randomIndex random n r = (Inr i, r') \<Longrightarrow> int i < n"
  by (auto simp: randomIndex_def split: if_splits prod.splits)

lemma randomStrength_allowed:
  "randomStrength random tier r = (Inr s, r') \<Longrightarrow> strengthAllowed tier s"
  by (auto simp: randomStrength_def intro: strengthForRoll_allowed split: if_splits prod.splits)

text \<open>Taking an id out of a duplicate-free list leaves the other ids.\<close>

lemma remove_nth:
  assumes "distinct xs" and "i < length xs"
  shows "distinct (take i xs @ drop (Suc i) xs)"
    and "set (take i xs @ drop (Suc i) xs) = set xs - {xs ! i}"
proof -
  have eq: "xs = take i xs @ xs ! i # drop (Suc i) xs"
    using assms(2) by (rule id_take_nth_drop)
  then have d: "distinct (take i xs @ xs ! i # drop (Suc i) xs)" using assms(1) by simp
  then show "distinct (take i xs @ drop (Suc i) xs)" by simp
  have "set xs = set (take i xs @ xs ! i # drop (Suc i) xs)" using eq by simp
  then show "set (take i xs @ drop (Suc i) xs) = set xs - {xs ! i}" using d by auto
qed

lemma rollAffixes_props:
  assumes "rollAffixes random tier k available r = (Inr affixes, r')" and "distinct available"
  shows "length affixes = k \<and> list_all (affix_ok tier) affixes \<and>
         set (map affix_ID affixes) \<subseteq> set available \<and> distinct (map affix_ID affixes)"
  using assms
proof (induction random tier k available r arbitrary: affixes r' rule: rollAffixes.induct)
  case (2 random tier k available r)
  from "2.prems"(1) obtain ix r1 strength r2 v as where
    ix: "randomIndex random (int (length available)) r = (Inr ix, r1)" and
    strength: "randomStrength random tier r1 = (Inr strength, r2)" and
    v: "ValueFor (available ! ix) strength = Some v" and
    rec: "rollAffixes random tier k (take ix available @ drop (Suc ix) available) r2
            = (Inr as, r')" and
    affixes: "affixes = \<lparr>affix_ID = available ! ix, affix_Strength = strength,
                         affix_Value = v\<rparr> # as"
    by (auto simp: Let_def split: prod.splits sum.splits option.splits)
  have i: "ix < length available" using randomIndex_range [OF ix] by simp
  note rest = remove_nth [OF "2.prems"(2) i]
  have IH: "length as = k \<and> list_all (affix_ok tier) as \<and>
      set (map affix_ID as) \<subseteq> set available - {available ! ix} \<and> distinct (map affix_ID as)"
    using "2.IH" [OF ix [symmetric] refl refl refl strength [symmetric] refl v rec rest(1)]
    unfolding rest(2) .
  have "affix_ok tier \<lparr>affix_ID = available ! ix, affix_Strength = strength, affix_Value = v\<rparr>"
    using v randomStrength_allowed [OF strength] by (simp add: affix_ok_def)
  then show ?case
    using IH i by (auto simp: affixes)
qed simp

text \<open>Whatever the roller answers, an accepted roll passes validation and is in canonical order.\<close>

lemma affix_Generate_valid:
  assumes "affix_Generate tier kind random r = (Inr affixes, r')"
  shows "affix_Validate tier kind affixes = None"
    and "sorted_wrt (<) (map affix_ID affixes)"
proof -
  from assms obtain cnt pool as where
    c: "AffixCount tier = Some cnt" and p: "AllowedPool kind = Some pool" and
    as: "affixes = sort_key affix_ID as" and
    props: "length as = cnt \<and> list_all (affix_ok tier) as \<and>
      set (map affix_ID as) \<subseteq> set pool \<and> distinct (map affix_ID as)"
    by (auto simp: affix_Generate_def AllowedPool_distinct
        split: option.splits if_splits prod.splits sum.splits dest!: rollAffixes_props)
  have m: "mset affixes = mset as" by (simp add: as)
  have d: "distinct (map affix_ID affixes)"
    using props m by (metis mset_eq_imp_distinct_iff mset_map)
  show "affix_Validate tier kind affixes = None"
    using props c p d by (auto simp: affix_Validate_None_iff as list_all_iff)
  show "sorted_wrt (<) (map affix_ID affixes)"
    using d by (simp add: as strict_sorted_iff)
qed

section \<open>When generation succeeds\<close>

definition fair_roller :: "'r roller \<Rightarrow> bool" where
  "fair_roller random = (\<forall>r n. 0 < n \<longrightarrow> 0 \<le> fst (random r n) \<and> fst (random r n) < n)"

lemma randomIndex_fair:
  "fair_roller random \<Longrightarrow> 0 < n \<Longrightarrow> \<exists>i r'. randomIndex random n r = (Inr i, r') \<and> int i < n"
proof (cases "random r n")
  case (Pair v r')
  assume "fair_roller random" and n: "0 < n"
  then have "0 \<le> fst (random r n) \<and> fst (random r n) < n" by (simp add: fair_roller_def)
  with Pair n show ?thesis by (simp add: randomIndex_def)
qed

lemma randomStrength_fair:
  assumes "fair_roller random" and "tier = TierMid \<or> tier = TierHigh"
  shows "\<exists>s r'. randomStrength random tier r = (Inr s, r')"
proof (cases "random r 10000")
  case (Pair v r')
  have "0 \<le> fst (random r 10000) \<and> fst (random r 10000) < 10000"
    using assms(1) by (simp add: fair_roller_def)
  with Pair assms(2) show ?thesis
    by (auto simp: randomStrength_def strengthForRoll_def go_defs)
qed

lemma rollAffixes_fair:
  assumes "fair_roller random" and "tier = TierMid \<or> tier = TierHigh"
    and "AllowedPool kind = Some pool"
    and "set available \<subseteq> set pool" and "distinct available" and "k \<le> length available"
  shows "\<exists>affixes r'. rollAffixes random tier k available r = (Inr affixes, r')"
  using assms(4,5,6)
proof (induction k arbitrary: available r)
  case (Suc k)
  obtain i r1 where i: "randomIndex random (int (length available)) r = (Inr i, r1)"
    and il: "i < length available"
    using randomIndex_fair [OF assms(1), of "int (length available)" r] Suc.prems(3)
    by (metis Suc_le_lessD gr_implies_not0 of_nat_0_less_iff of_nat_less_iff neq0_conv)
  obtain s r2 where s: "randomStrength random tier r1 = (Inr s, r2)"
    using randomStrength_fair [OF assms(1,2)] by blast
  have "1 \<le> s \<and> s \<le> 5"
    using randomStrength_allowed [OF s] strengthAllowed_range by blast
  moreover have "available ! i \<in> set pool" using il Suc.prems(1) by auto
  ultimately obtain v where v: "ValueFor (available ! i) s = Some v"
    using ValueFor_pool [OF assms(3)] by blast
  note rest = remove_nth [OF Suc.prems(2) il]
  have "set (take i available @ drop (Suc i) available) \<subseteq> set pool"
    unfolding rest(2) using Suc.prems(1) by blast
  moreover have "k \<le> length (take i available @ drop (Suc i) available)"
    using il Suc.prems(3) by simp
  ultimately obtain as r3 where
    "rollAffixes random tier k (take i available @ drop (Suc i) available) r2 = (Inr as, r3)"
    using Suc.IH rest(1) by blast
  with i s v show ?case by (simp add: Let_def)
qed simp

lemma affix_Generate_fair:
  assumes "fair_roller random" and "AffixCount tier = Some n" and "AllowedPool kind = Some pool"
  shows "\<exists>affixes r'. affix_Generate tier kind (Some random) r = (Inr affixes, r')"
proof (cases "n = 0")
  case False
  then have t: "tier = TierMid \<or> tier = TierHigh" and n: "n \<le> 2"
    using assms(2) by (auto simp: AffixCount_def split: if_splits)
  have "n \<le> length pool" using AllowedPool_length [OF assms(3)] n by linarith
  then obtain as r' where "rollAffixes random tier n pool r = (Inr as, r')"
    using rollAffixes_fair [OF assms(1) t assms(3) subset_refl AllowedPool_distinct [OF assms(3)]]
    by blast
  with assms False show ?thesis by (simp add: affix_Generate_def)
qed (use assms in \<open>simp add: affix_Generate_def\<close>)

lemma roll_count:
  assumes "a \<le> b" and "b \<le> 10000" and "0 \<le> a"
    and "\<And>x. 0 \<le> x \<Longrightarrow> x < 10000 \<Longrightarrow> P x \<longleftrightarrow> a \<le> x \<and> x < b"
  shows "card {x :: int. 0 \<le> x \<and> x < 10000 \<and> P x} = nat (b - a)"
proof -
  have "{x :: int. 0 \<le> x \<and> x < 10000 \<and> P x} = {a..<b}" using assms by auto
  then show ?thesis by simp
qed

section \<open>Properties\<close>

text \<open>
  C34. whatever the random source answers (a hostile one included), when Generate returns
  affixes they pass Validate for the same tier and kind, and their ids are in strictly
  ascending canonical order, so no id occurs twice.
\<close>

theorem generate_sound:
  "affix_Generate tier kind random r = (Inr affixes, r') \<Longrightarrow>
     affix_Validate tier kind affixes = None \<and> sorted_wrt (<) (map affix_ID affixes)"
  by (simp add: affix_Generate_valid)

theorem generate_sound_witness:
  "\<exists>affixes r'.
     affix_Generate TierHigh EquipmentKindArmor (Some (\<lambda>(s :: int) n. (s mod n, s + 9700))) 7
       = (Inr affixes, r') \<and>
     affix_Validate TierHigh EquipmentKindArmor affixes = None \<and>
     sorted_wrt (<) (map affix_ID affixes)"
proof -
  have "fair_roller (\<lambda>(s :: int) n. (s mod n, s + 9700))"
    by (simp add: fair_roller_def)
  then obtain affixes r' where g:
    "affix_Generate TierHigh EquipmentKindArmor (Some (\<lambda>(s :: int) n. (s mod n, s + 9700))) 7
       = (Inr affixes, r')"
    using affix_Generate_fair [of "\<lambda>s n. (s mod n, s + 9700)" TierHigh 2 EquipmentKindArmor armorPool 7]
    by (auto simp: AffixCount_def AllowedPool_def go_defs simp del: not_None_eq)
  then show ?thesis using generate_sound [OF g] by blast
qed

text \<open>
  C30. Generate terminates with affixes, and no error, for every tier and kind the source
  knows when the random source keeps the contract of \<open>Intn\<close> (an answer in \<open>[0, n)\<close>);
  the number of affixes is the tier's.
\<close>

theorem generate_succeeds:
  assumes "\<forall>r n. 0 < n \<longrightarrow> 0 \<le> fst (random r n) \<and> fst (random r n) < n"
    and "AffixCount tier = Some k" and "AllowedPool kind = Some pool"
  shows "\<exists>affixes r'. affix_Generate tier kind (Some random) r = (Inr affixes, r') \<and>
           length affixes = k"
proof -
  obtain affixes r' where g: "affix_Generate tier kind (Some random) r = (Inr affixes, r')"
    using affix_Generate_fair [of random tier k kind pool r] assms
    unfolding fair_roller_def by blast
  with affix_Generate_valid(1) [OF g] assms(2) show ?thesis
    by (auto simp: affix_Validate_None_iff)
qed

theorem generate_succeeds_witness:
  "\<exists>affixes r'. affix_Generate TierHigh EquipmentKindShield
     (Some (\<lambda>(s :: int) n. (s mod n, s + 1))) 3 = (Inr affixes, r') \<and> length affixes = 2"
  by (rule generate_succeeds [where pool = shieldPool])
    (simp_all add: AffixCount_def AllowedPool_def go_defs)

text \<open>
  over the 10000 equally likely outcomes of the strength roll, a high-tier affix has
  strength 1 to 5 in 9000, 700, 250, 45 and 5 cases, and a mid-tier affix strength 1 or 2
  in 9000 and 1000 cases: the published drop quality.
\<close>

theorem strength_distribution:
  "card {x. 0 \<le> x \<and> x < 10000 \<and> strengthForRoll TierHigh x = Inr 1} = 9000 \<and>
   card {x. 0 \<le> x \<and> x < 10000 \<and> strengthForRoll TierHigh x = Inr 2} = 700 \<and>
   card {x. 0 \<le> x \<and> x < 10000 \<and> strengthForRoll TierHigh x = Inr 3} = 250 \<and>
   card {x. 0 \<le> x \<and> x < 10000 \<and> strengthForRoll TierHigh x = Inr 4} = 45 \<and>
   card {x. 0 \<le> x \<and> x < 10000 \<and> strengthForRoll TierHigh x = Inr 5} = 5 \<and>
   card {x. 0 \<le> x \<and> x < 10000 \<and> strengthForRoll TierMid x = Inr 1} = 9000 \<and>
   card {x. 0 \<le> x \<and> x < 10000 \<and> strengthForRoll TierMid x = Inr 2} = 1000"
proof -
  note eval = strengthForRoll_def TierMid_def TierHigh_def
  have "card {x. 0 \<le> x \<and> x < 10000 \<and> strengthForRoll TierHigh x = Inr 1} = nat (9000 - 0)"
    by (rule roll_count) (simp_all add: eval)
  moreover have
    "card {x. 0 \<le> x \<and> x < 10000 \<and> strengthForRoll TierHigh x = Inr 2} = nat (9700 - 9000)"
    by (rule roll_count) (simp_all add: eval)
  moreover have
    "card {x. 0 \<le> x \<and> x < 10000 \<and> strengthForRoll TierHigh x = Inr 3} = nat (9950 - 9700)"
    by (rule roll_count) (simp_all add: eval)
  moreover have
    "card {x. 0 \<le> x \<and> x < 10000 \<and> strengthForRoll TierHigh x = Inr 4} = nat (9995 - 9950)"
    by (rule roll_count) (simp_all add: eval)
  moreover have
    "card {x. 0 \<le> x \<and> x < 10000 \<and> strengthForRoll TierHigh x = Inr 5} = nat (10000 - 9995)"
    by (rule roll_count) (simp_all add: eval)
  moreover have "card {x. 0 \<le> x \<and> x < 10000 \<and> strengthForRoll TierMid x = Inr 1} = nat (9000 - 0)"
    by (rule roll_count) (simp_all add: eval)
  moreover have
    "card {x. 0 \<le> x \<and> x < 10000 \<and> strengthForRoll TierMid x = Inr 2} = nat (10000 - 9000)"
    by (rule roll_count) (simp_all add: eval)
  ultimately show ?thesis by simp
qed

end
