(* ===== verification/CharacterStats.thy ===== *)
theory CharacterStats
  imports SkillCatalog
begin

text \<open>
  The classless character attributes (\<open>internal/characterstats\<close>): the six primary
  attributes with their checked addition (\<open>model.go\<close>, \<open>bonus.go\<close>), the values derived from
  them (\<open>derived.go\<close>) and the passive skill bonus (\<open>passive_skill.go\<close>). Attributes are
  \<open>uint32\<close>; signed ratings are \<open>int64\<close> with wrap-around.
\<close>

section \<open>Primary attributes\<close>

definition BasePrimaryValue :: u32 where [go_defs]: "BasePrimaryValue = 10"

datatype stats_error = ErrOverflow | ErrInvalidBase

record primary =
  pr_Strength :: u32
  pr_Agility :: u32
  pr_Constitution :: u32
  pr_Intelligence :: u32
  pr_Spirit :: u32
  pr_Charisma :: u32

record additive_bonus =
  ab_Strength :: u32
  ab_Agility :: u32
  ab_Constitution :: u32
  ab_Intelligence :: u32
  ab_Spirit :: u32
  ab_Charisma :: u32

definition DefaultPrimary :: primary where
  "DefaultPrimary =
     \<lparr>pr_Strength = BasePrimaryValue, pr_Agility = BasePrimaryValue,
      pr_Constitution = BasePrimaryValue, pr_Intelligence = BasePrimaryValue,
      pr_Spirit = BasePrimaryValue, pr_Charisma = BasePrimaryValue\<rparr>"

definition zeroBonus :: additive_bonus where
  "zeroBonus =
     \<lparr>ab_Strength = 0, ab_Agility = 0, ab_Constitution = 0, ab_Intelligence = 0,
      ab_Spirit = 0, ab_Charisma = 0\<rparr>"

definition ValidateBase :: "primary \<Rightarrow> stats_error option" where
  "ValidateBase p =
     (if pr_Strength p < BasePrimaryValue \<or> pr_Agility p < BasePrimaryValue \<or>
         pr_Constitution p < BasePrimaryValue \<or> pr_Intelligence p < BasePrimaryValue \<or>
         pr_Spirit p < BasePrimaryValue \<or> pr_Charisma p < BasePrimaryValue
      then Some ErrInvalidBase else None)"

definition stats_add :: "u32 \<Rightarrow> u32 \<Rightarrow> u32 option" where
  "stats_add left right = (if right > - 1 - left then None else Some (left + right))"

definition Effective :: "primary \<Rightarrow> additive_bonus \<Rightarrow> stats_error + primary" where
  "Effective base bonus =
     (case stats_add (pr_Strength base) (ab_Strength bonus) of None \<Rightarrow> Inl ErrOverflow | Some strength \<Rightarrow>
     (case stats_add (pr_Agility base) (ab_Agility bonus) of None \<Rightarrow> Inl ErrOverflow | Some agility \<Rightarrow>
     (case stats_add (pr_Constitution base) (ab_Constitution bonus) of None \<Rightarrow> Inl ErrOverflow | Some constitution \<Rightarrow>
     (case stats_add (pr_Intelligence base) (ab_Intelligence bonus) of None \<Rightarrow> Inl ErrOverflow | Some intelligence \<Rightarrow>
     (case stats_add (pr_Spirit base) (ab_Spirit bonus) of None \<Rightarrow> Inl ErrOverflow | Some spirit \<Rightarrow>
     (case stats_add (pr_Charisma base) (ab_Charisma bonus) of None \<Rightarrow> Inl ErrOverflow | Some charisma \<Rightarrow>
        Inr \<lparr>pr_Strength = strength, pr_Agility = agility, pr_Constitution = constitution,
             pr_Intelligence = intelligence, pr_Spirit = spirit, pr_Charisma = charisma\<rparr>))))))"

definition CombineAdditive :: "additive_bonus \<Rightarrow> additive_bonus \<Rightarrow> stats_error + additive_bonus" where
  "CombineAdditive left right =
     (case stats_add (ab_Strength left) (ab_Strength right) of None \<Rightarrow> Inl ErrOverflow | Some strength \<Rightarrow>
     (case stats_add (ab_Agility left) (ab_Agility right) of None \<Rightarrow> Inl ErrOverflow | Some agility \<Rightarrow>
     (case stats_add (ab_Constitution left) (ab_Constitution right) of None \<Rightarrow> Inl ErrOverflow | Some constitution \<Rightarrow>
     (case stats_add (ab_Intelligence left) (ab_Intelligence right) of None \<Rightarrow> Inl ErrOverflow | Some intelligence \<Rightarrow>
     (case stats_add (ab_Spirit left) (ab_Spirit right) of None \<Rightarrow> Inl ErrOverflow | Some spirit \<Rightarrow>
     (case stats_add (ab_Charisma left) (ab_Charisma right) of None \<Rightarrow> Inl ErrOverflow | Some charisma \<Rightarrow>
        Inr \<lparr>ab_Strength = strength, ab_Agility = agility, ab_Constitution = constitution,
             ab_Intelligence = intelligence, ab_Spirit = spirit, ab_Charisma = charisma\<rparr>))))))"

definition authoredPassivePrimaryBonus :: u32 where [go_defs]: "authoredPassivePrimaryBonus = 5"

definition PrimaryBonusForSkill :: "string \<Rightarrow> additive_bonus option" where
  "PrimaryBonusForSkill skillID =
     (if skillID = StrongPhysique then Some (zeroBonus\<lparr>ab_Strength := authoredPassivePrimaryBonus\<rparr>)
      else if skillID = ClearMeridians then Some (zeroBonus\<lparr>ab_Agility := authoredPassivePrimaryBonus\<rparr>)
      else None)"

section \<open>Derived values\<close>

definition physicalHitBaseBasisPoints :: u32 where [go_defs]: "physicalHitBaseBasisPoints = 9000"
definition physicalHitMinBasisPoints :: u32 where [go_defs]: "physicalHitMinBasisPoints = 7500"
definition physicalHitMaxBasisPoints :: u32 where [go_defs]: "physicalHitMaxBasisPoints = 9800"
definition criticalBaseBasisPoints :: u32 where [go_defs]: "criticalBaseBasisPoints = 500"
definition criticalMaxBasisPoints :: u32 where [go_defs]: "criticalMaxBasisPoints = 3000"

definition MeleePhysicalDamageBonus :: "u32 \<Rightarrow> u32" where
  "MeleePhysicalDamageBonus strength = (if strength \<le> 10 then 0 else (strength - 10) div 2)"

definition PhysicalHitModifier :: "u32 \<Rightarrow> int" where
  "PhysicalHitModifier agility = wrap_i64 (uint agility - 10)"

definition RangedPhysicalDamageBonus :: "u32 \<Rightarrow> u32" where
  "RangedPhysicalDamageBonus agility = (if agility \<le> 9 then 0 else (agility - 9) div 3)"

definition EvasionModifier :: "u32 \<Rightarrow> u32" where
  "EvasionModifier agility = (if agility \<le> 10 then 0 else (agility - 10) div 2)"

definition AttributeCriticalBonusPercentPoints :: "u32 \<Rightarrow> u32" where
  "AttributeCriticalBonusPercentPoints agility = (if agility \<le> 30 then 0 else (agility - 30) div 10)"

definition MagicPowerBonus :: "u32 \<Rightarrow> u32" where
  "MagicPowerBonus intelligence = (if intelligence \<le> 10 then 0 else (intelligence - 10) div 5)"

definition ConstitutionMaxHPBonus :: "u32 \<Rightarrow> u32 \<Rightarrow> u64" where
  "ConstitutionMaxHPBonus level constitution =
     (if constitution \<le> 15 \<or> level = 0 then 0 else ucast level * ucast (constitution - 15))"

definition SpiritGrowthTier :: "u32 \<Rightarrow> u32" where
  "SpiritGrowthTier spirit =
     (if spirit \<le> 9 then 0 else if spirit \<le> 14 then 1 else if spirit \<le> 20 then 2
      else if spirit \<le> 24 then 3 else if spirit \<le> 28 then 4 else if spirit \<le> 32 then 5 else 6)"

definition SpiritMaxMPBonus :: "u32 \<Rightarrow> u32 \<Rightarrow> u64" where
  "SpiritMaxMPBonus level spirit = ucast level * ucast (SpiritGrowthTier spirit)"

definition LeadershipCount :: "u32 \<Rightarrow> u32" where
  "LeadershipCount charisma =
     (if charisma \<le> 10 then 1
      else let cnt = 1 + (charisma - 10) div 5 in if cnt > 5 then 5 else cnt)"

definition PhysicalHitChanceBasisPoints :: "int \<Rightarrow> int \<Rightarrow> u32" where
  "PhysicalHitChanceBasisPoints totalPhysicalHit totalEvasion =
     (let net = wrap_i64 (totalPhysicalHit - totalEvasion)
      in if net \<ge> 16 then physicalHitMaxBasisPoints
         else if net \<le> - 30 then physicalHitMinBasisPoints
         else word_of_int (wrap_i64 (uint physicalHitBaseBasisPoints + net * 50)))"

definition CriticalChanceBasisPoints :: "u32 \<Rightarrow> u32 \<Rightarrow> u32" where
  "CriticalChanceBasisPoints agility criticalRating =
     (let attributePP = AttributeCriticalBonusPercentPoints agility
      in if attributePP \<ge> 25 \<or> criticalRating \<ge> 50 then criticalMaxBasisPoints
         else (let chance = criticalBaseBasisPoints + attributePP * 100 + criticalRating * 50
               in if chance > criticalMaxBasisPoints then criticalMaxBasisPoints else chance))"

section \<open>Checked addition\<close>

lemma stats_add_None: "stats_add a b = None \<longleftrightarrow> 2 ^ 32 \<le> unat a + unat b"
  using overflow_guard [of a b] by (simp add: stats_add_def)

lemma stats_add_Some: "stats_add a b = Some c \<longleftrightarrow> unat c = unat a + unat b"
proof
  assume "stats_add a b = Some c"
  then have "\<not> 2 ^ 32 \<le> unat a + unat b" and "c = a + b"
    using overflow_guard [of a b] by (auto simp: stats_add_def split: if_splits)
  then show "unat c = unat a + unat b" using unat_plus_no_overflow [of a b] by simp
next
  assume c: "unat c = unat a + unat b"
  then have "unat a + unat b < 2 ^ 32" using u32_bound [of c] by simp
  moreover from this have "c = a + b"
    using c unat_plus_no_overflow [of a b] by (simp add: word_unat_eq_iff)
  ultimately show "stats_add a b = Some c"
    using overflow_guard [of a b] by (simp add: stats_add_def)
qed

lemma Effective_Inr:
  "Effective base bonus = Inr p \<longleftrightarrow>
     unat (pr_Strength p) = unat (pr_Strength base) + unat (ab_Strength bonus) \<and>
     unat (pr_Agility p) = unat (pr_Agility base) + unat (ab_Agility bonus) \<and>
     unat (pr_Constitution p) = unat (pr_Constitution base) + unat (ab_Constitution bonus) \<and>
     unat (pr_Intelligence p) = unat (pr_Intelligence base) + unat (ab_Intelligence bonus) \<and>
     unat (pr_Spirit p) = unat (pr_Spirit base) + unat (ab_Spirit bonus) \<and>
     unat (pr_Charisma p) = unat (pr_Charisma base) + unat (ab_Charisma bonus)"
  by (cases p) (auto simp: Effective_def simp flip: stats_add_Some split: option.splits)

lemma CombineAdditive_Inr:
  "CombineAdditive l r = Inr p \<longleftrightarrow>
     unat (ab_Strength p) = unat (ab_Strength l) + unat (ab_Strength r) \<and>
     unat (ab_Agility p) = unat (ab_Agility l) + unat (ab_Agility r) \<and>
     unat (ab_Constitution p) = unat (ab_Constitution l) + unat (ab_Constitution r) \<and>
     unat (ab_Intelligence p) = unat (ab_Intelligence l) + unat (ab_Intelligence r) \<and>
     unat (ab_Spirit p) = unat (ab_Spirit l) + unat (ab_Spirit r) \<and>
     unat (ab_Charisma p) = unat (ab_Charisma l) + unat (ab_Charisma r)"
  by (cases p) (auto simp: CombineAdditive_def simp flip: stats_add_Some split: option.splits)

lemma stats_errors: "Effective base bonus = Inl x \<Longrightarrow> x = ErrOverflow"
  "CombineAdditive l r = Inl y \<Longrightarrow> y = ErrOverflow"
  by (auto simp: Effective_def CombineAdditive_def split: option.splits)

section \<open>Properties\<close>

lemma sum_eqI:
  assumes "\<And>p. x = Inr p \<longleftrightarrow> y = Inr p" and "\<And>e. x = Inl e \<Longrightarrow> e = c" and "\<And>e. y = Inl e \<Longrightarrow> e = c"
  shows "x = y"
proof (cases x)
  case (Inl e)
  then have "y \<noteq> Inr p" for p using assms(1) [of p] by simp
  then obtain e' where "y = Inl e'" by (cases y) blast+
  with Inl assms(2,3) show ?thesis by simp
next
  case (Inr p)
  then show ?thesis using assms(1) [of p] by simp
qed

lemma bind_Effective:
  "(case Effective base x of Inl e \<Rightarrow> Inl e | Inr p \<Rightarrow> Effective p y) = Inr q \<longleftrightarrow>
     unat (pr_Strength q) = unat (pr_Strength base) + unat (ab_Strength x) + unat (ab_Strength y) \<and>
     unat (pr_Agility q) = unat (pr_Agility base) + unat (ab_Agility x) + unat (ab_Agility y) \<and>
     unat (pr_Constitution q) = unat (pr_Constitution base) + unat (ab_Constitution x) + unat (ab_Constitution y) \<and>
     unat (pr_Intelligence q) = unat (pr_Intelligence base) + unat (ab_Intelligence x) + unat (ab_Intelligence y) \<and>
     unat (pr_Spirit q) = unat (pr_Spirit base) + unat (ab_Spirit x) + unat (ab_Spirit y) \<and>
     unat (pr_Charisma q) = unat (pr_Charisma base) + unat (ab_Charisma x) + unat (ab_Charisma y)"
  (is "?l = Inr q \<longleftrightarrow> ?r")
proof
  assume "?l = Inr q"
  then obtain p where "Effective base x = Inr p" and "Effective p y = Inr q"
    by (auto split: sum.splits)
  then show ?r by (simp add: Effective_Inr)
next
  assume r: ?r
  define p where "p = \<lparr>pr_Strength = pr_Strength base + ab_Strength x,
    pr_Agility = pr_Agility base + ab_Agility x,
    pr_Constitution = pr_Constitution base + ab_Constitution x,
    pr_Intelligence = pr_Intelligence base + ab_Intelligence x,
    pr_Spirit = pr_Spirit base + ab_Spirit x, pr_Charisma = pr_Charisma base + ab_Charisma x\<rparr>"
  have s: "unat (a + b) = unat a + unat b" if "unat (d :: u32) = unat a + unat b + unat (c :: u32)"
    for a b c d :: u32
    using that u32_bound [of d] by (intro unat_plus_no_overflow) simp
  have "Effective base x = Inr p"
    using r by (simp add: Effective_Inr p_def) (blast intro: s)
  moreover have "Effective p y = Inr q"
    using r calculation by (simp add: Effective_Inr)
  ultimately show "?l = Inr q" by simp
qed

lemma bind_Combine:
  "(case CombineAdditive x y of Inl e \<Rightarrow> Inl e | Inr z \<Rightarrow> Effective base z) = Inr q \<longleftrightarrow>
     unat (pr_Strength q) = unat (pr_Strength base) + unat (ab_Strength x) + unat (ab_Strength y) \<and>
     unat (pr_Agility q) = unat (pr_Agility base) + unat (ab_Agility x) + unat (ab_Agility y) \<and>
     unat (pr_Constitution q) = unat (pr_Constitution base) + unat (ab_Constitution x) + unat (ab_Constitution y) \<and>
     unat (pr_Intelligence q) = unat (pr_Intelligence base) + unat (ab_Intelligence x) + unat (ab_Intelligence y) \<and>
     unat (pr_Spirit q) = unat (pr_Spirit base) + unat (ab_Spirit x) + unat (ab_Spirit y) \<and>
     unat (pr_Charisma q) = unat (pr_Charisma base) + unat (ab_Charisma x) + unat (ab_Charisma y)"
  (is "?l = Inr q \<longleftrightarrow> ?r")
proof
  assume "?l = Inr q"
  then obtain z where "CombineAdditive x y = Inr z" and "Effective base z = Inr q"
    by (auto split: sum.splits)
  then show ?r by (simp add: Effective_Inr CombineAdditive_Inr)
next
  assume r: ?r
  define z where "z = \<lparr>ab_Strength = ab_Strength x + ab_Strength y,
    ab_Agility = ab_Agility x + ab_Agility y, ab_Constitution = ab_Constitution x + ab_Constitution y,
    ab_Intelligence = ab_Intelligence x + ab_Intelligence y, ab_Spirit = ab_Spirit x + ab_Spirit y,
    ab_Charisma = ab_Charisma x + ab_Charisma y\<rparr>"
  have s: "unat (b + c) = unat b + unat c" if "unat (d :: u32) = unat (a :: u32) + unat b + unat c"
    for a b c d :: u32
    using that u32_bound [of d] by (intro unat_plus_no_overflow) simp
  have "CombineAdditive x y = Inr z"
    using r by (simp add: CombineAdditive_Inr z_def) (blast intro: s)
  moreover have "Effective base z = Inr q"
    using r calculation by (simp add: Effective_Inr CombineAdditive_Inr)
  ultimately show "?l = Inr q" by simp
qed

text \<open>
  Applying two bonuses one after the other and applying their combination agree on
  every input: the same attributes, or the overflow error both ways. No wrap-around can
  make the two paths of the world owner disagree.
\<close>

theorem bonus_composition:
  "(case Effective base x of Inl e \<Rightarrow> Inl e | Inr p \<Rightarrow> Effective p y) =
   (case CombineAdditive x y of Inl e \<Rightarrow> Inl e | Inr z \<Rightarrow> Effective base z)"
proof (rule sum_eqI [where c = ErrOverflow])
  show "((case Effective base x of Inl e \<Rightarrow> Inl e | Inr p \<Rightarrow> Effective p y) = Inr q) =
    ((case CombineAdditive x y of Inl e \<Rightarrow> Inl e | Inr z \<Rightarrow> Effective base z) = Inr q)" for q
    by (simp only: bind_Effective bind_Combine)
qed (auto split: sum.splits dest: stats_errors)

lemma div_u32: "unat (a div b :: u32) = unat a div unat b"
  by (simp add: unat_div)

lemma unat_u32_numerals: "unat (25 :: u32) = 25" "unat (50 :: u32) = 50" "unat (30 :: u32) = 30"
  "unat (10 :: u32) = 10" "unat (3000 :: u32) = 3000" "unat (500 :: u32) = 500" "unat (100 :: u32) = 100"
  by simp_all

lemma attribute_pp: "unat (AttributeCriticalBonusPercentPoints a) = (unat a - 30) div 10"
proof (cases "a \<le> 30")
  case False
  then have "30 \<le> a" by simp
  with False show ?thesis
    by (simp add: AttributeCriticalBonusPercentPoints_def unat_div unat_minus_le)
qed (simp add: AttributeCriticalBonusPercentPoints_def word_le_nat_alt)

lemma critical_exact:
  "unat (CriticalChanceBasisPoints a c) = min 3000 (500 + (unat a - 30) div 10 * 100 + unat c * 50)"
proof -
  define p where "p = AttributeCriticalBonusPercentPoints a"
  have p: "unat p = (unat a - 30) div 10" by (simp add: p_def attribute_pp)
  show ?thesis
  proof (cases "p \<ge> 25 \<or> c \<ge> 50")
    case True
    then have "25 \<le> unat p \<or> 50 \<le> unat c" by (simp add: word_le_nat_alt)
    then have "3000 \<le> 500 + unat p * 100 + unat c * 50" by auto
    with True p show ?thesis
      by (simp add: CriticalChanceBasisPoints_def go_defs flip: p_def)
  next
    case False
    then have l: "unat p < 25" "unat c < 50" by (simp_all add: word_less_nat_alt not_le)
    have m: "unat (p * 100) = unat p * 100" "unat (c * 50) = unat c * 50"
      using l by (simp_all add: unat_word_ariths)
    then have "unat (500 + p * 100 + c * 50) = 500 + unat p * 100 + unat c * 50"
      using l by (simp add: unat_word_ariths)
    with False p show ?thesis
      by (auto simp: CriticalChanceBasisPoints_def Let_def go_defs word_less_nat_alt simp flip: p_def)
  qed
qed

lemma hit_exact:
  assumes "- (2 ^ 62) \<le> hit" "hit < 2 ^ 62" "- (2 ^ 62) \<le> ev" "ev < 2 ^ 62"
  shows "uint (PhysicalHitChanceBasisPoints hit ev) = max 7500 (min 9800 (9000 + (hit - ev) * 50))"
proof -
  have n: "wrap_i64 (hit - ev) = hit - ev" using assms by (intro wrap_i64_id) simp_all
  show ?thesis
  proof (cases "hit - ev \<ge> 16 \<or> hit - ev \<le> - 30")
    case True
    then show ?thesis using n by (auto simp: PhysicalHitChanceBasisPoints_def Let_def go_defs)
  next
    case False
    then have b: "7500 \<le> 9000 + (hit - ev) * 50" "9000 + (hit - ev) * 50 \<le> 9800" by auto
    moreover have "wrap_i64 (9000 + (hit - ev) * 50) = 9000 + (hit - ev) * 50"
      using b by (intro wrap_i64_id) simp_all
    moreover have "uint (word_of_int (9000 + (hit - ev) * 50) :: u32) = 9000 + (hit - ev) * 50"
      using b by (intro uint_word_of_int_id) simp_all
    ultimately show ?thesis
      using False n by (simp add: PhysicalHitChanceBasisPoints_def Let_def go_defs)
  qed
qed

text \<open>
  C15. The basis-point chances are exactly the documented formulas, computed without
  wrap-around: the critical chance is 5 percent plus one point per 10 agility above 30 plus
  half a point per critical rating, capped at 30 percent, for every 32-bit input; the hit
  chance is 90 percent plus half a point per point of difference, clamped to 75 to 98
  percent, for ratings below \<open>2 ^ 62\<close> in size.
\<close>

theorem combat_chances_exact:
  assumes "\<bar>hit\<bar> < 2 ^ 62" and "\<bar>ev\<bar> < 2 ^ 62"
  shows "unat (CriticalChanceBasisPoints a c) =
      min 3000 (500 + (unat a - 30) div 10 * 100 + unat c * 50) \<and>
    uint (PhysicalHitChanceBasisPoints hit ev) = max 7500 (min 9800 (9000 + (hit - ev) * 50))"
  using assms by (intro conjI critical_exact hit_exact) linarith+

theorem combat_chances_exact_witness:
  "unat (CriticalChanceBasisPoints 50 1) = 750 \<and> uint (PhysicalHitChanceBasisPoints 8 2) = 9300"
  using combat_chances_exact [of 8 2 50 1] by simp

end
