(* ===== verification/Float32.thy ===== *)
theory Float32
  imports Prelude
begin

text \<open>
  IEEE 754 single precision as the 32 bits of the value. The server compares and tests
  \<open>float32\<close> values in guards; comparison and classification are exact on the bits. Rounding
  arithmetic is in \<open>FloatArith\<close>.
\<close>

type_synonym f32 = "32 word"

definition f32_mag :: "f32 \<Rightarrow> int" where
  "f32_mag x = uint x mod 2 ^ 31"

definition f32_neg :: "f32 \<Rightarrow> bool" where
  "f32_neg x = (2 ^ 31 \<le> uint x)"

definition f32_IsNaN :: "f32 \<Rightarrow> bool" where
  "f32_IsNaN x = (0x7F800000 < f32_mag x)"

definition f32_IsInf :: "f32 \<Rightarrow> bool" where
  "f32_IsInf x = (f32_mag x = 0x7F800000)"

text \<open>Numbers are ordered as sign and magnitude; the two zeros are equal.\<close>

definition f32_rank :: "f32 \<Rightarrow> int" where
  "f32_rank x = (if f32_neg x then - f32_mag x else f32_mag x)"

definition f32_less :: "f32 \<Rightarrow> f32 \<Rightarrow> bool" where
  "f32_less a b = (\<not> f32_IsNaN a \<and> \<not> f32_IsNaN b \<and> f32_rank a < f32_rank b)"

definition f32_leq :: "f32 \<Rightarrow> f32 \<Rightarrow> bool" where
  "f32_leq a b = (\<not> f32_IsNaN a \<and> \<not> f32_IsNaN b \<and> f32_rank a \<le> f32_rank b)"

definition f32_finite :: "f32 \<Rightarrow> bool" where
  "f32_finite x = (\<not> f32_IsNaN x \<and> \<not> f32_IsInf x)"

lemma f32_mag_nonneg: "0 \<le> f32_mag x"
  by (simp add: f32_mag_def)

definition f32_eq :: "f32 \<Rightarrow> f32 \<Rightarrow> bool" where
  "f32_eq a b = (\<not> f32_IsNaN a \<and> \<not> f32_IsNaN b \<and> f32_rank a = f32_rank b)"

lemma f32_rank_zero [simp]: "f32_rank 0 = 0"
  by (simp add: f32_rank_def f32_mag_def f32_neg_def)

lemma f32_zero_class [simp]: "\<not> f32_IsNaN 0" "\<not> f32_IsInf 0"
  by (simp_all add: f32_IsNaN_def f32_IsInf_def f32_mag_def)

lemma f32_leq_not_less: "\<not> f32_IsNaN a \<Longrightarrow> \<not> f32_IsNaN b \<Longrightarrow> f32_leq a b \<longleftrightarrow> \<not> f32_less b a"
  by (auto simp: f32_leq_def f32_less_def)

lemma f32_leq_trans: "f32_leq a b \<Longrightarrow> f32_leq b c \<Longrightarrow> f32_leq a c"
  by (auto simp: f32_leq_def)

lemma f32_less_irrefl [simp]: "\<not> f32_less a a"
  by (simp add: f32_less_def)

lemma f32_positive: "f32_less 0 x \<longleftrightarrow> \<not> f32_IsNaN x \<and> \<not> f32_neg x \<and> f32_mag x \<noteq> 0"
  using f32_mag_nonneg [of x] by (auto simp: f32_less_def f32_rank_def [of x])

end
