(* ===== verification/EquipmentCatalog.thy ===== *)
theory EquipmentCatalog
  imports CharacterStats Float32
begin

text \<open>
  The equipment catalog (\<open>internal/equipmentcatalog\<close>): authored definitions, their
  canonicalisation and validation by \<open>New\<close>, and the lookups the world owner makes. Decoding
  the JSON text of the authored catalog is not modelled; the Go-authored armor data is. All
  failures of \<open>New\<close> are the one error \<open>ErrInvalidCatalog\<close>, here \<open>None\<close>. Pointers that
  may be nil are options.
\<close>

section \<open>Identifiers\<close>

definition KindWeapon :: string where [go_defs]: "KindWeapon = ''weapon''"
definition KindShield :: string where [go_defs]: "KindShield = ''shield''"
definition KindArmor :: string where [go_defs]: "KindArmor = ''armor''"
definition SlotMainHand :: string where [go_defs]: "SlotMainHand = ''main_hand''"
definition SlotOffHand :: string where [go_defs]: "SlotOffHand = ''off_hand''"
definition SlotHelmet :: string where [go_defs]: "SlotHelmet = ''helmet''"
definition SlotChest :: string where [go_defs]: "SlotChest = ''chest''"
definition SlotGloves :: string where [go_defs]: "SlotGloves = ''gloves''"
definition SlotLegs :: string where [go_defs]: "SlotLegs = ''legs''"
definition SlotBoots :: string where [go_defs]: "SlotBoots = ''boots''"
definition ArmorClassCloth :: string where [go_defs]: "ArmorClassCloth = ''cloth''"
definition ArmorClassLeather :: string where [go_defs]: "ArmorClassLeather = ''leather''"
definition ArmorClassHeavy :: string where [go_defs]: "ArmorClassHeavy = ''heavy''"
definition cat_TierLow :: string where [go_defs]: "cat_TierLow = ''low''"
definition cat_TierMid :: string where [go_defs]: "cat_TierMid = ''mid''"
definition cat_TierHigh :: string where [go_defs]: "cat_TierHigh = ''high''"
definition BodySizeSmall :: string where [go_defs]: "BodySizeSmall = ''small''"
definition BodySizeLarge :: string where [go_defs]: "BodySizeLarge = ''large''"
definition BodySizeGiant :: string where [go_defs]: "BodySizeGiant = ''giant''"

definition Strength :: string where [go_defs]: "Strength = ''strength''"
definition Agility :: string where [go_defs]: "Agility = ''agility''"
definition Constitution :: string where [go_defs]: "Constitution = ''constitution''"
definition Intelligence :: string where [go_defs]: "Intelligence = ''intelligence''"
definition Spirit :: string where [go_defs]: "Spirit = ''spirit''"
definition Charisma :: string where [go_defs]: "Charisma = ''charisma''"

definition StaticStrength :: string where [go_defs]: "StaticStrength = ''strength''"
definition StaticDexterity :: string where [go_defs]: "StaticDexterity = ''dexterity''"
definition StaticIntelligence :: string where [go_defs]: "StaticIntelligence = ''intelligence''"
definition StaticConstitution :: string where [go_defs]: "StaticConstitution = ''constitution''"
definition StaticSpirit :: string where [go_defs]: "StaticSpirit = ''spirit''"
definition StaticCharisma :: string where [go_defs]: "StaticCharisma = ''charisma''"
definition StaticPhysicalHit :: string where [go_defs]: "StaticPhysicalHit = ''physical_hit''"
definition StaticCriticalRating :: string where [go_defs]: "StaticCriticalRating = ''critical_rating''"
definition StaticPhysicalDamage :: string where [go_defs]: "StaticPhysicalDamage = ''physical_damage''"
definition StaticMagicPower :: string where [go_defs]: "StaticMagicPower = ''magic_power''"
definition StaticEvasion :: string where [go_defs]: "StaticEvasion = ''evasion''"
definition StaticMaxHP :: string where [go_defs]: "StaticMaxHP = ''max_hp''"
definition StaticMaxMP :: string where [go_defs]: "StaticMaxMP = ''max_mp''"
definition StaticPhysicalDefense :: string where [go_defs]: "StaticPhysicalDefense = ''physical_defense''"
definition StaticMagicDefense :: string where [go_defs]: "StaticMagicDefense = ''magic_defense''"

section \<open>Authored data\<close>

record damage_range =
  dr_Min :: u32
  dr_Max :: u32

record weapon_type_definition =
  wt_WeaponType :: string
  wt_BasicAttackIntervalMS :: "u32 option"
  wt_BasicAttackDamageAttribute :: string
  wt_BasicAttackRange :: "f32 option"

record weapon =
  wp_WeaponType :: string
  wp_SmallDamage :: damage_range
  wp_LargeDamage :: damage_range
  wp_ExtraDamage :: u32
  wp_AccuracyModifier :: "32 word"

record shield =
  sh_PhysicalDefense :: u32
  sh_BlockChancePercent :: u8
  sh_BlockDamageReductionPercent :: u8
  sh_MagicDamageReductionPercent :: u8

record static_modifier =
  sm_ID :: string
  sm_Value :: u32

record base_requirement =
  rq_Stat :: string
  rq_Minimum :: u32

record set_bonus =
  sb_Pieces :: u8
  sb_StaticModifiers :: "static_modifier list"

record set_definition =
  sd_ID :: string
  sd_Bonuses :: "set_bonus list"

record item_definition =
  it_ItemArchetypeID :: string
  it_Kind :: string
  it_Slot :: string
  it_Tier :: string
  it_Weight :: u32
  it_Material :: string
  it_ArmorClass :: string
  it_SetID :: string
  it_BaseRequirements :: "base_requirement list"
  it_StaticModifiers :: "static_modifier list"
  it_Weapon :: "weapon option"
  it_Shield :: "shield option"

record catalog_definition =
  cd_Revision :: string
  cd_WeaponTypes :: "weapon_type_definition list"
  cd_Sets :: "set_definition list"
  cd_Items :: "item_definition list"

record catalog =
  cat_revision :: string
  cat_byItem :: "(string, item_definition) fmap"
  cat_armorByItem :: "(string, item_definition) fmap"
  cat_weaponTypes :: "(string, weapon_type_definition) fmap"
  cat_sets :: "(string, set_definition) fmap"

section \<open>Validation\<close>

definition validArmorSlot :: "string \<Rightarrow> bool" where
  "validArmorSlot slot = (slot \<in> {SlotHelmet, SlotChest, SlotGloves, SlotLegs, SlotBoots})"

definition validArmorClass :: "string \<Rightarrow> bool" where
  "validArmorClass c = (c \<in> {ArmorClassCloth, ArmorClassLeather, ArmorClassHeavy})"

definition validTier :: "string \<Rightarrow> bool" where
  "validTier tier = (tier \<in> {cat_TierLow, cat_TierMid, cat_TierHigh})"

definition validBasicAttackDamageAttribute :: "string \<Rightarrow> bool" where
  "validBasicAttackDamageAttribute attribute = (attribute \<in> {'''', Strength, Agility})"

definition validRange :: "damage_range \<Rightarrow> bool" where
  "validRange r = (dr_Min r > 0 \<and> dr_Max r \<ge> dr_Min r)"

definition validWeapon :: "weapon \<Rightarrow> bool" where
  "validWeapon w =
     (wp_WeaponType w \<noteq> '''' \<and> validRange (wp_SmallDamage w) \<and> validRange (wp_LargeDamage w))"

definition validShield :: "shield \<Rightarrow> bool" where
  "validShield s =
     (if sh_BlockChancePercent s > 100 \<or> sh_BlockDamageReductionPercent s > 100 \<or>
         sh_MagicDamageReductionPercent s > 100
      then False
      else (sh_BlockChancePercent s = 0) = (sh_BlockDamageReductionPercent s = 0))"

definition staticModifierIDs :: "string list" where
  "staticModifierIDs =
     [StaticStrength, StaticDexterity, StaticIntelligence, StaticConstitution, StaticSpirit,
      StaticCharisma, StaticPhysicalHit, StaticCriticalRating, StaticPhysicalDamage,
      StaticMagicPower, StaticEvasion, StaticMaxHP, StaticMaxMP, StaticPhysicalDefense,
      StaticMagicDefense]"

definition validStaticModifierID :: "string \<Rightarrow> bool" where
  "validStaticModifierID i = (i \<in> set staticModifierIDs)"

text \<open>
  \<open>sort.Slice\<close> sorts by the key; two entries of one key, whose order it leaves open, are an
  error right after, so the stable sort of the library gives the same results.
\<close>

definition adjacent_equal :: "'k list \<Rightarrow> bool" where
  "adjacent_equal ks = list_ex (\<lambda>(a, b). a = b) (zip ks (tl ks))"

definition canonicalStaticModifiers :: "static_modifier list \<Rightarrow> static_modifier list option" where
  "canonicalStaticModifiers ms =
     (if ms = [] then Some []
      else let canonical = map (\<lambda>m. m\<lparr>sm_ID := TrimSpace (sm_ID m)\<rparr>) ms
           in if list_ex (\<lambda>m. \<not> validStaticModifierID (sm_ID m) \<or> sm_Value m = 0) canonical then None
              else let sorted = sort_key sm_ID canonical
                   in if adjacent_equal (map sm_ID sorted) then None else Some sorted)"

definition validPrimaryRequirementStat :: "string \<Rightarrow> bool" where
  "validPrimaryRequirementStat i =
     (i \<in> {Strength, Agility, Constitution, Intelligence, Spirit, Charisma})"

definition canonicalBaseRequirements :: "base_requirement list \<Rightarrow> base_requirement list option" where
  "canonicalBaseRequirements rs =
     (if rs = [] then Some []
      else let out = map (\<lambda>r. r\<lparr>rq_Stat := TrimSpace (rq_Stat r)\<rparr>) rs
           in if list_ex (\<lambda>r. \<not> validPrimaryRequirementStat (rq_Stat r) \<or> rq_Minimum r = 0) out then None
              else let sorted = sort_key rq_Stat out
                   in if adjacent_equal (map rq_Stat sorted) then None else Some sorted)"

definition primaryValue :: "primary \<Rightarrow> string \<Rightarrow> u32" where
  "primaryValue p i =
     (if i = Strength then pr_Strength p else if i = Agility then pr_Agility p
      else if i = Constitution then pr_Constitution p else if i = Intelligence then pr_Intelligence p
      else if i = Spirit then pr_Spirit p else if i = Charisma then pr_Charisma p else 0)"

definition BaseRequirementsMet :: "item_definition \<Rightarrow> primary \<Rightarrow> bool" where
  "BaseRequirementsMet d p =
     (\<not> list_ex (\<lambda>r. primaryValue p (rq_Stat r) < rq_Minimum r) (it_BaseRequirements d))"

text \<open>The loop over the sorted bonuses of one set; \<open>prev\<close> is the piece count before.\<close>

fun canonicalBonuses :: "u8 option \<Rightarrow> set_bonus list \<Rightarrow> set_bonus list option" where
  "canonicalBonuses prev [] = Some []"
| "canonicalBonuses prev (b # bs) =
     (if sb_Pieces b = 0 \<or> sb_StaticModifiers b = [] then None
      else case canonicalStaticModifiers (sb_StaticModifiers b) of
             None \<Rightarrow> None
           | Some canonical \<Rightarrow>
               if prev = Some (sb_Pieces b) then None
               else map_option (\<lambda>rest. b\<lparr>sb_StaticModifiers := canonical\<rparr> # rest)
                      (canonicalBonuses (Some (sb_Pieces b)) bs))"

fun addSets ::
  "(string, set_definition) fmap \<Rightarrow> set_definition list \<Rightarrow> (string, set_definition) fmap option" where
  "addSets sets [] = Some sets"
| "addSets sets (authored # rest) =
     (let sid = TrimSpace (sd_ID authored)
      in if sid = '''' \<or> sd_Bonuses authored = [] then None
         else if gomap_has sets sid then None
         else case canonicalBonuses None (sort_key sb_Pieces (sd_Bonuses authored)) of
                None \<Rightarrow> None
              | Some bonuses \<Rightarrow>
                  addSets (fmupd sid (authored\<lparr>sd_ID := sid, sd_Bonuses := bonuses\<rparr>) sets) rest)"

definition canonicalSetDefinitions ::
  "set_definition list \<Rightarrow> (string, set_definition) fmap option" where
  "canonicalSetDefinitions ss = addSets fmempty ss"

definition pieceCounts :: "catalog \<Rightarrow> string \<Rightarrow> nat" where
  "pieceCounts c sid =
     gomap_sum (\<lambda>_ item. if it_SetID item \<noteq> '''' \<and> it_SetID item = sid then 1 else 0) (cat_byItem c) +
     gomap_sum (\<lambda>_ item. if it_SetID item \<noteq> '''' \<and> it_SetID item = sid then 1 else 0) (cat_armorByItem c)"

definition validateSetPopulation :: "catalog \<Rightarrow> bool" where
  "validateSetPopulation c =
     fBall (fmdom (cat_sets c)) (\<lambda>sid.
       case fmlookup (cat_sets c) sid of
         None \<Rightarrow> True
       | Some s \<Rightarrow>
           pieceCounts c sid \<noteq> 0 \<and>
           list_all (\<lambda>bonus. unat (sb_Pieces bonus) \<le> pieceCounts c sid) (sd_Bonuses s))"

section \<open>Building the catalog\<close>

definition canonicalWeaponType :: "weapon_type_definition \<Rightarrow> weapon_type_definition" where
  "canonicalWeaponType authored =
     authored\<lparr>wt_WeaponType := TrimSpace (wt_WeaponType authored),
              wt_BasicAttackDamageAttribute := TrimSpace (wt_BasicAttackDamageAttribute authored)\<rparr>"

fun addWeaponTypes ::
  "(string, weapon_type_definition) fmap \<Rightarrow> weapon_type_definition list \<Rightarrow>
     (string, weapon_type_definition) fmap option" where
  "addWeaponTypes m [] = Some m"
| "addWeaponTypes m (raw # rest) =
     (let authored = canonicalWeaponType raw
      in if wt_WeaponType authored = '''' \<or>
            \<not> validBasicAttackDamageAttribute (wt_BasicAttackDamageAttribute authored) then None
         else if gomap_has m (wt_WeaponType authored) then None
         else if wt_BasicAttackIntervalMS authored = Some 0 then None
         else if (case wt_BasicAttackRange authored of
                    None \<Rightarrow> False
                  | Some r \<Rightarrow> f32_leq r 0 \<or> f32_IsNaN r \<or> f32_IsInf r) then None
         else addWeaponTypes (fmupd (wt_WeaponType authored) authored m) rest)"

definition trimItem :: "item_definition \<Rightarrow> item_definition" where
  "trimItem item =
     item\<lparr>it_ItemArchetypeID := TrimSpace (it_ItemArchetypeID item),
          it_Material := TrimSpace (it_Material item),
          it_ArmorClass := TrimSpace (it_ArmorClass item),
          it_SetID := TrimSpace (it_SetID item)\<rparr>"

text \<open>The kind-specific checks, after which the item is stored in one of the two maps.\<close>

definition storeItem :: "catalog \<Rightarrow> item_definition \<Rightarrow> catalog option" where
  "storeItem c item =
     (if it_Kind item = KindWeapon then
        (if it_Slot item \<noteq> SlotMainHand \<or> it_Weapon item = None \<or> it_Shield item \<noteq> None \<or>
            it_ArmorClass item \<noteq> '''' then None
         else let w = the (it_Weapon item);
                  w' = w\<lparr>wp_WeaponType := TrimSpace (wp_WeaponType w)\<rparr>
              in if \<not> validWeapon w' then None
                 else if \<not> gomap_has (cat_weaponTypes c) (wp_WeaponType w') then None
                 else Some (c\<lparr>cat_byItem :=
                        fmupd (it_ItemArchetypeID item) (item\<lparr>it_Weapon := Some w'\<rparr>) (cat_byItem c)\<rparr>))
      else if it_Kind item = KindShield then
        (if it_Slot item \<noteq> SlotOffHand \<or> it_Shield item = None \<or> it_Weapon item \<noteq> None \<or>
            it_ArmorClass item \<noteq> '''' \<or> \<not> validShield (the (it_Shield item)) then None
         else Some (c\<lparr>cat_byItem := fmupd (it_ItemArchetypeID item) item (cat_byItem c)\<rparr>))
      else if it_Kind item = KindArmor then
        (if \<not> validArmorSlot (it_Slot item) \<or> \<not> validArmorClass (it_ArmorClass item) \<or>
            it_Weapon item \<noteq> None \<or> it_Shield item \<noteq> None then None
         else Some (c\<lparr>cat_armorByItem := fmupd (it_ItemArchetypeID item) item (cat_armorByItem c)\<rparr>))
      else None)"

definition addItem :: "catalog \<Rightarrow> item_definition \<Rightarrow> catalog option" where
  "addItem c raw =
     (let item = trimItem raw
      in if it_ItemArchetypeID item = '''' \<or> it_Material item = '''' \<or> it_Weight item = 0 \<or>
            \<not> validTier (it_Tier item) then None
         else if gomap_has (cat_byItem c) (it_ItemArchetypeID item) then None
         else if gomap_has (cat_armorByItem c) (it_ItemArchetypeID item) then None
         else case canonicalStaticModifiers (it_StaticModifiers item) of
                None \<Rightarrow> None
              | Some staticModifiers \<Rightarrow>
                  (case canonicalBaseRequirements (it_BaseRequirements item) of
                     None \<Rightarrow> None
                   | Some baseRequirements \<Rightarrow>
                       if it_SetID item \<noteq> '''' \<and> \<not> gomap_has (cat_sets c) (it_SetID item) then None
                       else storeItem c (item\<lparr>it_StaticModifiers := staticModifiers,
                                              it_BaseRequirements := baseRequirements\<rparr>)))"

fun addItems :: "catalog \<Rightarrow> item_definition list \<Rightarrow> catalog option" where
  "addItems c [] = Some c"
| "addItems c (item # rest) =
     (case addItem c item of None \<Rightarrow> None | Some c' \<Rightarrow> addItems c' rest)"

definition catalog_New :: "catalog_definition \<Rightarrow> catalog option" where
  "catalog_New def =
     (let revision = TrimSpace (cd_Revision def)
      in if revision = '''' \<or> cd_Items def = [] then None
         else case canonicalSetDefinitions (cd_Sets def) of
                None \<Rightarrow> None
              | Some sets \<Rightarrow>
                  (case addWeaponTypes fmempty (cd_WeaponTypes def) of
                     None \<Rightarrow> None
                   | Some weaponTypes \<Rightarrow>
                       (case addItems \<lparr>cat_revision = revision, cat_byItem = fmempty,
                               cat_armorByItem = fmempty, cat_weaponTypes = weaponTypes,
                               cat_sets = sets\<rparr> (cd_Items def) of
                          None \<Rightarrow> None
                        | Some c \<Rightarrow> if validateSetPopulation c then Some c else None)))"

section \<open>Lookups\<close>

definition catalog_Resolve :: "catalog \<Rightarrow> string \<Rightarrow> item_definition option" where
  "catalog_Resolve c itemArchetypeID =
     (let i = TrimSpace itemArchetypeID
      in case fmlookup (cat_byItem c) i of
           Some item \<Rightarrow> Some item
         | None \<Rightarrow> fmlookup (cat_armorByItem c) i)"

definition weaponTypeOfItem :: "catalog \<Rightarrow> string \<Rightarrow> weapon_type_definition option" where
  "weaponTypeOfItem c itemArchetypeID =
     (case fmlookup (cat_byItem c) (TrimSpace itemArchetypeID) of
        None \<Rightarrow> None
      | Some item \<Rightarrow>
          (case it_Weapon item of
             None \<Rightarrow> None
           | Some w \<Rightarrow> fmlookup (cat_weaponTypes c) (wp_WeaponType w)))"

definition BasicAttackIntervalMSForItem :: "catalog \<Rightarrow> string \<Rightarrow> u32 option" where
  "BasicAttackIntervalMSForItem c itemArchetypeID =
     Option.bind (weaponTypeOfItem c itemArchetypeID) wt_BasicAttackIntervalMS"

definition BasicAttackDamageAttributeForItem :: "catalog \<Rightarrow> string \<Rightarrow> string option" where
  "BasicAttackDamageAttributeForItem c itemArchetypeID =
     (case weaponTypeOfItem c itemArchetypeID of
        None \<Rightarrow> None
      | Some d \<Rightarrow>
          if wt_BasicAttackDamageAttribute d = '''' then None
          else Some (wt_BasicAttackDamageAttribute d))"

definition BasicAttackRangeForItem :: "catalog \<Rightarrow> string \<Rightarrow> f32 option" where
  "BasicAttackRangeForItem c itemArchetypeID =
     Option.bind (weaponTypeOfItem c itemArchetypeID) wt_BasicAttackRange"

definition UnitWeights :: "catalog \<Rightarrow> (string, u32) fmap" where
  "UnitWeights c = fmadd (fmmap it_Weight (cat_byItem c)) (fmmap it_Weight (cat_armorByItem c))"

definition zeroRange :: damage_range where
  "zeroRange = \<lparr>dr_Min = 0, dr_Max = 0\<rparr>"

definition DamageRangeFor :: "item_definition \<Rightarrow> string \<Rightarrow> damage_range" where
  "DamageRangeFor d size' =
     (case it_Weapon d of
        None \<Rightarrow> zeroRange
      | Some w \<Rightarrow>
          if size' = BodySizeLarge \<or> size' = BodySizeGiant then wp_LargeDamage w
          else wp_SmallDamage w)"

definition StaticModifiersForItem :: "catalog \<Rightarrow> string \<Rightarrow> static_modifier list option" where
  "StaticModifiersForItem c itemArchetypeID =
     map_option it_StaticModifiers (catalog_Resolve c (TrimSpace itemArchetypeID))"

definition HandRequirementOneHand :: string where [go_defs]: "HandRequirementOneHand = ''one_hand''"
definition HandRequirementTwoHand :: string where [go_defs]: "HandRequirementTwoHand = ''two_hand''"

definition HandRequirementForWeaponType :: "string \<Rightarrow> string option" where
  "HandRequirementForWeaponType weaponType =
     (if weaponType \<in> {''one_hand_sword'', ''dagger'', ''one_hand_axe'', ''one_hand_spear'',
           ''warhammer'', ''morning_star'', ''mace'', ''sling''}
      then Some HandRequirementOneHand
      else if weaponType \<in> {''two_hand_sword'', ''two_hand_axe'', ''two_hand_spear'', ''knuckles'',
           ''claw'', ''dual_blades'', ''bow'', ''crossbow'', ''staff''}
      then Some HandRequirementTwoHand
      else None)"

definition HandRequirementForItem :: "catalog \<Rightarrow> string \<Rightarrow> string option" where
  "HandRequirementForItem c itemArchetypeID =
     (case catalog_Resolve c itemArchetypeID of
        None \<Rightarrow> None
      | Some d \<Rightarrow>
          if it_Kind d \<noteq> KindWeapon then None
          else case it_Weapon d of
                 None \<Rightarrow> None
               | Some w \<Rightarrow> HandRequirementForWeaponType (wp_WeaponType w))"

definition catalog_SetDefinition :: "catalog \<Rightarrow> string \<Rightarrow> set_definition option" where
  "catalog_SetDefinition c sid = fmlookup (cat_sets c) (TrimSpace sid)"

text \<open>The counting loop over the equipped archetype ids; a repeated id counts once.\<close>

fun countSetPieces ::
  "catalog \<Rightarrow> string fset \<Rightarrow> (string, nat) fmap \<Rightarrow> string list \<Rightarrow> (string, nat) fmap" where
  "countSetPieces c seenItems counts [] = counts"
| "countSetPieces c seenItems counts (rawID # rest) =
     (let i = TrimSpace rawID
      in if i = '''' then countSetPieces c seenItems counts rest
         else if i |\<in>| seenItems then countSetPieces c seenItems counts rest
         else case catalog_Resolve c i of
                None \<Rightarrow> countSetPieces c (finsert i seenItems) counts rest
              | Some item \<Rightarrow>
                  if it_SetID item = '''' then countSetPieces c (finsert i seenItems) counts rest
                  else countSetPieces c (finsert i seenItems)
                         (fmupd (it_SetID item) (gomap_at 0 counts (it_SetID item) + 1) counts) rest)"

fun activeBonuses ::
  "catalog \<Rightarrow> (string, nat) fmap \<Rightarrow> string list \<Rightarrow> static_modifier list option" where
  "activeBonuses c counts [] = Some []"
| "activeBonuses c counts (sid # sids) =
     (case fmlookup (cat_sets c) sid of
        None \<Rightarrow> None
      | Some s \<Rightarrow>
          map_option (\<lambda>rest.
              concat (map sb_StaticModifiers
                (filter (\<lambda>bonus. gomap_at 0 counts sid \<ge> unat (sb_Pieces bonus)) (sd_Bonuses s))) @ rest)
            (activeBonuses c counts sids))"

definition SetStaticModifiersForEquipped :: "catalog \<Rightarrow> string list \<Rightarrow> static_modifier list option" where
  "SetStaticModifiersForEquipped c itemArchetypeIDs =
     (if itemArchetypeIDs = [] then Some []
      else let counts = countSetPieces c {||} fmempty itemArchetypeIDs
           in activeBonuses c counts (gomap_keys counts))"

section \<open>The armor data authored in Go\<close>

definition catalog_armor ::
  "string \<Rightarrow> string \<Rightarrow> string \<Rightarrow> u32 \<Rightarrow> string \<Rightarrow> static_modifier list \<Rightarrow> item_definition" where
  "catalog_armor i slot armorClass weight material modifiers =
     \<lparr>it_ItemArchetypeID = i, it_Kind = KindArmor, it_Slot = slot, it_Tier = cat_TierLow,
      it_Weight = weight, it_Material = material, it_ArmorClass = armorClass, it_SetID = '''',
      it_BaseRequirements = [], it_StaticModifiers = modifiers, it_Weapon = None, it_Shield = None\<rparr>"

definition defaultLowTierArmor :: "item_definition list" where
  "defaultLowTierArmor =
     [catalog_armor ''item_low_cloth_helmet'' SlotHelmet ArmorClassCloth 1 ''cloth''
        [\<lparr>sm_ID = StaticMagicDefense, sm_Value = 1\<rparr>],
      catalog_armor ''item_low_cloth_chest'' SlotChest ArmorClassCloth 2 ''cloth''
        [\<lparr>sm_ID = StaticMagicDefense, sm_Value = 1\<rparr>],
      catalog_armor ''item_low_cloth_gloves'' SlotGloves ArmorClassCloth 1 ''cloth''
        [\<lparr>sm_ID = StaticMagicDefense, sm_Value = 1\<rparr>],
      catalog_armor ''item_low_cloth_legs'' SlotLegs ArmorClassCloth 2 ''cloth''
        [\<lparr>sm_ID = StaticMagicDefense, sm_Value = 1\<rparr>],
      catalog_armor ''item_low_cloth_boots'' SlotBoots ArmorClassCloth 1 ''cloth''
        [\<lparr>sm_ID = StaticMagicDefense, sm_Value = 1\<rparr>],
      catalog_armor ''item_low_leather_helmet'' SlotHelmet ArmorClassLeather 2 ''leather''
        [\<lparr>sm_ID = StaticPhysicalDefense, sm_Value = 1\<rparr>, \<lparr>sm_ID = StaticMagicDefense, sm_Value = 1\<rparr>],
      catalog_armor ''item_low_leather_chest'' SlotChest ArmorClassLeather 4 ''leather''
        [\<lparr>sm_ID = StaticPhysicalDefense, sm_Value = 1\<rparr>, \<lparr>sm_ID = StaticMagicDefense, sm_Value = 1\<rparr>],
      catalog_armor ''item_low_leather_gloves'' SlotGloves ArmorClassLeather 2 ''leather''
        [\<lparr>sm_ID = StaticPhysicalDefense, sm_Value = 1\<rparr>, \<lparr>sm_ID = StaticMagicDefense, sm_Value = 1\<rparr>],
      catalog_armor ''item_low_leather_legs'' SlotLegs ArmorClassLeather 3 ''leather''
        [\<lparr>sm_ID = StaticPhysicalDefense, sm_Value = 1\<rparr>, \<lparr>sm_ID = StaticMagicDefense, sm_Value = 1\<rparr>],
      catalog_armor ''item_low_leather_boots'' SlotBoots ArmorClassLeather 2 ''leather''
        [\<lparr>sm_ID = StaticPhysicalDefense, sm_Value = 1\<rparr>, \<lparr>sm_ID = StaticMagicDefense, sm_Value = 1\<rparr>],
      catalog_armor ''item_low_heavy_helmet'' SlotHelmet ArmorClassHeavy 4 ''iron''
        [\<lparr>sm_ID = StaticPhysicalDefense, sm_Value = 2\<rparr>],
      catalog_armor ''item_low_heavy_chest'' SlotChest ArmorClassHeavy 8 ''iron''
        [\<lparr>sm_ID = StaticPhysicalDefense, sm_Value = 2\<rparr>],
      catalog_armor ''item_low_heavy_gloves'' SlotGloves ArmorClassHeavy 3 ''iron''
        [\<lparr>sm_ID = StaticPhysicalDefense, sm_Value = 2\<rparr>],
      catalog_armor ''item_low_heavy_legs'' SlotLegs ArmorClassHeavy 6 ''iron''
        [\<lparr>sm_ID = StaticPhysicalDefense, sm_Value = 2\<rparr>],
      catalog_armor ''item_low_heavy_boots'' SlotBoots ArmorClassHeavy 4 ''iron''
        [\<lparr>sm_ID = StaticPhysicalDefense, sm_Value = 2\<rparr>]]"

definition progressionArmor ::
  "string \<Rightarrow> string \<Rightarrow> string \<Rightarrow> u32 \<Rightarrow> string \<Rightarrow> string \<Rightarrow> string \<Rightarrow> u32 \<Rightarrow> u32 \<Rightarrow>
     base_requirement list \<Rightarrow> item_definition" where
  "progressionArmor i slot tier weight material armorClass setID physicalDefense magicDefense requirements =
     \<lparr>it_ItemArchetypeID = i, it_Kind = KindArmor, it_Slot = slot, it_Tier = tier,
      it_Weight = weight, it_Material = material, it_ArmorClass = armorClass, it_SetID = setID,
      it_BaseRequirements = requirements,
      it_StaticModifiers =
        (if physicalDefense > 0 then [\<lparr>sm_ID = StaticPhysicalDefense, sm_Value = physicalDefense\<rparr>] else []) @
        (if magicDefense > 0 then [\<lparr>sm_ID = StaticMagicDefense, sm_Value = magicDefense\<rparr>] else []),
      it_Weapon = None, it_Shield = None\<rparr>"

definition defaultRemainingArmor :: "item_definition list" where
  "defaultRemainingArmor =
     (let constitution = [\<lparr>rq_Stat = Constitution, rq_Minimum = 18\<rparr>];
          agility = [\<lparr>rq_Stat = Agility, rq_Minimum = 18\<rparr>];
          intelligence = [\<lparr>rq_Stat = Intelligence, rq_Minimum = 18\<rparr>]
      in [progressionArmor ''item_garrison_steel_helm'' SlotHelmet cat_TierMid 5 ''steel'' ArmorClassHeavy
        ''set_garrison_steel'' 2 1 [],
      progressionArmor ''item_garrison_steel_cuirass'' SlotChest cat_TierMid 10 ''steel'' ArmorClassHeavy
        ''set_garrison_steel'' 4 1 [],
      progressionArmor ''item_garrison_steel_gauntlets'' SlotGloves cat_TierMid 4 ''steel'' ArmorClassHeavy
        ''set_garrison_steel'' 1 0 [],
      progressionArmor ''item_garrison_steel_greaves'' SlotLegs cat_TierMid 8 ''steel'' ArmorClassHeavy
        ''set_garrison_steel'' 3 1 [],
      progressionArmor ''item_garrison_steel_boots'' SlotBoots cat_TierMid 4 ''steel'' ArmorClassHeavy
        ''set_garrison_steel'' 2 1 [],
      progressionArmor ''item_windchaser_cap'' SlotHelmet cat_TierMid 2 ''leather'' ArmorClassLeather
        ''set_windchaser_huntgear'' 1 1 [],
      progressionArmor ''item_windchaser_armor'' SlotChest cat_TierMid 5 ''leather'' ArmorClassLeather
        ''set_windchaser_huntgear'' 3 2 [],
      progressionArmor ''item_windchaser_gloves'' SlotGloves cat_TierMid 2 ''leather'' ArmorClassLeather
        ''set_windchaser_huntgear'' 1 1 [],
      progressionArmor ''item_windchaser_leggings'' SlotLegs cat_TierMid 4 ''leather'' ArmorClassLeather
        ''set_windchaser_huntgear'' 2 1 [],
      progressionArmor ''item_windchaser_boots'' SlotBoots cat_TierMid 2 ''leather'' ArmorClassLeather
        ''set_windchaser_huntgear'' 1 1 [],
      progressionArmor ''item_arcane_rune_hood'' SlotHelmet cat_TierMid 1 ''cloth'' ArmorClassCloth
        ''set_arcane_rune_robes'' 1 2 [],
      progressionArmor ''item_arcane_rune_robe'' SlotChest cat_TierMid 3 ''cloth'' ArmorClassCloth
        ''set_arcane_rune_robes'' 1 4 [],
      progressionArmor ''item_arcane_rune_gloves'' SlotGloves cat_TierMid 1 ''cloth'' ArmorClassCloth
        ''set_arcane_rune_robes'' 0 1 [],
      progressionArmor ''item_arcane_rune_trousers'' SlotLegs cat_TierMid 2 ''cloth'' ArmorClassCloth
        ''set_arcane_rune_robes'' 1 3 [],
      progressionArmor ''item_arcane_rune_boots'' SlotBoots cat_TierMid 1 ''cloth'' ArmorClassCloth
        ''set_arcane_rune_robes'' 1 2 [],
      progressionArmor ''item_starforged_bastion_helm'' SlotHelmet cat_TierHigh 6 ''steel'' ArmorClassHeavy
        ''set_starforged_bastion'' 3 1 constitution,
      progressionArmor ''item_starforged_bastion_cuirass'' SlotChest cat_TierHigh 12 ''steel'' ArmorClassHeavy
        ''set_starforged_bastion'' 5 2 constitution,
      progressionArmor ''item_starforged_bastion_gauntlets'' SlotGloves cat_TierHigh 5 ''steel'' ArmorClassHeavy
        ''set_starforged_bastion'' 2 1 constitution,
      progressionArmor ''item_starforged_bastion_greaves'' SlotLegs cat_TierHigh 10 ''steel'' ArmorClassHeavy
        ''set_starforged_bastion'' 4 1 constitution,
      progressionArmor ''item_starforged_bastion_boots'' SlotBoots cat_TierHigh 5 ''steel'' ArmorClassHeavy
        ''set_starforged_bastion'' 2 1 constitution,
      progressionArmor ''item_starshadow_hunter_cap'' SlotHelmet cat_TierHigh 2 ''leather'' ArmorClassLeather
        ''set_starshadow_huntgear'' 2 1 agility,
      progressionArmor ''item_starshadow_hunter_armor'' SlotChest cat_TierHigh 6 ''leather'' ArmorClassLeather
        ''set_starshadow_huntgear'' 3 3 agility,
      progressionArmor ''item_starshadow_hunter_gloves'' SlotGloves cat_TierHigh 2 ''leather'' ArmorClassLeather
        ''set_starshadow_huntgear'' 1 1 agility,
      progressionArmor ''item_starshadow_hunter_leggings'' SlotLegs cat_TierHigh 5 ''leather'' ArmorClassLeather
        ''set_starshadow_huntgear'' 2 2 agility,
      progressionArmor ''item_starshadow_hunter_boots'' SlotBoots cat_TierHigh 2 ''leather'' ArmorClassLeather
        ''set_starshadow_huntgear'' 2 1 agility,
      progressionArmor ''item_starlight_hood'' SlotHelmet cat_TierHigh 1 ''cloth'' ArmorClassCloth
        ''set_starlight_robes'' 1 3 intelligence,
      progressionArmor ''item_starlight_robe'' SlotChest cat_TierHigh 4 ''cloth'' ArmorClassCloth
        ''set_starlight_robes'' 2 5 intelligence,
      progressionArmor ''item_starlight_gloves'' SlotGloves cat_TierHigh 1 ''cloth'' ArmorClassCloth
        ''set_starlight_robes'' 1 2 intelligence,
      progressionArmor ''item_starlight_trousers'' SlotLegs cat_TierHigh 2 ''cloth'' ArmorClassCloth
        ''set_starlight_robes'' 1 4 intelligence,
      progressionArmor ''item_starlight_boots'' SlotBoots cat_TierHigh 1 ''cloth'' ArmorClassCloth
        ''set_starlight_robes'' 1 2 intelligence])"

definition defaultArmorSets :: "set_definition list" where
  "defaultArmorSets =
     [\<lparr>sd_ID = ''set_garrison_steel'',
       sd_Bonuses =
         [\<lparr>sb_Pieces = 2, sb_StaticModifiers = [\<lparr>sm_ID = StaticMaxHP, sm_Value = 40\<rparr>]\<rparr>,
          \<lparr>sb_Pieces = 5, sb_StaticModifiers = [\<lparr>sm_ID = StaticStrength, sm_Value = 2\<rparr>, \<lparr>sm_ID = StaticPhysicalDefense, sm_Value = 2\<rparr>]\<rparr>]\<rparr>,
      \<lparr>sd_ID = ''set_windchaser_huntgear'',
       sd_Bonuses =
         [\<lparr>sb_Pieces = 2, sb_StaticModifiers = [\<lparr>sm_ID = StaticPhysicalHit, sm_Value = 2\<rparr>]\<rparr>,
          \<lparr>sb_Pieces = 5, sb_StaticModifiers = [\<lparr>sm_ID = StaticDexterity, sm_Value = 2\<rparr>, \<lparr>sm_ID = StaticCriticalRating, sm_Value = 1\<rparr>]\<rparr>]\<rparr>,
      \<lparr>sd_ID = ''set_arcane_rune_robes'',
       sd_Bonuses =
         [\<lparr>sb_Pieces = 2, sb_StaticModifiers = [\<lparr>sm_ID = StaticMaxMP, sm_Value = 20\<rparr>]\<rparr>,
          \<lparr>sb_Pieces = 5, sb_StaticModifiers = [\<lparr>sm_ID = StaticIntelligence, sm_Value = 2\<rparr>, \<lparr>sm_ID = StaticMagicPower, sm_Value = 1\<rparr>]\<rparr>]\<rparr>,
      \<lparr>sd_ID = ''set_starforged_bastion'',
       sd_Bonuses =
         [\<lparr>sb_Pieces = 2, sb_StaticModifiers = [\<lparr>sm_ID = StaticMaxHP, sm_Value = 80\<rparr>, \<lparr>sm_ID = StaticPhysicalDefense, sm_Value = 1\<rparr>]\<rparr>,
          \<lparr>sb_Pieces = 5, sb_StaticModifiers = [\<lparr>sm_ID = StaticStrength, sm_Value = 3\<rparr>, \<lparr>sm_ID = StaticPhysicalDefense, sm_Value = 2\<rparr>]\<rparr>]\<rparr>,
      \<lparr>sd_ID = ''set_starshadow_huntgear'',
       sd_Bonuses =
         [\<lparr>sb_Pieces = 2, sb_StaticModifiers = [\<lparr>sm_ID = StaticPhysicalHit, sm_Value = 4\<rparr>, \<lparr>sm_ID = StaticEvasion, sm_Value = 2\<rparr>]\<rparr>,
          \<lparr>sb_Pieces = 5, sb_StaticModifiers = [\<lparr>sm_ID = StaticDexterity, sm_Value = 3\<rparr>, \<lparr>sm_ID = StaticCriticalRating, sm_Value = 3\<rparr>]\<rparr>]\<rparr>,
      \<lparr>sd_ID = ''set_starlight_robes'',
       sd_Bonuses =
         [\<lparr>sb_Pieces = 2, sb_StaticModifiers = [\<lparr>sm_ID = StaticMaxMP, sm_Value = 40\<rparr>, \<lparr>sm_ID = StaticMagicDefense, sm_Value = 2\<rparr>]\<rparr>,
          \<lparr>sb_Pieces = 5, sb_StaticModifiers = [\<lparr>sm_ID = StaticIntelligence, sm_Value = 3\<rparr>, \<lparr>sm_ID = StaticMagicPower, sm_Value = 3\<rparr>]\<rparr>]\<rparr>]"

section \<open>A catalog is well formed\<close>

lemma sorted_distinct_strict: "sorted ks \<Longrightarrow> \<not> adjacent_equal ks \<Longrightarrow> sorted_wrt (<) ks"
proof (induction ks)
  case (Cons a ks)
  then show ?case
  proof (cases ks)
    case (Cons b bs)
    with Cons.prems have "a \<le> b" "a \<noteq> b" "\<not> adjacent_equal ks"
      by (auto simp: adjacent_equal_def)
    with Cons.IH Cons.prems Cons show ?thesis by (auto intro: less_le_trans)
  qed simp
qed simp

definition modifiers_wf :: "static_modifier list \<Rightarrow> bool" where
  "modifiers_wf ms =
     (sorted_wrt (<) (map sm_ID ms) \<and>
      list_all (\<lambda>m. validStaticModifierID (sm_ID m) \<and> sm_Value m \<noteq> 0) ms)"

definition requirements_wf :: "base_requirement list \<Rightarrow> bool" where
  "requirements_wf rs =
     (sorted_wrt (<) (map rq_Stat rs) \<and>
      list_all (\<lambda>r. validPrimaryRequirementStat (rq_Stat r) \<and> rq_Minimum r \<noteq> 0) rs)"

lemma canonicalStaticModifiers_wf: "canonicalStaticModifiers ms = Some out \<Longrightarrow> modifiers_wf out"
  by (auto simp: canonicalStaticModifiers_def modifiers_wf_def list_ex_iff list_all_iff Let_def
      intro: sorted_distinct_strict split: if_splits)

lemma canonicalBaseRequirements_wf: "canonicalBaseRequirements rs = Some out \<Longrightarrow> requirements_wf out"
  by (auto simp: canonicalBaseRequirements_def requirements_wf_def list_ex_iff list_all_iff Let_def
      intro: sorted_distinct_strict split: if_splits)

text \<open>What gameplay relies on for every stored item.\<close>

definition item_wf :: "catalog \<Rightarrow> string \<Rightarrow> item_definition \<Rightarrow> bool" where
  "item_wf c k d =
     (it_ItemArchetypeID d = k \<and> k \<noteq> '''' \<and> trimmed k \<and> it_Weight d \<noteq> 0 \<and> validTier (it_Tier d) \<and>
      modifiers_wf (it_StaticModifiers d) \<and> requirements_wf (it_BaseRequirements d) \<and>
      (it_SetID d \<noteq> '''' \<longrightarrow> gomap_has (cat_sets c) (it_SetID d)))"

definition hand_item_wf :: "catalog \<Rightarrow> item_definition \<Rightarrow> bool" where
  "hand_item_wf c d =
     (if it_Kind d = KindWeapon then
        it_Slot d = SlotMainHand \<and> it_Shield d = None \<and>
        (case it_Weapon d of None \<Rightarrow> False
         | Some w \<Rightarrow> validWeapon w \<and> gomap_has (cat_weaponTypes c) (wp_WeaponType w))
      else it_Kind d = KindShield \<and> it_Slot d = SlotOffHand \<and> it_Weapon d = None \<and>
        (case it_Shield d of None \<Rightarrow> False | Some s \<Rightarrow> validShield s))"

definition armor_item_wf :: "item_definition \<Rightarrow> bool" where
  "armor_item_wf d =
     (it_Kind d = KindArmor \<and> validArmorSlot (it_Slot d) \<and> validArmorClass (it_ArmorClass d) \<and>
      it_Weapon d = None \<and> it_Shield d = None)"

definition catalog_wf :: "catalog \<Rightarrow> bool" where
  "catalog_wf c =
     ((\<forall>k d. fmlookup (cat_byItem c) k = Some d \<longrightarrow> item_wf c k d \<and> hand_item_wf c d) \<and>
      (\<forall>k d. fmlookup (cat_armorByItem c) k = Some d \<longrightarrow> item_wf c k d \<and> armor_item_wf d) \<and>
      fmdom' (cat_byItem c) \<inter> fmdom' (cat_armorByItem c) = {})"

lemma kinds_distinct [simp]: "KindWeapon \<noteq> KindShield" "KindWeapon \<noteq> KindArmor" "KindShield \<noteq> KindArmor"
  "KindShield \<noteq> KindWeapon" "KindArmor \<noteq> KindWeapon" "KindArmor \<noteq> KindShield"
  by (simp_all add: go_defs)

text \<open>One successful \<open>addItem\<close>: the canonical item goes into exactly one map.\<close>

lemma addItem_cases:
  assumes "addItem c raw = Some c'"
  obtains d where
    "it_ItemArchetypeID d = TrimSpace (it_ItemArchetypeID raw)" "it_Weight d = it_Weight raw"
    "it_Kind d = it_Kind raw" "it_Slot d = it_Slot raw" "it_Tier d = it_Tier raw"
    "item_wf c (it_ItemArchetypeID d) d"
    "\<not> gomap_has (cat_byItem c) (it_ItemArchetypeID d)"
    "\<not> gomap_has (cat_armorByItem c) (it_ItemArchetypeID d)"
    "hand_item_wf c d \<and> c' = c\<lparr>cat_byItem := fmupd (it_ItemArchetypeID d) d (cat_byItem c)\<rparr> \<or>
     armor_item_wf d \<and> c' = c\<lparr>cat_armorByItem := fmupd (it_ItemArchetypeID d) d (cat_armorByItem c)\<rparr>"
proof -
  define item where "item = trimItem raw"
  from assms obtain sms brs where
    pre: "it_ItemArchetypeID item \<noteq> ''''" "it_Weight item \<noteq> 0" "validTier (it_Tier item)"
      "\<not> gomap_has (cat_byItem c) (it_ItemArchetypeID item)"
      "\<not> gomap_has (cat_armorByItem c) (it_ItemArchetypeID item)"
    and sms: "canonicalStaticModifiers (it_StaticModifiers item) = Some sms"
    and brs: "canonicalBaseRequirements (it_BaseRequirements item) = Some brs"
    and sid: "it_SetID item \<noteq> '''' \<longrightarrow> gomap_has (cat_sets c) (it_SetID item)"
    and st: "storeItem c (item\<lparr>it_StaticModifiers := sms, it_BaseRequirements := brs\<rparr>) = Some c'"
    by (auto simp: addItem_def Let_def item_def split: if_splits option.splits)
  define it where "it = item\<lparr>it_StaticModifiers := sms, it_BaseRequirements := brs\<rparr>"
  have wf: "item_wf c (it_ItemArchetypeID it) it"
    using pre sid canonicalStaticModifiers_wf [OF sms] canonicalBaseRequirements_wf [OF brs]
    by (simp add: item_wf_def it_def item_def trimItem_def)
  have raw: "it_ItemArchetypeID it = TrimSpace (it_ItemArchetypeID raw)" "it_Weight it = it_Weight raw"
    "it_Kind it = it_Kind raw" "it_Slot it = it_Slot raw" "it_Tier it = it_Tier raw"
    by (simp_all add: it_def item_def trimItem_def)
  show thesis
  proof (cases "it_Kind it = KindWeapon")
    case True
    with st obtain w where w: "it_Slot it = SlotMainHand" "it_Shield it = None" "it_Weapon it = Some w"
      and v: "validWeapon (w\<lparr>wp_WeaponType := TrimSpace (wp_WeaponType w)\<rparr>)"
        "gomap_has (cat_weaponTypes c) (TrimSpace (wp_WeaponType w))"
      and c': "c' = c\<lparr>cat_byItem := fmupd (it_ItemArchetypeID it)
        (it\<lparr>it_Weapon := Some (w\<lparr>wp_WeaponType := TrimSpace (wp_WeaponType w)\<rparr>)\<rparr>) (cat_byItem c)\<rparr>"
      by (auto simp: storeItem_def Let_def simp flip: it_def split: if_splits)
    define d where "d = it\<lparr>it_Weapon := Some (w\<lparr>wp_WeaponType := TrimSpace (wp_WeaponType w)\<rparr>)\<rparr>"
    show thesis
      by (rule that [of d])
        (use raw wf pre w v c' True in \<open>simp_all add: d_def it_def item_wf_def hand_item_wf_def\<close>)
  next
    case False
    show thesis
      by (rule that [of it])
        (use raw wf pre st False in
          \<open>auto simp: storeItem_def hand_item_wf_def armor_item_wf_def it_def split: if_splits\<close>)
  qed
qed

lemma item_wf_cong: "cat_sets c' = cat_sets c \<Longrightarrow> item_wf c' k d = item_wf c k d"
  by (simp add: item_wf_def)

lemma hand_item_wf_cong: "cat_weaponTypes c' = cat_weaponTypes c \<Longrightarrow> hand_item_wf c' d = hand_item_wf c d"
  by (simp add: hand_item_wf_def split: option.splits)

lemma addItem_wf:
  assumes "addItem c raw = Some c'" and "catalog_wf c"
  shows "catalog_wf c' \<and> cat_sets c' = cat_sets c \<and> cat_weaponTypes c' = cat_weaponTypes c"
proof -
  obtain d where d: "item_wf c (it_ItemArchetypeID d) d"
    "\<not> gomap_has (cat_byItem c) (it_ItemArchetypeID d)"
    "\<not> gomap_has (cat_armorByItem c) (it_ItemArchetypeID d)"
    "hand_item_wf c d \<and> c' = c\<lparr>cat_byItem := fmupd (it_ItemArchetypeID d) d (cat_byItem c)\<rparr> \<or>
     armor_item_wf d \<and> c' = c\<lparr>cat_armorByItem := fmupd (it_ItemArchetypeID d) d (cat_armorByItem c)\<rparr>"
    using addItem_cases [OF assms(1)] by metis
  then have same: "cat_sets c' = cat_sets c" "cat_weaponTypes c' = cat_weaponTypes c" by auto
  note cong = item_wf_cong [OF same(1)] hand_item_wf_cong [OF same(2)]
  show ?thesis
    using d assms(2) same unfolding catalog_wf_def cong
    by (auto simp: gomap_has_dom split: if_splits)
qed

text \<open>A stored item is never replaced: its id is refused when it is met again.\<close>

lemma addItem_keeps:
  assumes "addItem c raw = Some c'"
  shows "fmlookup (cat_byItem c) k = Some d \<Longrightarrow> fmlookup (cat_byItem c') k = Some d"
    and "fmlookup (cat_armorByItem c) k = Some d \<Longrightarrow> fmlookup (cat_armorByItem c') k = Some d"
  by (rule addItem_cases [OF assms]; auto simp: gomap_has_def)+

lemma addItem_stored:
  assumes "addItem c raw = Some c'"
  shows "\<exists>d. it_ItemArchetypeID d = TrimSpace (it_ItemArchetypeID raw) \<and>
    it_Weight d = it_Weight raw \<and> it_Kind d = it_Kind raw \<and> it_Slot d = it_Slot raw \<and>
    it_Tier d = it_Tier raw \<and>
    (fmlookup (cat_byItem c') (it_ItemArchetypeID d) = Some d \<or>
     fmlookup (cat_armorByItem c') (it_ItemArchetypeID d) = Some d)"
proof (rule addItem_cases [OF assms])
  fix d
  assume "it_ItemArchetypeID d = TrimSpace (it_ItemArchetypeID raw)" "it_Weight d = it_Weight raw"
    "it_Kind d = it_Kind raw" "it_Slot d = it_Slot raw" "it_Tier d = it_Tier raw"
    "hand_item_wf c d \<and> c' = c\<lparr>cat_byItem := fmupd (it_ItemArchetypeID d) d (cat_byItem c)\<rparr> \<or>
     armor_item_wf d \<and> c' = c\<lparr>cat_armorByItem := fmupd (it_ItemArchetypeID d) d (cat_armorByItem c)\<rparr>"
  then show ?thesis by (intro exI [of _ d]) auto
qed

lemma addItems_wf:
  "addItems c items = Some c' \<Longrightarrow> catalog_wf c \<Longrightarrow>
     catalog_wf c' \<and> cat_sets c' = cat_sets c \<and> cat_weaponTypes c' = cat_weaponTypes c"
proof (induction c items rule: addItems.induct)
  case (2 c item rest)
  then obtain c1 where a: "addItem c item = Some c1" and r: "addItems c1 rest = Some c'"
    by (auto split: option.splits)
  from addItem_wf [OF a "2.prems"(2)] "2.IH" [OF a r] show ?case by simp
qed simp

lemma addItems_keeps:
  "addItems c items = Some c' \<Longrightarrow>
     (fmlookup (cat_byItem c) k = Some d \<longrightarrow> fmlookup (cat_byItem c') k = Some d) \<and>
     (fmlookup (cat_armorByItem c) k = Some d \<longrightarrow> fmlookup (cat_armorByItem c') k = Some d)"
proof (induction c items rule: addItems.induct)
  case (2 c item rest)
  then obtain c1 where a: "addItem c item = Some c1" and r: "addItems c1 rest = Some c'"
    by (auto split: option.splits)
  from "2.IH" [OF a r] addItem_keeps [OF a] show ?case by blast
qed simp

definition catalog_item :: "catalog \<Rightarrow> string \<Rightarrow> item_definition option" where
  "catalog_item c k =
     (case fmlookup (cat_byItem c) k of Some d \<Rightarrow> Some d | None \<Rightarrow> fmlookup (cat_armorByItem c) k)"

lemma Resolve_item: "catalog_Resolve c i = catalog_item c (TrimSpace i)"
  by (simp add: catalog_Resolve_def catalog_item_def Let_def)

lemma addItems_complete:
  "addItems c items = Some c' \<Longrightarrow> catalog_wf c \<Longrightarrow> raw \<in> set items \<Longrightarrow>
     \<exists>d. catalog_item c' (TrimSpace (it_ItemArchetypeID raw)) = Some d \<and>
       it_Weight d = it_Weight raw \<and> it_Kind d = it_Kind raw \<and> it_Slot d = it_Slot raw \<and>
       it_Tier d = it_Tier raw"
proof (induction c items rule: addItems.induct)
  case (2 c item rest)
  then obtain c1 where a: "addItem c item = Some c1" and r: "addItems c1 rest = Some c'"
    by (auto split: option.splits)
  have wf1: "catalog_wf c1" and wf': "catalog_wf c'"
    using addItem_wf [OF a "2.prems"(2)] addItems_wf [OF r] by auto
  show ?case
  proof (cases "raw \<in> set rest")
    case True
    with "2.IH" [OF a r wf1] show ?thesis by blast
  next
    case False
    with "2.prems"(3) have "raw = item" by simp
    obtain d where d: "it_ItemArchetypeID d = TrimSpace (it_ItemArchetypeID item)"
      "it_Weight d = it_Weight item" "it_Kind d = it_Kind item" "it_Slot d = it_Slot item"
      "it_Tier d = it_Tier item"
      and s: "fmlookup (cat_byItem c1) (it_ItemArchetypeID d) = Some d \<or>
        fmlookup (cat_armorByItem c1) (it_ItemArchetypeID d) = Some d"
      using addItem_stored [OF a] by blast
    have "catalog_item c' (it_ItemArchetypeID d) = Some d"
    proof (cases "fmlookup (cat_byItem c1) (it_ItemArchetypeID d) = Some d")
      case True
      with addItems_keeps [OF r] show ?thesis by (simp add: catalog_item_def)
    next
      case False
      with s addItems_keeps [OF r] have l: "fmlookup (cat_armorByItem c') (it_ItemArchetypeID d) = Some d"
        by blast
      then have "it_ItemArchetypeID d \<notin> fmdom' (cat_byItem c')"
        using wf' unfolding catalog_wf_def by (blast intro: fmdom'I)
      with l show ?thesis by (simp add: catalog_item_def fmdom'_notD)
    qed
    with d \<open>raw = item\<close> show ?thesis by metis
  qed
qed simp

lemma catalog_New_wf_lemma:
  assumes "catalog_New def = Some c"
  shows "catalog_wf c"
proof -
  obtain c0 where "addItems c0 (cd_Items def) = Some c" and "cat_byItem c0 = fmempty"
    and "cat_armorByItem c0 = fmempty"
    using assms by (auto simp: catalog_New_def Let_def split: if_splits option.splits)
  moreover from this have "catalog_wf c0" by (simp add: catalog_wf_def)
  ultimately show ?thesis using addItems_wf by blast
qed

lemma UnitWeights_item:
  assumes "catalog_wf c"
  shows "fmlookup (UnitWeights c) k = map_option it_Weight (catalog_item c k)"
proof (cases "fmlookup (cat_armorByItem c) k")
  case None
  then show ?thesis
    by (cases "fmlookup (cat_byItem c) k") (simp_all add: UnitWeights_def catalog_item_def fmlookup_dom_iff)
next
  case (Some d)
  then have "k \<in> fmdom' (cat_armorByItem c)" by (rule fmdom'I)
  then have "k \<notin> fmdom' (cat_byItem c)" using assms unfolding catalog_wf_def by blast
  then have "fmlookup (cat_byItem c) k = None" by (rule fmdom'_notD)
  with Some show ?thesis by (simp add: UnitWeights_def catalog_item_def fmlookup_dom_iff)
qed

section \<open>Set bonuses depend on the set of equipped ids\<close>

definition set_pieces :: "catalog \<Rightarrow> string \<Rightarrow> string set" where
  "set_pieces c sid =
     {i. i \<noteq> '''' \<and> sid \<noteq> '''' \<and> (\<exists>d. catalog_item c i = Some d \<and> it_SetID d = sid)}"

text \<open>One round of the counting loop, with the set an id counts for.\<close>

definition set_of :: "catalog \<Rightarrow> string \<Rightarrow> string" where
  "set_of c i = (case catalog_item c i of None \<Rightarrow> '''' | Some d \<Rightarrow> it_SetID d)"

lemma set_pieces_of: "set_pieces c sid = {i. i \<noteq> '''' \<and> sid \<noteq> '''' \<and> set_of c i = sid}"
  by (auto simp: set_pieces_def set_of_def split: option.splits)

lemma countSetPieces_round:
  "TrimSpace raw = '''' \<or> TrimSpace raw |\<in>| seen \<Longrightarrow>
     countSetPieces c seen counts (raw # rest) = countSetPieces c seen counts rest"
  "TrimSpace raw \<noteq> '''' \<Longrightarrow> TrimSpace raw |\<notin>| seen \<Longrightarrow>
     countSetPieces c seen counts (raw # rest) =
       countSetPieces c (finsert (TrimSpace raw) seen)
         (let s = set_of c (TrimSpace raw)
          in if s = '''' then counts else fmupd s (gomap_at 0 counts s + 1) counts) rest"
  by (auto simp: Let_def Resolve_item set_of_def split: option.splits)

lemma countSetPieces_count:
  "gomap_at 0 (countSetPieces c seen counts raws) sid =
     gomap_at 0 counts sid + card ((TrimSpace ` set raws - fset seen) \<inter> set_pieces c sid)"
proof (induction raws arbitrary: seen counts)
  case (Cons raw rest)
  define i where "i = TrimSpace raw"
  show ?case
  proof (cases "i = '''' \<or> i |\<in>| seen")
    case True
    then have "(TrimSpace ` set (raw # rest) - fset seen) \<inter> set_pieces c sid =
        (TrimSpace ` set rest - fset seen) \<inter> set_pieces c sid"
      by (auto simp: set_pieces_def simp flip: i_def)
    with Cons.IH countSetPieces_round(1) [of raw seen] True show ?thesis by (simp flip: i_def)
  next
    case False
    define B where "B = (TrimSpace ` set rest - fset (finsert i seen)) \<inter> set_pieces c sid"
    have finB: "finite B" "i \<notin> B" by (simp_all add: B_def)
    have "(TrimSpace ` set (raw # rest) - fset seen) \<inter> set_pieces c sid =
        (if set_of c i = sid \<and> sid \<noteq> '''' then insert i B else B)"
      using False by (auto simp: B_def set_pieces_of simp flip: i_def)
    then have "card ((TrimSpace ` set (raw # rest) - fset seen) \<inter> set_pieces c sid) =
        card B + (if set_of c i = sid \<and> sid \<noteq> '''' then 1 else 0)"
      using finB by simp
    moreover have "gomap_at 0 (countSetPieces c seen counts (raw # rest)) sid =
        gomap_at 0 counts sid + (if set_of c i = sid \<and> sid \<noteq> '''' then 1 else 0) + card B"
      using countSetPieces_round(2) [of raw seen] False Cons.IH [of "finsert i seen"]
      by (auto simp: Let_def B_def simp flip: i_def)
    ultimately show ?thesis by simp
  qed
qed simp

lemma countSetPieces_has:
  "gomap_has (countSetPieces c seen counts raws) sid \<Longrightarrow>
     gomap_has counts sid \<or> 0 < gomap_at 0 (countSetPieces c seen counts raws) sid"
proof (induction raws arbitrary: seen counts)
  case (Cons raw rest)
  define i where "i = TrimSpace raw"
  define counts' where "counts' = (let s = set_of c i
      in if s = '''' then counts else fmupd s (gomap_at 0 counts s + 1) counts)"
  show ?case
  proof (cases "i = '''' \<or> i |\<in>| seen")
    case True
    with Cons countSetPieces_round(1) [of raw seen] show ?thesis by (simp flip: i_def)
  next
    case False
    then have step: "countSetPieces c seen counts (raw # rest) =
        countSetPieces c (finsert i seen) counts' rest"
      using countSetPieces_round(2) [of raw seen] by (simp add: counts'_def flip: i_def)
    have "gomap_has counts' sid \<or> 0 < gomap_at 0 (countSetPieces c (finsert i seen) counts' rest) sid"
      using Cons step by simp
    moreover have "gomap_at 0 counts' sid \<le> gomap_at 0 (countSetPieces c (finsert i seen) counts' rest) sid"
      by (simp add: countSetPieces_count)
    ultimately show ?thesis
      unfolding step by (auto simp: counts'_def Let_def split: if_splits)
  qed
qed simp

lemma countSetPieces_lookup:
  "fmlookup (countSetPieces c {||} fmempty raws) sid =
     (let n = card (TrimSpace ` set raws \<inter> set_pieces c sid) in if n = 0 then None else Some n)"
proof -
  define m where "m = countSetPieces c {||} fmempty raws"
  have at: "gomap_at 0 m sid = card (TrimSpace ` set raws \<inter> set_pieces c sid)"
    by (simp add: m_def countSetPieces_count)
  have "gomap_has m sid \<Longrightarrow> 0 < gomap_at 0 m sid"
    using countSetPieces_has [of c "{||}" fmempty raws sid] by (simp add: m_def)
  then show ?thesis
    using at by (cases "fmlookup m sid") (auto simp: gomap_has_def gomap_at_def Let_def m_def)
qed

lemma activeBonuses_total:
  "\<forall>sid \<in> set sids. gomap_has (cat_sets c) sid \<Longrightarrow> activeBonuses c counts sids \<noteq> None"
  by (induction sids) (auto simp: gomap_has_def split: option.splits)

lemma set_pieces_known:
  assumes "catalog_wf c" and "set_pieces c sid \<noteq> {}"
  shows "gomap_has (cat_sets c) sid"
proof -
  obtain i d where "catalog_item c i = Some d" "it_SetID d = sid" "sid \<noteq> ''''"
    using assms(2) by (auto simp: set_pieces_def)
  then show ?thesis
    using assms(1) by (auto simp: catalog_wf_def catalog_item_def item_wf_def split: option.splits)
qed

section \<open>Properties\<close>

text \<open>
  C35. A catalog that \<open>New\<close> accepts is well formed: whatever \<open>Resolve\<close> finds is stored
  under its own trimmed id, has a positive weight, a known tier, canonical modifiers and
  requirements, and fits its kind: a weapon sits in the main hand with valid damage ranges
  and a declared weapon type, a shield in the off hand with valid percentages, armor in one
  of the five armor slots. No id names both a hand item and a piece of armor.
\<close>

theorem catalog_New_wf:
  assumes "catalog_New def = Some c" and "catalog_Resolve c i = Some d"
  shows "it_ItemArchetypeID d = TrimSpace i \<and> item_wf c (TrimSpace i) d \<and>
    (if it_Kind d = KindArmor then armor_item_wf d \<and> \<not> gomap_has (cat_byItem c) (TrimSpace i)
     else hand_item_wf c d \<and> \<not> gomap_has (cat_armorByItem c) (TrimSpace i))"
proof -
  have wf: "catalog_wf c" using assms(1) by (rule catalog_New_wf_lemma)
  have disj: "fmdom' (cat_byItem c) \<inter> fmdom' (cat_armorByItem c) = {}"
    using wf by (simp add: catalog_wf_def)
  show ?thesis
  proof (cases "fmlookup (cat_byItem c) (TrimSpace i)")
    case None
    with assms(2) have "fmlookup (cat_armorByItem c) (TrimSpace i) = Some d"
      by (simp add: Resolve_item catalog_item_def)
    with wf None show ?thesis
      by (auto simp: catalog_wf_def item_wf_def armor_item_wf_def gomap_has_def)
  next
    case (Some d')
    with assms(2) have "d' = d" by (simp add: Resolve_item catalog_item_def)
    with Some have l: "fmlookup (cat_byItem c) (TrimSpace i) = Some d" by simp
    then have w: "item_wf c (TrimSpace i) d" "hand_item_wf c d" using wf by (simp_all add: catalog_wf_def)
    moreover have "it_Kind d \<noteq> KindArmor" using w(2) by (auto simp: hand_item_wf_def split: if_splits)
    moreover have "\<not> gomap_has (cat_armorByItem c) (TrimSpace i)"
      using l disj by (auto simp: gomap_has_dom dest: fmdom'I)
    ultimately show ?thesis by (simp add: item_wf_def)
  qed
qed

text \<open>
  No authored item is lost: every item of an accepted definition resolves under its id,
  padded with spaces or not, with its weight, kind, slot and tier, and the inventory's unit
  weight for it is that weight.
\<close>

theorem catalog_New_complete:
  assumes "catalog_New def = Some c" and "raw \<in> set (cd_Items def)"
  shows "(\<exists>d. catalog_Resolve c (it_ItemArchetypeID raw) = Some d \<and> it_Weight d = it_Weight raw \<and>
      it_Kind d = it_Kind raw \<and> it_Slot d = it_Slot raw \<and> it_Tier d = it_Tier raw) \<and>
    fmlookup (UnitWeights c) (TrimSpace (it_ItemArchetypeID raw)) = Some (it_Weight raw)"
proof -
  obtain c0 where a: "addItems c0 (cd_Items def) = Some c" and "cat_byItem c0 = fmempty"
    and "cat_armorByItem c0 = fmempty"
    using assms(1) by (auto simp: catalog_New_def Let_def split: if_splits option.splits)
  then have "catalog_wf c0" by (simp add: catalog_wf_def)
  from addItems_complete [OF a this assms(2)] show ?thesis
    using UnitWeights_item [OF catalog_New_wf_lemma [OF assms(1)]] by (auto simp: Resolve_item)
qed

text \<open>
  Set bonuses of an accepted catalog never fail, and depend only on which archetypes
  are equipped: not on the order, on repetitions or on surrounding spaces of the ids.
\<close>

theorem set_bonuses_canonical:
  assumes "catalog_New def = Some c" and "TrimSpace ` set ids = TrimSpace ` set ids'"
  shows "SetStaticModifiersForEquipped c ids = SetStaticModifiersForEquipped c ids' \<and>
    SetStaticModifiersForEquipped c ids \<noteq> None"
proof -
  have wf: "catalog_wf c" using assms(1) by (rule catalog_New_wf_lemma)
  have "countSetPieces c {||} fmempty ids = countSetPieces c {||} fmempty ids'"
    using assms(2) by (intro fmap_ext) (simp add: countSetPieces_lookup)
  moreover have "ids = [] \<longleftrightarrow> ids' = []" using assms(2) by auto
  moreover have "\<forall>sid \<in> set (gomap_keys (countSetPieces c {||} fmempty ids)). gomap_has (cat_sets c) sid"
    by (intro ballI set_pieces_known [OF wf])
      (auto simp: gomap_keys_props countSetPieces_lookup Let_def fmlookup_dom'_iff split: if_splits)
  ultimately show ?thesis
    using activeBonuses_total by (simp add: SetStaticModifiersForEquipped_def Let_def)
qed

section \<open>Witnesses\<close>

definition sample_catalog :: catalog_definition where
  "sample_catalog =
     \<lparr>cd_Revision = ''r1'', cd_WeaponTypes = [],
      cd_Sets = [\<lparr>sd_ID = ''set_a'',
        sd_Bonuses = [\<lparr>sb_Pieces = 2, sb_StaticModifiers = [\<lparr>sm_ID = StaticMaxHP, sm_Value = 40\<rparr>]\<rparr>]\<rparr>],
      cd_Items =
        [progressionArmor ''helm'' SlotHelmet cat_TierMid 5 ''steel'' ArmorClassHeavy ''set_a'' 2 1 [],
         progressionArmor ''cuirass'' SlotChest cat_TierMid 10 ''steel'' ArmorClassHeavy ''set_a'' 4 1 []]\<rparr>"

lemma sample_catalog_accepted:
  "case catalog_New sample_catalog of None \<Rightarrow> False
   | Some c \<Rightarrow> catalog_Resolve c '' helm '' \<noteq> None \<and>
       SetStaticModifiersForEquipped c [''helm'', ''cuirass''] \<noteq> Some []"
  by code_simp

theorem catalog_New_wf_witness:
  "\<exists>c d. catalog_New sample_catalog = Some c \<and> catalog_Resolve c '' helm '' = Some d \<and>
     it_ItemArchetypeID d = TrimSpace '' helm '' \<and> item_wf c (TrimSpace '' helm '') d"
proof -
  obtain c d where "catalog_New sample_catalog = Some c" "catalog_Resolve c '' helm '' = Some d"
    using sample_catalog_accepted by (auto split: option.splits)
  with catalog_New_wf [OF this] show ?thesis by blast
qed

theorem catalog_New_complete_witness:
  "\<exists>c. catalog_New sample_catalog = Some c \<and> fmlookup (UnitWeights c) (TrimSpace ''cuirass'') = Some 10"
proof -
  obtain c where c: "catalog_New sample_catalog = Some c"
    using sample_catalog_accepted by (auto split: option.splits)
  have "progressionArmor ''cuirass'' SlotChest cat_TierMid 10 ''steel'' ArmorClassHeavy ''set_a'' 4 1 []
      \<in> set (cd_Items sample_catalog)"
    by (simp add: sample_catalog_def)
  from catalog_New_complete [OF c this] c show ?thesis by (simp add: progressionArmor_def)
qed

theorem set_bonuses_canonical_witness:
  "\<exists>c. catalog_New sample_catalog = Some c \<and>
     SetStaticModifiersForEquipped c [''helm'', ''cuirass''] =
       SetStaticModifiersForEquipped c [''cuirass'', ''helm'', ''helm'']"
proof -
  obtain c where c: "catalog_New sample_catalog = Some c"
    using sample_catalog_accepted by (auto split: option.splits)
  have "TrimSpace ` set [''helm'', ''cuirass''] = TrimSpace ` set [''cuirass'', ''helm'', ''helm'']"
    by auto
  from set_bonuses_canonical [OF c this] c show ?thesis by blast
qed

end
