(* ===== verification/ItemInstance.thy ===== *)
theory ItemInstance
  imports EquipmentAffix EquipmentCatalog
begin

text \<open>
  Equipment instances (\<open>internal/iteminstance/item.go\<close>): creation with rolled affixes,
  validation, and the canonical durable form. Encoding and decoding JSON is the standard
  library's: the encoder and the decoder are parameters.
\<close>

datatype instance_error =
  ErrInvalidInstance | ErrUnsupportedItem | FromAffix affix_error | ErrJSON

record item_instance =
  inst_ID :: string
  inst_ItemArchetypeID :: string
  inst_Affixes :: "affix list"

definition affixDomain :: "item_definition \<Rightarrow> instance_error + string \<times> string" where
  "affixDomain d =
     (case (if it_Tier d = cat_TierLow then Some TierLow
            else if it_Tier d = cat_TierMid then Some TierMid
            else if it_Tier d = cat_TierHigh then Some TierHigh else None) of
        None \<Rightarrow> Inl ErrUnsupportedItem
      | Some tier \<Rightarrow>
          (case (if it_Kind d = KindWeapon then Some EquipmentKindWeapon
                 else if it_Kind d = KindShield then Some EquipmentKindShield
                 else if it_Kind d = KindArmor then Some EquipmentKindArmor else None) of
             None \<Rightarrow> Inl ErrUnsupportedItem
           | Some kind \<Rightarrow> Inr (tier, kind)))"

text \<open>The loop of \<open>ValidateShape\<close>; \<open>prev\<close> is the affix id before, if any.\<close>

fun affixShape :: "string option \<Rightarrow> affix list \<Rightarrow> bool" where
  "affixShape prev [] = True"
| "affixShape prev (a # as) =
     (case ValueFor (affix_ID a) (affix_Strength a) of
        None \<Rightarrow> False
      | Some v \<Rightarrow>
          if v \<noteq> affix_Value a then False
          else if (case prev of None \<Rightarrow> False | Some p \<Rightarrow> p \<ge> affix_ID a) then False
          else affixShape (Some (affix_ID a)) as)"

definition ValidateShape :: "item_instance \<Rightarrow> instance_error option" where
  "ValidateShape i =
     (if TrimSpace (inst_ID i) = '''' \<or> inst_ID i \<noteq> TrimSpace (inst_ID i) then Some ErrInvalidInstance
      else if TrimSpace (inst_ItemArchetypeID i) = '''' \<or>
              inst_ItemArchetypeID i \<noteq> TrimSpace (inst_ItemArchetypeID i) then Some ErrInvalidInstance
      else if affixShape None (inst_Affixes i) then None else Some ErrInvalidInstance)"

definition instance_Validate :: "item_instance \<Rightarrow> item_definition \<Rightarrow> instance_error option" where
  "instance_Validate i d =
     (case ValidateShape i of
        Some e \<Rightarrow> Some e
      | None \<Rightarrow>
          if inst_ItemArchetypeID i \<noteq> it_ItemArchetypeID d then Some ErrInvalidInstance
          else case affixDomain d of
                 Inl e \<Rightarrow> Some e
               | Inr (tier, kind) \<Rightarrow>
                   if affix_Validate tier kind (inst_Affixes i) \<noteq> None then Some ErrInvalidInstance
                   else None)"

definition instance_Create ::
  "string \<Rightarrow> item_definition \<Rightarrow> 'r roller option \<Rightarrow> 'r \<Rightarrow> (instance_error + item_instance) \<times> 'r" where
  "instance_Create rawID d random r =
     (let i = TrimSpace rawID
      in if i = '''' \<or> TrimSpace (it_ItemArchetypeID d) = '''' then (Inl ErrInvalidInstance, r)
         else case affixDomain d of
                Inl e \<Rightarrow> (Inl e, r)
              | Inr (tier, kind) \<Rightarrow>
                  (case affix_Generate tier kind random r of
                     (Inl e, r') \<Rightarrow> (Inl (FromAffix e), r')
                   | (Inr affixes, r') \<Rightarrow>
                       (let x = \<lparr>inst_ID = i, inst_ItemArchetypeID = it_ItemArchetypeID d,
                                 inst_Affixes = affixes\<rparr>
                        in case instance_Validate x d of
                             Some e \<Rightarrow> (Inl e, r')
                           | None \<Rightarrow> (Inr x, r'))))"

definition canonicalShape :: "item_instance \<Rightarrow> instance_error + item_instance" where
  "canonicalShape i =
     (let canonical = i\<lparr>inst_Affixes := sort_key affix_ID (inst_Affixes i)\<rparr>
      in case ValidateShape canonical of Some e \<Rightarrow> Inl e | None \<Rightarrow> Inr canonical)"

definition CanonicalShapeJSON ::
  "(item_instance \<Rightarrow> string option) \<Rightarrow> item_instance \<Rightarrow> instance_error + string" where
  "CanonicalShapeJSON marshal i =
     (case canonicalShape i of
        Inl e \<Rightarrow> Inl e
      | Inr canonical \<Rightarrow> (case marshal canonical of None \<Rightarrow> Inl ErrJSON | Some data \<Rightarrow> Inr data))"

definition CanonicalJSON ::
  "(item_instance \<Rightarrow> string option) \<Rightarrow> item_instance \<Rightarrow> item_definition \<Rightarrow> instance_error + string" where
  "CanonicalJSON marshal i d =
     (case canonicalShape i of
        Inl e \<Rightarrow> Inl e
      | Inr canonical \<Rightarrow>
          (case instance_Validate canonical d of
             Some e \<Rightarrow> Inl e
           | None \<Rightarrow> (case marshal canonical of None \<Rightarrow> Inl ErrJSON | Some data \<Rightarrow> Inr data)))"

definition DecodeCanonicalShapeJSON ::
  "(item_instance \<Rightarrow> string option) \<Rightarrow> (string \<Rightarrow> item_instance option) \<Rightarrow> string \<Rightarrow>
     instance_error + item_instance" where
  "DecodeCanonicalShapeJSON marshal decode data =
     (case decode data of
        None \<Rightarrow> Inl ErrJSON
      | Some i \<Rightarrow>
          (case CanonicalShapeJSON marshal i of
             Inl e \<Rightarrow> Inl e
           | Inr canonical \<Rightarrow> if canonical \<noteq> data then Inl ErrInvalidInstance else Inr i))"

definition DecodeCanonicalJSON ::
  "(item_instance \<Rightarrow> string option) \<Rightarrow> (string \<Rightarrow> item_instance option) \<Rightarrow> string \<Rightarrow>
     item_definition \<Rightarrow> instance_error + item_instance" where
  "DecodeCanonicalJSON marshal decode data d =
     (case DecodeCanonicalShapeJSON marshal decode data of
        Inl e \<Rightarrow> Inl e
      | Inr i \<Rightarrow> (case instance_Validate i d of Some e \<Rightarrow> Inl e | None \<Rightarrow> Inr i))"

section \<open>Canonical affixes\<close>

lemma affixShape_sorted:
  "affixShape prev as \<Longrightarrow>
     sorted_wrt (<) (map affix_ID as) \<and> (\<forall>p. prev = Some p \<longrightarrow> (\<forall>a \<in> set as. p < affix_ID a))"
proof (induction prev as rule: affixShape.induct)
  case (2 prev a as)
  from "2.prems" obtain v where v: "ValueFor (affix_ID a) (affix_Strength a) = Some v" "v = affix_Value a"
    and p: "\<not> (case prev of None \<Rightarrow> False | Some p \<Rightarrow> p \<ge> affix_ID a)"
    and r: "affixShape (Some (affix_ID a)) as"
    by (auto split: option.splits if_splits)
  from "2.IH" [OF v(1) _ p r] v(2) p show ?case
    by (auto split: option.splits)
qed simp

lemma sort_affixes_idem:
  "affixShape None as \<Longrightarrow> sort_key affix_ID as = as"
  using affixShape_sorted [of None as]
  by (intro sort_key_id_if_sorted) (simp add: strict_sorted_imp_sorted)

lemma canonicalShape_Inr:
  "canonicalShape i = Inr c \<Longrightarrow> canonicalShape c = Inr c \<and> ValidateShape c = None \<and>
     inst_ID c = inst_ID i \<and> inst_ItemArchetypeID c = inst_ItemArchetypeID i \<and>
     mset (inst_Affixes c) = mset (inst_Affixes i)"
proof -
  assume "canonicalShape i = Inr c"
  then have c: "c = i\<lparr>inst_Affixes := sort_key affix_ID (inst_Affixes i)\<rparr>" and v: "ValidateShape c = None"
    by (auto simp: canonicalShape_def Let_def split: option.splits)
  then have "affixShape None (inst_Affixes c)" by (simp add: ValidateShape_def split: if_splits)
  then have "sort_key affix_ID (inst_Affixes c) = inst_Affixes c" by (rule sort_affixes_idem)
  then have "c\<lparr>inst_Affixes := sort_key affix_ID (inst_Affixes c)\<rparr> = c" by simp
  with c v show ?thesis by (simp add: canonicalShape_def Let_def)
qed

lemma Validate_shape: "instance_Validate i d = None \<Longrightarrow> ValidateShape i = None"
  by (auto simp: instance_Validate_def split: option.splits)

lemma ValidateShape_error: "ValidateShape i = Some e \<Longrightarrow> e = ErrInvalidInstance"
  by (auto simp: ValidateShape_def split: if_splits)

section \<open>Properties\<close>

text \<open>
  A created instance is valid for its definition, carries the trimmed id and the
  definition's archetype, as many affixes as the tier prescribes, and is already in
  canonical form, so the durable encoding neither reorders nor rerolls it.
\<close>

theorem Create_canonical:
  assumes "instance_Create i d random r = (Inr x, r')"
  shows "instance_Validate x d = None \<and> inst_ID x = TrimSpace i \<and>
    inst_ItemArchetypeID x = it_ItemArchetypeID d \<and>
    (\<exists>tier kind. affixDomain d = Inr (tier, kind) \<and> AffixCount tier = Some (length (inst_Affixes x))) \<and>
    canonicalShape x = Inr x"
proof -
  obtain tier kind affixes where d: "affixDomain d = Inr (tier, kind)"
    and g: "affix_Generate tier kind random r = (Inr affixes, r')"
    and x: "x = \<lparr>inst_ID = TrimSpace i, inst_ItemArchetypeID = it_ItemArchetypeID d, inst_Affixes = affixes\<rparr>"
    and v: "instance_Validate x d = None"
    using assms by (auto simp: instance_Create_def Let_def split: if_splits sum.splits prod.splits option.splits)
  have "affixShape None (inst_Affixes x)"
    using Validate_shape [OF v] by (simp add: ValidateShape_def split: if_splits)
  then have "x\<lparr>inst_Affixes := sort_key affix_ID (inst_Affixes x)\<rparr> = x"
    by (simp add: sort_affixes_idem)
  then have "canonicalShape x = Inr x"
    using Validate_shape [OF v] by (simp add: canonicalShape_def Let_def)
  moreover have "AffixCount tier = Some (length affixes)"
    using affix_Generate_valid(1) [OF g] by (auto simp: affix_Validate_None_iff)
  ultimately show ?thesis using d v x by auto
qed

definition sample_helm :: item_definition where
  "sample_helm = progressionArmor ''helm'' SlotHelmet cat_TierLow 5 ''steel'' ArmorClassHeavy '''' 2 1 []"

theorem Create_canonical_witness:
  "instance_Validate \<lparr>inst_ID = ''i-1'', inst_ItemArchetypeID = ''helm'', inst_Affixes = []\<rparr> sample_helm = None \<and>
   canonicalShape \<lparr>inst_ID = ''i-1'', inst_ItemArchetypeID = ''helm'', inst_Affixes = []\<rparr> =
     Inr \<lparr>inst_ID = ''i-1'', inst_ItemArchetypeID = ''helm'', inst_Affixes = []\<rparr>"
proof -
  have "instance_Create '' i-1 '' sample_helm (None :: unit roller option) () =
      (Inr \<lparr>inst_ID = ''i-1'', inst_ItemArchetypeID = ''helm'', inst_Affixes = []\<rparr>, ())"
    by code_simp
  from Create_canonical [OF this] show ?thesis by blast
qed

text \<open>
  The durable form round-trips: whatever instance is encoded, decoding the bytes gives
  its canonical form, provided the JSON package reads back the bytes it wrote for that form;
  and the decoder accepts no bytes but the canonical ones of the instance it returns.
\<close>

theorem instance_JSON_roundtrip:
  assumes "CanonicalJSON marshal i d = Inr data"
    and "\<forall>c. canonicalShape i = Inr c \<and> marshal c = Some data \<longrightarrow> decode data = Some c"
  shows "(\<exists>c. canonicalShape i = Inr c \<and> DecodeCanonicalJSON marshal decode data d = Inr c \<and>
      CanonicalJSON marshal c d = Inr data) \<and>
    (\<forall>other x. DecodeCanonicalJSON marshal decode other d = Inr x \<longrightarrow>
       CanonicalJSON marshal x d = Inr other \<and> instance_Validate x d = None)"
proof
  obtain c where c: "canonicalShape i = Inr c" "instance_Validate c d = None" "marshal c = Some data"
    using assms(1) by (auto simp: CanonicalJSON_def split: sum.splits option.splits)
  moreover have "canonicalShape c = Inr c" using canonicalShape_Inr [OF c(1)] by simp
  ultimately show "\<exists>c. canonicalShape i = Inr c \<and> DecodeCanonicalJSON marshal decode data d = Inr c \<and>
      CanonicalJSON marshal c d = Inr data"
    using assms(2) by (simp add: DecodeCanonicalJSON_def DecodeCanonicalShapeJSON_def
        CanonicalShapeJSON_def CanonicalJSON_def)
next
  show "\<forall>other x. DecodeCanonicalJSON marshal decode other d = Inr x \<longrightarrow>
       CanonicalJSON marshal x d = Inr other \<and> instance_Validate x d = None"
  proof (intro allI impI)
    fix other x assume "DecodeCanonicalJSON marshal decode other d = Inr x"
    then have v: "instance_Validate x d = None" and "CanonicalShapeJSON marshal x = Inr other"
      by (auto simp: DecodeCanonicalJSON_def DecodeCanonicalShapeJSON_def split: sum.splits option.splits if_splits)
    then obtain c where c: "canonicalShape x = Inr c" "marshal c = Some other"
      by (auto simp: CanonicalShapeJSON_def split: sum.splits option.splits)
    have "affixShape None (inst_Affixes x)"
      using Validate_shape [OF v] by (simp add: ValidateShape_def split: if_splits)
    then have "x\<lparr>inst_Affixes := sort_key affix_ID (inst_Affixes x)\<rparr> = x"
      by (simp add: sort_affixes_idem)
    with c(1) have "c = x" by (auto simp: canonicalShape_def Let_def split: option.splits)
    with c v show "CanonicalJSON marshal x d = Inr other \<and> instance_Validate x d = None"
      by (simp add: CanonicalJSON_def)
  qed
qed

theorem instance_JSON_roundtrip_witness:
  "\<exists>c. DecodeCanonicalJSON (\<lambda>x. Some (inst_ID x))
     (\<lambda>s. Some \<lparr>inst_ID = s, inst_ItemArchetypeID = ''helm'', inst_Affixes = []\<rparr>) ''i-1'' sample_helm = Inr c"
proof -
  have c: "canonicalShape \<lparr>inst_ID = ''i-1'', inst_ItemArchetypeID = ''helm'', inst_Affixes = []\<rparr> =
      Inr \<lparr>inst_ID = ''i-1'', inst_ItemArchetypeID = ''helm'', inst_Affixes = []\<rparr>"
    by code_simp
  have "CanonicalJSON (\<lambda>x. Some (inst_ID x))
      \<lparr>inst_ID = ''i-1'', inst_ItemArchetypeID = ''helm'', inst_Affixes = []\<rparr> sample_helm = Inr ''i-1''"
    by code_simp
  from instance_JSON_roundtrip [OF this,
      of "\<lambda>s. Some \<lparr>inst_ID = s, inst_ItemArchetypeID = ''helm'', inst_Affixes = []\<rparr>"] c
  show ?thesis by auto
qed

end
