(* ===== verification/EquipmentStats.thy ===== *)
theory EquipmentStats
  imports ItemInstance
begin

text \<open>
  Equipment modifiers (\<open>internal/equipmentstats/stats.go\<close>): fifteen \<open>uint32\<close> sums over the
  affixes of equipped instances and the fixed modifiers of equipped archetypes, refused
  rather than wrapped around. The source's pointers into the result are a datatype of
  targets with a read and a write.
\<close>

datatype stats_error = ErrOverflow

record modifiers =
  md_Strength :: u32
  md_Dexterity :: u32
  md_Intelligence :: u32
  md_Constitution :: u32
  md_Spirit :: u32
  md_Charisma :: u32
  md_PhysicalHit :: u32
  md_CriticalRating :: u32
  md_PhysicalDamage :: u32
  md_MagicPower :: u32
  md_Evasion :: u32
  md_MaxHP :: u32
  md_MaxMP :: u32
  md_PhysicalDefense :: u32
  md_MagicDefense :: u32

definition zeroModifiers :: modifiers where
  "zeroModifiers =
     \<lparr>md_Strength = 0, md_Dexterity = 0, md_Intelligence = 0, md_Constitution = 0, md_Spirit = 0,
      md_Charisma = 0, md_PhysicalHit = 0, md_CriticalRating = 0, md_PhysicalDamage = 0,
      md_MagicPower = 0, md_Evasion = 0, md_MaxHP = 0, md_MaxMP = 0, md_PhysicalDefense = 0,
      md_MagicDefense = 0\<rparr>"

datatype target =
  TStrength | TDexterity | TIntelligence | TConstitution | TSpirit | TCharisma | TPhysicalHit |
  TCriticalRating | TPhysicalDamage | TMagicPower | TEvasion | TMaxHP | TMaxMP |
  TPhysicalDefense | TMagicDefense

primrec mod_get :: "target \<Rightarrow> modifiers \<Rightarrow> u32" where
  "mod_get TStrength m = md_Strength m"
| "mod_get TDexterity m = md_Dexterity m"
| "mod_get TIntelligence m = md_Intelligence m"
| "mod_get TConstitution m = md_Constitution m"
| "mod_get TSpirit m = md_Spirit m"
| "mod_get TCharisma m = md_Charisma m"
| "mod_get TPhysicalHit m = md_PhysicalHit m"
| "mod_get TCriticalRating m = md_CriticalRating m"
| "mod_get TPhysicalDamage m = md_PhysicalDamage m"
| "mod_get TMagicPower m = md_MagicPower m"
| "mod_get TEvasion m = md_Evasion m"
| "mod_get TMaxHP m = md_MaxHP m"
| "mod_get TMaxMP m = md_MaxMP m"
| "mod_get TPhysicalDefense m = md_PhysicalDefense m"
| "mod_get TMagicDefense m = md_MagicDefense m"

primrec mod_set :: "target \<Rightarrow> u32 \<Rightarrow> modifiers \<Rightarrow> modifiers" where
  "mod_set TStrength v m = m\<lparr>md_Strength := v\<rparr>"
| "mod_set TDexterity v m = m\<lparr>md_Dexterity := v\<rparr>"
| "mod_set TIntelligence v m = m\<lparr>md_Intelligence := v\<rparr>"
| "mod_set TConstitution v m = m\<lparr>md_Constitution := v\<rparr>"
| "mod_set TSpirit v m = m\<lparr>md_Spirit := v\<rparr>"
| "mod_set TCharisma v m = m\<lparr>md_Charisma := v\<rparr>"
| "mod_set TPhysicalHit v m = m\<lparr>md_PhysicalHit := v\<rparr>"
| "mod_set TCriticalRating v m = m\<lparr>md_CriticalRating := v\<rparr>"
| "mod_set TPhysicalDamage v m = m\<lparr>md_PhysicalDamage := v\<rparr>"
| "mod_set TMagicPower v m = m\<lparr>md_MagicPower := v\<rparr>"
| "mod_set TEvasion v m = m\<lparr>md_Evasion := v\<rparr>"
| "mod_set TMaxHP v m = m\<lparr>md_MaxHP := v\<rparr>"
| "mod_set TMaxMP v m = m\<lparr>md_MaxMP := v\<rparr>"
| "mod_set TPhysicalDefense v m = m\<lparr>md_PhysicalDefense := v\<rparr>"
| "mod_set TMagicDefense v m = m\<lparr>md_MagicDefense := v\<rparr>"

definition all_targets :: "target list" where
  "all_targets =
     [TStrength, TDexterity, TIntelligence, TConstitution, TSpirit, TCharisma, TPhysicalHit,
      TCriticalRating, TPhysicalDamage, TMagicPower, TEvasion, TMaxHP, TMaxMP, TPhysicalDefense,
      TMagicDefense]"

definition addValue :: "target \<Rightarrow> u32 \<Rightarrow> modifiers \<Rightarrow> stats_error + modifiers" where
  "addValue t v m =
     (if v = 0 then Inr m
      else if mod_get t m > - 1 - v then Inl ErrOverflow
      else Inr (mod_set t (mod_get t m + v) m))"

definition affixTarget :: "string \<Rightarrow> target option" where
  "affixTarget i =
     (if i = AffixStrength then Some TStrength else if i = AffixDexterity then Some TDexterity
      else if i = AffixIntelligence then Some TIntelligence
      else if i = AffixConstitution then Some TConstitution
      else if i = AffixSpirit then Some TSpirit else if i = AffixCharisma then Some TCharisma
      else if i = AffixPhysicalHit then Some TPhysicalHit
      else if i = AffixCriticalRating then Some TCriticalRating
      else if i = AffixPhysicalDamage then Some TPhysicalDamage
      else if i = AffixMagicPower then Some TMagicPower else if i = AffixEvasion then Some TEvasion
      else if i = AffixMaxHP then Some TMaxHP else if i = AffixMaxMP then Some TMaxMP
      else if i = AffixPhysicalDefense then Some TPhysicalDefense
      else if i = AffixMagicDefense then Some TMagicDefense else None)"

definition addAffix :: "affix \<Rightarrow> modifiers \<Rightarrow> stats_error + modifiers" where
  "addAffix a m = (case affixTarget (affix_ID a) of None \<Rightarrow> Inr m | Some t \<Rightarrow> addValue t (affix_Value a) m)"

definition staticTarget :: "string \<Rightarrow> target option" where
  "staticTarget i =
     (if i = StaticStrength then Some TStrength else if i = StaticDexterity then Some TDexterity
      else if i = StaticIntelligence then Some TIntelligence
      else if i = StaticConstitution then Some TConstitution
      else if i = StaticSpirit then Some TSpirit else if i = StaticCharisma then Some TCharisma
      else if i = StaticPhysicalHit then Some TPhysicalHit
      else if i = StaticCriticalRating then Some TCriticalRating
      else if i = StaticPhysicalDamage then Some TPhysicalDamage
      else if i = StaticMagicPower then Some TMagicPower else if i = StaticEvasion then Some TEvasion
      else if i = StaticMaxHP then Some TMaxHP else if i = StaticMaxMP then Some TMaxMP
      else if i = StaticPhysicalDefense then Some TPhysicalDefense
      else if i = StaticMagicDefense then Some TMagicDefense else None)"

definition addStatic :: "static_modifier \<Rightarrow> modifiers \<Rightarrow> stats_error + modifiers" where
  "addStatic s m = (case staticTarget (sm_ID s) of None \<Rightarrow> Inr m | Some t \<Rightarrow> addValue t (sm_Value s) m)"

text \<open>A loop that stops at the first error.\<close>

fun each :: "('x \<Rightarrow> 's \<Rightarrow> 'e + 's) \<Rightarrow> 'x list \<Rightarrow> 's \<Rightarrow> 'e + 's" where
  "each f [] s = Inr s"
| "each f (x # xs) s = (case f x s of Inl e \<Rightarrow> Inl e | Inr s' \<Rightarrow> each f xs s')"

definition Aggregate :: "item_instance list \<Rightarrow> stats_error + modifiers" where
  "Aggregate instances = each (\<lambda>i. each addAffix (inst_Affixes i)) instances zeroModifiers"

definition AggregateStatic :: "static_modifier list \<Rightarrow> stats_error + modifiers" where
  "AggregateStatic ms = each addStatic ms zeroModifiers"

definition Merge :: "modifiers list \<Rightarrow> stats_error + modifiers" where
  "Merge inputs = each (\<lambda>input. each (\<lambda>t. addValue t (mod_get t input)) all_targets) inputs zeroModifiers"

section \<open>Sums without wrap-around\<close>

lemma mod_get_set [simp]: "mod_get t (mod_set t' v m) = (if t = t' then v else mod_get t m)"
  by (cases t; cases t') simp_all

lemma mod_get_zero [simp]: "mod_get t zeroModifiers = 0"
  by (cases t) (simp_all add: zeroModifiers_def)

lemma modifiers_eqI: "(\<And>t. mod_get t a = mod_get t b) \<Longrightarrow> a = b"
proof -
  assume "\<And>t. mod_get t a = mod_get t b"
  from this [of TStrength] this [of TDexterity] this [of TIntelligence] this [of TConstitution]
    this [of TSpirit] this [of TCharisma] this [of TPhysicalHit] this [of TCriticalRating]
    this [of TPhysicalDamage] this [of TMagicPower] this [of TEvasion] this [of TMaxHP]
    this [of TMaxMP] this [of TPhysicalDefense] this [of TMagicDefense]
  show "a = b" by (cases a; cases b) simp
qed

lemma all_targets: "t \<in> set all_targets" "distinct all_targets"
  by (cases t) (simp_all add: all_targets_def)

lemma each_append: "each f (xs @ ys) s = (case each f xs s of Inl e \<Rightarrow> Inl e | Inr s' \<Rightarrow> each f ys s')"
  by (induction xs arbitrary: s) (simp_all split: sum.split)

lemma each_each: "each (\<lambda>x. each f (g x)) xs s = each f (concat (map g xs)) s"
  by (induction xs arbitrary: s) (simp_all add: each_append split: sum.split)

lemma each_map: "each f (map g xs) = each (\<lambda>x. f (g x)) xs"
proof
  show "each f (map g xs) s = each (\<lambda>x. f (g x)) xs s" for s
    by (induction xs arbitrary: s) (simp_all split: sum.split)
qed

text \<open>Every loop of the component is one loop over pairs of a target and a value.\<close>

definition addPairs :: "(target \<times> u32) list \<Rightarrow> modifiers \<Rightarrow> stats_error + modifiers" where
  "addPairs = each (\<lambda>(t, v). addValue t v)"

definition affix_pairs :: "affix list \<Rightarrow> (target \<times> u32) list" where
  "affix_pairs as = List.map_filter (\<lambda>a. map_option (\<lambda>t. (t, affix_Value a)) (affixTarget (affix_ID a))) as"

definition static_pairs :: "static_modifier list \<Rightarrow> (target \<times> u32) list" where
  "static_pairs ms = List.map_filter (\<lambda>s. map_option (\<lambda>t. (t, sm_Value s)) (staticTarget (sm_ID s))) ms"

definition total :: "(target \<times> u32) list \<Rightarrow> target \<Rightarrow> nat" where
  "total ps t = sum_list (map (unat \<circ> snd) (filter (\<lambda>p. fst p = t) ps))"

lemma total_simps [simp]:
  "total [] t = 0"
  "total ((t', v) # ps) t = (if t' = t then unat v else 0) + total ps t"
  "total (ps @ qs) t = total ps t + total qs t"
  by (simp_all add: total_def)

lemma total_mset: "mset ps = mset qs \<Longrightarrow> total ps t = total qs t"
proof -
  assume m: "mset ps = mset qs"
  have "total rs t = sum_mset (image_mset (unat \<circ> snd) (filter_mset (\<lambda>p. fst p = t) (mset rs)))" for rs
    unfolding total_def
    by (simp only: mset_filter [symmetric] mset_map [symmetric] sum_mset_sum_list)
  with m show ?thesis by simp
qed

lemma each_affix: "each addAffix as m = addPairs (affix_pairs as) m"
  by (induction as arbitrary: m)
    (auto simp: addPairs_def affix_pairs_def addAffix_def map_filter_simps split: option.splits sum.splits)

lemma each_static: "each addStatic ms m = addPairs (static_pairs ms) m"
  by (induction ms arbitrary: m)
    (auto simp: addPairs_def static_pairs_def addStatic_def map_filter_simps split: option.splits sum.splits)

lemma addValue_Inr:
  "addValue t v m = Inr m' \<longleftrightarrow>
     (\<forall>t'. unat (mod_get t' m') = unat (mod_get t' m) + (if t = t' then unat v else 0))"
proof
  assume a: "addValue t v m = Inr m'"
  have "\<not> - 1 - v < mod_get t m \<Longrightarrow> unat (mod_get t m + v) = unat (mod_get t m) + unat v"
    using overflow_guard [of v "mod_get t m"] unat_plus_no_overflow [of "mod_get t m" v] by simp
  with a show "\<forall>t'. unat (mod_get t' m') = unat (mod_get t' m) + (if t = t' then unat v else 0)"
    by (auto simp: addValue_def split: if_splits)
next
  assume s: "\<forall>t'. unat (mod_get t' m') = unat (mod_get t' m) + (if t = t' then unat v else 0)"
  then have t: "unat (mod_get t m') = unat (mod_get t m) + unat v" by simp
  then have fits: "unat (mod_get t m) + unat v < 2 ^ 32" using u32_bound [of "mod_get t m'"] by simp
  then have "\<not> - 1 - v < mod_get t m" using overflow_guard [of v "mod_get t m"] by simp
  moreover have "m' = mod_set t (mod_get t m + v) m"
  proof (rule modifiers_eqI)
    fix t' show "mod_get t' m' = mod_get t' (mod_set t (mod_get t m + v) m)"
      using s t unat_plus_no_overflow [of "mod_get t m" v] fits by (auto simp: word_unat_eq_iff)
  qed
  moreover have "v = 0 \<Longrightarrow> m' = m"
    using s by (intro modifiers_eqI) (auto simp: word_unat_eq_iff split: if_splits)
  ultimately show "addValue t v m = Inr m'" by (simp add: addValue_def)
qed

lemma addPairs_Inr:
  "addPairs ps m = Inr m' \<longleftrightarrow> (\<forall>t. unat (mod_get t m') = unat (mod_get t m) + total ps t)"
proof (induction ps arbitrary: m)
  case Nil
  have "m = m' \<longleftrightarrow> (\<forall>t. unat (mod_get t m') = unat (mod_get t m))"
    using modifiers_eqI [of m m'] by (auto simp: word_unat_eq_iff)
  then show ?case by (simp add: addPairs_def)
next
  case (Cons p ps)
  obtain t v where p: "p = (t, v)" by (cases p)
  show ?case
  proof (cases "addValue t v m")
    case (Inl e)
    have "\<not> (\<forall>t'. unat (mod_get t' m') = unat (mod_get t' m) + total (p # ps) t')"
    proof
      assume a: "\<forall>t'. unat (mod_get t' m') = unat (mod_get t' m) + total (p # ps) t'"
      define m1 where "m1 = mod_set t (mod_get t m + v) m"
      have "unat (mod_get t m) + unat v < 2 ^ 32"
        using a [rule_format, of t] u32_bound [of "mod_get t m'"] by (simp add: p)
      then have "addValue t v m = Inr m1"
        using unat_plus_no_overflow [of "mod_get t m" v] by (simp add: addValue_Inr m1_def)
      with Inl show False by simp
    qed
    with Inl show ?thesis by (simp add: addPairs_def p)
  next
    case (Inr m1)
    then have "unat (mod_get t' m1) = unat (mod_get t' m) + (if t = t' then unat v else 0)" for t'
      by (simp add: addValue_Inr)
    with Inr Cons.IH [of m1] show ?thesis by (simp add: addPairs_def p add.assoc)
  qed
qed

lemma addPairs_cong:
  assumes "\<And>t. total ps t = total qs t"
  shows "addPairs ps m = addPairs qs m"
proof -
  have iff: "addPairs ps m = Inr x \<longleftrightarrow> addPairs qs m = Inr x" for x
    using assms by (simp add: addPairs_Inr)
  have one: "e = ErrOverflow" for e :: stats_error by (cases e) simp
  show ?thesis
    by (rule sum_eqI [where c = ErrOverflow]) (use iff one in blast)+
qed

lemma Aggregate_pairs: "Aggregate xs = addPairs (affix_pairs (concat (map inst_Affixes xs))) zeroModifiers"
  by (simp add: Aggregate_def each_each flip: each_affix)

lemma Merge_pairs:
  "Merge ins = addPairs (concat (map (\<lambda>i. map (\<lambda>t. (t, mod_get t i)) all_targets) ins)) zeroModifiers"
  by (simp add: Merge_def addPairs_def each_map flip: each_each)

text \<open>A loop over pairs succeeds exactly when every total fits into 32 bits.\<close>

primrec mod_build :: "(target \<Rightarrow> u32) \<Rightarrow> target list \<Rightarrow> modifiers \<Rightarrow> modifiers" where
  "mod_build f [] m = m"
| "mod_build f (t # ts) m = mod_set t (f t) (mod_build f ts m)"

lemma mod_build_get: "mod_get t (mod_build f ts m) = (if t \<in> set ts then f t else mod_get t m)"
  by (induction ts) auto

lemma addPairs_total:
  "(\<exists>m. addPairs ps zeroModifiers = Inr m) \<longleftrightarrow> (\<forall>t. total ps t < 2 ^ 32)"
proof
  assume "\<exists>m. addPairs ps zeroModifiers = Inr m"
  then obtain m where "\<forall>t. unat (mod_get t m) = total ps t" by (auto simp: addPairs_Inr)
  then show "\<forall>t. total ps t < 2 ^ 32" using u32_bound by (metis)
next
  assume fits: "\<forall>t. total ps t < 2 ^ 32"
  define m where "m = mod_build (\<lambda>t. of_nat (total ps t)) all_targets zeroModifiers"
  have "unat (mod_get t m) = total ps t" for t
    using fits all_targets(1) by (simp add: m_def mod_build_get unat_of_nat)
  then show "\<exists>m. addPairs ps zeroModifiers = Inr m" by (auto simp: addPairs_Inr)
qed

lemma total_targets: "total (map (\<lambda>t. (t, mod_get t m)) all_targets) t = unat (mod_get t m)"
  by (cases t) (simp_all add: all_targets_def)

lemma affix_pairs_append: "affix_pairs (as @ bs) = affix_pairs as @ affix_pairs bs"
  by (induction as) (auto simp: affix_pairs_def map_filter_simps split: option.splits)

lemma total_rev:
  "total (affix_pairs (concat (map f (rev xs)))) t = total (affix_pairs (concat (map f xs))) t"
  by (induction xs) (simp_all add: affix_pairs_append)

section \<open>Properties\<close>

text \<open>
  C36. \<open>Aggregate\<close> computes exact sums: it returns \<open>m\<close> exactly when every field of \<open>m\<close> is
  the sum, in the natural numbers, of the affix values for that field, and it fails exactly
  when one of these sums does not fit into 32 bits. No wrapped value is ever returned, and
  the order of the instances does not matter.
\<close>

theorem Aggregate_exact:
  "(Aggregate xs = Inr m \<longleftrightarrow>
      (\<forall>t. unat (mod_get t m) = total (affix_pairs (concat (map inst_Affixes xs))) t)) \<and>
   (Aggregate xs = Inl ErrOverflow \<longleftrightarrow>
      (\<exists>t. 2 ^ 32 \<le> total (affix_pairs (concat (map inst_Affixes xs))) t)) \<and>
   Aggregate (rev xs) = Aggregate xs"
proof (intro conjI)
  define ps where "ps = affix_pairs (concat (map inst_Affixes xs))"
  show "Aggregate xs = Inr m \<longleftrightarrow>
      (\<forall>t. unat (mod_get t m) = total (affix_pairs (concat (map inst_Affixes xs))) t)"
    by (simp add: Aggregate_pairs addPairs_Inr)
  have "Aggregate xs = Inl ErrOverflow \<longleftrightarrow> \<not> (\<exists>m. addPairs ps zeroModifiers = Inr m)"
  proof (cases "addPairs ps zeroModifiers")
    case (Inl e)
    then show ?thesis by (cases e) (simp add: Aggregate_pairs ps_def)
  qed (simp add: Aggregate_pairs ps_def)
  then show "Aggregate xs = Inl ErrOverflow \<longleftrightarrow>
      (\<exists>t. 2 ^ 32 \<le> total (affix_pairs (concat (map inst_Affixes xs))) t)"
    by (simp add: addPairs_total not_less flip: ps_def)
  show "Aggregate (rev xs) = Aggregate xs"
    unfolding Aggregate_pairs by (rule addPairs_cong) (rule total_rev)
qed

text \<open>
  Merging the modifiers of two groups of items gives what aggregating all the items
  together gives, overflow included: the world owner may compose sources in any grouping.
\<close>

theorem Merge_Aggregate:
  "(case Aggregate xs of Inl e \<Rightarrow> Inl e
    | Inr a \<Rightarrow> (case Aggregate ys of Inl e \<Rightarrow> Inl e | Inr b \<Rightarrow> Merge [a, b])) = Aggregate (xs @ ys)"
proof -
  define ps where "ps = affix_pairs (concat (map inst_Affixes xs))"
  define qs where "qs = affix_pairs (concat (map inst_Affixes ys))"
  have xs: "Aggregate xs = addPairs ps zeroModifiers" and ys: "Aggregate ys = addPairs qs zeroModifiers"
    and xys: "Aggregate (xs @ ys) = addPairs (ps @ qs) zeroModifiers"
    by (simp_all add: Aggregate_pairs ps_def qs_def affix_pairs_append)
  have one: "e = e'" for e e' :: stats_error by (cases e; cases e') simp
  have part: "\<exists>z. addPairs ps zeroModifiers = Inr z" "\<exists>z. addPairs qs zeroModifiers = Inr z"
    if "addPairs (ps @ qs) zeroModifiers = Inr m" for m
  proof -
    have "total (ps @ qs) t < 2 ^ 32" for t using that addPairs_total by blast
    then have s: "total ps t + total qs t < 2 ^ 32" for t by simp
    then have "total ps t < 2 ^ 32" "total qs t < 2 ^ 32" for t
      using s [of t] by linarith+
    then have "\<forall>t. total ps t < 2 ^ 32" "\<forall>t. total qs t < 2 ^ 32" by blast+
    then show "\<exists>z. addPairs ps zeroModifiers = Inr z" "\<exists>z. addPairs qs zeroModifiers = Inr z"
      using addPairs_total by blast+
  qed
  show ?thesis
  proof (cases "addPairs ps zeroModifiers")
    case (Inl e)
    with part(1) obtain e' where "addPairs (ps @ qs) zeroModifiers = Inl e'"
      by (cases "addPairs (ps @ qs) zeroModifiers") auto
    with Inl one [of e e'] show ?thesis by (simp add: xs xys)
  next
    case a: (Inr a)
    show ?thesis
    proof (cases "addPairs qs zeroModifiers")
      case (Inl e)
      with part(2) obtain e' where "addPairs (ps @ qs) zeroModifiers = Inl e'"
        by (cases "addPairs (ps @ qs) zeroModifiers") auto
      with a Inl one [of e e'] show ?thesis by (simp add: xs ys xys)
    next
      case (Inr b)
      have "Merge [a, b] = addPairs (ps @ qs) zeroModifiers"
        using a Inr by (auto simp: Merge_pairs total_targets addPairs_Inr intro!: addPairs_cong)
      with a Inr show ?thesis by (simp add: xs ys xys)
    qed
  qed
qed

end
