(* ===== verification/Inventory.thy ===== *)
theory Inventory
  imports ItemInstance
begin

text \<open>
  The authoritative inventory (\<open>internal/inventory\<close>): stacks of archetypes, unique equipment
  instances, the seven equipment slots and the carried weight. Every operation is the Go
  method, with its guards in order; a nil receiver is not modelled. The state is a record of
  the fields of \<open>Inventory\<close>, Go maps are finite maps, and the counters are 64-bit words.
\<close>

section \<open>State\<close>

datatype inventory_error =
  ErrInvalidArchetype | ErrInvalidQuantity | ErrInvalidInstance | ErrInstanceExists |
  ErrInstanceNotFound | ErrFull | ErrWeightExceeded | ErrInsufficient | ErrQuantityOverflow |
  ErrInvalidEquipmentSlot | ErrEquipmentSlotOccupied | ErrEquipmentSlotEmpty

definition equipmentSlots :: "string list" where
  "equipmentSlots =
     [''main_hand'', ''off_hand'', ''helmet'', ''chest'', ''gloves'', ''legs'', ''boots'']"

definition ValidEquipmentSlot :: "string \<Rightarrow> bool" where
  "ValidEquipmentSlot slot =
     (slot \<in> {''main_hand'', ''off_hand'', ''helmet'', ''chest'', ''gloves'', ''legs'', ''boots''})"

record inventory =
  inv_maxStacks :: nat
  inv_stacks :: "(string, u32) fmap"
  inv_instances :: "(string, item_instance) fmap"
  inv_revision :: u64
  inv_maxWeight :: u64
  inv_currentWeight :: u64
  inv_defaultUnitWeight :: u32
  inv_unitWeights :: "(string, u32) fmap"
  inv_equipped :: "(string, string) fmap"
  inv_equippedInstances :: "(string, item_instance) fmap"
  inv_equipmentRevision :: u64

text \<open>
  The weight policy. Its map of unit weights is given by the list of its entries in the
  order in which the loop of \<open>NewWithWeightPolicy\<close> meets them, because two keys that differ
  only in spaces overwrite each other.
\<close>

record weight_policy =
  wpol_MaxWeight :: u64
  wpol_DefaultUnitWeight :: u32
  wpol_UnitWeights :: "(string \<times> u32) list"

fun policyWeights :: "(string, u32) fmap \<Rightarrow> (string \<times> u32) list \<Rightarrow> (string, u32) fmap" where
  "policyWeights weights [] = weights"
| "policyWeights weights ((raw, weight) # rest) =
     (let archetypeID = TrimSpace raw
      in if archetypeID = '''' \<or> weight = 0 then policyWeights weights rest
         else policyWeights (fmupd archetypeID weight weights) rest)"

definition NewWithWeightPolicy :: "int \<Rightarrow> weight_policy \<Rightarrow> inventory" where
  "NewWithWeightPolicy maxStacks policy =
     \<lparr>inv_maxStacks = nat (if maxStacks < 0 then 0 else maxStacks),
      inv_stacks = fmempty, inv_instances = fmempty, inv_revision = 0,
      inv_maxWeight = wpol_MaxWeight policy, inv_currentWeight = 0,
      inv_defaultUnitWeight =
        (if wpol_DefaultUnitWeight policy = 0 then 1 else wpol_DefaultUnitWeight policy),
      inv_unitWeights = policyWeights fmempty (wpol_UnitWeights policy),
      inv_equipped = fmempty, inv_equippedInstances = fmempty, inv_equipmentRevision = 0\<rparr>"

definition inv_New :: "int \<Rightarrow> inventory" where
  "inv_New maxStacks =
     NewWithWeightPolicy maxStacks
       \<lparr>wpol_MaxWeight = 0, wpol_DefaultUnitWeight = 0, wpol_UnitWeights = []\<rparr>"

section \<open>Observers\<close>

definition unequippedEntryCount :: "inventory \<Rightarrow> nat" where
  "unequippedEntryCount i = gomap_len (inv_stacks i) + gomap_len (inv_instances i)"

definition unitWeight :: "inventory \<Rightarrow> string \<Rightarrow> u32" where
  "unitWeight i archetypeID =
     (let override = gomap_at 0 (inv_unitWeights i) archetypeID
      in if override > 0 then override else inv_defaultUnitWeight i)"

definition weightFor :: "inventory \<Rightarrow> string \<Rightarrow> u32 \<Rightarrow> u64" where
  "weightFor i archetypeID quantity =
     (if inv_maxWeight i = 0 \<or> quantity = 0 then 0
      else ucast (unitWeight i archetypeID) * ucast quantity)"

definition inv_Quantity :: "inventory \<Rightarrow> string \<Rightarrow> u32" where
  "inv_Quantity i archetypeID = gomap_at 0 (inv_stacks i) archetypeID"

definition equippedInstanceID :: "inventory \<Rightarrow> string \<Rightarrow> string" where
  "equippedInstanceID i slot =
     (case fmlookup (inv_equippedInstances i) slot of None \<Rightarrow> '''' | Some x \<Rightarrow> inst_ID x)"

definition instanceEquipped :: "inventory \<Rightarrow> string \<Rightarrow> bool" where
  "instanceEquipped i instanceID = list_ex (\<lambda>slot. equippedInstanceID i slot = instanceID) equipmentSlots"

definition inv_Equipped :: "inventory \<Rightarrow> string \<Rightarrow> string" where
  "inv_Equipped i slot =
     (if \<not> ValidEquipmentSlot slot then ''''
      else if gomap_at '''' (inv_equipped i) slot \<noteq> '''' then gomap_at '''' (inv_equipped i) slot
      else case fmlookup (inv_equippedInstances i) slot of
             None \<Rightarrow> '''' | Some x \<Rightarrow> inst_ItemArchetypeID x)"

definition EquippedArchetypeSnapshot :: "inventory \<Rightarrow> (string \<times> string) list" where
  "EquippedArchetypeSnapshot i =
     map (\<lambda>slot. (slot, gomap_at '''' (inv_equipped i) slot))
       (filter (\<lambda>slot. gomap_at '''' (inv_equipped i) slot \<noteq> '''') equipmentSlots)"

definition inv_Snapshot :: "inventory \<Rightarrow> (string \<times> u32) list" where
  "inv_Snapshot i = map (\<lambda>k. (k, gomap_at 0 (inv_stacks i) k)) (gomap_keys (inv_stacks i))"

definition inv_Instance :: "inventory \<Rightarrow> string \<Rightarrow> item_instance option" where
  "inv_Instance i instanceID = fmlookup (inv_instances i) instanceID"

definition InstanceSnapshot :: "inventory \<Rightarrow> item_instance list" where
  "InstanceSnapshot i = map (\<lambda>k. the (fmlookup (inv_instances i) k)) (gomap_keys (inv_instances i))"

definition EquippedInstance :: "inventory \<Rightarrow> string \<Rightarrow> item_instance option" where
  "EquippedInstance i slot =
     (if \<not> ValidEquipmentSlot slot then None
      else case fmlookup (inv_equippedInstances i) slot of
             None \<Rightarrow> None
           | Some x \<Rightarrow> if inst_ID x = '''' then None else Some x)"

definition EquippedInstanceSnapshot :: "inventory \<Rightarrow> (string \<times> item_instance) list" where
  "EquippedInstanceSnapshot i =
     map (\<lambda>slot. (slot, the (fmlookup (inv_equippedInstances i) slot)))
       (filter (\<lambda>slot. equippedInstanceID i slot \<noteq> '''') equipmentSlots)"

section \<open>Stack operations\<close>

text \<open>The guard \<open>addedWeight > maxWeight || currentWeight > maxWeight - addedWeight\<close>.\<close>

definition overweight :: "inventory \<Rightarrow> u64 \<Rightarrow> u64 \<Rightarrow> bool" where
  "overweight i current added =
     (inv_maxWeight i > 0 \<and> (added > inv_maxWeight i \<or> current > inv_maxWeight i - added))"

definition inv_Add :: "string \<Rightarrow> u32 \<Rightarrow> (inventory, inventory_error, unit) op" where
  "inv_Add rawID quantity i =
     (let archetypeID = TrimSpace rawID;
          current = gomap_at 0 (inv_stacks i) archetypeID;
          added = weightFor i archetypeID quantity
      in if archetypeID = '''' then (Inl ErrInvalidArchetype, i)
         else if quantity = 0 then (Inl ErrInvalidQuantity, i)
         else if \<not> gomap_has (inv_stacks i) archetypeID \<and> unequippedEntryCount i \<ge> inv_maxStacks i
         then (Inl ErrFull, i)
         else if (ucast current :: u64) + ucast quantity > 0xFFFFFFFF then (Inl ErrQuantityOverflow, i)
         else if overweight i (inv_currentWeight i) added then (Inl ErrWeightExceeded, i)
         else (Inr (), i\<lparr>inv_stacks := fmupd archetypeID (current + quantity) (inv_stacks i),
                         inv_currentWeight := inv_currentWeight i + added,
                         inv_revision := inv_revision i + 1\<rparr>))"

definition setStack :: "string \<Rightarrow> u32 \<Rightarrow> (string, u32) fmap \<Rightarrow> (string, u32) fmap" where
  "setStack archetypeID remaining stacks =
     (if remaining = 0 then fmdrop archetypeID stacks else fmupd archetypeID remaining stacks)"

definition lighten :: "u64 \<Rightarrow> u64 \<Rightarrow> u64" where
  "lighten current removed = (if removed \<ge> current then 0 else current - removed)"

definition inv_Remove :: "string \<Rightarrow> u32 \<Rightarrow> (inventory, inventory_error, unit) op" where
  "inv_Remove rawID quantity i =
     (let archetypeID = TrimSpace rawID;
          current = gomap_at 0 (inv_stacks i) archetypeID
      in if archetypeID = '''' then (Inl ErrInvalidArchetype, i)
         else if quantity = 0 then (Inl ErrInvalidQuantity, i)
         else if current < quantity then (Inl ErrInsufficient, i)
         else (Inr (), i\<lparr>inv_stacks := setStack archetypeID (current - quantity) (inv_stacks i),
                         inv_currentWeight :=
                           lighten (inv_currentWeight i) (weightFor i archetypeID quantity),
                         inv_revision := inv_revision i + 1\<rparr>))"

definition inv_Exchange ::
  "string \<Rightarrow> u32 \<Rightarrow> string \<Rightarrow> u32 \<Rightarrow> (inventory, inventory_error, unit) op" where
  "inv_Exchange rawRemove removeQuantity rawAdd addQuantity i =
     (let removeID = TrimSpace rawRemove;
          addID = TrimSpace rawAdd;
          removeCurrent = gomap_at 0 (inv_stacks i) removeID;
          removedWeight = weightFor i removeID removeQuantity;
          baseWeight = (if removedWeight < inv_currentWeight i
                        then inv_currentWeight i - removedWeight else 0);
          addedWeight = weightFor i addID addQuantity
      in if removeID = '''' \<or> addID = '''' then (Inl ErrInvalidArchetype, i)
         else if removeQuantity = 0 \<or> addQuantity = 0 then (Inl ErrInvalidQuantity, i)
         else if removeCurrent < removeQuantity then (Inl ErrInsufficient, i)
         else if overweight i baseWeight addedWeight then (Inl ErrWeightExceeded, i)
         else if removeID = addID then
           (let final = (ucast (removeCurrent - removeQuantity) :: u64) + ucast addQuantity
            in if final > 0xFFFFFFFF then (Inl ErrQuantityOverflow, i)
               else (Inr (), i\<lparr>inv_stacks := fmupd removeID (ucast final) (inv_stacks i),
                               inv_currentWeight := baseWeight + addedWeight,
                               inv_revision := inv_revision i + 1\<rparr>))
         else
           (let addCurrent = gomap_at 0 (inv_stacks i) addID;
                entries = (if removeCurrent = removeQuantity then int (unequippedEntryCount i) - 1
                           else int (unequippedEntryCount i))
            in if (ucast addCurrent :: u64) + ucast addQuantity > 0xFFFFFFFF
               then (Inl ErrQuantityOverflow, i)
               else if \<not> gomap_has (inv_stacks i) addID \<and> entries \<ge> int (inv_maxStacks i)
               then (Inl ErrFull, i)
               else (Inr (), i\<lparr>inv_stacks :=
                                 fmupd addID (addCurrent + addQuantity)
                                   (setStack removeID (removeCurrent - removeQuantity) (inv_stacks i)),
                               inv_currentWeight := baseWeight + addedWeight,
                               inv_revision := inv_revision i + 1\<rparr>)))"

definition inv_Equip :: "string \<Rightarrow> string \<Rightarrow> (inventory, inventory_error, unit) op" where
  "inv_Equip slot rawID i =
     (let archetypeID = TrimSpace rawID;
          current = gomap_at 0 (inv_stacks i) archetypeID
      in if \<not> ValidEquipmentSlot slot then (Inl ErrInvalidEquipmentSlot, i)
         else if archetypeID = '''' then (Inl ErrInvalidArchetype, i)
         else if gomap_at '''' (inv_equipped i) slot \<noteq> '''' \<or> equippedInstanceID i slot \<noteq> ''''
         then (Inl ErrEquipmentSlotOccupied, i)
         else if current = 0 then (Inl ErrInsufficient, i)
         else (Inr (), i\<lparr>inv_stacks :=
                           (if current = 1 then fmdrop archetypeID (inv_stacks i)
                            else fmupd archetypeID (current - 1) (inv_stacks i)),
                         inv_equipped := fmupd slot archetypeID (inv_equipped i),
                         inv_revision := inv_revision i + 1,
                         inv_equipmentRevision := inv_equipmentRevision i + 1\<rparr>))"

definition inv_Unequip :: "string \<Rightarrow> (inventory, inventory_error, string) op" where
  "inv_Unequip slot i =
     (let archetypeID = gomap_at '''' (inv_equipped i) slot;
          current = gomap_at 0 (inv_stacks i) archetypeID
      in if \<not> ValidEquipmentSlot slot then (Inl ErrInvalidEquipmentSlot, i)
         else if archetypeID = '''' then (Inl ErrEquipmentSlotEmpty, i)
         else if \<not> gomap_has (inv_stacks i) archetypeID \<and> unequippedEntryCount i \<ge> inv_maxStacks i
         then (Inl ErrFull, i)
         else if current = - 1 then (Inl ErrQuantityOverflow, i)
         else (Inr archetypeID,
               i\<lparr>inv_stacks := fmupd archetypeID (current + 1) (inv_stacks i),
                 inv_equipped := fmdrop slot (inv_equipped i),
                 inv_revision := inv_revision i + 1,
                 inv_equipmentRevision := inv_equipmentRevision i + 1\<rparr>))"

section \<open>Instance operations\<close>

definition inv_AddInstance :: "item_instance \<Rightarrow> (inventory, inventory_error, unit) op" where
  "inv_AddInstance x i =
     (let instanceID = TrimSpace (inst_ID x);
          archetypeID = TrimSpace (inst_ItemArchetypeID x);
          added = weightFor i archetypeID 1
      in if instanceID = '''' \<or> archetypeID = '''' \<or> instanceID \<noteq> inst_ID x \<or>
            archetypeID \<noteq> inst_ItemArchetypeID x
         then (Inl ErrInvalidInstance, i)
         else if gomap_has (inv_instances i) instanceID \<or> instanceEquipped i instanceID
         then (Inl ErrInstanceExists, i)
         else if unequippedEntryCount i \<ge> inv_maxStacks i then (Inl ErrFull, i)
         else if overweight i (inv_currentWeight i) added then (Inl ErrWeightExceeded, i)
         else (Inr (), i\<lparr>inv_instances := fmupd instanceID x (inv_instances i),
                         inv_currentWeight := inv_currentWeight i + added,
                         inv_revision := inv_revision i + 1\<rparr>))"

definition inv_RemoveInstance :: "string \<Rightarrow> (inventory, inventory_error, item_instance) op" where
  "inv_RemoveInstance rawID i =
     (let instanceID = TrimSpace rawID
      in if instanceID = '''' then (Inl ErrInvalidInstance, i)
         else case fmlookup (inv_instances i) instanceID of
                None \<Rightarrow> (Inl ErrInstanceNotFound, i)
              | Some x \<Rightarrow>
                  (Inr x, i\<lparr>inv_instances := fmdrop instanceID (inv_instances i),
                            inv_currentWeight :=
                              lighten (inv_currentWeight i) (weightFor i (inst_ItemArchetypeID x) 1),
                            inv_revision := inv_revision i + 1\<rparr>))"

definition inv_EquipInstance :: "string \<Rightarrow> string \<Rightarrow> (inventory, inventory_error, unit) op" where
  "inv_EquipInstance slot instanceID i =
     (if \<not> ValidEquipmentSlot slot then (Inl ErrInvalidEquipmentSlot, i)
      else if gomap_at '''' (inv_equipped i) slot \<noteq> '''' \<or> equippedInstanceID i slot \<noteq> ''''
      then (Inl ErrEquipmentSlotOccupied, i)
      else case fmlookup (inv_instances i) instanceID of
             None \<Rightarrow> (Inl ErrInstanceNotFound, i)
           | Some x \<Rightarrow>
               (Inr (), i\<lparr>inv_instances := fmdrop instanceID (inv_instances i),
                          inv_equippedInstances := fmupd slot x (inv_equippedInstances i),
                          inv_revision := inv_revision i + 1,
                          inv_equipmentRevision := inv_equipmentRevision i + 1\<rparr>))"

definition inv_UnequipInstance :: "string \<Rightarrow> (inventory, inventory_error, item_instance) op" where
  "inv_UnequipInstance slot i =
     (if \<not> ValidEquipmentSlot slot then (Inl ErrInvalidEquipmentSlot, i)
      else if equippedInstanceID i slot = '''' then (Inl ErrEquipmentSlotEmpty, i)
      else if unequippedEntryCount i \<ge> inv_maxStacks i then (Inl ErrFull, i)
      else (let x = the (fmlookup (inv_equippedInstances i) slot)
            in (Inr x, i\<lparr>inv_instances := fmupd (inst_ID x) x (inv_instances i),
                         inv_equippedInstances := fmdrop slot (inv_equippedInstances i),
                         inv_revision := inv_revision i + 1,
                         inv_equipmentRevision := inv_equipmentRevision i + 1\<rparr>)))"

section \<open>What is carried\<close>

text \<open>The four sums over what the inventory holds, with a unit weight per archetype.\<close>

definition stack_load :: "(string \<Rightarrow> nat) \<Rightarrow> (string, u32) fmap \<Rightarrow> nat" where
  "stack_load u m = gomap_sum (\<lambda>a q. u a * unat q) m"

definition instance_load :: "(string \<Rightarrow> nat) \<Rightarrow> (string, item_instance) fmap \<Rightarrow> nat" where
  "instance_load u m = gomap_sum (\<lambda>_ x. u (inst_ItemArchetypeID x)) m"

definition equipped_load :: "(string \<Rightarrow> nat) \<Rightarrow> (string, string) fmap \<Rightarrow> nat" where
  "equipped_load u m = gomap_sum (\<lambda>_ a. u a) m"

definition unit_of :: "inventory \<Rightarrow> string \<Rightarrow> nat" where
  "unit_of i a = unat (unitWeight i a)"

definition carried :: "inventory \<Rightarrow> nat" where
  "carried i = stack_load (unit_of i) (inv_stacks i) + instance_load (unit_of i) (inv_instances i) +
     equipped_load (unit_of i) (inv_equipped i) + instance_load (unit_of i) (inv_equippedInstances i)"

lemma load_empty [simp]: "stack_load u fmempty = 0" "instance_load u fmempty = 0" "equipped_load u fmempty = 0"
  by (simp_all add: stack_load_def instance_load_def equipped_load_def)

lemma stack_load_at: "stack_load u m = stack_load u (fmdrop a m) + u a * unat (gomap_at 0 m a)"
  unfolding stack_load_def by (subst gomap_sum_split [of _ m a]) (simp add: gomap_at_def split: option.splits)

lemma stack_load_upd: "stack_load u (fmupd a q m) = stack_load u (fmdrop a m) + u a * unat q"
  by (simp add: stack_load_def gomap_sum_upd)

lemma stack_load_set: "stack_load u (setStack a q m) = stack_load u (fmdrop a m) + u a * unat q"
  by (simp add: setStack_def stack_load_upd)

lemma instance_load_upd_new:
  "\<not> gomap_has m k \<Longrightarrow> instance_load u (fmupd k x m) = instance_load u m + u (inst_ItemArchetypeID x)"
  by (simp add: instance_load_def gomap_has_def gomap_sum_upd_new)

lemma instance_load_drop:
  "fmlookup m k = Some x \<Longrightarrow> instance_load u m = instance_load u (fmdrop k m) + u (inst_ItemArchetypeID x)"
  by (simp add: instance_load_def gomap_sum_drop)

lemma equipped_load_upd_new:
  "\<not> gomap_has m k \<Longrightarrow> equipped_load u (fmupd k a m) = equipped_load u m + u a"
  by (simp add: equipped_load_def gomap_has_def gomap_sum_upd_new)

lemma equipped_load_drop:
  "fmlookup m k = Some a \<Longrightarrow> equipped_load u m = equipped_load u (fmdrop k m) + u a"
  by (simp add: equipped_load_def gomap_sum_drop)

lemma unit_of_cong:
  "inv_unitWeights j = inv_unitWeights i \<Longrightarrow> inv_defaultUnitWeight j = inv_defaultUnitWeight i \<Longrightarrow>
     unit_of j = unit_of i"
  by (simp add: fun_eq_iff unit_of_def unitWeight_def Let_def)

text \<open>The weight policy is fixed: updates of the other fields do not touch weights.\<close>

lemma weightFor_update [simp]:
  "weightFor (i\<lparr>inv_stacks := s\<rparr>) = weightFor i"
  "weightFor (i\<lparr>inv_instances := m\<rparr>) = weightFor i"
  "weightFor (i\<lparr>inv_currentWeight := c\<rparr>) = weightFor i"
  "weightFor (i\<lparr>inv_revision := r\<rparr>) = weightFor i"
  by (simp_all add: fun_eq_iff weightFor_def unitWeight_def Let_def)

lemma overweight_update [simp]:
  "overweight (i\<lparr>inv_stacks := s\<rparr>) = overweight i"
  "overweight (i\<lparr>inv_instances := m\<rparr>) = overweight i"
  "overweight (i\<lparr>inv_currentWeight := c\<rparr>) = overweight i"
  "overweight (i\<lparr>inv_revision := r\<rparr>) = overweight i"
  by (simp_all add: fun_eq_iff overweight_def)

lemma weightFor_nat:
  "inv_maxWeight i \<noteq> 0 \<Longrightarrow> unat (weightFor i a q) = unit_of i a * unat q"
  by (auto simp: weightFor_def unit_of_def unat_mult_32_64)

lemma weightFor_unlimited: "inv_maxWeight i = 0 \<Longrightarrow> weightFor i a q = 0"
  by (simp add: weightFor_def)

lemma not_overweight:
  assumes "\<not> overweight i current added" and "inv_maxWeight i \<noteq> 0"
  shows "unat (current + added) = unat current + unat added" "current + added \<le> inv_maxWeight i"
proof -
  have le: "added \<le> inv_maxWeight i" "current \<le> inv_maxWeight i - added"
    using assms by (auto simp: overweight_def word_gt_0)
  then have "unat current \<le> unat (inv_maxWeight i) - unat added"
    by (simp add: word_le_nat_alt unat_minus_le)
  then have s: "unat current + unat added \<le> unat (inv_maxWeight i)"
    using le(1) by (simp add: word_le_nat_alt)
  then show "unat (current + added) = unat current + unat added"
    using u64_bound [of "inv_maxWeight i"] by (intro unat_plus_no_overflow) simp
  with s show "current + added \<le> inv_maxWeight i" by (simp add: word_le_nat_alt)
qed

lemma overweight_iff:
  "inv_maxWeight i \<noteq> 0 \<Longrightarrow>
     overweight i current added \<longleftrightarrow> unat (inv_maxWeight i) < unat current + unat added"
proof -
  assume m: "inv_maxWeight i \<noteq> 0"
  show ?thesis
  proof (cases "added > inv_maxWeight i")
    case True
    then show ?thesis using m by (simp add: overweight_def word_less_nat_alt unat_gt_0_word)
  next
    case False
    then have "added \<le> inv_maxWeight i" by simp
    then show ?thesis
      using m False by (auto simp: overweight_def word_less_nat_alt unat_minus_le word_le_nat_alt unat_gt_0_word)
  qed
qed

lemma overweight_unlimited: "inv_maxWeight i = 0 \<Longrightarrow> \<not> overweight i current added"
  by (simp add: overweight_def)

lemma lighten_nat: "removed \<le> current \<Longrightarrow> unat (lighten current removed) = unat current - unat removed"
  by (auto simp: lighten_def unat_minus_le)

lemma lighten_zero [simp]: "lighten 0 removed = 0"
  by (simp add: lighten_def)

lemma lighten_le: "lighten current removed \<le> current"
  by (cases "removed \<le> current") (auto simp: lighten_def word_le_nat_alt unat_minus_le)

lemma u32_sum_guard:
  "\<not> (ucast (a :: u32) :: u64) + ucast (b :: u32) > 0xFFFFFFFF \<longleftrightarrow> unat a + unat b < 2 ^ 32"
  by (auto simp: word_less_nat_alt unat_plus_32_64)

section \<open>The invariant\<close>

definition stacks_ok :: "(string, u32) fmap \<Rightarrow> bool" where
  "stacks_ok m = (\<forall>a q. fmlookup m a = Some q \<longrightarrow> a \<noteq> '''' \<and> trimmed a \<and> q \<noteq> 0)"

definition inst_good :: "item_instance \<Rightarrow> bool" where
  "inst_good x =
     (inst_ID x \<noteq> '''' \<and> trimmed (inst_ID x) \<and>
      inst_ItemArchetypeID x \<noteq> '''' \<and> trimmed (inst_ItemArchetypeID x))"

definition instances_ok :: "(string, item_instance) fmap \<Rightarrow> bool" where
  "instances_ok m = (\<forall>k x. fmlookup m k = Some x \<longrightarrow> inst_ID x = k \<and> inst_good x)"

definition slots_ok :: "inventory \<Rightarrow> bool" where
  "slots_ok i =
     ((\<forall>s a. fmlookup (inv_equipped i) s = Some a \<longrightarrow>
         ValidEquipmentSlot s \<and> a \<noteq> '''' \<and> trimmed a \<and> fmlookup (inv_equippedInstances i) s = None) \<and>
      (\<forall>s x. fmlookup (inv_equippedInstances i) s = Some x \<longrightarrow>
         ValidEquipmentSlot s \<and> inst_good x \<and> \<not> gomap_has (inv_instances i) (inst_ID x)) \<and>
      (\<forall>s t x y. fmlookup (inv_equippedInstances i) s = Some x \<longrightarrow>
         fmlookup (inv_equippedInstances i) t = Some y \<longrightarrow> inst_ID x = inst_ID y \<longrightarrow> s = t))"

definition weight_ok :: "inventory \<Rightarrow> bool" where
  "weight_ok i =
     (if inv_maxWeight i = 0 then inv_currentWeight i = 0
      else unat (inv_currentWeight i) = carried i \<and> inv_currentWeight i \<le> inv_maxWeight i)"

definition inventory_wf :: "inventory \<Rightarrow> bool" where
  "inventory_wf i =
     (stacks_ok (inv_stacks i) \<and> instances_ok (inv_instances i) \<and> slots_ok i \<and>
      unequippedEntryCount i \<le> inv_maxStacks i \<and> weight_ok i)"

lemma wf_New: "inventory_wf (NewWithWeightPolicy n p)"
  by (simp add: inventory_wf_def NewWithWeightPolicy_def stacks_ok_def instances_ok_def slots_ok_def
      weight_ok_def unequippedEntryCount_def carried_def)

lemma stacks_ok_upd: "stacks_ok m \<Longrightarrow> a \<noteq> '''' \<Longrightarrow> trimmed a \<Longrightarrow> q \<noteq> 0 \<Longrightarrow> stacks_ok (fmupd a q m)"
  by (auto simp: stacks_ok_def)

lemma stacks_ok_drop: "stacks_ok m \<Longrightarrow> stacks_ok (fmdrop a m)"
  by (auto simp: stacks_ok_def)

lemma stacks_ok_set: "stacks_ok m \<Longrightarrow> a \<noteq> '''' \<Longrightarrow> trimmed a \<Longrightarrow> stacks_ok (setStack a q m)"
  by (simp add: setStack_def stacks_ok_upd stacks_ok_drop)

lemma stacks_ok_at: "stacks_ok m \<Longrightarrow> gomap_has m a \<longleftrightarrow> gomap_at 0 m a \<noteq> 0"
  by (auto simp: stacks_ok_def gomap_has_def gomap_at_def split: option.splits)

lemma equippedInstanceID_empty:
  "slots_ok i \<Longrightarrow> equippedInstanceID i s = '''' \<longleftrightarrow> fmlookup (inv_equippedInstances i) s = None"
  by (auto simp: equippedInstanceID_def slots_ok_def inst_good_def split: option.splits)

lemma equipped_empty:
  "slots_ok i \<Longrightarrow> gomap_at '''' (inv_equipped i) s = '''' \<longleftrightarrow> fmlookup (inv_equipped i) s = None"
  by (auto simp: slots_ok_def gomap_at_def split: option.splits)

lemma all_slots: "ValidEquipmentSlot s \<longleftrightarrow> s \<in> set equipmentSlots"
  by (simp add: ValidEquipmentSlot_def equipmentSlots_def)

lemma instanceEquipped_iff:
  assumes "slots_ok i" and "k \<noteq> ''''"
  shows "instanceEquipped i k \<longleftrightarrow> (\<exists>s x. fmlookup (inv_equippedInstances i) s = Some x \<and> inst_ID x = k)"
proof -
  have "ValidEquipmentSlot s" if "fmlookup (inv_equippedInstances i) s = Some x" for s x
    using assms(1) that by (auto simp: slots_ok_def)
  with assms(2) show ?thesis
    by (fastforce simp: instanceEquipped_def list_ex_iff equippedInstanceID_def all_slots split: option.splits)
qed

lemma slots_ok_cong:
  "inv_equipped j = inv_equipped i \<Longrightarrow> inv_equippedInstances j = inv_equippedInstances i \<Longrightarrow>
   inv_instances j = inv_instances i \<Longrightarrow> slots_ok j = slots_ok i"
  by (simp add: slots_ok_def)

section \<open>Every operation keeps the invariant\<close>

text \<open>
  Each operation changes the carried load by the weight it books; the lemmas below give the
  state after an accepted call, and the invariant follows field by field.
\<close>

lemma weight_ok_add:
  assumes "weight_ok i" and "\<not> overweight i (inv_currentWeight i) (weightFor i a q)"
    and "inv_maxWeight j = inv_maxWeight i"
    and "inv_currentWeight j = inv_currentWeight i + weightFor i a q"
    and "carried j = carried i + unit_of i a * unat q"
  shows "weight_ok j"
proof (cases "inv_maxWeight i = 0")
  case True
  with assms show ?thesis by (simp add: weight_ok_def weightFor_unlimited)
next
  case False
  with not_overweight [OF assms(2) False] assms show ?thesis
    by (simp add: weight_ok_def weightFor_nat)
qed

lemma weight_ok_lighten:
  assumes "weight_ok i" and "inv_maxWeight j = inv_maxWeight i"
    and "inv_currentWeight j = lighten (inv_currentWeight i) (weightFor i a q)"
    and "carried i = carried j + unit_of i a * unat q"
  shows "weight_ok j"
proof (cases "inv_maxWeight i = 0")
  case True
  with assms show ?thesis by (simp add: weight_ok_def)
next
  case False
  then have cw: "unat (inv_currentWeight i) = carried i" "inv_currentWeight i \<le> inv_maxWeight i"
    using assms(1) by (simp_all add: weight_ok_def)
  have w: "unat (weightFor i a q) = unit_of i a * unat q" using False by (rule weightFor_nat)
  have "weightFor i a q \<le> inv_currentWeight i"
    unfolding word_le_nat_alt w cw(1) assms(4) by simp
  from lighten_nat [OF this] have "unat (inv_currentWeight j) = carried j"
    unfolding assms(3) w cw(1) assms(4) by simp
  moreover have "inv_currentWeight j \<le> inv_maxWeight j"
    unfolding assms(2,3) using lighten_le cw(2) by (rule order_trans)
  ultimately show ?thesis using False assms(2) by (simp add: weight_ok_def)
qed

lemma weight_ok_same:
  "weight_ok i \<Longrightarrow> inv_maxWeight j = inv_maxWeight i \<Longrightarrow> inv_currentWeight j = inv_currentWeight i \<Longrightarrow>
     carried j = carried i \<Longrightarrow> weight_ok j"
  by (simp add: weight_ok_def)

lemma Add_wf:
  assumes wf: "inventory_wf i"
  shows "inventory_wf (snd (inv_Add raw q i))"
proof (cases "fst (inv_Add raw q i)")
  case (Inl e)
  then have "snd (inv_Add raw q i) = i" by (auto simp: inv_Add_def Let_def split: if_splits)
  with wf show ?thesis by simp
next
  case (Inr r)
  define a where "a = TrimSpace raw"
  define w where "w = weightFor i a q"
  define j where "j = i\<lparr>inv_stacks := fmupd a (gomap_at 0 (inv_stacks i) a + q) (inv_stacks i),
    inv_currentWeight := inv_currentWeight i + w, inv_revision := inv_revision i + 1\<rparr>"
  have j: "snd (inv_Add raw q i) = j" and g: "a \<noteq> ''''" "q \<noteq> 0"
    "gomap_has (inv_stacks i) a \<or> unequippedEntryCount i < inv_maxStacks i"
    "unat (gomap_at 0 (inv_stacks i) a) + unat q < 2 ^ 32" "\<not> overweight i (inv_currentWeight i) w"
    using Inr unfolding u32_sum_guard [symmetric]
    by (auto simp: inv_Add_def Let_def j_def a_def w_def split: if_splits)
  have q: "unat (gomap_at 0 (inv_stacks i) a + q) = unat (gomap_at 0 (inv_stacks i) a) + unat q"
    using g(4) by (intro unat_plus_no_overflow) simp
  then have "unat (gomap_at 0 (inv_stacks i) a + q) \<noteq> 0" using g(2) by (simp add: unat_eq_0)
  then have nz: "gomap_at 0 (inv_stacks i) a + q \<noteq> 0" by (metis unat_0)
  have u: "unit_of j = unit_of i" by (rule unit_of_cong) (simp_all add: j_def)
  have c: "carried j = carried i + unit_of i a * unat q"
    unfolding carried_def u
    by (simp add: j_def stack_load_upd q add_mult_distrib2 stack_load_at [of _ "inv_stacks i" a])
  have "weight_ok j"
    by (rule weight_ok_add [OF _ _ _ _ c])
      (use wf g(5) in \<open>simp_all add: inventory_wf_def j_def w_def\<close>)
  moreover have "unequippedEntryCount j \<le> inv_maxStacks j"
    using wf g(3) by (auto simp: inventory_wf_def unequippedEntryCount_def j_def)
  moreover have "slots_ok j = slots_ok i" by (rule slots_ok_cong) (simp_all add: j_def)
  ultimately show ?thesis
    using wf g(1) nz unfolding j inventory_wf_def
    by (simp add: j_def stacks_ok_upd a_def)
qed

lemma setStack_len: "gomap_len (setStack a q m) \<le> gomap_len m" if "gomap_has m a"
  using that by (simp add: setStack_def gomap_len_drop_le)

lemma Remove_wf:
  assumes wf: "inventory_wf i"
  shows "inventory_wf (snd (inv_Remove raw q i))"
proof (cases "fst (inv_Remove raw q i)")
  case (Inl e)
  then have "snd (inv_Remove raw q i) = i" by (auto simp: inv_Remove_def Let_def split: if_splits)
  with wf show ?thesis by simp
next
  case (Inr r)
  define a where "a = TrimSpace raw"
  define w where "w = weightFor i a q"
  define n where "n = gomap_at 0 (inv_stacks i) a"
  define j where "j = i\<lparr>inv_stacks := setStack a (n - q) (inv_stacks i),
    inv_currentWeight := lighten (inv_currentWeight i) w, inv_revision := inv_revision i + 1\<rparr>"
  have j: "snd (inv_Remove raw q i) = j" and g: "a \<noteq> ''''" "q \<noteq> 0" "q \<le> n"
    using Inr by (auto simp: inv_Remove_def Let_def j_def a_def w_def n_def split: if_splits)
  have st: "stacks_ok (inv_stacks i)" using wf by (simp add: inventory_wf_def)
  have "n \<noteq> 0" using g(2,3) by (cases "n = 0") simp_all
  then have has: "gomap_has (inv_stacks i) a" using stacks_ok_at [OF st] by (simp add: n_def)
  have u: "unit_of j = unit_of i" by (rule unit_of_cong) (simp_all add: j_def)
  have n: "unat n = unat (n - q) + unat q" using g(3) by (simp add: unat_minus_le word_le_nat_alt)
  have c: "carried i = carried j + unit_of i a * unat q"
  proof -
    have "stack_load (unit_of i) (inv_stacks i) =
        stack_load (unit_of i) (fmdrop a (inv_stacks i)) + unit_of i a * unat n"
      unfolding n_def by (rule stack_load_at)
    then show ?thesis
      unfolding carried_def u by (simp add: j_def stack_load_set n add_mult_distrib2)
  qed
  have "weight_ok j"
    by (rule weight_ok_lighten [OF _ _ _ c])
      (use wf in \<open>simp_all add: inventory_wf_def j_def w_def\<close>)
  moreover have "unequippedEntryCount j \<le> inv_maxStacks j"
    using wf setStack_len [OF has, of "n - q"] by (simp add: inventory_wf_def unequippedEntryCount_def j_def)
  moreover have "slots_ok j = slots_ok i" by (rule slots_ok_cong) (simp_all add: j_def)
  ultimately show ?thesis
    using wf g(1) unfolding j inventory_wf_def by (simp add: j_def stacks_ok_set a_def)
qed

text \<open>When an operation is accepted, and what it then does.\<close>

lemma Add_Inr_iff:
  "fst (inv_Add raw q i) = Inr r \<longleftrightarrow>
     TrimSpace raw \<noteq> '''' \<and> q \<noteq> 0 \<and>
     (gomap_has (inv_stacks i) (TrimSpace raw) \<or> unequippedEntryCount i < inv_maxStacks i) \<and>
     unat (gomap_at 0 (inv_stacks i) (TrimSpace raw)) + unat q < 2 ^ 32 \<and>
     \<not> overweight i (inv_currentWeight i) (weightFor i (TrimSpace raw) q)"
  unfolding u32_sum_guard [symmetric] by (auto simp: inv_Add_def Let_def)

lemma Add_state:
  "fst (inv_Add raw q i) = Inr r \<Longrightarrow> snd (inv_Add raw q i) =
     i\<lparr>inv_stacks := fmupd (TrimSpace raw) (gomap_at 0 (inv_stacks i) (TrimSpace raw) + q) (inv_stacks i),
       inv_currentWeight := inv_currentWeight i + weightFor i (TrimSpace raw) q,
       inv_revision := inv_revision i + 1\<rparr>"
  by (auto simp: inv_Add_def Let_def split: if_splits)

lemma Remove_Inr_iff:
  "fst (inv_Remove raw q i) = Inr r \<longleftrightarrow>
     TrimSpace raw \<noteq> '''' \<and> q \<noteq> 0 \<and> q \<le> gomap_at 0 (inv_stacks i) (TrimSpace raw)"
  by (auto simp: inv_Remove_def Let_def)

lemma Remove_state:
  "fst (inv_Remove raw q i) = Inr r \<Longrightarrow> snd (inv_Remove raw q i) =
     i\<lparr>inv_stacks := setStack (TrimSpace raw) (gomap_at 0 (inv_stacks i) (TrimSpace raw) - q) (inv_stacks i),
       inv_currentWeight := lighten (inv_currentWeight i) (weightFor i (TrimSpace raw) q),
       inv_revision := inv_revision i + 1\<rparr>"
  by (auto simp: inv_Remove_def Let_def split: if_splits)

lemma Exchange_same_Inr_iff:
  assumes "TrimSpace rr = a" and "TrimSpace ra = a"
  shows "fst (inv_Exchange rr rq ra aq i) = Inr r \<longleftrightarrow>
     a \<noteq> '''' \<and> rq \<noteq> 0 \<and> aq \<noteq> 0 \<and> rq \<le> gomap_at 0 (inv_stacks i) a \<and>
     \<not> overweight i (lighten (inv_currentWeight i) (weightFor i a rq)) (weightFor i a aq) \<and>
     unat (gomap_at 0 (inv_stacks i) a - rq) + unat aq < 2 ^ 32"
  unfolding u32_sum_guard [symmetric]
  by (auto simp: inv_Exchange_def Let_def lighten_def assms not_less)

lemma Exchange_other_Inr_iff:
  assumes "TrimSpace rr = b" and "TrimSpace ra = a" and "b \<noteq> a"
  shows "fst (inv_Exchange rr rq ra aq i) = Inr r \<longleftrightarrow>
     b \<noteq> '''' \<and> a \<noteq> '''' \<and> rq \<noteq> 0 \<and> aq \<noteq> 0 \<and> rq \<le> gomap_at 0 (inv_stacks i) b \<and>
     \<not> overweight i (lighten (inv_currentWeight i) (weightFor i b rq)) (weightFor i a aq) \<and>
     unat (gomap_at 0 (inv_stacks i) a) + unat aq < 2 ^ 32 \<and>
     (gomap_has (inv_stacks i) a \<or>
      (if gomap_at 0 (inv_stacks i) b = rq then int (unequippedEntryCount i) - 1
       else int (unequippedEntryCount i)) < int (inv_maxStacks i))"
  unfolding u32_sum_guard [symmetric]
  by (auto simp: inv_Exchange_def Let_def lighten_def assms not_less)

lemma Exchange_rejected: "fst (inv_Exchange rr rq ra aq i) = Inl e \<Longrightarrow> snd (inv_Exchange rr rq ra aq i) = i"
  by (auto simp: inv_Exchange_def Let_def split: if_splits)

lemma lighten_alt: "(if w < c then c - w else 0) = lighten c w"
  by (auto simp: lighten_def not_less)

lemma ucast_sum_32:
  "unat (a :: u32) + unat (b :: u32) < 2 ^ 32 \<Longrightarrow> ucast ((ucast a :: u64) + ucast b) = a + b"
  by (simp add: word_unat_eq_iff unat_plus_32_64 unat_plus_no_overflow unsigned_ucast_eq take_bit_nat_eq_self_iff)

lemma Exchange_state:
  assumes "fst (inv_Exchange rr rq ra aq i) = Inr r"
  defines "b \<equiv> TrimSpace rr" and "a \<equiv> TrimSpace ra"
  shows "snd (inv_Exchange rr rq ra aq i) =
    i\<lparr>inv_stacks := fmupd a (gomap_at 0 (setStack b (gomap_at 0 (inv_stacks i) b - rq) (inv_stacks i)) a + aq)
        (setStack b (gomap_at 0 (inv_stacks i) b - rq) (inv_stacks i)),
      inv_currentWeight := lighten (inv_currentWeight i) (weightFor i b rq) + weightFor i a aq,
      inv_revision := inv_revision i + 1\<rparr>"
proof (cases "b = a")
  case True
  then have e: "TrimSpace rr = a" "TrimSpace ra = a" by (simp_all add: b_def a_def)
  note ok = Exchange_same_Inr_iff [OF e, THEN iffD1, OF assms(1)]
  define n where "n = gomap_at 0 (inv_stacks i) a - rq"
  have s: "fmupd a (gomap_at 0 (setStack a n (inv_stacks i)) a + aq) (setStack a n (inv_stacks i)) =
      fmupd a (n + aq) (inv_stacks i)"
    by (rule fmap_ext) (simp add: setStack_def)
  have "snd (inv_Exchange rr rq ra aq i) = i\<lparr>inv_stacks := fmupd a (n + aq) (inv_stacks i),
      inv_currentWeight := lighten (inv_currentWeight i) (weightFor i a rq) + weightFor i a aq,
      inv_revision := inv_revision i + 1\<rparr>"
    using assms(1) ok by (auto simp: inv_Exchange_def Let_def e lighten_alt ucast_sum_32 n_def split: if_splits)
  then show ?thesis using True by (simp add: s flip: n_def)
next
  case False
  then have "gomap_at 0 (setStack b (gomap_at 0 (inv_stacks i) b - rq) (inv_stacks i)) a =
      gomap_at 0 (inv_stacks i) a"
    by (simp add: setStack_def)
  then show ?thesis
    using assms(1) False by (auto simp: inv_Exchange_def Let_def lighten_alt simp flip: b_def a_def split: if_splits)
qed

lemma gomap_at_setStack: "gomap_at 0 (setStack b q m) a = (if a = b then q else gomap_at 0 m a)"
  by (auto simp: setStack_def)

lemma setStack_entries:
  assumes "stacks_ok m" and "q \<noteq> 0" and "q \<le> gomap_at 0 m b"
  shows "gomap_len (setStack b (gomap_at 0 m b - q) m) =
    (if gomap_at 0 m b = q then gomap_len m - 1 else gomap_len m)" "0 < gomap_len m"
    "gomap_has (setStack b (gomap_at 0 m b - q) m) a =
      (if a = b then gomap_at 0 m b \<noteq> q else gomap_has m a)"
proof -
  have "gomap_at 0 m b \<noteq> 0" using assms(2,3) by (cases "gomap_at 0 m b = 0") simp_all
  then have h: "gomap_has m b" using assms(1) by (simp add: stacks_ok_at)
  show "gomap_len (setStack b (gomap_at 0 m b - q) m) =
      (if gomap_at 0 m b = q then gomap_len m - 1 else gomap_len m)"
    using h by (simp add: setStack_def gomap_len_drop)
  show "0 < gomap_len m" using h by (rule gomap_len_pos)
  show "gomap_has (setStack b (gomap_at 0 m b - q) m) a =
      (if a = b then gomap_at 0 m b \<noteq> q else gomap_has m a)"
    using h by (auto simp: setStack_def)
qed

lemma Exchange_as_Remove_Add:
  assumes wf: "inventory_wf i"
  shows "fst (inv_Exchange rr rq ra aq i) = Inr () \<longleftrightarrow>
    fst (inv_Remove rr rq i) = Inr () \<and> fst (inv_Add ra aq (snd (inv_Remove rr rq i))) = Inr ()"
    (is "?x \<longleftrightarrow> ?r \<and> ?a")
proof (cases "?r \<and> aq \<noteq> 0 \<and> TrimSpace ra \<noteq> ''''")
  case False
  then have "\<not> ?x"
  proof (cases "TrimSpace rr = TrimSpace ra")
    case True
    with False Exchange_same_Inr_iff [OF True refl] show ?thesis by (auto simp: Remove_Inr_iff)
  next
    case dif: False
    with False Exchange_other_Inr_iff [OF refl refl dif] show ?thesis by (auto simp: Remove_Inr_iff)
  qed
  moreover have "\<not> (?r \<and> ?a)" using False by (auto simp: Add_Inr_iff)
  ultimately show ?thesis by blast
next
  case True
  define b where "b = TrimSpace rr"
  define a where "a = TrimSpace ra"
  define s1 where "s1 = setStack b (gomap_at 0 (inv_stacks i) b - rq) (inv_stacks i)"
  have st: "stacks_ok (inv_stacks i)" and cap: "unequippedEntryCount i \<le> inv_maxStacks i"
    using wf by (simp_all add: inventory_wf_def)
  have r: "b \<noteq> ''''" "rq \<noteq> 0" "rq \<le> gomap_at 0 (inv_stacks i) b"
    using True by (simp_all add: Remove_Inr_iff b_def)
  note ent = setStack_entries [OF st r(2,3), folded s1_def]
  have a: "?a \<longleftrightarrow> (gomap_has s1 a \<or> gomap_len s1 + gomap_len (inv_instances i) < inv_maxStacks i) \<and>
     unat (gomap_at 0 s1 a) + unat aq < 2 ^ 32 \<and>
     \<not> overweight i (lighten (inv_currentWeight i) (weightFor i b rq)) (weightFor i a aq)"
    using True Remove_state [of rr rq i "()"]
    by (simp add: Add_Inr_iff unequippedEntryCount_def flip: a_def b_def s1_def)
  show ?thesis
  proof (cases "b = a")
    case same: True
    have "gomap_has s1 a \<or> gomap_len s1 + gomap_len (inv_instances i) < inv_maxStacks i"
      using ent cap same by (auto simp: unequippedEntryCount_def)
    moreover have e: "TrimSpace rr = a" "TrimSpace ra = a" using same by (simp_all add: a_def b_def)
    moreover have at: "gomap_at 0 s1 a = gomap_at 0 (inv_stacks i) a - rq"
      using same by (simp add: s1_def gomap_at_setStack)
    ultimately show ?thesis
      unfolding Exchange_same_Inr_iff [OF e] a at using True r same by simp blast
  next
    case dif: False
    have "(gomap_has s1 a \<or> gomap_len s1 + gomap_len (inv_instances i) < inv_maxStacks i) \<longleftrightarrow>
        (gomap_has (inv_stacks i) a \<or>
          (if gomap_at 0 (inv_stacks i) b = rq then int (unequippedEntryCount i) - 1
           else int (unequippedEntryCount i)) < int (inv_maxStacks i))"
      using ent dif by (auto simp: unequippedEntryCount_def)
    moreover have "gomap_at 0 s1 a = gomap_at 0 (inv_stacks i) a"
      using dif by (simp add: s1_def gomap_at_setStack)
    moreover note e = b_def [symmetric] a_def [symmetric]
    ultimately show ?thesis
      unfolding Exchange_other_Inr_iff [OF e dif] a using True r unfolding e by simp blast
  qed
qed

lemma Exchange_as_Remove_Add_state:
  assumes "fst (inv_Exchange rr rq ra aq i) = Inr ()" and "fst (inv_Remove rr rq i) = Inr ()"
    and "fst (inv_Add ra aq (snd (inv_Remove rr rq i))) = Inr ()"
  shows "snd (inv_Exchange rr rq ra aq i) =
    (snd (inv_Add ra aq (snd (inv_Remove rr rq i))))\<lparr>inv_revision := inv_revision i + 1\<rparr>"
  unfolding Exchange_state [OF assms(1)] Add_state [OF assms(3)] unfolding Remove_state [OF assms(2)]
  by simp

lemma wf_revision: "inventory_wf (i\<lparr>inv_revision := r\<rparr>) = inventory_wf i"
proof -
  have "unit_of (i\<lparr>inv_revision := r\<rparr>) = unit_of i" by (rule unit_of_cong) simp_all
  then show ?thesis
    by (simp add: inventory_wf_def slots_ok_def weight_ok_def carried_def unequippedEntryCount_def)
qed

lemma Exchange_wf:
  assumes wf: "inventory_wf i"
  shows "inventory_wf (snd (inv_Exchange rr rq ra aq i))"
proof (cases "fst (inv_Exchange rr rq ra aq i)")
  case (Inl e)
  with wf Exchange_rejected show ?thesis by metis
next
  case (Inr r)
  then have x: "fst (inv_Exchange rr rq ra aq i) = Inr ()" by simp
  with Exchange_as_Remove_Add [OF wf] have ra: "fst (inv_Remove rr rq i) = Inr ()"
    "fst (inv_Add ra aq (snd (inv_Remove rr rq i))) = Inr ()" by blast+
  show ?thesis
    unfolding Exchange_as_Remove_Add_state [OF x ra] wf_revision
    by (intro Add_wf Remove_wf wf)
qed

text \<open>Equipping moves one item; the load moves with it and the weight stays.\<close>

lemma Equip_Inr:
  assumes wf: "inventory_wf i" and ok: "fst (inv_Equip slot raw i) = Inr r"
  defines "a \<equiv> TrimSpace raw"
  shows "ValidEquipmentSlot slot" "a \<noteq> ''''" "gomap_at 0 (inv_stacks i) a \<noteq> 0"
    "fmlookup (inv_equipped i) slot = None" "fmlookup (inv_equippedInstances i) slot = None"
    "snd (inv_Equip slot raw i) =
      i\<lparr>inv_stacks := setStack a (gomap_at 0 (inv_stacks i) a - 1) (inv_stacks i),
        inv_equipped := fmupd slot a (inv_equipped i),
        inv_revision := inv_revision i + 1, inv_equipmentRevision := inv_equipmentRevision i + 1\<rparr>"
proof -
  have s: "slots_ok i" using wf by (simp add: inventory_wf_def)
  show "ValidEquipmentSlot slot" "a \<noteq> ''''" "gomap_at 0 (inv_stacks i) a \<noteq> 0"
    using ok by (auto simp: inv_Equip_def Let_def a_def split: if_splits)
  have "gomap_at '''' (inv_equipped i) slot = ''''" "equippedInstanceID i slot = ''''"
    using ok by (auto simp: inv_Equip_def Let_def split: if_splits)
  then show "fmlookup (inv_equipped i) slot = None" "fmlookup (inv_equippedInstances i) slot = None"
    using equipped_empty [OF s] equippedInstanceID_empty [OF s] by blast+
  have "n - 1 = 0 \<longleftrightarrow> n = 1" for n :: u32 by auto
  then show "snd (inv_Equip slot raw i) =
      i\<lparr>inv_stacks := setStack a (gomap_at 0 (inv_stacks i) a - 1) (inv_stacks i),
        inv_equipped := fmupd slot a (inv_equipped i),
        inv_revision := inv_revision i + 1, inv_equipmentRevision := inv_equipmentRevision i + 1\<rparr>"
    using ok by (auto simp: inv_Equip_def Let_def setStack_def a_def split: if_splits)
qed

lemma take_one: "(n :: u32) \<noteq> 0 \<Longrightarrow> unat n = unat (n - 1) + 1"
proof -
  assume "n \<noteq> 0"
  then have "1 \<le> n" by (simp add: word_le_nat_alt unat_gt_0_word Suc_le_eq)
  then show ?thesis by (simp add: unat_minus_le word_le_nat_alt)
qed

lemma Equip_wf:
  assumes wf: "inventory_wf i"
  shows "inventory_wf (snd (inv_Equip slot raw i))"
proof (cases "fst (inv_Equip slot raw i)")
  case (Inl e)
  then have "snd (inv_Equip slot raw i) = i" by (auto simp: inv_Equip_def Let_def split: if_splits)
  with wf show ?thesis by simp
next
  case (Inr r)
  define a where "a = TrimSpace raw"
  define n where "n = gomap_at 0 (inv_stacks i) a"
  note g = Equip_Inr [OF wf Inr, folded a_def, folded n_def]
  define j where "j = i\<lparr>inv_stacks := setStack a (n - 1) (inv_stacks i),
    inv_equipped := fmupd slot a (inv_equipped i), inv_revision := inv_revision i + 1,
    inv_equipmentRevision := inv_equipmentRevision i + 1\<rparr>"
  have st: "stacks_ok (inv_stacks i)" and sl: "slots_ok i" using wf by (simp_all add: inventory_wf_def)
  have u: "unit_of j = unit_of i" by (rule unit_of_cong) (simp_all add: j_def)
  have "stack_load (unit_of i) (inv_stacks i) =
      stack_load (unit_of i) (setStack a (n - 1) (inv_stacks i)) + unit_of i a"
    unfolding stack_load_set stack_load_at [of _ "inv_stacks i" a]
    using take_one [OF g(3)] by (simp flip: n_def)
  then have "carried j = carried i"
    unfolding carried_def u using g(4) by (simp add: j_def equipped_load_upd_new gomap_has_def)
  from weight_ok_same [OF _ _ _ this] have "weight_ok j"
    using wf by (simp add: inventory_wf_def j_def)
  moreover have "slots_ok j"
    using sl g(1,2,5) unfolding slots_ok_def by (auto simp: j_def a_def)
  moreover have "gomap_has (inv_stacks i) a" using g(3) st by (simp add: stacks_ok_at n_def)
  then have "unequippedEntryCount j \<le> inv_maxStacks j"
    using wf setStack_len by (auto simp: inventory_wf_def unequippedEntryCount_def j_def
        intro: order_trans [OF add_right_mono])
  ultimately show ?thesis
    using wf g(2) stacks_ok_set [OF st] unfolding g(6) j_def [symmetric] inventory_wf_def
    by (simp add: j_def a_def)
qed

lemma Unequip_Inr:
  assumes wf: "inventory_wf i" and ok: "fst (inv_Unequip slot i) = Inr a"
  shows "fmlookup (inv_equipped i) slot = Some a" "gomap_at 0 (inv_stacks i) a \<noteq> - 1"
    "gomap_has (inv_stacks i) a \<or> unequippedEntryCount i < inv_maxStacks i"
    "snd (inv_Unequip slot i) =
      i\<lparr>inv_stacks := fmupd a (gomap_at 0 (inv_stacks i) a + 1) (inv_stacks i),
        inv_equipped := fmdrop slot (inv_equipped i),
        inv_revision := inv_revision i + 1, inv_equipmentRevision := inv_equipmentRevision i + 1\<rparr>"
proof -
  have a: "a = gomap_at '''' (inv_equipped i) slot" and ne: "a \<noteq> ''''"
    using ok by (auto simp: inv_Unequip_def Let_def split: if_splits)
  then show "fmlookup (inv_equipped i) slot = Some a"
    using gomap_at_neq_zero by metis
  show "gomap_at 0 (inv_stacks i) a \<noteq> - 1"
    "gomap_has (inv_stacks i) a \<or> unequippedEntryCount i < inv_maxStacks i"
    "snd (inv_Unequip slot i) =
      i\<lparr>inv_stacks := fmupd a (gomap_at 0 (inv_stacks i) a + 1) (inv_stacks i),
        inv_equipped := fmdrop slot (inv_equipped i),
        inv_revision := inv_revision i + 1, inv_equipmentRevision := inv_equipmentRevision i + 1\<rparr>"
    using ok by (auto simp: inv_Unequip_def Let_def a split: if_splits)
qed

lemma Unequip_wf:
  assumes wf: "inventory_wf i"
  shows "inventory_wf (snd (inv_Unequip slot i))"
proof (cases "fst (inv_Unequip slot i)")
  case (Inl e)
  then have "snd (inv_Unequip slot i) = i" by (auto simp: inv_Unequip_def Let_def split: if_splits)
  with wf show ?thesis by simp
next
  case (Inr a)
  note g = Unequip_Inr [OF wf Inr]
  define n where "n = gomap_at 0 (inv_stacks i) a"
  define j where "j = i\<lparr>inv_stacks := fmupd a (n + 1) (inv_stacks i),
    inv_equipped := fmdrop slot (inv_equipped i), inv_revision := inv_revision i + 1,
    inv_equipmentRevision := inv_equipmentRevision i + 1\<rparr>"
  have st: "stacks_ok (inv_stacks i)" and sl: "slots_ok i" using wf by (simp_all add: inventory_wf_def)
  have a: "a \<noteq> ''''" "trimmed a" using sl g(1) by (auto simp: slots_ok_def)
  have nz: "n + 1 \<noteq> 0" using g(2) by (metis add.commute add_eq_0_iff n_def)
  have n1: "unat (n + 1) = unat n + 1"
    using take_one [OF nz] by simp
  have u: "unit_of j = unit_of i" by (rule unit_of_cong) (simp_all add: j_def)
  have "stack_load (unit_of i) (fmupd a (n + 1) (inv_stacks i)) =
      stack_load (unit_of i) (inv_stacks i) + unit_of i a"
    unfolding stack_load_upd stack_load_at [of _ "inv_stacks i" a] by (simp add: n1 flip: n_def)
  then have "carried j = carried i"
    unfolding carried_def u using equipped_load_drop [OF g(1)] by (simp add: j_def)
  from weight_ok_same [OF _ _ _ this] have "weight_ok j"
    using wf by (simp add: inventory_wf_def j_def)
  moreover have "slots_ok j" using sl unfolding slots_ok_def by (auto simp: j_def)
  moreover have "unequippedEntryCount j \<le> inv_maxStacks j"
    using wf g(3) by (auto simp: inventory_wf_def unequippedEntryCount_def j_def)
  ultimately show ?thesis
    using wf stacks_ok_upd [OF st a nz] unfolding g(4) n_def [symmetric] j_def [symmetric] inventory_wf_def
    by (simp add: j_def)
qed

text \<open>Instances keep their identity: an id is in the bag or in one slot, never twice.\<close>

lemma AddInstance_wf:
  assumes wf: "inventory_wf i"
  shows "inventory_wf (snd (inv_AddInstance x i))"
proof (cases "fst (inv_AddInstance x i)")
  case (Inl e)
  then have "snd (inv_AddInstance x i) = i" by (auto simp: inv_AddInstance_def Let_def split: if_splits)
  with wf show ?thesis by simp
next
  case (Inr r)
  define k where "k = inst_ID x"
  define a where "a = inst_ItemArchetypeID x"
  define j where "j = i\<lparr>inv_instances := fmupd k x (inv_instances i),
    inv_currentWeight := inv_currentWeight i + weightFor i a 1, inv_revision := inv_revision i + 1\<rparr>"
  have g: "TrimSpace k = k" "k \<noteq> ''''" "TrimSpace a = a" "a \<noteq> ''''" "\<not> gomap_has (inv_instances i) k"
    "\<not> instanceEquipped i k" "unequippedEntryCount i < inv_maxStacks i"
    "\<not> overweight i (inv_currentWeight i) (weightFor i a 1)" "snd (inv_AddInstance x i) = j"
    using Inr by (auto simp: inv_AddInstance_def Let_def j_def k_def a_def split: if_splits)
  have sl: "slots_ok i" using wf by (simp add: inventory_wf_def)
  have fresh: "inst_ID y \<noteq> k" if "fmlookup (inv_equippedInstances i) s = Some y" for s y
    using instanceEquipped_iff [OF sl g(2)] g(6) that by blast
  have u: "unit_of j = unit_of i" by (rule unit_of_cong) (simp_all add: j_def)
  have c: "carried j = carried i + unit_of i a * unat (1 :: u32)"
    unfolding carried_def u using instance_load_upd_new [OF g(5), of "unit_of i" x]
    by (simp add: j_def a_def)
  have "weight_ok j"
    by (rule weight_ok_add [OF _ g(8) _ _ c]) (use wf in \<open>simp_all add: inventory_wf_def j_def\<close>)
  moreover have "slots_ok j"
    using sl fresh unfolding slots_ok_def by (auto simp: j_def)
  moreover have "instances_ok (inv_instances j)"
    using wf g(1-4) by (auto simp: inventory_wf_def instances_ok_def inst_good_def trimmed_iff j_def k_def a_def)
  moreover have "unequippedEntryCount j \<le> inv_maxStacks j"
    using g(5,7) by (simp add: unequippedEntryCount_def j_def)
  ultimately show ?thesis
    using wf unfolding g(9) inventory_wf_def by (simp add: j_def)
qed

lemma RemoveInstance_Inr:
  assumes "fst (inv_RemoveInstance raw i) = Inr x"
  shows "fmlookup (inv_instances i) (TrimSpace raw) = Some x"
    "snd (inv_RemoveInstance raw i) = i\<lparr>inv_instances := fmdrop (TrimSpace raw) (inv_instances i),
      inv_currentWeight := lighten (inv_currentWeight i) (weightFor i (inst_ItemArchetypeID x) 1),
      inv_revision := inv_revision i + 1\<rparr>"
  using assms by (auto simp: inv_RemoveInstance_def Let_def split: if_splits option.splits)

lemma slots_ok_drop_instance:
  "slots_ok i \<Longrightarrow> inv_equipped j = inv_equipped i \<Longrightarrow> inv_equippedInstances j = inv_equippedInstances i \<Longrightarrow>
   inv_instances j = fmdrop k (inv_instances i) \<Longrightarrow> slots_ok j"
  by (simp add: slots_ok_def)

lemma instances_ok_drop: "instances_ok m \<Longrightarrow> instances_ok (fmdrop k m)"
  by (auto simp: instances_ok_def)

lemma RemoveInstance_wf:
  assumes wf: "inventory_wf i"
  shows "inventory_wf (snd (inv_RemoveInstance raw i))"
proof (cases "fst (inv_RemoveInstance raw i)")
  case (Inl e)
  then have "snd (inv_RemoveInstance raw i) = i"
    by (auto simp: inv_RemoveInstance_def Let_def split: if_splits option.splits)
  with wf show ?thesis by simp
next
  case (Inr x)
  define j where "j = snd (inv_RemoveInstance raw i)"
  note g = RemoveInstance_Inr [OF Inr, folded j_def]
  have u: "unit_of j = unit_of i" by (rule unit_of_cong) (simp_all add: g(2))
  have c: "carried i = carried j + unit_of i (inst_ItemArchetypeID x) * unat (1 :: u32)"
    unfolding carried_def u using instance_load_drop [OF g(1), of "unit_of i"] by (simp add: g(2))
  have "weight_ok j"
    by (rule weight_ok_lighten [OF _ _ _ c]) (use wf in \<open>simp_all add: inventory_wf_def g(2)\<close>)
  moreover have "slots_ok j"
    by (rule slots_ok_drop_instance [of i]) (use wf in \<open>simp_all add: inventory_wf_def g(2)\<close>)
  moreover have "unequippedEntryCount j \<le> inv_maxStacks j"
    using wf gomap_len_drop_le [of "TrimSpace raw" "inv_instances i"]
    by (simp add: inventory_wf_def unequippedEntryCount_def g(2))
  ultimately show ?thesis
    using wf unfolding j_def [symmetric] inventory_wf_def by (simp add: g(2) instances_ok_drop)
qed

lemma EquipInstance_Inr:
  assumes wf: "inventory_wf i" and ok: "fst (inv_EquipInstance slot k i) = Inr r"
  obtains x where "ValidEquipmentSlot slot" "fmlookup (inv_equipped i) slot = None"
    "fmlookup (inv_equippedInstances i) slot = None" "fmlookup (inv_instances i) k = Some x"
    "snd (inv_EquipInstance slot k i) =
      i\<lparr>inv_instances := fmdrop k (inv_instances i),
        inv_equippedInstances := fmupd slot x (inv_equippedInstances i),
        inv_revision := inv_revision i + 1, inv_equipmentRevision := inv_equipmentRevision i + 1\<rparr>"
proof -
  have s: "slots_ok i" using wf by (simp add: inventory_wf_def)
  from ok obtain x where x: "ValidEquipmentSlot slot" "gomap_at '''' (inv_equipped i) slot = ''''"
    "equippedInstanceID i slot = ''''" "fmlookup (inv_instances i) k = Some x"
    by (auto simp: inv_EquipInstance_def split: if_splits option.splits)
  then have "fmlookup (inv_equipped i) slot = None" "fmlookup (inv_equippedInstances i) slot = None"
    using equipped_empty [OF s] equippedInstanceID_empty [OF s] by blast+
  with x show thesis by (intro that [of x]) (simp_all add: inv_EquipInstance_def)
qed

lemma EquipInstance_wf:
  assumes wf: "inventory_wf i"
  shows "inventory_wf (snd (inv_EquipInstance slot k i))"
proof (cases "fst (inv_EquipInstance slot k i)")
  case (Inl e)
  then have "snd (inv_EquipInstance slot k i) = i"
    by (auto simp: inv_EquipInstance_def split: if_splits option.splits)
  with wf show ?thesis by simp
next
  case (Inr r)
  from EquipInstance_Inr [OF wf Inr] obtain x where g: "ValidEquipmentSlot slot"
    "fmlookup (inv_equipped i) slot = None" "fmlookup (inv_equippedInstances i) slot = None"
    "fmlookup (inv_instances i) k = Some x"
    and st: "snd (inv_EquipInstance slot k i) =
      i\<lparr>inv_instances := fmdrop k (inv_instances i),
        inv_equippedInstances := fmupd slot x (inv_equippedInstances i),
        inv_revision := inv_revision i + 1, inv_equipmentRevision := inv_equipmentRevision i + 1\<rparr>" .
  define j where "j = i\<lparr>inv_instances := fmdrop k (inv_instances i),
        inv_equippedInstances := fmupd slot x (inv_equippedInstances i),
        inv_revision := inv_revision i + 1, inv_equipmentRevision := inv_equipmentRevision i + 1\<rparr>"
  have sl: "slots_ok i" and io: "instances_ok (inv_instances i)" using wf by (simp_all add: inventory_wf_def)
  have x: "inst_ID x = k" "inst_good x" using io g(4) by (auto simp: instances_ok_def)
  have fresh: "inst_ID y \<noteq> k" if "fmlookup (inv_equippedInstances i) s = Some y" for s y
    using sl that g(4) by (auto simp: slots_ok_def gomap_has_def)
  have u: "unit_of j = unit_of i" by (rule unit_of_cong) (simp_all add: j_def)
  have "instance_load (unit_of i) (fmupd slot x (inv_equippedInstances i)) =
      instance_load (unit_of i) (inv_equippedInstances i) + unit_of i (inst_ItemArchetypeID x)"
    using g(3) by (intro instance_load_upd_new) (simp add: gomap_has_def)
  then have "carried j = carried i"
    unfolding carried_def u using instance_load_drop [OF g(4), of "unit_of i"] by (simp add: j_def)
  from weight_ok_same [OF _ _ _ this] have "weight_ok j"
    using wf by (simp add: inventory_wf_def j_def)
  moreover have "slots_ok j"
    using sl g(1,2) x unfolding slots_ok_def by (auto simp: j_def dest: fresh)
  moreover have "unequippedEntryCount j \<le> inv_maxStacks j"
    using wf gomap_len_drop_le [of k "inv_instances i"]
    by (simp add: inventory_wf_def unequippedEntryCount_def j_def)
  ultimately show ?thesis
    using wf unfolding st j_def [symmetric] inventory_wf_def by (simp add: j_def instances_ok_drop)
qed

lemma UnequipInstance_Inr:
  assumes wf: "inventory_wf i" and ok: "fst (inv_UnequipInstance slot i) = Inr x"
  shows "fmlookup (inv_equippedInstances i) slot = Some x" "unequippedEntryCount i < inv_maxStacks i"
    "snd (inv_UnequipInstance slot i) =
      i\<lparr>inv_instances := fmupd (inst_ID x) x (inv_instances i),
        inv_equippedInstances := fmdrop slot (inv_equippedInstances i),
        inv_revision := inv_revision i + 1, inv_equipmentRevision := inv_equipmentRevision i + 1\<rparr>"
proof -
  have ne: "equippedInstanceID i slot \<noteq> ''''" and x: "x = the (fmlookup (inv_equippedInstances i) slot)"
    using ok by (auto simp: inv_UnequipInstance_def Let_def split: if_splits)
  then show "fmlookup (inv_equippedInstances i) slot = Some x"
    by (auto simp: equippedInstanceID_def split: option.splits)
  show "unequippedEntryCount i < inv_maxStacks i"
    "snd (inv_UnequipInstance slot i) =
      i\<lparr>inv_instances := fmupd (inst_ID x) x (inv_instances i),
        inv_equippedInstances := fmdrop slot (inv_equippedInstances i),
        inv_revision := inv_revision i + 1, inv_equipmentRevision := inv_equipmentRevision i + 1\<rparr>"
    using ok by (auto simp: inv_UnequipInstance_def Let_def x split: if_splits)
qed

lemma UnequipInstance_wf:
  assumes wf: "inventory_wf i"
  shows "inventory_wf (snd (inv_UnequipInstance slot i))"
proof (cases "fst (inv_UnequipInstance slot i)")
  case (Inl e)
  then have "snd (inv_UnequipInstance slot i) = i"
    by (auto simp: inv_UnequipInstance_def Let_def split: if_splits)
  with wf show ?thesis by simp
next
  case (Inr x)
  define j where "j = snd (inv_UnequipInstance slot i)"
  note g = UnequipInstance_Inr [OF wf Inr, folded j_def]
  have sl: "slots_ok i" and io: "instances_ok (inv_instances i)" using wf by (simp_all add: inventory_wf_def)
  have x: "inst_good x" "\<not> gomap_has (inv_instances i) (inst_ID x)" using sl g(1) by (auto simp: slots_ok_def)
  have u: "unit_of j = unit_of i" by (rule unit_of_cong) (simp_all add: g(3))
  have "carried j = carried i"
    unfolding carried_def u
    using instance_load_drop [OF g(1), of "unit_of i"] instance_load_upd_new [OF x(2), of "unit_of i" x]
    by (simp add: g(3))
  from weight_ok_same [OF _ _ _ this] have "weight_ok j"
    using wf by (simp add: inventory_wf_def g(3))
  moreover have "slots_ok j"
    using sl g(1) unfolding slots_ok_def by (auto simp: g(3))
  moreover have "unequippedEntryCount j \<le> inv_maxStacks j"
    using g(2) x(2) by (simp add: unequippedEntryCount_def g(3))
  moreover have "instances_ok (inv_instances j)" using io x(1) by (auto simp: instances_ok_def g(3))
  ultimately show ?thesis
    using wf unfolding j_def [symmetric] inventory_wf_def by (simp add: g(3))
qed

section \<open>The inventory as a machine\<close>

datatype inventory_op =
  OpAdd string u32 | OpRemove string u32 | OpExchange string u32 string u32 |
  OpEquip string string | OpUnequip string | OpAddInstance item_instance |
  OpRemoveInstance string | OpEquipInstance string string | OpUnequipInstance string

datatype inventory_result = Done | Archetype string | Item item_instance

fun inventory_step ::
  "inventory_op \<Rightarrow> inventory \<Rightarrow> (inventory_error + inventory_result) \<times> inventory" where
  "inventory_step (OpAdd a q) i = apfst (map_sum id (\<lambda>_. Done)) (inv_Add a q i)"
| "inventory_step (OpRemove a q) i = apfst (map_sum id (\<lambda>_. Done)) (inv_Remove a q i)"
| "inventory_step (OpExchange r rq a aq) i = apfst (map_sum id (\<lambda>_. Done)) (inv_Exchange r rq a aq i)"
| "inventory_step (OpEquip s a) i = apfst (map_sum id (\<lambda>_. Done)) (inv_Equip s a i)"
| "inventory_step (OpUnequip s) i = apfst (map_sum id Archetype) (inv_Unequip s i)"
| "inventory_step (OpAddInstance x) i = apfst (map_sum id (\<lambda>_. Done)) (inv_AddInstance x i)"
| "inventory_step (OpRemoveInstance k) i = apfst (map_sum id Item) (inv_RemoveInstance k i)"
| "inventory_step (OpEquipInstance s k) i = apfst (map_sum id (\<lambda>_. Done)) (inv_EquipInstance s k i)"
| "inventory_step (OpUnequipInstance s) i = apfst (map_sum id Item) (inv_UnequipInstance s i)"

lemmas inventory_ops_wf = Add_wf Remove_wf Exchange_wf Equip_wf Unequip_wf AddInstance_wf
  RemoveInstance_wf EquipInstance_wf UnequipInstance_wf

lemma map_sum_Inl: "map_sum id f x = Inl e \<longleftrightarrow> x = Inl e"
  by (cases x) auto

interpretation inventory_machine: atomic_machine inventory_step inventory_wf
proof unfold_locales
  fix s x assume "inventory_wf s"
  then show "inventory_wf (snd (inventory_step x s))"
    by (cases x) (simp_all add: inventory_ops_wf)
next
  fix s x e assume "fst (inventory_step x s) = Inl e"
  then show "snd (inventory_step x s) = s"
    by (cases x)
      (auto simp: map_sum_Inl inv_Add_def inv_Remove_def inv_Equip_def inv_Unequip_def
        inv_AddInstance_def inv_RemoveInstance_def inv_EquipInstance_def inv_UnequipInstance_def
        Let_def Exchange_rejected split: if_splits option.splits)
qed

section \<open>Properties\<close>

text \<open>
  C5. Whatever operations are performed on a new inventory, in any order, accepted or
  refused: no stack is empty, the bag never holds more entries than its capacity, with a
  weight limit the recorded weight is exactly the weight of everything held and worn and
  stays within the limit, an instance id is held at most once over the bag and the slots,
  and the refused operations can be erased from the history without changing the result.
\<close>

theorem inventory_history:
  "let i = run_ops inventory_step xs (NewWithWeightPolicy n p) in
    (\<forall>a. gomap_has (inv_stacks i) a \<longleftrightarrow> inv_Quantity i a \<noteq> 0) \<and>
    unequippedEntryCount i \<le> inv_maxStacks i \<and>
    (if inv_maxWeight i = 0 then inv_currentWeight i = 0
     else unat (inv_currentWeight i) = carried i \<and> inv_currentWeight i \<le> inv_maxWeight i) \<and>
    slots_ok i \<and> instances_ok (inv_instances i) \<and>
    run_ops inventory_step (run_accepted inventory_step xs (NewWithWeightPolicy n p))
      (NewWithWeightPolicy n p) = i"
proof -
  have "inventory_wf (run_ops inventory_step xs (NewWithWeightPolicy n p))"
    by (rule inventory_machine.run_inv [OF wf_New])
  then show ?thesis
    using inventory_machine.run_erase_rejected [OF wf_New, of xs n p]
    by (simp add: inventory_wf_def stacks_ok_at inv_Quantity_def weight_ok_def Let_def)
qed

text \<open>
  C20. \<open>Exchange\<close> is the atomic composition of \<open>Remove\<close> and \<open>Add\<close>: in a well-formed
  inventory it is accepted exactly when removing and then adding would both be accepted, it
  then leaves the same stacks and weight with one revision step, and otherwise it changes
  nothing, where the two separate calls could have left the removal behind.
\<close>

theorem Exchange_refines:
  assumes "inventory_wf i"
  shows "if fst (inv_Remove rr rq i) = Inr () \<and> fst (inv_Add ra aq (snd (inv_Remove rr rq i))) = Inr ()
    then inv_Exchange rr rq ra aq i =
      (Inr (), (snd (inv_Add ra aq (snd (inv_Remove rr rq i))))\<lparr>inv_revision := inv_revision i + 1\<rparr>)
    else isl (fst (inv_Exchange rr rq ra aq i)) \<and> snd (inv_Exchange rr rq ra aq i) = i"
proof (cases "fst (inv_Exchange rr rq ra aq i)")
  case (Inl e)
  then have "fst (inv_Exchange rr rq ra aq i) \<noteq> Inr ()" by simp
  then show ?thesis
    using Inl Exchange_as_Remove_Add [OF assms, of rr rq ra aq] Exchange_rejected [OF Inl] by auto
next
  case (Inr r)
  then have x: "fst (inv_Exchange rr rq ra aq i) = Inr ()" by simp
  with Exchange_as_Remove_Add [OF assms] have ra: "fst (inv_Remove rr rq i) = Inr ()"
    "fst (inv_Add ra aq (snd (inv_Remove rr rq i))) = Inr ()" by blast+
  show ?thesis
    using Exchange_as_Remove_Add_state [OF x ra] x ra by (simp add: prod_eq_iff)
qed

lemma equipment_weight:
  "inv_currentWeight (snd (inv_Equip slot raw i)) = inv_currentWeight i"
  "inv_currentWeight (snd (inv_EquipInstance slot k i)) = inv_currentWeight i"
  "inv_currentWeight (snd (inv_Unequip slot i)) = inv_currentWeight i"
  "inv_currentWeight (snd (inv_UnequipInstance slot i)) = inv_currentWeight i"
  by (simp_all add: inv_Equip_def inv_EquipInstance_def inv_Unequip_def inv_UnequipInstance_def Let_def
      split: option.split)

text \<open>
  C31. Equipping and unequipping are inverse: after an accepted \<open>Equip\<close>, \<open>Unequip\<close> of that
  slot always succeeds, returns the archetype, and restores the inventory up to the two
  revision counters; the same for equipment instances. None of the four operations changes the
  carried weight, accepted or refused.
\<close>

theorem equip_unequip:
  assumes "inventory_wf i"
  shows "(fst (inv_Equip slot raw i) = Inr () \<longrightarrow>
      inv_Unequip slot (snd (inv_Equip slot raw i)) =
        (Inr (TrimSpace raw), i\<lparr>inv_revision := inv_revision i + 2,
                                inv_equipmentRevision := inv_equipmentRevision i + 2\<rparr>) \<and>
      inv_currentWeight (snd (inv_Equip slot raw i)) = inv_currentWeight i) \<and>
    (fst (inv_EquipInstance slot k i) = Inr () \<longrightarrow>
      (\<exists>x. inst_ID x = k \<and> inv_UnequipInstance slot (snd (inv_EquipInstance slot k i)) =
        (Inr x, i\<lparr>inv_revision := inv_revision i + 2,
                  inv_equipmentRevision := inv_equipmentRevision i + 2\<rparr>))) \<and>
    inv_currentWeight (snd (inv_Equip slot raw i)) = inv_currentWeight i \<and>
    inv_currentWeight (snd (inv_EquipInstance slot k i)) = inv_currentWeight i \<and>
    inv_currentWeight (snd (inv_Unequip slot i)) = inv_currentWeight i \<and>
    inv_currentWeight (snd (inv_UnequipInstance slot i)) = inv_currentWeight i"
proof (intro conjI impI equipment_weight)
  have st: "stacks_ok (inv_stacks i)" and io: "instances_ok (inv_instances i)"
    and cap: "unequippedEntryCount i \<le> inv_maxStacks i"
    using assms by (simp_all add: inventory_wf_def)
  assume ok: "fst (inv_Equip slot raw i) = Inr ()"
  define a where "a = TrimSpace raw"
  define n where "n = gomap_at 0 (inv_stacks i) a"
  note g = Equip_Inr [OF assms ok, folded a_def, folded n_def]
  have one: "1 \<le> n" using g(3) by (simp add: word_le_nat_alt unat_gt_0_word Suc_le_eq)
  have ent: "gomap_len (setStack a (n - 1) (inv_stacks i)) =
      (if n = 1 then gomap_len (inv_stacks i) - 1 else gomap_len (inv_stacks i))"
    "0 < gomap_len (inv_stacks i)" "gomap_has (setStack a (n - 1) (inv_stacks i)) a \<longleftrightarrow> n \<noteq> 1"
    using setStack_entries [OF st, of 1 a, folded n_def] one by simp_all
  have restored: "fmupd a n (setStack a (n - 1) (inv_stacks i)) = inv_stacks i"
  proof (rule fmap_ext)
    fix b
    show "fmlookup (fmupd a n (setStack a (n - 1) (inv_stacks i))) b = fmlookup (inv_stacks i) b"
      using g(3) gomap_at_neq_zero [of 0 "inv_stacks i" a] by (auto simp: setStack_def n_def)
  qed
  have slot: "fmdrop slot (fmupd slot a (inv_equipped i)) = inv_equipped i"
    using g(4) by (intro fmap_ext) simp
  have m1: "n - 1 \<noteq> - 1"
  proof
    assume "n - 1 = - 1"
    then have "n - 1 + 1 = - 1 + 1" by (rule arg_cong)
    with g(3) show False by simp
  qed
  show "inv_Unequip slot (snd (inv_Equip slot raw i)) =
        (Inr (TrimSpace raw), i\<lparr>inv_revision := inv_revision i + 2,
                                inv_equipmentRevision := inv_equipmentRevision i + 2\<rparr>)"
    using g(1,2) ent cap m1
    by (auto simp: g(6) inv_Unequip_def Let_def gomap_at_setStack unequippedEntryCount_def restored slot
        simp flip: a_def)
next
  assume ok: "fst (inv_EquipInstance slot k i) = Inr ()"
  have io: "instances_ok (inv_instances i)" and cap: "unequippedEntryCount i \<le> inv_maxStacks i"
    using assms by (simp_all add: inventory_wf_def)
  from EquipInstance_Inr [OF assms ok] obtain x where g: "ValidEquipmentSlot slot"
    "fmlookup (inv_equipped i) slot = None" "fmlookup (inv_equippedInstances i) slot = None"
    "fmlookup (inv_instances i) k = Some x"
    "snd (inv_EquipInstance slot k i) =
      i\<lparr>inv_instances := fmdrop k (inv_instances i),
        inv_equippedInstances := fmupd slot x (inv_equippedInstances i),
        inv_revision := inv_revision i + 1, inv_equipmentRevision := inv_equipmentRevision i + 1\<rparr>" .
  have x: "inst_ID x = k" "k \<noteq> ''''" using io g(4) by (auto simp: instances_ok_def inst_good_def)
  have h: "gomap_has (inv_instances i) k" using g(4) by (simp add: gomap_has_def)
  have b: "fmupd k x (fmdrop k (inv_instances i)) = inv_instances i"
    "fmdrop slot (fmupd slot x (inv_equippedInstances i)) = inv_equippedInstances i"
    using g(3,4) by (auto intro!: fmap_ext)
  have "\<not> inv_maxStacks i \<le> gomap_len (inv_stacks i) + (gomap_len (inv_instances i) - 1)"
    using cap gomap_len_pos [OF h] by (simp add: unequippedEntryCount_def)
  then show "\<exists>x. inst_ID x = k \<and> inv_UnequipInstance slot (snd (inv_EquipInstance slot k i)) =
        (Inr x, i\<lparr>inv_revision := inv_revision i + 2,
                  inv_equipmentRevision := inv_equipmentRevision i + 2\<rparr>)"
    using g(1) x h b
    by (intro exI [of _ x])
      (simp add: g(5) inv_UnequipInstance_def equippedInstanceID_def unequippedEntryCount_def
        gomap_len_drop)
qed

section \<open>Witnesses\<close>

definition sample_inventory :: inventory where
  "sample_inventory =
     snd (inv_Add ''potion'' 5 (NewWithWeightPolicy 10
       \<lparr>wpol_MaxWeight = 100, wpol_DefaultUnitWeight = 1, wpol_UnitWeights = [('' gold '', 2)]\<rparr>))"

lemma sample_inventory_wf: "inventory_wf sample_inventory"
  unfolding sample_inventory_def by (intro Add_wf wf_New)

theorem Exchange_refines_witness:
  "inv_Exchange ''potion'' 2 ''gold'' 7 sample_inventory =
     (Inr (), (snd (inv_Add ''gold'' 7 (snd (inv_Remove ''potion'' 2 sample_inventory))))
       \<lparr>inv_revision := inv_revision sample_inventory + 1\<rparr>)"
proof -
  have "fst (inv_Remove ''potion'' 2 sample_inventory) = Inr () \<and>
      fst (inv_Add ''gold'' 7 (snd (inv_Remove ''potion'' 2 sample_inventory))) = Inr ()"
    by code_simp
  with Exchange_refines [OF sample_inventory_wf, of "''potion''" 2 "''gold''" 7] show ?thesis by presburger
qed

theorem equip_unequip_witness:
  "inv_Unequip ''main_hand'' (snd (inv_Equip ''main_hand'' ''potion'' sample_inventory)) =
     (Inr (TrimSpace ''potion''), sample_inventory\<lparr>inv_revision := inv_revision sample_inventory + 2,
        inv_equipmentRevision := inv_equipmentRevision sample_inventory + 2\<rparr>)"
proof -
  have "fst (inv_Equip ''main_hand'' ''potion'' sample_inventory) = Inr ()" by code_simp
  with equip_unequip [OF sample_inventory_wf, of "''main_hand''" "''potion''"] show ?thesis by blast
qed

end
