(* ===== verification/Threat.thy ===== *)
theory Threat
  imports Prelude
begin

text \<open>
  Threat tables (\<open>internal/threat/threat.go\<close>): saturating accumulation per entity and the
  selection of the highest valid target, which prunes invalid entries while it walks the map.
  Go leaves the order of that walk open: it is an argument, any list of the map's keys.
\<close>

type_synonym threat_table = "(entity_id, u64) fmap"

definition threat_New :: threat_table where
  "threat_New = fmempty"

definition threat_Add :: "entity_id \<Rightarrow> u64 \<Rightarrow> threat_table \<Rightarrow> threat_table" where
  "threat_Add entityID amount t =
     (if entityID = 0 \<or> amount = 0 then t
      else let current = gomap_at 0 t entityID
           in if amount > - 1 - current then fmupd entityID (- 1) t
              else fmupd entityID (current + amount) t)"

definition threat_Remove :: "entity_id \<Rightarrow> threat_table \<Rightarrow> threat_table" where
  "threat_Remove entityID t = (if entityID = 0 then t else fmdrop entityID t)"

definition threat_Clear :: "threat_table \<Rightarrow> threat_table" where
  "threat_Clear t = (if gomap_len t = 0 then t else fmempty)"

definition threat_Value :: "threat_table \<Rightarrow> entity_id \<Rightarrow> u64" where
  "threat_Value t entityID = gomap_at 0 t entityID"

definition threat_Len :: "threat_table \<Rightarrow> nat" where
  "threat_Len t = gomap_len t"

text \<open>One entry of the walk: dropped, or compared with the best so far.\<close>

definition threat_usable :: "(entity_id \<Rightarrow> bool) option \<Rightarrow> entity_id \<Rightarrow> u64 \<Rightarrow> bool" where
  "threat_usable valid e v =
     (e \<noteq> 0 \<and> v \<noteq> 0 \<and> (case valid of None \<Rightarrow> True | Some f \<Rightarrow> f e))"

fun threat_scan ::
  "(entity_id \<Rightarrow> bool) option \<Rightarrow> entity_id list \<Rightarrow> (entity_id \<times> u64) option \<Rightarrow> threat_table \<Rightarrow>
     (entity_id \<times> u64) option \<times> threat_table" where
  "threat_scan valid [] best t = (best, t)"
| "threat_scan valid (e # es) best t =
     (let v = gomap_at 0 t e
      in if \<not> threat_usable valid e v then threat_scan valid es best (fmdrop e t)
         else case best of
                None \<Rightarrow> threat_scan valid es (Some (e, v)) t
              | Some (bestID, bestThreat) \<Rightarrow>
                  if v > bestThreat \<or> (v = bestThreat \<and> e < bestID)
                  then threat_scan valid es (Some (e, v)) t
                  else threat_scan valid es best t)"

definition HighestValid ::
  "(entity_id \<Rightarrow> bool) option \<Rightarrow> entity_id list \<Rightarrow> threat_table \<Rightarrow>
     (entity_id \<times> u64) option \<times> threat_table" where
  "HighestValid valid order t =
     (if gomap_len t = 0 then (None, t) else threat_scan valid order None t)"

section \<open>The selection is the maximum\<close>

text \<open>Higher threat first, the lower id among equals.\<close>

definition threat_before :: "entity_id \<times> u64 \<Rightarrow> entity_id \<times> u64 \<Rightarrow> bool" where
  "threat_before a b = (snd a > snd b \<or> (snd a = snd b \<and> fst a \<le> fst b))"

lemma threat_before_trans: "threat_before a b \<Longrightarrow> threat_before b c \<Longrightarrow> threat_before a c"
  by (auto simp: threat_before_def)

lemma threat_before_antisym: "threat_before a b \<Longrightarrow> threat_before b a \<Longrightarrow> a = b"
  by (auto simp: threat_before_def prod_eq_iff)

lemma threat_before_refl [simp]: "threat_before a a"
  by (simp add: threat_before_def)

definition usable_entries :: "(entity_id \<Rightarrow> bool) option \<Rightarrow> threat_table \<Rightarrow> (entity_id \<times> u64) set" where
  "usable_entries valid t = {(e, v). fmlookup t e = Some v \<and> threat_usable valid e v}"

definition is_top :: "(entity_id \<times> u64) set \<Rightarrow> (entity_id \<times> u64) option \<Rightarrow> bool" where
  "is_top S best = (case best of None \<Rightarrow> S = {} | Some b \<Rightarrow> b \<in> S \<and> (\<forall>x \<in> S. threat_before b x))"

lemma is_top_unique: "is_top S a \<Longrightarrow> is_top S b \<Longrightarrow> a = b"
  by (auto simp: is_top_def split: option.splits dest: threat_before_antisym)

lemma is_top_insert:
  "is_top S best \<Longrightarrow> is_top (insert (e, v) S)
     (case best of None \<Rightarrow> Some (e, v)
      | Some (b, w) \<Rightarrow> if v > w \<or> (v = w \<and> e < b) then Some (e, v) else best)"
proof (cases best)
  case (Some p)
  obtain b w where p: "p = (b, w)" by (cases p)
  assume top: "is_top S best"
  show ?thesis
  proof (cases "v > w \<or> (v = w \<and> e < b)")
    case True
    then have "threat_before (e, v) (b, w)" by (auto simp: threat_before_def)
    then have "\<forall>x \<in> S. threat_before (e, v) x"
      using top Some p threat_before_trans by (auto simp: is_top_def)
    with True Some p show ?thesis by (simp add: is_top_def)
  next
    case False
    then have "threat_before (b, w) (e, v)" by (auto simp: threat_before_def not_less)
    with False top Some p show ?thesis by (auto simp: is_top_def)
  qed
qed (simp add: is_top_def)

text \<open>Entries already walked are \<open>S\<close>; the rest is still in the table.\<close>

lemma threat_scan_top:
  assumes "is_top S best" and "distinct es" and "set es \<subseteq> fmdom' t"
  shows "is_top (S \<union> {(e, v). e \<in> set es \<and> fmlookup t e = Some v \<and> threat_usable valid e v})
      (fst (threat_scan valid es best t)) \<and>
    snd (threat_scan valid es best t) =
      fmfilter (\<lambda>e. e \<notin> set es \<or> threat_usable valid e (gomap_at 0 t e)) t"
  using assms
proof (induction es arbitrary: S best t)
  case Nil
  then show ?case by (simp add: fmfilter_true)
next
  case (Cons e es)
  from Cons.prems(3) obtain v where v: "fmlookup t e = Some v" by (auto simp: fmlookup_dom'_iff)
  then have at: "gomap_at 0 t e = v" by (simp add: gomap_at_Some)
  have ne: "e \<notin> set es" and d: "distinct es" using Cons.prems(2) by simp_all
  show ?case
  proof (cases "threat_usable valid e v")
    case False
    have sub: "set es \<subseteq> fmdom' (fmdrop e t)" using Cons.prems(2,3) by auto
    have S: "{(x, v). x \<in> set (e # es) \<and> fmlookup t x = Some v \<and> threat_usable valid x v} =
        {(x, v). x \<in> set es \<and> fmlookup (fmdrop e t) x = Some v \<and> threat_usable valid x v}"
      using False v ne by (auto split: if_splits)
    have T: "fmfilter (\<lambda>x. x \<notin> set (e # es) \<or> threat_usable valid x (gomap_at 0 t x)) t =
        fmfilter (\<lambda>x. x \<notin> set es \<or> threat_usable valid x (gomap_at 0 (fmdrop e t) x)) (fmdrop e t)"
      by (rule fmap_ext) (use False at ne in auto)
    show ?thesis
      using Cons.IH [OF Cons.prems(1) d sub] False at unfolding S T by (simp add: Let_def)
  next
    case True
    define best' where "best' = (case best of None \<Rightarrow> Some (e, v)
      | Some (b, w) \<Rightarrow> if v > w \<or> (v = w \<and> e < b) then Some (e, v) else best)"
    have step: "threat_scan valid (e # es) best t = threat_scan valid es best' t"
      using True at by (auto simp: Let_def best'_def split: option.split)
    have top: "is_top (insert (e, v) S) best'"
      unfolding best'_def using Cons.prems(1) by (rule is_top_insert)
    have sub: "set es \<subseteq> fmdom' t" using Cons.prems(3) by simp
    have S: "S \<union> {(x, v). x \<in> set (e # es) \<and> fmlookup t x = Some v \<and> threat_usable valid x v} =
        insert (e, v) S \<union> {(x, v). x \<in> set es \<and> fmlookup t x = Some v \<and> threat_usable valid x v}"
      using True v by auto
    have T: "fmfilter (\<lambda>x. x \<notin> set (e # es) \<or> threat_usable valid x (gomap_at 0 t x)) t =
        fmfilter (\<lambda>x. x \<notin> set es \<or> threat_usable valid x (gomap_at 0 t x)) t"
      by (rule fmap_ext) (use True at in auto)
    show ?thesis using Cons.IH [OF top d sub] unfolding step S T .
  qed
qed

lemma HighestValid_top:
  assumes "distinct order" and "set order = fmdom' t"
  shows "is_top (usable_entries valid t) (fst (HighestValid valid order t))"
    "snd (HighestValid valid order t) = fmfilter (\<lambda>e. threat_usable valid e (gomap_at 0 t e)) t"
proof -
  have "is_top (usable_entries valid t) (fst (HighestValid valid order t)) \<and>
    snd (HighestValid valid order t) = fmfilter (\<lambda>e. threat_usable valid e (gomap_at 0 t e)) t"
  proof (cases "gomap_len t = 0")
    case True
    then have e: "t = fmempty"
      by (metis card_0_eq empty_iff finite_fmdom' fmap_ext fmdom'_notD fmempty_lookup gomap_len_def)
    show ?thesis
      unfolding e by (simp add: HighestValid_def is_top_def usable_entries_def)
  next
    case False
    have "{(e, v). e \<in> set order \<and> fmlookup t e = Some v \<and> threat_usable valid e v} =
        usable_entries valid t"
      using assms(2) by (auto simp: usable_entries_def fmlookup_dom'_iff)
    moreover have "fmfilter (\<lambda>e. e \<notin> set order \<or> threat_usable valid e (gomap_at 0 t e)) t =
        fmfilter (\<lambda>e. threat_usable valid e (gomap_at 0 t e)) t"
      using assms(2) by (intro fmfilter_cong) (simp add: fmlookup_dom'_iff fmlookup_dom_iff)
    ultimately show ?thesis
      using False threat_scan_top [of "{}" None order t valid] assms
      by (simp add: HighestValid_def is_top_def)
  qed
  then show "is_top (usable_entries valid t) (fst (HighestValid valid order t))"
    "snd (HighestValid valid order t) = fmfilter (\<lambda>e. threat_usable valid e (gomap_at 0 t e)) t"
    by blast+
qed

section \<open>Accumulation saturates\<close>

lemma threat_Add_nat:
  assumes "e \<noteq> 0"
  shows "unat (threat_Value (threat_Add e a t) e) = min (2 ^ 64 - 1) (unat (threat_Value t e) + unat a)"
proof -
  define c where "c = gomap_at 0 t e"
  have "unat (- 1 :: u64) = 2 ^ 64 - 1" by (simp add: unsigned_minus_1_eq_mask mask_eq_exp_minus_1)
  then show ?thesis
    using assms overflow_guard [of c a] unat_plus_no_overflow [of c a] u64_bound [of c]
    by (auto simp: threat_Add_def threat_Value_def Let_def simp flip: c_def)
qed

interpretation threat_store: entity_store threat_Value threat_Remove 0
  by unfold_locales (auto simp: threat_Value_def threat_Remove_def)

section \<open>Properties\<close>

text \<open>
  The target that is selected does not depend on Go's map iteration order: for any two
  orders in which the map may be walked the same entity, the same threat and the same pruned
  table result; the answer is the valid entry with the highest threat, the lowest id among
  equals, and there is none exactly when no valid entry exists.
\<close>

theorem HighestValid_deterministic:
  assumes "distinct order" and "set order = fmdom' t" and "distinct order'" and "set order' = fmdom' t"
  shows "HighestValid valid order t = HighestValid valid order' t \<and>
    (case fst (HighestValid valid order t) of
       None \<Rightarrow> usable_entries valid t = {}
     | Some (e, v) \<Rightarrow> fmlookup t e = Some v \<and> threat_usable valid e v \<and>
         (\<forall>(e', v') \<in> usable_entries valid t. v' < v \<or> (v' = v \<and> e \<le> e')))"
proof
  note a = HighestValid_top [OF assms(1,2), of valid] and b = HighestValid_top [OF assms(3,4), of valid]
  show "HighestValid valid order t = HighestValid valid order' t"
    using is_top_unique [OF a(1) b(1)] a(2) b(2) by (simp add: prod_eq_iff)
  show "case fst (HighestValid valid order t) of
       None \<Rightarrow> usable_entries valid t = {}
     | Some (e, v) \<Rightarrow> fmlookup t e = Some v \<and> threat_usable valid e v \<and>
         (\<forall>(e', v') \<in> usable_entries valid t. v' < v \<or> (v' = v \<and> e \<le> e'))"
  proof (cases "fst (HighestValid valid order t)")
    case None
    with a(1) show ?thesis by (simp add: is_top_def)
  next
    case (Some p)
    obtain e v where p: "p = (e, v)" by (cases p)
    have "(e, v) \<in> usable_entries valid t" using a(1) Some p by (simp add: is_top_def)
    then have "fmlookup t e = Some v" "threat_usable valid e v" by (simp_all add: usable_entries_def)
    moreover have "v' < v \<or> (v' = v \<and> e \<le> e')" if "(e', v') \<in> usable_entries valid t" for e' v'
    proof -
      have "threat_before (e, v) (e', v')" using a(1) Some p that by (simp add: is_top_def)
      then show ?thesis by (auto simp: threat_before_def)
    qed
    then have "\<forall>(e', v') \<in> usable_entries valid t. v' < v \<or> (v' = v \<and> e \<le> e')" by blast
    ultimately show ?thesis using Some p by simp
  qed
qed

theorem HighestValid_deterministic_witness:
  "HighestValid (Some (\<lambda>e. e \<noteq> 3)) [1, 2, 3] (fmap_of_list [(1, 5), (2, 5), (3, 9)]) =
   HighestValid (Some (\<lambda>e. e \<noteq> 3)) [3, 2, 1] (fmap_of_list [(1, 5), (2, 5), (3, 9)])"
proof -
  have d: "fmdom' (fmap_of_list [(1 :: u64, 5 :: u64), (2, 5), (3, 9)]) = {1, 2, 3}" by auto
  show ?thesis
    using HighestValid_deterministic [of "[1, 2, 3]" "fmap_of_list [(1, 5), (2, 5), (3, 9)]" "[3, 2, 1]"
        "Some (\<lambda>e. e \<noteq> 3)"] d
    by auto
qed

lemma threat_Add_other: "e' \<noteq> e \<Longrightarrow> threat_Value (threat_Add e' a t) e = threat_Value t e"
  by (simp add: threat_Add_def threat_Value_def Let_def)

lemma threat_total_from:
  assumes "e \<noteq> 0"
  shows "unat (threat_Value (fold (\<lambda>(x, a). threat_Add x a) adds t) e) =
    min (2 ^ 64 - 1) (unat (threat_Value t e) + (\<Sum>(x, a) \<leftarrow> adds. if x = e then unat a else 0))"
proof (induction adds arbitrary: t)
  case Nil
  show ?case using u64_bound [of "threat_Value t e"] by simp
next
  case (Cons p adds)
  obtain x a where p: "p = (x, a)" by (cases p)
  show ?case
    using Cons.IH [of "threat_Add x a t"] threat_Add_nat [OF assms, of a t] threat_Add_other [of x e a t]
    by (cases "x = e") (auto simp: p)
qed

text \<open>
  C39. Threat never wraps: over any number of additions to an entity, in any interleaving
  with additions to others, its value is the true total capped at \<open>2 ^ 64 - 1\<close>.
\<close>

theorem threat_saturating_total:
  assumes "e \<noteq> 0"
  shows "unat (threat_Value (fold (\<lambda>(x, a). threat_Add x a) adds threat_New) e) =
    min (2 ^ 64 - 1) (\<Sum>(x, a) \<leftarrow> adds. if x = e then unat a else 0)"
  using threat_total_from [OF assms, of adds threat_New] by (simp add: threat_New_def threat_Value_def)

theorem threat_saturating_total_witness:
  "unat (threat_Value (fold (\<lambda>(x, a). threat_Add x a) [(7, - 1), (2, 4), (7, 9)] threat_New) 7) = 2 ^ 64 - 1"
  using threat_saturating_total [of 7 "[(7, - 1), (2, 4), (7, 9)]"]
  by (simp add: unsigned_minus_1_eq_mask mask_eq_exp_minus_1)

end
