(* ===== verification/CombatResources.thy ===== *)
theory CombatResources
  imports Prelude "HOL-Library.Product_Lexorder"
begin

text \<open>
  Transient effects (\<open>internal/status/store.go\<close>), source-target resources
  (\<open>internal/targetresource/targetresource.go\<close>), action resource definitions
  (\<open>internal/actionresource\<close>) and the action policies (\<open>internal/actionpolicy/policy.go\<close>).
\<close>

section \<open>Transient effects\<close>

record timed_value =
  tv_value :: u8
  tv_untilTick :: u64

type_synonym status_store = "(entity_id \<times> string, timed_value) fmap"

definition status_Apply :: "entity_id \<Rightarrow> string \<Rightarrow> u8 \<Rightarrow> u64 \<Rightarrow> status_store \<Rightarrow> status_store" where
  "status_Apply entityID sid v untilTick s =
     (if entityID = 0 \<or> sid = '''' \<or> v = 0 then s
      else fmupd (entityID, sid) \<lparr>tv_value = v, tv_untilTick = untilTick\<rparr> s)"

text \<open>A read removes an expired effect.\<close>

definition status_Value :: "entity_id \<Rightarrow> string \<Rightarrow> u64 \<Rightarrow> status_store \<Rightarrow> u8 option \<times> status_store" where
  "status_Value entityID sid tick s =
     (if entityID = 0 \<or> sid = '''' then (None, s)
      else case fmlookup s (entityID, sid) of
             None \<Rightarrow> (None, s)
           | Some state \<Rightarrow>
               if tick \<ge> tv_untilTick state then (None, fmdrop (entityID, sid) s)
               else (Some (tv_value state), s))"

definition status_Remove :: "entity_id \<Rightarrow> string \<Rightarrow> status_store \<Rightarrow> status_store" where
  "status_Remove entityID sid s =
     (if entityID = 0 \<or> sid = '''' then s else fmdrop (entityID, sid) s)"

definition status_ClearEntity :: "entity_id \<Rightarrow> status_store \<Rightarrow> status_store" where
  "status_ClearEntity entityID s =
     (if entityID = 0 then s else fmfilter (\<lambda>k. fst k \<noteq> entityID) s)"

definition status_Deadline :: "u64 \<Rightarrow> u64 \<Rightarrow> u64" where
  "status_Deadline startTick durationTicks =
     (if durationTicks > - 1 - startTick then - 1 else startTick + durationTicks)"

interpretation statuses: entity_store "\<lambda>s e. (\<lambda>sid tick. fst (status_Value e sid tick s))"
    status_ClearEntity "\<lambda>_ _. None"
  by unfold_locales
    (auto simp: status_Value_def status_ClearEntity_def fun_eq_iff split: option.splits)

text \<open>Reads at some ticks, with the store they leave behind.\<close>

primrec status_reads :: "(entity_id \<times> string \<times> u64) list \<Rightarrow> status_store \<Rightarrow> status_store" where
  "status_reads [] s = s"
| "status_reads (r # rs) s = status_reads rs (snd (status_Value (fst r) (fst (snd r)) (snd (snd r)) s))"

lemma status_read_unobservable:
  assumes "tick \<le> now"
  shows "fst (status_Value e sid now (snd (status_Value x y tick s))) = fst (status_Value e sid now s)"
proof (cases "x = e \<and> y = sid")
  case True
  with assms show ?thesis by (auto simp: status_Value_def split: option.splits)
next
  case False
  then have "fmlookup (snd (status_Value x y tick s)) (e, sid) = fmlookup s (e, sid)"
    by (auto simp: status_Value_def split: option.splits)
  then show ?thesis by (simp add: status_Value_def split: option.splits)
qed

lemma status_reads_unobservable:
  "\<forall>r \<in> set rs. snd (snd r) \<le> now \<Longrightarrow>
     fst (status_Value e sid now (status_reads rs s)) = fst (status_Value e sid now s)"
  by (induction rs arbitrary: s) (simp_all add: status_read_unobservable)

lemma Deadline_nat: "unat (status_Deadline s d) = min (2 ^ 64 - 1) (unat s + unat d)"
proof -
  have "unat (- 1 :: u64) = 2 ^ 64 - 1" by (simp add: unsigned_minus_1_eq_mask mask_eq_exp_minus_1)
  then show ?thesis
    using overflow_guard [of s d] unat_plus_no_overflow [of s d] u64_bound [of d]
    by (auto simp: status_Deadline_def)
qed

section \<open>Source-target resources\<close>

datatype tr_error = ErrInvalidState | ErrInsufficientResource

definition Flaw :: string where [go_defs]: "Flaw = ''flaw''"

record tr_key =
  trk_SourceEntityID :: entity_id
  trk_TargetEntityID :: entity_id
  trk_ResourceID :: string

record tr_state =
  tr_Key :: tr_key
  tr_Current :: u32
  tr_Max :: u32
  tr_ReadyTick :: u64

definition zero_tr_key :: tr_key where
  "zero_tr_key = \<lparr>trk_SourceEntityID = 0, trk_TargetEntityID = 0, trk_ResourceID = ''''\<rparr>"

definition zero_tr :: tr_state where
  "zero_tr = \<lparr>tr_Key = zero_tr_key, tr_Current = 0, tr_Max = 0, tr_ReadyTick = 0\<rparr>"

type_synonym tr_store = "(tr_key, tr_state) fmap"

definition tr_badKey :: "tr_key \<Rightarrow> bool" where
  "tr_badKey key =
     (trk_SourceEntityID key = 0 \<or> trk_TargetEntityID key = 0 \<or>
      trk_SourceEntityID key = trk_TargetEntityID key \<or> trk_ResourceID key = '''')"

definition tr_State :: "tr_store \<Rightarrow> tr_key \<Rightarrow> tr_state option" where
  "tr_State s key = fmlookup s key"

definition tr_TryGain ::
  "tr_key \<Rightarrow> u32 \<Rightarrow> u32 \<Rightarrow> u64 \<Rightarrow> u64 \<Rightarrow> tr_store \<Rightarrow> (tr_state \<times> bool \<times> tr_error option) \<times> tr_store" where
  "tr_TryGain key amount maxi tick nextReadyTick s =
     (if tr_badKey key \<or> amount = 0 \<or> maxi = 0 \<or> nextReadyTick < tick
      then ((zero_tr, False, Some ErrInvalidState), s)
      else if gomap_has s key \<and> tr_Max (gomap_at zero_tr s key) \<noteq> maxi
      then ((gomap_at zero_tr s key, False, Some ErrInvalidState), s)
      else let state = (if gomap_has s key then gomap_at zero_tr s key
                        else zero_tr\<lparr>tr_Key := key, tr_Max := maxi\<rparr>)
           in if tr_Current state \<ge> tr_Max state \<or> tick < tr_ReadyTick state
              then ((state, False, None), s)
              else let missing = tr_Max state - tr_Current state;
                       gain = (if amount > missing then missing else amount);
                       state' = state\<lparr>tr_Current := tr_Current state + gain, tr_ReadyTick := nextReadyTick\<rparr>
                   in ((state', True, None), fmupd key state' s))"

definition tr_GainPreservingReadyTick ::
  "tr_key \<Rightarrow> u32 \<Rightarrow> u32 \<Rightarrow> tr_store \<Rightarrow> (tr_state \<times> bool \<times> tr_error option) \<times> tr_store" where
  "tr_GainPreservingReadyTick key amount maxi s =
     (if tr_badKey key \<or> amount = 0 \<or> maxi = 0 then ((zero_tr, False, Some ErrInvalidState), s)
      else if gomap_has s key \<and> tr_Max (gomap_at zero_tr s key) \<noteq> maxi
      then ((gomap_at zero_tr s key, False, Some ErrInvalidState), s)
      else let state = (if gomap_has s key then gomap_at zero_tr s key
                        else zero_tr\<lparr>tr_Key := key, tr_Max := maxi\<rparr>)
           in if tr_Current state \<ge> tr_Max state then ((state, False, None), s)
              else let missing = tr_Max state - tr_Current state;
                       gain = (if amount > missing then missing else amount);
                       state' = state\<lparr>tr_Current := tr_Current state + gain\<rparr>
                   in ((state', True, None), fmupd key state' s))"

definition tr_Spend :: "tr_key \<Rightarrow> u32 \<Rightarrow> tr_store \<Rightarrow> (tr_state \<times> tr_error option) \<times> tr_store" where
  "tr_Spend key amount s =
     (if tr_badKey key \<or> amount = 0 then ((zero_tr, Some ErrInvalidState), s)
      else if \<not> gomap_has s key \<or> tr_Current (gomap_at zero_tr s key) < amount
      then ((gomap_at zero_tr s key, Some ErrInsufficientResource), s)
      else let state = gomap_at zero_tr s key;
               state' = state\<lparr>tr_Current := tr_Current state - amount\<rparr>
           in ((state', None), fmupd key state' s))"

text \<open>The order in which the removed states are reported: by source, target and resource.\<close>

definition tr_rank :: "tr_state \<Rightarrow> u64 \<times> u64 \<times> string" where
  "tr_rank st =
     (trk_SourceEntityID (tr_Key st), trk_TargetEntityID (tr_Key st), trk_ResourceID (tr_Key st))"

definition tr_touches :: "entity_id \<Rightarrow> tr_key \<Rightarrow> bool" where
  "tr_touches e k = (trk_SourceEntityID k = e \<or> trk_TargetEntityID k = e)"

text \<open>The walk over the map collects the removed states; the order of the walk is an argument.\<close>

definition tr_ClearEntity :: "entity_id \<Rightarrow> tr_key list \<Rightarrow> tr_store \<Rightarrow> tr_state list \<times> tr_store" where
  "tr_ClearEntity e order s =
     (if e = 0 then ([], s)
      else (sort_key tr_rank (map (\<lambda>k. gomap_at zero_tr s k) (filter (tr_touches e) order)),
            fmfilter (\<lambda>k. \<not> tr_touches e k) s))"

text \<open>Every stored state is under its own key, within its bounds.\<close>

definition tr_ok :: "tr_store \<Rightarrow> bool" where
  "tr_ok s = (\<forall>k st. fmlookup s k = Some st \<longrightarrow>
     tr_Key st = k \<and> \<not> tr_badKey k \<and> tr_Max st \<noteq> 0 \<and> tr_Current st \<le> tr_Max st)"

lemma capped_gain:
  fixes c m a :: u32
  assumes "c < m"
  defines "g \<equiv> (if a > m - c then m - c else a)"
  shows "c + g \<le> m" "unat (c + g) = min (unat m) (unat c + unat a)"
proof -
  have d: "unat (m - c) = unat m - unat c" using assms(1) by (simp add: unat_minus_le)
  have l: "unat c < unat m" using assms(1) by (simp add: word_less_nat_alt)
  have g: "unat g = min (unat m - unat c) (unat a)"
    using d by (auto simp: g_def word_less_nat_alt)
  then have "unat c + unat g \<le> unat m" using l by simp
  then have "unat (c + g) = unat c + unat g"
    using u32_bound [of m] by (intro unat_plus_no_overflow) simp
  with g l show "c + g \<le> m" "unat (c + g) = min (unat m) (unat c + unat a)"
    by (simp_all add: word_le_nat_alt)
qed

lemma tr_TryGain_ok: "tr_ok s \<Longrightarrow> tr_ok (snd (tr_TryGain key a m t n s))"
  using capped_gain(1)
  by (fastforce simp: tr_ok_def tr_TryGain_def Let_def gomap_has_def gomap_at_def zero_tr_def not_le
      split: option.splits if_splits)

lemma tr_GainPreserving_ok: "tr_ok s \<Longrightarrow> tr_ok (snd (tr_GainPreservingReadyTick key a m s))"
  using capped_gain(1)
  by (fastforce simp: tr_ok_def tr_GainPreservingReadyTick_def Let_def gomap_has_def gomap_at_def
      zero_tr_def not_le split: option.splits if_splits)

lemma sub_le: "(a :: u32) \<le> c \<Longrightarrow> c \<le> m \<Longrightarrow> c - a \<le> m"
  by (simp add: word_le_nat_alt unat_minus_le)

lemma tr_Spend_ok: "tr_ok s \<Longrightarrow> tr_ok (snd (tr_Spend key a s))"
  by (auto simp: tr_ok_def tr_Spend_def Let_def gomap_has_def gomap_at_def not_less
      intro: sub_le split: option.splits if_splits)

lemma tr_ClearEntity_ok: "tr_ok s \<Longrightarrow> tr_ok (snd (tr_ClearEntity e order s))"
  by (auto simp: tr_ok_def tr_ClearEntity_def)

text \<open>Two walks report the same list, because the keys tell all states apart.\<close>

lemma filter_eq_single: "distinct zs \<Longrightarrow> k \<in> set zs \<Longrightarrow> filter (\<lambda>x. k = x) zs = [k]"
  by (induction zs) (auto simp: filter_empty_conv)

lemma sort_key_perm:
  assumes "mset xs = mset ys" and "inj_on f (set xs)" and "distinct xs"
  shows "sort_key f xs = sort_key f ys"
proof (rule properties_for_sort_key)
  have ds: "distinct ys" using assms(1,3) by (metis mset_eq_imp_distinct_iff)
  have sets: "set ys = set xs" using assms(1) by (metis set_mset_mset)
  show "mset (sort_key f ys) = mset xs" using assms(1) by simp
  show "sorted (map f (sort_key f ys))" by simp
  show "filter (\<lambda>x. f k = f x) (sort_key f ys) = filter (\<lambda>x. f k = f x) xs"
    if k: "k \<in> set (sort_key f ys)" for k
  proof -
    have one: "filter (\<lambda>x. f k = f x) zs = [k]" if "set zs = set xs" "distinct zs" for zs
    proof -
      have "filter (\<lambda>x. f k = f x) zs = filter (\<lambda>x. k = x) zs"
        using assms(2) that(1) k sets by (intro filter_cong) (auto simp: inj_on_def)
      also have "\<dots> = [k]"
        using that k sets by (intro filter_eq_single) simp_all
      finally show ?thesis .
    qed
    have "set (sort_key f ys) = set xs" "distinct (sort_key f ys)"
      using ds sets by (simp_all)
    with assms(3) show ?thesis by (simp add: one)
  qed
qed

lemma tr_removed:
  assumes "tr_ok s" and "set order \<subseteq> fmdom' s" and "distinct order"
  shows "inj_on tr_rank (set (map (gomap_at zero_tr s) (filter (tr_touches e) order)))"
    "distinct (map (gomap_at zero_tr s) (filter (tr_touches e) order))"
proof -
  have key: "tr_Key (gomap_at zero_tr s k) = k" if "k \<in> fmdom' s" for k
    using assms(1) that by (auto simp: tr_ok_def fmlookup_dom'_iff gomap_at_def split: option.splits)
  have same: "a = b" if "tr_rank (gomap_at zero_tr s a) = tr_rank (gomap_at zero_tr s b)"
    "a \<in> fmdom' s" "b \<in> fmdom' s" for a b
    using that key by (simp add: tr_rank_def)
  show "inj_on tr_rank (set (map (gomap_at zero_tr s) (filter (tr_touches e) order)))"
    using same assms(2) by (auto simp: inj_on_def)
  have "inj_on (gomap_at zero_tr s) (set order)"
    by (rule inj_onI, rule same) (use assms(2) in auto)
  then show "distinct (map (gomap_at zero_tr s) (filter (tr_touches e) order))"
    using assms(3) by (auto simp: distinct_map intro: inj_on_subset)
qed

section \<open>Action resources and policies\<close>

definition Resolve :: string where [go_defs]: "Resolve = ''resolve''"
definition Momentum :: string where [go_defs]: "Momentum = ''momentum''"
definition HuntMomentum :: string where [go_defs]: "HuntMomentum = ''hunt_momentum''"
definition StarHeat :: string where [go_defs]: "StarHeat = ''star_heat''"
definition OathSeal :: string where [go_defs]: "OathSeal = ''oath_seal''"

record ar_definition =
  ar_ID :: string
  ar_Max :: u32
  ar_ProgressThreshold :: u32

definition DefinitionForID :: "string \<Rightarrow> ar_definition option" where
  "DefinitionForID i =
     (if i \<in> {Resolve, Momentum, HuntMomentum, StarHeat}
      then Some \<lparr>ar_ID = i, ar_Max = 100, ar_ProgressThreshold = 0\<rparr>
      else if i = OathSeal then Some \<lparr>ar_ID = OathSeal, ar_Max = 3, ar_ProgressThreshold = 100\<rparr>
      else None)"

record spend_tier =
  tier_Amount :: u32
  tier_Damage :: u32

record spend_policy =
  sp_ResourceID :: string
  sp_Tiers :: "spend_tier list"

fun bestTier :: "u32 \<Rightarrow> spend_tier list \<Rightarrow> u32 \<times> u32 \<Rightarrow> u32 \<times> u32" where
  "bestTier current [] best = best"
| "bestTier current (tier # tiers) (amount, damage) =
     (if tier_Amount tier = 0 \<or> tier_Damage tier = 0 \<or> tier_Amount tier > current \<or>
         tier_Amount tier \<le> amount
      then bestTier current tiers (amount, damage)
      else bestTier current tiers (tier_Amount tier, tier_Damage tier))"

definition spend_Resolve :: "spend_policy \<Rightarrow> u32 \<Rightarrow> u32 \<times> u32 \<times> bool" where
  "spend_Resolve p current =
     (if sp_ResourceID p = '''' \<or> current = 0 then (0, 0, False)
      else case bestTier current (sp_Tiers p) (0, 0) of (amount, damage) \<Rightarrow> (amount, damage, amount > 0))"

text \<open>The seconds of the internal cooldown are the literal 2.5 or 0, kept in tenths here.\<close>

record action_policy =
  pol_CostResource :: string
  pol_CostAmount :: u32
  pol_AcceptedResource :: string
  pol_AcceptedGain :: u32
  pol_AcceptedReductionResource :: string
  pol_AcceptedReductionAmount :: u32
  pol_HitResource :: string
  pol_HitGain :: u32
  pol_HitProgressResource :: string
  pol_HitProgressGain :: u32
  pol_HitTargetResource :: string
  pol_HitTargetGain :: u32
  pol_HitTargetMax :: u32
  pol_HitTargetICDTenths :: nat
  pol_HitTargetPreserveReadyTick :: bool
  pol_RequireSideOrBack :: bool
  pol_TargetSpend :: spend_policy

definition zero_policy :: action_policy where
  "zero_policy =
     \<lparr>pol_CostResource = '''', pol_CostAmount = 0, pol_AcceptedResource = '''', pol_AcceptedGain = 0,
      pol_AcceptedReductionResource = '''', pol_AcceptedReductionAmount = 0, pol_HitResource = '''',
      pol_HitGain = 0, pol_HitProgressResource = '''', pol_HitProgressGain = 0,
      pol_HitTargetResource = '''', pol_HitTargetGain = 0, pol_HitTargetMax = 0,
      pol_HitTargetICDTenths = 0, pol_HitTargetPreserveReadyTick = False,
      pol_RequireSideOrBack = False, pol_TargetSpend = \<lparr>sp_ResourceID = '''', sp_Tiers = []\<rparr>\<rparr>"

definition flaw_tiers :: "spend_tier list" where
  "flaw_tiers = [\<lparr>tier_Amount = 1, tier_Damage = 140\<rparr>, \<lparr>tier_Amount = 2, tier_Damage = 220\<rparr>,
     \<lparr>tier_Amount = 3, tier_Damage = 300\<rparr>]"

definition ForAction :: "string \<Rightarrow> action_policy option" where
  "ForAction actionID =
     (if actionID = ''oathguard-sword-strike''
      then Some (zero_policy\<lparr>pol_HitResource := Resolve, pol_HitGain := 8\<rparr>)
      else if actionID = ''oathguard-fortify''
      then Some (zero_policy\<lparr>pol_CostResource := Resolve, pol_CostAmount := 30\<rparr>)
      else if actionID = ''breaker-heavy-slash''
      then Some (zero_policy\<lparr>pol_HitResource := Momentum, pol_HitGain := 10\<rparr>)
      else if actionID = ''breaker-stagger-strike''
      then Some (zero_policy\<lparr>pol_CostResource := Momentum, pol_CostAmount := 20\<rparr>)
      else if actionID = ''ranger-hunting-shot''
      then Some (zero_policy\<lparr>pol_HitResource := HuntMomentum, pol_HitGain := 8\<rparr>)
      else if actionID = ''ranger-armor-piercing-arrow''
      then Some (zero_policy\<lparr>pol_CostResource := HuntMomentum, pol_CostAmount := 30\<rparr>)
      else if actionID = ''starfire-fire-bolt''
      then Some (zero_policy\<lparr>pol_AcceptedResource := StarHeat, pol_AcceptedGain := 8\<rparr>)
      else if actionID = ''starfire-cold-star-channel''
      then Some (zero_policy\<lparr>pol_AcceptedReductionResource := StarHeat, pol_AcceptedReductionAmount := 45\<rparr>)
      else if actionID = ''oathhealer-oathlight-strike''
      then Some (zero_policy\<lparr>pol_HitProgressResource := OathSeal, pol_HitProgressGain := 20\<rparr>)
      else if actionID = ''shadowblade-dual-blade-strike''
      then Some (zero_policy\<lparr>pol_HitTargetResource := Flaw, pol_HitTargetGain := 1, pol_HitTargetMax := 3,
                             pol_HitTargetICDTenths := 25, pol_RequireSideOrBack := True\<rparr>)
      else if actionID = ''shadowblade-rift-stab''
      then Some (zero_policy\<lparr>pol_HitTargetResource := Flaw, pol_HitTargetGain := 1, pol_HitTargetMax := 3,
                             pol_HitTargetPreserveReadyTick := True, pol_RequireSideOrBack := True\<rparr>)
      else if actionID = ''shadowblade-flaw-execute''
      then Some (zero_policy\<lparr>pol_TargetSpend := \<lparr>sp_ResourceID = Flaw, sp_Tiers = flaw_tiers\<rparr>\<rparr>)
      else None)"

section \<open>Properties\<close>

text \<open>
  An effect is visible exactly in the half-open interval before its deadline, and the
  lazy removal of expired effects is unobservable: whatever effects were read at earlier
  ticks, a read gives the value up to, and not at or after, the deadline.
\<close>

theorem status_half_open:
  assumes "e \<noteq> 0" and "sid \<noteq> ''''" and "v \<noteq> 0" and "\<forall>r \<in> set rs. snd (snd r) \<le> now"
  shows "fst (status_Value e sid now (status_reads rs (status_Apply e sid v until s))) =
    (if now < until then Some v else None)"
  unfolding status_reads_unobservable [OF assms(4)]
  using assms by (simp add: status_Apply_def status_Value_def not_less)

theorem status_half_open_witness:
  "fst (status_Value 7 ''fortify'' 20
     (status_reads [(7, ''fortify'', 10), (7, ''fortify'', 20)] (status_Apply 7 ''fortify'' 30 21 fmempty))) = Some 30"
  using status_half_open [of 7 "''fortify''" 30 "[(7, ''fortify'', 10), (7, ''fortify'', 20)]" 20 21 fmempty]
  by simp

lemma TryGain_gained:
  assumes "tr_ok s" and "tr_TryGain key a m t n s = ((st, True, None), s')"
  shows "unat (tr_Current st) = min (unat m) (unat (tr_Current (gomap_at zero_tr s key)) + unat a)"
    "s' = fmupd key st s" "tr_Max st = m" "tr_ReadyTick st = n" "\<not> tr_badKey key"
proof -
  define state where "state = (if gomap_has s key then gomap_at zero_tr s key
    else zero_tr\<lparr>tr_Key := key, tr_Max := m\<rparr>)"
  define g where "g = (if a > tr_Max state - tr_Current state then tr_Max state - tr_Current state else a)"
  have k: "\<not> tr_badKey key" "a \<noteq> 0" "m \<noteq> 0" "\<not> n < t"
    "\<not> (gomap_has s key \<and> tr_Max (gomap_at zero_tr s key) \<noteq> m)"
    "tr_Current state < tr_Max state" "\<not> t < tr_ReadyTick state"
    and st: "st = state\<lparr>tr_Current := tr_Current state + g, tr_ReadyTick := n\<rparr>" "s' = fmupd key st s"
    using assms(2) by (auto simp: tr_TryGain_def Let_def state_def g_def split: if_splits)
  have mx: "tr_Max state = m" using k(5) by (simp add: state_def)
  have cur: "tr_Current state = tr_Current (gomap_at zero_tr s key)"
    by (simp add: state_def gomap_has_def gomap_at_def zero_tr_def)
  show "unat (tr_Current st) = min (unat m) (unat (tr_Current (gomap_at zero_tr s key)) + unat a)"
    using capped_gain(2) [OF k(6), of a] by (simp add: st(1) g_def mx cur)
  show "s' = fmupd key st s" "tr_Max st = m" "tr_ReadyTick st = n" "\<not> tr_badKey key"
    using st k(1) mx by simp_all
qed

lemma TryGain_cooling:
  assumes "fmlookup s key = Some st" and "t < tr_ReadyTick st"
  shows "\<not> fst (snd (fst (tr_TryGain key a m t n s))) \<and> snd (tr_TryGain key a m t n s) = s"
  using assms by (simp add: tr_TryGain_def Let_def gomap_has_def gomap_at_Some)

lemma Spend_keeps_ready:
  "fmlookup s key = Some st \<Longrightarrow>
     \<exists>st2. fmlookup (snd (tr_Spend key b s)) key = Some st2 \<and> tr_ReadyTick st2 = tr_ReadyTick st"
  by (simp add: tr_Spend_def Let_def gomap_at_Some)

text \<open>
  A gain is capped at the maximum, and it starts a cooldown that nothing shortens: until
  the ready tick every further attempt on that source, target and resource changes nothing,
  also after the resource has been spent down, even to zero.
\<close>

theorem target_resource_cooldown:
  assumes "tr_ok s" and "tr_TryGain key a m t n s = ((st, True, None), s')" and "t' < n"
  shows "unat (tr_Current st) = min (unat m) (unat (tr_Current (gomap_at zero_tr s key)) + unat a) \<and>
    \<not> fst (snd (fst (tr_TryGain key a' m' t' n' s'))) \<and> snd (tr_TryGain key a' m' t' n' s') = s' \<and>
    \<not> fst (snd (fst (tr_TryGain key a' m' t' n' (snd (tr_Spend key b s'))))) \<and>
    snd (tr_TryGain key a' m' t' n' (snd (tr_Spend key b s'))) = snd (tr_Spend key b s')"
proof -
  note g = TryGain_gained [OF assms(1,2)]
  have l: "fmlookup s' key = Some st" and r: "t' < tr_ReadyTick st" using g assms(3) by simp_all
  obtain st2 where "fmlookup (snd (tr_Spend key b s')) key = Some st2" "tr_ReadyTick st2 = tr_ReadyTick st"
    using Spend_keeps_ready [OF l] by blast
  then show ?thesis
    using TryGain_cooling [OF l r] TryGain_cooling [of "snd (tr_Spend key b s')" key st2 t'] g(1) r by simp
qed

definition sample_key :: tr_key where
  "sample_key = \<lparr>trk_SourceEntityID = 1, trk_TargetEntityID = 2, trk_ResourceID = Flaw\<rparr>"

theorem target_resource_cooldown_witness:
  "\<not> fst (snd (fst (tr_TryGain sample_key 1 3 109 160
     (snd (tr_Spend sample_key 1 (snd (tr_TryGain sample_key 1 3 100 150 fmempty)))))))"
proof -
  have k: "\<not> tr_badKey sample_key" by (simp add: tr_badKey_def sample_key_def Flaw_def)
  have "tr_TryGain sample_key 1 3 100 150 fmempty =
      ((zero_tr\<lparr>tr_Key := sample_key, tr_Max := 3, tr_Current := 1, tr_ReadyTick := 150\<rparr>, True, None),
       fmupd sample_key (zero_tr\<lparr>tr_Key := sample_key, tr_Max := 3, tr_Current := 1, tr_ReadyTick := 150\<rparr>) fmempty)"
    using k by (simp add: tr_TryGain_def Let_def zero_tr_def)
  from target_resource_cooldown [OF _ this, of 109 1 3 160 1] show ?thesis
    by (simp add: tr_ok_def tr_TryGain_def Let_def zero_tr_def k)
qed

text \<open>
  Clearing an entity removes exactly the resources it is the source or the target of,
  and reports them in one order, whatever order Go walks the map in, so that the published
  clears are deterministic.
\<close>

theorem target_resource_clear:
  assumes "tr_ok s" and "e \<noteq> 0" and "distinct order" and "set order = fmdom' s"
    and "distinct order'" and "set order' = fmdom' s"
  shows "tr_ClearEntity e order s = tr_ClearEntity e order' s \<and>
    set (fst (tr_ClearEntity e order s)) = {st. \<exists>k. fmlookup s k = Some st \<and> tr_touches e k} \<and>
    fmdom' (snd (tr_ClearEntity e order s)) = {k \<in> fmdom' s. \<not> tr_touches e k}"
proof -
  have "mset order = mset order'" using assms(3-6) by (simp add: set_eq_iff_mset_eq_distinct [symmetric])
  then have "mset (map (gomap_at zero_tr s) (filter (tr_touches e) order)) =
      mset (map (gomap_at zero_tr s) (filter (tr_touches e) order'))"
    by simp
  from sort_key_perm [OF this tr_removed [OF assms(1) _ assms(3)]] assms(4)
  have "sort_key tr_rank (map (gomap_at zero_tr s) (filter (tr_touches e) order)) =
      sort_key tr_rank (map (gomap_at zero_tr s) (filter (tr_touches e) order'))"
    by simp
  then have "tr_ClearEntity e order s = tr_ClearEntity e order' s"
    by (simp add: tr_ClearEntity_def)
  moreover have "set (fst (tr_ClearEntity e order s)) = {st. \<exists>k. fmlookup s k = Some st \<and> tr_touches e k}"
  proof -
    have "set (fst (tr_ClearEntity e order s)) = gomap_at zero_tr s ` {k \<in> fmdom' s. tr_touches e k}"
      using assms(2,4) by (simp add: tr_ClearEntity_def set_filter)
    also have "\<dots> = {st. \<exists>k. fmlookup s k = Some st \<and> tr_touches e k}"
    proof (intro set_eqI iffI)
      fix st assume "st \<in> gomap_at zero_tr s ` {k \<in> fmdom' s. tr_touches e k}"
      then obtain k where "k \<in> fmdom' s" "tr_touches e k" "st = gomap_at zero_tr s k" by blast
      then show "st \<in> {st. \<exists>k. fmlookup s k = Some st \<and> tr_touches e k}"
        by (auto simp: fmlookup_dom'_iff gomap_at_Some)
    next
      fix st assume "st \<in> {st. \<exists>k. fmlookup s k = Some st \<and> tr_touches e k}"
      then obtain k where k: "fmlookup s k = Some st" "tr_touches e k" by blast
      show "st \<in> gomap_at zero_tr s ` {k \<in> fmdom' s. tr_touches e k}"
        by (rule image_eqI [of _ _ k]) (use k in \<open>simp_all add: gomap_at_Some fmlookup_dom'_iff\<close>)
    qed
    finally show ?thesis .
  qed
  moreover have "fmdom' (snd (tr_ClearEntity e order s)) = {k \<in> fmdom' s. \<not> tr_touches e k}"
    using assms(2) by (auto simp: tr_ClearEntity_def fmlookup_dom'_iff)
  ultimately show ?thesis by blast
qed

theorem target_resource_clear_witness:
  "fmdom' (snd (tr_ClearEntity 2 [sample_key] (snd (tr_TryGain sample_key 1 3 100 150 fmempty)))) = {}"
proof -
  have k: "\<not> tr_badKey sample_key" by (simp add: tr_badKey_def sample_key_def Flaw_def)
  define s where "s = snd (tr_TryGain sample_key 1 3 100 150 fmempty)"
  have ok: "tr_ok s" unfolding s_def by (rule tr_TryGain_ok) (simp add: tr_ok_def)
  have dom: "fmdom' s = {sample_key}"
    using k by (simp add: s_def tr_TryGain_def Let_def zero_tr_def)
  from target_resource_clear [OF ok, of 2 "[sample_key]" "[sample_key]"] dom
  have "fmdom' (snd (tr_ClearEntity 2 [sample_key] s)) = {k \<in> {sample_key}. \<not> tr_touches 2 k}" by simp
  then show ?thesis by (auto simp: s_def tr_touches_def sample_key_def)
qed

end
