(* ===== verification/CharacterService.thy ===== *)
theory CharacterService
  imports CharacterStats CombatResources
begin

text \<open>
  The character service (\<open>internal/character\<close>): vitals, action resources and the defeat
  state of every combatant, with the target-resource store it owns. A Go method returns a
  state together with an error; both are modelled, with the service's new state.
\<close>

section \<open>State\<close>

definition DefaultMaxMP :: u32 where [go_defs]: "DefaultMaxMP = 100"

datatype character_error =
  ErrInvalidMaxHP | ErrInvalidMaxMP | ErrInvalidState | ErrCharacterExists | ErrCharacterNotFound |
  ErrCharacterDefeated | ErrInsufficientResource | ErrResourceFull | ErrCharacterNotDefeated |
  ErrInvalidRevivePercent | ErrResourceMismatch | FromTarget tr_error

record char_state =
  ch_EntityID :: entity_id
  ch_HP :: u32
  ch_MaxHP :: u32
  ch_MP :: u32
  ch_MaxMP :: u32
  ch_PrimaryStats :: primary
  ch_ActionResourceID :: string
  ch_ActionResourceCurrent :: u32
  ch_MaxActionResource :: u32
  ch_ActionResourceProgress :: u32
  ch_Defeated :: bool

record char_service =
  svc_defaultMaxHP :: u32
  svc_defaultMaxMP :: u32
  svc_states :: "(entity_id, char_state) fmap"
  svc_targetResources :: tr_store

definition zeroPrimary :: primary where
  "zeroPrimary = \<lparr>pr_Strength = 0, pr_Agility = 0, pr_Constitution = 0, pr_Intelligence = 0,
     pr_Spirit = 0, pr_Charisma = 0\<rparr>"

definition zeroState :: char_state where
  "zeroState = \<lparr>ch_EntityID = 0, ch_HP = 0, ch_MaxHP = 0, ch_MP = 0, ch_MaxMP = 0,
     ch_PrimaryStats = zeroPrimary, ch_ActionResourceID = '''', ch_ActionResourceCurrent = 0,
     ch_MaxActionResource = 0, ch_ActionResourceProgress = 0, ch_Defeated = False\<rparr>"

type_synonym 'a char_op = "char_service \<Rightarrow> ('a \<times> character_error option) \<times> char_service"

section \<open>Registration\<close>

definition NewServiceWithResources :: "u32 \<Rightarrow> u32 \<Rightarrow> character_error + char_service" where
  "NewServiceWithResources defaultMaxHP defaultMaxMP =
     (if defaultMaxHP = 0 then Inl ErrInvalidMaxHP
      else if defaultMaxMP = 0 then Inl ErrInvalidMaxMP
      else Inr \<lparr>svc_defaultMaxHP = defaultMaxHP, svc_defaultMaxMP = defaultMaxMP,
                svc_states = fmempty, svc_targetResources = fmempty\<rparr>)"

definition NewService :: "u32 \<Rightarrow> character_error + char_service" where
  "NewService defaultMaxHP = NewServiceWithResources defaultMaxHP DefaultMaxMP"

definition normalizeActionResourceState :: "char_state \<Rightarrow> character_error + char_state" where
  "normalizeActionResourceState state =
     (if ch_ActionResourceID state = '''' then Inr state
      else case DefinitionForID (ch_ActionResourceID state) of
             None \<Rightarrow> Inl ErrInvalidState
           | Some definition \<Rightarrow>
               if ch_MaxActionResource state = 0 then
                 (if ch_ActionResourceCurrent state \<noteq> 0 \<or> ch_ActionResourceProgress state \<noteq> 0
                  then Inl ErrInvalidState
                  else Inr (state\<lparr>ch_MaxActionResource := ar_Max definition\<rparr>))
               else Inr state)"

definition validateState :: "char_state \<Rightarrow> character_error option" where
  "validateState state =
     (if ch_MaxHP state = 0 \<or> ch_HP state > ch_MaxHP state \<or> ch_MaxMP state = 0 \<or>
         ch_MP state > ch_MaxMP state
      then Some ErrInvalidState
      else if ValidateBase (ch_PrimaryStats state) \<noteq> None then Some ErrInvalidState
      else if ch_ActionResourceCurrent state > ch_MaxActionResource state then Some ErrInvalidState
      else if (if ch_ActionResourceID state = '''' then
                 ch_ActionResourceCurrent state \<noteq> 0 \<or> ch_MaxActionResource state \<noteq> 0 \<or>
                 ch_ActionResourceProgress state \<noteq> 0
               else case DefinitionForID (ch_ActionResourceID state) of
                      None \<Rightarrow> True
                    | Some definition \<Rightarrow>
                        ch_MaxActionResource state \<noteq> ar_Max definition \<or>
                        (ch_ActionResourceProgress state > 0 \<and>
                         (ar_ProgressThreshold definition = 0 \<or>
                          ch_ActionResourceProgress state \<ge> ar_ProgressThreshold definition \<or>
                          ch_ActionResourceCurrent state \<ge> ch_MaxActionResource state)))
      then Some ErrInvalidState
      else if ch_Defeated state then (if ch_HP state \<noteq> 0 then Some ErrInvalidState else None)
      else if ch_HP state = 0 then Some ErrInvalidState
      else None)"

definition RegisterState :: "char_state \<Rightarrow> char_service \<Rightarrow> character_error option \<times> char_service" where
  "RegisterState raw s =
     (if ch_EntityID raw = 0 then (Some ErrCharacterNotFound, s)
      else if gomap_has (svc_states s) (ch_EntityID raw) then (Some ErrCharacterExists, s)
      else let st1 = (if ch_MP raw = 0 \<and> ch_MaxMP raw = 0
                      then raw\<lparr>ch_MP := svc_defaultMaxMP s, ch_MaxMP := svc_defaultMaxMP s\<rparr> else raw);
               st2 = (if ch_PrimaryStats st1 = zeroPrimary
                      then st1\<lparr>ch_PrimaryStats := DefaultPrimary\<rparr> else st1)
           in case normalizeActionResourceState st2 of
                Inl e \<Rightarrow> (Some e, s)
              | Inr st3 \<Rightarrow>
                  (case validateState st3 of
                     Some e \<Rightarrow> (Some e, s)
                   | None \<Rightarrow> (None, s\<lparr>svc_states := fmupd (ch_EntityID st3) st3 (svc_states s)\<rparr>)))"

definition char_Register :: "entity_id \<Rightarrow> char_service \<Rightarrow> character_error option \<times> char_service" where
  "char_Register i s =
     RegisterState (zeroState\<lparr>ch_EntityID := i, ch_HP := svc_defaultMaxHP s,
       ch_MaxHP := svc_defaultMaxHP s, ch_MP := svc_defaultMaxMP s, ch_MaxMP := svc_defaultMaxMP s,
       ch_PrimaryStats := DefaultPrimary\<rparr>) s"

definition char_Remove :: "entity_id \<Rightarrow> tr_key list \<Rightarrow> char_service \<Rightarrow> char_service" where
  "char_Remove i order s =
     s\<lparr>svc_states := fmdrop i (svc_states s),
       svc_targetResources := snd (tr_ClearEntity i order (svc_targetResources s))\<rparr>"

definition char_State :: "char_service \<Rightarrow> entity_id \<Rightarrow> char_state option" where
  "char_State s i = fmlookup (svc_states s) i"

definition char_States :: "char_service \<Rightarrow> char_state list" where
  "char_States s = map (\<lambda>i. the (fmlookup (svc_states s) i)) (gomap_keys (svc_states s))"

section \<open>Operations on one living character\<close>

text \<open>
  The common opening of the mutating methods: the character must exist and must not be
  defeated; the body then answers, and may store a new state.
\<close>

definition on_living ::
  "entity_id \<Rightarrow> (char_state \<Rightarrow> (char_state \<times> character_error option) \<times> char_state option) \<Rightarrow> char_state char_op"
  where
  "on_living i body s =
     (case fmlookup (svc_states s) i of
        None \<Rightarrow> ((zeroState, Some ErrCharacterNotFound), s)
      | Some state \<Rightarrow>
          if ch_Defeated state then ((state, Some ErrCharacterDefeated), s)
          else case body state of
                 (r, None) \<Rightarrow> (r, s)
               | (r, Some state') \<Rightarrow> (r, s\<lparr>svc_states := fmupd i state' (svc_states s)\<rparr>))"

definition store_state :: "char_state \<Rightarrow> (char_state \<times> character_error option) \<times> char_state option" where
  "store_state state' = ((state', None), Some state')"

definition damaged :: "u32 \<Rightarrow> char_state \<Rightarrow> char_state" where
  "damaged amount state =
     (if amount \<ge> ch_HP state then state\<lparr>ch_HP := 0, ch_Defeated := True\<rparr>
      else state\<lparr>ch_HP := ch_HP state - amount\<rparr>)"

definition ApplyDamage :: "entity_id \<Rightarrow> u32 \<Rightarrow> char_state char_op" where
  "ApplyDamage i amount = on_living i (\<lambda>state. store_state (damaged amount state))"

definition ReduceHP :: "entity_id \<Rightarrow> u32 \<Rightarrow> char_state char_op" where
  "ReduceHP i amount = on_living i (\<lambda>state. store_state (damaged amount state))"

definition RestoreAliveFull :: "entity_id \<Rightarrow> char_state char_op" where
  "RestoreAliveFull i =
     on_living i (\<lambda>state. store_state (state\<lparr>ch_HP := ch_MaxHP state, ch_MP := ch_MaxMP state\<rparr>))"

definition SpendMP :: "entity_id \<Rightarrow> u32 \<Rightarrow> char_state char_op" where
  "SpendMP i amount =
     on_living i (\<lambda>state.
       if amount = 0 then ((state, None), None)
       else if ch_MP state < amount then ((state, Some ErrInsufficientResource), None)
       else store_state (state\<lparr>ch_MP := ch_MP state - amount\<rparr>))"

definition capped :: "u32 \<Rightarrow> u32 \<Rightarrow> u32 \<Rightarrow> u32" where
  "capped current maxi amount =
     (let missing = maxi - current in current + (if amount > missing then missing else amount))"

definition RestoreHP :: "entity_id \<Rightarrow> u32 \<Rightarrow> char_state char_op" where
  "RestoreHP i amount =
     on_living i (\<lambda>state.
       if ch_HP state \<ge> ch_MaxHP state then ((state, Some ErrResourceFull), None)
       else store_state (state\<lparr>ch_HP := capped (ch_HP state) (ch_MaxHP state) amount\<rparr>))"

definition RestoreMP :: "entity_id \<Rightarrow> u32 \<Rightarrow> char_state char_op" where
  "RestoreMP i amount =
     on_living i (\<lambda>state.
       if ch_MP state \<ge> ch_MaxMP state then ((state, Some ErrResourceFull), None)
       else store_state (state\<lparr>ch_MP := capped (ch_MP state) (ch_MaxMP state) amount\<rparr>))"

definition resource_mismatch :: "string \<Rightarrow> char_state \<Rightarrow> bool" where
  "resource_mismatch resourceID state =
     (resourceID = '''' \<or> ch_ActionResourceID state \<noteq> resourceID \<or> ch_MaxActionResource state = 0)"

definition GainActionResource :: "entity_id \<Rightarrow> string \<Rightarrow> u32 \<Rightarrow> char_state char_op" where
  "GainActionResource i resourceID amount =
     on_living i (\<lambda>state.
       if resource_mismatch resourceID state then ((state, Some ErrResourceMismatch), None)
       else if amount = 0 \<or> ch_ActionResourceCurrent state \<ge> ch_MaxActionResource state
       then ((state, None), None)
       else store_state (state\<lparr>ch_ActionResourceCurrent :=
              capped (ch_ActionResourceCurrent state) (ch_MaxActionResource state) amount\<rparr>))"

definition SpendActionResource :: "entity_id \<Rightarrow> string \<Rightarrow> u32 \<Rightarrow> char_state char_op" where
  "SpendActionResource i resourceID amount =
     on_living i (\<lambda>state.
       if resource_mismatch resourceID state then ((state, Some ErrResourceMismatch), None)
       else if amount = 0 then ((state, None), None)
       else if ch_ActionResourceCurrent state < amount then ((state, Some ErrInsufficientResource), None)
       else store_state (state\<lparr>ch_ActionResourceCurrent := ch_ActionResourceCurrent state - amount\<rparr>))"

text \<open>The progress arithmetic, in 64 bits as the source does it, with the change flag.\<close>

definition progressed :: "u32 \<Rightarrow> u32 \<Rightarrow> char_state \<Rightarrow> char_state \<times> bool" where
  "progressed threshold amount state =
     (let totalProgress = (ucast (ch_ActionResourceProgress state) :: u64) + ucast amount;
          gained = ucast (totalProgress div ucast threshold) :: u32;
          st1 = state\<lparr>ch_ActionResourceProgress := ucast (totalProgress mod ucast threshold)\<rparr>;
          missing = ch_MaxActionResource state - ch_ActionResourceCurrent state
      in if gained > 0
         then (if gained \<ge> missing
               then (st1\<lparr>ch_ActionResourceCurrent := ch_MaxActionResource state,
                         ch_ActionResourceProgress := 0\<rparr>, True)
               else (st1\<lparr>ch_ActionResourceCurrent := ch_ActionResourceCurrent state + gained\<rparr>, True))
         else (st1, False))"

definition GainActionResourceProgress :: "entity_id \<Rightarrow> string \<Rightarrow> u32 \<Rightarrow> (char_state \<times> bool) char_op" where
  "GainActionResourceProgress i resourceID amount s =
     (case fmlookup (svc_states s) i of
        None \<Rightarrow> (((zeroState, False), Some ErrCharacterNotFound), s)
      | Some state \<Rightarrow>
          if ch_Defeated state then (((state, False), Some ErrCharacterDefeated), s)
          else case DefinitionForID (ch_ActionResourceID state) of
                 None \<Rightarrow> (((state, False), Some ErrResourceMismatch), s)
               | Some definition \<Rightarrow>
                   if resourceID = '''' \<or> ch_ActionResourceID state \<noteq> resourceID \<or>
                      ar_ID definition \<noteq> resourceID \<or> ar_Max definition \<noteq> ch_MaxActionResource state \<or>
                      ar_ProgressThreshold definition = 0
                   then (((state, False), Some ErrResourceMismatch), s)
                   else if amount = 0 \<or> ch_ActionResourceCurrent state \<ge> ch_MaxActionResource state
                   then (((state, False), None), s)
                   else (case progressed (ar_ProgressThreshold definition) amount state of
                           (state', visibleChanged) \<Rightarrow>
                             (((state', visibleChanged), None),
                              s\<lparr>svc_states := fmupd i state' (svc_states s)\<rparr>)))"

text \<open>Revival answers with a rounded-up share of the maximum.\<close>

definition RevivePercent :: "entity_id \<Rightarrow> u8 \<Rightarrow> char_state char_op" where
  "RevivePercent i percent s =
     (case fmlookup (svc_states s) i of
        None \<Rightarrow> ((zeroState, Some ErrCharacterNotFound), s)
      | Some state \<Rightarrow>
          if percent = 0 \<or> percent > 100 then ((state, Some ErrInvalidRevivePercent), s)
          else if \<not> ch_Defeated state then ((state, Some ErrCharacterNotDefeated), s)
          else let hp0 = ((ucast (ch_MaxHP state) :: u64) * ucast percent + 99) div 100;
                   hp1 = (if hp0 = 0 then 1 else hp0);
                   hp = (if hp1 > ucast (ch_MaxHP state) then ucast (ch_MaxHP state) else hp1);
                   state' = state\<lparr>ch_HP := ucast hp, ch_Defeated := False\<rparr>
               in ((state', None), s\<lparr>svc_states := fmupd i state' (svc_states s)\<rparr>))"

definition ReviveFull :: "entity_id \<Rightarrow> char_state char_op" where
  "ReviveFull i = RevivePercent i 100"

section \<open>Target resources of a living source\<close>

definition source_ready :: "entity_id \<Rightarrow> char_service \<Rightarrow> character_error option" where
  "source_ready i s =
     (case fmlookup (svc_states s) i of
        None \<Rightarrow> Some ErrCharacterNotFound
      | Some source \<Rightarrow> if ch_Defeated source then Some ErrCharacterDefeated else None)"

definition with_tr ::
  "('a \<times> tr_error option) \<times> tr_store \<Rightarrow> char_service \<Rightarrow> ('a \<times> character_error option) \<times> char_service" where
  "with_tr r s =
     (case r of ((a, e), t) \<Rightarrow> ((a, map_option FromTarget e), s\<lparr>svc_targetResources := t\<rparr>))"

definition GainTargetResource ::
  "entity_id \<Rightarrow> entity_id \<Rightarrow> string \<Rightarrow> u32 \<Rightarrow> u32 \<Rightarrow> u64 \<Rightarrow> u64 \<Rightarrow> (tr_state \<times> bool) char_op" where
  "GainTargetResource sourceID targetID resourceID amount maxi tick nextReadyTick s =
     (case source_ready sourceID s of
        Some e \<Rightarrow> (((zero_tr, False), Some e), s)
      | None \<Rightarrow>
          (case tr_TryGain \<lparr>trk_SourceEntityID = sourceID, trk_TargetEntityID = targetID,
                   trk_ResourceID = resourceID\<rparr> amount maxi tick nextReadyTick (svc_targetResources s) of
             ((st, b, e), t) \<Rightarrow> with_tr (((st, b), e), t) s))"

definition GainTargetResourcePreservingReadyTick ::
  "entity_id \<Rightarrow> entity_id \<Rightarrow> string \<Rightarrow> u32 \<Rightarrow> u32 \<Rightarrow> (tr_state \<times> bool) char_op" where
  "GainTargetResourcePreservingReadyTick sourceID targetID resourceID amount maxi s =
     (case source_ready sourceID s of
        Some e \<Rightarrow> (((zero_tr, False), Some e), s)
      | None \<Rightarrow>
          (case tr_GainPreservingReadyTick \<lparr>trk_SourceEntityID = sourceID,
                   trk_TargetEntityID = targetID, trk_ResourceID = resourceID\<rparr> amount maxi
                   (svc_targetResources s) of
             ((st, b, e), t) \<Rightarrow> with_tr (((st, b), e), t) s))"

definition SpendTargetResource ::
  "entity_id \<Rightarrow> entity_id \<Rightarrow> string \<Rightarrow> u32 \<Rightarrow> tr_state char_op" where
  "SpendTargetResource sourceID targetID resourceID amount s =
     (case source_ready sourceID s of
        Some e \<Rightarrow> ((zero_tr, Some e), s)
      | None \<Rightarrow>
          (case tr_Spend \<lparr>trk_SourceEntityID = sourceID, trk_TargetEntityID = targetID,
                   trk_ResourceID = resourceID\<rparr> amount (svc_targetResources s) of
             ((st, e), t) \<Rightarrow>
               ((st, case e of None \<Rightarrow> None
                     | Some tr_error.ErrInsufficientResource \<Rightarrow> Some ErrInsufficientResource
                     | Some e' \<Rightarrow> Some (FromTarget e')), s\<lparr>svc_targetResources := t\<rparr>)))"

definition TargetResourceState :: "entity_id \<Rightarrow> entity_id \<Rightarrow> string \<Rightarrow> char_service \<Rightarrow> tr_state option" where
  "TargetResourceState sourceID targetID resourceID s =
     tr_State (svc_targetResources s) \<lparr>trk_SourceEntityID = sourceID, trk_TargetEntityID = targetID,
       trk_ResourceID = resourceID\<rparr>"

definition ClearTargetResourcesForEntity ::
  "entity_id \<Rightarrow> tr_key list \<Rightarrow> char_service \<Rightarrow> tr_state list \<times> char_service" where
  "ClearTargetResourcesForEntity e order s =
     (case tr_ClearEntity e order (svc_targetResources s) of
        (removed, t) \<Rightarrow> (removed, s\<lparr>svc_targetResources := t\<rparr>))"

section \<open>The service as a machine\<close>

datatype char_command =
  CRegister entity_id | CRegisterState char_state | CRemove entity_id "tr_key list" |
  CDamage entity_id u32 | CReduce entity_id u32 | CRestoreFull entity_id | CSpendMP entity_id u32 |
  CRestoreHP entity_id u32 | CRestoreMP entity_id u32 | CGain entity_id string u32 |
  CSpend entity_id string u32 | CProgress entity_id string u32 | CRevive entity_id u8 |
  CTargetGain entity_id entity_id string u32 u32 u64 u64 |
  CTargetGainPreserving entity_id entity_id string u32 u32 |
  CTargetSpend entity_id entity_id string u32 | CTargetClear entity_id "tr_key list"

fun char_step :: "char_command \<Rightarrow> char_service \<Rightarrow> character_error option \<times> char_service" where
  "char_step (CRegister i) s = char_Register i s"
| "char_step (CRegisterState st) s = RegisterState st s"
| "char_step (CRemove i order) s = (None, char_Remove i order s)"
| "char_step (CDamage i a) s = apfst snd (ApplyDamage i a s)"
| "char_step (CReduce i a) s = apfst snd (ReduceHP i a s)"
| "char_step (CRestoreFull i) s = apfst snd (RestoreAliveFull i s)"
| "char_step (CSpendMP i a) s = apfst snd (SpendMP i a s)"
| "char_step (CRestoreHP i a) s = apfst snd (RestoreHP i a s)"
| "char_step (CRestoreMP i a) s = apfst snd (RestoreMP i a s)"
| "char_step (CGain i r a) s = apfst snd (GainActionResource i r a s)"
| "char_step (CSpend i r a) s = apfst snd (SpendActionResource i r a s)"
| "char_step (CProgress i r a) s = apfst snd (GainActionResourceProgress i r a s)"
| "char_step (CRevive i p) s = apfst snd (RevivePercent i p s)"
| "char_step (CTargetGain a b r n m t u) s = apfst snd (GainTargetResource a b r n m t u s)"
| "char_step (CTargetGainPreserving a b r n m) s = apfst snd (GainTargetResourcePreservingReadyTick a b r n m s)"
| "char_step (CTargetSpend a b r n) s = apfst snd (SpendTargetResource a b r n s)"
| "char_step (CTargetClear e order) s = (None, snd (ClearTargetResourcesForEntity e order s))"

section \<open>Validity\<close>

text \<open>What \<open>validateState\<close> says, in two parts: the vitals and the action resource.\<close>

definition vitals_ok :: "char_state \<Rightarrow> bool" where
  "vitals_ok st =
     (ch_MaxHP st \<noteq> 0 \<and> ch_HP st \<le> ch_MaxHP st \<and> ch_MaxMP st \<noteq> 0 \<and> ch_MP st \<le> ch_MaxMP st \<and>
      ValidateBase (ch_PrimaryStats st) = None \<and> (ch_Defeated st \<longleftrightarrow> ch_HP st = 0))"

definition resource_ok :: "char_state \<Rightarrow> bool" where
  "resource_ok st =
     (ch_ActionResourceCurrent st \<le> ch_MaxActionResource st \<and>
      (if ch_ActionResourceID st = '''' then
         ch_ActionResourceCurrent st = 0 \<and> ch_MaxActionResource st = 0 \<and> ch_ActionResourceProgress st = 0
       else case DefinitionForID (ch_ActionResourceID st) of
              None \<Rightarrow> False
            | Some d \<Rightarrow> ch_MaxActionResource st = ar_Max d \<and>
                (ch_ActionResourceProgress st \<noteq> 0 \<longrightarrow>
                   ch_ActionResourceProgress st < ar_ProgressThreshold d \<and>
                   ch_ActionResourceCurrent st < ch_MaxActionResource st)))"

lemma validateState_None: "validateState st = None \<longleftrightarrow> vitals_ok st \<and> resource_ok st"
proof -
  have pos: "ch_ActionResourceProgress st > 0 \<longleftrightarrow> ch_ActionResourceProgress st \<noteq> 0"
    by (simp add: word_neq_0_conv)
  show ?thesis
    by (cases "DefinitionForID (ch_ActionResourceID st)")
      (auto simp: validateState_def vitals_ok_def resource_ok_def pos not_le not_less)
qed

definition char_inv :: "char_service \<Rightarrow> bool" where
  "char_inv s =
     ((\<forall>i st. fmlookup (svc_states s) i = Some st \<longrightarrow>
         ch_EntityID st = i \<and> i \<noteq> 0 \<and> vitals_ok st \<and> resource_ok st) \<and>
      tr_ok (svc_targetResources s))"

lemma resource_ok_vitals [simp]:
  "resource_ok (st\<lparr>ch_HP := h\<rparr>) = resource_ok st"
  "resource_ok (st\<lparr>ch_MP := m\<rparr>) = resource_ok st"
  "resource_ok (st\<lparr>ch_Defeated := d\<rparr>) = resource_ok st"
  by (cases "DefinitionForID (ch_ActionResourceID st)", simp_all add: resource_ok_def)+

lemma vitals_ok_resource [simp]:
  "vitals_ok (st\<lparr>ch_ActionResourceCurrent := c\<rparr>) = vitals_ok st"
  "vitals_ok (st\<lparr>ch_ActionResourceProgress := p\<rparr>) = vitals_ok st"
  by (simp_all add: vitals_ok_def)

lemma on_living_inv:
  assumes "char_inv s"
    and "\<And>st r st'. fmlookup (svc_states s) i = Some st \<Longrightarrow> \<not> ch_Defeated st \<Longrightarrow> vitals_ok st \<Longrightarrow>
      resource_ok st \<Longrightarrow> body st = (r, Some st') \<Longrightarrow>
      ch_EntityID st' = ch_EntityID st \<and> vitals_ok st' \<and> resource_ok st'"
  shows "char_inv (snd (on_living i body s))"
proof (cases "fmlookup (svc_states s) i")
  case None
  with assms(1) show ?thesis by (simp add: on_living_def)
next
  case (Some st)
  with assms(1) have st: "ch_EntityID st = i" "i \<noteq> 0" "vitals_ok st" "resource_ok st"
    by (auto simp: char_inv_def)
  show ?thesis
  proof (cases "ch_Defeated st")
    case True
    with Some assms(1) show ?thesis by (simp add: on_living_def)
  next
    case False
    obtain r o' where b: "body st = (r, o')" by (cases "body st")
    show ?thesis
    proof (cases o')
      case None
      with Some False b assms(1) show ?thesis by (simp add: on_living_def)
    next
      case (Some st')
      with assms(2) [OF \<open>fmlookup (svc_states s) i = Some st\<close> False st(3,4)] b
      have "ch_EntityID st' = i" "vitals_ok st'" "resource_ok st'" by (simp_all add: st(1))
      with Some \<open>fmlookup (svc_states s) i = Some st\<close> False b assms(1) st(2) show ?thesis
        by (auto simp: on_living_def char_inv_def)
    qed
  qed
qed

lemma capped_le: "c < m \<Longrightarrow> capped c m a \<le> m" "c < m \<Longrightarrow> unat (capped c m a) = min (unat m) (unat c + unat a)"
  using capped_gain [of c m a] by (simp_all add: capped_def Let_def)

lemma damaged_ok:
  "vitals_ok st \<Longrightarrow> resource_ok st \<Longrightarrow> \<not> ch_Defeated st \<Longrightarrow>
     vitals_ok (damaged a st) \<and> resource_ok (damaged a st) \<and> ch_EntityID (damaged a st) = ch_EntityID st"
proof -
  assume v: "vitals_ok st" and r: "resource_ok st" and d: "\<not> ch_Defeated st"
  have "ch_HP st - a \<le> ch_MaxHP st \<and> ch_HP st - a \<noteq> 0" if "\<not> ch_HP st \<le> a"
  proof -
    have "a \<le> ch_HP st" "a \<noteq> ch_HP st" using that by auto
    then show ?thesis using v sub_le [of a "ch_HP st" "ch_MaxHP st"] by (simp add: vitals_ok_def)
  qed
  with v r d show ?thesis
    by (auto simp: damaged_def vitals_ok_def)
qed

lemma vitals_restored:
  assumes "vitals_ok st" and "\<not> ch_Defeated st"
  shows "vitals_ok (st\<lparr>ch_HP := ch_MaxHP st, ch_MP := ch_MaxMP st\<rparr>)"
    "ch_MP st \<ge> a \<Longrightarrow> vitals_ok (st\<lparr>ch_MP := ch_MP st - a\<rparr>)"
    "ch_HP st < ch_MaxHP st \<Longrightarrow> vitals_ok (st\<lparr>ch_HP := capped (ch_HP st) (ch_MaxHP st) a\<rparr>)"
    "ch_MP st < ch_MaxMP st \<Longrightarrow> vitals_ok (st\<lparr>ch_MP := capped (ch_MP st) (ch_MaxMP st) a\<rparr>)"
proof -
  show "vitals_ok (st\<lparr>ch_HP := ch_MaxHP st, ch_MP := ch_MaxMP st\<rparr>)"
    using assms by (simp add: vitals_ok_def)
  show "vitals_ok (st\<lparr>ch_MP := ch_MP st - a\<rparr>)" if "ch_MP st \<ge> a"
    using assms that sub_le [of a "ch_MP st" "ch_MaxMP st"] by (simp add: vitals_ok_def)
  show "vitals_ok (st\<lparr>ch_HP := capped (ch_HP st) (ch_MaxHP st) a\<rparr>)" if h: "ch_HP st < ch_MaxHP st"
  proof -
    have "unat (capped (ch_HP st) (ch_MaxHP st) a) \<noteq> 0"
      using assms h by (simp add: capped_le(2) vitals_ok_def unat_gt_0_word word_less_nat_alt min_def)
    then have "capped (ch_HP st) (ch_MaxHP st) a \<noteq> 0" by (metis unat_0)
    then show ?thesis using assms capped_le(1) [OF h, of a] by (simp add: vitals_ok_def)
  qed
  show "vitals_ok (st\<lparr>ch_MP := capped (ch_MP st) (ch_MaxMP st) a\<rparr>)" if "ch_MP st < ch_MaxMP st"
    using assms capped_le(1) [OF that] by (simp add: vitals_ok_def)
qed

lemma resource_spent:
  "resource_ok st \<Longrightarrow> a \<le> ch_ActionResourceCurrent st \<Longrightarrow>
     resource_ok (st\<lparr>ch_ActionResourceCurrent := ch_ActionResourceCurrent st - a\<rparr>)"
proof -
  assume r: "resource_ok st" and a: "a \<le> ch_ActionResourceCurrent st"
  have le: "ch_ActionResourceCurrent st - a \<le> ch_ActionResourceCurrent st"
    using a by (simp add: word_le_nat_alt unat_minus_le)
  then have "ch_ActionResourceCurrent st < ch_MaxActionResource st \<Longrightarrow>
      ch_ActionResourceCurrent st - a < ch_MaxActionResource st" by (rule le_less_trans)
  with r a le order_trans [OF le] show ?thesis
    by (auto simp: resource_ok_def split: option.splits if_splits)
qed

lemma DefinitionForID_cases:
  "DefinitionForID i = Some d \<Longrightarrow>
     ar_ID d = i \<and> i \<noteq> '''' \<and> (if i = OathSeal then ar_Max d = 3 \<and> ar_ProgressThreshold d = 100
       else ar_Max d = 100 \<and> ar_ProgressThreshold d = 0)"
  by (auto simp: DefinitionForID_def go_defs split: if_splits)

lemma resource_gained:
  assumes "resource_ok st" and "ch_ActionResourceCurrent st < ch_MaxActionResource st"
    and "ch_ActionResourceID st \<noteq> OathSeal"
  shows "resource_ok (st\<lparr>ch_ActionResourceCurrent :=
     capped (ch_ActionResourceCurrent st) (ch_MaxActionResource st) a\<rparr>)"
proof -
  have "ch_ActionResourceProgress st = 0" and "ch_ActionResourceID st \<noteq> ''''"
    using assms by (auto simp: resource_ok_def dest: DefinitionForID_cases split: option.splits if_splits)
  with assms(1) capped_le(1) [OF assms(2), of a] show ?thesis
    by (simp add: resource_ok_def split: option.splits)
qed

section \<open>Progress\<close>

text \<open>The 64-bit sum of two 32-bit values splits into quotient and remainder without loss.\<close>

lemma progressed_nat:
  fixes p a t :: u32
  assumes "t \<noteq> 0"
  shows "unat (ucast (((ucast p :: u64) + ucast a) mod ucast t) :: u32) = (unat p + unat a) mod unat t"
    "2 \<le> t \<Longrightarrow> unat (ucast (((ucast p :: u64) + ucast a) div ucast t) :: u32) = (unat p + unat a) div unat t"
proof -
  have t: "0 < unat t" using assms by (simp add: unat_gt_0)
  have "(unat p + unat a) mod unat t < 2 ^ 32"
    using mod_less_divisor [OF t, of "unat p + unat a"] u32_bound [of t] by linarith
  then show "unat (ucast (((ucast p :: u64) + ucast a) mod ucast t) :: u32) = (unat p + unat a) mod unat t"
    by (simp add: unsigned_ucast_eq unat_mod unat_plus_32_64 take_bit_nat_eq_self_iff)
  show "unat (ucast (((ucast p :: u64) + ucast a) div ucast t) :: u32) = (unat p + unat a) div unat t"
    if "2 \<le> t"
  proof -
    have "2 \<le> unat t" using that by (simp add: word_le_nat_alt)
    then have "(unat p + unat a) div unat t \<le> (unat p + unat a) div 2" by (rule div_le_mono2 [rotated]) simp
    also have "\<dots> < 2 ^ 32" using u32_bound [of p] u32_bound [of a] by simp
    finally show ?thesis
      by (simp add: unsigned_ucast_eq unat_div unat_plus_32_64 take_bit_nat_eq_self_iff)
  qed
qed

text \<open>
  One addition of progress, counted in progress units: \<open>current * threshold + progress\<close>
  grows by the amount, and saturates when the resource fills up.
\<close>

definition progress_units :: "u32 \<Rightarrow> char_state \<Rightarrow> nat" where
  "progress_units t st = unat (ch_ActionResourceCurrent st) * unat t + unat (ch_ActionResourceProgress st)"

lemma progressed_units:
  assumes "2 \<le> t" and "ch_ActionResourceCurrent st < ch_MaxActionResource st"
  shows "progress_units t (fst (progressed t a st)) =
      min (unat (ch_MaxActionResource st) * unat t) (progress_units t st + unat a)"
    "snd (progressed t a st) \<longleftrightarrow>
      ch_ActionResourceCurrent (fst (progressed t a st)) \<noteq> ch_ActionResourceCurrent st"
    "unat (ch_ActionResourceProgress (fst (progressed t a st))) < unat t"
    "ch_ActionResourceCurrent (fst (progressed t a st)) \<le> ch_MaxActionResource st"
    "ch_ActionResourceProgress (fst (progressed t a st)) \<noteq> 0 \<Longrightarrow>
      ch_ActionResourceCurrent (fst (progressed t a st)) < ch_MaxActionResource st"
proof -
  define c m p q r where c: "c = unat (ch_ActionResourceCurrent st)"
    and m: "m = unat (ch_MaxActionResource st)" and p: "p = unat (ch_ActionResourceProgress st) + unat a"
    and q: "q = p div unat t" and r: "r = p mod unat t"
  define g where g: "g = (ucast (((ucast (ch_ActionResourceProgress st) :: u64) + ucast a) div ucast t) :: u32)"
  define pr where pr: "pr = (ucast (((ucast (ch_ActionResourceProgress st) :: u64) + ucast a) mod ucast t) :: u32)"
  have t2: "2 \<le> unat t" using assms(1) by (simp add: word_le_nat_alt)
  then have t0: "t \<noteq> 0" by auto
  have gq: "unat g = q" and prr: "unat pr = r"
    using progressed_nat [OF t0, of "ch_ActionResourceProgress st" a] assms(1) by (simp_all add: g pr q r p)
  have cm: "c < m" using assms(2) by (simp add: c m word_less_nat_alt)
  have mb: "m < 2 ^ 32" using u32_bound [of "ch_MaxActionResource st"] by (simp add: m)
  have rt: "r < unat t" using t2 by (simp add: r)
  have qr: "q * unat t + r = p" by (simp add: q r)
  have miss: "unat (ch_MaxActionResource st - ch_ActionResourceCurrent st) = m - c"
    using assms(2) by (simp add: unat_minus_le c m)
  have g0: "g > 0 \<longleftrightarrow> 0 < q" by (simp add: gq [symmetric] word_less_nat_alt)
  have gm: "g \<ge> ch_MaxActionResource st - ch_ActionResourceCurrent st \<longleftrightarrow> m - c \<le> q"
    by (simp add: word_le_nat_alt miss gq)
  have sum: "unat (ch_ActionResourceCurrent st + g) = c + q" if "\<not> m - c \<le> q"
    using that mb cm by (simp add: unat_word_ariths gq c [symmetric])
  have cases: "q = 0 \<and> fst (progressed t a st) = st\<lparr>ch_ActionResourceProgress := pr\<rparr> \<and> \<not> snd (progressed t a st) \<or>
      m - c \<le> q \<and> q \<noteq> 0 \<and> fst (progressed t a st) = st\<lparr>ch_ActionResourceProgress := 0,
        ch_ActionResourceCurrent := ch_MaxActionResource st\<rparr> \<and> snd (progressed t a st) \<or>
      0 < q \<and> \<not> m - c \<le> q \<and> fst (progressed t a st) = st\<lparr>ch_ActionResourceProgress := pr,
        ch_ActionResourceCurrent := ch_ActionResourceCurrent st + g\<rparr> \<and> snd (progressed t a st)"
    unfolding progressed_def Let_def g [symmetric] pr [symmetric] using g0 gm by auto
  have full: "m * unat t \<le> c * unat t + p" if "m - c \<le> q"
  proof -
    have "m * unat t \<le> (c + q) * unat t" using that by (intro mult_le_mono1) simp
    also have "\<dots> \<le> c * unat t + p" using qr by (simp add: algebra_simps)
    finally show ?thesis .
  qed
  have room: "c * unat t + p < m * unat t" if "\<not> m - c \<le> q"
  proof -
    have "c * unat t + p < (c + q + 1) * unat t" using qr rt by (simp add: algebra_simps)
    also have "\<dots> \<le> m * unat t" using that by (intro mult_le_mono1) simp
    finally show ?thesis .
  qed
  have nz: "\<not> m - c \<le> 0" using cm by simp
  show "progress_units t (fst (progressed t a st)) =
      min (unat (ch_MaxActionResource st) * unat t) (progress_units t st + unat a)"
  proof -
    have before: "progress_units t st + unat a = c * unat t + p" by (simp add: progress_units_def c p)
    have shifted: "(c + q) * unat t + r = c * unat t + p" using qr by (simp add: distrib_right)
    from cases show ?thesis
    proof (elim disjE conjE)
      assume "q = 0" and e: "fst (progressed t a st) = st\<lparr>ch_ActionResourceProgress := pr\<rparr>"
      with shifted room nz show ?thesis
        unfolding before e by (simp add: progress_units_def c [symmetric] m [symmetric] prr)
    next
      assume "m - c \<le> q" and e: "fst (progressed t a st) = st\<lparr>ch_ActionResourceProgress := 0,
        ch_ActionResourceCurrent := ch_MaxActionResource st\<rparr>"
      with full show ?thesis
        unfolding before e by (simp add: progress_units_def m [symmetric])
    next
      assume n: "\<not> m - c \<le> q" and e: "fst (progressed t a st) = st\<lparr>ch_ActionResourceProgress := pr,
        ch_ActionResourceCurrent := ch_ActionResourceCurrent st + g\<rparr>"
      with room show ?thesis
        unfolding before e by (simp add: progress_units_def m [symmetric] prr sum [OF n] shifted)
    qed
  qed
  show "snd (progressed t a st) \<longleftrightarrow>
      ch_ActionResourceCurrent (fst (progressed t a st)) \<noteq> ch_ActionResourceCurrent st"
    using cases assms(2) g0 by (auto simp: word_less_nat_alt)
  show "unat (ch_ActionResourceProgress (fst (progressed t a st))) < unat t"
    using cases rt t2 by (auto simp: prr)
  show "ch_ActionResourceCurrent (fst (progressed t a st)) \<le> ch_MaxActionResource st"
    using cases cm sum by (auto simp: word_le_nat_alt c [symmetric] m [symmetric])
  show "ch_ActionResourceProgress (fst (progressed t a st)) \<noteq> 0 \<Longrightarrow>
      ch_ActionResourceCurrent (fst (progressed t a st)) < ch_MaxActionResource st"
    using cases cm sum by (auto simp: word_less_nat_alt c [symmetric] m [symmetric])
qed

section \<open>Every command keeps the service valid\<close>

lemma char_inv_state:
  "char_inv s \<Longrightarrow> fmlookup (svc_states s) i = Some st \<Longrightarrow>
     ch_EntityID st = i \<and> i \<noteq> 0 \<and> vitals_ok st \<and> resource_ok st"
  by (simp add: char_inv_def)

lemma char_inv_upd:
  "char_inv s \<Longrightarrow> ch_EntityID st = i \<Longrightarrow> i \<noteq> 0 \<Longrightarrow> vitals_ok st \<Longrightarrow> resource_ok st \<Longrightarrow>
     char_inv (s\<lparr>svc_states := fmupd i st (svc_states s)\<rparr>)"
  by (simp add: char_inv_def)

lemma char_inv_tr: "char_inv s \<Longrightarrow> tr_ok t \<Longrightarrow> char_inv (s\<lparr>svc_targetResources := t\<rparr>)"
  by (simp add: char_inv_def)

lemma normalize_id: "normalizeActionResourceState st = Inr st' \<Longrightarrow> ch_EntityID st' = ch_EntityID st"
  by (auto simp: normalizeActionResourceState_def split: if_splits option.splits)

lemma RegisterState_inv:
  assumes "char_inv s" shows "char_inv (snd (RegisterState raw s))"
proof (cases "ch_EntityID raw = 0 \<or> gomap_has (svc_states s) (ch_EntityID raw)")
  case False
  define st1 where "st1 = (if ch_MP raw = 0 \<and> ch_MaxMP raw = 0
    then raw\<lparr>ch_MP := svc_defaultMaxMP s, ch_MaxMP := svc_defaultMaxMP s\<rparr> else raw)"
  define st2 where "st2 = (if ch_PrimaryStats st1 = zeroPrimary
    then st1\<lparr>ch_PrimaryStats := DefaultPrimary\<rparr> else st1)"
  have e: "snd (RegisterState raw s) = (case normalizeActionResourceState st2 of Inl _ \<Rightarrow> s
      | Inr st3 \<Rightarrow> (case validateState st3 of Some _ \<Rightarrow> s
          | None \<Rightarrow> s\<lparr>svc_states := fmupd (ch_EntityID st3) st3 (svc_states s)\<rparr>))"
    using False by (simp add: RegisterState_def Let_def st1_def st2_def split: sum.split option.split)
  have i: "ch_EntityID st2 = ch_EntityID raw" by (simp add: st2_def st1_def)
  show ?thesis
  proof (cases "normalizeActionResourceState st2")
    case (Inr st3)
    then have i3: "ch_EntityID st3 \<noteq> 0" using normalize_id i False by simp
    show ?thesis
    proof (cases "validateState st3")
      case None
      then have v: "vitals_ok st3" "resource_ok st3" by (simp_all add: validateState_None)
      show ?thesis
        unfolding e by (simp add: Inr None char_inv_upd [OF assms refl i3 v])
    qed (simp add: e Inr assms)
  qed (simp add: e assms)
qed (auto simp: RegisterState_def assms)

lemma RevivePercent_value:
  fixes m :: u32 and p :: u8
  assumes "m \<noteq> 0" and "p \<noteq> 0" and "p \<le> 100"
  defines "hp \<equiv> ((ucast m :: u64) * ucast p + 99) div 100"
  shows "unat hp = (unat m * unat p + 99) div 100" "hp \<noteq> 0" "hp \<le> ucast m"
    "unat (ucast hp :: u32) = (unat m * unat p + 99) div 100"
proof -
  have p: "0 < unat p" "unat p \<le> 100" using assms(2,3) by (simp_all add: unat_gt_0 word_le_nat_alt)
  have m: "0 < unat m" "unat m < 2 ^ 32" using assms(1) u32_bound [of m] by (simp_all add: unat_gt_0)
  have prod: "unat m * unat p \<le> unat m * 100" using p by simp
  have "unat m < 4294967296" using m(2) by simp
  then have small: "unat m * unat p + 99 < 429496729700" using prod by linarith
  then have big: "unat m * unat p + 99 < 2 ^ 64" by (rule less_trans) simp
  have "unat m * unat p < 2 ^ 64" using big by (rule add_lessD1)
  with big m p have sum: "unat ((ucast m :: u64) * ucast p + 99) = unat m * unat p + 99"
    by (simp add: unat_word_ariths unsigned_ucast_eq take_bit_nat_eq_self)
  show v: "unat hp = (unat m * unat p + 99) div 100"
    unfolding hp_def unat_div sum by simp
  have le: "(unat m * unat p + 99) div 100 \<le> unat m" using prod m by linarith
  have ge: "1 \<le> (unat m * unat p + 99) div 100"
  proof -
    have "1 \<le> unat m * unat p" using m p by simp
    then show ?thesis by linarith
  qed
  show "hp \<noteq> 0" using v ge by (metis unat_0 not_one_le_zero)
  show "hp \<le> ucast m" using v le m by (simp add: word_le_nat_alt unsigned_ucast_eq take_bit_nat_eq_self)
  show "unat (ucast hp :: u32) = (unat m * unat p + 99) div 100"
    using v le m by (simp add: unsigned_ucast_eq take_bit_nat_eq_self)
qed

text \<open>The one command that can break validity is excluded here; see \<open>oath_seal_gain_invalid\<close>.\<close>

fun char_allowed :: "char_command \<Rightarrow> bool" where
  "char_allowed (CGain _ r _) = (r \<noteq> OathSeal)"
| "char_allowed _ = True"

lemmas char_body_defs = store_state_def resource_mismatch_def

lemma living_ops_inv:
  assumes "char_inv s"
  shows "char_inv (snd (ApplyDamage i a s))" "char_inv (snd (ReduceHP i a s))"
    "char_inv (snd (RestoreAliveFull i s))" "char_inv (snd (SpendMP i a s))"
    "char_inv (snd (RestoreHP i a s))" "char_inv (snd (RestoreMP i a s))"
    "char_inv (snd (SpendActionResource i r a s))"
    "r \<noteq> OathSeal \<Longrightarrow> char_inv (snd (GainActionResource i r a s))"
proof -
  show "char_inv (snd (ApplyDamage i a s))" "char_inv (snd (ReduceHP i a s))"
    unfolding ApplyDamage_def ReduceHP_def
    by (rule on_living_inv [OF assms], use damaged_ok in \<open>auto simp: char_body_defs\<close>)+
  show "char_inv (snd (RestoreAliveFull i s))"
    unfolding RestoreAliveFull_def
    by (rule on_living_inv [OF assms]) (use vitals_restored(1) in \<open>auto simp: char_body_defs\<close>)
  show "char_inv (snd (SpendMP i a s))"
    unfolding SpendMP_def
    by (rule on_living_inv [OF assms])
      (use vitals_restored(2) in \<open>auto simp: char_body_defs not_less split: if_splits\<close>)
  show "char_inv (snd (RestoreHP i a s))"
    unfolding RestoreHP_def
    by (rule on_living_inv [OF assms])
      (use vitals_restored(3) in \<open>auto simp: char_body_defs not_le split: if_splits\<close>)
  show "char_inv (snd (RestoreMP i a s))"
    unfolding RestoreMP_def
    by (rule on_living_inv [OF assms])
      (use vitals_restored(4) in \<open>auto simp: char_body_defs not_le split: if_splits\<close>)
  show "char_inv (snd (SpendActionResource i r a s))"
    unfolding SpendActionResource_def
    by (rule on_living_inv [OF assms])
      (use resource_spent in \<open>auto simp: char_body_defs not_less split: if_splits\<close>)
  show "char_inv (snd (GainActionResource i r a s))" if "r \<noteq> OathSeal"
    unfolding GainActionResource_def
    by (rule on_living_inv [OF assms])
      (use resource_gained that in \<open>auto simp: char_body_defs not_le split: if_splits\<close>)
qed

lemma progress_inv:
  assumes "char_inv s" shows "char_inv (snd (GainActionResourceProgress i r a s))"
proof (cases "snd (GainActionResourceProgress i r a s) = s")
  case False
  then obtain st d where st: "fmlookup (svc_states s) i = Some st"
      and d: "DefinitionForID (ch_ActionResourceID st) = Some d" "ar_ProgressThreshold d \<noteq> 0"
      and m: "ar_Max d = ch_MaxActionResource st" and lt: "ch_ActionResourceCurrent st < ch_MaxActionResource st"
      and e: "snd (GainActionResourceProgress i r a s) =
        s\<lparr>svc_states := fmupd i (fst (progressed (ar_ProgressThreshold d) a st)) (svc_states s)\<rparr>"
    by (auto simp: GainActionResourceProgress_def not_le split: option.splits if_splits prod.splits)
  have st_ok: "ch_EntityID st = i" "i \<noteq> 0" "vitals_ok st" "resource_ok st"
    using char_inv_state [OF assms st] by simp_all
  have t: "ar_ProgressThreshold d = 100" "ch_ActionResourceID st \<noteq> ''''"
    using DefinitionForID_cases [OF d(1)] d(2) by (simp_all split: if_splits)
  define st' where "st' = fst (progressed (ar_ProgressThreshold d) a st)"
  have p: "unat (ch_ActionResourceProgress st') < 100" "ch_ActionResourceCurrent st' \<le> ch_MaxActionResource st"
      "ch_ActionResourceProgress st' \<noteq> 0 \<Longrightarrow> ch_ActionResourceCurrent st' < ch_MaxActionResource st"
    using progressed_units(3-5) [OF _ lt, of 100 a] by (simp_all add: st'_def t(1))
  have lt100: "ch_ActionResourceProgress st' < 100" using p(1) by (simp add: word_less_nat_alt)
  have same: "ch_EntityID st' = ch_EntityID st" "ch_ActionResourceID st' = ch_ActionResourceID st"
      "ch_MaxActionResource st' = ch_MaxActionResource st" "vitals_ok st'"
    using st_ok(3) by (simp_all add: st'_def progressed_def Let_def)
  have "resource_ok st'"
    using p(2,3) lt100 same(2,3) t d(1) m by (simp add: resource_ok_def)
  then show ?thesis
    using st_ok same(1,4) unfolding e st'_def [symmetric] by (intro char_inv_upd [OF assms]) simp_all
qed (simp add: assms)

lemma revive_inv:
  assumes "char_inv s" shows "char_inv (snd (RevivePercent i p s))"
proof (cases "snd (RevivePercent i p s) = s")
  case False
  then obtain st where st: "fmlookup (svc_states s) i = Some st" and p: "p \<noteq> 0" "p \<le> 100"
      and d: "ch_Defeated st"
    by (auto simp: RevivePercent_def Let_def not_less split: option.splits if_splits)
  have ok: "ch_EntityID st = i" "i \<noteq> 0" "vitals_ok st" "resource_ok st"
    using char_inv_state [OF assms st] by simp_all
  then have m: "ch_MaxHP st \<noteq> 0" by (simp add: vitals_ok_def)
  define hp where "hp = ((ucast (ch_MaxHP st) :: u64) * ucast p + 99) div 100"
  note v = RevivePercent_value [OF m p, folded hp_def]
  have e: "snd (RevivePercent i p s) =
      s\<lparr>svc_states := fmupd i (st\<lparr>ch_HP := ucast hp, ch_Defeated := False\<rparr>) (svc_states s)\<rparr>"
    using st p d v(2,3) by (simp add: RevivePercent_def Let_def hp_def [symmetric] not_less [symmetric])
  have le: "(ucast hp :: u32) \<le> ch_MaxHP st"
    using v(3) unfolding word_le_nat_alt v(4) v(1) [symmetric]
    by (simp add: unsigned_ucast_eq take_bit_nat_eq_self)
  have nz: "(ucast hp :: u32) \<noteq> 0" using v(2) unfolding v(4) [symmetric]
    by (metis unat_0 v(1) v(4) unat_eq_zero)
  show ?thesis
    unfolding e using ok le nz by (intro char_inv_upd [OF assms]) (simp_all add: vitals_ok_def)
qed (simp add: assms)

lemma with_tr_inv: "char_inv s \<Longrightarrow> tr_ok t \<Longrightarrow> char_inv (snd (with_tr (r, t) s))"
  by (simp add: with_tr_def char_inv_tr split: prod.split)

lemma target_ops_inv:
  assumes "char_inv s"
  shows "char_inv (snd (GainTargetResource a b r n m t u s))"
    "char_inv (snd (GainTargetResourcePreservingReadyTick a b r n m s))"
    "char_inv (snd (SpendTargetResource a b r n s))"
    "char_inv (snd (ClearTargetResourcesForEntity e order s))"
    "char_inv (char_Remove e order s)"
proof -
  have t: "tr_ok (svc_targetResources s)" using assms by (simp add: char_inv_def)
  define key where "key = \<lparr>trk_SourceEntityID = a, trk_TargetEntityID = b, trk_ResourceID = r\<rparr>"
  show "char_inv (snd (GainTargetResource a b r n m t u s))" for t u
    using tr_TryGain_ok [OF t, of key n m t u] assms
    unfolding GainTargetResource_def key_def [symmetric]
    by (cases "tr_TryGain key n m t u (svc_targetResources s)")
      (auto simp: with_tr_inv split: option.split prod.split)
  show "char_inv (snd (GainTargetResourcePreservingReadyTick a b r n m s))"
    using tr_GainPreserving_ok [OF t, of key n m] assms
    unfolding GainTargetResourcePreservingReadyTick_def key_def [symmetric]
    by (cases "tr_GainPreservingReadyTick key n m (svc_targetResources s)")
      (auto simp: with_tr_inv split: option.split prod.split)
  show "char_inv (snd (SpendTargetResource a b r n s))"
    using tr_Spend_ok [OF t, of key n] assms
    unfolding SpendTargetResource_def key_def [symmetric]
    by (cases "tr_Spend key n (svc_targetResources s)")
      (auto simp: char_inv_tr split: option.split prod.split)
  show "char_inv (snd (ClearTargetResourcesForEntity e order s))"
    using tr_ClearEntity_ok [OF t, of e order] assms
    by (cases "tr_ClearEntity e order (svc_targetResources s)")
      (simp add: ClearTargetResourcesForEntity_def char_inv_tr)
  show "char_inv (char_Remove e order s)"
    using tr_ClearEntity_ok [OF t, of e order] assms
    by (simp add: char_Remove_def char_inv_def)
qed

lemmas char_ops_inv = living_ops_inv progress_inv revive_inv target_ops_inv RegisterState_inv

interpretation characters: guarded_invariant char_step char_allowed char_inv
proof
  fix x s assume "char_allowed x" and "char_inv s"
  then show "char_inv (snd (char_step x s))"
    by (cases x) (simp_all add: char_Register_def char_ops_inv)
qed

lemma new_service_inv: "NewServiceWithResources hp mp = Inr s \<Longrightarrow> char_inv s"
  by (auto simp: NewServiceWithResources_def char_inv_def tr_ok_def split: if_splits)

section \<open>Properties\<close>

text \<open>
  C9. Validity of every history: whatever registrations, damage, restores, resource gains and
  spends, revivals, removals and target-resource calls a service has seen since its creation
  (direct gains of the oath seal apart), every character it stores is under its own non-zero
  id and passes the validation the registration applies.
\<close>

theorem character_history_valid:
  assumes "NewServiceWithResources hp mp = Inr s" and "list_all char_allowed cmds"
    and "char_State (run_ops char_step cmds s) i = Some st"
  shows "i \<noteq> 0 \<and> ch_EntityID st = i \<and> validateState st = None"
proof -
  have "char_inv (run_ops char_step cmds s)"
    by (rule characters.run_allowed [OF assms(2) new_service_inv [OF assms(1)]])
  from char_inv_state [OF this assms(3) [unfolded char_State_def]] show ?thesis
    by (simp add: validateState_None)
qed

lemma DefaultPrimary_valid: "ValidateBase DefaultPrimary = None" "DefaultPrimary \<noteq> zeroPrimary"
  by code_simp+

definition sample_state :: "u32 \<Rightarrow> u32 \<Rightarrow> string \<Rightarrow> char_state" where
  "sample_state hp maxi r =
     zeroState\<lparr>ch_EntityID := 7, ch_HP := hp, ch_MaxHP := maxi, ch_MP := 10, ch_MaxMP := 10,
       ch_PrimaryStats := DefaultPrimary, ch_ActionResourceID := r,
       ch_MaxActionResource := (if r = '''' then 0 else if r = OathSeal then 3 else 100)\<rparr>"

definition sample_service :: "char_state \<Rightarrow> char_service" where
  "sample_service st = \<lparr>svc_defaultMaxHP = 100, svc_defaultMaxMP = 100,
     svc_states = fmupd (ch_EntityID st) st fmempty, svc_targetResources = fmempty\<rparr>"

theorem character_history_valid_witness:
  "\<exists>st. char_State (run_ops char_step [CRegister 7, CDamage 7 150, CRevive 7 25]
     \<lparr>svc_defaultMaxHP = 101, svc_defaultMaxMP = 100, svc_states = fmempty, svc_targetResources = fmempty\<rparr>) 7
       = Some st \<and> ch_HP st = 26 \<and> validateState st = None"
proof -
  define s where "s = \<lparr>svc_defaultMaxHP = 101, svc_defaultMaxMP = 100, svc_states = fmempty,
    svc_targetResources = fmempty :: tr_store\<rparr>"
  define st where "st = zeroState\<lparr>ch_EntityID := 7, ch_HP := 26, ch_MaxHP := 101, ch_MP := 100,
    ch_MaxMP := 100, ch_PrimaryStats := DefaultPrimary\<rparr>"
  have new: "NewServiceWithResources 101 100 = Inr s"
    by (simp add: NewServiceWithResources_def s_def)
  have run: "char_State (run_ops char_step [CRegister 7, CDamage 7 150, CRevive 7 25] s) 7 = Some st"
    by (simp add: char_State_def char_Register_def RegisterState_def zeroState_def s_def st_def
        normalizeActionResourceState_def validateState_def DefaultPrimary_valid ApplyDamage_def on_living_def store_state_def damaged_def
        RevivePercent_def Let_def gomap_has_def)
  from character_history_valid [OF new _ run] run
  show ?thesis unfolding s_def [symmetric] by (simp add: st_def)
qed

text \<open>A defeated character: what does not revive or remove it cannot touch it.\<close>

fun spares :: "entity_id \<Rightarrow> char_command \<Rightarrow> bool" where
  "spares i (CRemove j _) = (j \<noteq> i)"
| "spares i (CRevive j _) = (j \<noteq> i)"
| "spares i _ = True"

lemma on_living_frozen:
  "fmlookup (svc_states s) i = Some st \<Longrightarrow> ch_Defeated st \<Longrightarrow>
     fmlookup (svc_states (snd (on_living j body s))) i = Some st"
  by (cases "j = i") (auto simp: on_living_def split: option.split prod.split)

lemma RegisterState_frozen:
  assumes "fmlookup (svc_states s) i = Some st"
  shows "fmlookup (svc_states (snd (RegisterState raw s))) i = Some st"
proof (cases "gomap_has (svc_states s) (ch_EntityID raw)")
  case True
  with assms show ?thesis by (simp add: RegisterState_def)
next
  case False
  with assms have "ch_EntityID raw \<noteq> i" by (auto simp: gomap_has_def)
  then show ?thesis
    using assms by (auto simp: RegisterState_def Let_def normalize_id split: sum.split option.split)
qed

lemma progress_frozen:
  "fmlookup (svc_states s) i = Some st \<Longrightarrow> ch_Defeated st \<Longrightarrow>
     fmlookup (svc_states (snd (GainActionResourceProgress j r a s))) i = Some st"
  by (cases "j = i") (auto simp: GainActionResourceProgress_def split: option.split prod.split)

lemma revive_frozen:
  "fmlookup (svc_states s) i = Some st \<Longrightarrow> j \<noteq> i \<Longrightarrow>
     fmlookup (svc_states (snd (RevivePercent j p s))) i = Some st"
  by (auto simp: RevivePercent_def Let_def split: option.split)

lemma target_ops_states [simp]:
  "svc_states (snd (GainTargetResource a b r n m t u s)) = svc_states s"
  "svc_states (snd (GainTargetResourcePreservingReadyTick a b r n m s)) = svc_states s"
  "svc_states (snd (SpendTargetResource a b r n s)) = svc_states s"
  "svc_states (snd (ClearTargetResourcesForEntity e order s)) = svc_states s"
  by (simp_all add: GainTargetResource_def GainTargetResourcePreservingReadyTick_def with_tr_def
      SpendTargetResource_def ClearTargetResourcesForEntity_def split: option.split prod.split)

lemmas living_op_defs = ApplyDamage_def ReduceHP_def RestoreAliveFull_def SpendMP_def RestoreHP_def
  RestoreMP_def GainActionResource_def SpendActionResource_def

lemma defeated_step:
  "fmlookup (svc_states s) i = Some st \<Longrightarrow> ch_Defeated st \<Longrightarrow> spares i x \<Longrightarrow>
     fmlookup (svc_states (snd (char_step x s))) i = Some st"
  by (cases x) (simp_all add: living_op_defs on_living_frozen char_Register_def RegisterState_frozen
      char_Remove_def progress_frozen revive_frozen)

lemma defeated_run:
  "fmlookup (svc_states s) i = Some st \<Longrightarrow> ch_Defeated st \<Longrightarrow> list_all (spares i) cmds \<Longrightarrow>
     fmlookup (svc_states (run_ops char_step cmds s)) i = Some st"
  by (induction cmds arbitrary: s) (simp_all add: defeated_step)

text \<open>
  C27. Defeat is absorbing and revival is exact: once a character is defeated no sequence of
  damage, restores, resource calls or further registrations changes anything of it, and a
  revival at a percentage between 1 and 100 after any such sequence restores exactly the rounded-up
  share of the maximum, which lies between 1 and the maximum.
\<close>

theorem defeat_until_revive:
  assumes "char_inv s" and "char_State s i = Some st" and "ch_Defeated st"
    and "list_all (spares i) cmds" and "p \<noteq> 0" and "p \<le> 100"
  shows "let s' = run_ops char_step cmds s; st' = fst (fst (RevivePercent i p s')) in
    char_State s' i = Some st \<and> snd (fst (RevivePercent i p s')) = None \<and>
    char_State (snd (RevivePercent i p s')) i = Some st' \<and>
    st' = st\<lparr>ch_HP := ch_HP st', ch_Defeated := False\<rparr> \<and>
    unat (ch_HP st') = (unat (ch_MaxHP st) * unat p + 99) div 100 \<and>
    1 \<le> unat (ch_HP st') \<and> ch_HP st' \<le> ch_MaxHP st"
proof -
  define s' where "s' = run_ops char_step cmds s"
  have st: "fmlookup (svc_states s') i = Some st"
    using defeated_run [OF _ assms(3,4)] assms(2) by (simp add: char_State_def s'_def)
  have m: "ch_MaxHP st \<noteq> 0"
    using char_inv_state [OF assms(1)] assms(2) by (simp add: char_State_def vitals_ok_def)
  define hp where "hp = ((ucast (ch_MaxHP st) :: u64) * ucast p + 99) div 100"
  note v = RevivePercent_value [OF m assms(5,6), folded hp_def]
  have e: "RevivePercent i p s' = ((st\<lparr>ch_HP := ucast hp, ch_Defeated := False\<rparr>, None),
      s'\<lparr>svc_states := fmupd i (st\<lparr>ch_HP := ucast hp, ch_Defeated := False\<rparr>) (svc_states s')\<rparr>)"
    using st assms(3,5,6) v(2,3) by (simp add: RevivePercent_def Let_def hp_def [symmetric] not_less [symmetric])
  have le: "unat (ucast hp :: u32) \<le> unat (ch_MaxHP st)"
    using v(3) unfolding word_le_nat_alt v(4) v(1) [symmetric]
    by (simp add: unsigned_ucast_eq take_bit_nat_eq_self)
  have ge: "1 \<le> unat (ucast hp :: u32)"
    using v(2) unfolding v(4) v(1) [symmetric] by (simp add: unat_gt_0 Suc_le_eq)
  show ?thesis
    unfolding Let_def s'_def [symmetric] e using st le ge
    by (simp add: char_State_def v(4) word_le_nat_alt)
qed

theorem defeat_until_revive_witness:
  "ch_HP (fst (fst (RevivePercent 7 25 (run_ops char_step [CRestoreHP 7 50, CDamage 7 3, CRegister 7]
     (sample_service ((sample_state 0 101 '''')\<lparr>ch_Defeated := True\<rparr>)))))) = 26"
proof -
  define st where "st = (sample_state 0 101 '''')\<lparr>ch_Defeated := True\<rparr>"
  have "char_inv (sample_service st)"
    by (simp add: char_inv_def sample_service_def st_def sample_state_def zeroState_def vitals_ok_def
        resource_ok_def DefaultPrimary_valid tr_ok_def)
  from defeat_until_revive [OF this, of 7 st "[CRestoreHP 7 50, CDamage 7 3, CRegister 7]" 25]
  have "unat (ch_HP (fst (fst (RevivePercent 7 25 (run_ops char_step
      [CRestoreHP 7 50, CDamage 7 3, CRegister 7] (sample_service st)))))) = 26"
    by (simp add: Let_def char_State_def sample_service_def st_def sample_state_def zeroState_def)
  then show ?thesis unfolding st_def [symmetric] by (subst word_unat_eq_iff) simp
qed

text \<open>
  C6. Progress is conserved: for a living bearer of the oath seal below its maximum, adding
  progress never fails, turns every full hundred into one point and keeps the rest, so that
  \<open>100 * current + progress\<close> grows by exactly the amount until it saturates at the maximum;
  the change flag is raised exactly when the visible point count moved; all other fields stay.
\<close>

theorem progress_conserved:
  assumes "char_inv s" and "char_State s i = Some st" and "\<not> ch_Defeated st"
    and "ch_ActionResourceID st = OathSeal" and "ch_ActionResourceCurrent st < 3" and "a \<noteq> 0"
  shows "let ((st', visible), e) = fst (GainActionResourceProgress i OathSeal a s) in
    e = None \<and> char_State (snd (GainActionResourceProgress i OathSeal a s)) i = Some st' \<and>
    progress_units 100 st' = min 300 (progress_units 100 st + unat a) \<and>
    (visible \<longleftrightarrow> ch_ActionResourceCurrent st' \<noteq> ch_ActionResourceCurrent st) \<and>
    st' = st\<lparr>ch_ActionResourceCurrent := ch_ActionResourceCurrent st',
             ch_ActionResourceProgress := ch_ActionResourceProgress st'\<rparr>"
proof -
  have d: "DefinitionForID OathSeal = Some \<lparr>ar_ID = OathSeal, ar_Max = 3, ar_ProgressThreshold = 100\<rparr>"
    by (simp add: DefinitionForID_def go_defs)
  have st: "fmlookup (svc_states s) i = Some st" using assms(2) by (simp add: char_State_def)
  have ne: "OathSeal \<noteq> ''''" by (simp add: go_defs)
  have m: "ch_MaxActionResource st = 3"
    using char_inv_state [OF assms(1) st] assms(4) d ne by (simp add: resource_ok_def)
  define pr where "pr = progressed 100 a st"
  have e: "GainActionResourceProgress i OathSeal a s =
      (((fst pr, snd pr), None), s\<lparr>svc_states := fmupd i (fst pr) (svc_states s)\<rparr>)"
    using st assms(3-6) d ne m
    by (simp add: GainActionResourceProgress_def pr_def [symmetric] not_le [symmetric] split: prod.split)
  have same: "fst pr = st\<lparr>ch_ActionResourceCurrent := ch_ActionResourceCurrent (fst pr),
      ch_ActionResourceProgress := ch_ActionResourceProgress (fst pr)\<rparr>"
    by (simp add: pr_def progressed_def Let_def)
  have lt: "ch_ActionResourceCurrent st < ch_MaxActionResource st" using assms(5) m by simp
  note u = progressed_units(1,2) [OF _ lt, of 100 a, folded pr_def, unfolded m]
  show ?thesis
    unfolding e using same u by (simp add: char_State_def)
qed

theorem progress_conserved_witness:
  "progress_units 100 (fst (fst (fst (GainActionResourceProgress 7 OathSeal 150
     (sample_service ((sample_state 50 101 OathSeal)\<lparr>ch_ActionResourceProgress := 70\<rparr>)))))) = 220"
proof -
  define st where "st = (sample_state 50 101 OathSeal)\<lparr>ch_ActionResourceProgress := 70\<rparr>"
  have inv: "char_inv (sample_service st)"
    by (simp add: char_inv_def sample_service_def st_def sample_state_def zeroState_def vitals_ok_def
        resource_ok_def DefaultPrimary_valid tr_ok_def DefinitionForID_def go_defs)
  have st: "char_State (sample_service st) 7 = Some st" "\<not> ch_Defeated st"
      "ch_ActionResourceID st = OathSeal" "ch_ActionResourceCurrent st < 3" "progress_units 100 st = 70"
    by (simp_all add: char_State_def sample_service_def st_def sample_state_def zeroState_def
        progress_units_def)
  show ?thesis
    unfolding st_def [symmetric]
    using progress_conserved [OF inv st(1-4), of 150] by (simp add: Let_def case_prod_unfold st(5))
qed

text \<open>
  Direct gains and progress do not compose: for every valid bearer of the oath seal with
  progress pending, a direct gain that fills the seal succeeds and stores a state with that
  progress still pending, which the service's own validation rejects.
\<close>

theorem oath_seal_gain_invalid:
  assumes "char_inv s" and "char_State s i = Some st" and "\<not> ch_Defeated st"
    and "ch_ActionResourceID st = OathSeal" and "ch_ActionResourceProgress st \<noteq> 0"
    and "3 \<le> unat (ch_ActionResourceCurrent st) + unat a"
  shows "let ((st', e), s') = GainActionResource i OathSeal a s in
    e = None \<and> char_State s' i = Some st' \<and> ch_ActionResourceCurrent st' = 3 \<and>
    validateState st = None \<and> validateState st' = Some ErrInvalidState"
proof -
  have st: "fmlookup (svc_states s) i = Some st" using assms(2) by (simp add: char_State_def)
  note ok = char_inv_state [OF assms(1) st]
  have d: "DefinitionForID OathSeal = Some \<lparr>ar_ID = OathSeal, ar_Max = 3, ar_ProgressThreshold = 100\<rparr>"
    and ne: "OathSeal \<noteq> ''''"
    by (simp_all add: DefinitionForID_def go_defs)
  have m: "ch_MaxActionResource st = 3" and c: "ch_ActionResourceCurrent st < 3"
    using ok assms(4,5) d ne by (auto simp: resource_ok_def)
  have a: "a \<noteq> 0" using assms(6) c by (auto simp: word_less_nat_alt)
  have full: "capped (ch_ActionResourceCurrent st) 3 a = 3"
    using capped_le(2) [OF c, of a] assms(6) by (subst word_unat_eq_iff) simp
  have e: "GainActionResource i OathSeal a s = ((st\<lparr>ch_ActionResourceCurrent := 3\<rparr>, None),
      s\<lparr>svc_states := fmupd i (st\<lparr>ch_ActionResourceCurrent := 3\<rparr>) (svc_states s)\<rparr>)"
    using st assms(3,4) ne m c a full
    by (simp add: GainActionResource_def on_living_def resource_mismatch_def store_state_def not_le [symmetric])
  have "\<not> resource_ok (st\<lparr>ch_ActionResourceCurrent := 3\<rparr>)"
    using assms(4,5) d ne m by (simp add: resource_ok_def)
  then have n: "validateState (st\<lparr>ch_ActionResourceCurrent := 3\<rparr>) \<noteq> None" by (simp add: validateState_None)
  have one: "validateState x \<noteq> None \<Longrightarrow> validateState x = Some ErrInvalidState" for x :: char_state
    by (auto simp: validateState_def split: if_splits)
  from one [OF n] show ?thesis
    unfolding e using ok by (simp add: char_State_def validateState_None)
qed

definition pending_seal :: char_state where
  "pending_seal = (sample_state 50 101 OathSeal)\<lparr>ch_ActionResourceCurrent := 2, ch_ActionResourceProgress := 50\<rparr>"

theorem oath_seal_gain_invalid_witness:
  "validateState pending_seal = None \<and>
   validateState (fst (fst (GainActionResource 7 OathSeal 1 (sample_service pending_seal)))) = Some ErrInvalidState"
proof -
  have inv: "char_inv (sample_service pending_seal)"
    by (simp add: char_inv_def sample_service_def pending_seal_def sample_state_def zeroState_def vitals_ok_def
        resource_ok_def DefaultPrimary_valid tr_ok_def DefinitionForID_def go_defs)
  have st: "char_State (sample_service pending_seal) 7 = Some pending_seal" "\<not> ch_Defeated pending_seal"
      "ch_ActionResourceID pending_seal = OathSeal" "ch_ActionResourceProgress pending_seal \<noteq> 0"
      "3 \<le> unat (ch_ActionResourceCurrent pending_seal) + unat (1 :: u32)"
    by (simp_all add: char_State_def sample_service_def pending_seal_def sample_state_def zeroState_def)
  show ?thesis
    using oath_seal_gain_invalid [OF inv st] by (simp add: Let_def case_prod_unfold)
qed

end
