(* ===== verification/FloatArith.thy ===== *)
theory FloatArith
  imports Float32
begin

text \<open>
  The arithmetic of Go's \<open>float32\<close> and \<open>float64\<close>: IEEE 754 with rounding to nearest, ties to
  even, computed on integers. A format has \<open>m\<close> fraction bits and \<open>e\<close> exponent bits; a value is
  its sign and its magnitude bits, and a magnitude is a multiple of the smallest subnormal.
  Every operation is rounded on its own, as the source writes it. Every NaN is the canonical
  one, since the server never looks at the payload of a NaN.
\<close>

section \<open>One format\<close>

fun bitlen :: "int \<Rightarrow> nat" where
  "bitlen n = (if n \<le> 0 then 0 else Suc (bitlen (n div 2)))"

declare bitlen.simps [simp del]

type_synonym fl = "bool \<times> int"

definition fl_inf :: "nat \<Rightarrow> nat \<Rightarrow> int" where
  "fl_inf m e = (2 ^ e - 1) * 2 ^ m"

definition fl_nan :: "nat \<Rightarrow> nat \<Rightarrow> fl" where
  "fl_nan m e = (False, fl_inf m e + 2 ^ (m - 1))"

text \<open>A finite magnitude is \<open>fl_sig * 2 ^ fl_exp\<close>; the smallest exponent is \<open>fl_emin\<close>.\<close>

definition fl_emin :: "nat \<Rightarrow> nat \<Rightarrow> int" where
  "fl_emin m e = 2 - 2 ^ (e - 1) - int m"

definition fl_sig :: "nat \<Rightarrow> int \<Rightarrow> int" where
  "fl_sig m b = (if b div 2 ^ m = 0 then b else 2 ^ m + b mod 2 ^ m)"

definition fl_exp :: "nat \<Rightarrow> nat \<Rightarrow> int \<Rightarrow> int" where
  "fl_exp m e b = fl_emin m e + (if b div 2 ^ m = 0 then 0 else b div 2 ^ m - 1)"

definition half_even :: "int \<Rightarrow> int \<Rightarrow> int" where
  "half_even num den =
     (let q = num div den; r = num mod den
      in if 2 * r < den \<or> (2 * r = den \<and> even q) then q else q + 1)"

text \<open>
  Rounds \<open>num / den * 2 ^ x\<close>, where the quotient has more bits than the format or is exact; a
  carry out of the fraction moves into the exponent field, and too large a value is infinite.
\<close>

definition fl_round :: "nat \<Rightarrow> nat \<Rightarrow> bool \<Rightarrow> int \<Rightarrow> int \<Rightarrow> int \<Rightarrow> fl" where
  "fl_round m e neg num den x =
     (let t = max (fl_emin m e) (x + int (bitlen (num div den)) - int m - 1);
          n = (if t \<le> x then half_even (num * 2 ^ nat (x - t)) den else half_even num (den * 2 ^ nat (t - x)))
      in (neg, min (fl_inf m e) (n + (t - fl_emin m e) * 2 ^ m)))"

definition fl_add :: "nat \<Rightarrow> nat \<Rightarrow> fl \<Rightarrow> fl \<Rightarrow> fl" where
  "fl_add m e x y =
     (if fl_inf m e < snd x \<or> fl_inf m e < snd y then fl_nan m e
      else if snd x = fl_inf m e
      then (if snd y = fl_inf m e \<and> fst x \<noteq> fst y then fl_nan m e else x)
      else if snd y = fl_inf m e then y
      else let ex = fl_exp m e (snd x); ey = fl_exp m e (snd y); t = min ex ey;
               a = fl_sig m (snd x) * 2 ^ nat (ex - t); b = fl_sig m (snd y) * 2 ^ nat (ey - t);
               z = (if fst x then - a else a) + (if fst y then - b else b)
           in if z = 0 then (fst x \<and> fst y, 0) else fl_round m e (z < 0) \<bar>z\<bar> 1 t)"

definition fl_mul :: "nat \<Rightarrow> nat \<Rightarrow> fl \<Rightarrow> fl \<Rightarrow> fl" where
  "fl_mul m e x y =
     (let neg = (fst x \<noteq> fst y)
      in if fl_inf m e < snd x \<or> fl_inf m e < snd y then fl_nan m e
         else if snd x = fl_inf m e \<or> snd y = fl_inf m e
         then (if snd x = 0 \<or> snd y = 0 then fl_nan m e else (neg, fl_inf m e))
         else fl_round m e neg (fl_sig m (snd x) * fl_sig m (snd y)) 1
           (fl_exp m e (snd x) + fl_exp m e (snd y)))"

text \<open>The dividend is scaled up so that the quotient keeps more bits than the format has.\<close>

definition fl_div :: "nat \<Rightarrow> nat \<Rightarrow> fl \<Rightarrow> fl \<Rightarrow> fl" where
  "fl_div m e x y =
     (let neg = (fst x \<noteq> fst y)
      in if fl_inf m e < snd x \<or> fl_inf m e < snd y then fl_nan m e
         else if snd x = fl_inf m e
         then (if snd y = fl_inf m e then fl_nan m e else (neg, fl_inf m e))
         else if snd y = fl_inf m e then (neg, 0)
         else if snd y = 0 then (if snd x = 0 then fl_nan m e else (neg, fl_inf m e))
         else fl_round m e neg (fl_sig m (snd x) * 2 ^ (2 * m + 4)) (fl_sig m (snd y))
           (fl_exp m e (snd x) - fl_exp m e (snd y) - int (2 * m + 4)))"

text \<open>
  Square root of a finite non-negative value: the integer root of the significand, scaled to
  an even exponent, with one sticky bit, has more bits than either format keeps.
\<close>

function int_sqrt :: "int \<Rightarrow> int" where
  "int_sqrt n =
     (if n \<le> 0 then 0
      else let r = 2 * int_sqrt (n div 4) in if (r + 1) * (r + 1) \<le> n then r + 1 else r)"
  by pat_completeness auto
termination by (relation "measure nat") auto

declare int_sqrt.simps [simp del]

definition fl_sqrt :: "nat \<Rightarrow> nat \<Rightarrow> fl \<Rightarrow> fl" where
  "fl_sqrt m e x =
     (if fl_inf m e < snd x then fl_nan m e
      else if snd x = 0 then x
      else if fst x then fl_nan m e
      else if snd x = fl_inf m e then x
      else let ex = fl_exp m e (snd x);
               v = fl_sig m (snd x) * 2 ^ (2 * m + 4 + (if even ex then 0 else 1));
               s = int_sqrt v
           in fl_round m e False (2 * s + (if s * s = v then 0 else 1)) 1
                ((ex - int (2 * m + 4 + (if even ex then 0 else 1))) div 2 - 1))"

section \<open>\<open>float32\<close>\<close>

definition f32_parts :: "f32 \<Rightarrow> fl" where
  "f32_parts x = (f32_neg x, f32_mag x)"

definition f32_pack :: "fl \<Rightarrow> f32" where
  "f32_pack x = of_int ((if fst x then 2 ^ 31 else 0) + snd x)"

definition f32_add :: "f32 \<Rightarrow> f32 \<Rightarrow> f32" where
  "f32_add x y = f32_pack (fl_add 23 8 (f32_parts x) (f32_parts y))"

definition f32_uminus :: "f32 \<Rightarrow> f32" where
  "f32_uminus x = f32_pack (\<not> f32_neg x, f32_mag x)"

definition f32_abs :: "f32 \<Rightarrow> f32" where
  "f32_abs x = f32_pack (False, f32_mag x)"

definition f32_sub :: "f32 \<Rightarrow> f32 \<Rightarrow> f32" where
  "f32_sub x y = f32_add x (f32_uminus y)"

definition f32_mul :: "f32 \<Rightarrow> f32 \<Rightarrow> f32" where
  "f32_mul x y = f32_pack (fl_mul 23 8 (f32_parts x) (f32_parts y))"

definition f32_div :: "f32 \<Rightarrow> f32 \<Rightarrow> f32" where
  "f32_div x y = f32_pack (fl_div 23 8 (f32_parts x) (f32_parts y))"

section \<open>\<open>float64\<close>\<close>

type_synonym f64 = "64 word"

definition f64_parts :: "f64 \<Rightarrow> fl" where
  "f64_parts x = (2 ^ 63 \<le> uint x, uint x mod 2 ^ 63)"

definition f64_pack :: "fl \<Rightarrow> f64" where
  "f64_pack x = of_int ((if fst x then 2 ^ 63 else 0) + snd x)"

definition f64_IsNaN :: "f64 \<Rightarrow> bool" where
  "f64_IsNaN x = (fl_inf 52 11 < snd (f64_parts x))"

definition f64_IsInf :: "f64 \<Rightarrow> bool" where
  "f64_IsInf x = (snd (f64_parts x) = fl_inf 52 11)"

definition f64_rank :: "f64 \<Rightarrow> int" where
  "f64_rank x = (case f64_parts x of (neg, mag) \<Rightarrow> if neg then - mag else mag)"

definition f64_less :: "f64 \<Rightarrow> f64 \<Rightarrow> bool" where
  "f64_less a b = (\<not> f64_IsNaN a \<and> \<not> f64_IsNaN b \<and> f64_rank a < f64_rank b)"

definition f64_leq :: "f64 \<Rightarrow> f64 \<Rightarrow> bool" where
  "f64_leq a b = (\<not> f64_IsNaN a \<and> \<not> f64_IsNaN b \<and> f64_rank a \<le> f64_rank b)"

definition f64_add :: "f64 \<Rightarrow> f64 \<Rightarrow> f64" where
  "f64_add x y = f64_pack (fl_add 52 11 (f64_parts x) (f64_parts y))"

definition f64_sub :: "f64 \<Rightarrow> f64 \<Rightarrow> f64" where
  "f64_sub x y = f64_pack (fl_add 52 11 (f64_parts x) (map_prod Not id (f64_parts y)))"

definition f64_abs :: "f64 \<Rightarrow> f64" where
  "f64_abs x = f64_pack (False, snd (f64_parts x))"

definition f64_mul :: "f64 \<Rightarrow> f64 \<Rightarrow> f64" where
  "f64_mul x y = f64_pack (fl_mul 52 11 (f64_parts x) (f64_parts y))"

definition f64_div :: "f64 \<Rightarrow> f64 \<Rightarrow> f64" where
  "f64_div x y = f64_pack (fl_div 52 11 (f64_parts x) (f64_parts y))"

definition f64_sqrt :: "f64 \<Rightarrow> f64" where
  "f64_sqrt x = f64_pack (fl_sqrt 52 11 (f64_parts x))"

section \<open>Conversions\<close>

definition fl_convert :: "nat \<Rightarrow> nat \<Rightarrow> nat \<Rightarrow> nat \<Rightarrow> fl \<Rightarrow> fl" where
  "fl_convert m e m' e' x =
     (if fl_inf m e < snd x then fl_nan m' e'
      else if snd x = fl_inf m e then (fst x, fl_inf m' e')
      else if snd x = 0 then (fst x, 0)
      else fl_round m' e' (fst x) (fl_sig m (snd x)) 1 (fl_exp m e (snd x)))"

definition f64_of_f32 :: "f32 \<Rightarrow> f64" where
  "f64_of_f32 x = f64_pack (fl_convert 23 8 52 11 (f32_parts x))"

definition f32_of_f64 :: "f64 \<Rightarrow> f32" where
  "f32_of_f64 x = f32_pack (fl_convert 52 11 23 8 (f64_parts x))"

definition f64_of_int :: "int \<Rightarrow> f64" where
  "f64_of_int n = (if n = 0 then 0 else f64_pack (fl_round 52 11 (n < 0) \<bar>n\<bar> 1 0))"

definition f32_of_int :: "int \<Rightarrow> f32" where
  "f32_of_int n = (if n = 0 then 0 else f32_pack (fl_round 23 8 (n < 0) \<bar>n\<bar> 1 0))"

text \<open>The integer part towards zero, and the ceiling, of a finite value.\<close>

definition f64_floor_mag :: "f64 \<Rightarrow> int \<times> bool" where
  "f64_floor_mag x =
     (let s = fl_sig 52 (snd (f64_parts x)); ex = fl_exp 52 11 (snd (f64_parts x))
      in if 0 \<le> ex then (s * 2 ^ nat ex, True)
         else (s div 2 ^ nat (- ex), s mod 2 ^ nat (- ex) = 0))"

definition f64_trunc :: "f64 \<Rightarrow> int" where
  "f64_trunc x =
     (let v = fst (f64_floor_mag x) in if fst (f64_parts x) then - v else v)"

definition f64_ceil :: "f64 \<Rightarrow> int" where
  "f64_ceil x =
     (case f64_floor_mag x of
        (v, exact) \<Rightarrow> if fst (f64_parts x) then - v else if exact then v else v + 1)"

text \<open>
  \<open>math.Ceil\<close> as a value, and the conversions to integers. Go leaves the conversion of a
  value outside the range to the implementation: the models give 0 for \<open>uint64\<close> and the
  least value for \<open>int64\<close> there, and no property rests on either.
\<close>

definition f64_Ceil :: "f64 \<Rightarrow> f64" where
  "f64_Ceil x =
     (if f64_IsNaN x \<or> f64_IsInf x \<or> snd (f64_parts x) = 0 then x
      else let n = f64_ceil x in if n = 0 then 0x8000000000000000 else f64_of_int n)"

definition f64_to_u64 :: "f64 \<Rightarrow> u64" where
  "f64_to_u64 x =
     (if f64_IsNaN x \<or> f64_IsInf x \<or> f64_trunc x < 0 \<or> 2 ^ 64 \<le> f64_trunc x then 0
      else of_int (f64_trunc x))"

definition f64_to_i64 :: "f64 \<Rightarrow> int" where
  "f64_to_i64 x =
     (if f64_IsNaN x \<or> f64_IsInf x \<or> f64_trunc x < - (2 ^ 63) \<or> 2 ^ 63 \<le> f64_trunc x then - (2 ^ 63)
      else f64_trunc x)"

lemma f64_to_i64_bounds: "- (2 ^ 63) \<le> f64_to_i64 x \<and> f64_to_i64 x < 2 ^ 63"
  by (auto simp: f64_to_i64_def)

end
