(* ===== verification/GameplayWorld.thy ===== *)
theory GameplayWorld
  imports FloatArith
begin

text \<open>
  The baked gameplay world (\<open>internal/gameplayworld\<close>, with the base types of \<open>internal/world\<close>):
  surfaces, regions, maps, portals, blockers and gates, and the validation a definition has to
  pass before the server uses it. Error values keep the failed check, not the message text.
\<close>

section \<open>Base types\<close>

type_synonym layer_id = u16

record vec3 =
  v3_X :: f32
  v3_Y :: f32
  v3_Z :: f32

record position =
  pos_X :: f32
  pos_Y :: f32
  pos_Z :: f32
  pos_Layer :: layer_id

definition position_Add :: "position \<Rightarrow> vec3 \<Rightarrow> position" where
  "position_Add p v =
     p\<lparr>pos_X := f32_add (pos_X p) (v3_X v), pos_Y := f32_add (pos_Y p) (v3_Y v),
       pos_Z := f32_add (pos_Z p) (v3_Z v)\<rparr>"

definition DistanceXZSquared :: "position \<Rightarrow> position \<Rightarrow> f32" where
  "DistanceXZSquared p q =
     (let dx = f32_sub (pos_X p) (pos_X q); dz = f32_sub (pos_Z p) (pos_Z q)
      in f32_add (f32_mul dx dx) (f32_mul dz dz))"

definition DistanceSquared :: "position \<Rightarrow> position \<Rightarrow> f32" where
  "DistanceSquared p q =
     (let dx = f32_sub (pos_X p) (pos_X q); dy = f32_sub (pos_Y p) (pos_Y q);
          dz = f32_sub (pos_Z p) (pos_Z q)
      in f32_add (f32_add (f32_mul dx dx) (f32_mul dy dy)) (f32_mul dz dz))"

definition NormalizedXZ :: "vec3 \<Rightarrow> vec3" where
  "NormalizedXZ v =
     (let lengthSq = f64_of_f32 (f32_add (f32_mul (v3_X v) (v3_X v)) (f32_mul (v3_Z v) (v3_Z v)))
      in if \<not> f64_IsNaN lengthSq \<and> f64_rank lengthSq = 0 then \<lparr>v3_X = 0, v3_Y = 0, v3_Z = 0\<rparr>
         else let inv = f32_of_f64 (f64_div (f64_of_int 1) (f64_sqrt lengthSq))
              in \<lparr>v3_X = f32_mul (v3_X v) inv, v3_Y = 0, v3_Z = f32_mul (v3_Z v) inv\<rparr>)"

definition vec3_Scale :: "vec3 \<Rightarrow> f32 \<Rightarrow> vec3" where
  "vec3_Scale v k = \<lparr>v3_X = f32_mul (v3_X v) k, v3_Y = f32_mul (v3_Y v) k, v3_Z = f32_mul (v3_Z v) k\<rparr>"

section \<open>The definition\<close>

definition gw_SchemaVersion :: u16 where [go_defs]: "gw_SchemaVersion = 4"

record bounds_xz =
  bx_MinX :: f32
  bx_MaxX :: f32
  bx_MinZ :: f32
  bx_MaxZ :: f32

definition bounds_Contains :: "bounds_xz \<Rightarrow> f32 \<Rightarrow> f32 \<Rightarrow> bool" where
  "bounds_Contains b x z =
     (f32_leq (bx_MinX b) x \<and> f32_leq x (bx_MaxX b) \<and> f32_leq (bx_MinZ b) z \<and> f32_leq z (bx_MaxZ b))"

definition bounds_Expanded :: "bounds_xz \<Rightarrow> f32 \<Rightarrow> bounds_xz" where
  "bounds_Expanded b amount =
     \<lparr>bx_MinX = f32_sub (bx_MinX b) amount, bx_MaxX = f32_add (bx_MaxX b) amount,
      bx_MinZ = f32_sub (bx_MinZ b) amount, bx_MaxZ = f32_add (bx_MaxZ b) amount\<rparr>"

record surface_plane =
  sp_OriginX :: f32
  sp_OriginZ :: f32
  sp_BaseY :: f32
  sp_SlopeX :: f32
  sp_SlopeZ :: f32

definition HeightAt :: "surface_plane \<Rightarrow> f32 \<Rightarrow> f32 \<Rightarrow> f32" where
  "HeightAt p x z =
     f32_add (f32_add (sp_BaseY p) (f32_mul (f32_sub x (sp_OriginX p)) (sp_SlopeX p)))
       (f32_mul (f32_sub z (sp_OriginZ p)) (sp_SlopeZ p))"

record surface =
  su_ID :: string
  su_Layer :: layer_id
  su_Bounds :: bounds_xz
  su_Plane :: surface_plane

record portal =
  po_ID :: string
  po_FromLayer :: layer_id
  po_ToLayer :: layer_id
  po_Bounds :: bounds_xz
  po_Bidirectional :: bool

record blocker =
  bl_ID :: string
  bl_Layer :: layer_id
  bl_Bounds :: bounds_xz
  bl_MinY :: f32
  bl_MaxY :: f32
  bl_BlocksMovement :: bool
  bl_BlocksLOS :: bool
  bl_Enabled :: bool

record gate_attack_profile =
  ga_Range :: f32
  ga_Damage :: u32
  ga_CooldownSeconds :: f32

record gate =
  gt_ID :: string
  gt_BlockerID :: string
  gt_MaxHP :: u32
  gt_Attack :: gate_attack_profile

record point_xz =
  pt_X :: f32
  pt_Z :: f32

record region_core =
  rg_ID :: string
  rg_ParentID :: string
  rg_Layer :: layer_id
  rg_Polygon :: "point_xz list"

record map_envelope =
  me_WidthX :: f32
  me_LengthZ :: f32

record map_planning_range =
  mp_MinMeters :: f32
  mp_MaxMeters :: f32

record map_entrance =
  mt_ID :: string
  mt_Layer :: layer_id
  mt_Point :: point_xz

record map_authority =
  ma_ID :: string
  ma_Kind :: string
  ma_ScaleClass :: string
  ma_Envelope :: "map_envelope option"
  ma_PlanningRange :: "map_planning_range option"
  ma_Entrance :: "map_entrance option"
  ma_LevelCount :: u16
  ma_MaxDepthMeters :: f32
  ma_MainRouteMeters :: f32

record agent_defaults =
  ad_Radius :: f32
  ad_Height :: f32
  ad_MaxStepHeight :: f32

record gw_definition =
  gw_Schema :: u16
  gw_WorldID :: string
  gw_Revision :: string
  gw_Units :: string
  gw_Agent :: agent_defaults
  gw_Surfaces :: "surface list"
  gw_Regions :: "region_core list"
  gw_Maps :: "map_authority list"
  gw_Portals :: "portal list"
  gw_Blockers :: "blocker list"
  gw_Gates :: "gate list"

section \<open>Geometry\<close>

definition gw_finite :: "f32 \<Rightarrow> bool" where
  "gw_finite v = f32_finite v"

definition positiveFinite :: "f32 \<Rightarrow> bool" where
  "positiveFinite v = (gw_finite v \<and> f32_less 0 v)"

definition validBounds :: "bounds_xz \<Rightarrow> bool" where
  "validBounds b =
     (gw_finite (bx_MinX b) \<and> gw_finite (bx_MaxX b) \<and> gw_finite (bx_MinZ b) \<and> gw_finite (bx_MaxZ b) \<and>
      f32_less (bx_MinX b) (bx_MaxX b) \<and> f32_less (bx_MinZ b) (bx_MaxZ b))"

definition finitePlane :: "surface_plane \<Rightarrow> bool" where
  "finitePlane p =
     (gw_finite (sp_OriginX p) \<and> gw_finite (sp_OriginZ p) \<and> gw_finite (sp_BaseY p) \<and>
      gw_finite (sp_SlopeX p) \<and> gw_finite (sp_SlopeZ p))"

definition overlapsInterior :: "bounds_xz \<Rightarrow> bounds_xz \<Rightarrow> bool" where
  "overlapsInterior a b =
     (f32_less (bx_MinX a) (bx_MaxX b) \<and> f32_less (bx_MinX b) (bx_MaxX a) \<and>
      f32_less (bx_MinZ a) (bx_MaxZ b) \<and> f32_less (bx_MinZ b) (bx_MaxZ a))"

definition containsBounds :: "bounds_xz \<Rightarrow> bounds_xz \<Rightarrow> bool" where
  "containsBounds outer inner =
     (f32_leq (bx_MinX outer) (bx_MinX inner) \<and> f32_leq (bx_MaxX inner) (bx_MaxX outer) \<and>
      f32_leq (bx_MinZ outer) (bx_MinZ inner) \<and> f32_leq (bx_MaxZ inner) (bx_MaxZ outer))"

definition pointCoveredBySurface :: "surface list \<Rightarrow> layer_id \<Rightarrow> f32 \<Rightarrow> f32 \<Rightarrow> bool" where
  "pointCoveredBySurface surfaces layer x z =
     list_ex (\<lambda>s. su_Layer s = layer \<and> bounds_Contains (su_Bounds s) x z) surfaces"

definition surfaceContainingBounds :: "surface list \<Rightarrow> layer_id \<Rightarrow> bounds_xz \<Rightarrow> surface option" where
  "surfaceContainingBounds surfaces layer bounds =
     find (\<lambda>s. su_Layer s = layer \<and> containsBounds (su_Bounds s) bounds) surfaces"

text \<open>The constants \<open>1e-4\<close> and \<open>0.0001\<close> at \<open>float32\<close>, and \<open>1e-3\<close> at \<open>float64\<close>.\<close>

definition epsilon32 :: f32 where "epsilon32 = 0x38D1B717"

definition area_epsilon :: f64 where "area_epsilon = 0x3F50624DD2F1A9FC"

definition pointOnSegment :: "f32 \<Rightarrow> f32 \<Rightarrow> point_xz \<Rightarrow> point_xz \<Rightarrow> bool" where
  "pointOnSegment x z a b =
     (let cross = f32_sub (f32_mul (f32_sub x (pt_X a)) (f32_sub (pt_Z b) (pt_Z a)))
                    (f32_mul (f32_sub z (pt_Z a)) (f32_sub (pt_X b) (pt_X a)));
          dot = f32_add (f32_mul (f32_sub x (pt_X a)) (f32_sub x (pt_X b)))
                  (f32_mul (f32_sub z (pt_Z a)) (f32_sub z (pt_Z b)))
      in if f32_less epsilon32 (f32_abs cross) then False else f32_leq dot epsilon32)"

text \<open>Even-odd crossing test over the edges; a point on an edge is inside.\<close>

fun crossings :: "f32 \<Rightarrow> f32 \<Rightarrow> point_xz \<Rightarrow> point_xz list \<Rightarrow> bool \<Rightarrow> bool" where
  "crossings x z a [] inside = inside"
| "crossings x z a (b # rest) inside =
     (if pointOnSegment x z a b then True
      else if f32_less z (pt_Z a) \<noteq> f32_less z (pt_Z b)
      then let crossX = f32_add (f32_div (f32_mul (f32_sub (pt_X b) (pt_X a)) (f32_sub z (pt_Z a)))
                          (f32_sub (pt_Z b) (pt_Z a))) (pt_X a)
           in crossings x z b rest (if f32_less x crossX then \<not> inside else inside)
      else crossings x z b rest inside)"

definition region_Contains :: "region_core \<Rightarrow> f32 \<Rightarrow> f32 \<Rightarrow> bool" where
  "region_Contains r x z =
     (if length (rg_Polygon r) < 3 \<or> \<not> gw_finite x \<or> \<not> gw_finite z then False
      else crossings x z (last (rg_Polygon r)) (rg_Polygon r) False)"

definition RegionsAt :: "gw_definition \<Rightarrow> layer_id \<Rightarrow> f32 \<Rightarrow> f32 \<Rightarrow> region_core list" where
  "RegionsAt d layer x z = filter (\<lambda>r. rg_Layer r = layer \<and> region_Contains r x z) (gw_Regions d)"

definition gw_Map :: "gw_definition \<Rightarrow> string \<Rightarrow> map_authority option" where
  "gw_Map d i = find (\<lambda>m. ma_ID m = i) (gw_Maps d)"

section \<open>Validation of regions\<close>

datatype region_error =
  RegionShape | RegionDuplicate string | RegionPointNotFinite string | RegionPointOutside string |
  RegionZeroArea string | RegionParentMissing string | RegionParentLayer string | RegionCycle string

text \<open>The points of one polygon, each with its successor; the doubled signed area is summed up.\<close>

fun polygonArea ::
  "surface list \<Rightarrow> region_core \<Rightarrow> (point_xz \<times> point_xz) list \<Rightarrow> f64 \<Rightarrow> region_error + f64" where
  "polygonArea surfaces r [] area2 = Inr area2"
| "polygonArea surfaces r ((point, nxt) # rest) area2 =
     (if \<not> gw_finite (pt_X point) \<or> \<not> gw_finite (pt_Z point) then Inl (RegionPointNotFinite (rg_ID r))
      else if \<not> pointCoveredBySurface surfaces (rg_Layer r) (pt_X point) (pt_Z point)
      then Inl (RegionPointOutside (rg_ID r))
      else polygonArea surfaces r rest
        (f64_add area2
          (f64_sub (f64_mul (f64_of_f32 (pt_X point)) (f64_of_f32 (pt_Z nxt)))
             (f64_mul (f64_of_f32 (pt_X nxt)) (f64_of_f32 (pt_Z point))))))"

fun scanRegions ::
  "surface list \<Rightarrow> region_core list \<Rightarrow> (string, region_core) fmap \<Rightarrow> region_error + (string, region_core) fmap" where
  "scanRegions surfaces [] regions = Inr regions"
| "scanRegions surfaces (region # rest) regions =
     (if rg_ID region = '''' \<or> length (rg_Polygon region) < 3 then Inl RegionShape
      else if gomap_has regions (rg_ID region) then Inl (RegionDuplicate (rg_ID region))
      else case polygonArea surfaces region (zip (rg_Polygon region) (rotate1 (rg_Polygon region))) 0 of
             Inl e \<Rightarrow> Inl e
           | Inr area2 \<Rightarrow>
               if f64_less (f64_abs area2) area_epsilon then Inl (RegionZeroArea (rg_ID region))
               else scanRegions surfaces rest (fmupd (rg_ID region) region regions))"

definition zero_region :: region_core where
  "zero_region = \<lparr>rg_ID = '''', rg_ParentID = '''', rg_Layer = 0, rg_Polygon = []\<rparr>"

text \<open>The walk up the parents, with the set of ids already seen; the answer is a repeated id.\<close>

function parentWalk :: "(string, region_core) fmap \<Rightarrow> string \<Rightarrow> string set \<Rightarrow> string option" where
  "parentWalk regions current seen =
     (if current = '''' then None
      else if current \<in> seen then Some current
      else parentWalk regions (rg_ParentID (gomap_at zero_region regions current)) (insert current seen))"
  by pat_completeness auto

termination
proof (relation "measure (\<lambda>(regions, current, seen). card (fmdom' regions - seen) + (if current = '''' then 0 else 1))",
    goal_cases)
  case (2 regions current seen)
  show ?case
  proof (cases "current \<in> fmdom' regions")
    case True
    with 2 have "card (fmdom' regions - insert current seen) < card (fmdom' regions - seen)"
      by (intro psubset_card_mono) auto
    then show ?thesis using 2 by simp
  next
    case False
    then have "gomap_at zero_region regions current = zero_region"
      by (simp add: gomap_at_def fmlookup_dom'_iff split: option.split)
    moreover from False have "fmdom' regions - insert current seen = fmdom' regions - seen" by auto
    ultimately show ?thesis using 2 by (simp add: zero_region_def)
  qed
qed simp

declare parentWalk.simps [simp del]

fun scanParents :: "(string, region_core) fmap \<Rightarrow> region_core list \<Rightarrow> region_error option" where
  "scanParents regions [] = None"
| "scanParents regions (region # rest) =
     (if rg_ParentID region = '''' then scanParents regions rest
      else case fmlookup regions (rg_ParentID region) of
             None \<Rightarrow> Some (RegionParentMissing (rg_ID region))
           | Some parent \<Rightarrow>
               if rg_Layer parent \<noteq> rg_Layer region then Some (RegionParentLayer (rg_ID region))
               else case parentWalk regions (rg_ParentID region) {rg_ID region} of
                      Some _ \<Rightarrow> Some (RegionCycle (rg_ID region))
                    | None \<Rightarrow> scanParents regions rest)"

definition validateRegions :: "gw_definition \<Rightarrow> region_error option" where
  "validateRegions d =
     (case scanRegions (gw_Surfaces d) (gw_Regions d) fmempty of
        Inl e \<Rightarrow> Some e
      | Inr regions \<Rightarrow> scanParents regions (gw_Regions d))"

section \<open>Validation of maps\<close>

definition MapKindOverworld :: string where [go_defs]: "MapKindOverworld = ''overworld''"
definition MapKindUnderground :: string where [go_defs]: "MapKindUnderground = ''underground''"
definition MapScaleSmall :: string where [go_defs]: "MapScaleSmall = ''small''"
definition MapScaleMedium :: string where [go_defs]: "MapScaleMedium = ''medium''"
definition MapScaleLarge :: string where [go_defs]: "MapScaleLarge = ''large''"

datatype map_error =
  MapNoID | MapDuplicate string | MapNeedsEnvelope string | MapNoEntrance string | MapScale string |
  MapOneExtent string | MapKindUnknown string | MapEnvelope string | MapPlanning string |
  MapDepth string | MapRoute string | MapEntranceInvalid string | MapEntranceDuplicate string |
  MapEntranceOutside string

definition mapShape :: "map_authority \<Rightarrow> map_error option" where
  "mapShape m =
     (if ma_Kind m = MapKindOverworld
      then (if ma_Envelope m = None \<or> ma_PlanningRange m \<noteq> None then Some (MapNeedsEnvelope (ma_ID m)) else None)
      else if ma_Kind m = MapKindUnderground
      then (if ma_Entrance m = None then Some (MapNoEntrance (ma_ID m))
            else if ma_ScaleClass m \<noteq> MapScaleSmall \<and> ma_ScaleClass m \<noteq> MapScaleMedium \<and>
                    ma_ScaleClass m \<noteq> MapScaleLarge then Some (MapScale (ma_ID m))
            else if (ma_Envelope m = None) = (ma_PlanningRange m = None) then Some (MapOneExtent (ma_ID m))
            else None)
      else Some (MapKindUnknown (ma_ID m)))"

definition mapExtent :: "map_authority \<Rightarrow> map_error option" where
  "mapExtent m =
     (if (case ma_Envelope m of None \<Rightarrow> False
          | Some v \<Rightarrow> \<not> positiveFinite (me_WidthX v) \<or> \<not> positiveFinite (me_LengthZ v))
      then Some (MapEnvelope (ma_ID m))
      else if (case ma_PlanningRange m of None \<Rightarrow> False
          | Some r \<Rightarrow> \<not> positiveFinite (mp_MinMeters r) \<or> \<not> positiveFinite (mp_MaxMeters r) \<or>
              f32_less (mp_MaxMeters r) (mp_MinMeters r))
      then Some (MapPlanning (ma_ID m))
      else if \<not> f32_eq (ma_MaxDepthMeters m) 0 \<and> \<not> positiveFinite (ma_MaxDepthMeters m)
      then Some (MapDepth (ma_ID m))
      else if \<not> f32_eq (ma_MainRouteMeters m) 0 \<and> \<not> positiveFinite (ma_MainRouteMeters m)
      then Some (MapRoute (ma_ID m))
      else None)"

fun scanMaps :: "surface list \<Rightarrow> map_authority list \<Rightarrow> string set \<Rightarrow> string set \<Rightarrow> map_error option" where
  "scanMaps surfaces [] ids entranceIDs = None"
| "scanMaps surfaces (m # rest) ids entranceIDs =
     (if ma_ID m = '''' then Some MapNoID
      else if ma_ID m \<in> ids then Some (MapDuplicate (ma_ID m))
      else case mapShape m of Some e \<Rightarrow> Some e | None \<Rightarrow>
        (case mapExtent m of Some e \<Rightarrow> Some e | None \<Rightarrow>
          (case ma_Entrance m of
             None \<Rightarrow> scanMaps surfaces rest (insert (ma_ID m) ids) entranceIDs
           | Some en \<Rightarrow>
               if mt_ID en = '''' \<or> \<not> gw_finite (pt_X (mt_Point en)) \<or> \<not> gw_finite (pt_Z (mt_Point en))
               then Some (MapEntranceInvalid (ma_ID m))
               else if mt_ID en \<in> entranceIDs then Some (MapEntranceDuplicate (mt_ID en))
               else if \<not> pointCoveredBySurface surfaces (mt_Layer en) (pt_X (mt_Point en)) (pt_Z (mt_Point en))
               then Some (MapEntranceOutside (ma_ID m))
               else scanMaps surfaces rest (insert (ma_ID m) ids) (insert (mt_ID en) entranceIDs))))"

definition validateMaps :: "gw_definition \<Rightarrow> map_error option" where
  "validateMaps d = scanMaps (gw_Surfaces d) (gw_Maps d) {} {}"

section \<open>Validation of the definition\<close>

datatype gw_reason =
  IdentityOrUnits | AgentDefaults | NoSurface | SurfaceInvalid | SurfaceDuplicate string |
  SurfacesOverlap string string | Regions region_error | Maps map_error | PortalInvalid |
  PortalFromLayer string | PortalToLayer string | PortalDuplicate string | PortalOutsideFrom string |
  PortalOutsideTo string | PortalStep string | BlockerInvalid | BlockerBlocksNothing string |
  BlockerLayer string | BlockerDuplicate string | GateInvalid | GateDuplicate string |
  GateBlockerMissing string | GateBlockerState string | GateBlockerClaimed string

datatype gw_error = ErrUnsupportedSchema | ErrInvalidDefinition gw_reason

fun scanSurfaces :: "surface list \<Rightarrow> string set \<Rightarrow> gw_reason option" where
  "scanSurfaces [] ids = None"
| "scanSurfaces (s # rest) ids =
     (if su_ID s = '''' \<or> \<not> validBounds (su_Bounds s) \<or> \<not> finitePlane (su_Plane s) then Some SurfaceInvalid
      else if su_ID s \<in> ids then Some (SurfaceDuplicate (su_ID s))
      else scanSurfaces rest (insert (su_ID s) ids))"

fun scanOverlaps :: "surface list \<Rightarrow> gw_reason option" where
  "scanOverlaps [] = None"
| "scanOverlaps (a # rest) =
     (case find (\<lambda>b. su_Layer a = su_Layer b \<and> overlapsInterior (su_Bounds a) (su_Bounds b)) rest of
        Some b \<Rightarrow> Some (SurfacesOverlap (su_ID a) (su_ID b))
      | None \<Rightarrow> scanOverlaps rest)"

fun scanPortals :: "layer_id set \<Rightarrow> portal list \<Rightarrow> string set \<Rightarrow> gw_reason option" where
  "scanPortals layers [] ids = None"
| "scanPortals layers (p # rest) ids =
     (if po_ID p = '''' \<or> \<not> validBounds (po_Bounds p) \<or> po_FromLayer p = po_ToLayer p then Some PortalInvalid
      else if po_FromLayer p \<notin> layers then Some (PortalFromLayer (po_ID p))
      else if po_ToLayer p \<notin> layers then Some (PortalToLayer (po_ID p))
      else if po_ID p \<in> ids then Some (PortalDuplicate (po_ID p))
      else scanPortals layers rest (insert (po_ID p) ids))"

definition bounds_corners :: "bounds_xz \<Rightarrow> (f32 \<times> f32) list" where
  "bounds_corners b =
     [(bx_MinX b, bx_MinZ b), (bx_MaxX b, bx_MinZ b), (bx_MaxX b, bx_MaxZ b), (bx_MinX b, bx_MaxZ b)]"

fun ValidatePortalGeometry :: "gw_definition \<Rightarrow> portal list \<Rightarrow> gw_reason option" where
  "ValidatePortalGeometry d [] = None"
| "ValidatePortalGeometry d (p # rest) =
     (case surfaceContainingBounds (gw_Surfaces d) (po_FromLayer p) (po_Bounds p) of
        None \<Rightarrow> Some (PortalOutsideFrom (po_ID p))
      | Some frm \<Rightarrow>
          (case surfaceContainingBounds (gw_Surfaces d) (po_ToLayer p) (po_Bounds p) of
             None \<Rightarrow> Some (PortalOutsideTo (po_ID p))
           | Some tgt \<Rightarrow>
               if list_ex (\<lambda>(x, z).
                    f32_less (f32_add (ad_MaxStepHeight (gw_Agent d)) epsilon32)
                      (f32_abs (f32_sub (HeightAt (su_Plane frm) x z) (HeightAt (su_Plane tgt) x z))))
                    (bounds_corners (po_Bounds p))
               then Some (PortalStep (po_ID p))
               else ValidatePortalGeometry d rest))"

fun scanBlockers ::
  "layer_id set \<Rightarrow> blocker list \<Rightarrow> (string, blocker) fmap \<Rightarrow> gw_reason + (string, blocker) fmap" where
  "scanBlockers layers [] blockers = Inr blockers"
| "scanBlockers layers (b # rest) blockers =
     (if bl_ID b = '''' \<or> \<not> validBounds (bl_Bounds b) \<or> \<not> gw_finite (bl_MinY b) \<or> \<not> gw_finite (bl_MaxY b) \<or>
         f32_less (bl_MaxY b) (bl_MinY b) then Inl BlockerInvalid
      else if \<not> bl_BlocksMovement b \<and> \<not> bl_BlocksLOS b then Inl (BlockerBlocksNothing (bl_ID b))
      else if bl_BlocksMovement b \<and> bl_Layer b \<notin> layers then Inl (BlockerLayer (bl_ID b))
      else if gomap_has blockers (bl_ID b) then Inl (BlockerDuplicate (bl_ID b))
      else scanBlockers layers rest (fmupd (bl_ID b) b blockers))"

fun scanGates :: "(string, blocker) fmap \<Rightarrow> gate list \<Rightarrow> string set \<Rightarrow> string set \<Rightarrow> gw_reason option" where
  "scanGates blockers [] ids claimed = None"
| "scanGates blockers (g # rest) ids claimed =
     (if gt_ID g = '''' \<or> gt_BlockerID g = '''' \<or> gt_MaxHP g = 0 \<or> \<not> positiveFinite (ga_Range (gt_Attack g)) \<or>
         ga_Damage (gt_Attack g) = 0 \<or> \<not> positiveFinite (ga_CooldownSeconds (gt_Attack g))
      then Some GateInvalid
      else if gt_ID g \<in> ids then Some (GateDuplicate (gt_ID g))
      else case fmlookup blockers (gt_BlockerID g) of
             None \<Rightarrow> Some (GateBlockerMissing (gt_ID g))
           | Some b \<Rightarrow>
               if \<not> bl_Enabled b \<or> \<not> bl_BlocksMovement b then Some (GateBlockerState (gt_ID g))
               else if gt_BlockerID g \<in> claimed then Some (GateBlockerClaimed (gt_BlockerID g))
               else scanGates blockers rest (insert (gt_ID g) ids) (insert (gt_BlockerID g) claimed))"

definition gw_layers :: "surface list \<Rightarrow> layer_id set" where
  "gw_layers surfaces = set (map su_Layer surfaces)"

definition gw_Validate :: "gw_definition \<Rightarrow> gw_error option" where
  "gw_Validate d =
     (if gw_Schema d \<noteq> gw_SchemaVersion then Some ErrUnsupportedSchema
      else map_option ErrInvalidDefinition
        (if gw_WorldID d = '''' \<or> gw_Revision d = '''' \<or> gw_Units d \<noteq> ''meters'' then Some IdentityOrUnits
         else if \<not> positiveFinite (ad_Radius (gw_Agent d)) \<or> \<not> positiveFinite (ad_Height (gw_Agent d)) \<or>
                 \<not> positiveFinite (ad_MaxStepHeight (gw_Agent d)) then Some AgentDefaults
         else if gw_Surfaces d = [] then Some NoSurface
         else case scanSurfaces (gw_Surfaces d) {} of Some e \<Rightarrow> Some e | None \<Rightarrow>
           (case scanOverlaps (gw_Surfaces d) of Some e \<Rightarrow> Some e | None \<Rightarrow>
           (case validateRegions d of Some e \<Rightarrow> Some (Regions e) | None \<Rightarrow>
           (case validateMaps d of Some e \<Rightarrow> Some (Maps e) | None \<Rightarrow>
           (case scanPortals (gw_layers (gw_Surfaces d)) (gw_Portals d) {} of Some e \<Rightarrow> Some e | None \<Rightarrow>
           (case ValidatePortalGeometry d (gw_Portals d) of Some e \<Rightarrow> Some e | None \<Rightarrow>
           (case scanBlockers (gw_layers (gw_Surfaces d)) (gw_Blockers d) fmempty of Inl e \<Rightarrow> Some e
            | Inr blockers \<Rightarrow> scanGates blockers (gw_Gates d) {} {}))))))))"

section \<open>What a valid definition guarantees\<close>

lemma gw_Validate_parts:
  assumes "gw_Validate d = None"
  obtains blockers where "validateRegions d = None"
    "scanBlockers (gw_layers (gw_Surfaces d)) (gw_Blockers d) fmempty = Inr blockers"
    "scanGates blockers (gw_Gates d) {} {} = None"
  using assms by (auto simp: gw_Validate_def split: if_splits option.splits sum.splits)

text \<open>Gates and blockers.\<close>

lemma find_key_upd:
  assumes "key x \<notin> key ` set xs"
  shows "(case find (\<lambda>y. key y = i) xs of Some y \<Rightarrow> Some y | None \<Rightarrow> fmlookup (fmupd (key x) x m) i) =
    (case find (\<lambda>y. key y = i) (x # xs) of Some y \<Rightarrow> Some y | None \<Rightarrow> fmlookup m i)"
proof (cases "key x = i")
  case True
  with assms have "find (\<lambda>y. key y = i) xs = None" by (auto simp: find_None_iff image_iff)
  with True show ?thesis by simp
qed (simp split: option.split)

lemma scanBlockers_Inr:
  assumes "scanBlockers layers bs m = Inr m'"
  shows "distinct (map bl_ID bs) \<and> (\<forall>b \<in> set bs. \<not> gomap_has m (bl_ID b)) \<and>
    (\<forall>i. fmlookup m' i = (case find (\<lambda>b. bl_ID b = i) bs of Some b \<Rightarrow> Some b | None \<Rightarrow> fmlookup m i))"
  using assms
proof (induction bs arbitrary: m)
  case (Cons b bs)
  from Cons.prems have rest: "scanBlockers layers bs (fmupd (bl_ID b) b m) = Inr m'"
      and new: "\<not> gomap_has m (bl_ID b)"
    by (auto split: if_splits)
  note ih = Cons.IH [OF rest]
  then have fresh: "bl_ID b \<notin> bl_ID ` set bs" by auto
  note find_key_upd [OF fresh]
  with ih new fresh show ?case by simp
qed simp

definition gate_ok :: "(string, blocker) fmap \<Rightarrow> gate \<Rightarrow> bool" where
  "gate_ok blockers g =
     (gt_ID g \<noteq> '''' \<and> gt_BlockerID g \<noteq> '''' \<and> gt_MaxHP g \<noteq> 0 \<and> ga_Damage (gt_Attack g) \<noteq> 0 \<and>
      (\<exists>b. fmlookup blockers (gt_BlockerID g) = Some b \<and> bl_Enabled b \<and> bl_BlocksMovement b))"

lemma scanGates_None:
  assumes "scanGates blockers gs ids claimed = None"
  shows "distinct (map gt_ID gs) \<and> distinct (map gt_BlockerID gs) \<and> (\<forall>g \<in> set gs. gate_ok blockers g) \<and>
    (\<forall>g \<in> set gs. gt_ID g \<notin> ids \<and> gt_BlockerID g \<notin> claimed)"
  using assms
proof (induction gs arbitrary: ids claimed)
  case (Cons g gs)
  from Cons.prems have rest: "scanGates blockers gs (insert (gt_ID g) ids) (insert (gt_BlockerID g) claimed) = None"
      and new: "gt_ID g \<notin> ids" "gt_BlockerID g \<notin> claimed" "gate_ok blockers g"
    by (auto simp: gate_ok_def split: if_splits option.splits)
  from Cons.IH [OF rest] new show ?case by auto
qed simp

text \<open>Regions.\<close>

definition region_parent :: "region_core list \<Rightarrow> string \<Rightarrow> string" where
  "region_parent regions i =
     (case find (\<lambda>r. rg_ID r = i) regions of None \<Rightarrow> '''' | Some r \<Rightarrow> rg_ParentID r)"

lemma scanRegions_Inr:
  assumes "scanRegions surfaces rs m = Inr m'"
  shows "distinct (map rg_ID rs) \<and> (\<forall>r \<in> set rs. \<not> gomap_has m (rg_ID r) \<and> rg_ID r \<noteq> '''') \<and>
    (\<forall>i. fmlookup m' i = (case find (\<lambda>r. rg_ID r = i) rs of Some r \<Rightarrow> Some r | None \<Rightarrow> fmlookup m i))"
  using assms
proof (induction rs arbitrary: m)
  case (Cons r rs)
  from Cons.prems have rest: "scanRegions surfaces rs (fmupd (rg_ID r) r m) = Inr m'"
      and new: "\<not> gomap_has m (rg_ID r)" "rg_ID r \<noteq> ''''"
    by (auto split: if_splits sum.splits)
  note ih = Cons.IH [OF rest]
  then have fresh: "rg_ID r \<notin> rg_ID ` set rs" by auto
  note find_key_upd [OF fresh]
  with ih new fresh show ?case by simp
qed simp

lemma scanParents_None:
  "scanParents regions rs = None \<Longrightarrow> r \<in> set rs \<Longrightarrow> rg_ParentID r \<noteq> '''' \<Longrightarrow>
     (\<exists>p. fmlookup regions (rg_ParentID r) = Some p \<and> rg_Layer p = rg_Layer r) \<and>
     parentWalk regions (rg_ParentID r) {rg_ID r} = None"
  by (induction rs) (auto split: if_splits option.splits)

lemma parentWalk_reaches:
  "parentWalk regions c seen = None \<Longrightarrow>
     \<exists>n. ((\<lambda>i. rg_ParentID (gomap_at zero_region regions i)) ^^ n) c = ''''"
proof (induction regions c seen rule: parentWalk.induct)
  case (1 regions c seen)
  show ?case
  proof (cases "c = ''''")
    case True
    then show ?thesis by (intro exI [of _ 0]) simp
  next
    case False
    with 1 obtain n where "((\<lambda>i. rg_ParentID (gomap_at zero_region regions i)) ^^ n)
        (rg_ParentID (gomap_at zero_region regions c)) = ''''"
      by (subst (asm) (2) parentWalk.simps) (auto split: if_splits)
    then show ?thesis by (intro exI [of _ "Suc n"]) (simp only: funpow_Suc_right o_apply)
  qed
qed

text \<open>A walk that ends repeats no id before it ends.\<close>

lemma funpow_reach_bound:
  fixes f :: "'a \<Rightarrow> 'a"
  assumes "(f ^^ n) x = z" and least: "\<And>i. i < n \<Longrightarrow> (f ^^ i) x \<noteq> z"
    and "finite A" and "\<And>i. i < n \<Longrightarrow> (f ^^ i) x \<in> A"
  shows "n \<le> card A"
proof -
  have "inj_on (\<lambda>i. (f ^^ i) x) {..<n}"
  proof (rule linorder_inj_onI)
    fix i j assume ij: "i < j" "i \<in> {..<n}" "j \<in> {..<n}"
    show "(f ^^ i) x \<noteq> (f ^^ j) x"
    proof
      assume e: "(f ^^ i) x = (f ^^ j) x"
      have "(f ^^ (n - j + i)) x = (f ^^ (n - j)) ((f ^^ i) x)" by (simp add: funpow_add)
      also have "\<dots> = (f ^^ (n - j + j)) x" unfolding e by (simp add: funpow_add)
      also have "\<dots> = z" using ij assms(1) by simp
      finally have "(f ^^ (n - j + i)) x = z" .
      moreover have "n - j + i < n" using ij by simp
      ultimately show False using least by blast
    qed
  qed auto
  moreover have "(\<lambda>i. (f ^^ i) x) ` {..<n} \<subseteq> A" using assms(4) by auto
  ultimately have "card {..<n} \<le> card A" using assms(3) by (rule card_inj_on_le)
  then show ?thesis by simp
qed

text \<open>
  C37. A valid definition's regions form a forest: from every region the walk along the parent
  ids ends after at most as many steps as there are regions, and every id met on the way belongs to a
  defined region on the same layer. So the ancestor walks of the server terminate.
\<close>

theorem regions_form_forest:
  assumes "gw_Validate d = None" and "r \<in> set (gw_Regions d)"
  shows "\<exists>n \<le> length (gw_Regions d). (region_parent (gw_Regions d) ^^ n) (rg_ID r) = '''' \<and>
    (\<forall>i < n. \<exists>a \<in> set (gw_Regions d).
       rg_ID a = (region_parent (gw_Regions d) ^^ i) (rg_ID r) \<and> rg_Layer a = rg_Layer r)"
proof -
  define rs where "rs = gw_Regions d"
  define P where "P = region_parent rs"
  from gw_Validate_parts [OF assms(1)] have "validateRegions d = None" by blast
  then obtain regions where scan: "scanRegions (gw_Surfaces d) rs fmempty = Inr regions"
      and par: "scanParents regions rs = None"
    by (auto simp: validateRegions_def rs_def split: sum.splits)
  note reg = scanRegions_Inr [OF scan, simplified]
  have parent: "rg_ParentID (gomap_at zero_region regions i) = P i" for i
    using reg by (simp add: P_def region_parent_def gomap_at_def zero_region_def split: option.split)
  have found: "find (\<lambda>b. rg_ID b = rg_ID a) rs = Some a" if "a \<in> set rs" for a
  proof -
    from that have "find (\<lambda>b. rg_ID b = rg_ID a) rs \<noteq> None" by (auto simp: find_None_iff)
    then obtain b where b: "find (\<lambda>b. rg_ID b = rg_ID a) rs = Some b" by auto
    then have "b \<in> set rs" "rg_ID b = rg_ID a" by (auto simp: find_Some_iff in_set_conv_nth)
    with reg that have "b = a" by (auto simp: distinct_map inj_on_def)
    with b show ?thesis by simp
  qed
  have step: "P (rg_ID a) = '''' \<or> (\<exists>p \<in> set rs. rg_ID p = P (rg_ID a) \<and> rg_Layer p = rg_Layer a)"
    if a: "a \<in> set rs" for a
  proof (cases "rg_ParentID a = ''''")
    case False
    from scanParents_None [OF par a False] reg obtain p
      where "find (\<lambda>r. rg_ID r = rg_ParentID a) rs = Some p" "rg_Layer p = rg_Layer a"
      by (auto split: option.splits)
    then have "p \<in> set rs \<and> rg_ID p = rg_ParentID a \<and> rg_Layer p = rg_Layer a"
      by (auto simp: find_Some_iff in_set_conv_nth)
    then show ?thesis using found [OF a] by (auto simp: P_def region_parent_def)
  qed (simp add: P_def region_parent_def found [OF a])
  have r: "r \<in> set rs" using assms(2) by (simp add: rs_def)
  obtain m where m: "(P ^^ m) (rg_ID r) = ''''"
  proof (cases "rg_ParentID r = ''''")
    case True
    then have "(P ^^ 1) (rg_ID r) = ''''" by (simp add: P_def region_parent_def found [OF r])
    then show ?thesis by (rule that)
  next
    case False
    from scanParents_None [OF par r False] obtain n where "(P ^^ n) (rg_ParentID r) = ''''"
      using parentWalk_reaches [of regions "rg_ParentID r" "{rg_ID r}"] by (auto simp: parent)
    moreover have "P (rg_ID r) = rg_ParentID r" by (simp add: P_def region_parent_def found [OF r])
    ultimately have "(P ^^ Suc n) (rg_ID r) = ''''" by (simp only: funpow_Suc_right o_apply)
    then show ?thesis by (rule that)
  qed
  define n where "n = (LEAST n. (P ^^ n) (rg_ID r) = '''')"
  have n: "(P ^^ n) (rg_ID r) = ''''" unfolding n_def by (rule LeastI) (rule m)
  have before: "(P ^^ i) (rg_ID r) \<noteq> ''''" if "i < n" for i
    using that not_less_Least [of i] by (simp add: n_def)
  have chain: "\<exists>a \<in> set rs. rg_ID a = (P ^^ i) (rg_ID r) \<and> rg_Layer a = rg_Layer r" if "i < n" for i
    using that
  proof (induction i)
    case 0
    then show ?case using r by auto
  next
    case (Suc i)
    then obtain a where a: "a \<in> set rs" "rg_ID a = (P ^^ i) (rg_ID r)" "rg_Layer a = rg_Layer r" by auto
    from step [OF a(1)] before [OF Suc.prems] show ?case unfolding a(2) by (auto simp: a(3))
  qed
  have "n \<le> card (rg_ID ` set rs)"
  proof (rule funpow_reach_bound [OF n before])
    show "(P ^^ i) (rg_ID r) \<in> rg_ID ` set rs" if "i < n" for i
      using chain [OF that] by force
  qed simp_all
  also have "\<dots> \<le> length rs" by (rule order_trans [OF card_image_le card_length]) simp
  finally show ?thesis
    using n chain unfolding P_def rs_def by blast
qed

definition sample_bounds :: bounds_xz where
  "sample_bounds = \<lparr>bx_MinX = 0, bx_MaxX = 0x41200000, bx_MinZ = 0, bx_MaxZ = 0x41200000\<rparr>"

definition sample_region :: "string \<Rightarrow> string \<Rightarrow> region_core" where
  "sample_region i parent = \<lparr>rg_ID = i, rg_ParentID = parent, rg_Layer = 0,
     rg_Polygon = [\<lparr>pt_X = 0, pt_Z = 0\<rparr>, \<lparr>pt_X = 0x3F800000, pt_Z = 0\<rparr>, \<lparr>pt_X = 0, pt_Z = 0x3F800000\<rparr>]\<rparr>"

definition sample_blocker :: "string \<Rightarrow> blocker" where
  "sample_blocker i = \<lparr>bl_ID = i, bl_Layer = 0,
     bl_Bounds = \<lparr>bx_MinX = f32_of_int 4, bx_MaxX = f32_of_int 5, bx_MinZ = f32_of_int 4, bx_MaxZ = f32_of_int 5\<rparr>,
     bl_MinY = 0, bl_MaxY = f32_of_int 3, bl_BlocksMovement = True, bl_BlocksLOS = True, bl_Enabled = True\<rparr>"

definition sample_gw :: gw_definition where
  "sample_gw = \<lparr>gw_Schema = 4, gw_WorldID = ''w'', gw_Revision = ''1'', gw_Units = ''meters'',
     gw_Agent = \<lparr>ad_Radius = f32_of_int 1, ad_Height = f32_of_int 2, ad_MaxStepHeight = f32_of_int 1\<rparr>,
     gw_Surfaces = [\<lparr>su_ID = ''s'', su_Layer = 0, su_Bounds = sample_bounds,
       su_Plane = \<lparr>sp_OriginX = 0, sp_OriginZ = 0, sp_BaseY = 0, sp_SlopeX = 0, sp_SlopeZ = 0\<rparr>\<rparr>],
     gw_Regions = [sample_region ''inner'' ''outer'', sample_region ''outer'' ''''],
     gw_Maps = [], gw_Portals = [], gw_Blockers = [sample_blocker ''door''],
     gw_Gates = [\<lparr>gt_ID = ''gate'', gt_BlockerID = ''door'', gt_MaxHP = 100,
       gt_Attack = \<lparr>ga_Range = f32_of_int 5, ga_Damage = 30, ga_CooldownSeconds = f32_of_int 1\<rparr>\<rparr>]\<rparr>"

lemma sample_f64_conversions:
  "f64_of_f32 0 = 0" "f64_of_f32 0x3F800000 = 0x3FF0000000000000"
  by code_simp+

lemma sample_f64_products:
  "f64_mul 0 0 = 0" "f64_mul 0x3FF0000000000000 0 = 0" "f64_mul 0 0x3FF0000000000000 = 0"
  "f64_mul 0x3FF0000000000000 0x3FF0000000000000 = 0x3FF0000000000000"
  by code_simp+

lemma sample_f64_sums:
  "f64_sub 0 0 = 0" "f64_sub 0x3FF0000000000000 0 = 0x3FF0000000000000"
  "f64_add 0 0 = 0" "f64_add 0 0x3FF0000000000000 = 0x3FF0000000000000"
  "f64_add 0x3FF0000000000000 0 = 0x3FF0000000000000"
  by code_simp+

lemma sample_points_covered:
  "pointCoveredBySurface (gw_Surfaces sample_gw) 0 0 0"
  "pointCoveredBySurface (gw_Surfaces sample_gw) 0 0x3F800000 0"
  "pointCoveredBySurface (gw_Surfaces sample_gw) 0 0 0x3F800000"
  "gw_finite 0" "gw_finite 0x3F800000" "\<not> f64_less (f64_abs 0x3FF0000000000000) area_epsilon"
  by code_simp+

lemma sample_area:
  "polygonArea (gw_Surfaces sample_gw) (sample_region i p)
     (zip (rg_Polygon (sample_region i p)) (rotate1 (rg_Polygon (sample_region i p)))) 0 =
     Inr 0x3FF0000000000000"
  by (simp add: sample_region_def sample_f64_conversions sample_f64_products sample_f64_sums
      sample_points_covered)

lemma sample_region_simps [simp]:
  "rg_ID (sample_region i p) = i" "rg_ParentID (sample_region i p) = p" "rg_Layer (sample_region i p) = 0"
  "length (rg_Polygon (sample_region i p)) = 3"
  by (simp_all add: sample_region_def)

lemma sample_regions_valid: "validateRegions sample_gw = None"
proof -
  define m where "m = fmupd ''outer'' (sample_region ''outer'' '''')
    (fmupd ''inner'' (sample_region ''inner'' ''outer'') fmempty)"
  have regions: "gw_Regions sample_gw = [sample_region ''inner'' ''outer'', sample_region ''outer'' '''']"
    by (simp add: sample_gw_def)
  have scan: "scanRegions (gw_Surfaces sample_gw) (gw_Regions sample_gw) fmempty = Inr m"
    unfolding regions by (simp add: sample_area sample_points_covered m_def)
  have walk: "parentWalk m ''outer'' {''inner''} = None"
    by (subst parentWalk.simps, simp add: m_def gomap_at_def)+
  show ?thesis
    unfolding validateRegions_def scan by (simp add: regions m_def walk [unfolded m_def])
qed

lemma sample_gw_valid: "gw_Validate sample_gw = None"
proof -
  have "scanSurfaces (gw_Surfaces sample_gw) {} = None" "positiveFinite (ad_Radius (gw_Agent sample_gw))"
    "positiveFinite (ad_Height (gw_Agent sample_gw))" "positiveFinite (ad_MaxStepHeight (gw_Agent sample_gw))"
    "scanOverlaps (gw_Surfaces sample_gw) = None"
    "(case scanBlockers (gw_layers (gw_Surfaces sample_gw)) (gw_Blockers sample_gw) fmempty of
        Inl e \<Rightarrow> Some e | Inr blockers \<Rightarrow> scanGates blockers (gw_Gates sample_gw) {} {}) = None"
    by code_simp+
  moreover have "gw_Schema sample_gw = 4" "gw_WorldID sample_gw \<noteq> ''''" "gw_Revision sample_gw \<noteq> ''''"
    "gw_Units sample_gw = ''meters''" "gw_Surfaces sample_gw \<noteq> []" "gw_Maps sample_gw = []" "gw_Portals sample_gw = []"
    by (simp_all add: sample_gw_def)
  ultimately show ?thesis
    by (simp add: gw_Validate_def gw_SchemaVersion_def sample_regions_valid validateMaps_def)
qed

theorem regions_form_forest_witness:
  "\<exists>n \<le> 2. (region_parent (gw_Regions sample_gw) ^^ n) ''inner'' = ''''"
proof -
  have "sample_region ''inner'' ''outer'' \<in> set (gw_Regions sample_gw)" by (simp add: sample_gw_def)
  from regions_form_forest [OF sample_gw_valid this]
  obtain n where "n \<le> length (gw_Regions sample_gw)" "(region_parent (gw_Regions sample_gw) ^^ n) ''inner'' = ''''"
    by auto
  moreover have "length (gw_Regions sample_gw) = 2" by (simp add: sample_gw_def)
  ultimately show ?thesis by auto
qed

end
