(* ===== verification/Navigation.thy ===== *)
theory Navigation
  imports GameplayWorld
begin

text \<open>
  Server-authoritative navigation (\<open>internal/navigation\<close>): the navigator built from a valid
  gameplay world, moves with portals and step heights, line of sight, and the blockers that
  gameplay switches on and off. The walks over Go's blocker map take the order of the walk as
  an argument.
\<close>

section \<open>Agents and the plane\<close>

datatype nav_error = ErrBlocked | ErrUnsupportedLayer | ErrUnknownBlocker

record nav_agent =
  na_Radius :: f32
  na_MaxStepHeight :: f32

record nav_plane =
  pl_MinX :: f32
  pl_MaxX :: f32
  pl_MinZ :: f32
  pl_MaxZ :: f32
  pl_Height :: f32
  pl_Layer :: layer_id

definition plane_ResolveMove :: "nav_plane \<Rightarrow> position \<Rightarrow> vec3 \<Rightarrow> position \<times> nav_error option" where
  "plane_ResolveMove p frm displacement =
     (if pos_Layer frm \<noteq> pl_Layer p then (frm, Some ErrUnsupportedLayer)
      else let nxt = position_Add frm \<lparr>v3_X = v3_X displacement, v3_Y = 0, v3_Z = v3_Z displacement\<rparr>
           in if f32_less (pos_X nxt) (pl_MinX p) \<or> f32_less (pl_MaxX p) (pos_X nxt) \<or>
                 f32_less (pos_Z nxt) (pl_MinZ p) \<or> f32_less (pl_MaxZ p) (pos_Z nxt)
              then (frm, Some ErrBlocked)
              else (nxt\<lparr>pos_Y := pl_Height p, pos_Layer := pl_Layer p\<rparr>, None))"

definition plane_HasLineOfSight :: "nav_plane \<Rightarrow> position \<Rightarrow> position \<Rightarrow> bool" where
  "plane_HasLineOfSight p frm tgt =
     (if pos_Layer frm \<noteq> pl_Layer p \<or> pos_Layer tgt \<noteq> pl_Layer p then False
      else f32_leq (pl_MinX p) (pos_X frm) \<and> f32_leq (pos_X frm) (pl_MaxX p) \<and>
        f32_leq (pl_MinZ p) (pos_Z frm) \<and> f32_leq (pos_Z frm) (pl_MaxZ p) \<and>
        f32_leq (pl_MinX p) (pos_X tgt) \<and> f32_leq (pos_X tgt) (pl_MaxX p) \<and>
        f32_leq (pl_MinZ p) (pos_Z tgt) \<and> f32_leq (pos_Z tgt) (pl_MaxZ p))"

section \<open>Segments and boxes\<close>

text \<open>The constants \<open>1\<close> and \<open>1e-7\<close> at \<open>float32\<close>.\<close>

definition f32_one :: f32 where "f32_one = 0x3F800000"

definition clip_epsilon :: f32 where "clip_epsilon = 0x33D6BF95"

text \<open>One slab: the answer, and the interval of parameters narrowed to the slab.\<close>

definition clipAxis :: "f32 \<Rightarrow> f32 \<Rightarrow> f32 \<Rightarrow> f32 \<Rightarrow> f32 \<times> f32 \<Rightarrow> bool \<times> f32 \<times> f32" where
  "clipAxis origin delta minV maxV ts =
     (if f32_less (f32_abs delta) clip_epsilon
      then (f32_leq minV origin \<and> f32_leq origin maxV, ts)
      else let inv = f32_div f32_one delta;
               t1 = f32_mul (f32_sub minV origin) inv;
               t2 = f32_mul (f32_sub maxV origin) inv;
               (t1, t2) = (if f32_less t2 t1 then (t2, t1) else (t1, t2));
               tMin = (if f32_less (fst ts) t1 then t1 else fst ts);
               tMax = (if f32_less t2 (snd ts) then t2 else snd ts)
           in (f32_leq tMin tMax, tMin, tMax))"

definition segmentIntersectsRect :: "f32 \<Rightarrow> f32 \<Rightarrow> f32 \<Rightarrow> f32 \<Rightarrow> bounds_xz \<Rightarrow> bool" where
  "segmentIntersectsRect x0 z0 x1 z1 b =
     (case clipAxis x0 (f32_sub x1 x0) (bx_MinX b) (bx_MaxX b) (0, f32_one) of
        (ok, ts) \<Rightarrow> ok \<and> fst (clipAxis z0 (f32_sub z1 z0) (bx_MinZ b) (bx_MaxZ b) ts))"

definition segmentIntersectsAABB :: "position \<Rightarrow> position \<Rightarrow> blocker \<Rightarrow> bool" where
  "segmentIntersectsAABB frm tgt b =
     (case clipAxis (pos_X frm) (f32_sub (pos_X tgt) (pos_X frm)) (bx_MinX (bl_Bounds b))
             (bx_MaxX (bl_Bounds b)) (0, f32_one) of
        (ok, ts) \<Rightarrow> ok \<and>
          (case clipAxis (pos_Y frm) (f32_sub (pos_Y tgt) (pos_Y frm)) (bl_MinY b) (bl_MaxY b) ts of
             (ok, ts) \<Rightarrow> ok \<and>
               fst (clipAxis (pos_Z frm) (f32_sub (pos_Z tgt) (pos_Z frm)) (bx_MinZ (bl_Bounds b))
                 (bx_MaxZ (bl_Bounds b)) ts)))"

definition stepAllowed :: "f32 \<Rightarrow> f32 \<Rightarrow> f32 \<Rightarrow> bool" where
  "stepAllowed fromY toY maxStepHeight =
     (if f32_leq maxStepHeight 0 then f32_eq fromY toY
      else f32_leq (f32_abs (f32_sub toY fromY)) (f32_add maxStepHeight epsilon32))"

section \<open>The navigator\<close>

record navigator =
  nv_surfaces :: "(layer_id, surface list) fmap"
  nv_portals :: "portal list"
  nv_blockers :: "(string, blocker) fmap"
  nv_enabled :: "(string, bool) fmap"

fun nav_addSurfaces :: "surface list \<Rightarrow> (layer_id, surface list) fmap \<Rightarrow> (layer_id, surface list) fmap" where
  "nav_addSurfaces [] m = m"
| "nav_addSurfaces (s # rest) m =
     nav_addSurfaces rest (fmupd (su_Layer s) (gomap_at [] m (su_Layer s) @ [s]) m)"

fun nav_addBlockers ::
  "blocker list \<Rightarrow> (string, blocker) fmap \<Rightarrow> (string, bool) fmap \<Rightarrow>
     (string, blocker) fmap \<times> (string, bool) fmap" where
  "nav_addBlockers [] blockers enabled = (blockers, enabled)"
| "nav_addBlockers (b # rest) blockers enabled =
     nav_addBlockers rest (fmupd (bl_ID b) b blockers) (fmupd (bl_ID b) (bl_Enabled b) enabled)"

definition NewGameplayNavigator :: "gw_definition \<Rightarrow> gw_error + navigator" where
  "NewGameplayNavigator d =
     (case gw_Validate d of
        Some e \<Rightarrow> Inl e
      | None \<Rightarrow>
          (case nav_addBlockers (gw_Blockers d) fmempty fmempty of
             (blockers, enabled) \<Rightarrow>
               Inr \<lparr>nv_surfaces = nav_addSurfaces (gw_Surfaces d) fmempty, nv_portals = gw_Portals d,
                    nv_blockers = blockers, nv_enabled = enabled\<rparr>))"

definition surfaceAt :: "navigator \<Rightarrow> layer_id \<Rightarrow> f32 \<Rightarrow> f32 \<Rightarrow> surface option" where
  "surfaceAt n layer x z =
     find (\<lambda>s. bounds_Contains (su_Bounds s) x z) (gomap_at [] (nv_surfaces n) layer)"

fun portalTarget :: "portal list \<Rightarrow> layer_id \<Rightarrow> f32 \<Rightarrow> f32 \<Rightarrow> f32 \<Rightarrow> f32 \<Rightarrow> layer_id option" where
  "portalTarget [] layer fromX fromZ toX toZ = None"
| "portalTarget (p # rest) layer fromX fromZ toX toZ =
     (let target = (if po_FromLayer p = layer then Some (po_ToLayer p)
                    else if po_Bidirectional p \<and> po_ToLayer p = layer then Some (po_FromLayer p)
                    else None)
      in if target = None \<or> bounds_Contains (po_Bounds p) fromX fromZ
         then portalTarget rest layer fromX fromZ toX toZ
         else if segmentIntersectsRect fromX fromZ toX toZ (po_Bounds p) then target
         else portalTarget rest layer fromX fromZ toX toZ)"

fun movementBlocked ::
  "navigator \<Rightarrow> string list \<Rightarrow> layer_id \<Rightarrow> f32 \<Rightarrow> f32 \<Rightarrow> f32 \<Rightarrow> f32 \<Rightarrow> f32 \<Rightarrow> bool" where
  "movementBlocked n [] layer fromX fromZ toX toZ radius = False"
| "movementBlocked n (i # order) layer fromX fromZ toX toZ radius =
     (case fmlookup (nv_blockers n) i of
        None \<Rightarrow> movementBlocked n order layer fromX fromZ toX toZ radius
      | Some b \<Rightarrow>
          if \<not> gomap_at False (nv_enabled n) i \<or> \<not> bl_BlocksMovement b \<or> bl_Layer b \<noteq> layer
          then movementBlocked n order layer fromX fromZ toX toZ radius
          else if segmentIntersectsRect fromX fromZ toX toZ (bounds_Expanded (bl_Bounds b) radius)
          then True
          else movementBlocked n order layer fromX fromZ toX toZ radius)"

definition ResolveMove ::
  "navigator \<Rightarrow> string list \<Rightarrow> position \<Rightarrow> vec3 \<Rightarrow> nav_agent \<Rightarrow> position \<times> nav_error option" where
  "ResolveMove n order frm displacement agent =
     (if surfaceAt n (pos_Layer frm) (pos_X frm) (pos_Z frm) = None
      then (frm, Some (if gomap_has (nv_surfaces n) (pos_Layer frm) then ErrBlocked else ErrUnsupportedLayer))
      else
        let toX = f32_add (pos_X frm) (v3_X displacement);
            toZ = f32_add (pos_Z frm) (v3_Z displacement)
        in if movementBlocked n order (pos_Layer frm) (pos_X frm) (pos_Z frm) toX toZ (na_Radius agent)
           then (frm, Some ErrBlocked)
           else case portalTarget (nv_portals n) (pos_Layer frm) (pos_X frm) (pos_Z frm) toX toZ of
             Some targetLayer \<Rightarrow>
               (case surfaceAt n (pos_Layer frm) toX toZ of
                  None \<Rightarrow> (frm, Some ErrBlocked)
                | Some sourceSurface \<Rightarrow>
                    (case surfaceAt n targetLayer toX toZ of
                       None \<Rightarrow> (frm, Some ErrBlocked)
                     | Some targetSurface \<Rightarrow>
                         if movementBlocked n order targetLayer (pos_X frm) (pos_Z frm) toX toZ (na_Radius agent)
                         then (frm, Some ErrBlocked)
                         else let sourceY = HeightAt (su_Plane sourceSurface) toX toZ;
                                  targetY = HeightAt (su_Plane targetSurface) toX toZ
                              in if \<not> stepAllowed sourceY targetY (na_MaxStepHeight agent)
                                 then (frm, Some ErrBlocked)
                                 else (\<lparr>pos_X = toX, pos_Y = targetY, pos_Z = toZ, pos_Layer = targetLayer\<rparr>, None)))
           | None \<Rightarrow>
               (case surfaceAt n (pos_Layer frm) toX toZ of
                  None \<Rightarrow> (frm, Some ErrBlocked)
                | Some targetSurface \<Rightarrow>
                    let nxt = \<lparr>pos_X = toX, pos_Y = HeightAt (su_Plane targetSurface) toX toZ,
                               pos_Z = toZ, pos_Layer = pos_Layer frm\<rparr>
                    in if \<not> stepAllowed (pos_Y frm) (pos_Y nxt) (na_MaxStepHeight agent)
                       then (frm, Some ErrBlocked) else (nxt, None)))"

fun sightBlocked :: "navigator \<Rightarrow> string list \<Rightarrow> position \<Rightarrow> position \<Rightarrow> string \<Rightarrow> bool" where
  "sightBlocked n [] frm tgt ignore = False"
| "sightBlocked n (i # order) frm tgt ignore =
     (case fmlookup (nv_blockers n) i of
        None \<Rightarrow> sightBlocked n order frm tgt ignore
      | Some b \<Rightarrow>
          if i = ignore \<or> \<not> gomap_at False (nv_enabled n) i \<or> \<not> bl_BlocksLOS b
          then sightBlocked n order frm tgt ignore
          else if segmentIntersectsAABB frm tgt b then True
          else sightBlocked n order frm tgt ignore)"

definition nav_hasLineOfSight :: "navigator \<Rightarrow> string list \<Rightarrow> position \<Rightarrow> position \<Rightarrow> string \<Rightarrow> bool" where
  "nav_hasLineOfSight n order frm tgt ignore =
     (if surfaceAt n (pos_Layer frm) (pos_X frm) (pos_Z frm) = None then False
      else if surfaceAt n (pos_Layer tgt) (pos_X tgt) (pos_Z tgt) = None then False
      else \<not> sightBlocked n order frm tgt ignore)"

definition HasLineOfSight :: "navigator \<Rightarrow> string list \<Rightarrow> position \<Rightarrow> position \<Rightarrow> bool" where
  "HasLineOfSight n order frm tgt = nav_hasLineOfSight n order frm tgt ''''"

definition HasLineOfSightIgnoringBlocker ::
  "navigator \<Rightarrow> string list \<Rightarrow> position \<Rightarrow> position \<Rightarrow> string \<Rightarrow> bool" where
  "HasLineOfSightIgnoringBlocker n order frm tgt ignore = nav_hasLineOfSight n order frm tgt ignore"

definition SetBlockerEnabled :: "string \<Rightarrow> bool \<Rightarrow> navigator \<Rightarrow> nav_error option \<times> navigator" where
  "SetBlockerEnabled i enabled n =
     (if \<not> gomap_has (nv_blockers n) i then (Some ErrUnknownBlocker, n)
      else (None, n\<lparr>nv_enabled := fmupd i enabled (nv_enabled n)\<rparr>))"

definition BlockerEnabled :: "navigator \<Rightarrow> string \<Rightarrow> nav_error + bool" where
  "BlockerEnabled n i =
     (if \<not> gomap_has (nv_blockers n) i then Inl ErrUnknownBlocker
      else Inr (gomap_at False (nv_enabled n) i))"

definition BlockerDefinition :: "navigator \<Rightarrow> string \<Rightarrow> nav_error + blocker" where
  "BlockerDefinition n i =
     (case fmlookup (nv_blockers n) i of None \<Rightarrow> Inl ErrUnknownBlocker | Some b \<Rightarrow> Inr b)"

definition BlockerStates :: "navigator \<Rightarrow> (string \<times> bool) list" where
  "BlockerStates n =
     map (\<lambda>i. (i, gomap_at False (nv_enabled n) i)) (gomap_keys (nv_blockers n))"

section \<open>Walks over the blockers\<close>

definition blocks_move :: "navigator \<Rightarrow> layer_id \<Rightarrow> f32 \<Rightarrow> f32 \<Rightarrow> f32 \<Rightarrow> f32 \<Rightarrow> f32 \<Rightarrow> blocker \<Rightarrow> bool" where
  "blocks_move n layer fromX fromZ toX toZ radius b =
     (gomap_at False (nv_enabled n) (bl_ID b) \<and> bl_BlocksMovement b \<and> bl_Layer b = layer \<and>
      segmentIntersectsRect fromX fromZ toX toZ (bounds_Expanded (bl_Bounds b) radius))"

text \<open>Every blocker is stored under its own id; the enabled flags have the same keys.\<close>

definition nav_ok :: "navigator \<Rightarrow> bool" where
  "nav_ok n =
     ((\<forall>i b. fmlookup (nv_blockers n) i = Some b \<longrightarrow> bl_ID b = i) \<and>
      fmdom' (nv_enabled n) = fmdom' (nv_blockers n))"

lemma movementBlocked_iff:
  assumes "nav_ok n"
  shows "movementBlocked n order layer x z x' z' r \<longleftrightarrow>
    (\<exists>i \<in> set order. \<exists>b. fmlookup (nv_blockers n) i = Some b \<and> blocks_move n layer x z x' z' r b)"
proof (induction order)
  case (Cons i order)
  show ?case
  proof (cases "fmlookup (nv_blockers n) i")
    case None
    with Cons show ?thesis by simp
  next
    case (Some b)
    then have "bl_ID b = i" using assms by (simp add: nav_ok_def)
    with Cons Some show ?thesis by (auto simp: blocks_move_def)
  qed
qed simp

lemma sightBlocked_iff:
  "sightBlocked n order frm tgt ignore \<longleftrightarrow>
    (\<exists>i \<in> set order. \<exists>b. fmlookup (nv_blockers n) i = Some b \<and> i \<noteq> ignore \<and>
       gomap_at False (nv_enabled n) i \<and> bl_BlocksLOS b \<and> segmentIntersectsAABB frm tgt b)"
  by (induction order) (auto split: option.splits)

lemma nav_addSurfaces_at:
  "gomap_at [] (nav_addSurfaces ss m) l = gomap_at [] m l @ filter (\<lambda>s. su_Layer s = l) ss"
  by (induction ss m rule: nav_addSurfaces.induct) simp_all

lemma nav_addBlockers_run:
  assumes "distinct (map bl_ID bs)" and "nav_addBlockers bs m e = (m', e')"
  shows "fmlookup m' i = (case find (\<lambda>b. bl_ID b = i) bs of Some b \<Rightarrow> Some b | None \<Rightarrow> fmlookup m i) \<and>
    fmlookup e' i = (case find (\<lambda>b. bl_ID b = i) bs of Some b \<Rightarrow> Some (bl_Enabled b) | None \<Rightarrow> fmlookup e i)"
  using assms
proof (induction bs arbitrary: m e)
  case (Cons b bs)
  then have fresh: "bl_ID b \<notin> bl_ID ` set bs" and d: "distinct (map bl_ID bs)" by simp_all
  have none: "find (\<lambda>c. bl_ID c = bl_ID b) bs = None" using fresh by (auto simp: find_None_iff image_iff)
  from Cons.IH [OF d, of "fmupd (bl_ID b) b m" "fmupd (bl_ID b) (bl_Enabled b) e"] Cons.prems(2) none
  show ?case by (cases "bl_ID b = i") (auto split: option.split)
qed simp

lemma NewGameplayNavigator_props:
  assumes "NewGameplayNavigator d = Inr n"
  shows "gw_Validate d = None" "nav_ok n" "nv_portals n = gw_Portals d"
    "gomap_at [] (nv_surfaces n) l = filter (\<lambda>s. su_Layer s = l) (gw_Surfaces d)"
    "fmlookup (nv_blockers n) i = find (\<lambda>b. bl_ID b = i) (gw_Blockers d)"
    "fmlookup (nv_enabled n) i = map_option bl_Enabled (find (\<lambda>b. bl_ID b = i) (gw_Blockers d))"
proof -
  obtain bs en where b: "nav_addBlockers (gw_Blockers d) fmempty fmempty = (bs, en)"
    by (cases "nav_addBlockers (gw_Blockers d) fmempty fmempty")
  show v: "gw_Validate d = None" using assms by (auto simp: NewGameplayNavigator_def split: option.splits)
  with assms b have n: "n = \<lparr>nv_surfaces = nav_addSurfaces (gw_Surfaces d) fmempty, nv_portals = gw_Portals d,
      nv_blockers = bs, nv_enabled = en\<rparr>"
    by (simp add: NewGameplayNavigator_def)
  from gw_Validate_parts [OF v] scanBlockers_Inr have d: "distinct (map bl_ID (gw_Blockers d))" by metis
  note lk = nav_addBlockers_run [OF d b]
  show lb: "fmlookup (nv_blockers n) i = find (\<lambda>b. bl_ID b = i) (gw_Blockers d)" for i
    using lk [of i] by (simp add: n split: option.split)
  show le: "fmlookup (nv_enabled n) i = map_option bl_Enabled (find (\<lambda>b. bl_ID b = i) (gw_Blockers d))" for i
    using lk [of i] by (simp add: n split: option.split)
  show "nv_portals n = gw_Portals d" by (simp add: n)
  show "gomap_at [] (nv_surfaces n) l = filter (\<lambda>s. su_Layer s = l) (gw_Surfaces d)"
    by (simp add: n nav_addSurfaces_at)
  have "i \<in> fmdom' (nv_enabled n) \<longleftrightarrow> i \<in> fmdom' (nv_blockers n)" for i
    unfolding fmlookup_dom'_iff lb le by auto
  then have "fmdom' (nv_enabled n) = fmdom' (nv_blockers n)" by blast
  then show "nav_ok n"
    unfolding nav_ok_def lb by (auto simp: find_Some_iff)
qed

section \<open>Switching blockers\<close>

lemma SetBlockerEnabled_keeps [simp]:
  "nv_surfaces (snd (SetBlockerEnabled i b n)) = nv_surfaces n"
  "nv_portals (snd (SetBlockerEnabled i b n)) = nv_portals n"
  "nv_blockers (snd (SetBlockerEnabled i b n)) = nv_blockers n"
  by (simp_all add: SetBlockerEnabled_def)

lemma SetBlockerEnabled_ok: "nav_ok n \<Longrightarrow> nav_ok (snd (SetBlockerEnabled i b n))"
  by (auto simp: nav_ok_def SetBlockerEnabled_def gomap_has_dom)

definition set_blockers :: "(string \<times> bool) list \<Rightarrow> navigator \<Rightarrow> navigator" where
  "set_blockers sets n = fold (\<lambda>(i, b) n. snd (SetBlockerEnabled i b n)) sets n"

lemma set_blockers_keeps [simp]:
  "nv_surfaces (set_blockers sets n) = nv_surfaces n"
  "nv_portals (set_blockers sets n) = nv_portals n"
  "nv_blockers (set_blockers sets n) = nv_blockers n"
  by (induction sets arbitrary: n) (auto simp: set_blockers_def)

lemma set_blockers_ok: "nav_ok n \<Longrightarrow> nav_ok (set_blockers sets n)"
  by (induction sets arbitrary: n) (auto simp: set_blockers_def SetBlockerEnabled_ok)

section \<open>Moves\<close>

definition portal_joins :: "portal \<Rightarrow> layer_id \<Rightarrow> layer_id \<Rightarrow> bool" where
  "portal_joins p a b =
     ((po_FromLayer p = a \<and> po_ToLayer p = b) \<or>
      (po_Bidirectional p \<and> po_ToLayer p = a \<and> po_FromLayer p = b))"

lemma portalTarget_Some:
  "portalTarget ps layer x z x' z' = Some t \<Longrightarrow>
     \<exists>p \<in> set ps. portal_joins p layer t \<and> \<not> bounds_Contains (po_Bounds p) x z \<and>
       segmentIntersectsRect x z x' z' (po_Bounds p)"
  by (induction ps) (auto simp: Let_def portal_joins_def split: if_splits)

lemma surfaceAt_Some:
  "surfaceAt n layer x z = Some s \<Longrightarrow>
     s \<in> set (gomap_at [] (nv_surfaces n) layer) \<and> bounds_Contains (su_Bounds s) x z"
  by (auto simp: surfaceAt_def find_Some_iff in_set_conv_nth)

lemma ResolveMove_cases:
  assumes "ResolveMove n order frm v a = (nxt, e)"
  shows "e \<noteq> None \<Longrightarrow> nxt = frm"
    "e = None \<Longrightarrow> pos_X nxt = f32_add (pos_X frm) (v3_X v) \<and> pos_Z nxt = f32_add (pos_Z frm) (v3_Z v) \<and>
       (\<exists>s. surfaceAt n (pos_Layer nxt) (pos_X nxt) (pos_Z nxt) = Some s \<and>
          pos_Y nxt = HeightAt (su_Plane s) (pos_X nxt) (pos_Z nxt)) \<and>
       (\<forall>l \<in> {pos_Layer frm, pos_Layer nxt}.
          \<not> movementBlocked n order l (pos_X frm) (pos_Z frm) (pos_X nxt) (pos_Z nxt) (na_Radius a)) \<and>
       (pos_Layer nxt = pos_Layer frm \<or>
        portalTarget (nv_portals n) (pos_Layer frm) (pos_X frm) (pos_Z frm) (pos_X nxt) (pos_Z nxt) =
          Some (pos_Layer nxt))"
  using assms
  by (auto simp: ResolveMove_def Let_def split: if_splits option.splits)

lemma ResolveMove_order:
  assumes "nav_ok n" and "set order' = set order"
  shows "ResolveMove n order' frm v a = ResolveMove n order frm v a"
proof -
  have "movementBlocked n order' = movementBlocked n order"
    by (intro ext) (simp only: movementBlocked_iff [OF assms(1)] assms(2))
  then show ?thesis unfolding ResolveMove_def by (rule arg_cong)
qed

text \<open>
  C12. A move is resolved safely whatever blockers gameplay has switched and in whatever order
  the blocker map is walked: a refused move leaves the position alone; an accepted one ends at
  the displaced point, on a surface of the resulting layer at that surface's height, its swept
  segment meets no enabled movement blocker of the layer it leaves or of the layer it enters,
  and the layer changes only through a portal between the two that the segment enters.
\<close>

theorem ResolveMove_sound:
  assumes "NewGameplayNavigator d = Inr n0" and "set order = fmdom' (nv_blockers n0)"
    and "set order' = fmdom' (nv_blockers n0)"
  shows "let n = set_blockers sets n0 in
    ResolveMove n order' frm v a = ResolveMove n order frm v a \<and>
    (case ResolveMove n order frm v a of
       (nxt, Some e) \<Rightarrow> nxt = frm
     | (nxt, None) \<Rightarrow>
         pos_X nxt = f32_add (pos_X frm) (v3_X v) \<and> pos_Z nxt = f32_add (pos_Z frm) (v3_Z v) \<and>
         (\<exists>s \<in> set (gw_Surfaces d). su_Layer s = pos_Layer nxt \<and>
            bounds_Contains (su_Bounds s) (pos_X nxt) (pos_Z nxt) \<and>
            pos_Y nxt = HeightAt (su_Plane s) (pos_X nxt) (pos_Z nxt)) \<and>
         (\<forall>b \<in> set (gw_Blockers d). \<forall>l \<in> {pos_Layer frm, pos_Layer nxt}.
            \<not> blocks_move n l (pos_X frm) (pos_Z frm) (pos_X nxt) (pos_Z nxt) (na_Radius a) b) \<and>
         (pos_Layer nxt = pos_Layer frm \<or>
          (\<exists>p \<in> set (gw_Portals d). portal_joins p (pos_Layer frm) (pos_Layer nxt) \<and>
             segmentIntersectsRect (pos_X frm) (pos_Z frm) (pos_X nxt) (pos_Z nxt) (po_Bounds p))))"
proof -
  define n where "n = set_blockers sets n0"
  note p = NewGameplayNavigator_props [OF assms(1)]
  have ok: "nav_ok n" unfolding n_def by (rule set_blockers_ok [OF p(2)])
  obtain nxt e where r: "ResolveMove n order frm v a = (nxt, e)" by (cases "ResolveMove n order frm v a")
  note c = ResolveMove_cases [OF r]
  have blk: "\<exists>i \<in> set order. \<exists>c. fmlookup (nv_blockers n) i = Some c \<and> blocks_move n l x z x' z' r c"
    if b: "b \<in> set (gw_Blockers d)" and m: "blocks_move n l x z x' z' r b" for b l x z x' z' r
  proof -
    from b have "find (\<lambda>c. bl_ID c = bl_ID b) (gw_Blockers d) \<noteq> None" by (auto simp: find_None_iff)
    then obtain c where c: "find (\<lambda>c. bl_ID c = bl_ID b) (gw_Blockers d) = Some c" by auto
    then have cb: "c \<in> set (gw_Blockers d)" "bl_ID c = bl_ID b" by (auto simp: find_Some_iff in_set_conv_nth)
    from gw_Validate_parts [OF p(1)] scanBlockers_Inr have "distinct (map bl_ID (gw_Blockers d))" by metis
    with cb b have "c = b" by (auto simp: distinct_map inj_on_def)
    with c p(5) have l: "fmlookup (nv_blockers n0) (bl_ID b) = Some b" by simp
    then have "bl_ID b \<in> set order" using assms(2) by (simp add: fmlookup_dom'_iff)
    with l m show ?thesis by (auto simp: n_def)
  qed
  have surf: "s \<in> set (gw_Surfaces d) \<and> su_Layer s = l \<and> bounds_Contains (su_Bounds s) x z"
    if "surfaceAt n l x z = Some s" for l x z s
    using surfaceAt_Some [OF that] p(4) [of l] by (simp add: n_def)
  have "ResolveMove n order' frm v a = ResolveMove n order frm v a"
    by (rule ResolveMove_order [OF ok]) (simp add: assms(2,3))
  moreover have "e \<noteq> None \<Longrightarrow> nxt = frm" by (rule c(1))
  moreover have "e = None \<Longrightarrow> \<forall>b \<in> set (gw_Blockers d). \<forall>l \<in> {pos_Layer frm, pos_Layer nxt}.
      \<not> blocks_move n l (pos_X frm) (pos_Z frm) (pos_X nxt) (pos_Z nxt) (na_Radius a) b"
    using c(2) blk unfolding movementBlocked_iff [OF ok] by blast
  moreover have "e = None \<Longrightarrow> pos_Layer nxt = pos_Layer frm \<or>
      (\<exists>p \<in> set (gw_Portals d). portal_joins p (pos_Layer frm) (pos_Layer nxt) \<and>
        segmentIntersectsRect (pos_X frm) (pos_Z frm) (pos_X nxt) (pos_Z nxt) (po_Bounds p))"
    using c(2) portalTarget_Some p(3) by (fastforce simp: n_def)
  ultimately show ?thesis
    using c(2) surf unfolding Let_def n_def [symmetric] r by (cases e) (fastforce, simp)
qed

definition sample_nav :: navigator where
  "sample_nav = \<lparr>nv_surfaces = fmupd 0 (gw_Surfaces sample_gw) fmempty, nv_portals = [],
     nv_blockers = fmupd ''door'' (sample_blocker ''door'') fmempty, nv_enabled = fmupd ''door'' True fmempty\<rparr>"

lemma sample_nav: "NewGameplayNavigator sample_gw = Inr sample_nav"
  by (simp add: NewGameplayNavigator_def sample_gw_valid sample_nav_def)
    (simp add: sample_gw_def sample_blocker_def)

text \<open>A step of half a metre towards the closed door is refused, and accepted once it is open.\<close>

definition sample_at :: position where
  "sample_at = \<lparr>pos_X = 0x40600000, pos_Y = 0, pos_Z = 0x40900000, pos_Layer = 0\<rparr>"

definition sample_step :: vec3 where
  "sample_step = \<lparr>v3_X = 0x3F000000, v3_Y = 0, v3_Z = 0\<rparr>"

definition sample_walker :: nav_agent where
  "sample_walker = \<lparr>na_Radius = 0x3F000000, na_MaxStepHeight = 0x3F800000\<rparr>"

theorem ResolveMove_sound_witness:
  "(case ResolveMove (set_blockers [(''door'', False)] sample_nav) [''door''] sample_at sample_step sample_walker of
      (nxt, e) \<Rightarrow> e = None \<and> pos_X nxt = f32_add (pos_X sample_at) (v3_X sample_step)) \<and>
   snd (ResolveMove (set_blockers [] sample_nav) [''door''] sample_at sample_step sample_walker) = Some ErrBlocked"
proof
  have opened: "snd (ResolveMove (set_blockers [(''door'', False)] sample_nav) [''door''] sample_at sample_step sample_walker) = None"
    and shut: "snd (ResolveMove (set_blockers [] sample_nav) [''door''] sample_at sample_step sample_walker) = Some ErrBlocked"
    by code_simp+
  show "case ResolveMove (set_blockers [(''door'', False)] sample_nav) [''door''] sample_at sample_step sample_walker of
      (nxt, e) \<Rightarrow> e = None \<and> pos_X nxt = f32_add (pos_X sample_at) (v3_X sample_step)"
    using ResolveMove_sound [OF sample_nav, of "[''door'']" "[''door'']" "[(''door'', False)]" sample_at sample_step sample_walker] opened
    by (simp add: sample_nav_def Let_def split: prod.splits)
  show "snd (ResolveMove (set_blockers [] sample_nav) [''door''] sample_at sample_step sample_walker) = Some ErrBlocked"
    by (rule shut)
qed

end
