(* ===== verification/SiegeGate.thy ===== *)
theory SiegeGate
  imports Navigation
begin

text \<open>
  Castle gates (\<open>internal/siege/gate.go\<close>, \<open>action_target.go\<close>): hit points, the attack checks and the
  blocker a gate opens when it falls. The Go interface \<open>siege.World\<close> is a record of functions over
  an arbitrary scene state; the navigator is the scene the server uses.
\<close>

section \<open>Interface and state\<close>

record 's siege_world =
  sw_BlockerDefinition :: "'s \<Rightarrow> string \<Rightarrow> nav_error + blocker"
  sw_BlockerEnabled :: "'s \<Rightarrow> string \<Rightarrow> nav_error + bool"
  sw_SetBlockerEnabled :: "string \<Rightarrow> bool \<Rightarrow> 's \<Rightarrow> nav_error option \<times> 's"
  sw_HasLineOfSightIgnoringBlocker :: "'s \<Rightarrow> position \<Rightarrow> position \<Rightarrow> string \<Rightarrow> bool"

datatype gate_error =
  ErrUnknownGate | ErrGateDestroyed | ErrGateWrongLayer | ErrGateOutOfRange | ErrGateNoLineOfSight |
  ErrGateAttackCooldown | ErrGateBlockerDisabled | FromScene nav_error

record gate_state =
  gs_ID :: string
  gs_HP :: u32
  gs_MaxHP :: u32
  gs_Destroyed :: bool

record gate_runtime =
  gr_definition :: gate
  gr_hp :: u32

record gate_service =
  sg_gates :: "(string, gate_runtime) fmap"
  sg_order :: "string list"
  sg_nextAttackTick :: "(entity_id \<times> string, u64) fmap"

definition zero_gate_state :: gate_state where
  "zero_gate_state = \<lparr>gs_ID = '''', gs_HP = 0, gs_MaxHP = 0, gs_Destroyed = False\<rparr>"

definition gate_new :: "gate list \<Rightarrow> gate_service" where
  "gate_new definitions =
     \<lparr>sg_gates = fold (\<lambda>d. fmupd (gt_ID d) \<lparr>gr_definition = d, gr_hp = gt_MaxHP d\<rparr>) definitions fmempty,
      sg_order = map gt_ID definitions, sg_nextAttackTick = fmempty\<rparr>"

definition gate_view :: "string \<Rightarrow> gate_runtime \<Rightarrow> gate_state" where
  "gate_view i g =
     \<lparr>gs_ID = i, gs_HP = gr_hp g, gs_MaxHP = gt_MaxHP (gr_definition g), gs_Destroyed = (gr_hp g = 0)\<rparr>"

definition gate_States :: "'a gate_service_scheme \<Rightarrow> gate_state list" where
  "gate_States s = map (\<lambda>i. gate_view i (the (fmlookup (sg_gates s) i))) (sg_order s)"

section \<open>Reach\<close>

definition axisDistance :: "f32 \<Rightarrow> f32 \<Rightarrow> f32 \<Rightarrow> f32" where
  "axisDistance v minValue maxValue =
     (if f32_less v minValue then f32_sub minValue v
      else if f32_less maxValue v then f32_sub v maxValue else 0)"

definition distanceToBoundsXZ :: "f32 \<Rightarrow> f32 \<Rightarrow> bounds_xz \<Rightarrow> f32" where
  "distanceToBoundsXZ x z b =
     (let dx = axisDistance x (bx_MinX b) (bx_MaxX b); dz = axisDistance z (bx_MinZ b) (bx_MaxZ b)
      in f32_of_f64 (f64_sqrt (f64_of_f32 (f32_add (f32_mul dx dx) (f32_mul dz dz)))))"

definition clamp :: "f32 \<Rightarrow> f32 \<Rightarrow> f32 \<Rightarrow> f32" where
  "clamp v minValue maxValue =
     (if f32_less v minValue then minValue else if f32_less maxValue v then maxValue else v)"

text \<open>\<open>time.Duration.Seconds\<close> on whole nanoseconds, and the attack cooldown in ticks.\<close>

definition duration_Seconds :: "int \<Rightarrow> f64" where
  "duration_Seconds d =
     (let sec = (if 0 \<le> d then d div 1000000000 else - ((- d) div 1000000000));
          nsec = d - sec * 1000000000
      in f64_add (f64_of_int sec) (f64_div (f64_of_int nsec) (f64_of_int 1000000000)))"

definition gate_cooldownTicks :: "f32 \<Rightarrow> int \<Rightarrow> u64" where
  "gate_cooldownTicks seconds delta =
     (if f32_leq seconds 0 \<or> delta \<le> 0 then 1
      else let ticks = f64_to_u64 (f64_Ceil (f64_div (f64_of_f32 seconds) (duration_Seconds delta)))
           in if ticks = 0 then 1 else ticks)"

section \<open>Attacks\<close>

definition gate_damaged :: "u32 \<Rightarrow> u32 \<Rightarrow> u32" where
  "gate_damaged damage hp = (if damage \<ge> hp then 0 else hp - damage)"

text \<open>The target point on the blocker that the line of sight has to reach.\<close>

definition gate_aim :: "position \<Rightarrow> blocker \<Rightarrow> position" where
  "gate_aim p b =
     \<lparr>pos_X = clamp (pos_X p) (bx_MinX (bl_Bounds b)) (bx_MaxX (bl_Bounds b)),
      pos_Y = clamp (pos_Y p) (bl_MinY b) (bl_MaxY b),
      pos_Z = clamp (pos_Z p) (bx_MinZ (bl_Bounds b)) (bx_MaxZ (bl_Bounds b)), pos_Layer = bl_Layer b\<rparr>"

text \<open>The checks both attacks share, from the blocker to the line of sight.\<close>

definition gate_reach :: "'s siege_world \<Rightarrow> 's \<Rightarrow> position \<Rightarrow> gate \<Rightarrow> f32 \<Rightarrow> gate_error option" where
  "gate_reach W scene p g attackRange =
     (case sw_BlockerDefinition W scene (gt_BlockerID g) of
        Inl e \<Rightarrow> Some (FromScene e)
      | Inr b \<Rightarrow>
          if pos_Layer p \<noteq> bl_Layer b then Some ErrGateWrongLayer
          else if f32_less attackRange (distanceToBoundsXZ (pos_X p) (pos_Z p) (bl_Bounds b))
          then Some ErrGateOutOfRange
          else case sw_BlockerEnabled W scene (gt_BlockerID g) of
            Inl e \<Rightarrow> Some (FromScene e)
          | Inr enabled \<Rightarrow>
              if \<not> enabled then Some ErrGateBlockerDisabled
              else if \<not> sw_HasLineOfSightIgnoringBlocker W scene p (gate_aim p b) (gt_BlockerID g)
              then Some ErrGateNoLineOfSight else None)"

text \<open>The damage: a gate that falls first opens its blocker, and stays up when that fails.\<close>

definition gate_hit ::
  "'s siege_world \<Rightarrow> 's \<Rightarrow> string \<Rightarrow> gate_runtime \<Rightarrow> u32 \<Rightarrow> 'a gate_service_scheme \<Rightarrow>
     (gate_state \<times> gate_error option) \<times> 'a gate_service_scheme \<times> 's" where
  "gate_hit W scene gateID g damage s =
     (let newHP = gate_damaged damage (gr_hp g);
          (e, scene') = (if newHP = 0 then sw_SetBlockerEnabled W (gt_BlockerID (gr_definition g)) False scene
                         else (None, scene));
          g' = g\<lparr>gr_hp := newHP\<rparr>
      in case e of
           Some e \<Rightarrow> ((gate_view gateID g, Some (FromScene e)), s, scene')
         | None \<Rightarrow> ((gate_view gateID g', None), s\<lparr>sg_gates := fmupd gateID g' (sg_gates s)\<rparr>, scene'))"

definition gate_Attack ::
  "'s siege_world \<Rightarrow> entity_id \<Rightarrow> position \<Rightarrow> string \<Rightarrow> u64 \<Rightarrow> int \<Rightarrow> 'a gate_service_scheme \<Rightarrow> 's \<Rightarrow>
     (gate_state \<times> gate_error option) \<times> 'a gate_service_scheme \<times> 's" where
  "gate_Attack W entityID p gateID tick delta s scene =
     (case fmlookup (sg_gates s) gateID of
        None \<Rightarrow> ((zero_gate_state, Some ErrUnknownGate), s, scene)
      | Some g \<Rightarrow>
          if gr_hp g = 0 then ((gate_view gateID g, Some ErrGateDestroyed), s, scene)
          else case gate_reach W scene p (gr_definition g) (ga_Range (gt_Attack (gr_definition g))) of
            Some e \<Rightarrow> ((gate_view gateID g, Some e), s, scene)
          | None \<Rightarrow>
              let nxt = gomap_at 0 (sg_nextAttackTick s) (entityID, gateID)
              in if nxt \<noteq> 0 \<and> tick < nxt then ((gate_view gateID g, Some ErrGateAttackCooldown), s, scene)
                 else case gate_hit W scene gateID g (ga_Damage (gt_Attack (gr_definition g))) s of
                        ((st, Some e), s', scene') \<Rightarrow> ((st, Some e), s', scene')
                      | ((st, None), s', scene') \<Rightarrow>
                          ((st, None),
                           s'\<lparr>sg_nextAttackTick := fmupd (entityID, gateID)
                             (tick + gate_cooldownTicks (ga_CooldownSeconds (gt_Attack (gr_definition g))) delta)
                             (sg_nextAttackTick s')\<rparr>, scene'))"

definition ApplyActionDamage ::
  "'s siege_world \<Rightarrow> position \<Rightarrow> string \<Rightarrow> f32 \<Rightarrow> u32 \<Rightarrow> 'a gate_service_scheme \<Rightarrow> 's \<Rightarrow>
     (gate_state \<times> gate_error option) \<times> 'a gate_service_scheme \<times> 's" where
  "ApplyActionDamage W p gateID attackRange damage s scene =
     (case fmlookup (sg_gates s) gateID of
        None \<Rightarrow> ((zero_gate_state, Some ErrUnknownGate), s, scene)
      | Some g \<Rightarrow>
          if gr_hp g = 0 then ((gate_view gateID g, Some ErrGateDestroyed), s, scene)
          else case gate_reach W scene p (gr_definition g) attackRange of
            Some e \<Rightarrow> ((gate_view gateID g, Some e), s, scene)
          | None \<Rightarrow> gate_hit W scene gateID g damage s)"

section \<open>The scene contract\<close>

text \<open>Every gate is under its own id with a blocker of its own, and stands exactly while the blocker is on.\<close>

definition gates_match :: "'s siege_world \<Rightarrow> 'a gate_service_scheme \<Rightarrow> 's \<Rightarrow> bool" where
  "gates_match W s scene =
     ((\<forall>i g. fmlookup (sg_gates s) i = Some g \<longrightarrow>
        gt_ID (gr_definition g) = i \<and> gt_BlockerID (gr_definition g) \<noteq> '''' \<and>
        gt_MaxHP (gr_definition g) \<noteq> 0 \<and> gr_hp g \<le> gt_MaxHP (gr_definition g) \<and>
        sw_BlockerEnabled W scene (gt_BlockerID (gr_definition g)) = Inr (gr_hp g \<noteq> 0)) \<and>
      (\<forall>i j g h. fmlookup (sg_gates s) i = Some g \<longrightarrow> fmlookup (sg_gates s) j = Some h \<longrightarrow>
        gt_BlockerID (gr_definition g) = gt_BlockerID (gr_definition h) \<longrightarrow> i = j))"

text \<open>What the gates rely on: a switched blocker reads back, no other blocker moves, and a refused switch changes nothing.\<close>

locale siege_scene =
  fixes W :: "'s siege_world"
  assumes set_enabled: "sw_SetBlockerEnabled W i b s = (None, s') \<Longrightarrow> sw_BlockerEnabled W s' i = Inr b"
    and set_other: "sw_SetBlockerEnabled W i b s = (r, s') \<Longrightarrow> j \<noteq> i \<Longrightarrow> sw_BlockerEnabled W s' j = sw_BlockerEnabled W s j"
    and set_refused: "sw_SetBlockerEnabled W i b s = (Some e, s') \<Longrightarrow> s' = s"
begin

lemma gates_match_upd:
  assumes m: "gates_match W s scene" and g: "fmlookup (sg_gates s) i = Some g"
    and d: "gr_definition g' = gr_definition g" and hp: "gr_hp g' \<le> gt_MaxHP (gr_definition g)"
    and on: "sw_BlockerEnabled W scene' (gt_BlockerID (gr_definition g)) = Inr (gr_hp g' \<noteq> 0)"
    and other: "\<And>j. j \<noteq> gt_BlockerID (gr_definition g) \<Longrightarrow> sw_BlockerEnabled W scene' j = sw_BlockerEnabled W scene j"
    and gates: "sg_gates s' = fmupd i g' (sg_gates s)"
  shows "gates_match W s' scene'"
proof -
  have all: "gt_ID (gr_definition h) = j \<and> gt_BlockerID (gr_definition h) \<noteq> '''' \<and>
        gt_MaxHP (gr_definition h) \<noteq> 0 \<and> gr_hp h \<le> gt_MaxHP (gr_definition h) \<and>
        sw_BlockerEnabled W scene' (gt_BlockerID (gr_definition h)) = Inr (gr_hp h \<noteq> 0)"
    if h: "fmlookup (sg_gates s') j = Some h" for j h
  proof (cases "j = i")
    case True
    with h gates have "h = g'" by simp
    with m g d hp on True show ?thesis by (simp add: gates_match_def)
  next
    case False
    with h gates have h': "fmlookup (sg_gates s) j = Some h" by simp
    with m g False have "gt_BlockerID (gr_definition h) \<noteq> gt_BlockerID (gr_definition g)"
      unfolding gates_match_def by blast
    with other m h' show ?thesis by (simp add: gates_match_def)
  qed
  have inj: "j = k" if "fmlookup (sg_gates s') j = Some h" "fmlookup (sg_gates s') k = Some h'"
      "gt_BlockerID (gr_definition h) = gt_BlockerID (gr_definition h')" for j k h h'
    using m g d gates that unfolding gates_match_def
    by (auto split: if_splits)
  from all inj show ?thesis unfolding gates_match_def by blast
qed

lemma gates_match_reset_ticks [simp]:
  "gates_match W (s\<lparr>sg_nextAttackTick := t\<rparr>) scene = gates_match W s scene"
  by (simp add: gates_match_def)

lemma gate_damaged_le: "hp \<le> m \<Longrightarrow> gate_damaged a hp \<le> m"
  by (auto simp: gate_damaged_def word_le_nat_alt unat_minus_le)

lemma gate_hit_match:
  assumes m: "gates_match W s scene" and g: "fmlookup (sg_gates s) i = Some g" and up: "gr_hp g \<noteq> 0"
    and r: "gate_hit W scene i g damage s = (r, s', scene')"
  shows "gates_match W s' scene'"
proof (cases "gate_damaged damage (gr_hp g) = 0")
  case False
  with r have s': "s' = s\<lparr>sg_gates := fmupd i (g\<lparr>gr_hp := gate_damaged damage (gr_hp g)\<rparr>) (sg_gates s)\<rparr>" "scene' = scene"
    by (simp_all add: gate_hit_def Let_def)
  from m g up have "sw_BlockerEnabled W scene (gt_BlockerID (gr_definition g)) = Inr True"
      "gr_hp g \<le> gt_MaxHP (gr_definition g)"
    by (simp_all add: gates_match_def)
  with m g False s' show ?thesis
    by (intro gates_match_upd [OF m g]) (simp_all add: gate_damaged_le)
next
  case True
  obtain e sc where set: "sw_SetBlockerEnabled W (gt_BlockerID (gr_definition g)) False scene = (e, sc)"
    by (cases "sw_SetBlockerEnabled W (gt_BlockerID (gr_definition g)) False scene")
  show ?thesis
  proof (cases e)
    case None
    with r True set have "s' = s\<lparr>sg_gates := fmupd i (g\<lparr>gr_hp := 0\<rparr>) (sg_gates s)\<rparr>" "scene' = sc"
      by (simp_all add: gate_hit_def Let_def)
    with m g set None show ?thesis
      by (intro gates_match_upd [OF m g]) (simp_all add: set_enabled set_other)
  next
    case (Some e')
    with r True set m show ?thesis by (auto simp: gate_hit_def Let_def dest: set_refused)
  qed
qed

lemma gate_Attack_match:
  assumes m: "gates_match W s scene" and r: "gate_Attack W ent p i tick delta s scene = (r, s', scene')"
  shows "gates_match W s' scene'"
proof (cases "fmlookup (sg_gates s) i")
  case (Some g)
  obtain st e s2 sc2 where h: "gate_hit W scene i g (ga_Damage (gt_Attack (gr_definition g))) s = ((st, e), s2, sc2)"
    by (cases "gate_hit W scene i g (ga_Damage (gt_Attack (gr_definition g))) s") auto
  show ?thesis
  proof (cases "s' = s \<and> scene' = scene")
    case False
    with r Some h have "gr_hp g \<noteq> 0" "scene' = sc2" "s' = s2 \<or> (\<exists>t. s' = s2\<lparr>sg_nextAttackTick := t\<rparr>)"
      by (auto simp: gate_Attack_def Let_def split: option.splits if_splits)
    with gate_hit_match [OF m Some _ h] show ?thesis by auto
  qed (simp add: m)
qed (use m r in \<open>simp add: gate_Attack_def\<close>)

lemma ApplyActionDamage_match:
  assumes m: "gates_match W s scene" and r: "ApplyActionDamage W p i rng damage s scene = (r, s', scene')"
  shows "gates_match W s' scene'"
proof (cases "fmlookup (sg_gates s) i")
  case (Some g)
  show ?thesis
  proof (cases "s' = s \<and> scene' = scene")
    case False
    with r Some have "gr_hp g \<noteq> 0" "gate_hit W scene i g damage s = (r, s', scene')"
      by (auto simp: ApplyActionDamage_def split: option.splits if_splits)
    with gate_hit_match [OF m Some] show ?thesis by blast
  qed (simp add: m)
qed (use m r in \<open>simp add: ApplyActionDamage_def\<close>)

end

section \<open>The navigator as the scene\<close>

definition nav_world :: "string list \<Rightarrow> navigator siege_world" where
  "nav_world order =
     \<lparr>sw_BlockerDefinition = BlockerDefinition, sw_BlockerEnabled = BlockerEnabled,
      sw_SetBlockerEnabled = SetBlockerEnabled,
      sw_HasLineOfSightIgnoringBlocker = (\<lambda>n. HasLineOfSightIgnoringBlocker n order)\<rparr>"

lemma nav_world_sel [simp]:
  "sw_BlockerDefinition (nav_world order) = BlockerDefinition"
  "sw_BlockerEnabled (nav_world order) = BlockerEnabled"
  "sw_SetBlockerEnabled (nav_world order) = SetBlockerEnabled"
  "sw_HasLineOfSightIgnoringBlocker (nav_world order) n = HasLineOfSightIgnoringBlocker n order"
  by (simp_all add: nav_world_def)

interpretation nav_scene: siege_scene "nav_world order" for order
  by unfold_locales (auto simp: SetBlockerEnabled_def BlockerEnabled_def split: if_splits)

text \<open>The order in which the line of sight walks the blockers is no part of the match.\<close>

lemma gates_match_order: "gates_match (nav_world order) s n = gates_match (nav_world order') s n"
  by (simp add: gates_match_def)

lemma gate_new_lookup:
  assumes "distinct (map gt_ID gs)"
  shows "fmlookup (fold (\<lambda>d. fmupd (gt_ID d) \<lparr>gr_definition = d, gr_hp = gt_MaxHP d\<rparr>) gs m) i =
    (case find (\<lambda>g. gt_ID g = i) gs of
       Some g \<Rightarrow> Some \<lparr>gr_definition = g, gr_hp = gt_MaxHP g\<rparr> | None \<Rightarrow> fmlookup m i)"
  using assms
proof (induction gs arbitrary: m)
  case (Cons g gs)
  then have "find (\<lambda>h. gt_ID h = gt_ID g) gs = None" by (auto simp: find_None_iff image_iff)
  with Cons show ?case by (cases "gt_ID g = i") (auto split: option.split)
qed simp

lemma gate_new_match:
  assumes "NewGameplayNavigator d = Inr n"
  shows "gates_match (nav_world order) (gate_new (gw_Gates d)) n"
proof -
  note p = NewGameplayNavigator_props [OF assms]
  obtain blockers where b: "scanBlockers (gw_layers (gw_Surfaces d)) (gw_Blockers d) fmempty = Inr blockers"
      and g: "scanGates blockers (gw_Gates d) {} {} = None"
    using gw_Validate_parts [OF p(1)] by metis
  note gs = scanGates_None [OF g] and bs = scanBlockers_Inr [OF b]
  have lk: "fmlookup (sg_gates (gate_new (gw_Gates d))) i =
      (case find (\<lambda>g. gt_ID g = i) (gw_Gates d) of
         Some g \<Rightarrow> Some \<lparr>gr_definition = g, gr_hp = gt_MaxHP g\<rparr> | None \<Rightarrow> None)" for i
    using gate_new_lookup [of "gw_Gates d" fmempty i] gs by (simp add: gate_new_def split: option.split)
  have entry: "gate_ok blockers (gr_definition r) \<and> gr_definition r \<in> set (gw_Gates d) \<and>
      gt_ID (gr_definition r) = i \<and> gr_hp r = gt_MaxHP (gr_definition r)"
    if "fmlookup (sg_gates (gate_new (gw_Gates d))) i = Some r" for i r
    using that gs unfolding lk by (auto simp: find_Some_iff split: option.splits)
  have on: "BlockerEnabled n (gt_BlockerID g) = Inr True" if "gate_ok blockers g" for g
  proof -
    from that obtain b where "fmlookup blockers (gt_BlockerID g) = Some b" "bl_Enabled b"
      by (auto simp: gate_ok_def)
    with bs have "find (\<lambda>b. bl_ID b = gt_BlockerID g) (gw_Blockers d) = Some b" by (auto split: option.splits)
    with p(5,6) \<open>bl_Enabled b\<close> show ?thesis
      by (simp add: BlockerEnabled_def gomap_has_def gomap_at_def)
  qed
  have inj: "i = j" if "fmlookup (sg_gates (gate_new (gw_Gates d))) i = Some r"
      "fmlookup (sg_gates (gate_new (gw_Gates d))) j = Some r'"
      "gt_BlockerID (gr_definition r) = gt_BlockerID (gr_definition r')" for i j r r'
  proof -
    have "inj_on gt_BlockerID (set (gw_Gates d))" using gs by (simp add: distinct_map)
    from inj_onD [OF this that(3)] entry [OF that(1)] entry [OF that(2)]
    have "gr_definition r = gr_definition r'" by blast
    then show ?thesis using entry [OF that(1)] entry [OF that(2)] by metis
  qed
  have all: "gt_ID (gr_definition r) = i \<and> gt_BlockerID (gr_definition r) \<noteq> '''' \<and>
      gt_MaxHP (gr_definition r) \<noteq> 0 \<and> gr_hp r \<le> gt_MaxHP (gr_definition r) \<and>
      sw_BlockerEnabled (nav_world order) n (gt_BlockerID (gr_definition r)) = Inr (gr_hp r \<noteq> 0)"
    if "fmlookup (sg_gates (gate_new (gw_Gates d))) i = Some r" for i r
  proof -
    note e = entry [OF that]
    then have "BlockerEnabled n (gt_BlockerID (gr_definition r)) = Inr True" using on by blast
    with e show ?thesis by (simp add: gate_ok_def)
  qed
  show ?thesis
    unfolding gates_match_def using all inj by blast
qed

end
