(* ===== verification/CharacterIdentity.thy ===== *)
theory CharacterIdentity
  imports Prelude
begin

text \<open>
  The durable identity of a character (\<open>internal/characteridentity\<close>): trusted ids from the
  account system and ephemeral ids from random bytes. The random source and its hexadecimal
  text are a parameter of \<open>NewEphemeral\<close>: the 16 bytes it drew, or none on failure.
\<close>

definition AssuranceEphemeral :: string where [go_defs]: "AssuranceEphemeral = ''ephemeral''"
definition AssuranceTrusted :: string where [go_defs]: "AssuranceTrusted = ''trusted''"
definition maxIDLength :: nat where [go_defs]: "maxIDLength = 128"
definition ephemeralPrefix :: string where [go_defs]: "ephemeralPrefix = ''ephemeral:''"

datatype identity_error = ErrInvalidID | ErrInvalidAssurance | ErrRandom

record binding =
  bd_ID :: string
  bd_Assurance :: string

definition hasEphemeralPrefix :: "string \<Rightarrow> bool" where
  "hasEphemeralPrefix v =
     (length v \<ge> length ephemeralPrefix \<and> take (length ephemeralPrefix) v = ephemeralPrefix)"

definition idChar :: "char \<Rightarrow> bool" where
  "idChar c =
     ((CHR ''a'' \<le> c \<and> c \<le> CHR ''z'') \<or> (CHR ''A'' \<le> c \<and> c \<le> CHR ''Z'') \<or>
      (CHR ''0'' \<le> c \<and> c \<le> CHR ''9'') \<or> c = CHR ''.'' \<or> c = CHR ''_'' \<or> c = CHR '':'' \<or> c = CHR ''-'')"

definition hexChar :: "char \<Rightarrow> bool" where
  "hexChar c = ((CHR ''0'' \<le> c \<and> c \<le> CHR ''9'') \<or> (CHR ''a'' \<le> c \<and> c \<le> CHR ''f''))"

definition binding_Valid :: "binding \<Rightarrow> bool" where
  "binding_Valid b =
     (if bd_Assurance b \<noteq> AssuranceEphemeral \<and> bd_Assurance b \<noteq> AssuranceTrusted then False
      else let v = bd_ID b
           in if length v = 0 \<or> length v > maxIDLength then False
              else if \<not> list_all idChar v then False
              else if bd_Assurance b = AssuranceEphemeral
              then (if length v \<noteq> length ephemeralPrefix + 32 \<or>
                       take (length ephemeralPrefix) v \<noteq> ephemeralPrefix then False
                    else list_all hexChar (drop (length ephemeralPrefix) v))
              else \<not> hasEphemeralPrefix v)"

definition identity_New :: "string \<Rightarrow> string \<Rightarrow> identity_error + binding" where
  "identity_New v assurance =
     (let b = \<lparr>bd_ID = v, bd_Assurance = assurance\<rparr>
      in if \<not> binding_Valid b
         then (if assurance \<noteq> AssuranceEphemeral \<and> assurance \<noteq> AssuranceTrusted
               then Inl ErrInvalidAssurance else Inl ErrInvalidID)
         else Inr b)"

definition NewTrusted :: "string \<Rightarrow> identity_error + binding" where
  "NewTrusted v =
     (if hasEphemeralPrefix v then Inl ErrInvalidID else identity_New v AssuranceTrusted)"

text \<open>\<open>hex.EncodeToString\<close>: two lower-case digits per byte.\<close>

definition hexDigit :: "nat \<Rightarrow> char" where
  "hexDigit n = (if n < 10 then char_of (48 + n) else char_of (87 + n))"

definition EncodeToString :: "u8 list \<Rightarrow> string" where
  "EncodeToString bs = concat (map (\<lambda>b. [hexDigit (unat b div 16), hexDigit (unat b mod 16)]) bs)"

definition NewEphemeral :: "u8 list option \<Rightarrow> identity_error + binding" where
  "NewEphemeral drawn =
     (case drawn of
        None \<Rightarrow> Inl ErrRandom
      | Some raw \<Rightarrow> identity_New (ephemeralPrefix @ EncodeToString raw) AssuranceEphemeral)"

section \<open>Trusted and ephemeral ids never meet\<close>

lemma NewTrusted_Inr:
  "NewTrusted v = Inr b \<Longrightarrow> b = \<lparr>bd_ID = v, bd_Assurance = AssuranceTrusted\<rparr> \<and> binding_Valid b \<and> v \<noteq> ''''"
  by (auto simp: NewTrusted_def identity_New_def Let_def binding_Valid_def split: if_splits)

lemma hexDigit_ok: "n < 16 \<Longrightarrow> hexChar (hexDigit n) \<and> idChar (hexDigit n)"
proof -
  assume "n < 16"
  moreover have "list_all (\<lambda>n. hexChar (hexDigit n) \<and> idChar (hexDigit n)) [0..<16]" by code_simp
  ultimately show ?thesis by (simp add: list_all_iff)
qed

lemma unat_lt2p_u8: "unat (b :: u8) < 256"
  using unsigned_less [of b] by simp

lemma EncodeToString_ok:
  "length (EncodeToString bs) = 2 * length bs" "list_all hexChar (EncodeToString bs)"
  "list_all idChar (EncodeToString bs)"
proof -
  have d: "unat b div 16 < 16" "unat b mod 16 < 16" for b :: u8
    using unat_lt2p_u8 [of b] by auto
  show "length (EncodeToString bs) = 2 * length bs" by (induction bs) (simp_all add: EncodeToString_def)
  show "list_all hexChar (EncodeToString bs)" "list_all idChar (EncodeToString bs)"
    by (induction bs) (simp_all add: EncodeToString_def hexDigit_ok d)
qed

lemma NewEphemeral_total:
  assumes "length raw = 16"
  shows "\<exists>b. NewEphemeral (Some raw) = Inr b \<and> binding_Valid b \<and> hasEphemeralPrefix (bd_ID b)"
proof -
  have "list_all idChar ephemeralPrefix" by code_simp
  then have "binding_Valid \<lparr>bd_ID = ephemeralPrefix @ EncodeToString raw, bd_Assurance = AssuranceEphemeral\<rparr>"
    using EncodeToString_ok [of raw] assms by (simp add: binding_Valid_def Let_def go_defs)
  then show ?thesis
    by (simp add: NewEphemeral_def identity_New_def Let_def hasEphemeralPrefix_def)
qed

end
