(* ===== verification/SiegeMatch.thy ===== *)
theory SiegeMatch
  imports SiegeGate CharacterIdentity
begin

text \<open>
  A castle siege (\<open>internal/siege/match.go\<close>, \<open>throne.go\<close>): teams, the phases of a round, the hold
  on the throne, the ownership of the castle and its durable commit, and the reset to the next
  round. The durable committer is a function over the state of the store behind it, which the
  resolution threads through.
\<close>

section \<open>Data\<close>

datatype team = TeamUnknown | TeamAttacker | TeamDefender

definition team_Valid :: "team \<Rightarrow> bool" where
  "team_Valid t = (t = TeamAttacker \<or> t = TeamDefender)"

datatype match_phase = MatchPhaseUnknown | MatchPhaseGate | MatchPhaseThrone | MatchPhaseCompleted

datatype 'e match_error =
  ErrMatchUnavailable | ErrInvalidMatchDefinition | ErrInvalidParticipant | ErrInvalidCastleOwnership |
  ErrInvalidCastleTransfer | ErrThroneResolutionUnavailable | ErrRoundResetUnavailable |
  ErrInvalidThroneObjective | FromWorld nav_error | FromCommitter 'e

record objective_zone =
  oz_Layer :: layer_id
  oz_Bounds :: bounds_xz

record throne_definition =
  td_ID :: string
  td_Zone :: objective_zone
  td_CaptureDuration :: int

record participant_presence =
  pp_EntityID :: entity_id
  pp_Position :: position
  pp_Defeated :: bool

record throne_presence =
  tp_Revision :: u64
  tp_ObjectiveID :: string
  tp_Active :: bool
  tp_AttackerCount :: u32
  tp_DefenderCount :: u32
  tp_Contested :: bool
  tp_CaptureEligible :: bool

record throne_capture =
  tc_Revision :: u64
  tc_ObjectiveID :: string
  tc_Active :: bool
  tc_Progress :: int
  tc_Required :: int
  tc_ReadyForResolution :: bool

record throne_runtime =
  th_definition :: throne_definition
  th_state :: throne_presence
  th_capture :: "throne_capture option"

record match_definition =
  md_ID :: string
  md_AttackerID :: string
  md_DefenderID :: string
  md_BreachGateID :: string
  md_ThroneObjectiveID :: string
  md_Throne :: "throne_definition option"
  md_ParticipantTeams :: "(string, team) fmap"

record match_state =
  ms_Revision :: u64
  ms_Round :: u64
  ms_MatchID :: string
  ms_AttackerID :: string
  ms_DefenderID :: string
  ms_Phase :: match_phase
  ms_BreachGateID :: string
  ms_ThroneObjectiveID :: string
  ms_GateBreached :: bool
  ms_WinnerTeam :: team
  ms_WinnerID :: string

record castle_ownership =
  co_Revision :: u64
  co_OwnerID :: string
  co_PreviousOwnerID :: string
  co_LastTransferMatchID :: string

record castle_transfer =
  ct_ExpectedRevision :: u64
  ct_PreviousOwnerID :: string
  ct_OwnerID :: string
  ct_MatchID :: string

type_synonym ('d, 'e) ownership_committer =
  "castle_transfer \<Rightarrow> 'd \<Rightarrow> ('e + castle_ownership) \<times> 'd"

record ('d, 'e) match_runtime =
  mr_definition :: match_definition
  mr_state :: match_state
  mr_ownership :: castle_ownership
  mr_ownershipCommitter :: "('d, 'e) ownership_committer option"
  mr_participantTeams :: "(entity_id, team) fmap"
  mr_trustedParticipantTeams :: "(string, team) fmap"
  mr_throne :: "throne_runtime option"

record ('d, 'e) siege_service = gate_service +
  sv_match :: "('d, 'e) match_runtime option"

definition siege_new :: "gate list \<Rightarrow> ('d, 'e) siege_service" where
  "siege_new definitions =
     \<lparr>sg_gates = sg_gates (gate_new definitions), sg_order = sg_order (gate_new definitions),
      sg_nextAttackTick = fmempty, sv_match = None\<rparr>"

section \<open>Validity\<close>

definition transfer_Valid :: "castle_transfer \<Rightarrow> bool" where
  "transfer_Valid t =
     (ct_ExpectedRevision t > 0 \<and> ct_PreviousOwnerID t \<noteq> '''' \<and> ct_OwnerID t \<noteq> '''' \<and> ct_MatchID t \<noteq> '''')"

definition RequiresOwnershipChange :: "castle_transfer \<Rightarrow> bool" where
  "RequiresOwnershipChange t = (transfer_Valid t \<and> ct_PreviousOwnerID t \<noteq> ct_OwnerID t)"

definition zone_Valid :: "objective_zone \<Rightarrow> bool" where
  "zone_Valid z =
     (f32_finite (bx_MinX (oz_Bounds z)) \<and> f32_finite (bx_MaxX (oz_Bounds z)) \<and>
      f32_finite (bx_MinZ (oz_Bounds z)) \<and> f32_finite (bx_MaxZ (oz_Bounds z)) \<and>
      f32_less (bx_MinX (oz_Bounds z)) (bx_MaxX (oz_Bounds z)) \<and>
      f32_less (bx_MinZ (oz_Bounds z)) (bx_MaxZ (oz_Bounds z)))"

definition zone_Contains :: "objective_zone \<Rightarrow> position \<Rightarrow> bool" where
  "zone_Contains z p =
     (zone_Valid z \<and> pos_Layer p = oz_Layer z \<and> bounds_Contains (oz_Bounds z) (pos_X p) (pos_Z p))"

definition throne_Valid :: "throne_definition \<Rightarrow> bool" where
  "throne_Valid d = (td_ID d \<noteq> '''' \<and> zone_Valid (td_Zone d) \<and> td_CaptureDuration d \<ge> 0)"

definition participant_Valid :: "string \<Rightarrow> team \<Rightarrow> bool" where
  "participant_Valid characterID t =
     (case NewTrusted characterID of Inl _ \<Rightarrow> False | Inr b \<Rightarrow> bd_ID b = characterID \<and> team_Valid t)"

definition match_Valid :: "match_definition \<Rightarrow> bool" where
  "match_Valid d =
     (if md_ID d = '''' \<or> md_AttackerID d = '''' \<or> md_DefenderID d = '''' \<or>
         md_AttackerID d = md_DefenderID d \<or> md_BreachGateID d = '''' \<or> md_ThroneObjectiveID d = ''''
      then False
      else if (case md_Throne d of None \<Rightarrow> False
               | Some t \<Rightarrow> \<not> throne_Valid t \<or> td_ID t \<noteq> md_ThroneObjectiveID d)
      then False
      else list_all (\<lambda>i. participant_Valid i (gomap_at TeamUnknown (md_ParticipantTeams d) i))
        (gomap_keys (md_ParticipantTeams d)))"

definition validCastleOwnership :: "castle_ownership \<Rightarrow> bool" where
  "validCastleOwnership o' =
     (if co_Revision o' = 0 \<or> co_OwnerID o' = '''' then False
      else (co_PreviousOwnerID o' = '''') = (co_LastTransferMatchID o' = ''''))"

definition nextRevision :: "u64 \<Rightarrow> u64" where
  "nextRevision current = (if current + 1 = 0 then 1 else current + 1)"

section \<open>Configuration\<close>

definition newThroneRuntime :: "throne_definition \<Rightarrow> 'e match_error + throne_runtime" where
  "newThroneRuntime d =
     (if \<not> throne_Valid d then Inl ErrInvalidThroneObjective
      else Inr \<lparr>th_definition = d,
        th_state = \<lparr>tp_Revision = 1, tp_ObjectiveID = td_ID d, tp_Active = False, tp_AttackerCount = 0,
          tp_DefenderCount = 0, tp_Contested = False, tp_CaptureEligible = False\<rparr>,
        th_capture = (if td_CaptureDuration d > 0
          then Some \<lparr>tc_Revision = 1, tc_ObjectiveID = td_ID d, tc_Active = False, tc_Progress = 0,
            tc_Required = td_CaptureDuration d, tc_ReadyForResolution = False\<rparr>
          else None)\<rparr>)"

definition ConfigureMatch ::
  "match_definition \<Rightarrow> ('d, 'e) siege_service \<Rightarrow> 'e match_error option \<times> ('d, 'e) siege_service" where
  "ConfigureMatch d s =
     (if \<not> match_Valid d then (Some ErrInvalidMatchDefinition, s)
      else if \<not> gomap_has (sg_gates s) (md_BreachGateID d) then (Some ErrInvalidMatchDefinition, s)
      else case (case md_Throne d of None \<Rightarrow> Inr None
                 | Some t \<Rightarrow> (case newThroneRuntime t of Inl e \<Rightarrow> Inl e | Inr r \<Rightarrow> Inr (Some r))) of
             Inl e \<Rightarrow> (Some e, s)
           | Inr throne \<Rightarrow>
               (None, s\<lparr>sv_match := Some
                  \<lparr>mr_definition = d,
                   mr_state = \<lparr>ms_Revision = 1, ms_Round = 1, ms_MatchID = md_ID d,
                     ms_AttackerID = md_AttackerID d, ms_DefenderID = md_DefenderID d,
                     ms_Phase = MatchPhaseGate, ms_BreachGateID = md_BreachGateID d,
                     ms_ThroneObjectiveID = md_ThroneObjectiveID d, ms_GateBreached = False,
                     ms_WinnerTeam = TeamUnknown, ms_WinnerID = ''''\<rparr>,
                   mr_ownership = \<lparr>co_Revision = 1, co_OwnerID = md_DefenderID d,
                     co_PreviousOwnerID = '''', co_LastTransferMatchID = ''''\<rparr>,
                   mr_ownershipCommitter = None, mr_participantTeams = fmempty,
                   mr_trustedParticipantTeams = md_ParticipantTeams d, mr_throne = throne\<rparr>\<rparr>))"

definition siege_MatchState :: "('d, 'e) siege_service \<Rightarrow> match_state option" where
  "siege_MatchState s = map_option mr_state (sv_match s)"

definition siege_CastleOwnership :: "('d, 'e) siege_service \<Rightarrow> castle_ownership option" where
  "siege_CastleOwnership s = map_option mr_ownership (sv_match s)"

definition siege_ThronePresence :: "('d, 'e) siege_service \<Rightarrow> throne_presence option" where
  "siege_ThronePresence s =
     (case sv_match s of None \<Rightarrow> None | Some m \<Rightarrow> map_option th_state (mr_throne m))"

definition siege_ThroneCapture :: "('d, 'e) siege_service \<Rightarrow> throne_capture option" where
  "siege_ThroneCapture s =
     (case sv_match s of None \<Rightarrow> None
      | Some m \<Rightarrow> (case mr_throne m of None \<Rightarrow> None | Some t \<Rightarrow> th_capture t))"

definition oppositeTeam :: "team \<Rightarrow> team" where
  "oppositeTeam t =
     (case t of TeamAttacker \<Rightarrow> TeamDefender | TeamDefender \<Rightarrow> TeamAttacker | TeamUnknown \<Rightarrow> TeamUnknown)"

definition validSideID :: "('d, 'e) match_runtime \<Rightarrow> string \<Rightarrow> bool" where
  "validSideID m sideID =
     (sideID = md_AttackerID (mr_definition m) \<or> sideID = md_DefenderID (mr_definition m))"

definition rolesForOwner :: "('d, 'e) match_runtime \<Rightarrow> string \<Rightarrow> (string \<times> string) option" where
  "rolesForOwner m ownerID =
     (if ownerID = md_DefenderID (mr_definition m)
      then Some (md_AttackerID (mr_definition m), md_DefenderID (mr_definition m))
      else if ownerID = md_AttackerID (mr_definition m)
      then Some (md_DefenderID (mr_definition m), md_AttackerID (mr_definition m))
      else None)"

definition applyRoles :: "string \<Rightarrow> string \<Rightarrow> ('d, 'e) match_runtime \<Rightarrow> ('d, 'e) match_runtime" where
  "applyRoles attackerID defenderID m =
     (let m1 = (if ms_AttackerID (mr_state m) \<noteq> attackerID
                then m\<lparr>mr_trustedParticipantTeams := fmmap oppositeTeam (mr_trustedParticipantTeams m),
                       mr_participantTeams := fmmap oppositeTeam (mr_participantTeams m)\<rparr>
                else m)
      in m1\<lparr>mr_state := (mr_state m1)\<lparr>ms_AttackerID := attackerID, ms_DefenderID := defenderID\<rparr>\<rparr>)"

definition bumpMatchRevision :: "('d, 'e) match_runtime \<Rightarrow> ('d, 'e) match_runtime" where
  "bumpMatchRevision m = m\<lparr>mr_state := (mr_state m)\<lparr>ms_Revision := nextRevision (ms_Revision (mr_state m))\<rparr>\<rparr>"

definition ConfigureCastleOwnershipPersistence ::
  "castle_ownership \<Rightarrow> ('d, 'e) ownership_committer option \<Rightarrow> ('d, 'e) siege_service \<Rightarrow>
     'e match_error option \<times> ('d, 'e) siege_service" where
  "ConfigureCastleOwnershipPersistence state committer s =
     (case sv_match s of
        None \<Rightarrow> (Some ErrMatchUnavailable, s)
      | Some m \<Rightarrow>
          if ms_Phase (mr_state m) \<noteq> MatchPhaseGate \<or> ms_GateBreached (mr_state m) \<or>
             ms_WinnerTeam (mr_state m) \<noteq> TeamUnknown \<or> ms_WinnerID (mr_state m) \<noteq> ''''
          then (Some ErrInvalidCastleOwnership, s)
          else if \<not> validCastleOwnership state \<or> \<not> validSideID m (co_OwnerID state) \<or> committer = None
          then (Some ErrInvalidCastleOwnership, s)
          else case rolesForOwner m (co_OwnerID state) of
                 None \<Rightarrow> (Some ErrInvalidCastleOwnership, s)
               | Some (attackerID, defenderID) \<Rightarrow>
                   (None, s\<lparr>sv_match := Some (applyRoles attackerID defenderID
                      (m\<lparr>mr_ownership := state, mr_ownershipCommitter := committer,
                         mr_state := (mr_state m)\<lparr>ms_Round := co_Revision state\<rparr>\<rparr>))\<rparr>))"

section \<open>Participants\<close>

definition AssignParticipant ::
  "entity_id \<Rightarrow> team \<Rightarrow> ('d, 'e) siege_service \<Rightarrow> 'e match_error option \<times> ('d, 'e) siege_service" where
  "AssignParticipant entityID t s =
     (case sv_match s of
        None \<Rightarrow> (Some ErrMatchUnavailable, s)
      | Some m \<Rightarrow>
          if entityID = 0 \<or> \<not> team_Valid t then (Some ErrInvalidParticipant, s)
          else (None, s\<lparr>sv_match := Some (m\<lparr>mr_participantTeams := fmupd entityID t (mr_participantTeams m)\<rparr>)\<rparr>))"

definition AssignResolvedParticipant ::
  "entity_id \<Rightarrow> binding \<Rightarrow> ('d, 'e) siege_service \<Rightarrow> (bool \<times> 'e match_error option) \<times> ('d, 'e) siege_service" where
  "AssignResolvedParticipant entityID identity s =
     (case sv_match s of
        None \<Rightarrow> ((False, Some ErrMatchUnavailable), s)
      | Some m \<Rightarrow>
          if entityID = 0 \<or> \<not> binding_Valid identity then ((False, Some ErrInvalidParticipant), s)
          else if bd_Assurance identity \<noteq> AssuranceTrusted then ((False, None), s)
          else case fmlookup (mr_trustedParticipantTeams m) (bd_ID identity) of
                 None \<Rightarrow> ((False, None), s)
               | Some t \<Rightarrow>
                   (case AssignParticipant entityID t s of
                      (Some e, s') \<Rightarrow> ((False, Some e), s')
                    | (None, s') \<Rightarrow> ((True, None), s')))"

definition RemoveParticipant :: "entity_id \<Rightarrow> ('d, 'e) siege_service \<Rightarrow> ('d, 'e) siege_service" where
  "RemoveParticipant entityID s =
     (case sv_match s of
        None \<Rightarrow> s
      | Some m \<Rightarrow> if entityID = 0 then s
          else s\<lparr>sv_match := Some (m\<lparr>mr_participantTeams := fmdrop entityID (mr_participantTeams m)\<rparr>)\<rparr>)"

definition ParticipantTeam :: "('d, 'e) siege_service \<Rightarrow> entity_id \<Rightarrow> team option" where
  "ParticipantTeam s entityID =
     (case sv_match s of
        None \<Rightarrow> None
      | Some m \<Rightarrow> if entityID = 0 then None else fmlookup (mr_participantTeams m) entityID)"

section \<open>The gate falls, the throne is held\<close>

definition ObserveGateState :: "gate_state \<Rightarrow> ('d, 'e) siege_service \<Rightarrow> bool \<times> ('d, 'e) siege_service" where
  "ObserveGateState state s =
     (case sv_match s of
        None \<Rightarrow> (False, s)
      | Some m \<Rightarrow>
          if gs_ID state \<noteq> md_BreachGateID (mr_definition m) \<or> \<not> gs_Destroyed state \<or>
             ms_Phase (mr_state m) \<noteq> MatchPhaseGate
          then (False, s)
          else (True, s\<lparr>sv_match := Some (bumpMatchRevision
                 (m\<lparr>mr_state := (mr_state m)\<lparr>ms_GateBreached := True, ms_Phase := MatchPhaseThrone\<rparr>\<rparr>))\<rparr>))"

definition sameThronePresence :: "throne_presence \<Rightarrow> throne_presence \<Rightarrow> bool" where
  "sameThronePresence a b =
     (tp_ObjectiveID a = tp_ObjectiveID b \<and> tp_Active a = tp_Active b \<and>
      tp_AttackerCount a = tp_AttackerCount b \<and> tp_DefenderCount a = tp_DefenderCount b \<and>
      tp_Contested a = tp_Contested b \<and> tp_CaptureEligible a = tp_CaptureEligible b)"

definition sameThroneCapture :: "throne_capture \<Rightarrow> throne_capture \<Rightarrow> bool" where
  "sameThroneCapture a b =
     (tc_ObjectiveID a = tc_ObjectiveID b \<and> tc_Active a = tc_Active b \<and> tc_Progress a = tc_Progress b \<and>
      tc_Required a = tc_Required b \<and> tc_ReadyForResolution a = tc_ReadyForResolution b)"

text \<open>One pass over the observations with the entities already seen; the two head counts.\<close>

fun countPresence ::
  "(entity_id, team) fmap \<Rightarrow> objective_zone \<Rightarrow> participant_presence list \<Rightarrow> entity_id list \<Rightarrow> u32 \<Rightarrow> u32 \<Rightarrow> u32 \<times> u32" where
  "countPresence teams zone [] seen a d = (a, d)"
| "countPresence teams zone (ob # rest) seen a d =
     (if pp_EntityID ob = 0 then countPresence teams zone rest seen a d
      else if pp_EntityID ob \<in> set seen then countPresence teams zone rest seen a d
      else if pp_Defeated ob \<or> \<not> zone_Contains zone (pp_Position ob)
      then countPresence teams zone rest (pp_EntityID ob # seen) a d
      else case fmlookup teams (pp_EntityID ob) of
             None \<Rightarrow> countPresence teams zone rest (pp_EntityID ob # seen) a d
           | Some TeamAttacker \<Rightarrow> countPresence teams zone rest (pp_EntityID ob # seen) (a + 1) d
           | Some TeamDefender \<Rightarrow> countPresence teams zone rest (pp_EntityID ob # seen) a (d + 1)
           | Some TeamUnknown \<Rightarrow> countPresence teams zone rest (pp_EntityID ob # seen) a d)"

definition ObserveThronePresence ::
  "participant_presence list \<Rightarrow> ('d, 'e) siege_service \<Rightarrow> bool \<times> ('d, 'e) siege_service" where
  "ObserveThronePresence observations s =
     (case sv_match s of None \<Rightarrow> (False, s) | Some m \<Rightarrow>
       (case mr_throne m of None \<Rightarrow> (False, s) | Some t \<Rightarrow>
          let current = th_state t;
              active = (ms_Phase (mr_state m) = MatchPhaseThrone);
              (a, d) = (if active then countPresence (mr_participantTeams m) (td_Zone (th_definition t)) observations [] 0 0
                        else (0, 0));
              nxt = \<lparr>tp_Revision = tp_Revision current, tp_ObjectiveID = td_ID (th_definition t),
                     tp_Active = active, tp_AttackerCount = a, tp_DefenderCount = d,
                     tp_Contested = (active \<and> a > 0 \<and> d > 0), tp_CaptureEligible = (active \<and> a > 0 \<and> d = 0)\<rparr>
          in if sameThronePresence current nxt then (False, s)
             else (True, s\<lparr>sv_match := Some (m\<lparr>mr_throne := Some (t\<lparr>th_state :=
                    nxt\<lparr>tp_Revision := nextRevision (tp_Revision current)\<rparr>\<rparr>)\<rparr>)\<rparr>)))"

text \<open>One tick of the hold; a duration is a count of nanoseconds in 64 bits.\<close>

definition captureTick :: "bool \<Rightarrow> bool \<Rightarrow> int \<Rightarrow> throne_capture \<Rightarrow> throne_capture" where
  "captureTick active eligible delta current =
     (let nxt = current\<lparr>tc_Active := active\<rparr>
      in if tc_ReadyForResolution current then nxt\<lparr>tc_Progress := tc_Required nxt\<rparr>
         else if \<not> active \<or> \<not> eligible then nxt\<lparr>tc_Progress := 0\<rparr>
         else if delta > 0
         then (let remaining = wrap_i64 (tc_Required nxt - tc_Progress nxt)
               in if remaining \<le> 0 \<or> delta \<ge> remaining
                  then nxt\<lparr>tc_Progress := tc_Required nxt, tc_ReadyForResolution := True\<rparr>
                  else nxt\<lparr>tc_Progress := wrap_i64 (tc_Progress nxt + delta)\<rparr>)
         else nxt)"

definition AdvanceThroneCapture :: "int \<Rightarrow> ('d, 'e) siege_service \<Rightarrow> bool \<times> ('d, 'e) siege_service" where
  "AdvanceThroneCapture delta s =
     (case sv_match s of None \<Rightarrow> (False, s) | Some m \<Rightarrow>
       (case mr_throne m of None \<Rightarrow> (False, s) | Some t \<Rightarrow>
         (case th_capture t of None \<Rightarrow> (False, s) | Some current \<Rightarrow>
            let nxt = captureTick (ms_Phase (mr_state m) = MatchPhaseThrone)
                        (tp_CaptureEligible (th_state t)) delta current
            in if sameThroneCapture current nxt then (False, s)
               else (True, s\<lparr>sv_match := Some (m\<lparr>mr_throne := Some (t\<lparr>th_capture :=
                      Some (nxt\<lparr>tc_Revision := nextRevision (tc_Revision current)\<rparr>)\<rparr>)\<rparr>)\<rparr>))))"

section \<open>Resolution\<close>

definition PrepareThroneCaptureResolution :: "('d, 'e) siege_service \<Rightarrow> castle_transfer option" where
  "PrepareThroneCaptureResolution s =
     (case sv_match s of None \<Rightarrow> None | Some m \<Rightarrow>
       (case mr_throne m of None \<Rightarrow> None | Some t \<Rightarrow>
         (case th_capture t of None \<Rightarrow> None | Some c \<Rightarrow>
            if ms_Phase (mr_state m) \<noteq> MatchPhaseThrone \<or> ms_WinnerTeam (mr_state m) \<noteq> TeamUnknown \<or>
               ms_WinnerID (mr_state m) \<noteq> '''' then None
            else if \<not> tc_ReadyForResolution c \<or> \<not> validCastleOwnership (mr_ownership m) then None
            else Some \<lparr>ct_ExpectedRevision = co_Revision (mr_ownership m),
                       ct_PreviousOwnerID = co_OwnerID (mr_ownership m),
                       ct_OwnerID = ms_AttackerID (mr_state m), ct_MatchID = md_ID (mr_definition m)\<rparr>)))"

definition CommitThroneCaptureResolution ::
  "castle_ownership \<Rightarrow> ('d, 'e) siege_service \<Rightarrow> 'e match_error option \<times> ('d, 'e) siege_service" where
  "CommitThroneCaptureResolution ownership s =
     (case (PrepareThroneCaptureResolution s, sv_match s) of
        (Some transfer, Some m) \<Rightarrow>
          if \<not> validCastleOwnership ownership then (Some ErrInvalidCastleOwnership, s)
          else if RequiresOwnershipChange transfer \<and>
                  (ct_ExpectedRevision transfer = - 1 \<or>
                   co_Revision ownership \<noteq> ct_ExpectedRevision transfer + 1 \<or>
                   co_PreviousOwnerID ownership \<noteq> ct_PreviousOwnerID transfer \<or>
                   co_OwnerID ownership \<noteq> ct_OwnerID transfer \<or>
                   co_LastTransferMatchID ownership \<noteq> ct_MatchID transfer)
          then (Some ErrInvalidCastleOwnership, s)
          else if \<not> RequiresOwnershipChange transfer \<and> ownership \<noteq> mr_ownership m
          then (Some ErrInvalidCastleOwnership, s)
          else let m1 = m\<lparr>mr_state := (mr_state m)\<lparr>ms_Phase := MatchPhaseCompleted,
                          ms_WinnerTeam := TeamAttacker, ms_WinnerID := ms_AttackerID (mr_state m)\<rparr>\<rparr>;
                   m2 = (bumpMatchRevision m1)\<lparr>mr_ownership := ownership\<rparr>;
                   s1 = s\<lparr>sv_match := Some m2\<rparr>
               in (None, snd (AdvanceThroneCapture 0 (snd (ObserveThronePresence [] s1))))
      | _ \<Rightarrow> (Some ErrThroneResolutionUnavailable, s))"

text \<open>The durable step before the match completes; the store behind the committer is threaded.\<close>

definition commitDurably ::
  "castle_transfer \<Rightarrow> ('d, 'e) match_runtime \<Rightarrow> 'd \<Rightarrow> ('e match_error + castle_ownership) \<times> 'd" where
  "commitDurably transfer m db =
     (if RequiresOwnershipChange transfer
      then (case mr_ownershipCommitter m of
              Some commit \<Rightarrow> (case commit transfer db of
                  (Inl e, db') \<Rightarrow> (Inl (FromCommitter e), db')
                | (Inr o', db') \<Rightarrow> (Inr o', db'))
            | None \<Rightarrow>
                if ct_ExpectedRevision transfer = - 1 then (Inl ErrInvalidCastleOwnership, db)
                else (Inr \<lparr>co_Revision = ct_ExpectedRevision transfer + 1,
                           co_OwnerID = ct_OwnerID transfer,
                           co_PreviousOwnerID = ct_PreviousOwnerID transfer,
                           co_LastTransferMatchID = ct_MatchID transfer\<rparr>, db))
      else (Inr (mr_ownership m), db))"

definition ResolveThroneCaptureWithError ::
  "('d, 'e) siege_service \<Rightarrow> 'd \<Rightarrow> (bool \<times> 'e match_error option) \<times> ('d, 'e) siege_service \<times> 'd" where
  "ResolveThroneCaptureWithError s db =
     (case (PrepareThroneCaptureResolution s, sv_match s) of
        (Some transfer, Some m) \<Rightarrow>
          (case commitDurably transfer m db of
             (Inl e, db') \<Rightarrow> ((False, Some e), s, db')
           | (Inr o', db') \<Rightarrow>
               (case CommitThroneCaptureResolution o' s of
                  (Some e, s') \<Rightarrow> ((False, Some e), s', db')
                | (None, s') \<Rightarrow> ((True, None), s', db')))
      | _ \<Rightarrow> ((False, None), s, db))"

definition ResolveThroneCapture :: "('d, 'e) siege_service \<Rightarrow> 'd \<Rightarrow> bool \<times> ('d, 'e) siege_service \<times> 'd" where
  "ResolveThroneCapture s db =
     (case ResolveThroneCaptureWithError s db of ((resolved, _), s', db') \<Rightarrow> (resolved, s', db'))"

section \<open>The next round\<close>

definition resetThroneForNextRound :: "('d, 'e) match_runtime \<Rightarrow> ('d, 'e) match_runtime" where
  "resetThroneForNextRound m =
     (case mr_throne m of None \<Rightarrow> m | Some t \<Rightarrow>
        let presence = th_state t;
            nextPresence = \<lparr>tp_Revision = tp_Revision presence, tp_ObjectiveID = td_ID (th_definition t),
              tp_Active = False, tp_AttackerCount = 0, tp_DefenderCount = 0, tp_Contested = False,
              tp_CaptureEligible = False\<rparr>;
            t1 = (if \<not> sameThronePresence presence nextPresence
                  then t\<lparr>th_state := nextPresence\<lparr>tp_Revision := nextRevision (tp_Revision presence)\<rparr>\<rparr> else t)
        in case th_capture t1 of
             None \<Rightarrow> m\<lparr>mr_throne := Some t1\<rparr>
           | Some capture \<Rightarrow>
               let nextCapture = \<lparr>tc_Revision = tc_Revision capture, tc_ObjectiveID = td_ID (th_definition t),
                     tc_Active = False, tc_Progress = 0, tc_Required = td_CaptureDuration (th_definition t),
                     tc_ReadyForResolution = False\<rparr>
               in if \<not> sameThroneCapture capture nextCapture
                  then m\<lparr>mr_throne := Some (t1\<lparr>th_capture :=
                         Some (nextCapture\<lparr>tc_Revision := nextRevision (tc_Revision capture)\<rparr>)\<rparr>)\<rparr>
                  else m\<lparr>mr_throne := Some t1\<rparr>)"

text \<open>The match of the new round: objectives and winner cleared, roles from the owner, one revision on.\<close>

definition roundReset :: "string \<Rightarrow> string \<Rightarrow> ('d, 'e) match_runtime \<Rightarrow> ('d, 'e) match_runtime" where
  "roundReset attackerID defenderID m =
     (let m1 = resetThroneForNextRound m;
          m2 = m1\<lparr>mr_state := (mr_state m1)\<lparr>ms_Round := co_Revision (mr_ownership m1),
                 ms_Phase := MatchPhaseGate, ms_GateBreached := False,
                 ms_WinnerTeam := TeamUnknown, ms_WinnerID := ''''\<rparr>\<rparr>
      in bumpMatchRevision (applyRoles attackerID defenderID m2))"

text \<open>
  The checks before a round starts: an early answer, or the match, its breach gate, the new
  roles and whether the gate's blocker is on. The scene is an option: a Go interface value may
  be nil.
\<close>

definition roundPlan ::
  "('s siege_world) option \<Rightarrow> ('d, 'e) siege_service \<Rightarrow> 's \<Rightarrow>
     (bool \<times> 'e match_error option) + ('s siege_world \<times> ('d, 'e) match_runtime \<times> gate_runtime \<times> (string \<times> string) \<times> bool)" where
  "roundPlan world s scene =
     (case sv_match s of
        None \<Rightarrow> Inl (False, Some ErrMatchUnavailable)
      | Some m \<Rightarrow>
          if ms_Phase (mr_state m) \<noteq> MatchPhaseCompleted then Inl (False, None)
          else case world of None \<Rightarrow> Inl (False, Some ErrRoundResetUnavailable) | Some W \<Rightarrow>
            if \<not> validCastleOwnership (mr_ownership m) \<or> \<not> validSideID m (co_OwnerID (mr_ownership m))
            then Inl (False, Some ErrRoundResetUnavailable)
            else if ms_Round (mr_state m) = - 1 \<or> co_Revision (mr_ownership m) \<noteq> ms_Round (mr_state m) + 1
            then Inl (False, Some ErrRoundResetUnavailable)
            else case rolesForOwner m (co_OwnerID (mr_ownership m)) of
              None \<Rightarrow> Inl (False, Some ErrRoundResetUnavailable)
            | Some roles \<Rightarrow>
                if co_OwnerID (mr_ownership m) \<noteq> ms_WinnerID (mr_state m)
                then Inl (False, Some ErrRoundResetUnavailable)
                else case fmlookup (sg_gates s) (md_BreachGateID (mr_definition m)) of
                  None \<Rightarrow> Inl (False, Some ErrRoundResetUnavailable)
                | Some g \<Rightarrow>
                    if gt_BlockerID (gr_definition g) = '''' then Inl (False, Some ErrRoundResetUnavailable)
                    else case sw_BlockerEnabled W scene (gt_BlockerID (gr_definition g)) of
                      Inl e \<Rightarrow> Inl (False, Some (FromWorld e))
                    | Inr enabled \<Rightarrow> Inr (W, m, g, roles, enabled))"

definition StartNextRound ::
  "('s siege_world) option \<Rightarrow> ('d, 'e) siege_service \<Rightarrow> 's \<Rightarrow>
     (bool \<times> 'e match_error option) \<times> ('d, 'e) siege_service \<times> 's" where
  "StartNextRound world s scene =
     (case roundPlan world s scene of
        Inl r \<Rightarrow> (r, s, scene)
      | Inr (W, m, g, (attackerID, defenderID), enabled) \<Rightarrow>
          (case (if \<not> enabled then sw_SetBlockerEnabled W (gt_BlockerID (gr_definition g)) True scene
                 else (None, scene)) of
             (Some e, scene') \<Rightarrow> ((False, Some (FromWorld e)), s, scene')
           | (None, scene') \<Rightarrow>
               ((True, None),
                s\<lparr>sg_gates := fmupd (md_BreachGateID (mr_definition m))
                    (g\<lparr>gr_hp := gt_MaxHP (gr_definition g)\<rparr>) (sg_gates s),
                  sg_nextAttackTick := fmfilter (\<lambda>k. snd k \<noteq> gt_ID (gr_definition g)) (sg_nextAttackTick s),
                  sv_match := Some (roundReset attackerID defenderID m)\<rparr>, scene')))"

section \<open>What the composed operations do\<close>

lemma roundPlan_Inr:
  assumes "roundPlan w s scene = Inr (W, m, g, roles, enabled)"
  shows "w = Some W" "sv_match s = Some m" "ms_Phase (mr_state m) = MatchPhaseCompleted"
    "validCastleOwnership (mr_ownership m)" "co_Revision (mr_ownership m) = ms_Round (mr_state m) + 1"
    "rolesForOwner m (co_OwnerID (mr_ownership m)) = Some roles"
    "co_OwnerID (mr_ownership m) = ms_WinnerID (mr_state m)"
    "fmlookup (sg_gates s) (md_BreachGateID (mr_definition m)) = Some g"
    "sw_BlockerEnabled W scene (gt_BlockerID (gr_definition g)) = Inr enabled"
  using assms unfolding roundPlan_def
  by (simp_all split: option.splits if_splits sum.splits)

lemma StartNextRound_cases:
  assumes "StartNextRound w s scene = (r, s', scene')"
  obtains (refused) "\<not> fst r" "s' = s" "scene' = scene \<or> (\<exists>W i e. w = Some W \<and>
      sw_SetBlockerEnabled W i True scene = (Some e, scene'))"
  | (started) W m g a d where "r = (True, None)" "w = Some W" "sv_match s = Some m"
      "ms_Phase (mr_state m) = MatchPhaseCompleted" "validCastleOwnership (mr_ownership m)"
      "co_Revision (mr_ownership m) = ms_Round (mr_state m) + 1"
      "rolesForOwner m (co_OwnerID (mr_ownership m)) = Some (a, d)"
      "co_OwnerID (mr_ownership m) = ms_WinnerID (mr_state m)"
      "fmlookup (sg_gates s) (md_BreachGateID (mr_definition m)) = Some g"
      "(sw_BlockerEnabled W scene (gt_BlockerID (gr_definition g)) = Inr True \<and> scene' = scene) \<or>
        sw_SetBlockerEnabled W (gt_BlockerID (gr_definition g)) True scene = (None, scene')"
      "s' = s\<lparr>sg_gates := fmupd (md_BreachGateID (mr_definition m))
            (g\<lparr>gr_hp := gt_MaxHP (gr_definition g)\<rparr>) (sg_gates s),
          sg_nextAttackTick := fmfilter (\<lambda>k. snd k \<noteq> gt_ID (gr_definition g)) (sg_nextAttackTick s),
          sv_match := Some (roundReset a d m)\<rparr>"
proof (cases "roundPlan w s scene")
  case (Inl r')
  have "\<not> fst r'"
    using Inl by (auto simp: roundPlan_def split: option.splits if_splits sum.splits)
  then show ?thesis by (intro refused) (use Inl assms in \<open>auto simp: StartNextRound_def\<close>)
next
  case (Inr x)
  obtain W m g a d enabled where x: "x = (W, m, g, (a, d), enabled)" by (cases x) auto
  obtain e sc where set: "(if \<not> enabled then sw_SetBlockerEnabled W (gt_BlockerID (gr_definition g)) True scene
      else (None, scene)) = (e, sc)"
    by (cases "if \<not> enabled then sw_SetBlockerEnabled W (gt_BlockerID (gr_definition g)) True scene else (None, scene)")
  note p = roundPlan_Inr [OF Inr [unfolded x]]
  show ?thesis
  proof (cases e)
    case None
    show ?thesis
      by (rule started [OF _ p(1-8)]) (use None set p Inr x assms in \<open>auto simp: StartNextRound_def split: if_splits\<close>)
  next
    case (Some e')
    then show ?thesis
      by (intro refused) (use set p Inr x assms in \<open>auto simp: StartNextRound_def split: if_splits\<close>)
  qed
qed

lemma Commit_cases:
  assumes "CommitThroneCaptureResolution o' s = (e, s')"
  obtains (refused) "e \<noteq> None" "s' = s"
  | (committed) m t where "e = None" "sv_match s = Some m" "PrepareThroneCaptureResolution s = Some t"
      "validCastleOwnership o'"
      "RequiresOwnershipChange t \<Longrightarrow> ct_ExpectedRevision t \<noteq> - 1 \<and>
         o' = \<lparr>co_Revision = ct_ExpectedRevision t + 1, co_OwnerID = ct_OwnerID t,
               co_PreviousOwnerID = ct_PreviousOwnerID t, co_LastTransferMatchID = ct_MatchID t\<rparr>"
      "\<not> RequiresOwnershipChange t \<Longrightarrow> o' = mr_ownership m"
      "s' = snd (AdvanceThroneCapture 0 (snd (ObserveThronePresence [] (s\<lparr>sv_match :=
         Some ((bumpMatchRevision (m\<lparr>mr_state := (mr_state m)\<lparr>ms_Phase := MatchPhaseCompleted,
           ms_WinnerTeam := TeamAttacker, ms_WinnerID := ms_AttackerID (mr_state m)\<rparr>\<rparr>))\<lparr>mr_ownership := o'\<rparr>)\<rparr>))))"
proof (cases "PrepareThroneCaptureResolution s = None \<or> sv_match s = None")
  case True
  show ?thesis
    by (rule refused) (use True assms in \<open>auto simp: CommitThroneCaptureResolution_def split: option.splits\<close>)
next
  case False
  then obtain t m where t: "PrepareThroneCaptureResolution s = Some t" and m: "sv_match s = Some m" by auto
  define bad where "bad \<longleftrightarrow> \<not> validCastleOwnership o' \<or>
    (RequiresOwnershipChange t \<and> (ct_ExpectedRevision t = - 1 \<or> co_Revision o' \<noteq> ct_ExpectedRevision t + 1 \<or>
       co_PreviousOwnerID o' \<noteq> ct_PreviousOwnerID t \<or> co_OwnerID o' \<noteq> ct_OwnerID t \<or>
       co_LastTransferMatchID o' \<noteq> ct_MatchID t)) \<or>
    (\<not> RequiresOwnershipChange t \<and> o' \<noteq> mr_ownership m)"
  define s2 where "s2 = snd (AdvanceThroneCapture 0 (snd (ObserveThronePresence [] (s\<lparr>sv_match :=
         Some ((bumpMatchRevision (m\<lparr>mr_state := (mr_state m)\<lparr>ms_Phase := MatchPhaseCompleted,
           ms_WinnerTeam := TeamAttacker, ms_WinnerID := ms_AttackerID (mr_state m)\<rparr>\<rparr>))\<lparr>mr_ownership := o'\<rparr>)\<rparr>))))"
  have c: "CommitThroneCaptureResolution o' s = (if bad then (Some ErrInvalidCastleOwnership, s) else (None, s2))"
    unfolding CommitThroneCaptureResolution_def t m bad_def s2_def Let_def prod.case option.case by simp
  show ?thesis
  proof (cases bad)
    case True
    show ?thesis by (rule refused) (use True assms c in auto)
  next
    case False
    then have e: "e = None" "s' = s2" using assms c by auto
    show ?thesis
      by (rule committed [OF e(1) m t _ _ _ e(2) [unfolded s2_def]]) (use False in \<open>auto simp: bad_def\<close>)
  qed
qed

lemma Resolve_cases:
  assumes "ResolveThroneCaptureWithError s db = (r, s', db')"
  obtains (nothing) "r = (False, None)" "PrepareThroneCaptureResolution s = None \<or> sv_match s = None" "s' = s" "db' = db"
  | (failed) t m where "\<not> fst r" "snd r \<noteq> None" "PrepareThroneCaptureResolution s = Some t" "sv_match s = Some m"
      "snd (commitDurably t m db) = db'" "s' = s"
  | (resolved) t m o' where "r = (True, None)" "PrepareThroneCaptureResolution s = Some t" "sv_match s = Some m"
      "commitDurably t m db = (Inr o', db')" "CommitThroneCaptureResolution o' s = (None, s')"
proof (cases "PrepareThroneCaptureResolution s = None \<or> sv_match s = None")
  case True
  show ?thesis
    by (rule nothing) (use True assms in \<open>auto simp: ResolveThroneCaptureWithError_def split: option.splits\<close>)
next
  case False
  then obtain t m where t: "PrepareThroneCaptureResolution s = Some t" and m: "sv_match s = Some m" by auto
  obtain c db2 where c: "commitDurably t m db = (c, db2)" by (cases "commitDurably t m db")
  show ?thesis
  proof (cases c)
    case (Inl e)
    show ?thesis
      by (rule failed [OF _ _ t m]) (use Inl assms t m c in \<open>auto simp: ResolveThroneCaptureWithError_def\<close>)
  next
    case (Inr o')
    obtain e s2 where o: "CommitThroneCaptureResolution o' s = (e, s2)"
      by (cases "CommitThroneCaptureResolution o' s")
    show ?thesis
    proof (cases e)
      case None
      show ?thesis
        by (rule resolved [OF _ t m]) (use None Inr assms t m c o in \<open>auto simp: ResolveThroneCaptureWithError_def\<close>)
    next
      case (Some e')
      with o have "s2 = s" by (auto elim: Commit_cases)
      then show ?thesis
        by (intro failed [OF _ _ t m]) (use Some Inr assms t m c o in \<open>auto simp: ResolveThroneCaptureWithError_def\<close>)
    qed
  qed
qed

section \<open>Gates over rounds\<close>

lemma gates_match_gates:
  "sg_gates s' = sg_gates s \<Longrightarrow> gates_match W s' scene = gates_match W s scene"
  by (simp add: gates_match_def)

context siege_scene
begin

lemma StartNextRound_match:
  assumes m: "gates_match W s scene" and r: "StartNextRound (Some W) s scene = (r, s', scene')"
  shows "gates_match W s' scene'"
  using r
proof (cases rule: StartNextRound_cases)
  case refused
  with m show ?thesis by (auto dest: set_refused)
next
  case (started W' mr g a d)
  then have W: "W' = W" by simp
  have on: "sw_BlockerEnabled W scene' (gt_BlockerID (gr_definition g)) = Inr True"
    using started(10) unfolding W by (auto dest: set_enabled)
  have other: "sw_BlockerEnabled W scene' j = sw_BlockerEnabled W scene j"
    if "j \<noteq> gt_BlockerID (gr_definition g)" for j
    using started(10) set_other that unfolding W by blast
  show ?thesis
    by (rule gates_match_upd [OF m started(9) _ _ _ other]) (use m started(9,11) on in \<open>simp_all add: gates_match_def\<close>)
qed

end

section \<open>The invariant of a match\<close>

definition presence_ok :: "throne_presence \<Rightarrow> bool" where
  "presence_ok p =
     ((tp_Contested p \<longleftrightarrow> tp_Active p \<and> tp_AttackerCount p > 0 \<and> tp_DefenderCount p > 0) \<and>
      (tp_CaptureEligible p \<longleftrightarrow> tp_Active p \<and> tp_AttackerCount p > 0 \<and> tp_DefenderCount p = 0))"

definition capture_ok :: "int \<Rightarrow> throne_capture \<Rightarrow> bool" where
  "capture_ok required c =
     (tc_Required c = required \<and> 0 < required \<and> required < 2 ^ 63 \<and> 0 \<le> tc_Progress c \<and>
      tc_Progress c \<le> required \<and> (tc_ReadyForResolution c \<longleftrightarrow> tc_Progress c = required))"

definition throne_ok :: "throne_runtime \<Rightarrow> bool" where
  "throne_ok t =
     (throne_Valid (th_definition t) \<and> presence_ok (th_state t) \<and>
      (case th_capture t of None \<Rightarrow> td_CaptureDuration (th_definition t) = 0
       | Some c \<Rightarrow> capture_ok (td_CaptureDuration (th_definition t)) c))"

text \<open>
  The roles are the two configured sides, the defender owns the castle until the throne falls,
  and the round number is the revision of the ownership it started with.
\<close>

definition phase_ok :: "match_state \<Rightarrow> castle_ownership \<Rightarrow> string \<Rightarrow> bool" where
  "phase_ok st o' matchID =
     (case ms_Phase st of
           MatchPhaseUnknown \<Rightarrow> False
         | MatchPhaseGate \<Rightarrow> \<not> ms_GateBreached st \<and> ms_WinnerTeam st = TeamUnknown \<and> ms_WinnerID st = '''' \<and>
             co_OwnerID o' = ms_DefenderID st \<and> co_Revision o' = ms_Round st
         | MatchPhaseThrone \<Rightarrow> ms_GateBreached st \<and> ms_WinnerTeam st = TeamUnknown \<and> ms_WinnerID st = '''' \<and>
             co_OwnerID o' = ms_DefenderID st \<and> co_Revision o' = ms_Round st
         | MatchPhaseCompleted \<Rightarrow> ms_GateBreached st \<and> ms_WinnerTeam st = TeamAttacker \<and>
             ms_WinnerID st = ms_AttackerID st \<and> co_OwnerID o' = ms_AttackerID st \<and>
             ms_Round st \<noteq> - 1 \<and> co_Revision o' = ms_Round st + 1 \<and>
             co_PreviousOwnerID o' = ms_DefenderID st \<and> co_LastTransferMatchID o' = matchID)"

definition match_inv :: "('d, 'e) match_runtime \<Rightarrow> bool" where
  "match_inv m =
     (match_Valid (mr_definition m) \<and> validCastleOwnership (mr_ownership m) \<and>
      rolesForOwner m (ms_DefenderID (mr_state m)) = Some (ms_AttackerID (mr_state m), ms_DefenderID (mr_state m)) \<and>
      phase_ok (mr_state m) (mr_ownership m) (md_ID (mr_definition m)) \<and> (case mr_throne m of None \<Rightarrow> True | Some t \<Rightarrow> throne_ok t))"

lemma rolesForOwner_frame [simp]:
  "rolesForOwner (m\<lparr>mr_state := st\<rparr>) i = rolesForOwner m i"
  "rolesForOwner (m\<lparr>mr_ownership := o'\<rparr>) i = rolesForOwner m i"
  "rolesForOwner (m\<lparr>mr_ownershipCommitter := c\<rparr>) i = rolesForOwner m i"
  "rolesForOwner (m\<lparr>mr_participantTeams := t\<rparr>) i = rolesForOwner m i"
  "rolesForOwner (m\<lparr>mr_trustedParticipantTeams := u\<rparr>) i = rolesForOwner m i"
  "rolesForOwner (m\<lparr>mr_throne := th\<rparr>) i = rolesForOwner m i"
  by (simp_all add: rolesForOwner_def)

lemma rolesForOwner_Some:
  "rolesForOwner m i = Some (a, d) \<Longrightarrow> d = i \<and> rolesForOwner m d = Some (a, d)"
  by (auto simp: rolesForOwner_def split: if_splits)

lemma match_Valid_sides:
  "match_Valid d \<Longrightarrow> md_ID d \<noteq> '''' \<and> md_AttackerID d \<noteq> '''' \<and> md_DefenderID d \<noteq> '''' \<and> md_AttackerID d \<noteq> md_DefenderID d"
  by (auto simp: match_Valid_def split: if_splits)

lemma match_inv_roles:
  assumes "match_inv m"
  shows "ms_AttackerID (mr_state m) \<noteq> ms_DefenderID (mr_state m) \<and>
     ms_AttackerID (mr_state m) \<noteq> '''' \<and> ms_DefenderID (mr_state m) \<noteq> '''' \<and> md_ID (mr_definition m) \<noteq> '''' \<and>
     validSideID m (ms_AttackerID (mr_state m))"
proof -
  have "match_Valid (mr_definition m)" using assms by (simp add: match_inv_def)
  note v = match_Valid_sides [OF this]
  have "rolesForOwner m (ms_DefenderID (mr_state m)) = Some (ms_AttackerID (mr_state m), ms_DefenderID (mr_state m))"
    using assms by (simp add: match_inv_def)
  with v show ?thesis by (auto simp: rolesForOwner_def validSideID_def split: if_splits)
qed

text \<open>What does not touch the parts the invariant reads.\<close>

lemma phase_ok_revision [simp]: "phase_ok (st\<lparr>ms_Revision := r\<rparr>) o' i = phase_ok st o' i"
  by (simp add: phase_ok_def cong: match_phase.case_cong)

lemma match_inv_frame [simp]:
  "match_inv (m\<lparr>mr_participantTeams := t\<rparr>) = match_inv m"
  "match_inv (m\<lparr>mr_trustedParticipantTeams := u\<rparr>) = match_inv m"
  "match_inv (m\<lparr>mr_ownershipCommitter := c\<rparr>) = match_inv m"
  by (simp_all add: match_inv_def)

lemma match_inv_bump [simp]: "match_inv (bumpMatchRevision m) = match_inv m"
  by (simp add: bumpMatchRevision_def match_inv_def)

lemma match_inv_throne:
  "match_inv m \<Longrightarrow> throne_ok t \<Longrightarrow> match_inv (m\<lparr>mr_throne := Some t\<rparr>)"
  by (simp add: match_inv_def)

lemma newThroneRuntime_ok:
  "newThroneRuntime d = Inr t \<Longrightarrow> td_CaptureDuration d < 2 ^ 63 \<Longrightarrow> throne_ok t \<and> th_definition t = d"
  by (auto simp: newThroneRuntime_def throne_ok_def presence_ok_def capture_ok_def throne_Valid_def split: if_splits)

text \<open>A hold that advances stays within its bounds and is ready exactly when it is full.\<close>

lemma captureTick_ok:
  assumes "capture_ok required c"
  shows "capture_ok required (captureTick active eligible delta c)"
proof -
  have r: "wrap_i64 (tc_Required c - tc_Progress c) = tc_Required c - tc_Progress c"
    using assms by (intro wrap_i64_id) (auto simp: capture_ok_def)
  have p: "wrap_i64 (tc_Progress c + delta) = tc_Progress c + delta"
    if "0 < delta" "delta < tc_Required c - tc_Progress c"
    using assms that by (intro wrap_i64_id) (auto simp: capture_ok_def)
  show ?thesis
    using assms p by (auto simp: captureTick_def Let_def capture_ok_def r)
qed

lemma AdvanceThroneCapture_throne:
  "throne_ok t \<Longrightarrow> th_capture t = Some c \<Longrightarrow>
     throne_ok (t\<lparr>th_capture := Some ((captureTick a e delta c)\<lparr>tc_Revision := r\<rparr>)\<rparr>)"
  using captureTick_ok [of "td_CaptureDuration (th_definition t)" c a e delta]
  by (simp add: throne_ok_def capture_ok_def)

section \<open>Every operation keeps the invariant\<close>

definition siege_inv :: "('d, 'e) siege_service \<Rightarrow> bool" where
  "siege_inv s = (case sv_match s of None \<Rightarrow> True | Some m \<Rightarrow> match_inv m)"

lemma siege_inv_match [simp]:
  "siege_inv (s\<lparr>sv_match := Some m\<rparr>) = match_inv m" "sv_match s = None \<Longrightarrow> siege_inv s"
  "sv_match s = Some m \<Longrightarrow> siege_inv s = match_inv m"
  by (simp_all add: siege_inv_def)

lemma gate_ops_match [simp]:
  "sv_match (s\<lparr>sg_gates := g\<rparr>) = sv_match s" "sv_match (s\<lparr>sg_nextAttackTick := t\<rparr>) = sv_match s"
  by simp_all

lemma ConfigureMatch_inv:
  fixes s :: "('d, 'e) siege_service"
  assumes "ConfigureMatch d s = (None, s')" and "\<forall>t. md_Throne d = Some t \<longrightarrow> td_CaptureDuration t < 2 ^ 63"
  shows "siege_inv s'"
proof -
  have v: "match_Valid d" using assms(1) by (auto simp: ConfigureMatch_def split: if_splits)
  note sides = match_Valid_sides [OF v]
  obtain throne where th: "(case md_Throne d of None \<Rightarrow> Inr None
      | Some t \<Rightarrow> (case newThroneRuntime t of Inl e \<Rightarrow> Inl e | Inr r \<Rightarrow> Inr (Some r))) =
        (Inr throne :: 'e match_error + throne_runtime option)"
    using assms(1) v by (auto simp: ConfigureMatch_def split: if_splits sum.splits option.splits)
  have ok: "case throne of None \<Rightarrow> True | Some t \<Rightarrow> throne_ok t"
    using th assms(2) newThroneRuntime_ok by (auto split: option.splits sum.splits)
  show ?thesis
    using assms(1) v th ok sides
    by (auto simp: ConfigureMatch_def siege_inv_def match_inv_def phase_ok_def rolesForOwner_def
        validCastleOwnership_def split: if_splits)
qed

lemma applyRoles_inv:
  assumes "match_Valid (mr_definition m)" and "validCastleOwnership (mr_ownership m)"
    and "rolesForOwner m (co_OwnerID (mr_ownership m)) = Some (a, d)"
    and "ms_Phase (mr_state m) = MatchPhaseGate" and "\<not> ms_GateBreached (mr_state m)"
    and "ms_WinnerTeam (mr_state m) = TeamUnknown" and "ms_WinnerID (mr_state m) = ''''"
    and "co_Revision (mr_ownership m) = ms_Round (mr_state m)"
    and "case mr_throne m of None \<Rightarrow> True | Some t \<Rightarrow> throne_ok t"
  shows "match_inv (applyRoles a d m)"
  using assms rolesForOwner_Some [OF assms(3)]
  by (simp add: applyRoles_def Let_def match_inv_def phase_ok_def)

lemma Persist_inv:
  assumes "siege_inv s" shows "siege_inv (snd (ConfigureCastleOwnershipPersistence o' c s))"
proof (cases "sv_match s")
  case (Some m)
  then have inv: "match_inv m" using assms by simp
  show ?thesis
  proof (cases "fst (ConfigureCastleOwnershipPersistence o' c s)")
    case None
    then obtain a d where r: "rolesForOwner m (co_OwnerID o') = Some (a, d)"
        and ph: "ms_Phase (mr_state m) = MatchPhaseGate" "\<not> ms_GateBreached (mr_state m)"
          "ms_WinnerTeam (mr_state m) = TeamUnknown" "ms_WinnerID (mr_state m) = ''''"
        and o: "validCastleOwnership o'"
        and e: "snd (ConfigureCastleOwnershipPersistence o' c s) = s\<lparr>sv_match := Some (applyRoles a d
          (m\<lparr>mr_ownership := o', mr_ownershipCommitter := c,
             mr_state := (mr_state m)\<lparr>ms_Round := co_Revision o'\<rparr>\<rparr>))\<rparr>"
      using Some by (auto simp: ConfigureCastleOwnershipPersistence_def split: if_splits option.splits)
    show ?thesis
      unfolding e siege_inv_match(1)
      by (rule applyRoles_inv) (use inv r ph o in \<open>simp_all add: match_inv_def\<close>)
  next
    case (Some e)
    then show ?thesis
      using assms by (auto simp: ConfigureCastleOwnershipPersistence_def split: if_splits option.splits)
  qed
qed (simp add: ConfigureCastleOwnershipPersistence_def)

lemma participant_ops_inv:
  assumes "siege_inv s"
  shows "siege_inv (snd (AssignParticipant i t s))" "siege_inv (snd (AssignResolvedParticipant i b s))"
    "siege_inv (RemoveParticipant i s)"
proof -
  show a: "siege_inv (snd (AssignParticipant i t s))" for t
    using assms by (cases "sv_match s") (simp_all add: AssignParticipant_def)
  show "siege_inv (snd (AssignResolvedParticipant i b s))"
    using assms a by (auto simp: AssignResolvedParticipant_def split: option.split prod.split)
      (metis snd_conv)+
  show "siege_inv (RemoveParticipant i s)"
    using assms by (cases "sv_match s") (simp_all add: RemoveParticipant_def)
qed

lemma ObserveGateState_inv: "siege_inv s \<Longrightarrow> siege_inv (snd (ObserveGateState st s))"
proof (cases "sv_match s")
  case (Some m)
  assume "siege_inv s"
  with Some have "match_inv m" by simp
  then have "ms_Phase (mr_state m) = MatchPhaseGate \<Longrightarrow>
      match_inv (m\<lparr>mr_state := (mr_state m)\<lparr>ms_GateBreached := True, ms_Phase := MatchPhaseThrone\<rparr>\<rparr>)"
    by (simp add: match_inv_def phase_ok_def)
  with Some \<open>match_inv m\<close> show ?thesis by (simp add: ObserveGateState_def)
qed (simp add: ObserveGateState_def)

lemma Presence_inv: "siege_inv s \<Longrightarrow> siege_inv (snd (ObserveThronePresence obs s))"
proof (cases "sv_match s")
  case (Some m)
  assume "siege_inv s"
  with Some have inv: "match_inv m" by simp
  show ?thesis
  proof (cases "mr_throne m")
    case (Some t)
    with inv have "throne_ok t" by (simp add: match_inv_def)
    then have "throne_ok (t\<lparr>th_state := p\<rparr>)" if "presence_ok p" for p
      using that by (simp add: throne_ok_def cong: option.case_cong)
    with \<open>sv_match s = Some m\<close> Some inv show ?thesis
      by (auto simp: ObserveThronePresence_def Let_def presence_ok_def intro!: match_inv_throne split: prod.split)
  qed (use \<open>sv_match s = Some m\<close> inv in \<open>simp add: ObserveThronePresence_def\<close>)
qed (simp add: ObserveThronePresence_def)

lemma Advance_inv: "siege_inv s \<Longrightarrow> siege_inv (snd (AdvanceThroneCapture delta s))"
proof (cases "sv_match s")
  case (Some m)
  assume "siege_inv s"
  with Some have inv: "match_inv m" by simp
  show ?thesis
  proof (cases "mr_throne m")
    case (Some t)
    with inv have t: "throne_ok t" by (simp add: match_inv_def)
    show ?thesis
    proof (cases "th_capture t")
      case (Some c)
      note a = match_inv_throne [OF inv AdvanceThroneCapture_throne [OF t Some]]
      show ?thesis
        using \<open>sv_match s = Some m\<close> \<open>mr_throne m = Some t\<close> Some inv a
        by (simp add: AdvanceThroneCapture_def Let_def)
    qed (use \<open>sv_match s = Some m\<close> \<open>mr_throne m = Some t\<close> inv in \<open>simp add: AdvanceThroneCapture_def\<close>)
  qed (use \<open>sv_match s = Some m\<close> inv in \<open>simp add: AdvanceThroneCapture_def\<close>)
qed (simp add: AdvanceThroneCapture_def)

lemma Prepare_Some:
  assumes "siege_inv s" and "PrepareThroneCaptureResolution s = Some t" and "sv_match s = Some m"
  shows "match_inv m" "ms_Phase (mr_state m) = MatchPhaseThrone" "RequiresOwnershipChange t"
    "t = \<lparr>ct_ExpectedRevision = ms_Round (mr_state m), ct_PreviousOwnerID = ms_DefenderID (mr_state m),
       ct_OwnerID = ms_AttackerID (mr_state m), ct_MatchID = md_ID (mr_definition m)\<rparr>"
    "co_Revision (mr_ownership m) = ms_Round (mr_state m)" "co_OwnerID (mr_ownership m) = ms_DefenderID (mr_state m)"
proof -
  show inv: "match_inv m" using assms(1,3) by simp
  show ph: "ms_Phase (mr_state m) = MatchPhaseThrone"
    using assms(2,3) by (auto simp: PrepareThroneCaptureResolution_def split: option.splits if_splits)
  show o: "co_Revision (mr_ownership m) = ms_Round (mr_state m)" "co_OwnerID (mr_ownership m) = ms_DefenderID (mr_state m)"
    using inv ph by (simp_all add: match_inv_def phase_ok_def)
  show t: "t = \<lparr>ct_ExpectedRevision = ms_Round (mr_state m), ct_PreviousOwnerID = ms_DefenderID (mr_state m),
       ct_OwnerID = ms_AttackerID (mr_state m), ct_MatchID = md_ID (mr_definition m)\<rparr>"
    using assms(2,3) o by (auto simp: PrepareThroneCaptureResolution_def split: option.splits if_splits)
  have "co_Revision (mr_ownership m) \<noteq> 0"
    using inv by (auto simp: match_inv_def validCastleOwnership_def split: if_splits)
  then have "ms_Round (mr_state m) > 0" using o by (simp add: word_neq_0_conv)
  then show "RequiresOwnershipChange t"
    using match_inv_roles [OF inv] by (auto simp: t RequiresOwnershipChange_def transfer_Valid_def)
qed

lemma Commit_inv:
  assumes "siege_inv s" shows "siege_inv (snd (CommitThroneCaptureResolution o' s))"
proof -
  obtain e s' where c: "CommitThroneCaptureResolution o' s = (e, s')" by (cases "CommitThroneCaptureResolution o' s")
  from c show ?thesis
  proof (cases rule: Commit_cases)
    case refused
    with c assms show ?thesis by simp
  next
    case (committed m t)
    note p = Prepare_Some [OF assms committed(3,2)]
    define m1 where "m1 = m\<lparr>mr_state := (mr_state m)\<lparr>ms_Phase := MatchPhaseCompleted,
        ms_WinnerTeam := TeamAttacker, ms_WinnerID := ms_AttackerID (mr_state m)\<rparr>\<rparr>"
    from p committed(5) have o: "ms_Round (mr_state m) \<noteq> - 1"
        "o' = \<lparr>co_Revision = ms_Round (mr_state m) + 1, co_OwnerID = ms_AttackerID (mr_state m),
          co_PreviousOwnerID = ms_DefenderID (mr_state m), co_LastTransferMatchID = md_ID (mr_definition m)\<rparr>"
      by auto
    have "match_inv ((bumpMatchRevision m1)\<lparr>mr_ownership := o'\<rparr>)"
      using p(1,2) o committed(4) by (simp add: m1_def match_inv_def phase_ok_def bumpMatchRevision_def)
    then show ?thesis
      unfolding c snd_conv committed(7) m1_def [symmetric] by (intro Advance_inv Presence_inv) simp
  qed
qed

lemma Resolve_inv:
  assumes "siege_inv s" and "ResolveThroneCapture s db = (r, s', db')" shows "siege_inv s'"
proof -
  obtain r2 where "ResolveThroneCaptureWithError s db = (r2, s', db')"
    using assms(2) by (auto simp: ResolveThroneCapture_def split: prod.splits)
  then show ?thesis
  proof (cases rule: Resolve_cases)
    case (resolved t m o')
    then show ?thesis using Commit_inv [OF assms(1), of o'] by simp
  qed (use assms(1) in simp_all)
qed

lemma resetThrone_ok:
  assumes "match_inv m"
  shows "resetThroneForNextRound m = m\<lparr>mr_throne := mr_throne (resetThroneForNextRound m)\<rparr> \<and>
    (case mr_throne (resetThroneForNextRound m) of None \<Rightarrow> True | Some t \<Rightarrow> throne_ok t)"
proof (cases "mr_throne m")
  case (Some t)
  with assms have "throne_ok t" by (simp add: match_inv_def)
  with Some show ?thesis
    by (cases "th_capture t")
      (auto simp: resetThroneForNextRound_def Let_def throne_ok_def presence_ok_def capture_ok_def)
qed (simp add: resetThroneForNextRound_def)

lemma NextRound_inv:
  assumes "siege_inv s" and "StartNextRound w s scene = (r, s', scene')" shows "siege_inv s'"
  using assms(2)
proof (cases rule: StartNextRound_cases)
  case refused
  with assms(1) show ?thesis by simp
next
  case (started W m g a d)
  with assms(1) have inv: "match_inv m" by simp
  note t = resetThrone_ok [OF inv]
  define th where "th = mr_throne (resetThroneForNextRound m)"
  define m2 where "m2 = (m\<lparr>mr_throne := th\<rparr>)\<lparr>mr_state := (mr_state m)\<lparr>ms_Round := co_Revision (mr_ownership m),
    ms_Phase := MatchPhaseGate, ms_GateBreached := False, ms_WinnerTeam := TeamUnknown, ms_WinnerID := ''''\<rparr>\<rparr>"
  have rs: "resetThroneForNextRound m = m\<lparr>mr_throne := th\<rparr>"
    and th: "case th of None \<Rightarrow> True | Some t \<Rightarrow> throne_ok t"
    using t by (simp_all add: th_def)
  have "match_inv (applyRoles a d m2)"
    by (rule applyRoles_inv) (use inv started(7) th in \<open>simp_all add: m2_def match_inv_def\<close>)
  then have "match_inv (roundReset a d m)"
    by (simp add: roundReset_def Let_def rs m2_def)
  with started(11) show ?thesis by simp
qed

lemma gate_ops_keep_match:
  "gate_Attack W i p g tick delta s scene = (r, s', scene') \<Longrightarrow> sv_match s' = sv_match s"
  "ApplyActionDamage W p g rng damage s scene = (r, s', scene') \<Longrightarrow> sv_match s' = sv_match s"
  by (auto simp: gate_Attack_def ApplyActionDamage_def gate_hit_def Let_def
      split: option.splits if_splits prod.splits)

section \<open>The service as a machine\<close>

text \<open>
  The state is the service, the store behind its committer and the scene. \<open>SNextRound\<close> may come
  without a scene; \<open>SSetBlocker\<close> is the management command that switches a blocker directly.
\<close>

datatype ('d, 'e) siege_command =
  SPersist castle_ownership "('d, 'e) ownership_committer option" |
  SAssign entity_id team | SAssignResolved entity_id binding | SRemove entity_id |
  SObserveGate gate_state | SObservePresence "participant_presence list" | SAdvance int |
  SResolve | SCommit castle_ownership | SNextRound "string list option" |
  SGateAttack "string list" entity_id position string u64 int |
  SGateAction "string list" position string f32 u32 |
  SSetBlocker string bool

type_synonym ('d, 'e) siege_world_state = "('d, 'e) siege_service \<times> 'd \<times> navigator"

fun siege_step :: "('d, 'e) siege_command \<Rightarrow> ('d, 'e) siege_world_state \<Rightarrow> unit \<times> ('d, 'e) siege_world_state" where
  "siege_step (SPersist o' c) (s, db, n) = ((), snd (ConfigureCastleOwnershipPersistence o' c s), db, n)"
| "siege_step (SAssign i t) (s, db, n) = ((), snd (AssignParticipant i t s), db, n)"
| "siege_step (SAssignResolved i b) (s, db, n) = ((), snd (AssignResolvedParticipant i b s), db, n)"
| "siege_step (SRemove i) (s, db, n) = ((), RemoveParticipant i s, db, n)"
| "siege_step (SObserveGate st) (s, db, n) = ((), snd (ObserveGateState st s), db, n)"
| "siege_step (SObservePresence obs) (s, db, n) = ((), snd (ObserveThronePresence obs s), db, n)"
| "siege_step (SAdvance delta) (s, db, n) = ((), snd (AdvanceThroneCapture delta s), db, n)"
| "siege_step SResolve (s, db, n) = (case ResolveThroneCapture s db of (_, s', db') \<Rightarrow> ((), s', db', n))"
| "siege_step (SCommit o') (s, db, n) = ((), snd (CommitThroneCaptureResolution o' s), db, n)"
| "siege_step (SNextRound w) (s, db, n) =
     (case StartNextRound (map_option nav_world w) s n of (_, s', n') \<Rightarrow> ((), s', db, n'))"
| "siege_step (SGateAttack order i p g tick delta) (s, db, n) =
     (case gate_Attack (nav_world order) i p g tick delta s n of (_, s', n') \<Rightarrow> ((), s', db, n'))"
| "siege_step (SGateAction order p g rng damage) (s, db, n) =
     (case ApplyActionDamage (nav_world order) p g rng damage s n of (_, s', n') \<Rightarrow> ((), s', db, n'))"
| "siege_step (SSetBlocker i b) (s, db, n) = ((), s, db, snd (SetBlockerEnabled i b n))"

fun siege_machine_inv :: "('d, 'e) siege_world_state \<Rightarrow> bool" where
  "siege_machine_inv (s, db, n) = siege_inv s"

lemma siege_inv_same_match: "sv_match s' = sv_match s \<Longrightarrow> siege_inv s' = siege_inv s"
  by (simp add: siege_inv_def)

interpretation siege_matches: kept_invariant siege_step siege_machine_inv
proof
  fix w :: "('d, 'e) siege_world_state" and x :: "('d, 'e) siege_command"
  assume inv: "siege_machine_inv w"
  obtain s db n where w: "w = (s, db, n)" by (cases w)
  from inv have "siege_inv s" by (simp add: w)
  then show "siege_machine_inv (snd (siege_step x w))"
    unfolding w
    by (cases x)
      (auto simp: Persist_inv participant_ops_inv ObserveGateState_inv Presence_inv Advance_inv Commit_inv
        split: prod.split dest: Resolve_inv NextRound_inv gate_ops_keep_match siege_inv_same_match)
qed

text \<open>The gates: every operation but a direct switch of a gate's own blocker keeps the match.\<close>

definition gate_machine_inv :: "string set \<Rightarrow> ('d, 'e) siege_world_state \<Rightarrow> bool" where
  "gate_machine_inv claimed w =
     (case w of (s, db, n) \<Rightarrow> gates_match (nav_world []) s n \<and>
        (\<forall>i g. fmlookup (sg_gates s) i = Some g \<longrightarrow> gt_BlockerID (gr_definition g) \<in> claimed))"

fun gate_allowed :: "string set \<Rightarrow> ('d, 'e) siege_command \<Rightarrow> bool" where
  "gate_allowed claimed (SSetBlocker i _) = (i \<notin> claimed)"
| "gate_allowed claimed _ = True"

lemma match_ops_gates [simp]:
  "sg_gates (snd (ConfigureMatch d s)) = sg_gates s"
  "sg_gates (snd (ConfigureCastleOwnershipPersistence o' c s)) = sg_gates s"
  "sg_gates (snd (AssignParticipant i t s)) = sg_gates s"
  "sg_gates (RemoveParticipant i s) = sg_gates s"
  "sg_gates (snd (ObserveGateState st s)) = sg_gates s"
  "sg_gates (snd (ObserveThronePresence obs s)) = sg_gates s"
  "sg_gates (snd (AdvanceThroneCapture delta s)) = sg_gates s"
  by (simp_all add: ConfigureMatch_def ConfigureCastleOwnershipPersistence_def AssignParticipant_def
      RemoveParticipant_def ObserveGateState_def ObserveThronePresence_def
      AdvanceThroneCapture_def Let_def split: option.split prod.split sum.split)

lemma AssignResolved_gates [simp]: "sg_gates (snd (AssignResolvedParticipant i b s)) = sg_gates s"
proof -
  have "AssignParticipant i t s = (e, s') \<Longrightarrow> sg_gates s' = sg_gates s" for t e s'
    using match_ops_gates(3) [of i t s] by simp
  then show ?thesis by (auto simp: AssignResolvedParticipant_def split: option.split prod.split)
qed

lemma Commit_gates: "CommitThroneCaptureResolution o' s = (e, s') \<Longrightarrow> sg_gates s' = sg_gates s"
  by (auto elim!: Commit_cases)

lemma Resolve_gates: "ResolveThroneCapture s db = (r, s', db') \<Longrightarrow> sg_gates s' = sg_gates s"
  by (auto simp: ResolveThroneCapture_def elim!: Resolve_cases split: prod.splits dest: Commit_gates)

lemma gate_ops_definitions:
  "gate_Attack W i p g tick delta s scene = (r, s', scene') \<Longrightarrow> fmlookup (sg_gates s') j = Some h' \<Longrightarrow>
     \<exists>h. fmlookup (sg_gates s) j = Some h \<and> gr_definition h' = gr_definition h"
  "ApplyActionDamage W p g rng damage s scene = (r, s', scene') \<Longrightarrow> fmlookup (sg_gates s') j = Some h' \<Longrightarrow>
     \<exists>h. fmlookup (sg_gates s) j = Some h \<and> gr_definition h' = gr_definition h"
proof -
  have hit: "gate_hit W scene i g damage s = (r, s', scene') \<Longrightarrow> fmlookup (sg_gates s) i = Some g \<Longrightarrow>
      fmlookup (sg_gates s') j = Some h' \<Longrightarrow> \<exists>h. fmlookup (sg_gates s) j = Some h \<and> gr_definition h' = gr_definition h"
    for i g damage r s'
    by (auto simp: gate_hit_def Let_def split: option.splits if_splits prod.splits)
  show "gate_Attack W i p g tick delta s scene = (r, s', scene') \<Longrightarrow> fmlookup (sg_gates s') j = Some h' \<Longrightarrow>
     \<exists>h. fmlookup (sg_gates s) j = Some h \<and> gr_definition h' = gr_definition h"
    unfolding gate_Attack_def Let_def
    by (auto split: option.splits if_splits prod.splits dest: hit)
  show "ApplyActionDamage W p g rng damage s scene = (r, s', scene') \<Longrightarrow> fmlookup (sg_gates s') j = Some h' \<Longrightarrow>
     \<exists>h. fmlookup (sg_gates s) j = Some h \<and> gr_definition h' = gr_definition h"
    unfolding ApplyActionDamage_def
    by (auto split: option.splits if_splits prod.splits dest: hit)
qed

lemma NextRound_definitions:
  "StartNextRound w s scene = (r, s', scene') \<Longrightarrow> fmlookup (sg_gates s') j = Some h' \<Longrightarrow>
     \<exists>h. fmlookup (sg_gates s) j = Some h \<and> gr_definition h' = gr_definition h"
  by (auto elim!: StartNextRound_cases split: if_splits)

lemma gate_machine_inv_keep:
  assumes "gate_machine_inv claimed (s, db, n)" and "gates_match (nav_world []) s' n'"
    and "\<And>j h'. fmlookup (sg_gates s') j = Some h' \<Longrightarrow>
      \<exists>h. fmlookup (sg_gates s) j = Some h \<and> gr_definition h' = gr_definition h"
  shows "gate_machine_inv claimed (s', db', n')"
  using assms(1,2) assms(3) unfolding gate_machine_inv_def by (auto, metis)

lemma gate_machine_inv_same:
  "gate_machine_inv claimed (s, db, n) \<Longrightarrow> sg_gates s' = sg_gates s \<Longrightarrow> gate_machine_inv claimed (s', db', n)"
  by (simp add: gate_machine_inv_def gates_match_gates [of s' s])

interpretation siege_gates: guarded_invariant siege_step "gate_allowed claimed" "gate_machine_inv claimed" for claimed
proof
  fix x :: "('d, 'e) siege_command" and w :: "('d, 'e) siege_world_state"
  assume a: "gate_allowed claimed x" and inv: "gate_machine_inv claimed w"
  obtain s db n where w: "w = (s, db, n)" by (cases w)
  note inv' = inv [unfolded w]
  then have m: "gates_match (nav_world order) s n" for order
    using gates_match_order by (auto simp: gate_machine_inv_def)
  show "gate_machine_inv claimed (snd (siege_step x w))"
  proof (cases x)
    case SResolve
    then show ?thesis
      using inv' by (auto simp: w intro: gate_machine_inv_same dest: Resolve_gates split: prod.split)
  next
    case (SCommit o')
    then show ?thesis
      using gate_machine_inv_same [OF inv' Commit_gates [of o' s, OF prod.collapse [symmetric]]] by (simp add: w)
  next
    case (SNextRound world)
    obtain r s' n' where r: "StartNextRound (map_option nav_world world) s n = (r, s', n')"
      by (cases "StartNextRound (map_option nav_world world) s n")
    have "gates_match (nav_world []) s' n'"
    proof (cases world)
      case None
      with r have "s' = s \<and> n' = n" by (auto elim!: StartNextRound_cases)
      with m show ?thesis by simp
    next
      case (Some order)
      with r nav_scene.StartNextRound_match [OF m] have "gates_match (nav_world order) s' n'" by auto
      then show ?thesis using gates_match_order by blast
    qed
    with r inv' NextRound_definitions [OF r] SNextRound show ?thesis
      by (simp add: w gate_machine_inv_keep)
  next
    case (SGateAttack order i p g tick delta)
    obtain r s' n' where r: "gate_Attack (nav_world order) i p g tick delta s n = (r, s', n')"
      by (cases "gate_Attack (nav_world order) i p g tick delta s n")
    with nav_scene.gate_Attack_match [OF m r] gates_match_order have "gates_match (nav_world []) s' n'" by blast
    with r inv' gate_ops_definitions(1) [OF r] SGateAttack show ?thesis
      by (simp add: w gate_machine_inv_keep)
  next
    case (SGateAction order p g rng damage)
    obtain r s' n' where r: "ApplyActionDamage (nav_world order) p g rng damage s n = (r, s', n')"
      by (cases "ApplyActionDamage (nav_world order) p g rng damage s n")
    with nav_scene.ApplyActionDamage_match [OF m r] gates_match_order have "gates_match (nav_world []) s' n'" by blast
    with r inv' gate_ops_definitions(2) [OF r] SGateAction show ?thesis
      by (simp add: w gate_machine_inv_keep)
  next
    case (SSetBlocker i b)
    with a have i: "i \<notin> claimed" by simp
    obtain e n' where set: "SetBlockerEnabled i b n = (e, n')" by (cases "SetBlockerEnabled i b n")
    have "BlockerEnabled n' (gt_BlockerID (gr_definition g)) = BlockerEnabled n (gt_BlockerID (gr_definition g))"
      if "fmlookup (sg_gates s) j = Some g" for j g
    proof -
      from inv' that i have "gt_BlockerID (gr_definition g) \<noteq> i" by (auto simp: gate_machine_inv_def)
      with set show ?thesis using nav_scene.set_other [of "[]" i b n e] by simp
    qed
    with m [of "[]"] have "gates_match (nav_world []) s n'" by (simp add: gates_match_def)
    with inv' set SSetBlocker show ?thesis by (simp add: w gate_machine_inv_def)
  qed (use inv' in \<open>auto simp: w intro: gate_machine_inv_same\<close>)
qed

section \<open>Properties\<close>

text \<open>
  C28. A gate stands exactly while its blocker is on: from a valid world and the gates built
  from it, after any sequence of attacks, actions, match commands and round resets (and direct
  switches of blockers no gate owns), every gate's blocker in the navigator is enabled if and
  only if the gate has hit points left, and those never exceed its maximum.
\<close>

theorem gates_stand_with_blockers:
  assumes "NewGameplayNavigator d = Inr n" and "sg_gates s = sg_gates (gate_new (gw_Gates d))"
    and "list_all (gate_allowed (gt_BlockerID ` set (gw_Gates d))) cmds"
    and "run_ops siege_step cmds (s, db, n) = (s', db', n')"
    and "fmlookup (sg_gates s') i = Some g"
  shows "BlockerEnabled n' (gt_BlockerID (gr_definition g)) = Inr (gr_hp g \<noteq> 0) \<and>
    gr_hp g \<le> gt_MaxHP (gr_definition g)"
proof -
  have start: "gates_match (nav_world []) s n"
    using gate_new_match [OF assms(1)] by (simp add: gates_match_gates [OF assms(2)])
  obtain blockers where "scanGates blockers (gw_Gates d) {} {} = None"
    using gw_Validate_parts [OF NewGameplayNavigator_props(1) [OF assms(1)]] by metis
  then have "distinct (map gt_ID (gw_Gates d))" using scanGates_None by blast
  then have own: "gt_BlockerID (gr_definition h) \<in> gt_BlockerID ` set (gw_Gates d)"
    if "fmlookup (sg_gates s) j = Some h" for j h
    using that gate_new_lookup [where gs = "gw_Gates d" and m = fmempty and i = j]
    by (auto simp: assms(2) gate_new_def find_Some_iff split: option.splits)
  have "gate_machine_inv (gt_BlockerID ` set (gw_Gates d)) (s, db, n)"
    using start own by (simp add: gate_machine_inv_def)
  from siege_gates.run_allowed [OF assms(3) this] assms(4,5) show ?thesis
    by (simp add: gate_machine_inv_def gates_match_def)
qed

text \<open>
  C8. The state machine of a match: after any sequence of commands, with any committer behind
  it, the two roles are the two configured sides, and the phase says who owns the castle: the
  defender until the throne is captured, with the round number equal to the ownership revision;
  after a capture the attacker, with the revision one past the round and the transfer recorded.
\<close>

theorem siege_history:
  assumes "ConfigureMatch d s0 = (None, s)"
    and "\<forall>t. md_Throne d = Some t \<longrightarrow> td_CaptureDuration t < 2 ^ 63"
    and "run_ops siege_step cmds (s, db, n) = (s', db', n')" and "sv_match s' = Some m"
  shows "{ms_AttackerID (mr_state m), ms_DefenderID (mr_state m)} =
      {md_AttackerID (mr_definition m), md_DefenderID (mr_definition m)} \<and>
    ms_AttackerID (mr_state m) \<noteq> ms_DefenderID (mr_state m) \<and>
    validCastleOwnership (mr_ownership m) \<and>
    phase_ok (mr_state m) (mr_ownership m) (md_ID (mr_definition m))"
proof -
  have "siege_machine_inv (s, db, n)" using ConfigureMatch_inv [OF assms(1,2)] by simp
  from siege_matches.run_inv [OF this] assms(3,4) have inv: "match_inv m"
    by (metis siege_machine_inv.simps siege_inv_match(3))
  then have "rolesForOwner m (ms_DefenderID (mr_state m)) = Some (ms_AttackerID (mr_state m), ms_DefenderID (mr_state m))"
    by (simp add: match_inv_def)
  then have "{ms_AttackerID (mr_state m), ms_DefenderID (mr_state m)} =
      {md_AttackerID (mr_definition m), md_DefenderID (mr_definition m)}"
    by (auto simp: rolesForOwner_def split: if_splits)
  with inv match_inv_roles [OF inv] show ?thesis by (simp add: match_inv_def)
qed

text \<open>A hold in progress: the phase is the throne's, the attackers are alone on it.\<close>

definition hold_state :: "('d, 'e) siege_service \<Rightarrow> throne_capture \<Rightarrow> bool" where
  "hold_state s c =
     (\<exists>m t. sv_match s = Some m \<and> ms_Phase (mr_state m) = MatchPhaseThrone \<and> mr_throne m = Some t \<and>
        tp_CaptureEligible (th_state t) \<and> th_capture t = Some c)"

lemma hold_state_capture: "hold_state s c \<Longrightarrow> siege_ThroneCapture s = Some c"
  by (auto simp: hold_state_def siege_ThroneCapture_def)

lemma Advance_hold:
  assumes "hold_state s c"
  obtains c' where "hold_state (snd (AdvanceThroneCapture d s)) c'"
    "tc_Progress c' = tc_Progress (captureTick True True d c)"
    "tc_Required c' = tc_Required c"
    "tc_ReadyForResolution c' = tc_ReadyForResolution (captureTick True True d c)"
proof -
  from assms obtain m t where m: "sv_match s = Some m" "ms_Phase (mr_state m) = MatchPhaseThrone"
      "mr_throne m = Some t" "tp_CaptureEligible (th_state t)" "th_capture t = Some c"
    by (auto simp: hold_state_def)
  define nxt where "nxt = captureTick True True d c"
  have req: "tc_Required nxt = tc_Required c" by (simp add: nxt_def captureTick_def Let_def)
  show ?thesis
  proof (cases "sameThroneCapture c nxt")
    case True
    then have "snd (AdvanceThroneCapture d s) = s" using m by (simp add: AdvanceThroneCapture_def Let_def nxt_def)
    with True assms show ?thesis by (intro that [of c]) (simp_all add: sameThroneCapture_def nxt_def)
  next
    case False
    then have "snd (AdvanceThroneCapture d s) = s\<lparr>sv_match := Some (m\<lparr>mr_throne := Some (t\<lparr>th_capture :=
        Some (nxt\<lparr>tc_Revision := nextRevision (tc_Revision c)\<rparr>)\<rparr>)\<rparr>)\<rparr>"
      using m by (simp add: AdvanceThroneCapture_def Let_def nxt_def)
    with m req show ?thesis
      by (intro that [of "nxt\<lparr>tc_Revision := nextRevision (tc_Revision c)\<rparr>"]) (auto simp: hold_state_def nxt_def)
  qed
qed

lemma captureTick_hold:
  assumes "capture_ok r c" and "0 < d"
  shows "tc_Progress (captureTick True True d c) = min r (tc_Progress c + d)"
    "tc_ReadyForResolution (captureTick True True d c) \<longleftrightarrow> r \<le> tc_Progress c + d"
proof -
  have w: "wrap_i64 (tc_Required c - tc_Progress c) = r - tc_Progress c"
    using assms by (subst wrap_i64_id) (auto simp: capture_ok_def)
  have p: "d < r - tc_Progress c \<Longrightarrow> wrap_i64 (tc_Progress c + d) = tc_Progress c + d"
    using assms by (intro wrap_i64_id) (auto simp: capture_ok_def)
  show "tc_Progress (captureTick True True d c) = min r (tc_Progress c + d)"
    "tc_ReadyForResolution (captureTick True True d c) \<longleftrightarrow> r \<le> tc_Progress c + d"
    using assms p by (auto simp: captureTick_def Let_def w capture_ok_def)
qed

lemma hold_run:
  assumes "hold_state s c" and "capture_ok r c" and "\<forall>d \<in> set ds. 0 < d"
  shows "\<exists>c'. hold_state (fold (\<lambda>d s. snd (AdvanceThroneCapture d s)) ds s) c' \<and>
    tc_Progress c' = min r (tc_Progress c + sum_list ds) \<and>
    (tc_ReadyForResolution c' \<longleftrightarrow> r \<le> tc_Progress c + sum_list ds)"
  using assms
proof (induction ds arbitrary: s c)
  case Nil
  then show ?case by (intro exI [of _ c]) (auto simp: capture_ok_def)
next
  case (Cons d ds)
  then have d: "0 < d" by simp
  from Advance_hold [OF Cons.prems(1), of d] obtain c' where h: "hold_state (snd (AdvanceThroneCapture d s)) c'"
      and p: "tc_Progress c' = tc_Progress (captureTick True True d c)" "tc_Required c' = tc_Required c"
        "tc_ReadyForResolution c' = tc_ReadyForResolution (captureTick True True d c)"
    by blast
  note t = captureTick_hold [OF Cons.prems(2) d]
  have ok: "capture_ok r c'"
    using captureTick_ok [OF Cons.prems(2), of True True d] Cons.prems(2) p by (simp add: capture_ok_def)
  have nn: "0 \<le> sum_list ds" using Cons.prems(3) by (intro sum_list_nonneg) auto
  obtain c2 where c2: "hold_state (fold (\<lambda>d s. snd (AdvanceThroneCapture d s)) ds (snd (AdvanceThroneCapture d s))) c2"
      "tc_Progress c2 = min r (tc_Progress c' + sum_list ds)"
      "tc_ReadyForResolution c2 \<longleftrightarrow> r \<le> tc_Progress c' + sum_list ds"
    using Cons.IH [OF h ok] Cons.prems(3) by auto
  have "tc_Progress c' = min r (tc_Progress c + d)" using p(1) t(1) by simp
  with c2 nn show ?case by (intro exI [of _ c2]) (auto simp: min_def)
qed

text \<open>
  C30. A held throne is captured: while attackers alone stay on the throne, any ticks of
  positive length add up, whatever their sizes; the progress is their sum capped at the required
  time, and the capture is ready for resolution exactly when that much time has passed.
\<close>

theorem throne_hold_completes:
  assumes "siege_inv s" and "sv_match s = Some m" and "ms_Phase (mr_state m) = MatchPhaseThrone"
    and "mr_throne m = Some t" and "tp_CaptureEligible (th_state t)" and "th_capture t = Some c"
    and "\<forall>d \<in> set ds. 0 < d"
  shows "\<exists>c'. siege_ThroneCapture (fold (\<lambda>d s. snd (AdvanceThroneCapture d s)) ds s) = Some c' \<and>
    tc_Progress c' = min (tc_Required c) (tc_Progress c + sum_list ds) \<and>
    (tc_ReadyForResolution c' \<longleftrightarrow> tc_Required c \<le> tc_Progress c + sum_list ds)"
proof -
  have "throne_ok t" using assms(1,2,4) by (simp add: match_inv_def)
  then have ok: "capture_ok (tc_Required c) c" using assms(6) by (simp add: throne_ok_def capture_ok_def)
  have "hold_state s c" using assms(2-6) by (auto simp: hold_state_def)
  from hold_run [OF this ok assms(7)] hold_state_capture show ?thesis by blast
qed

text \<open>The head count against its reference: the first observation of every entity decides.\<close>

fun first_by :: "('a \<Rightarrow> 'b) \<Rightarrow> 'a list \<Rightarrow> 'b set \<Rightarrow> 'a list" where
  "first_by f [] seen = []"
| "first_by f (x # xs) seen = (if f x \<in> seen then first_by f xs seen else x # first_by f xs (insert (f x) seen))"

definition on_throne :: "(entity_id, team) fmap \<Rightarrow> objective_zone \<Rightarrow> team \<Rightarrow> participant_presence \<Rightarrow> bool" where
  "on_throne teams zone t ob =
     (\<not> pp_Defeated ob \<and> zone_Contains zone (pp_Position ob) \<and> fmlookup teams (pp_EntityID ob) = Some t)"

lemma countPresence_reference:
  "countPresence teams zone obs seen a d =
     (a + of_nat (length (filter (on_throne teams zone TeamAttacker) (first_by pp_EntityID obs (insert 0 (set seen))))),
      d + of_nat (length (filter (on_throne teams zone TeamDefender) (first_by pp_EntityID obs (insert 0 (set seen))))))"
proof (induction teams zone obs seen a d rule: countPresence.induct)
  case (2 teams zone ob rest seen a d)
  show ?case
  proof (cases "pp_EntityID ob = 0 \<or> pp_EntityID ob \<in> set seen")
    case True
    with 2 show ?thesis by auto
  next
    case new: False
    show ?thesis
    proof (cases "pp_Defeated ob \<or> \<not> zone_Contains zone (pp_Position ob)")
      case True
      with 2 new show ?thesis by (auto simp: on_throne_def insert_commute)
    next
      case False
      with 2 new show ?thesis
        by (cases "fmlookup teams (pp_EntityID ob)")
          (auto simp: on_throne_def insert_commute algebra_simps split: team.split)
    qed
  qed
qed simp

text \<open>
  The throne is observed as it is: in the throne phase the two counts are the numbers of
  undefeated members of each team inside the zone, every entity counted once by its first
  observation, entity 0 never; the throne is contested exactly when both are present and
  capturable exactly when attackers are alone; in any other phase nobody counts.
\<close>

theorem presence_counts_exact:
  assumes "sv_match s = Some m" and "mr_throne m = Some t" and "length obs < 2 ^ 32"
  shows "\<exists>p. siege_ThronePresence (snd (ObserveThronePresence obs s)) = Some p \<and>
    (let active = (ms_Phase (mr_state m) = MatchPhaseThrone);
         count = (\<lambda>tm. if active then length (filter (on_throne (mr_participantTeams m) (td_Zone (th_definition t)) tm)
           (first_by pp_EntityID obs {0})) else 0)
     in tp_Active p = active \<and> unat (tp_AttackerCount p) = count TeamAttacker \<and>
        unat (tp_DefenderCount p) = count TeamDefender \<and>
        (tp_Contested p \<longleftrightarrow> 0 < count TeamAttacker \<and> 0 < count TeamDefender) \<and>
        (tp_CaptureEligible p \<longleftrightarrow> 0 < count TeamAttacker \<and> count TeamDefender = 0))"
proof -
  define active where "active = (ms_Phase (mr_state m) = MatchPhaseThrone)"
  define count where "count tm = (if active then length (filter (on_throne (mr_participantTeams m)
    (td_Zone (th_definition t)) tm) (first_by pp_EntityID obs {0})) else 0)" for tm
  have len: "length (first_by pp_EntityID obs seen) \<le> length obs" for seen
    by (induction obs arbitrary: seen) (auto intro: le_SucI)
  have small: "count tm < 2 ^ 32" for tm
    using order_trans [OF length_filter_le len [of "{0}"]] assms(3)
    by (auto simp: count_def intro: le_less_trans)
  have counts: "(if active then countPresence (mr_participantTeams m) (td_Zone (th_definition t)) obs [] 0 0 else (0, 0)) =
      (of_nat (count TeamAttacker), of_nat (count TeamDefender))"
    by (simp add: countPresence_reference count_def)
  have u: "unat (of_nat (count tm) :: u32) = count tm" for tm
    using small [of tm] by (simp add: unsigned_of_nat take_bit_nat_eq_self)
  have pos: "(of_nat (count tm) :: u32) > 0 \<longleftrightarrow> 0 < count tm" "(of_nat (count tm) :: u32) = 0 \<longleftrightarrow> count tm = 0" for tm
    using u [of tm] by (auto simp: word_less_nat_alt)
  define nxt where "nxt = \<lparr>tp_Revision = tp_Revision (th_state t), tp_ObjectiveID = td_ID (th_definition t),
    tp_Active = active, tp_AttackerCount = of_nat (count TeamAttacker), tp_DefenderCount = of_nat (count TeamDefender),
    tp_Contested = (active \<and> (of_nat (count TeamAttacker) :: u32) > 0 \<and> (of_nat (count TeamDefender) :: u32) > 0),
    tp_CaptureEligible = (active \<and> (of_nat (count TeamAttacker) :: u32) > 0 \<and> (of_nat (count TeamDefender) :: u32) = 0)\<rparr>"
  have o: "snd (ObserveThronePresence obs s) = (if sameThronePresence (th_state t) nxt then s
      else s\<lparr>sv_match := Some (m\<lparr>mr_throne := Some (t\<lparr>th_state :=
        nxt\<lparr>tp_Revision := nextRevision (tp_Revision (th_state t))\<rparr>\<rparr>)\<rparr>)\<rparr>)"
    using assms(1,2) counts by (simp add: ObserveThronePresence_def Let_def active_def [symmetric] nxt_def)
  obtain p where p: "siege_ThronePresence (snd (ObserveThronePresence obs s)) = Some p" and same: "sameThronePresence p nxt"
    using assms(1,2) by (cases "sameThronePresence (th_state t) nxt")
      (auto simp: o siege_ThronePresence_def sameThronePresence_def)
  have zero: "\<not> active \<Longrightarrow> count tm = 0" for tm by (simp add: count_def)
  from same show ?thesis
    unfolding Let_def active_def [symmetric] count_def [symmetric]
    by (intro exI [of _ p]) (use p zero in \<open>auto simp: sameThronePresence_def nxt_def u pos\<close>)
qed

lemma fmlookup_flipped:
  "fmlookup (fmmap oppositeTeam m) i = map_option oppositeTeam (fmlookup m i)"
  by simp

lemma applyRoles_teams:
  assumes "ms_AttackerID (mr_state m) \<noteq> a"
  shows "mr_participantTeams (applyRoles a d m) = fmmap oppositeTeam (mr_participantTeams m)"
    "mr_trustedParticipantTeams (applyRoles a d m) = fmmap oppositeTeam (mr_trustedParticipantTeams m)"
  using assms by (simp_all add: applyRoles_def Let_def)

lemma roundReset_state:
  assumes "match_inv m" and "ms_AttackerID (mr_state m) \<noteq> a"
  shows "ms_Phase (mr_state (roundReset a d m)) = MatchPhaseGate"
    "ms_Round (mr_state (roundReset a d m)) = co_Revision (mr_ownership m)"
    "ms_AttackerID (mr_state (roundReset a d m)) = a" "ms_DefenderID (mr_state (roundReset a d m)) = d"
    "mr_ownership (roundReset a d m) = mr_ownership m" "mr_definition (roundReset a d m) = mr_definition m"
    "mr_participantTeams (roundReset a d m) = fmmap oppositeTeam (mr_participantTeams m)"
    "mr_throne (roundReset a d m) = mr_throne (resetThroneForNextRound m)"
proof -
  obtain th where "resetThroneForNextRound m = m\<lparr>mr_throne := th\<rparr>" using resetThrone_ok [OF assms(1)] by blast
  with assms(2) show "ms_Phase (mr_state (roundReset a d m)) = MatchPhaseGate"
    "ms_Round (mr_state (roundReset a d m)) = co_Revision (mr_ownership m)"
    "ms_AttackerID (mr_state (roundReset a d m)) = a" "ms_DefenderID (mr_state (roundReset a d m)) = d"
    "mr_ownership (roundReset a d m) = mr_ownership m" "mr_definition (roundReset a d m) = mr_definition m"
    "mr_participantTeams (roundReset a d m) = fmmap oppositeTeam (mr_participantTeams m)"
    "mr_throne (roundReset a d m) = mr_throne (resetThroneForNextRound m)"
    by (simp_all add: roundReset_def Let_def bumpMatchRevision_def applyRoles_def)
qed

lemma resetThrone_capture:
  "mr_throne m = Some t \<Longrightarrow> th_capture t = Some c \<Longrightarrow>
     \<exists>t' c'. mr_throne (resetThroneForNextRound m) = Some t' \<and> th_capture t' = Some c' \<and>
       \<not> tc_ReadyForResolution c' \<and> tc_Progress c' = 0"
  by (auto simp: resetThroneForNextRound_def Let_def sameThroneCapture_def)

text \<open>
  C29. A completed round always turns over: with a navigator whose blockers match the gates,
  the next round starts, the side that captured the castle becomes its defender, every
  participant changes team with its side, the breach gate is back at full strength with its
  blocker on, and no capture is ready. A completed siege is never stuck.
\<close>

theorem round_turnover:
  assumes "siege_inv s" and "sv_match s = Some m" and "ms_Phase (mr_state m) = MatchPhaseCompleted"
    and "gates_match (nav_world order) s n"
    and "fmlookup (sg_gates s) (md_BreachGateID (mr_definition m)) = Some g"
    and "gomap_has (nv_blockers n) (gt_BlockerID (gr_definition g))"
  shows "\<exists>s' n' m' g'. StartNextRound (Some (nav_world order)) s n = ((True, None), s', n') \<and>
    sv_match s' = Some m' \<and> ms_Phase (mr_state m') = MatchPhaseGate \<and>
    ms_DefenderID (mr_state m') = ms_WinnerID (mr_state m) \<and>
    ms_AttackerID (mr_state m') = ms_DefenderID (mr_state m) \<and>
    ms_Round (mr_state m') = ms_Round (mr_state m) + 1 \<and>
    (\<forall>i. fmlookup (mr_participantTeams m') i = map_option oppositeTeam (fmlookup (mr_participantTeams m) i)) \<and>
    fmlookup (sg_gates s') (md_BreachGateID (mr_definition m)) = Some g' \<and>
    gr_hp g' = gt_MaxHP (gr_definition g') \<and> BlockerEnabled n' (gt_BlockerID (gr_definition g')) = Inr True \<and>
    (\<forall>c. siege_ThroneCapture s' = Some c \<longrightarrow> \<not> tc_ReadyForResolution c \<and> tc_Progress c = 0)"
proof -
  have inv: "match_inv m" using assms(1,2) by simp
  have ph: "ms_WinnerID (mr_state m) = ms_AttackerID (mr_state m)"
      "co_OwnerID (mr_ownership m) = ms_AttackerID (mr_state m)" "ms_Round (mr_state m) \<noteq> - 1"
      "co_Revision (mr_ownership m) = ms_Round (mr_state m) + 1"
    using inv assms(3) by (simp_all add: match_inv_def phase_ok_def)
  have valid: "validCastleOwnership (mr_ownership m)" using inv by (simp add: match_inv_def)
  note sides = match_inv_roles [OF inv]
  have roles: "rolesForOwner m (co_OwnerID (mr_ownership m)) = Some (ms_DefenderID (mr_state m), ms_AttackerID (mr_state m))"
    using inv sides unfolding ph by (auto simp: match_inv_def rolesForOwner_def split: if_splits)
  have gate: "gt_BlockerID (gr_definition g) \<noteq> ''''"
    using assms(4,5) by (simp add: gates_match_def)
  obtain enabled where en: "BlockerEnabled n (gt_BlockerID (gr_definition g)) = Inr enabled"
    using assms(6) by (simp add: BlockerEnabled_def)
  have plan: "roundPlan (Some (nav_world order)) s n =
      (Inr (nav_world order, m, g, (ms_DefenderID (mr_state m), ms_AttackerID (mr_state m)), enabled) ::
        (bool \<times> 'b match_error option) + _)"
    using assms(2,3,5) valid sides ph roles gate en by (simp add: roundPlan_def)
  obtain n' where set: "(if \<not> enabled then SetBlockerEnabled (gt_BlockerID (gr_definition g)) True n else (None, n)) = (None, n')"
    using assms(6) by (cases enabled) (auto simp: SetBlockerEnabled_def)
  define s' where "s' = s\<lparr>sg_gates := fmupd (md_BreachGateID (mr_definition m))
      (g\<lparr>gr_hp := gt_MaxHP (gr_definition g)\<rparr>) (sg_gates s),
    sg_nextAttackTick := fmfilter (\<lambda>k. snd k \<noteq> gt_ID (gr_definition g)) (sg_nextAttackTick s),
    sv_match := Some (roundReset (ms_DefenderID (mr_state m)) (ms_AttackerID (mr_state m)) m)\<rparr>"
  have run: "StartNextRound (Some (nav_world order)) s n = ((True, None), s', n')"
    unfolding StartNextRound_def plan using set by (cases enabled) (simp_all add: s'_def)
  have "gates_match (nav_world order) s' n'"
    by (rule nav_scene.StartNextRound_match [OF assms(4) run])
  then have on: "BlockerEnabled n' (gt_BlockerID (gr_definition g)) = Inr True"
  proof -
    assume "gates_match (nav_world order) s' n'"
    moreover have "fmlookup (sg_gates s') (md_BreachGateID (mr_definition m)) = Some (g\<lparr>gr_hp := gt_MaxHP (gr_definition g)\<rparr>)"
      by (simp add: s'_def)
    ultimately have "BlockerEnabled n' (gt_BlockerID (gr_definition g)) = Inr (gt_MaxHP (gr_definition g) \<noteq> 0)"
      unfolding gates_match_def by force
    moreover have "gt_MaxHP (gr_definition g) \<noteq> 0" using assms(4,5) by (simp add: gates_match_def)
    ultimately show ?thesis by simp
  qed
  have ne: "ms_AttackerID (mr_state m) \<noteq> ms_DefenderID (mr_state m)" using sides by blast
  note rs = roundReset_state [OF inv ne]
  have cap: "\<not> tc_ReadyForResolution c \<and> tc_Progress c = 0" if c: "siege_ThroneCapture s' = Some c" for c
  proof -
    from c obtain t' where t': "mr_throne (resetThroneForNextRound m) = Some t'" "th_capture t' = Some c"
      using rs(8) by (auto simp: siege_ThroneCapture_def s'_def split: option.splits)
    then obtain t where t: "mr_throne m = Some t"
      by (cases "mr_throne m") (auto simp: resetThroneForNextRound_def)
    have "th_capture t \<noteq> None"
    proof
      assume "th_capture t = None"
      with t' t show False by (auto simp: resetThroneForNextRound_def Let_def split: if_splits)
    qed
    then obtain c0 where "th_capture t = Some c0" by auto
    from resetThrone_capture [OF t this] t' show ?thesis by auto
  qed
  show ?thesis
    using run on cap rs ph
    by (intro exI [of _ s'] exI [of _ n'] exI [of _ "roundReset (ms_DefenderID (mr_state m)) (ms_AttackerID (mr_state m)) m"]
        exI [of _ "g\<lparr>gr_hp := gt_MaxHP (gr_definition g)\<rparr>"]) (simp add: s'_def)
qed

section \<open>Witnesses\<close>

text \<open>A gate of 100 hit points, four blows of 30, ten seconds on the throne.\<close>

definition sample_match :: match_definition where
  "sample_match = \<lparr>md_ID = ''siege'', md_AttackerID = ''red'', md_DefenderID = ''blue'',
     md_BreachGateID = ''gate'', md_ThroneObjectiveID = ''throne'',
     md_Throne = Some \<lparr>td_ID = ''throne'', td_Zone = \<lparr>oz_Layer = 0, oz_Bounds = sample_bounds\<rparr>,
       td_CaptureDuration = 10000000000\<rparr>, md_ParticipantTeams = fmempty\<rparr>"

definition sample_siege :: "(unit, unit) siege_service" where
  "sample_siege = snd (ConfigureMatch sample_match (siege_new (gw_Gates sample_gw)))"

lemma sample_configured: "ConfigureMatch sample_match (siege_new (gw_Gates sample_gw)) = (None, sample_siege)"
proof -
  have "fst (ConfigureMatch sample_match (siege_new (gw_Gates sample_gw)) ::
      unit match_error option \<times> (unit, unit) siege_service) = None"
    by code_simp
  then show ?thesis by (simp add: sample_siege_def prod_eq_iff)
qed

definition sample_blow :: "(unit, unit) siege_command" where
  "sample_blow = SGateAction [''door''] sample_at ''gate'' 0x40A00000 30"

theorem gates_stand_with_blockers_witness:
  "BlockerEnabled (snd (snd (run_ops siege_step [sample_blow, sample_blow, sample_blow, sample_blow]
     (sample_siege, (), sample_nav)))) ''door'' = Inr False"
proof -
  define w where "w = run_ops siege_step [sample_blow, sample_blow, sample_blow, sample_blow] (sample_siege, (), sample_nav)"
  obtain s' db' n' where w': "w = (s', db', n')" by (cases w)
  have "case fmlookup (sg_gates (fst w)) ''gate'' of None \<Rightarrow> False
      | Some g \<Rightarrow> gr_hp g = 0 \<and> gt_BlockerID (gr_definition g) = ''door''"
    unfolding w_def by code_simp
  then obtain g where g: "fmlookup (sg_gates s') ''gate'' = Some g" "gr_hp g = 0" "gt_BlockerID (gr_definition g) = ''door''"
    by (auto simp: w' split: option.splits)
  have gates: "sg_gates sample_siege = sg_gates (gate_new (gw_Gates sample_gw))"
    by (simp add: sample_siege_def siege_new_def)
  have allowed: "list_all (gate_allowed (gt_BlockerID ` set (gw_Gates sample_gw))) [sample_blow, sample_blow, sample_blow, sample_blow]"
    by (simp add: sample_blow_def)
  from gates_stand_with_blockers [OF sample_nav gates allowed w' [unfolded w_def] g(1)] g(2,3)
  show ?thesis unfolding w_def [symmetric] w' by simp
qed

definition sample_breach :: gate_state where
  "sample_breach = \<lparr>gs_ID = ''gate'', gs_HP = 0, gs_MaxHP = 100, gs_Destroyed = True\<rparr>"

definition sample_capture :: "(unit, unit) siege_command list" where
  "sample_capture = [SAssign 7 TeamAttacker, SObserveGate sample_breach,
     SObservePresence [\<lparr>pp_EntityID = 7, pp_Position = sample_at, pp_Defeated = False\<rparr>]]"

definition sample_held :: "(unit, unit) siege_service" where
  "sample_held = fst (run_ops siege_step sample_capture (sample_siege, (), sample_nav))"

definition sample_done :: "(unit, unit) siege_service" where
  "sample_done = fst (run_ops siege_step [SAdvance 10000000000, SResolve] (sample_held, (), sample_nav))"

theorem siege_history_witness:
  "(case sv_match sample_done of None \<Rightarrow> False
    | Some m \<Rightarrow> ms_Phase (mr_state m) = MatchPhaseCompleted \<and>
        phase_ok (mr_state m) (mr_ownership m) (md_ID (mr_definition m)))"
proof -
  have bound: "\<forall>t. md_Throne sample_match = Some t \<longrightarrow> td_CaptureDuration t < 2 ^ 63"
    by (simp add: sample_match_def)
  define cmds where "cmds = sample_capture @ [SAdvance 10000000000, SResolve]"
  have result: "sample_done = fst (run_ops siege_step cmds (sample_siege, (), sample_nav))"
    by (simp add: sample_done_def sample_held_def sample_capture_def cmds_def)
  obtain s' db' n' where w: "run_ops siege_step cmds (sample_siege, (), sample_nav) = (s', db', n')"
    by (cases "run_ops siege_step cmds (sample_siege, (), sample_nav)")
  have "(case sv_match sample_done of None \<Rightarrow> False | Some m \<Rightarrow> ms_Phase (mr_state m) = MatchPhaseCompleted)"
    by code_simp
  then obtain m where m: "sv_match s' = Some m" "ms_Phase (mr_state m) = MatchPhaseCompleted"
    by (auto simp: result w split: option.splits)
  from siege_history [OF sample_configured bound w m(1)] m show ?thesis by (simp add: result w)
qed

lemma sample_durations: "\<forall>t. md_Throne sample_match = Some t \<longrightarrow> td_CaptureDuration t < 2 ^ 63"
  by (simp add: sample_match_def)

lemma sample_siege_inv: "siege_inv sample_siege"
  using ConfigureMatch_inv [OF sample_configured sample_durations] .

lemma sample_held_inv: "siege_inv sample_held"
proof -
  have "siege_machine_inv (run_ops siege_step sample_capture (sample_siege, (), sample_nav))"
    by (rule siege_matches.run_inv) (simp add: sample_siege_inv)
  then show ?thesis
    by (cases "run_ops siege_step sample_capture (sample_siege, (), sample_nav)") (simp add: sample_held_def)
qed

theorem throne_hold_completes_witness:
  "\<exists>c'. siege_ThroneCapture (fold (\<lambda>d s. snd (AdvanceThroneCapture d s)) [4000000000, 5000000000, 3000000000] sample_held) = Some c' \<and>
    tc_Progress c' = 10000000000 \<and> tc_ReadyForResolution c'"
proof -
  have "case sv_match sample_held of None \<Rightarrow> False | Some m \<Rightarrow> ms_Phase (mr_state m) = MatchPhaseThrone \<and>
      (case mr_throne m of None \<Rightarrow> False | Some t \<Rightarrow> tp_CaptureEligible (th_state t) \<and>
        (case th_capture t of None \<Rightarrow> False | Some c \<Rightarrow> tc_Progress c = 0 \<and> tc_Required c = 10000000000))"
    by code_simp
  then obtain m t c where mtc: "sv_match sample_held = Some m" "ms_Phase (mr_state m) = MatchPhaseThrone"
      "mr_throne m = Some t" "tp_CaptureEligible (th_state t)" "th_capture t = Some c"
      and c: "tc_Progress c = 0" "tc_Required c = 10000000000"
    by (auto split: option.splits)
  from throne_hold_completes [OF sample_held_inv mtc, of "[4000000000, 5000000000, 3000000000]"] c
  show ?thesis by (auto simp: list_all_iff)
qed

definition sample_watch :: "participant_presence list" where
  "sample_watch = [\<lparr>pp_EntityID = 7, pp_Position = sample_at, pp_Defeated = False\<rparr>,
     \<lparr>pp_EntityID = 7, pp_Position = sample_at, pp_Defeated = False\<rparr>,
     \<lparr>pp_EntityID = 0, pp_Position = sample_at, pp_Defeated = False\<rparr>]"

theorem presence_counts_exact_witness:
  "\<exists>p. siege_ThronePresence (snd (ObserveThronePresence sample_watch sample_held)) = Some p \<and>
    tp_AttackerCount p = 1 \<and> tp_DefenderCount p = 0"
proof -
  have "case sv_match sample_held of None \<Rightarrow> False | Some m \<Rightarrow> ms_Phase (mr_state m) = MatchPhaseThrone \<and>
      (case mr_throne m of None \<Rightarrow> False | Some t \<Rightarrow>
        length (filter (on_throne (mr_participantTeams m) (td_Zone (th_definition t)) TeamAttacker)
          (first_by pp_EntityID sample_watch {0})) = 1 \<and>
        length (filter (on_throne (mr_participantTeams m) (td_Zone (th_definition t)) TeamDefender)
          (first_by pp_EntityID sample_watch {0})) = 0)"
    by code_simp
  then obtain m t where mt: "sv_match sample_held = Some m" "mr_throne m = Some t" "ms_Phase (mr_state m) = MatchPhaseThrone"
      "length (filter (on_throne (mr_participantTeams m) (td_Zone (th_definition t)) TeamAttacker)
          (first_by pp_EntityID sample_watch {0})) = 1"
      "length (filter (on_throne (mr_participantTeams m) (td_Zone (th_definition t)) TeamDefender)
          (first_by pp_EntityID sample_watch {0})) = 0"
    by (auto split: option.splits)
  have "length sample_watch < 2 ^ 32" by (simp add: sample_watch_def)
  from presence_counts_exact [OF mt(1,2) this] mt(3-5) obtain p
    where "siege_ThronePresence (snd (ObserveThronePresence sample_watch sample_held)) = Some p"
      and "unat (tp_AttackerCount p) = 1" "unat (tp_DefenderCount p) = 0"
    by (auto simp: Let_def)
  then show ?thesis by (auto simp: word_unat_eq_iff)
qed

lemma sample_done_state: "sg_gates sample_done = sg_gates sample_siege" "siege_inv sample_done"
proof -
  define w where "w = (snd (AdvanceThroneCapture 10000000000 sample_held), (), sample_nav)"
  obtain r s' db' where r: "ResolveThroneCapture (fst w) () = (r, s', db')"
    by (cases "ResolveThroneCapture (fst w) ()")
  have d: "sample_done = s'" using r by (simp add: sample_done_def w_def)
  have h: "sg_gates sample_held = sg_gates sample_siege" by (simp add: sample_held_def sample_capture_def)
  show "sg_gates sample_done = sg_gates sample_siege"
    using Resolve_gates [OF r] h by (simp add: d w_def)
  have "siege_machine_inv (run_ops siege_step [SAdvance 10000000000, SResolve] (sample_held, (), sample_nav))"
    by (rule siege_matches.run_inv) (simp add: sample_held_inv)
  then show "siege_inv sample_done"
    by (cases "run_ops siege_step [SAdvance 10000000000, SResolve] (sample_held, (), sample_nav)") (simp add: sample_done_def)
qed

theorem round_turnover_witness:
  "\<exists>s' n' m'. StartNextRound (Some (nav_world [''door''])) sample_done sample_nav = ((True, None), s', n') \<and>
    sv_match s' = Some m' \<and> ms_Phase (mr_state m') = MatchPhaseGate \<and> ms_DefenderID (mr_state m') = ''red'' \<and>
    fmlookup (mr_participantTeams m') 7 = Some TeamDefender"
proof -
  have "case sv_match sample_done of None \<Rightarrow> False | Some m \<Rightarrow> ms_Phase (mr_state m) = MatchPhaseCompleted \<and>
      ms_WinnerID (mr_state m) = ''red'' \<and> fmlookup (mr_participantTeams m) 7 = Some TeamAttacker \<and>
      md_BreachGateID (mr_definition m) = ''gate''"
    by code_simp
  then obtain m where m: "sv_match sample_done = Some m" "ms_Phase (mr_state m) = MatchPhaseCompleted"
      and w: "ms_WinnerID (mr_state m) = ''red''" "fmlookup (mr_participantTeams m) 7 = Some TeamAttacker"
        "md_BreachGateID (mr_definition m) = ''gate''"
    by (auto split: option.splits)
  have gates: "sg_gates sample_done = sg_gates (gate_new (gw_Gates sample_gw))"
    by (simp add: sample_done_state sample_siege_def siege_new_def)
  have match: "gates_match (nav_world [''door'']) sample_done sample_nav"
    using gate_new_match [OF sample_nav] by (simp add: gates_match_gates [OF gates])
  have "case fmlookup (sg_gates sample_done) ''gate'' of None \<Rightarrow> False
      | Some g \<Rightarrow> gomap_has (nv_blockers sample_nav) (gt_BlockerID (gr_definition g))"
    unfolding gates by code_simp
  then obtain g where g: "fmlookup (sg_gates sample_done) (md_BreachGateID (mr_definition m)) = Some g"
      "gomap_has (nv_blockers sample_nav) (gt_BlockerID (gr_definition g))"
    by (auto simp: w split: option.splits)
  from round_turnover [OF sample_done_state(2) m match g] w show ?thesis by (auto simp: oppositeTeam_def)
qed

end
