(* ===== verification/SiegeConfig.thy ===== *)
theory SiegeConfig
  imports SiegeMatch
begin

text \<open>
  The configuration of a siege match (\<open>internal/siege/match_config.go\<close>): the checks a decoded
  file goes through and the match definition it stands for. Reading and decoding the JSON file
  is left out. Seconds are IEEE double precision values, durations are nanoseconds.
\<close>

section \<open>The configuration\<close>

definition MatchConfigSchemaVersion :: u16 where [go_defs]: "MatchConfigSchemaVersion = 3"
definition maxThroneCaptureDuration :: int where [go_defs]: "maxThroneCaptureDuration = 3600000000000"

datatype config_error = ErrUnsupportedMatchConfigSchema | ErrInvalidMatchConfig

record throne_zone_config =
  tz_Layer :: layer_id
  tz_Bounds :: bounds_xz

record participant_config =
  pc_CharacterID :: string
  pc_Team :: string

record match_config =
  mc_SchemaVersion :: u16
  mc_Revision :: string
  mc_MatchID :: string
  mc_AttackerID :: string
  mc_DefenderID :: string
  mc_BreachGateID :: string
  mc_ThroneObjectiveID :: string
  mc_ThroneZone :: throne_zone_config
  mc_ThroneCaptureSeconds :: f64
  mc_Participants :: "participant_config list"

record loaded_match_config =
  lc_Revision :: string
  lc_Definition :: match_definition

text \<open>\<open>float64(time.Second)\<close>.\<close>

definition f64_Second :: f64 where
  "f64_Second = 0x41CDCD6500000000"

definition throneCaptureDuration :: "f64 \<Rightarrow> int \<times> bool" where
  "throneCaptureDuration seconds =
     (if f64_IsNaN seconds \<or> f64_IsInf seconds \<or> f64_leq seconds 0 then (0, False)
      else let duration = f64_to_i64 (f64_mul seconds f64_Second)
           in (duration, 0 < duration \<and> duration \<le> maxThroneCaptureDuration))"

definition configuredTeam :: "string \<Rightarrow> team \<times> bool" where
  "configuredTeam v =
     (if v = ''attacker'' then (TeamAttacker, True)
      else if v = ''defender'' then (TeamDefender, True)
      else (TeamUnknown, False))"

definition participantTeams :: "participant_config list \<Rightarrow> (string, team) fmap" where
  "participantTeams ps =
     fold (\<lambda>p m. case (NewTrusted (pc_CharacterID p), configuredTeam (pc_Team p)) of
         (Inr b, (t, True)) \<Rightarrow> fmupd (bd_ID b) t m
       | _ \<Rightarrow> m) ps fmempty"

definition config_Definition :: "match_config \<Rightarrow> match_definition" where
  "config_Definition c =
     \<lparr>md_ID = mc_MatchID c, md_AttackerID = mc_AttackerID c, md_DefenderID = mc_DefenderID c,
      md_BreachGateID = mc_BreachGateID c, md_ThroneObjectiveID = mc_ThroneObjectiveID c,
      md_Throne = Some \<lparr>td_ID = mc_ThroneObjectiveID c,
        td_Zone = \<lparr>oz_Layer = tz_Layer (mc_ThroneZone c), oz_Bounds = tz_Bounds (mc_ThroneZone c)\<rparr>,
        td_CaptureDuration = fst (throneCaptureDuration (mc_ThroneCaptureSeconds c))\<rparr>,
      md_ParticipantTeams = participantTeams (mc_Participants c)\<rparr>"

text \<open>The loop over the participants, with the ids seen so far.\<close>

fun checkParticipants :: "string list \<Rightarrow> participant_config list \<Rightarrow> config_error option" where
  "checkParticipants seen [] = None"
| "checkParticipants seen (p # ps) =
     (case NewTrusted (pc_CharacterID p) of
        Inl _ \<Rightarrow> Some ErrInvalidMatchConfig
      | Inr b \<Rightarrow>
          if \<not> snd (configuredTeam (pc_Team p)) then Some ErrInvalidMatchConfig
          else if bd_ID b \<in> set seen then Some ErrInvalidMatchConfig
          else checkParticipants (bd_ID b # seen) ps)"

definition ValidateMatchConfig :: "match_config \<Rightarrow> config_error option" where
  "ValidateMatchConfig c =
     (if mc_SchemaVersion c \<noteq> MatchConfigSchemaVersion then Some ErrUnsupportedMatchConfigSchema
      else if mc_Revision c = '''' then Some ErrInvalidMatchConfig
      else if \<not> snd (throneCaptureDuration (mc_ThroneCaptureSeconds c)) then Some ErrInvalidMatchConfig
      else case checkParticipants [] (mc_Participants c) of
             Some e \<Rightarrow> Some e
           | None \<Rightarrow> if \<not> match_Valid (config_Definition c) then Some ErrInvalidMatchConfig else None)"

text \<open>The end of \<open>LoadMatch\<close>, after the decoder.\<close>

definition LoadMatch :: "match_config \<Rightarrow> config_error + loaded_match_config" where
  "LoadMatch c =
     (case ValidateMatchConfig c of
        Some e \<Rightarrow> Inl e
      | None \<Rightarrow> Inr \<lparr>lc_Revision = mc_Revision c, lc_Definition = config_Definition c\<rparr>)"

definition ResolveParticipant :: "binding \<Rightarrow> loaded_match_config \<Rightarrow> team \<times> bool" where
  "ResolveParticipant b l =
     (if bd_Assurance b \<noteq> AssuranceTrusted \<or> \<not> binding_Valid b then (TeamUnknown, False)
      else case fmlookup (md_ParticipantTeams (lc_Definition l)) (bd_ID b) of
             None \<Rightarrow> (TeamUnknown, False)
           | Some t \<Rightarrow> (t, True))"

definition ParticipantCount :: "loaded_match_config \<Rightarrow> nat" where
  "ParticipantCount l = gomap_len (md_ParticipantTeams (lc_Definition l))"

definition ValidateMatchAgainstGates :: "match_definition \<Rightarrow> gate list \<Rightarrow> 'e match_error option" where
  "ValidateMatchAgainstGates d gates =
     (if \<not> match_Valid d then Some ErrInvalidMatchDefinition
      else if list_ex (\<lambda>g. gt_ID g = md_BreachGateID d) gates then None
      else Some ErrInvalidMatchDefinition)"

section \<open>What an accepted configuration gives\<close>

lemma configuredTeam_ok:
  "snd (configuredTeam v) \<Longrightarrow> team_Valid (fst (configuredTeam v))"
  by (auto simp: configuredTeam_def team_Valid_def split: if_splits)

lemma checkParticipants_None:
  "checkParticipants seen ps = None \<Longrightarrow>
     (\<forall>p \<in> set ps. NewTrusted (pc_CharacterID p) = Inr \<lparr>bd_ID = pc_CharacterID p, bd_Assurance = AssuranceTrusted\<rparr> \<and>
        snd (configuredTeam (pc_Team p))) \<and>
     distinct (map pc_CharacterID ps) \<and> pc_CharacterID ` set ps \<inter> set seen = {}"
proof (induction seen ps rule: checkParticipants.induct)
  case (2 seen p ps)
  then obtain b where b: "NewTrusted (pc_CharacterID p) = Inr b" by (auto split: sum.splits)
  with NewTrusted_Inr [OF b] have "b = \<lparr>bd_ID = pc_CharacterID p, bd_Assurance = AssuranceTrusted\<rparr>" by simp
  with 2 b show ?case by (auto split: if_splits)
qed simp

text \<open>A duplicate-free participant list is the participant table.\<close>

lemma participantTeams_snoc:
  assumes "NewTrusted (pc_CharacterID p) = Inr \<lparr>bd_ID = pc_CharacterID p, bd_Assurance = AssuranceTrusted\<rparr>"
    and "snd (configuredTeam (pc_Team p))"
  shows "participantTeams (ps @ [p]) = fmupd (pc_CharacterID p) (fst (configuredTeam (pc_Team p))) (participantTeams ps)"
  using assms by (cases "configuredTeam (pc_Team p)") (simp add: participantTeams_def)

lemma participantTeams_exact:
  "\<lbrakk>\<forall>p \<in> set ps. NewTrusted (pc_CharacterID p) = Inr \<lparr>bd_ID = pc_CharacterID p, bd_Assurance = AssuranceTrusted\<rparr> \<and>
      snd (configuredTeam (pc_Team p)); distinct (map pc_CharacterID ps)\<rbrakk> \<Longrightarrow>
   fmlookup (participantTeams ps) i = Some t \<longleftrightarrow>
     (\<exists>p \<in> set ps. pc_CharacterID p = i \<and> configuredTeam (pc_Team p) = (t, True))"
proof (induction ps rule: rev_induct)
  case Nil
  show ?case by (simp add: participantTeams_def)
next
  case (snoc p ps)
  then have p: "participantTeams (ps @ [p]) = fmupd (pc_CharacterID p) (fst (configuredTeam (pc_Team p))) (participantTeams ps)"
    by (intro participantTeams_snoc) auto
  have "snd (configuredTeam (pc_Team p))" using snoc.prems(1) by simp
  then have "fst (configuredTeam (pc_Team p)) = t \<longleftrightarrow> configuredTeam (pc_Team p) = (t, True)"
    by (cases "configuredTeam (pc_Team p)") auto
  moreover have ni: "pc_CharacterID q \<noteq> pc_CharacterID p" if "q \<in> set ps" for q
    using snoc.prems(2) that by (auto simp: image_iff)
  moreover have "fmlookup (participantTeams ps) i = Some t \<longleftrightarrow>
      (\<exists>q \<in> set ps. pc_CharacterID q = i \<and> configuredTeam (pc_Team q) = (t, True))"
    using snoc by simp
  ultimately show ?case by (cases "i = pc_CharacterID p") (auto simp: p)
qed

lemma ValidateMatchConfig_None:
  assumes "ValidateMatchConfig c = None"
  shows "match_Valid (config_Definition c)" "checkParticipants [] (mc_Participants c) = None"
    "snd (throneCaptureDuration (mc_ThroneCaptureSeconds c))" "mc_SchemaVersion c = MatchConfigSchemaVersion"
  using assms by (auto simp: ValidateMatchConfig_def split: if_splits option.splits)

lemma participantTeams_count:
  "\<lbrakk>\<forall>p \<in> set ps. NewTrusted (pc_CharacterID p) = Inr \<lparr>bd_ID = pc_CharacterID p, bd_Assurance = AssuranceTrusted\<rparr> \<and>
      snd (configuredTeam (pc_Team p)); distinct (map pc_CharacterID ps)\<rbrakk> \<Longrightarrow>
   gomap_len (participantTeams ps) = length ps"
proof -
  assume ps: "\<forall>p \<in> set ps. NewTrusted (pc_CharacterID p) = Inr \<lparr>bd_ID = pc_CharacterID p, bd_Assurance = AssuranceTrusted\<rparr> \<and>
      snd (configuredTeam (pc_Team p))" "distinct (map pc_CharacterID ps)"
  have "i \<in> fmdom' (participantTeams ps) \<longleftrightarrow> i \<in> pc_CharacterID ` set ps" for i
  proof -
    have "snd (configuredTeam (pc_Team p))" if "p \<in> set ps" for p using ps(1) that by blast
    then have "\<exists>t. configuredTeam (pc_Team p) = (t, True)" if "p \<in> set ps" for p
      using that by (metis prod.collapse)
    then show ?thesis
      using participantTeams_exact [OF ps, of i] by (fastforce simp: fmlookup_dom'_iff)
  qed
  then have "fmdom' (participantTeams ps) = set (map pc_CharacterID ps)" by auto
  then show ?thesis
    using distinct_card [OF ps(2)] by (simp add: gomap_len_def fmdom'_alt_def flip: fset_of_list.rep_eq)
qed

lemma gates_filled:
  "i \<in> fmdom' (fold (\<lambda>d. fmupd (gt_ID d) (f d)) gates m) \<longleftrightarrow> list_ex (\<lambda>g. gt_ID g = i) gates \<or> i \<in> fmdom' m"
  by (induction gates arbitrary: m) auto

lemma gate_new_has: "gomap_has (sg_gates (siege_new gates)) i \<longleftrightarrow> list_ex (\<lambda>g. gt_ID g = i) gates"
  using gates_filled [of i "\<lambda>d. \<lparr>gr_definition = d, gr_hp = gt_MaxHP d\<rparr>" gates fmempty]
  by (auto simp: siege_new_def gate_new_def gomap_has_def fmlookup_dom'_iff)

text \<open>
  A match file that loads can be played. When the checks accept a configuration and its breach
  gate exists, the siege service accepts the definition it stands for; the hold on the throne takes
  more than nothing and at most an hour; and a player resolves to a side exactly when the file
  lists that trusted character with that side.
\<close>

theorem config_playable:
  assumes "LoadMatch c = Inr l"
    and "ValidateMatchAgainstGates (lc_Definition l) gates = (None :: 'e match_error option)"
  shows "fst (ConfigureMatch (lc_Definition l) (siege_new gates) :: 'e match_error option \<times> ('d, 'e) siege_service) = None \<and>
    (\<exists>t. md_Throne (lc_Definition l) = Some t \<and> 0 < td_CaptureDuration t \<and>
       td_CaptureDuration t \<le> maxThroneCaptureDuration) \<and>
    (\<forall>b t. ResolveParticipant b l = (t, True) \<longleftrightarrow>
       bd_Assurance b = AssuranceTrusted \<and> binding_Valid b \<and>
       (\<exists>p \<in> set (mc_Participants c). pc_CharacterID p = bd_ID b \<and> configuredTeam (pc_Team p) = (t, True))) \<and>
    ParticipantCount l = length (mc_Participants c)"
proof -
  have v: "ValidateMatchConfig c = None" and l: "lc_Definition l = config_Definition c"
    using assms(1) by (auto simp: LoadMatch_def split: option.splits)
  note ok = ValidateMatchConfig_None [OF v]
  note ps = checkParticipants_None [OF ok(2)]
  have ps1: "\<forall>p \<in> set (mc_Participants c). NewTrusted (pc_CharacterID p) =
        Inr \<lparr>bd_ID = pc_CharacterID p, bd_Assurance = AssuranceTrusted\<rparr> \<and> snd (configuredTeam (pc_Team p))"
    and ps2: "distinct (map pc_CharacterID (mc_Participants c))" using ps by blast+
  have gate: "gomap_has (sg_gates (siege_new gates :: ('d, 'e) siege_service)) (md_BreachGateID (config_Definition c))"
    using assms(2) by (auto simp: ValidateMatchAgainstGates_def l gate_new_has split: if_splits)
  have dur: "0 < fst (throneCaptureDuration (mc_ThroneCaptureSeconds c)) \<and>
      fst (throneCaptureDuration (mc_ThroneCaptureSeconds c)) \<le> maxThroneCaptureDuration"
    using ok(3) by (auto simp: throneCaptureDuration_def Let_def split: if_splits)
  have throne: "throne_Valid t" if "md_Throne (config_Definition c) = Some t" for t
    using ok(1) that by (auto simp: match_Valid_def split: if_splits)
  have conf: "fst (ConfigureMatch (config_Definition c) (siege_new gates) ::
      'e match_error option \<times> ('d, 'e) siege_service) = None"
    using ok(1) gate throne by (auto simp: ConfigureMatch_def newThroneRuntime_def config_Definition_def)
  have res: "ResolveParticipant b l = (t, True) \<longleftrightarrow> bd_Assurance b = AssuranceTrusted \<and> binding_Valid b \<and>
      (\<exists>p \<in> set (mc_Participants c). pc_CharacterID p = bd_ID b \<and> configuredTeam (pc_Team p) = (t, True))" for b t
    using participantTeams_exact [OF ps1 ps2, of "bd_ID b" t]
    by (auto simp: ResolveParticipant_def l config_Definition_def split: option.splits)
  have count: "ParticipantCount l = length (mc_Participants c)"
    using participantTeams_count [OF ps1 ps2] by (simp add: ParticipantCount_def l config_Definition_def)
  show ?thesis
    using conf dur res count by (simp add: l config_Definition_def)
qed

section \<open>Witness\<close>

definition sample_config :: match_config where
  "sample_config =
     \<lparr>mc_SchemaVersion = 3, mc_Revision = ''r1'', mc_MatchID = ''siege'', mc_AttackerID = ''red'',
      mc_DefenderID = ''blue'', mc_BreachGateID = ''gate'', mc_ThroneObjectiveID = ''throne'',
      mc_ThroneZone = \<lparr>tz_Layer = 0, tz_Bounds = sample_bounds\<rparr>, mc_ThroneCaptureSeconds = 0x4024000000000000,
      mc_Participants = [\<lparr>pc_CharacterID = ''hero'', pc_Team = ''attacker''\<rparr>]\<rparr>"

definition sample_loaded :: loaded_match_config where
  "sample_loaded = \<lparr>lc_Revision = ''r1'', lc_Definition = config_Definition sample_config\<rparr>"

lemma sample_duration: "throneCaptureDuration 0x4024000000000000 = (10000000000, True)"
  by code_simp

lemma sample_load: "LoadMatch sample_config = Inr sample_loaded"
proof -
  have "ValidateMatchConfig sample_config = None" by code_simp
  then show ?thesis by (simp add: LoadMatch_def sample_loaded_def sample_config_def)
qed

theorem config_playable_witness:
  "fst (ConfigureMatch (lc_Definition sample_loaded) (siege_new (gw_Gates sample_gw)) ::
      unit match_error option \<times> (unit, unit) siege_service) = None \<and>
   ResolveParticipant \<lparr>bd_ID = ''hero'', bd_Assurance = AssuranceTrusted\<rparr> sample_loaded = (TeamAttacker, True) \<and>
   ParticipantCount sample_loaded = 1"
proof -
  have "(ValidateMatchAgainstGates (lc_Definition sample_loaded) (gw_Gates sample_gw) :: unit match_error option) = None"
    by code_simp
  note p = config_playable [OF sample_load this]
  have "binding_Valid \<lparr>bd_ID = ''hero'', bd_Assurance = AssuranceTrusted\<rparr>" by code_simp
  then have "ResolveParticipant \<lparr>bd_ID = ''hero'', bd_Assurance = AssuranceTrusted\<rparr> sample_loaded = (TeamAttacker, True)"
    using spec [OF spec [OF conjunct1 [OF conjunct2 [OF conjunct2 [OF p]]]],
        of "\<lparr>bd_ID = ''hero'', bd_Assurance = AssuranceTrusted\<rparr>" TeamAttacker]
    by (simp add: sample_config_def configuredTeam_def)
  moreover have "ParticipantCount sample_loaded = 1"
    using conjunct2 [OF conjunct2 [OF conjunct2 [OF p]]] by (simp add: sample_config_def)
  ultimately show ?thesis using conjunct1 [OF p] by blast
qed

end
