(* ===== verification/RespawnPolicy.thy ===== *)
theory RespawnPolicy
  imports GameplayWorld "HOL-Library.Product_Lexorder"
begin

text \<open>
  The respawn policy (\<open>internal/respawnpolicy\<close>): the validated definition of spawn points
  and death contexts, the service that binds a destination and a due tick at the moment of a
  defeat, checkpoints, and the restore of a durable binding. An error is the sentinel that
  \<open>errors.Is\<close> sees; the message around it is left out. The reused buffer of \<open>Due\<close> is its answer.
\<close>

section \<open>Data\<close>

definition respawn_SchemaVersion :: u16 where [go_defs]: "respawn_SchemaVersion = 2"

definition DeathContextPvE :: string where [go_defs]: "DeathContextPvE = ''pve''"
definition DeathContextPvP :: string where [go_defs]: "DeathContextPvP = ''pvp''"
definition DeathContextSiege :: string where [go_defs]: "DeathContextSiege = ''siege''"

definition requiredDeathContexts :: "string list" where
  "requiredDeathContexts = [DeathContextPvE, DeathContextPvP, DeathContextSiege]"

definition SpawnClassSafe :: string where [go_defs]: "SpawnClassSafe = ''safe''"
definition SpawnClassCheckpoint :: string where [go_defs]: "SpawnClassCheckpoint = ''checkpoint''"
definition SpawnClassSiege :: string where [go_defs]: "SpawnClassSiege = ''siege''"

definition validSpawnClass :: "string \<Rightarrow> bool" where
  "validSpawnClass c = (c = SpawnClassSafe \<or> c = SpawnClassCheckpoint \<or> c = SpawnClassSiege)"

definition validDeathContext :: "string \<Rightarrow> bool" where
  "validDeathContext c = (c = DeathContextPvE \<or> c = DeathContextPvP \<or> c = DeathContextSiege)"

datatype respawn_error =
  ErrUnsupportedSchema | ErrInvalidDefinition | ErrInvalidTickRate | ErrInvalidEntity
| ErrUnknownSpawnPoint | ErrUnknownDeathContext | ErrCheckpointNotAcquirable
| ErrCheckpointWrongLayer | ErrCheckpointOutOfRange | ErrScheduleOverflow | ErrInvalidRestore
| FromGameplayWorld gw_error

record spawn_point =
  sp_ID :: string
  sp_Class :: string
  sp_X :: f32
  sp_Y :: f32
  sp_Z :: f32
  sp_Layer :: layer_id
  sp_Radius :: f32

definition spawn_Position :: "spawn_point \<Rightarrow> position" where
  "spawn_Position p = \<lparr>pos_X = sp_X p, pos_Y = sp_Y p, pos_Z = sp_Z p, pos_Layer = sp_Layer p\<rparr>"

text \<open>Go compares positions field by field, floats by value: a NaN differs from itself, the zeros agree.\<close>

definition position_eq :: "position \<Rightarrow> position \<Rightarrow> bool" where
  "position_eq a b =
     (f32_eq (pos_X a) (pos_X b) \<and> f32_eq (pos_Y a) (pos_Y b) \<and> f32_eq (pos_Z a) (pos_Z b) \<and>
      pos_Layer a = pos_Layer b)"

record context_rule =
  cr_Context :: string
  cr_RespawnDelaySeconds :: f64
  cr_DefaultSpawnPoint :: string
  cr_AllowedSpawnClasses :: "string list"

record respawn_definition =
  rd_SchemaVersion :: u16
  rd_Revision :: string
  rd_SpawnPoints :: "spawn_point list"
  rd_Contexts :: "context_rule list"

definition positiveFinite64 :: "f64 \<Rightarrow> bool" where
  "positiveFinite64 v = (\<not> f64_IsNaN v \<and> \<not> f64_IsInf v \<and> f64_less 0 v)"

section \<open>Validation\<close>

definition spawn_point_ok :: "spawn_point \<Rightarrow> bool" where
  "spawn_point_ok p =
     (\<not> (sp_ID p = '''' \<or> \<not> validSpawnClass (sp_Class p) \<or> \<not> f32_finite (sp_X p) \<or> \<not> f32_finite (sp_Y p) \<or>
         \<not> f32_finite (sp_Z p) \<or> \<not> f32_finite (sp_Radius p) \<or> f32_less (sp_Radius p) 0) \<and>
      (if sp_Class p = SpawnClassCheckpoint then \<not> f32_leq (sp_Radius p) 0 else f32_eq (sp_Radius p) 0))"

text \<open>The loop over the points: the points by id, and how many there are of each class.\<close>

fun scanPoints ::
  "spawn_point list \<Rightarrow> (string, spawn_point) fmap \<Rightarrow> (string, nat) fmap \<Rightarrow>
     respawn_error + (string, spawn_point) fmap \<times> (string, nat) fmap" where
  "scanPoints [] points counts = Inr (points, counts)"
| "scanPoints (p # rest) points counts =
     (if \<not> spawn_point_ok p \<or> gomap_has points (sp_ID p) then Inl ErrInvalidDefinition
      else scanPoints rest (fmupd (sp_ID p) p points)
             (fmupd (sp_Class p) (gomap_at 0 counts (sp_Class p) + 1) counts))"

fun scanClasses :: "(string, nat) fmap \<Rightarrow> string list \<Rightarrow> string set \<Rightarrow> respawn_error + string set" where
  "scanClasses counts [] allowed = Inr allowed"
| "scanClasses counts (c # rest) allowed =
     (if \<not> validSpawnClass c \<or> c \<in> allowed \<or> gomap_at 0 counts c = 0 then Inl ErrInvalidDefinition
      else scanClasses counts rest (insert c allowed))"

fun scanContexts ::
  "(string, spawn_point) fmap \<Rightarrow> (string, nat) fmap \<Rightarrow> context_rule list \<Rightarrow> string set \<Rightarrow>
     respawn_error + string set" where
  "scanContexts points counts [] seen = Inr seen"
| "scanContexts points counts (r # rest) seen =
     (if \<not> validDeathContext (cr_Context r) \<or> \<not> positiveFinite64 (cr_RespawnDelaySeconds r) \<or>
         cr_DefaultSpawnPoint r = '''' \<or> cr_AllowedSpawnClasses r = [] \<or> cr_Context r \<in> seen
      then Inl ErrInvalidDefinition
      else case scanClasses counts (cr_AllowedSpawnClasses r) {} of
        Inl e \<Rightarrow> Inl e
      | Inr allowed \<Rightarrow>
          (case fmlookup points (cr_DefaultSpawnPoint r) of
             None \<Rightarrow> Inl ErrInvalidDefinition
           | Some p \<Rightarrow>
               if sp_Class p \<notin> allowed then Inl ErrInvalidDefinition
               else scanContexts points counts rest (insert (cr_Context r) seen)))"

definition respawn_Validate :: "respawn_definition \<Rightarrow> respawn_error option" where
  "respawn_Validate d =
     (if rd_SchemaVersion d \<noteq> respawn_SchemaVersion then Some ErrUnsupportedSchema
      else if rd_Revision d = '''' then Some ErrInvalidDefinition
      else if rd_SpawnPoints d = [] then Some ErrInvalidDefinition
      else case scanPoints (rd_SpawnPoints d) fmempty fmempty of
        Inl e \<Rightarrow> Some e
      | Inr (points, counts) \<Rightarrow>
          if length (rd_Contexts d) \<noteq> length requiredDeathContexts then Some ErrInvalidDefinition
          else case scanContexts points counts (rd_Contexts d) {} of
            Inl e \<Rightarrow> Some e
          | Inr seen \<Rightarrow>
              if list_all (\<lambda>c. c \<in> seen) requiredDeathContexts then None else Some ErrInvalidDefinition)"

text \<open>The constant \<open>0.001\<close> at \<open>float64\<close>, and the check of the points against the gameplay world.\<close>

definition surface_tolerance :: f64 where "surface_tolerance = 0x3F50624DD2F1A9FC"

fun scanPlacements :: "gw_definition \<Rightarrow> spawn_point list \<Rightarrow> respawn_error option" where
  "scanPlacements w [] = None"
| "scanPlacements w (p # rest) =
     (let q = spawn_Position p
      in case find (\<lambda>s. su_Layer s = pos_Layer q \<and> bounds_Contains (su_Bounds s) (pos_X q) (pos_Z q)) (gw_Surfaces w) of
           None \<Rightarrow> Some ErrInvalidDefinition
         | Some s \<Rightarrow>
             if f64_less surface_tolerance
                  (f64_abs (f64_of_f32 (f32_sub (HeightAt (su_Plane s) (pos_X q) (pos_Z q)) (pos_Y q))))
             then Some ErrInvalidDefinition
             else if list_ex (\<lambda>b. \<not> (\<not> bl_Enabled b \<or> \<not> bl_BlocksMovement b \<or> bl_Layer b \<noteq> pos_Layer q) \<and>
                    bounds_Contains (bl_Bounds b) (pos_X q) (pos_Z q) \<and>
                    f32_leq (bl_MinY b) (pos_Y q) \<and> f32_leq (pos_Y q) (bl_MaxY b)) (gw_Blockers w)
             then Some ErrInvalidDefinition
             else scanPlacements w rest)"

definition ValidateAgainstWorld :: "respawn_definition \<Rightarrow> gw_definition \<Rightarrow> respawn_error option" where
  "ValidateAgainstWorld d w =
     (case respawn_Validate d of
        Some e \<Rightarrow> Some e
      | None \<Rightarrow>
          (case gw_Validate w of
             Some e \<Rightarrow> Some (FromGameplayWorld e)
           | None \<Rightarrow> scanPlacements w (rd_SpawnPoints d)))"

section \<open>The service\<close>

record scheduled =
  sc_EntityID :: entity_id
  sc_Context :: string
  sc_SpawnPointID :: string
  sc_SpawnClass :: string
  sc_Position :: position
  sc_DueTick :: u64

record runtime_rule =
  rr_delayTicks :: u64
  rr_defaultPoint :: string
  rr_allowed :: "string set"

record respawn_service =
  rs_revision :: string
  rs_points :: "(string, spawn_point) fmap"
  rs_rules :: "(string, runtime_rule) fmap"
  rs_checkpoints :: "(entity_id, string) fmap"
  rs_pending :: "(entity_id, scheduled) fmap"

text \<open>The largest \<open>uint64\<close> as a \<open>float64\<close> is $2^{64}$.\<close>

definition f64_max_u64 :: f64 where "f64_max_u64 = 0x43F0000000000000"

fun buildRules ::
  "int \<Rightarrow> context_rule list \<Rightarrow> (string, runtime_rule) fmap \<Rightarrow> respawn_error + (string, runtime_rule) fmap" where
  "buildRules hz [] rules = Inr rules"
| "buildRules hz (r # rest) rules =
     (let delay = f64_Ceil (f64_mul (cr_RespawnDelaySeconds r) (f64_of_int hz))
      in if f64_IsNaN delay \<or> f64_IsInf delay \<or> f64_leq delay 0 \<or> f64_less f64_max_u64 delay
         then Inl ErrInvalidDefinition
         else buildRules hz rest
                (fmupd (cr_Context r)
                  \<lparr>rr_delayTicks = f64_to_u64 delay, rr_defaultPoint = cr_DefaultSpawnPoint r,
                   rr_allowed = set (cr_AllowedSpawnClasses r)\<rparr> rules))"

definition respawn_NewService :: "respawn_definition \<Rightarrow> int \<Rightarrow> respawn_error + respawn_service" where
  "respawn_NewService d hz =
     (case respawn_Validate d of
        Some e \<Rightarrow> Inl e
      | None \<Rightarrow>
          if hz \<le> 0 then Inl ErrInvalidTickRate
          else case buildRules hz (rd_Contexts d) fmempty of
            Inl e \<Rightarrow> Inl e
          | Inr rules \<Rightarrow>
              Inr \<lparr>rs_revision = rd_Revision d, rs_points = gomap_of sp_ID (rd_SpawnPoints d),
                   rs_rules = rules, rs_checkpoints = fmempty, rs_pending = fmempty\<rparr>)"

definition DelayTicks :: "string \<Rightarrow> respawn_service \<Rightarrow> u64 option" where
  "DelayTicks c s = map_option rr_delayTicks (fmlookup (rs_rules s) c)"

definition SpawnPoint :: "string \<Rightarrow> respawn_service \<Rightarrow> spawn_point option" where
  "SpawnPoint i s = fmlookup (rs_points s) i"

definition AcquireCheckpoint ::
  "entity_id \<Rightarrow> position \<Rightarrow> string \<Rightarrow> respawn_service \<Rightarrow> respawn_error option \<times> respawn_service" where
  "AcquireCheckpoint e q i s =
     (if e = 0 then (Some ErrInvalidEntity, s)
      else case fmlookup (rs_points s) i of
        None \<Rightarrow> (Some ErrUnknownSpawnPoint, s)
      | Some p \<Rightarrow>
          if sp_Class p \<noteq> SpawnClassCheckpoint \<or> f32_leq (sp_Radius p) 0 then (Some ErrCheckpointNotAcquirable, s)
          else if pos_Layer q \<noteq> sp_Layer p then (Some ErrCheckpointWrongLayer, s)
          else if f32_less (f32_mul (sp_Radius p) (sp_Radius p)) (DistanceSquared q (spawn_Position p))
          then (Some ErrCheckpointOutOfRange, s)
          else (None, s\<lparr>rs_checkpoints := fmupd e i (rs_checkpoints s)\<rparr>))"

definition ClearCheckpoint :: "entity_id \<Rightarrow> respawn_service \<Rightarrow> respawn_service" where
  "ClearCheckpoint e s = s\<lparr>rs_checkpoints := fmdrop e (rs_checkpoints s)\<rparr>"

definition Checkpoint :: "entity_id \<Rightarrow> respawn_service \<Rightarrow> string option" where
  "Checkpoint e s = fmlookup (rs_checkpoints s) e"

text \<open>A missing default point would be the zero spawn point of the map lookup.\<close>

definition zero_spawn_point :: spawn_point where
  "zero_spawn_point = \<lparr>sp_ID = '''', sp_Class = '''', sp_X = 0, sp_Y = 0, sp_Z = 0, sp_Layer = 0, sp_Radius = 0\<rparr>"

definition selectedPoint :: "entity_id \<Rightarrow> runtime_rule \<Rightarrow> respawn_service \<Rightarrow> spawn_point" where
  "selectedPoint e rule s =
     (let fallback = gomap_at zero_spawn_point (rs_points s) (rr_defaultPoint rule)
      in case fmlookup (rs_checkpoints s) e of
           None \<Rightarrow> fallback
         | Some c \<Rightarrow>
             (case fmlookup (rs_points s) c of
                None \<Rightarrow> fallback
              | Some p \<Rightarrow> if sp_Class p \<in> rr_allowed rule then p else fallback))"

definition respawn_Schedule ::
  "entity_id \<Rightarrow> u64 \<Rightarrow> string \<Rightarrow> respawn_service \<Rightarrow> (respawn_error + scheduled) \<times> respawn_service" where
  "respawn_Schedule e defeatedTick ctx s =
     (if e = 0 then (Inl ErrInvalidEntity, s)
      else case fmlookup (rs_rules s) ctx of
        None \<Rightarrow> (Inl ErrUnknownDeathContext, s)
      | Some rule \<Rightarrow>
          if - 1 - defeatedTick < rr_delayTicks rule then (Inl ErrScheduleOverflow, s)
          else let p = selectedPoint e rule s;
                   b = \<lparr>sc_EntityID = e, sc_Context = ctx, sc_SpawnPointID = sp_ID p, sc_SpawnClass = sp_Class p,
                        sc_Position = spawn_Position p, sc_DueTick = defeatedTick + rr_delayTicks rule\<rparr>
               in (Inr b, s\<lparr>rs_pending := fmupd e b (rs_pending s)\<rparr>))"

definition respawn_Pending :: "entity_id \<Rightarrow> respawn_service \<Rightarrow> scheduled option" where
  "respawn_Pending e s = fmlookup (rs_pending s) e"

definition respawn_Cancel :: "entity_id \<Rightarrow> respawn_service \<Rightarrow> respawn_service" where
  "respawn_Cancel e s = s\<lparr>rs_pending := fmdrop e (rs_pending s)\<rparr>"

definition respawn_Remove :: "entity_id \<Rightarrow> respawn_service \<Rightarrow> respawn_service" where
  "respawn_Remove e s =
     s\<lparr>rs_pending := fmdrop e (rs_pending s), rs_checkpoints := fmdrop e (rs_checkpoints s)\<rparr>"

text \<open>
  The respawns that are due, sorted by due tick and entity. The source visits the pending map in
  any order: \<open>order\<close> is that order, a list of the keys.
\<close>

definition respawn_Due :: "entity_id list \<Rightarrow> u64 \<Rightarrow> respawn_service \<Rightarrow> scheduled list" where
  "respawn_Due order tick s =
     sort_key (\<lambda>b. (sc_DueTick b, sc_EntityID b))
       (filter (\<lambda>b. sc_DueTick b \<le> tick) (List.map_filter (fmlookup (rs_pending s)) order))"

section \<open>Durable restore\<close>

definition ValidateScheduledRestore :: "scheduled \<Rightarrow> respawn_service \<Rightarrow> respawn_error option" where
  "ValidateScheduledRestore b s =
     (if sc_EntityID b = 0 then Some ErrInvalidRestore
      else case fmlookup (rs_rules s) (sc_Context b) of
        None \<Rightarrow> Some ErrInvalidRestore
      | Some rule \<Rightarrow>
          (case fmlookup (rs_points s) (sc_SpawnPointID b) of
             None \<Rightarrow> Some ErrInvalidRestore
           | Some p \<Rightarrow>
               if sp_Class p \<notin> rr_allowed rule then Some ErrInvalidRestore
               else if sp_Class p \<noteq> sc_SpawnClass b \<or> \<not> position_eq (spawn_Position p) (sc_Position b)
               then Some ErrInvalidRestore
               else None))"

definition RestoreScheduled :: "scheduled \<Rightarrow> respawn_service \<Rightarrow> respawn_error option \<times> respawn_service" where
  "RestoreScheduled b s =
     (case ValidateScheduledRestore b s of
        Some e \<Rightarrow> (Some e, s)
      | None \<Rightarrow> (None, s\<lparr>rs_pending := fmupd (sc_EntityID b) b (rs_pending s)\<rparr>))"

definition ValidateCheckpointRestore :: "entity_id \<Rightarrow> string \<Rightarrow> respawn_service \<Rightarrow> respawn_error option" where
  "ValidateCheckpointRestore e i s =
     (if e = 0 then Some ErrInvalidRestore
      else if i = '''' then None
      else case fmlookup (rs_points s) i of
        None \<Rightarrow> Some ErrInvalidRestore
      | Some p \<Rightarrow>
          if sp_Class p \<noteq> SpawnClassCheckpoint \<or> f32_leq (sp_Radius p) 0 then Some ErrInvalidRestore else None)"

definition RestoreCheckpoint ::
  "entity_id \<Rightarrow> string \<Rightarrow> respawn_service \<Rightarrow> respawn_error option \<times> respawn_service" where
  "RestoreCheckpoint e i s =
     (case ValidateCheckpointRestore e i s of
        Some err \<Rightarrow> (Some err, s)
      | None \<Rightarrow>
          if i = '''' then (None, s\<lparr>rs_checkpoints := fmdrop e (rs_checkpoints s)\<rparr>)
          else (None, s\<lparr>rs_checkpoints := fmupd e i (rs_checkpoints s)\<rparr>))"

section \<open>What validation establishes\<close>

lemma scanPoints_Inr:
  "scanPoints ps points counts = Inr (points', counts') \<Longrightarrow>
     distinct (map sp_ID ps) \<and> (\<forall>p \<in> set ps. spawn_point_ok p \<and> \<not> gomap_has points (sp_ID p)) \<and>
     points' = foldl (\<lambda>m p. fmupd (sp_ID p) p m) points ps"
proof (induction ps arbitrary: points counts)
  case (Cons p ps)
  then have ok: "spawn_point_ok p" "\<not> gomap_has points (sp_ID p)"
    and rest: "scanPoints ps (fmupd (sp_ID p) p points)
      (fmupd (sp_Class p) (gomap_at 0 counts (sp_Class p) + 1) counts) = Inr (points', counts')"
    by (simp_all split: if_splits)
  from Cons.IH [OF rest] ok show ?case by auto
qed simp

lemma scanClasses_Inr:
  "scanClasses counts cs allowed = Inr allowed' \<Longrightarrow> allowed' = allowed \<union> set cs \<and> (\<forall>c \<in> set cs. validSpawnClass c)"
  by (induction cs arbitrary: allowed) (force split: if_splits)+

definition rule_ok :: "(string, spawn_point) fmap \<Rightarrow> context_rule \<Rightarrow> bool" where
  "rule_ok points r =
     (validDeathContext (cr_Context r) \<and>
      (\<exists>p. fmlookup points (cr_DefaultSpawnPoint r) = Some p \<and> sp_Class p \<in> set (cr_AllowedSpawnClasses r)))"

lemma scanContexts_Inr:
  "scanContexts points counts rs seen = Inr seen' \<Longrightarrow>
     distinct (map cr_Context rs) \<and> seen' = seen \<union> cr_Context ` set rs \<and>
     (\<forall>r \<in> set rs. rule_ok points r \<and> cr_Context r \<notin> seen)"
proof (induction rs arbitrary: seen)
  case (Cons r rs)
  then obtain allowed p where r: "validDeathContext (cr_Context r)" "cr_Context r \<notin> seen"
      "scanClasses counts (cr_AllowedSpawnClasses r) {} = Inr allowed"
      "fmlookup points (cr_DefaultSpawnPoint r) = Some p" "sp_Class p \<in> allowed"
      and rest: "scanContexts points counts rs (insert (cr_Context r) seen) = Inr seen'"
    by (auto split: if_splits sum.splits option.splits)
  have "rule_ok points r"
    using r scanClasses_Inr [OF r(3)] by (auto simp: rule_ok_def)
  with Cons.IH [OF rest] r(2) show ?case by auto
qed simp

lemma respawn_Validate_parts:
  assumes "respawn_Validate d = None"
  shows "distinct (map sp_ID (rd_SpawnPoints d))" "\<And>p. p \<in> set (rd_SpawnPoints d) \<Longrightarrow> spawn_point_ok p"
    "distinct (map cr_Context (rd_Contexts d))"
    "\<And>r. r \<in> set (rd_Contexts d) \<Longrightarrow> rule_ok (gomap_of sp_ID (rd_SpawnPoints d)) r"
    "set requiredDeathContexts \<subseteq> cr_Context ` set (rd_Contexts d)"
proof -
  from assms obtain points counts seen where p: "scanPoints (rd_SpawnPoints d) fmempty fmempty = Inr (points, counts)"
      and c: "scanContexts points counts (rd_Contexts d) {} = Inr seen"
      and all: "list_all (\<lambda>c. c \<in> seen) requiredDeathContexts"
    by (auto simp: respawn_Validate_def split: if_splits sum.splits)
  note ps = scanPoints_Inr [OF p] and cs = scanContexts_Inr [OF c]
  have pts: "points = gomap_of sp_ID (rd_SpawnPoints d)" using ps by (simp add: gomap_of_def)
  show "distinct (map sp_ID (rd_SpawnPoints d))" "\<And>p. p \<in> set (rd_SpawnPoints d) \<Longrightarrow> spawn_point_ok p"
    using ps by auto
  show "distinct (map cr_Context (rd_Contexts d))"
    "\<And>r. r \<in> set (rd_Contexts d) \<Longrightarrow> rule_ok (gomap_of sp_ID (rd_SpawnPoints d)) r"
    using cs pts by auto
  show "set requiredDeathContexts \<subseteq> cr_Context ` set (rd_Contexts d)"
    using all cs by (auto simp: list_all_iff)
qed

definition rule_delay :: "int \<Rightarrow> context_rule \<Rightarrow> f64" where
  "rule_delay hz r = f64_Ceil (f64_mul (cr_RespawnDelaySeconds r) (f64_of_int hz))"

lemma buildRules_lookup:
  "buildRules hz rs rules = Inr rules' \<Longrightarrow> distinct (map cr_Context rs) \<Longrightarrow>
     fmlookup rules' c =
       (case find (\<lambda>r. cr_Context r = c) rs of
          None \<Rightarrow> fmlookup rules c
        | Some r \<Rightarrow> Some \<lparr>rr_delayTicks = f64_to_u64 (rule_delay hz r),
            rr_defaultPoint = cr_DefaultSpawnPoint r, rr_allowed = set (cr_AllowedSpawnClasses r)\<rparr>)"
proof (induction rs arbitrary: rules)
  case (Cons r rs)
  have rest: "buildRules hz rs (fmupd (cr_Context r) \<lparr>rr_delayTicks = f64_to_u64 (rule_delay hz r),
      rr_defaultPoint = cr_DefaultSpawnPoint r, rr_allowed = set (cr_AllowedSpawnClasses r)\<rparr> rules) = Inr rules'"
    using Cons.prems(1) by (simp add: Let_def rule_delay_def split: if_splits)
  note IH = Cons.IH [OF rest]
  show ?case
  proof (cases "cr_Context r = c")
    case True
    then have "find (\<lambda>r. cr_Context r = c) rs = None"
      using Cons.prems(2) by (simp add: find_None_iff) (metis image_eqI)
    with IH Cons.prems(2) True show ?thesis by simp
  next
    case False
    with IH Cons.prems(2) show ?thesis by (simp split: option.split)
  qed
qed simp

section \<open>The invariant of the service\<close>

definition respawn_inv :: "respawn_service \<Rightarrow> bool" where
  "respawn_inv s =
     ((\<forall>i p. fmlookup (rs_points s) i = Some p \<longrightarrow> sp_ID p = i \<and> spawn_point_ok p) \<and>
      (\<forall>c r. fmlookup (rs_rules s) c = Some r \<longrightarrow> validDeathContext c \<and>
         (\<exists>p. fmlookup (rs_points s) (rr_defaultPoint r) = Some p \<and> sp_Class p \<in> rr_allowed r)) \<and>
      (\<forall>e b. fmlookup (rs_pending s) e = Some b \<longrightarrow> sc_EntityID b = e \<and> ValidateScheduledRestore b s = None) \<and>
      (\<forall>e c. fmlookup (rs_checkpoints s) e = Some c \<longrightarrow> e \<noteq> 0 \<and>
         (\<exists>p. fmlookup (rs_points s) c = Some p \<and> sp_Class p = SpawnClassCheckpoint)))"

lemma NewService_state:
  assumes "respawn_NewService d hz = Inr s"
  shows "respawn_inv s" "rs_points s = gomap_of sp_ID (rd_SpawnPoints d)"
    "fmlookup (rs_rules s) c = map_option (\<lambda>r. \<lparr>rr_delayTicks = f64_to_u64 (rule_delay hz r),
       rr_defaultPoint = cr_DefaultSpawnPoint r, rr_allowed = set (cr_AllowedSpawnClasses r)\<rparr>)
       (find (\<lambda>r. cr_Context r = c) (rd_Contexts d))"
    "respawn_Validate d = None"
proof -
  from assms show v: "respawn_Validate d = None"
    by (auto simp: respawn_NewService_def split: option.splits)
  note parts = respawn_Validate_parts [OF v]
  from assms v obtain rules where b: "buildRules hz (rd_Contexts d) fmempty = Inr rules"
      and s: "s = \<lparr>rs_revision = rd_Revision d, rs_points = gomap_of sp_ID (rd_SpawnPoints d),
        rs_rules = rules, rs_checkpoints = fmempty, rs_pending = fmempty\<rparr>"
    by (auto simp: respawn_NewService_def split: if_splits sum.splits)
  show pts: "rs_points s = gomap_of sp_ID (rd_SpawnPoints d)" by (simp add: s)
  show rl: "fmlookup (rs_rules s) c = map_option (\<lambda>r. \<lparr>rr_delayTicks = f64_to_u64 (rule_delay hz r),
       rr_defaultPoint = cr_DefaultSpawnPoint r, rr_allowed = set (cr_AllowedSpawnClasses r)\<rparr>)
       (find (\<lambda>r. cr_Context r = c) (rd_Contexts d))" for c
    using buildRules_lookup [OF b parts(3), of c] by (simp add: s split: option.split)
  have rules: "validDeathContext c \<and>
         (\<exists>p. fmlookup (rs_points s) (rr_defaultPoint r) = Some p \<and> sp_Class p \<in> rr_allowed r)"
    if "fmlookup (rs_rules s) c = Some r" for c r
  proof -
    from that obtain x where x: "find (\<lambda>r. cr_Context r = c) (rd_Contexts d) = Some x"
        "rr_defaultPoint r = cr_DefaultSpawnPoint x" "rr_allowed r = set (cr_AllowedSpawnClasses x)"
      by (auto simp: rl)
    then have "x \<in> set (rd_Contexts d)" "cr_Context x = c" by (auto simp: find_Some_iff)
    with parts(4) x show ?thesis by (auto simp: rule_ok_def pts)
  qed
  then show "respawn_inv s"
    using parts(1,2) by (auto simp: respawn_inv_def s gomap_of_lookup)
qed

datatype respawn_command =
  RAcquire entity_id position string | RClear entity_id | RSchedule entity_id u64 string
| RCancel entity_id | RRemove entity_id | RRestore scheduled | RRestoreCheckpoint entity_id string

fun respawn_step :: "respawn_command \<Rightarrow> respawn_service \<Rightarrow> unit \<times> respawn_service" where
  "respawn_step (RAcquire e q i) s = ((), snd (AcquireCheckpoint e q i s))"
| "respawn_step (RClear e) s = ((), ClearCheckpoint e s)"
| "respawn_step (RSchedule e t c) s = ((), snd (respawn_Schedule e t c s))"
| "respawn_step (RCancel e) s = ((), respawn_Cancel e s)"
| "respawn_step (RRemove e) s = ((), respawn_Remove e s)"
| "respawn_step (RRestore b) s = ((), snd (RestoreScheduled b s))"
| "respawn_step (RRestoreCheckpoint e i) s = ((), snd (RestoreCheckpoint e i s))"

lemma respawn_step_fixed [simp]:
  "rs_points (snd (respawn_step x s)) = rs_points s" "rs_rules (snd (respawn_step x s)) = rs_rules s"
  by (cases x; simp add: AcquireCheckpoint_def ClearCheckpoint_def respawn_Schedule_def respawn_Cancel_def
      respawn_Remove_def RestoreScheduled_def RestoreCheckpoint_def Let_def split: option.split)+

lemma respawn_run_fixed [simp]:
  "rs_points (run_ops respawn_step xs s) = rs_points s" "rs_rules (run_ops respawn_step xs s) = rs_rules s"
  by (induction xs arbitrary: s) simp_all

lemma ValidateScheduledRestore_fixed:
  "rs_points t = rs_points s \<Longrightarrow> rs_rules t = rs_rules s \<Longrightarrow>
     ValidateScheduledRestore b t = ValidateScheduledRestore b s"
  by (simp add: ValidateScheduledRestore_def cong: option.case_cong)

lemma position_eq_refl: "spawn_point_ok p \<Longrightarrow> position_eq (spawn_Position p) (spawn_Position p)"
  by (auto simp: position_eq_def spawn_Position_def spawn_point_ok_def f32_finite_def f32_eq_def)

lemma selectedPoint_rule:
  assumes "respawn_inv s" and "fmlookup (rs_rules s) c = Some r"
  shows "fmlookup (rs_points s) (sp_ID (selectedPoint e r s)) = Some (selectedPoint e r s) \<and>
    sp_Class (selectedPoint e r s) \<in> rr_allowed r"
proof -
  obtain p where p: "fmlookup (rs_points s) (rr_defaultPoint r) = Some p" "sp_Class p \<in> rr_allowed r"
    using assms unfolding respawn_inv_def by blast
  have id: "fmlookup (rs_points s) i = Some q \<Longrightarrow> sp_ID q = i" for i q
    using assms(1) by (simp add: respawn_inv_def)
  show ?thesis
    using p id by (auto simp: selectedPoint_def gomap_at_def Let_def split: option.split)
qed

lemma Schedule_valid:
  assumes "respawn_inv s" and "respawn_Schedule e tick c s = (Inr b, s')"
  obtains r where "fmlookup (rs_rules s) c = Some r" "e \<noteq> 0" "sc_EntityID b = e" "sc_Context b = c"
    "b = \<lparr>sc_EntityID = e, sc_Context = c, sc_SpawnPointID = sp_ID (selectedPoint e r s),
       sc_SpawnClass = sp_Class (selectedPoint e r s), sc_Position = spawn_Position (selectedPoint e r s),
       sc_DueTick = tick + rr_delayTicks r\<rparr>"
    "unat (sc_DueTick b) = unat tick + unat (rr_delayTicks r)"
    "s' = s\<lparr>rs_pending := fmupd e b (rs_pending s)\<rparr>"
    "ValidateScheduledRestore b s = None"
proof -
  from assms(2) obtain r where r: "fmlookup (rs_rules s) c = Some r" "e \<noteq> 0"
      "\<not> - 1 - tick < rr_delayTicks r"
      "b = \<lparr>sc_EntityID = e, sc_Context = c, sc_SpawnPointID = sp_ID (selectedPoint e r s),
       sc_SpawnClass = sp_Class (selectedPoint e r s), sc_Position = spawn_Position (selectedPoint e r s),
       sc_DueTick = tick + rr_delayTicks r\<rparr>"
      "s' = s\<lparr>rs_pending := fmupd e b (rs_pending s)\<rparr>"
    by (auto simp: respawn_Schedule_def Let_def split: if_splits option.splits)
  note sel = selectedPoint_rule [OF assms(1) r(1), of e]
  have ok: "spawn_point_ok (selectedPoint e r s)"
    using sel assms(1) unfolding respawn_inv_def by blast
  have "unat (sc_DueTick b) = unat tick + unat (rr_delayTicks r)"
    using r(3) unfolding overflow_guard by (simp add: r(4) unat_plus_no_overflow)
  moreover have "ValidateScheduledRestore b s = None"
    using r sel position_eq_refl [OF ok] by (simp add: ValidateScheduledRestore_def)
  ultimately show ?thesis using r by (intro that) auto
qed

lemma Acquire_cases:
  assumes "AcquireCheckpoint e q i s = (r, s')"
  obtains (refused) err where "r = Some err" "s' = s"
  | (taken) p where "r = None" "s' = s\<lparr>rs_checkpoints := fmupd e i (rs_checkpoints s)\<rparr>" "e \<noteq> 0"
      "fmlookup (rs_points s) i = Some p" "sp_Class p = SpawnClassCheckpoint"
  using assms by (auto simp: AcquireCheckpoint_def split: if_splits option.splits)

lemma RestoreCheckpoint_cases:
  assumes "RestoreCheckpoint e i s = (r, s')"
  obtains (refused) err where "r = Some err" "s' = s"
  | (cleared) "r = None" "s' = s\<lparr>rs_checkpoints := fmdrop e (rs_checkpoints s)\<rparr>"
  | (taken) p where "r = None" "s' = s\<lparr>rs_checkpoints := fmupd e i (rs_checkpoints s)\<rparr>" "e \<noteq> 0"
      "fmlookup (rs_points s) i = Some p" "sp_Class p = SpawnClassCheckpoint"
  using assms
  by (auto simp: RestoreCheckpoint_def ValidateCheckpointRestore_def split: if_splits option.splits)

lemma respawn_inv_checkpoints:
  assumes "respawn_inv s" and "\<And>e c. fmlookup m e = Some c \<Longrightarrow> e \<noteq> 0 \<and>
      (\<exists>p. fmlookup (rs_points s) c = Some p \<and> sp_Class p = SpawnClassCheckpoint)"
  shows "respawn_inv (s\<lparr>rs_checkpoints := m\<rparr>)"
  using assms by (simp add: respawn_inv_def ValidateScheduledRestore_fixed [of "s\<lparr>rs_checkpoints := m\<rparr>" s])

lemma respawn_inv_pending:
  assumes "respawn_inv s" and "\<And>e b. fmlookup m e = Some b \<Longrightarrow> sc_EntityID b = e \<and> ValidateScheduledRestore b s = None"
  shows "respawn_inv (s\<lparr>rs_pending := m\<rparr>)"
  using assms by (simp add: respawn_inv_def ValidateScheduledRestore_fixed [of "s\<lparr>rs_pending := m\<rparr>" s])

lemma respawn_inv_checkpoint_upd:
  assumes "respawn_inv s" and "e \<noteq> 0" and "fmlookup (rs_points s) i = Some p" and "sp_Class p = SpawnClassCheckpoint"
  shows "respawn_inv (s\<lparr>rs_checkpoints := fmupd e i (rs_checkpoints s)\<rparr>)"
  by (rule respawn_inv_checkpoints [OF assms(1)])
     (use assms in \<open>auto simp: respawn_inv_def split: if_splits\<close>)

lemma respawn_inv_checkpoint_drop:
  "respawn_inv s \<Longrightarrow> respawn_inv (s\<lparr>rs_checkpoints := fmdrop e (rs_checkpoints s)\<rparr>)"
  by (rule respawn_inv_checkpoints) (auto simp: respawn_inv_def split: if_splits)

lemma respawn_inv_pending_drop:
  "respawn_inv s \<Longrightarrow> respawn_inv (s\<lparr>rs_pending := fmdrop e (rs_pending s)\<rparr>)"
  by (rule respawn_inv_pending) (auto simp: respawn_inv_def split: if_splits)

lemma respawn_inv_pending_upd:
  assumes "respawn_inv s" and "sc_EntityID b = e" and "ValidateScheduledRestore b s = None"
  shows "respawn_inv (s\<lparr>rs_pending := fmupd e b (rs_pending s)\<rparr>)"
  by (rule respawn_inv_pending [OF assms(1)])
     (use assms in \<open>auto simp: respawn_inv_def split: if_splits\<close>)

interpretation respawn: kept_invariant respawn_step respawn_inv
proof
  fix x s assume inv: "respawn_inv s"
  show "respawn_inv (snd (respawn_step x s))"
  proof (cases x)
    case (RAcquire e q i)
    obtain r s' where "AcquireCheckpoint e q i s = (r, s')" by (cases "AcquireCheckpoint e q i s")
    with RAcquire inv show ?thesis
      by (auto elim!: Acquire_cases intro: respawn_inv_checkpoint_upd)
  next
    case (RSchedule e t c)
    show ?thesis
    proof (cases "respawn_Schedule e t c s")
      case (Pair r s')
      show ?thesis
      proof (cases r)
        case (Inl err)
        with Pair have "s' = s" by (auto simp: respawn_Schedule_def Let_def split: if_splits option.splits)
        with RSchedule Pair inv show ?thesis by simp
      next
        case (Inr b)
        from Schedule_valid [OF inv Pair [unfolded Inr]]
        have b: "sc_EntityID b = e" "ValidateScheduledRestore b s = None" "s' = s\<lparr>rs_pending := fmupd e b (rs_pending s)\<rparr>"
          by blast+
        from respawn_inv_pending_upd [OF inv b(1,2)] show ?thesis using RSchedule Pair by (simp add: b(3))
      qed
    qed
  next
    case (RRestore b)
    with inv show ?thesis
      by (auto simp: RestoreScheduled_def intro: respawn_inv_pending_upd split: option.split)
  next
    case (RRestoreCheckpoint e i)
    obtain r s' where "RestoreCheckpoint e i s = (r, s')" by (cases "RestoreCheckpoint e i s")
    with RRestoreCheckpoint inv show ?thesis
      by (auto elim!: RestoreCheckpoint_cases intro: respawn_inv_checkpoint_upd respawn_inv_checkpoint_drop)
  next
    case (RRemove e)
    have "respawn_Remove e s = s\<lparr>rs_pending := fmdrop e (rs_pending s), rs_checkpoints := fmdrop e (rs_checkpoints
        (s\<lparr>rs_pending := fmdrop e (rs_pending s)\<rparr>))\<rparr>"
      by (simp add: respawn_Remove_def)
    with RRemove respawn_inv_checkpoint_drop [OF respawn_inv_pending_drop [OF inv]] show ?thesis by simp
  qed (use inv in \<open>simp_all add: ClearCheckpoint_def respawn_Cancel_def respawn_inv_checkpoint_drop respawn_inv_pending_drop\<close>)
qed

section \<open>Properties\<close>

text \<open>
  C32. A binding survives a restart: whatever happened before and after, a destination bound by
  one process under a policy is accepted for restore by every later process running the same
  policy, at any tick rate, and is then pending unchanged. It names a spawn point of the
  definition, of a class the context allows, at that point's position.
\<close>

theorem binding_survives_restart:
  assumes "respawn_NewService d hz = Inr s0" and "respawn_NewService d hz' = Inr t0"
    and "respawn_Schedule e tick c (run_ops respawn_step xs s0) = (Inr b, s')"
  shows "fst (RestoreScheduled b (run_ops respawn_step ys t0)) = None \<and>
    respawn_Pending e (snd (RestoreScheduled b (run_ops respawn_step ys t0))) = Some b \<and>
    (\<exists>p \<in> set (rd_SpawnPoints d). \<exists>r \<in> set (rd_Contexts d). cr_Context r = c \<and>
       sp_ID p = sc_SpawnPointID b \<and> sc_SpawnClass b \<in> set (cr_AllowedSpawnClasses r) \<and>
       sp_Class p = sc_SpawnClass b \<and> sc_Position b = spawn_Position p)"
proof -
  note s0 = NewService_state [OF assms(1)] and t0 = NewService_state [OF assms(2)]
  define s where "s = run_ops respawn_step xs s0"
  have inv: "respawn_inv s" unfolding s_def by (rule respawn.run_inv [OF s0(1)])
  from Schedule_valid [OF inv assms(3) [folded s_def]] obtain r where r: "fmlookup (rs_rules s) c = Some r"
      "sc_EntityID b = e" "sc_Context b = c" "ValidateScheduledRestore b s = None"
      "sc_SpawnPointID b = sp_ID (selectedPoint e r s)" "sc_SpawnClass b = sp_Class (selectedPoint e r s)"
      "sc_Position b = spawn_Position (selectedPoint e r s)"
    by (metis scheduled.select_convs(3-5))
  note sel = selectedPoint_rule [OF inv r(1), of e]
  from r(1) obtain x where x: "find (\<lambda>r. cr_Context r = c) (rd_Contexts d) = Some x"
      "rr_allowed r = set (cr_AllowedSpawnClasses x)"
    by (auto simp: s_def s0(3))
  define t where "t = run_ops respawn_step ys t0"
  have "ValidateScheduledRestore b t = None"
    using r(2-4) r(1) x by (auto simp: ValidateScheduledRestore_def s_def t_def s0(2,3) t0(2,3) split: if_splits option.splits)
  then have "fst (RestoreScheduled b t) = None \<and> respawn_Pending e (snd (RestoreScheduled b t)) = Some b"
    by (simp add: RestoreScheduled_def respawn_Pending_def r(2))
  moreover have "selectedPoint e r s \<in> set (rd_SpawnPoints d)"
    using sel respawn_Validate_parts(1) [OF s0(4)] by (auto simp: s_def s0(2) gomap_of_lookup)
  moreover have "x \<in> set (rd_Contexts d) \<and> cr_Context x = c" using x(1) by (auto simp: find_Some_iff)
  ultimately show ?thesis using r sel x unfolding t_def by auto
qed

text \<open>
  C37. The due respawns in a fixed order: after any history, \<open>Due\<close> answers exactly the pending
  bindings whose tick has come, strictly ordered by due tick and entity, and the answer is the
  same whatever order the map of pending respawns is visited in.
\<close>

theorem Due_deterministic:
  assumes "respawn_NewService d hz = Inr s0" and "s = run_ops respawn_step xs s0"
    and "set order = fmdom' (rs_pending s)" and "distinct order"
  shows "set (respawn_Due order tick s) = {b. respawn_Pending (sc_EntityID b) s = Some b \<and> sc_DueTick b \<le> tick} \<and>
    sorted_wrt (<) (map (\<lambda>b. (sc_DueTick b, sc_EntityID b)) (respawn_Due order tick s)) \<and>
    respawn_Due order tick s = respawn_Due (gomap_keys (rs_pending s)) tick s"
proof -
  have inv: "respawn_inv s"
    using respawn.run_inv [OF NewService_state(1) [OF assms(1)]] assms(2) by simp
  then have own: "fmlookup (rs_pending s) e = Some b \<Longrightarrow> sc_EntityID b = e" for e b
    by (simp add: respawn_inv_def)
  define key where "key = (\<lambda>b :: scheduled. (sc_DueTick b, sc_EntityID b))"
  have due: "set (respawn_Due ord tick s) = {b. respawn_Pending (sc_EntityID b) s = Some b \<and> sc_DueTick b \<le> tick} \<and>
      distinct (map key (respawn_Due ord tick s)) \<and> sorted (map key (respawn_Due ord tick s))"
    if ord: "set ord = fmdom' (rs_pending s)" "distinct ord" for ord
  proof -
    define xs where "xs = List.map_filter (fmlookup (rs_pending s)) ord"
    have xs: "map sc_EntityID xs = ord" using ord(1) unfolding xs_def
    proof -
      have "map sc_EntityID (List.map_filter (fmlookup (rs_pending s)) os) = os" if "set os \<subseteq> fmdom' (rs_pending s)" for os
        using that by (induction os) (auto simp: List.map_filter_simps own fmlookup_dom'_iff)
      with ord(1) show "map sc_EntityID (List.map_filter (fmlookup (rs_pending s)) ord) = ord" by simp
    qed
    have "b \<in> set xs \<longleftrightarrow> (\<exists>e \<in> set ord. fmlookup (rs_pending s) e = Some b)" for b
      unfolding xs_def by (induction ord) (auto simp: List.map_filter_simps split: option.split)
    then have mem: "b \<in> set xs \<longleftrightarrow> respawn_Pending (sc_EntityID b) s = Some b" for b
      unfolding respawn_Pending_def using fmdom'I [of "rs_pending s" "sc_EntityID b" b] ord(1) by (blast dest: own)
    have "distinct (map sc_EntityID xs)" using xs ord(2) by simp
    then have d: "distinct xs" and ids: "inj_on sc_EntityID (set xs)" by (simp_all add: distinct_map)
    from ids have inj: "inj_on key A" if "A \<subseteq> set xs" for A
      using that unfolding inj_on_def key_def by auto
    have eq: "respawn_Due ord tick s = sort_key key (filter (\<lambda>b. sc_DueTick b \<le> tick) xs)"
      by (simp add: respawn_Due_def xs_def key_def)
    show ?thesis
      unfolding eq using inj [of "{x \<in> set xs. sc_DueTick x \<le> tick}"]
      by (simp add: distinct_map d) (auto simp: mem)
  qed
  note a = due [OF assms(3,4)] and b = due [OF gomap_keys_props(3,2)]
  have "map key (respawn_Due order tick s) = map key (respawn_Due (gomap_keys (rs_pending s)) tick s)"
    using a b by (intro sorted_distinct_set_unique) (auto simp: image_image)
  moreover have "inj_on key (set (respawn_Due order tick s) \<union> set (respawn_Due (gomap_keys (rs_pending s)) tick s))"
  proof (rule inj_onI)
    fix x y
    assume x: "x \<in> set (respawn_Due order tick s) \<union> set (respawn_Due (gomap_keys (rs_pending s)) tick s)"
      and y: "y \<in> set (respawn_Due order tick s) \<union> set (respawn_Due (gomap_keys (rs_pending s)) tick s)"
      and k: "key x = key y"
    have "respawn_Pending (sc_EntityID z) s = Some z"
      if "z \<in> set (respawn_Due order tick s) \<union> set (respawn_Due (gomap_keys (rs_pending s)) tick s)" for z
      using that conjunct1 [OF a] conjunct1 [OF b] by blast
    note P = this [OF x] this [OF y]
    have "sc_EntityID x = sc_EntityID y" using k by (simp add: key_def)
    then have "Some x = Some y" unfolding P [symmetric] by (rule arg_cong)
    then show "x = y" by (rule option.inject [THEN iffD1])
  qed
  ultimately have "respawn_Due order tick s = respawn_Due (gomap_keys (rs_pending s)) tick s"
    by (metis inj_on_map_eq_map)
  with a show ?thesis unfolding key_def by (simp add: strict_sorted_iff)
qed

section \<open>Witnesses\<close>

definition sample_rule :: "string \<Rightarrow> context_rule" where
  "sample_rule c = \<lparr>cr_Context = c, cr_RespawnDelaySeconds = 0x4004000000000000, cr_DefaultSpawnPoint = ''town'',
     cr_AllowedSpawnClasses = [SpawnClassSafe, SpawnClassCheckpoint]\<rparr>"

definition sample_policy :: respawn_definition where
  "sample_policy = \<lparr>rd_SchemaVersion = 2, rd_Revision = ''r1'',
     rd_SpawnPoints =
       [\<lparr>sp_ID = ''town'', sp_Class = SpawnClassSafe, sp_X = 0x3F800000, sp_Y = 0, sp_Z = 0x3F800000, sp_Layer = 0, sp_Radius = 0\<rparr>,
        \<lparr>sp_ID = ''shrine'', sp_Class = SpawnClassCheckpoint, sp_X = 0x40A00000, sp_Y = 0, sp_Z = 0x3F800000,
         sp_Layer = 0, sp_Radius = 0x40A00000\<rparr>],
     rd_Contexts = map sample_rule requiredDeathContexts\<rparr>"

definition sample_respawn :: respawn_service where
  "sample_respawn = (case respawn_NewService sample_policy 20 of
     Inr s \<Rightarrow> s | Inl _ \<Rightarrow> \<lparr>rs_revision = '''', rs_points = fmempty, rs_rules = fmempty, rs_checkpoints = fmempty, rs_pending = fmempty\<rparr>)"

lemma sample_respawn: "respawn_NewService sample_policy 20 = Inr sample_respawn"
proof -
  have "isl (respawn_NewService sample_policy 20) = False" by code_simp
  then show ?thesis by (auto simp: sample_respawn_def split: sum.splits)
qed

definition sample_at_shrine :: position where
  "sample_at_shrine = \<lparr>pos_X = 0x40A00000, pos_Y = 0, pos_Z = 0x3F800000, pos_Layer = 0\<rparr>"

definition sample_binding :: scheduled where
  "sample_binding = \<lparr>sc_EntityID = 7, sc_Context = ''pve'', sc_SpawnPointID = ''shrine'', sc_SpawnClass = ''checkpoint'',
     sc_Position = sample_at_shrine, sc_DueTick = 150\<rparr>"

theorem binding_survives_restart_witness:
  "fst (RestoreScheduled sample_binding (run_ops respawn_step [RClear 7] sample_respawn)) = None"
proof -
  have "fst (respawn_Schedule 7 100 DeathContextPvE
      (run_ops respawn_step [RAcquire 7 sample_at_shrine ''shrine''] sample_respawn)) = Inr sample_binding"
    by code_simp
  then obtain s' where "respawn_Schedule 7 100 DeathContextPvE
      (run_ops respawn_step [RAcquire 7 sample_at_shrine ''shrine''] sample_respawn) = (Inr sample_binding, s')"
    by (metis prod.collapse)
  from binding_survives_restart [OF sample_respawn sample_respawn this] show ?thesis by blast
qed

theorem Due_deterministic_witness:
  "map sc_EntityID (respawn_Due [3, 5, 7] 200
     (run_ops respawn_step [RSchedule 7 100 ''pve'', RSchedule 5 100 ''pvp'', RSchedule 3 101 ''siege''] sample_respawn)) = [5, 7, 3] \<and>
   respawn_Due [3, 5, 7] 200
     (run_ops respawn_step [RSchedule 7 100 ''pve'', RSchedule 5 100 ''pvp'', RSchedule 3 101 ''siege''] sample_respawn) =
   respawn_Due [7, 3, 5] 200
     (run_ops respawn_step [RSchedule 7 100 ''pve'', RSchedule 5 100 ''pvp'', RSchedule 3 101 ''siege''] sample_respawn)"
proof -
  define s where "s = run_ops respawn_step [RSchedule 7 100 ''pve'', RSchedule 5 100 ''pvp'', RSchedule 3 101 ''siege''] sample_respawn"
  have dom: "fmdom' (rs_pending s) = {3, 5, 7}" unfolding s_def by code_simp
  have "map sc_EntityID (respawn_Due [3, 5, 7] 200 s) = [5, 7, 3]" unfolding s_def by code_simp
  moreover have "respawn_Due os 200 s = respawn_Due (gomap_keys (rs_pending s)) 200 s"
    if "set os = {3, 5, 7}" "distinct os" for os
    using Due_deterministic [OF sample_respawn s_def, of os 200] that dom by simp
  moreover have "set [3, 5, 7 :: entity_id] = {3, 5, 7}" "set [7, 3, 5 :: entity_id] = {3, 5, 7}" by auto
  ultimately show ?thesis unfolding s_def [symmetric] by simp
qed

end
