(* ===== verification/DeathPenalty.thy ===== *)
theory DeathPenalty
  imports RespawnPolicy
begin

text \<open>
  The death penalty policy (\<open>internal/deathpenalty\<close>): which death contexts forfeit the
  checkpoint, and the service that applies each defeat revision of an entity at most once.
\<close>

section \<open>Model\<close>

definition penalty_SchemaVersion :: u16 where [go_defs]: "penalty_SchemaVersion = 1"

datatype penalty_error =
  ErrUnsupportedSchema | ErrInvalidDefinition | ErrInvalidEntity | ErrInvalidRevision | ErrRevisionRegression

record penalty_definition =
  pd_SchemaVersion :: u16
  pd_Revision :: string
  pd_CheckpointForfeitContexts :: "string list"

definition penalty_validDeathContext :: "string \<Rightarrow> bool" where
  "penalty_validDeathContext c = (c = DeathContextPvE \<or> c = DeathContextPvP \<or> c = DeathContextSiege)"

fun scanForfeits :: "string list \<Rightarrow> string set \<Rightarrow> penalty_error option" where
  "scanForfeits [] seen = None"
| "scanForfeits (c # rest) seen =
     (if \<not> penalty_validDeathContext c \<or> c \<in> seen then Some ErrInvalidDefinition
      else scanForfeits rest (insert c seen))"

definition penalty_Validate :: "penalty_definition \<Rightarrow> penalty_error option" where
  "penalty_Validate d =
     (if pd_SchemaVersion d \<noteq> penalty_SchemaVersion then Some ErrUnsupportedSchema
      else if pd_Revision d = '''' then Some ErrInvalidDefinition
      else scanForfeits (pd_CheckpointForfeitContexts d) {})"

record penalty_service =
  ps_revision :: string
  ps_checkpointForfeit :: "string set"
  ps_appliedRevision :: "(entity_id, u64) fmap"

definition penalty_NewService :: "penalty_definition \<Rightarrow> penalty_error + penalty_service" where
  "penalty_NewService d =
     (case penalty_Validate d of
        Some e \<Rightarrow> Inl e
      | None \<Rightarrow>
          Inr \<lparr>ps_revision = pd_Revision d, ps_checkpointForfeit = set (pd_CheckpointForfeitContexts d),
               ps_appliedRevision = fmempty\<rparr>)"

definition ForfeitsCheckpoint :: "string \<Rightarrow> penalty_service \<Rightarrow> bool" where
  "ForfeitsCheckpoint c s = (c \<in> ps_checkpointForfeit s)"

text \<open>The answer: whether the checkpoint is forfeited, and whether this call applied the revision.\<close>

definition penalty_Apply ::
  "entity_id \<Rightarrow> u64 \<Rightarrow> string \<Rightarrow> penalty_service \<Rightarrow> (penalty_error + bool \<times> bool) \<times> penalty_service" where
  "penalty_Apply e revision ctx s =
     (if e = 0 then (Inl ErrInvalidEntity, s)
      else if revision = 0 then (Inl ErrInvalidRevision, s)
      else if \<not> penalty_validDeathContext ctx then (Inl ErrInvalidDefinition, s)
      else let last = gomap_at 0 (ps_appliedRevision s) e
           in if revision < last then (Inl ErrRevisionRegression, s)
              else if revision = last then (Inr (False, False), s)
              else (Inr (ForfeitsCheckpoint ctx s, True),
                    s\<lparr>ps_appliedRevision := fmupd e revision (ps_appliedRevision s)\<rparr>))"

definition AppliedRevision :: "entity_id \<Rightarrow> penalty_service \<Rightarrow> u64 option" where
  "AppliedRevision e s = fmlookup (ps_appliedRevision s) e"

definition penalty_Remove :: "entity_id \<Rightarrow> penalty_service \<Rightarrow> penalty_service" where
  "penalty_Remove e s = s\<lparr>ps_appliedRevision := fmdrop e (ps_appliedRevision s)\<rparr>"

section \<open>Laws\<close>

lemma Apply_cases:
  assumes "penalty_Apply e revision ctx s = (r, s')"
  obtains (refused) err where "r = Inl err" "s' = s"
  | (again) "r = Inr (False, False)" "s' = s" "revision = gomap_at 0 (ps_appliedRevision s) e"
  | (applied) "r = Inr (ForfeitsCheckpoint ctx s, True)" "e \<noteq> 0" "penalty_validDeathContext ctx"
      "gomap_at 0 (ps_appliedRevision s) e < revision"
      "s' = s\<lparr>ps_appliedRevision := fmupd e revision (ps_appliedRevision s)\<rparr>"
  using assms by (auto simp: penalty_Apply_def Let_def split: if_splits)

lemma Apply_fresh:
  assumes "e \<noteq> 0" and "penalty_validDeathContext ctx" and "gomap_at 0 (ps_appliedRevision s) e < revision"
  shows "penalty_Apply e revision ctx s = (Inr (ForfeitsCheckpoint ctx s, True),
    s\<lparr>ps_appliedRevision := fmupd e revision (ps_appliedRevision s)\<rparr>)"
  using assms by (auto simp: penalty_Apply_def Let_def)

text \<open>The revisions of an entity that a sequence of calls applies, oldest first.\<close>

fun applied_revisions :: "entity_id \<Rightarrow> (entity_id \<times> u64 \<times> string) list \<Rightarrow> penalty_service \<Rightarrow> u64 list" where
  "applied_revisions e [] s = []"
| "applied_revisions e ((e', revision, ctx) # rest) s =
     (case penalty_Apply e' revision ctx s of
        (Inr (_, True), s') \<Rightarrow> (if e' = e then revision # applied_revisions e rest s' else applied_revisions e rest s')
      | (_, s') \<Rightarrow> applied_revisions e rest s')"

lemma applied_above:
  "sorted_wrt (<) (applied_revisions e calls s) \<and>
     (\<forall>v \<in> set (applied_revisions e calls s). gomap_at 0 (ps_appliedRevision s) e < v)"
proof (induction calls arbitrary: s)
  case (Cons call rest)
  obtain e' revision ctx where call: "call = (e', revision, ctx)" by (cases call)
  obtain r s' where a: "penalty_Apply e' revision ctx s = (r, s')" by (cases "penalty_Apply e' revision ctx s")
  from a show ?case
  proof (cases rule: Apply_cases)
    case applied
    define t where "t = s\<lparr>ps_appliedRevision := fmupd e' revision (ps_appliedRevision s)\<rparr>"
    have at: "gomap_at 0 (ps_appliedRevision t) e = (if e' = e then revision else gomap_at 0 (ps_appliedRevision s) e)"
      by (simp add: t_def)
    have ap: "applied_revisions e (call # rest) s =
        (if e' = e then revision # applied_revisions e rest t else applied_revisions e rest t)"
      using a applied by (simp add: call t_def)
    show ?thesis
      using Cons [of t] applied(4) unfolding ap at by (auto intro: less_trans split: if_splits)
  next
    case again
    have "applied_revisions e (call # rest) s = applied_revisions e rest s"
      using a again(1,2) unfolding call by simp
    with Cons [of s] show ?thesis by simp
  qed (use Cons [of s'] in \<open>simp add: call a\<close>)
qed simp

text \<open>
  Each defeat is penalised once: over any sequence of calls, in any order, with repetitions
  and rejected calls, the revisions of an entity that are applied strictly increase, so no
  revision takes effect twice.
\<close>

theorem penalty_exactly_once:
  "sorted_wrt (<) (applied_revisions e calls s) \<and> distinct (applied_revisions e calls s)"
  using applied_above [of e calls s] by (simp add: strict_sorted_iff)

end
