(* ===== verification/DeathOutcome.thy ===== *)
theory DeathOutcome
  imports DeathPenalty CharacterIdentity
begin

text \<open>
  The events of deaths (\<open>internal/deathoutcome/outbox.go\<close>): what an event carries, its
  validation, and the bounded outbox between the world owner and the consumer. The mutex makes
  each operation one step; the process state is the record.
\<close>

section \<open>Events\<close>

datatype outcome_error =
  ErrInvalidCapacity | ErrInvalidEvent | ErrOutboxFull | ErrRevisionRegression | ErrOutcomeConflict
| ErrEventIDOverflow | ErrUnknownEvent | ErrConfirmOutOfOrder

record respawn_binding =
  rb_Scheduled :: bool
  rb_SpawnPointID :: string
  rb_SpawnClass :: string
  rb_Position :: position
  rb_DueTick :: u64

record event =
  ev_EventID :: u64
  ev_EntityID :: entity_id
  ev_CharacterID :: string
  ev_Assurance :: string
  ev_DefeatRevision :: u64
  ev_Context :: string
  ev_DefeatedTick :: u64
  ev_RespawnPolicyRevision :: string
  ev_DeathPenaltyPolicyRevision :: string
  ev_Respawn :: respawn_binding
  ev_PenaltyTransactionApplied :: bool
  ev_CheckpointForfeited :: bool

definition zero_position :: position where
  "zero_position = \<lparr>pos_X = 0, pos_Y = 0, pos_Z = 0, pos_Layer = 0\<rparr>"

definition zero_respawn_binding :: respawn_binding where
  "zero_respawn_binding = \<lparr>rb_Scheduled = False, rb_SpawnPointID = '''', rb_SpawnClass = '''',
     rb_Position = zero_position, rb_DueTick = 0\<rparr>"

definition zero_event :: event where
  "zero_event = \<lparr>ev_EventID = 0, ev_EntityID = 0, ev_CharacterID = '''', ev_Assurance = '''',
     ev_DefeatRevision = 0, ev_Context = '''', ev_DefeatedTick = 0, ev_RespawnPolicyRevision = '''',
     ev_DeathPenaltyPolicyRevision = '''', ev_Respawn = zero_respawn_binding,
     ev_PenaltyTransactionApplied = False, ev_CheckpointForfeited = False\<rparr>"

definition CharacterIdentity :: "event \<Rightarrow> binding" where
  "CharacterIdentity e = \<lparr>bd_ID = ev_CharacterID e, bd_Assurance = ev_Assurance e\<rparr>"

text \<open>Go's comparison of two events: the positions by float value, everything else exactly.\<close>

definition event_eq :: "event \<Rightarrow> event \<Rightarrow> bool" where
  "event_eq a b =
     (a\<lparr>ev_Respawn := (ev_Respawn a)\<lparr>rb_Position := zero_position\<rparr>\<rparr> =
      b\<lparr>ev_Respawn := (ev_Respawn b)\<lparr>rb_Position := zero_position\<rparr>\<rparr> \<and>
      position_eq (rb_Position (ev_Respawn a)) (rb_Position (ev_Respawn b)))"

definition outcome_validContext :: "string \<Rightarrow> bool" where
  "outcome_validContext c = (c = DeathContextPvE \<or> c = DeathContextPvP \<or> c = DeathContextSiege)"

definition outcome_validSpawnClass :: "string \<Rightarrow> bool" where
  "outcome_validSpawnClass c = (c = SpawnClassSafe \<or> c = SpawnClassCheckpoint \<or> c = SpawnClassSiege)"

definition validateEventBody :: "event \<Rightarrow> outcome_error option" where
  "validateEventBody e =
     (if ev_CheckpointForfeited e \<and> \<not> ev_PenaltyTransactionApplied e then Some ErrInvalidEvent
      else if rb_Scheduled (ev_Respawn e)
      then (if rb_SpawnPointID (ev_Respawn e) = '''' \<or> \<not> outcome_validSpawnClass (rb_SpawnClass (ev_Respawn e)) \<or>
               rb_DueTick (ev_Respawn e) \<le> ev_DefeatedTick e
            then Some ErrInvalidEvent else None)
      else if rb_SpawnPointID (ev_Respawn e) \<noteq> '''' \<or> rb_SpawnClass (ev_Respawn e) \<noteq> '''' \<or>
              \<not> position_eq (rb_Position (ev_Respawn e)) zero_position \<or> rb_DueTick (ev_Respawn e) \<noteq> 0
      then Some ErrInvalidEvent else None)"

definition validateEvent :: "event \<Rightarrow> outcome_error option" where
  "validateEvent e =
     (if ev_EventID e \<noteq> 0 \<or> ev_EntityID e = 0 \<or> \<not> binding_Valid (CharacterIdentity e) \<or>
         ev_DefeatRevision e = 0 \<or> \<not> outcome_validContext (ev_Context e)
      then Some ErrInvalidEvent else validateEventBody e)"

definition validateJournalEvent :: "event \<Rightarrow> outcome_error option" where
  "validateJournalEvent e =
     (if ev_EventID e = 0 \<or> ev_EntityID e = 0 \<or> \<not> binding_Valid (CharacterIdentity e) \<or>
         ev_DefeatRevision e = 0 \<or> \<not> outcome_validContext (ev_Context e)
      then Some ErrInvalidEvent else validateEventBody e)"

definition validateLegacyJournalEvent :: "event \<Rightarrow> outcome_error option" where
  "validateLegacyJournalEvent e =
     (if ev_EventID e = 0 \<or> ev_EntityID e = 0 \<or> ev_CharacterID e \<noteq> '''' \<or> ev_Assurance e \<noteq> '''' \<or>
         ev_DefeatRevision e = 0 \<or> \<not> outcome_validContext (ev_Context e)
      then Some ErrInvalidEvent else validateEventBody e)"

section \<open>The outbox\<close>

record outbox =
  ob_capacity :: nat
  ob_nextEventID :: u64
  ob_pending :: "event list"
  ob_lastByEntity :: "(entity_id, event) fmap"

definition NewOutbox :: "int \<Rightarrow> outcome_error + outbox" where
  "NewOutbox capacity =
     (if capacity \<le> 0 then Inl ErrInvalidCapacity
      else Inr \<lparr>ob_capacity = nat capacity, ob_nextEventID = 0, ob_pending = [], ob_lastByEntity = fmempty\<rparr>)"

definition outbox_Depth :: "outbox \<Rightarrow> nat" where
  "outbox_Depth o' = length (ob_pending o')"

definition outbox_append :: "event \<Rightarrow> outbox \<Rightarrow> (outcome_error + event \<times> bool) \<times> outbox" where
  "outbox_append e o' =
     (if ob_capacity o' \<le> length (ob_pending o') then (Inl ErrOutboxFull, o')
      else if ob_nextEventID o' = - 1 then (Inl ErrEventIDOverflow, o')
      else let e' = e\<lparr>ev_EventID := ob_nextEventID o' + 1\<rparr>
           in (Inr (e', True),
               o'\<lparr>ob_nextEventID := ob_nextEventID o' + 1, ob_pending := ob_pending o' @ [e'],
                  ob_lastByEntity := fmupd (ev_EntityID e) e' (ob_lastByEntity o')\<rparr>))"

definition outbox_Enqueue :: "event \<Rightarrow> outbox \<Rightarrow> (outcome_error + event \<times> bool) \<times> outbox" where
  "outbox_Enqueue e o' =
     (case validateEvent e of
        Some err \<Rightarrow> (Inl err, o')
      | None \<Rightarrow>
          (case fmlookup (ob_lastByEntity o') (ev_EntityID e) of
             None \<Rightarrow> outbox_append e o'
           | Some prev \<Rightarrow>
               if ev_DefeatRevision e < ev_DefeatRevision prev then (Inl ErrRevisionRegression, o')
               else if ev_DefeatRevision e = ev_DefeatRevision prev
               then (if \<not> event_eq (e\<lparr>ev_EventID := ev_EventID prev\<rparr>) prev then (Inl ErrOutcomeConflict, o')
                     else (Inr (prev, False), o'))
               else outbox_append e o'))"

definition outbox_Pending :: "int \<Rightarrow> outbox \<Rightarrow> event list" where
  "outbox_Pending limit o' =
     take (if limit > 0 \<and> limit < int (length (ob_pending o')) then nat limit else length (ob_pending o'))
       (ob_pending o')"

definition outbox_Confirm :: "u64 \<Rightarrow> outbox \<Rightarrow> outcome_error option \<times> outbox" where
  "outbox_Confirm i o' =
     (case ob_pending o' of
        [] \<Rightarrow> (Some ErrUnknownEvent, o')
      | e # rest \<Rightarrow>
          if ev_EventID e \<noteq> i
          then (if list_ex (\<lambda>e. ev_EventID e = i) (ob_pending o') then (Some ErrConfirmOutOfOrder, o')
                else (Some ErrUnknownEvent, o'))
          else (None, o'\<lparr>ob_pending := rest\<rparr>))"

definition outbox_ResetEntity :: "entity_id \<Rightarrow> outbox \<Rightarrow> outbox" where
  "outbox_ResetEntity e o' = o'\<lparr>ob_lastByEntity := fmdrop e (ob_lastByEntity o')\<rparr>"

section \<open>Laws of the operations\<close>

lemma outbox_append_cases:
  assumes "outbox_append e ob = (r, ob')"
  obtains (refused) err where "r = Inl err" "ob' = ob"
  | (created) e' where "r = Inr (e', True)" "e' = e\<lparr>ev_EventID := ob_nextEventID ob + 1\<rparr>"
      "length (ob_pending ob) < ob_capacity ob" "ob_nextEventID ob \<noteq> - 1"
      "ob' = ob\<lparr>ob_nextEventID := ob_nextEventID ob + 1, ob_pending := ob_pending ob @ [e'],
         ob_lastByEntity := fmupd (ev_EntityID e) e' (ob_lastByEntity ob)\<rparr>"
  using assms by (auto simp: outbox_append_def Let_def not_le split: if_splits)

lemma Enqueue_cases:
  assumes "outbox_Enqueue e ob = (r, ob')"
  obtains (refused) err where "r = Inl err" "ob' = ob"
  | (again) prev where "r = Inr (prev, False)" "ob' = ob" "fmlookup (ob_lastByEntity ob) (ev_EntityID e) = Some prev"
      "ev_DefeatRevision prev = ev_DefeatRevision e" "event_eq (e\<lparr>ev_EventID := ev_EventID prev\<rparr>) prev"
  | (created) e' where "r = Inr (e', True)" "validateEvent e = None" "e' = e\<lparr>ev_EventID := ob_nextEventID ob + 1\<rparr>"
      "length (ob_pending ob) < ob_capacity ob" "ob_nextEventID ob \<noteq> - 1"
      "ob' = ob\<lparr>ob_nextEventID := ob_nextEventID ob + 1, ob_pending := ob_pending ob @ [e'],
         ob_lastByEntity := fmupd (ev_EntityID e) e' (ob_lastByEntity ob)\<rparr>"
proof (cases "validateEvent e")
  case (Some err)
  with assms have "r = Inl err" "ob' = ob" by (simp_all add: outbox_Enqueue_def)
  then show ?thesis by (rule refused)
next
  case None
  note valid = this
  show ?thesis
  proof (cases "outbox_append e ob = (r, ob')")
    case True
    then show ?thesis
      by (cases rule: outbox_append_cases) (use refused in blast, use created valid in blast)
  next
    case False
    with assms valid obtain prev where prev: "fmlookup (ob_lastByEntity ob) (ev_EntityID e) = Some prev"
      by (auto simp: outbox_Enqueue_def split: option.splits)
    with assms valid False refused again show ?thesis
      by (auto simp: outbox_Enqueue_def split: if_splits)
  qed
qed

lemma Confirm_cases:
  assumes "outbox_Confirm i ob = (r, ob')"
  obtains (refused) err where "r = Some err" "ob' = ob"
  | (confirmed) e rest where "r = None" "ob_pending ob = e # rest" "ev_EventID e = i" "ob' = ob\<lparr>ob_pending := rest\<rparr>"
  using assms by (auto simp: outbox_Confirm_def split: list.splits if_splits)

datatype outbox_command = OEnqueue event | OConfirm u64 | OReset entity_id

fun outbox_step :: "outbox_command \<Rightarrow> outbox \<Rightarrow> unit \<times> outbox" where
  "outbox_step (OEnqueue e) ob = ((), snd (outbox_Enqueue e ob))"
| "outbox_step (OConfirm i) ob = ((), snd (outbox_Confirm i ob))"
| "outbox_step (OReset e) ob = ((), outbox_ResetEntity e ob)"

text \<open>What a history creates and what the consumer confirms, in order.\<close>

fun step_created :: "outbox_command \<Rightarrow> outbox \<Rightarrow> event list" where
  "step_created (OEnqueue e) ob = (case fst (outbox_Enqueue e ob) of Inr (e', True) \<Rightarrow> [e'] | _ \<Rightarrow> [])"
| "step_created _ ob = []"

fun step_confirmed :: "outbox_command \<Rightarrow> outbox \<Rightarrow> event list" where
  "step_confirmed (OConfirm i) ob = (if fst (outbox_Confirm i ob) = None then take 1 (ob_pending ob) else [])"
| "step_confirmed _ ob = []"

primrec outbox_created :: "outbox_command list \<Rightarrow> outbox \<Rightarrow> event list" where
  "outbox_created [] ob = []"
| "outbox_created (x # xs) ob = step_created x ob @ outbox_created xs (snd (outbox_step x ob))"

primrec outbox_confirmed :: "outbox_command list \<Rightarrow> outbox \<Rightarrow> event list" where
  "outbox_confirmed [] ob = []"
| "outbox_confirmed (x # xs) ob = step_confirmed x ob @ outbox_confirmed xs (snd (outbox_step x ob))"

lemma outbox_step_flow:
  assumes "snd (outbox_step x ob) = ob'"
  shows "ob_pending ob @ step_created x ob = step_confirmed x ob @ ob_pending ob'"
    "unat (ob_nextEventID ob') = unat (ob_nextEventID ob) + length (step_created x ob)"
    "map (unat \<circ> ev_EventID) (step_created x ob) =
       [unat (ob_nextEventID ob) + 1 ..< unat (ob_nextEventID ob) + 1 + length (step_created x ob)]"
    "ob_capacity ob' = ob_capacity ob"
    "length (ob_pending ob) \<le> ob_capacity ob \<Longrightarrow> length (ob_pending ob') \<le> ob_capacity ob'"
proof -
  have inc: "unat (ob_nextEventID ob + 1) = unat (ob_nextEventID ob) + 1" if "ob_nextEventID ob \<noteq> - 1"
    using that unatSuc [of "ob_nextEventID ob"] by (auto simp: add.commute eq_neg_iff_add_eq_0)
  have "ob_pending ob @ step_created x ob = step_confirmed x ob @ ob_pending ob' \<and>
    unat (ob_nextEventID ob') = unat (ob_nextEventID ob) + length (step_created x ob) \<and>
    map (unat \<circ> ev_EventID) (step_created x ob) =
       [unat (ob_nextEventID ob) + 1 ..< unat (ob_nextEventID ob) + 1 + length (step_created x ob)] \<and>
    ob_capacity ob' = ob_capacity ob \<and>
    (length (ob_pending ob) \<le> ob_capacity ob \<longrightarrow> length (ob_pending ob') \<le> ob_capacity ob')"
  proof (cases x)
    case (OEnqueue e)
    obtain r where en: "outbox_Enqueue e ob = (r, ob')"
      using assms OEnqueue by (cases "outbox_Enqueue e ob") simp
    from en show ?thesis by (cases rule: Enqueue_cases) (use en OEnqueue inc in auto)
  next
    case (OConfirm i)
    obtain r where en: "outbox_Confirm i ob = (r, ob')"
      using assms OConfirm by (cases "outbox_Confirm i ob") simp
    from en show ?thesis by (cases rule: Confirm_cases) (use en OConfirm in auto)
  next
    case (OReset e)
    with assms show ?thesis by (auto simp: outbox_ResetEntity_def)
  qed
  then show "ob_pending ob @ step_created x ob = step_confirmed x ob @ ob_pending ob'"
    "unat (ob_nextEventID ob') = unat (ob_nextEventID ob) + length (step_created x ob)"
    "map (unat \<circ> ev_EventID) (step_created x ob) =
       [unat (ob_nextEventID ob) + 1 ..< unat (ob_nextEventID ob) + 1 + length (step_created x ob)]"
    "ob_capacity ob' = ob_capacity ob"
    "length (ob_pending ob) \<le> ob_capacity ob \<Longrightarrow> length (ob_pending ob') \<le> ob_capacity ob'"
    by blast+
qed

lemma outbox_flow:
  "ob_pending ob @ outbox_created xs ob = outbox_confirmed xs ob @ ob_pending (run_ops outbox_step xs ob) \<and>
   map (unat \<circ> ev_EventID) (outbox_created xs ob) =
     [unat (ob_nextEventID ob) + 1 ..< unat (ob_nextEventID ob) + 1 + length (outbox_created xs ob)] \<and>
   (length (ob_pending ob) \<le> ob_capacity ob \<longrightarrow> length (ob_pending (run_ops outbox_step xs ob)) \<le> ob_capacity ob)"
proof (induction xs arbitrary: ob)
  case (Cons x xs)
  note flow = outbox_step_flow [of x ob, OF refl]
  define ob' where "ob' = snd (outbox_step x ob)"
  note IH = Cons [of ob']
  have run: "run_ops outbox_step (x # xs) ob = run_ops outbox_step xs ob'" by (simp add: ob'_def)
  have "ob_pending ob @ outbox_created (x # xs) ob = step_confirmed x ob @ ob_pending ob' @ outbox_created xs ob'"
    using flow(1) unfolding ob'_def by (metis append_assoc outbox_created.simps(2))
  then have "ob_pending ob @ outbox_created (x # xs) ob =
      outbox_confirmed (x # xs) ob @ ob_pending (run_ops outbox_step (x # xs) ob)"
    unfolding run conjunct1 [OF IH] by (simp add: ob'_def)
  moreover have "map (unat \<circ> ev_EventID) (outbox_created (x # xs) ob) =
      [unat (ob_nextEventID ob) + 1 ..< unat (ob_nextEventID ob) + 1 + length (outbox_created (x # xs) ob)]"
  proof -
    have "map (unat \<circ> ev_EventID) (outbox_created (x # xs) ob) =
        map (unat \<circ> ev_EventID) (step_created x ob) @ map (unat \<circ> ev_EventID) (outbox_created xs ob')"
      by (simp add: ob'_def)
    also have "\<dots> = [unat (ob_nextEventID ob) + 1 ..< unat (ob_nextEventID ob) + 1 + length (step_created x ob)] @
        [unat (ob_nextEventID ob) + 1 + length (step_created x ob) ..<
          unat (ob_nextEventID ob) + 1 + length (step_created x ob) + length (outbox_created xs ob')]"
      using flow(2,3) conjunct1 [OF conjunct2 [OF IH]] unfolding ob'_def by (simp add: comp_def del: upt_Suc)
    also have "\<dots> = [unat (ob_nextEventID ob) + 1 ..<
        unat (ob_nextEventID ob) + 1 + length (step_created x ob) + length (outbox_created xs ob')]"
      by (rule upt_add_eq_append [symmetric]) simp
    finally show ?thesis by (simp add: ob'_def add.assoc del: upt_Suc)
  qed
  moreover have "length (ob_pending ob) \<le> ob_capacity ob \<longrightarrow>
      length (ob_pending (run_ops outbox_step (x # xs) ob)) \<le> ob_capacity ob"
    using conjunct2 [OF conjunct2 [OF IH]] flow(4,5) unfolding run ob'_def by simp
  ultimately show ?case by (intro conjI)
qed (simp del: upt_Suc)

text \<open>
  C22. The outbox is a lossless queue: over any history, what was created is exactly what was
  confirmed followed by what is still pending, in creation order, with event ids 1, 2, 3 and so
  on without gaps; never more events are pending than its capacity.
\<close>

theorem outbox_lossless_fifo:
  assumes "NewOutbox capacity = Inr ob"
  shows "outbox_created xs ob = outbox_confirmed xs ob @ ob_pending (run_ops outbox_step xs ob) \<and>
    map (unat \<circ> ev_EventID) (outbox_created xs ob) = [1 ..< 1 + length (outbox_created xs ob)] \<and>
    int (outbox_Depth (run_ops outbox_step xs ob)) \<le> capacity"
proof -
  have ob: "0 < capacity" "ob = \<lparr>ob_capacity = nat capacity, ob_nextEventID = 0, ob_pending = [], ob_lastByEntity = fmempty\<rparr>"
    using assms by (auto simp: NewOutbox_def split: if_splits)
  then have fields: "ob_pending ob = []" "ob_nextEventID ob = 0" "ob_capacity ob = nat capacity" by simp_all
  note flow = outbox_flow [of ob xs, unfolded fields append_Nil unat_0 add_0]
  have "length (ob_pending (run_ops outbox_step xs ob)) \<le> nat capacity"
    using conjunct2 [OF conjunct2 [OF flow]] by simp
  then have "int (outbox_Depth (run_ops outbox_step xs ob)) \<le> capacity"
    using ob(1) by (simp add: outbox_Depth_def le_nat_iff)
  with conjunct1 [OF flow] conjunct1 [OF conjunct2 [OF flow]] show ?thesis by (intro conjI)
qed

text \<open>Stored events are well formed.\<close>

definition outbox_inv :: "outbox \<Rightarrow> bool" where
  "outbox_inv ob =
     ((\<forall>e \<in> set (ob_pending ob). validateJournalEvent e = None) \<and>
      (\<forall>i e. fmlookup (ob_lastByEntity ob) i = Some e \<longrightarrow> ev_EntityID e = i \<and> validateJournalEvent e = None))"

lemma numbered_valid:
  "validateEvent e = None \<Longrightarrow> n \<noteq> 0 \<Longrightarrow> validateJournalEvent (e\<lparr>ev_EventID := n\<rparr>) = None"
  by (auto simp: validateEvent_def validateJournalEvent_def validateEventBody_def CharacterIdentity_def split: if_splits)

interpretation outbox: kept_invariant outbox_step outbox_inv
proof
  fix x ob assume inv: "outbox_inv ob"
  show "outbox_inv (snd (outbox_step x ob))"
  proof (cases x)
    case (OEnqueue e)
    obtain r ob' where en: "outbox_Enqueue e ob = (r, ob')" by (cases "outbox_Enqueue e ob")
    from en have "outbox_inv ob'"
    proof (cases rule: Enqueue_cases)
      case (created e')
      then have "validateJournalEvent e' = None"
        by (simp add: numbered_valid eq_neg_iff_add_eq_0)
      then show ?thesis using inv created by (auto simp: outbox_inv_def)
    qed (use inv in simp_all)
    with OEnqueue en show ?thesis by simp
  next
    case (OConfirm i)
    obtain r ob' where en: "outbox_Confirm i ob = (r, ob')" by (cases "outbox_Confirm i ob")
    from en have "outbox_inv ob'"
      by (cases rule: Confirm_cases) (use inv in \<open>auto simp: outbox_inv_def\<close>)
    with OConfirm en show ?thesis by simp
  next
    case (OReset e)
    with inv show ?thesis by (auto simp: outbox_inv_def outbox_ResetEntity_def split: if_splits)
  qed
qed

text \<open>
  C40. Every event in the outbox has the form the journal requires: after any history each
  pending event carries an id, an entity, a valid character identity, a defeat revision, a known
  context, and a respawn binding that is either complete and later than the defeat or empty.
\<close>

theorem outbox_events_typed:
  assumes "NewOutbox capacity = Inr ob" and "e \<in> set (ob_pending (run_ops outbox_step xs ob))"
  shows "validateJournalEvent e = None"
proof -
  have "outbox_inv ob"
    using assms(1) by (auto simp: NewOutbox_def outbox_inv_def split: if_splits)
  from outbox.run_inv [OF this] assms(2) show ?thesis by (auto simp: outbox_inv_def)
qed

text \<open>A repeated enqueue of a stored event answers the stored event and changes nothing.\<close>

lemma Enqueue_again:
  assumes "outbox_Enqueue e ob = (Inr (stored, True), ob')"
    and "\<not> f32_IsNaN (pos_X (rb_Position (ev_Respawn e)))" "\<not> f32_IsNaN (pos_Y (rb_Position (ev_Respawn e)))"
      "\<not> f32_IsNaN (pos_Z (rb_Position (ev_Respawn e)))"
  shows "outbox_Enqueue e ob' = (Inr (stored, False), ob')"
  using assms(1)
proof (cases rule: Enqueue_cases)
  case (created e')
  then show ?thesis
    using assms(2-) by (simp add: outbox_Enqueue_def event_eq_def position_eq_def f32_eq_def)
qed simp_all

section \<open>Witnesses\<close>

definition sample_event :: "u64 \<Rightarrow> event" where
  "sample_event revision = zero_event\<lparr>ev_EntityID := 7, ev_CharacterID := ''hero'', ev_Assurance := AssuranceTrusted,
     ev_DefeatRevision := revision, ev_Context := DeathContextPvE, ev_DefeatedTick := 100\<rparr>"

definition sample_outbox :: outbox where
  "sample_outbox = \<lparr>ob_capacity = 2, ob_nextEventID = 0, ob_pending = [], ob_lastByEntity = fmempty\<rparr>"

lemma sample_outbox: "NewOutbox 2 = Inr sample_outbox"
  by (simp add: NewOutbox_def sample_outbox_def)

definition sample_traffic :: "outbox_command list" where
  "sample_traffic = [OEnqueue (sample_event 1), OEnqueue (sample_event 1), OEnqueue (sample_event 2),
     OEnqueue (sample_event 3), OConfirm 2, OConfirm 1, OEnqueue (sample_event 3)]"

theorem outbox_lossless_fifo_witness:
  "map (unat \<circ> ev_EventID) (outbox_created sample_traffic sample_outbox) = [1, 2, 3] \<and>
   map ev_DefeatRevision (outbox_confirmed sample_traffic sample_outbox @
     ob_pending (run_ops outbox_step sample_traffic sample_outbox)) = [1, 2, 3]"
proof -
  have revs: "map ev_DefeatRevision (outbox_created sample_traffic sample_outbox) = [1, 2, 3]" by code_simp
  then have len: "length (outbox_created sample_traffic sample_outbox) = 3" by (metis length_map list.size(3,4) numeral_3_eq_3 One_nat_def add_Suc_right add_0_right)
  have three: "[1 ..< 1 + 3] = [1, 2, 3 :: nat]" by code_simp
  note fifo = outbox_lossless_fifo [OF sample_outbox, of sample_traffic]
  show ?thesis
    using fifo revs three unfolding len by metis
qed

theorem outbox_events_typed_witness:
  "list_all (\<lambda>e. validateJournalEvent e = None) (ob_pending (run_ops outbox_step sample_traffic sample_outbox)) \<and>
   length (ob_pending (run_ops outbox_step sample_traffic sample_outbox)) = 2"
proof -
  have "length (ob_pending (run_ops outbox_step sample_traffic sample_outbox)) = 2" by code_simp
  then show ?thesis using outbox_events_typed [OF sample_outbox] by (simp add: list_all_iff)
qed

end
