(* ===== verification/DeathJournal.thy ===== *)
theory DeathJournal
  imports DeathOutcome
begin

unbundle bit_operations_syntax

text \<open>
  The durable journal of death outcomes (\<open>internal/deathoutcome/journal.go\<close>): frames with a
  length and a checksum, appends that count only once synced, the scan that repairs a torn tail
  when the file is opened, and consumer checkpoints. The file is its bytes; what the operating
  system answers to a call (and how many bytes a failed write leaves behind) is an argument.
  \<open>encoding/json\<close> is a pair of functions, an argument too. Offsets are natural numbers.
\<close>

section \<open>Bytes\<close>

text \<open>\<open>binary.BigEndian\<close> on 32 bits.\<close>

definition PutUint32 :: "u32 \<Rightarrow> u8 list" where
  "PutUint32 v = [ucast (drop_bit 24 v), ucast (drop_bit 16 v), ucast (drop_bit 8 v), ucast v]"

fun Uint32 :: "u8 list \<Rightarrow> u32" where
  "Uint32 [a, b, c, d] = push_bit 24 (ucast a) OR push_bit 16 (ucast b) OR push_bit 8 (ucast c) OR ucast d"
| "Uint32 _ = 0"

lemma Uint32_PutUint32 [simp]: "Uint32 (PutUint32 v) = v"
proof (rule bit_word_eqI)
  fix n
  assume "n < LENGTH(32)"
  then show "bit (Uint32 (PutUint32 v)) n = bit v n"
    unfolding PutUint32_def Uint32.simps
    by (cases "n < 8"; cases "n < 16"; cases "n < 24") (auto simp: bit_simps)
qed

lemma length_PutUint32 [simp]: "length (PutUint32 v) = 4"
  by (simp add: PutUint32_def)

text \<open>\<open>hash/crc32\<close> with the Castagnoli polynomial, bit by bit.\<close>

definition crc_bit :: "u32 \<Rightarrow> u32" where
  "crc_bit c = (if bit c 0 then drop_bit 1 c XOR 0x82F63B78 else drop_bit 1 c)"

definition crc_byte :: "u8 \<Rightarrow> u32 \<Rightarrow> u32" where
  "crc_byte b c = (crc_bit ^^ 8) (c XOR ucast b)"

definition crc32c :: "u8 list \<Rightarrow> u32" where
  "crc32c bs = NOT (fold crc_byte bs 0xFFFFFFFF)"

text \<open>\<open>ReadAt\<close>: all the bytes asked for, or an error at the end of the file; \<open>WriteAt\<close> of some bytes.\<close>

definition read_at :: "u8 list \<Rightarrow> nat \<Rightarrow> nat \<Rightarrow> u8 list option" where
  "read_at file off n = (if off + n \<le> length file then Some (take n (drop off file)) else None)"

definition write_at :: "u8 list \<Rightarrow> nat \<Rightarrow> u8 list \<Rightarrow> u8 list" where
  "write_at file off bs = take off file @ replicate (off - length file) 0 @ bs @ drop (off + length bs) file"

section \<open>Data\<close>

definition legacyJournalSchemaVersion :: u16 where [go_defs]: "legacyJournalSchemaVersion = 1"
definition JournalSchemaVersion :: u16 where [go_defs]: "JournalSchemaVersion = 2"
definition checkpointSchemaVersion :: u16 where [go_defs]: "checkpointSchemaVersion = 1"
definition journalIDSize :: nat where [go_defs]: "journalIDSize = 16"
definition maxJournalPayload :: nat where [go_defs]: "maxJournalPayload = 1048576"

definition journalMagic :: "u8 list" where
  "journalMagic = map (of_nat \<circ> of_char) (''ASTRAHOLD-DEATH-OUTCOME-JOURNAL-V1'' @ [CHR 0x0A])"

definition journalHeaderSize :: nat where
  "journalHeaderSize = length journalMagic + journalIDSize"

datatype journal_error =
  ErrCorruptJournal | ErrJournalClosed | ErrJournalRecordOverflow | ErrCorruptCheckpoint
| ErrCheckpointJournalMismatch | ErrCheckpointAhead | ErrCheckpointOffsetMismatch
| ErrShortWrite | ErrIO | ErrMarshal | FromOutcome outcome_error

record 'w json =
  js_Marshal :: "'w \<Rightarrow> u8 list option"
  js_Decode :: "u8 list \<Rightarrow> 'w option"

record wire_respawn =
  wb_Scheduled :: bool
  wb_SpawnPointID :: string
  wb_SpawnClass :: string
  wb_X :: f32
  wb_Y :: f32
  wb_Z :: f32
  wb_Layer :: layer_id
  wb_DueTick :: u64

record wire_event =
  we_EventID :: u64
  we_EntityID :: entity_id
  we_CharacterID :: string
  we_Assurance :: string
  we_DefeatRevision :: u64
  we_Context :: string
  we_DefeatedTick :: u64
  we_RespawnPolicyRevision :: string
  we_DeathPenaltyPolicyRevision :: string
  we_Respawn :: wire_respawn
  we_PenaltyTransactionApplied :: bool
  we_CheckpointForfeited :: bool

record wire_record =
  wr_SchemaVersion :: u16
  wr_RecordID :: u64
  wr_Event :: wire_event

definition eventToWire :: "event \<Rightarrow> wire_event" where
  "eventToWire e =
     \<lparr>we_EventID = ev_EventID e, we_EntityID = ev_EntityID e, we_CharacterID = ev_CharacterID e,
      we_Assurance = ev_Assurance e, we_DefeatRevision = ev_DefeatRevision e, we_Context = ev_Context e,
      we_DefeatedTick = ev_DefeatedTick e, we_RespawnPolicyRevision = ev_RespawnPolicyRevision e,
      we_DeathPenaltyPolicyRevision = ev_DeathPenaltyPolicyRevision e,
      we_Respawn = \<lparr>wb_Scheduled = rb_Scheduled (ev_Respawn e), wb_SpawnPointID = rb_SpawnPointID (ev_Respawn e),
        wb_SpawnClass = rb_SpawnClass (ev_Respawn e), wb_X = pos_X (rb_Position (ev_Respawn e)),
        wb_Y = pos_Y (rb_Position (ev_Respawn e)), wb_Z = pos_Z (rb_Position (ev_Respawn e)),
        wb_Layer = pos_Layer (rb_Position (ev_Respawn e)), wb_DueTick = rb_DueTick (ev_Respawn e)\<rparr>,
      we_PenaltyTransactionApplied = ev_PenaltyTransactionApplied e,
      we_CheckpointForfeited = ev_CheckpointForfeited e\<rparr>"

definition wireToEvent :: "wire_event \<Rightarrow> event" where
  "wireToEvent w =
     \<lparr>ev_EventID = we_EventID w, ev_EntityID = we_EntityID w, ev_CharacterID = we_CharacterID w,
      ev_Assurance = we_Assurance w, ev_DefeatRevision = we_DefeatRevision w, ev_Context = we_Context w,
      ev_DefeatedTick = we_DefeatedTick w, ev_RespawnPolicyRevision = we_RespawnPolicyRevision w,
      ev_DeathPenaltyPolicyRevision = we_DeathPenaltyPolicyRevision w,
      ev_Respawn = \<lparr>rb_Scheduled = wb_Scheduled (we_Respawn w), rb_SpawnPointID = wb_SpawnPointID (we_Respawn w),
        rb_SpawnClass = wb_SpawnClass (we_Respawn w),
        rb_Position = \<lparr>pos_X = wb_X (we_Respawn w), pos_Y = wb_Y (we_Respawn w), pos_Z = wb_Z (we_Respawn w),
          pos_Layer = wb_Layer (we_Respawn w)\<rparr>,
        rb_DueTick = wb_DueTick (we_Respawn w)\<rparr>,
      ev_PenaltyTransactionApplied = we_PenaltyTransactionApplied w,
      ev_CheckpointForfeited = we_CheckpointForfeited w\<rparr>"

lemma wireToEvent_eventToWire [simp]: "wireToEvent (eventToWire e) = e"
  by (simp add: wireToEvent_def eventToWire_def)

definition makeFrame :: "u8 list \<Rightarrow> u8 list" where
  "makeFrame payload = PutUint32 (of_nat (length payload)) @ payload @ PutUint32 (crc32c payload)"

definition event_record :: "u64 \<Rightarrow> event \<Rightarrow> wire_record" where
  "event_record recordID e =
     \<lparr>wr_SchemaVersion = JournalSchemaVersion, wr_RecordID = recordID, wr_Event = eventToWire e\<rparr>"

definition encodeJournalRecord :: "wire_record json \<Rightarrow> u64 \<Rightarrow> event \<Rightarrow> journal_error + u8 list" where
  "encodeJournalRecord J recordID e =
     (case js_Marshal J (event_record recordID e) of
        None \<Rightarrow> Inl ErrMarshal
      | Some payload \<Rightarrow>
          if length payload = 0 \<or> length payload > maxJournalPayload then Inl (FromOutcome ErrInvalidEvent)
          else Inr payload)"

definition decodeJournalRecord :: "wire_record json \<Rightarrow> u8 list \<Rightarrow> journal_error + u64 \<times> event" where
  "decodeJournalRecord J payload =
     (case js_Decode J payload of
        None \<Rightarrow> Inl ErrCorruptJournal
      | Some w \<Rightarrow>
          if (wr_SchemaVersion w \<noteq> legacyJournalSchemaVersion \<and> wr_SchemaVersion w \<noteq> JournalSchemaVersion) \<or>
             wr_RecordID w = 0 then Inl ErrCorruptJournal
          else let e = wireToEvent (wr_Event w)
               in case (if wr_SchemaVersion w = legacyJournalSchemaVersion then validateLegacyJournalEvent e
                        else validateJournalEvent e) of
                    Some _ \<Rightarrow> Inl ErrCorruptJournal
                  | None \<Rightarrow> Inr (wr_RecordID w, e))"

record journal_record =
  jr_RecordID :: u64
  jr_Event :: event
  jr_EndOffset :: nat

record checkpoint =
  cp_JournalID :: string
  cp_RecordID :: u64
  cp_Offset :: nat

record journal =
  jn_journalID :: "u8 list"
  jn_lastRecordID :: u64
  jn_endOffset :: nat
  jn_recordEnds :: "nat list"
  jn_repairedTail :: bool
  jn_closed :: bool

definition jn_journalIDHex :: "journal \<Rightarrow> string" where
  "jn_journalIDHex j = EncodeToString (jn_journalID j)"

section \<open>Reading\<close>

definition readRecordAt :: "wire_record json \<Rightarrow> u8 list \<Rightarrow> nat \<Rightarrow> journal_error + journal_record \<times> nat" where
  "readRecordAt J file offset =
     (case read_at file offset 4 of
        None \<Rightarrow> Inl ErrIO
      | Some lengthBytes \<Rightarrow>
          let len = unat (Uint32 lengthBytes)
          in if len = 0 \<or> len > maxJournalPayload then Inl ErrCorruptJournal
             else case read_at file (offset + 4) len of
               None \<Rightarrow> Inl ErrIO
             | Some payload \<Rightarrow>
                 (case read_at file (offset + 4 + len) 4 of
                    None \<Rightarrow> Inl ErrIO
                  | Some crcBytes \<Rightarrow>
                      if crc32c payload \<noteq> Uint32 crcBytes then Inl ErrCorruptJournal
                      else case decodeJournalRecord J payload of
                        Inl e \<Rightarrow> Inl e
                      | Inr (recordID, e) \<Rightarrow>
                          let nxt = offset + 4 + len + 4
                          in Inr (\<lparr>jr_RecordID = recordID, jr_Event = e, jr_EndOffset = nxt\<rparr>, nxt)))"

text \<open>The tail after \<open>offset\<close> is cut off; the truncation and the sync may fail.\<close>

record repair_faults =
  rf_truncate :: bool
  rf_sync :: bool

definition repairTornTail ::
  "repair_faults \<Rightarrow> nat \<Rightarrow> journal \<Rightarrow> u8 list \<Rightarrow> (journal_error + journal) \<times> u8 list" where
  "repairTornTail f offset j file =
     (if rf_truncate f then (Inl ErrIO, file)
      else if rf_sync f then (Inl ErrIO, take offset file)
      else (Inr (j\<lparr>jn_endOffset := offset, jn_repairedTail := True\<rparr>), take offset file))"

text \<open>The loop of \<open>scanExisting\<close>; each round moves past a frame of at least nine bytes.\<close>

function scanFrames ::
  "wire_record json \<Rightarrow> repair_faults \<Rightarrow> u8 list \<Rightarrow> nat \<Rightarrow> u64 \<Rightarrow> journal \<Rightarrow> (journal_error + journal) \<times> u8 list" where
  "scanFrames J f file offset expected j =
     (if \<not> offset < length file
      then (Inr (if jn_endOffset j = 0 then j\<lparr>jn_endOffset := journalHeaderSize\<rparr> else j), file)
      else if length file - offset < 4 then repairTornTail f offset j file
      else case read_at file offset 4 of
        None \<Rightarrow> (Inl ErrIO, file)
      | Some lengthBytes \<Rightarrow>
          let len = unat (Uint32 lengthBytes)
          in if len = 0 \<or> len > maxJournalPayload then (Inl ErrCorruptJournal, file)
             else if offset + 4 + len + 4 > length file then repairTornTail f offset j file
             else case readRecordAt J file offset of
               Inl e \<Rightarrow> (Inl e, file)
             | Inr (rec, nxt) \<Rightarrow>
                 if nxt \<noteq> offset + 4 + len + 4 \<or> jr_RecordID rec \<noteq> expected then (Inl ErrCorruptJournal, file)
                 else scanFrames J f file (offset + 4 + len + 4) (expected + 1)
                        (j\<lparr>jn_recordEnds := jn_recordEnds j @ [nxt], jn_lastRecordID := jr_RecordID rec,
                           jn_endOffset := nxt\<rparr>))"
  by pat_completeness auto
termination
  by (relation "measure (\<lambda>(J, f, file, offset, _). length file - offset)") auto

declare scanFrames.simps [simp del]

text \<open>
  Opening: an empty file gets a header with a fresh random id (an argument), any other file is
  checked and scanned. The faults: reading the size, the random source, the header write (the
  bytes it leaves), the sync, reading the header, and the repair.
\<close>

record open_faults =
  of_stat :: bool
  of_rand :: bool
  of_write :: "nat option"
  of_sync :: bool
  of_read :: bool
  of_repair :: repair_faults

definition openOrInitialize ::
  "wire_record json \<Rightarrow> open_faults \<Rightarrow> u8 list \<Rightarrow> u8 list \<Rightarrow> (journal_error + journal) \<times> u8 list" where
  "openOrInitialize J f drawn file =
     (let j0 = \<lparr>jn_journalID = replicate journalIDSize 0, jn_lastRecordID = 0, jn_endOffset = 0, jn_recordEnds = [],
                jn_repairedTail = False, jn_closed = False\<rparr>
      in if of_stat f then (Inl ErrIO, file)
         else if length file = 0 then
           (if of_rand f then (Inl ErrIO, file)
            else let header = journalMagic @ drawn
                 in case of_write f of
                      Some k \<Rightarrow> (Inl ErrIO, write_at file 0 (take k header))
                    | None \<Rightarrow>
                        if of_sync f then (Inl ErrIO, write_at file 0 header)
                        else (Inr (j0\<lparr>jn_journalID := drawn, jn_endOffset := journalHeaderSize\<rparr>), write_at file 0 header))
         else if length file < journalHeaderSize then (Inl ErrCorruptJournal, file)
         else if of_read f then (Inl ErrIO, file)
         else let header = take journalHeaderSize file;
                  i = drop (length journalMagic) header
              in if take (length journalMagic) header \<noteq> journalMagic then (Inl ErrCorruptJournal, file)
                 else if list_all (\<lambda>b. b = 0) i then (Inl ErrCorruptJournal, file)
                 else scanFrames J (of_repair f) file journalHeaderSize 1 (j0\<lparr>jn_journalID := i\<rparr>))"

section \<open>Appending\<close>

datatype write_outcome = WriteAll | WriteFails nat | WriteShort nat

record append_faults =
  af_stat :: bool
  af_truncate :: bool
  af_write :: write_outcome
  af_sync :: bool

text \<open>The last part of an append: the frame goes to the end offset, and counts once it is synced.\<close>

definition appendFrame ::
  "append_faults \<Rightarrow> u64 \<Rightarrow> event \<Rightarrow> u8 list \<Rightarrow> journal \<Rightarrow> u8 list \<Rightarrow>
     (journal_error + journal_record) \<times> journal \<times> u8 list" where
  "appendFrame f recordID e frame j file =
     (case af_write f of
        WriteFails k \<Rightarrow> (Inl ErrIO, j, write_at file (jn_endOffset j) (take k frame))
      | outcome \<Rightarrow>
          let written = (case outcome of WriteShort k \<Rightarrow> min k (length frame) | _ \<Rightarrow> length frame);
              file' = write_at file (jn_endOffset j) (take written frame)
          in if written \<noteq> length frame then (Inl ErrShortWrite, j, file')
             else if af_sync f then (Inl ErrIO, j, file')
             else let end' = jn_endOffset j + length frame
                  in (Inr \<lparr>jr_RecordID = recordID, jr_Event = e, jr_EndOffset = end'\<rparr>,
                      j\<lparr>jn_lastRecordID := recordID, jn_endOffset := end', jn_recordEnds := jn_recordEnds j @ [end']\<rparr>,
                      file'))"

definition journal_Append ::
  "wire_record json \<Rightarrow> append_faults \<Rightarrow> event \<Rightarrow> journal \<Rightarrow> u8 list \<Rightarrow>
     (journal_error + journal_record) \<times> journal \<times> u8 list" where
  "journal_Append J f e j file =
     (case validateJournalEvent e of
        Some err \<Rightarrow> (Inl (FromOutcome err), j, file)
      | None \<Rightarrow>
          if jn_closed j then (Inl ErrJournalClosed, j, file)
          else if jn_lastRecordID j = - 1 then (Inl ErrJournalRecordOverflow, j, file)
          else if af_stat f then (Inl ErrIO, j, file)
          else if length file < jn_endOffset j then (Inl ErrCorruptJournal, j, file)
          else if length file > jn_endOffset j \<and> af_truncate f then (Inl ErrIO, j, file)
          else let file1 = (if length file > jn_endOffset j then take (jn_endOffset j) file else file);
                   recordID = jn_lastRecordID j + 1
               in case encodeJournalRecord J recordID e of
                    Inl err \<Rightarrow> (Inl err, j, file1)
                  | Inr payload \<Rightarrow> appendFrame f recordID e (makeFrame payload) j file1)"

definition journal_Close :: "bool \<Rightarrow> journal \<Rightarrow> journal_error option \<times> journal" where
  "journal_Close fails j =
     (if jn_closed j then (None, j)
      else (if fails then Some ErrIO else None, j\<lparr>jn_closed := True\<rparr>))"

section \<open>Checkpoints\<close>

definition InitialCheckpoint :: "journal \<Rightarrow> checkpoint" where
  "InitialCheckpoint j = \<lparr>cp_JournalID = jn_journalIDHex j, cp_RecordID = 0, cp_Offset = journalHeaderSize\<rparr>"

definition checkpointForRecord :: "journal_record \<Rightarrow> journal \<Rightarrow> journal_error + checkpoint" where
  "checkpointForRecord r j =
     (if jn_closed j then Inl ErrJournalClosed
      else if jr_RecordID r = 0 \<or> jn_lastRecordID j < jr_RecordID r then Inl ErrCheckpointAhead
      else let expectedEnd = jn_recordEnds j ! (unat (jr_RecordID r) - 1)
           in if jr_EndOffset r \<noteq> expectedEnd then Inl ErrCheckpointOffsetMismatch
              else Inr \<lparr>cp_JournalID = jn_journalIDHex j, cp_RecordID = jr_RecordID r, cp_Offset = expectedEnd\<rparr>)"

definition validateCheckpoint :: "checkpoint \<Rightarrow> journal \<Rightarrow> journal_error option" where
  "validateCheckpoint c j =
     (if cp_JournalID c \<noteq> jn_journalIDHex j then Some ErrCheckpointJournalMismatch
      else if jn_lastRecordID j < cp_RecordID c then Some ErrCheckpointAhead
      else let expectedOffset = (if 0 < cp_RecordID c then jn_recordEnds j ! (unat (cp_RecordID c) - 1)
                                 else journalHeaderSize)
           in if cp_Offset c \<noteq> expectedOffset then Some ErrCheckpointOffsetMismatch else None)"

fun readRecords ::
  "wire_record json \<Rightarrow> u8 list \<Rightarrow> nat \<Rightarrow> nat \<Rightarrow> u64 \<Rightarrow> journal_error + journal_record list" where
  "readRecords J file 0 offset expected = Inr []"
| "readRecords J file (Suc n) offset expected =
     (case readRecordAt J file offset of
        Inl e \<Rightarrow> Inl e
      | Inr (rec, nxt) \<Rightarrow>
          if jr_RecordID rec \<noteq> expected then Inl ErrCorruptJournal
          else case readRecords J file n nxt (expected + 1) of
            Inl e \<Rightarrow> Inl e
          | Inr out \<Rightarrow> Inr (rec\<lparr>jr_EndOffset := nxt\<rparr> # out))"

definition RecordsAfter ::
  "wire_record json \<Rightarrow> checkpoint \<Rightarrow> int \<Rightarrow> journal \<Rightarrow> u8 list \<Rightarrow> journal_error + journal_record list" where
  "RecordsAfter J c limit j file =
     (if jn_closed j then Inl ErrJournalClosed
      else case validateCheckpoint c j of
        Some e \<Rightarrow> Inl e
      | None \<Rightarrow>
          if cp_RecordID c = jn_lastRecordID j then Inr []
          else let left = unat (jn_lastRecordID j - cp_RecordID c);
                   count = (if limit > 0 \<and> limit < int left then nat limit else left)
               in readRecords J file count (cp_Offset c) (cp_RecordID c + 1))"

text \<open>
  The checkpoint file: absent or its bytes. A save replaces it by a rename; what fails before
  that leaves it alone, and a failed sync of the directory comes after.
\<close>

record checkpoint_wire =
  cw_SchemaVersion :: u16
  cw_JournalID :: string
  cw_RecordID :: u64
  cw_Offset :: int

definition checkpoint_Load ::
  "checkpoint_wire json \<Rightarrow> bool \<Rightarrow> journal \<Rightarrow> u8 list option \<Rightarrow> journal_error + checkpoint" where
  "checkpoint_Load K fails j stored =
     (case stored of
        None \<Rightarrow> Inr (InitialCheckpoint j)
      | Some data \<Rightarrow>
          if fails then Inl ErrIO
          else case js_Decode K data of
            None \<Rightarrow> Inl ErrCorruptCheckpoint
          | Some w \<Rightarrow>
              if cw_SchemaVersion w \<noteq> checkpointSchemaVersion \<or> cw_JournalID w = '''' \<or> cw_Offset w \<le> 0
              then Inl ErrCorruptCheckpoint
              else let c = \<lparr>cp_JournalID = cw_JournalID w, cp_RecordID = cw_RecordID w, cp_Offset = nat (cw_Offset w)\<rparr>
                   in case validateCheckpoint c j of Some e \<Rightarrow> Inl e | None \<Rightarrow> Inr c)"

record save_faults =
  sf_write :: bool
  sf_syncDirectory :: bool

definition checkpoint_Save ::
  "checkpoint_wire json \<Rightarrow> save_faults \<Rightarrow> journal_record \<Rightarrow> journal \<Rightarrow> u8 list option \<Rightarrow>
     (journal_error + checkpoint) \<times> u8 list option" where
  "checkpoint_Save K f r j stored =
     (case checkpointForRecord r j of
        Inl e \<Rightarrow> (Inl e, stored)
      | Inr c \<Rightarrow>
          (case js_Marshal K \<lparr>cw_SchemaVersion = checkpointSchemaVersion, cw_JournalID = cp_JournalID c,
               cw_RecordID = cp_RecordID c, cw_Offset = int (cp_Offset c)\<rparr> of
             None \<Rightarrow> (Inl ErrMarshal, stored)
           | Some data \<Rightarrow>
               if sf_write f then (Inl ErrIO, stored)
               else if sf_syncDirectory f then (Inl ErrIO, Some (data @ [0x0A]))
               else (Inr c, Some (data @ [0x0A]))))"

section \<open>The log on disk\<close>

text \<open>What is asked of \<open>encoding/json\<close>: decoding what was encoded gives the value back, for the values \<open>ok\<close> names.\<close>

definition json_faithful :: "('w \<Rightarrow> bool) \<Rightarrow> 'w json \<Rightarrow> bool" where
  "json_faithful ok J = (\<forall>w p. ok w \<longrightarrow> js_Marshal J w = Some p \<longrightarrow> js_Decode J p = Some w)"

definition record_ok :: "wire_record json \<Rightarrow> u64 \<Rightarrow> event \<Rightarrow> bool" where
  "record_ok J i e = (\<exists>p. encodeJournalRecord J i e = Inr p \<and> decodeJournalRecord J p = Inr (i, e))"

definition frame_of :: "wire_record json \<Rightarrow> u64 \<Rightarrow> event \<Rightarrow> u8 list" where
  "frame_of J i e = (case encodeJournalRecord J i e of Inr p \<Rightarrow> makeFrame p | Inl _ \<Rightarrow> [])"

lemma length_makeFrame [simp]: "length (makeFrame p) = length p + 8"
  by (simp add: makeFrame_def)

lemma encode_bounds: "encodeJournalRecord J i e = Inr p \<Longrightarrow> 0 < length p \<and> length p \<le> maxJournalPayload"
  by (auto simp: encodeJournalRecord_def split: option.splits if_splits)

lemma record_ok_frame:
  assumes "record_ok J i e"
  obtains p where "encodeJournalRecord J i e = Inr p" "decodeJournalRecord J p = Inr (i, e)"
    "frame_of J i e = makeFrame p" "0 < length p" "length p \<le> maxJournalPayload"
  using assms encode_bounds by (force simp: record_ok_def frame_of_def)

lemma record_okI:
  assumes "json_faithful ok J" and "ok (event_record i e)" and "encodeJournalRecord J i e = Inr p"
    and "validateJournalEvent e = None" and "i \<noteq> 0"
  shows "record_ok J i e"
proof -
  have "js_Marshal J (event_record i e) = Some p"
    using assms(3) by (auto simp: encodeJournalRecord_def split: option.splits if_splits)
  then have "js_Decode J p = Some (event_record i e)" using assms(1,2) by (simp add: json_faithful_def)
  then have "decodeJournalRecord J p = Inr (i, e)"
    using assms(4,5) by (simp add: decodeJournalRecord_def event_record_def go_defs)
  with assms(3) show ?thesis by (auto simp: record_ok_def)
qed

text \<open>Reading inside a file that is split at the offset.\<close>

lemma read_at_split [simp]: "length mid = n \<Longrightarrow> read_at (pre @ mid @ post) (length pre) n = Some mid"
  by (simp add: read_at_def)

lemma read_at_split2:
  "k = length pre + length a \<Longrightarrow> length mid = n \<Longrightarrow> read_at (pre @ a @ mid @ post) k n = Some mid"
  using read_at_split [of mid n "pre @ a" post] by simp

lemma read_at_split3:
  "k = length pre + length a + length b \<Longrightarrow> length mid = n \<Longrightarrow> read_at (pre @ a @ b @ mid @ post) k n = Some mid"
  using read_at_split [of mid n "pre @ a @ b" post] by (simp add: add.assoc)

lemma unat_payload_length: "length p \<le> maxJournalPayload \<Longrightarrow> unat (of_nat (length p) :: u32) = length p"
  by (simp add: maxJournalPayload_def unsigned_of_nat take_bit_nat_eq_self)

lemma readRecordAt_frame:
  assumes "record_ok J i e" and "file = pre @ frame_of J i e @ post"
  shows "readRecordAt J file (length pre) =
    Inr (\<lparr>jr_RecordID = i, jr_Event = e, jr_EndOffset = length pre + length (frame_of J i e)\<rparr>,
         length pre + length (frame_of J i e))"
proof -
  obtain p where p: "decodeJournalRecord J p = Inr (i, e)"
      "frame_of J i e = makeFrame p" "0 < length p" "length p \<le> maxJournalPayload"
    using record_ok_frame [OF assms(1)] by metis
  define l where "l = PutUint32 (of_nat (length p))"
  define c where "c = PutUint32 (crc32c p)"
  have parts: "file = pre @ l @ p @ c @ post" by (simp add: assms(2) p(2) makeFrame_def l_def c_def)
  have len: "unat (Uint32 l) = length p" using unat_payload_length [OF p(4)] by (simp add: l_def)
  have "length l = 4" "length c = 4" by (simp_all add: l_def c_def)
  then have "read_at file (length pre) 4 = Some l" "read_at file (length pre + 4) (length p) = Some p"
      "read_at file (length pre + 4 + length p) 4 = Some c"
    unfolding parts by (simp_all add: read_at_split2 read_at_split3)
  then show ?thesis
    using p len by (simp add: readRecordAt_def Let_def c_def)
qed

primrec log_bytes :: "wire_record json \<Rightarrow> u64 \<Rightarrow> event list \<Rightarrow> u8 list" where
  "log_bytes J i [] = []"
| "log_bytes J i (e # es) = frame_of J i e @ log_bytes J (i + 1) es"

primrec log_records :: "wire_record json \<Rightarrow> nat \<Rightarrow> u64 \<Rightarrow> event list \<Rightarrow> journal_record list" where
  "log_records J off i [] = []"
| "log_records J off i (e # es) =
     \<lparr>jr_RecordID = i, jr_Event = e, jr_EndOffset = off + length (frame_of J i e)\<rparr> #
     log_records J (off + length (frame_of J i e)) (i + 1) es"

primrec log_ok :: "wire_record json \<Rightarrow> u64 \<Rightarrow> event list \<Rightarrow> bool" where
  "log_ok J i [] = True"
| "log_ok J i (e # es) = (record_ok J i e \<and> log_ok J (i + 1) es)"

lemma log_append:
  "log_bytes J i (es @ fs) = log_bytes J i es @ log_bytes J (i + of_nat (length es)) fs"
  "log_records J off i (es @ fs) = log_records J off i es @
     log_records J (off + length (log_bytes J i es)) (i + of_nat (length es)) fs"
  "log_ok J i (es @ fs) \<longleftrightarrow> log_ok J i es \<and> log_ok J (i + of_nat (length es)) fs"
  by (induction es arbitrary: i off) (simp_all add: add_ac)

lemma length_log_records [simp]: "length (log_records J off i es) = length es"
  by (induction es arbitrary: i off) simp_all

lemma log_records_events [simp]: "map jr_Event (log_records J off i es) = es"
  by (induction es arbitrary: i off) simp_all

text \<open>What the scan has collected after some records.\<close>

primrec scanned :: "journal_record list \<Rightarrow> journal \<Rightarrow> journal" where
  "scanned [] j = j"
| "scanned (r # rs) j = scanned rs (j\<lparr>jn_recordEnds := jn_recordEnds j @ [jr_EndOffset r],
     jn_lastRecordID := jr_RecordID r, jn_endOffset := jr_EndOffset r\<rparr>)"

lemma scanned_fields:
  "jn_journalID (scanned rs j) = jn_journalID j" "jn_closed (scanned rs j) = jn_closed j"
  "jn_recordEnds (scanned rs j) = jn_recordEnds j @ map jr_EndOffset rs"
  "jn_lastRecordID (scanned rs j) = (if rs = [] then jn_lastRecordID j else jr_RecordID (last rs))"
  "jn_endOffset (scanned rs j) = (if rs = [] then jn_endOffset j else jr_EndOffset (last rs))"
  by (induction rs arbitrary: j) auto

lemma log_records_last:
  "es \<noteq> [] \<Longrightarrow> jr_RecordID (last (log_records J off i es)) = i + of_nat (length es) - 1 \<and>
     jr_EndOffset (last (log_records J off i es)) = off + length (log_bytes J i es)"
  by (cases es rule: rev_cases) (simp_all add: log_append)

lemma frame_len_bytes:
  assumes "record_ok J i e" and "prefix tail (frame_of J i e)" and "4 \<le> length tail"
  obtains p where "frame_of J i e = makeFrame p" "take 4 tail = PutUint32 (of_nat (length p))"
    "0 < length p" "length p \<le> maxJournalPayload"
proof -
  obtain p where p: "frame_of J i e = makeFrame p" "0 < length p" "length p \<le> maxJournalPayload"
    using record_ok_frame [OF assms(1)] by metis
  have "take 4 tail = take 4 (makeFrame p)"
    using assms(2,3) unfolding p(1) by (auto simp: prefix_def)
  also have "\<dots> = PutUint32 (of_nat (length p))" by (simp add: makeFrame_def)
  finally show ?thesis using that p by blast
qed

lemma scan_frame:
  assumes "record_ok J i e"
  shows "scanFrames J f (pre @ frame_of J i e @ post) (length pre) i j =
    scanFrames J f (pre @ frame_of J i e @ post) (length pre + length (frame_of J i e)) (i + 1)
      (scanned (log_records J (length pre) i [e]) j)"
proof -
  define disk where "disk = pre @ frame_of J i e @ post"
  obtain p where p: "frame_of J i e = makeFrame p" "0 < length p" "length p \<le> maxJournalPayload"
    using record_ok_frame [OF assms] by metis
  have read: "read_at disk (length pre) 4 = Some (PutUint32 (of_nat (length p)))"
    using read_at_split [of "PutUint32 (of_nat (length p))" 4 pre "p @ PutUint32 (crc32c p) @ post"]
    by (simp add: disk_def p(1) makeFrame_def)
  have len: "length disk = length pre + length p + 8 + length post" by (simp add: disk_def p(1))
  note rec = readRecordAt_frame [OF assms disk_def]
  show ?thesis
    unfolding disk_def [symmetric] scanFrames.simps [of J f disk "length pre"]
    using read len rec p unat_payload_length [OF p(3)] by (simp add: Let_def add_ac)
qed

lemma scan_log:
  "log_ok J i es \<Longrightarrow> scanFrames J f (pre @ log_bytes J i es @ tail) (length pre) i j =
     scanFrames J f (pre @ log_bytes J i es @ tail) (length pre + length (log_bytes J i es)) (i + of_nat (length es))
       (scanned (log_records J (length pre) i es) j)"
proof (induction es arbitrary: pre i j)
  case (Cons e es)
  have "record_ok J i e" using Cons.prems by simp
  from scan_frame [OF this, of f pre "log_bytes J (i + 1) es @ tail" j]
    Cons.IH [of "i + 1" "pre @ frame_of J i e" "scanned (log_records J (length pre) i [e]) j"] Cons.prems
  show ?case by (simp add: add_ac)
qed simp

text \<open>A torn tail, a proper prefix of a frame, is cut off.\<close>

lemma scan_torn:
  assumes "record_ok J i e" and "prefix tail (frame_of J i e)" and "tail \<noteq> []" and "tail \<noteq> frame_of J i e"
  shows "scanFrames J f (pre @ tail) (length pre) i j = repairTornTail f (length pre) j (pre @ tail)"
proof (cases "length tail < 4")
  case True
  with assms(3) show ?thesis by (subst scanFrames.simps) simp
next
  case False
  then obtain p where p: "frame_of J i e = makeFrame p" "take 4 tail = PutUint32 (of_nat (length p))"
    "0 < length p" "length p \<le> maxJournalPayload"
    using frame_len_bytes [OF assms(1,2)] by (metis not_le)
  have "length tail < length p + 8"
    using assms(2,4) unfolding p(1) by (metis length_makeFrame prefix_length_less strict_prefixI)
  moreover have "read_at (pre @ tail) (length pre) 4 = Some (PutUint32 (of_nat (length p)))"
    using False p(2) by (simp add: read_at_def)
  ultimately show ?thesis
    using False p(3,4) unat_payload_length [OF p(4)] assms(3) by (subst scanFrames.simps) (simp add: Let_def)
qed

section \<open>The journal and its file\<close>

text \<open>
  The journal \<open>j\<close> has acknowledged the events \<open>es\<close>; the file is the header, their frames and at
  most a part of one more frame, of an event of \<open>attempted\<close>.
\<close>

definition journal_header :: "u8 list \<Rightarrow> u8 list" where
  "journal_header i = journalMagic @ i"

definition journal_inv ::
  "wire_record json \<Rightarrow> u8 list \<Rightarrow> event set \<Rightarrow> event list \<Rightarrow> journal \<Rightarrow> u8 list \<Rightarrow> bool" where
  "journal_inv J i attempted es j disk =
     (length i = journalIDSize \<and> jn_journalID j = i \<and> unat (jn_lastRecordID j) = length es \<and>
      log_ok J 1 es \<and>
      jn_endOffset j = journalHeaderSize + length (log_bytes J 1 es) \<and>
      jn_recordEnds j = map jr_EndOffset (log_records J journalHeaderSize 1 es) \<and>
      (\<exists>tail. disk = journal_header i @ log_bytes J 1 es @ tail \<and>
         (tail = [] \<or> (\<exists>e \<in> attempted. jn_lastRecordID j \<noteq> - 1 \<and>
            record_ok J (jn_lastRecordID j + 1) e \<and> prefix tail (frame_of J (jn_lastRecordID j + 1) e)))))"

lemma length_journal_header [simp]: "length i = journalIDSize \<Longrightarrow> length (journal_header i) = journalHeaderSize"
  by (simp add: journal_header_def journalHeaderSize_def)

lemma write_at_end: "length file = off \<Longrightarrow> write_at file off bs = file @ bs"
  by (simp add: write_at_def)

lemma of_nat_unat_eq: "unat (w :: u64) = n \<Longrightarrow> of_nat n = w"
  by auto

lemma unat_succ: "w \<noteq> (- 1 :: u64) \<Longrightarrow> unat (w + 1) = unat w + 1"
  using unatSuc [of w] by (auto simp: add.commute eq_neg_iff_add_eq_0)

lemma succ_not_zero: "w \<noteq> (- 1 :: u64) \<Longrightarrow> w + 1 \<noteq> 0"
  by (simp add: eq_neg_iff_add_eq_0)

text \<open>The outcomes of an append: nothing, a part of the frame, or the record.\<close>

lemma Append_cases:
  assumes "journal_Append J f e j disk = (r, j', disk')"
  obtains (same) err where "r = Inl err" "j' = j" "disk' = disk"
  | (cut) err where "r = Inl err" "j' = j" "jn_endOffset j \<le> length disk" "disk' = take (jn_endOffset j) disk"
  | (written) err p k where "r = Inl err" "j' = j" "jn_endOffset j \<le> length disk" "validateJournalEvent e = None"
      "jn_lastRecordID j \<noteq> - 1" "encodeJournalRecord J (jn_lastRecordID j + 1) e = Inr p"
      "disk' = write_at (take (jn_endOffset j) disk) (jn_endOffset j) (take k (makeFrame p))"
  | (stored) p where "jn_endOffset j \<le> length disk" "validateJournalEvent e = None"
      "jn_lastRecordID j \<noteq> - 1" "encodeJournalRecord J (jn_lastRecordID j + 1) e = Inr p"
      "r = Inr \<lparr>jr_RecordID = jn_lastRecordID j + 1, jr_Event = e,
         jr_EndOffset = jn_endOffset j + length (makeFrame p)\<rparr>"
      "j' = j\<lparr>jn_lastRecordID := jn_lastRecordID j + 1, jn_endOffset := jn_endOffset j + length (makeFrame p),
         jn_recordEnds := jn_recordEnds j @ [jn_endOffset j + length (makeFrame p)]\<rparr>"
      "disk' = write_at (take (jn_endOffset j) disk) (jn_endOffset j) (makeFrame p)"
proof (cases "validateJournalEvent e \<noteq> None \<or> jn_closed j \<or> jn_lastRecordID j = - 1 \<or> af_stat f \<or>
    length disk < jn_endOffset j \<or> (length disk > jn_endOffset j \<and> af_truncate f)")
  case True
  then have "disk' = disk" "j' = j" "isl r"
    using assms by (auto simp: journal_Append_def split: option.splits if_splits)
  then show ?thesis using same by (cases r) simp_all
next
  case False
  define disk1 where "disk1 = (if length disk > jn_endOffset j then take (jn_endOffset j) disk else disk)"
  have d1: "disk1 = take (jn_endOffset j) disk" using False by (auto simp: disk1_def)
  have le: "jn_endOffset j \<le> length disk" and ok: "validateJournalEvent e = None" "jn_lastRecordID j \<noteq> - 1"
    using False by auto
  have run: "journal_Append J f e j disk =
      (case encodeJournalRecord J (jn_lastRecordID j + 1) e of
         Inl err \<Rightarrow> (Inl err, j, disk1)
       | Inr payload \<Rightarrow> appendFrame f (jn_lastRecordID j + 1) e (makeFrame payload) j disk1)"
    using False unfolding journal_Append_def disk1_def Let_def by simp
  show ?thesis
  proof (cases "encodeJournalRecord J (jn_lastRecordID j + 1) e")
    case (Inl err)
    with run assms cut le d1 show ?thesis by simp
  next
    case (Inr p)
    with run assms have ap: "appendFrame f (jn_lastRecordID j + 1) e (makeFrame p) j disk1 = (r, j', disk')" by simp
    show ?thesis
    proof (cases "isl r")
      case True
      then obtain err where err: "r = Inl err" by (cases r) auto
      with ap obtain k where "j' = j" "disk' = write_at disk1 (jn_endOffset j) (take k (makeFrame p))"
        by (auto simp: appendFrame_def Let_def split: write_outcome.splits if_splits) (metis take_all order_refl length_makeFrame)+
      with err written le ok Inr show ?thesis by (simp add: d1)
    next
      case False
      with ap have "r = Inr \<lparr>jr_RecordID = jn_lastRecordID j + 1, jr_Event = e,
           jr_EndOffset = jn_endOffset j + length (makeFrame p)\<rparr> \<and>
        j' = j\<lparr>jn_lastRecordID := jn_lastRecordID j + 1, jn_endOffset := jn_endOffset j + length (makeFrame p),
           jn_recordEnds := jn_recordEnds j @ [jn_endOffset j + length (makeFrame p)]\<rparr> \<and>
        disk' = write_at disk1 (jn_endOffset j) (makeFrame p)"
        by (auto simp: appendFrame_def Let_def min_def split: write_outcome.splits if_splits)
      with stored le ok Inr show ?thesis by (simp add: d1)
    qed
  qed
qed

lemma journal_inv_base:
  assumes "journal_inv J i attempted es j disk"
  shows "take (jn_endOffset j) disk = journal_header i @ log_bytes J 1 es"
    "length (journal_header i @ log_bytes J 1 es) = jn_endOffset j"
    "1 + of_nat (length es) = jn_lastRecordID j + 1"
proof -
  obtain tail where t: "disk = journal_header i @ log_bytes J 1 es @ tail" "length i = journalIDSize"
      "jn_endOffset j = journalHeaderSize + length (log_bytes J 1 es)" "unat (jn_lastRecordID j) = length es"
    using assms unfolding journal_inv_def by blast
  show "length (journal_header i @ log_bytes J 1 es) = jn_endOffset j" using t(2,3) by simp
  then show "take (jn_endOffset j) disk = journal_header i @ log_bytes J 1 es"
    unfolding t(1) by (metis append.assoc append_eq_conv_conj)
  show "1 + of_nat (length es) = jn_lastRecordID j + 1"
    using of_nat_unat_eq [OF t(4)] by simp
qed

lemma journal_inv_tail:
  assumes "journal_inv J i attempted es j disk"
    and "tail = [] \<or> (\<exists>e \<in> attempted. jn_lastRecordID j \<noteq> - 1 \<and>
      record_ok J (jn_lastRecordID j + 1) e \<and> prefix tail (frame_of J (jn_lastRecordID j + 1) e))"
  shows "journal_inv J i attempted es j (journal_header i @ log_bytes J 1 es @ tail)"
  using assms unfolding journal_inv_def by blast

lemma Append_inv:
  assumes "journal_inv J i attempted es j disk" and "json_faithful ok J" and "\<And>n. ok (event_record n e)"
    and "e \<in> attempted" and "journal_Append J f e j disk = (r, j', disk')"
  shows "(\<exists>err. r = Inl err \<and> journal_inv J i attempted es j' disk') \<or>
    (\<exists>rec. r = Inr rec \<and> log_records J journalHeaderSize 1 (es @ [e]) = log_records J journalHeaderSize 1 es @ [rec] \<and>
       journal_inv J i attempted (es @ [e]) j' disk')"
  using assms(5)
proof (cases rule: Append_cases)
  case (same err)
  with assms(1) show ?thesis by simp
next
  case (cut err)
  with journal_inv_tail [OF assms(1), of "[]"] journal_inv_base(1) [OF assms(1)] show ?thesis by simp
next
  case (written err p k)
  have rok: "record_ok J (jn_lastRecordID j + 1) e"
    by (rule record_okI [OF assms(2,3) written(6,4)]) (rule succ_not_zero [OF written(5)])
  have fr: "frame_of J (jn_lastRecordID j + 1) e = makeFrame p" by (simp add: frame_of_def written(6))
  have "disk' = journal_header i @ log_bytes J 1 es @ take k (makeFrame p)"
    unfolding written(7) journal_inv_base(1) [OF assms(1)]
    by (subst write_at_end [OF journal_inv_base(2) [OF assms(1)]]) simp
  moreover have "prefix (take k (makeFrame p)) (frame_of J (jn_lastRecordID j + 1) e)"
    by (simp add: fr take_is_prefix)
  then have "journal_inv J i attempted es j (journal_header i @ log_bytes J 1 es @ take k (makeFrame p))"
    using journal_inv_tail [OF assms(1)] rok written(5) assms(4) by blast
  ultimately show ?thesis using written(1,2) by simp
next
  case (stored p)
  have rok: "record_ok J (jn_lastRecordID j + 1) e"
    by (rule record_okI [OF assms(2,3) stored(4,2)]) (rule succ_not_zero [OF stored(3)])
  have fr: "frame_of J (jn_lastRecordID j + 1) e = makeFrame p" by (simp add: frame_of_def stored(4))
  note base = journal_inv_base [OF assms(1)]
  have nxt: "1 + of_nat (length es) = jn_lastRecordID j + 1" by (rule base(3))
  have disk': "disk' = journal_header i @ log_bytes J 1 (es @ [e]) @ []"
    unfolding stored(7) base(1)
    by (subst write_at_end [OF base(2)]) (simp add: log_append nxt fr)
  have recs: "log_records J journalHeaderSize 1 (es @ [e]) = log_records J journalHeaderSize 1 es @
      [\<lparr>jr_RecordID = jn_lastRecordID j + 1, jr_Event = e, jr_EndOffset = jn_endOffset j + length (makeFrame p)\<rparr>]"
    using assms(1) by (simp add: log_append nxt fr journal_inv_def)
  have old: "length i = journalIDSize" "jn_journalID j = i" "unat (jn_lastRecordID j) = length es" "log_ok J 1 es"
      "jn_endOffset j = journalHeaderSize + length (log_bytes J 1 es)"
      "jn_recordEnds j = map jr_EndOffset (log_records J journalHeaderSize 1 es)"
    using assms(1) unfolding journal_inv_def by blast+
  have "journal_inv J i attempted (es @ [e]) j' disk'"
    unfolding journal_inv_def stored(6) disk'
    using old rok recs unat_succ [OF stored(3)] by (simp add: log_append nxt fr)
  with stored(5) recs show ?thesis by blast
qed

text \<open>A run of appends: the acknowledged records, the journal and the file.\<close>

fun journal_run ::
  "wire_record json \<Rightarrow> (append_faults \<times> event) list \<Rightarrow> journal \<Rightarrow> u8 list \<Rightarrow> journal_record list \<times> journal \<times> u8 list" where
  "journal_run J [] j disk = ([], j, disk)"
| "journal_run J ((f, e) # ops) j disk =
     (case journal_Append J f e j disk of
        (Inl _, j', disk') \<Rightarrow> journal_run J ops j' disk'
      | (Inr rec, j', disk') \<Rightarrow>
          (case journal_run J ops j' disk' of (acked, j'', disk'') \<Rightarrow> (rec # acked, j'', disk'')))"

lemma journal_run_inv:
  assumes "json_faithful ok J"
  shows "\<lbrakk>journal_inv J i attempted es j disk; \<forall>e \<in> snd ` set ops. e \<in> attempted \<and> (\<forall>n. ok (event_record n e));
     journal_run J ops j disk = (acked, j', disk')\<rbrakk> \<Longrightarrow>
     \<exists>es'. journal_inv J i attempted es' j' disk' \<and>
       log_records J journalHeaderSize 1 es' = log_records J journalHeaderSize 1 es @ acked"
proof (induction ops arbitrary: es j disk acked)
  case (Cons op ops)
  obtain f e where op: "op = (f, e)" by (cases op)
  obtain r j1 disk1 where ap: "journal_Append J f e j disk = (r, j1, disk1)"
    by (cases "journal_Append J f e j disk")
  have e: "e \<in> attempted" "\<And>n. ok (event_record n e)" using Cons.prems(2) by (auto simp: op)
  have rest: "\<forall>e \<in> snd ` set ops. e \<in> attempted \<and> (\<forall>n. ok (event_record n e))" using Cons.prems(2) by auto
  from Append_inv [OF Cons.prems(1) assms e(2) e(1) ap] show ?case
  proof
    assume "\<exists>err. r = Inl err \<and> journal_inv J i attempted es j1 disk1"
    then obtain err where r: "r = Inl err" "journal_inv J i attempted es j1 disk1" by blast
    have "journal_run J ops j1 disk1 = (acked, j', disk')" using Cons.prems(3) by (simp add: op ap r(1))
    from Cons.IH [OF r(2) rest this] show ?thesis .
  next
    assume "\<exists>rec. r = Inr rec \<and> log_records J journalHeaderSize 1 (es @ [e]) = log_records J journalHeaderSize 1 es @ [rec] \<and>
       journal_inv J i attempted (es @ [e]) j1 disk1"
    then obtain rec where r: "r = Inr rec" "journal_inv J i attempted (es @ [e]) j1 disk1"
        "log_records J journalHeaderSize 1 (es @ [e]) = log_records J journalHeaderSize 1 es @ [rec]" by blast
    obtain acked' where run: "journal_run J ops j1 disk1 = (acked', j', disk')" and acked: "acked = rec # acked'"
      using Cons.prems(3) by (auto simp: op ap r(1) split: prod.splits)
    from Cons.IH [OF r(2) rest run] show ?thesis by (simp add: r(3) acked)
  qed
qed auto


section \<open>Recovery\<close>

definition no_open_faults :: open_faults where
  "no_open_faults = \<lparr>of_stat = False, of_rand = False, of_write = None, of_sync = False, of_read = False,
     of_repair = \<lparr>rf_truncate = False, rf_sync = False\<rparr>\<rparr>"

lemma log_take_nth:
  "k < length es \<Longrightarrow> jr_EndOffset (log_records J off i es ! k) = off + length (log_bytes J i (take (Suc k) es))"
proof (induction es arbitrary: off i k)
  case (Cons e es)
  then show ?case by (cases k) simp_all
qed simp

lemma log_nth_id: "k < length es \<Longrightarrow> jr_RecordID (log_records J off i es ! k) = i + of_nat k"
proof (induction es arbitrary: off i k)
  case (Cons e es)
  then show ?case by (cases k) (simp_all add: add_ac)
qed simp

lemma log_drop:
  "k \<le> length es \<Longrightarrow> drop k (log_records J off i es) =
     log_records J (off + length (log_bytes J i (take k es))) (i + of_nat k) (drop k es)"
proof -
  assume k: "k \<le> length es"
  then have "length (take k es) = k" by simp
  with log_append(2) [of J off i "take k es" "drop k es"] k show ?thesis
    by (metis append_eq_conv_conj append_take_drop_id length_log_records)
qed

lemma readRecords_log:
  "\<lbrakk>log_ok J i es; n \<le> length es\<rbrakk> \<Longrightarrow> readRecords J (pre @ log_bytes J i es @ tail) n (length pre) i =
     Inr (take n (log_records J (length pre) i es))"
proof (induction n arbitrary: pre i es)
  case (Suc n)
  then obtain e rest where es: "es = e # rest" by (cases es) auto
  have ok: "record_ok J i e" "log_ok J (i + 1) rest" and n: "n \<le> length rest" using Suc.prems by (simp_all add: es)
  note rec = readRecordAt_frame [OF ok(1) refl, of pre "log_bytes J (i + 1) rest @ tail"]
  from Suc.IH [OF ok(2) n, of "pre @ frame_of J i e"] rec show ?case by (simp add: es)
qed simp

text \<open>Reading from a checkpoint that the journal accepts gives the records after it.\<close>

lemma RecordsAfter_log:
  assumes inv: "journal_inv J i attempted es j disk" and "\<not> jn_closed j" and valid: "validateCheckpoint c j = None"
  shows "RecordsAfter J c limit j disk = Inr (
     let rest = drop (unat (cp_RecordID c)) (log_records J journalHeaderSize 1 es)
     in if limit > 0 then take (nat limit) rest else rest)"
proof -
  define k where "k = unat (cp_RecordID c)"
  obtain tail where i: "length i = journalIDSize" "unat (jn_lastRecordID j) = length es" "log_ok J 1 es"
      "jn_recordEnds j = map jr_EndOffset (log_records J journalHeaderSize 1 es)"
      "disk = journal_header i @ log_bytes J 1 es @ tail"
    using inv unfolding journal_inv_def by blast
  have le: "cp_RecordID c \<le> jn_lastRecordID j"
    using valid by (auto simp: validateCheckpoint_def split: if_splits)
  then have k: "k \<le> length es" using i(2) by (simp add: k_def word_le_nat_alt)
  have kc: "of_nat k = cp_RecordID c" by (simp add: k_def)
  have off: "cp_Offset c = length (journal_header i @ log_bytes J 1 (take k es))"
  proof (cases "k = 0")
    case True
    then have "cp_RecordID c = 0" by (simp add: k_def unat_eq_0)
    with valid True i(1) show ?thesis by (simp add: validateCheckpoint_def Let_def split: if_splits)
  next
    case False
    then have "0 < cp_RecordID c" by (simp add: k_def word_less_nat_alt)
    with valid False k i(1,4) log_take_nth [of "k - 1" es J journalHeaderSize 1] show ?thesis
      by (simp add: validateCheckpoint_def Let_def k_def [symmetric] split: if_splits)
  qed
  have left: "unat (jn_lastRecordID j - cp_RecordID c) = length es - k"
    using le i(2) by (simp add: unat_sub k_def)
  have eq: "cp_RecordID c = jn_lastRecordID j \<longleftrightarrow> k = length es"
    using i(2) by (simp add: k_def word_unat_eq_iff)
  have parts: "disk = (journal_header i @ log_bytes J 1 (take k es)) @ log_bytes J (1 + of_nat k) (drop k es) @ tail"
    using log_append(1) [of J 1 "take k es" "drop k es"] k by (simp add: i(5) min_absorb2)
  have lok: "log_ok J (1 + of_nat k) (drop k es)"
    using log_append(3) [of J 1 "take k es" "drop k es"] k i(3) by (simp add: min_absorb2)
  have rd: "readRecords J disk n (cp_Offset c) (cp_RecordID c + 1) =
      Inr (take n (drop k (log_records J journalHeaderSize 1 es)))" if "n \<le> length es - k" for n
    using readRecords_log [OF lok, of n "journal_header i @ log_bytes J 1 (take k es)" tail] that k i(1)
    unfolding parts [symmetric] off [symmetric] by (simp add: log_drop off kc [symmetric] add.commute)
  show ?thesis
    using assms(2) valid rd by (simp add: RecordsAfter_def Let_def left eq k_def [symmetric])
qed


text \<open>The journal a scan builds for the events \<open>es\<close>.\<close>

lemma scanned_inv:
  assumes "length i = journalIDSize" and "log_ok J 1 es" and "length es \<le> unat (- 1 :: u64)"
  defines "j \<equiv> scanned (log_records J journalHeaderSize 1 es)
     \<lparr>jn_journalID = i, jn_lastRecordID = 0, jn_endOffset = 0, jn_recordEnds = [], jn_repairedTail = False, jn_closed = False\<rparr>"
  shows "journal_inv J i attempted es (j\<lparr>jn_endOffset := journalHeaderSize + length (log_bytes J 1 es), jn_repairedTail := r\<rparr>)
      (journal_header i @ log_bytes J 1 es)" and "\<not> jn_closed j"
    and "es \<noteq> [] \<Longrightarrow> jn_endOffset j = journalHeaderSize + length (log_bytes J 1 es)"
    and "es = [] \<Longrightarrow> jn_endOffset j = 0" and "jn_repairedTail j = False"
proof -
  let ?rs = "log_records J journalHeaderSize 1 es"
  have empty: "?rs = [] \<longleftrightarrow> es = []" by (metis length_0_conv length_log_records)
  have rep: "jn_repairedTail (scanned rs k) = jn_repairedTail k" for rs k
    by (induction rs arbitrary: k) auto
  show "jn_repairedTail j = False" by (simp add: j_def rep)
  show "\<not> jn_closed j" by (simp add: j_def scanned_fields)
  show "es \<noteq> [] \<Longrightarrow> jn_endOffset j = journalHeaderSize + length (log_bytes J 1 es)"
    by (simp add: j_def scanned_fields empty log_records_last)
  show "es = [] \<Longrightarrow> jn_endOffset j = 0" by (simp add: j_def)
  have "unat (of_nat (length es) :: u64) = length es"
    using assms(3) by (simp add: unsigned_of_nat take_bit_nat_eq_self unsigned_minus_1_eq_mask mask_eq_exp_minus_1)
  then have "unat (jn_lastRecordID j) = length es"
    by (simp add: j_def scanned_fields empty log_records_last)
  then show "journal_inv J i attempted es (j\<lparr>jn_endOffset := journalHeaderSize + length (log_bytes J 1 es), jn_repairedTail := r\<rparr>)
      (journal_header i @ log_bytes J 1 es)"
    using assms(1,2) by (simp add: journal_inv_def j_def scanned_fields)
qed

text \<open>Opening the file again after any run, with no faults this time.\<close>

lemma open_scan:
  assumes "length i = journalIDSize" and "\<not> list_all (\<lambda>b. b = 0) i"
  shows "openOrInitialize J no_open_faults drawn (journal_header i @ rest) =
    scanFrames J \<lparr>rf_truncate = False, rf_sync = False\<rparr> (journal_header i @ rest) journalHeaderSize 1
      \<lparr>jn_journalID = i, jn_lastRecordID = 0, jn_endOffset = 0, jn_recordEnds = [], jn_repairedTail = False, jn_closed = False\<rparr>"
proof -
  define disk where "disk = journal_header i @ rest"
  have "0 < journalHeaderSize" by (simp add: journalHeaderSize_def journalIDSize_def)
  then have "length disk \<noteq> 0" "\<not> length disk < journalHeaderSize" using assms(1) by (simp_all add: disk_def)
  moreover have "take journalHeaderSize disk = journal_header i" using assms(1) by (simp add: disk_def)
  moreover have "take (length journalMagic) (journal_header i) = journalMagic"
      "drop (length journalMagic) (journal_header i) = i" by (simp_all add: journal_header_def)
  ultimately show ?thesis
    using assms(2) unfolding disk_def [symmetric] by (simp add: openOrInitialize_def no_open_faults_def Let_def)
qed

lemma reopen:
  assumes inv: "journal_inv J i attempted es j disk" and "\<not> list_all (\<lambda>b. b = 0) i"
  obtains es' j' disk' where "openOrInitialize J no_open_faults drawn disk = (Inr j', disk')"
    "journal_inv J i attempted es' j' disk'" "\<not> jn_closed j'" "es' = es \<or> (\<exists>e \<in> attempted. es' = es @ [e])"
proof -
  obtain tail where i: "length i = journalIDSize" "unat (jn_lastRecordID j) = length es" "log_ok J 1 es"
      "disk = journal_header i @ log_bytes J 1 es @ tail"
      and t: "tail = [] \<or> (\<exists>e \<in> attempted. jn_lastRecordID j \<noteq> - 1 \<and>
         record_ok J (jn_lastRecordID j + 1) e \<and> prefix tail (frame_of J (jn_lastRecordID j + 1) e))"
    using inv unfolding journal_inv_def by blast
  define j0 where "j0 = \<lparr>jn_journalID = i, jn_lastRecordID = 0, jn_endOffset = 0, jn_recordEnds = [],
    jn_repairedTail = False, jn_closed = False\<rparr>"
  define pre where "pre = journal_header i @ log_bytes J 1 es"
  let ?f = "\<lparr>rf_truncate = False, rf_sync = False\<rparr>"
  have pos: "0 < journalHeaderSize" by (simp add: journalHeaderSize_def journalIDSize_def)
  have "openOrInitialize J no_open_faults drawn disk = scanFrames J ?f disk journalHeaderSize 1 j0"
    unfolding i(4) j0_def by (rule open_scan [OF i(1) assms(2)])
  also have "\<dots> = scanFrames J ?f disk (length pre) (1 + of_nat (length es))
      (scanned (log_records J journalHeaderSize 1 es) j0)"
    using scan_log [OF i(3), of ?f "journal_header i" tail j0] i(1) by (simp add: i(4) pre_def)
  finally have opened: "openOrInitialize J no_open_faults drawn disk =
      scanFrames J ?f disk (length pre) (1 + of_nat (length es)) (scanned (log_records J journalHeaderSize 1 es) j0)" .
  have disk: "disk = pre @ tail" by (simp add: i(4) pre_def)
  have nxt: "1 + of_nat (length es) = jn_lastRecordID j + 1" using of_nat_unat_eq [OF i(2)] by simp
  have small: "length es \<le> unat (- 1 :: u64)"
    using i(2) by (metis word_le_nat_alt word_n1_ge)
  have lenpre: "length pre = journalHeaderSize + length (log_bytes J 1 es)" using i(1) by (simp add: pre_def)
  note base = scanned_inv [OF i(1,3) small, folded j0_def pre_def]
  consider (clean) "tail = []"
    | (torn) e where "tail \<noteq> []" "e \<in> attempted" "record_ok J (jn_lastRecordID j + 1) e"
        "prefix tail (frame_of J (jn_lastRecordID j + 1) e)" "tail \<noteq> frame_of J (jn_lastRecordID j + 1) e"
    | (whole) e where "tail \<noteq> []" "e \<in> attempted" "jn_lastRecordID j \<noteq> - 1" "record_ok J (jn_lastRecordID j + 1) e"
        "tail = frame_of J (jn_lastRecordID j + 1) e"
    using t by blast
  then show ?thesis
  proof cases
    case clean
    define jj where "jj = scanned (log_records J journalHeaderSize 1 es) j0"
    define j' where "j' = jj\<lparr>jn_endOffset := length pre, jn_repairedTail := False\<rparr>"
    have "openOrInitialize J no_open_faults drawn disk = scanFrames J ?f pre (length pre) (1 + of_nat (length es)) jj"
      using opened by (simp only: disk clean append_Nil2 jj_def)
    also have "\<dots> = (Inr (if jn_endOffset jj = 0 then jj\<lparr>jn_endOffset := journalHeaderSize\<rparr> else jj), pre)"
      by (subst scanFrames.simps) simp
    also have "(if jn_endOffset jj = 0 then jj\<lparr>jn_endOffset := journalHeaderSize\<rparr> else jj) = j'"
      using base(3-5) lenpre pos unfolding jj_def [symmetric] j'_def by (cases "es = []") simp_all
    finally have op: "openOrInitialize J no_open_faults drawn disk = (Inr j', pre)" .
    from that [OF op] base(1) [of attempted False] base(2) lenpre show ?thesis by (simp add: j'_def jj_def)
  next
    case torn
    define jj where "jj = scanned (log_records J journalHeaderSize 1 es) j0"
    define j' where "j' = jj\<lparr>jn_endOffset := length pre, jn_repairedTail := True\<rparr>"
    have "openOrInitialize J no_open_faults drawn disk = (Inr j', pre)"
      using opened scan_torn [OF torn(3,4,1,5), of ?f pre jj]
      by (simp add: disk nxt repairTornTail_def j'_def jj_def)
    from that [OF this] base(1) [of attempted True] base(2) lenpre show ?thesis by (simp add: j'_def jj_def)
  next
    case (whole e)
    have ok': "log_ok J 1 (es @ [e])" using i(3) whole(4) by (simp add: log_append nxt)
    have small': "length (es @ [e]) \<le> unat (- 1 :: u64)"
      using unat_succ [OF whole(3)] i(2) by (metis length_append_singleton Suc_eq_plus1 word_le_nat_alt word_n1_ge)
    define pre' where "pre' = journal_header i @ log_bytes J 1 (es @ [e])"
    have disk': "disk = pre'" by (simp add: disk pre_def pre'_def log_append nxt whole(5))
    have lenpre': "length pre' = journalHeaderSize + length (log_bytes J 1 (es @ [e]))" using i(1) by (simp add: pre'_def)
    note base' = scanned_inv [OF i(1) ok' small', folded j0_def pre'_def]
    define j' where "j' = scanned (log_records J journalHeaderSize 1 (es @ [e])) j0"
    have "openOrInitialize J no_open_faults drawn disk = scanFrames J ?f disk journalHeaderSize 1 j0"
      unfolding i(4) j0_def by (rule open_scan [OF i(1) assms(2)])
    also have "\<dots> = scanFrames J ?f pre' (length pre') (1 + of_nat (length (es @ [e]))) j'"
      using scan_log [OF ok', of ?f "journal_header i" "[]" j0] i(1) by (simp add: disk' pre'_def j'_def)
    also have "\<dots> = (Inr j', pre')"
      using base'(3) lenpre' pos by (subst scanFrames.simps) (simp add: j'_def)
    finally have op: "openOrInitialize J no_open_faults drawn disk = (Inr j', pre')" .
    have "j' = j'\<lparr>jn_endOffset := length pre', jn_repairedTail := False\<rparr>"
      using base'(3,5) lenpre' by (simp add: j'_def)
    with that [OF op, of "es @ [e]"] base'(1) [of attempted False] base'(2) lenpre' whole(2) show ?thesis
      unfolding j'_def by metis
  qed
qed


lemma fresh_journal:
  assumes "openOrInitialize J f drawn [] = (Inr j0, disk0)" and "length drawn = journalIDSize"
  shows "journal_inv J drawn attempted [] j0 disk0" and "\<not> jn_closed j0"
  using assms
  by (auto simp: openOrInitialize_def Let_def journal_inv_def journal_header_def write_at_def split: if_splits option.splits)

lemma run_closed: "jn_closed (fst (snd (journal_run J ops j disk))) = jn_closed j"
proof (induction J ops j disk rule: journal_run.induct)
  case (2 J f e ops j disk)
  obtain r j1 disk1 where ap: "journal_Append J f e j disk = (r, j1, disk1)"
    by (cases "journal_Append J f e j disk")
  then have c: "jn_closed j1 = jn_closed j"
    by (cases rule: Append_cases) simp_all
  show ?case
    using 2(1) [OF ap [symmetric] _ refl] 2(2) [OF ap [symmetric] _ refl] c
    by (cases r) (auto simp: ap split: prod.splits)
qed simp

text \<open>
  The whole story of a journal, from an empty file through any appends and failures to the next
  opening: it holds the acknowledged records, then at most one that was never acknowledged.
\<close>

lemma recovered:
  assumes "json_faithful ok J" and "length drawn = journalIDSize" and "\<not> list_all (\<lambda>b. b = 0) drawn"
    and "openOrInitialize J f drawn [] = (Inr j0, disk0)"
    and "\<forall>e \<in> snd ` set ops. \<forall>n. ok (event_record n e)"
    and "journal_run J ops j0 disk0 = (acked, j, disk)"
  obtains j' disk' es es' where "openOrInitialize J no_open_faults other disk = (Inr j', disk')"
    "journal_inv J drawn (snd ` set ops) es j disk" "log_records J journalHeaderSize 1 es = acked"
    "journal_inv J drawn (snd ` set ops) es' j' disk'" "\<not> jn_closed j" "\<not> jn_closed j'"
    "es' = es \<or> (\<exists>e \<in> snd ` set ops. es' = es @ [e])"
proof -
  have fresh: "journal_inv J drawn (snd ` set ops) [] j0 disk0" "\<not> jn_closed j0"
    using fresh_journal [OF assms(4,2)] by simp_all
  have "\<forall>e \<in> snd ` set ops. e \<in> snd ` set ops \<and> (\<forall>n. ok (event_record n e))" using assms(5) by blast
  from journal_run_inv [OF assms(1) fresh(1) this assms(6)]
  obtain es where es: "journal_inv J drawn (snd ` set ops) es j disk" "log_records J journalHeaderSize 1 es = acked"
    by auto
  have "\<not> jn_closed j" using run_closed [of J ops j0 disk0] fresh(2) assms(6) by simp
  with reopen [OF es(1) assms(3), of other] es that show ?thesis by metis
qed

lemma log_records_extend:
  assumes "es' = es \<or> (\<exists>e \<in> A. es' = es @ [e])"
  obtains extra where "log_records J off i es' = log_records J off i es @ extra"
    "length extra \<le> 1" "jr_Event ` set extra \<subseteq> A"
  using assms by (auto simp: log_append intro: that [of "[]"])

text \<open>
  C7. An acknowledged death outcome is never lost. Start from an empty journal file and run any
  appends, where a write may fail or stop after any number of bytes and a truncation or sync may
  fail; then open the file again. Opening succeeds, cutting off a torn frame if there is one, and
  reading from the initial checkpoint gives exactly the acknowledged records in their order, at
  most followed by one whole record of an event that was tried and not acknowledged.
\<close>

theorem journal_recovers:
  assumes "json_faithful ok J" and "length drawn = journalIDSize" and "\<not> list_all (\<lambda>b. b = 0) drawn"
    and "openOrInitialize J f drawn [] = (Inr j0, disk0)"
    and "\<forall>e \<in> snd ` set ops. \<forall>n. ok (event_record n e)"
    and "journal_run J ops j0 disk0 = (acked, j, disk)"
  shows "\<exists>j' disk' extra. openOrInitialize J no_open_faults other disk = (Inr j', disk') \<and>
    RecordsAfter J (InitialCheckpoint j') 0 j' disk' = Inr (acked @ extra) \<and>
    length extra \<le> 1 \<and> jr_Event ` set extra \<subseteq> snd ` set ops"
proof -
  obtain j' disk' es es' where r: "openOrInitialize J no_open_faults other disk = (Inr j', disk')"
    "log_records J journalHeaderSize 1 es = acked" "journal_inv J drawn (snd ` set ops) es' j' disk'" "\<not> jn_closed j'"
    "es' = es \<or> (\<exists>e \<in> snd ` set ops. es' = es @ [e])"
    using recovered [OF assms] by metis
  obtain extra where extra: "log_records J journalHeaderSize 1 es' = acked @ extra" "length extra \<le> 1"
      "jr_Event ` set extra \<subseteq> snd ` set ops"
    using log_records_extend [OF r(5)] r(2) by metis
  have "validateCheckpoint (InitialCheckpoint j') j' = None"
    by (simp add: validateCheckpoint_def InitialCheckpoint_def)
  from RecordsAfter_log [OF r(3,4) this] extra r(1) show ?thesis
    by (simp add: InitialCheckpoint_def)
qed

lemma checkpoint_eta:
  "\<lparr>cp_JournalID = cp_JournalID c, cp_RecordID = cp_RecordID c, cp_Offset = cp_Offset c\<rparr> = (c :: checkpoint)"
  by simp

text \<open>The checkpoint that names a record, and the form in which it is marshalled.\<close>

definition checkpoint_at :: "u8 list \<Rightarrow> journal_record \<Rightarrow> checkpoint" where
  "checkpoint_at drawn r =
     \<lparr>cp_JournalID = EncodeToString drawn, cp_RecordID = jr_RecordID r, cp_Offset = jr_EndOffset r\<rparr>"

definition checkpoint_form :: "checkpoint \<Rightarrow> checkpoint_wire" where
  "checkpoint_form c =
     \<lparr>cw_SchemaVersion = checkpointSchemaVersion, cw_JournalID = cp_JournalID c, cw_RecordID = cp_RecordID c,
      cw_Offset = int (cp_Offset c)\<rparr>"

lemma checkpoint_Save_accepted:
  assumes "checkpointForRecord r j = Inr c" and "js_Marshal K (checkpoint_form c) = Some p"
  shows "checkpoint_Save K sf r j stored =
    (if sf_write sf then (Inl ErrIO, stored)
     else (if sf_syncDirectory sf then Inl ErrIO else Inr c, Some (p @ [0x0A])))"
  using assms by (simp add: checkpoint_Save_def checkpoint_form_def)

text \<open>
  C33. A consumer's checkpoint survives the restart. After the same history, saving the checkpoint
  of any acknowledged record is never refused: it succeeds unless its file cannot be written, which
  leaves the file as it was, or its directory cannot be synced, which comes after the file is replaced.
  Once the file is replaced, the reopened journal loads and accepts exactly that checkpoint, and reading
  from there gives exactly the records after that one: nothing is delivered twice, nothing is skipped.
  (\<open>json.Marshal\<close> is taken to encode the checkpoint, a struct of numbers and a string, and decoding to
  give it back.)
\<close>

theorem checkpoint_resumes:
  assumes "json_faithful ok J" and "length drawn = journalIDSize" and "\<not> list_all (\<lambda>b. b = 0) drawn"
    and "openOrInitialize J f drawn [] = (Inr j0, disk0)"
    and "\<forall>e \<in> snd ` set ops. \<forall>n. ok (event_record n e)"
    and "journal_run J ops j0 disk0 = (acked, j, disk)"
    and "\<And>w p. js_Marshal K w = Some p \<Longrightarrow> js_Decode K (p @ [0x0A]) = Some w"
    and "k < length acked"
    and "js_Marshal K (checkpoint_form (checkpoint_at drawn (acked ! k))) = Some p"
  shows "checkpoint_Save K sf (acked ! k) j stored =
      (if sf_write sf then (Inl ErrIO, stored)
       else (if sf_syncDirectory sf then Inl ErrIO else Inr (checkpoint_at drawn (acked ! k)), Some (p @ [0x0A]))) \<and>
    (\<exists>j' disk' extra. openOrInitialize J no_open_faults other disk = (Inr j', disk') \<and>
      (\<not> sf_write sf \<longrightarrow>
         checkpoint_Load K False j' (snd (checkpoint_Save K sf (acked ! k) j stored)) =
           Inr (checkpoint_at drawn (acked ! k))) \<and>
      RecordsAfter J (checkpoint_at drawn (acked ! k)) 0 j' disk' = Inr (drop (Suc k) acked @ extra) \<and>
      length extra \<le> 1 \<and> jr_Event ` set extra \<subseteq> snd ` set ops)"
proof -
  obtain j' disk' es es' where r: "openOrInitialize J no_open_faults other disk = (Inr j', disk')"
    "journal_inv J drawn (snd ` set ops) es j disk"
    "log_records J journalHeaderSize 1 es = acked" "journal_inv J drawn (snd ` set ops) es' j' disk'"
    "\<not> jn_closed j" "\<not> jn_closed j'" "es' = es \<or> (\<exists>e \<in> snd ` set ops. es' = es @ [e])"
    using recovered [OF assms(1-6)] by metis
  obtain extra where extra: "log_records J journalHeaderSize 1 es' = acked @ extra" "length extra \<le> 1"
      "jr_Event ` set extra \<subseteq> snd ` set ops"
    using log_records_extend [OF r(7)] r(3) by metis
  have j: "jn_journalID j = drawn" "unat (jn_lastRecordID j) = length acked" "jn_recordEnds j = map jr_EndOffset acked"
    using r(2) length_log_records [of J journalHeaderSize 1 es] unfolding journal_inv_def r(3) by simp_all
  have j': "jn_journalID j' = drawn" "unat (jn_lastRecordID j') = length (acked @ extra)"
      "jn_recordEnds j' = map jr_EndOffset (acked @ extra)"
    using r(4) length_log_records [of J journalHeaderSize 1 es'] unfolding journal_inv_def extra(1) by simp_all
  have "unat (jn_lastRecordID j) < 2 ^ 64" using unsigned_less [of "jn_lastRecordID j"] by simp
  then have small: "k < 2 ^ 64 - 1" using assms(8) j(2) by simp
  have len: "k < length es" using assms(8) r(3) by auto
  have id: "unat (jr_RecordID (acked ! k)) = Suc k"
    using small unfolding r(3) [symmetric] log_nth_id [OF len] by (simp add: unat_word_ariths unsigned_of_nat take_bit_nat_eq_self)
  have pos: "jr_RecordID (acked ! k) \<noteq> 0" using id by auto
  define c where "c = checkpoint_at drawn (acked ! k)"
  have c: "cp_JournalID c = EncodeToString drawn" "cp_RecordID c = jr_RecordID (acked ! k)"
      "cp_Offset c = jr_EndOffset (acked ! k)"
    by (simp_all add: c_def checkpoint_at_def)
  have "checkpointForRecord (acked ! k) j = Inr c"
    using assms(8) id pos r(5)
    by (simp add: checkpointForRecord_def c_def checkpoint_at_def j jn_journalIDHex_def Let_def word_less_nat_alt)
  from checkpoint_Save_accepted [OF this assms(9) [folded c_def]]
  have save: "checkpoint_Save K sf (acked ! k) j stored =
      (if sf_write sf then (Inl ErrIO, stored)
       else (if sf_syncDirectory sf then Inl ErrIO else Inr c, Some (p @ [0x0A])))" .
  have valid: "validateCheckpoint c j' = None"
    using assms(8) id pos by (simp add: c validateCheckpoint_def j' jn_journalIDHex_def Let_def nth_append
        word_less_nat_alt unat_gt_0)
  have "0 < cp_Offset c"
    using log_take_nth [OF len, of J journalHeaderSize 1] unfolding r(3)
    by (simp add: c journalHeaderSize_def journalIDSize_def)
  moreover have "cp_JournalID c \<noteq> []"
    using EncodeToString_ok(1) [of drawn] assms(2) by (auto simp: c journalIDSize_def)
  ultimately have "checkpoint_Load K False j' (Some (p @ [0x0A])) = Inr c"
    using assms(7) [OF assms(9)] valid
    by (simp add: checkpoint_Load_def checkpoint_form_def Let_def checkpoint_eta flip: c_def)
  then have load: "\<not> sf_write sf \<Longrightarrow> checkpoint_Load K False j' (snd (checkpoint_Save K sf (acked ! k) j stored)) = Inr c"
    by (simp add: save)
  have "RecordsAfter J c 0 j' disk' = Inr (drop (Suc k) acked @ extra)"
    using RecordsAfter_log [OF r(4,6) valid, of 0] extra r(1) id assms(8) by (simp add: c)
  with load save r(1) extra(2,3) show ?thesis unfolding c_def by blast
qed


section \<open>Witnesses\<close>

definition sample_death :: event where
  "sample_death = (sample_event 1)\<lparr>ev_EventID := 1\<rparr>"

text \<open>A codec for two records and a run with a torn write, a failed sync and two appends.\<close>

definition sample_codec :: "wire_record json" where
  "sample_codec =
     \<lparr>js_Marshal = (\<lambda>w. if w = event_record 1 sample_death then Some [1]
                        else if w = event_record 2 sample_death then Some [2] else None),
      js_Decode = (\<lambda>p. if p = [1] then Some (event_record 1 sample_death)
                       else if p = [2] then Some (event_record 2 sample_death) else None)\<rparr>"

definition sample_checkpoint_codec :: "checkpoint_wire json" where
  "sample_checkpoint_codec =
     (let w = \<lparr>cw_SchemaVersion = 1, cw_JournalID = EncodeToString (replicate 16 7), cw_RecordID = 1, cw_Offset = 60\<rparr>
      in \<lparr>js_Marshal = (\<lambda>x. if x = w then Some [9] else None), js_Decode = (\<lambda>p. if p = [9, 0x0A] then Some w else None)\<rparr>)"

definition sample_appends :: "(append_faults \<times> event) list" where
  "sample_appends =
     (let fine = \<lparr>af_stat = False, af_truncate = False, af_write = WriteAll, af_sync = False\<rparr>
      in [(fine\<lparr>af_write := WriteShort 5\<rparr>, sample_death), (fine, sample_death), (fine\<lparr>af_sync := True\<rparr>, sample_death)])"

definition sample_opened :: journal where
  "sample_opened = \<lparr>jn_journalID = replicate 16 7, jn_lastRecordID = 0, jn_endOffset = journalHeaderSize,
     jn_recordEnds = [], jn_repairedTail = False, jn_closed = False\<rparr>"

definition sample_fresh :: "u8 list" where
  "sample_fresh = journalMagic @ replicate 16 7"

lemma sample_codec_faithful: "json_faithful (\<lambda>_. True) sample_codec"
  by (auto simp: json_faithful_def sample_codec_def split: if_splits)

lemma sample_open: "openOrInitialize sample_codec no_open_faults (replicate 16 7) [] = (Inr sample_opened, sample_fresh)"
  by (simp add: openOrInitialize_def no_open_faults_def Let_def write_at_def sample_opened_def sample_fresh_def)

lemma sample_id: "length (replicate 16 (7 :: u8)) = journalIDSize" "\<not> list_all (\<lambda>b. b = 0) (replicate 16 (7 :: u8))"
  by (simp_all add: journalIDSize_def list_all_iff)

lemma sample_sizes: "journalHeaderSize = 51" "length sample_fresh = 51"
  by (simp_all add: journalHeaderSize_def sample_fresh_def journalMagic_def journalIDSize_def)

lemma sample_death_valid: "validateJournalEvent sample_death = None"
  by code_simp

lemma sample_encode:
  "encodeJournalRecord sample_codec 1 sample_death = Inr [1]" "encodeJournalRecord sample_codec 2 sample_death = Inr [2]"
  by (simp_all add: encodeJournalRecord_def sample_codec_def event_record_def maxJournalPayload_def)

lemma sample_acked:
  "fst (journal_run sample_codec sample_appends sample_opened sample_fresh) =
     [\<lparr>jr_RecordID = 1, jr_Event = sample_death, jr_EndOffset = 60\<rparr>]"
  by (simp add: sample_appends_def Let_def journal_Append_def appendFrame_def sample_death_valid sample_opened_def
      sample_sizes sample_encode write_at_def)

theorem journal_recovers_witness:
  "\<exists>j' disk' extra.
     openOrInitialize sample_codec no_open_faults []
       (snd (snd (journal_run sample_codec sample_appends sample_opened sample_fresh))) = (Inr j', disk') \<and>
     RecordsAfter sample_codec (InitialCheckpoint j') 0 j' disk' =
       Inr (\<lparr>jr_RecordID = 1, jr_Event = sample_death, jr_EndOffset = 60\<rparr> # extra) \<and> length extra \<le> 1"
  using journal_recovers [OF sample_codec_faithful sample_id sample_open, of sample_appends] sample_acked
  by (metis (no_types, lifting) append_Cons append_Nil prod.collapse)

theorem checkpoint_resumes_witness:
  "\<exists>j' disk' extra.
     checkpoint_Save sample_checkpoint_codec \<lparr>sf_write = False, sf_syncDirectory = False\<rparr>
       \<lparr>jr_RecordID = 1, jr_Event = sample_death, jr_EndOffset = 60\<rparr>
       (fst (snd (journal_run sample_codec sample_appends sample_opened sample_fresh))) None =
         (Inr \<lparr>cp_JournalID = EncodeToString (replicate 16 7), cp_RecordID = 1, cp_Offset = 60\<rparr>, Some [9, 0x0A]) \<and>
     openOrInitialize sample_codec no_open_faults []
       (snd (snd (journal_run sample_codec sample_appends sample_opened sample_fresh))) = (Inr j', disk') \<and>
     checkpoint_Load sample_checkpoint_codec False j' (Some [9, 0x0A]) =
       Inr \<lparr>cp_JournalID = EncodeToString (replicate 16 7), cp_RecordID = 1, cp_Offset = 60\<rparr> \<and>
     RecordsAfter sample_codec \<lparr>cp_JournalID = EncodeToString (replicate 16 7), cp_RecordID = 1, cp_Offset = 60\<rparr>
       0 j' disk' = Inr extra \<and> length extra \<le> 1"
proof -
  define j where "j = fst (snd (journal_run sample_codec sample_appends sample_opened sample_fresh))"
  define rec where "rec = \<lparr>jr_RecordID = 1, jr_Event = sample_death, jr_EndOffset = 60\<rparr>"
  have run: "journal_run sample_codec sample_appends sample_opened sample_fresh =
      ([rec], j, snd (snd (journal_run sample_codec sample_appends sample_opened sample_fresh)))"
    using sample_acked by (simp add: j_def rec_def prod_eq_iff)
  have codec: "js_Decode sample_checkpoint_codec (p @ [0x0A]) = Some w"
    if "js_Marshal sample_checkpoint_codec w = Some p" for w p
    using that by (auto simp: sample_checkpoint_codec_def Let_def split: if_splits)
  have marshal: "js_Marshal sample_checkpoint_codec (checkpoint_form (checkpoint_at (replicate 16 7) ([rec] ! 0))) = Some [9]"
    by (simp add: rec_def checkpoint_form_def checkpoint_at_def sample_checkpoint_codec_def Let_def
        checkpointSchemaVersion_def)
  let ?sf = "\<lparr>sf_write = False, sf_syncDirectory = False\<rparr>"
  let ?c = "\<lparr>cp_JournalID = EncodeToString (replicate 16 7), cp_RecordID = 1, cp_Offset = 60\<rparr> :: checkpoint"
  have at: "checkpoint_at (replicate 16 7) ([rec] ! 0) = ?c" by (simp add: rec_def checkpoint_at_def)
  have "(0 :: nat) < length [rec]" by simp
  from checkpoint_resumes [OF sample_codec_faithful sample_id sample_open _ run codec this marshal, of ?sf None "[]"]
  obtain j' disk' extra where save: "checkpoint_Save sample_checkpoint_codec ?sf ([rec] ! 0) j None = (Inr ?c, Some [9, 0x0A])"
    and r: "openOrInitialize sample_codec no_open_faults []
       (snd (snd (journal_run sample_codec sample_appends sample_opened sample_fresh))) = (Inr j', disk')"
      "checkpoint_Load sample_checkpoint_codec False j'
         (snd (checkpoint_Save sample_checkpoint_codec ?sf ([rec] ! 0) j None)) = Inr ?c"
      "RecordsAfter sample_codec ?c 0 j' disk' = Inr (drop (Suc 0) [rec] @ extra)" "length extra \<le> 1"
    unfolding at by auto
  have "checkpoint_Load sample_checkpoint_codec False j' (Some [9, 0x0A]) = Inr ?c" using r(2) unfolding save by simp
  with save r(1,3,4) show ?thesis unfolding j_def rec_def nth_Cons_0 drop_Suc_Cons drop_0 append_Nil by blast
qed


section \<open>A torn header\<close>

text \<open>
  A torn record is repaired, a torn header is not: when the first write of the header stops part way,
  no later opening of the file succeeds.
\<close>

theorem torn_header_refused:
  assumes "0 < k" and "k < journalHeaderSize" and "of_write f = Some k" and "\<not> of_stat f" and "\<not> of_rand f"
    and "openOrInitialize J f drawn [] = (r, disk)" and "length drawn = journalIDSize"
  shows "fst (openOrInitialize J no_open_faults other disk) = Inl ErrCorruptJournal"
proof -
  have "disk = take k (journalMagic @ drawn)"
    using assms(3-6) by (simp add: openOrInitialize_def Let_def write_at_def)
  moreover have "length (journalMagic @ drawn) = journalHeaderSize" using assms(7) by (simp add: journalHeaderSize_def)
  ultimately have "length disk = k" using assms(2) by simp
  then show ?thesis using assms(1,2) by (auto simp: openOrInitialize_def no_open_faults_def Let_def)
qed

end
