(* ===== verification/SiegeOwnership.thy ===== *)
theory SiegeOwnership
  imports SiegeMatch DeathJournal
begin

text \<open>
  The durable castle ownership (\<open>internal/siegeownership/store.go\<close>): one JSON record per world,
  replaced by a rename, with a compare-and-swap commit. The directory is a map from file names to
  bytes. \<open>encoding/json\<close>, \<open>sha256\<close> and what the operating system answers are arguments. The second
  half puts the store behind the match of \<^theory_text>\<open>SiegeMatch\<close>, as \<open>cmd/worldd\<close> does.
\<close>

section \<open>The store\<close>

definition ownership_SchemaVersion :: u16 where [go_defs]: "ownership_SchemaVersion = 1"

datatype ownership_error =
  ErrInvalidWorldID | ErrInvalidInitialOwner | ErrOwnershipUnavailable | ErrRevisionConflict
| ErrRevisionOverflow | ErrCorruptRecord | ErrTransferInvalid | ErrStoreIO | ErrPersistenceUnavailable

record own_wire =
  ow_SchemaVersion :: u16
  ow_WorldID :: string
  ow_Revision :: u64
  ow_OwnerID :: string
  ow_PreviousOwnerID :: string
  ow_LastTransferMatchID :: string

text \<open>What the store uses: the record codec and the hash that names the files.\<close>

record own_env =
  oe_json :: "own_wire json"
  oe_Sum256 :: "string \<Rightarrow> u8 list"

text \<open>
  The faults of one call: reading fails, something up to the rename fails (the old file stays),
  or only the last sync of the directory fails (the new file is there).
\<close>

record own_faults =
  fo_read :: bool
  fo_write :: bool
  fo_syncDirectory :: bool

type_synonym own_disk = "(string, u8 list) fmap"

definition recordPath :: "own_env \<Rightarrow> string \<Rightarrow> string" where
  "recordPath E worldID = EncodeToString (oe_Sum256 E worldID) @ ''.json''"

definition ownership_load ::
  "own_env \<Rightarrow> own_faults \<Rightarrow> string \<Rightarrow> own_disk \<Rightarrow> ownership_error + castle_ownership option" where
  "ownership_load E f worldID disk =
     (case fmlookup disk (recordPath E worldID) of
        None \<Rightarrow> Inr None
      | Some data \<Rightarrow>
          if fo_read f then Inl ErrStoreIO
          else case js_Decode (oe_json E) data of
            None \<Rightarrow> Inl ErrCorruptRecord
          | Some w \<Rightarrow>
              if ow_SchemaVersion w \<noteq> ownership_SchemaVersion \<or> ow_WorldID w \<noteq> worldID \<or> ow_Revision w = 0 \<or>
                 ow_OwnerID w = '''' \<or> (ow_PreviousOwnerID w = '''') \<noteq> (ow_LastTransferMatchID w = '''')
              then Inl ErrCorruptRecord
              else Inr (Some \<lparr>co_Revision = ow_Revision w, co_OwnerID = ow_OwnerID w,
                co_PreviousOwnerID = ow_PreviousOwnerID w, co_LastTransferMatchID = ow_LastTransferMatchID w\<rparr>))"

definition own_record :: "string \<Rightarrow> castle_ownership \<Rightarrow> own_wire" where
  "own_record worldID s =
     \<lparr>ow_SchemaVersion = ownership_SchemaVersion, ow_WorldID = worldID, ow_Revision = co_Revision s,
      ow_OwnerID = co_OwnerID s, ow_PreviousOwnerID = co_PreviousOwnerID s,
      ow_LastTransferMatchID = co_LastTransferMatchID s\<rparr>"

definition ownership_write ::
  "own_env \<Rightarrow> own_faults \<Rightarrow> string \<Rightarrow> castle_ownership \<Rightarrow> own_disk \<Rightarrow> ownership_error option \<times> own_disk" where
  "ownership_write E f worldID s disk =
     (case js_Marshal (oe_json E) (own_record worldID s) of
        None \<Rightarrow> (Some ErrStoreIO, disk)
      | Some data \<Rightarrow>
          if fo_write f then (Some ErrStoreIO, disk)
          else let disk' = fmupd (recordPath E worldID) (data @ [0x0A]) disk
               in (if fo_syncDirectory f then Some ErrStoreIO else None, disk'))"

definition ownership_Load ::
  "own_env \<Rightarrow> own_faults \<Rightarrow> string \<Rightarrow> own_disk \<Rightarrow> ownership_error + castle_ownership option" where
  "ownership_Load E f worldID disk =
     (if worldID = '''' then Inl ErrInvalidWorldID else ownership_load E f worldID disk)"

definition LoadOrCreate ::
  "own_env \<Rightarrow> own_faults \<Rightarrow> string \<Rightarrow> string \<Rightarrow> own_disk \<Rightarrow>
     (ownership_error + castle_ownership \<times> bool) \<times> own_disk" where
  "LoadOrCreate E f worldID initialOwnerID disk =
     (if worldID = '''' then (Inl ErrInvalidWorldID, disk)
      else if initialOwnerID = '''' then (Inl ErrInvalidInitialOwner, disk)
      else case ownership_load E f worldID disk of
             Inl e \<Rightarrow> (Inl e, disk)
           | Inr (Some current) \<Rightarrow> (Inr (current, False), disk)
           | Inr None \<Rightarrow>
               let initial = \<lparr>co_Revision = 1, co_OwnerID = initialOwnerID, co_PreviousOwnerID = '''',
                              co_LastTransferMatchID = ''''\<rparr>
               in case ownership_write E f worldID initial disk of
                    (Some e, disk') \<Rightarrow> (Inl e, disk')
                  | (None, disk') \<Rightarrow> (Inr (initial, True), disk'))"

definition ownership_next :: "castle_transfer \<Rightarrow> castle_ownership \<Rightarrow> castle_ownership" where
  "ownership_next t current =
     \<lparr>co_Revision = co_Revision current + 1, co_OwnerID = ct_OwnerID t,
      co_PreviousOwnerID = co_OwnerID current, co_LastTransferMatchID = ct_MatchID t\<rparr>"

definition ownership_Commit ::
  "own_env \<Rightarrow> own_faults \<Rightarrow> string \<Rightarrow> castle_transfer \<Rightarrow> own_disk \<Rightarrow>
     (ownership_error + castle_ownership) \<times> own_disk" where
  "ownership_Commit E f worldID t disk =
     (if worldID = '''' then (Inl ErrInvalidWorldID, disk)
      else if \<not> transfer_Valid t then (Inl ErrTransferInvalid, disk)
      else case ownership_load E f worldID disk of
             Inl e \<Rightarrow> (Inl e, disk)
           | Inr None \<Rightarrow> (Inl ErrOwnershipUnavailable, disk)
           | Inr (Some current) \<Rightarrow>
               if co_Revision current = ct_ExpectedRevision t
               then (if co_OwnerID current \<noteq> ct_PreviousOwnerID t then (Inl ErrRevisionConflict, disk)
                     else if co_OwnerID current = ct_OwnerID t then (Inr current, disk)
                     else if co_Revision current = - 1 then (Inl ErrRevisionOverflow, disk)
                     else case ownership_write E f worldID (ownership_next t current) disk of
                            (Some e, disk') \<Rightarrow> (Inl e, disk')
                          | (None, disk') \<Rightarrow> (Inr (ownership_next t current), disk'))
               else if ct_ExpectedRevision t \<noteq> - 1 \<and> co_Revision current = ct_ExpectedRevision t + 1 \<and>
                       co_PreviousOwnerID current = ct_PreviousOwnerID t \<and> co_OwnerID current = ct_OwnerID t \<and>
                       co_LastTransferMatchID current = ct_MatchID t
               then (Inr current, disk)
               else (Inl ErrRevisionConflict, disk))"

text \<open>
  The committer the world process installs (\<open>cmd/worldd/siege_ownership.go\<close>): it threads the disk
  and the faults of the calls to come; when the list is used up nothing fails any more.
\<close>

definition no_own_faults :: own_faults where
  "no_own_faults = \<lparr>fo_read = False, fo_write = False, fo_syncDirectory = False\<rparr>"

definition persistence_Commit ::
  "own_env \<Rightarrow> string \<Rightarrow> (own_faults list \<times> own_disk, ownership_error) ownership_committer" where
  "persistence_Commit E worldID t db =
     (if worldID = '''' then (Inl ErrPersistenceUnavailable, db)
      else case db of
             ([], disk) \<Rightarrow> (case ownership_Commit E no_own_faults worldID t disk of (r, disk') \<Rightarrow> (r, [], disk'))
           | (f # fs, disk) \<Rightarrow> (case ownership_Commit E f worldID t disk of (r, disk') \<Rightarrow> (r, fs, disk')))"

definition openSiegeOwnershipPersistence ::
  "own_env \<Rightarrow> own_faults \<Rightarrow> string \<Rightarrow> string \<Rightarrow> own_disk \<Rightarrow>
     (ownership_error + castle_ownership \<times> bool) \<times> own_disk" where
  "openSiegeOwnershipPersistence E f worldID initialOwnerID disk = LoadOrCreate E f worldID initialOwnerID disk"

section \<open>What is on the disk\<close>

text \<open>What is asked of \<open>encoding/json\<close> for the records \<open>ok\<close> names: they encode, and decode to themselves.\<close>

definition own_json_ok :: "(own_wire \<Rightarrow> bool) \<Rightarrow> own_env \<Rightarrow> bool" where
  "own_json_ok ok E =
     (\<forall>w. ok w \<longrightarrow> (\<exists>p. js_Marshal (oe_json E) w = Some p \<and> js_Decode (oe_json E) (p @ [0x0A]) = Some w))"

definition durable :: "own_env \<Rightarrow> string \<Rightarrow> own_disk \<Rightarrow> castle_ownership option" where
  "durable E worldID disk =
     (case ownership_load E no_own_faults worldID disk of Inr (Some s) \<Rightarrow> Some s | _ \<Rightarrow> None)"

lemma load_outcomes:
  "durable E worldID disk = Some s \<Longrightarrow>
     ownership_load E f worldID disk = Inr (Some s) \<or> ownership_load E f worldID disk = Inl ErrStoreIO"
  "durable E worldID disk = Some s \<Longrightarrow> ownership_load E no_own_faults worldID disk = Inr (Some s)"
  by (auto simp: durable_def ownership_load_def no_own_faults_def split: option.splits sum.splits if_splits)

lemma durable_valid: "durable E worldID disk = Some s \<Longrightarrow> validCastleOwnership s"
  by (auto simp: durable_def ownership_load_def no_own_faults_def validCastleOwnership_def
      split: option.splits sum.splits if_splits)

lemma durable_write:
  assumes "own_json_ok ok E" and "ok (own_record worldID s)" and "validCastleOwnership s"
    and "ownership_write E f worldID s disk = (e, disk')"
  shows "(disk' = disk \<and> e \<noteq> None) \<or> durable E worldID disk' = Some s"
    and "f = no_own_faults \<Longrightarrow> e = None \<and> durable E worldID disk' = Some s"
proof -
  obtain p where p: "js_Marshal (oe_json E) (own_record worldID s) = Some p"
      "js_Decode (oe_json E) (p @ [0x0A]) = Some (own_record worldID s)"
    using assms(1,2) by (auto simp: own_json_ok_def)
  have stored: "durable E worldID (fmupd (recordPath E worldID) (p @ [0x0A]) disk) = Some s"
    using assms(3) p(2)
    by (auto simp: durable_def ownership_load_def no_own_faults_def own_record_def validCastleOwnership_def split: if_splits)
  show "(disk' = disk \<and> e \<noteq> None) \<or> durable E worldID disk' = Some s"
    using assms(4) p(1) stored by (auto simp: ownership_write_def Let_def split: if_splits)
  show "e = None \<and> durable E worldID disk' = Some s" if "f = no_own_faults"
    using assms(4) p(1) stored that by (auto simp: ownership_write_def no_own_faults_def Let_def)
qed

section \<open>A transfer is applied exactly once\<close>

text \<open>The transfer \<open>t\<close> fits the ownership \<open>current\<close> and changes it.\<close>

definition transfer_fits :: "castle_transfer \<Rightarrow> castle_ownership \<Rightarrow> bool" where
  "transfer_fits t current =
     (transfer_Valid t \<and> ct_ExpectedRevision t = co_Revision current \<and> ct_PreviousOwnerID t = co_OwnerID current \<and>
      ct_OwnerID t \<noteq> co_OwnerID current \<and> co_Revision current \<noteq> - 1)"

lemma next_valid: "transfer_fits t current \<Longrightarrow> validCastleOwnership (ownership_next t current)"
  by (auto simp: transfer_fits_def transfer_Valid_def validCastleOwnership_def ownership_next_def eq_neg_iff_add_eq_0)

lemma Commit_settles:
  assumes "own_json_ok ok E" and "ok (own_record worldID (ownership_next t current))" and "worldID \<noteq> ''''"
    and "transfer_fits t current"
    and "durable E worldID disk = Some current \<or> durable E worldID disk = Some (ownership_next t current)"
    and "ownership_Commit E f worldID t disk = (r, disk')"
  shows "durable E worldID disk' = durable E worldID disk \<or> durable E worldID disk' = Some (ownership_next t current)"
    and "r = Inl ErrStoreIO \<or> (r = Inr (ownership_next t current) \<and> durable E worldID disk' = Some (ownership_next t current))"
    and "f = no_own_faults \<Longrightarrow> r = Inr (ownership_next t current)"
proof -
  note fits = assms(4)[unfolded transfer_fits_def]
  have ne: "co_Revision (ownership_next t current) \<noteq> ct_ExpectedRevision t"
    using fits by (simp add: ownership_next_def)
  have goal: "(durable E worldID disk' = durable E worldID disk \<or> durable E worldID disk' = Some (ownership_next t current)) \<and>
    (r = Inl ErrStoreIO \<or> (r = Inr (ownership_next t current) \<and> durable E worldID disk' = Some (ownership_next t current))) \<and>
    (f = no_own_faults \<longrightarrow> r = Inr (ownership_next t current))"
    using assms(5)
  proof
    assume d: "durable E worldID disk = Some current"
    show ?thesis
    proof (cases "ownership_load E f worldID disk")
      case (Inl e)
      with load_outcomes(1) [OF d, of f] load_outcomes(2) [OF d] assms(3,6) fits show ?thesis
        by (auto simp: ownership_Commit_def)
    next
      case (Inr x)
      then have load: "ownership_load E f worldID disk = Inr (Some current)" using load_outcomes(1) [OF d, of f] by auto
      obtain e disk2 where w: "ownership_write E f worldID (ownership_next t current) disk = (e, disk2)"
        by (cases "ownership_write E f worldID (ownership_next t current) disk")
      have res: "(r, disk') = (case e of Some err \<Rightarrow> Inl err | None \<Rightarrow> Inr (ownership_next t current), disk2)"
        using assms(3,6) fits load w by (auto simp: ownership_Commit_def split: option.splits)
      have err: "e = None \<or> e = Some ErrStoreIO"
        using w by (auto simp: ownership_write_def Let_def split: option.splits if_splits)
      show ?thesis
        using durable_write [OF assms(1,2) next_valid [OF assms(4)] w] res err by auto
    qed
  next
    assume d: "durable E worldID disk = Some (ownership_next t current)"
    show ?thesis
      using load_outcomes(1) [OF d, of f] load_outcomes(2) [OF d] assms(3,6) fits ne d
      by (auto simp: ownership_Commit_def ownership_next_def)
  qed
  then show "durable E worldID disk' = durable E worldID disk \<or> durable E worldID disk' = Some (ownership_next t current)"
    "r = Inl ErrStoreIO \<or> (r = Inr (ownership_next t current) \<and> durable E worldID disk' = Some (ownership_next t current))"
    "f = no_own_faults \<Longrightarrow> r = Inr (ownership_next t current)" by blast+
qed

text \<open>Calling \<open>Commit\<close> again and again with the same transfer.\<close>

definition retry_step ::
  "own_env \<Rightarrow> string \<Rightarrow> castle_transfer \<Rightarrow> own_faults \<Rightarrow> own_disk \<Rightarrow> (ownership_error + castle_ownership) \<times> own_disk" where
  "retry_step E worldID t f disk = ownership_Commit E f worldID t disk"

text \<open>
  C21. A castle transfer is applied exactly once, whatever fails. When a valid transfer fits the
  stored ownership, then after any number of calls of \<open>Commit\<close> with it, each failing at the read,
  at the write or only at the last sync of the directory, the next call without a fault returns
  the new ownership: the stored revision has gone up by exactly one, the owner is the new one, and
  the old owner and the match are recorded. The initial record is only made when there is none.
\<close>

theorem transfer_exactly_once:
  assumes "own_json_ok ok E" and "ok (own_record worldID (ownership_next t current))" and "worldID \<noteq> ''''"
    and "transfer_fits t current" and "durable E worldID disk = Some current"
  shows "\<exists>disk'. ownership_Commit E no_own_faults worldID t (run_ops (retry_step E worldID t) fs disk) =
      (Inr \<lparr>co_Revision = co_Revision current + 1, co_OwnerID = ct_OwnerID t, co_PreviousOwnerID = co_OwnerID current,
            co_LastTransferMatchID = ct_MatchID t\<rparr>, disk') \<and>
    ownership_Load E no_own_faults worldID disk' = Inr (Some
      \<lparr>co_Revision = co_Revision current + 1, co_OwnerID = ct_OwnerID t, co_PreviousOwnerID = co_OwnerID current,
       co_LastTransferMatchID = ct_MatchID t\<rparr>) \<and>
    (\<forall>initial. initial \<noteq> '''' \<longrightarrow> LoadOrCreate E no_own_faults worldID initial disk' =
      (Inr (\<lparr>co_Revision = co_Revision current + 1, co_OwnerID = ct_OwnerID t, co_PreviousOwnerID = co_OwnerID current,
             co_LastTransferMatchID = ct_MatchID t\<rparr>, False), disk'))"
proof -
  define settled where "settled d \<longleftrightarrow>
    durable E worldID d = Some current \<or> durable E worldID d = Some (ownership_next t current)" for d
  have step: "settled (snd (retry_step E worldID t f d))" if "settled d" for f d
    using Commit_settles(1) [OF assms(1-4) _ surjective_pairing, of d f] that
    by (auto simp: settled_def retry_step_def)
  have "settled (run_ops (retry_step E worldID t) fs disk)"
    by (rule kept_invariant.run_inv [OF kept_invariant.intro]) (simp_all add: step, simp add: settled_def assms(5))
  then have s: "durable E worldID (run_ops (retry_step E worldID t) fs disk) = Some current \<or>
      durable E worldID (run_ops (retry_step E worldID t) fs disk) = Some (ownership_next t current)" by (simp add: settled_def)
  obtain r disk' where c: "ownership_Commit E no_own_faults worldID t (run_ops (retry_step E worldID t) fs disk) = (r, disk')"
    by (cases "ownership_Commit E no_own_faults worldID t (run_ops (retry_step E worldID t) fs disk)")
  note settles = Commit_settles [OF assms(1-4) s c]
  have r: "r = Inr (ownership_next t current)" using settles(3) by simp
  with settles(2) have d: "durable E worldID disk' = Some (ownership_next t current)" by auto
  note load = load_outcomes(2) [OF d]
  show ?thesis
    using c r load assms(3)
    by (simp add: ownership_Load_def LoadOrCreate_def ownership_next_def)
qed


section \<open>The store behind the match\<close>

text \<open>
  What the operations other than the resolution leave alone: the definition, the ownership and its
  committer, and while the throne is contested the phase and the two sides.
\<close>

definition same_castle :: "('d, 'e) match_runtime \<Rightarrow> ('d, 'e) match_runtime \<Rightarrow> bool" where
  "same_castle m m' =
     (mr_definition m' = mr_definition m \<and> mr_ownership m' = mr_ownership m \<and>
      mr_ownershipCommitter m' = mr_ownershipCommitter m \<and>
      (ms_Phase (mr_state m) = MatchPhaseThrone \<longrightarrow> ms_Phase (mr_state m') = MatchPhaseThrone \<and>
         ms_AttackerID (mr_state m') = ms_AttackerID (mr_state m)))"

definition keeps_castle :: "('d, 'e) siege_service \<Rightarrow> ('d, 'e) siege_service \<Rightarrow> bool" where
  "keeps_castle s s' = (\<forall>m. sv_match s = Some m \<longrightarrow> (\<exists>m'. sv_match s' = Some m' \<and> same_castle m m'))"

lemma same_castle_refl [simp]: "same_castle m m"
  by (simp add: same_castle_def)

lemma keeps_castle_simps [simp]:
  "keeps_castle s s"
  "sv_match s = None \<Longrightarrow> keeps_castle s s'"
  "sv_match s = Some m \<Longrightarrow> keeps_castle s (s\<lparr>sv_match := Some m'\<rparr>) = same_castle m m'"
  "sv_match s' = sv_match s \<Longrightarrow> keeps_castle s s'"
  by (auto simp: keeps_castle_def)

lemma same_castle_parts [simp]:
  "same_castle m (m\<lparr>mr_participantTeams := t\<rparr>)" "same_castle m (m\<lparr>mr_throne := th\<rparr>)"
  by (simp_all add: same_castle_def)

lemma participants_keep_castle:
  "keeps_castle s (snd (AssignParticipant i t s))" "keeps_castle s (snd (AssignResolvedParticipant i b s))"
  "keeps_castle s (RemoveParticipant i s)"
proof -
  show a: "keeps_castle s (snd (AssignParticipant i t s))" for t
    by (cases "sv_match s") (simp_all add: AssignParticipant_def)
  show "keeps_castle s (snd (AssignResolvedParticipant i b s))"
    using a by (auto simp: AssignResolvedParticipant_def split: option.split prod.split) (metis snd_conv)+
  show "keeps_castle s (RemoveParticipant i s)"
    by (cases "sv_match s") (simp_all add: RemoveParticipant_def)
qed

lemma observe_keeps_castle:
  "keeps_castle s (snd (ObserveGateState st s))" "keeps_castle s (snd (ObserveThronePresence obs s))"
  "keeps_castle s (snd (AdvanceThroneCapture delta s))"
proof -
  show "keeps_castle s (snd (ObserveGateState st s))"
    by (cases "sv_match s") (simp_all add: ObserveGateState_def same_castle_def bumpMatchRevision_def)
  show "keeps_castle s (snd (ObserveThronePresence obs s))"
    by (cases "sv_match s") (simp_all add: ObserveThronePresence_def Let_def split: option.split prod.split)
  show "keeps_castle s (snd (AdvanceThroneCapture delta s))"
    by (cases "sv_match s") (simp_all add: AdvanceThroneCapture_def Let_def split: option.split)
qed

lemma next_round_keeps_castle:
  assumes "StartNextRound w s scene = (r, s', scene')"
  shows "keeps_castle s s'"
  using assms
proof (cases rule: StartNextRound_cases)
  case (started W m g a d)
  have th: "\<exists>th. resetThroneForNextRound m = m\<lparr>mr_throne := th\<rparr>"
    by (auto simp: resetThroneForNextRound_def Let_def split: option.split) (metis match_runtime.surjective match_runtime.update_convs(7))+
  then have "same_castle m (roundReset a d m)"
    using started(4) by (auto simp: roundReset_def applyRoles_def Let_def same_castle_def bumpMatchRevision_def)
  with started show ?thesis by (simp add: keeps_castle_def)
qed simp


text \<open>The transfer a throne phase is about, and the ownership it leads to.\<close>

definition pending_transfer :: "('d, 'e) match_runtime \<Rightarrow> castle_transfer" where
  "pending_transfer m =
     \<lparr>ct_ExpectedRevision = co_Revision (mr_ownership m), ct_PreviousOwnerID = co_OwnerID (mr_ownership m),
      ct_OwnerID = ms_AttackerID (mr_state m), ct_MatchID = md_ID (mr_definition m)\<rparr>"

text \<open>
  The disk and the match agree: the stored ownership is the one the match knows, or, in a throne
  phase only, the one its pending transfer leads to.
\<close>

definition castle_synced ::
  "own_env \<Rightarrow> string \<Rightarrow> match_definition \<Rightarrow> (own_faults list \<times> own_disk, ownership_error) siege_world_state \<Rightarrow> bool" where
  "castle_synced E worldID d w =
     (case w of (s, (fs, disk), n) \<Rightarrow> siege_inv s \<and>
       (\<exists>m. sv_match s = Some m \<and> mr_definition m = d \<and>
          mr_ownershipCommitter m = Some (persistence_Commit E worldID) \<and>
          (durable E worldID disk = Some (mr_ownership m) \<or>
           (ms_Phase (mr_state m) = MatchPhaseThrone \<and>
            durable E worldID disk = Some (ownership_next (pending_transfer m) (mr_ownership m))))))"

lemma castle_synced_same:
  assumes "castle_synced E worldID d (s, db, n)" and "siege_inv s'" and "keeps_castle s s'"
  shows "castle_synced E worldID d (s', db, n')"
proof -
  obtain fs disk where db: "db = (fs, disk)" by (cases db)
  obtain m where m: "sv_match s = Some m" "mr_definition m = d"
      "mr_ownershipCommitter m = Some (persistence_Commit E worldID)"
      "durable E worldID disk = Some (mr_ownership m) \<or> (ms_Phase (mr_state m) = MatchPhaseThrone \<and>
         durable E worldID disk = Some (ownership_next (pending_transfer m) (mr_ownership m)))"
    using assms(1) by (auto simp: castle_synced_def db)
  obtain m' where m': "sv_match s' = Some m'" "same_castle m m'"
    using assms(3) m(1) by (auto simp: keeps_castle_def)
  have "ms_Phase (mr_state m) = MatchPhaseThrone \<Longrightarrow> pending_transfer m' = pending_transfer m"
    using m'(2) by (simp add: same_castle_def pending_transfer_def)
  with m m' assms(2) show ?thesis
    by (auto simp: castle_synced_def db same_castle_def)
qed

text \<open>The commands of a running server: the ownership only changes by resolving a capture.\<close>

fun castle_allowed :: "('d, 'e) siege_command \<Rightarrow> bool" where
  "castle_allowed (SPersist _ _) = False"
| "castle_allowed (SCommit _) = False"
| "castle_allowed _ = True"

text \<open>The codec handles every record the match can ask the store to write.\<close>

definition records_ok :: "(own_wire \<Rightarrow> bool) \<Rightarrow> string \<Rightarrow> match_definition \<Rightarrow> bool" where
  "records_ok ok worldID d =
     (\<forall>r. ok (own_record worldID \<lparr>co_Revision = r, co_OwnerID = md_AttackerID d,
           co_PreviousOwnerID = md_DefenderID d, co_LastTransferMatchID = md_ID d\<rparr>) \<and>
          ok (own_record worldID \<lparr>co_Revision = r, co_OwnerID = md_DefenderID d,
           co_PreviousOwnerID = md_AttackerID d, co_LastTransferMatchID = md_ID d\<rparr>))"

lemma pending_ok:
  assumes "match_inv m" and "ms_Phase (mr_state m) = MatchPhaseThrone" and "records_ok ok worldID (mr_definition m)"
  shows "ok (own_record worldID (ownership_next (pending_transfer m) (mr_ownership m)))"
proof -
  have r: "rolesForOwner m (ms_DefenderID (mr_state m)) = Some (ms_AttackerID (mr_state m), ms_DefenderID (mr_state m))"
    and o: "co_OwnerID (mr_ownership m) = ms_DefenderID (mr_state m)"
    using assms(1,2) by (simp_all add: match_inv_def phase_ok_def)
  then show ?thesis
    using assms(3) by (auto simp: rolesForOwner_def records_ok_def ownership_next_def pending_transfer_def split: if_splits)
qed


text \<open>One durable commit of the pending transfer.\<close>

lemma commitDurably_pending:
  assumes json: "own_json_ok ok E" and rec: "ok (own_record worldID (ownership_next t (mr_ownership m)))" and w: "worldID \<noteq> ''''"
    and c: "mr_ownershipCommitter m = Some (persistence_Commit E worldID)"
    and t: "t = pending_transfer m" "RequiresOwnershipChange t"
    and d: "durable E worldID disk = Some (mr_ownership m) \<or> durable E worldID disk = Some (ownership_next t (mr_ownership m))"
    and r: "commitDurably t m (fs, disk) = (r, (fs', disk'))"
  shows "durable E worldID disk' = durable E worldID disk \<or> durable E worldID disk' = Some (ownership_next t (mr_ownership m))"
    and "r = Inr o' \<Longrightarrow> o' = ownership_next t (mr_ownership m) \<and> durable E worldID disk' = Some o'"
    and "fs = [] \<Longrightarrow> co_Revision (mr_ownership m) \<noteq> - 1 \<Longrightarrow> \<exists>o'. r = Inr o'"
proof -
  define f where "f = (case fs of [] \<Rightarrow> no_own_faults | f # _ \<Rightarrow> f)"
  obtain q where q: "ownership_Commit E f worldID t disk = (q, disk')"
    "r = (case q of Inl e \<Rightarrow> Inl (FromCommitter e) | Inr o2 \<Rightarrow> Inr o2)"
    using r t(2) c w
    by (cases fs) (auto simp: commitDurably_def persistence_Commit_def f_def split: prod.splits sum.splits)
  have owner: "ct_PreviousOwnerID t = co_OwnerID (mr_ownership m)" "ct_ExpectedRevision t = co_Revision (mr_ownership m)"
    "ct_OwnerID t \<noteq> co_OwnerID (mr_ownership m)" "transfer_Valid t"
    using t by (auto simp: pending_transfer_def RequiresOwnershipChange_def)
  show "durable E worldID disk' = durable E worldID disk \<or> durable E worldID disk' = Some (ownership_next t (mr_ownership m))"
    and "r = Inr o' \<Longrightarrow> o' = ownership_next t (mr_ownership m) \<and> durable E worldID disk' = Some o'"
    and "fs = [] \<Longrightarrow> co_Revision (mr_ownership m) \<noteq> - 1 \<Longrightarrow> \<exists>o'. r = Inr o'"
  proof -
    consider (last) "co_Revision (mr_ownership m) = - 1" | (fits) "transfer_fits t (mr_ownership m)"
      using owner by (auto simp: transfer_fits_def)
    then have "(durable E worldID disk' = durable E worldID disk \<or> durable E worldID disk' = Some (ownership_next t (mr_ownership m))) \<and>
      (r = Inr o' \<longrightarrow> o' = ownership_next t (mr_ownership m) \<and> durable E worldID disk' = Some o') \<and>
      (fs = [] \<longrightarrow> co_Revision (mr_ownership m) \<noteq> - 1 \<longrightarrow> (\<exists>o'. r = Inr o'))"
    proof cases
      case last
      then have "durable E worldID disk \<noteq> Some (ownership_next t (mr_ownership m))"
        using durable_valid by (force simp: validCastleOwnership_def ownership_next_def)
      with d have d: "durable E worldID disk = Some (mr_ownership m)" by simp
      from load_outcomes(1) [OF this, of f] q last owner w show ?thesis
        by (auto simp: ownership_Commit_def)
    next
      case fits
      note st = Commit_settles [OF json rec w fits d q(1)]
      have "fs = [] \<Longrightarrow> q = Inr (ownership_next t (mr_ownership m))" using st(3) by (simp add: f_def)
      with st(1,2) q(2) show ?thesis by auto
    qed
    then show "durable E worldID disk' = durable E worldID disk \<or> durable E worldID disk' = Some (ownership_next t (mr_ownership m))"
      and "r = Inr o' \<Longrightarrow> o' = ownership_next t (mr_ownership m) \<and> durable E worldID disk' = Some o'"
      and "fs = [] \<Longrightarrow> co_Revision (mr_ownership m) \<noteq> - 1 \<Longrightarrow> \<exists>o'. r = Inr o'" by blast+
  qed
qed

lemma Prepare_pending:
  "PrepareThroneCaptureResolution s = Some t \<Longrightarrow> sv_match s = Some m \<Longrightarrow> t = pending_transfer m"
  by (auto simp: PrepareThroneCaptureResolution_def pending_transfer_def split: option.splits if_splits)

lemma resolve_synced:
  assumes json: "own_json_ok ok E" and recs: "records_ok ok worldID d" and w: "worldID \<noteq> ''''"
    and sync: "castle_synced E worldID d (s, db, n)" and r: "ResolveThroneCaptureWithError s db = (r, s', db')"
  shows "castle_synced E worldID d (s', db', n)"
    and "fst db = [] \<Longrightarrow> PrepareThroneCaptureResolution s = Some t \<Longrightarrow> ct_ExpectedRevision t \<noteq> - 1 \<Longrightarrow> r = (True, None)"
    and "fst r \<Longrightarrow> \<exists>m m4. sv_match s = Some m \<and> sv_match s' = Some m4 \<and>
      mr_ownership m4 = ownership_next (pending_transfer m) (mr_ownership m) \<and>
      durable E worldID (snd db') = Some (mr_ownership m4)"
proof -
  obtain fs disk fs' disk' where db: "db = (fs, disk)" "db' = (fs', disk')" by (cases db; cases db')
  obtain m where inv: "siege_inv s" and m: "sv_match s = Some m" "mr_definition m = d"
      "mr_ownershipCommitter m = Some (persistence_Commit E worldID)"
    and disk: "durable E worldID disk = Some (mr_ownership m) \<or> (ms_Phase (mr_state m) = MatchPhaseThrone \<and>
         durable E worldID disk = Some (ownership_next (pending_transfer m) (mr_ownership m)))"
    using sync by (auto simp: castle_synced_def db)
  have one: "durable E worldID disk2 = durable E worldID disk \<or>
        durable E worldID disk2 = Some (ownership_next (pending_transfer m) (mr_ownership m))"
      "q = Inr o' \<Longrightarrow> o' = ownership_next (pending_transfer m) (mr_ownership m) \<and> durable E worldID disk2 = Some o'"
      "fs = [] \<Longrightarrow> co_Revision (mr_ownership m) \<noteq> - 1 \<Longrightarrow> \<exists>o'. q = Inr o'"
      "ms_Phase (mr_state m) = MatchPhaseThrone" "validCastleOwnership (ownership_next (pending_transfer m) (mr_ownership m)) \<or> q \<noteq> Inr o'"
    if "PrepareThroneCaptureResolution s = Some u" "commitDurably u m (fs, disk) = (q, (fs2, disk2))" for u q fs2 disk2 o'
  proof -
    note p = Prepare_Some [OF inv that(1) m(1)]
    have u: "u = pending_transfer m" by (rule Prepare_pending [OF that(1) m(1)])
    have ok: "ok (own_record worldID (ownership_next u (mr_ownership m)))"
      unfolding u by (rule pending_ok [OF p(1,2)]) (simp add: m(2) recs)
    have disk: "durable E worldID disk = Some (mr_ownership m) \<or> durable E worldID disk = Some (ownership_next u (mr_ownership m))"
      using disk u by blast
    note cd = commitDurably_pending [OF json ok w m(3) u p(3) disk that(2)]
    show "durable E worldID disk2 = durable E worldID disk \<or>
        durable E worldID disk2 = Some (ownership_next (pending_transfer m) (mr_ownership m))"
      using cd(1) u by simp
    show o: "q = Inr o' \<Longrightarrow> o' = ownership_next (pending_transfer m) (mr_ownership m) \<and> durable E worldID disk2 = Some o'"
      using cd(2) u by simp
    show "fs = [] \<Longrightarrow> co_Revision (mr_ownership m) \<noteq> - 1 \<Longrightarrow> \<exists>o'. q = Inr o'" using cd(3) by simp
    show "ms_Phase (mr_state m) = MatchPhaseThrone" by (rule p(2))
    show "validCastleOwnership (ownership_next (pending_transfer m) (mr_ownership m)) \<or> q \<noteq> Inr o'"
      using o durable_valid by metis
  qed
  have "castle_synced E worldID d (s', db', n) \<and> (fst r \<longrightarrow> (\<exists>m m4. sv_match s = Some m \<and> sv_match s' = Some m4 \<and>
      mr_ownership m4 = ownership_next (pending_transfer m) (mr_ownership m) \<and>
      durable E worldID (snd db') = Some (mr_ownership m4)))"
    using r
  proof (cases rule: Resolve_cases)
    case nothing
    with sync show ?thesis by simp
  next
    case (failed u m2)
    then have "m2 = m" using m(1) by simp
    with failed(5) obtain q where "commitDurably u m (fs, disk) = (q, (fs', disk'))"
      by (metis db prod.collapse)
    from one(1,4) [OF failed(3) this] disk inv m show ?thesis
      by (auto simp: castle_synced_def db failed(6) failed(1))
  next
    case (resolved u m2 o')
    then have m2: "m2 = m" using m(1) by simp
    note c = one(2) [OF resolved(2) resolved(4) [unfolded m2 db]]
    from resolved(5) have "\<exists>m1. sv_match (s\<lparr>sv_match := Some m1\<rparr>) = Some m1 \<and> mr_definition m1 = d \<and>
        mr_ownershipCommitter m1 = Some (persistence_Commit E worldID) \<and> mr_ownership m1 = o' \<and>
        s' = snd (AdvanceThroneCapture 0 (snd (ObserveThronePresence [] (s\<lparr>sv_match := Some m1\<rparr>))))"
    proof (cases rule: Commit_cases)
      case (committed m3 t3)
      then have "m3 = m" using m(1) by simp
      with committed(7) m show ?thesis
        by (intro exI [of _ "(bumpMatchRevision (m\<lparr>mr_state := (mr_state m)\<lparr>ms_Phase := MatchPhaseCompleted,
            ms_WinnerTeam := TeamAttacker, ms_WinnerID := ms_AttackerID (mr_state m)\<rparr>\<rparr>))\<lparr>mr_ownership := o'\<rparr>"])
          (simp add: bumpMatchRevision_def)
    qed simp
    then obtain m1 where m1: "sv_match (s\<lparr>sv_match := Some m1\<rparr>) = Some m1" "mr_definition m1 = d"
        "mr_ownershipCommitter m1 = Some (persistence_Commit E worldID)" "mr_ownership m1 = o'"
        "s' = snd (AdvanceThroneCapture 0 (snd (ObserveThronePresence [] (s\<lparr>sv_match := Some m1\<rparr>))))" by blast
    obtain m2 where m2: "sv_match (snd (ObserveThronePresence [] (s\<lparr>sv_match := Some m1\<rparr>))) = Some m2" "same_castle m1 m2"
      using observe_keeps_castle(2) [of "s\<lparr>sv_match := Some m1\<rparr>" "[]"] m1(1) unfolding keeps_castle_def by blast
    obtain m3 where m3: "sv_match s' = Some m3" "same_castle m2 m3"
      using observe_keeps_castle(3) m2(1) unfolding keeps_castle_def m1(5) by blast
    have "siege_inv s'" using Commit_inv [OF inv, of o'] resolved(5) by simp
    then show ?thesis
      using m m1 m2 m3 c by (auto simp: castle_synced_def db same_castle_def)
  qed
  then show "castle_synced E worldID d (s', db', n)"
    and "fst r \<Longrightarrow> \<exists>m m4. sv_match s = Some m \<and> sv_match s' = Some m4 \<and>
      mr_ownership m4 = ownership_next (pending_transfer m) (mr_ownership m) \<and>
      durable E worldID (snd db') = Some (mr_ownership m4)" by blast+
  show "r = (True, None)" if none: "fst db = []" and prep: "PrepareThroneCaptureResolution s = Some t" and rev1: "ct_ExpectedRevision t \<noteq> - 1"
  proof -
    note p = Prepare_Some [OF inv prep m(1)]
    have u: "t = pending_transfer m" by (rule Prepare_pending [OF prep m(1)])
    obtain q fs2 disk2 where q: "commitDurably t m (fs, disk) = (q, (fs2, disk2))" by (metis prod.collapse)
    have rev: "co_Revision (mr_ownership m) \<noteq> - 1" using rev1 by (simp add: u pending_transfer_def)
    obtain o' where o': "q = Inr o'" using one(3) [OF prep q] none rev by (auto simp: db)
    have next': "o' = ownership_next t (mr_ownership m)" using one(2) [OF prep q o'] u by simp
    have "validCastleOwnership o'" using one(5) [OF prep q, of o'] o' next' u by simp
    then have "fst (CommitThroneCaptureResolution o' s) = None"
      using p(3) prep rev1 m(1) rev
      by (simp add: CommitThroneCaptureResolution_def next' ownership_next_def u pending_transfer_def Let_def)
    then show ?thesis
      using r prep m(1) q o' by (auto simp: ResolveThroneCaptureWithError_def db split: prod.splits option.splits)
  qed
qed


lemma castle_step:
  assumes "own_json_ok ok E" and "records_ok ok worldID d" and "worldID \<noteq> ''''"
    and "castle_allowed x" and "castle_synced E worldID d w"
  shows "castle_synced E worldID d (snd (siege_step x w))"
proof -
  obtain s db n where w: "w = (s, db, n)" by (cases w)
  note sync = assms(5) [unfolded w]
  have inv: "siege_inv s" using sync by (cases db) (simp add: castle_synced_def)
  have inv': "siege_machine_inv (snd (siege_step x (s, db, n)))"
    by (rule siege_matches.step_inv) (simp add: inv)
  show ?thesis
  proof (cases "x = SResolve")
    case True
    obtain r s' db' where r: "ResolveThroneCaptureWithError s db = (r, s', db')" by (metis prod.collapse)
    from resolve_synced(1) [OF assms(1-3) sync r] True show ?thesis
      by (cases db') (simp add: w ResolveThroneCapture_def r split: prod.split)
  next
    case False
    have "\<exists>s' n'. snd (siege_step x (s, db, n)) = (s', db, n') \<and> keeps_castle s s'"
      using False assms(4)
      by (cases x) (auto simp: participants_keep_castle observe_keeps_castle split: prod.split
          dest: next_round_keeps_castle gate_ops_keep_match)
    then obtain s' n' where s': "snd (siege_step x (s, db, n)) = (s', db, n')" "keeps_castle s s'" by blast
    have "siege_inv s'" using inv' s'(1) by simp
    from castle_synced_same [OF sync this s'(2)] s'(1) show ?thesis by (simp add: w)
  qed
qed

lemma castle_run:
  assumes "own_json_ok ok E" and "records_ok ok worldID d" and "worldID \<noteq> ''''"
    and "list_all castle_allowed cmds" and "castle_synced E worldID d w"
  shows "castle_synced E worldID d (run_ops siege_step cmds w)"
  by (rule guarded_invariant.run_allowed [OF guarded_invariant.intro, OF castle_step [OF assms(1-3)] assms(4,5)])

text \<open>Starting the process: the stored ownership, or the defender's, is installed in the match.\<close>

definition initial_ownership :: "match_definition \<Rightarrow> castle_ownership" where
  "initial_ownership d =
     \<lparr>co_Revision = 1, co_OwnerID = md_DefenderID d, co_PreviousOwnerID = '''', co_LastTransferMatchID = ''''\<rparr>"

lemma open_durable:
  assumes "own_json_ok ok E" and "ok (own_record worldID (initial_ownership d))"
    and "openSiegeOwnershipPersistence E f worldID (md_DefenderID d) disk = (Inr (o', created), disk')"
  shows "durable E worldID disk' = Some o'" and "worldID \<noteq> ''''"
proof -
  have ne: "worldID \<noteq> ''''" "md_DefenderID d \<noteq> ''''"
    using assms(3) by (auto simp: openSiegeOwnershipPersistence_def LoadOrCreate_def split: if_splits)
  then show "worldID \<noteq> ''''" by simp
  have v: "validCastleOwnership (initial_ownership d)" using ne by (simp add: initial_ownership_def validCastleOwnership_def)
  consider (old) "ownership_load E f worldID disk = Inr (Some o')" "disk' = disk"
    | (new) "ownership_write E f worldID (initial_ownership d) disk = (None, disk')" "o' = initial_ownership d"
    using assms(3) ne
    by (auto simp: openSiegeOwnershipPersistence_def LoadOrCreate_def initial_ownership_def Let_def
        split: sum.splits option.splits prod.splits)
  then show "durable E worldID disk' = Some o'"
  proof cases
    case old
    then show ?thesis
      by (auto simp: durable_def ownership_load_def no_own_faults_def split: option.splits if_splits)
  next
    case new
    with durable_write(1) [OF assms(1,2) v new(1)] show ?thesis by auto
  qed
qed

lemma configured_match:
  assumes "ConfigureMatch d s0 = (None, s1)"
  obtains m where "sv_match s1 = Some m" "mr_definition m = d" "ms_Phase (mr_state m) = MatchPhaseGate"
    "\<not> ms_GateBreached (mr_state m)" "ms_WinnerTeam (mr_state m) = TeamUnknown" "ms_WinnerID (mr_state m) = ''''"
  using assms by (auto simp: ConfigureMatch_def split: if_splits sum.splits)

text \<open>The next process accepts an ownership of one of the two sides, and installs it.\<close>

lemma persist_accepted:
  assumes "ConfigureMatch d s0 = (None, s1)" and "validCastleOwnership o'"
    and "co_OwnerID o' = md_AttackerID d \<or> co_OwnerID o' = md_DefenderID d"
  shows "\<exists>m. ConfigureCastleOwnershipPersistence o' (Some c) s1 = (None, s1\<lparr>sv_match := Some m\<rparr>) \<and>
    mr_definition m = d \<and> mr_ownership m = o' \<and> mr_ownershipCommitter m = Some c"
proof -
  obtain m where m: "sv_match s1 = Some m" "mr_definition m = d" "ms_Phase (mr_state m) = MatchPhaseGate"
    "\<not> ms_GateBreached (mr_state m)" "ms_WinnerTeam (mr_state m) = TeamUnknown" "ms_WinnerID (mr_state m) = ''''"
    using configured_match [OF assms(1)] .
  obtain a b where "rolesForOwner m (co_OwnerID o') = Some (a, b)"
    using assms(3) m(2) by (cases "co_OwnerID o' = md_DefenderID d") (simp_all add: rolesForOwner_def)
  with m assms(2,3) show ?thesis
    by (auto simp: ConfigureCastleOwnershipPersistence_def validSideID_def applyRoles_def Let_def)
qed

lemma persist_result:
  assumes "sv_match s = Some m" and "ConfigureCastleOwnershipPersistence o' c s = (None, s')"
  shows "\<exists>m'. sv_match s' = Some m' \<and> mr_definition m' = mr_definition m \<and> mr_ownership m' = o' \<and>
    mr_ownershipCommitter m' = c"
proof -
  have roles: "mr_definition (applyRoles a b x) = mr_definition x \<and> mr_ownership (applyRoles a b x) = mr_ownership x \<and>
      mr_ownershipCommitter (applyRoles a b x) = mr_ownershipCommitter x" for a b and x :: "('a, 'b) match_runtime"
    by (simp add: applyRoles_def Let_def)
  show ?thesis
    using assms by (auto simp: ConfigureCastleOwnershipPersistence_def roles split: if_splits option.splits)
qed

lemma owner_is_side:
  assumes "match_inv m"
  shows "co_OwnerID (mr_ownership m) = md_AttackerID (mr_definition m) \<or> co_OwnerID (mr_ownership m) = md_DefenderID (mr_definition m)"
    and "ms_AttackerID (mr_state m) = md_AttackerID (mr_definition m) \<or> ms_AttackerID (mr_state m) = md_DefenderID (mr_definition m)"
  using assms
  by (auto simp: match_inv_def rolesForOwner_def phase_ok_def split: match_phase.splits if_splits)

text \<open>
  C2. The castle's owner survives every crash. Start the server: configure the match, load the
  stored ownership or create it for the defender, install it with the store as committer. Then run
  any commands, with the store failing in any way. At every moment the disk holds the ownership
  the match has published, or, while a throne capture is being resolved, exactly the one it leads to.
  A restart from the disk is accepted. Once the store works again, resolving a ready
  capture succeeds, and the match and the disk agree on the new owner.
\<close>

theorem castle_survives_crash:
  assumes "own_json_ok ok E" and "records_ok ok worldID d" and "ok (own_record worldID (initial_ownership d))"
    and "ConfigureMatch d s0 = (None, s1)" and "\<forall>t. md_Throne d = Some t \<longrightarrow> td_CaptureDuration t < 2 ^ 63"
    and "openSiegeOwnershipPersistence E f worldID (md_DefenderID d) disk0 = (Inr (o0, created), disk1)"
    and "ConfigureCastleOwnershipPersistence o0 (Some (persistence_Commit E worldID)) s1 = (None, s2)"
    and "list_all castle_allowed cmds"
    and "run_ops siege_step cmds (s2, (fs, disk1), n) = (s3, (fs3, disk3), n3)"
  shows "\<exists>m o'. sv_match s3 = Some m \<and> ownership_Load E no_own_faults worldID disk3 = Inr (Some o') \<and>
    (o' = mr_ownership m \<or> (ms_Phase (mr_state m) = MatchPhaseThrone \<and>
       o' = \<lparr>co_Revision = co_Revision (mr_ownership m) + 1, co_OwnerID = ms_AttackerID (mr_state m),
             co_PreviousOwnerID = co_OwnerID (mr_ownership m), co_LastTransferMatchID = md_ID d\<rparr>)) \<and>
    fst (ConfigureCastleOwnershipPersistence o' (Some (persistence_Commit E worldID)) s1) = None \<and>
    (\<forall>t s4 fs4 disk4 r. PrepareThroneCaptureResolution s3 = Some t \<longrightarrow> ct_ExpectedRevision t \<noteq> - 1 \<longrightarrow>
       ResolveThroneCapture s3 ([], disk3) = (r, s4, (fs4, disk4)) \<longrightarrow>
       r \<and> (\<exists>m4. sv_match s4 = Some m4 \<and> mr_ownership m4 = \<lparr>co_Revision = ct_ExpectedRevision t + 1,
              co_OwnerID = ct_OwnerID t, co_PreviousOwnerID = ct_PreviousOwnerID t, co_LastTransferMatchID = ct_MatchID t\<rparr> \<and>
            ownership_Load E no_own_faults worldID disk4 = Inr (Some (mr_ownership m4))))"
proof -
  have opened: "durable E worldID disk1 = Some o0" and w: "worldID \<noteq> ''''"
    using open_durable [OF assms(1,3,6)] by blast+
  have "siege_inv s2" using Persist_inv [OF ConfigureMatch_inv [OF assms(4,5)], of o0] assms(7) by (metis snd_conv)
  moreover have "\<exists>m. sv_match s2 = Some m \<and> mr_definition m = d \<and> mr_ownership m = o0 \<and>
      mr_ownershipCommitter m = Some (persistence_Commit E worldID)"
    using configured_match [OF assms(4)] persist_result [OF _ assms(7)] by metis
  ultimately have "castle_synced E worldID d (s2, (fs, disk1), n)"
    using opened by (auto simp: castle_synced_def)
  from castle_run [OF assms(1,2) w assms(8) this] have sync: "castle_synced E worldID d (s3, (fs3, disk3), n3)"
    by (simp add: assms(9))
  then obtain m where m: "sv_match s3 = Some m" "mr_definition m = d" and inv: "match_inv m"
      and disk: "durable E worldID disk3 = Some (mr_ownership m) \<or> (ms_Phase (mr_state m) = MatchPhaseThrone \<and>
         durable E worldID disk3 = Some (ownership_next (pending_transfer m) (mr_ownership m)))"
    by (auto simp: castle_synced_def)
  obtain o' where o': "durable E worldID disk3 = Some o'" using disk by blast
  have shape: "o' = mr_ownership m \<or> (ms_Phase (mr_state m) = MatchPhaseThrone \<and>
       o' = \<lparr>co_Revision = co_Revision (mr_ownership m) + 1, co_OwnerID = ms_AttackerID (mr_state m),
             co_PreviousOwnerID = co_OwnerID (mr_ownership m), co_LastTransferMatchID = md_ID d\<rparr>)"
    using disk o' m(2) by (auto simp: ownership_next_def pending_transfer_def)
  then have "co_OwnerID o' = md_AttackerID d \<or> co_OwnerID o' = md_DefenderID d"
    using owner_is_side [OF inv] m(2) by auto
  from persist_accepted [OF assms(4) durable_valid [OF o'] this, of "persistence_Commit E worldID"]
  have restart: "fst (ConfigureCastleOwnershipPersistence o' (Some (persistence_Commit E worldID)) s1) = None" by fastforce
  have load: "ownership_Load E no_own_faults worldID x = Inr (Some y)" if "durable E worldID x = Some y" for x y
    using load_outcomes(2) [OF that] w by (simp add: ownership_Load_def)
  have resolve: "r \<and> (\<exists>m4. sv_match s4 = Some m4 \<and> mr_ownership m4 = \<lparr>co_Revision = ct_ExpectedRevision t + 1,
        co_OwnerID = ct_OwnerID t, co_PreviousOwnerID = ct_PreviousOwnerID t, co_LastTransferMatchID = ct_MatchID t\<rparr> \<and>
      ownership_Load E no_own_faults worldID disk4 = Inr (Some (mr_ownership m4)))"
    if t: "PrepareThroneCaptureResolution s3 = Some t" "ct_ExpectedRevision t \<noteq> - 1"
      and r: "ResolveThroneCapture s3 ([], disk3) = (r, s4, (fs4, disk4))" for t r s4 fs4 disk4
  proof -
    obtain r2 where r2: "ResolveThroneCaptureWithError s3 ([], disk3) = (r2, s4, (fs4, disk4))" "fst r2 = r"
      using r by (auto simp: ResolveThroneCapture_def split: prod.splits)
    have "castle_synced E worldID d (s3, ([], disk3), n3)" using sync by (auto simp: castle_synced_def)
    note rs = resolve_synced [OF assms(1,2) w this r2(1)]
    have "r2 = (True, None)" using rs(2) t by simp
    with rs(3) obtain m4 where "sv_match s4 = Some m4" "mr_ownership m4 = ownership_next (pending_transfer m) (mr_ownership m)"
        "durable E worldID disk4 = Some (mr_ownership m4)" using m(1) by auto
    moreover have "t = pending_transfer m" by (rule Prepare_pending [OF t(1) m(1)])
    ultimately show ?thesis
      using load r2(2) \<open>r2 = (True, None)\<close> by (auto simp: ownership_next_def pending_transfer_def)
  qed
  have all: "\<forall>t s4 fs4 disk4 r. PrepareThroneCaptureResolution s3 = Some t \<longrightarrow> ct_ExpectedRevision t \<noteq> - 1 \<longrightarrow>
       ResolveThroneCapture s3 ([], disk3) = (r, s4, (fs4, disk4)) \<longrightarrow>
       r \<and> (\<exists>m4. sv_match s4 = Some m4 \<and> mr_ownership m4 = \<lparr>co_Revision = ct_ExpectedRevision t + 1,
              co_OwnerID = ct_OwnerID t, co_PreviousOwnerID = ct_PreviousOwnerID t, co_LastTransferMatchID = ct_MatchID t\<rparr> \<and>
            ownership_Load E no_own_faults worldID disk4 = Inr (Some (mr_ownership m4)))"
    by (intro allI impI) (rule resolve)
  show ?thesis
    by (intro exI [of _ m] exI [of _ o'] conjI m(1) load [OF o'] shape restart all)
qed

section \<open>Witnesses\<close>

text \<open>A codec for the records of one world: names by their place in a table, numbers in four bytes.\<close>

definition sample_names :: "string list" where
  "sample_names = ['''', ''world'', ''red'', ''blue'', ''siege'']"

definition name_index :: "string \<Rightarrow> u8 option" where
  "name_index x = (if x = '''' then Some 0 else if x = ''world'' then Some 1 else if x = ''red'' then Some 2
     else if x = ''blue'' then Some 3 else if x = ''siege'' then Some 4 else None)"

definition name_at :: "u8 \<Rightarrow> string" where
  "name_at i = (if unat i < 5 then sample_names ! unat i else '''')"

lemma name_index_at: "name_index x = Some i \<Longrightarrow> name_at i = x"
  by (auto simp: name_index_def name_at_def sample_names_def split: if_splits)

definition sample_marshal :: "own_wire \<Rightarrow> u8 list option" where
  "sample_marshal w =
     (case (name_index (ow_WorldID w), name_index (ow_OwnerID w), name_index (ow_PreviousOwnerID w),
            name_index (ow_LastTransferMatchID w)) of
        (Some a, Some b, Some c, Some d) \<Rightarrow>
          if ow_SchemaVersion w = 1
          then Some ([a, b, c, d] @ PutUint32 (ucast (drop_bit 32 (ow_Revision w))) @ PutUint32 (ucast (ow_Revision w)))
          else None
      | _ \<Rightarrow> None)"

definition sample_unmarshal :: "u8 list \<Rightarrow> own_wire option" where
  "sample_unmarshal p =
     (case p of
        a # b # c # d # rest \<Rightarrow>
          Some \<lparr>ow_SchemaVersion = 1, ow_WorldID = name_at a,
            ow_Revision = push_bit 32 (ucast (Uint32 (take 4 rest))) OR ucast (Uint32 (take 4 (drop 4 rest))),
            ow_OwnerID = name_at b, ow_PreviousOwnerID = name_at c, ow_LastTransferMatchID = name_at d\<rparr>
      | _ \<Rightarrow> None)"

definition sample_own_env :: own_env where
  "sample_own_env = \<lparr>oe_json = \<lparr>js_Marshal = sample_marshal, js_Decode = sample_unmarshal\<rparr>, oe_Sum256 = (\<lambda>_. [1, 2])\<rparr>"

definition sample_ok :: "own_wire \<Rightarrow> bool" where
  "sample_ok w = (sample_marshal w \<noteq> None)"

lemma two_halves: "push_bit 32 (ucast (ucast (drop_bit 32 v) :: u32)) OR ucast (ucast v :: u32) = (v :: u64)"
proof (rule bit_word_eqI)
  fix n
  assume "n < LENGTH(64)"
  then show "bit (push_bit 32 (ucast (ucast (drop_bit 32 v) :: u32)) OR ucast (ucast v :: u32) :: u64) n = bit v n"
    by (cases "n < 32") (auto simp: bit_simps)
qed

lemma sample_env_ok: "own_json_ok sample_ok sample_own_env"
proof -
  have "sample_unmarshal (p @ [0x0A]) = Some w" if "sample_marshal w = Some p" for w p
    using that
    by (auto simp: sample_marshal_def sample_unmarshal_def two_halves split: option.splits if_splits dest!: name_index_at)
  then show ?thesis by (auto simp: own_json_ok_def sample_ok_def sample_own_env_def)
qed

lemma sample_records_ok: "records_ok sample_ok ''world'' sample_match"
  "sample_ok (own_record ''world'' (initial_ownership sample_match))"
  by (simp_all add: records_ok_def sample_ok_def sample_marshal_def name_index_def own_record_def sample_match_def
      initial_ownership_def ownership_SchemaVersion_def)

definition sample_owned :: castle_ownership where
  "sample_owned = initial_ownership sample_match"

definition sample_transfer :: castle_transfer where
  "sample_transfer = \<lparr>ct_ExpectedRevision = 1, ct_PreviousOwnerID = ''blue'', ct_OwnerID = ''red'', ct_MatchID = ''siege''\<rparr>"

definition sample_own_disk :: own_disk where
  "sample_own_disk = snd (LoadOrCreate sample_own_env no_own_faults ''world'' ''blue'' fmempty)"

lemma sample_created: "openSiegeOwnershipPersistence sample_own_env no_own_faults ''world'' (md_DefenderID sample_match) fmempty =
    (Inr (sample_owned, True), sample_own_disk)"
proof -
  have "fst (LoadOrCreate sample_own_env no_own_faults ''world'' ''blue'' fmempty) = Inr (sample_owned, True)" by code_simp
  then show ?thesis
    by (simp add: openSiegeOwnershipPersistence_def sample_own_disk_def sample_match_def prod_eq_iff)
qed

theorem transfer_exactly_once_witness:
  "fst (ownership_Commit sample_own_env no_own_faults ''world'' sample_transfer
      (run_ops (retry_step sample_own_env ''world'' sample_transfer)
        [no_own_faults\<lparr>fo_write := True\<rparr>, no_own_faults\<lparr>fo_syncDirectory := True\<rparr>, no_own_faults\<lparr>fo_read := True\<rparr>]
        sample_own_disk)) =
    Inr \<lparr>co_Revision = 2, co_OwnerID = ''red'', co_PreviousOwnerID = ''blue'', co_LastTransferMatchID = ''siege''\<rparr>"
proof -
  have d: "durable sample_own_env ''world'' sample_own_disk = Some sample_owned"
    by (rule open_durable(1) [OF sample_env_ok sample_records_ok(2) sample_created])
  have fits: "transfer_fits sample_transfer sample_owned"
    by (simp add: transfer_fits_def transfer_Valid_def sample_transfer_def sample_owned_def initial_ownership_def sample_match_def)
  have ok: "sample_ok (own_record ''world'' (ownership_next sample_transfer sample_owned))"
    by (simp add: sample_ok_def sample_marshal_def name_index_def own_record_def ownership_next_def sample_transfer_def
        sample_owned_def initial_ownership_def sample_match_def ownership_SchemaVersion_def)
  show ?thesis
    using transfer_exactly_once [OF sample_env_ok ok _ fits d,
        of "[no_own_faults\<lparr>fo_write := True\<rparr>, no_own_faults\<lparr>fo_syncDirectory := True\<rparr>, no_own_faults\<lparr>fo_read := True\<rparr>]"]
    by (auto simp: sample_transfer_def sample_owned_def initial_ownership_def sample_match_def)
qed


text \<open>A capture whose first resolution fails after the new record is on the disk.\<close>

definition sample_castle :: "(own_faults list \<times> own_disk, ownership_error) siege_service" where
  "sample_castle = snd (ConfigureMatch sample_match (siege_new (gw_Gates sample_gw)))"

definition sample_held_castle :: "(own_faults list \<times> own_disk, ownership_error) siege_service" where
  "sample_held_castle = snd (ConfigureCastleOwnershipPersistence sample_owned (Some (persistence_Commit sample_own_env ''world'')) sample_castle)"

definition sample_storm :: "(own_faults list \<times> own_disk, ownership_error) siege_command list" where
  "sample_storm = [SAssign 7 TeamAttacker, SObserveGate sample_breach,
     SObservePresence [\<lparr>pp_EntityID = 7, pp_Position = sample_at, pp_Defeated = False\<rparr>], SAdvance 10000000000, SResolve]"

definition sample_stormed :: "(own_faults list \<times> own_disk, ownership_error) siege_world_state" where
  "sample_stormed = run_ops siege_step sample_storm
     (sample_held_castle, ([no_own_faults\<lparr>fo_syncDirectory := True\<rparr>], sample_own_disk), sample_nav)"

theorem castle_survives_crash_witness:
  "\<exists>m. sv_match (fst sample_stormed) = Some m \<and> ms_Phase (mr_state m) = MatchPhaseThrone \<and>
     co_OwnerID (mr_ownership m) = ''blue'' \<and>
     ownership_Load sample_own_env no_own_faults ''world'' (snd (fst (snd sample_stormed))) = Inr (Some
       \<lparr>co_Revision = 2, co_OwnerID = ''red'', co_PreviousOwnerID = ''blue'', co_LastTransferMatchID = ''siege''\<rparr>)"
proof -
  have conf: "ConfigureMatch sample_match (siege_new (gw_Gates sample_gw)) = (None, sample_castle)"
  proof -
    have "fst (ConfigureMatch sample_match (siege_new (gw_Gates sample_gw)) ::
        ownership_error match_error option \<times> (own_faults list \<times> own_disk, ownership_error) siege_service) = None"
      by code_simp
    then show ?thesis by (simp add: sample_castle_def prod_eq_iff)
  qed
  have persist: "ConfigureCastleOwnershipPersistence sample_owned (Some (persistence_Commit sample_own_env ''world'')) sample_castle =
      (None, sample_held_castle)"
  proof -
    have "\<exists>m. ConfigureCastleOwnershipPersistence sample_owned (Some (persistence_Commit sample_own_env ''world'')) sample_castle =
        (None, sample_castle\<lparr>sv_match := Some m\<rparr>)"
      using persist_accepted [OF conf, of sample_owned "persistence_Commit sample_own_env ''world''"]
      by (auto simp: sample_owned_def initial_ownership_def sample_match_def validCastleOwnership_def)
    then show ?thesis by (auto simp: sample_held_castle_def)
  qed
  have allowed: "list_all castle_allowed sample_storm" by (simp add: sample_storm_def)
  obtain s3 fs3 disk3 n3 where run: "sample_stormed = (s3, (fs3, disk3), n3)" by (metis prod.collapse)
  have phase: "map_option (\<lambda>m. (ms_Phase (mr_state m), co_OwnerID (mr_ownership m))) (sv_match (fst sample_stormed)) = Some (MatchPhaseThrone, ''blue'')"
    by code_simp
  have load: "(case ownership_Load sample_own_env no_own_faults ''world'' (snd (fst (snd sample_stormed))) of
      Inr (Some s) \<Rightarrow> co_Revision s = 2 | _ \<Rightarrow> False)" by code_simp
  have rev: "map_option (\<lambda>m. co_Revision (mr_ownership m)) (sv_match (fst sample_stormed)) = Some 1"
    by code_simp
  have atk: "map_option (\<lambda>m. ms_AttackerID (mr_state m)) (sv_match (fst sample_stormed)) = Some ''red''"
    by code_simp
  note c = castle_survives_crash [OF sample_env_ok sample_records_ok conf sample_durations sample_created persist allowed
      run [unfolded sample_stormed_def]]
  obtain m o' where "sv_match s3 = Some m" "ownership_Load sample_own_env no_own_faults ''world'' disk3 = Inr (Some o')"
    "o' = mr_ownership m \<or> (ms_Phase (mr_state m) = MatchPhaseThrone \<and>
       o' = \<lparr>co_Revision = co_Revision (mr_ownership m) + 1, co_OwnerID = ms_AttackerID (mr_state m),
             co_PreviousOwnerID = co_OwnerID (mr_ownership m), co_LastTransferMatchID = md_ID sample_match\<rparr>)"
    using c by metis
  then show ?thesis
    using phase load rev atk by (auto simp: run sample_match_def)
qed

end
