(* ===== verification/WorldTypes.thy ===== *)
theory WorldTypes
  imports Navigation
begin

text \<open>
  Entities of the world (\<open>internal/world/types.go\<close>) and the movement service
  (\<open>internal/movement/service.go\<close>). The navigator behind the service is an interface in the code
  and a function here; \<^theory_text>\<open>Navigation\<close> models the two that implement it.
\<close>

section \<open>Entities\<close>

datatype entity_kind =
  EntityUnknown | EntityPlayer | EntityNPC | EntityMonster | EntitySiegeObject | EntityItemDrop

definition EntityBodySizeSmall :: string where [go_defs]: "EntityBodySizeSmall = ''small''"
definition EntityBodySizeLarge :: string where [go_defs]: "EntityBodySizeLarge = ''large''"
definition EntityBodySizeGiant :: string where [go_defs]: "EntityBodySizeGiant = ''giant''"

record transform =
  tf_Position :: position
  tf_Yaw :: f32

record entity_state =
  en_ID :: entity_id
  en_Kind :: entity_kind
  en_ArchetypeID :: string
  en_BodySize :: string
  en_Transform :: transform

definition zero_vec3 :: vec3 where
  "zero_vec3 = \<lparr>v3_X = 0, v3_Y = 0, v3_Z = 0\<rparr>"

section \<open>Movement\<close>

datatype movement_error = ErrInvalidDelta | FromNavigation nav_error

record agent_state =
  ag_Position :: position
  ag_Speed :: f32
  ag_Radius :: f32
  ag_MaxStepHeight :: f32
  ag_Direction :: vec3

type_synonym nav_move = "position \<Rightarrow> vec3 \<Rightarrow> nav_agent \<Rightarrow> position \<times> nav_error option"

definition AcceptInput :: "vec3 \<Rightarrow> agent_state \<Rightarrow> agent_state" where
  "AcceptInput direction a = a\<lparr>ag_Direction := NormalizedXZ direction\<rparr>"

definition movement_Step ::
  "nav_move \<Rightarrow> f32 \<Rightarrow> f32 \<Rightarrow> agent_state \<Rightarrow> (position \<times> movement_error option) \<times> agent_state" where
  "movement_Step move maxDeltaSeconds deltaSeconds a =
     (if f32_leq deltaSeconds 0 then ((ag_Position a, Some ErrInvalidDelta), a)
      else let delta = (if f32_less maxDeltaSeconds deltaSeconds then maxDeltaSeconds else deltaSeconds);
               displacement = vec3_Scale (ag_Direction a) (f32_mul (ag_Speed a) delta)
           in case move (ag_Position a) displacement
                     \<lparr>na_Radius = ag_Radius a, na_MaxStepHeight = ag_MaxStepHeight a\<rparr> of
                (_, Some e) \<Rightarrow> ((ag_Position a, Some (FromNavigation e)), a)
              | (nxt, None) \<Rightarrow> ((nxt, None), a\<lparr>ag_Position := nxt\<rparr>))"

lemma NormalizedXZ_zero [simp]: "NormalizedXZ zero_vec3 = zero_vec3"
proof -
  have "f32_add (f32_mul 0 0) (f32_mul 0 0) = 0" by code_simp
  moreover have "f64_of_f32 0 = 0" by (rule sample_f64_conversions)
  moreover have "\<not> f64_IsNaN 0 \<and> f64_rank 0 = 0" by code_simp
  ultimately show ?thesis by (simp add: NormalizedXZ_def zero_vec3_def Let_def)
qed

lemma movement_Step_position: "fst (fst (movement_Step move m d a)) = ag_Position (snd (movement_Step move m d a))"
  by (auto simp: movement_Step_def Let_def split: prod.split option.split)

end
