(* ===== verification/DeathRecord.thy ===== *)
theory DeathRecord
  imports DeathOutcome WorldTypes
begin

text \<open>
  The boundary at which the world owner records a player's defeat
  (\<open>internal/worldruntime/death_outcome.go\<close> with the scheduling of \<open>respawn_policy.go\<close>): the
  defeat revision, the respawn binding, the penalty and the event, in that order. The record
  holds the fields of the runtime that these functions touch; a service that may be nil is an
  option. The step report, which the callers always pass, collects the errors and counters.
\<close>

section \<open>Model\<close>

datatype death_error =
  ErrDeathRevisionOverflow | FromRespawn respawn_error | FromPenalty penalty_error | FromOutcome outcome_error

datatype death_command_name = RecordDeathOutcome | ScheduleRespawn | ApplyDeathPenalty | EnqueueDeathOutcome

record death_report =
  re_CommandErrors :: "(death_command_name \<times> death_error) list"
  re_DeathOutcomesRecorded :: int
  re_RespawnsScheduled :: int
  re_PenaltyTransactionsApplied :: int
  re_CheckpointForfeits :: int
  re_EnqueueFailures :: int
  re_EventsEnqueued :: int

datatype respawn_phase = RestartRequested | AwaitingAOI | DesiredOnly

record death_runtime =
  dr_deathRevision :: "(entity_id, u64) fmap"
  dr_phases :: "(entity_id, respawn_phase) fmap"
  dr_identities :: "(entity_id, binding) fmap"
  dr_respawnPolicy :: "respawn_service option"
  dr_deathPenalty :: "penalty_service option"
  dr_deathOutbox :: "outbox option"

record death_outcome =
  do_EntityID :: entity_id
  do_CharacterID :: string
  do_Assurance :: string
  do_Revision :: u64
  do_Context :: string
  do_DefeatedTick :: u64

definition report_error :: "death_command_name \<Rightarrow> death_error \<Rightarrow> death_report \<Rightarrow> death_report" where
  "report_error c e rep = rep\<lparr>re_CommandErrors := re_CommandErrors rep @ [(c, e)]\<rparr>"

definition classifyDeathContext :: "entity_kind \<Rightarrow> entity_kind \<Rightarrow> string" where
  "classifyDeathContext actor target =
     (if actor = EntitySiegeObject then DeathContextSiege
      else if actor = EntityPlayer \<and> target = EntityPlayer then DeathContextPvP
      else DeathContextPvE)"

definition beginDeathOutcome ::
  "entity_id \<Rightarrow> u64 \<Rightarrow> string \<Rightarrow> death_report \<Rightarrow> death_runtime \<Rightarrow>
     (death_error + death_outcome) \<times> death_report \<times> death_runtime" where
  "beginDeathOutcome e tick ctx rep rt =
     (let current = gomap_at 0 (dr_deathRevision rt) e
      in if current = - 1 then (Inl ErrDeathRevisionOverflow, rep, rt)
         else let revision = current + 1;
                  rt' = rt\<lparr>dr_deathRevision := fmupd e revision (dr_deathRevision rt)\<rparr>;
                  (i, a) = (case fmlookup (dr_identities rt) e of
                      None \<Rightarrow> ('''', '''') | Some b \<Rightarrow> (bd_ID b, bd_Assurance b))
              in (Inr \<lparr>do_EntityID = e, do_CharacterID = i, do_Assurance = a, do_Revision = revision,
                       do_Context = ctx, do_DefeatedTick = tick\<rparr>,
                  rep\<lparr>re_DeathOutcomesRecorded := re_DeathOutcomesRecorded rep + 1\<rparr>, rt'))"

definition scheduleRespawnForDefeat ::
  "entity_id \<Rightarrow> u64 \<Rightarrow> string \<Rightarrow> death_report \<Rightarrow> death_runtime \<Rightarrow>
     scheduled option \<times> death_report \<times> death_runtime" where
  "scheduleRespawnForDefeat e tick ctx rep rt =
     (case dr_respawnPolicy rt of
        None \<Rightarrow> (None, rep, rt)
      | Some policy \<Rightarrow>
          (case respawn_Schedule e tick ctx policy of
             (Inl err, policy') \<Rightarrow>
               (None, report_error ScheduleRespawn (FromRespawn err) rep, rt\<lparr>dr_respawnPolicy := Some policy'\<rparr>)
           | (Inr b, policy') \<Rightarrow>
               (Some b, rep\<lparr>re_RespawnsScheduled := re_RespawnsScheduled rep + 1\<rparr>,
                rt\<lparr>dr_respawnPolicy := Some policy'\<rparr>)))"

text \<open>The answer: the penalty was applied, and the checkpoint was forfeited.\<close>

definition applyDeathPenalty ::
  "death_outcome \<Rightarrow> death_report \<Rightarrow> death_runtime \<Rightarrow> (bool \<times> bool) \<times> death_report \<times> death_runtime" where
  "applyDeathPenalty d rep rt =
     (case dr_deathPenalty rt of
        None \<Rightarrow> ((False, False), rep, rt)
      | Some penalty \<Rightarrow>
          (case penalty_Apply (do_EntityID d) (do_Revision d) (do_Context d) penalty of
             (Inl err, penalty') \<Rightarrow>
               ((False, False), report_error ApplyDeathPenalty (FromPenalty err) rep, rt\<lparr>dr_deathPenalty := Some penalty'\<rparr>)
           | (Inr (forfeit, applied), penalty') \<Rightarrow>
               let rt' = rt\<lparr>dr_deathPenalty := Some penalty'\<rparr>
               in if \<not> applied then ((False, False), rep, rt')
                  else let rep' = rep\<lparr>re_PenaltyTransactionsApplied := re_PenaltyTransactionsApplied rep + 1\<rparr>
                       in if \<not> forfeit then ((True, False), rep', rt')
                          else case dr_respawnPolicy rt' of
                            None \<Rightarrow> ((True, False), rep', rt')
                          | Some policy \<Rightarrow>
                              (case Checkpoint (do_EntityID d) policy of
                                 None \<Rightarrow> ((True, False), rep', rt')
                               | Some _ \<Rightarrow>
                                   ((True, True), rep'\<lparr>re_CheckpointForfeits := re_CheckpointForfeits rep' + 1\<rparr>,
                                    rt'\<lparr>dr_respawnPolicy := Some (ClearCheckpoint (do_EntityID d) policy)\<rparr>))))"

definition outcome_event ::
  "death_outcome \<Rightarrow> scheduled option \<Rightarrow> bool \<times> bool \<Rightarrow> death_runtime \<Rightarrow> event" where
  "outcome_event d sched penalty rt =
     \<lparr>ev_EventID = 0, ev_EntityID = do_EntityID d, ev_CharacterID = do_CharacterID d, ev_Assurance = do_Assurance d,
      ev_DefeatRevision = do_Revision d, ev_Context = do_Context d, ev_DefeatedTick = do_DefeatedTick d,
      ev_RespawnPolicyRevision = (case dr_respawnPolicy rt of None \<Rightarrow> '''' | Some p \<Rightarrow> rs_revision p),
      ev_DeathPenaltyPolicyRevision = (case dr_deathPenalty rt of None \<Rightarrow> '''' | Some p \<Rightarrow> ps_revision p),
      ev_Respawn = (case sched of None \<Rightarrow> zero_respawn_binding
        | Some b \<Rightarrow> \<lparr>rb_Scheduled = True, rb_SpawnPointID = sc_SpawnPointID b, rb_SpawnClass = sc_SpawnClass b,
                     rb_Position = sc_Position b, rb_DueTick = sc_DueTick b\<rparr>),
      ev_PenaltyTransactionApplied = fst penalty, ev_CheckpointForfeited = snd penalty\<rparr>"

definition enqueueDeathOutcomeEvent ::
  "death_outcome \<Rightarrow> scheduled option \<Rightarrow> bool \<times> bool \<Rightarrow> death_report \<Rightarrow> death_runtime \<Rightarrow>
     death_report \<times> death_runtime" where
  "enqueueDeathOutcomeEvent d sched penalty rep rt =
     (case dr_deathOutbox rt of
        None \<Rightarrow> (rep, rt)
      | Some ob \<Rightarrow>
          (case outbox_Enqueue (outcome_event d sched penalty rt) ob of
             (Inl err, ob') \<Rightarrow>
               ((report_error EnqueueDeathOutcome (FromOutcome err) rep)
                  \<lparr>re_EnqueueFailures := re_EnqueueFailures rep + 1\<rparr>,
                rt\<lparr>dr_deathOutbox := Some ob'\<rparr>)
           | (Inr (_, created), ob') \<Rightarrow>
               (if created then rep\<lparr>re_EventsEnqueued := re_EventsEnqueued rep + 1\<rparr> else rep,
                rt\<lparr>dr_deathOutbox := Some ob'\<rparr>)))"

definition recordPlayerDefeat ::
  "entity_id \<Rightarrow> u64 \<Rightarrow> string \<Rightarrow> death_report \<Rightarrow> death_runtime \<Rightarrow> death_report \<times> death_runtime" where
  "recordPlayerDefeat e tick ctx rep rt =
     (case beginDeathOutcome e tick ctx rep (rt\<lparr>dr_phases := fmdrop e (dr_phases rt)\<rparr>) of
        (Inl err, rep1, rt1) \<Rightarrow>
          snd (scheduleRespawnForDefeat e tick ctx (report_error RecordDeathOutcome err rep1) rt1)
      | (Inr d, rep1, rt1) \<Rightarrow>
          (case scheduleRespawnForDefeat e tick ctx rep1 rt1 of
             (sched, rep2, rt2) \<Rightarrow>
               (case applyDeathPenalty d rep2 rt2 of
                  (penalty, rep3, rt3) \<Rightarrow> enqueueDeathOutcomeEvent d sched penalty rep3 rt3)))"

definition clearDeathOutcomeState :: "entity_id \<Rightarrow> death_runtime \<Rightarrow> death_runtime" where
  "clearDeathOutcomeState e rt =
     rt\<lparr>dr_deathRevision := fmdrop e (dr_deathRevision rt),
        dr_deathPenalty := map_option (penalty_Remove e) (dr_deathPenalty rt),
        dr_deathOutbox := map_option (outbox_ResetEntity e) (dr_deathOutbox rt)\<rparr>"

section \<open>The runtime's bookkeeping stays in step\<close>

definition death_inv :: "death_runtime \<Rightarrow> bool" where
  "death_inv rt =
     ((\<forall>p. dr_respawnPolicy rt = Some p \<longrightarrow> respawn_inv p) \<and>
      (\<forall>s e. dr_deathPenalty rt = Some s \<longrightarrow>
         gomap_at 0 (ps_appliedRevision s) e \<le> gomap_at 0 (dr_deathRevision rt) e) \<and>
      (\<forall>ob. dr_deathOutbox rt = Some ob \<longrightarrow> outbox_inv ob) \<and>
      (\<forall>ob e ev. dr_deathOutbox rt = Some ob \<longrightarrow> fmlookup (ob_lastByEntity ob) e = Some ev \<longrightarrow>
         ev_DefeatRevision ev \<le> gomap_at 0 (dr_deathRevision rt) e) \<and>
      (\<forall>e b. fmlookup (dr_identities rt) e = Some b \<longrightarrow> binding_Valid b))"

lemma death_inv_policy: "death_inv rt \<Longrightarrow> respawn_inv p \<Longrightarrow> death_inv (rt\<lparr>dr_respawnPolicy := Some p\<rparr>)"
  by (simp add: death_inv_def)

lemma death_inv_phases [simp]: "death_inv (rt\<lparr>dr_phases := m\<rparr>) = death_inv rt"
  by (simp add: death_inv_def)

lemma succ_greater: "c \<noteq> (- 1 :: u64) \<Longrightarrow> c < c + 1"
  using unatSuc [of c] by (auto simp: word_less_nat_alt add.commute eq_neg_iff_add_eq_0)

lemma begin_cases:
  assumes "beginDeathOutcome e tick ctx rep rt = (r, rep', rt')"
  obtains (overflow) "r = Inl ErrDeathRevisionOverflow" "rep' = rep" "rt' = rt"
  | (begun) d where "r = Inr d" "do_EntityID d = e" "do_Revision d = gomap_at 0 (dr_deathRevision rt) e + 1"
      "do_Context d = ctx" "do_DefeatedTick d = tick" "gomap_at 0 (dr_deathRevision rt) e \<noteq> - 1"
      "\<And>b. fmlookup (dr_identities rt) e = Some b \<Longrightarrow> do_CharacterID d = bd_ID b \<and> do_Assurance d = bd_Assurance b"
      "re_CommandErrors rep' = re_CommandErrors rep"
      "rt' = rt\<lparr>dr_deathRevision := fmupd e (gomap_at 0 (dr_deathRevision rt) e + 1) (dr_deathRevision rt)\<rparr>"
proof (cases "gomap_at 0 (dr_deathRevision rt) e = - 1")
  case True
  with assms overflow show ?thesis by (simp add: beginDeathOutcome_def)
next
  case False
  show ?thesis
  proof (cases "fmlookup (dr_identities rt) e")
    case None
    with False assms show ?thesis by (intro begun) (auto simp: beginDeathOutcome_def Let_def)
  next
    case (Some b)
    with False assms show ?thesis by (intro begun) (auto simp: beginDeathOutcome_def Let_def)
  qed
qed

lemma begin_inv:
  assumes "death_inv rt" and "beginDeathOutcome e tick ctx rep rt = (r, rep', rt')"
  shows "death_inv rt'"
  using assms(2)
proof (cases rule: begin_cases)
  case overflow
  with assms(1) show ?thesis by simp
next
  case (begun d)
  define c where "c = gomap_at 0 (dr_deathRevision rt) e"
  have up: "x \<le> c \<Longrightarrow> x \<le> c + 1" for x
    using succ_greater [of c] begun(6) by (simp add: c_def)
  have "rt' = rt\<lparr>dr_deathRevision := fmupd e (c + 1) (dr_deathRevision rt)\<rparr>" using begun(9) by (simp add: c_def)
  with assms(1) up show ?thesis
    unfolding death_inv_def by (simp add: c_def)
qed

lemma schedule_inv:
  assumes "death_inv rt" and "scheduleRespawnForDefeat e tick ctx rep rt = (r, rep', rt')"
  shows "death_inv rt'" "dr_deathRevision rt' = dr_deathRevision rt"
proof -
  have "respawn_inv (snd (respawn_Schedule e tick ctx p))" if "dr_respawnPolicy rt = Some p" for p
    using respawn.step_inv [of p "RSchedule e tick ctx"] assms(1) that by (simp add: death_inv_def)
  then show "death_inv rt'" "dr_deathRevision rt' = dr_deathRevision rt"
    using assms
    by (auto simp: scheduleRespawnForDefeat_def intro!: death_inv_policy split: option.splits prod.splits sum.splits)
qed

lemma penalty_inv:
  assumes "death_inv rt" and "gomap_at 0 (dr_deathRevision rt) (do_EntityID d) = do_Revision d"
    and "applyDeathPenalty d rep rt = (r, rep', rt')"
  shows "death_inv rt'" "dr_deathRevision rt' = dr_deathRevision rt"
proof -
  have pen: "death_inv (rt\<lparr>dr_deathPenalty := Some s'\<rparr>)"
    if "dr_deathPenalty rt = Some s" "penalty_Apply (do_EntityID d) (do_Revision d) c s = (x, s')" for s s' c x
    using that(2)
  proof (cases rule: Apply_cases)
    case applied
    then show ?thesis using assms(1,2) that(1) by (auto simp: death_inv_def)
  qed (use assms(1) that(1) in \<open>auto simp: death_inv_def\<close>)
  have clear: "respawn_inv (ClearCheckpoint i p)" if "dr_respawnPolicy rt = Some p" for i p
    using respawn.step_inv [of p "RClear i"] assms(1) that by (simp add: death_inv_def)
  show "death_inv rt'" "dr_deathRevision rt' = dr_deathRevision rt"
    using assms(1,3) pen clear
    by (auto simp: applyDeathPenalty_def Let_def intro!: death_inv_policy split: option.splits prod.splits sum.splits if_splits)
qed

lemma enqueue_inv:
  assumes "death_inv rt" and "gomap_at 0 (dr_deathRevision rt) (do_EntityID d) = do_Revision d"
    and "enqueueDeathOutcomeEvent d sched pen rep rt = (rep', rt')"
  shows "death_inv rt'"
proof (cases "dr_deathOutbox rt")
  case None
  with assms show ?thesis by (simp add: enqueueDeathOutcomeEvent_def)
next
  case (Some ob)
  obtain r ob' where en: "outbox_Enqueue (outcome_event d sched pen rt) ob = (r, ob')"
    by (cases "outbox_Enqueue (outcome_event d sched pen rt) ob")
  have rt': "rt' = rt\<lparr>dr_deathOutbox := Some ob'\<rparr>"
    using assms(3) Some en by (auto simp: enqueueDeathOutcomeEvent_def split: sum.splits prod.splits)
  have ob: "outbox_inv ob'"
    using outbox.step_inv [of ob "OEnqueue (outcome_event d sched pen rt)"] assms(1) Some en by (simp add: death_inv_def)
  from en have "fmlookup (ob_lastByEntity ob') e = Some ev \<Longrightarrow> ev_DefeatRevision ev \<le> gomap_at 0 (dr_deathRevision rt) e"
    for e ev
  proof (cases rule: Enqueue_cases)
    case (created e')
    then show "fmlookup (ob_lastByEntity ob') e = Some ev \<Longrightarrow> ev_DefeatRevision ev \<le> gomap_at 0 (dr_deathRevision rt) e"
      using assms(1,2) Some by (auto simp: death_inv_def outcome_event_def split: if_splits)
  qed (use assms(1) Some in \<open>auto simp: death_inv_def\<close>)
  with ob assms(1) Some show ?thesis by (simp add: death_inv_def rt')
qed

lemma record_inv:
  assumes "death_inv rt"
  shows "death_inv (snd (recordPlayerDefeat e tick ctx rep rt))"
proof -
  define rt0 where "rt0 = rt\<lparr>dr_phases := fmdrop e (dr_phases rt)\<rparr>"
  have inv0: "death_inv rt0" using assms by (simp add: rt0_def)
  obtain r rep1 rt1 where b: "beginDeathOutcome e tick ctx rep rt0 = (r, rep1, rt1)"
    by (cases "beginDeathOutcome e tick ctx rep rt0")
  note inv1 = begin_inv [OF inv0 b]
  from b show ?thesis
  proof (cases rule: begin_cases)
    case overflow
    obtain sched rep2 rt2 where s: "scheduleRespawnForDefeat e tick ctx (report_error RecordDeathOutcome ErrDeathRevisionOverflow rep1) rt1 = (sched, rep2, rt2)"
      by (cases "scheduleRespawnForDefeat e tick ctx (report_error RecordDeathOutcome ErrDeathRevisionOverflow rep1) rt1")
    with schedule_inv(1) [OF inv1 s] b overflow show ?thesis by (simp add: recordPlayerDefeat_def rt0_def)
  next
    case (begun d)
    obtain sched rep2 rt2 where s: "scheduleRespawnForDefeat e tick ctx rep1 rt1 = (sched, rep2, rt2)"
      by (cases "scheduleRespawnForDefeat e tick ctx rep1 rt1")
    obtain pen rep3 rt3 where p: "applyDeathPenalty d rep2 rt2 = (pen, rep3, rt3)"
      by (cases "applyDeathPenalty d rep2 rt2")
    obtain rep4 rt4 where q: "enqueueDeathOutcomeEvent d sched pen rep3 rt3 = (rep4, rt4)"
      by (cases "enqueueDeathOutcomeEvent d sched pen rep3 rt3")
    note inv2 = schedule_inv [OF inv1 s]
    have r2: "gomap_at 0 (dr_deathRevision rt2) (do_EntityID d) = do_Revision d"
      using begun inv2(2) by simp
    note inv3 = penalty_inv [OF inv2(1) r2 p]
    have "death_inv rt4" using enqueue_inv [OF inv3(1) _ q] r2 inv3(2) by simp
    with b begun(1) s p q show ?thesis by (simp add: recordPlayerDefeat_def rt0_def)
  qed
qed

datatype death_command =
  DDefeat entity_id u64 string | DClear entity_id | DPolicy respawn_command | DConfirm u64
| DBind entity_id binding | DUnbind entity_id

text \<open>Only a session with a valid identity binds one, and a world has the three services.\<close>

definition no_report :: death_report where
  "no_report = \<lparr>re_CommandErrors = [], re_DeathOutcomesRecorded = 0, re_RespawnsScheduled = 0,
     re_PenaltyTransactionsApplied = 0, re_CheckpointForfeits = 0, re_EnqueueFailures = 0, re_EventsEnqueued = 0\<rparr>"

fun death_step :: "death_command \<Rightarrow> death_runtime \<Rightarrow> death_report \<times> death_runtime" where
  "death_step (DDefeat e tick ctx) rt = recordPlayerDefeat e tick ctx no_report rt"
| "death_step (DClear e) rt = (no_report, clearDeathOutcomeState e rt)"
| "death_step (DPolicy c) rt = (no_report, rt\<lparr>dr_respawnPolicy := map_option (\<lambda>p. snd (respawn_step c p)) (dr_respawnPolicy rt)\<rparr>)"
| "death_step (DConfirm i) rt = (no_report, rt\<lparr>dr_deathOutbox := map_option (\<lambda>ob. snd (outbox_Confirm i ob)) (dr_deathOutbox rt)\<rparr>)"
| "death_step (DBind e b) rt =
     (no_report, if binding_Valid b then rt\<lparr>dr_identities := fmupd e b (dr_identities rt)\<rparr> else rt)"
| "death_step (DUnbind e) rt = (no_report, rt\<lparr>dr_identities := fmdrop e (dr_identities rt)\<rparr>)"

definition death_start :: "respawn_service \<Rightarrow> penalty_service \<Rightarrow> outbox \<Rightarrow> death_runtime" where
  "death_start p s ob = \<lparr>dr_deathRevision = fmempty, dr_phases = fmempty, dr_identities = fmempty,
     dr_respawnPolicy = Some p, dr_deathPenalty = Some s, dr_deathOutbox = Some ob\<rparr>"

lemma outbox_inv_ops: "outbox_inv ob \<Longrightarrow> outbox_inv (snd (outbox_Confirm i ob))"
  "outbox_inv ob \<Longrightarrow> outbox_inv (outbox_ResetEntity e ob)"
  using outbox.step_inv [of ob "OConfirm i"] outbox.step_inv [of ob "OReset e"] by simp_all

lemma Confirm_last [simp]: "ob_lastByEntity (snd (outbox_Confirm i ob)) = ob_lastByEntity ob"
  by (simp add: outbox_Confirm_def split: list.split)

interpretation death: kept_invariant death_step death_inv
proof
  fix x rt assume inv: "death_inv rt"
  show "death_inv (snd (death_step x rt))"
  proof (cases x)
    case (DDefeat e tick ctx)
    with record_inv [OF inv] show ?thesis by simp
  next
    case (DClear e)
    with inv outbox_inv_ops(2) [unfolded outbox_ResetEntity_def] show ?thesis
      by (auto simp: clearDeathOutcomeState_def death_inv_def penalty_Remove_def outbox_ResetEntity_def split: if_splits)
  next
    case (DPolicy c)
    with inv show ?thesis by (auto simp: death_inv_def intro: respawn.step_inv)
  next
    case (DConfirm i)
    with inv show ?thesis by (auto simp: death_inv_def outbox_inv_ops)
  qed (use inv in \<open>auto simp: death_inv_def split: if_splits\<close>)
qed

lemma death_start_inv:
  assumes "respawn_NewService dp hz = Inr p" and "penalty_NewService dd = Inr s" and "NewOutbox c = Inr ob"
  shows "death_inv (death_start p s ob)"
  using NewService_state(1) [OF assms(1)] assms(2,3)
  by (auto simp: death_inv_def death_start_def penalty_NewService_def NewOutbox_def outbox_inv_def
      split: option.splits if_splits)

section \<open>A defeat, recorded\<close>

lemma scheduled_event_valid:
  assumes "respawn_inv p" and "fmlookup (rs_rules p) ctx = Some rule" and "binding_Valid b" and "e \<noteq> 0"
    and "revision \<noteq> 0" and "tick < due" and "forfeited \<longrightarrow> applied"
  shows "validateEvent \<lparr>ev_EventID = 0, ev_EntityID = e, ev_CharacterID = bd_ID b, ev_Assurance = bd_Assurance b,
      ev_DefeatRevision = revision, ev_Context = ctx, ev_DefeatedTick = tick, ev_RespawnPolicyRevision = r1,
      ev_DeathPenaltyPolicyRevision = r2, ev_Respawn = \<lparr>rb_Scheduled = True,
        rb_SpawnPointID = sp_ID (selectedPoint e rule p), rb_SpawnClass = sp_Class (selectedPoint e rule p),
        rb_Position = q, rb_DueTick = due\<rparr>,
      ev_PenaltyTransactionApplied = applied, ev_CheckpointForfeited = forfeited\<rparr> = None"
proof -
  have "spawn_point_ok (selectedPoint e rule p)"
    using selectedPoint_rule [OF assms(1,2), of e] assms(1) unfolding respawn_inv_def by blast
  then have "sp_ID (selectedPoint e rule p) \<noteq> ''''" "outcome_validSpawnClass (sp_Class (selectedPoint e rule p))"
    by (auto simp: spawn_point_ok_def outcome_validSpawnClass_def validSpawnClass_def)
  moreover have "outcome_validContext ctx"
    using assms(1,2) by (auto simp: respawn_inv_def outcome_validContext_def validDeathContext_def)
  moreover have "binding_Valid \<lparr>bd_ID = bd_ID b, bd_Assurance = bd_Assurance b\<rparr>"
    using assms(3) by (cases b) simp
  ultimately show ?thesis
    using assms by (auto simp: validateEvent_def validateEventBody_def CharacterIdentity_def not_le)
qed

lemma outbox_Enqueue_new:
  assumes "validateEvent ev = None"
    and "\<And>prev. fmlookup (ob_lastByEntity ob) (ev_EntityID ev) = Some prev \<Longrightarrow> ev_DefeatRevision prev < ev_DefeatRevision ev"
    and "length (ob_pending ob) < ob_capacity ob" and "ob_nextEventID ob \<noteq> - 1"
  shows "outbox_Enqueue ev ob = (Inr (ev\<lparr>ev_EventID := ob_nextEventID ob + 1\<rparr>, True),
    ob\<lparr>ob_nextEventID := ob_nextEventID ob + 1, ob_pending := ob_pending ob @ [ev\<lparr>ev_EventID := ob_nextEventID ob + 1\<rparr>],
       ob_lastByEntity := fmupd (ev_EntityID ev) (ev\<lparr>ev_EventID := ob_nextEventID ob + 1\<rparr>) (ob_lastByEntity ob)\<rparr>)"
proof -
  have "outbox_Enqueue ev ob = outbox_append ev ob"
    using assms(1,2) by (force simp: outbox_Enqueue_def split: option.split)
  then show ?thesis using assms(3,4) by (simp add: outbox_append_def Let_def)
qed

text \<open>
  C16. A defeat is recorded once, whole and in order: in any reachable world, with the three
  services, a bound identity, a policy rule whose due tick fits and room in the outbox, recording
  the defeat adds no error and exactly one event, at the end of the queue. The event carries the
  next defeat revision and the destination chosen with the checkpoint the player still had; the
  forfeit comes after and only clears the checkpoint, while the pending respawn keeps that destination.
\<close>

theorem defeat_recorded:
  assumes "respawn_NewService dp hz = Inr p0" and "penalty_NewService dd = Inr s0" and "NewOutbox c = Inr o0"
    and "rt = run_ops death_step cmds (death_start p0 s0 o0)"
    and "dr_respawnPolicy rt = Some p" and "dr_deathPenalty rt = Some s" and "dr_deathOutbox rt = Some ob"
    and "e \<noteq> 0" and "fmlookup (dr_identities rt) e = Some b" and "fmlookup (rs_rules p) ctx = Some rule"
    and "0 < unat (rr_delayTicks rule)" and "unat tick + unat (rr_delayTicks rule) < 2 ^ 64"
    and "gomap_at 0 (dr_deathRevision rt) e \<noteq> - 1"
    and "length (ob_pending ob) < ob_capacity ob" and "ob_nextEventID ob \<noteq> - 1"
  shows "\<exists>rep' rt' p' ob' ev bnd. recordPlayerDefeat e tick ctx rep rt = (rep', rt') \<and>
    re_CommandErrors rep' = re_CommandErrors rep \<and>
    dr_deathOutbox rt' = Some ob' \<and> ob_pending ob' = ob_pending ob @ [ev] \<and>
    ev_EntityID ev = e \<and> CharacterIdentity ev = b \<and> ev_DefeatRevision ev = gomap_at 0 (dr_deathRevision rt) e + 1 \<and>
    ev_Context ev = ctx \<and> ev_DefeatedTick ev = tick \<and>
    rb_SpawnPointID (ev_Respawn ev) = sp_ID (selectedPoint e rule p) \<and>
    unat (rb_DueTick (ev_Respawn ev)) = unat tick + unat (rr_delayTicks rule) \<and>
    ev_PenaltyTransactionApplied ev \<and>
    (ev_CheckpointForfeited ev \<longleftrightarrow> ForfeitsCheckpoint ctx s \<and> Checkpoint e p \<noteq> None) \<and>
    dr_respawnPolicy rt' = Some p' \<and> respawn_Pending e p' = Some bnd \<and>
    sc_SpawnPointID bnd = rb_SpawnPointID (ev_Respawn ev) \<and> sc_DueTick bnd = rb_DueTick (ev_Respawn ev) \<and>
    Checkpoint e p' = (if ForfeitsCheckpoint ctx s then None else Checkpoint e p)"
proof -
  have inv: "death_inv rt"
    using death.run_inv [OF death_start_inv [OF assms(1-3)]] assms(4) by simp
  then have pinv: "respawn_inv p" and bv: "binding_Valid b"
      and applied: "gomap_at 0 (ps_appliedRevision s) e \<le> gomap_at 0 (dr_deathRevision rt) e"
      and last: "\<And>ev. fmlookup (ob_lastByEntity ob) e = Some ev \<Longrightarrow> ev_DefeatRevision ev \<le> gomap_at 0 (dr_deathRevision rt) e"
    using assms(5-7,9) by (auto simp: death_inv_def)
  define rev where "rev = gomap_at 0 (dr_deathRevision rt) e + 1"
  have above: "gomap_at 0 (dr_deathRevision rt) e < rev" using succ_greater [OF assms(13)] by (simp add: rev_def)
  define pt where "pt = selectedPoint e rule p"
  define bnd where "bnd = \<lparr>sc_EntityID = e, sc_Context = ctx, sc_SpawnPointID = sp_ID pt, sc_SpawnClass = sp_Class pt,
    sc_Position = spawn_Position pt, sc_DueTick = tick + rr_delayTicks rule\<rparr>"
  define p1 where "p1 = p\<lparr>rs_pending := fmupd e bnd (rs_pending p)\<rparr>"
  have due: "unat (sc_DueTick bnd) = unat tick + unat (rr_delayTicks rule)"
    using assms(12) by (simp add: bnd_def unat_plus_no_overflow)
  have sched: "respawn_Schedule e tick ctx p = (Inr bnd, p1)"
    using assms(8,10,12) by (simp add: respawn_Schedule_def Let_def bnd_def p1_def pt_def overflow_guard)
  have ctx: "penalty_validDeathContext ctx"
    using pinv assms(10) by (auto simp: respawn_inv_def penalty_validDeathContext_def validDeathContext_def)
  have pen: "penalty_Apply e rev ctx s = (Inr (ForfeitsCheckpoint ctx s, True),
      s\<lparr>ps_appliedRevision := fmupd e rev (ps_appliedRevision s)\<rparr>)"
    using applied above by (intro Apply_fresh assms(8) ctx) simp
  define cp where "cp = Checkpoint e p"
  have cp1: "Checkpoint e p1 = cp" by (simp add: cp_def Checkpoint_def p1_def)
  define forfeited where "forfeited = (ForfeitsCheckpoint ctx s \<and> cp \<noteq> None)"
  define p2 where "p2 = (if forfeited then ClearCheckpoint e p1 else p1)"
  define d where "d = \<lparr>do_EntityID = e, do_CharacterID = bd_ID b, do_Assurance = bd_Assurance b, do_Revision = rev,
    do_Context = ctx, do_DefeatedTick = tick\<rparr>"
  define rt1 where "rt1 = rt\<lparr>dr_phases := fmdrop e (dr_phases rt), dr_deathRevision := fmupd e rev (dr_deathRevision rt)\<rparr>"
  define rt2 where "rt2 = rt1\<lparr>dr_respawnPolicy := Some p1\<rparr>"
  define rt3 where "rt3 = rt2\<lparr>dr_deathPenalty := Some (s\<lparr>ps_appliedRevision := fmupd e rev (ps_appliedRevision s)\<rparr>),
    dr_respawnPolicy := Some p2\<rparr>"
  obtain rep1 where b1: "beginDeathOutcome e tick ctx rep (rt\<lparr>dr_phases := fmdrop e (dr_phases rt)\<rparr>) = (Inr d, rep1, rt1)"
      and e1: "re_CommandErrors rep1 = re_CommandErrors rep"
    using assms(9,13) by (simp add: beginDeathOutcome_def Let_def d_def rt1_def rev_def)
  obtain rep2 where b2: "scheduleRespawnForDefeat e tick ctx rep1 rt1 = (Some bnd, rep2, rt2)"
      and e2: "re_CommandErrors rep2 = re_CommandErrors rep1"
    using assms(5) sched by (simp add: scheduleRespawnForDefeat_def rt1_def rt2_def)
  obtain rep3 where b3: "applyDeathPenalty d rep2 rt2 = ((True, forfeited), rep3, rt3)"
      and e3: "re_CommandErrors rep3 = re_CommandErrors rep2"
    using assms(6) pen cp1
    by (cases "ForfeitsCheckpoint ctx s"; cases cp)
       (simp_all add: applyDeathPenalty_def Let_def d_def rt1_def rt2_def rt3_def p2_def forfeited_def)
  define ev where "ev = outcome_event d (Some bnd) (True, forfeited) rt3"
  have evf: "ev_EntityID ev = e" "ev_DefeatRevision ev = rev" by (simp_all add: ev_def outcome_event_def d_def)
  have revnz: "rev \<noteq> 0" using above by auto
  have "tick < sc_DueTick bnd" using due assms(11) by (simp add: word_less_nat_alt)
  then have valid: "validateEvent ev = None"
    using scheduled_event_valid [OF pinv assms(10) bv assms(8) revnz, of tick "sc_DueTick bnd" forfeited True]
    unfolding ev_def outcome_event_def by (simp add: d_def bnd_def pt_def)
  have "dr_deathOutbox rt3 = Some ob" using assms(7) by (simp add: rt3_def rt2_def rt1_def)
  with outbox_Enqueue_new [OF valid _ assms(14,15)] last above
  obtain rep4 ob' where b4: "enqueueDeathOutcomeEvent d (Some bnd) (True, forfeited) rep3 rt3 = (rep4, rt3\<lparr>dr_deathOutbox := Some ob'\<rparr>)"
      and e4: "re_CommandErrors rep4 = re_CommandErrors rep3"
      and ob': "ob_pending ob' = ob_pending ob @ [ev\<lparr>ev_EventID := ob_nextEventID ob + 1\<rparr>]"
    by (fastforce simp: enqueueDeathOutcomeEvent_def ev_def [symmetric] evf)
  have run: "recordPlayerDefeat e tick ctx rep rt = (rep4, rt3\<lparr>dr_deathOutbox := Some ob'\<rparr>)"
    using b1 b2 b3 b4 by (simp add: recordPlayerDefeat_def)
  have "Checkpoint e p2 = (if ForfeitsCheckpoint ctx s then None else cp)"
    using cp1 by (auto simp: p2_def forfeited_def ClearCheckpoint_def Checkpoint_def)
  moreover have "respawn_Pending e p2 = Some bnd"
    by (simp add: p2_def p1_def ClearCheckpoint_def respawn_Pending_def)
  ultimately show ?thesis
    using run e1 e2 e3 e4 ob' due
    by (intro exI [of _ rep4] exI [of _ "rt3\<lparr>dr_deathOutbox := Some ob'\<rparr>"] exI [of _ p2] exI [of _ ob']
        exI [of _ "ev\<lparr>ev_EventID := ob_nextEventID ob + 1\<rparr>"] exI [of _ bnd])
       (simp add: rt3_def ev_def outcome_event_def d_def rev_def bnd_def pt_def CharacterIdentity_def forfeited_def cp_def)
qed

section \<open>Witness\<close>

definition sample_penalty_definition :: penalty_definition where
  "sample_penalty_definition = \<lparr>pd_SchemaVersion = 1, pd_Revision = ''d1'', pd_CheckpointForfeitContexts = [DeathContextPvE]\<rparr>"

definition sample_penalty :: penalty_service where
  "sample_penalty = \<lparr>ps_revision = ''d1'', ps_checkpointForfeit = {''pve''}, ps_appliedRevision = fmempty\<rparr>"

lemma sample_penalty: "penalty_NewService sample_penalty_definition = Inr sample_penalty"
  by (simp add: penalty_NewService_def penalty_Validate_def sample_penalty_definition_def sample_penalty_def
      penalty_validDeathContext_def go_defs)

definition sample_hero :: binding where
  "sample_hero = \<lparr>bd_ID = ''hero'', bd_Assurance = ''trusted''\<rparr>"

definition sample_deaths :: death_runtime where
  "sample_deaths = run_ops death_step
     [DBind 7 sample_hero, DPolicy (RAcquire 7 sample_at_shrine ''shrine''), DDefeat 7 10 ''pvp'']
     (death_start sample_respawn sample_penalty sample_outbox)"

text \<open>A second death, by a monster: bound to the shrine, which is then forfeited.\<close>

theorem defeat_recorded_witness:
  "\<exists>ev ob' rep' rt'. recordPlayerDefeat 7 100 ''pve'' no_report sample_deaths = (rep', rt') \<and>
     re_CommandErrors rep' = [] \<and> dr_deathOutbox rt' = Some ob' \<and> length (ob_pending ob') = 2 \<and>
     ev \<in> set (ob_pending ob') \<and> ev_DefeatRevision ev = 2 \<and> rb_SpawnPointID (ev_Respawn ev) = ''shrine'' \<and>
     ev_CheckpointForfeited ev"
proof -
  have "(case dr_respawnPolicy sample_deaths of None \<Rightarrow> False | Some p \<Rightarrow> Checkpoint 7 p = Some ''shrine'' \<and>
      (case fmlookup (rs_rules p) ''pve'' of None \<Rightarrow> False | Some rule \<Rightarrow>
        rr_delayTicks rule = 50 \<and> sp_ID (selectedPoint 7 rule p) = ''shrine''))"
    by code_simp
  then obtain p rule where p: "dr_respawnPolicy sample_deaths = Some p" "fmlookup (rs_rules p) ''pve'' = Some rule"
      and q: "Checkpoint 7 p = Some ''shrine''" "rr_delayTicks rule = 50" "sp_ID (selectedPoint 7 rule p) = ''shrine''"
    by (auto split: option.splits)
  have "(case dr_deathPenalty sample_deaths of None \<Rightarrow> False | Some s \<Rightarrow> ForfeitsCheckpoint ''pve'' s)" by code_simp
  then obtain s where s: "dr_deathPenalty sample_deaths = Some s" "ForfeitsCheckpoint ''pve'' s" by (auto split: option.splits)
  have "(case dr_deathOutbox sample_deaths of None \<Rightarrow> False | Some ob \<Rightarrow>
      length (ob_pending ob) = 1 \<and> ob_capacity ob = 2 \<and> ob_nextEventID ob = 1)" by code_simp
  then obtain ob where ob: "dr_deathOutbox sample_deaths = Some ob" "length (ob_pending ob) = 1" "ob_capacity ob = 2" "ob_nextEventID ob = 1"
    by (auto split: option.splits)
  have i: "fmlookup (dr_identities sample_deaths) 7 = Some sample_hero" by code_simp
  have r: "gomap_at 0 (dr_deathRevision sample_deaths) 7 = 1" by code_simp
  have "\<exists>rep' rt' p' ob' ev bnd. recordPlayerDefeat 7 100 ''pve'' no_report sample_deaths = (rep', rt') \<and>
    re_CommandErrors rep' = re_CommandErrors no_report \<and>
    dr_deathOutbox rt' = Some ob' \<and> ob_pending ob' = ob_pending ob @ [ev] \<and>
    ev_EntityID ev = 7 \<and> CharacterIdentity ev = sample_hero \<and>
    ev_DefeatRevision ev = gomap_at 0 (dr_deathRevision sample_deaths) 7 + 1 \<and>
    ev_Context ev = ''pve'' \<and> ev_DefeatedTick ev = 100 \<and>
    rb_SpawnPointID (ev_Respawn ev) = sp_ID (selectedPoint 7 rule p) \<and>
    unat (rb_DueTick (ev_Respawn ev)) = unat (100 :: u64) + unat (rr_delayTicks rule) \<and>
    ev_PenaltyTransactionApplied ev \<and>
    (ev_CheckpointForfeited ev \<longleftrightarrow> ForfeitsCheckpoint ''pve'' s \<and> Checkpoint 7 p \<noteq> None) \<and>
    dr_respawnPolicy rt' = Some p' \<and> respawn_Pending 7 p' = Some bnd \<and>
    sc_SpawnPointID bnd = rb_SpawnPointID (ev_Respawn ev) \<and> sc_DueTick bnd = rb_DueTick (ev_Respawn ev) \<and>
    Checkpoint 7 p' = (if ForfeitsCheckpoint ''pve'' s then None else Checkpoint 7 p)"
    by (rule defeat_recorded [OF sample_respawn sample_penalty sample_outbox sample_deaths_def p(1) s(1) ob(1) _ i p(2)])
       (simp_all add: q r ob)
  then obtain rep' rt' ob' ev where "recordPlayerDefeat 7 100 ''pve'' no_report sample_deaths = (rep', rt')"
      "re_CommandErrors rep' = re_CommandErrors no_report" "dr_deathOutbox rt' = Some ob'" "ob_pending ob' = ob_pending ob @ [ev]"
      "ev_DefeatRevision ev = gomap_at 0 (dr_deathRevision sample_deaths) 7 + 1"
      "rb_SpawnPointID (ev_Respawn ev) = sp_ID (selectedPoint 7 rule p)"
      "ev_CheckpointForfeited ev \<longleftrightarrow> ForfeitsCheckpoint ''pve'' s \<and> Checkpoint 7 p \<noteq> None"
    by blast
  then show ?thesis using q s r ob
    by (intro exI [of _ ev] exI [of _ ob'] exI [of _ rep'] exI [of _ rt']) (simp add: no_report_def)
qed

end
