(* ===== verification/SpatialGrid.thy ===== *)
theory SpatialGrid
  imports WorldTypes
begin

text \<open>
  The spatial index (\<open>internal/spatial/grid.go\<close>): buckets of entities by cell and the position of
  each entity, with the radius query of the area of interest. Go visits the entities of a bucket in
  an order of its own, an argument here. A query whose window ends at the last \<open>int32\<close> cell would
  never leave its loop, which is the result None.
\<close>

section \<open>Cells\<close>

text \<open>\<open>int32(math.Floor(x))\<close>; Go leaves a value out of range to the implementation: the least \<open>int32\<close>.\<close>

definition f64_floor :: "f64 \<Rightarrow> int" where
  "f64_floor x =
     (case f64_floor_mag x of
        (v, exact) \<Rightarrow> if \<not> fst (f64_parts x) then v else if exact then - v else - v - 1)"

definition floor_i32 :: "f64 \<Rightarrow> int" where
  "floor_i32 x =
     (if f64_IsNaN x \<or> f64_IsInf x \<or> f64_floor x < - (2 ^ 31) \<or> 2 ^ 31 \<le> f64_floor x then - (2 ^ 31)
      else f64_floor x)"

type_synonym cell_key = "int \<times> int"

definition cellCoord :: "f32 \<Rightarrow> f32 \<Rightarrow> int" where
  "cellCoord cellSize v = floor_i32 (f64_of_f32 (f32_div v cellSize))"

definition cellFor :: "f32 \<Rightarrow> position \<Rightarrow> cell_key" where
  "cellFor cellSize p = (cellCoord cellSize (pos_X p), cellCoord cellSize (pos_Z p))"

definition abs32 :: "f32 \<Rightarrow> f32" where
  "abs32 v = (if f32_less v 0 then f32_uminus v else v)"

section \<open>The grid\<close>

record grid_entry =
  ge_position :: position
  ge_cell :: cell_key

record query_options =
  qo_SameLayer :: bool
  qo_MaxHeightDelta :: f32

record query_stats =
  qs_VisitedCells :: nat
  qs_CandidateEntities :: nat
  qs_MatchedEntities :: nat

record grid =
  gd_cellSize :: f32
  gd_cells :: "(cell_key, entity_id fset) fmap"
  gd_entries :: "(entity_id, grid_entry) fmap"

text \<open>\<open>NewGrid\<close> panics on a cell size that is not positive.\<close>

definition NewGrid :: "f32 \<Rightarrow> grid option" where
  "NewGrid cellSize =
     (if f32_leq cellSize 0 then None
      else Some \<lparr>gd_cellSize = cellSize, gd_cells = fmempty, gd_entries = fmempty\<rparr>)"

definition removeFromCell :: "entity_id \<Rightarrow> cell_key \<Rightarrow> grid \<Rightarrow> grid" where
  "removeFromCell i key g =
     (let bucket = fminus (gomap_at {||} (gd_cells g) key) {|i|}
      in g\<lparr>gd_cells := (if bucket = {||} then fmdrop key (gd_cells g) else fmupd key bucket (gd_cells g))\<rparr>)"

definition grid_store :: "entity_id \<Rightarrow> position \<Rightarrow> cell_key \<Rightarrow> grid \<Rightarrow> grid" where
  "grid_store i p key g =
     g\<lparr>gd_cells := fmupd key (finsert i (gomap_at {||} (gd_cells g) key)) (gd_cells g),
       gd_entries := fmupd i \<lparr>ge_position = p, ge_cell = key\<rparr> (gd_entries g)\<rparr>"

definition Upsert :: "entity_id \<Rightarrow> position \<Rightarrow> grid \<Rightarrow> grid" where
  "Upsert i p g =
     (let newCell = cellFor (gd_cellSize g) p
      in case fmlookup (gd_entries g) i of
           Some old \<Rightarrow>
             if ge_cell old = newCell
             then g\<lparr>gd_entries := fmupd i \<lparr>ge_position = p, ge_cell = newCell\<rparr> (gd_entries g)\<rparr>
             else grid_store i p newCell (removeFromCell i (ge_cell old) g)
         | None \<Rightarrow> grid_store i p newCell g)"

definition grid_Remove :: "entity_id \<Rightarrow> grid \<Rightarrow> grid" where
  "grid_Remove i g =
     (case fmlookup (gd_entries g) i of
        None \<Rightarrow> g
      | Some old \<Rightarrow> (removeFromCell i (ge_cell old) g)\<lparr>gd_entries := fmdrop i (gd_entries g)\<rparr>)"

definition grid_Position :: "grid \<Rightarrow> entity_id \<Rightarrow> position option" where
  "grid_Position g i = map_option ge_position (fmlookup (gd_entries g) i)"

section \<open>The query\<close>

definition in_aoi :: "position \<Rightarrow> f32 \<Rightarrow> query_options \<Rightarrow> position \<Rightarrow> bool" where
  "in_aoi center radiusSq q p =
     (\<not> (qo_SameLayer q \<and> pos_Layer p \<noteq> pos_Layer center) \<and>
      \<not> (f32_less 0 (qo_MaxHeightDelta q) \<and>
          f32_less (qo_MaxHeightDelta q) (abs32 (f32_sub (pos_Y p) (pos_Y center)))) \<and>
      f32_leq (DistanceXZSquared center p) radiusSq)"

definition cell_range :: "int \<Rightarrow> int \<Rightarrow> int list option" where
  "cell_range lo hi = (if lo \<le> hi \<and> hi = 2 ^ 31 - 1 then None else Some [lo..hi])"

definition cell_window :: "f32 \<Rightarrow> position \<Rightarrow> f32 \<Rightarrow> cell_key list option" where
  "cell_window cellSize center radius =
     (case cell_range (cellCoord cellSize (f32_sub (pos_X center) radius))
                      (cellCoord cellSize (f32_add (pos_X center) radius)) of
        None \<Rightarrow> None
      | Some [] \<Rightarrow> Some []
      | Some xs \<Rightarrow>
          (case cell_range (cellCoord cellSize (f32_sub (pos_Z center) radius))
                           (cellCoord cellSize (f32_add (pos_Z center) radius)) of
             None \<Rightarrow> None
           | Some zs \<Rightarrow> Some (List.product xs zs)))"

definition zero_grid_entry :: grid_entry where
  "zero_grid_entry = \<lparr>ge_position = \<lparr>pos_X = 0, pos_Y = 0, pos_Z = 0, pos_Layer = 0\<rparr>, ge_cell = (0, 0)\<rparr>"

text \<open>The loop over the cells, with what it has found and counted so far.\<close>

fun scanCells ::
  "(entity_id fset \<Rightarrow> entity_id list) \<Rightarrow> grid \<Rightarrow> (position \<Rightarrow> bool) \<Rightarrow> cell_key list \<Rightarrow>
     entity_id list \<times> query_stats \<Rightarrow> entity_id list \<times> query_stats" where
  "scanCells order g near [] acc = acc"
| "scanCells order g near (key # keys) (result, stats) =
     (let bucket = order (gomap_at {||} (gd_cells g) key)
      in scanCells order g near keys
           (result @ filter (\<lambda>i. near (ge_position (gomap_at zero_grid_entry (gd_entries g) i))) bucket,
            stats\<lparr>qs_VisitedCells := qs_VisitedCells stats + 1,
                  qs_CandidateEntities := qs_CandidateEntities stats + length bucket\<rparr>))"

definition zero_query_stats :: query_stats where
  "zero_query_stats = \<lparr>qs_VisitedCells = 0, qs_CandidateEntities = 0, qs_MatchedEntities = 0\<rparr>"

definition QueryRadiusWithStats ::
  "(entity_id fset \<Rightarrow> entity_id list) \<Rightarrow> position \<Rightarrow> f32 \<Rightarrow> query_options \<Rightarrow> grid \<Rightarrow>
     (entity_id list \<times> query_stats) option" where
  "QueryRadiusWithStats order center radius q g =
     (if f32_less radius 0 then Some ([], zero_query_stats)
      else case cell_window (gd_cellSize g) center radius of
             None \<Rightarrow> None
           | Some keys \<Rightarrow>
               let radiusSq = f32_mul radius radius
               in case scanCells order g (in_aoi center radiusSq q) keys ([], zero_query_stats) of
                    (result, stats) \<Rightarrow> Some (sort result, stats\<lparr>qs_MatchedEntities := length result\<rparr>))"

definition QueryRadius ::
  "(entity_id fset \<Rightarrow> entity_id list) \<Rightarrow> position \<Rightarrow> f32 \<Rightarrow> query_options \<Rightarrow> grid \<Rightarrow> entity_id list option" where
  "QueryRadius order center radius q g = map_option fst (QueryRadiusWithStats order center radius q g)"

section \<open>The buckets mirror the entries\<close>

definition grid_inv :: "grid \<Rightarrow> bool" where
  "grid_inv g =
     ((\<forall>i e. fmlookup (gd_entries g) i = Some e \<longrightarrow> ge_cell e = cellFor (gd_cellSize g) (ge_position e)) \<and>
      (\<forall>i key. i |\<in>| gomap_at {||} (gd_cells g) key \<longleftrightarrow>
         (\<exists>e. fmlookup (gd_entries g) i = Some e \<and> ge_cell e = key)) \<and>
      (\<forall>key. fmlookup (gd_cells g) key \<noteq> Some {||}))"

lemma bucket_removeFromCell:
  "gomap_at {||} (gd_cells (removeFromCell i key g)) key' =
     (if key' = key then fminus (gomap_at {||} (gd_cells g) key) {|i|} else gomap_at {||} (gd_cells g) key')"
  by (auto simp: removeFromCell_def Let_def gomap_at_def)

lemma bucket_grid_store:
  "gomap_at {||} (gd_cells (grid_store i p key g)) key' =
     (if key' = key then finsert i (gomap_at {||} (gd_cells g) key) else gomap_at {||} (gd_cells g) key')"
  by (simp add: grid_store_def gomap_at_def)

lemma grid_frames [simp]:
  "gd_entries (removeFromCell i key g) = gd_entries g" "gd_cellSize (removeFromCell i key g) = gd_cellSize g"
  "gd_entries (grid_store i p key g) = fmupd i \<lparr>ge_position = p, ge_cell = key\<rparr> (gd_entries g)"
  "gd_cellSize (grid_store i p key g) = gd_cellSize g"
  by (simp_all add: removeFromCell_def grid_store_def Let_def)

lemma no_empty_bucket:
  "fmlookup (gd_cells g) key' \<noteq> Some {||} \<Longrightarrow> fmlookup (gd_cells (removeFromCell i key g)) key' \<noteq> Some {||}"
  "fmlookup (gd_cells g) key' \<noteq> Some {||} \<Longrightarrow> fmlookup (gd_cells (grid_store i p key g)) key' \<noteq> Some {||}"
  by (auto simp: removeFromCell_def grid_store_def Let_def)

lemma Upsert_fields:
  "gd_entries (Upsert i p g) = fmupd i \<lparr>ge_position = p, ge_cell = cellFor (gd_cellSize g) p\<rparr> (gd_entries g)"
  "gd_cellSize (Upsert i p g) = gd_cellSize g"
  by (simp_all add: Upsert_def Let_def split: option.split)

lemma Remove_fields:
  "gd_entries (grid_Remove i g) = fmdrop i (gd_entries g)" "gd_cellSize (grid_Remove i g) = gd_cellSize g"
proof -
  have "fmdrop i m = m" if "fmlookup m i = None" for m :: "(entity_id, grid_entry) fmap"
    using that by (intro fmap_ext) auto
  then show "gd_entries (grid_Remove i g) = fmdrop i (gd_entries g)"
    by (simp add: grid_Remove_def split: option.split)
  show "gd_cellSize (grid_Remove i g) = gd_cellSize g"
    by (simp add: grid_Remove_def split: option.split)
qed

lemma grid_invD:
  assumes "grid_inv g"
  shows "fmlookup (gd_entries g) i = Some e \<Longrightarrow> ge_cell e = cellFor (gd_cellSize g) (ge_position e)"
    and "i |\<in>| gomap_at {||} (gd_cells g) key \<longleftrightarrow> (\<exists>e. fmlookup (gd_entries g) i = Some e \<and> ge_cell e = key)"
    and "fmlookup (gd_cells g) key \<noteq> Some {||}"
  using assms unfolding grid_inv_def by blast+

lemma Upsert_inv:
  assumes "grid_inv g" shows "grid_inv (Upsert i p g)"
proof -
  note g = grid_invD [OF assms]
  define c where "c = cellFor (gd_cellSize g) p"
  have bucket: "j |\<in>| gomap_at {||} (gd_cells (Upsert i p g)) key \<longleftrightarrow>
      (if j = i then key = c else (\<exists>e. fmlookup (gd_entries g) j = Some e \<and> ge_cell e = key))" for j key
  proof (cases "fmlookup (gd_entries g) i")
    case None
    then show ?thesis
      using g(2) [of j key] g(2) [of j c] by (auto simp: Upsert_def c_def [symmetric] bucket_grid_store)
  next
    case (Some old)
    then show ?thesis
      using g(2) [of j key] g(2) [of j c] g(2) [of j "ge_cell old"]
      by (auto simp: Upsert_def Let_def c_def [symmetric] bucket_grid_store bucket_removeFromCell)
  qed
  have "fmlookup (gd_cells (Upsert i p g)) key \<noteq> Some {||}" for key
    using g(3) by (auto simp: Upsert_def Let_def no_empty_bucket split: option.split)
  then show ?thesis
    using g(1) bucket by (auto simp: grid_inv_def Upsert_fields c_def)
qed

lemma Remove_inv:
  assumes "grid_inv g" shows "grid_inv (grid_Remove i g)"
proof (cases "fmlookup (gd_entries g) i")
  case (Some old)
  note g = grid_invD [OF assms]
  have bucket: "j |\<in>| gomap_at {||} (gd_cells (grid_Remove i g)) key \<longleftrightarrow>
      j \<noteq> i \<and> (\<exists>e. fmlookup (gd_entries g) j = Some e \<and> ge_cell e = key)" for j key
    using Some g(2) [of j key] by (auto simp: grid_Remove_def bucket_removeFromCell)
  have "fmlookup (gd_cells (grid_Remove i g)) key \<noteq> Some {||}" for key
    using Some g(3) by (simp add: grid_Remove_def no_empty_bucket)
  then show ?thesis
    using g(1) bucket by (auto simp: grid_inv_def Remove_fields)
qed (use assms in \<open>simp add: grid_Remove_def\<close>)

lemma NewGrid_inv: "NewGrid c = Some g \<Longrightarrow> grid_inv g \<and> gd_cellSize g = c \<and> gd_entries g = fmempty"
  by (auto simp: NewGrid_def grid_inv_def gomap_at_def split: if_splits)

section \<open>The query finds exactly the entities of its window\<close>

text \<open>The order in which Go ranges over a bucket: any enumeration of it.\<close>

locale go_range =
  fixes order :: "entity_id fset \<Rightarrow> entity_id list"
  assumes order_distinct: "distinct (order S)"
    and order_set: "set (order S) = fset S"
begin

definition candidates :: "grid \<Rightarrow> cell_key list \<Rightarrow> entity_id list" where
  "candidates g keys = concat (map (\<lambda>key. order (gomap_at {||} (gd_cells g) key)) keys)"

lemma scanCells_candidates:
  "scanCells order g near keys (result, stats) =
     (result @ filter (\<lambda>i. near (ge_position (gomap_at zero_grid_entry (gd_entries g) i))) (candidates g keys),
      stats\<lparr>qs_VisitedCells := qs_VisitedCells stats + length keys,
            qs_CandidateEntities := qs_CandidateEntities stats + length (candidates g keys)\<rparr>)"
  by (induction keys arbitrary: result stats) (simp_all add: candidates_def Let_def)

lemma set_candidates:
  assumes "grid_inv g"
  shows "i \<in> set (candidates g keys) \<longleftrightarrow> (\<exists>e. fmlookup (gd_entries g) i = Some e \<and> ge_cell e \<in> set keys)"
  using grid_invD(2) [OF assms] by (auto simp: candidates_def order_set)

lemma distinct_candidates:
  assumes "grid_inv g" and "distinct keys"
  shows "distinct (candidates g keys)"
  using assms(2)
proof (induction keys)
  case (Cons key keys)
  have "set (order (gomap_at {||} (gd_cells g) key)) \<inter> set (candidates g keys) = {}"
    using Cons.prems by (auto simp: order_set grid_invD(2) [OF assms(1)] set_candidates [OF assms(1)])
  with Cons order_distinct show ?case by (simp add: candidates_def)
qed (simp add: candidates_def)

lemma query_exact:
  assumes inv: "grid_inv g" and r: "\<not> f32_less radius 0" and w: "cell_window (gd_cellSize g) center radius = Some keys"
    and d: "distinct keys"
  shows "\<exists>ids stats. QueryRadiusWithStats order center radius q g = Some (ids, stats) \<and> sorted ids \<and> distinct ids \<and>
    (\<forall>i. i \<in> set ids \<longleftrightarrow> (\<exists>e. fmlookup (gd_entries g) i = Some e \<and> ge_cell e \<in> set keys \<and>
       in_aoi center (f32_mul radius radius) q (ge_position e))) \<and>
    qs_VisitedCells stats = length keys \<and> qs_MatchedEntities stats = length ids \<and>
    qs_CandidateEntities stats = card {i. \<exists>e. fmlookup (gd_entries g) i = Some e \<and> ge_cell e \<in> set keys}"
proof -
  define near where "near i \<longleftrightarrow> in_aoi center (f32_mul radius radius) q (ge_position (gomap_at zero_grid_entry (gd_entries g) i))" for i
  define found where "found = filter near (candidates g keys)"
  define stats where "stats = \<lparr>qs_VisitedCells = length keys, qs_CandidateEntities = length (candidates g keys),
    qs_MatchedEntities = length found\<rparr>"
  have q: "QueryRadiusWithStats order center radius q g = Some (sort found, stats)"
    using r w
    by (simp add: QueryRadiusWithStats_def Let_def scanCells_candidates zero_query_stats_def stats_def found_def near_def [abs_def])
  have "set (candidates g keys) = {i. \<exists>e. fmlookup (gd_entries g) i = Some e \<and> ge_cell e \<in> set keys}"
    using set_candidates [OF inv] by blast
  then have count: "qs_CandidateEntities stats = card {i. \<exists>e. fmlookup (gd_entries g) i = Some e \<and> ge_cell e \<in> set keys}"
    using distinct_card [OF distinct_candidates [OF inv d]] by (simp add: stats_def)
  have mem: "i \<in> set (sort found) \<longleftrightarrow> (\<exists>e. fmlookup (gd_entries g) i = Some e \<and> ge_cell e \<in> set keys \<and>
      in_aoi center (f32_mul radius radius) q (ge_position e))" for i
    using set_candidates [OF inv, of i keys] by (auto simp: found_def near_def gomap_at_def)
  have "distinct (sort found)" using distinct_candidates [OF inv d] by (simp add: found_def)
  with q count mem show ?thesis
    by (intro exI [of _ "sort found"] exI [of _ stats]) (simp add: stats_def)
qed

end

interpretation sorted_ids: go_range "sorted_list_of_fset"
  by unfold_locales (simp_all add: sorted_list_of_fset.rep_eq)

lemma cell_window_distinct: "cell_window c center radius = Some keys \<Longrightarrow> distinct keys"
proof -
  assume w: "cell_window c center radius = Some keys"
  have range: "distinct xs" if "cell_range lo hi = Some xs" for lo hi xs
    using that by (auto simp: cell_range_def split: if_splits)
  from w show ?thesis
    unfolding cell_window_def by (auto split: option.splits list.splits simp del: product.simps intro!: distinct_product dest!: range)
qed

text \<open>The index as a machine, and what it stands for: the last position of each entity.\<close>

datatype grid_command = GUpsert entity_id position | GRemove entity_id

fun grid_step :: "grid_command \<Rightarrow> grid \<Rightarrow> unit \<times> grid" where
  "grid_step (GUpsert i p) g = ((), Upsert i p g)"
| "grid_step (GRemove i) g = ((), grid_Remove i g)"

fun placed :: "grid_command list \<Rightarrow> (entity_id \<rightharpoonup> position) \<Rightarrow> (entity_id \<rightharpoonup> position)" where
  "placed [] m = m"
| "placed (GUpsert i p # xs) m = placed xs (m(i \<mapsto> p))"
| "placed (GRemove i # xs) m = placed xs (m(i := None))"

interpretation grids: kept_invariant grid_step grid_inv
proof
  fix g x assume "grid_inv g"
  then show "grid_inv (snd (grid_step x g))" by (cases x) (simp_all add: Upsert_inv Remove_inv)
qed

lemma grid_run_positions: "grid_Position (run_ops grid_step xs g) = placed xs (grid_Position g)"
proof (induction xs arbitrary: g)
  case (Cons x xs)
  have "grid_Position (snd (grid_step x g)) =
      (case x of GUpsert i p \<Rightarrow> (grid_Position g)(i \<mapsto> p) | GRemove i \<Rightarrow> (grid_Position g)(i := None))"
    by (cases x) (simp_all add: grid_Position_def fun_eq_iff Upsert_fields Remove_fields)
  then show ?case
    using Cons [of "snd (grid_step x g)"] by (cases x) (simp_all del: fun_upd_apply)
qed simp

lemma grid_run_cellSize: "gd_cellSize (run_ops grid_step xs g) = gd_cellSize g"
proof (induction xs arbitrary: g)
  case (Cons x xs)
  then show ?case by (cases x) (simp_all add: Upsert_fields Remove_fields)
qed simp

text \<open>
  C24. The spatial index finds exactly what is there. After any history of updates and removals,
  whatever order Go visits the buckets in, a radius query whose cell window \<open>keys\<close> ends before
  the last cell returns, in ascending order and without repetition, precisely the entities whose
  last position lies in a cell of the window and passes the layer, height and distance tests; and
  its counters are exact.
\<close>

theorem grid_query_exact:
  assumes "go_range order" and "NewGrid c = Some g0" and "\<not> f32_less radius 0"
    and "cell_window c center radius = Some keys"
  shows "\<exists>ids stats. QueryRadiusWithStats order center radius q (run_ops grid_step xs g0) = Some (ids, stats) \<and>
    sorted ids \<and> distinct ids \<and>
    (\<forall>i. i \<in> set ids \<longleftrightarrow> (\<exists>p. placed xs Map.empty i = Some p \<and> cellFor c p \<in> set keys \<and>
       in_aoi center (f32_mul radius radius) q p)) \<and>
    qs_VisitedCells stats = length keys \<and> qs_MatchedEntities stats = length ids \<and>
    qs_CandidateEntities stats = card {i. \<exists>p. placed xs Map.empty i = Some p \<and> cellFor c p \<in> set keys}"
proof -
  define g where "g = run_ops grid_step xs g0"
  have g0: "grid_inv g0" "gd_cellSize g0 = c" "grid_Position g0 = Map.empty"
    using NewGrid_inv [OF assms(2)] by (auto simp: grid_Position_def)
  have inv: "grid_inv g" unfolding g_def by (rule grids.run_inv [OF g0(1)])
  have size: "gd_cellSize g = c" using grid_run_cellSize g0(2) by (simp add: g_def)
  have at: "(\<exists>e. fmlookup (gd_entries g) i = Some e \<and> ge_cell e \<in> set keys \<and> P (ge_position e)) \<longleftrightarrow>
      (\<exists>p. placed xs Map.empty i = Some p \<and> cellFor c p \<in> set keys \<and> P p)" for i P
  proof -
    have "placed xs Map.empty i = map_option ge_position (fmlookup (gd_entries g) i)"
      using grid_run_positions [of xs g0] g0(3) by (simp add: g_def grid_Position_def fun_eq_iff)
    then show ?thesis
      using grid_invD(1) [OF inv, of i] by (cases "fmlookup (gd_entries g) i") (auto simp: size)
  qed
  have w: "cell_window (gd_cellSize g) center radius = Some keys" using assms(4) size by simp
  from go_range.query_exact [OF assms(1) inv assms(3) w cell_window_distinct [OF assms(4)], of q] show ?thesis
    unfolding g_def [symmetric] at [of _ "\<lambda>_. True", simplified] by (simp add: at)
qed

section \<open>Witness\<close>

definition sample_index :: grid where
  "sample_index = \<lparr>gd_cellSize = 0x41000000, gd_cells = fmempty, gd_entries = fmempty\<rparr>"

definition sample_place :: "f32 \<Rightarrow> f32 \<Rightarrow> position" where
  "sample_place x z = \<lparr>pos_X = x, pos_Y = 0, pos_Z = z, pos_Layer = 0\<rparr>"

definition sample_moves :: "grid_command list" where
  "sample_moves = [GUpsert 3 (sample_place 0x3F800000 0), GUpsert 1 (sample_place 0 0x3F800000),
     GUpsert 2 (sample_place 0x42480000 0), GUpsert 4 (sample_place 0 0), GRemove 4]"

theorem grid_query_exact_witness:
  "\<exists>stats. QueryRadiusWithStats sorted_list_of_fset (sample_place 0 0) 0x40000000
      \<lparr>qo_SameLayer = True, qo_MaxHeightDelta = 0\<rparr> (run_ops grid_step sample_moves sample_index) = Some ([1, 3], stats) \<and>
    qs_VisitedCells stats = 4"
proof -
  have new: "NewGrid 0x41000000 = Some sample_index" by code_simp
  have keys: "cell_window 0x41000000 (sample_place 0 0) 0x40000000 = Some [(-1, -1), (-1, 0), (0, -1), (0, 0)]"
    by code_simp
  have pos: "\<not> f32_less 0x40000000 0" by code_simp
  have cells: "cellFor 0x41000000 (sample_place 0x3F800000 0) = (0, 0)" "cellFor 0x41000000 (sample_place 0 0x3F800000) = (0, 0)"
    "cellFor 0x41000000 (sample_place 0x42480000 0) = (6, 0)" by code_simp+
  have near: "in_aoi (sample_place 0 0) (f32_mul 0x40000000 0x40000000) \<lparr>qo_SameLayer = True, qo_MaxHeightDelta = 0\<rparr> (sample_place 0x3F800000 0)"
    "in_aoi (sample_place 0 0) (f32_mul 0x40000000 0x40000000) \<lparr>qo_SameLayer = True, qo_MaxHeightDelta = 0\<rparr> (sample_place 0 0x3F800000)"
    by code_simp+
  from grid_query_exact [OF sorted_ids.go_range_axioms new pos keys, of "\<lparr>qo_SameLayer = True, qo_MaxHeightDelta = 0\<rparr>" sample_moves]
  obtain ids stats where r: "QueryRadiusWithStats sorted_list_of_fset (sample_place 0 0) 0x40000000
      \<lparr>qo_SameLayer = True, qo_MaxHeightDelta = 0\<rparr> (run_ops grid_step sample_moves sample_index) = Some (ids, stats)"
    "sorted ids" "distinct ids" "\<forall>i. i \<in> set ids \<longleftrightarrow> (\<exists>p. placed sample_moves Map.empty i = Some p \<and>
       cellFor 0x41000000 p \<in> set [(-1, -1), (-1, 0), (0, -1), (0, 0)] \<and>
       in_aoi (sample_place 0 0) (f32_mul 0x40000000 0x40000000) \<lparr>qo_SameLayer = True, qo_MaxHeightDelta = 0\<rparr> p)"
    "qs_VisitedCells stats = length [(-1, -1), (-1, 0), (0, -1), (0 :: int, 0 :: int)]"
    by (elim exE conjE) (rule that)
  have "i \<in> set ids \<longleftrightarrow> i = 1 \<or> i = 3" for i
    using r(4) cells near by (auto simp: sample_moves_def split: if_splits)
  then have "set ids = set [1, 3 :: entity_id]" by auto
  then have "ids = [1, 3]"
    using r(2,3) sorted_distinct_set_unique [of ids "[1, 3]"] by simp
  then show ?thesis using r(1,5) by simp
qed

end
