(* ===== verification/ReadFrame.thy ===== *)
theory ReadFrame
  imports SpatialGrid
begin

text \<open>
  The read side of the spatial index (\<open>internal/spatial/read_frame.go\<close>): a frame over an
  immutable list of entities with its own buckets of list indexes and a cache of candidate lists
  per query window. The destination slice a caller hands in is only reused memory and left out.
\<close>

section \<open>The frame\<close>

type_synonym window_key = "int \<times> int \<times> int \<times> int"

record read_stats =
  rs_VisitedCells :: int
  rs_CandidateEntities :: nat
  rs_MatchedEntities :: nat
  rs_SharedCandidateBuilds :: nat
  rs_SharedCandidateReuses :: nat
  rs_SharedCandidateScans :: nat

definition zero_read_stats :: read_stats where
  "zero_read_stats = \<lparr>rs_VisitedCells = 0, rs_CandidateEntities = 0, rs_MatchedEntities = 0,
     rs_SharedCandidateBuilds = 0, rs_SharedCandidateReuses = 0, rs_SharedCandidateScans = 0\<rparr>"

record read_frame =
  rf_cellSize :: f32
  rf_entities :: "entity_state list"
  rf_cells :: "(cell_key, nat list) fmap"
  rf_candidateCache :: "(window_key, nat list) fmap"

abbreviation entity_pos :: "entity_state \<Rightarrow> position" where
  "entity_pos e \<equiv> tf_Position (en_Transform e)"

definition zero_entity_state :: entity_state where
  "zero_entity_state = \<lparr>en_ID = 0, en_Kind = EntityUnknown, en_ArchetypeID = '''', en_BodySize = '''',
     en_Transform = \<lparr>tf_Position = \<lparr>pos_X = 0, pos_Y = 0, pos_Z = 0, pos_Layer = 0\<rparr>, tf_Yaw = 0\<rparr>\<rparr>"

definition zero_read_frame :: read_frame where
  "zero_read_frame = \<lparr>rf_cellSize = 0, rf_entities = [], rf_cells = fmempty, rf_candidateCache = fmempty\<rparr>"

definition frame_fill :: "f32 \<Rightarrow> entity_state list \<Rightarrow> (cell_key, nat list) fmap" where
  "frame_fill cellSize entities =
     fold (\<lambda>i m. let key = cellFor cellSize (entity_pos (entities ! i)) in fmupd key (gomap_at [] m key @ [i]) m)
       [0 ..< length entities] fmempty"

text \<open>\<open>Reset\<close> panics on a cell size that is not positive.\<close>

definition frame_Reset :: "f32 \<Rightarrow> entity_state list \<Rightarrow> read_frame \<Rightarrow> read_frame option" where
  "frame_Reset cellSize entities f =
     (if f32_leq cellSize 0 then None
      else Some \<lparr>rf_cellSize = cellSize, rf_entities = entities, rf_cells = frame_fill cellSize entities,
                 rf_candidateCache = fmempty\<rparr>)"

definition wrap_i32 :: "int \<Rightarrow> int" where
  "wrap_i32 n = (n + 2 ^ 31) mod 2 ^ 32 - 2 ^ 31"

text \<open>The candidates of a window: from the cache, or collected and stored.\<close>

definition frame_candidates ::
  "window_key \<Rightarrow> cell_key list option \<Rightarrow> read_frame \<Rightarrow> (nat list \<times> bool \<times> read_frame) option" where
  "frame_candidates key window f =
     (case fmlookup (rf_candidateCache f) key of
        Some candidates \<Rightarrow> Some (candidates, True, f)
      | None \<Rightarrow>
          (case window of
             None \<Rightarrow> None
           | Some keys \<Rightarrow>
               let candidates = sort (concat (map (gomap_at [] (rf_cells f)) keys))
               in Some (candidates, False, f\<lparr>rf_candidateCache := fmupd key candidates (rf_candidateCache f)\<rparr>)))"

definition QueryRadiusInto ::
  "position \<Rightarrow> f32 \<Rightarrow> query_options \<Rightarrow> read_frame \<Rightarrow> ((nat list \<times> read_stats) \<times> read_frame) option" where
  "QueryRadiusInto center radius q f =
     (if f32_less radius 0 \<or> f32_leq (rf_cellSize f) 0 then Some (([], zero_read_stats), f)
      else
        let minX = cellCoord (rf_cellSize f) (f32_sub (pos_X center) radius);
            maxX = cellCoord (rf_cellSize f) (f32_add (pos_X center) radius);
            minZ = cellCoord (rf_cellSize f) (f32_sub (pos_Z center) radius);
            maxZ = cellCoord (rf_cellSize f) (f32_add (pos_Z center) radius);
            visited = wrap_i64 (wrap_i32 (maxX - minX + 1) * wrap_i32 (maxZ - minZ + 1))
        in case frame_candidates (minX, maxX, minZ, maxZ) (cell_window (rf_cellSize f) center radius) f of
             None \<Rightarrow> None
           | Some (candidates, reused, f') \<Rightarrow>
               let radiusSq = f32_mul radius radius;
                   found = filter (\<lambda>i. in_aoi center radiusSq q (entity_pos (rf_entities f' ! i))) candidates
               in Some ((found, \<lparr>rs_VisitedCells = visited, rs_CandidateEntities = length candidates,
                    rs_MatchedEntities = length found, rs_SharedCandidateBuilds = (if reused then 0 else 1),
                    rs_SharedCandidateReuses = (if reused then 1 else 0),
                    rs_SharedCandidateScans = (if reused then 0 else length candidates)\<rparr>), f'))"

section \<open>The cache never changes an answer\<close>

definition window_of :: "window_key \<Rightarrow> cell_key list" where
  "window_of k = (case k of (minX, maxX, minZ, maxZ) \<Rightarrow> List.product [minX..maxX] [minZ..maxZ])"

definition indexes_in :: "f32 \<Rightarrow> entity_state list \<Rightarrow> cell_key set \<Rightarrow> nat list" where
  "indexes_in c es keys = filter (\<lambda>i. cellFor c (entity_pos (es ! i)) \<in> keys) [0 ..< length es]"

definition frame_inv :: "f32 \<Rightarrow> entity_state list \<Rightarrow> read_frame \<Rightarrow> bool" where
  "frame_inv c es f =
     (rf_cellSize f = c \<and> rf_entities f = es \<and>
      (\<forall>key. gomap_at [] (rf_cells f) key = indexes_in c es {key}) \<and>
      (\<forall>k xs. fmlookup (rf_candidateCache f) k = Some xs \<longrightarrow> xs = indexes_in c es (set (window_of k))))"

lemma cell_window_keys:
  "cell_window c center radius = Some keys \<Longrightarrow>
     set keys = set (window_of (cellCoord c (f32_sub (pos_X center) radius), cellCoord c (f32_add (pos_X center) radius),
       cellCoord c (f32_sub (pos_Z center) radius), cellCoord c (f32_add (pos_Z center) radius)))"
proof -
  assume w: "cell_window c center radius = Some keys"
  define xs where "xs = [cellCoord c (f32_sub (pos_X center) radius)..cellCoord c (f32_add (pos_X center) radius)]"
  define zs where "zs = [cellCoord c (f32_sub (pos_Z center) radius)..cellCoord c (f32_add (pos_Z center) radius)]"
  have "keys = List.product xs zs"
    using w by (cases xs) (auto simp: cell_window_def cell_range_def xs_def [symmetric] zs_def [symmetric]
      simp del: product.simps(2) split: option.splits if_splits)
  then show ?thesis by (simp add: window_of_def xs_def zs_def del: product.simps)
qed

lemma frame_fill_at: "gomap_at [] (frame_fill c es) key = indexes_in c es {key}"
proof -
  have "gomap_at [] (fold (\<lambda>i m. let key = cellFor c (entity_pos (es ! i)) in fmupd key (gomap_at [] m key @ [i]) m) is m) key =
      gomap_at [] m key @ filter (\<lambda>i. cellFor c (entity_pos (es ! i)) \<in> {key}) is" for "is" m
    by (induction "is" arbitrary: m) (simp_all add: Let_def)
  then show ?thesis by (simp add: frame_fill_def indexes_in_def)
qed

lemma indexes_sorted: "sorted (indexes_in c es K)" "distinct (indexes_in c es K)"
  by (simp_all add: indexes_in_def sorted_wrt_filter)

lemma collected:
  assumes "frame_inv c es f"
  shows "distinct keys \<Longrightarrow> sort (concat (map (gomap_at [] (rf_cells f)) keys)) = indexes_in c es (set keys)"
proof -
  assume d: "distinct keys"
  have at: "gomap_at [] (rf_cells f) key = indexes_in c es {key}" for key using assms unfolding frame_inv_def by blast
  have "distinct (concat (map (indexes_in c es) (map (\<lambda>k. {k}) keys)))"
    using d by (induction keys) (auto simp: indexes_in_def)
  then have "distinct (concat (map (gomap_at [] (rf_cells f)) keys))" by (simp add: at o_def cong: map_cong)
  moreover have "set (concat (map (gomap_at [] (rf_cells f)) keys)) = set (indexes_in c es (set keys))"
    by (auto simp: at indexes_in_def)
  ultimately show ?thesis
    by (intro sorted_distinct_set_unique) (simp_all add: indexes_sorted)
qed

lemma frame_candidates_inv:
  assumes inv: "frame_inv c es f" and w: "cell_window c center radius = Some keys"
    and k: "k = (cellCoord c (f32_sub (pos_X center) radius), cellCoord c (f32_add (pos_X center) radius),
       cellCoord c (f32_sub (pos_Z center) radius), cellCoord c (f32_add (pos_Z center) radius))"
  shows "\<exists>reused f'. frame_candidates k (cell_window c center radius) f = Some (indexes_in c es (set keys), reused, f') \<and>
    frame_inv c es f'"
proof (cases "fmlookup (rf_candidateCache f) k")
  case None
  have "sort (concat (map (gomap_at [] (rf_cells f)) keys)) = indexes_in c es (set keys)"
    by (rule collected [OF inv cell_window_distinct [OF w]])
  moreover have "frame_inv c es (f\<lparr>rf_candidateCache := fmupd k (indexes_in c es (set keys)) (rf_candidateCache f)\<rparr>)"
    using inv cell_window_keys [OF w] unfolding k frame_inv_def by simp
  ultimately show ?thesis using None w by (intro exI [of _ False]) (simp add: frame_candidates_def Let_def)
next
  case (Some xs)
  then have "xs = indexes_in c es (set (window_of k))" using inv unfolding frame_inv_def by blast
  then have "xs = indexes_in c es (set keys)" using cell_window_keys [OF w] by (simp add: k)
  then show ?thesis using Some inv by (intro exI [of _ True]) (simp add: frame_candidates_def)
qed

lemma QueryRadiusInto_inv:
  assumes inv: "frame_inv c es f" and c: "\<not> f32_leq c 0" and r: "\<not> f32_less radius 0"
    and w: "cell_window c center radius = Some keys"
  shows "\<exists>stats f'. QueryRadiusInto center radius q f =
      Some ((filter (\<lambda>i. in_aoi center (f32_mul radius radius) q (entity_pos (es ! i))) (indexes_in c es (set keys)), stats), f') \<and>
    frame_inv c es f'"
proof -
  have size: "rf_cellSize f = c" using inv by (simp add: frame_inv_def)
  obtain reused f' where f': "frame_candidates (cellCoord c (f32_sub (pos_X center) radius), cellCoord c (f32_add (pos_X center) radius),
       cellCoord c (f32_sub (pos_Z center) radius), cellCoord c (f32_add (pos_Z center) radius)) (cell_window c center radius) f =
      Some (indexes_in c es (set keys), reused, f')" "frame_inv c es f'"
    using frame_candidates_inv [OF inv w refl] by blast
  moreover have "rf_entities f' = es" using f'(2) by (simp add: frame_inv_def)
  ultimately show ?thesis using c r by (simp add: QueryRadiusInto_def Let_def size)
qed

lemma QueryRadiusInto_keeps:
  assumes "frame_inv c es f" and "QueryRadiusInto center radius q f = Some (r, f')"
  shows "frame_inv c es f'"
proof (cases "f32_less radius 0 \<or> f32_leq c 0")
  case True
  with assms show ?thesis by (auto simp: QueryRadiusInto_def frame_inv_def)
next
  case False
  have size: "rf_cellSize f = c" using assms(1) by (simp add: frame_inv_def)
  obtain k xs reused where fc: "frame_candidates k (cell_window c center radius) f = Some (xs, reused, f')"
      and k: "k = (cellCoord c (f32_sub (pos_X center) radius), cellCoord c (f32_add (pos_X center) radius),
       cellCoord c (f32_sub (pos_Z center) radius), cellCoord c (f32_add (pos_Z center) radius))"
    using assms(2) False by (auto simp: QueryRadiusInto_def Let_def size split: option.splits prod.splits)
  show ?thesis
  proof (cases "cell_window c center radius")
    case None
    with fc assms(1) show ?thesis by (auto simp: frame_candidates_def split: option.splits)
  next
    case (Some keys)
    from frame_candidates_inv [OF assms(1) Some k] fc show ?thesis by auto
  qed
qed

text \<open>Queries against one frame; each may be the first of its window.\<close>

type_synonym aoi_query = "position \<times> f32 \<times> query_options"

fun frame_queries :: "aoi_query list \<Rightarrow> read_frame \<Rightarrow> read_frame option" where
  "frame_queries [] f = Some f"
| "frame_queries ((center, radius, q) # qs) f =
     (case QueryRadiusInto center radius q f of None \<Rightarrow> None | Some (_, f') \<Rightarrow> frame_queries qs f')"

lemma frame_queries_inv: "frame_inv c es f \<Longrightarrow> frame_queries qs f = Some f' \<Longrightarrow> frame_inv c es f'"
  by (induction qs f rule: frame_queries.induct) (auto split: option.splits dest: QueryRadiusInto_keeps)

lemma Reset_inv: "frame_Reset c es f = Some f' \<Longrightarrow> frame_inv c es f' \<and> \<not> f32_leq c 0"
  by (auto simp: frame_Reset_def frame_inv_def frame_fill_at split: if_splits)

text \<open>
  The replication frame sees what the world's index sees. Take a frame reset over entities
  sorted by id, after any earlier queries against it, cached or not, and an index of the same cell
  size with the same positions: a radius query of the frame returns exactly the entities the index
  returns, in the same order.
\<close>

lemma frame_query_equals_grid:
  assumes "go_range order" and "grid_inv g" and "frame_Reset (gd_cellSize g) es f0 = Some f1"
    and "frame_queries qs f1 = Some f2" and "sorted (map en_ID es)" and "distinct (map en_ID es)"
    and "\<forall>i p. grid_Position g i = Some p \<longleftrightarrow> (\<exists>e \<in> set es. en_ID e = i \<and> entity_pos e = p)"
    and "\<not> f32_less radius 0" and "cell_window (gd_cellSize g) center radius = Some keys"
  shows "\<exists>found stats f3. QueryRadiusInto center radius q f2 = Some ((found, stats), f3) \<and>
    QueryRadius order center radius q g = Some (map (\<lambda>i. en_ID (es ! i)) found)"
proof -
  define c where "c = gd_cellSize g"
  have inv: "frame_inv c es f2" and c: "\<not> f32_leq c 0"
    using Reset_inv [OF assms(3)] frame_queries_inv assms(4) by (auto simp: c_def)
  define found where "found = filter (\<lambda>i. in_aoi center (f32_mul radius radius) q (entity_pos (es ! i))) (indexes_in c es (set keys))"
  obtain stats f3 where fr: "QueryRadiusInto center radius q f2 = Some ((found, stats), f3)"
    using QueryRadiusInto_inv [OF inv c assms(8), of center keys q] assms(9) by (auto simp: c_def found_def)
  obtain ids st where gr: "QueryRadiusWithStats order center radius q g = Some (ids, st)" "sorted ids" "distinct ids"
    and mem: "\<forall>i. i \<in> set ids \<longleftrightarrow> (\<exists>e. fmlookup (gd_entries g) i = Some e \<and> ge_cell e \<in> set keys \<and>
       in_aoi center (f32_mul radius radius) q (ge_position e))"
    using go_range.query_exact [OF assms(1,2,8,9) cell_window_distinct [OF assms(9)], of q] by (elim exE conjE) (rule that)
  have idx: "found = filter (\<lambda>i. cellFor c (entity_pos (es ! i)) \<in> set keys \<and>
      in_aoi center (f32_mul radius radius) q (entity_pos (es ! i))) [0 ..< length es]"
    by (simp add: found_def indexes_in_def conj_commute)
  have map_found: "map (\<lambda>i. en_ID (es ! i)) found =
      map en_ID (filter (\<lambda>e. cellFor c (entity_pos e) \<in> set keys \<and> in_aoi center (f32_mul radius radius) q (entity_pos e)) es)"
  proof -
    have "filter P es = map ((!) es) (filter (\<lambda>i. P (es ! i)) [0 ..< length es])" for P
      using filter_map [of P "(!) es" "[0 ..< length es]"] by (simp add: map_nth o_def)
    then show ?thesis by (simp add: idx o_def)
  qed
  have "i \<in> set ids \<longleftrightarrow> i \<in> set (map (\<lambda>i. en_ID (es ! i)) found)" for i
  proof -
    have "i \<in> set ids \<longleftrightarrow> (\<exists>p. grid_Position g i = Some p \<and> cellFor c p \<in> set keys \<and> in_aoi center (f32_mul radius radius) q p)"
      using mem grid_invD(1) [OF assms(2), of i] by (auto simp: grid_Position_def c_def)
    then show ?thesis using assms(7) by (auto simp: map_found)
  qed
  moreover have "sorted (map (\<lambda>i. en_ID (es ! i)) found)" "distinct (map (\<lambda>i. en_ID (es ! i)) found)"
    unfolding map_found using assms(5,6) by (simp_all add: sorted_filter distinct_map_filter)
  ultimately have "ids = map (\<lambda>i. en_ID (es ! i)) found"
    using gr(2,3) by (intro sorted_distinct_set_unique) auto
  with fr gr(1) show ?thesis by (auto simp: QueryRadius_def)
qed

end
