(* ===== verification/SimulationWorld.thy ===== *)
theory SimulationWorld
  imports ReadFrame
begin

text \<open>
  The simulation world (\<open>internal/simulation\<close>): actors with their entity state and movement state,
  kept in step with the spatial index, and the frame the replication reads. \<open>math.Atan2\<close> in
  degrees is an argument (\<open>atan2deg\<close>), as are the navigator and the orders in which Go ranges over
  its maps.
\<close>

section \<open>The world\<close>

datatype simulation_error = ErrEntityExists | ErrEntityNotFound

record actor =
  ac_entity :: entity_state
  ac_move :: agent_state

record sim_env =
  se_move :: nav_move
  se_maxDeltaSeconds :: f32
  se_atan2deg :: "f32 \<Rightarrow> f32 \<Rightarrow> f32"

record sim_world =
  sw_actors :: "(entity_id, actor) fmap"
  sw_spatial :: grid

definition sim_Spawn ::
  "entity_state \<Rightarrow> f32 \<Rightarrow> f32 \<Rightarrow> f32 \<Rightarrow> sim_world \<Rightarrow> simulation_error option \<times> sim_world" where
  "sim_Spawn entity speed radius maxStepHeight w =
     (if gomap_has (sw_actors w) (en_ID entity) then (Some ErrEntityExists, w)
      else let a = \<lparr>ac_entity = entity, ac_move = \<lparr>ag_Position = tf_Position (en_Transform entity), ag_Speed = speed,
                     ag_Radius = radius, ag_MaxStepHeight = maxStepHeight, ag_Direction = zero_vec3\<rparr>\<rparr>
           in (None, w\<lparr>sw_actors := fmupd (en_ID entity) a (sw_actors w),
                       sw_spatial := Upsert (en_ID entity) (tf_Position (en_Transform entity)) (sw_spatial w)\<rparr>))"

definition sim_Remove :: "entity_id \<Rightarrow> sim_world \<Rightarrow> sim_world" where
  "sim_Remove i w = w\<lparr>sw_actors := fmdrop i (sw_actors w), sw_spatial := grid_Remove i (sw_spatial w)\<rparr>"

definition set_position :: "position \<Rightarrow> entity_state \<Rightarrow> entity_state" where
  "set_position p e = e\<lparr>en_Transform := (en_Transform e)\<lparr>tf_Position := p\<rparr>\<rparr>"

definition sim_Teleport :: "entity_id \<Rightarrow> position \<Rightarrow> sim_world \<Rightarrow> simulation_error option \<times> sim_world" where
  "sim_Teleport i p w =
     (case fmlookup (sw_actors w) i of
        None \<Rightarrow> (Some ErrEntityNotFound, w)
      | Some a \<Rightarrow>
          (None, w\<lparr>sw_actors := fmupd i \<lparr>ac_entity = set_position p (ac_entity a),
                ac_move = (ac_move a)\<lparr>ag_Position := p, ag_Direction := zero_vec3\<rparr>\<rparr> (sw_actors w),
              sw_spatial := Upsert i p (sw_spatial w)\<rparr>))"

definition setActorFacingDirection :: "sim_env \<Rightarrow> vec3 \<Rightarrow> actor \<Rightarrow> actor" where
  "setActorFacingDirection E d a =
     (if f32_eq (v3_X d) 0 \<and> f32_eq (v3_Z d) 0 then a
      else a\<lparr>ac_entity := (ac_entity a)\<lparr>en_Transform := (en_Transform (ac_entity a))
                \<lparr>tf_Yaw := se_atan2deg E (v3_Z d) (v3_X d)\<rparr>\<rparr>\<rparr>)"

definition SetMoveInput :: "sim_env \<Rightarrow> entity_id \<Rightarrow> vec3 \<Rightarrow> sim_world \<Rightarrow> simulation_error option \<times> sim_world" where
  "SetMoveInput E i direction w =
     (case fmlookup (sw_actors w) i of
        None \<Rightarrow> (Some ErrEntityNotFound, w)
      | Some a \<Rightarrow>
          let a1 = a\<lparr>ac_move := AcceptInput direction (ac_move a)\<rparr>
          in (None, w\<lparr>sw_actors := fmupd i (setActorFacingDirection E (ag_Direction (ac_move a1)) a1) (sw_actors w)\<rparr>))"

definition SetFacingDirection :: "sim_env \<Rightarrow> entity_id \<Rightarrow> vec3 \<Rightarrow> sim_world \<Rightarrow> simulation_error option \<times> sim_world" where
  "SetFacingDirection E i direction w =
     (case fmlookup (sw_actors w) i of
        None \<Rightarrow> (Some ErrEntityNotFound, w)
      | Some a \<Rightarrow> (None, w\<lparr>sw_actors := fmupd i (setActorFacingDirection E (NormalizedXZ direction) a) (sw_actors w)\<rparr>))"

text \<open>One entity in a tick.\<close>

definition sim_tickOne ::
  "sim_env \<Rightarrow> f32 \<Rightarrow> entity_id \<Rightarrow> sim_world \<Rightarrow> (entity_id \<times> movement_error) list \<times> sim_world" where
  "sim_tickOne E deltaSeconds i w =
     (case fmlookup (sw_actors w) i of
        None \<Rightarrow> ([], w)
      | Some a \<Rightarrow>
          (case movement_Step (se_move E) (se_maxDeltaSeconds E) deltaSeconds (ac_move a) of
             ((_, Some e), m) \<Rightarrow> ([(i, e)], w\<lparr>sw_actors := fmupd i (a\<lparr>ac_move := m\<rparr>) (sw_actors w)\<rparr>)
           | ((p, None), m) \<Rightarrow>
               ([], w\<lparr>sw_actors := fmupd i \<lparr>ac_entity = set_position p (ac_entity a), ac_move = m\<rparr> (sw_actors w),
                      sw_spatial := Upsert i p (sw_spatial w)\<rparr>)))"

fun sim_tickAll ::
  "sim_env \<Rightarrow> f32 \<Rightarrow> entity_id list \<Rightarrow> sim_world \<Rightarrow> (entity_id \<times> movement_error) list \<times> sim_world" where
  "sim_tickAll E deltaSeconds [] w = ([], w)"
| "sim_tickAll E deltaSeconds (i # ids) w =
     (case sim_tickOne E deltaSeconds i w of
        (errs, w1) \<Rightarrow> (case sim_tickAll E deltaSeconds ids w1 of (errs', w2) \<Rightarrow> (errs @ errs', w2)))"

definition sim_Tick :: "sim_env \<Rightarrow> f32 \<Rightarrow> sim_world \<Rightarrow> (entity_id \<times> movement_error) list \<times> sim_world" where
  "sim_Tick E deltaSeconds w = sim_tickAll E deltaSeconds (gomap_keys (sw_actors w)) w"

definition sim_Entity :: "sim_world \<Rightarrow> entity_id \<Rightarrow> entity_state option" where
  "sim_Entity w i = map_option ac_entity (fmlookup (sw_actors w) i)"

definition QueryAOI ::
  "(entity_id fset \<Rightarrow> entity_id list) \<Rightarrow> position \<Rightarrow> f32 \<Rightarrow> query_options \<Rightarrow> sim_world \<Rightarrow>
     (entity_state list \<times> query_stats) option" where
  "QueryAOI order center radius q w =
     (case QueryRadiusWithStats order center radius q (sw_spatial w) of
        None \<Rightarrow> None
      | Some (ids, stats) \<Rightarrow> Some (List.map_filter (\<lambda>i. sim_Entity w i) ids, stats))"

text \<open>\<open>Snapshot\<close> sorts what it collects by id, so the order of the map does not show.\<close>

definition sim_Snapshot :: "sim_world \<Rightarrow> entity_state list" where
  "sim_Snapshot w = map (\<lambda>i. ac_entity (the (fmlookup (sw_actors w) i))) (gomap_keys (sw_actors w))"

section \<open>The frame for replication\<close>

definition transform_eq :: "transform \<Rightarrow> transform \<Rightarrow> bool" where
  "transform_eq a b =
     (f32_eq (pos_X (tf_Position a)) (pos_X (tf_Position b)) \<and> f32_eq (pos_Y (tf_Position a)) (pos_Y (tf_Position b)) \<and>
      f32_eq (pos_Z (tf_Position a)) (pos_Z (tf_Position b)) \<and>
      pos_Layer (tf_Position a) = pos_Layer (tf_Position b) \<and> f32_eq (tf_Yaw a) (tf_Yaw b))"

record replication_frame =
  pf_Tick :: u64
  pf_Entities :: "entity_state list"
  pf_TransformGenerations :: "u64 list"
  pf_IndexByID :: "(entity_id, nat) fmap"
  pf_Spatial :: read_frame

record frame_builder =
  fb_frame :: replication_frame
  fb_lastTransforms :: "(entity_id, transform) fmap"
  fb_generations :: "(entity_id, u64) fmap"
  fb_nextGeneration :: u64

definition NewReplicationFrameBuilder :: frame_builder where
  "NewReplicationFrameBuilder =
     \<lparr>fb_frame = \<lparr>pf_Tick = 0, pf_Entities = [], pf_TransformGenerations = [], pf_IndexByID = fmempty,
        pf_Spatial = zero_read_frame\<rparr>,
      fb_lastTransforms = fmempty, fb_generations = fmempty, fb_nextGeneration = 0\<rparr>"

definition frame_Entity :: "replication_frame \<Rightarrow> entity_id \<Rightarrow> (entity_state \<times> u64) option" where
  "frame_Entity f i =
     (case fmlookup (pf_IndexByID f) i of
        None \<Rightarrow> None
      | Some k \<Rightarrow> Some (pf_Entities f ! k, pf_TransformGenerations f ! k))"

text \<open>The generation of one entity: a new one when it is new or its transform has changed.\<close>

definition frame_generation :: "entity_id \<Rightarrow> transform \<Rightarrow> frame_builder \<Rightarrow> u64 \<times> frame_builder" where
  "frame_generation i t b =
     (if (case fmlookup (fb_lastTransforms b) i of None \<Rightarrow> True | Some previous \<Rightarrow> \<not> transform_eq previous t)
      then let g = fb_nextGeneration b + 1
           in (g, b\<lparr>fb_nextGeneration := g, fb_generations := fmupd i g (fb_generations b),
                    fb_lastTransforms := fmupd i t (fb_lastTransforms b)\<rparr>)
      else (gomap_at 0 (fb_generations b) i, b))"

fun frame_generations :: "(entity_id \<times> entity_state) list \<Rightarrow> frame_builder \<Rightarrow> u64 list \<times> frame_builder" where
  "frame_generations [] b = ([], b)"
| "frame_generations ((i, e) # es) b =
     (case frame_generation i (en_Transform e) b of
        (g, b1) \<Rightarrow> (case frame_generations es b1 of (gs, b2) \<Rightarrow> (g # gs, b2)))"

definition frame_Build :: "sim_world \<Rightarrow> u64 \<Rightarrow> frame_builder \<Rightarrow> frame_builder option" where
  "frame_Build w tick b =
     (let ids = gomap_keys (sw_actors w);
          entities = map (\<lambda>i. ac_entity (the (fmlookup (sw_actors w) i))) ids
      in case frame_generations (zip ids entities) b of
           (gs, b1) \<Rightarrow>
             let index = fold (\<lambda>k m. fmupd (ids ! k) k m) [0 ..< length ids] fmempty;
                 b2 = b1\<lparr>fb_lastTransforms := fmfilter (gomap_has index) (fb_lastTransforms b1),
                         fb_generations := fmfilter (\<lambda>i. gomap_has index i \<or> \<not> gomap_has (fb_lastTransforms b1) i) (fb_generations b1)\<rparr>
             in case frame_Reset (gd_cellSize (sw_spatial w)) entities (pf_Spatial (fb_frame b)) of
                  None \<Rightarrow> None
                | Some sp \<Rightarrow> Some (b2\<lparr>fb_frame := \<lparr>pf_Tick = tick, pf_Entities = entities,
                    pf_TransformGenerations = gs, pf_IndexByID = index, pf_Spatial = sp\<rparr>\<rparr>))"

section \<open>Actors, movement and index agree\<close>

definition world_inv :: "sim_world \<Rightarrow> bool" where
  "world_inv w =
     (grid_inv (sw_spatial w) \<and> \<not> f32_leq (gd_cellSize (sw_spatial w)) 0 \<and>
      (\<forall>i. grid_Position (sw_spatial w) i = map_option (entity_pos \<circ> ac_entity) (fmlookup (sw_actors w) i)) \<and>
      (\<forall>i a. fmlookup (sw_actors w) i = Some a \<longrightarrow>
         en_ID (ac_entity a) = i \<and> ag_Position (ac_move a) = entity_pos (ac_entity a)))"

lemma world_invD:
  assumes "world_inv w"
  shows "grid_inv (sw_spatial w)" "\<not> f32_leq (gd_cellSize (sw_spatial w)) 0"
    "grid_Position (sw_spatial w) i = map_option (entity_pos \<circ> ac_entity) (fmlookup (sw_actors w) i)"
    "fmlookup (sw_actors w) i = Some a \<Longrightarrow> en_ID (ac_entity a) = i \<and> ag_Position (ac_move a) = entity_pos (ac_entity a)"
  using assms unfolding world_inv_def by blast+

lemma grid_Position_Upsert: "grid_Position (Upsert i p g) = (grid_Position g)(i \<mapsto> p)"
  by (simp add: grid_Position_def fun_eq_iff Upsert_fields)

lemma grid_Position_Remove: "grid_Position (grid_Remove i g) = (grid_Position g)(i := None)"
  by (simp add: grid_Position_def fun_eq_iff Remove_fields)

text \<open>An actor is placed: its entity, its movement state and the index get the same position.\<close>

lemma place_inv:
  assumes "world_inv w" and "en_ID (ac_entity a) = i" and "entity_pos (ac_entity a) = p" and "ag_Position (ac_move a) = p"
  shows "world_inv (w\<lparr>sw_actors := fmupd i a (sw_actors w), sw_spatial := Upsert i p (sw_spatial w)\<rparr>)"
  using world_invD [OF assms(1)] assms(2-)
  by (simp add: world_inv_def Upsert_inv grid_Position_Upsert Upsert_fields)

text \<open>An actor changes without moving.\<close>

lemma turn_inv:
  assumes "world_inv w" and "fmlookup (sw_actors w) i = Some a"
    and "en_ID (ac_entity b) = en_ID (ac_entity a)" and "entity_pos (ac_entity b) = entity_pos (ac_entity a)"
    and "ag_Position (ac_move b) = ag_Position (ac_move a)"
  shows "world_inv (w\<lparr>sw_actors := fmupd i b (sw_actors w)\<rparr>)"
  using world_invD [OF assms(1)] assms(2-) by (simp add: world_inv_def)

lemma facing_keeps [simp]:
  "en_ID (ac_entity (setActorFacingDirection E d a)) = en_ID (ac_entity a)"
  "entity_pos (ac_entity (setActorFacingDirection E d a)) = entity_pos (ac_entity a)"
  "ac_move (setActorFacingDirection E d a) = ac_move a"
  by (simp_all add: setActorFacingDirection_def)

lemma set_position_simps [simp]: "en_ID (set_position p e) = en_ID e" "entity_pos (set_position p e) = p"
  by (simp_all add: set_position_def)

lemma Spawn_inv: "world_inv w \<Longrightarrow> world_inv (snd (sim_Spawn e s r h w))"
  by (simp add: sim_Spawn_def Let_def place_inv)

lemma Remove_world_inv:
  assumes "world_inv w" shows "world_inv (sim_Remove i w)"
  using world_invD [OF assms] by (simp add: world_inv_def sim_Remove_def Remove_inv grid_Position_Remove Remove_fields)

lemma Teleport_inv: "world_inv w \<Longrightarrow> world_inv (snd (sim_Teleport i p w))"
  using world_invD(4) [of w i] by (cases "fmlookup (sw_actors w) i") (simp_all add: sim_Teleport_def place_inv)

lemma SetMoveInput_inv: "world_inv w \<Longrightarrow> world_inv (snd (SetMoveInput E i d w))"
  by (cases "fmlookup (sw_actors w) i") (simp_all add: SetMoveInput_def Let_def AcceptInput_def turn_inv)

lemma SetFacing_inv: "world_inv w \<Longrightarrow> world_inv (snd (SetFacingDirection E i d w))"
  by (cases "fmlookup (sw_actors w) i") (simp_all add: SetFacingDirection_def turn_inv)

lemma tickOne_inv:
  assumes "world_inv w" shows "world_inv (snd (sim_tickOne E d i w))"
proof (cases "fmlookup (sw_actors w) i")
  case None
  with assms show ?thesis by (simp add: sim_tickOne_def)
next
  case (Some a)
  obtain p e m where st: "movement_Step (se_move E) (se_maxDeltaSeconds E) d (ac_move a) = ((p, e), m)"
    by (metis prod.collapse)
  note id = world_invD(4) [OF assms Some]
  show ?thesis
  proof (cases e)
    case None
    have "ag_Position m = p" using movement_Step_position [of "se_move E" "se_maxDeltaSeconds E" d "ac_move a"] st by simp
    then show ?thesis using None Some st id by (simp add: sim_tickOne_def place_inv [OF assms])
  next
    case (Some err)
    then have "m = ac_move a"
      using st by (auto simp: movement_Step_def Let_def split: if_splits prod.splits option.splits)
    then show ?thesis
      using Some \<open>fmlookup (sw_actors w) i = Some a\<close> st by (simp add: sim_tickOne_def turn_inv [OF assms \<open>fmlookup (sw_actors w) i = Some a\<close>])
  qed
qed

lemma tickAll_inv: "world_inv w \<Longrightarrow> world_inv (snd (sim_tickAll E d ids w))"
proof (induction ids arbitrary: w)
  case (Cons i ids)
  from tickOne_inv [OF Cons.prems, of E d i] Cons.IH show ?case
    by (cases "sim_tickOne E d i w") (simp split: prod.split, metis snd_conv)
qed simp

section \<open>The world as a machine\<close>

datatype sim_command =
  WSpawn entity_state f32 f32 f32 | WRemove entity_id | WTeleport entity_id position |
  WMove entity_id vec3 | WFace entity_id vec3 | WTick f32

fun sim_step :: "sim_env \<Rightarrow> sim_command \<Rightarrow> sim_world \<Rightarrow> unit \<times> sim_world" where
  "sim_step E (WSpawn e s r h) w = ((), snd (sim_Spawn e s r h w))"
| "sim_step E (WRemove i) w = ((), sim_Remove i w)"
| "sim_step E (WTeleport i p) w = ((), snd (sim_Teleport i p w))"
| "sim_step E (WMove i d) w = ((), snd (SetMoveInput E i d w))"
| "sim_step E (WFace i d) w = ((), snd (SetFacingDirection E i d w))"
| "sim_step E (WTick dt) w = ((), snd (sim_Tick E dt w))"

definition sim_New :: "grid \<Rightarrow> sim_world" where
  "sim_New g = \<lparr>sw_actors = fmempty, sw_spatial = g\<rparr>"

interpretation sim_worlds: kept_invariant "sim_step E" world_inv for E
proof
  fix w x assume "world_inv w"
  then show "world_inv (snd (sim_step E x w))"
    by (cases x) (simp_all add: Spawn_inv Remove_world_inv Teleport_inv SetMoveInput_inv SetFacing_inv tickAll_inv sim_Tick_def)
qed

lemma sim_New_inv: "NewGrid c = Some g \<Longrightarrow> world_inv (sim_New g)"
  using NewGrid_inv [of c g] by (auto simp: sim_New_def world_inv_def grid_Position_def NewGrid_def split: if_splits)

lemma Spawn_cellSize: "gd_cellSize (sw_spatial (snd (sim_step E x w))) = gd_cellSize (sw_spatial w)"
proof -
  have one: "gd_cellSize (sw_spatial (snd (sim_tickOne E d i w))) = gd_cellSize (sw_spatial w)" for d i w
    by (simp add: sim_tickOne_def Upsert_fields split: option.split prod.split)
  have all: "gd_cellSize (sw_spatial (snd (sim_tickAll E d ids w))) = gd_cellSize (sw_spatial w)" for d ids w
  proof (induction ids arbitrary: w)
    case (Cons i ids)
    then show ?case using one [of d i w] by (cases "sim_tickOne E d i w") (simp split: prod.split, metis snd_conv)
  qed simp
  show ?thesis
    by (cases x) (simp_all add: all sim_Spawn_def sim_Remove_def sim_Teleport_def SetMoveInput_def SetFacingDirection_def
        sim_Tick_def Let_def Upsert_fields Remove_fields split: option.split)
qed

lemma run_cellSize: "gd_cellSize (sw_spatial (run_ops (sim_step E) xs w)) = gd_cellSize (sw_spatial w)"
  by (induction xs arbitrary: w) (simp_all add: Spawn_cellSize)

section \<open>What the two read paths see\<close>

lemma sim_Entity_Some: "sim_Entity w i = Some e \<longleftrightarrow> (\<exists>a. fmlookup (sw_actors w) i = Some a \<and> ac_entity a = e)"
  by (simp add: sim_Entity_def)

lemma snapshot_mem: "e \<in> set (sim_Snapshot w) \<longleftrightarrow> (\<exists>i a. fmlookup (sw_actors w) i = Some a \<and> ac_entity a = e)"
proof -
  have "e \<in> set (sim_Snapshot w) \<longleftrightarrow> (\<exists>i \<in> fmdom' (sw_actors w). e = ac_entity (the (fmlookup (sw_actors w) i)))"
    by (simp add: sim_Snapshot_def gomap_keys_props image_iff)
  also have "\<dots> \<longleftrightarrow> (\<exists>i a. fmlookup (sw_actors w) i = Some a \<and> ac_entity a = e)"
    by (simp add: Bex_def fmlookup_dom'_iff) (metis option.sel)
  finally show ?thesis .
qed

lemma snapshot_props:
  assumes "world_inv w"
  shows "map en_ID (sim_Snapshot w) = gomap_keys (sw_actors w)"
    "e \<in> set (sim_Snapshot w) \<longleftrightarrow> sim_Entity w (en_ID e) = Some e"
proof -
  note id = world_invD(4) [OF assms]
  have "en_ID (ac_entity (the (fmlookup (sw_actors w) i))) = i" if "i \<in> set (gomap_keys (sw_actors w))" for i
  proof -
    from that obtain a where a: "fmlookup (sw_actors w) i = Some a" by (auto simp: gomap_keys_props fmlookup_dom'_iff)
    from id [OF a] a show ?thesis by simp
  qed
  then show "map en_ID (sim_Snapshot w) = gomap_keys (sw_actors w)"
    by (simp add: sim_Snapshot_def o_def map_idI)
  show "e \<in> set (sim_Snapshot w) \<longleftrightarrow> sim_Entity w (en_ID e) = Some e"
    unfolding snapshot_mem sim_Entity_Some using id by blast
qed

lemma snapshot_positions:
  assumes "world_inv w"
  shows "grid_Position (sw_spatial w) i = Some p \<longleftrightarrow> (\<exists>e \<in> set (sim_Snapshot w). en_ID e = i \<and> entity_pos e = p)"
proof -
  have "grid_Position (sw_spatial w) i = Some p \<longleftrightarrow> (\<exists>a. fmlookup (sw_actors w) i = Some a \<and> entity_pos (ac_entity a) = p)"
    unfolding world_invD(3) [OF assms, of i] by simp
  also have "\<dots> \<longleftrightarrow> (\<exists>e. (\<exists>j a. fmlookup (sw_actors w) j = Some a \<and> ac_entity a = e) \<and> en_ID e = i \<and> entity_pos e = p)"
    using world_invD(4) [OF assms] by blast
  finally show ?thesis by (simp add: Bex_def snapshot_mem)
qed

text \<open>A list of entities picked by id from the snapshot.\<close>

lemma picked_entities:
  assumes "world_inv w" and "\<forall>k \<in> set ks. k < length (sim_Snapshot w)"
  shows "List.map_filter (\<lambda>i. sim_Entity w i) (map (\<lambda>k. en_ID (sim_Snapshot w ! k)) ks) = map (\<lambda>k. sim_Snapshot w ! k) ks"
  using assms(2)
proof (induction ks)
  case (Cons k ks)
  then have "sim_Snapshot w ! k \<in> set (sim_Snapshot w)" by simp
  then have "sim_Entity w (en_ID (sim_Snapshot w ! k)) = Some (sim_Snapshot w ! k)"
    by (simp add: snapshot_props(2) [OF assms(1)])
  with Cons show ?case by (simp add: List.map_filter_simps)
qed (simp add: List.map_filter_simps)

lemma frame_Build_fields:
  assumes "frame_Build w tick b = Some b'"
  shows "pf_Entities (fb_frame b') = sim_Snapshot w" "pf_Tick (fb_frame b') = tick"
    "frame_Reset (gd_cellSize (sw_spatial w)) (sim_Snapshot w) (pf_Spatial (fb_frame b)) = Some (pf_Spatial (fb_frame b'))"
  using assms by (auto simp: frame_Build_def sim_Snapshot_def Let_def split: prod.splits option.splits)


text \<open>
  C11. The area of interest of a session, whichever way it is read. After any history of the world,
  and whatever order Go ranges in, a query of the world and the same query of the replication
  frame built from it, after any earlier queries of that frame, give the same entities: those in
  the world whose position lies in the cell window and passes the layer, height and distance
  tests, by ascending id.
\<close>

theorem aoi_consistent:
  assumes "go_range order" and "NewGrid c = Some g0"
    and "frame_Build (run_ops (sim_step E) xs (sim_New g0)) tick b = Some b'"
    and "frame_queries qs (pf_Spatial (fb_frame b')) = Some f"
    and "\<not> f32_less radius 0" and "cell_window c center radius = Some keys"
  shows "\<exists>seen stats found stats' f'.
    QueryAOI order center radius q (run_ops (sim_step E) xs (sim_New g0)) = Some (seen, stats) \<and>
    QueryRadiusInto center radius q f = Some ((found, stats'), f') \<and>
    map (\<lambda>k. pf_Entities (fb_frame b') ! k) found = seen \<and>
    sorted (map en_ID seen) \<and> distinct (map en_ID seen) \<and>
    (\<forall>e. e \<in> set seen \<longleftrightarrow> sim_Entity (run_ops (sim_step E) xs (sim_New g0)) (en_ID e) = Some e \<and>
       cellFor c (entity_pos e) \<in> set keys \<and> in_aoi center (f32_mul radius radius) q (entity_pos e))"
proof -
  define w where "w = run_ops (sim_step E) xs (sim_New g0)"
  have inv: "world_inv w" unfolding w_def by (rule sim_worlds.run_inv [OF sim_New_inv [OF assms(2)]])
  have size: "gd_cellSize (sw_spatial w) = c"
    using NewGrid_inv [OF assms(2)] by (simp add: w_def run_cellSize sim_New_def)
  note built = frame_Build_fields [OF assms(3) [folded w_def]]
  have ids: "sorted (map en_ID (sim_Snapshot w))" "distinct (map en_ID (sim_Snapshot w))"
    by (simp_all add: snapshot_props(1) [OF inv] gomap_keys_props)
  have win: "cell_window (gd_cellSize (sw_spatial w)) center radius = Some keys" using assms(6) size by simp
  have places: "\<forall>i p. grid_Position (sw_spatial w) i = Some p \<longleftrightarrow> (\<exists>e \<in> set (sim_Snapshot w). en_ID e = i \<and> entity_pos e = p)"
    using snapshot_positions [OF inv] by blast
  have finv: "frame_inv c (sim_Snapshot w) f" and c: "\<not> f32_leq c 0"
    using Reset_inv [OF built(3)] frame_queries_inv assms(4) by (auto simp: size)
  define found where "found = filter (\<lambda>i. in_aoi center (f32_mul radius radius) q (entity_pos (sim_Snapshot w ! i)))
    (indexes_in c (sim_Snapshot w) (set keys))"
  obtain stats' f' where fr: "QueryRadiusInto center radius q f = Some ((found, stats'), f')"
    using QueryRadiusInto_inv [OF finv c assms(5,6), of q] by (auto simp: found_def)
  obtain ids st where gr: "QueryRadius order center radius q (sw_spatial w) = Some ids"
    "ids = map (\<lambda>i. en_ID (sim_Snapshot w ! i)) found"
    using frame_query_equals_grid [OF assms(1) world_invD(1) [OF inv] built(3) assms(4) ids places assms(5) win, of q] fr
    by auto
  have bound: "\<forall>k \<in> set found. k < length (sim_Snapshot w)" by (simp add: found_def indexes_in_def)
  define seen where "seen = map (\<lambda>k. sim_Snapshot w ! k) found"
  obtain stats where "QueryRadiusWithStats order center radius q (sw_spatial w) = Some (ids, stats)"
    using gr(1) by (auto simp: QueryRadius_def)
  then have aoi: "QueryAOI order center radius q w = Some (seen, stats)"
    by (simp add: QueryAOI_def gr(2) picked_entities [OF inv bound] seen_def)
  have shape: "seen = filter (\<lambda>e. cellFor c (entity_pos e) \<in> set keys \<and> in_aoi center (f32_mul radius radius) q (entity_pos e)) (sim_Snapshot w)"
  proof -
    have "filter P es = map ((!) es) (filter (\<lambda>i. P (es ! i)) [0 ..< length es])" for P and es :: "entity_state list"
      using filter_map [of P "(!) es" "[0 ..< length es]"] by (simp add: map_nth o_def)
    then show ?thesis by (simp add: seen_def found_def indexes_in_def conj_commute)
  qed
  have order: "sorted (map en_ID seen)" "distinct (map en_ID seen)"
    using ids by (simp_all add: shape sorted_filter distinct_map_filter)
  have mem: "e \<in> set seen \<longleftrightarrow> sim_Entity w (en_ID e) = Some e \<and> cellFor c (entity_pos e) \<in> set keys \<and>
      in_aoi center (f32_mul radius radius) q (entity_pos e)" for e
    by (auto simp: shape snapshot_props(2) [OF inv])
  have same: "map (\<lambda>k. pf_Entities (fb_frame b') ! k) found = seen" by (simp add: built(1) seen_def)
  from aoi fr same order mem show ?thesis unfolding w_def [symmetric] by blast
qed

section \<open>Generations tell what changed\<close>

definition transform_changed :: "entity_id \<Rightarrow> transform \<Rightarrow> frame_builder \<Rightarrow> bool" where
  "transform_changed i t b =
     (case fmlookup (fb_lastTransforms b) i of None \<Rightarrow> True | Some previous \<Rightarrow> \<not> transform_eq previous t)"

lemma transform_eq_laws:
  "transform_eq a b \<Longrightarrow> transform_eq b c \<Longrightarrow> transform_eq a c" "transform_eq a b = transform_eq b a"
  by (auto simp: transform_eq_def f32_eq_def)

text \<open>One pass over the entities.\<close>

definition generation_outcome :: "frame_builder \<Rightarrow> frame_builder \<Rightarrow> (entity_id \<times> entity_state) \<times> u64 \<Rightarrow> bool" where
  "generation_outcome b b' x =
     (case x of ((i, e), g) \<Rightarrow>
        if transform_changed i (en_Transform e) b
        then unat (fb_nextGeneration b) < unat g \<and> unat g \<le> unat (fb_nextGeneration b') \<and>
          fmlookup (fb_lastTransforms b') i = Some (en_Transform e) \<and> fmlookup (fb_generations b') i = Some g
        else g = gomap_at 0 (fb_generations b) i \<and>
          fmlookup (fb_lastTransforms b') i = fmlookup (fb_lastTransforms b) i \<and>
          fmlookup (fb_generations b') i = fmlookup (fb_generations b) i)"

lemma frame_generation_step:
  assumes "frame_generation i (en_Transform e) b = (g, b1)" and "unat (fb_nextGeneration b) + 1 < 2 ^ 64"
  shows "generation_outcome b b1 ((i, e), g)" "unat (fb_nextGeneration b) \<le> unat (fb_nextGeneration b1)"
    "unat (fb_nextGeneration b1) \<le> unat (fb_nextGeneration b) + 1"
    "j \<noteq> i \<Longrightarrow> fmlookup (fb_lastTransforms b1) j = fmlookup (fb_lastTransforms b) j"
    "j \<noteq> i \<Longrightarrow> fmlookup (fb_generations b1) j = fmlookup (fb_generations b) j"
proof -
  have "fb_nextGeneration b \<noteq> - 1" using assms(2) by (auto simp: unsigned_minus_1_eq_mask mask_eq_exp_minus_1)
  then have succ: "unat (fb_nextGeneration b + 1) = unat (fb_nextGeneration b) + 1"
    using unatSuc [of "fb_nextGeneration b"] by (auto simp: add.commute eq_neg_iff_add_eq_0)
  show "generation_outcome b b1 ((i, e), g)" "unat (fb_nextGeneration b) \<le> unat (fb_nextGeneration b1)"
    "unat (fb_nextGeneration b1) \<le> unat (fb_nextGeneration b) + 1"
    "j \<noteq> i \<Longrightarrow> fmlookup (fb_lastTransforms b1) j = fmlookup (fb_lastTransforms b) j"
    "j \<noteq> i \<Longrightarrow> fmlookup (fb_generations b1) j = fmlookup (fb_generations b) j"
    using assms(1) succ
    by (auto simp: frame_generation_def generation_outcome_def transform_changed_def [symmetric] Let_def split: if_splits)
qed

lemma frame_generations_spec:
  "\<lbrakk>distinct (map fst es); frame_generations es b = (gs, b'); unat (fb_nextGeneration b) + length es < 2 ^ 64\<rbrakk> \<Longrightarrow>
   length gs = length es \<and> unat (fb_nextGeneration b) \<le> unat (fb_nextGeneration b') \<and>
   unat (fb_nextGeneration b') \<le> unat (fb_nextGeneration b) + length es \<and>
   (\<forall>x \<in> set (zip es gs). generation_outcome b b' x) \<and>
   (\<forall>i. i \<notin> fst ` set es \<longrightarrow> fmlookup (fb_lastTransforms b') i = fmlookup (fb_lastTransforms b) i \<and>
      fmlookup (fb_generations b') i = fmlookup (fb_generations b) i)"
proof (induction es arbitrary: b gs)
  case (Cons x es)
  obtain i e where x: "x = (i, e)" by (cases x)
  obtain g b1 where g: "frame_generation i (en_Transform e) b = (g, b1)" by (cases "frame_generation i (en_Transform e) b")
  obtain gs' where gs: "frame_generations es b1 = (gs', b')" "gs = g # gs'"
    using Cons.prems(2) by (auto simp: x g split: prod.splits)
  have fresh: "i \<notin> fst ` set es" and d: "distinct (map fst es)" using Cons.prems(1) by (auto simp: x)
  have small: "unat (fb_nextGeneration b) + 1 < 2 ^ 64" using Cons.prems(3) by simp
  note st = frame_generation_step [OF g small]
  have room: "unat (fb_nextGeneration b1) + length es < 2 ^ 64" using st(3) Cons.prems(3) by simp
  note IH = Cons.IH [OF d gs(1) room]
  have lens: "length gs' = length es" "unat (fb_nextGeneration b1) \<le> unat (fb_nextGeneration b')"
      "unat (fb_nextGeneration b') \<le> unat (fb_nextGeneration b1) + length es" using IH by blast+
  have rest: "generation_outcome b b' y" if y: "y \<in> set (zip es gs')" for y
  proof -
    obtain j f h where yj: "y = ((j, f), h)" by (metis prod.collapse)
    have "j \<noteq> i" using y fresh by (auto simp: yj image_iff dest!: set_zip_leftD)
    moreover have "generation_outcome b1 b' y" using IH y by blast
    ultimately show ?thesis
      using st(2) st(4,5) [of j] by (auto simp: yj generation_outcome_def transform_changed_def gomap_at_def split: if_splits)
  qed
  have first: "generation_outcome b b' ((i, e), g)"
    using st(1) IH fresh lens(2) by (auto simp: generation_outcome_def split: if_splits)
  have others: "\<forall>j. j \<notin> fst ` set (x # es) \<longrightarrow> fmlookup (fb_lastTransforms b') j = fmlookup (fb_lastTransforms b) j \<and>
      fmlookup (fb_generations b') j = fmlookup (fb_generations b) j"
    using IH st(4,5) by (auto simp: x)
  show ?case
    using lens st(2,3) rest first others by (simp add: gs(2) x)
qed simp

fun frame_builds :: "(sim_world \<times> u64) list \<Rightarrow> frame_builder \<Rightarrow> frame_builder option" where
  "frame_builds [] b = Some b"
| "frame_builds ((w, tick) # ws) b =
     (case frame_Build w tick b of None \<Rightarrow> None | Some b' \<Rightarrow> frame_builds ws b')"

definition builder_inv :: "frame_builder \<Rightarrow> bool" where
  "builder_inv b = (\<forall>i. unat (gomap_at 0 (fb_generations b) i) \<le> unat (fb_nextGeneration b))"

lemma index_lookup:
  "distinct ids \<Longrightarrow> fmlookup (fold (\<lambda>k m. fmupd (ids ! k) k m) [0 ..< length ids] fmempty) i = Some k \<longleftrightarrow>
     k < length ids \<and> ids ! k = i"
proof (induction ids rule: rev_induct)
  case (snoc x ids)
  have "fold (\<lambda>k m. fmupd ((ids @ [x]) ! k) k m) [0 ..< length ids] fmempty =
      fold (\<lambda>k m. fmupd (ids ! k) k m) [0 ..< length ids] fmempty"
    by (rule fold_cong) (auto simp: nth_append)
  with snoc show ?case
    by (auto simp: nth_append nth_eq_iff_index_eq in_set_conv_nth less_Suc_eq)
qed simp

text \<open>What one build leaves behind, entity by entity.\<close>

lemma frame_Build_spec:
  assumes "frame_Build w tick b = Some b'" and "unat (fb_nextGeneration b) + length (sim_Snapshot w) < 2 ^ 64" and "builder_inv b"
  shows "builder_inv b'" "unat (fb_nextGeneration b) \<le> unat (fb_nextGeneration b')"
    "unat (fb_nextGeneration b') \<le> unat (fb_nextGeneration b) + length (sim_Snapshot w)"
    "frame_Entity (fb_frame b') i = Some (e, g) \<Longrightarrow>
       gomap_at 0 (fb_generations b') i = g \<and>
       (\<exists>l. fmlookup (fb_lastTransforms b') i = Some l \<and> (l = en_Transform e \<or> transform_eq l (en_Transform e))) \<and>
       (if transform_changed i (en_Transform e) b then unat (fb_nextGeneration b) < unat g
        else g = gomap_at 0 (fb_generations b) i)"
proof -
  define ids where "ids = gomap_keys (sw_actors w)"
  define index where "index = fold (\<lambda>k m. fmupd (ids ! k) k m) [0 ..< length ids] fmempty"
  have d: "distinct ids" by (simp add: ids_def gomap_keys_props)
  have len: "length (sim_Snapshot w) = length ids" by (simp add: sim_Snapshot_def ids_def)
  have snap: "map (\<lambda>i. ac_entity (the (fmlookup (sw_actors w) i))) ids = sim_Snapshot w" by (simp add: sim_Snapshot_def ids_def)
  obtain gs b1 where gen: "frame_generations (zip ids (sim_Snapshot w)) b = (gs, b1)"
    by (cases "frame_generations (zip ids (sim_Snapshot w)) b")
  have b': "pf_Entities (fb_frame b') = sim_Snapshot w" "pf_TransformGenerations (fb_frame b') = gs"
      "pf_IndexByID (fb_frame b') = index" "fb_nextGeneration b' = fb_nextGeneration b1"
      "fb_lastTransforms b' = fmfilter (gomap_has index) (fb_lastTransforms b1)"
      "fb_generations b' = fmfilter (\<lambda>i. gomap_has index i \<or> \<not> gomap_has (fb_lastTransforms b1) i) (fb_generations b1)"
    using assms(1) gen
    unfolding frame_Build_def Let_def ids_def [symmetric] snap index_def [symmetric]
    by (auto split: option.splits)
  have dz: "distinct (map fst (zip ids (sim_Snapshot w)))" using d len by simp
  have room: "unat (fb_nextGeneration b) + length (zip ids (sim_Snapshot w)) < 2 ^ 64" using assms(2) len by simp
  note spec = frame_generations_spec [OF dz gen room]
  show grows: "unat (fb_nextGeneration b) \<le> unat (fb_nextGeneration b')"
    "unat (fb_nextGeneration b') \<le> unat (fb_nextGeneration b) + length (sim_Snapshot w)"
    using spec len by (simp_all add: b'(4))
  have at: "generation_outcome b b1 ((ids ! k, sim_Snapshot w ! k), gs ! k)" if "k < length ids" for k
  proof -
    have "((ids ! k, sim_Snapshot w ! k), gs ! k) \<in> set (zip (zip ids (sim_Snapshot w)) gs)"
      using that len spec by (auto simp: in_set_zip intro!: exI [of _ k])
    with spec show ?thesis by blast
  qed
  have le1: "unat (gomap_at 0 (fb_generations b1) j) \<le> unat (fb_nextGeneration b1)" for j
  proof (cases "j \<in> set ids")
    case True
    then obtain k where k: "k < length ids" "ids ! k = j" by (auto simp: in_set_conv_nth)
    from at [OF k(1)] k(2) assms(3) spec show ?thesis
      by (auto simp: generation_outcome_def gomap_at_def builder_inv_def split: if_splits) (meson le_trans)+
  next
    case False
    then have "fmlookup (fb_generations b1) j = fmlookup (fb_generations b) j"
      using spec len by (metis map_fst_zip set_map)
    then show ?thesis using assms(3) spec by (auto simp: gomap_at_def builder_inv_def) (meson le_trans)
  qed
  show "builder_inv b'"
    unfolding builder_inv_def b'(4,6) using le1 by (auto simp: gomap_at_def split: option.splits)
  assume "frame_Entity (fb_frame b') i = Some (e, g)"
  then obtain k where k: "k < length ids" "ids ! k = i" "e = sim_Snapshot w ! k" "g = gs ! k"
    using index_lookup [OF d, of i] by (auto simp: frame_Entity_def b' index_def split: option.splits)
  then have ix: "gomap_has index i" using index_lookup [OF d, of i k] by (auto simp: index_def gomap_has_def)
  have same: "fmlookup (fb_lastTransforms b') i = fmlookup (fb_lastTransforms b1) i"
    "fmlookup (fb_generations b') i = fmlookup (fb_generations b1) i" using ix by (simp_all add: b')
  from at [OF k(1)] k(2-) show "gomap_at 0 (fb_generations b') i = g \<and>
       (\<exists>l. fmlookup (fb_lastTransforms b') i = Some l \<and> (l = en_Transform e \<or> transform_eq l (en_Transform e))) \<and>
       (if transform_changed i (en_Transform e) b then unat (fb_nextGeneration b) < unat g
        else g = gomap_at 0 (fb_generations b) i)"
    by (auto simp: generation_outcome_def same gomap_at_def transform_changed_def split: if_splits option.splits)
qed


lemma frame_builds_inv:
  "\<lbrakk>frame_builds ws b = Some b'; builder_inv b;
     unat (fb_nextGeneration b) + (\<Sum>w \<leftarrow> map fst ws. length (sim_Snapshot w)) < 2 ^ 64\<rbrakk> \<Longrightarrow>
   builder_inv b' \<and> unat (fb_nextGeneration b') \<le>
     unat (fb_nextGeneration b) + (\<Sum>w \<leftarrow> map fst ws. length (sim_Snapshot w))"
proof (induction ws arbitrary: b)
  case (Cons x ws)
  obtain w tick where x: "x = (w, tick)" by (cases x)
  obtain b1 where b1: "frame_Build w tick b = Some b1" "frame_builds ws b1 = Some b'"
    using Cons.prems(1) by (auto simp: x split: option.splits)
  have "unat (fb_nextGeneration b) + length (sim_Snapshot w) < 2 ^ 64" using Cons.prems(3) by (simp add: x)
  note one = frame_Build_spec [OF b1(1) this Cons.prems(2)]
  from Cons.IH [OF b1(2) one(1)] one(3) Cons.prems(3) show ?case by (simp add: x)
qed simp

text \<open>
  The generation a frame gives to an entity says whether its transform changed. After any
  earlier builds, take two builds in a row in which an entity is present: its two
  generations are equal exactly when position, layer and facing are the same, and otherwise the
  second one is the larger. (The 64 bit counter is assumed not to have run out.)
\<close>

theorem generation_marks_change:
  assumes "frame_builds ws NewReplicationFrameBuilder = Some b"
    and "frame_Build w1 t1 b = Some b1" and "frame_Build w2 t2 b1 = Some b2"
    and "(\<Sum>w \<leftarrow> map fst ws @ [w1, w2]. length (sim_Snapshot w)) < 2 ^ 64"
    and "frame_Entity (fb_frame b1) i = Some (e1, g1)" and "frame_Entity (fb_frame b2) i = Some (e2, g2)"
  shows "(g1 = g2 \<longleftrightarrow> transform_eq (en_Transform e1) (en_Transform e2)) \<and> (g1 \<noteq> g2 \<longrightarrow> g1 < g2)"
proof -
  let ?n = "\<Sum>w \<leftarrow> map fst ws. length (sim_Snapshot w)"
  have new: "builder_inv NewReplicationFrameBuilder" "unat (fb_nextGeneration NewReplicationFrameBuilder) = 0"
    by (simp_all add: builder_inv_def NewReplicationFrameBuilder_def gomap_at_def)
  have sum: "?n + length (sim_Snapshot w1) + length (sim_Snapshot w2) < 2 ^ 64" using assms(4) by simp
  then have b: "builder_inv b" "unat (fb_nextGeneration b) \<le> ?n"
    using frame_builds_inv [OF assms(1) new(1)] new(2) by simp_all
  have r1: "unat (fb_nextGeneration b) + length (sim_Snapshot w1) < 2 ^ 64" using b(2) sum by simp
  note s1 = frame_Build_spec [OF assms(2) r1 b(1)]
  have r2: "unat (fb_nextGeneration b1) + length (sim_Snapshot w2) < 2 ^ 64" using s1(3) b(2) sum by simp
  note s2 = frame_Build_spec [OF assms(3) r2 s1(1)]
  obtain l where l: "gomap_at 0 (fb_generations b1) i = g1" "fmlookup (fb_lastTransforms b1) i = Some l"
      "l = en_Transform e1 \<or> transform_eq l (en_Transform e1)"
    using s1(4) [OF assms(5)] by blast
  have old: "unat g1 \<le> unat (fb_nextGeneration b1)" using s1(1) l(1) by (metis builder_inv_def)
  have changed: "transform_changed i (en_Transform e2) b1 \<longleftrightarrow> \<not> transform_eq (en_Transform e1) (en_Transform e2)"
    using l(3)
  proof
    assume "l = en_Transform e1"
    then show ?thesis by (simp add: transform_changed_def l(2))
  next
    assume eq: "transform_eq l (en_Transform e1)"
    have "transform_eq l (en_Transform e2) \<longleftrightarrow> transform_eq (en_Transform e1) (en_Transform e2)"
      using transform_eq_laws(1) [OF eq, of "en_Transform e2"]
        transform_eq_laws(1) [of "en_Transform e1" l "en_Transform e2"] eq transform_eq_laws(2) by blast
    then show ?thesis by (simp add: transform_changed_def l(2))
  qed
  show ?thesis
  proof (cases "transform_changed i (en_Transform e2) b1")
    case True
    then have "unat g1 < unat g2" using s2(4) [OF assms(6)] old by auto
    then have "g1 < g2" by (simp add: word_less_nat_alt)
    with True changed show ?thesis by auto
  next
    case False
    then have "g2 = g1" using s2(4) [OF assms(6)] l(1) by simp
    with False changed show ?thesis by simp
  qed
qed

lemma frame_Build_total: "\<not> f32_leq (gd_cellSize (sw_spatial w)) 0 \<Longrightarrow> \<exists>b'. frame_Build w tick b = Some b'"
  by (simp add: frame_Build_def frame_Reset_def Let_def split: prod.split)

lemma frame_Build_Entity:
  assumes "frame_Build w tick b = Some b'" and "k < length (sim_Snapshot w)"
  shows "\<exists>g. frame_Entity (fb_frame b') (gomap_keys (sw_actors w) ! k) = Some (sim_Snapshot w ! k, g)"
proof -
  let ?ids = "gomap_keys (sw_actors w)"
  have "pf_IndexByID (fb_frame b') = fold (\<lambda>k m. fmupd (?ids ! k) k m) [0 ..< length ?ids] fmempty"
    "pf_Entities (fb_frame b') = sim_Snapshot w"
    using assms(1) by (auto simp: frame_Build_def sim_Snapshot_def Let_def split: prod.splits option.splits)
  then show ?thesis
    using index_lookup [of ?ids "?ids ! k" k] assms(2) by (auto simp: frame_Entity_def gomap_keys_props sim_Snapshot_def)
qed

section \<open>Witnesses\<close>

definition sample_env :: sim_env where
  "sample_env = \<lparr>se_move = (\<lambda>p v a. plane_ResolveMove \<lparr>pl_MinX = 0xC2C80000, pl_MaxX = 0x42C80000, pl_MinZ = 0xC2C80000,
     pl_MaxZ = 0x42C80000, pl_Height = 0, pl_Layer = 0\<rparr> p v), se_maxDeltaSeconds = 0x3F800000, se_atan2deg = (\<lambda>z x. 0)\<rparr>"

definition sample_body :: "entity_id \<Rightarrow> f32 \<Rightarrow> entity_state" where
  "sample_body i x = \<lparr>en_ID = i, en_Kind = EntityPlayer, en_ArchetypeID = ''p'', en_BodySize = EntityBodySizeSmall,
     en_Transform = \<lparr>tf_Position = sample_place x 0, tf_Yaw = 0\<rparr>\<rparr>"

text \<open>Two entities; one heads along x, the other is out of reach.\<close>

definition sample_life :: "sim_command list" where
  "sample_life = [WSpawn (sample_body 1 0) 0x3F800000 0x3F000000 0x3F800000,
     WSpawn (sample_body 2 0x42480000) 0x3F800000 0x3F000000 0x3F800000,
     WMove 1 \<lparr>v3_X = 0x3F800000, v3_Y = 0, v3_Z = 0\<rparr>]"

definition sample_world :: "f32 \<Rightarrow> sim_world" where
  "sample_world x = run_ops (sim_step sample_env) (sample_life @ [WTeleport 1 (sample_place x 0)]) (sim_New sample_index)"

definition sample_actor :: "entity_id \<Rightarrow> f32 \<Rightarrow> actor" where
  "sample_actor i x = \<lparr>ac_entity = sample_body i x, ac_move = \<lparr>ag_Position = sample_place x 0, ag_Speed = 0x3F800000,
     ag_Radius = 0x3F000000, ag_MaxStepHeight = 0x3F800000, ag_Direction = zero_vec3\<rparr>\<rparr>"

lemma sample_world_fields:
  "sw_actors (sample_world x) = fmupd 1 (sample_actor 1 x) (fmupd 2 (sample_actor 2 0x42480000) fmempty)"
  "gd_cellSize (sw_spatial (sample_world x)) = 0x41000000" "gomap_keys (sw_actors (sample_world x)) = [1, 2]"
proof -
  show a: "sw_actors (sample_world x) = fmupd 1 (sample_actor 1 x) (fmupd 2 (sample_actor 2 0x42480000) fmempty)"
    by (rule fmap_ext) (simp add: sample_world_def sample_life_def sample_body_def sample_actor_def sim_Spawn_def sim_Teleport_def
      gomap_has_def sim_New_def SetMoveInput_def Let_def AcceptInput_def setActorFacingDirection_def set_position_def sample_env_def)
  show "gd_cellSize (sw_spatial (sample_world x)) = 0x41000000"
    by (simp add: sample_world_def run_cellSize sim_New_def sample_index_def)
  show "gomap_keys (sw_actors (sample_world x)) = [1, 2]" by (simp add: a gomap_keys_def)
qed

lemma sample_NewGrid: "NewGrid 0x41000000 = Some sample_index" by code_simp

lemma sample_snapshot: "sim_Snapshot (sample_world x) = [sample_body 1 x, sample_body 2 0x42480000]"
  unfolding sim_Snapshot_def sample_world_fields(3) by (simp add: sample_world_fields(1) sample_actor_def)

lemma sample_build:
  "\<exists>b'. frame_Build (sample_world x) tick b = Some b' \<and>
     (\<exists>g. frame_Entity (fb_frame b') 1 = Some (sample_body 1 x, g)) \<and>
     (\<exists>g. frame_Entity (fb_frame b') 2 = Some (sample_body 2 0x42480000, g))"
proof -
  have "\<not> f32_leq 0x41000000 0" using sample_NewGrid by (auto simp: NewGrid_def split: if_splits)
  then obtain b' where b': "frame_Build (sample_world x) tick b = Some b'"
    using frame_Build_total [of "sample_world x" tick b] by (auto simp: sample_world_fields(2))
  from frame_Build_Entity [OF b', of 0] frame_Build_Entity [OF b', of 1] b' show ?thesis
    by (simp add: sample_snapshot sample_world_fields(3))
qed

theorem generation_marks_change_witness:
  "\<exists>b1 b2 g1 g2 h. frame_Build (sample_world 0) 1 NewReplicationFrameBuilder = Some b1 \<and>
     frame_Build (sample_world 0x3F800000) 2 b1 = Some b2 \<and>
     frame_Entity (fb_frame b1) 1 = Some (sample_body 1 0, g1) \<and>
     frame_Entity (fb_frame b2) 1 = Some (sample_body 1 0x3F800000, g2) \<and> g1 < g2 \<and>
     frame_Entity (fb_frame b1) 2 = Some (sample_body 2 0x42480000, h) \<and>
     frame_Entity (fb_frame b2) 2 = Some (sample_body 2 0x42480000, h)"
proof -
  obtain b1 g1 h1 where b1: "frame_Build (sample_world 0) 1 NewReplicationFrameBuilder = Some b1"
    "frame_Entity (fb_frame b1) 1 = Some (sample_body 1 0, g1)"
    "frame_Entity (fb_frame b1) 2 = Some (sample_body 2 0x42480000, h1)"
    using sample_build [of 0 1 NewReplicationFrameBuilder] by blast
  obtain b2 g2 h2 where b2: "frame_Build (sample_world 0x3F800000) 2 b1 = Some b2"
    "frame_Entity (fb_frame b2) 1 = Some (sample_body 1 0x3F800000, g2)"
    "frame_Entity (fb_frame b2) 2 = Some (sample_body 2 0x42480000, h2)"
    using sample_build [of "0x3F800000" 2 b1] by blast
  have start: "frame_builds [] NewReplicationFrameBuilder = Some NewReplicationFrameBuilder" by simp
  have room: "(\<Sum>w \<leftarrow> map fst ([] :: (sim_world \<times> u64) list) @ [sample_world 0, sample_world 0x3F800000]. length (sim_Snapshot w)) < 2 ^ 64"
    by (simp add: sample_snapshot)
  have moved: "\<not> transform_eq (en_Transform (sample_body 1 0)) (en_Transform (sample_body 1 0x3F800000))" by code_simp
  have still: "transform_eq (en_Transform (sample_body 2 0x42480000)) (en_Transform (sample_body 2 0x42480000))" by code_simp
  note both = generation_marks_change [OF start b1(1) b2(1) room]
  have "g1 < g2" using both [OF b1(2) b2(2)] moved by blast
  moreover have "h1 = h2" using both [OF b1(3) b2(3)] still by blast
  ultimately show ?thesis using b1 b2 by blast
qed

theorem aoi_consistent_witness:
  "\<exists>b' stats found rest. frame_Build (sample_world 0x3F800000) 7 NewReplicationFrameBuilder = Some b' \<and>
     QueryAOI sorted_list_of_fset (sample_place 0 0) 0x40000000 \<lparr>qo_SameLayer = True, qo_MaxHeightDelta = 0\<rparr>
       (sample_world 0x3F800000) = Some ([sample_body 1 0x3F800000], stats) \<and>
     QueryRadiusInto (sample_place 0 0) 0x40000000 \<lparr>qo_SameLayer = True, qo_MaxHeightDelta = 0\<rparr>
       (pf_Spatial (fb_frame b')) = Some (found, rest) \<and>
     map (\<lambda>k. pf_Entities (fb_frame b') ! k) (fst found) = [sample_body 1 0x3F800000]"
proof -
  let ?q = "\<lparr>qo_SameLayer = True, qo_MaxHeightDelta = 0\<rparr>"
  let ?xs = "sample_life @ [WTeleport 1 (sample_place 0x3F800000 0)]"
  have keys: "cell_window 0x41000000 (sample_place 0 0) 0x40000000 = Some [(-1, -1), (-1, 0), (0, -1), (0, 0)]"
    by code_simp
  have pos: "\<not> f32_less 0x40000000 0" by code_simp
  obtain b' where b': "frame_Build (sample_world 0x3F800000) 7 NewReplicationFrameBuilder = Some b'"
    using sample_build by blast
  have none: "frame_queries [] (pf_Spatial (fb_frame b')) = Some (pf_Spatial (fb_frame b'))" by simp
  from aoi_consistent [OF sorted_ids.go_range_axioms sample_NewGrid b' [unfolded sample_world_def] none pos keys, of ?q, folded sample_world_def]
  obtain seen stats found stats' f' where r:
    "QueryAOI sorted_list_of_fset (sample_place 0 0) 0x40000000 ?q (sample_world 0x3F800000) = Some (seen, stats)"
    "QueryRadiusInto (sample_place 0 0) 0x40000000 ?q (pf_Spatial (fb_frame b')) = Some ((found, stats'), f')"
    "map (\<lambda>k. pf_Entities (fb_frame b') ! k) found = seen" "sorted (map en_ID seen)" "distinct (map en_ID seen)"
    "\<forall>e. e \<in> set seen \<longleftrightarrow> sim_Entity (sample_world 0x3F800000) (en_ID e) = Some e \<and>
       cellFor 0x41000000 (entity_pos e) \<in> set [(-1, -1), (-1, 0), (0, -1), (0, 0)] \<and>
       in_aoi (sample_place 0 0) (f32_mul 0x40000000 0x40000000) ?q (entity_pos e)"
    by (elim exE conjE) (rule that)
  have cells: "cellFor 0x41000000 (sample_place 0x3F800000 0) = (0, 0)" "cellFor 0x41000000 (sample_place 0x42480000 0) = (6, 0)"
    by code_simp+
  have near: "in_aoi (sample_place 0 0) (f32_mul 0x40000000 0x40000000) ?q (sample_place 0x3F800000 0)" by code_simp
  have ent: "sim_Entity (sample_world 0x3F800000) i = Some e \<longleftrightarrow>
      i = 1 \<and> e = sample_body 1 0x3F800000 \<or> i = 2 \<and> e = sample_body 2 0x42480000" for i e
    by (auto simp: sim_Entity_def sample_world_fields sample_actor_def)
  have "e \<in> set seen \<longleftrightarrow> e = sample_body 1 0x3F800000" for e
    unfolding r(6) [rule_format] ent using cells near by (auto simp: sample_body_def)
  then have "set seen = set [sample_body 1 0x3F800000]" by auto
  moreover have "distinct seen" using r(5) by (simp add: distinct_map)
  ultimately have "seen = [sample_body 1 0x3F800000]"
    by (cases seen rule: remdups_adj.cases) auto
  with r(1-3) have "map (\<lambda>k. pf_Entities (fb_frame b') ! k) (fst (found, stats')) = [sample_body 1 0x3F800000]"
    "QueryAOI sorted_list_of_fset (sample_place 0 0) 0x40000000 ?q (sample_world 0x3F800000) = Some ([sample_body 1 0x3F800000], stats)"
    by simp_all
  then show ?thesis
    by (intro exI [of _ b'] exI [of _ stats] exI [of _ "(found, stats')"] exI [of _ f'] conjI b' r(2))
qed
end
