(* ===== verification/InventoryState.thy ===== *)
theory InventoryState
  imports ItemInstance
begin

text \<open>
  The durable form of an inventory (\<open>internal/characterstate/inventory.go\<close>, \<open>inventory_schema.go\<close>):
  canonical JSON strings of stacks, instances and worn equipment, with the older fields for the
  two hands. \<open>encoding/json\<close> is an argument, one codec per encoded type. Ties in the code's
  unstable sorts are between entries that the validation refuses, so a stable sort gives the same
  results.
\<close>

section \<open>The state\<close>

record 'a text_codec =
  tc_Marshal :: "'a \<Rightarrow> string option"
  tc_Unmarshal :: "string \<Rightarrow> 'a option"

record inventory_stack =
  ik_ItemArchetypeID :: string
  ik_Quantity :: u32

record equipment_slot_state =
  qs_Slot :: string
  qs_ItemArchetypeID :: string

record equipment_instance_slot_state =
  qi_Slot :: string
  qi_ItemInstanceJSON :: string

record inventory_codecs =
  vc_stacks :: "inventory_stack list text_codec"
  vc_raw :: "string list text_codec"
  vc_instance :: "item_instance text_codec"
  vc_equipment :: "equipment_slot_state list text_codec"
  vc_equipped :: "equipment_instance_slot_state list text_codec"

record inventory_state =
  vs_Initialized :: bool
  vs_StacksJSON :: string
  vs_InstancesJSON :: string
  vs_EquipmentJSON :: string
  vs_EquipmentInstancesJSON :: string
  vs_MainHand :: string
  vs_OffHand :: string
  vs_MainHandInstanceJSON :: string
  vs_OffHandInstanceJSON :: string

datatype state_error =
  ErrInvalidSnapshot | ErrEncode | ErrInvalidRoot | ErrIdentityNotDurable | ErrRevisionConflict | ErrRevisionOverflow |
  ErrCorruptRecord | ErrStoreIO | ErrInvalidOutboxCapacity | ErrSaveOutboxFull | ErrSaveIntentOverflow |
  ErrUnknownSaveIntent | ErrSaveConfirmOutOfOrder

definition zero_inventory_state :: inventory_state where
  "zero_inventory_state = \<lparr>vs_Initialized = False, vs_StacksJSON = '''', vs_InstancesJSON = '''', vs_EquipmentJSON = '''',
     vs_EquipmentInstancesJSON = '''', vs_MainHand = '''', vs_OffHand = '''', vs_MainHandInstanceJSON = '''',
     vs_OffHandInstanceJSON = ''''\<rparr>"

definition HasItemInstances :: "inventory_state \<Rightarrow> bool" where
  "HasItemInstances s =
     (vs_InstancesJSON s \<noteq> '''' \<or> vs_EquipmentInstancesJSON s \<noteq> '''' \<or> vs_MainHandInstanceJSON s \<noteq> '''' \<or>
      vs_OffHandInstanceJSON s \<noteq> '''')"

definition HasGenericEquipment :: "inventory_state \<Rightarrow> bool" where
  "HasGenericEquipment s = (vs_EquipmentJSON s \<noteq> '''' \<or> vs_EquipmentInstancesJSON s \<noteq> '''')"

definition equipmentSlotRank :: "string \<Rightarrow> nat" where
  "equipmentSlotRank slot =
     (if slot = ''main_hand'' then 0 else if slot = ''off_hand'' then 1 else if slot = ''helmet'' then 2
      else if slot = ''chest'' then 3 else if slot = ''gloves'' then 4 else if slot = ''legs'' then 5
      else if slot = ''boots'' then 6 else 99)"

section \<open>Reading it\<close>

definition shape_json :: "inventory_codecs \<Rightarrow> item_instance \<Rightarrow> instance_error + string" where
  "shape_json C = CanonicalShapeJSON (tc_Marshal (vc_instance C))"

definition shape_decode :: "inventory_codecs \<Rightarrow> string \<Rightarrow> instance_error + item_instance" where
  "shape_decode C = DecodeCanonicalShapeJSON (tc_Marshal (vc_instance C)) (tc_Unmarshal (vc_instance C))"

definition state_Stacks :: "inventory_codecs \<Rightarrow> inventory_state \<Rightarrow> state_error + inventory_stack list" where
  "state_Stacks C s =
     (if vs_StacksJSON s = '''' then Inr []
      else case tc_Unmarshal (vc_stacks C) (vs_StacksJSON s) of None \<Rightarrow> Inl ErrInvalidSnapshot | Some x \<Rightarrow> Inr x)"

fun decodeInstances :: "inventory_codecs \<Rightarrow> string list \<Rightarrow> state_error + item_instance list" where
  "decodeInstances C [] = Inr []"
| "decodeInstances C (e # es) =
     (case shape_decode C e of
        Inl _ \<Rightarrow> Inl ErrInvalidSnapshot
      | Inr x \<Rightarrow> (case decodeInstances C es of Inl err \<Rightarrow> Inl err | Inr xs \<Rightarrow> Inr (x # xs)))"

definition state_Instances :: "inventory_codecs \<Rightarrow> inventory_state \<Rightarrow> state_error + item_instance list" where
  "state_Instances C s =
     (if vs_InstancesJSON s = '''' then Inr []
      else case tc_Unmarshal (vc_raw C) (vs_InstancesJSON s) of
             None \<Rightarrow> Inl ErrInvalidSnapshot | Some raw \<Rightarrow> decodeInstances C raw)"

definition state_Equipment :: "inventory_codecs \<Rightarrow> inventory_state \<Rightarrow> state_error + equipment_slot_state list" where
  "state_Equipment C s =
     (if vs_EquipmentJSON s = ''''
      then Inr ((if vs_MainHand s \<noteq> '''' then [\<lparr>qs_Slot = ''main_hand'', qs_ItemArchetypeID = vs_MainHand s\<rparr>] else []) @
                (if vs_OffHand s \<noteq> '''' then [\<lparr>qs_Slot = ''off_hand'', qs_ItemArchetypeID = vs_OffHand s\<rparr>] else []))
      else case tc_Unmarshal (vc_equipment C) (vs_EquipmentJSON s) of None \<Rightarrow> Inl ErrInvalidSnapshot | Some x \<Rightarrow> Inr x)"

definition state_EquipmentInstances ::
  "inventory_codecs \<Rightarrow> inventory_state \<Rightarrow> state_error + equipment_instance_slot_state list" where
  "state_EquipmentInstances C s =
     (if vs_EquipmentInstancesJSON s = ''''
      then Inr ((if vs_MainHandInstanceJSON s \<noteq> ''''
                 then [\<lparr>qi_Slot = ''main_hand'', qi_ItemInstanceJSON = vs_MainHandInstanceJSON s\<rparr>] else []) @
                (if vs_OffHandInstanceJSON s \<noteq> ''''
                 then [\<lparr>qi_Slot = ''off_hand'', qi_ItemInstanceJSON = vs_OffHandInstanceJSON s\<rparr>] else []))
      else case tc_Unmarshal (vc_equipped C) (vs_EquipmentInstancesJSON s) of
             None \<Rightarrow> Inl ErrInvalidSnapshot | Some x \<Rightarrow> Inr x)"

text \<open>The first worn instance of a slot.\<close>

definition equippedInstance ::
  "inventory_codecs \<Rightarrow> string \<Rightarrow> inventory_state \<Rightarrow> state_error + item_instance option" where
  "equippedInstance C slot s =
     (case state_EquipmentInstances C s of
        Inl e \<Rightarrow> Inl e
      | Inr items \<Rightarrow>
          (case find (\<lambda>x. qi_Slot x = slot) items of
             None \<Rightarrow> Inr None
           | Some x \<Rightarrow>
               (case shape_decode C (qi_ItemInstanceJSON x) of
                  Inl _ \<Rightarrow> Inl ErrInvalidSnapshot | Inr i \<Rightarrow> Inr (Some i))))"

section \<open>Canonical lists\<close>

fun shapes :: "inventory_codecs \<Rightarrow> item_instance list \<Rightarrow> state_error + string list" where
  "shapes C [] = Inr []"
| "shapes C (x # xs) =
     (case shape_json C x of
        Inl _ \<Rightarrow> Inl ErrInvalidSnapshot
      | Inr d \<Rightarrow> (case shapes C xs of Inl e \<Rightarrow> Inl e | Inr ds \<Rightarrow> Inr (d # ds)))"

definition encodeCanonicalInstances :: "inventory_codecs \<Rightarrow> item_instance list \<Rightarrow> state_error + string" where
  "encodeCanonicalInstances C xs =
     (if xs = [] then Inr ''''
      else case shapes C xs of
             Inl e \<Rightarrow> Inl e
           | Inr raw \<Rightarrow> (case tc_Marshal (vc_raw C) raw of None \<Rightarrow> Inl ErrEncode | Some d \<Rightarrow> Inr d))"

text \<open>The loop of \<open>canonicalInstanceList\<close>; \<open>prev\<close> is the id before, if any.\<close>

fun canonicalLoop ::
  "inventory_codecs \<Rightarrow> string option \<Rightarrow> item_instance list \<Rightarrow> state_error + item_instance list" where
  "canonicalLoop C prev [] = Inr []"
| "canonicalLoop C prev (x # xs) =
     (case shape_json C x of
        Inl _ \<Rightarrow> Inl ErrInvalidSnapshot
      | Inr d \<Rightarrow>
          (case shape_decode C d of
             Inl _ \<Rightarrow> Inl ErrInvalidSnapshot
           | Inr y \<Rightarrow>
               if (case prev of None \<Rightarrow> False | Some p \<Rightarrow> p \<ge> inst_ID y) then Inl ErrInvalidSnapshot
               else case canonicalLoop C (Some (inst_ID y)) xs of Inl e \<Rightarrow> Inl e | Inr ys \<Rightarrow> Inr (y # ys)))"

definition canonicalInstanceList :: "inventory_codecs \<Rightarrow> item_instance list \<Rightarrow> state_error + item_instance list" where
  "canonicalInstanceList C xs = canonicalLoop C None (sort_key inst_ID xs)"

fun canonicalEquipped ::
  "inventory_codecs \<Rightarrow> equipment_instance_slot_state list \<Rightarrow>
     state_error + equipment_instance_slot_state list" where
  "canonicalEquipped C [] = Inr []"
| "canonicalEquipped C (x # xs) =
     (case shape_decode C (qi_ItemInstanceJSON x) of
        Inl _ \<Rightarrow> Inl ErrInvalidSnapshot
      | Inr i \<Rightarrow>
          (case shape_json C i of
             Inl _ \<Rightarrow> Inl ErrInvalidSnapshot
           | Inr d \<Rightarrow>
               (case canonicalEquipped C xs of
                  Inl e \<Rightarrow> Inl e
                | Inr ys \<Rightarrow> Inr (\<lparr>qi_Slot = TrimSpace (qi_Slot x), qi_ItemInstanceJSON = d\<rparr> # ys))))"

section \<open>Validation\<close>

fun stacksOrdered :: "string \<Rightarrow> inventory_stack list \<Rightarrow> bool" where
  "stacksOrdered lastStack [] = True"
| "stacksOrdered lastStack (x # xs) =
     (let i = TrimSpace (ik_ItemArchetypeID x)
      in if i = '''' \<or> i \<noteq> ik_ItemArchetypeID x \<or> ik_Quantity x = 0 \<or> (lastStack \<noteq> '''' \<and> i \<le> lastStack) then False
         else stacksOrdered i xs)"

text \<open>The loop over the instances: ascending, none seen before; the ids seen are returned.\<close>

fun instancesOrdered :: "string \<Rightarrow> string set \<Rightarrow> item_instance list \<Rightarrow> string set option" where
  "instancesOrdered lastID seen [] = Some seen"
| "instancesOrdered lastID seen (x # xs) =
     (if lastID \<noteq> '''' \<and> inst_ID x \<le> lastID then None
      else if inst_ID x \<in> seen then None
      else instancesOrdered (inst_ID x) (insert (inst_ID x) seen) xs)"

fun equipmentOrdered :: "int \<Rightarrow> string set \<Rightarrow> equipment_slot_state list \<Rightarrow> string set option" where
  "equipmentOrdered lastRank occupied [] = Some occupied"
| "equipmentOrdered lastRank occupied (x # xs) =
     (let rank = equipmentSlotRank (qs_Slot x)
      in if rank \<ge> 7 \<or> int rank \<le> lastRank \<or> TrimSpace (qs_ItemArchetypeID x) = '''' \<or>
            qs_ItemArchetypeID x \<noteq> TrimSpace (qs_ItemArchetypeID x) then None
         else equipmentOrdered (int rank) (insert (qs_Slot x) occupied) xs)"

fun equippedOrdered ::
  "inventory_codecs \<Rightarrow> int \<Rightarrow> string set \<Rightarrow> string set \<Rightarrow> equipment_instance_slot_state list \<Rightarrow> bool" where
  "equippedOrdered C lastRank occupied seen [] = True"
| "equippedOrdered C lastRank occupied seen (x # xs) =
     (let rank = equipmentSlotRank (qi_Slot x)
      in if rank \<ge> 7 \<or> int rank \<le> lastRank then False
         else if qi_Slot x \<in> occupied then False
         else case shape_decode C (qi_ItemInstanceJSON x) of
                Inl _ \<Rightarrow> False
              | Inr i \<Rightarrow>
                  if inst_ID i \<in> seen then False
                  else case shape_json C i of
                         Inl _ \<Rightarrow> False
                       | Inr d \<Rightarrow>
                           d = qi_ItemInstanceJSON x \<and>
                           equippedOrdered C (int rank) (insert (qi_Slot x) occupied) (insert (inst_ID i) seen) xs)"

definition legacyHands :: "inventory_state \<Rightarrow> bool" where
  "legacyHands s =
     (vs_MainHand s \<noteq> '''' \<or> vs_OffHand s \<noteq> '''' \<or> vs_MainHandInstanceJSON s \<noteq> '''' \<or> vs_OffHandInstanceJSON s \<noteq> '''')"

definition validateInventoryState :: "inventory_codecs \<Rightarrow> inventory_state \<Rightarrow> state_error option" where
  "validateInventoryState C s =
     (if \<not> vs_Initialized s
      then (if vs_StacksJSON s \<noteq> '''' \<or> vs_InstancesJSON s \<noteq> '''' \<or> HasGenericEquipment s \<or> legacyHands s
            then Some ErrInvalidSnapshot else None)
      else if HasGenericEquipment s \<and> legacyHands s then Some ErrInvalidSnapshot
      else if vs_MainHand s \<noteq> TrimSpace (vs_MainHand s) \<or> vs_OffHand s \<noteq> TrimSpace (vs_OffHand s)
      then Some ErrInvalidSnapshot
      else case state_Stacks C s of
        Inl e \<Rightarrow> Some e
      | Inr stacks \<Rightarrow>
          if \<not> stacksOrdered '''' stacks then Some ErrInvalidSnapshot
          else if stacks = [] \<and> vs_StacksJSON s \<noteq> '''' then Some ErrInvalidSnapshot
          else if stacks \<noteq> [] \<and> tc_Marshal (vc_stacks C) stacks \<noteq> Some (vs_StacksJSON s) then Some ErrInvalidSnapshot
          else case state_Instances C s of
            Inl e \<Rightarrow> Some e
          | Inr instances \<Rightarrow>
              (case instancesOrdered '''' {} instances of
                 None \<Rightarrow> Some ErrInvalidSnapshot
               | Some seen \<Rightarrow>
                   if instances = [] \<and> vs_InstancesJSON s \<noteq> '''' then Some ErrInvalidSnapshot
                   else if instances \<noteq> [] \<and> encodeCanonicalInstances C instances \<noteq> Inr (vs_InstancesJSON s)
                   then Some ErrInvalidSnapshot
                   else case state_Equipment C s of
                     Inl e \<Rightarrow> Some e
                   | Inr equipment \<Rightarrow>
                       (case equipmentOrdered (- 1) {} equipment of
                          None \<Rightarrow> Some ErrInvalidSnapshot
                        | Some occupied \<Rightarrow>
                            if vs_EquipmentJSON s \<noteq> '''' \<and> tc_Marshal (vc_equipment C) equipment \<noteq> Some (vs_EquipmentJSON s)
                            then Some ErrInvalidSnapshot
                            else case state_EquipmentInstances C s of
                              Inl e \<Rightarrow> Some e
                            | Inr equipped \<Rightarrow>
                                if \<not> equippedOrdered C (- 1) occupied seen equipped then Some ErrInvalidSnapshot
                                else if vs_EquipmentInstancesJSON s \<noteq> '''' \<and>
                                        tc_Marshal (vc_equipped C) equipped \<noteq> Some (vs_EquipmentInstancesJSON s)
                                then Some ErrInvalidSnapshot
                                else None)))"

section \<open>Building it\<close>

definition trimmedStacks :: "inventory_stack list \<Rightarrow> inventory_stack list" where
  "trimmedStacks stacks =
     sort_key ik_ItemArchetypeID (map (\<lambda>x. x\<lparr>ik_ItemArchetypeID := TrimSpace (ik_ItemArchetypeID x)\<rparr>) stacks)"

definition trimmedEquipment :: "equipment_slot_state list \<Rightarrow> equipment_slot_state list" where
  "trimmedEquipment equipment =
     sort_key (equipmentSlotRank \<circ> qs_Slot)
       (map (\<lambda>x. \<lparr>qs_Slot = TrimSpace (qs_Slot x), qs_ItemArchetypeID = TrimSpace (qs_ItemArchetypeID x)\<rparr>) equipment)"

definition encoded :: "'a list text_codec \<Rightarrow> 'a list \<Rightarrow> state_error + string" where
  "encoded c xs =
     (if xs = [] then Inr '''' else case tc_Marshal c xs of None \<Rightarrow> Inl ErrEncode | Some d \<Rightarrow> Inr d)"

definition NewInventoryStateWithSlots ::
  "inventory_codecs \<Rightarrow> inventory_stack list \<Rightarrow> item_instance list \<Rightarrow> equipment_slot_state list \<Rightarrow>
     equipment_instance_slot_state list \<Rightarrow> state_error + inventory_state" where
  "NewInventoryStateWithSlots C stacks instances equipment equipped =
     (case encoded (vc_stacks C) (trimmedStacks stacks) of
        Inl e \<Rightarrow> Inl e
      | Inr sj \<Rightarrow>
     (case canonicalInstanceList C instances of
        Inl e \<Rightarrow> Inl e
      | Inr canonical \<Rightarrow>
     (case encodeCanonicalInstances C canonical of
        Inl e \<Rightarrow> Inl e
      | Inr ij \<Rightarrow>
     (case encoded (vc_equipment C) (trimmedEquipment equipment) of
        Inl e \<Rightarrow> Inl e
      | Inr ej \<Rightarrow>
     (case canonicalEquipped C equipped of
        Inl e \<Rightarrow> Inl e
      | Inr worn \<Rightarrow>
     (case encoded (vc_equipped C) (sort_key (equipmentSlotRank \<circ> qi_Slot) worn) of
        Inl e \<Rightarrow> Inl e
      | Inr wj \<Rightarrow>
          let s = zero_inventory_state\<lparr>vs_Initialized := True, vs_StacksJSON := sj, vs_InstancesJSON := ij,
                    vs_EquipmentJSON := ej, vs_EquipmentInstancesJSON := wj\<rparr>
          in case validateInventoryState C s of Some e \<Rightarrow> Inl e | None \<Rightarrow> Inr s))))))"

definition NewInventoryStateWithInstances ::
  "inventory_codecs \<Rightarrow> inventory_stack list \<Rightarrow> item_instance list \<Rightarrow> string \<Rightarrow> string \<Rightarrow>
     item_instance option \<Rightarrow> item_instance option \<Rightarrow> state_error + inventory_state" where
  "NewInventoryStateWithInstances C stacks instances mainHand offHand mainHandInstance offHandInstance =
     (let hand = (\<lambda>slot rawID. let i = TrimSpace rawID
                    in if i \<noteq> '''' then [\<lparr>qs_Slot = slot, qs_ItemArchetypeID = i\<rparr>] else []);
          worn = (\<lambda>slot x. case x of
                    None \<Rightarrow> Inr []
                  | Some i \<Rightarrow> (case shape_json C i of
                                 Inl _ \<Rightarrow> Inl ErrInvalidSnapshot
                               | Inr d \<Rightarrow> Inr [\<lparr>qi_Slot = slot, qi_ItemInstanceJSON = d\<rparr>]))
      in case worn ''main_hand'' mainHandInstance of
           Inl e \<Rightarrow> Inl e
         | Inr m \<Rightarrow>
             (case worn ''off_hand'' offHandInstance of
                Inl e \<Rightarrow> Inl e
              | Inr f \<Rightarrow> NewInventoryStateWithSlots C stacks instances
                            (hand ''main_hand'' mainHand @ hand ''off_hand'' offHand) (m @ f)))"

definition NewInventoryStateWithEquipment ::
  "inventory_codecs \<Rightarrow> inventory_stack list \<Rightarrow> string \<Rightarrow> string \<Rightarrow> state_error + inventory_state" where
  "NewInventoryStateWithEquipment C stacks mainHand offHand =
     NewInventoryStateWithInstances C stacks [] mainHand offHand None None"

definition CanonicalInventoryState :: "inventory_codecs \<Rightarrow> inventory_state \<Rightarrow> state_error + inventory_state" where
  "CanonicalInventoryState C s =
     (case validateInventoryState C s of
        Some e \<Rightarrow> Inl e
      | None \<Rightarrow>
          if \<not> vs_Initialized s then Inr zero_inventory_state
          else case state_Stacks C s of
            Inl e \<Rightarrow> Inl e
          | Inr stacks \<Rightarrow>
          (case state_Instances C s of
             Inl e \<Rightarrow> Inl e
           | Inr instances \<Rightarrow>
          (case state_Equipment C s of
             Inl e \<Rightarrow> Inl e
           | Inr equipment \<Rightarrow>
          (case state_EquipmentInstances C s of
             Inl e \<Rightarrow> Inl e
           | Inr equipped \<Rightarrow> NewInventoryStateWithSlots C stacks instances equipment equipped))))"


section \<open>Ordered lists are canonical\<close>

lemma shape_decode_json: "shape_decode C d = Inr y \<Longrightarrow> shape_json C y = Inr d"
  by (auto simp: shape_decode_def shape_json_def DecodeCanonicalShapeJSON_def split: option.splits sum.splits if_splits)

lemma decodeInstances_shapes:
  "decodeInstances C raw = Inr xs \<Longrightarrow> shapes C xs = Inr raw"
  "\<lbrakk>shapes C xs = Inr raw; \<forall>x \<in> set xs. \<forall>d. shape_json C x = Inr d \<longrightarrow> shape_decode C d = Inr x\<rbrakk> \<Longrightarrow>
     decodeInstances C raw = Inr xs"
proof (induction raw arbitrary: xs)
  case (Cons d raw)
  { case 1 then show ?case using Cons.IH(1) by (auto simp: shape_decode_json split: sum.splits)
  next
    case 2
    then obtain x xs' where "xs = x # xs'" by (cases xs) auto
    with 2 Cons.IH(2) [of xs'] show ?case by (auto split: sum.splits) }
next
  case Nil
  { case 1 then show ?case by simp
  next
    case 2 then show ?case by (cases xs) (auto split: sum.splits) }
qed

lemma stacksOrdered_sorted:
  "stacksOrdered p xs \<Longrightarrow> sorted_wrt (<) (map ik_ItemArchetypeID xs) \<and>
     (\<forall>x \<in> set xs. TrimSpace (ik_ItemArchetypeID x) = ik_ItemArchetypeID x \<and> ik_ItemArchetypeID x \<noteq> '''' \<and> ik_Quantity x \<noteq> 0) \<and>
     (p \<noteq> '''' \<longrightarrow> (\<forall>x \<in> set xs. p < ik_ItemArchetypeID x))"
proof (induction p xs rule: stacksOrdered.induct)
  case (2 p x xs)
  from 2(2) have ok: "TrimSpace (ik_ItemArchetypeID x) = ik_ItemArchetypeID x" "ik_ItemArchetypeID x \<noteq> ''''"
    "ik_Quantity x \<noteq> 0" "p \<noteq> '''' \<Longrightarrow> p < ik_ItemArchetypeID x" "stacksOrdered (ik_ItemArchetypeID x) xs"
    by (auto simp: Let_def split: if_splits)
  have "sorted_wrt (<) (map ik_ItemArchetypeID xs) \<and>
     (\<forall>x \<in> set xs. TrimSpace (ik_ItemArchetypeID x) = ik_ItemArchetypeID x \<and> ik_ItemArchetypeID x \<noteq> '''' \<and> ik_Quantity x \<noteq> 0) \<and>
     (\<forall>y \<in> set xs. ik_ItemArchetypeID x < ik_ItemArchetypeID y)"
    using 2(1) [OF refl] ok by (cases "p = ''''") (auto dest: leD)
  with ok show ?case by (auto intro: less_trans)
qed simp

lemma trimmedStacks_id:
  assumes "stacksOrdered p xs"
  shows "trimmedStacks xs = xs"
proof -
  note s = stacksOrdered_sorted [OF assms]
  have "map (\<lambda>x. x\<lparr>ik_ItemArchetypeID := TrimSpace (ik_ItemArchetypeID x)\<rparr>) xs = xs"
    using s by (intro map_idI) simp
  then show ?thesis using s by (simp add: trimmedStacks_def sort_key_id_if_sorted strict_sorted_imp_sorted)
qed

lemma instancesOrdered_sorted:
  "instancesOrdered p seen xs = Some seen' \<Longrightarrow> p \<in> seen \<or> p = '''' \<Longrightarrow>
     (\<forall>x \<in> set xs. inst_ID x \<noteq> '''') \<Longrightarrow>
     sorted_wrt (<) (map inst_ID xs) \<and> (p \<noteq> '''' \<longrightarrow> (\<forall>x \<in> set xs. p < inst_ID x)) \<and> seen' = seen \<union> inst_ID ` set xs"
proof (induction p seen xs rule: instancesOrdered.induct)
  case (2 p seen x xs)
  from 2(2) have ok: "p \<noteq> '''' \<Longrightarrow> p < inst_ID x" "inst_ID x \<notin> seen"
    "instancesOrdered (inst_ID x) (insert (inst_ID x) seen) xs = Some seen'" by (auto split: if_splits)
  have "\<not> (p \<noteq> '''' \<and> inst_ID x \<le> p)" using ok(1) by auto
  from 2(1) [OF this ok(2,3)] 2(4) ok show ?case by (auto intro: less_trans)
qed simp

lemma equipmentOrdered_sorted:
  "equipmentOrdered r occ xs = Some occ' \<Longrightarrow>
     sorted_wrt (<) (map (equipmentSlotRank \<circ> qs_Slot) xs) \<and>
     (\<forall>x \<in> set xs. r < int (equipmentSlotRank (qs_Slot x)) \<and> equipmentSlotRank (qs_Slot x) < 7 \<and>
        TrimSpace (qs_ItemArchetypeID x) = qs_ItemArchetypeID x)"
proof (induction r occ xs rule: equipmentOrdered.induct)
  case (2 r occ x xs)
  from 2(2) have ok: "equipmentSlotRank (qs_Slot x) < 7" "r < int (equipmentSlotRank (qs_Slot x))"
    "TrimSpace (qs_ItemArchetypeID x) = qs_ItemArchetypeID x"
    "equipmentOrdered (int (equipmentSlotRank (qs_Slot x))) (insert (qs_Slot x) occ) xs = Some occ'"
    by (auto simp: Let_def split: if_splits)
  have g: "\<not> (7 \<le> equipmentSlotRank (qs_Slot x) \<or> int (equipmentSlotRank (qs_Slot x)) \<le> r \<or> TrimSpace (qs_ItemArchetypeID x) = '''' \<or>
      qs_ItemArchetypeID x \<noteq> TrimSpace (qs_ItemArchetypeID x))"
    using 2(2) by (auto simp: Let_def split: if_splits)
  from 2(1) [OF refl g ok(4)] ok show ?case by fastforce
qed simp

lemma equippedOrdered_sorted:
  "equippedOrdered C r occ seen xs \<Longrightarrow>
     sorted_wrt (<) (map (equipmentSlotRank \<circ> qi_Slot) xs) \<and>
     (\<forall>x \<in> set xs. r < int (equipmentSlotRank (qi_Slot x)) \<and> equipmentSlotRank (qi_Slot x) < 7 \<and>
        (\<exists>i. shape_decode C (qi_ItemInstanceJSON x) = Inr i \<and> shape_json C i = Inr (qi_ItemInstanceJSON x)))"
proof (induction C r occ seen xs rule: equippedOrdered.induct)
  case (2 C r occ seen x xs)
  from 2(2) obtain i where ok: "equipmentSlotRank (qi_Slot x) < 7" "r < int (equipmentSlotRank (qi_Slot x))"
    "qi_Slot x \<notin> occ" "shape_decode C (qi_ItemInstanceJSON x) = Inr i" "inst_ID i \<notin> seen" "shape_json C i = Inr (qi_ItemInstanceJSON x)"
    "equippedOrdered C (int (equipmentSlotRank (qi_Slot x))) (insert (qi_Slot x) occ) (insert (inst_ID i) seen) xs"
    by (auto simp: Let_def split: if_splits sum.splits)
  have g: "\<not> (7 \<le> equipmentSlotRank (qi_Slot x) \<or> int (equipmentSlotRank (qi_Slot x)) \<le> r)" using ok by simp
  from 2(1) [OF refl g ok(3-6,7)] ok show ?case by fastforce
qed simp

lemma equipmentSlotRank_trimmed: "equipmentSlotRank s < 7 \<Longrightarrow> TrimSpace s = s"
  by (auto simp: equipmentSlotRank_def plain_ends_TrimSpace plain_ends_def split: if_splits)

lemma trimmedEquipment_id:
  assumes "equipmentOrdered r occ xs = Some occ'"
  shows "trimmedEquipment xs = xs"
proof -
  note s = equipmentOrdered_sorted [OF assms]
  have "map (\<lambda>x. \<lparr>qs_Slot = TrimSpace (qs_Slot x), qs_ItemArchetypeID = TrimSpace (qs_ItemArchetypeID x)\<rparr>) xs = xs"
    using s by (intro map_idI) (simp add: equipmentSlotRank_trimmed)
  then show ?thesis
    using s by (simp add: trimmedEquipment_def sort_key_id_if_sorted strict_sorted_imp_sorted)
qed

lemma canonicalEquipped_id:
  assumes "equippedOrdered C r occ seen xs"
  shows "canonicalEquipped C xs = Inr xs" "sort_key (equipmentSlotRank \<circ> qi_Slot) xs = xs"
proof -
  note s = equippedOrdered_sorted [OF assms]
  from s show "sort_key (equipmentSlotRank \<circ> qi_Slot) xs = xs" by (simp add: sort_key_id_if_sorted strict_sorted_imp_sorted)
  from s have "\<forall>x \<in> set xs. equipmentSlotRank (qi_Slot x) < 7 \<and>
    (\<exists>i. shape_decode C (qi_ItemInstanceJSON x) = Inr i \<and> shape_json C i = Inr (qi_ItemInstanceJSON x))" by blast
  then show "canonicalEquipped C xs = Inr xs"
    by (induction xs) (auto simp: equipmentSlotRank_trimmed)
qed

lemma canonicalInstanceList_id:
  assumes "sorted_wrt (<) (map inst_ID xs)" and "\<forall>x \<in> set xs. \<exists>d. shape_json C x = Inr d \<and> shape_decode C d = Inr x"
  shows "canonicalInstanceList C xs = Inr xs"
proof -
  have "canonicalLoop C p xs = Inr xs" if "\<forall>q. p = Some q \<longrightarrow> (\<forall>x \<in> set xs. q < inst_ID x)" for p
    using assms that
  proof (induction xs arbitrary: p)
    case (Cons x xs)
    then obtain d where "shape_json C x = Inr d" "shape_decode C d = Inr x" by auto
    with Cons show ?case by (auto split: option.splits)
  qed simp
  then show ?thesis
    using assms(1) by (simp add: canonicalInstanceList_def sort_key_id_if_sorted strict_sorted_imp_sorted)
qed


section \<open>The canonical form\<close>

lemma validate_parts:
  assumes "validateInventoryState C s = None" and "vs_Initialized s"
  shows "\<exists>stacks instances equipment equipped seen occupied.
    state_Stacks C s = Inr stacks \<and> stacksOrdered '''' stacks \<and> encoded (vc_stacks C) stacks = Inr (vs_StacksJSON s) \<and>
    state_Instances C s = Inr instances \<and> instancesOrdered '''' {} instances = Some seen \<and>
    encodeCanonicalInstances C instances = Inr (vs_InstancesJSON s) \<and>
    state_Equipment C s = Inr equipment \<and> equipmentOrdered (- 1) {} equipment = Some occupied \<and>
    (vs_EquipmentJSON s \<noteq> '''' \<longrightarrow> tc_Marshal (vc_equipment C) equipment = Some (vs_EquipmentJSON s)) \<and>
    state_EquipmentInstances C s = Inr equipped \<and> equippedOrdered C (- 1) occupied seen equipped \<and>
    (vs_EquipmentInstancesJSON s \<noteq> '''' \<longrightarrow> tc_Marshal (vc_equipped C) equipped = Some (vs_EquipmentInstancesJSON s))"
proof -
  obtain stacks where 1: "state_Stacks C s = Inr stacks" "stacksOrdered [] stacks"
    "stacks = [] \<longrightarrow> vs_StacksJSON s = []" "stacks \<noteq> [] \<longrightarrow> tc_Marshal (vc_stacks C) stacks = Some (vs_StacksJSON s)"
    using assms by (cases "state_Stacks C s") (auto simp: validateInventoryState_def split: if_splits)
  obtain instances where 2: "state_Instances C s = Inr instances"
    using assms 1 by (cases "state_Instances C s") (simp_all add: validateInventoryState_def split: if_splits)
  obtain seen where 3: "instancesOrdered [] {} instances = Some seen" "instances = [] \<longrightarrow> vs_InstancesJSON s = []"
    "instances \<noteq> [] \<longrightarrow> encodeCanonicalInstances C instances = Inr (vs_InstancesJSON s)"
    using assms 1 2 by (cases "instancesOrdered [] {} instances") (auto simp: validateInventoryState_def split: if_splits)
  obtain equipment where 4: "state_Equipment C s = Inr equipment"
    using assms 1 2 3 by (cases "state_Equipment C s") (simp_all add: validateInventoryState_def split: if_splits)
  obtain occupied where 5: "equipmentOrdered (- 1) {} equipment = Some occupied"
    "vs_EquipmentJSON s \<noteq> [] \<longrightarrow> tc_Marshal (vc_equipment C) equipment = Some (vs_EquipmentJSON s)"
    using assms 1 2 3 4
    by (cases "equipmentOrdered (- 1) {} equipment") (auto simp: validateInventoryState_def split: if_splits)
  obtain equipped where 6: "state_EquipmentInstances C s = Inr equipped"
    using assms 1 2 3 4 5 by (cases "state_EquipmentInstances C s") (simp_all add: validateInventoryState_def split: if_splits)
  have 7: "equippedOrdered C (- 1) occupied seen equipped"
    "vs_EquipmentInstancesJSON s \<noteq> [] \<longrightarrow> tc_Marshal (vc_equipped C) equipped = Some (vs_EquipmentInstancesJSON s)"
    using assms 1 2 3 4 5 6 by (simp_all add: validateInventoryState_def split: if_splits) blast
  have "encoded (vc_stacks C) stacks = Inr (vs_StacksJSON s)" using 1 by (simp add: encoded_def)
  moreover have "encodeCanonicalInstances C instances = Inr (vs_InstancesJSON s)"
    using 3 by (cases "instances = []") (simp_all add: encodeCanonicalInstances_def)
  ultimately show ?thesis using 1(1,2) 2 3(1) 4 5 6 7 by blast
qed

lemma decodeInstances_shape:
  "decodeInstances C raw = Inr xs \<Longrightarrow> x \<in> set xs \<Longrightarrow> \<exists>d. shape_json C x = Inr d \<and> shape_decode C d = Inr x"
proof (induction raw arbitrary: xs)
  case (Cons d raw)
  then obtain y ys where "shape_decode C d = Inr y" "decodeInstances C raw = Inr ys" "xs = y # ys"
    by (auto split: sum.splits)
  then show ?case using Cons shape_decode_json [of C d y] by auto
qed simp

lemma state_Instances_shape:
  "state_Instances C s = Inr xs \<Longrightarrow> x \<in> set xs \<Longrightarrow> \<exists>d. shape_json C x = Inr d \<and> shape_decode C d = Inr x"
  by (auto simp: state_Instances_def split: if_splits option.splits dest: decodeInstances_shape)

lemma shape_json_ID: "shape_json C x = Inr d \<Longrightarrow> inst_ID x \<noteq> ''''"
  by (auto simp: shape_json_def CanonicalShapeJSON_def canonicalShape_def ValidateShape_def Let_def
      split: sum.splits option.splits if_splits)

text \<open>
  A valid state without the old hand fields, whose encoded equipment lists are not empty, is its
  own canonical form.
\<close>

lemma canonical_fixpoint:
  assumes "validateInventoryState C s = None" and "vs_Initialized s" and "\<not> legacyHands s"
    and "state_Equipment C s = Inr [] \<Longrightarrow> vs_EquipmentJSON s = []"
    and "state_EquipmentInstances C s = Inr [] \<Longrightarrow> vs_EquipmentInstancesJSON s = []"
  shows "CanonicalInventoryState C s = Inr s"
proof -
  from validate_parts [OF assms(1,2)] obtain stacks instances equipment equipped seen occupied where
    p: "state_Stacks C s = Inr stacks" "stacksOrdered [] stacks" "encoded (vc_stacks C) stacks = Inr (vs_StacksJSON s)"
    "state_Instances C s = Inr instances" "instancesOrdered [] {} instances = Some seen"
    "encodeCanonicalInstances C instances = Inr (vs_InstancesJSON s)"
    "state_Equipment C s = Inr equipment" "equipmentOrdered (- 1) {} equipment = Some occupied"
    "vs_EquipmentJSON s \<noteq> [] \<longrightarrow> tc_Marshal (vc_equipment C) equipment = Some (vs_EquipmentJSON s)"
    "state_EquipmentInstances C s = Inr equipped" "equippedOrdered C (- 1) occupied seen equipped"
    "vs_EquipmentInstancesJSON s \<noteq> [] \<longrightarrow> tc_Marshal (vc_equipped C) equipped = Some (vs_EquipmentInstancesJSON s)"
    by (elim exE conjE) (rule that)
  note shape = state_Instances_shape [OF p(4)]
  have ids: "\<forall>x \<in> set instances. inst_ID x \<noteq> ''''" using shape shape_json_ID by blast
  have inst: "canonicalInstanceList C instances = Inr instances"
    using instancesOrdered_sorted [OF p(5) _ ids] shape by (intro canonicalInstanceList_id) auto
  have hands: "vs_MainHand s = ''''" "vs_OffHand s = ''''" "vs_MainHandInstanceJSON s = ''''" "vs_OffHandInstanceJSON s = ''''"
    using assms(3) by (simp_all add: legacyHands_def)
  have equip: "encoded (vc_equipment C) equipment = Inr (vs_EquipmentJSON s)"
  proof (cases "vs_EquipmentJSON s = []")
    case True
    then have "equipment = []" using p(7) hands by (simp add: state_Equipment_def)
    with True show ?thesis by (simp add: encoded_def)
  next
    case False
    then have "equipment \<noteq> []" using assms(4) p(7) by metis
    with False p(9) show ?thesis by (simp add: encoded_def)
  qed
  have worn: "encoded (vc_equipped C) equipped = Inr (vs_EquipmentInstancesJSON s)"
  proof (cases "vs_EquipmentInstancesJSON s = []")
    case True
    then have "equipped = []" using p(10) hands by (simp add: state_EquipmentInstances_def)
    with True show ?thesis by (simp add: encoded_def)
  next
    case False
    then have "equipped \<noteq> []" using assms(5) p(10) by metis
    with False p(12) show ?thesis by (simp add: encoded_def)
  qed
  have s: "zero_inventory_state\<lparr>vs_Initialized := True, vs_StacksJSON := vs_StacksJSON s, vs_InstancesJSON := vs_InstancesJSON s,
      vs_EquipmentJSON := vs_EquipmentJSON s, vs_EquipmentInstancesJSON := vs_EquipmentInstancesJSON s\<rparr> = s"
    using hands assms(2) by (simp add: zero_inventory_state_def)
  have "NewInventoryStateWithSlots C stacks instances equipment equipped = Inr s"
    by (simp add: NewInventoryStateWithSlots_def trimmedStacks_id [OF p(2)] p(3,6) inst
        trimmedEquipment_id [OF p(8)] equip canonicalEquipped_id [OF p(11)] worn s assms(1))
  then show ?thesis
    by (simp add: CanonicalInventoryState_def assms(1,2) p(1,4,7,10))
qed

section \<open>What is encoded is read back\<close>

definition reads_back :: "'a text_codec \<Rightarrow> 'a \<Rightarrow> bool" where
  "reads_back c x = (\<forall>d. tc_Marshal c x = Some d \<longrightarrow> d \<noteq> '''' \<and> tc_Unmarshal c d = Some x)"

definition inventory_readable ::
  "inventory_codecs \<Rightarrow> inventory_stack list \<Rightarrow> item_instance list \<Rightarrow> equipment_slot_state list \<Rightarrow>
     equipment_instance_slot_state list \<Rightarrow> bool" where
  "inventory_readable C stacks instances equipment equipped =
     (reads_back (vc_stacks C) (trimmedStacks stacks) \<and> reads_back (vc_equipment C) (trimmedEquipment equipment) \<and>
      (\<forall>xs raw. canonicalInstanceList C instances = Inr xs \<longrightarrow> shapes C xs = Inr raw \<longrightarrow> reads_back (vc_raw C) raw) \<and>
      (\<forall>worn. canonicalEquipped C equipped = Inr worn \<longrightarrow>
         reads_back (vc_equipped C) (sort_key (equipmentSlotRank \<circ> qi_Slot) worn)))"

lemma encoded_reads:
  assumes "encoded c xs = Inr d" and "reads_back c xs"
  shows "(if d = [] then Some [] else tc_Unmarshal c d) = Some xs" "d = [] \<longleftrightarrow> xs = []"
  using assms by (auto simp: encoded_def reads_back_def split: if_splits option.splits)

lemma canonicalLoop_shapes:
  "canonicalLoop C p xs = Inr ys \<Longrightarrow> \<forall>y \<in> set ys. \<exists>d. shape_json C y = Inr d \<and> shape_decode C d = Inr y"
proof (induction xs arbitrary: p ys)
  case (Cons x xs)
  then obtain d y zs where "shape_json C x = Inr d" "shape_decode C d = Inr y" "canonicalLoop C (Some (inst_ID y)) xs = Inr zs"
    "ys = y # zs"
    by (auto split: sum.splits if_splits option.splits)
  then show ?case using Cons.IH shape_decode_json [of C d y] by auto
qed simp

text \<open>
  C26. The durable form of an inventory. Whatever stacks, instances and worn equipment the
  constructor accepts, the state it builds is valid and its own canonical form, and reading it
  gives back the stacks and slots trimmed and in order, the instances in canonical form by id and
  the worn instances by slot, provided the JSON package reads back the lists it wrote.
\<close>

theorem inventory_state_canonical:
  assumes "NewInventoryStateWithSlots C stacks instances equipment equipped = Inr s"
    and "inventory_readable C stacks instances equipment equipped"
  shows "vs_Initialized s \<and> validateInventoryState C s = None \<and> CanonicalInventoryState C s = Inr s \<and>
    state_Stacks C s = Inr (trimmedStacks stacks) \<and> state_Equipment C s = Inr (trimmedEquipment equipment) \<and>
    (\<exists>xs. canonicalInstanceList C instances = Inr xs \<and> state_Instances C s = Inr xs) \<and>
    (\<exists>worn. canonicalEquipped C equipped = Inr worn \<and>
       state_EquipmentInstances C s = Inr (sort_key (equipmentSlotRank \<circ> qi_Slot) worn)) \<and>
    HasItemInstances s = (instances \<noteq> [] \<or> equipped \<noteq> [])"
proof -
  from assms(1) obtain sj xs ij ej worn wj where
    p: "encoded (vc_stacks C) (trimmedStacks stacks) = Inr sj" "canonicalInstanceList C instances = Inr xs"
    "encodeCanonicalInstances C xs = Inr ij" "encoded (vc_equipment C) (trimmedEquipment equipment) = Inr ej"
    "canonicalEquipped C equipped = Inr worn" "encoded (vc_equipped C) (sort_key (equipmentSlotRank \<circ> qi_Slot) worn) = Inr wj"
    and s: "s = zero_inventory_state\<lparr>vs_Initialized := True, vs_StacksJSON := sj, vs_InstancesJSON := ij,
              vs_EquipmentJSON := ej, vs_EquipmentInstancesJSON := wj\<rparr>"
    and ok: "validateInventoryState C s = None"
    by (auto simp: NewInventoryStateWithSlots_def Let_def split: sum.splits option.splits)
  have f: "vs_Initialized s" "vs_StacksJSON s = sj" "vs_InstancesJSON s = ij" "vs_EquipmentJSON s = ej"
    "vs_EquipmentInstancesJSON s = wj" "\<not> legacyHands s" "vs_MainHand s = []" "vs_OffHand s = []"
    "vs_MainHandInstanceJSON s = []" "vs_OffHandInstanceJSON s = []"
    by (simp_all add: s zero_inventory_state_def legacyHands_def)
  note r = assms(2) [unfolded inventory_readable_def]
  have st: "state_Stacks C s = Inr (trimmedStacks stacks)"
    using encoded_reads [OF p(1)] r by (auto simp: state_Stacks_def f split: if_splits)
  have eq: "state_Equipment C s = Inr (trimmedEquipment equipment)"
    using encoded_reads [OF p(4)] r by (auto simp: state_Equipment_def f split: if_splits)
  have wo: "state_EquipmentInstances C s = Inr (sort_key (equipmentSlotRank \<circ> qi_Slot) worn)"
    using encoded_reads [OF p(6)] r p(5) by (auto simp: state_EquipmentInstances_def f split: if_splits)
  have sh: "\<forall>y \<in> set xs. \<exists>d. shape_json C y = Inr d \<and> shape_decode C d = Inr y"
    using p(2) canonicalLoop_shapes by (auto simp: canonicalInstanceList_def)
  have ins: "state_Instances C s = Inr xs" "ij = [] \<longleftrightarrow> xs = []"
  proof -
    consider "xs = []" "ij = []" | raw where "xs \<noteq> []" "shapes C xs = Inr raw" "tc_Marshal (vc_raw C) raw = Some ij"
      using p(3) by (auto simp: encodeCanonicalInstances_def split: if_splits sum.splits option.splits)
    then have "state_Instances C s = Inr xs \<and> (ij = [] \<longleftrightarrow> xs = [])"
    proof cases
      case 1
      then show ?thesis by (simp add: state_Instances_def f)
    next
      case 2
      then have "ij \<noteq> [] \<and> tc_Unmarshal (vc_raw C) ij = Some raw" using r p(2) by (auto simp: reads_back_def)
      moreover have "decodeInstances C raw = Inr xs"
        using decodeInstances_shapes(2) [OF 2(2)] sh by fastforce
      ultimately show ?thesis using 2(1) by (simp add: state_Instances_def f)
    qed
    then show "state_Instances C s = Inr xs" "ij = [] \<longleftrightarrow> xs = []" by blast+
  qed
  have canon: "CanonicalInventoryState C s = Inr s"
    using encoded_reads(2) [OF p(4)] encoded_reads(2) [OF p(6)] r p(5) eq wo
    by (intro canonical_fixpoint ok f) (auto simp: f)
  have len: "xs = [] \<longleftrightarrow> instances = []" "worn = [] \<longleftrightarrow> equipped = []"
  proof -
    have "canonicalLoop C q zs = Inr ys \<Longrightarrow> ys = [] \<longleftrightarrow> zs = []" for q zs ys
      by (cases zs) (auto split: sum.splits if_splits option.splits)
    from this [OF p(2) [unfolded canonicalInstanceList_def]]
    have "xs = [] \<longleftrightarrow> sort_key inst_ID instances = []" .
    then show "xs = [] \<longleftrightarrow> instances = []" by (metis length_0_conv length_sort)
    show "worn = [] \<longleftrightarrow> equipped = []" using p(5) by (cases equipped) (auto split: sum.splits)
  qed
  have "wj = [] \<longleftrightarrow> sort_key (equipmentSlotRank \<circ> qi_Slot) worn = []"
    using encoded_reads(2) [OF p(6)] r p(5) by blast
  then have "wj = [] \<longleftrightarrow> worn = []" by (metis length_0_conv length_sort)
  then have has: "HasItemInstances s = (instances \<noteq> [] \<or> equipped \<noteq> [])"
    using len ins(2) by (auto simp: HasItemInstances_def f)
  from f(1) ok canon st eq p(2,5) ins(1) wo has show ?thesis by blast
qed


section \<open>Witness\<close>

definition sample_stack :: inventory_stack where
  "sample_stack = \<lparr>ik_ItemArchetypeID = ''potion'', ik_Quantity = 5\<rparr>"

definition sample_ring :: item_instance where
  "sample_ring = \<lparr>inst_ID = ''i-1'', inst_ItemArchetypeID = ''helm'', inst_Affixes = []\<rparr>"

definition sample_blade :: equipment_slot_state where
  "sample_blade = \<lparr>qs_Slot = ''main_hand'', qs_ItemArchetypeID = ''blade''\<rparr>"

definition sample_codecs :: inventory_codecs where
  "sample_codecs =
     \<lparr>vc_stacks = \<lparr>tc_Marshal = (\<lambda>xs. if xs = [sample_stack] then Some ''s'' else None),
                   tc_Unmarshal = (\<lambda>d. if d = ''s'' then Some [sample_stack] else None)\<rparr>,
      vc_raw = \<lparr>tc_Marshal = (\<lambda>xs. if xs = [''r''] then Some ''[r]'' else None),
                tc_Unmarshal = (\<lambda>d. if d = ''[r]'' then Some [''r''] else None)\<rparr>,
      vc_instance = \<lparr>tc_Marshal = (\<lambda>x. if x = sample_ring then Some ''r'' else None),
                     tc_Unmarshal = (\<lambda>d. if d = ''r'' then Some sample_ring else None)\<rparr>,
      vc_equipment = \<lparr>tc_Marshal = (\<lambda>xs. if xs = [sample_blade] then Some ''e'' else None),
                      tc_Unmarshal = (\<lambda>d. if d = ''e'' then Some [sample_blade] else None)\<rparr>,
      vc_equipped = \<lparr>tc_Marshal = (\<lambda>_. None), tc_Unmarshal = (\<lambda>_. None)\<rparr>\<rparr>"

definition sample_durable :: inventory_state where
  "sample_durable = zero_inventory_state\<lparr>vs_Initialized := True, vs_StacksJSON := ''s'', vs_InstancesJSON := ''[r]'',
     vs_EquipmentJSON := ''e''\<rparr>"

lemma sample_shape: "shape_json sample_codecs sample_ring = Inr ''r''" "shape_decode sample_codecs ''r'' = Inr sample_ring"
  by code_simp+

lemma sample_state_built:
  "NewInventoryStateWithSlots sample_codecs [\<lparr>ik_ItemArchetypeID = '' potion'', ik_Quantity = 5\<rparr>] [sample_ring]
     [\<lparr>qs_Slot = ''main_hand'', qs_ItemArchetypeID = ''blade ''\<rparr>] [] = Inr sample_durable"
  by code_simp

theorem inventory_state_canonical_witness:
  "CanonicalInventoryState sample_codecs sample_durable = Inr sample_durable \<and>
   state_Stacks sample_codecs sample_durable = Inr [sample_stack] \<and> HasItemInstances sample_durable"
proof -
  have r: "inventory_readable sample_codecs [\<lparr>ik_ItemArchetypeID = '' potion'', ik_Quantity = 5\<rparr>] [sample_ring]
     [\<lparr>qs_Slot = ''main_hand'', qs_ItemArchetypeID = ''blade ''\<rparr>] []"
    by (auto simp: inventory_readable_def reads_back_def sample_codecs_def split: if_splits)
  have t: "trimmedStacks [\<lparr>ik_ItemArchetypeID = '' potion'', ik_Quantity = 5\<rparr>] = [sample_stack]" by code_simp
  from inventory_state_canonical [OF sample_state_built r] t show ?thesis by simp
qed

end
