(* ===== verification/Lanes.thy ===== *)
theory Lanes
  imports Prelude
begin

text \<open>
  The contract of a first-in first-out lane, which the outboxes and the connections share: each
  operation may accept some items at the end and hand out some from the front.
\<close>

fun lane_trace ::
  "('o \<Rightarrow> 's \<Rightarrow> ('e list \<times> 'e list) \<times> 's) \<Rightarrow> 'o list \<Rightarrow> 's \<Rightarrow> 'e list \<times> 'e list \<times> 's" where
  "lane_trace step [] s = ([], [], s)"
| "lane_trace step (x # xs) s =
     (case step x s of ((a, d), s1) \<Rightarrow>
        case lane_trace step xs s1 of (as, ds, s2) \<Rightarrow> (a @ as, d @ ds, s2))"

locale fifo_lane =
  fixes step :: "'o \<Rightarrow> 's \<Rightarrow> ('e list \<times> 'e list) \<times> 's"
    and inv :: "'s \<Rightarrow> bool"
    and queue :: "'s \<Rightarrow> 'e list"
  assumes lane_inv: "\<lbrakk>inv s; step x s = ((a, d), s')\<rbrakk> \<Longrightarrow> inv s'"
    and lane_flow: "\<lbrakk>inv s; step x s = ((a, d), s')\<rbrakk> \<Longrightarrow> queue s @ a = d @ queue s'"
begin

lemma trace_inv: "\<lbrakk>inv s; lane_trace step xs s = (as, ds, s')\<rbrakk> \<Longrightarrow> inv s'"
  by (induction xs arbitrary: s as ds) (auto split: prod.splits dest: lane_inv)

text \<open>Everything accepted is handed out in order, or still queued: nothing is lost or doubled.\<close>

lemma trace_flow: "\<lbrakk>inv s; lane_trace step xs s = (as, ds, s')\<rbrakk> \<Longrightarrow> queue s @ as = ds @ queue s'"
proof (induction xs arbitrary: s as ds)
  case (Cons x xs)
  obtain a d s1 where one: "step x s = ((a, d), s1)" by (metis prod.collapse)
  obtain as' ds' where rest: "lane_trace step xs s1 = (as', ds', s')" "as = a @ as'" "ds = d @ ds'"
    using Cons.prems(2) by (auto simp: one split: prod.splits)
  have "queue s @ as = (queue s @ a) @ as'" by (simp add: rest)
  also have "\<dots> = d @ (queue s1 @ as')" using lane_flow [OF Cons.prems(1) one] by simp
  also have "\<dots> = ds @ queue s'" using Cons.IH [OF lane_inv [OF Cons.prems(1) one] rest(1)] by (simp add: rest)
  finally show ?case .
qed simp

lemma trace_prefix: "\<lbrakk>inv s; queue s = []; lane_trace step xs s = (as, ds, s')\<rbrakk> \<Longrightarrow> prefix ds as"
  using trace_flow by fastforce

end

end
