(* ===== verification/CharacterState.thy ===== *)
theory CharacterState
  imports InventoryState Lanes CharacterIdentity SkillUse Appearance CharacterStats RespawnPolicy
begin

text \<open>
  The durable state of a character (\<open>internal/characterstate\<close>): the snapshot and what makes one
  valid in each schema version, and the bounded outbox of save intents between the world owner and
  the persistence worker. The outbox' mutex makes its operations atomic.
\<close>

section \<open>Snapshots\<close>

definition LegacySchemaVersion :: u16 where [go_defs]: "LegacySchemaVersion = 1"
definition RespawnSchemaVersion :: u16 where [go_defs]: "RespawnSchemaVersion = 2"
definition ResourceSchemaVersion :: u16 where [go_defs]: "ResourceSchemaVersion = 3"
definition InventorySchemaVersion :: u16 where [go_defs]: "InventorySchemaVersion = 4"
definition EquipmentSchemaVersion :: u16 where [go_defs]: "EquipmentSchemaVersion = 5"
definition ClassSchemaVersion :: u16 where [go_defs]: "ClassSchemaVersion = 6"
definition ClasslessSchemaVersion :: u16 where [go_defs]: "ClasslessSchemaVersion = 9"
definition ItemInstanceSchemaVersion :: u16 where [go_defs]: "ItemInstanceSchemaVersion = 10"
definition PrimaryStatsSchemaVersion :: u16 where [go_defs]: "PrimaryStatsSchemaVersion = 11"
definition SixPrimaryStatsSchemaVersion :: u16 where [go_defs]: "SixPrimaryStatsSchemaVersion = 12"
definition AppearanceSchemaVersion :: u16 where [go_defs]: "AppearanceSchemaVersion = 13"
definition state_SchemaVersion :: u16 where [go_defs]: "state_SchemaVersion = AppearanceSchemaVersion"
definition LegacyDefaultMaxMP :: u32 where [go_defs]: "LegacyDefaultMaxMP = 100"

record world_ref =
  wf_WorldID :: string
  wf_Revision :: string
  wf_GameplaySHA256 :: string

record defeated_respawn =
  dr_Context :: string
  dr_SpawnPointID :: string
  dr_SpawnClass :: string
  dr_Position :: position
  dr_RemainingTicks :: u64
  dr_CheckpointID :: string

definition zero_defeated_respawn :: defeated_respawn where
  "zero_defeated_respawn = \<lparr>dr_Context = '''', dr_SpawnPointID = '''', dr_SpawnClass = '''',
     dr_Position = \<lparr>pos_X = 0, pos_Y = 0, pos_Z = 0, pos_Layer = 0\<rparr>, dr_RemainingTicks = 0, dr_CheckpointID = ''''\<rparr>"

record char_snapshot =
  ss_World :: world_ref
  ss_HP :: u32
  ss_MaxHP :: u32
  ss_MP :: u32
  ss_MaxMP :: u32
  ss_Defeated :: bool
  ss_Position :: position
  ss_Yaw :: f32
  ss_Respawn :: defeated_respawn
  ss_Inventory :: inventory_state
  ss_CombatLoadout :: slots
  ss_LearnedSkills :: learned_set
  ss_PrimaryStats :: primary
  ss_SkinID :: string

record char_record =
  rc_SchemaVersion :: u16
  rc_CharacterID :: string
  rc_Revision :: u64
  rc_Snapshot :: char_snapshot

text \<open>Go's \<open>==\<close> on the respawn, which holds floats.\<close>

definition respawn_is_zero :: "defeated_respawn \<Rightarrow> bool" where
  "respawn_is_zero r =
     (dr_Context r = '''' \<and> dr_SpawnPointID r = '''' \<and> dr_SpawnClass r = '''' \<and>
      position_eq (dr_Position r) (dr_Position zero_defeated_respawn) \<and> dr_RemainingTicks r = 0 \<and> dr_CheckpointID r = '''')"

section \<open>Validation\<close>

definition validateTrustedIdentity :: "binding \<Rightarrow> state_error option" where
  "validateTrustedIdentity b =
     (if \<not> binding_Valid b \<or> bd_Assurance b \<noteq> AssuranceTrusted then Some ErrIdentityNotDurable else None)"

definition state_validDeathContext :: "string \<Rightarrow> bool" where
  "state_validDeathContext c = (c = DeathContextPvE \<or> c = DeathContextPvP \<or> c = DeathContextSiege)"

definition state_validSpawnClass :: "string \<Rightarrow> bool" where
  "state_validSpawnClass c = (c = SpawnClassSafe \<or> c = SpawnClassCheckpoint \<or> c = SpawnClassSiege)"

definition finitePosition :: "position \<Rightarrow> bool" where
  "finitePosition p = (f32_finite (pos_X p) \<and> f32_finite (pos_Y p) \<and> f32_finite (pos_Z p))"

definition validSHA256 :: "string \<Rightarrow> bool" where
  "validSHA256 v = (length v = 64 \<and> list_all hexChar v)"

definition validateCombatLoadout :: "slots \<Rightarrow> state_error option" where
  "validateCombatLoadout s = (if slots_Validate s \<noteq> None then Some ErrInvalidSnapshot else None)"

definition validateLearnedSkills :: "learned_set \<Rightarrow> state_error option" where
  "validateLearnedSkills s = (if set_Validate s \<noteq> None then Some ErrInvalidSnapshot else None)"

definition validateCombatLoadoutLearned :: "slots \<Rightarrow> learned_set \<Rightarrow> state_error option" where
  "validateCombatLoadoutLearned l s =
     (if list_all (set_Contains s) (slots_IDs l) then None else Some ErrInvalidSnapshot)"

definition validateSnapshotBase :: "char_snapshot \<Rightarrow> state_error option" where
  "validateSnapshotBase s =
     (if wf_WorldID (ss_World s) = '''' \<or> wf_Revision (ss_World s) = '''' \<or> \<not> validSHA256 (wf_GameplaySHA256 (ss_World s))
      then Some ErrInvalidSnapshot
      else if ss_MaxHP s = 0 \<or> ss_MaxHP s < ss_HP s then Some ErrInvalidSnapshot
      else if (if ss_Defeated s then ss_HP s \<noteq> 0 else ss_HP s = 0) then Some ErrInvalidSnapshot
      else if \<not> finitePosition (ss_Position s) \<or> \<not> f32_finite (ss_Yaw s) then Some ErrInvalidSnapshot
      else if ValidateBase (ss_PrimaryStats s) \<noteq> None then Some ErrInvalidSnapshot
      else None)"

definition validateRespawnSnapshot :: "char_snapshot \<Rightarrow> state_error option" where
  "validateRespawnSnapshot s =
     (if ss_Defeated s
      then (if \<not> state_validDeathContext (dr_Context (ss_Respawn s)) \<or> dr_SpawnPointID (ss_Respawn s) = '''' \<or>
               \<not> state_validSpawnClass (dr_SpawnClass (ss_Respawn s)) \<or> \<not> finitePosition (dr_Position (ss_Respawn s))
            then Some ErrInvalidSnapshot else None)
      else if \<not> respawn_is_zero (ss_Respawn s) then Some ErrInvalidSnapshot else None)"

definition validateSnapshotV3 :: "char_snapshot \<Rightarrow> state_error option" where
  "validateSnapshotV3 s =
     (case validateSnapshotBase s of
        Some e \<Rightarrow> Some e
      | None \<Rightarrow>
          (case validateRespawnSnapshot s of
             Some e \<Rightarrow> Some e
           | None \<Rightarrow> if ss_MaxMP s = 0 \<or> ss_MaxMP s < ss_MP s then Some ErrInvalidSnapshot else None))"

definition validateSnapshotV4 :: "inventory_codecs \<Rightarrow> char_snapshot \<Rightarrow> state_error option" where
  "validateSnapshotV4 C s =
     (case validateSnapshotV3 s of
        Some e \<Rightarrow> Some e
      | None \<Rightarrow> if vs_OffHand (ss_Inventory s) \<noteq> '''' then Some ErrInvalidSnapshot
               else validateInventoryState C (ss_Inventory s))"

definition validateSnapshotV5 :: "inventory_codecs \<Rightarrow> char_snapshot \<Rightarrow> state_error option" where
  "validateSnapshotV5 C s =
     (case validateSnapshotV3 s of Some e \<Rightarrow> Some e | None \<Rightarrow> validateInventoryState C (ss_Inventory s))"

definition validateSnapshotV6 :: "inventory_codecs \<Rightarrow> char_snapshot \<Rightarrow> state_error option" where
  "validateSnapshotV6 C s = validateSnapshotV5 C s"

definition validateSnapshotV7 :: "inventory_codecs \<Rightarrow> char_snapshot \<Rightarrow> state_error option" where
  "validateSnapshotV7 C s =
     (case validateSnapshotV6 C s of Some e \<Rightarrow> Some e | None \<Rightarrow> validateCombatLoadout (ss_CombatLoadout s))"

definition validateSnapshotV8 :: "inventory_codecs \<Rightarrow> char_snapshot \<Rightarrow> state_error option" where
  "validateSnapshotV8 C s =
     (case validateSnapshotV7 C s of
        Some e \<Rightarrow> Some e
      | None \<Rightarrow>
          (case validateLearnedSkills (ss_LearnedSkills s) of
             Some e \<Rightarrow> Some e
           | None \<Rightarrow> validateCombatLoadoutLearned (ss_CombatLoadout s) (ss_LearnedSkills s)))"

definition validateSnapshotV9 :: "inventory_codecs \<Rightarrow> char_snapshot \<Rightarrow> state_error option" where
  "validateSnapshotV9 C s =
     (if HasItemInstances (ss_Inventory s) then Some ErrInvalidSnapshot else validateSnapshotV8 C s)"

definition validateSnapshotV10 :: "inventory_codecs \<Rightarrow> char_snapshot \<Rightarrow> state_error option" where
  "validateSnapshotV10 C s = validateSnapshotV8 C s"

definition validateSnapshotV11 :: "inventory_codecs \<Rightarrow> char_snapshot \<Rightarrow> state_error option" where
  "validateSnapshotV11 C s = validateSnapshotV10 C s"

definition validateSnapshotV12 :: "inventory_codecs \<Rightarrow> char_snapshot \<Rightarrow> state_error option" where
  "validateSnapshotV12 C s =
     (if ValidateBase (ss_PrimaryStats s) \<noteq> None then Some ErrInvalidSnapshot else validateSnapshotV11 C s)"

definition validateSnapshotV13 :: "inventory_codecs \<Rightarrow> char_snapshot \<Rightarrow> state_error option" where
  "validateSnapshotV13 C s =
     (if \<not> ValidSelection (ss_SkinID s) then Some ErrInvalidSnapshot else validateSnapshotV12 C s)"

section \<open>The outbox of saves\<close>

record save_intent =
  si_IntentID :: u64
  si_Identity :: binding
  si_Snapshot :: char_snapshot

record save_outbox =
  so_capacity :: nat
  so_nextIntentID :: u64
  so_pending :: "save_intent list"

definition save_NewOutbox :: "int \<Rightarrow> state_error + save_outbox" where
  "save_NewOutbox capacity =
     (if capacity \<le> 0 then Inl ErrInvalidOutboxCapacity
      else Inr \<lparr>so_capacity = nat capacity, so_nextIntentID = 0, so_pending = []\<rparr>)"

definition save_Depth :: "save_outbox \<Rightarrow> nat" where
  "save_Depth o' = length (so_pending o')"

definition save_Enqueue ::
  "inventory_codecs \<Rightarrow> binding \<Rightarrow> char_snapshot \<Rightarrow> save_outbox \<Rightarrow> (state_error + save_intent) \<times> save_outbox" where
  "save_Enqueue C b s o' =
     (case validateTrustedIdentity b of
        Some e \<Rightarrow> (Inl e, o')
      | None \<Rightarrow>
          (case validateSnapshotV9 C s of
             Some e \<Rightarrow> (Inl e, o')
           | None \<Rightarrow>
               if so_capacity o' \<le> length (so_pending o') then (Inl ErrSaveOutboxFull, o')
               else if so_nextIntentID o' = - 1 then (Inl ErrSaveIntentOverflow, o')
               else let intent = \<lparr>si_IntentID = so_nextIntentID o' + 1, si_Identity = b, si_Snapshot = s\<rparr>
                    in (Inr intent, o'\<lparr>so_nextIntentID := so_nextIntentID o' + 1, so_pending := so_pending o' @ [intent]\<rparr>)))"

definition save_Pending :: "int \<Rightarrow> save_outbox \<Rightarrow> save_intent list" where
  "save_Pending limit o' = (if 0 < limit then take (nat limit) (so_pending o') else so_pending o')"

definition save_Confirm :: "u64 \<Rightarrow> save_outbox \<Rightarrow> state_error option \<times> save_outbox" where
  "save_Confirm i o' =
     (case so_pending o' of
        [] \<Rightarrow> (Some ErrUnknownSaveIntent, o')
      | p # rest \<Rightarrow>
          if si_IntentID p \<noteq> i
          then (if list_ex (\<lambda>x. si_IntentID x = i) (so_pending o') then (Some ErrSaveConfirmOutOfOrder, o')
                else (Some ErrUnknownSaveIntent, o'))
          else (None, o'\<lparr>so_pending := rest\<rparr>))"


section \<open>The outbox is a lane\<close>

datatype save_command = SEnqueue binding char_snapshot | SConfirm u64

fun save_step ::
  "inventory_codecs \<Rightarrow> save_command \<Rightarrow> save_outbox \<Rightarrow> (save_intent list \<times> save_intent list) \<times> save_outbox" where
  "save_step C (SEnqueue b s) o' =
     (case save_Enqueue C b s o' of (Inr i, o1) \<Rightarrow> (([i], []), o1) | (Inl _, o1) \<Rightarrow> (([], []), o1))"
| "save_step C (SConfirm i) o' =
     (case save_Confirm i o' of
        (None, o1) \<Rightarrow> (([], take 1 (so_pending o')), o1)
      | (Some _, o1) \<Rightarrow> (([], []), o1))"

definition save_outbox_inv :: "inventory_codecs \<Rightarrow> save_outbox \<Rightarrow> bool" where
  "save_outbox_inv C o' =
     (length (so_pending o') \<le> so_capacity o' \<and>
      sorted_wrt (<) (map (unat \<circ> si_IntentID) (so_pending o')) \<and>
      (\<forall>i \<in> set (so_pending o'). unat (si_IntentID i) \<le> unat (so_nextIntentID o') \<and> si_IntentID i \<noteq> 0 \<and>
         validateTrustedIdentity (si_Identity i) = None \<and> validateSnapshotV9 C (si_Snapshot i) = None))"

lemma unat_next: "(n :: u64) \<noteq> - 1 \<Longrightarrow> unat (n + 1) = unat n + 1"
  using unatSuc [of n] by (auto simp: add.commute eq_neg_iff_add_eq_0)

lemma save_Enqueue_cases:
  assumes "save_Enqueue C b s ob = (r, ob')"
  obtains e where "r = Inl e" "ob' = ob"
  | i where "r = Inr i" "validateTrustedIdentity b = None" "validateSnapshotV9 C s = None"
    "length (so_pending ob) < so_capacity ob" "so_nextIntentID ob \<noteq> - 1"
    "i = \<lparr>si_IntentID = so_nextIntentID ob + 1, si_Identity = b, si_Snapshot = s\<rparr>"
    "ob' = ob\<lparr>so_nextIntentID := so_nextIntentID ob + 1, so_pending := so_pending ob @ [i]\<rparr>"
  using assms by (auto simp: save_Enqueue_def Let_def not_le split: option.splits if_splits)

lemma save_Enqueue_inv:
  assumes "save_outbox_inv C ob" and "save_Enqueue C b s ob = (Inr i, ob')"
  shows "save_outbox_inv C ob'"
  using assms(2)
proof (cases rule: save_Enqueue_cases)
  case (2 j)
  note n = unat_next [OF 2(5)]
  have "unat (si_IntentID x) < unat (so_nextIntentID ob) + 1" if "x \<in> set (so_pending ob)" for x
    using assms(1) that by (auto simp: save_outbox_inv_def less_Suc_eq_le)
  moreover have "so_nextIntentID ob + 1 \<noteq> 0" using 2(5) by (simp add: eq_neg_iff_add_eq_0)
  ultimately show ?thesis
    using assms(1) 2 n by (auto simp: save_outbox_inv_def sorted_wrt_append less_imp_le)
qed simp

interpretation save_lane: fifo_lane "save_step C" "save_outbox_inv C" so_pending for C
proof
  fix ob x a d ob' assume inv: "save_outbox_inv C ob" and st: "save_step C x ob = ((a, d), ob')"
  show "save_outbox_inv C ob'"
  proof (cases x)
    case (SEnqueue b s)
    then show ?thesis using inv st save_Enqueue_inv [OF inv]
      by (cases "save_Enqueue C b s ob") (auto elim!: save_Enqueue_cases split: sum.splits)
  next
    case (SConfirm i)
    then show ?thesis using inv st
      by (auto simp: save_Confirm_def save_outbox_inv_def split: list.splits if_splits)
  qed
  show "so_pending ob @ a = d @ so_pending ob'"
    using st by (cases x)
      (auto simp: save_Confirm_def elim!: save_Enqueue_cases split: prod.splits sum.splits list.splits if_splits)
qed

lemma save_NewOutbox_inv: "save_NewOutbox n = Inr ob \<Longrightarrow> save_outbox_inv C ob \<and> so_pending ob = []"
  by (auto simp: save_NewOutbox_def save_outbox_inv_def split: if_splits)

text \<open>
  C39. A character that holds a unique item is never saved by the world owner: with room in the
  outbox, a trusted identity and a snapshot that the current schema accepts (so the store and the
  save journal would take it), the outbox takes the save exactly when the inventory has no item
  instances, and otherwise refuses it as invalid and stays as it is.
\<close>

theorem outbox_refuses_instances:
  assumes "validateTrustedIdentity b = None" and "validateSnapshotV13 C s = None"
    and "length (so_pending ob) < so_capacity ob" and "so_nextIntentID ob \<noteq> - 1"
  shows "save_Enqueue C b s ob =
    (if HasItemInstances (ss_Inventory s) then (Inl ErrInvalidSnapshot, ob)
     else (Inr \<lparr>si_IntentID = so_nextIntentID ob + 1, si_Identity = b, si_Snapshot = s\<rparr>,
           ob\<lparr>so_nextIntentID := so_nextIntentID ob + 1,
              so_pending := so_pending ob @ [\<lparr>si_IntentID = so_nextIntentID ob + 1, si_Identity = b, si_Snapshot = s\<rparr>]\<rparr>))"
proof -
  have "validateSnapshotV8 C s = None"
    using assms(2) by (simp add: validateSnapshotV13_def validateSnapshotV12_def validateSnapshotV11_def
        validateSnapshotV10_def split: if_splits)
  then show ?thesis using assms by (simp add: save_Enqueue_def validateSnapshotV9_def Let_def)
qed


section \<open>Witness\<close>

definition sample_holder :: binding where
  "sample_holder = \<lparr>bd_ID = ''acct-7'', bd_Assurance = AssuranceTrusted\<rparr>"

definition sample_saved :: char_snapshot where
  "sample_saved = \<lparr>ss_World = \<lparr>wf_WorldID = ''w'', wf_Revision = ''1'', wf_GameplaySHA256 = replicate 64 CHR ''a''\<rparr>,
     ss_HP = 90, ss_MaxHP = 100, ss_MP = 10, ss_MaxMP = 100, ss_Defeated = False,
     ss_Position = \<lparr>pos_X = 0, pos_Y = 0, pos_Z = 0, pos_Layer = 0\<rparr>, ss_Yaw = 0, ss_Respawn = zero_defeated_respawn,
     ss_Inventory = sample_durable, ss_CombatLoadout = zeroSlots, ss_LearnedSkills = zeroSet,
     ss_PrimaryStats = DefaultPrimary, ss_SkinID = ''''\<rparr>"

lemma sample_holder_trusted: "validateTrustedIdentity sample_holder = None"
  by code_simp

lemma sample_saved_valid: "validateSnapshotV13 sample_codecs sample_saved = None"
  by code_simp

text \<open>A character with one ring in the bag.\<close>

theorem outbox_refuses_instances_witness:
  "save_Enqueue sample_codecs sample_holder sample_saved \<lparr>so_capacity = 8, so_nextIntentID = 3, so_pending = []\<rparr> =
     (Inl ErrInvalidSnapshot, \<lparr>so_capacity = 8, so_nextIntentID = 3, so_pending = []\<rparr>)"
proof -
  have "HasItemInstances (ss_Inventory sample_saved)" by code_simp
  then show ?thesis
    using outbox_refuses_instances [OF sample_holder_trusted sample_saved_valid,
        of "\<lparr>so_capacity = 8, so_nextIntentID = 3, so_pending = []\<rparr>"]
    by simp
qed

end
