(* ===== verification/CharacterStore.thy ===== *)
theory CharacterStore
  imports CharacterState DeathJournal
begin

text \<open>
  The durable character store (\<open>internal/characterstate/store.go\<close>): one JSON record per character in
  a directory of files, loaded through the guards and migrations of thirteen schema versions and
  replaced by a rename under a compare-and-swap of the revision. \<open>encoding/json\<close>, \<open>sha256\<close> and the
  faults of the operating system are arguments; the store's mutex makes its calls atomic.
\<close>

section \<open>The record on disk\<close>

definition classid_IsCanonical :: "string \<Rightarrow> bool" where
  "classid_IsCanonical i =
     (i = ''class_oathguard'' \<or> i = ''class_breaker'' \<or> i = ''class_ranger'' \<or> i = ''class_starfire_mage'' \<or>
      i = ''class_oathhealer'' \<or> i = ''class_shadowblade'')"

record wire_respawn =
  wd_Context :: string
  wd_SpawnPointID :: string
  wd_SpawnClass :: string
  wd_X :: f32
  wd_Y :: f32
  wd_Z :: f32
  wd_Layer :: layer_id
  wd_RemainingTicks :: u64
  wd_CheckpointID :: string

record wire_primary =
  wq_Strength :: u32
  wq_Agility :: u32
  wq_Constitution :: "u32 option"
  wq_Intelligence :: "u32 option"
  wq_Spirit :: "u32 option"
  wq_Charisma :: "u32 option"

record wire_character =
  wc_SchemaVersion :: u16
  wc_CharacterID :: string
  wc_Revision :: u64
  wc_World :: world_ref
  wc_ClassID :: string
  wc_SkinID :: string
  wc_HP :: u32
  wc_MaxHP :: u32
  wc_MP :: u32
  wc_MaxMP :: u32
  wc_Defeated :: bool
  wc_X :: f32
  wc_Y :: f32
  wc_Z :: f32
  wc_Layer :: layer_id
  wc_Yaw :: f32
  wc_DefeatedRespawn :: "wire_respawn option"
  wc_Inventory :: inventory_state
  wc_CombatLoadout :: "string list"
  wc_LearnedSkills :: "string list"
  wc_PrimaryStats :: "wire_primary option"

record store_env =
  sv_json :: "wire_character json"
  sv_Sum256 :: "string \<Rightarrow> u8 list"
  sv_codecs :: inventory_codecs

text \<open>The faults of one call, as in the ownership store: only a failed last sync leaves the new file.\<close>

record store_faults =
  sf_read :: bool
  sf_write :: bool
  sf_syncDirectory :: bool

type_synonym store_disk = "(string, u8 list) fmap"

definition store_recordPath :: "store_env \<Rightarrow> string \<Rightarrow> string" where
  "store_recordPath E i = EncodeToString (sv_Sum256 E i) @ ''.json''"

definition combatLoadoutFromWire :: "string list \<Rightarrow> state_error + slots" where
  "combatLoadoutFromWire raw = (case NewSlots raw of Inl _ \<Rightarrow> Inl ErrInvalidSnapshot | Inr s \<Rightarrow> Inr s)"

definition combatLoadoutToWire :: "slots \<Rightarrow> string list" where
  "combatLoadoutToWire s = slots_IDs s"

definition learnedSkillsFromWire :: "string list \<Rightarrow> state_error + learned_set" where
  "learnedSkillsFromWire raw = (case NewSet raw of Inl _ \<Rightarrow> Inl ErrInvalidSnapshot | Inr s \<Rightarrow> Inr s)"

definition learnedSkillsToWire :: "learned_set \<Rightarrow> string list" where
  "learnedSkillsToWire s = set_IDs s"

definition learnedSkillsFromCombatLoadout :: "slots \<Rightarrow> state_error + learned_set" where
  "learnedSkillsFromCombatLoadout l = (case NewSet (slots_IDs l) of Inl _ \<Rightarrow> Inl ErrInvalidSnapshot | Inr s \<Rightarrow> Inr s)"

definition hasSixPrimaryWireFields :: "wire_primary option \<Rightarrow> bool" where
  "hasSixPrimaryWireFields w =
     (case w of
        None \<Rightarrow> False
      | Some p \<Rightarrow> wq_Constitution p \<noteq> None \<and> wq_Intelligence p \<noteq> None \<and> wq_Spirit p \<noteq> None \<and> wq_Charisma p \<noteq> None)"

definition primaryStatsToWire :: "primary \<Rightarrow> wire_primary option" where
  "primaryStatsToWire p =
     Some \<lparr>wq_Strength = pr_Strength p, wq_Agility = pr_Agility p, wq_Constitution = Some (pr_Constitution p),
           wq_Intelligence = Some (pr_Intelligence p), wq_Spirit = Some (pr_Spirit p), wq_Charisma = Some (pr_Charisma p)\<rparr>"

definition primaryStatsFromWire :: "u16 \<Rightarrow> wire_primary option \<Rightarrow> state_error + primary" where
  "primaryStatsFromWire schema w =
     (if schema < PrimaryStatsSchemaVersion then Inr DefaultPrimary
      else case w of
        None \<Rightarrow> Inl ErrInvalidSnapshot
      | Some p \<Rightarrow>
          if schema = PrimaryStatsSchemaVersion
          then (if hasSixPrimaryWireFields w then Inl ErrInvalidSnapshot
                else if wq_Strength p \<noteq> 0 \<and> wq_Strength p < BasePrimaryValue then Inl ErrInvalidSnapshot
                else if wq_Agility p \<noteq> 0 \<and> wq_Agility p < BasePrimaryValue then Inl ErrInvalidSnapshot
                else Inr (DefaultPrimary
                  \<lparr>pr_Strength := (if wq_Strength p = 0 then pr_Strength DefaultPrimary else wq_Strength p),
                   pr_Agility := (if wq_Agility p = 0 then pr_Agility DefaultPrimary else wq_Agility p)\<rparr>))
          else case (wq_Constitution p, wq_Intelligence p, wq_Spirit p, wq_Charisma p) of
            (Some co, Some itl, Some sp, Some ca) \<Rightarrow>
              let q = \<lparr>pr_Strength = wq_Strength p, pr_Agility = wq_Agility p, pr_Constitution = co,
                       pr_Intelligence = itl, pr_Spirit = sp, pr_Charisma = ca\<rparr>
              in if ValidateBase q \<noteq> None then Inl ErrInvalidSnapshot else Inr q
          | _ \<Rightarrow> Inl ErrInvalidSnapshot)"

section \<open>Loading\<close>

text \<open>The guards on the schema before anything is migrated: fields a version must not or must have.\<close>

definition wire_guarded :: "string \<Rightarrow> wire_character \<Rightarrow> bool" where
  "wire_guarded i w =
     (LegacySchemaVersion \<le> wc_SchemaVersion w \<and> wc_SchemaVersion w \<le> state_SchemaVersion \<and>
      wc_CharacterID w = i \<and> wc_Revision w \<noteq> 0 \<and>
      \<not> (wc_SchemaVersion w = LegacySchemaVersion \<and> wc_DefeatedRespawn w \<noteq> None) \<and>
      \<not> (wc_SchemaVersion w < InventorySchemaVersion \<and> wc_Inventory w \<noteq> zero_inventory_state) \<and>
      \<not> (wc_SchemaVersion w = InventorySchemaVersion \<and> vs_OffHand (wc_Inventory w) \<noteq> '''') \<and>
      \<not> (wc_SchemaVersion w < ItemInstanceSchemaVersion \<and> HasItemInstances (wc_Inventory w)) \<and>
      \<not> (wc_SchemaVersion w < ClassSchemaVersion \<and> wc_ClassID w \<noteq> '''') \<and>
      \<not> (ClasslessSchemaVersion \<le> wc_SchemaVersion w \<and> wc_ClassID w \<noteq> '''') \<and>
      \<not> (wc_SchemaVersion w < AppearanceSchemaVersion \<and> wc_SkinID w \<noteq> '''') \<and>
      \<not> (wc_SchemaVersion w < LoadoutSchemaVersion \<and> wc_CombatLoadout w \<noteq> []) \<and>
      \<not> (wc_SchemaVersion w < LearnedSkillsSchemaVersion \<and> wc_LearnedSkills w \<noteq> []) \<and>
      \<not> (wc_SchemaVersion w < PrimaryStatsSchemaVersion \<and> wc_PrimaryStats w \<noteq> None) \<and>
      \<not> (PrimaryStatsSchemaVersion \<le> wc_SchemaVersion w \<and> wc_PrimaryStats w = None) \<and>
      \<not> (wc_SchemaVersion w = PrimaryStatsSchemaVersion \<and> hasSixPrimaryWireFields (wc_PrimaryStats w)) \<and>
      \<not> (SixPrimaryStatsSchemaVersion \<le> wc_SchemaVersion w \<and> \<not> hasSixPrimaryWireFields (wc_PrimaryStats w)) \<and>
      \<not> (ClassSchemaVersion \<le> wc_SchemaVersion w \<and> wc_SchemaVersion w < ClasslessSchemaVersion \<and>
         wc_ClassID w \<noteq> '''' \<and> \<not> classid_IsCanonical (wc_ClassID w)))"

definition wire_learned :: "wire_character \<Rightarrow> slots \<Rightarrow> state_error + learned_set" where
  "wire_learned w loadout =
     (if LearnedSkillsSchemaVersion \<le> wc_SchemaVersion w then learnedSkillsFromWire (wc_LearnedSkills w)
      else if LoadoutSchemaVersion \<le> wc_SchemaVersion w then learnedSkillsFromCombatLoadout loadout
      else Inr zeroSet)"

definition respawn_from_wire :: "wire_respawn option \<Rightarrow> defeated_respawn" where
  "respawn_from_wire w =
     (case w of
        None \<Rightarrow> zero_defeated_respawn
      | Some d \<Rightarrow> \<lparr>dr_Context = wd_Context d, dr_SpawnPointID = wd_SpawnPointID d, dr_SpawnClass = wd_SpawnClass d,
                   dr_Position = \<lparr>pos_X = wd_X d, pos_Y = wd_Y d, pos_Z = wd_Z d, pos_Layer = wd_Layer d\<rparr>,
                   dr_RemainingTicks = wd_RemainingTicks d, dr_CheckpointID = wd_CheckpointID d\<rparr>)"

text \<open>The checks after the migration, each for the versions that have the field.\<close>

definition loaded_checked :: "inventory_codecs \<Rightarrow> u16 \<Rightarrow> char_snapshot \<Rightarrow> bool" where
  "loaded_checked C schema s =
     (validateSnapshotBase s = None \<and>
      (RespawnSchemaVersion \<le> schema \<longrightarrow> validateRespawnSnapshot s = None) \<and>
      (ResourceSchemaVersion \<le> schema \<longrightarrow> \<not> (ss_MaxMP s = 0 \<or> ss_MaxMP s < ss_MP s)) \<and>
      (InventorySchemaVersion \<le> schema \<longrightarrow> validateInventoryState C (ss_Inventory s) = None) \<and>
      (LoadoutSchemaVersion \<le> schema \<longrightarrow> validateCombatLoadout (ss_CombatLoadout s) = None) \<and>
      (LearnedSkillsSchemaVersion \<le> schema \<longrightarrow>
         validateLearnedSkills (ss_LearnedSkills s) = None \<and>
         validateCombatLoadoutLearned (ss_CombatLoadout s) (ss_LearnedSkills s) = None) \<and>
      (AppearanceSchemaVersion \<le> schema \<longrightarrow> ValidSelection (ss_SkinID s)))"

definition wire_snapshot ::
  "wire_character \<Rightarrow> inventory_state \<Rightarrow> slots \<Rightarrow> learned_set \<Rightarrow> primary \<Rightarrow> string \<Rightarrow> char_snapshot" where
  "wire_snapshot w pack loadout learned stats skin =
     (let legacy = wc_SchemaVersion w < ResourceSchemaVersion in
      \<lparr>ss_World = wc_World w, ss_HP = wc_HP w, ss_MaxHP = wc_MaxHP w,
       ss_MP = (if legacy then LegacyDefaultMaxMP else wc_MP w),
       ss_MaxMP = (if legacy then LegacyDefaultMaxMP else wc_MaxMP w), ss_Defeated = wc_Defeated w,
       ss_Position = \<lparr>pos_X = wc_X w, pos_Y = wc_Y w, pos_Z = wc_Z w, pos_Layer = wc_Layer w\<rparr>, ss_Yaw = wc_Yaw w,
       ss_Respawn = respawn_from_wire (wc_DefeatedRespawn w), ss_Inventory = pack, ss_CombatLoadout = loadout,
       ss_LearnedSkills = learned, ss_PrimaryStats = stats, ss_SkinID = skin\<rparr>)"

definition loadLocked ::
  "store_env \<Rightarrow> store_faults \<Rightarrow> string \<Rightarrow> store_disk \<Rightarrow> state_error + char_record option" where
  "loadLocked E f i disk =
     (case fmlookup disk (store_recordPath E i) of
        None \<Rightarrow> Inr None
      | Some data \<Rightarrow>
          if sf_read f then Inl ErrStoreIO
          else case js_Decode (sv_json E) data of
            None \<Rightarrow> Inl ErrCorruptRecord
          | Some w \<Rightarrow>
          if \<not> wire_guarded i w then Inl ErrCorruptRecord
          else case (if InventorySchemaVersion \<le> wc_SchemaVersion w
                     then CanonicalInventoryState (sv_codecs E) (wc_Inventory w) else Inr zero_inventory_state) of
            Inl _ \<Rightarrow> Inl ErrCorruptRecord
          | Inr pack \<Rightarrow>
          (case (if LoadoutSchemaVersion \<le> wc_SchemaVersion w then combatLoadoutFromWire (wc_CombatLoadout w)
                 else Inr zeroSlots) of
             Inl _ \<Rightarrow> Inl ErrCorruptRecord
           | Inr loadout \<Rightarrow>
          (case wire_learned w loadout of
             Inl _ \<Rightarrow> Inl ErrCorruptRecord
           | Inr learned \<Rightarrow>
          (case primaryStatsFromWire (wc_SchemaVersion w) (wc_PrimaryStats w) of
             Inl _ \<Rightarrow> Inl ErrCorruptRecord
           | Inr stats \<Rightarrow>
          let skin = (if AppearanceSchemaVersion \<le> wc_SchemaVersion w then wc_SkinID w else '''') in
          if \<not> ValidSelection skin \<and> AppearanceSchemaVersion \<le> wc_SchemaVersion w then Inl ErrCorruptRecord
          else let s = wire_snapshot w pack loadout learned stats skin in
          if \<not> loaded_checked (sv_codecs E) (wc_SchemaVersion w) s then Inl ErrCorruptRecord
          else Inr (Some \<lparr>rc_SchemaVersion = wc_SchemaVersion w, rc_CharacterID = wc_CharacterID w,
                          rc_Revision = wc_Revision w, rc_Snapshot = s\<rparr>)))))"

definition store_Load ::
  "store_env \<Rightarrow> store_faults \<Rightarrow> binding \<Rightarrow> store_disk \<Rightarrow> state_error + char_record option" where
  "store_Load E f b disk =
     (case validateTrustedIdentity b of Some e \<Rightarrow> Inl e | None \<Rightarrow> loadLocked E f (bd_ID b) disk)"

section \<open>Saving\<close>

definition respawn_to_wire :: "char_snapshot \<Rightarrow> wire_respawn option" where
  "respawn_to_wire s =
     (if ss_Defeated s
      then let r = ss_Respawn s in
           Some \<lparr>wd_Context = dr_Context r, wd_SpawnPointID = dr_SpawnPointID r, wd_SpawnClass = dr_SpawnClass r,
                 wd_X = pos_X (dr_Position r), wd_Y = pos_Y (dr_Position r), wd_Z = pos_Z (dr_Position r),
                 wd_Layer = pos_Layer (dr_Position r), wd_RemainingTicks = dr_RemainingTicks r,
                 wd_CheckpointID = dr_CheckpointID r\<rparr>
      else None)"

definition record_to_wire :: "char_record \<Rightarrow> inventory_state \<Rightarrow> wire_character" where
  "record_to_wire r pack =
     (let s = rc_Snapshot r in
      \<lparr>wc_SchemaVersion = state_SchemaVersion, wc_CharacterID = rc_CharacterID r, wc_Revision = rc_Revision r,
       wc_World = ss_World s, wc_ClassID = '''', wc_SkinID = ss_SkinID s, wc_HP = ss_HP s, wc_MaxHP = ss_MaxHP s,
       wc_MP = ss_MP s, wc_MaxMP = ss_MaxMP s, wc_Defeated = ss_Defeated s, wc_X = pos_X (ss_Position s),
       wc_Y = pos_Y (ss_Position s), wc_Z = pos_Z (ss_Position s), wc_Layer = pos_Layer (ss_Position s), wc_Yaw = ss_Yaw s,
       wc_DefeatedRespawn = respawn_to_wire s, wc_Inventory = pack,
       wc_CombatLoadout = combatLoadoutToWire (ss_CombatLoadout s),
       wc_LearnedSkills = learnedSkillsToWire (ss_LearnedSkills s),
       wc_PrimaryStats = primaryStatsToWire (ss_PrimaryStats s)\<rparr>)"

definition writeLocked ::
  "store_env \<Rightarrow> store_faults \<Rightarrow> char_record \<Rightarrow> store_disk \<Rightarrow> state_error option \<times> store_disk" where
  "writeLocked E f r disk =
     (case CanonicalInventoryState (sv_codecs E) (ss_Inventory (rc_Snapshot r)) of
        Inl e \<Rightarrow> (Some e, disk)
      | Inr pack \<Rightarrow>
          (case js_Marshal (sv_json E) (record_to_wire r pack) of
             None \<Rightarrow> (Some ErrEncode, disk)
           | Some data \<Rightarrow>
               if sf_write f then (Some ErrStoreIO, disk)
               else let disk' = fmupd (store_recordPath E (rc_CharacterID r)) (data @ [0x0A]) disk
                    in (if sf_syncDirectory f then Some ErrStoreIO else None, disk')))"

definition store_Save ::
  "store_env \<Rightarrow> store_faults \<Rightarrow> binding \<Rightarrow> u64 \<Rightarrow> char_snapshot \<Rightarrow> store_disk \<Rightarrow>
     (state_error + char_record) \<times> store_disk" where
  "store_Save E f b expectedRevision s disk =
     (case validateTrustedIdentity b of
        Some e \<Rightarrow> (Inl e, disk)
      | None \<Rightarrow>
     (case CanonicalInventoryState (sv_codecs E) (ss_Inventory s) of
        Inl e \<Rightarrow> (Inl e, disk)
      | Inr pack \<Rightarrow>
     (let s' = s\<lparr>ss_Inventory := pack\<rparr> in
      case validateSnapshotV13 (sv_codecs E) s' of
        Some e \<Rightarrow> (Inl e, disk)
      | None \<Rightarrow>
     (case loadLocked E f (bd_ID b) disk of
        Inl e \<Rightarrow> (Inl e, disk)
      | Inr current \<Rightarrow>
          if (case current of None \<Rightarrow> 0 | Some r \<Rightarrow> rc_Revision r) \<noteq> expectedRevision then (Inl ErrRevisionConflict, disk)
          else if expectedRevision = - 1 then (Inl ErrRevisionOverflow, disk)
          else let r = \<lparr>rc_SchemaVersion = state_SchemaVersion, rc_CharacterID = bd_ID b,
                        rc_Revision = expectedRevision + 1, rc_Snapshot = s'\<rparr>
               in case writeLocked E f r disk of
                    (Some e, disk') \<Rightarrow> (Inl e, disk')
                  | (None, disk') \<Rightarrow> (Inr r, disk')))))"


section \<open>What is saved is loaded\<close>

text \<open>An encoding of a list that is not empty does not decode to the empty list.\<close>

definition encodes_nonempty :: "'a list text_codec \<Rightarrow> bool" where
  "encodes_nonempty c = (\<forall>xs d. tc_Marshal c xs = Some d \<longrightarrow> tc_Unmarshal c d = Some [] \<longrightarrow> xs = [])"

definition codecs_ok :: "inventory_codecs \<Rightarrow> bool" where
  "codecs_ok C = (encodes_nonempty (vc_equipment C) \<and> encodes_nonempty (vc_equipped C))"

lemma canonical_idem:
  assumes "CanonicalInventoryState C s = Inr t" and "codecs_ok C"
  shows "CanonicalInventoryState C t = Inr t" and "validateInventoryState C t = None"
proof -
  have "CanonicalInventoryState C t = Inr t \<and> validateInventoryState C t = None"
  proof (cases "vs_Initialized s")
    case False
    then have "t = zero_inventory_state" using assms(1) by (auto simp: CanonicalInventoryState_def split: option.splits)
    then show ?thesis
      by (simp add: CanonicalInventoryState_def validateInventoryState_def zero_inventory_state_def
          HasGenericEquipment_def legacyHands_def)
  next
    case True
    then obtain stacks instances equipment equipped where
      "NewInventoryStateWithSlots C stacks instances equipment equipped = Inr t"
      using assms(1) by (auto simp: CanonicalInventoryState_def split: option.splits sum.splits)
    then obtain sj xs ij ej worn wj where
      p: "encoded (vc_equipment C) (trimmedEquipment equipment) = Inr ej"
      "encoded (vc_equipped C) (sort_key (equipmentSlotRank \<circ> qi_Slot) worn) = Inr wj"
      and t: "t = zero_inventory_state\<lparr>vs_Initialized := True, vs_StacksJSON := sj, vs_InstancesJSON := ij,
                vs_EquipmentJSON := ej, vs_EquipmentInstancesJSON := wj\<rparr>"
      and ok: "validateInventoryState C t = None"
      by (auto simp: NewInventoryStateWithSlots_def Let_def split: sum.splits option.splits)
    have f: "vs_Initialized t" "vs_EquipmentJSON t = ej" "vs_EquipmentInstancesJSON t = wj" "\<not> legacyHands t"
      by (simp_all add: t zero_inventory_state_def legacyHands_def)
    have e: "state_Equipment C t = Inr [] \<Longrightarrow> vs_EquipmentJSON t = []"
      using p(1) assms(2)
      by (auto simp: state_Equipment_def f encoded_def codecs_ok_def encodes_nonempty_def split: if_splits option.splits)
    have w: "state_EquipmentInstances C t = Inr [] \<Longrightarrow> vs_EquipmentInstancesJSON t = []"
      using p(2) assms(2)
      by (auto simp: state_EquipmentInstances_def f encoded_def codecs_ok_def encodes_nonempty_def
          split: if_splits option.splits)
    show ?thesis using canonical_fixpoint [OF ok f(1,4) e w] ok by blast
  qed
  then show "CanonicalInventoryState C t = Inr t" and "validateInventoryState C t = None" by blast+
qed

lemma snapshotV13_None:
  "validateSnapshotV13 C s = None \<longleftrightarrow>
     ValidSelection (ss_SkinID s) \<and> ValidateBase (ss_PrimaryStats s) = None \<and> validateSnapshotBase s = None \<and>
     validateRespawnSnapshot s = None \<and> ss_MaxMP s \<noteq> 0 \<and> \<not> ss_MaxMP s < ss_MP s \<and>
     validateInventoryState C (ss_Inventory s) = None \<and> validateCombatLoadout (ss_CombatLoadout s) = None \<and>
     validateLearnedSkills (ss_LearnedSkills s) = None \<and>
     validateCombatLoadoutLearned (ss_CombatLoadout s) (ss_LearnedSkills s) = None"
  by (auto simp: validateSnapshotV13_def validateSnapshotV12_def validateSnapshotV11_def validateSnapshotV10_def
      validateSnapshotV8_def validateSnapshotV7_def validateSnapshotV6_def validateSnapshotV5_def validateSnapshotV3_def
      split: option.splits)

lemma loadout_wire:
  "length l = 6 \<Longrightarrow> validateCombatLoadout l = None \<Longrightarrow> combatLoadoutFromWire (combatLoadoutToWire l) = Inr l"
  by (simp add: validateCombatLoadout_def combatLoadoutFromWire_def combatLoadoutToWire_def slots_Validate_None_iff
      split: if_splits sum.splits) (metis NewSlots_Inr_iff sum.inject(2) sum.simps(4))

lemma learned_wire: "validateLearnedSkills l = None \<Longrightarrow> learnedSkillsFromWire (learnedSkillsToWire l) = Inr l"
  by (auto simp: validateLearnedSkills_def learnedSkillsFromWire_def learnedSkillsToWire_def set_Validate_None_iff
      NewSet_IDs_again split: if_splits)

lemma primary_wire: "ValidateBase p = None \<Longrightarrow> primaryStatsFromWire 13 (primaryStatsToWire p) = Inr p"
  by (simp add: primaryStatsFromWire_def primaryStatsToWire_def Let_def go_defs) (simp add: ValidateBase_def)

text \<open>A living character has no respawn on disk, so one that holds a negative zero comes back as zero.\<close>

definition settled_snapshot :: "char_snapshot \<Rightarrow> char_snapshot" where
  "settled_snapshot s = s\<lparr>ss_Respawn := (if ss_Defeated s then ss_Respawn s else zero_defeated_respawn)\<rparr>"

lemma settled_valid:
  assumes "validateSnapshotV13 C s = None"
  shows "validateSnapshotV13 C (settled_snapshot s) = None"
proof -
  have z: "respawn_is_zero zero_defeated_respawn" by (simp add: respawn_is_zero_def zero_defeated_respawn_def) code_simp
  then show ?thesis
    using assms
    by (simp add: snapshotV13_None settled_snapshot_def validateSnapshotBase_def validateRespawnSnapshot_def split: if_splits)
qed

definition no_store_faults :: store_faults where
  "no_store_faults = \<lparr>sf_read = False, sf_write = False, sf_syncDirectory = False\<rparr>"

lemma wire_reads_back:
  assumes "validateSnapshotV13 C s = None" and "length (ss_CombatLoadout s) = 6" and "n \<noteq> 0"
    and "CanonicalInventoryState C (ss_Inventory s) = Inr (ss_Inventory s)" and "sv_codecs E = C"
    and "js_Decode (sv_json E) data =
           Some (record_to_wire \<lparr>rc_SchemaVersion = state_SchemaVersion, rc_CharacterID = i, rc_Revision = n, rc_Snapshot = s\<rparr>
                   (ss_Inventory s))"
  shows "loadLocked E no_store_faults i (fmupd (store_recordPath E i) data disk) =
    Inr (Some \<lparr>rc_SchemaVersion = state_SchemaVersion, rc_CharacterID = i, rc_Revision = n, rc_Snapshot = settled_snapshot s\<rparr>)"
proof -
  define w where "w = record_to_wire \<lparr>rc_SchemaVersion = state_SchemaVersion, rc_CharacterID = i, rc_Revision = n, rc_Snapshot = s\<rparr>
                   (ss_Inventory s)"
  have f: "wc_SchemaVersion w = 13" "wc_Inventory w = ss_Inventory s" "wc_CombatLoadout w = combatLoadoutToWire (ss_CombatLoadout s)"
    "wc_LearnedSkills w = learnedSkillsToWire (ss_LearnedSkills s)" "wc_PrimaryStats w = primaryStatsToWire (ss_PrimaryStats s)"
    "wc_SkinID w = ss_SkinID s" "wc_CharacterID w = i" "wc_Revision w = n" "wc_ClassID w = []"
    by (simp_all add: w_def record_to_wire_def go_defs Let_def)
  note v = assms(1) [unfolded snapshotV13_None]
  have six: "hasSixPrimaryWireFields (primaryStatsToWire (ss_PrimaryStats s))" "primaryStatsToWire (ss_PrimaryStats s) \<noteq> None"
    by (simp_all add: hasSixPrimaryWireFields_def primaryStatsToWire_def)
  have guard: "wire_guarded i w" using assms(3) six by (simp add: wire_guarded_def f go_defs)
  have snap: "wire_snapshot w (ss_Inventory s) (ss_CombatLoadout s) (ss_LearnedSkills s) (ss_PrimaryStats s) (ss_SkinID s) =
      settled_snapshot s"
    by (simp add: wire_snapshot_def f(1) settled_snapshot_def go_defs Let_def)
      (simp add: w_def record_to_wire_def respawn_to_wire_def respawn_from_wire_def Let_def)
  have checked: "loaded_checked C 13 (settled_snapshot s)"
    using settled_valid [OF assms(1)] by (simp add: loaded_checked_def snapshotV13_None)
  have learned: "wire_learned w (ss_CombatLoadout s) = Inr (ss_LearnedSkills s)"
    using v by (simp add: wire_learned_def f learned_wire go_defs)
  have decoded: "js_Decode (sv_json E) data = Some w" by (simp add: assms(6) w_def)
  show ?thesis
    using v guard learned checked
    by (simp add: loadLocked_def no_store_faults_def decoded f loadout_wire [OF assms(2)] primary_wire snap assms(4,5)
        go_defs Let_def)
qed


section \<open>Histories of saves\<close>

record save_call =
  sc_faults :: store_faults
  sc_ExpectedRevision :: u64
  sc_Snapshot :: char_snapshot

primrec store_run ::
  "store_env \<Rightarrow> binding \<Rightarrow> save_call list \<Rightarrow> store_disk \<Rightarrow> (state_error + char_record) list \<times> store_disk" where
  "store_run E b [] disk = ([], disk)"
| "store_run E b (c # cs) disk =
     (case store_Save E (sc_faults c) b (sc_ExpectedRevision c) (sc_Snapshot c) disk of
        (a, disk') \<Rightarrow> (case store_run E b cs disk' of (as, disk'') \<Rightarrow> (a # as, disk'')))"

definition acknowledged :: "(state_error + char_record) list \<Rightarrow> char_record list" where
  "acknowledged as = concat (map (\<lambda>a. case a of Inl _ \<Rightarrow> [] | Inr r \<Rightarrow> [r]) as)"

definition revision_of :: "char_record option \<Rightarrow> u64" where
  "revision_of r = (case r of None \<Rightarrow> 0 | Some x \<Rightarrow> rc_Revision x)"

definition settled_record :: "char_record \<Rightarrow> char_record" where
  "settled_record r = r\<lparr>rc_Snapshot := settled_snapshot (rc_Snapshot r)\<rparr>"

text \<open>What is asked of \<open>encoding/json\<close>: the wire form of a snapshot decodes to itself.\<close>

definition wire_faithful :: "store_env \<Rightarrow> string \<Rightarrow> char_snapshot \<Rightarrow> bool" where
  "wire_faithful E i s =
     (\<forall>pack n p. CanonicalInventoryState (sv_codecs E) (ss_Inventory s) = Inr pack \<longrightarrow>
        (let w = record_to_wire \<lparr>rc_SchemaVersion = state_SchemaVersion, rc_CharacterID = i, rc_Revision = n,
                   rc_Snapshot = s\<lparr>ss_Inventory := pack\<rparr>\<rparr> pack
         in js_Marshal (sv_json E) w = Some p \<longrightarrow> js_Decode (sv_json E) (p @ [0x0A]) = Some w))"

definition call_ok :: "store_env \<Rightarrow> string \<Rightarrow> save_call \<Rightarrow> bool" where
  "call_ok E i c = (length (ss_CombatLoadout (sc_Snapshot c)) = 6 \<and> wire_faithful E i (sc_Snapshot c))"

lemma succ_unat: "(n :: u64) \<noteq> - 1 \<Longrightarrow> n < n + 1 \<and> n + 1 \<noteq> 0"
  using unat_succ [of n] by (simp add: word_less_nat_alt succ_not_zero)

lemma load_read: "\<not> sf_read f \<Longrightarrow> loadLocked E f i disk = loadLocked E no_store_faults i disk"
  by (cases "fmlookup disk (store_recordPath E i)") (simp_all add: loadLocked_def no_store_faults_def)

lemma load_fault: "sf_read f \<Longrightarrow> loadLocked E f i disk = Inr r \<Longrightarrow> loadLocked E no_store_faults i disk = Inr r"
  by (auto simp: loadLocked_def split: option.splits)

lemma Save_cases:
  assumes "validateTrustedIdentity b = None" and "codecs_ok (sv_codecs E)" and "call_ok E (bd_ID b) c"
    and "loadLocked E no_store_faults (bd_ID b) disk = Inr current"
    and "store_Save E (sc_faults c) b (sc_ExpectedRevision c) (sc_Snapshot c) disk = (a, disk')"
  shows "(disk' = disk \<and> (\<exists>e. a = Inl e)) \<or>
    (\<exists>r. loadLocked E no_store_faults (bd_ID b) disk' = Inr (Some (settled_record r)) \<and>
         revision_of current = sc_ExpectedRevision c \<and> revision_of current < rc_Revision r \<and>
         rc_Revision r = sc_ExpectedRevision c + 1 \<and> (a = Inr r \<or> (\<exists>e. a = Inl e)))"
proof (cases "disk' = disk \<and> (\<exists>e. a = Inl e)")
  case False
  define n where "n = sc_ExpectedRevision c"
  obtain pack where pack: "CanonicalInventoryState (sv_codecs E) (ss_Inventory (sc_Snapshot c)) = Inr pack"
    using assms(1,5) False by (auto simp: store_Save_def split: sum.splits)
  note canon = canonical_idem [OF pack assms(2)]
  define s where "s = (sc_Snapshot c)\<lparr>ss_Inventory := pack\<rparr>"
  have sinv: "ss_Inventory s = pack" "ss_CombatLoadout s = ss_CombatLoadout (sc_Snapshot c)" by (simp_all add: s_def)
  have valid: "validateSnapshotV13 (sv_codecs E) s = None"
    using assms(1,5) False by (auto simp: store_Save_def pack s_def Let_def split: option.splits)
  obtain cur where load: "loadLocked E (sc_faults c) (bd_ID b) disk = Inr cur"
    using assms(1,5) False valid by (auto simp: store_Save_def pack s_def [symmetric] Let_def split: sum.splits)
  have "cur = current"
    using load load_fault [of "sc_faults c" E "bd_ID b" disk cur] load_read [of "sc_faults c" E "bd_ID b" disk] assms(4)
    by (cases "sf_read (sc_faults c)") simp_all
  note load = load [unfolded this]
  have rev: "revision_of current = n" and n: "n \<noteq> - 1"
    using assms(1,5) False valid load
    by (auto simp: store_Save_def pack s_def [symmetric] Let_def revision_of_def n_def split: if_splits)
  define r where "r = \<lparr>rc_SchemaVersion = state_SchemaVersion, rc_CharacterID = bd_ID b, rc_Revision = n + 1, rc_Snapshot = s\<rparr>"
  have rf: "rc_CharacterID r = bd_ID b" "rc_Snapshot r = s" "rc_Revision r = n + 1" by (simp_all add: r_def)
  have result: "(case writeLocked E (sc_faults c) r disk of (Some e, d) \<Rightarrow> (Inl e, d) | (None, d) \<Rightarrow> (Inr r, d)) = (a, disk')"
    using assms(1,5) valid load rev n
    by (simp add: store_Save_def pack s_def [symmetric] Let_def revision_of_def n_def [symmetric] r_def cong: option.case_cong)
  obtain p where p: "js_Marshal (sv_json E) (record_to_wire r pack) = Some p"
    "disk' = fmupd (store_recordPath E (bd_ID b)) (p @ [0x0A]) disk" "a = Inr r \<or> (\<exists>e. a = Inl e)"
    using result False canon(1)
    by (auto simp: writeLocked_def rf sinv Let_def split: option.splits if_splits)
  have "js_Decode (sv_json E) (p @ [0x0A]) = Some (record_to_wire r pack)"
    using assms(3) pack p(1) by (auto simp: call_ok_def wire_faithful_def r_def s_def Let_def)
  then have "loadLocked E no_store_faults (bd_ID b) disk' = Inr (Some (settled_record r))"
    using wire_reads_back [OF valid, of "n + 1" E "p @ [0x0A]" "bd_ID b" disk] assms(3) canon(1) succ_unat [OF n]
    by (simp add: p(2) sinv r_def settled_record_def call_ok_def)
  then show ?thesis using rev succ_unat [OF n] p(3) by (auto simp: rf n_def)
qed simp

lemma acknowledged_Cons:
  "acknowledged (Inl e # as) = acknowledged as" "acknowledged (Inr r # as) = r # acknowledged as"
  by (simp_all add: acknowledged_def)

lemma revision_settled [simp]: "revision_of (Some (settled_record r)) = rc_Revision r"
  by (simp add: revision_of_def settled_record_def)

text \<open>
  C1. No save of a character is lost. Let any writers save a character any number of times, each with
  the revision it last saw and with faults of the file system at any call. The revisions of the
  acknowledged saves grow strictly, so two writers that saw the same revision are never both
  acknowledged; the record on disk stays readable, changes only with its revision, is never older
  than an acknowledged save, and is the acknowledged save itself (with the respawn of a living
  character cleared) when their revisions agree.
\<close>

theorem saves_not_lost:
  assumes "validateTrustedIdentity b = None" and "codecs_ok (sv_codecs E)" and "\<forall>c \<in> set calls. call_ok E (bd_ID b) c"
    and "store_Load E no_store_faults b disk = Inr start" and "store_run E b calls disk = (as, disk')"
  shows "\<exists>final. store_Load E no_store_faults b disk' = Inr final \<and> revision_of start \<le> revision_of final \<and>
    (revision_of final = revision_of start \<longrightarrow> final = start) \<and>
    sorted_wrt (<) (map rc_Revision (acknowledged as)) \<and>
    (\<forall>r \<in> set (acknowledged as). revision_of start < rc_Revision r \<and> rc_Revision r \<le> revision_of final \<and>
       (rc_Revision r = revision_of final \<longrightarrow> final = Some (settled_record r)))"
  using assms(3-5)
proof (induction calls arbitrary: disk start as)
  case (Cons c calls)
  obtain a d1 where one: "store_Save E (sc_faults c) b (sc_ExpectedRevision c) (sc_Snapshot c) disk = (a, d1)" by force
  obtain as' where rest: "store_run E b calls d1 = (as', disk')" "as = a # as'"
    using Cons.prems(3) one by (auto split: prod.splits)
  have start: "loadLocked E no_store_faults (bd_ID b) disk = Inr start"
    using Cons.prems(2) assms(1) by (simp add: store_Load_def)
  have ok: "call_ok E (bd_ID b) c" "\<forall>c \<in> set calls. call_ok E (bd_ID b) c" using Cons.prems(1) by simp_all
  note loaded = Cons.IH [OF ok(2) _ rest(1)]
  from Save_cases [OF assms(1,2) ok(1) start one] consider
    e where "d1 = disk" "a = Inl e"
  | r where "loadLocked E no_store_faults (bd_ID b) d1 = Inr (Some (settled_record r))" "revision_of start < rc_Revision r"
      "a = Inr r \<or> (\<exists>e. a = Inl e)" by blast
  then show ?case
  proof cases
    case (1 e)
    then show ?thesis using loaded Cons.prems(2) by (simp add: rest(2) acknowledged_Cons)
  next
    case (2 r)
    then have "store_Load E no_store_faults b d1 = Inr (Some (settled_record r))" by (simp add: store_Load_def assms(1))
    from loaded [OF this] obtain final where final: "store_Load E no_store_faults b disk' = Inr final"
      "rc_Revision r \<le> revision_of final" "revision_of final = rc_Revision r \<longrightarrow> final = Some (settled_record r)"
      "sorted_wrt (<) (map rc_Revision (acknowledged as'))"
      "\<forall>x \<in> set (acknowledged as'). rc_Revision r < rc_Revision x \<and> rc_Revision x \<le> revision_of final \<and>
         (rc_Revision x = revision_of final \<longrightarrow> final = Some (settled_record x))"
      unfolding revision_settled by (elim exE conjE) (rule that)
    have later: "revision_of start < rc_Revision x" if "x \<in> set (acknowledged as')" for x
      using final(5) that 2(2) order.strict_trans by blast
    have above: "revision_of start < revision_of final" using 2(2) final(2) by order
    have keep: "revision_of final = revision_of start \<longrightarrow> final = start" "revision_of start \<le> revision_of final"
      using above by auto
    from 2(3) show ?thesis
    proof
      assume "a = Inr r"
      then have as: "acknowledged as = r # acknowledged as'" by (simp add: rest(2) acknowledged_Cons)
      have sorted: "sorted_wrt (<) (map rc_Revision (acknowledged as))" using final(4,5) by (simp add: as)
      have all: "\<forall>x \<in> set (acknowledged as). revision_of start < rc_Revision x \<and> rc_Revision x \<le> revision_of final \<and>
          (rc_Revision x = revision_of final \<longrightarrow> final = Some (settled_record x))"
        unfolding as set_simps ball_simps using final(2,3,5) 2(2) later by simp
      show ?thesis using final(1) keep sorted all by blast
    next
      assume "\<exists>e. a = Inl e"
      then have as: "acknowledged as = acknowledged as'" by (auto simp: rest(2) acknowledged_Cons)
      have "\<forall>x \<in> set (acknowledged as'). revision_of start < rc_Revision x \<and> rc_Revision x \<le> revision_of final \<and>
          (rc_Revision x = revision_of final \<longrightarrow> final = Some (settled_record x))"
        using final(5) later by simp
      then show ?thesis unfolding as using final(1,4) keep by blast
    qed
  qed
qed (auto simp: acknowledged_def)

section \<open>What is loaded can be saved\<close>

lemma zero_parts_valid:
  "validateInventoryState C zero_inventory_state = None" "validateCombatLoadout zeroSlots = None"
  "validateLearnedSkills zeroSet = None" "validateCombatLoadoutLearned zeroSlots l = None" "respawn_is_zero zero_defeated_respawn"
proof -
  show "validateInventoryState C zero_inventory_state = None"
    by (simp add: validateInventoryState_def zero_inventory_state_def HasGenericEquipment_def legacyHands_def)
  show "validateCombatLoadout zeroSlots = None"
    using zeroSlots_ok [of "{||}"] by (simp add: validateCombatLoadout_def loadout_ok_def)
  have "NewSet [] = Inr zeroSet" by (simp add: NewSet_def)
  then show "validateLearnedSkills zeroSet = None" by (auto simp: validateLearnedSkills_def set_Validate_None_iff)
  show "validateCombatLoadoutLearned zeroSlots l = None"
    by (simp add: validateCombatLoadoutLearned_def slots_IDs_def zeroSlots_def go_defs)
  show "respawn_is_zero zero_defeated_respawn" by (simp add: respawn_is_zero_def zero_defeated_respawn_def) code_simp
qed

lemma set_Contains_all: "NewSet ids = Inr l \<Longrightarrow> list_all (set_Contains l) ids"
  by (auto simp: list_all_iff set_Contains_IDs NewSet_IDs NewSet_Inr_iff in_catalog_order_props)

text \<open>
  C18. The migrations end in the current schema. Whatever record of the thirteen versions the store
  loads, for whatever character, the snapshot passes the validation of the current version, so it can be
  saved again; the one exception is a record of version 1 of a defeated character, which had no
  respawn yet. The record belongs to the character asked for and has a revision.
\<close>

theorem loaded_state_valid:
  assumes "store_Load E f b disk = Inr (Some r)" and "codecs_ok (sv_codecs E)"
    and "rc_SchemaVersion r \<noteq> LegacySchemaVersion \<or> \<not> ss_Defeated (rc_Snapshot r)"
  shows "validateSnapshotV13 (sv_codecs E) (rc_Snapshot r) = None \<and>
    CanonicalInventoryState (sv_codecs E) (ss_Inventory (rc_Snapshot r)) = Inr (ss_Inventory (rc_Snapshot r)) \<and>
    rc_CharacterID r = bd_ID b \<and> rc_Revision r \<noteq> 0 \<and>
    LegacySchemaVersion \<le> rc_SchemaVersion r \<and> rc_SchemaVersion r \<le> state_SchemaVersion"
proof -
  define C where "C = sv_codecs E"
  from assms(1) have l: "loadLocked E f (bd_ID b) disk = Inr (Some r)" by (simp add: store_Load_def split: option.splits)
  then obtain w pack loadout learned stats skin where
    g: "wire_guarded (bd_ID b) w"
    and pack: "(if InventorySchemaVersion \<le> wc_SchemaVersion w then CanonicalInventoryState C (wc_Inventory w)
               else Inr zero_inventory_state) = Inr pack"
    and lo: "(if LoadoutSchemaVersion \<le> wc_SchemaVersion w then combatLoadoutFromWire (wc_CombatLoadout w)
              else Inr zeroSlots) = Inr loadout"
    and le: "wire_learned w loadout = Inr learned"
    and skin: "skin = (if AppearanceSchemaVersion \<le> wc_SchemaVersion w then wc_SkinID w else '''')"
    and ch: "loaded_checked C (wc_SchemaVersion w) (wire_snapshot w pack loadout learned stats skin)"
    and r: "r = \<lparr>rc_SchemaVersion = wc_SchemaVersion w, rc_CharacterID = wc_CharacterID w,
                 rc_Revision = wc_Revision w, rc_Snapshot = wire_snapshot w pack loadout learned stats skin\<rparr>"
    by (auto simp: loadLocked_def Let_def C_def split: option.splits sum.splits if_split_asm)
  define k where "k = wc_SchemaVersion w"
  define s where "s = wire_snapshot w pack loadout learned stats skin"
  have f: "ss_Inventory s = pack" "ss_CombatLoadout s = loadout" "ss_LearnedSkills s = learned" "ss_SkinID s = skin"
    "ss_Defeated s = wc_Defeated w" "ss_Respawn s = respawn_from_wire (wc_DefeatedRespawn w)"
    by (simp_all add: s_def wire_snapshot_def Let_def)
  note c = ch [folded s_def k_def, unfolded loaded_checked_def]
  have canon: "CanonicalInventoryState C pack = Inr pack"
  proof (cases "InventorySchemaVersion \<le> wc_SchemaVersion w")
    case True
    then show ?thesis using pack canonical_idem(1) assms(2) by (simp add: C_def)
  next
    case False
    then have "pack = zero_inventory_state" using pack by simp
    then show ?thesis by (simp add: CanonicalInventoryState_def zero_parts_valid(1)) (simp add: zero_inventory_state_def)
  qed
  have "ValidSelection skin" using c skin f(4) by (auto simp: k_def ValidSelection_def)
  moreover have "ValidateBase (ss_PrimaryStats s) = None" using c by (auto simp: validateSnapshotBase_def split: if_splits)
  moreover have "validateRespawnSnapshot s = None"
  proof (cases "RespawnSchemaVersion \<le> k")
    case False
    have "LegacySchemaVersion \<le> k" using g by (simp add: wire_guarded_def k_def)
    then have "unat k = 1" using False by (simp add: go_defs word_le_nat_alt)
    then have "k = LegacySchemaVersion" by (simp add: LegacySchemaVersion_def word_unat_eq_iff)
    moreover from this have "wc_DefeatedRespawn w = None" using g by (simp add: wire_guarded_def k_def)
    moreover have "\<not> ss_Defeated s" using assms(3) calculation(1) by (simp add: r k_def s_def)
    ultimately show ?thesis by (simp add: validateRespawnSnapshot_def f respawn_from_wire_def zero_parts_valid)
  qed (use c in simp)
  moreover have "ss_MaxMP s \<noteq> 0 \<and> \<not> ss_MaxMP s < ss_MP s"
  proof (cases "ResourceSchemaVersion \<le> k")
    case False
    then have "wc_SchemaVersion w < ResourceSchemaVersion" by (simp add: k_def not_le)
    then show ?thesis by (simp add: s_def wire_snapshot_def Let_def LegacyDefaultMaxMP_def)
  qed (use c in simp)
  moreover have "validateInventoryState C pack = None"
    using pack zero_parts_valid(1) canonical_idem(2) assms(2) by (auto simp: C_def split: if_splits)
  moreover have lv: "validateCombatLoadout loadout = None"
    using c lo zero_parts_valid(2) f(2) by (cases "LoadoutSchemaVersion \<le> k") (auto simp: k_def)
  moreover have "validateLearnedSkills learned = None \<and> validateCombatLoadoutLearned loadout learned = None"
  proof -
    consider "LearnedSkillsSchemaVersion \<le> k" | "\<not> LearnedSkillsSchemaVersion \<le> k" "LoadoutSchemaVersion \<le> k"
    | "\<not> LearnedSkillsSchemaVersion \<le> k" "\<not> LoadoutSchemaVersion \<le> k" by blast
    then show ?thesis
    proof cases
      case 1
      then show ?thesis using c f by simp
    next
      case 2
      then have "NewSet (slots_IDs loadout) = Inr learned"
        using le by (auto simp: wire_learned_def k_def learnedSkillsFromCombatLoadout_def split: sum.splits)
      then show ?thesis
        using set_Contains_all by (auto simp: validateLearnedSkills_def set_Validate_None_iff validateCombatLoadoutLearned_def)
    next
      case 3
      then have "learned = zeroSet" "loadout = zeroSlots" using le lo by (auto simp: wire_learned_def k_def)
      then show ?thesis using zero_parts_valid by simp
    qed
  qed
  ultimately have "validateSnapshotV13 C s = None" using c by (simp add: snapshotV13_None f)
  then show ?thesis using g canon by (simp add: r s_def [symmetric] C_def f wire_guarded_def)
qed


section \<open>Witnesses\<close>

definition sample_wire :: "u64 \<Rightarrow> wire_character" where
  "sample_wire n = record_to_wire \<lparr>rc_SchemaVersion = state_SchemaVersion, rc_CharacterID = bd_ID sample_holder,
     rc_Revision = n, rc_Snapshot = sample_saved\<rparr> sample_durable"

text \<open>A record of version 7: a class that is retired, a loadout, and no learned skills yet.\<close>

definition sample_legacy :: wire_character where
  "sample_legacy = (sample_wire 5)\<lparr>wc_SchemaVersion := 7, wc_ClassID := ''class_ranger'', wc_SkinID := '''',
     wc_Inventory := zero_inventory_state, wc_CombatLoadout := [''heavy-strike''],
     wc_LearnedSkills := [], wc_PrimaryStats := None\<rparr>"

definition sample_store :: store_env where
  "sample_store =
     \<lparr>sv_json = \<lparr>js_Marshal = (\<lambda>w. if w = sample_wire 1 then Some [1] else if w = sample_wire 2 then Some [2] else None),
                 js_Decode = (\<lambda>d. if d = [1, 0x0A] then Some (sample_wire 1) else if d = [2, 0x0A] then Some (sample_wire 2)
                                  else if d = [7] then Some sample_legacy else None)\<rparr>,
      sv_Sum256 = (\<lambda>_. [0xAB]), sv_codecs = sample_codecs\<rparr>"

definition sample_calls :: "save_call list" where
  "sample_calls =
     [\<lparr>sc_faults = no_store_faults, sc_ExpectedRevision = 0, sc_Snapshot = sample_saved\<rparr>,
      \<lparr>sc_faults = no_store_faults, sc_ExpectedRevision = 0, sc_Snapshot = sample_saved\<rparr>,
      \<lparr>sc_faults = no_store_faults\<lparr>sf_syncDirectory := True\<rparr>, sc_ExpectedRevision = 1, sc_Snapshot = sample_saved\<rparr>]"

lemma sample_codecs_ok: "codecs_ok sample_codecs"
  by (simp add: codecs_ok_def encodes_nonempty_def sample_codecs_def)

lemma sample_canonical: "CanonicalInventoryState sample_codecs sample_durable = Inr sample_durable"
  by code_simp

lemma sample_calls_ok: "\<forall>c \<in> set sample_calls. call_ok sample_store (bd_ID sample_holder) c"
proof -
  have s: "ss_Inventory sample_saved = sample_durable" "length (ss_CombatLoadout sample_saved) = 6"
    "sv_codecs sample_store = sample_codecs" "sample_saved\<lparr>ss_Inventory := sample_durable\<rparr> = sample_saved"
    by (simp_all add: sample_saved_def sample_store_def zeroSlots_def go_defs)
  have "wire_faithful sample_store (bd_ID sample_holder) sample_saved"
    by (simp add: wire_faithful_def s sample_canonical) (simp add: sample_store_def sample_wire_def)
  then show ?thesis by (simp add: sample_calls_def call_ok_def s)
qed

lemma sample_store_run:
  "map rc_Revision (acknowledged (fst (store_run sample_store sample_holder sample_calls fmempty))) = [1]"
  "store_Load sample_store no_store_faults sample_holder fmempty = Inr None"
  by code_simp+

theorem saves_not_lost_witness:
  "\<exists>final. store_Load sample_store no_store_faults sample_holder
       (snd (store_run sample_store sample_holder sample_calls fmempty)) = Inr final \<and> 1 \<le> revision_of final"
proof -
  obtain as disk' where run: "store_run sample_store sample_holder sample_calls fmempty = (as, disk')" by force
  have "sv_codecs sample_store = sample_codecs" by (simp add: sample_store_def)
  from saves_not_lost [OF sample_holder_trusted _ sample_calls_ok sample_store_run(2) run] this sample_codecs_ok
  obtain final where f: "store_Load sample_store no_store_faults sample_holder disk' = Inr final"
    "\<forall>r \<in> set (acknowledged as). rc_Revision r \<le> revision_of final"
    by auto
  have "1 \<in> rc_Revision ` set (acknowledged as)" using sample_store_run(1) run by (metis fst_conv list.set_intros(1) list.set_map)
  then show ?thesis using f run by auto
qed

lemma sample_legacy_loads:
  "(case store_Load sample_store no_store_faults sample_holder (fmupd ''ab.json'' [7] fmempty) of
      Inr (Some r) \<Rightarrow> rc_SchemaVersion r = 7 \<and> set_IDs (ss_LearnedSkills (rc_Snapshot r)) = [''heavy-strike'']
    | _ \<Rightarrow> False)"
  by code_simp

theorem loaded_state_valid_witness:
  "\<exists>r. store_Load sample_store no_store_faults sample_holder (fmupd ''ab.json'' [7] fmempty) = Inr (Some r) \<and>
     validateSnapshotV13 sample_codecs (rc_Snapshot r) = None"
proof -
  obtain r where r: "store_Load sample_store no_store_faults sample_holder (fmupd ''ab.json'' [7] fmempty) = Inr (Some r)"
    "rc_SchemaVersion r = 7" using sample_legacy_loads by (auto split: sum.splits option.splits)
  have c: "sv_codecs sample_store = sample_codecs" by (simp add: sample_store_def)
  have "rc_SchemaVersion r \<noteq> LegacySchemaVersion" by (simp add: r(2) LegacySchemaVersion_def)
  with loaded_state_valid [OF r(1)] sample_codecs_ok show ?thesis by (simp add: c r(1))
qed

end
