(* ===== verification/Combat.thy ===== *)
theory Combat
  imports CombatResources CharacterStats SiegeGate
begin

text \<open>
  Authored combat actions (\<open>internal/combat/combat.go\<close>, \<open>cooldown_state.go\<close>, \<open>status_lifecycle.go\<close>): the
  validation of the definitions, and the service that prepares an action, commits its cooldown and
  its self mitigation. The rating formulas (\<open>ratings.go\<close>) are compared with those of the attributes.
\<close>

section \<open>Definitions\<close>

definition combat_SchemaVersion :: u16 where [go_defs]: "combat_SchemaVersion = 4"
definition statusSelfDamageReduction :: string where [go_defs]: "statusSelfDamageReduction = ''self_damage_reduction''"
definition TargetGate :: string where [go_defs]: "TargetGate = ''gate''"
definition TargetEntity :: string where [go_defs]: "TargetEntity = ''entity''"
definition TargetPoint :: string where [go_defs]: "TargetPoint = ''point''"
definition PointResolutionLineFirst :: string where [go_defs]: "PointResolutionLineFirst = ''line_first''"
definition PointResolutionEndpointNearest :: string where
  [go_defs]: "PointResolutionEndpointNearest = ''endpoint_nearest''"
definition EffectDamage :: string where [go_defs]: "EffectDamage = ''damage''"
definition EffectResurrect :: string where [go_defs]: "EffectResurrect = ''resurrect''"
definition EffectSelfMitigation :: string where [go_defs]: "EffectSelfMitigation = ''self_mitigation''"
definition DamagePhysical :: string where [go_defs]: "DamagePhysical = ''physical''"
definition DamageMagic :: string where [go_defs]: "DamageMagic = ''magic''"

datatype combat_error =
  ErrUnsupportedSchema | ErrInvalidDefinition | ErrUnknownAction | ErrTargetNotAllowed | ErrActionCooldown

record action_definition =
  ad_ID :: string
  ad_Effect :: string
  ad_Targets :: "string list"
  ad_Range :: f32
  ad_HitRadius :: f32
  ad_PointResolution :: string
  ad_BaseDamage :: u32
  ad_DamageType :: string
  ad_CriticalEligible :: bool
  ad_Blockable :: bool
  ad_PhysicalDefenseIgnorePercent :: u8
  ad_SelfDamageReductionPercent :: u8
  ad_DurationSeconds :: f32
  ad_ReviveHPPercent :: u8
  ad_MPCost :: u32
  ad_CooldownSeconds :: f32

record combat_definition =
  cd_SchemaVersion :: u16
  cd_Revision :: string
  cd_Actions :: "action_definition list"

record combat_damage =
  dm_ActorEntityID :: entity_id
  dm_ActionID :: string
  dm_Type :: string
  dm_Amount :: u32
  dm_Blockable :: bool
  dm_PhysicalDefenseIgnorePercent :: u8

definition zero_damage :: combat_damage where
  "zero_damage = \<lparr>dm_ActorEntityID = 0, dm_ActionID = '''', dm_Type = '''', dm_Amount = 0, dm_Blockable = False,
     dm_PhysicalDefenseIgnorePercent = 0\<rparr>"

record combat_target =
  tg_Kind :: string
  tg_ID :: string
  tg_PointX :: f32
  tg_PointZ :: f32
  tg_HasPoint :: bool

record combat_intent =
  it_ActorEntityID :: entity_id
  it_ActionID :: string
  it_Target :: combat_target

record prepared_action =
  pa_ActionInstanceID :: u64
  pa_ActorEntityID :: entity_id
  pa_Definition :: action_definition
  pa_Target :: combat_target
  pa_Damage :: combat_damage

record combat_service =
  cs_actions :: "(string, action_definition) fmap"
  cs_nextUseTick :: "(entity_id \<times> string, u64) fmap"
  cs_statuses :: status_store
  cs_nextInstanceID :: u64

section \<open>Validation\<close>

definition positiveFinite :: "f32 \<Rightarrow> bool" where
  "positiveFinite v = (f32_less 0 v \<and> f32_finite v)"

definition effectiveEffect :: "string \<Rightarrow> string" where
  "effectiveEffect e = (if e = '''' then EffectDamage else e)"

definition containsTarget :: "string list \<Rightarrow> string \<Rightarrow> bool" where
  "containsTarget targets t = list_ex (\<lambda>c. c = t) targets"

definition validTargetKind :: "string \<Rightarrow> bool" where
  "validTargetKind k = (k = TargetGate \<or> k = TargetEntity \<or> k = TargetPoint)"

definition validPointResolution :: "string \<Rightarrow> bool" where
  "validPointResolution r = (r = PointResolutionLineFirst \<or> r = PointResolutionEndpointNearest)"

definition validDamageType :: "string \<Rightarrow> bool" where
  "validDamageType k = (k = DamagePhysical \<or> k = DamageMagic)"

text \<open>The loop over the targets: every kind is known and none comes twice.\<close>

fun scanTargets :: "string list \<Rightarrow> string list \<Rightarrow> bool" where
  "scanTargets seen [] = True"
| "scanTargets seen (t # ts) =
     (if \<not> validTargetKind t then False else if t \<in> set seen then False else scanTargets (t # seen) ts)"

definition validDamageAction :: "action_definition \<Rightarrow> bool" where
  "validDamageAction a =
     (let hasPointTarget = containsTarget (ad_Targets a) TargetPoint;
          hasGateTarget = containsTarget (ad_Targets a) TargetGate;
          hasEntityTarget = containsTarget (ad_Targets a) TargetEntity
      in if ad_BaseDamage a = 0 \<or> \<not> validDamageType (ad_DamageType a) \<or> ad_ReviveHPPercent a \<noteq> 0 \<or>
            ad_SelfDamageReductionPercent a \<noteq> 0 \<or> \<not> f32_eq (ad_DurationSeconds a) 0 then False
         else if hasPointTarget \<and> \<not> positiveFinite (ad_HitRadius a) then False
         else if ad_Blockable a \<and> (ad_DamageType a \<noteq> DamagePhysical \<or> \<not> hasEntityTarget \<or> hasPointTarget) then False
         else if ad_PhysicalDefenseIgnorePercent a > 0 \<and>
                 (ad_PhysicalDefenseIgnorePercent a > 100 \<or> ad_DamageType a \<noteq> DamagePhysical \<or> \<not> hasEntityTarget \<or>
                  hasGateTarget \<or> hasPointTarget) then False
         else True)"

definition validResurrectAction :: "action_definition \<Rightarrow> bool" where
  "validResurrectAction a =
     (if ad_BaseDamage a \<noteq> 0 \<or> ad_DamageType a \<noteq> '''' \<or> ad_CriticalEligible a \<or> ad_Blockable a \<or>
         ad_PhysicalDefenseIgnorePercent a \<noteq> 0 \<or> ad_SelfDamageReductionPercent a \<noteq> 0 \<or>
         \<not> f32_eq (ad_DurationSeconds a) 0 \<or> ad_ReviveHPPercent a = 0 \<or> ad_ReviveHPPercent a > 100 \<or>
         \<not> f32_eq (ad_HitRadius a) 0 \<or> ad_PointResolution a \<noteq> '''' then False
      else ad_Targets a = [TargetEntity])"

definition validSelfMitigationAction :: "action_definition \<Rightarrow> bool" where
  "validSelfMitigationAction a =
     (if ad_BaseDamage a \<noteq> 0 \<or> ad_DamageType a \<noteq> '''' \<or> ad_CriticalEligible a \<or> ad_Blockable a \<or>
         ad_PhysicalDefenseIgnorePercent a \<noteq> 0 \<or> ad_ReviveHPPercent a \<noteq> 0 \<or> \<not> f32_eq (ad_HitRadius a) 0 \<or>
         ad_PointResolution a \<noteq> '''' \<or> ad_SelfDamageReductionPercent a = 0 \<or>
         ad_SelfDamageReductionPercent a \<ge> 100 \<or> \<not> positiveFinite (ad_DurationSeconds a) then False
      else ad_Targets a = [TargetEntity])"

definition validAction :: "action_definition \<Rightarrow> bool" where
  "validAction a =
     (if \<not> scanTargets [] (ad_Targets a) then False
      else if ad_MPCost a > 0 \<and> containsTarget (ad_Targets a) TargetGate then False
      else if containsTarget (ad_Targets a) TargetPoint \<and> ad_PointResolution a \<noteq> '''' \<and>
              \<not> validPointResolution (ad_PointResolution a) then False
      else if \<not> containsTarget (ad_Targets a) TargetPoint \<and> ad_PointResolution a \<noteq> '''' then False
      else if effectiveEffect (ad_Effect a) = EffectDamage then validDamageAction a
      else if effectiveEffect (ad_Effect a) = EffectResurrect then validResurrectAction a
      else if effectiveEffect (ad_Effect a) = EffectSelfMitigation then validSelfMitigationAction a
      else False)"

fun validateActions :: "string list \<Rightarrow> action_definition list \<Rightarrow> bool" where
  "validateActions ids [] = True"
| "validateActions ids (a # as) =
     (if ad_ID a = '''' \<or> \<not> positiveFinite (ad_Range a) \<or> \<not> positiveFinite (ad_CooldownSeconds a) \<or> ad_Targets a = []
      then False
      else if ad_ID a \<in> set ids then False
      else validAction a \<and> validateActions (ad_ID a # ids) as)"

definition combat_Validate :: "combat_definition \<Rightarrow> combat_error option" where
  "combat_Validate d =
     (if cd_SchemaVersion d \<noteq> combat_SchemaVersion then Some ErrUnsupportedSchema
      else if cd_Revision d = '''' \<or> cd_Actions d = [] then Some ErrInvalidDefinition
      else if \<not> validateActions [] (cd_Actions d) then Some ErrInvalidDefinition
      else None)"

section \<open>The service\<close>

definition normalizeAction :: "action_definition \<Rightarrow> action_definition" where
  "normalizeAction action =
     (let a = action\<lparr>ad_Effect := effectiveEffect (ad_Effect action)\<rparr>
      in if containsTarget (ad_Targets a) TargetPoint \<and> ad_PointResolution a = ''''
         then a\<lparr>ad_PointResolution := PointResolutionLineFirst\<rparr> else a)"

definition combat_NewService :: "action_definition list \<Rightarrow> combat_error + combat_service" where
  "combat_NewService definitions =
     (let normalized = map normalizeAction definitions in
      case combat_Validate \<lparr>cd_SchemaVersion = combat_SchemaVersion, cd_Revision = ''runtime'', cd_Actions = normalized\<rparr> of
        Some e \<Rightarrow> Inl e
      | None \<Rightarrow> Inr \<lparr>cs_actions = fold (\<lambda>a m. fmupd (ad_ID a) a m) normalized fmempty, cs_nextUseTick = fmempty,
                     cs_statuses = fmempty, cs_nextInstanceID = 0\<rparr>)"

definition targetGiven :: "combat_target \<Rightarrow> bool" where
  "targetGiven t =
     (if tg_Kind t = TargetPoint then tg_HasPoint t \<and> f32_finite (tg_PointX t) \<and> f32_finite (tg_PointZ t)
      else tg_ID t \<noteq> '''')"

definition combat_Prepare ::
  "entity_id \<Rightarrow> string \<Rightarrow> combat_target \<Rightarrow> u64 \<Rightarrow> combat_service \<Rightarrow> (combat_error + prepared_action) \<times> combat_service" where
  "combat_Prepare actor actionID target tick s =
     (case fmlookup (cs_actions s) actionID of
        None \<Rightarrow> (Inl ErrUnknownAction, s)
      | Some action \<Rightarrow>
          if \<not> containsTarget (ad_Targets action) (tg_Kind target) then (Inl ErrTargetNotAllowed, s)
          else if \<not> targetGiven target then (Inl ErrTargetNotAllowed, s)
          else let nextUse = gomap_at 0 (cs_nextUseTick s) (actor, actionID) in
          if nextUse \<noteq> 0 \<and> tick < nextUse then (Inl ErrActionCooldown, s)
          else let i = cs_nextInstanceID s + 1;
                   instanceID = (if i = 0 then i + 1 else i);
                   damage = (if ad_Effect action = EffectDamage
                             then \<lparr>dm_ActorEntityID = actor, dm_ActionID = actionID, dm_Type = ad_DamageType action,
                                   dm_Amount = ad_BaseDamage action, dm_Blockable = ad_Blockable action,
                                   dm_PhysicalDefenseIgnorePercent = ad_PhysicalDefenseIgnorePercent action\<rparr>
                             else zero_damage)
               in (Inr \<lparr>pa_ActionInstanceID = instanceID, pa_ActorEntityID = actor, pa_Definition = action,
                        pa_Target = target, pa_Damage = damage\<rparr>, s\<lparr>cs_nextInstanceID := instanceID\<rparr>))"

definition combat_PrepareIntent ::
  "combat_intent \<Rightarrow> u64 \<Rightarrow> combat_service \<Rightarrow> (combat_error + prepared_action) \<times> combat_service" where
  "combat_PrepareIntent i tick s = combat_Prepare (it_ActorEntityID i) (it_ActionID i) (it_Target i) tick s"

text \<open>\<open>delta\<close> is a \<open>time.Duration\<close> in nanoseconds; the division is in single precision.\<close>

definition combat_cooldownTicks :: "f32 \<Rightarrow> int \<Rightarrow> u64" where
  "combat_cooldownTicks seconds delta =
     (if f32_leq seconds 0 \<or> delta \<le> 0 then 1
      else let tickSeconds = f32_of_f64 (duration_Seconds delta) in
           if f32_leq tickSeconds 0 then 1
           else let ticks = f64_to_u64 (f64_Ceil (f64_of_f32 (f32_div seconds tickSeconds)))
                in if ticks = 0 then 1 else ticks)"

definition CooldownReadyTick :: "action_definition \<Rightarrow> u64 \<Rightarrow> int \<Rightarrow> u64" where
  "CooldownReadyTick a tick delta = tick + combat_cooldownTicks (ad_CooldownSeconds a) delta"

definition combat_Commit :: "prepared_action \<Rightarrow> u64 \<Rightarrow> int \<Rightarrow> combat_service \<Rightarrow> combat_service" where
  "combat_Commit p tick delta s =
     (let d = pa_Definition p;
          s' = s\<lparr>cs_nextUseTick := fmupd (pa_ActorEntityID p, ad_ID d)
                   (tick + combat_cooldownTicks (ad_CooldownSeconds d) delta) (cs_nextUseTick s)\<rparr>
      in if ad_Effect d \<noteq> EffectSelfMitigation then s'
         else s'\<lparr>cs_statuses := status_Apply (pa_ActorEntityID p) statusSelfDamageReduction
                   (ad_SelfDamageReductionPercent d)
                   (status_Deadline tick (combat_cooldownTicks (ad_DurationSeconds d) delta)) (cs_statuses s')\<rparr>)"

definition SelfDamageReductionPercent :: "entity_id \<Rightarrow> u64 \<Rightarrow> combat_service \<Rightarrow> u8 \<times> combat_service" where
  "SelfDamageReductionPercent e tick s =
     (if e = 0 then (0, s)
      else case status_Value e statusSelfDamageReduction tick (cs_statuses s) of
             (v, st) \<Rightarrow> (case v of None \<Rightarrow> 0 | Some x \<Rightarrow> x, s\<lparr>cs_statuses := st\<rparr>))"

definition ClearSelfMitigation :: "entity_id \<Rightarrow> combat_service \<Rightarrow> combat_service" where
  "ClearSelfMitigation e s =
     (if e = 0 then s else s\<lparr>cs_statuses := status_Remove e statusSelfDamageReduction (cs_statuses s)\<rparr>)"

definition ClearTransientStatuses :: "entity_id \<Rightarrow> combat_service \<Rightarrow> combat_service" where
  "ClearTransientStatuses e s = (if e = 0 then s else s\<lparr>cs_statuses := status_ClearEntity e (cs_statuses s)\<rparr>)"

definition ActionCooldownReadyTick :: "entity_id \<Rightarrow> string \<Rightarrow> combat_service \<Rightarrow> u64" where
  "ActionCooldownReadyTick e actionID s =
     (if e = 0 \<or> actionID = '''' then 0 else gomap_at 0 (cs_nextUseTick s) (e, actionID))"

section \<open>Ratings\<close>

definition rating_PhysicalHitChance :: "int \<Rightarrow> int \<Rightarrow> u32" where
  "rating_PhysicalHitChance attackerPhysicalHit targetEvasion =
     (let chance = wrap_i64 (9000 + wrap_i64 (wrap_i64 (attackerPhysicalHit - targetEvasion) * 50))
      in if chance < 7500 then 7500 else if 9800 < chance then 9800 else word_of_int chance)"

definition rating_CriticalChance :: "u32 \<Rightarrow> u32 \<Rightarrow> u32" where
  "rating_CriticalChance attributeBonusBasisPoints criticalRating =
     (let chance = (500 :: u64) + ucast attributeBonusBasisPoints + ucast criticalRating * 50
      in if 3000 < chance then 3000 else ucast chance)"

text \<open>\<open>defense + 20\<close> is computed in 32 bits; a zero divisor panics.\<close>

definition DefenseMitigationBasisPoints :: "u32 \<Rightarrow> u32 option" where
  "DefenseMitigationBasisPoints defense =
     (if defense = 0 then Some 0
      else if defense + 20 = 0 then None
      else Some (ucast ((ucast defense * 10000 :: u64) div ucast (defense + 20))))"

definition RemainingBasisPointsAfterMitigation :: "u32 \<Rightarrow> u32" where
  "RemainingBasisPointsAfterMitigation m = (if m \<ge> 10000 then 0 else 10000 - m)"

definition CombineRemainingBasisPoints :: "u32 \<Rightarrow> u32 \<Rightarrow> u32" where
  "CombineRemainingBasisPoints a b =
     (let x = (if a > 10000 then 10000 else a); y = (if b > 10000 then 10000 else b)
      in ucast ((ucast x * ucast y :: u64) div 10000))"


section \<open>Histories\<close>

text \<open>
  The owner prepares actions, may replace the cooldown of a prepared one (the weapon's interval), and
  commits some of the prepared ones. The state is the service with all the actions prepared so far.
\<close>

datatype combat_op =
  CPrepare entity_id string combat_target u64 | CCommit nat f32 u64 int | CReduction entity_id u64 |
  CClear entity_id | CClearTransient entity_id

definition retimed :: "f32 \<Rightarrow> prepared_action \<Rightarrow> prepared_action" where
  "retimed c p = p\<lparr>pa_Definition := (pa_Definition p)\<lparr>ad_CooldownSeconds := c\<rparr>\<rparr>"

fun combat_step ::
  "combat_op \<Rightarrow> combat_service \<times> prepared_action list \<Rightarrow> combat_error option \<times> combat_service \<times> prepared_action list" where
  "combat_step (CPrepare e a t tick) (s, ps) =
     (case combat_Prepare e a t tick s of (Inl err, s') \<Rightarrow> (Some err, s', ps) | (Inr p, s') \<Rightarrow> (None, s', ps @ [p]))"
| "combat_step (CCommit n c tick delta) (s, ps) =
     (None, if n < length ps then combat_Commit (retimed c (ps ! n)) tick delta s else s, ps)"
| "combat_step (CReduction e tick) (s, ps) = (None, snd (SelfDamageReductionPercent e tick s), ps)"
| "combat_step (CClear e) (s, ps) = (None, ClearSelfMitigation e s, ps)"
| "combat_step (CClearTransient e) (s, ps) = (None, ClearTransientStatuses e s, ps)"

definition prepared_key :: "prepared_action \<Rightarrow> entity_id \<times> string" where
  "prepared_key p = (pa_ActorEntityID p, ad_ID (pa_Definition p))"

text \<open>The actor and action of every commit of a history.\<close>

fun commits :: "combat_op list \<Rightarrow> combat_service \<times> prepared_action list \<Rightarrow> (entity_id \<times> string) list" where
  "commits [] st = []"
| "commits (x # xs) st =
     (case x of CCommit n c tick delta \<Rightarrow> if n < length (snd st) then [prepared_key (snd st ! n)] else [] | _ \<Rightarrow> []) @
     commits xs (snd (combat_step x st))"

definition combat_inv :: "combat_service \<times> prepared_action list \<Rightarrow> bool" where
  "combat_inv st =
     ((\<forall>k a. fmlookup (cs_actions (fst st)) k = Some a \<longrightarrow> ad_ID a = k \<and> validAction a) \<and>
      (\<forall>p \<in> set (snd st). validAction (pa_Definition p)) \<and>
      (\<forall>e v. fmlookup (cs_statuses (fst st)) (e, statusSelfDamageReduction) = Some v \<longrightarrow> tv_value v < 100) \<and>
      (length (snd st) < 2 ^ 64 \<longrightarrow>
         map pa_ActionInstanceID (snd st) = map of_nat [1..<Suc (length (snd st))] \<and>
         cs_nextInstanceID (fst st) = of_nat (length (snd st))))"

text \<open>The damage an action carries: what is authored for it, and none for another effect.\<close>

definition authored_damage :: "entity_id \<Rightarrow> string \<Rightarrow> action_definition \<Rightarrow> combat_damage" where
  "authored_damage e a d =
     (if ad_Effect d = EffectDamage
      then \<lparr>dm_ActorEntityID = e, dm_ActionID = a, dm_Type = ad_DamageType d, dm_Amount = ad_BaseDamage d,
             dm_Blockable = ad_Blockable d, dm_PhysicalDefenseIgnorePercent = ad_PhysicalDefenseIgnorePercent d\<rparr>
      else zero_damage)"

lemma Prepare_cases:
  assumes "combat_Prepare e a t tick s = (r, s')"
  obtains (refused) err where "r = Inl err" "s' = s"
  | (prepared) d p where "r = Inr p" "fmlookup (cs_actions s) a = Some d" "pa_Definition p = d" "pa_ActorEntityID p = e"
      "pa_ActionInstanceID p = (if cs_nextInstanceID s + 1 = 0 then 1 else cs_nextInstanceID s + 1)"
      "s' = s\<lparr>cs_nextInstanceID := pa_ActionInstanceID p\<rparr>"
      "containsTarget (ad_Targets d) (tg_Kind t)" "targetGiven t" "pa_Target p = t"
      "pa_Damage p = authored_damage e a d"
proof (cases "fmlookup (cs_actions s) a")
  case None
  then have "r = Inl ErrUnknownAction" "s' = s" using assms by (simp_all add: combat_Prepare_def)
  then show ?thesis by (rule refused)
next
  case (Some d)
  show ?thesis
  proof (cases "containsTarget (ad_Targets d) (tg_Kind t) \<and> targetGiven t \<and>
      \<not> (gomap_at 0 (cs_nextUseTick s) (e, a) \<noteq> 0 \<and> tick < gomap_at 0 (cs_nextUseTick s) (e, a))")
    case True
    define i where "i = (if cs_nextInstanceID s + 1 = 0 then 1 else cs_nextInstanceID s + 1)"
    define p where "p = \<lparr>pa_ActionInstanceID = i, pa_ActorEntityID = e, pa_Definition = d, pa_Target = t,
      pa_Damage = authored_damage e a d\<rparr>"
    have "r = Inr p" "s' = s\<lparr>cs_nextInstanceID := i\<rparr>"
      using assms True Some by (auto simp: combat_Prepare_def Let_def i_def p_def authored_damage_def)
    then show ?thesis using True Some i_def by (intro prepared [of p d]) (simp_all add: p_def)
  next
    case False
    then have "(\<exists>err. r = Inl err) \<and> s' = s" using assms Some by (simp add: combat_Prepare_def Let_def split: if_splits) blast+
    then show ?thesis using refused by blast
  qed
qed

lemma Prepare_answer:
  assumes "fmlookup (cs_actions s) a = Some d" and "containsTarget (ad_Targets d) (tg_Kind t)" and "targetGiven t"
    and "fmlookup (cs_nextUseTick s) (e, a) = Some ready" and "ready \<noteq> 0"
  shows "now < ready \<Longrightarrow> fst (combat_Prepare e a t now s) = Inl ErrActionCooldown"
    and "\<not> now < ready \<Longrightarrow> \<exists>q. fst (combat_Prepare e a t now s) = Inr q \<and> pa_Definition q = d"
  using assms by (simp_all add: combat_Prepare_def Let_def gomap_at_def)

lemma Commit_fields:
  "cs_actions (combat_Commit p tick delta s) = cs_actions s"
  "cs_nextInstanceID (combat_Commit p tick delta s) = cs_nextInstanceID s"
  "cs_nextUseTick (combat_Commit p tick delta s) =
     fmupd (prepared_key p) (tick + combat_cooldownTicks (ad_CooldownSeconds (pa_Definition p)) delta) (cs_nextUseTick s)"
  by (simp_all add: combat_Commit_def Let_def prepared_key_def)

lemma read_fields:
  "cs_actions (snd (SelfDamageReductionPercent e tick s)) = cs_actions s"
  "cs_nextInstanceID (snd (SelfDamageReductionPercent e tick s)) = cs_nextInstanceID s"
  "cs_nextUseTick (snd (SelfDamageReductionPercent e tick s)) = cs_nextUseTick s"
  "cs_actions (ClearSelfMitigation e s) = cs_actions s" "cs_nextInstanceID (ClearSelfMitigation e s) = cs_nextInstanceID s"
  "cs_nextUseTick (ClearSelfMitigation e s) = cs_nextUseTick s"
  "cs_actions (ClearTransientStatuses e s) = cs_actions s"
  "cs_nextInstanceID (ClearTransientStatuses e s) = cs_nextInstanceID s"
  "cs_nextUseTick (ClearTransientStatuses e s) = cs_nextUseTick s"
  by (simp_all add: SelfDamageReductionPercent_def ClearSelfMitigation_def ClearTransientStatuses_def split: prod.splits)

text \<open>Reads and clears only drop effects; a commit of a valid action applies less than the whole.\<close>

lemma statuses_shrink:
  "fmlookup (cs_statuses (snd (SelfDamageReductionPercent e tick s))) k = Some v \<Longrightarrow> fmlookup (cs_statuses s) k = Some v"
  "fmlookup (cs_statuses (ClearSelfMitigation e s)) k = Some v \<Longrightarrow> fmlookup (cs_statuses s) k = Some v"
  "fmlookup (cs_statuses (ClearTransientStatuses e s)) k = Some v \<Longrightarrow> fmlookup (cs_statuses s) k = Some v"
  by (auto simp: SelfDamageReductionPercent_def ClearSelfMitigation_def ClearTransientStatuses_def status_Value_def
      status_Remove_def status_ClearEntity_def split: prod.splits if_splits option.splits)

lemma Commit_status:
  assumes "validAction (pa_Definition p)" and "fmlookup (cs_statuses (combat_Commit (retimed c p) tick delta s)) k = Some v"
  shows "tv_value v < 100 \<or> fmlookup (cs_statuses s) k = Some v"
proof (cases "ad_Effect (pa_Definition p) = EffectSelfMitigation")
  case True
  then have "validSelfMitigationAction (pa_Definition p)"
    using assms(1) by (simp add: validAction_def effectiveEffect_def go_defs split: if_splits)
  then have "ad_SelfDamageReductionPercent (pa_Definition p) < 100"
    by (auto simp: validSelfMitigationAction_def split: if_splits)
  with True assms(2) show ?thesis
    by (auto simp: combat_Commit_def retimed_def Let_def status_Apply_def split: if_splits)
next
  case False
  with assms(2) show ?thesis by (simp add: combat_Commit_def retimed_def Let_def)
qed

lemma combat_inv_smaller:
  assumes "combat_inv (s, ps)" and "cs_actions s' = cs_actions s" and "cs_nextInstanceID s' = cs_nextInstanceID s"
    and "\<And>k v. fmlookup (cs_statuses s') k = Some v \<Longrightarrow> tv_value v < 100 \<or> fmlookup (cs_statuses s) k = Some v"
  shows "combat_inv (s', ps)"
proof -
  have "tv_value v < 100" if "fmlookup (cs_statuses s') (e, statusSelfDamageReduction) = Some v" for e v
    using assms(4) [OF that] assms(1) by (auto simp: combat_inv_def)
  then show ?thesis using assms(1) unfolding combat_inv_def fst_conv snd_conv assms(2,3) by blast
qed

lemma combat_step_inv: "combat_inv st \<Longrightarrow> combat_inv (snd (combat_step x st))"
proof -
  assume inv: "combat_inv st"
  obtain s ps where st: "st = (s, ps)" by force
  show ?thesis
  proof (cases x)
    case (CPrepare e a t tick)
    obtain r s' where pr: "combat_Prepare e a t tick s = (r, s')" by force
    then show ?thesis
    proof (cases rule: Prepare_cases)
      case (refused err)
      then show ?thesis using inv pr by (simp add: CPrepare st)
    next
      case (prepared d p)
      have v: "validAction (pa_Definition p)" using inv prepared(2,3) by (auto simp: combat_inv_def st)
      have ids: "map pa_ActionInstanceID (ps @ [p]) = map of_nat [1..<Suc (length (ps @ [p]))] \<and>
          pa_ActionInstanceID p = of_nat (length (ps @ [p]))" if l: "length (ps @ [p]) < 2 ^ 64"
      proof -
        have "of_nat (length ps + 1) \<noteq> (0 :: u64)" using l unfolding word_of_nat_eq_0_iff by (simp add: nat_dvd_not_less)
        moreover have "cs_nextInstanceID s = of_nat (length ps)" "map pa_ActionInstanceID ps = map of_nat [1..<Suc (length ps)]"
          using inv l by (simp_all add: combat_inv_def st)
        ultimately show ?thesis using prepared(5) by (simp add: add.commute)
      qed
      have "combat_inv (s', ps @ [p])"
        using inv v ids unfolding combat_inv_def st prepared(6) by simp
      then show ?thesis by (simp add: CPrepare st pr prepared(1))
    qed
  next
    case (CCommit n c tick delta)
    show ?thesis
    proof (cases "n < length ps")
      case True
      then have "validAction (pa_Definition (ps ! n))" using inv by (auto simp: combat_inv_def st)
      note valid = this
      have "combat_inv (combat_Commit (retimed c (ps ! n)) tick delta s, ps)"
        by (rule combat_inv_smaller [OF inv [unfolded st]]) (simp_all only: Commit_fields, rule Commit_status [OF valid])
      then show ?thesis using True by (simp add: CCommit st)
    qed (use inv in \<open>simp add: CCommit st\<close>)
  next
    case (CReduction e tick)
    have "combat_inv (snd (SelfDamageReductionPercent e tick s), ps)"
      by (rule combat_inv_smaller [OF inv [unfolded st]]) (simp_all only: read_fields, drule statuses_shrink(1), rule disjI2)
    then show ?thesis by (simp add: CReduction st)
  next
    case (CClear e)
    have "combat_inv (ClearSelfMitigation e s, ps)"
      by (rule combat_inv_smaller [OF inv [unfolded st]]) (simp_all only: read_fields, drule statuses_shrink(2), rule disjI2)
    then show ?thesis by (simp add: CClear st)
  next
    case (CClearTransient e)
    have "combat_inv (ClearTransientStatuses e s, ps)"
      by (rule combat_inv_smaller [OF inv [unfolded st]]) (simp_all only: read_fields, drule statuses_shrink(3), rule disjI2)
    then show ?thesis by (simp add: CClearTransient st)
  qed
qed

interpretation combats: kept_invariant combat_step combat_inv
  by unfold_locales (rule combat_step_inv)

lemma stored_actions:
  "fmlookup (fold (\<lambda>a m. fmupd (ad_ID a) a m) as m) k = Some d \<Longrightarrow>
     (d \<in> set as \<and> ad_ID d = k) \<or> fmlookup m k = Some d"
proof (induction as arbitrary: m)
  case (Cons x xs)
  from Cons.prems have "fmlookup (fold (\<lambda>a m. fmupd (ad_ID a) a m) xs (fmupd (ad_ID x) x m)) k = Some d" by simp
  from Cons.IH [OF this] show ?case by (auto split: if_splits)
qed simp

lemma validateActions_all: "validateActions ids as \<Longrightarrow> d \<in> set as \<Longrightarrow> validAction d"
  by (induction ids as rule: validateActions.induct) (auto split: if_splits)

lemma NewService_inv: "combat_NewService ds = Inr s \<Longrightarrow> combat_inv (s, [])"
proof -
  assume s: "combat_NewService ds = Inr s"
  then have v: "validateActions [] (map normalizeAction ds)"
    by (auto simp: combat_NewService_def combat_Validate_def Let_def split: option.splits if_splits)
  have "ad_ID d = k \<and> validAction d" if "fmlookup (cs_actions s) k = Some d" for k d
    using stored_actions [of "map normalizeAction ds" fmempty k d] that s validateActions_all [OF v]
    by (auto simp: combat_NewService_def Let_def split: option.splits)
  then show ?thesis using s by (auto simp: combat_inv_def combat_NewService_def Let_def split: option.splits)
qed


lemma step_actions: "cs_actions (fst (snd (combat_step x st))) = cs_actions (fst st)"
proof -
  obtain s ps where st: "st = (s, ps)" by force
  show ?thesis
  proof (cases x)
    case (CPrepare e a t tick)
    obtain r s' where pr: "combat_Prepare e a t tick s = (r, s')" by force
    then show ?thesis by (cases rule: Prepare_cases) (simp_all add: CPrepare st pr)
  qed (simp_all add: st Commit_fields read_fields)
qed

lemma step_nextUse:
  "key \<notin> set (commits [x] st) \<Longrightarrow>
     fmlookup (cs_nextUseTick (fst (snd (combat_step x st)))) key = fmlookup (cs_nextUseTick (fst st)) key"
proof -
  assume other: "key \<notin> set (commits [x] st)"
  obtain s ps where st: "st = (s, ps)" by force
  show ?thesis
  proof (cases x)
    case (CPrepare e a t tick)
    obtain r s' where pr: "combat_Prepare e a t tick s = (r, s')" by force
    then show ?thesis by (cases rule: Prepare_cases) (simp_all add: CPrepare st pr)
  next
    case (CCommit n c tick delta)
    then show ?thesis using other by (auto simp: st Commit_fields prepared_key_def retimed_def)
  qed (simp_all add: st read_fields)
qed

lemma run_keeps:
  "key \<notin> set (commits xs st) \<Longrightarrow>
     fmlookup (cs_nextUseTick (fst (run_ops combat_step xs st))) key = fmlookup (cs_nextUseTick (fst st)) key \<and>
     cs_actions (fst (run_ops combat_step xs st)) = cs_actions (fst st)"
proof (induction xs arbitrary: st)
  case (Cons x xs)
  then show ?case using step_nextUse [of key x st] step_actions [of x st] by simp
qed simp

text \<open>The requests of a history that the service accepted.\<close>

fun accepted_requests ::
  "combat_op list \<Rightarrow> combat_service \<times> prepared_action list \<Rightarrow> (entity_id \<times> string \<times> combat_target) list" where
  "accepted_requests [] st = []"
| "accepted_requests (x # xs) st =
     (case x of
        CPrepare e a t tick \<Rightarrow> if fst (combat_step x st) = None then [(e, a, t)] else []
      | _ \<Rightarrow> []) @
     accepted_requests xs (snd (combat_step x st))"

definition request_of :: "prepared_action \<Rightarrow> entity_id \<times> string \<times> combat_target" where
  "request_of p = (pa_ActorEntityID p, ad_ID (pa_Definition p), pa_Target p)"

text \<open>What is prepared is what is stored under the id that was asked for.\<close>

definition prepared_from :: "(string, action_definition) fmap \<Rightarrow> prepared_action \<Rightarrow> bool" where
  "prepared_from actions p =
     (fmlookup actions (ad_ID (pa_Definition p)) = Some (pa_Definition p) \<and>
      containsTarget (ad_Targets (pa_Definition p)) (tg_Kind (pa_Target p)) \<and>
      pa_Damage p = authored_damage (pa_ActorEntityID p) (ad_ID (pa_Definition p)) (pa_Definition p))"

lemma step_prepared:
  assumes keys: "\<And>k a. fmlookup (cs_actions (fst st)) k = Some a \<Longrightarrow> ad_ID a = k"
  shows "\<exists>qs. snd (snd (combat_step x st)) = snd st @ qs \<and> map request_of qs = accepted_requests [x] st \<and>
    list_all (prepared_from (cs_actions (fst st))) qs"
proof -
  obtain s ps where st: "st = (s, ps)" by force
  show ?thesis
  proof (cases x)
    case (CPrepare e a t tick)
    obtain r s' where pr: "combat_Prepare e a t tick s = (r, s')" by force
    then show ?thesis
    proof (cases rule: Prepare_cases)
      case (refused err)
      then show ?thesis by (simp add: CPrepare st pr)
    next
      case (prepared d p)
      then have "ad_ID d = a" using keys [of a d] by (simp add: st)
      with prepared show ?thesis by (intro exI [of _ "[p]"]) (simp add: CPrepare st pr request_of_def prepared_from_def)
    qed
  qed (simp_all add: st)
qed

lemma run_prepared:
  assumes "\<And>k a. fmlookup (cs_actions (fst st)) k = Some a \<Longrightarrow> ad_ID a = k"
  shows "\<exists>qs. snd (run_ops combat_step xs st) = snd st @ qs \<and> map request_of qs = accepted_requests xs st \<and>
    list_all (prepared_from (cs_actions (fst st))) qs"
  using assms
proof (induction xs arbitrary: st)
  case (Cons x xs)
  define st' where "st' = snd (combat_step x st)"
  have same: "cs_actions (fst st') = cs_actions (fst st)" by (simp add: st'_def step_actions)
  obtain q where q: "snd st' = snd st @ q" "map request_of q = accepted_requests [x] st"
      "list_all (prepared_from (cs_actions (fst st))) q"
    using step_prepared [OF Cons.prems] unfolding st'_def by blast
  obtain qs where qs: "snd (run_ops combat_step xs st') = snd st' @ qs" "map request_of qs = accepted_requests xs st'"
      "list_all (prepared_from (cs_actions (fst st))) qs"
    using Cons.IH [of st'] Cons.prems unfolding same by blast
  have "accepted_requests (x # xs) st = accepted_requests [x] st @ accepted_requests xs st'" by (simp add: st'_def)
  then show ?case using q qs by (intro exI [of _ "q @ qs"]) (simp add: st'_def)
qed simp

text \<open>What an authored action has passed, and that no id is authored twice.\<close>

definition action_passed :: "action_definition \<Rightarrow> bool" where
  "action_passed a =
     (ad_ID a \<noteq> '''' \<and> positiveFinite (ad_Range a) \<and> positiveFinite (ad_CooldownSeconds a) \<and> ad_Targets a \<noteq> [] \<and> validAction a)"

lemma validateActions_passed:
  "validateActions ids as \<Longrightarrow> list_all action_passed as \<and> distinct (map ad_ID as) \<and> set ids \<inter> set (map ad_ID as) = {}"
  by (induction ids as rule: validateActions.induct) (auto simp: action_passed_def split: if_splits)

lemma NewService_actions:
  assumes "combat_NewService ds = Inr s"
  shows "fmlookup (cs_actions s) k = Some a \<Longrightarrow> ad_ID a = k \<and> a \<in> normalizeAction ` set ds \<and> action_passed a"
    and "distinct (map ad_ID ds)"
proof -
  have v: "validateActions [] (map normalizeAction ds)"
    using assms by (auto simp: combat_NewService_def combat_Validate_def Let_def split: option.splits if_splits)
  have "map ad_ID (map normalizeAction ds) = map ad_ID ds" by (simp add: normalizeAction_def Let_def)
  then show "distinct (map ad_ID ds)" using validateActions_passed [OF v] by metis
  assume "fmlookup (cs_actions s) k = Some a"
  then have "a \<in> set (map normalizeAction ds) \<and> ad_ID a = k"
    using stored_actions [of "map normalizeAction ds" fmempty k a] assms
    by (auto simp: combat_NewService_def Let_def split: option.splits)
  then show "ad_ID a = k \<and> a \<in> normalizeAction ` set ds \<and> action_passed a"
    using validateActions_passed [OF v] by (auto simp: list_all_iff)
qed

text \<open>
  C10. What every history of the combat service keeps. Start from authored definitions, no two of one id,
  and prepare, retime and commit actions in any order. The prepared actions are, in order, those of the
  accepted requests, for their actor and target; each holds the authored definition of the id that was
  asked for (with its defaults filled in), which has passed the whole validation (id, range, cooldown,
  targets, effect) and allows the kind of the target, and its damage is the one authored there, or none when the
  effect is not damage. The instance ids are 1, 2, 3 and so on (so never zero, never twice, until 64 bits run out),
  and the self mitigation of any entity at any tick stays below 100 percent, which the damage formula demands.
\<close>

theorem combat_history:
  assumes "combat_NewService ds = Inr s0" and "run_ops combat_step xs (s0, []) = (s, ps)"
  shows "distinct (map ad_ID ds) \<and>
    map (\<lambda>p. (pa_ActorEntityID p, ad_ID (pa_Definition p), pa_Target p)) ps = accepted_requests xs (s0, []) \<and>
    (\<forall>p \<in> set ps. (\<exists>d \<in> set ds. pa_Definition p = normalizeAction d) \<and> action_passed (pa_Definition p) \<and>
      containsTarget (ad_Targets (pa_Definition p)) (tg_Kind (pa_Target p)) \<and>
      pa_Damage p = authored_damage (pa_ActorEntityID p) (ad_ID (pa_Definition p)) (pa_Definition p)) \<and>
    (length ps < 2 ^ 64 \<longrightarrow> map pa_ActionInstanceID ps = map of_nat [1..<Suc (length ps)]) \<and>
    fst (SelfDamageReductionPercent e tick s) < 100"
proof -
  note new = NewService_actions [OF assms(1)]
  obtain qs where qs: "ps = qs" "map request_of qs = accepted_requests xs (s0, [])" "list_all (prepared_from (cs_actions s0)) qs"
    using run_prepared [of "(s0, [])" xs] new(1) by (auto simp: assms(2))
  have inv: "combat_inv (s, ps)" using combats.run_inv [OF NewService_inv [OF assms(1)], of xs] by (simp add: assms(2))
  then have "tv_value v < 100" if "fmlookup (cs_statuses s) (e, statusSelfDamageReduction) = Some v" for v
    using that by (auto simp: combat_inv_def)
  then have "fst (SelfDamageReductionPercent e tick s) < 100"
    by (auto simp: SelfDamageReductionPercent_def status_Value_def split: option.splits prod.splits)
  moreover have "(\<exists>d \<in> set ds. pa_Definition p = normalizeAction d) \<and> action_passed (pa_Definition p) \<and>
      containsTarget (ad_Targets (pa_Definition p)) (tg_Kind (pa_Target p)) \<and>
      pa_Damage p = authored_damage (pa_ActorEntityID p) (ad_ID (pa_Definition p)) (pa_Definition p)"
    if "p \<in> set ps" for p
  proof -
    have p: "prepared_from (cs_actions s0) p" using that qs(1,3) by (simp add: list_all_iff)
    then have "fmlookup (cs_actions s0) (ad_ID (pa_Definition p)) = Some (pa_Definition p)"
      by (simp add: prepared_from_def)
    from new(1) [OF this] p show ?thesis unfolding prepared_from_def by blast
  qed
  moreover have "map (\<lambda>p. (pa_ActorEntityID p, ad_ID (pa_Definition p), pa_Target p)) ps = accepted_requests xs (s0, [])"
    using qs(1,2) by (simp add: request_of_def [abs_def])
  ultimately show ?thesis using inv new(2) by (simp add: combat_inv_def)
qed

text \<open>
  C14. A cooldown holds. Take any history of the service, an action prepared and committed, and any
  history after it in which the actor does not commit that action again. The ready tick lies at least
  one tick ahead; before it the action is refused with the cooldown error for that actor, and from it
  on it is prepared again. (The tick counter is assumed not to run out during the cooldown.)
\<close>

theorem action_cooldown:
  assumes "combat_NewService ds = Inr s0" and "run_ops combat_step xs (s0, []) = (s, ps)"
    and "combat_Prepare e a t tick s = (Inr p, s1)"
    and "unat tick + unat (combat_cooldownTicks c delta) < 2 ^ 64" and "ready = tick + combat_cooldownTicks c delta"
    and "run_ops combat_step ys (combat_Commit (retimed c p) tick delta s1, ps @ [p]) = (s2, ps2)"
    and "(e, a) \<notin> set (commits ys (combat_Commit (retimed c p) tick delta s1, ps @ [p]))"
  shows "tick < ready \<and>
    (now < ready \<longrightarrow> fst (combat_Prepare e a t now s2) = Inl ErrActionCooldown) \<and>
    (ready \<le> now \<longrightarrow> (\<exists>q. fst (combat_Prepare e a t now s2) = Inr q \<and> pa_Definition q = pa_Definition p))"
proof -
  have inv: "combat_inv (s, ps)" using combats.run_inv [OF NewService_inv [OF assms(1)], of xs] by (simp add: assms(2))
  from assms(3) obtain d where d: "fmlookup (cs_actions s) a = Some d" "pa_Definition p = d" "pa_ActorEntityID p = e"
    "cs_actions s1 = cs_actions s" "containsTarget (ad_Targets d) (tg_Kind t)" "targetGiven t"
    by (cases rule: Prepare_cases) auto
  have key: "prepared_key (retimed c p) = (e, a)"
    using inv d(1) by (auto simp: combat_inv_def prepared_key_def retimed_def d(2,3))
  have "fmlookup (cs_nextUseTick s2) (e, a) = Some ready" "fmlookup (cs_actions s2) a = Some d"
    using run_keeps [OF assms(7)] d(1,4) by (simp_all add: assms(5,6) Commit_fields key) (simp add: retimed_def)
  note found = this
  have "combat_cooldownTicks c delta \<noteq> 0" by (simp add: combat_cooldownTicks_def Let_def)
  then have later: "tick < ready"
    using assms(4) by (simp add: assms(5) word_less_nat_alt unat_plus_no_overflow unat_gt_0)
  then have "ready \<noteq> 0" by auto
  from Prepare_answer [OF found(2) d(5,6) found(1) this] later show ?thesis by (simp add: d(2) not_less)
qed


section \<open>Two sets of formulas\<close>

text \<open>The chance that \<open>resolveCritical\<close> (\<open>worldruntime/critical.go\<close>) rolls against.\<close>

definition resolvedCriticalChance :: "u32 \<Rightarrow> u32 \<Rightarrow> u32" where
  "resolvedCriticalChance agility criticalRating =
     rating_CriticalChance (AttributeCriticalBonusPercentPoints agility * 100) criticalRating"

lemma rating_hit_exact:
  assumes "- (2 ^ 31) \<le> hit" and "hit < 2 ^ 31" and "- (2 ^ 31) \<le> ev" and "ev < 2 ^ 31"
  shows "uint (rating_PhysicalHitChance hit ev) = max 7500 (min 9800 (9000 + (hit - ev) * 50))"
proof -
  define c where "c = 9000 + (hit - ev) * 50"
  have 1: "wrap_i64 (hit - ev) = hit - ev" using assms by (intro wrap_i64_id) simp_all
  have 2: "wrap_i64 ((hit - ev) * 50) = (hit - ev) * 50" using assms by (intro wrap_i64_id) simp_all
  have 3: "wrap_i64 (9000 + (hit - ev) * 50) = c" unfolding c_def using assms by (intro wrap_i64_id) simp_all
  have r: "rating_PhysicalHitChance hit ev = (if c < 7500 then 7500 else if 9800 < c then 9800 else word_of_int c)"
    by (simp only: rating_PhysicalHitChance_def 1 2 3 Let_def)
  show ?thesis
  proof (cases "c < 7500 \<or> 9800 < c")
    case True
    then show ?thesis unfolding c_def [symmetric] by (auto simp: r)
  next
    case False
    then have "uint (word_of_int c :: u32) = c" by (intro uint_word_of_int_id) simp_all
    then show ?thesis unfolding c_def [symmetric] using False by (simp add: r)
  qed
qed

lemma rating_critical_exact:
  "unat (rating_CriticalChance b r) = min 3000 (500 + unat b + unat r * 50)"
proof -
  define c :: u64 where "c = 500 + ucast b + ucast r * 50"
  have u: "unat (ucast b :: u64) = unat b" "unat (ucast r :: u64) = unat r" by (simp_all add: unat_ucast_32_64)
  have m: "unat (ucast r * 50 :: u64) = unat r * 50"
    using u32_bound [of r] by (simp add: unat_word_ariths u)
  have c: "unat c = 500 + unat b + unat r * 50"
    unfolding c_def using u32_bound [of r] u32_bound [of b] by (simp add: unat_word_ariths u m del: unat_mult_lem)
  show ?thesis
  proof (cases "3000 < c")
    case True
    then show ?thesis using c by (simp add: rating_CriticalChance_def flip: c_def) (simp add: word_less_nat_alt)
  next
    case False
    then have "unat c \<le> 3000" by (simp add: word_less_nat_alt)
    moreover from this have "unat (ucast c :: u32) = unat c"
      by (simp add: unsigned_ucast_eq unsigned_take_bit_eq take_bit_nat_eq_self)
    ultimately show ?thesis using False c by (simp add: rating_CriticalChance_def flip: c_def)
  qed
qed

lemma attribute_bonus_exact:
  assumes "a < 429496760"
  shows "unat (AttributeCriticalBonusPercentPoints a * 100) = (unat a - 30) div 10 * 100"
proof -
  have "unat a < 429496760" using assms by (simp add: word_less_nat_alt)
  then have "(unat a - 30) div 10 \<le> 42949672" by linarith
  then show ?thesis by (simp add: unat_word_ariths attribute_pp)
qed

text \<open>
  C38. The hit and critical chances exist twice, in \<open>combat/ratings.go\<close> for the world owner and in
  \<open>characterstats/derived.go\<close> for display. The hit chances agree on all 32 bit ratings. The critical
  chances agree as long as the agility is below 429496760; at that value the world owner's 32 bit product
  wraps around and the chance falls from 30 percent to 5.04. The defense curve is
  10000 d / (d + 20) below 4294967276, where the 32 bit sum is zero and the division panics.
\<close>

theorem rating_formulas_agree:
  assumes "- (2 ^ 31) \<le> hit" and "hit < 2 ^ 31" and "- (2 ^ 31) \<le> ev" and "ev < 2 ^ 31"
  shows "rating_PhysicalHitChance hit ev = PhysicalHitChanceBasisPoints hit ev \<and>
    (agility < 429496760 \<longrightarrow> resolvedCriticalChance agility rating = CriticalChanceBasisPoints agility rating) \<and>
    resolvedCriticalChance 429496760 0 = 504 \<and> CriticalChanceBasisPoints 429496760 0 = 3000 \<and>
    (DefenseMitigationBasisPoints d = None \<longleftrightarrow> d = 4294967276) \<and>
    (d < 4294967276 \<longrightarrow> (\<exists>m. DefenseMitigationBasisPoints d = Some m \<and> unat m = unat d * 10000 div (unat d + 20) \<and> m < 10000))"
proof -
  have "uint (rating_PhysicalHitChance hit ev) = uint (PhysicalHitChanceBasisPoints hit ev)"
    using rating_hit_exact [OF assms] hit_exact [of hit ev] assms by simp
  then have hits: "rating_PhysicalHitChance hit ev = PhysicalHitChanceBasisPoints hit ev" by (simp add: word_uint_eq_iff)
  have crit: "resolvedCriticalChance agility rating = CriticalChanceBasisPoints agility rating" if "agility < 429496760"
    by (simp add: word_unat_eq_iff resolvedCriticalChance_def rating_critical_exact critical_exact attribute_bonus_exact that)
  have zero: "d + 20 = 0 \<longleftrightarrow> d = 4294967276"
  proof -
    have "(- 20 :: u32) = 4294967276" by code_simp
    moreover have "d + 20 = 0 \<longleftrightarrow> d = - 20" by (simp add: eq_neg_iff_add_eq_0)
    ultimately show ?thesis by metis
  qed
  then have none: "DefenseMitigationBasisPoints d = None \<longleftrightarrow> d = 4294967276"
    by (auto simp: DefenseMitigationBasisPoints_def)
  have curve: "\<exists>m. DefenseMitigationBasisPoints d = Some m \<and> unat m = unat d * 10000 div (unat d + 20) \<and> m < 10000"
    if "d < 4294967276"
  proof -
    have b: "unat d < 4294967276" using that by (simp add: word_less_nat_alt)
    then have s: "unat (d + 20) = unat d + 20" by (simp add: unat_word_ariths)
    have q: "unat d * 10000 div (unat d + 20) < 10000" by (simp add: div_less_iff_less_mult)
    have p: "unat (ucast d * 10000 :: u64) = unat d * 10000"
      using u32_bound [of d] by (simp add: unat_word_ariths unat_ucast_32_64)
    have r: "unat ((ucast d * 10000 :: u64) div ucast (d + 20)) = unat d * 10000 div (unat d + 20)"
      by (simp add: unat_div p s unat_ucast_32_64)
    define m :: u32 where "m = ucast ((ucast d * 10000 :: u64) div ucast (d + 20))"
    have m: "unat m = unat d * 10000 div (unat d + 20)" using q by (simp add: m_def unsigned_ucast_eq unsigned_take_bit_eq take_bit_nat_eq_self r)
    have "d + 20 \<noteq> 0" using zero that by auto
    then have "DefenseMitigationBasisPoints d = Some m" by (simp add: DefenseMitigationBasisPoints_def m_def)
    then show ?thesis using m q by (simp add: word_less_nat_alt)
  qed
  have ends: "resolvedCriticalChance 429496760 0 = 504" "CriticalChanceBasisPoints 429496760 0 = 3000"
    by code_simp+
  from hits crit ends none curve show ?thesis by blast
qed


section \<open>Witnesses\<close>

definition sample_slash :: action_definition where
  "sample_slash =
     \<lparr>ad_ID = ''slash'', ad_Effect = '''', ad_Targets = [TargetEntity], ad_Range = 0x40000000, ad_HitRadius = 0,
      ad_PointResolution = '''', ad_BaseDamage = 12, ad_DamageType = DamagePhysical, ad_CriticalEligible = True,
      ad_Blockable = True, ad_PhysicalDefenseIgnorePercent = 0, ad_SelfDamageReductionPercent = 0, ad_DurationSeconds = 0,
      ad_ReviveHPPercent = 0, ad_MPCost = 0, ad_CooldownSeconds = 0x3F800000\<rparr>"

definition sample_bulwark :: action_definition where
  "sample_bulwark = sample_slash\<lparr>ad_ID := ''bulwark'', ad_Effect := EffectSelfMitigation, ad_BaseDamage := 0, ad_DamageType := '''',
     ad_CriticalEligible := False, ad_Blockable := False, ad_SelfDamageReductionPercent := 40, ad_DurationSeconds := 0x40000000\<rparr>"

definition sample_combat :: combat_service where
  "sample_combat = (case combat_NewService [sample_slash, sample_bulwark] of Inr s \<Rightarrow> s | Inl _ \<Rightarrow> undefined)"

lemma sample_combat_new: "combat_NewService [sample_slash, sample_bulwark] = Inr sample_combat"
proof -
  have "\<not> isl (combat_NewService [sample_slash, sample_bulwark])" by code_simp
  then show ?thesis by (auto simp: sample_combat_def split: sum.splits)
qed

definition sample_foe :: combat_target where
  "sample_foe = \<lparr>tg_Kind = TargetEntity, tg_ID = ''7'', tg_PointX = 0, tg_PointZ = 0, tg_HasPoint = False\<rparr>"

text \<open>One second in ticks of 50 milliseconds.\<close>

lemma sample_ticks: "combat_cooldownTicks 0x3F800000 50000000 = 20"
  by code_simp

lemma sample_slash_stored:
  "fmlookup (cs_actions sample_combat) ''slash'' = Some (normalizeAction sample_slash)"
  "cs_nextUseTick sample_combat = fmempty"
proof -
  have n: "map normalizeAction [sample_slash, sample_bulwark] = [normalizeAction sample_slash, normalizeAction sample_bulwark]"
    "ad_ID (normalizeAction sample_slash) = ''slash''" "ad_ID (normalizeAction sample_bulwark) = ''bulwark''"
    by (simp_all add: normalizeAction_def Let_def sample_slash_def sample_bulwark_def)
  have s: "sample_combat = \<lparr>cs_actions = fmupd ''bulwark'' (normalizeAction sample_bulwark)
      (fmupd ''slash'' (normalizeAction sample_slash) fmempty), cs_nextUseTick = fmempty, cs_statuses = fmempty,
      cs_nextInstanceID = 0\<rparr>"
    using sample_combat_new by (simp add: combat_NewService_def Let_def n split: option.splits)
  show "fmlookup (cs_actions sample_combat) ''slash'' = Some (normalizeAction sample_slash)"
    "cs_nextUseTick sample_combat = fmempty"
    by (simp_all add: s)
qed

theorem combat_history_witness:
  "\<exists>s p. run_ops combat_step [CPrepare 5 ''slash'' sample_foe 1, CCommit 0 0x3F800000 1 50000000] (sample_combat, []) = (s, [p]) \<and>
     action_passed (pa_Definition p) \<and> ad_ID (pa_Definition p) = ''slash'' \<and> pa_ActionInstanceID p = 1 \<and>
     fst (SelfDamageReductionPercent 5 8 s) < 100"
proof -
  let ?xs = "[CPrepare 5 ''slash'' sample_foe 1, CCommit 0 0x3F800000 1 50000000]"
  obtain s ps where run: "run_ops combat_step ?xs (sample_combat, []) = (s, ps)" by force
  have ok: "containsTarget (ad_Targets (normalizeAction sample_slash)) (tg_Kind sample_foe)" "targetGiven sample_foe"
    by code_simp+
  have "accepted_requests ?xs (sample_combat, []) = [(5, ''slash'', sample_foe)]"
    by (simp add: combat_Prepare_def sample_slash_stored ok Let_def gomap_at_def)
  then have req: "map (\<lambda>p. (pa_ActorEntityID p, ad_ID (pa_Definition p), pa_Target p)) ps = [(5, ''slash'', sample_foe)]"
    using combat_history [OF sample_combat_new run, of 5 8] by simp
  then obtain p where "ps = [p]" by auto
  then show ?thesis using combat_history [OF sample_combat_new run, of 5 8] req run by auto
qed

theorem action_cooldown_witness:
  "\<exists>p s1. combat_Prepare 5 ''slash'' sample_foe 100 sample_combat = (Inr p, s1) \<and>
     fst (combat_Prepare 5 ''slash'' sample_foe 119
       (fst (run_ops combat_step [CPrepare 6 ''slash'' sample_foe 110]
          (combat_Commit (retimed 0x3F800000 p) 100 50000000 s1, [p])))) = Inl ErrActionCooldown"
proof -
  have ok: "containsTarget (ad_Targets (normalizeAction sample_slash)) (tg_Kind sample_foe)" "targetGiven sample_foe"
    by code_simp+
  obtain p s1 where p: "combat_Prepare 5 ''slash'' sample_foe 100 sample_combat = (Inr p, s1)"
    by (simp add: combat_Prepare_def sample_slash_stored ok Let_def gomap_at_def)
  obtain s2 ps2 where run: "run_ops combat_step [CPrepare 6 ''slash'' sample_foe 110]
      (combat_Commit (retimed 0x3F800000 p) 100 50000000 s1, [] @ [p]) = (s2, ps2)" by force
  have "fst (combat_Prepare 5 ''slash'' sample_foe 119 s2) = Inl ErrActionCooldown"
    using action_cooldown [OF sample_combat_new _ p _ _ run, of "[]" 120 119] by (simp add: sample_ticks)
  with p run show ?thesis by simp
qed

theorem rating_formulas_agree_witness:
  "rating_PhysicalHitChance 8 2 = PhysicalHitChanceBasisPoints 8 2 \<and> resolvedCriticalChance 50 1 = CriticalChanceBasisPoints 50 1"
  using rating_formulas_agree [of 8 2 50 1 0] by simp

end
