(* ===== verification/Catalogs.thy ===== *)
theory Catalogs
  imports Prelude
begin

text \<open>
  The authored tables of what monsters drop (\<open>internal/loot/catalog.go\<close>), what shops trade
  (\<open>internal/shop/catalog.go\<close>) and what an item does when used (\<open>internal/itemuse/catalog.go\<close>): their
  construction from a decoded definition and their lookups.
\<close>

section \<open>Loot\<close>

definition ChanceBasisPointsScale :: u16 where [go_defs]: "ChanceBasisPointsScale = 10000"

datatype loot_error = ErrLootDefinition | ErrDuplicateSourceArchetype

record drop_entry =
  de_ItemArchetypeID :: string
  de_ChanceBasisPoints :: u16

definition IncludesRoll :: "u16 \<Rightarrow> drop_entry \<Rightarrow> bool" where
  "IncludesRoll roll d = (0 < de_ChanceBasisPoints d \<and> roll < de_ChanceBasisPoints d)"

record loot_table =
  lt_SourceArchetypeID :: string
  lt_Drops :: "drop_entry list"

record loot_definition =
  ld_Revision :: string
  ld_Tables :: "loot_table list"

record loot_catalog =
  lc_revision :: string
  lc_bySource :: "(string, drop_entry list) fmap"

text \<open>The loop over the drops of a table: a chance of zero stands for a certain drop.\<close>

fun loot_drops :: "drop_entry list \<Rightarrow> drop_entry list option" where
  "loot_drops [] = Some []"
| "loot_drops (d # ds) =
     (if de_ItemArchetypeID d = '''' \<or> ChanceBasisPointsScale < de_ChanceBasisPoints d then None
      else case loot_drops ds of
        None \<Rightarrow> None
      | Some rest \<Rightarrow>
          Some ((if de_ChanceBasisPoints d = 0 then d\<lparr>de_ChanceBasisPoints := ChanceBasisPointsScale\<rparr> else d) # rest))"

fun loot_addTables ::
  "loot_table list \<Rightarrow> (string, drop_entry list) fmap \<Rightarrow> loot_error + (string, drop_entry list) fmap" where
  "loot_addTables [] m = Inr m"
| "loot_addTables (t # ts) m =
     (if lt_SourceArchetypeID t = '''' \<or> lt_Drops t = [] then Inl ErrLootDefinition
      else if gomap_has m (lt_SourceArchetypeID t) then Inl ErrDuplicateSourceArchetype
      else case loot_drops (lt_Drops t) of
        None \<Rightarrow> Inl ErrLootDefinition
      | Some drops \<Rightarrow> loot_addTables ts (fmupd (lt_SourceArchetypeID t) drops m))"

definition loot_New :: "loot_definition \<Rightarrow> loot_error + loot_catalog" where
  "loot_New d =
     (if ld_Revision d = '''' \<or> ld_Tables d = [] then Inl ErrLootDefinition
      else case loot_addTables (ld_Tables d) fmempty of
        Inl e \<Rightarrow> Inl e
      | Inr m \<Rightarrow> Inr \<lparr>lc_revision = ld_Revision d, lc_bySource = m\<rparr>)"

text \<open>The second result of the lookup is whether the source is configured; a nil catalog knows nothing.\<close>

definition DropsFor :: "loot_catalog option \<Rightarrow> string \<Rightarrow> drop_entry list option" where
  "DropsFor c source =
     (case c of None \<Rightarrow> None | Some c \<Rightarrow> if source = '''' then None else fmlookup (lc_bySource c) source)"

section \<open>Shops\<close>

datatype shop_error = ErrInvalidShopCatalog

record shop_offer =
  of_ID :: string
  of_ItemArchetypeID :: string
  of_Quantity :: u32
  of_CostArchetypeID :: string
  of_CostQuantity :: u32

record shop =
  sh_ID :: string
  sh_NPCArchetypeID :: string
  sh_Offers :: "shop_offer list"

record shop_definition =
  sd_Revision :: string
  sd_Shops :: "shop list"

record shop_catalog =
  sc_revision :: string
  sc_byNPC :: "(string, shop) fmap"

definition trimmed_offer :: "shop_offer \<Rightarrow> shop_offer" where
  "trimmed_offer f = f\<lparr>of_ID := TrimSpace (of_ID f), of_ItemArchetypeID := TrimSpace (of_ItemArchetypeID f),
     of_CostArchetypeID := TrimSpace (of_CostArchetypeID f)\<rparr>"

fun shop_offers :: "string set \<Rightarrow> shop_offer list \<Rightarrow> shop_offer list option" where
  "shop_offers offerIDs [] = Some []"
| "shop_offers offerIDs (raw # rest) =
     (let f = trimmed_offer raw in
      if of_ID f = '''' \<or> of_ItemArchetypeID f = '''' \<or> of_CostArchetypeID f = '''' \<or> of_Quantity f = 0 \<or> of_CostQuantity f = 0
      then None
      else if of_ID f \<in> offerIDs then None
      else case shop_offers (insert (of_ID f) offerIDs) rest of None \<Rightarrow> None | Some fs \<Rightarrow> Some (f # fs))"

fun shop_addShops :: "shop list \<Rightarrow> string set \<Rightarrow> (string, shop) fmap \<Rightarrow> (string, shop) fmap option" where
  "shop_addShops [] shopIDs m = Some m"
| "shop_addShops (raw # rest) shopIDs m =
     (let i = TrimSpace (sh_ID raw); npc = TrimSpace (sh_NPCArchetypeID raw) in
      if i = '''' \<or> npc = '''' \<or> sh_Offers raw = [] then None
      else if i \<in> shopIDs then None
      else if gomap_has m npc then None
      else case shop_offers {} (sh_Offers raw) of
        None \<Rightarrow> None
      | Some offers \<Rightarrow>
          shop_addShops rest (insert i shopIDs) (fmupd npc \<lparr>sh_ID = i, sh_NPCArchetypeID = npc, sh_Offers = offers\<rparr> m))"

definition shop_New :: "shop_definition \<Rightarrow> shop_error + shop_catalog" where
  "shop_New d =
     (if TrimSpace (sd_Revision d) = '''' \<or> sd_Shops d = [] then Inl ErrInvalidShopCatalog
      else case shop_addShops (sd_Shops d) {} fmempty of
        None \<Rightarrow> Inl ErrInvalidShopCatalog
      | Some m \<Rightarrow> Inr \<lparr>sc_revision = TrimSpace (sd_Revision d), sc_byNPC = m\<rparr>)"

definition ShopForNPC :: "shop_catalog option \<Rightarrow> string \<Rightarrow> shop option" where
  "ShopForNPC c npc = (case c of None \<Rightarrow> None | Some c \<Rightarrow> fmlookup (sc_byNPC c) npc)"

definition FindOffer :: "shop \<Rightarrow> string \<Rightarrow> shop_offer option" where
  "FindOffer s offerID = find (\<lambda>f. of_ID f = offerID) (sh_Offers s)"

section \<open>Usable items\<close>

datatype itemuse_error = ErrInvalidUseCatalog

datatype use_resource = ResourceHP | ResourceMP | ResourceOther string

record use_definition =
  ud_ItemArchetypeID :: string
  ud_Resource :: use_resource
  ud_RestoreAmount :: u32
  ud_CooldownGroup :: string
  ud_CooldownTicks :: u64

record use_catalog_definition =
  uc_Revision :: string
  uc_Items :: "use_definition list"

record use_catalog =
  ut_revision :: string
  ut_byItem :: "(string, use_definition) fmap"

fun use_addItems :: "use_definition list \<Rightarrow> (string, use_definition) fmap \<Rightarrow> (string, use_definition) fmap option" where
  "use_addItems [] m = Some m"
| "use_addItems (raw # rest) m =
     (let d = raw\<lparr>ud_ItemArchetypeID := TrimSpace (ud_ItemArchetypeID raw), ud_CooldownGroup := TrimSpace (ud_CooldownGroup raw)\<rparr> in
      if ud_ItemArchetypeID d = '''' \<or> ud_RestoreAmount d = 0 \<or> ud_CooldownGroup d = '''' \<or> ud_CooldownTicks d = 0 then None
      else if ud_Resource d \<noteq> ResourceHP \<and> ud_Resource d \<noteq> ResourceMP then None
      else if gomap_has m (ud_ItemArchetypeID d) then None
      else use_addItems rest (fmupd (ud_ItemArchetypeID d) d m))"

definition use_New :: "use_catalog_definition \<Rightarrow> itemuse_error + use_catalog" where
  "use_New d =
     (if TrimSpace (uc_Revision d) = '''' \<or> uc_Items d = [] then Inl ErrInvalidUseCatalog
      else case use_addItems (uc_Items d) fmempty of
        None \<Rightarrow> Inl ErrInvalidUseCatalog
      | Some m \<Rightarrow> Inr \<lparr>ut_revision = TrimSpace (uc_Revision d), ut_byItem = m\<rparr>)"

definition use_Resolve :: "use_catalog option \<Rightarrow> string \<Rightarrow> use_definition option" where
  "use_Resolve c item = (case c of None \<Rightarrow> None | Some c \<Rightarrow> fmlookup (ut_byItem c) (TrimSpace item))"

section \<open>What the catalogs hold\<close>

definition drop_ok :: "drop_entry \<Rightarrow> bool" where
  "drop_ok d = (de_ItemArchetypeID d \<noteq> '''' \<and> 0 < de_ChanceBasisPoints d \<and> de_ChanceBasisPoints d \<le> 10000)"

definition offer_ok :: "shop_offer \<Rightarrow> bool" where
  "offer_ok f = (of_ID f \<noteq> '''' \<and> of_ItemArchetypeID f \<noteq> '''' \<and> of_CostArchetypeID f \<noteq> '''' \<and> of_Quantity f \<noteq> 0 \<and>
     of_CostQuantity f \<noteq> 0 \<and> TrimSpace (of_ItemArchetypeID f) = of_ItemArchetypeID f \<and>
     TrimSpace (of_CostArchetypeID f) = of_CostArchetypeID f)"

definition use_ok :: "use_definition \<Rightarrow> bool" where
  "use_ok d = (ud_ItemArchetypeID d \<noteq> '''' \<and> TrimSpace (ud_ItemArchetypeID d) = ud_ItemArchetypeID d \<and>
     ud_RestoreAmount d \<noteq> 0 \<and> ud_CooldownGroup d \<noteq> '''' \<and> ud_CooldownTicks d \<noteq> 0 \<and>
     (ud_Resource d = ResourceHP \<or> ud_Resource d = ResourceMP))"

lemma loot_drops_ok: "loot_drops ds = Some xs \<Longrightarrow> xs = [] \<longleftrightarrow> ds = []" "loot_drops ds = Some xs \<Longrightarrow> list_all drop_ok xs"
proof -
  show "loot_drops ds = Some xs \<Longrightarrow> xs = [] \<longleftrightarrow> ds = []"
    by (cases ds) (auto split: if_splits option.splits)
  show "loot_drops ds = Some xs \<Longrightarrow> list_all drop_ok xs"
  proof (induction ds arbitrary: xs)
    case (Cons d ds)
    then show ?case
      by (auto simp: drop_ok_def ChanceBasisPointsScale_def word_neq_0_conv not_less split: if_splits option.splits)
  qed simp
qed

lemma loot_addTables_ok:
  "loot_addTables ts m = Inr n \<Longrightarrow> (\<And>k ds. fmlookup m k = Some ds \<Longrightarrow> ds \<noteq> [] \<and> list_all drop_ok ds) \<Longrightarrow>
     fmlookup n k = Some ds \<Longrightarrow> ds \<noteq> [] \<and> list_all drop_ok ds"
proof (induction ts arbitrary: m)
  case (Cons t ts)
  from Cons.prems(1) obtain drops where d: "lt_Drops t \<noteq> []" "loot_drops (lt_Drops t) = Some drops"
    "loot_addTables ts (fmupd (lt_SourceArchetypeID t) drops m) = Inr n"
    by (auto split: if_splits option.splits)
  show ?case
  proof (rule Cons.IH [OF d(3) _ Cons.prems(3)])
    fix k' ds' assume "fmlookup (fmupd (lt_SourceArchetypeID t) drops m) k' = Some ds'"
    then show "ds' \<noteq> [] \<and> list_all drop_ok ds'"
      using Cons.prems(2) loot_drops_ok [OF d(2)] d(1) by (cases "lt_SourceArchetypeID t = k'") auto
  qed
qed simp

lemma DropsFor_ok: "loot_New d = Inr c \<Longrightarrow> DropsFor (Some c) source = Some ds \<Longrightarrow> ds \<noteq> [] \<and> list_all drop_ok ds"
proof -
  assume "loot_New d = Inr c"
  then have m: "loot_addTables (ld_Tables d) fmempty = Inr (lc_bySource c)"
    by (auto simp: loot_New_def split: if_splits sum.splits)
  assume "DropsFor (Some c) source = Some ds"
  then have "fmlookup (lc_bySource c) source = Some ds" by (auto simp: DropsFor_def split: if_splits)
  from loot_addTables_ok [OF m _ this] show ?thesis by simp
qed

lemma shop_offers_ok: "shop_offers seen raw = Some fs \<Longrightarrow> list_all offer_ok fs"
  by (induction seen raw arbitrary: fs rule: shop_offers.induct)
    (auto simp: Let_def offer_ok_def trimmed_offer_def split: if_splits option.splits)

lemma shop_addShops_ok:
  "shop_addShops ss seen m = Some n \<Longrightarrow> (\<And>k s. fmlookup m k = Some s \<Longrightarrow> list_all offer_ok (sh_Offers s)) \<Longrightarrow>
     fmlookup n k = Some s \<Longrightarrow> list_all offer_ok (sh_Offers s)"
proof (induction ss arbitrary: seen m)
  case (Cons raw rest)
  define npc where "npc = TrimSpace (sh_NPCArchetypeID raw)"
  from Cons.prems(1) obtain offers i seen' where d: "shop_offers {} (sh_Offers raw) = Some offers"
    "shop_addShops rest seen' (fmupd npc \<lparr>sh_ID = i, sh_NPCArchetypeID = npc, sh_Offers = offers\<rparr> m) = Some n"
    by (auto simp: Let_def npc_def split: if_splits option.splits)
  show ?case
  proof (rule Cons.IH [OF d(2) _ Cons.prems(3)])
    fix k' s' assume "fmlookup (fmupd npc \<lparr>sh_ID = i, sh_NPCArchetypeID = npc, sh_Offers = offers\<rparr> m) k' = Some s'"
    then show "list_all offer_ok (sh_Offers s')"
      using Cons.prems(2) shop_offers_ok [OF d(1)] by (cases "npc = k'") auto
  qed
qed simp

lemma FindOffer_ok:
  assumes "shop_New d = Inr c" and "ShopForNPC (Some c) npc = Some s" and "FindOffer s i = Some f"
  shows "offer_ok f \<and> of_ID f = i"
proof -
  have "shop_addShops (sd_Shops d) {} fmempty = Some (sc_byNPC c)"
    using assms(1) by (auto simp: shop_New_def split: if_splits option.splits)
  from shop_addShops_ok [OF this] assms(2) have "list_all offer_ok (sh_Offers s)" by (simp add: ShopForNPC_def)
  with assms(3) show ?thesis by (auto simp: FindOffer_def find_Some_iff list_all_iff)
qed

lemma use_addItems_ok:
  "use_addItems ds m = Some n \<Longrightarrow> (\<And>k d. fmlookup m k = Some d \<Longrightarrow> use_ok d \<and> ud_ItemArchetypeID d = k) \<Longrightarrow>
     fmlookup n k = Some d \<Longrightarrow> use_ok d \<and> ud_ItemArchetypeID d = k"
proof (induction ds arbitrary: m)
  case (Cons raw rest)
  define d' where "d' = raw\<lparr>ud_ItemArchetypeID := TrimSpace (ud_ItemArchetypeID raw), ud_CooldownGroup := TrimSpace (ud_CooldownGroup raw)\<rparr>"
  from Cons.prems(1) have s: "use_ok d'" "use_addItems rest (fmupd (ud_ItemArchetypeID d') d' m) = Some n"
    by (auto simp: Let_def use_ok_def d'_def split: if_splits)
  show ?case
  proof (rule Cons.IH [OF s(2) _ Cons.prems(3)])
    fix k' x assume "fmlookup (fmupd (ud_ItemArchetypeID d') d' m) k' = Some x"
    then show "use_ok x \<and> ud_ItemArchetypeID x = k'"
      using Cons.prems(2) s(1) by (cases "ud_ItemArchetypeID d' = k'") auto
  qed
qed simp

lemma use_Resolve_ok:
  assumes "use_New d = Inr c" and "use_Resolve (Some c) item = Some u"
  shows "use_ok u \<and> ud_ItemArchetypeID u = TrimSpace item"
proof -
  have "use_addItems (uc_Items d) fmempty = Some (ut_byItem c)"
    using assms(1) by (auto simp: use_New_def split: if_splits option.splits)
  from use_addItems_ok [OF this] assms(2) show ?thesis by (simp add: use_Resolve_def)
qed

end
