(* ===== verification/MonsterLoot.thy ===== *)
theory MonsterLoot
  imports Catalogs
begin

text \<open>
  The loot of a monster (\<open>internal/worldruntime/monster_loot.go\<close>): who contributed how much damage,
  the draws of the server and the weighted lottery among the contributors near the corpse. The
  server's secret and \<open>crypto/hmac\<close> are arguments. A draw repeats until a sample is accepted, so it is
  a partial function.
\<close>

section \<open>Contributions\<close>

record monster_loot_state =
  ml_sourceArchetypeID :: string
  ml_configured :: bool
  ml_awarded :: bool
  ml_incarnation :: u64
  ml_contributions :: "(string, u64) fmap"

text \<open>One more incarnation of an entity, which starts without contributions; the counter saturates.\<close>

definition tracked :: "loot_catalog option \<Rightarrow> string \<Rightarrow> monster_loot_state option \<Rightarrow> monster_loot_state" where
  "tracked c archetypeID old =
     (let i = (case old of None \<Rightarrow> 0 | Some s \<Rightarrow> ml_incarnation s) in
      \<lparr>ml_sourceArchetypeID = archetypeID, ml_configured = (DropsFor c archetypeID \<noteq> None), ml_awarded = False,
       ml_incarnation = (if i \<noteq> - 1 then i + 1 else i), ml_contributions = fmempty\<rparr>)"

definition contributed :: "string \<Rightarrow> u32 \<Rightarrow> monster_loot_state \<Rightarrow> monster_loot_state" where
  "contributed characterID actualDamage s =
     (let old = gomap_at 0 (ml_contributions s) characterID; amount = (ucast actualDamage :: u64) in
      s\<lparr>ml_contributions := fmupd characterID (if - 1 - amount < old then - 1 else old + amount) (ml_contributions s)\<rparr>)"

section \<open>The lottery\<close>

record loot_candidate =
  lk_sessionID :: u64
  lk_characterID :: string
  lk_damage :: u64

fun sumDamage :: "u64 \<Rightarrow> loot_candidate list \<Rightarrow> u64" where
  "sumDamage sumd [] = sumd"
| "sumDamage sumd (c # cs) = (if - 1 - sumd < lk_damage c then - 1 else sumDamage (sumd + lk_damage c) cs)"

definition monsterLootCandidateTotalDamage :: "loot_candidate list \<Rightarrow> u64" where
  "monsterLootCandidateTotalDamage cs = sumDamage 0 cs"

fun selectFrom :: "u64 \<Rightarrow> u64 \<Rightarrow> u64 \<Rightarrow> loot_candidate list \<Rightarrow> loot_candidate option" where
  "selectFrom sumd cumulative ticket [] = None"
| "selectFrom sumd cumulative ticket (c # cs) =
     (if lk_damage c = 0 then selectFrom sumd cumulative ticket cs
      else if sumd - cumulative \<le> lk_damage c then Some c
      else if ticket < cumulative + lk_damage c then Some c
      else selectFrom sumd (cumulative + lk_damage c) ticket cs)"

definition selectDamageWeighted :: "loot_candidate list \<Rightarrow> u64 \<Rightarrow> loot_candidate option" where
  "selectDamageWeighted cs ticket =
     (let sumd = monsterLootCandidateTotalDamage cs in
      if sumd = 0 \<or> sumd \<le> ticket then None else selectFrom sumd 0 ticket cs)"

section \<open>Draws\<close>

definition lePutUint64 :: "u64 \<Rightarrow> u8 list" where
  "lePutUint64 v = map (\<lambda>i. ucast (drop_bit (8 * i) v)) [0..<8]"

definition leUint64 :: "u8 list \<Rightarrow> u64" where
  "leUint64 bs = foldr (\<lambda>b v. 256 * v + ucast b) (take 8 bs) 0"

partial_function (option) rollFrom :: "(u64 \<Rightarrow> u64) \<Rightarrow> u64 \<Rightarrow> u64 \<Rightarrow> u64 \<Rightarrow> u64 option" where
  "rollFrom sample threshold sumd counter =
     (if threshold \<le> sample counter then Some (sample counter mod sumd)
      else rollFrom sample threshold sumd (counter + 1))"

definition monsterLootWinnerRollDomain :: string where
  [go_defs]: "monsterLootWinnerRollDomain = ''astrahold/monster-loot-winner/v1''"
definition monsterLootDropRollDomain :: string where
  [go_defs]: "monsterLootDropRollDomain = ''astrahold/monster-loot-drop/v1''"

type_synonym hmac = "u8 list \<Rightarrow> u8 list \<Rightarrow> u8 list"

definition monsterLootSample :: "hmac \<Rightarrow> u8 list \<Rightarrow> string \<Rightarrow> u64 \<Rightarrow> u64 \<Rightarrow> nat \<Rightarrow> u64 \<Rightarrow> u64" where
  "monsterLootSample H secret domain monsterID incarnation dropIndex counter =
     leUint64 (H secret (map of_char domain @ lePutUint64 monsterID @ lePutUint64 incarnation @
                         lePutUint64 (of_nat dropIndex) @ lePutUint64 counter))"

definition monsterLootRoll :: "hmac \<Rightarrow> u8 list \<Rightarrow> string \<Rightarrow> u64 \<Rightarrow> u64 \<Rightarrow> nat \<Rightarrow> u64 \<Rightarrow> u64 option" where
  "monsterLootRoll H secret domain monsterID incarnation dropIndex sumd =
     (if sumd = 0 then Some 0
      else rollFrom (monsterLootSample H secret domain monsterID incarnation dropIndex) (- sumd mod sumd) sumd 0)"

definition monsterLootTicket :: "hmac \<Rightarrow> u8 list \<Rightarrow> u64 \<Rightarrow> u64 \<Rightarrow> nat \<Rightarrow> u64 \<Rightarrow> u64 option" where
  "monsterLootTicket H secret monsterID incarnation dropIndex sumd =
     monsterLootRoll H secret monsterLootWinnerRollDomain monsterID incarnation dropIndex sumd"

text \<open>The drops that the rolls include, with their authored index; \<open>None\<close> when a roll never ends.\<close>

fun resolveDropsFrom :: "(nat \<Rightarrow> u64 option) \<Rightarrow> nat \<Rightarrow> drop_entry list \<Rightarrow> (drop_entry \<times> nat) list option" where
  "resolveDropsFrom roll i [] = Some []"
| "resolveDropsFrom roll i (d # ds) =
     (case roll i of
        None \<Rightarrow> None
      | Some r \<Rightarrow>
          (case resolveDropsFrom roll (Suc i) ds of
             None \<Rightarrow> None
           | Some rest \<Rightarrow> Some (if IncludesRoll (ucast r) d then (d, i) # rest else rest)))"

definition resolveMonsterLootDrops ::
  "hmac \<Rightarrow> u8 list \<Rightarrow> u64 \<Rightarrow> u64 \<Rightarrow> drop_entry list \<Rightarrow> (drop_entry \<times> nat) list option" where
  "resolveMonsterLootDrops H secret monsterID incarnation drops =
     resolveDropsFrom (\<lambda>i. monsterLootRoll H secret monsterLootDropRollDomain monsterID incarnation i
                             (ucast ChanceBasisPointsScale)) 0 drops"

section \<open>The lottery is proportional\<close>

definition total_damage :: "loot_candidate list \<Rightarrow> nat" where
  "total_damage cs = sum_list (map (\<lambda>c. unat (lk_damage c)) cs)"

text \<open>The reference: consecutive intervals of the tickets, as long as the damage.\<close>

fun interval_winner :: "loot_candidate list \<Rightarrow> nat \<Rightarrow> loot_candidate option" where
  "interval_winner [] k = None"
| "interval_winner (c # cs) k =
     (if k < unat (lk_damage c) then Some c else interval_winner cs (k - unat (lk_damage c)))"

lemma sumDamage_exact:
  "unat sumd + total_damage cs < 2 ^ 64 \<Longrightarrow> unat (sumDamage sumd cs) = unat sumd + total_damage cs"
proof (induction cs arbitrary: sumd)
  case (Cons c cs)
  then have b: "unat sumd + unat (lk_damage c) < 2 ^ 64" by (simp add: total_damage_def)
  then have "\<not> - 1 - sumd < lk_damage c" using overflow_guard [of sumd "lk_damage c"] by simp
  moreover have "unat (sumd + lk_damage c) = unat sumd + unat (lk_damage c)"
    using b by (intro unat_plus_no_overflow) simp
  ultimately show ?case using Cons by (simp add: total_damage_def)
qed (simp add: total_damage_def)

lemma selectFrom_interval:
  assumes "unat sumd = unat cumulative + total_damage cs" and "cumulative \<le> ticket" and "ticket < sumd"
  shows "selectFrom sumd cumulative ticket cs = interval_winner cs (unat ticket - unat cumulative)"
  using assms
proof (induction cs arbitrary: cumulative)
  case Nil
  then show ?case by (simp add: total_damage_def word_less_nat_alt word_le_nat_alt)
next
  case (Cons c cs)
  have t: "unat cumulative \<le> unat ticket" "unat ticket < unat sumd"
    using Cons.prems(2,3) by (simp_all add: word_less_nat_alt word_le_nat_alt)
  have split: "unat sumd = unat cumulative + unat (lk_damage c) + total_damage cs"
    using Cons.prems(1) by (simp add: total_damage_def)
  show ?case
  proof (cases "lk_damage c = 0")
    case True
    then show ?thesis using Cons.IH [OF _ Cons.prems(2,3)] split by simp
  next
    case False
    have "cumulative \<le> sumd" using t by (simp add: word_le_nat_alt)
    then have rest: "unat (sumd - cumulative) = unat (lk_damage c) + total_damage cs" using split by (simp add: unat_sub)
    show ?thesis
    proof (cases "sumd - cumulative \<le> lk_damage c")
      case True
      then have "total_damage cs = 0" using rest by (simp add: word_le_nat_alt)
      then have "unat ticket - unat cumulative < unat (lk_damage c)" using t split by linarith
      then show ?thesis using False True by simp
    next
      case more: False
      have "unat cumulative + unat (lk_damage c) < 2 ^ 64" using split u64_bound [of sumd] by simp
      then have step: "unat (cumulative + lk_damage c) = unat cumulative + unat (lk_damage c)"
        by (intro unat_plus_no_overflow) simp
      show ?thesis
      proof (cases "ticket < cumulative + lk_damage c")
        case True
        then have "unat ticket - unat cumulative < unat (lk_damage c)" using t step by (simp add: word_less_nat_alt)
        then show ?thesis using False more True by simp
      next
        case later: False
        then have le: "cumulative + lk_damage c \<le> ticket" by simp
        then have "\<not> unat ticket - unat cumulative < unat (lk_damage c)" using step by (simp add: word_le_nat_alt)
        then show ?thesis
          using False more later Cons.IH [OF _ le Cons.prems(3)] split step by (simp add: diff_diff_left)
      qed
    qed
  qed
qed

lemma interval_winner_mem: "interval_winner cs k = Some c \<Longrightarrow> c \<in> set cs \<and> k < total_damage cs"
proof (induction cs arbitrary: k)
  case (Cons x cs)
  show ?case
  proof (cases "k < unat (lk_damage x)")
    case False
    then have "interval_winner cs (k - unat (lk_damage x)) = Some c" using Cons.prems by simp
    from Cons.IH [OF this] False show ?thesis by (simp add: total_damage_def) linarith
  qed (use Cons.prems in \<open>simp add: total_damage_def\<close>)
qed simp

lemma interval_count:
  "distinct cs \<Longrightarrow> c \<in> set cs \<Longrightarrow> card {k. interval_winner cs k = Some c} = unat (lk_damage c)"
proof (induction cs)
  case (Cons x cs)
  define D where "D = unat (lk_damage x)"
  show ?case
  proof (cases "c = x")
    case True
    then have "interval_winner cs (k - D) \<noteq> Some c" for k using Cons.prems interval_winner_mem by fastforce
    then have "{k. interval_winner (x # cs) k = Some c} = {..<D}" using True by (auto simp: D_def)
    then show ?thesis using True by (simp add: D_def)
  next
    case False
    have "{k. interval_winner (x # cs) k = Some c} = (\<lambda>k. k + D) ` {k. interval_winner cs k = Some c}"
    proof (intro set_eqI iffI)
      fix k assume "k \<in> {k. interval_winner (x # cs) k = Some c}"
      then have "\<not> k < D" "interval_winner cs (k - D) = Some c" using False by (auto simp: D_def split: if_splits)
      then show "k \<in> (\<lambda>k. k + D) ` {k. interval_winner cs k = Some c}" by (intro image_eqI [of _ _ "k - D"]) auto
    qed (auto simp: D_def)
    then have "card {k. interval_winner (x # cs) k = Some c} = card {k. interval_winner cs k = Some c}"
      by (simp add: card_image)
    then show ?thesis using Cons False by simp
  qed
qed simp

lemma select_interval:
  assumes "total_damage cs < 2 ^ 64"
  shows "selectDamageWeighted cs ticket = interval_winner cs (unat ticket)"
    and "unat (monsterLootCandidateTotalDamage cs) = total_damage cs"
proof -
  define T where "T = monsterLootCandidateTotalDamage cs"
  show t: "unat (monsterLootCandidateTotalDamage cs) = total_damage cs"
    using sumDamage_exact [of 0 cs] assms by (simp add: monsterLootCandidateTotalDamage_def)
  show "selectDamageWeighted cs ticket = interval_winner cs (unat ticket)"
  proof (cases "T = 0 \<or> T \<le> ticket")
    case True
    then have "total_damage cs \<le> unat ticket" using t by (auto simp: T_def word_le_nat_alt)
    then have "interval_winner cs (unat ticket) = None" using interval_winner_mem
      by (metis leD not_Some_eq)
    then show ?thesis using True by (simp add: selectDamageWeighted_def T_def)
  next
    case False
    then have "\<not> (T = 0 \<or> T \<le> ticket)" "ticket < T" by auto
    then show ?thesis
      using selectFrom_interval [of T 0 cs ticket] t by (simp only: selectDamageWeighted_def T_def [symmetric] Let_def if_False) simp
  qed
qed

section \<open>The draws are unbiased\<close>

text \<open>A block of \<open>t\<close> consecutive numbers meets every remainder once, \<open>q\<close> blocks \<open>q\<close> times.\<close>

lemma block_count:
  assumes "0 < (t :: nat)"
  shows "card {n \<in> {a..<a + t}. P (n mod t)} = card {k. k < t \<and> P k}"
proof -
  have inj: "inj_on (\<lambda>n. n mod t) {a..<a + t}"
  proof (rule inj_onI)
    fix m n assume m: "m \<in> {a..<a + t}" and n: "n \<in> {a..<a + t}" and e: "m mod t = n mod t"
    have *: "x = y" if "x \<le> y" "y < x + t" "x mod t = y mod t" for x y :: nat
    proof -
      have "t dvd y - x" using that by (metis mod_eq_dvd_iff_nat)
      moreover have "y - x < t" using that by simp
      ultimately show ?thesis using that(1) nat_dvd_not_less by fastforce
    qed
    show "m = n"
    proof (cases "m \<le> n")
      case True
      show ?thesis by (rule * [OF True _ e]) (use m n in simp)
    next
      case False
      then have "n \<le> m" by simp
      from * [OF this _ e [symmetric]] show ?thesis using m n by simp
    qed
  qed
  have "(\<lambda>n. n mod t) ` {a..<a + t} = {..<t}"
    using inj assms by (intro card_subset_eq) (auto simp: card_image)
  note whole = this
  have eq: "{k. k < t \<and> P k} = (\<lambda>n. n mod t) ` {n \<in> {a..<a + t}. P (n mod t)}"
  proof (intro set_eqI iffI)
    fix k assume k: "k \<in> {k. k < t \<and> P k}"
    then have "k \<in> (\<lambda>n. n mod t) ` {a..<a + t}" by (simp add: whole)
    then obtain n where "n \<in> {a..<a + t}" "k = n mod t" by blast
    then show "k \<in> (\<lambda>n. n mod t) ` {n \<in> {a..<a + t}. P (n mod t)}" using k by blast
  qed (use assms in auto)
  have "inj_on (\<lambda>n. n mod t) {n \<in> {a..<a + t}. P (n mod t)}" by (rule inj_on_subset [OF inj]) auto
  then show ?thesis unfolding eq by (simp add: card_image)
qed

lemma blocks_count:
  assumes "0 < (t :: nat)"
  shows "card {n \<in> {a..<a + q * t}. P (n mod t)} = q * card {k. k < t \<and> P k}"
proof (induction q)
  case (Suc q)
  have "{n \<in> {a..<a + Suc q * t}. P (n mod t)} =
      {n \<in> {a..<a + q * t}. P (n mod t)} \<union> {n \<in> {a + q * t..<a + q * t + t}. P (n mod t)}"
    by (auto simp: algebra_simps)
  moreover have "{n \<in> {a..<a + q * t}. P (n mod t)} \<inter> {n \<in> {a + q * t..<a + q * t + t}. P (n mod t)} = {}" by auto
  ultimately show ?case using Suc block_count [OF assms, of "a + q * t" P] by (simp add: card_Un_disjoint)
qed simp

lemma threshold_exact:
  assumes "(sumd :: u64) \<noteq> 0"
  shows "unat (- sumd mod sumd) = 2 ^ 64 mod unat sumd"
proof -
  have t: "0 < unat sumd" using assms by (simp add: unat_gt_0)
  have "unat (- 1 - sumd + 1) = unat (- 1 - sumd) + 1"
    using t u64_bound [of sumd] by (subst unat_plus_no_overflow) (simp_all add: unat_max_minus)
  then have "unat (- sumd) = 2 ^ 64 - unat sumd" using t u64_bound [of sumd] by (simp add: unat_max_minus)
  then have "unat (- sumd mod sumd) = (2 ^ 64 - unat sumd) mod unat sumd" by (simp add: unat_mod)
  also have "\<dots> = 2 ^ 64 mod unat sumd" using u64_bound [of sumd] by (metis le_mod_geq less_imp_le)
  finally show ?thesis .
qed

lemma accepted_count:
  assumes "(sumd :: u64) \<noteq> 0"
  shows "card {s :: u64. - sumd mod sumd \<le> s \<and> P (unat s mod unat sumd)} =
    2 ^ 64 div unat sumd * card {k. k < unat sumd \<and> P k}"
proof -
  define t where "t = unat sumd"
  define a where "a = 2 ^ 64 mod t"
  have t: "0 < t" using assms by (simp add: t_def unat_gt_0)
  have len: "a + 2 ^ 64 div t * t = (2 ^ 64 :: nat)" by (simp add: a_def)
  have inj: "inj_on unat {s :: u64. - sumd mod sumd \<le> s \<and> P (unat s mod t)}"
    by (rule inj_onI) (simp add: word_unat_eq_iff)
  have "unat ` {s :: u64. - sumd mod sumd \<le> s \<and> P (unat s mod t)} = {n \<in> {a..<a + 2 ^ 64 div t * t}. P (n mod t)}"
  proof (intro set_eqI iffI)
    fix n assume "n \<in> unat ` {s :: u64. - sumd mod sumd \<le> s \<and> P (unat s mod t)}"
    then show "n \<in> {n \<in> {a..<a + 2 ^ 64 div t * t}. P (n mod t)}"
      using u64_bound by (auto simp: len word_le_nat_alt threshold_exact [OF assms] a_def t_def)
  next
    fix n assume n: "n \<in> {n \<in> {a..<a + 2 ^ 64 div t * t}. P (n mod t)}"
    then have "n < 2 ^ 64" using len by simp
    then have "unat (of_nat n :: u64) = n" by (simp add: unat_of_nat)
    then show "n \<in> unat ` {s :: u64. - sumd mod sumd \<le> s \<and> P (unat s mod t)}"
      using n by (intro image_eqI [of _ _ "of_nat n"])
        (auto simp: word_le_nat_alt threshold_exact [OF assms] a_def t_def)
  qed
  then have "card {s :: u64. - sumd mod sumd \<le> s \<and> P (unat s mod t)} = card {n \<in> {a..<a + 2 ^ 64 div t * t}. P (n mod t)}"
    using card_image [OF inj] by simp
  then show ?thesis using blocks_count [OF t] by (simp add: t_def)
qed

section \<open>What a draw returns\<close>

text \<open>A draw returns the remainder of the first accepted sample, if there is one.\<close>

lemma rollFrom_first:
  "threshold \<le> sample (counter + of_nat n) \<Longrightarrow> (\<And>j. j < n \<Longrightarrow> \<not> threshold \<le> sample (counter + of_nat j)) \<Longrightarrow>
     rollFrom sample threshold sumd counter = Some (sample (counter + of_nat n) mod sumd)"
proof (induction n arbitrary: counter)
  case (Suc n)
  have "\<not> threshold \<le> sample counter" using Suc.prems(2) [of 0] by simp
  moreover have "rollFrom sample threshold sumd (counter + 1) = Some (sample (counter + 1 + of_nat n) mod sumd)"
  proof (rule Suc.IH)
    show "threshold \<le> sample (counter + 1 + of_nat n)" using Suc.prems(1) by (simp add: ac_simps)
    show "\<not> threshold \<le> sample (counter + 1 + of_nat j)" if "j < n" for j
      using Suc.prems(2) [of "Suc j"] that by (simp add: ac_simps)
  qed
  ultimately show ?case by (subst rollFrom.simps) (simp add: ac_simps)
qed (simp add: rollFrom.simps)

lemma rollFrom_returned:
  assumes "rollFrom sample threshold sumd counter = Some r"
  shows "\<exists>n. threshold \<le> sample (counter + of_nat n) \<and> r = sample (counter + of_nat n) mod sumd \<and>
    (\<forall>j < n. \<not> threshold \<le> sample (counter + of_nat j))"
proof (rule rollFrom.raw_induct
    [where P = "\<lambda>sample threshold sumd counter r. \<exists>n. threshold \<le> sample (counter + of_nat n) \<and>
       r = sample (counter + of_nat n) mod sumd \<and> (\<forall>j < n. \<not> threshold \<le> sample (counter + of_nat j))", OF _ assms])
  fix roll :: "(u64 \<Rightarrow> u64) \<Rightarrow> u64 \<Rightarrow> u64 \<Rightarrow> u64 \<Rightarrow> u64 option" and sample threshold sumd counter r
  assume ih: "\<And>sample threshold sumd counter r. roll sample threshold sumd counter = Some r \<Longrightarrow>
      \<exists>n. threshold \<le> sample (counter + of_nat n) \<and> r = sample (counter + of_nat n) mod sumd \<and>
        (\<forall>j < n. \<not> threshold \<le> sample (counter + of_nat j))"
    and eq: "(if threshold \<le> sample counter then Some (sample counter mod sumd)
      else roll sample threshold sumd (counter + 1)) = Some r"
  show "\<exists>n. threshold \<le> sample (counter + of_nat n) \<and> r = sample (counter + of_nat n) mod sumd \<and>
      (\<forall>j < n. \<not> threshold \<le> sample (counter + of_nat j))"
  proof (cases "threshold \<le> sample counter")
    case True
    then show ?thesis using eq by (intro exI [of _ 0]) simp
  next
    case False
    then have "roll sample threshold sumd (counter + 1) = Some r" using eq by simp
    from ih [OF this] obtain n where n: "threshold \<le> sample (counter + 1 + of_nat n)" "r = sample (counter + 1 + of_nat n) mod sumd"
      "\<And>j. j < n \<Longrightarrow> \<not> threshold \<le> sample (counter + 1 + of_nat j)" by blast
    have "\<not> threshold \<le> sample (counter + of_nat j)" if "j < Suc n" for j
      using that n(3) [of "j - 1"] False by (cases j) (simp_all add: ac_simps)
    then show ?thesis using n(1,2) by (intro exI [of _ "Suc n"]) (simp add: ac_simps)
  qed
qed

lemma rollFrom_iff:
  "rollFrom sample threshold sumd 0 = Some r \<longleftrightarrow>
     (\<exists>n. threshold \<le> sample (of_nat n) \<and> r = sample (of_nat n) mod sumd \<and> (\<forall>j < n. \<not> threshold \<le> sample (of_nat j)))"
  using rollFrom_first [of threshold sample 0 _ sumd] rollFrom_returned [of sample threshold sumd 0 r] by auto

text \<open>\<open>binary.LittleEndian\<close> reads what it wrote.\<close>

lemma le_byte: "256 * drop_bit 8 v + ucast (ucast v :: u8) = (v :: u64)"
proof -
  have "ucast (ucast v :: u8) = take_bit 8 v" by (rule bit_word_eqI) (auto simp: bit_simps)
  then show ?thesis using bits_ident [of 8 v] by (simp add: push_bit_eq_mult mult.commute)
qed

lemma leUint64_put: "leUint64 (lePutUint64 v) = v"
proof -
  have next_byte: "256 * drop_bit (n + 8) v + ucast (ucast (drop_bit n v) :: u8) = drop_bit n v" for n
    using le_byte [of "drop_bit n v"] by (simp add: drop_bit_drop_bit add.commute)
  have last_byte: "ucast (ucast (drop_bit 56 v) :: u8) = drop_bit 56 v"
    by (rule bit_word_eqI) (auto simp: bit_simps dest: bit_imp_le_length)
  have bytes: "lePutUint64 v = [ucast v, ucast (drop_bit 8 v), ucast (drop_bit 16 v), ucast (drop_bit 24 v),
      ucast (drop_bit 32 v), ucast (drop_bit 40 v), ucast (drop_bit 48 v), ucast (drop_bit 56 v)]"
    by (simp add: lePutUint64_def upt_rec)
  show ?thesis
    using next_byte [of 0] next_byte [of 8] next_byte [of 16] next_byte [of 24] next_byte [of 32] next_byte [of 40] next_byte [of 48]
    by (simp add: leUint64_def bytes last_byte)
qed

text \<open>
  To ask what a draw makes of one sample \<open>s\<close>, let every digest begin with \<open>s\<close>: the draw returns then
  exactly when it accepts \<open>s\<close>.
\<close>

definition always_answers :: "u64 \<Rightarrow> hmac" where
  "always_answers s = (\<lambda>_ _. lePutUint64 s)"

lemma roll_one_sample:
  assumes "sumd \<noteq> 0"
  shows "monsterLootRoll (always_answers s) secret domain m i d sumd = (if - sumd mod sumd \<le> s then Some (s mod sumd) else None)"
proof -
  define r where "r = rollFrom (\<lambda>_. s) (- sumd mod sumd) sumd 0"
  have sample: "monsterLootSample (always_answers s) secret domain m i d = (\<lambda>_. s)"
    by (simp add: monsterLootSample_def always_answers_def leUint64_put fun_eq_iff)
  have "r = (if - sumd mod sumd \<le> s then Some (s mod sumd) else None)"
  proof (cases r)
    case None
    then have "r \<noteq> Some (s mod sumd)" by simp
    then have "\<not> - sumd mod sumd \<le> s" unfolding r_def rollFrom_iff by (auto dest!: spec [of _ 0])
    then show ?thesis using None by simp
  next
    case (Some k)
    then have "- sumd mod sumd \<le> s \<and> k = s mod sumd" unfolding r_def rollFrom_iff by blast
    then show ?thesis using Some by simp
  qed
  then show ?thesis using assms by (simp add: monsterLootRoll_def sample r_def)
qed

lemma roll_first_accepted:
  assumes "sumd \<noteq> 0"
  shows "monsterLootRoll H secret domain m i d sumd = Some r \<longleftrightarrow>
    (\<exists>n. monsterLootRoll (always_answers (monsterLootSample H secret domain m i d (of_nat n))) secret domain m i d sumd = Some r \<and>
      (\<forall>j < n. monsterLootRoll (always_answers (monsterLootSample H secret domain m i d (of_nat j))) secret domain m i d sumd = None))"
  unfolding roll_one_sample [OF assms] using assms
  by (simp add: monsterLootRoll_def rollFrom_iff) (metis option.distinct(1) option.inject)

text \<open>More than half of the samples are accepted.\<close>

lemma accepted_half:
  assumes "(sumd :: u64) \<noteq> 0"
  shows "2 ^ 63 < card {s. - sumd mod sumd \<le> s}"
proof -
  define t where "t = unat sumd"
  have t: "0 < t" "t < 2 ^ 64" using assms u64_bound [of sumd] by (simp_all add: t_def unat_gt_0)
  define q where "q = 2 ^ 64 div t * t"
  have "card {s. - sumd mod sumd \<le> s} = q"
    using accepted_count [OF assms, of "\<lambda>_. True"] by (simp add: t_def q_def)
  moreover have "2 ^ 64 mod t < t" using t(1) by simp
  moreover have "q + 2 ^ 64 mod t = 2 * 2 ^ 63" by (simp add: q_def)
  moreover have "t \<le> q"
  proof -
    have "1 \<le> 2 ^ 64 div t" using t by (simp add: Suc_le_eq div_greater_zero_iff)
    then have "1 * t \<le> q" unfolding q_def by (rule mult_le_mono1)
    then show ?thesis by simp
  qed
  ultimately show ?thesis by linarith
qed

text \<open>One authored drop, over the samples of its draw.\<close>

lemma drop_shares:
  assumes "de_ChanceBasisPoints d \<le> 10000"
  shows "card {s. resolveMonsterLootDrops (always_answers s) secret m i [d] = Some [(d, 0)]} * 10000 =
      unat (de_ChanceBasisPoints d) * card {s. resolveMonsterLootDrops (always_answers s) secret m i [d] \<noteq> None}"
    and "2 ^ 63 < card {s. resolveMonsterLootDrops (always_answers s) secret m i [d] \<noteq> None}"
proof -
  have scale: "(ucast ChanceBasisPointsScale :: u64) = 10000" by (simp add: ChanceBasisPointsScale_def)
  have k: "IncludesRoll (ucast (s mod 10000)) d \<longleftrightarrow> unat s mod 10000 < unat (de_ChanceBasisPoints d)" for s :: u64
  proof -
    have "unat (ucast (s mod 10000) :: u16) = unat s mod 10000"
      by (simp add: unsigned_ucast_eq unsigned_take_bit_eq unat_mod take_bit_nat_eq_self)
    then show ?thesis by (auto simp: IncludesRoll_def word_less_nat_alt)
  qed
  have roll: "monsterLootRoll (always_answers s) secret dom m i 0 10000 = (if 1616 \<le> s then Some (s mod 10000) else None)" for s dom
    using roll_one_sample [of 10000] by simp
  have drops: "{s. resolveMonsterLootDrops (always_answers s) secret m i [d] = Some [(d, 0)]} =
      {s. 1616 \<le> s \<and> unat s mod 10000 < unat (de_ChanceBasisPoints d)}"
    "{s. resolveMonsterLootDrops (always_answers s) secret m i [d] \<noteq> None} = {s. 1616 \<le> s}"
    by (auto simp: resolveMonsterLootDrops_def scale roll k split: if_splits)
  have "unat (de_ChanceBasisPoints d) \<le> 10000" using assms by (simp add: word_le_nat_alt)
  then have "{k. k < 10000 \<and> k < unat (de_ChanceBasisPoints d)} = {..<unat (de_ChanceBasisPoints d)}" by auto
  then have "card {s :: u64. 1616 \<le> s \<and> unat s mod 10000 < unat (de_ChanceBasisPoints d)} =
      2 ^ 64 div 10000 * unat (de_ChanceBasisPoints d)"
    using accepted_count [of 10000 "\<lambda>k. k < unat (de_ChanceBasisPoints d)"] by simp
  moreover have "card {s :: u64. 1616 \<le> s} = 2 ^ 64 div 10000 * 10000"
    using accepted_count [of 10000 "\<lambda>_. True"] by simp
  ultimately show "card {s. resolveMonsterLootDrops (always_answers s) secret m i [d] = Some [(d, 0)]} * 10000 =
      unat (de_ChanceBasisPoints d) * card {s. resolveMonsterLootDrops (always_answers s) secret m i [d] \<noteq> None}"
    unfolding drops by (simp only: ac_simps)
  show "2 ^ 63 < card {s. resolveMonsterLootDrops (always_answers s) secret m i [d] \<noteq> None}"
    unfolding drops using accepted_half [of 10000] by simp
qed

text \<open>
  C19. The loot is drawn fairly. Of the 64 bit samples that a ticket draw accepts, the share with which a
  candidate wins the lottery is exactly its share of the recorded damage, for any distinct candidates
  whose damage does not add up to more than 64 bits; of the samples that the draw of an authored drop
  accepts, the share with which the drop is included is exactly its chance in basis points. Each draw
  accepts more than half of the samples, and for any keyed hash it gives what the first accepted of its
  samples gives, or never returns when none is accepted.
\<close>

theorem loot_draws_fair:
  assumes "distinct cs" and "c \<in> set cs" and "total_damage cs < 2 ^ 64" and "0 < total_damage cs"
    and "T = monsterLootCandidateTotalDamage cs" and "de_ChanceBasisPoints d \<le> 10000"
  shows "card {s. \<exists>t. monsterLootTicket (always_answers s) secret m i ix T = Some t \<and> selectDamageWeighted cs t = Some c} *
      total_damage cs =
      unat (lk_damage c) * card {s. monsterLootTicket (always_answers s) secret m i ix T \<noteq> None} \<and>
    card {s. resolveMonsterLootDrops (always_answers s) secret m i [d] = Some [(d, 0)]} * 10000 =
      unat (de_ChanceBasisPoints d) * card {s. resolveMonsterLootDrops (always_answers s) secret m i [d] \<noteq> None} \<and>
    2 ^ 63 < card {s. monsterLootTicket (always_answers s) secret m i ix T \<noteq> None} \<and>
    2 ^ 63 < card {s. resolveMonsterLootDrops (always_answers s) secret m i [d] \<noteq> None} \<and>
    (U \<noteq> 0 \<longrightarrow> (monsterLootRoll H secret domain m i ix U = Some r \<longleftrightarrow>
      (\<exists>n. monsterLootRoll (always_answers (monsterLootSample H secret domain m i ix (of_nat n))) secret domain m i ix U = Some r \<and>
        (\<forall>j < n. monsterLootRoll (always_answers (monsterLootSample H secret domain m i ix (of_nat j))) secret domain m i ix U = None))))"
proof -
  note sel = select_interval [OF assms(3)]
  have T: "unat T = total_damage cs" by (simp add: assms(5) sel)
  then have T0: "T \<noteq> 0" using assms(4) by auto
  have ticket: "{s. \<exists>t. monsterLootTicket (always_answers s) secret m i ix T = Some t \<and> selectDamageWeighted cs t = Some c} =
      {s. - T mod T \<le> s \<and> interval_winner cs (unat s mod unat T) = Some c}"
    "{s. monsterLootTicket (always_answers s) secret m i ix T \<noteq> None} = {s. - T mod T \<le> s}"
    by (auto simp: monsterLootTicket_def roll_one_sample [OF T0] sel unat_mod)
  have "{k. k < unat T \<and> interval_winner cs k = Some c} = {k. interval_winner cs k = Some c}"
    using interval_winner_mem by (auto simp: T)
  then have wins: "card {s. - T mod T \<le> s \<and> interval_winner cs (unat s mod unat T) = Some c} =
      2 ^ 64 div total_damage cs * unat (lk_damage c)"
    using accepted_count [OF T0, of "\<lambda>k. interval_winner cs k = Some c"] interval_count [OF assms(1,2)] by (simp add: T)
  have all: "card {s. - T mod T \<le> s} = 2 ^ 64 div total_damage cs * total_damage cs"
    using accepted_count [OF T0, of "\<lambda>_. True"] by (simp add: T)
  note drop = drop_shares [OF assms(6), of secret m i]
  have "card {s. \<exists>t. monsterLootTicket (always_answers s) secret m i ix T = Some t \<and> selectDamageWeighted cs t = Some c} * total_damage cs =
      unat (lk_damage c) * card {s. monsterLootTicket (always_answers s) secret m i ix T \<noteq> None}"
    unfolding ticket wins all by (simp only: ac_simps)
  moreover have "2 ^ 63 < card {s. monsterLootTicket (always_answers s) secret m i ix T \<noteq> None}"
    unfolding ticket by (rule accepted_half [OF T0])
  ultimately show ?thesis using drop roll_first_accepted by blast
qed

text \<open>
  A draw ends. Once the stream of samples holds one that is accepted, the draw returns a number below
  the total: the remainder of the first accepted sample.
\<close>

theorem loot_draw_returns:
  assumes "sumd \<noteq> 0" and "- sumd mod sumd \<le> monsterLootSample H secret domain m i d k"
  shows "\<exists>n. monsterLootRoll H secret domain m i d sumd =
      Some (monsterLootSample H secret domain m i d (of_nat n) mod sumd) \<and>
    monsterLootSample H secret domain m i d (of_nat n) mod sumd < sumd \<and>
    - sumd mod sumd \<le> monsterLootSample H secret domain m i d (of_nat n) \<and>
    (\<forall>j < n. monsterLootSample H secret domain m i d (of_nat j) < - sumd mod sumd)"
proof -
  define f where "f = monsterLootSample H secret domain m i d"
  define th where "th = - sumd mod sumd"
  define n where "n = (LEAST j. th \<le> f (of_nat j))"
  have "th \<le> f (of_nat (unat k))" using assms(2) by (simp add: th_def f_def)
  then have hit: "th \<le> f (of_nat n)" unfolding n_def by (rule LeastI)
  have early: "f (of_nat j) < th" if "j < n" for j using not_less_Least [of j "\<lambda>j. th \<le> f (of_nat j)"] that by (simp add: n_def)
  then have "rollFrom f th sumd 0 = Some (f (of_nat n) mod sumd)" using hit rollFrom_first [of th f 0 n sumd] by (simp add: not_le)
  then have roll: "monsterLootRoll H secret domain m i d sumd = Some (f (of_nat n) mod sumd)"
    using assms(1) by (simp add: monsterLootRoll_def f_def th_def)
  have "0 < unat sumd" using assms(1) by (simp add: unat_gt_0)
  then have "f (of_nat n) mod sumd < sumd" by (simp add: word_less_nat_alt unat_mod)
  then show ?thesis using roll hit early by (intro exI [of _ n]) (simp add: f_def th_def)
qed

section \<open>Witnesses\<close>

definition sample_shares :: "loot_candidate list" where
  "sample_shares = [\<lparr>lk_sessionID = 4, lk_characterID = ''a'', lk_damage = 70\<rparr>, \<lparr>lk_sessionID = 9, lk_characterID = ''b'', lk_damage = 30\<rparr>]"

theorem loot_draws_fair_witness:
  "card {s. \<exists>t. monsterLootTicket (always_answers s) [] 7 1 0 100 = Some t \<and>
       selectDamageWeighted sample_shares t = Some (sample_shares ! 1)} * 100 =
     30 * card {s. monsterLootTicket (always_answers s) [] 7 1 0 100 \<noteq> None}"
proof -
  have t: "total_damage sample_shares = 100" "monsterLootCandidateTotalDamage sample_shares = 100"
    "sample_shares ! 1 \<in> set sample_shares" "distinct sample_shares" "unat (lk_damage (sample_shares ! 1)) = 30"
    by (simp_all add: sample_shares_def total_damage_def monsterLootCandidateTotalDamage_def)
  have "de_ChanceBasisPoints \<lparr>de_ItemArchetypeID = ''pelt'', de_ChanceBasisPoints = 2500\<rparr> \<le> 10000" by simp
  from loot_draws_fair [OF t(4,3) _ _ t(2) [symmetric] this, where secret = "[]" and m = 7 and i = 1 and ix = 0]
  show ?thesis unfolding t by simp
qed

theorem loot_draw_returns_witness:
  "\<exists>r. monsterLootRoll (\<lambda>_ _. [1, 2, 0, 0, 0, 0, 0, 7]) [] monsterLootDropRollDomain 7 1 0 10000 = Some r \<and> r < 10000"
proof -
  have "- (10000 :: u64) mod 10000 \<le> monsterLootSample (\<lambda>_ _. [1, 2, 0, 0, 0, 0, 0, 7]) [] monsterLootDropRollDomain 7 1 0 0"
    by code_simp
  from loot_draw_returns [OF _ this] show ?thesis by fastforce
qed

end
