(* ===== verification/Session.thy ===== *)
theory Session
  imports Lanes CharacterIdentity Float32
begin

text \<open>
  Sessions (\<open>internal/session/session.go\<close>): the sequence numbers of a session, the bounded queue
  behind its connection and the registry of active sessions. The code passes sessions by pointer:
  a session is a reference here, and what it points to is looked up in a heap.
\<close>

section \<open>Connections\<close>

datatype session_error =
  ErrInvalidSession | ErrSessionExists | ErrSessionNotFound | ErrConnectionClosed | ErrBackpressure |
  ErrStaleInput | ErrStaleAction

datatype delivery = DeliveryUnknown | DeliveryReliableOrdered | DeliveryRealtimeSequenced

record 'm envelope =
  ev_Delivery :: delivery
  ev_Sequence :: u32
  ev_ServerTick :: u64
  ev_Message :: 'm

record 'm queue_connection =
  qc_reliableCapacity :: nat
  qc_realtimeCapacity :: nat
  qc_reliable :: "'m envelope list"
  qc_realtime :: "'m envelope list"
  qc_done :: bool

text \<open>The constructor panics on a capacity that is not positive.\<close>

definition NewQueueConnection :: "int \<Rightarrow> int \<Rightarrow> 'm queue_connection option" where
  "NewQueueConnection reliableCapacity realtimeCapacity =
     (if reliableCapacity \<le> 0 \<or> realtimeCapacity \<le> 0 then None
      else Some \<lparr>qc_reliableCapacity = nat reliableCapacity, qc_realtimeCapacity = nat realtimeCapacity,
                 qc_reliable = [], qc_realtime = [], qc_done = False\<rparr>)"

definition TrySend ::
  "'m envelope \<Rightarrow> 'm queue_connection \<Rightarrow> session_error option \<times> 'm queue_connection" where
  "TrySend e c =
     (if qc_done c then (Some ErrConnectionClosed, c)
      else case ev_Delivery e of
             DeliveryReliableOrdered \<Rightarrow>
               if length (qc_reliable c) < qc_reliableCapacity c
               then (None, c\<lparr>qc_reliable := qc_reliable c @ [e]\<rparr>) else (Some ErrBackpressure, c)
           | DeliveryRealtimeSequenced \<Rightarrow>
               if length (qc_realtime c) < qc_realtimeCapacity c
               then (None, c\<lparr>qc_realtime := qc_realtime c @ [e]\<rparr>) else (Some ErrBackpressure, c)
           | DeliveryUnknown \<Rightarrow> (Some ErrInvalidSession, c))"

definition connection_Close :: "'m queue_connection \<Rightarrow> 'm queue_connection" where
  "connection_Close c = c\<lparr>qc_done := True\<rparr>"

text \<open>The network writer receives from one of the two channels.\<close>

definition receiveReliable :: "'m queue_connection \<Rightarrow> 'm envelope option \<times> 'm queue_connection" where
  "receiveReliable c =
     (case qc_reliable c of [] \<Rightarrow> (None, c) | e # es \<Rightarrow> (Some e, c\<lparr>qc_reliable := es\<rparr>))"

definition receiveRealtime :: "'m queue_connection \<Rightarrow> 'm envelope option \<times> 'm queue_connection" where
  "receiveRealtime c =
     (case qc_realtime c of [] \<Rightarrow> (None, c) | e # es \<Rightarrow> (Some e, c\<lparr>qc_realtime := es\<rparr>))"

text \<open>
  What the world owner relies on when it sends: a failed send changes nothing, and a closed
  connection accepts nothing and stays closed.
\<close>

locale session_connection =
  fixes send :: "'e \<Rightarrow> 'c \<Rightarrow> session_error option \<times> 'c"
    and close :: "'c \<Rightarrow> 'c"
    and closed :: "'c \<Rightarrow> bool"
    and accepted :: "'c \<Rightarrow> 'e list"
  assumes send_failed: "fst (send e c) \<noteq> None \<Longrightarrow> snd (send e c) = c"
    and send_ok: "fst (send e c) = None \<Longrightarrow> mset (accepted (snd (send e c))) = mset (accepted c) + {#e#}"
    and send_closed: "closed c \<Longrightarrow> fst (send e c) = Some ErrConnectionClosed"
    and close_closes: "closed (close c)" "accepted (close c) = accepted c"
begin

text \<open>Sends a list in order until the first failure; what is left is returned.\<close>

fun send_all :: "'e list \<Rightarrow> 'c \<Rightarrow> 'e list \<times> 'c" where
  "send_all [] c = ([], c)"
| "send_all (e # es) c = (case send e c of (None, c') \<Rightarrow> send_all es c' | (Some _, _) \<Rightarrow> (e # es, c))"

lemma send_all_conserves:
  "send_all es c = (rest, c') \<Longrightarrow> mset (accepted c') + mset rest = mset (accepted c) + mset es"
proof (induction es arbitrary: c)
  case (Cons e es)
  then show ?case using send_ok [of e c] by (cases "send e c") (auto split: option.splits)
qed simp

lemma send_all_suffix: "send_all es c = (rest, c') \<Longrightarrow> suffix rest es"
  by (induction es arbitrary: c) (auto split: prod.splits option.splits intro: suffix_ConsI)

lemma send_all_closed: "closed c \<Longrightarrow> send_all es c = (es, c)"
proof (cases es)
  case (Cons e es')
  assume "closed c"
  then have "send e c = (Some ErrConnectionClosed, c)"
    using send_closed [of c e] send_failed [of e c] by (metis option.distinct(1) prod.collapse)
  with Cons show ?thesis by simp
qed simp

lemma close_silences: "send_all es (close c) = (es, close c)"
  by (rule send_all_closed) (rule close_closes)

end

definition queued :: "'m queue_connection \<Rightarrow> 'm envelope list" where
  "queued c = qc_reliable c @ qc_realtime c"

interpretation queue_conn: session_connection TrySend connection_Close qc_done queued
  by unfold_locales (auto simp: TrySend_def queued_def connection_Close_def split: delivery.splits if_splits)

section \<open>The queue delivers in order\<close>

datatype 'm connection_op = CSend "'m envelope" | CReceiveReliable | CReceiveRealtime | CClose

text \<open>One operation, with the envelope it accepted and the one it handed to the writer.\<close>

fun connection_step ::
  "'m connection_op \<Rightarrow> 'm queue_connection \<Rightarrow> ('m envelope option \<times> 'm envelope option) \<times> 'm queue_connection" where
  "connection_step (CSend e) c =
     (case TrySend e c of (None, c') \<Rightarrow> ((Some e, None), c') | (Some _, c') \<Rightarrow> ((None, None), c'))"
| "connection_step CReceiveReliable c = (case receiveReliable c of (x, c') \<Rightarrow> ((None, x), c'))"
| "connection_step CReceiveRealtime c = (case receiveRealtime c of (x, c') \<Rightarrow> ((None, x), c'))"
| "connection_step CClose c = ((None, None), connection_Close c)"

definition connection_inv :: "'m queue_connection \<Rightarrow> bool" where
  "connection_inv c =
     (length (qc_reliable c) \<le> qc_reliableCapacity c \<and> length (qc_realtime c) \<le> qc_realtimeCapacity c \<and>
      (\<forall>e \<in> set (qc_reliable c). ev_Delivery e = DeliveryReliableOrdered) \<and>
      (\<forall>e \<in> set (qc_realtime c). ev_Delivery e = DeliveryRealtimeSequenced))"

abbreviation lane :: "delivery \<Rightarrow> 'm envelope list \<Rightarrow> 'm envelope list" where
  "lane d \<equiv> filter (\<lambda>e. ev_Delivery e = d)"

abbreviation lane_step ::
  "delivery \<Rightarrow> 'm connection_op \<Rightarrow> 'm queue_connection \<Rightarrow> ('m envelope list \<times> 'm envelope list) \<times> 'm queue_connection" where
  "lane_step d x c \<equiv>
     (case connection_step x c of ((a, h), c') \<Rightarrow> ((lane d (map the (filter (\<lambda>y. y \<noteq> None) [a])),
        lane d (map the (filter (\<lambda>y. y \<noteq> None) [h]))), c'))"

interpretation reliable_lane: fifo_lane "lane_step DeliveryReliableOrdered" connection_inv qc_reliable
  by unfold_locales
    (rename_tac c x a d c', case_tac x; auto simp: connection_inv_def TrySend_def receiveReliable_def receiveRealtime_def
      connection_Close_def split: delivery.splits if_splits list.splits prod.splits option.splits)+

interpretation realtime_lane: fifo_lane "lane_step DeliveryRealtimeSequenced" connection_inv qc_realtime
  by unfold_locales
    (rename_tac c x a d c', case_tac x; auto simp: connection_inv_def TrySend_def receiveReliable_def receiveRealtime_def
      connection_Close_def split: delivery.splits if_splits list.splits prod.splits option.splits)+

text \<open>A closed connection accepts nothing any more; what it holds can still be received.\<close>

lemma closed_accepts_nothing: "qc_done c \<Longrightarrow> connection_step x c = ((a, d), c') \<Longrightarrow> a = None \<and> qc_done c'"
  by (cases x) (auto simp: TrySend_def receiveReliable_def receiveRealtime_def connection_Close_def
      split: list.splits)

lemma NewQueueConnection_inv: "NewQueueConnection m n = Some c \<Longrightarrow> connection_inv c \<and> queued c = [] \<and> \<not> qc_done c"
  by (auto simp: NewQueueConnection_def connection_inv_def queued_def split: if_splits)

section \<open>A session\<close>

record session =
  se_ID :: u64
  se_EntityID :: entity_id
  se_CharacterIdentity :: binding
  se_AOIRadius :: f32
  se_connection :: nat
  se_lastProcessedInputSequence :: u32
  se_lastProcessedActionSequence :: u32
  se_nextReliableSequence :: u32
  se_nextRealtimeSequence :: u32

text \<open>A connection is an interface value: a reference, or nil.\<close>

definition NewWithCharacterIdentity ::
  "u64 \<Rightarrow> entity_id \<Rightarrow> binding \<Rightarrow> f32 \<Rightarrow> nat option \<Rightarrow> session_error + session" where
  "NewWithCharacterIdentity i entityID identity aoiRadius conn =
     (case conn of
        None \<Rightarrow> Inl ErrInvalidSession
      | Some c \<Rightarrow>
          if i = 0 \<or> entityID = 0 \<or> \<not> binding_Valid identity \<or> f32_leq aoiRadius 0 then Inl ErrInvalidSession
          else Inr \<lparr>se_ID = i, se_EntityID = entityID, se_CharacterIdentity = identity, se_AOIRadius = aoiRadius,
                    se_connection = c, se_lastProcessedInputSequence = 0, se_lastProcessedActionSequence = 0,
                    se_nextReliableSequence = 0, se_nextRealtimeSequence = 0\<rparr>)"

definition session_New ::
  "u8 list option \<Rightarrow> u64 \<Rightarrow> entity_id \<Rightarrow> f32 \<Rightarrow> nat option \<Rightarrow> (identity_error + session_error) + session" where
  "session_New drawn i entityID aoiRadius conn =
     (case NewEphemeral drawn of
        Inl e \<Rightarrow> Inl (Inl e)
      | Inr identity \<Rightarrow>
          (case NewWithCharacterIdentity i entityID identity aoiRadius conn of
             Inl e \<Rightarrow> Inl (Inr e) | Inr s \<Rightarrow> Inr s))"

definition ValidateInputSequence :: "u32 \<Rightarrow> session \<Rightarrow> session_error option" where
  "ValidateInputSequence n s = (if n \<le> se_lastProcessedInputSequence s then Some ErrStaleInput else None)"

definition MarkProcessedInput :: "u32 \<Rightarrow> session \<Rightarrow> session" where
  "MarkProcessedInput n s =
     (if se_lastProcessedInputSequence s < n then s\<lparr>se_lastProcessedInputSequence := n\<rparr> else s)"

definition ValidateActionSequence :: "u32 \<Rightarrow> session \<Rightarrow> session_error option" where
  "ValidateActionSequence n s = (if n \<le> se_lastProcessedActionSequence s then Some ErrStaleAction else None)"

definition MarkProcessedAction :: "u32 \<Rightarrow> session \<Rightarrow> session" where
  "MarkProcessedAction n s =
     (if se_lastProcessedActionSequence s < n then s\<lparr>se_lastProcessedActionSequence := n\<rparr> else s)"

definition NextOutboundSequence :: "delivery \<Rightarrow> session \<Rightarrow> u32 \<times> session" where
  "NextOutboundSequence d s =
     (case d of
        DeliveryReliableOrdered \<Rightarrow>
          (let n = se_nextReliableSequence s + 1 in (n, s\<lparr>se_nextReliableSequence := n\<rparr>))
      | DeliveryRealtimeSequenced \<Rightarrow>
          (let n = se_nextRealtimeSequence s + 1 in (n, s\<lparr>se_nextRealtimeSequence := n\<rparr>))
      | DeliveryUnknown \<Rightarrow> (0, s))"

section \<open>The registry\<close>

type_synonym session_ref = nat
type_synonym session_heap = "session_ref \<Rightarrow> session"

record session_registry =
  rg_sessions :: "(u64, session_ref) fmap"
  rg_byEntity :: "(entity_id, session_ref) fmap"

definition NewRegistry :: session_registry where
  "NewRegistry = \<lparr>rg_sessions = fmempty, rg_byEntity = fmempty\<rparr>"

definition registry_Add ::
  "session_heap \<Rightarrow> session_ref option \<Rightarrow> session_registry \<Rightarrow> session_error option \<times> session_registry" where
  "registry_Add h ref r =
     (case ref of
        None \<Rightarrow> (Some ErrInvalidSession, r)
      | Some p \<Rightarrow>
          if gomap_has (rg_sessions r) (se_ID (h p)) then (Some ErrSessionExists, r)
          else (None, \<lparr>rg_sessions = fmupd (se_ID (h p)) p (rg_sessions r),
                      rg_byEntity = fmupd (se_EntityID (h p)) p (rg_byEntity r)\<rparr>))"

definition registry_Remove ::
  "session_heap \<Rightarrow> u64 \<Rightarrow> session_registry \<Rightarrow> (session_error + session_ref) \<times> session_registry" where
  "registry_Remove h i r =
     (case fmlookup (rg_sessions r) i of
        None \<Rightarrow> (Inl ErrSessionNotFound, r)
      | Some p \<Rightarrow>
          (Inr p, \<lparr>rg_sessions = fmdrop i (rg_sessions r),
             rg_byEntity = (if fmlookup (rg_byEntity r) (se_EntityID (h p)) = Some p
                            then fmdrop (se_EntityID (h p)) (rg_byEntity r) else rg_byEntity r)\<rparr>))"

definition registry_Get :: "session_registry \<Rightarrow> u64 \<Rightarrow> session_ref option" where
  "registry_Get r i = fmlookup (rg_sessions r) i"

definition GetByEntity :: "session_registry \<Rightarrow> entity_id \<Rightarrow> session_ref option" where
  "GetByEntity r e = fmlookup (rg_byEntity r) e"

definition registry_List :: "session_registry \<Rightarrow> session_ref list" where
  "registry_List r = map (\<lambda>i. the (fmlookup (rg_sessions r) i)) (gomap_keys (rg_sessions r))"

text \<open>
  The registry of a heap whose sessions keep their ids: keys match, and the entity index points
  to registered sessions.
\<close>

definition registry_inv :: "session_heap \<Rightarrow> session_registry \<Rightarrow> bool" where
  "registry_inv h r =
     ((\<forall>i p. fmlookup (rg_sessions r) i = Some p \<longrightarrow> se_ID (h p) = i) \<and>
      (\<forall>e p. fmlookup (rg_byEntity r) e = Some p \<longrightarrow>
         se_EntityID (h p) = e \<and> fmlookup (rg_sessions r) (se_ID (h p)) = Some p))"

lemma registry_invD:
  assumes "registry_inv h r"
  shows "fmlookup (rg_sessions r) i = Some p \<Longrightarrow> se_ID (h p) = i"
    "fmlookup (rg_byEntity r) e = Some p \<Longrightarrow> se_EntityID (h p) = e \<and> fmlookup (rg_sessions r) (se_ID (h p)) = Some p"
  using assms unfolding registry_inv_def by blast+

lemma registry_Add_inv: "registry_inv h r \<Longrightarrow> registry_inv h (snd (registry_Add h ref r))"
  by (auto simp: registry_inv_def registry_Add_def gomap_has_def split: option.splits)

lemma registry_Remove_inv:
  assumes "registry_inv h r"
  shows "registry_inv h (snd (registry_Remove h i r))"
proof (cases "fmlookup (rg_sessions r) i")
  case (Some p)
  have i: "se_ID (h p) = i" using registry_invD(1) [OF assms Some] .
  show ?thesis
    unfolding registry_inv_def
  proof (intro conjI allI impI)
    fix j q assume "fmlookup (rg_sessions (snd (registry_Remove h i r))) j = Some q"
    then show "se_ID (h q) = j" using Some registry_invD(1) [OF assms] by (auto simp: registry_Remove_def split: if_splits)
  next
    fix e q assume a: "fmlookup (rg_byEntity (snd (registry_Remove h i r))) e = Some q"
    then have q: "fmlookup (rg_byEntity r) e = Some q" using Some by (auto simp: registry_Remove_def split: if_splits)
    note old = registry_invD(2) [OF assms q]
    then show "se_EntityID (h q) = e" by simp
    have "q \<noteq> p" using a q old Some by (auto simp: registry_Remove_def split: if_splits)
    then have "se_ID (h q) \<noteq> i" using old Some by auto
    then show "fmlookup (rg_sessions (snd (registry_Remove h i r))) (se_ID (h q)) = Some q"
      using Some old by (simp add: registry_Remove_def)
  qed
qed (simp add: registry_Remove_def assms)

lemma registry_List_props:
  assumes "registry_inv h r"
  shows "map (se_ID \<circ> h) (registry_List r) = gomap_keys (rg_sessions r)" "distinct (registry_List r)"
    "p \<in> set (registry_List r) \<longleftrightarrow> (\<exists>i. registry_Get r i = Some p)"
proof -
  have one: "se_ID (h (the (fmlookup (rg_sessions r) i))) = i" if "i \<in> set (gomap_keys (rg_sessions r))" for i
  proof -
    from that obtain q where "fmlookup (rg_sessions r) i = Some q" by (auto simp: gomap_keys_props fmlookup_dom'_iff)
    then show ?thesis using registry_invD(1) [OF assms] by simp
  qed
  then show m: "map (se_ID \<circ> h) (registry_List r) = gomap_keys (rg_sessions r)"
    by (simp add: registry_List_def o_def map_idI)
  have "distinct (map (se_ID \<circ> h) (registry_List r))" unfolding m by (simp add: gomap_keys_props)
  then show "distinct (registry_List r)" by (simp add: distinct_map)
  show "p \<in> set (registry_List r) \<longleftrightarrow> (\<exists>i. registry_Get r i = Some p)"
    by (auto simp: registry_List_def registry_Get_def gomap_keys_props fmlookup_dom'_iff image_iff Bex_def)
qed

end
