(* ===== verification/OwnerIdentity.thy ===== *)
theory OwnerIdentity
  imports Session
begin

text \<open>
  Which session may act for which character
  (\<open>internal/worldruntime/character_identity.go\<close>, \<open>session_ownership.go\<close> and \<open>currentOwnership\<close> of
  \<open>session_transfer.go\<close>): admission leases, the bindings of entities to characters, and the ownership
  fences that make a taken-over session harmless. The registry belongs to the world owner; the
  clock is an argument, in nanoseconds, 0 for Go's zero time.
\<close>

section \<open>State\<close>

definition characterAdmissionLeaseDuration :: int where
  [go_defs]: "characterAdmissionLeaseDuration = 60 * 1000000000"

datatype owner_error =
  ErrCharacterIdentityMissing | ErrCharacterIdentityActive | ErrCharacterIdentityConflict |
  ErrCharacterAdmissionReserved | ErrCharacterAdmissionLeaseRequired | ErrCharacterAdmissionLeaseInvalid |
  ErrCharacterAdmissionLeaseExpired | ErrCharacterAdmissionGenerationExhausted |
  ErrCharacterAdmissionRequiresTrustedIdentity | ErrCharacterOwnershipFenceInvalid |
  ErrCharacterOwnershipFenceStale | ErrCharacterOwnershipEpochExhausted | ErrCharacterOwnershipNotActive |
  ErrCharacterOwnershipTransferRequiresTrusted | ErrCharacterOwnershipTransferIdentityMismatch |
  ErrCharacterOwnershipTransferEntityMismatch | ErrCharacterOwnershipTransferSameSession

record admission_lease =
  ls_CharacterID :: string
  ls_Generation :: u64
  ls_ExpiresAt :: int

definition lease_Valid :: "admission_lease \<Rightarrow> bool" where
  "lease_Valid l = (ls_CharacterID l \<noteq> '''' \<and> ls_Generation l \<noteq> 0 \<and> ls_ExpiresAt l \<noteq> 0)"

record ownership_fence =
  fn_SessionID :: u64
  fn_EntityID :: entity_id
  fn_CharacterID :: string
  fn_Epoch :: u64

definition zero_fence :: ownership_fence where
  "zero_fence = \<lparr>fn_SessionID = 0, fn_EntityID = 0, fn_CharacterID = '''', fn_Epoch = 0\<rparr>"

definition fence_Valid :: "ownership_fence \<Rightarrow> bool" where
  "fence_Valid f = (fn_SessionID f \<noteq> 0 \<and> fn_EntityID f \<noteq> 0 \<and> fn_CharacterID f \<noteq> '''' \<and> fn_Epoch f \<noteq> 0)"

record identity_registry =
  ir_byEntity :: "(entity_id, binding) fmap"
  ir_entityByCharacter :: "(string, entity_id) fmap"
  ir_admissionByCharacter :: "(string, admission_lease) fmap"
  ir_ownershipByCharacter :: "(string, ownership_fence) fmap"
  ir_ownershipBySession :: "(u64, ownership_fence) fmap"
  ir_nextAdmissionGeneration :: u64
  ir_nextOwnershipEpoch :: u64

definition newCharacterIdentityRegistry :: identity_registry where
  "newCharacterIdentityRegistry =
     \<lparr>ir_byEntity = fmempty, ir_entityByCharacter = fmempty, ir_admissionByCharacter = fmempty,
      ir_ownershipByCharacter = fmempty, ir_ownershipBySession = fmempty, ir_nextAdmissionGeneration = 0,
      ir_nextOwnershipEpoch = 0\<rparr>"

section \<open>Bindings\<close>

definition validateSession :: "session option \<Rightarrow> identity_registry \<Rightarrow> owner_error option" where
  "validateSession s r =
     (case s of
        None \<Rightarrow> Some ErrCharacterIdentityMissing
      | Some s \<Rightarrow>
          let b = se_CharacterIdentity s in
          if \<not> binding_Valid b then Some ErrCharacterIdentityMissing
          else if (case fmlookup (ir_byEntity r) (se_EntityID s) of None \<Rightarrow> False | Some c \<Rightarrow> c \<noteq> b)
          then Some ErrCharacterIdentityConflict
          else if (case fmlookup (ir_entityByCharacter r) (bd_ID b) of None \<Rightarrow> False | Some e \<Rightarrow> e \<noteq> se_EntityID s)
          then Some ErrCharacterIdentityActive
          else None)"

definition bindSession :: "session \<Rightarrow> identity_registry \<Rightarrow> identity_registry" where
  "bindSession s r =
     r\<lparr>ir_byEntity := fmupd (se_EntityID s) (se_CharacterIdentity s) (ir_byEntity r),
       ir_entityByCharacter := fmupd (bd_ID (se_CharacterIdentity s)) (se_EntityID s) (ir_entityByCharacter r)\<rparr>"

definition identity_binding :: "entity_id \<Rightarrow> identity_registry \<Rightarrow> binding option" where
  "identity_binding e r = fmlookup (ir_byEntity r) e"

definition identity_removeEntity :: "entity_id \<Rightarrow> identity_registry \<Rightarrow> identity_registry" where
  "identity_removeEntity e r =
     (case fmlookup (ir_byEntity r) e of
        None \<Rightarrow> r
      | Some b \<Rightarrow>
          r\<lparr>ir_byEntity := fmdrop e (ir_byEntity r),
            ir_entityByCharacter := (if fmlookup (ir_entityByCharacter r) (bd_ID b) = Some e
              then fmdrop (bd_ID b) (ir_entityByCharacter r) else ir_entityByCharacter r)\<rparr>)"

section \<open>Admission leases\<close>

definition consumeAdmission :: "admission_lease \<Rightarrow> identity_registry \<Rightarrow> identity_registry" where
  "consumeAdmission l r =
     (case fmlookup (ir_admissionByCharacter r) (ls_CharacterID l) of
        None \<Rightarrow> r
      | Some c \<Rightarrow> if ls_Generation c = ls_Generation l
                  then r\<lparr>ir_admissionByCharacter := fmdrop (ls_CharacterID l) (ir_admissionByCharacter r)\<rparr> else r)"

definition releaseAdmission :: "admission_lease option \<Rightarrow> identity_registry \<Rightarrow> identity_registry" where
  "releaseAdmission lease r =
     (case lease of
        None \<Rightarrow> r
      | Some l \<Rightarrow>
          if \<not> lease_Valid l then r
          else case fmlookup (ir_admissionByCharacter r) (ls_CharacterID l) of
            None \<Rightarrow> r
          | Some c \<Rightarrow> if ls_Generation c \<noteq> ls_Generation l then r
                      else r\<lparr>ir_admissionByCharacter := fmdrop (ls_CharacterID l) (ir_admissionByCharacter r)\<rparr>)"

section \<open>Ownership\<close>

definition currentOwnership :: "binding \<Rightarrow> identity_registry \<Rightarrow> owner_error + ownership_fence" where
  "currentOwnership b r =
     (if \<not> binding_Valid b \<or> bd_Assurance b \<noteq> AssuranceTrusted then Inl ErrCharacterOwnershipTransferRequiresTrusted
      else case fmlookup (ir_ownershipByCharacter r) (bd_ID b) of
        None \<Rightarrow> Inl ErrCharacterOwnershipNotActive
      | Some f \<Rightarrow>
          if \<not> fence_Valid f then Inl ErrCharacterOwnershipNotActive
          else if fmlookup (ir_ownershipBySession r) (fn_SessionID f) \<noteq> Some f then Inl ErrCharacterOwnershipFenceStale
          else Inr f)"

text \<open>A session without trusted identity has the zero fence.\<close>

definition prepareOwnership ::
  "session option \<Rightarrow> identity_registry \<Rightarrow> (owner_error + ownership_fence) \<times> identity_registry" where
  "prepareOwnership s r =
     (case s of
        None \<Rightarrow> (Inl ErrCharacterIdentityMissing, r)
      | Some s \<Rightarrow>
          let b = se_CharacterIdentity s in
          if \<not> binding_Valid b then (Inl ErrCharacterIdentityMissing, r)
          else if bd_Assurance b \<noteq> AssuranceTrusted then (Inr zero_fence, r)
          else if ir_nextOwnershipEpoch r = - 1 then (Inl ErrCharacterOwnershipEpochExhausted, r)
          else let n = ir_nextOwnershipEpoch r + 1 in
            (Inr \<lparr>fn_SessionID = se_ID s, fn_EntityID = se_EntityID s, fn_CharacterID = bd_ID b, fn_Epoch = n\<rparr>,
             r\<lparr>ir_nextOwnershipEpoch := n\<rparr>))"

definition activateOwnership :: "ownership_fence \<Rightarrow> identity_registry \<Rightarrow> identity_registry" where
  "activateOwnership f r =
     (if \<not> fence_Valid f then r
      else r\<lparr>ir_ownershipByCharacter := fmupd (fn_CharacterID f) f (ir_ownershipByCharacter r),
             ir_ownershipBySession := fmupd (fn_SessionID f) f (ir_ownershipBySession r)\<rparr>)"

definition validateOwnership :: "u64 \<Rightarrow> ownership_fence \<Rightarrow> identity_registry \<Rightarrow> owner_error option" where
  "validateOwnership sessionID f r =
     (if \<not> fence_Valid f \<or> fn_SessionID f \<noteq> sessionID then Some ErrCharacterOwnershipFenceInvalid
      else if fmlookup (ir_ownershipByCharacter r) (fn_CharacterID f) \<noteq> Some f then Some ErrCharacterOwnershipFenceStale
      else if fmlookup (ir_ownershipBySession r) (fn_SessionID f) \<noteq> Some f then Some ErrCharacterOwnershipFenceStale
      else None)"

definition removeOwnershipBySession :: "u64 \<Rightarrow> identity_registry \<Rightarrow> identity_registry" where
  "removeOwnershipBySession sessionID r =
     (case fmlookup (ir_ownershipBySession r) sessionID of
        None \<Rightarrow> r
      | Some f \<Rightarrow>
          r\<lparr>ir_ownershipBySession := fmdrop sessionID (ir_ownershipBySession r),
            ir_ownershipByCharacter := (if fmlookup (ir_ownershipByCharacter r) (fn_CharacterID f) = Some f
              then fmdrop (fn_CharacterID f) (ir_ownershipByCharacter r) else ir_ownershipByCharacter r)\<rparr>)"

section \<open>Reserving and joining\<close>

text \<open>
  The answer is nothing (a release), a lease, or the fence of the active owner, which is only looked
  up for a caller that supplied a place for it.
\<close>

datatype admission_answer = Released | Leased admission_lease | Owned ownership_fence

record admission_operation =
  ao_identity :: binding
  ao_lease :: "admission_lease option"
  ao_wantsOwnership :: bool
  ao_release :: bool

definition validateAdmission ::
  "int \<Rightarrow> admission_operation \<Rightarrow> identity_registry \<Rightarrow> (owner_error + admission_answer) \<times> identity_registry" where
  "validateAdmission now op r =
     (if ao_release op then (Inr Released, releaseAdmission (ao_lease op) r)
      else let b = ao_identity op in
      if \<not> binding_Valid b \<or> bd_Assurance b \<noteq> AssuranceTrusted \<or> ao_lease op = None
      then (Inl ErrCharacterAdmissionRequiresTrustedIdentity, r)
      else case fmlookup (ir_entityByCharacter r) (bd_ID b) of
        Some e \<Rightarrow>
          if \<not> ao_wantsOwnership op then (Inl ErrCharacterIdentityActive, r)
          else (case currentOwnership b r of
                  Inl err \<Rightarrow> (Inl err, r)
                | Inr f \<Rightarrow> if fn_EntityID f \<noteq> e then (Inl ErrCharacterIdentityConflict, r) else (Inr (Owned f), r))
      | None \<Rightarrow>
          if (case fmlookup (ir_admissionByCharacter r) (bd_ID b) of None \<Rightarrow> False | Some c \<Rightarrow> now < ls_ExpiresAt c)
          then (Inl ErrCharacterAdmissionReserved, r)
          else let r1 = r\<lparr>ir_admissionByCharacter := fmdrop (bd_ID b) (ir_admissionByCharacter r)\<rparr> in
          if ir_nextAdmissionGeneration r1 = - 1 then (Inl ErrCharacterAdmissionGenerationExhausted, r1)
          else let n = ir_nextAdmissionGeneration r1 + 1;
                   l = \<lparr>ls_CharacterID = bd_ID b, ls_Generation = n, ls_ExpiresAt = now + characterAdmissionLeaseDuration\<rparr>
               in (Inr (Leased l), r1\<lparr>ir_nextAdmissionGeneration := n,
                     ir_admissionByCharacter := fmupd (bd_ID b) l (ir_admissionByCharacter r1)\<rparr>))"

definition validateJoinAdmission ::
  "int \<Rightarrow> binding \<Rightarrow> admission_lease option \<Rightarrow> identity_registry \<Rightarrow> owner_error option \<times> identity_registry" where
  "validateJoinAdmission now b lease r =
     (if bd_Assurance b \<noteq> AssuranceTrusted
      then ((if lease \<noteq> None then Some ErrCharacterAdmissionLeaseInvalid else None), r)
      else let found = fmlookup (ir_admissionByCharacter r) (bd_ID b);
               expired = (case found of None \<Rightarrow> False | Some c \<Rightarrow> \<not> now < ls_ExpiresAt c);
               r1 = (if expired then r\<lparr>ir_admissionByCharacter := fmdrop (bd_ID b) (ir_admissionByCharacter r)\<rparr> else r);
               current = (if expired then None else found)
      in case lease of
           None \<Rightarrow> ((if current \<noteq> None then Some ErrCharacterAdmissionLeaseRequired else None), r1)
         | Some l \<Rightarrow>
             if \<not> lease_Valid l \<or> ls_CharacterID l \<noteq> bd_ID b then (Some ErrCharacterAdmissionLeaseInvalid, r1)
             else if \<not> now < ls_ExpiresAt l then (Some ErrCharacterAdmissionLeaseExpired, r1)
             else (case current of
                     None \<Rightarrow> (Some ErrCharacterAdmissionLeaseInvalid, r1)
                   | Some c \<Rightarrow> if ls_Generation c \<noteq> ls_Generation l \<or> ls_CharacterID c \<noteq> ls_CharacterID l
                              then (Some ErrCharacterAdmissionLeaseInvalid, r1) else (None, r1)))"

section \<open>The handlers\<close>

text \<open>
  What the world owner's handlers do to the registry, in their order. What they ask of the other
  components (does the entity exist, does the spawn succeed, is the session registered) is an
  argument of the step; a refusal there leaves the registry as it is at that point.
\<close>

datatype refusal = OwnerRefused owner_error | SessionRefused session_error | RefusedElsewhere

definition join_admit ::
  "int \<Rightarrow> session \<Rightarrow> admission_lease option \<Rightarrow> identity_registry \<Rightarrow> (owner_error + ownership_fence) \<times> identity_registry" where
  "join_admit now s lease r =
     (case validateJoinAdmission now (se_CharacterIdentity s) lease r of
        (Some err, r1) \<Rightarrow> (Inl err, r1)
      | (None, r1) \<Rightarrow>
          (case validateSession (Some s) r1 of
             Some err \<Rightarrow> (Inl err, r1)
           | None \<Rightarrow> prepareOwnership (Some s) r1))"

definition join_commit ::
  "session \<Rightarrow> admission_lease option \<Rightarrow> ownership_fence \<Rightarrow> identity_registry \<Rightarrow> identity_registry" where
  "join_commit s lease f r =
     activateOwnership f ((case lease of None \<Rightarrow> id | Some l \<Rightarrow> consumeAdmission l) (bindSession s r))"

definition join_step ::
  "int \<Rightarrow> session \<Rightarrow> admission_lease option \<Rightarrow> bool \<Rightarrow> identity_registry \<Rightarrow> (refusal + ownership_fence) \<times> identity_registry" where
  "join_step now s lease commits r =
     (case join_admit now s lease r of
        (Inl err, r1) \<Rightarrow> (Inl (OwnerRefused err), r1)
      | (Inr f, r1) \<Rightarrow> if commits then (Inr f, join_commit s lease f r1) else (Inl RefusedElsewhere, r1))"

text \<open>A register command binds a session to an entity that already exists, without ownership.\<close>

definition register_step :: "session option \<Rightarrow> bool \<Rightarrow> identity_registry \<Rightarrow> refusal option \<times> identity_registry" where
  "register_step s commits r =
     (case s of
        None \<Rightarrow> (Some (SessionRefused ErrInvalidSession), r)
      | Some t \<Rightarrow>
          (case validateSession s r of
             Some err \<Rightarrow> (Some (OwnerRefused err), r)
           | None \<Rightarrow> if commits then (None, bindSession t r) else (Some RefusedElsewhere, r)))"

definition transfer_checks :: "ownership_fence \<Rightarrow> session option \<Rightarrow> identity_registry \<Rightarrow> refusal option" where
  "transfer_checks expected replacement r =
     (if \<not> fence_Valid expected then Some (OwnerRefused ErrCharacterOwnershipFenceInvalid)
      else case replacement of
        None \<Rightarrow> Some (SessionRefused ErrInvalidSession)
      | Some s \<Rightarrow>
          let b = se_CharacterIdentity s in
          if \<not> binding_Valid b then Some (SessionRefused ErrInvalidSession)
          else if bd_Assurance b \<noteq> AssuranceTrusted
          then Some (OwnerRefused ErrCharacterOwnershipTransferRequiresTrusted)
          else if bd_ID b \<noteq> fn_CharacterID expected
          then Some (OwnerRefused ErrCharacterOwnershipTransferIdentityMismatch)
          else if se_EntityID s \<noteq> fn_EntityID expected
          then Some (OwnerRefused ErrCharacterOwnershipTransferEntityMismatch)
          else if se_ID s = fn_SessionID expected
          then Some (OwnerRefused ErrCharacterOwnershipTransferSameSession)
          else case validateOwnership (fn_SessionID expected) expected r of
            Some err \<Rightarrow> Some (OwnerRefused err)
          | None \<Rightarrow> map_option OwnerRefused (validateSession replacement r))"

definition transfer_commit :: "ownership_fence \<Rightarrow> ownership_fence \<Rightarrow> identity_registry \<Rightarrow> identity_registry" where
  "transfer_commit expected f r = removeOwnershipBySession (fn_SessionID expected) (activateOwnership f r)"

definition transfer_step ::
  "ownership_fence \<Rightarrow> session option \<Rightarrow> bool \<Rightarrow> bool \<Rightarrow> identity_registry \<Rightarrow> (refusal + ownership_fence) \<times> identity_registry" where
  "transfer_step expected replacement present commits r =
     (case transfer_checks expected replacement r of
        Some e \<Rightarrow> (Inl e, r)
      | None \<Rightarrow>
          if \<not> present then (Inl RefusedElsewhere, r)
          else case prepareOwnership replacement r of
            (Inl err, r1) \<Rightarrow> (Inl (OwnerRefused err), r1)
          | (Inr f, r1) \<Rightarrow> if commits then (Inr f, transfer_commit expected f r1) else (Inl RefusedElsewhere, r1))"

text \<open>
  A leave with a fence is only obeyed while the fence holds; then, and for a leave of the server's
  own, the session, the ownership and the entity go. The entity is that of the registered session.
\<close>

definition leave_step ::
  "u64 \<Rightarrow> ownership_fence \<Rightarrow> entity_id option \<Rightarrow> identity_registry \<Rightarrow> refusal option \<times> identity_registry" where
  "leave_step sessionID f entity r =
     (case (if fence_Valid f then validateOwnership sessionID f r else None) of
        Some err \<Rightarrow> (Some (OwnerRefused err), r)
      | None \<Rightarrow>
          (case entity of
             None \<Rightarrow> (Some (SessionRefused ErrSessionNotFound), r)
           | Some e \<Rightarrow> (None, identity_removeEntity e (removeOwnershipBySession sessionID r))))"

definition unregister_step :: "u64 \<Rightarrow> bool \<Rightarrow> identity_registry \<Rightarrow> refusal option \<times> identity_registry" where
  "unregister_step sessionID registered r =
     (if registered then (None, removeOwnershipBySession sessionID r)
      else (Some (SessionRefused ErrSessionNotFound), r))"

text \<open>A history, with the fences it activated.\<close>

datatype owner_op =
  OAdmit int admission_operation | OJoin int session "admission_lease option" bool |
  ORegister "session option" bool | OTransfer ownership_fence "session option" bool bool |
  OUnregister u64 bool | OLeave u64 ownership_fence "entity_id option"

definition logged :: "'e + ownership_fence \<Rightarrow> ownership_fence list \<Rightarrow> ownership_fence list" where
  "logged a fs = (case a of Inl _ \<Rightarrow> fs | Inr f \<Rightarrow> if fence_Valid f then fs @ [f] else fs)"

fun owner_step ::
  "owner_op \<Rightarrow> identity_registry \<times> ownership_fence list \<Rightarrow> unit \<times> identity_registry \<times> ownership_fence list" where
  "owner_step (OAdmit now op) (r, fs) = ((), snd (validateAdmission now op r), fs)"
| "owner_step (OJoin now s lease commits) (r, fs) =
     (case join_step now s lease commits r of (a, r') \<Rightarrow> ((), r', logged a fs))"
| "owner_step (ORegister s commits) (r, fs) = ((), snd (register_step s commits r), fs)"
| "owner_step (OTransfer expected s present commits) (r, fs) =
     (case transfer_step expected s present commits r of (a, r') \<Rightarrow> ((), r', logged a fs))"
| "owner_step (OUnregister sessionID registered) (r, fs) = ((), snd (unregister_step sessionID registered r), fs)"
| "owner_step (OLeave sessionID f entity) (r, fs) = ((), snd (leave_step sessionID f entity r), fs)"

section \<open>What the registry keeps\<close>

text \<open>
  One entity for a character and one character for an entity; ownership only with epochs that were
  handed out; leases only with generations that were.
\<close>

definition paired :: "identity_registry \<Rightarrow> bool" where
  "paired r = ((\<forall>e b. fmlookup (ir_byEntity r) e = Some b \<longrightarrow> fmlookup (ir_entityByCharacter r) (bd_ID b) = Some e) \<and>
     (\<forall>c e. fmlookup (ir_entityByCharacter r) c = Some e \<longrightarrow> (\<exists>b. fmlookup (ir_byEntity r) e = Some b \<and> bd_ID b = c)))"

definition issued :: "identity_registry \<Rightarrow> ownership_fence \<Rightarrow> bool" where
  "issued r f = (fence_Valid f \<and> fn_Epoch f \<le> ir_nextOwnershipEpoch r)"

definition fenced :: "identity_registry \<Rightarrow> bool" where
  "fenced r =
     ((\<forall>c f. fmlookup (ir_ownershipByCharacter r) c = Some f \<longrightarrow> fn_CharacterID f = c \<and> issued r f) \<and>
      (\<forall>s f. fmlookup (ir_ownershipBySession r) s = Some f \<longrightarrow> fn_SessionID f = s \<and> issued r f))"

definition leased :: "identity_registry \<Rightarrow> bool" where
  "leased r = (\<forall>c l. fmlookup (ir_admissionByCharacter r) c = Some l \<longrightarrow>
     ls_CharacterID l = c \<and> ls_Generation l \<le> ir_nextAdmissionGeneration r)"

definition identity_inv :: "identity_registry \<Rightarrow> bool" where
  "identity_inv r = (paired r \<and> fenced r \<and> leased r)"

lemma word_fresh: "(e :: u64) \<le> n \<Longrightarrow> n \<noteq> - 1 \<Longrightarrow> e < n + 1"
  using unatSuc [of n] by (simp add: word_le_nat_alt word_less_nat_alt add.commute eq_neg_iff_add_eq_0)

lemma word_fresh_le: "(e :: u64) \<le> n \<Longrightarrow> n \<noteq> - 1 \<Longrightarrow> e \<le> n + 1"
  by (rule less_imp_le) (rule word_fresh)

lemma identity_invI: "paired r \<Longrightarrow> fenced r \<Longrightarrow> leased r \<Longrightarrow> identity_inv r"
  by (simp add: identity_inv_def)

lemma identity_invD: "identity_inv r \<Longrightarrow> paired r" "identity_inv r \<Longrightarrow> fenced r" "identity_inv r \<Longrightarrow> leased r"
  by (simp_all add: identity_inv_def)

text \<open>Each part only depends on its own fields.\<close>

lemma paired_cong:
  "ir_byEntity r' = ir_byEntity r \<Longrightarrow> ir_entityByCharacter r' = ir_entityByCharacter r \<Longrightarrow> paired r \<Longrightarrow> paired r'"
  by (simp add: paired_def)

lemma issued_mono:
  assumes "issued r f" and "ir_nextOwnershipEpoch r \<le> ir_nextOwnershipEpoch r'"
  shows "issued r' f"
  using assms(1) order_trans [OF _ assms(2)] unfolding issued_def by blast

lemma fenced_cong:
  assumes "ir_ownershipByCharacter r' \<subseteq>\<^sub>f ir_ownershipByCharacter r"
    and "ir_ownershipBySession r' \<subseteq>\<^sub>f ir_ownershipBySession r"
    and le: "ir_nextOwnershipEpoch r \<le> ir_nextOwnershipEpoch r'" and "fenced r"
  shows "fenced r'"
  using assms(1,2,4) issued_mono [OF _ le] unfolding fenced_def fmsubset_alt_def fmpred_iff by metis

lemma leased_cong:
  "ir_admissionByCharacter r' \<subseteq>\<^sub>f ir_admissionByCharacter r \<Longrightarrow>
   ir_nextAdmissionGeneration r' = ir_nextAdmissionGeneration r \<Longrightarrow> leased r \<Longrightarrow> leased r'"
  unfolding leased_def fmsubset_alt_def fmpred_iff by metis

lemma fmsubset_refl: "m \<subseteq>\<^sub>f m"
  by (simp add: fmsubset_alt_def fmpred_iff)

lemma fmdrop_subset: "fmdrop k m \<subseteq>\<^sub>f m"
  by (simp add: fmsubset_alt_def fmpred_iff)

lemma removeOwnership_fields:
  "ir_byEntity (removeOwnershipBySession s r) = ir_byEntity r"
  "ir_entityByCharacter (removeOwnershipBySession s r) = ir_entityByCharacter r"
  "ir_admissionByCharacter (removeOwnershipBySession s r) = ir_admissionByCharacter r"
  "ir_nextAdmissionGeneration (removeOwnershipBySession s r) = ir_nextAdmissionGeneration r"
  "ir_nextOwnershipEpoch (removeOwnershipBySession s r) = ir_nextOwnershipEpoch r"
  by (simp_all add: removeOwnershipBySession_def split: option.splits)

lemma activate_fields:
  "ir_byEntity (activateOwnership f r) = ir_byEntity r"
  "ir_entityByCharacter (activateOwnership f r) = ir_entityByCharacter r"
  "ir_admissionByCharacter (activateOwnership f r) = ir_admissionByCharacter r"
  "ir_nextAdmissionGeneration (activateOwnership f r) = ir_nextAdmissionGeneration r"
  "ir_nextOwnershipEpoch (activateOwnership f r) = ir_nextOwnershipEpoch r"
  by (simp_all add: activateOwnership_def)

lemma removeEntity_fields:
  "ir_ownershipByCharacter (identity_removeEntity e r) = ir_ownershipByCharacter r"
  "ir_ownershipBySession (identity_removeEntity e r) = ir_ownershipBySession r"
  "ir_admissionByCharacter (identity_removeEntity e r) = ir_admissionByCharacter r"
  "ir_nextAdmissionGeneration (identity_removeEntity e r) = ir_nextAdmissionGeneration r"
  "ir_nextOwnershipEpoch (identity_removeEntity e r) = ir_nextOwnershipEpoch r"
  by (simp_all add: identity_removeEntity_def split: option.splits)

lemma bind_fields:
  "ir_ownershipByCharacter (bindSession t r) = ir_ownershipByCharacter r"
  "ir_ownershipBySession (bindSession t r) = ir_ownershipBySession r"
  "ir_admissionByCharacter (bindSession t r) = ir_admissionByCharacter r"
  "ir_nextAdmissionGeneration (bindSession t r) = ir_nextAdmissionGeneration r"
  "ir_nextOwnershipEpoch (bindSession t r) = ir_nextOwnershipEpoch r"
  by (simp_all add: bindSession_def)

text \<open>Giving a lease back only takes entries out of the lease table.\<close>

definition only_leases_dropped :: "identity_registry \<Rightarrow> identity_registry \<Rightarrow> bool" where
  "only_leases_dropped r r' =
     (\<exists>m. r' = r\<lparr>ir_admissionByCharacter := m\<rparr> \<and> m \<subseteq>\<^sub>f ir_admissionByCharacter r)"

lemma dropped_refl: "only_leases_dropped r r"
  unfolding only_leases_dropped_def by (rule exI [of _ "ir_admissionByCharacter r"]) (simp add: fmsubset_refl)

lemma dropped_fmdrop: "only_leases_dropped r (r\<lparr>ir_admissionByCharacter := fmdrop c (ir_admissionByCharacter r)\<rparr>)"
  unfolding only_leases_dropped_def by (rule exI [of _ "fmdrop c (ir_admissionByCharacter r)"]) (simp add: fmdrop_subset)

lemma consume_dropped: "only_leases_dropped r (consumeAdmission l r)"
  by (simp add: consumeAdmission_def dropped_refl dropped_fmdrop split: option.splits)

lemma release_dropped: "only_leases_dropped r (releaseAdmission l r)"
  by (simp add: releaseAdmission_def dropped_refl dropped_fmdrop split: option.splits)

lemma join_admission_dropped: "only_leases_dropped r (snd (validateJoinAdmission now b l r))"
  by (simp add: validateJoinAdmission_def Let_def dropped_refl dropped_fmdrop split: option.splits)

lemma dropped_inv: "only_leases_dropped r r' \<Longrightarrow> identity_inv r \<Longrightarrow> identity_inv r'"
  unfolding only_leases_dropped_def identity_inv_def
  by (elim exE conjE, intro conjI; (erule paired_cong [rotated 2] | erule fenced_cong [rotated 3] | erule leased_cong [rotated 2]);
    simp add: fmsubset_refl)

lemma removeOwnership_inv:
  assumes "identity_inv r"
  shows "identity_inv (removeOwnershipBySession s r)"
proof (rule identity_invI)
  show "fenced (removeOwnershipBySession s r)"
    by (rule fenced_cong [OF _ _ _ identity_invD(2) [OF assms]])
      (simp_all add: removeOwnershipBySession_def fmsubset_refl fmdrop_subset split: option.splits)
  show "paired (removeOwnershipBySession s r)"
    by (rule paired_cong [OF _ _ identity_invD(1) [OF assms]]) (simp_all add: removeOwnership_fields fmsubset_refl)
  show "leased (removeOwnershipBySession s r)"
    by (rule leased_cong [OF _ _ identity_invD(3) [OF assms]]) (simp_all add: removeOwnership_fields fmsubset_refl)
qed

lemma activate_inv:
  assumes "identity_inv r" and "fence_Valid f \<Longrightarrow> issued r f"
  shows "identity_inv (activateOwnership f r)"
proof (rule identity_invI)
  show "fenced (activateOwnership f r)"
  proof (cases "fence_Valid f")
    case True
    have "issued (activateOwnership f r) g = issued r g" for g by (simp add: issued_def activate_fields)
    with True identity_invD(2) [OF assms(1)] assms(2) show ?thesis
      unfolding fenced_def by (simp add: activateOwnership_def)
  qed (simp add: activateOwnership_def identity_invD(2) [OF assms(1)])
  show "paired (activateOwnership f r)"
    by (rule paired_cong [OF _ _ identity_invD(1) [OF assms(1)]]) (simp_all add: activate_fields fmsubset_refl)
  show "leased (activateOwnership f r)"
    by (rule leased_cong [OF _ _ identity_invD(3) [OF assms(1)]]) (simp_all add: activate_fields fmsubset_refl)
qed

lemma removeEntity_inv:
  assumes "identity_inv r"
  shows "identity_inv (identity_removeEntity e r)"
proof (rule identity_invI)
  show "paired (identity_removeEntity e r)"
  proof (cases "fmlookup (ir_byEntity r) e")
    case None
    then show ?thesis using identity_invD(1) [OF assms] by (simp add: identity_removeEntity_def)
  next
    case (Some b)
    then have "fmlookup (ir_entityByCharacter r) (bd_ID b) = Some e"
      using identity_invD(1) [OF assms] by (simp add: paired_def)
    with Some have r': "ir_byEntity (identity_removeEntity e r) = fmdrop e (ir_byEntity r)"
      "ir_entityByCharacter (identity_removeEntity e r) = fmdrop (bd_ID b) (ir_entityByCharacter r)"
      by (simp_all add: identity_removeEntity_def)
    from identity_invD(1) [OF assms] Some show ?thesis
      unfolding paired_def r' by (auto split: if_splits) (metis option.inject)+
  qed
  show "fenced (identity_removeEntity e r)"
    by (rule fenced_cong [OF _ _ _ identity_invD(2) [OF assms]]) (simp_all add: removeEntity_fields fmsubset_refl)
  show "leased (identity_removeEntity e r)"
    by (rule leased_cong [OF _ _ identity_invD(3) [OF assms]]) (simp_all add: removeEntity_fields fmsubset_refl)
qed

lemma bind_inv:
  assumes "identity_inv r" and "validateSession (Some t) r = None"
  shows "identity_inv (bindSession t r)"
proof (rule identity_invI)
  have "fmlookup (ir_byEntity r) (se_EntityID t) \<in> {None, Some (se_CharacterIdentity t)}"
    and "fmlookup (ir_entityByCharacter r) (bd_ID (se_CharacterIdentity t)) \<in> {None, Some (se_EntityID t)}"
    using assms(2) by (auto simp: validateSession_def Let_def split: if_splits option.splits)
  then show "paired (bindSession t r)"
    using identity_invD(1) [OF assms(1)] unfolding paired_def bindSession_def
    by (auto split: if_splits) (metis option.inject option.distinct(1))+
  show "fenced (bindSession t r)"
    by (rule fenced_cong [OF _ _ _ identity_invD(2) [OF assms(1)]]) (simp_all add: bind_fields fmsubset_refl)
  show "leased (bindSession t r)"
    by (rule leased_cong [OF _ _ identity_invD(3) [OF assms(1)]]) (simp_all add: bind_fields fmsubset_refl)
qed

lemma prepare_cases:
  assumes "prepareOwnership s r = (a, r')"
  obtains (same) "r' = r" "\<And>f. a = Inr f \<Longrightarrow> f = zero_fence"
  | (fresh) t where "s = Some t" "binding_Valid (se_CharacterIdentity t)" "ir_nextOwnershipEpoch r \<noteq> - 1"
      "a = Inr \<lparr>fn_SessionID = se_ID t, fn_EntityID = se_EntityID t, fn_CharacterID = bd_ID (se_CharacterIdentity t),
         fn_Epoch = ir_nextOwnershipEpoch r + 1\<rparr>"
      "r' = r\<lparr>ir_nextOwnershipEpoch := ir_nextOwnershipEpoch r + 1\<rparr>"
proof (cases s)
  case None
  with assms show thesis by (intro same) (simp_all add: prepareOwnership_def)
next
  case (Some t)
  note a = assms [unfolded prepareOwnership_def Some option.case Let_def]
  show thesis
  proof (cases "binding_Valid (se_CharacterIdentity t) \<and> bd_Assurance (se_CharacterIdentity t) = AssuranceTrusted \<and>
      ir_nextOwnershipEpoch r \<noteq> - 1")
    case True
    then show thesis by (intro fresh [of t]) (use a Some in simp_all)
  next
    case False
    with a show thesis by (intro same) (simp_all split: if_split_asm)
  qed
qed

lemma zero_fence_invalid: "\<not> fence_Valid zero_fence"
  by (simp add: fence_Valid_def zero_fence_def)

lemma prepare_inv:
  assumes "identity_inv r" and "prepareOwnership s r = (a, r')"
  shows "identity_inv r'"
  using assms(2)
proof (cases rule: prepare_cases)
  case (fresh t)
  have le: "ir_nextOwnershipEpoch r \<le> ir_nextOwnershipEpoch r'"
    using fresh(3) word_fresh_le [of "ir_nextOwnershipEpoch r" "ir_nextOwnershipEpoch r"] by (simp only: fresh(5)) simp
  have "paired r'" by (rule paired_cong [OF _ _ identity_invD(1) [OF assms(1)]]) (simp_all add: fresh(5))
  moreover have "fenced r'"
    by (rule fenced_cong [OF _ _ le identity_invD(2) [OF assms(1)]]) (simp_all add: fresh(5) fmsubset_refl)
  moreover have "leased r'"
    by (rule leased_cong [OF _ _ identity_invD(3) [OF assms(1)]]) (simp_all add: fresh(5) fmsubset_refl)
  ultimately show ?thesis by (rule identity_invI)
qed (simp add: assms(1))

lemma prepare_issues:
  assumes "prepareOwnership s r = (Inr f, r')" and "fence_Valid f"
  shows "issued r' f \<and> ir_nextOwnershipEpoch r < fn_Epoch f"
  using assms(1)
proof (cases rule: prepare_cases)
  case (fresh t)
  then show ?thesis
    using assms(2) word_fresh [of "ir_nextOwnershipEpoch r" "ir_nextOwnershipEpoch r"] by (simp add: issued_def)
qed (use assms(2) zero_fence_invalid in auto)


section \<open>A fence that has fallen stays down\<close>

definition holds :: "identity_registry \<Rightarrow> ownership_fence \<Rightarrow> bool" where
  "holds r f = (fmlookup (ir_ownershipByCharacter r) (fn_CharacterID f) = Some f \<and>
     fmlookup (ir_ownershipBySession r) (fn_SessionID f) = Some f)"

lemma validate_holds: "validateOwnership s f r = None \<longleftrightarrow> fence_Valid f \<and> fn_SessionID f = s \<and> holds r f"
  by (auto simp: validateOwnership_def holds_def)

lemma validate_stale:
  "fence_Valid f \<Longrightarrow> \<not> holds r f \<Longrightarrow> validateOwnership (fn_SessionID f) f r = Some ErrCharacterOwnershipFenceStale"
  by (auto simp: validateOwnership_def holds_def)

text \<open>
  What a step does to ownership: the fences \<open>gs\<close> are new, with epochs never used before, and no old
  fence comes to hold that did not hold.
\<close>

definition advances :: "identity_registry \<Rightarrow> identity_registry \<Rightarrow> ownership_fence list \<Rightarrow> bool" where
  "advances r r' gs =
     (identity_inv r' \<and> ir_nextOwnershipEpoch r \<le> ir_nextOwnershipEpoch r' \<and>
      (\<forall>g \<in> set gs. issued r' g \<and> ir_nextOwnershipEpoch r < fn_Epoch g) \<and>
      (\<forall>f. fn_Epoch f \<le> ir_nextOwnershipEpoch r \<longrightarrow> holds r' f \<longrightarrow> holds r f))"

definition quiet :: "identity_registry \<Rightarrow> identity_registry \<Rightarrow> bool" where
  "quiet r r' = (identity_inv r' \<and> ir_nextOwnershipEpoch r \<le> ir_nextOwnershipEpoch r' \<and>
     ir_ownershipByCharacter r' \<subseteq>\<^sub>f ir_ownershipByCharacter r \<and> ir_ownershipBySession r' \<subseteq>\<^sub>f ir_ownershipBySession r)"

lemma quiet_trans: "quiet r r1 \<Longrightarrow> quiet r1 r2 \<Longrightarrow> quiet r r2"
  unfolding quiet_def fmsubset_alt_def fmpred_iff by (metis order_trans)

lemma quiet_refl: "identity_inv r \<Longrightarrow> quiet r r"
  by (simp add: quiet_def fmsubset_refl)

lemma quiet_holds: "quiet r r' \<Longrightarrow> holds r' f \<Longrightarrow> holds r f"
  unfolding quiet_def holds_def fmsubset_alt_def fmpred_iff by metis

lemma quiet_advances: "quiet r r' \<Longrightarrow> advances r r' []"
  using quiet_holds [of r r'] by (simp add: advances_def) (simp add: quiet_def)

lemma quiet_dropped: "identity_inv r \<Longrightarrow> only_leases_dropped r r' \<Longrightarrow> quiet r r'"
  using dropped_inv [of r r'] by (auto simp: quiet_def only_leases_dropped_def fmsubset_refl)

lemma quiet_bind: "identity_inv r \<Longrightarrow> validateSession (Some t) r = None \<Longrightarrow> quiet r (bindSession t r)"
  by (simp add: quiet_def bind_inv bind_fields fmsubset_refl)

lemma quiet_removeEntity: "identity_inv r \<Longrightarrow> quiet r (identity_removeEntity e r)"
  by (simp add: quiet_def removeEntity_inv removeEntity_fields fmsubset_refl)

lemma quiet_removeOwnership: "identity_inv r \<Longrightarrow> quiet r (removeOwnershipBySession s r)"
  by (simp add: quiet_def removeOwnership_inv removeOwnership_fields)
    (simp add: removeOwnershipBySession_def fmsubset_refl fmdrop_subset split: option.splits)

lemma quiet_prepare:
  assumes "identity_inv r" and "prepareOwnership s r = (a, r')"
  shows "quiet r r'"
  using assms(2)
proof (cases rule: prepare_cases)
  case (fresh t)
  have "ir_nextOwnershipEpoch r \<le> ir_nextOwnershipEpoch r'"
    using fresh(3) word_fresh_le [of "ir_nextOwnershipEpoch r" "ir_nextOwnershipEpoch r"] by (simp only: fresh(5)) simp
  with prepare_inv [OF assms] show ?thesis by (simp add: quiet_def) (simp add: fresh(5) fmsubset_refl)
qed (simp add: quiet_refl assms(1))

lemma quiet_admission:
  assumes "identity_inv r"
  shows "quiet r (snd (validateAdmission now op r))"
proof -
  let ?b = "ao_identity op"
  let ?r1 = "r\<lparr>ir_admissionByCharacter := fmdrop (bd_ID ?b) (ir_admissionByCharacter r)\<rparr>"
  let ?n = "ir_nextAdmissionGeneration r + 1"
  let ?l = "\<lparr>ls_CharacterID = bd_ID ?b, ls_Generation = ?n, ls_ExpiresAt = now + characterAdmissionLeaseDuration\<rparr>"
  let ?r2 = "r\<lparr>ir_nextAdmissionGeneration := ?n, ir_admissionByCharacter := fmupd (bd_ID ?b) ?l (fmdrop (bd_ID ?b) (ir_admissionByCharacter r))\<rparr>"
  have r1: "quiet r ?r1" by (rule quiet_dropped [OF assms dropped_fmdrop])
  have r2: "quiet r ?r2" if "ir_nextAdmissionGeneration r \<noteq> - 1"
  proof -
    have "paired ?r2" using identity_invD(1) [OF assms] by (simp add: paired_def)
    moreover have "fenced ?r2" by (rule fenced_cong [OF _ _ _ identity_invD(2) [OF assms]]) (simp_all add: fmsubset_refl)
    moreover have "leased ?r2"
      using identity_invD(3) [OF assms] word_fresh_le [OF _ that] unfolding leased_def by simp
    ultimately show ?thesis by (simp add: quiet_def identity_inv_def fmsubset_refl)
  qed
  have "snd (validateAdmission now op r) \<in> {r, releaseAdmission (ao_lease op) r, ?r1} \<or>
      ir_nextAdmissionGeneration r \<noteq> - 1 \<and> snd (validateAdmission now op r) = ?r2"
    by (simp add: validateAdmission_def Let_def split: option.split sum.split)
  with r1 r2 quiet_refl [OF assms] quiet_dropped [OF assms release_dropped] show ?thesis by auto
qed


lemma activate_advances:
  assumes "quiet r r1" and "fence_Valid f \<Longrightarrow> issued r1 f \<and> ir_nextOwnershipEpoch r < fn_Epoch f"
  shows "advances r (activateOwnership f r1) (if fence_Valid f then [f] else [])"
proof (cases "fence_Valid f")
  case False
  then show ?thesis using quiet_advances [OF assms(1)] by (simp add: activateOwnership_def)
next
  case True
  note f = assms(2) [OF True]
  have "holds r h" if "fn_Epoch h \<le> ir_nextOwnershipEpoch r" "holds (activateOwnership f r1) h" for h
  proof -
    have "h \<noteq> f" using that(1) f by auto
    with that(2) True have "holds r1 h" by (simp add: holds_def activateOwnership_def split: if_split_asm)
    with assms(1) show ?thesis by (rule quiet_holds)
  qed
  moreover have "identity_inv (activateOwnership f r1)"
    by (rule activate_inv) (use assms(1) f in \<open>simp_all add: quiet_def\<close>)
  ultimately show ?thesis
    using assms(1) f True by (simp add: advances_def quiet_def activate_fields issued_def)
qed

lemma consume_next: "ir_nextOwnershipEpoch (consumeAdmission l r) = ir_nextOwnershipEpoch r"
  by (simp add: consumeAdmission_def split: option.splits)

lemma join_advances:
  assumes inv: "identity_inv r" and step: "join_step now s lease commits r = (a, r')"
  shows "advances r r' (logged a [])"
proof -
  obtain e1 r1 where j: "validateJoinAdmission now (se_CharacterIdentity s) lease r = (e1, r1)" by force
  have q1: "quiet r r1" using quiet_dropped [OF inv join_admission_dropped] j by (metis snd_conv)
  show ?thesis
  proof (cases "e1 = None \<and> validateSession (Some s) r1 = None")
    case False
    then have "\<exists>e. a = Inl e" "r' = r1"
      using step j by (auto simp: join_step_def join_admit_def split: option.splits)
    with quiet_advances [OF q1] show ?thesis by (auto simp: logged_def)
  next
    case True
    obtain p r2 where p: "prepareOwnership (Some s) r1 = (p, r2)" by force
    have q2: "quiet r r2" using quiet_trans [OF q1 quiet_prepare [OF _ p]] q1 by (simp add: quiet_def)
    have admit: "join_admit now s lease r = (p, r2)" using True j p by (simp add: join_admit_def)
    show ?thesis
    proof (cases "\<exists>f. p = Inr f \<and> commits")
      case False
      then have "\<exists>e. a = Inl e" "r' = r2" using step admit by (auto simp: join_step_def split: sum.splits if_splits)
      with quiet_advances [OF q2] show ?thesis by (auto simp: logged_def)
    next
      case True2: True
      then obtain f where f: "p = Inr f" "commits" by blast
      let ?r3 = "bindSession s r2" and ?r4 = "(case lease of None \<Rightarrow> id | Some l \<Rightarrow> consumeAdmission l) (bindSession s r2)"
      have a: "a = Inr f" "r' = activateOwnership f ?r4"
        using step admit f by (simp_all add: join_step_def join_commit_def)
      have i2: "identity_inv r2" using q2 by (simp add: quiet_def)
      have same: "ir_byEntity r2 = ir_byEntity r1" "ir_entityByCharacter r2 = ir_entityByCharacter r1"
        using p by (cases rule: prepare_cases; simp)+
      then have "validateSession (Some s) r2 = validateSession (Some s) r1" by (simp add: validateSession_def Let_def)
      with True have "validateSession (Some s) r2 = None" by simp
      then have q3: "quiet r ?r3" using quiet_trans [OF q2 quiet_bind [OF i2]] by blast
      have i3: "identity_inv ?r3" using q3 by (simp add: quiet_def)
      have q4: "quiet r ?r4"
        using q3 quiet_trans [OF q3 quiet_dropped [OF i3 consume_dropped]] by (cases lease) simp_all
      have next4: "ir_nextOwnershipEpoch ?r4 = ir_nextOwnershipEpoch r2"
        by (cases lease) (simp_all add: bind_fields consume_next)
      have "fence_Valid f \<Longrightarrow> issued ?r4 f \<and> ir_nextOwnershipEpoch r < fn_Epoch f"
        using prepare_issues [of "Some s" r1 f r2] p f q1 next4
        by (auto simp: issued_def quiet_def intro: le_less_trans)
      from activate_advances [OF q4 this] show ?thesis by (cases "fence_Valid f") (simp_all add: a logged_def)
    qed
  qed
qed

lemma transfer_advances:
  assumes inv: "identity_inv r" and step: "transfer_step e s present commits r = (a, r')"
  shows "advances r r' (logged a [])"
proof (cases "transfer_checks e s r = None \<and> present")
  case False
  then have "\<exists>x. a = Inl x" "r' = r" using step by (auto simp: transfer_step_def split: option.splits)
  with quiet_advances [OF quiet_refl [OF inv]] show ?thesis by (auto simp: logged_def)
next
  case True
  obtain p r1 where p: "prepareOwnership s r = (p, r1)" by force
  have q1: "quiet r r1" by (rule quiet_prepare [OF inv p])
  show ?thesis
  proof (cases "\<exists>f. p = Inr f \<and> commits")
    case False
    then have "\<exists>x. a = Inl x" "r' = r1" using step True p by (auto simp: transfer_step_def split: sum.splits if_splits)
    with quiet_advances [OF q1] show ?thesis by (auto simp: logged_def)
  next
    case ok: True
    then obtain f where f: "p = Inr f" "commits" by blast
    have a: "a = Inr f" "r' = removeOwnershipBySession (fn_SessionID e) (activateOwnership f r1)"
      using step True p f by (simp_all add: transfer_step_def transfer_commit_def)
    have adv: "advances r (activateOwnership f r1) (if fence_Valid f then [f] else [])"
      by (rule activate_advances [OF q1]) (use prepare_issues [of s r f r1] p f in blast)
    then have i: "identity_inv (activateOwnership f r1)" by (simp add: advances_def)
    have q: "quiet (activateOwnership f r1) r'" unfolding a by (rule quiet_removeOwnership [OF i])
    have n: "ir_nextOwnershipEpoch r' = ir_nextOwnershipEpoch (activateOwnership f r1)" by (simp add: a removeOwnership_fields)
    from adv q quiet_holds [OF q] have "advances r r' (if fence_Valid f then [f] else [])"
      unfolding advances_def issued_def n by (auto simp: quiet_def)
    then show ?thesis by (cases "fence_Valid f") (simp_all add: a logged_def)
  qed
qed

lemma owner_step_advances:
  assumes inv: "identity_inv r" and step: "owner_step x (r, fs) = (u, r', fs')"
  shows "\<exists>gs. fs' = fs @ gs \<and> length gs \<le> 1 \<and> advances r r' gs"
proof -
  have silent: "\<exists>gs. fs = fs @ gs \<and> length gs \<le> 1 \<and> advances r t gs" if "quiet r t" for t
    by (rule exI [of _ "[]"]) (simp add: quiet_advances [OF that])
  have log: "logged a fs = fs @ logged a [] \<and> length (logged a []) \<le> 1" for a :: "refusal + ownership_fence"
    by (simp add: logged_def split: sum.splits)
  note q = quiet_refl [OF inv] quiet_removeOwnership [OF inv]
  show ?thesis
  proof (cases x)
    case (OAdmit now op)
    with step have "r' = snd (validateAdmission now op r)" "fs' = fs" by simp_all
    with silent [OF quiet_admission [OF inv]] show ?thesis by simp
  next
    case (OJoin now s lease commits)
    obtain a t where j: "join_step now s lease commits r = (a, t)" by force
    with step OJoin have "r' = t" "fs' = logged a fs" by simp_all
    with log [of a] join_advances [OF inv j] show ?thesis by blast
  next
    case (ORegister s commits)
    have "quiet r (snd (register_step s commits r))"
      using q(1) quiet_bind [OF inv] by (simp add: register_step_def split: option.splits)
    moreover have "r' = snd (register_step s commits r)" "fs' = fs" using step ORegister by simp_all
    ultimately show ?thesis using silent by simp
  next
    case (OTransfer e s present commits)
    obtain a t where j: "transfer_step e s present commits r = (a, t)" by force
    with step OTransfer have "r' = t" "fs' = logged a fs" by simp_all
    with log [of a] transfer_advances [OF inv j] show ?thesis by blast
  next
    case (OUnregister s registered)
    have "quiet r (snd (unregister_step s registered r))" using q by (simp add: unregister_step_def)
    moreover have "r' = snd (unregister_step s registered r)" "fs' = fs" using step OUnregister by simp_all
    ultimately show ?thesis using silent by simp
  next
    case (OLeave s f entity)
    have "quiet r (identity_removeEntity e (removeOwnershipBySession s r))" for e
      using quiet_trans [OF q(2) quiet_removeEntity] removeOwnership_inv [OF inv] by blast
    with q(1) have "quiet r (snd (leave_step s f entity r))"
      by (simp add: leave_step_def split: option.splits)
    moreover have "r' = snd (leave_step s f entity r)" "fs' = fs" using step OLeave by simp_all
    ultimately show ?thesis using silent by simp
  qed
qed

lemma advances_trans:
  assumes "advances r r1 gs" and "advances r1 r2 hs"
  shows "advances r r2 (gs @ hs)"
proof -
  have le: "ir_nextOwnershipEpoch r \<le> ir_nextOwnershipEpoch r1" "ir_nextOwnershipEpoch r1 \<le> ir_nextOwnershipEpoch r2"
    using assms by (simp_all add: advances_def)
  have "issued r2 g \<and> ir_nextOwnershipEpoch r < fn_Epoch g" if "g \<in> set (gs @ hs)" for g
    using that assms le issued_mono [OF _ le(2)] unfolding advances_def by (auto intro: le_less_trans)
  moreover have "holds r f" if "fn_Epoch f \<le> ir_nextOwnershipEpoch r" "holds r2 f" for f
    using that assms le order_trans [OF that(1) le(1)] unfolding advances_def by blast
  ultimately show ?thesis using assms le order_trans [OF le] unfolding advances_def by blast
qed

text \<open>The epochs of the fences a history activates only go up.\<close>

definition owner_inv :: "identity_registry \<times> ownership_fence list \<Rightarrow> bool" where
  "owner_inv = (\<lambda>(r, fs). identity_inv r \<and> (\<forall>f \<in> set fs. issued r f) \<and> sorted_wrt (<) (map fn_Epoch fs))"

lemma owner_step_inv: "owner_inv st \<Longrightarrow> owner_inv (snd (owner_step x st))"
proof -
  assume inv: "owner_inv st"
  obtain r fs where st: "st = (r, fs)" by (cases st)
  obtain u r' fs' where step: "owner_step x (r, fs) = (u, r', fs')" by (metis prod.exhaust)
  have i: "identity_inv r" "\<forall>f \<in> set fs. issued r f" "sorted_wrt (<) (map fn_Epoch fs)"
    using inv by (simp_all add: owner_inv_def st)
  obtain gs where gs: "fs' = fs @ gs" "length gs \<le> 1" "advances r r' gs"
    using owner_step_advances [OF i(1) step] by blast
  have le: "ir_nextOwnershipEpoch r \<le> ir_nextOwnershipEpoch r'" using gs(3) by (simp add: advances_def)
  have "\<forall>f \<in> set fs'. issued r' f"
    using i(2) issued_mono [OF _ le] gs unfolding advances_def by auto
  moreover have "fn_Epoch f < fn_Epoch g" if "f \<in> set fs" "g \<in> set gs" for f g
    using that i(2) gs(3) unfolding advances_def issued_def by (meson le_less_trans)
  then have "sorted_wrt (<) (map fn_Epoch fs')"
    using i(3) gs(1,2) by (cases gs) (simp_all add: sorted_wrt_append)
  moreover have "identity_inv r'" using gs(3) by (simp add: advances_def)
  ultimately show ?thesis by (simp add: owner_inv_def st step)
qed

interpretation owners: kept_invariant owner_step owner_inv
  by unfold_locales (rule owner_step_inv)

lemma owner_run_advances:
  "identity_inv r \<Longrightarrow> run_ops owner_step xs (r, fs) = (r', fs') \<Longrightarrow> \<exists>gs. fs' = fs @ gs \<and> advances r r' gs"
proof (induction xs arbitrary: r fs)
  case Nil
  then show ?case using quiet_advances [OF quiet_refl] by auto
next
  case (Cons x xs)
  obtain u r1 fs1 where step: "owner_step x (r, fs) = (u, r1, fs1)" by (metis prod.exhaust)
  obtain gs where gs: "fs1 = fs @ gs" "advances r r1 gs"
    using owner_step_advances [OF Cons.prems(1) step] by blast
  then have "identity_inv r1" by (simp add: advances_def)
  from Cons.IH [OF this, of fs1] Cons.prems(2) step gs(1) obtain hs where "fs' = fs1 @ hs" "advances r1 r' hs" by auto
  with gs advances_trans [OF gs(2)] show ?case by auto
qed

lemma new_identity_inv: "owner_inv (newCharacterIdentityRegistry, [])"
  by (simp add: owner_inv_def identity_inv_def paired_def fenced_def leased_def newCharacterIdentityRegistry_def)


section \<open>A live lease is exclusive\<close>

definition same_lease :: "admission_lease \<Rightarrow> admission_lease option \<Rightarrow> bool" where
  "same_lease l k =
     (case k of None \<Rightarrow> False | Some k \<Rightarrow> ls_CharacterID k = ls_CharacterID l \<and> ls_Generation k = ls_Generation l)"

text \<open>Operations before the lease expires that neither give it back nor use it.\<close>

fun spares :: "admission_lease \<Rightarrow> owner_op \<Rightarrow> bool" where
  "spares l (OAdmit now op) = (if ao_release op then \<not> same_lease l (ao_lease op) else now < ls_ExpiresAt l)"
| "spares l (OJoin now s lease commits) = (now < ls_ExpiresAt l \<and> \<not> same_lease l lease)"
| "spares l _ = True"

abbreviation lease_held :: "admission_lease \<Rightarrow> identity_registry \<Rightarrow> bool" where
  "lease_held l r \<equiv> fmlookup (ir_admissionByCharacter r) (ls_CharacterID l) = Some l"

lemma reserve_held:
  assumes "lease_held l r" and "ao_release op \<Longrightarrow> \<not> same_lease l (ao_lease op)" and "\<not> ao_release op \<Longrightarrow> now < ls_ExpiresAt l"
  shows "lease_held l (snd (validateAdmission now op r))"
proof (cases "ao_release op")
  case True
  with assms(1,2) show ?thesis
    by (auto simp: validateAdmission_def releaseAdmission_def same_lease_def split: option.splits)
next
  case False
  show ?thesis
  proof (cases "bd_ID (ao_identity op) = ls_CharacterID l")
    case True
    have "snd (validateAdmission now op r) = r"
      using assms False True by (simp add: validateAdmission_def Let_def split: option.split sum.split)
    with assms(1) show ?thesis by simp
  next
    case other: False
    then show ?thesis using assms(1) False
      by (simp add: validateAdmission_def Let_def split: option.split sum.split)
  qed
qed

lemma join_admission_held:
  "lease_held l r \<Longrightarrow> now < ls_ExpiresAt l \<Longrightarrow> lease_held l (snd (validateJoinAdmission now b lease r))"
  by (cases "bd_ID b = ls_CharacterID l") (simp_all add: validateJoinAdmission_def Let_def split: option.split)

lemma join_admission_exact:
  assumes "lease_held l r" and "now < ls_ExpiresAt l" and "bd_ID b = ls_CharacterID l" and "bd_Assurance b = AssuranceTrusted"
  shows "fst (validateJoinAdmission now b lease r) = None \<longleftrightarrow>
    (\<exists>k. lease = Some k \<and> lease_Valid k \<and> same_lease l lease \<and> now < ls_ExpiresAt k)"
  using assms by (cases lease) (auto simp: validateJoinAdmission_def Let_def same_lease_def)

lemma join_admission_owner:
  "fst (validateJoinAdmission now b (Some k) r) = None \<Longrightarrow> ls_CharacterID k = bd_ID b \<and> bd_Assurance b = AssuranceTrusted"
  by (auto simp: validateJoinAdmission_def Let_def split: if_splits option.splits)

lemma prepare_admissions: "ir_admissionByCharacter (snd (prepareOwnership s r)) = ir_admissionByCharacter r"
  by (simp add: prepareOwnership_def Let_def split: option.split)

lemma join_held:
  assumes held: "lease_held l r" and now: "now < ls_ExpiresAt l" and other: "\<not> same_lease l lease"
  shows "lease_held l (snd (join_step now s lease commits r))"
proof -
  let ?b = "se_CharacterIdentity s"
  obtain e1 r1 where j: "validateJoinAdmission now ?b lease r = (e1, r1)" by force
  have h1: "lease_held l r1" using join_admission_held [OF held now, of ?b lease] by (simp add: j)
  have "lease_held l r2" if "join_admit now s lease r = (a, r2)" for a r2
    using that h1 prepare_admissions [of "Some s" r1] by (auto simp: join_admit_def j split: option.splits)
  moreover have "lease_held l (join_commit s lease f r2)"
    if a: "join_admit now s lease r = (Inr f, r2)" and h2: "lease_held l r2" for f r2
  proof (cases lease)
    case None
    then show ?thesis using h2 by (simp add: join_commit_def activate_fields bind_fields)
  next
    case (Some k)
    have "e1 = None" using a by (simp add: join_admit_def j split: option.splits)
    then have "ls_CharacterID k = bd_ID ?b" "bd_Assurance ?b = AssuranceTrusted"
      using join_admission_owner [of now ?b k r] j Some by simp_all
    moreover have "ls_CharacterID k \<noteq> ls_CharacterID l"
      using join_admission_exact [OF held now, of ?b lease] j \<open>e1 = None\<close> other calculation Some by auto
    ultimately show ?thesis
      using h2 Some by (simp add: join_commit_def activate_fields bind_fields consumeAdmission_def split: option.split)
  qed
  ultimately show ?thesis by (auto simp: join_step_def split: sum.split prod.split)
qed

lemma owner_step_held:
  assumes "lease_held l (fst st)" and "spares l x"
  shows "lease_held l (fst (snd (owner_step x st)))"
proof -
  obtain r fs where st: "st = (r, fs)" by (cases st)
  show ?thesis
  proof (cases x)
    case (OAdmit now op)
    then show ?thesis using assms st reserve_held [of r l op now] by (simp split: if_splits)
  next
    case (OJoin now s lease commits)
    then show ?thesis using assms st join_held [of r l now lease s commits]
      by (cases "join_step now s lease commits r") simp
  next
    case (OTransfer e s present commits)
    have "ir_admissionByCharacter (snd (transfer_step e s present commits r)) = ir_admissionByCharacter r"
      using prepare_admissions [of s r]
      by (auto simp: transfer_step_def transfer_commit_def removeOwnership_fields activate_fields split: option.split sum.split prod.split)
    with OTransfer assms(1) st show ?thesis by (cases "transfer_step e s present commits r") simp
  qed (use assms(1) st in \<open>simp_all add: register_step_def unregister_step_def leave_step_def bind_fields removeOwnership_fields
      removeEntity_fields split: option.split\<close>)
qed

lemma owner_run_held: "lease_held l (fst st) \<Longrightarrow> list_all (spares l) xs \<Longrightarrow> lease_held l (fst (run_ops owner_step xs st))"
proof (induction xs arbitrary: st)
  case (Cons x xs)
  then show ?case using owner_step_held [of st l x] by simp
qed simp

lemma reserve_leases:
  assumes "validateAdmission now op r = (Inr (Leased l), r1)"
  shows "lease_held l r1 \<and> ls_CharacterID l = bd_ID (ao_identity op) \<and> ls_CharacterID l \<noteq> '''' \<and>
    ls_Generation l \<noteq> 0 \<and> ls_ExpiresAt l = now + characterAdmissionLeaseDuration"
proof -
  have "binding_Valid (ao_identity op) \<Longrightarrow> bd_ID (ao_identity op) \<noteq> ''''"
    by (auto simp: binding_Valid_def Let_def split: if_splits)
  moreover have "n + 1 \<noteq> 0" if "n \<noteq> - 1" for n :: u64 using that by (simp add: eq_neg_iff_add_eq_0)
  ultimately show ?thesis
    using assms by (auto simp: validateAdmission_def Let_def split: if_splits option.splits sum.splits)
qed

section \<open>The properties\<close>

text \<open>
  C3. A takeover is final. In any history of joins, registrations, transfers, leaves and reservations,
  a transfer that succeeds hands the same entity and character to the new session with a fresh epoch
  that is valid at once, while the fence of the old session is stale from then on, whatever happens
  later: its leave is refused and changes nothing. The epochs activated over time only increase, and
  at every moment an entity has one character and a character one entity.
\<close>

theorem takeover_final:
  assumes "run_ops owner_step xs (newCharacterIdentityRegistry, []) = (r, fs)"
    and "transfer_step e s present commits r = (Inr g, r1)"
    and "run_ops owner_step ys (r1, fs @ [g]) = (r2, gs)"
  shows "fn_CharacterID g = fn_CharacterID e \<and> fn_EntityID g = fn_EntityID e \<and> fn_SessionID g \<noteq> fn_SessionID e \<and>
    (fn_SessionID g \<noteq> 0 \<longrightarrow> validateOwnership (fn_SessionID g) g r1 = None) \<and>
    validateOwnership (fn_SessionID e) e r2 = Some ErrCharacterOwnershipFenceStale \<and>
    leave_step (fn_SessionID e) e entity r2 = (Some (OwnerRefused ErrCharacterOwnershipFenceStale), r2) \<and>
    (fn_SessionID g \<noteq> 0 \<longrightarrow> sorted_wrt (<) (map fn_Epoch gs)) \<and> paired r2"
proof -
  have inv: "owner_inv (r, fs)" using owners.run_inv [OF new_identity_inv, of xs] by (simp add: assms(1))
  then have ri: "identity_inv r" by (simp add: owner_inv_def)
  have checks: "transfer_checks e s r = None" and "present"
    using assms(2) by (auto simp: transfer_step_def split: option.splits if_splits)
  obtain t where t: "s = Some t" "fence_Valid e" "binding_Valid (se_CharacterIdentity t)"
      "bd_Assurance (se_CharacterIdentity t) = AssuranceTrusted" "bd_ID (se_CharacterIdentity t) = fn_CharacterID e"
      "se_EntityID t = fn_EntityID e" "se_ID t \<noteq> fn_SessionID e" "validateOwnership (fn_SessionID e) e r = None"
    using checks by (auto simp: transfer_checks_def Let_def split: option.splits if_splits)
  obtain p r0 where p: "prepareOwnership s r = (p, r0)" by force
  then have g: "p = Inr g" "r1 = transfer_commit e g r0"
    using assms(2) checks \<open>present\<close> by (auto simp: transfer_step_def split: sum.splits if_splits)
  have next_r: "ir_nextOwnershipEpoch r \<noteq> - 1" using p g(1) t by (auto simp: prepareOwnership_def Let_def split: if_splits)
  have gdef: "g = \<lparr>fn_SessionID = se_ID t, fn_EntityID = se_EntityID t, fn_CharacterID = bd_ID (se_CharacterIdentity t),
      fn_Epoch = ir_nextOwnershipEpoch r + 1\<rparr>"
    using p g(1) t next_r by (simp add: prepareOwnership_def Let_def)
  have e_old: "holds r e" "fn_Epoch e \<le> ir_nextOwnershipEpoch r"
    using t(8) ri unfolding validate_holds identity_inv_def fenced_def issued_def holds_def by blast+
  have valid: "fence_Valid g" if "fn_SessionID g \<noteq> 0"
    using that t next_r by (simp add: gdef fence_Valid_def eq_neg_iff_add_eq_0)
  have "ir_ownershipBySession r0 = ir_ownershipBySession r" using p by (cases rule: prepare_cases) simp_all
  then have e_r0: "fmlookup (ir_ownershipBySession r0) (fn_SessionID e) = Some e" using e_old(1) by (simp add: holds_def)
  have ne: "g \<noteq> e" using t(7) by (auto simp: gdef)
  have adv1: "advances r r1 (logged (Inr g :: refusal + ownership_fence) [])" by (rule transfer_advances [OF ri assms(2)])
  then have r1: "identity_inv r1" by (simp add: advances_def)
  obtain hs where hs: "gs = (fs @ [g]) @ hs" "advances r1 r2 hs" using owner_run_advances [OF r1 assms(3)] by blast
  have stale1: "\<not> holds r1 e"
    by (simp add: g(2) holds_def transfer_commit_def removeOwnershipBySession_def activateOwnership_def split: option.split)
  have le: "fn_Epoch e \<le> ir_nextOwnershipEpoch r1"
    using e_old(2) adv1 order_trans unfolding advances_def by blast
  have stale2: "\<not> holds r2 e" using hs(2) le stale1 unfolding advances_def by blast
  then have v: "validateOwnership (fn_SessionID e) e r2 = Some ErrCharacterOwnershipFenceStale"
    by (rule validate_stale [OF t(2)])
  have "validateOwnership (fn_SessionID g) g r1 = None" if "fn_SessionID g \<noteq> 0"
    using valid [OF that] ne e_r0 t(7)
    by (simp add: validate_holds g(2) holds_def transfer_commit_def removeOwnershipBySession_def activateOwnership_def)
      (simp add: gdef)
  moreover have "sorted_wrt (<) (map fn_Epoch gs)" if "fn_SessionID g \<noteq> 0"
  proof -
    have "owner_inv (snd (owner_step (OTransfer e s present commits) (r, fs)))" by (rule owner_step_inv [OF inv])
    then have "owner_inv (r1, fs @ [g])" using assms(2) valid [OF that] by (simp add: logged_def)
    then show ?thesis using owners.run_inv [of "(r1, fs @ [g])" ys] by (simp add: assms(3) owner_inv_def)
  qed
  moreover have "paired r2" using hs(2) by (simp add: advances_def identity_inv_def)
  moreover have "leave_step (fn_SessionID e) e entity r2 = (Some (OwnerRefused ErrCharacterOwnershipFenceStale), r2)"
    by (simp add: leave_step_def t(2) v)
  ultimately show ?thesis using v t by (simp add: gdef)
qed

text \<open>
  C17. A reservation is exclusive. After a lease is issued, whatever happens before it expires other than
  its release or a join that presents it: no second lease is issued for the character, a join of
  the character passes the admission only when it presents that lease, and with it it passes.
\<close>

theorem admission_exclusive:
  assumes "validateAdmission now op r = (Inr (Leased l), r1)" and "list_all (spares l) xs"
    and "run_ops owner_step xs (r1, fs) = (r2, gs)" and "0 \<le> now" and "t < ls_ExpiresAt l"
    and "b = ao_identity op"
  shows "(\<forall>o2 k. ao_identity o2 = b \<longrightarrow> fst (validateAdmission t o2 r2) \<noteq> Inr (Leased k)) \<and>
    (fst (validateJoinAdmission t b lease r2) = None \<longleftrightarrow>
      (\<exists>k. lease = Some k \<and> lease_Valid k \<and> same_lease l lease \<and> t < ls_ExpiresAt k)) \<and>
    fst (validateJoinAdmission t b (Some l) r2) = None"
proof -
  note l = reserve_leases [OF assms(1)]
  have held: "lease_held l r2"
    using owner_run_held [of "(r1, fs)" l xs, OF _ assms(2)] l [THEN conjunct1] by (simp add: assms(3))
  have trusted: "bd_Assurance b = AssuranceTrusted"
    using assms(1,6) by (auto simp: validateAdmission_def Let_def split: if_splits)
  have id: "bd_ID b = ls_CharacterID l" using l assms(6) by simp
  have "ls_ExpiresAt l \<noteq> 0" using l assms(4) by (simp add: characterAdmissionLeaseDuration_def)
  then have "lease_Valid l" using l unfolding lease_Valid_def by blast
  moreover have "same_lease l (Some l)" by (simp add: same_lease_def)
  moreover have "fst (validateAdmission t o2 r2) \<noteq> Inr (Leased k)" if "ao_identity o2 = b" for o2 k
    using held assms(5) id that by (simp add: validateAdmission_def Let_def split: option.split sum.split)
  moreover have "fst (validateJoinAdmission t b (Some l) r2) = None"
    unfolding join_admission_exact [OF held assms(5) id trusted] using calculation(1,2) assms(5) by blast
  ultimately show ?thesis by (simp add: join_admission_exact [OF held assms(5) id trusted])
qed

definition sample_alice :: "u64 \<Rightarrow> session" where
  "sample_alice n = \<lparr>se_ID = n, se_EntityID = 10, se_CharacterIdentity = \<lparr>bd_ID = ''alice'', bd_Assurance = AssuranceTrusted\<rparr>,
     se_AOIRadius = 0, se_connection = 0, se_lastProcessedInputSequence = 0, se_lastProcessedActionSequence = 0,
     se_nextReliableSequence = 0, se_nextRealtimeSequence = 0\<rparr>"

definition sample_fence :: "u64 \<Rightarrow> ownership_fence" where
  "sample_fence n = \<lparr>fn_SessionID = n, fn_EntityID = 10, fn_CharacterID = ''alice'', fn_Epoch = n\<rparr>"

definition sample_reserve :: admission_operation where
  "sample_reserve = \<lparr>ao_identity = \<lparr>bd_ID = ''alice'', bd_Assurance = AssuranceTrusted\<rparr>,
     ao_lease = Some \<lparr>ls_CharacterID = '''', ls_Generation = 0, ls_ExpiresAt = 0\<rparr>, ao_wantsOwnership = False, ao_release = False\<rparr>"

lemma sample_valid: "binding_Valid \<lparr>bd_ID = ''alice'', bd_Assurance = AssuranceTrusted\<rparr>"
  by code_simp

theorem takeover_final_witness:
  "\<exists>g r1. transfer_step (sample_fence 1) (Some (sample_alice 2)) True True
       (fst (run_ops owner_step [OJoin 5 (sample_alice 1) None True] (newCharacterIdentityRegistry, []))) = (Inr g, r1) \<and>
     validateOwnership (fn_SessionID g) g r1 = None \<and>
     validateOwnership 1 (sample_fence 1)
       (fst (run_ops owner_step [ORegister (Some (sample_alice 3)) True, OUnregister 2 True] (r1, [sample_fence 1, g]))) =
       Some ErrCharacterOwnershipFenceStale"
proof -
  let ?xs = "[OJoin 5 (sample_alice 1) None True]"
  let ?ys = "[ORegister (Some (sample_alice 3)) True, OUnregister 2 True]"
  obtain r fs where run: "run_ops owner_step ?xs (newCharacterIdentityRegistry, []) = (r, fs)" by force
  note defs = sample_alice_def sample_fence_def newCharacterIdentityRegistry_def Let_def fence_Valid_def
  have r: "r = \<lparr>ir_byEntity = fmupd 10 (se_CharacterIdentity (sample_alice 1)) fmempty,
      ir_entityByCharacter = fmupd ''alice'' 10 fmempty, ir_admissionByCharacter = fmempty,
      ir_ownershipByCharacter = fmupd ''alice'' (sample_fence 1) fmempty, ir_ownershipBySession = fmupd 1 (sample_fence 1) fmempty,
      ir_nextAdmissionGeneration = 0, ir_nextOwnershipEpoch = 1\<rparr>" and fs: "fs = [sample_fence 1]"
    using run
    by (simp_all add: defs join_step_def join_admit_def validateJoinAdmission_def validateSession_def sample_valid
        prepareOwnership_def join_commit_def bindSession_def activateOwnership_def logged_def)
  have ok: "transfer_checks (sample_fence 1) (Some (sample_alice 2)) r = None"
    by (simp add: r defs transfer_checks_def sample_valid validateOwnership_def validateSession_def)
  obtain r1 where step: "transfer_step (sample_fence 1) (Some (sample_alice 2)) True True r = (Inr (sample_fence 2), r1)"
    by (simp add: transfer_step_def ok prepareOwnership_def Let_def) (simp add: r defs sample_valid)
  obtain r2 gs where ys: "run_ops owner_step ?ys (r1, fs @ [sample_fence 2]) = (r2, gs)" by force
  have "fn_SessionID (sample_fence 2) \<noteq> 0" "fn_SessionID (sample_fence 1) = 1" by (simp_all add: sample_fence_def)
  with takeover_final [OF run step ys] have
    "validateOwnership (fn_SessionID (sample_fence 2)) (sample_fence 2) r1 = None \<and>
     validateOwnership 1 (sample_fence 1) r2 = Some ErrCharacterOwnershipFenceStale" by simp
  then show ?thesis using step ys by (simp only: run fst_conv fs append.simps) (metis fst_conv)
qed

theorem admission_exclusive_witness:
  "\<exists>l r1. validateAdmission 5 sample_reserve newCharacterIdentityRegistry = (Inr (Leased l), r1) \<and>
     fst (validateJoinAdmission 9 (ao_identity sample_reserve) None
       (fst (run_ops owner_step [OJoin 7 (sample_alice 1) None True, OAdmit 8 sample_reserve] (r1, [])))) \<noteq> None"
proof -
  have "\<exists>l. fst (validateAdmission 5 sample_reserve newCharacterIdentityRegistry) = Inr (Leased l)"
    by (simp add: validateAdmission_def Let_def sample_reserve_def sample_valid newCharacterIdentityRegistry_def)
  then obtain l r1 where l: "validateAdmission 5 sample_reserve newCharacterIdentityRegistry = (Inr (Leased l), r1)"
    by (metis prod.collapse)
  let ?xs = "[OJoin 7 (sample_alice 1) None True, OAdmit 8 sample_reserve]"
  have t: "9 < ls_ExpiresAt l" "list_all (spares l) ?xs"
    using reserve_leases [OF l] by (simp_all add: characterAdmissionLeaseDuration_def same_lease_def sample_reserve_def)
  obtain r2 gs where run: "run_ops owner_step ?xs (r1, []) = (r2, gs)" by force
  have "fst (validateJoinAdmission 9 (ao_identity sample_reserve) None r2) \<noteq> None"
    using admission_exclusive [OF l t(2) run _ t(1) refl, of None] by (simp add: same_lease_def)
  with l run show ?thesis by (metis fst_conv)
qed

end
