(* ===== verification/SnapshotSelection.thy ===== *)
theory SnapshotSelection
  imports Complex_Main SimulationWorld "HOL-Library.Product_Lexorder"
begin

text \<open>
  Which transforms a snapshot carries (\<open>internal/replication/policy.go\<close> and the selection of
  \<open>service.go\<close>): tiers by distance, how urgent a candidate is, and the bounded choice of the most
  urgent ones with the binary heap of \<open>container/heap\<close>.
\<close>

section \<open>Policy\<close>

datatype tier = TierCritical | TierNear | TierMid | TierFar

fun tier_number :: "tier \<Rightarrow> nat" where
  "tier_number TierCritical = 0"
| "tier_number TierNear = 1"
| "tier_number TierMid = 2"
| "tier_number TierFar = 3"

instantiation tier :: linorder
begin

definition "(a :: tier) \<le> b = (tier_number a \<le> tier_number b)"

definition "(a :: tier) < b = (tier_number a < tier_number b)"

instance
proof
  show "a \<le> b \<Longrightarrow> b \<le> a \<Longrightarrow> a = b" for a b :: tier
    by (cases a; cases b) (simp_all add: less_eq_tier_def)
qed (auto simp: less_eq_tier_def less_tier_def)

end

record replication_policy =
  pl_NearRadius :: f32
  pl_MidRadius :: f32
  pl_NearEveryBuilds :: u64
  pl_MidEveryBuilds :: u64
  pl_FarEveryBuilds :: u64
  pl_NearRefreshEveryBuilds :: u64
  pl_MidRefreshEveryBuilds :: u64
  pl_FarRefreshEveryBuilds :: u64
  pl_MaxTransformsPerBuild :: int

text \<open>The radii are 12 and 32.\<close>

definition DefaultPolicy :: replication_policy where
  "DefaultPolicy =
     \<lparr>pl_NearRadius = 0x41400000, pl_MidRadius = 0x42000000, pl_NearEveryBuilds = 1, pl_MidEveryBuilds = 2,
      pl_FarEveryBuilds = 5, pl_NearRefreshEveryBuilds = 10, pl_MidRefreshEveryBuilds = 20,
      pl_FarRefreshEveryBuilds = 40, pl_MaxTransformsPerBuild = 64\<rparr>"

definition policy_IsZero :: "replication_policy \<Rightarrow> bool" where
  "policy_IsZero p =
     (f32_eq (pl_NearRadius p) 0 \<and> f32_eq (pl_MidRadius p) 0 \<and> pl_NearEveryBuilds p = 0 \<and> pl_MidEveryBuilds p = 0 \<and>
      pl_FarEveryBuilds p = 0 \<and> pl_NearRefreshEveryBuilds p = 0 \<and> pl_MidRefreshEveryBuilds p = 0 \<and>
      pl_FarRefreshEveryBuilds p = 0 \<and> pl_MaxTransformsPerBuild p = 0)"

definition policy_Validate :: "replication_policy \<Rightarrow> bool" where
  "policy_Validate p =
     (if f32_leq (pl_NearRadius p) 0 \<or> f32_leq (pl_MidRadius p) (pl_NearRadius p) then False
      else if pl_NearEveryBuilds p = 0 \<or> pl_MidEveryBuilds p = 0 \<or> pl_FarEveryBuilds p = 0 then False
      else if pl_NearRefreshEveryBuilds p < pl_NearEveryBuilds p \<or> pl_MidRefreshEveryBuilds p < pl_MidEveryBuilds p \<or>
        pl_FarRefreshEveryBuilds p < pl_FarEveryBuilds p then False
      else \<not> pl_MaxTransformsPerBuild p \<le> 0)"

text \<open>An invalid policy panics.\<close>

definition resolvedPolicy :: "replication_policy \<Rightarrow> replication_policy option" where
  "resolvedPolicy p = (if policy_IsZero p then Some DefaultPolicy else if policy_Validate p then Some p else None)"

definition policy_tier :: "replication_policy \<Rightarrow> position \<Rightarrow> position \<Rightarrow> tier" where
  "policy_tier p self target =
     (let dx = f32_sub (pos_X target) (pos_X self);
          dy = f32_sub (pos_Y target) (pos_Y self);
          dz = f32_sub (pos_Z target) (pos_Z self);
          distanceSquared = f32_add (f32_add (f32_mul dx dx) (f32_mul dy dy)) (f32_mul dz dz)
      in if f32_leq distanceSquared (f32_mul (pl_NearRadius p) (pl_NearRadius p)) then TierNear
         else if f32_leq distanceSquared (f32_mul (pl_MidRadius p) (pl_MidRadius p)) then TierMid
         else TierFar)"

fun policy_cadence :: "replication_policy \<Rightarrow> tier \<Rightarrow> u64" where
  "policy_cadence p TierNear = pl_NearEveryBuilds p"
| "policy_cadence p TierMid = pl_MidEveryBuilds p"
| "policy_cadence p TierFar = pl_FarEveryBuilds p"
| "policy_cadence p TierCritical = 1"

fun policy_refresh :: "replication_policy \<Rightarrow> tier \<Rightarrow> u64" where
  "policy_refresh p TierNear = pl_NearRefreshEveryBuilds p"
| "policy_refresh p TierMid = pl_MidRefreshEveryBuilds p"
| "policy_refresh p TierFar = pl_FarRefreshEveryBuilds p"
| "policy_refresh p TierCritical = 1"

section \<open>Candidates\<close>

record snapshot_candidate =
  sn_entity :: entity_state
  sn_generation :: u64
  sn_trackIndex :: nat
  sn_tier :: tier
  sn_age :: u64
  sn_cadence :: u64
  sn_dirty :: bool

text \<open>Ages are compared relative to the cadence, by cross multiplication.\<close>

definition candidateHigherPriority :: "snapshot_candidate \<Rightarrow> snapshot_candidate \<Rightarrow> bool" where
  "candidateHigherPriority a b =
     (let left = sn_age a * sn_cadence b; right = sn_age b * sn_cadence a in
      if left \<noteq> right then left > right
      else if sn_dirty a \<noteq> sn_dirty b then sn_dirty a
      else if sn_tier a \<noteq> sn_tier b then sn_tier a < sn_tier b
      else if sn_age a \<noteq> sn_age b then sn_age a > sn_age b
      else en_ID (sn_entity a) < en_ID (sn_entity b))"

section \<open>The heap of the library\<close>

text \<open>
  \<open>heap.Init\<close> and \<open>heap.Fix\<close> at the root, where moving up does nothing. \<open>lt\<close> is the \<open>Less\<close> of the heap on
  the values at two indices.
\<close>

definition heap_kid :: "('a \<Rightarrow> 'a \<Rightarrow> bool) \<Rightarrow> 'a list \<Rightarrow> nat \<Rightarrow> nat" where
  "heap_kid lt xs i =
     (if 2 * i + 2 < length xs \<and> lt (xs ! (2 * i + 2)) (xs ! (2 * i + 1)) then 2 * i + 2 else 2 * i + 1)"

function heap_down :: "('a \<Rightarrow> 'a \<Rightarrow> bool) \<Rightarrow> 'a list \<Rightarrow> nat \<Rightarrow> 'a list" where
  "heap_down lt xs i =
     (if length xs \<le> 2 * i + 1 then xs
      else let j = heap_kid lt xs i in
      if \<not> lt (xs ! j) (xs ! i) then xs
      else heap_down lt (xs[i := xs ! j, j := xs ! i]) j)"
  by pat_completeness auto
termination
  by (relation "measure (\<lambda>(lt, xs, i). length xs - i)") (auto simp: Let_def heap_kid_def split: if_splits)

declare heap_down.simps [simp del]

definition heap_Init :: "('a \<Rightarrow> 'a \<Rightarrow> bool) \<Rightarrow> 'a list \<Rightarrow> 'a list" where
  "heap_Init lt xs = fold (\<lambda>i ys. heap_down lt ys i) (rev [0..<length xs div 2]) xs"

definition heap_Fix0 :: "('a \<Rightarrow> 'a \<Rightarrow> bool) \<Rightarrow> 'a list \<Rightarrow> 'a list" where
  "heap_Fix0 lt xs = heap_down lt xs 0"

section \<open>The bounded selection\<close>

text \<open>
  The slice and the heap share their storage, so there is one list: in the order of arrival until the
  budget is exceeded for the first time, a heap with the least urgent at its root from then on.
\<close>

record snapshot_selection =
  sl_selected :: "snapshot_candidate list"
  sl_budget :: int
  sl_count :: nat
  sl_heapReady :: bool

definition newSnapshotSelection :: "int \<Rightarrow> snapshot_selection" where
  "newSnapshotSelection budget = \<lparr>sl_selected = [], sl_budget = budget, sl_count = 0, sl_heapReady = False\<rparr>"

definition candidate_worse :: "snapshot_candidate \<Rightarrow> snapshot_candidate \<Rightarrow> bool" where
  "candidate_worse a b = candidateHigherPriority b a"

definition selection_Consider :: "snapshot_candidate \<Rightarrow> snapshot_selection \<Rightarrow> snapshot_selection" where
  "selection_Consider c s =
     (let s1 = s\<lparr>sl_count := sl_count s + 1\<rparr> in
      if sl_budget s \<le> 0 \<or> int (length (sl_selected s)) < sl_budget s
      then s1\<lparr>sl_selected := sl_selected s @ [c]\<rparr>
      else let h = (if sl_heapReady s then sl_selected s else heap_Init candidate_worse (sl_selected s)) in
        s1\<lparr>sl_heapReady := True,
           sl_selected := (if candidateHigherPriority c (h ! 0) then heap_Fix0 candidate_worse (h[0 := c]) else h)\<rparr>)"

text \<open>The older two-pass selector, kept in the code for comparison.\<close>

definition selectSnapshotCandidates :: "snapshot_candidate list \<Rightarrow> int \<Rightarrow> snapshot_candidate list" where
  "selectSnapshotCandidates cs budget =
     (if budget \<le> 0 \<or> int (length cs) \<le> budget then cs
      else fold (\<lambda>c h. if candidateHigherPriority c (h ! 0) then heap_Fix0 candidate_worse (h[0 := c]) else h)
             (drop (nat budget) cs) (heap_Init candidate_worse (take (nat budget) cs)))"

section \<open>Heaps keep the least urgent at the root\<close>

definition heap_above :: "('a \<Rightarrow> 'a \<Rightarrow> bool) \<Rightarrow> nat \<Rightarrow> 'a list \<Rightarrow> bool" where
  "heap_above lt k xs =
     (\<forall>i j. k \<le> i \<and> j < length xs \<and> (j = 2 * i + 1 \<or> j = 2 * i + 2) \<longrightarrow> \<not> lt (xs ! j) (xs ! i))"

lemma heap_kid_child: "heap_kid lt xs i = 2 * i + 1 \<or> heap_kid lt xs i = 2 * i + 2"
  by (simp add: heap_kid_def)

lemma heap_kid_less: "2 * i + 1 < length xs \<Longrightarrow> heap_kid lt xs i < length xs"
  by (simp add: heap_kid_def)

lemma heap_kid_least:
  "l < length xs \<Longrightarrow> l = 2 * i + 1 \<or> l = 2 * i + 2 \<Longrightarrow> l \<noteq> heap_kid lt xs i \<Longrightarrow>
     (lt (xs ! heap_kid lt xs i) (xs ! l) \<and> heap_kid lt xs i = 2 * i + 2) \<or> \<not> lt (xs ! l) (xs ! heap_kid lt xs i)"
  by (auto simp: heap_kid_def split: if_splits)

lemma heap_down_mset: "mset (heap_down lt xs i) = mset xs"
proof (induction lt xs i rule: heap_down.induct)
  case (1 lt xs i)
  define j where "j = heap_kid lt xs i"
  show ?case
  proof (cases "length xs \<le> 2 * i + 1 \<or> \<not> lt (xs ! j) (xs ! i)")
    case True
    then show ?thesis by (subst heap_down.simps) (auto simp: Let_def j_def [symmetric])
  next
    case False
    then have "j < length xs" "i < length xs" using heap_kid_less [of i xs lt] by (simp_all add: j_def)
    then have "mset (xs[i := xs ! j, j := xs ! i]) = mset xs" by (rule mset_swap)
    moreover have "heap_down lt xs i = heap_down lt (xs[i := xs ! j, j := xs ! i]) j"
      using False by (subst heap_down.simps) (simp add: Let_def j_def [symmetric])
    ultimately show ?thesis using "1.IH" [OF _ j_def] False by simp
  qed
qed

lemma heap_down_length [simp]: "length (heap_down lt xs i) = length xs"
  by (metis heap_down_mset size_mset)

locale priority =
  fixes higher :: "'a \<Rightarrow> 'a \<Rightarrow> bool"
    and carrier :: "'a set"
  assumes asym: "a \<in> carrier \<Longrightarrow> b \<in> carrier \<Longrightarrow> higher a b \<Longrightarrow> \<not> higher b a"
    and not_trans: "a \<in> carrier \<Longrightarrow> b \<in> carrier \<Longrightarrow> c \<in> carrier \<Longrightarrow> \<not> higher a b \<Longrightarrow> \<not> higher b c \<Longrightarrow> \<not> higher a c"
begin

abbreviation worse :: "'a \<Rightarrow> 'a \<Rightarrow> bool" where
  "worse a b \<equiv> higher b a"

lemma heap_down_above:
  assumes "set xs \<subseteq> carrier" and "k \<le> t"
    and "\<And>i j. k \<le> i \<Longrightarrow> i \<noteq> t \<Longrightarrow> j < length xs \<Longrightarrow> j = 2 * i + 1 \<or> j = 2 * i + 2 \<Longrightarrow> \<not> worse (xs ! j) (xs ! i)"
    and "\<And>p j. k \<le> p \<Longrightarrow> t = 2 * p + 1 \<or> t = 2 * p + 2 \<Longrightarrow> j < length xs \<Longrightarrow> j = 2 * t + 1 \<or> j = 2 * t + 2 \<Longrightarrow>
      \<not> worse (xs ! j) (xs ! p)"
  shows "heap_above worse k (heap_down worse xs t)"
  using assms
proof (induction "length xs - t" arbitrary: xs t rule: less_induct)
  case less
  define j where "j = heap_kid worse xs t"
  show ?case
  proof (cases "length xs \<le> 2 * t + 1 \<or> \<not> worse (xs ! j) (xs ! t)")
    case True
    then have same: "heap_down worse xs t = xs" by (subst heap_down.simps) (auto simp: Let_def j_def [symmetric])
    have "\<not> worse (xs ! l) (xs ! t)" if l: "l < length xs" "l = 2 * t + 1 \<or> l = 2 * t + 2" for l
    proof -
      have n: "\<not> worse (xs ! j) (xs ! t)" "j < length xs" "t < length xs"
        using True l heap_kid_less [of t xs worse] by (auto simp: j_def)
      have c: "xs ! m \<in> carrier" if "m < length xs" for m using less.prems(1) that nth_mem by blast
      have "\<not> worse (xs ! l) (xs ! j)"
      proof (cases "l = j")
        case True
        then show ?thesis using asym [OF c [OF n(2)] c [OF n(2)]] by blast
      next
        case False
        then show ?thesis
          using heap_kid_least [OF l, of worse] asym [OF c [OF l(1)] c [OF n(2)]] by (auto simp: j_def)
      qed
      then show ?thesis using not_trans [OF c [of t] c [of j] c [of l]] n l by simp
    qed
    then show ?thesis using less.prems(3) unfolding same heap_above_def by blast
  next
    case False
    then have "2 * t + 1 < length xs" by simp
    then have n: "j < length xs" "t < length xs" "t < j" "worse (xs ! j) (xs ! t)" "j = 2 * t + 1 \<or> j = 2 * t + 2"
      using False heap_kid_less [of t xs worse] heap_kid_child [of worse xs t] by (auto simp: j_def)
    define ys where "ys = xs[t := xs ! j, j := xs ! t]"
    have step: "heap_down worse xs t = heap_down worse ys j"
      using False by (subst heap_down.simps) (simp add: Let_def j_def [symmetric] ys_def)
    have len: "length ys = length xs" by (simp add: ys_def)
    have "mset ys = mset xs" unfolding ys_def using n(1,2) by (rule mset_swap)
    then have set: "set ys = set xs" by (metis set_mset_mset)
    have c: "xs ! m \<in> carrier" if "m < length xs" for m using less.prems(1) that nth_mem by blast
    have ys: "ys ! t = xs ! j" "ys ! j = xs ! t" "\<And>m. m \<noteq> t \<Longrightarrow> m \<noteq> j \<Longrightarrow> ys ! m = xs ! m"
      using n by (simp_all add: ys_def)
    have "heap_above worse k (heap_down worse ys j)"
    proof (rule less.hyps)
      show "length ys - j < length xs - t" using n len by simp
      show "set ys \<subseteq> carrier" using less.prems(1) set by simp
      show "k \<le> j" using less.prems(2) n(3) by simp
    next
      fix i l assume i: "k \<le> i" "i \<noteq> j" "l < length ys" "l = 2 * i + 1 \<or> l = 2 * i + 2"
      show "\<not> worse (ys ! l) (ys ! i)"
      proof (cases "i = t")
        case True
        show ?thesis
        proof (cases "l = j")
          case same: True
          have "\<not> worse (xs ! t) (xs ! j)" by (rule asym [OF c [OF n(2)] c [OF n(1)] n(4)])
          then show ?thesis using True same ys by simp
        next
          case other: False
          then have "ys ! l = xs ! l" using ys(3) i(4) True by auto
          moreover have "\<not> worse (xs ! l) (xs ! j)"
            using heap_kid_least [of l xs t worse] i other True len asym [OF c [of l] c [OF n(1)]] by (auto simp: j_def)
          ultimately show ?thesis using True ys(1) by simp
        qed
      next
        case it: False
        show ?thesis
        proof (cases "l = t")
          case True
          have "\<not> worse (xs ! j) (xs ! i)"
            by (rule less.prems(4) [OF i(1) _ n(1) n(5)]) (use True i(4) in simp)
          moreover have "ys ! i = xs ! i" using ys(3) it i(2) by simp
          ultimately show ?thesis using True ys(1) by simp
        next
          case False
          have "l \<noteq> j" using i(4) n(5) it by auto
          then have "ys ! l = xs ! l" "ys ! i = xs ! i" using ys(3) False it i(2) by simp_all
          then show ?thesis using less.prems(3) [OF i(1) it _ i(4)] i(3) len by simp
        qed
      qed
    next
      fix p l assume p: "k \<le> p" "j = 2 * p + 1 \<or> j = 2 * p + 2" "l < length ys" "l = 2 * j + 1 \<or> l = 2 * j + 2"
      then have "p = t" using n(5) by auto
      moreover have "ys ! l = xs ! l" using ys(3) p(4) n(3) by auto
      moreover have "\<not> worse (xs ! l) (xs ! j)"
        by (rule less.prems(3) [OF _ _ _ p(4)]) (use less.prems(2) n(3) p(3) len in simp_all)
      ultimately show "\<not> worse (ys ! l) (ys ! p)" using ys(1) by simp
    qed
    then show ?thesis using step by simp
  qed
qed

lemma heap_Init_mset: "mset (heap_Init worse xs) = mset xs"
proof -
  have "mset (fold (\<lambda>i ys. heap_down worse ys i) is xs) = mset xs" for "is"
    by (induction "is" arbitrary: xs) (simp_all add: heap_down_mset)
  then show ?thesis by (simp add: heap_Init_def)
qed

lemma heap_Init_above:
  assumes "set xs \<subseteq> carrier"
  shows "heap_above worse 0 (heap_Init worse xs)"
proof -
  have "heap_above worse 0 (fold (\<lambda>i ys. heap_down worse ys i) (rev [0..<k]) ys)"
    if "heap_above worse k ys" "set ys \<subseteq> carrier" for k ys
    using that
  proof (induction k arbitrary: ys)
    case (Suc k)
    have "heap_above worse k (heap_down worse ys k)"
    proof (rule heap_down_above [OF Suc.prems(2)])
      fix i j assume "k \<le> i" "i \<noteq> k" "j < length ys" "j = 2 * i + 1 \<or> j = 2 * i + 2"
      then show "\<not> worse (ys ! j) (ys ! i)" using Suc.prems(1) unfolding heap_above_def by auto
    qed auto
    moreover have "set (heap_down worse ys k) \<subseteq> carrier"
      using Suc.prems(2) heap_down_mset [of worse ys k] by (metis set_mset_mset)
    ultimately show ?case using Suc.IH by simp
  qed simp
  moreover have "heap_above worse (length xs div 2) xs" by (auto simp: heap_above_def)
  ultimately show ?thesis using assms by (simp add: heap_Init_def)
qed

lemma heap_root:
  assumes "heap_above worse 0 xs" and "set xs \<subseteq> carrier" and "i < length xs"
  shows "\<not> worse (xs ! i) (xs ! 0)"
  using assms(3)
proof (induction i rule: less_induct)
  case (less i)
  have c: "xs ! m \<in> carrier" if "m < length xs" for m using assms(2) that nth_mem by blast
  show ?case
  proof (cases "i = 0")
    case True
    then show ?thesis using asym [OF c c] less.prems by blast
  next
    case False
    define p where "p = (i - 1) div 2"
    have p: "p < i" "i = 2 * p + 1 \<or> i = 2 * p + 2" using False by (auto simp: p_def)
    have "\<not> worse (xs ! p) (xs ! 0)" using less p(1) by simp
    moreover have "\<not> worse (xs ! i) (xs ! p)" using assms(1) p(2) less.prems unfolding heap_above_def by blast
    ultimately show ?thesis using not_trans [OF c [of 0] c [of p] c [of i]] less.prems p(1) less_trans [of 0 i "length xs"] False by simp
  qed
qed

end


section \<open>The most urgent are selected\<close>

text \<open>
  While ages and cadences stay below \<open>2 ^ 32\<close> the products do not wrap, and the comparison is the
  lexicographic one on the age in cadences, dirtiness, tier, age and id.
\<close>

definition candidate_ok :: "snapshot_candidate \<Rightarrow> bool" where
  "candidate_ok c = (unat (sn_age c) < 2 ^ 32 \<and> 0 < unat (sn_cadence c) \<and> unat (sn_cadence c) < 2 ^ 32)"

definition urgency :: "snapshot_candidate \<Rightarrow> real \<times> bool \<times> tier \<times> int \<times> nat" where
  "urgency c = (- (real (unat (sn_age c)) / real (unat (sn_cadence c))), \<not> sn_dirty c, sn_tier c,
     - uint (sn_age c), unat (en_ID (sn_entity c)))"

lemma lex_less: "((a :: 'a :: linorder), (b :: 'b :: linorder)) < (c, d) \<longleftrightarrow> a < c \<or> a = c \<and> b < d"
  by (auto simp: less_prod_def)

lemma product_exact:
  assumes "unat (x :: u64) < 2 ^ 32" and "unat (y :: u64) < 2 ^ 32"
  shows "unat (x * y) = unat x * unat y"
proof -
  have "unat x * unat y \<le> (2 ^ 32 - 1) * (2 ^ 32 - 1)" using assms by (intro mult_mono) auto
  then have "unat x * unat y < 2 ^ LENGTH(64)" by simp
  then show ?thesis by (rule unat_mult_lem [THEN iffD1])
qed

lemma higher_urgency:
  assumes "candidate_ok a" and "candidate_ok b"
  shows "candidateHigherPriority a b \<longleftrightarrow> urgency a < urgency b"
proof -
  let ?x = "real (unat (sn_age a)) / real (unat (sn_cadence a))" and ?y = "real (unat (sn_age b)) / real (unat (sn_cadence b))"
  have e: "unat (sn_age a * sn_cadence b) = unat (sn_age a) * unat (sn_cadence b)"
    "unat (sn_age b * sn_cadence a) = unat (sn_age b) * unat (sn_cadence a)"
    using assms by (simp_all add: candidate_ok_def product_exact)
  have p: "0 < real (unat (sn_cadence a))" "0 < real (unat (sn_cadence b))" using assms by (simp_all only: of_nat_0_less_iff candidate_ok_def)
  have less: "sn_age b * sn_cadence a < sn_age a * sn_cadence b \<longleftrightarrow> ?y < ?x"
  proof -
    have "?y < ?x \<longleftrightarrow> real (unat (sn_age b)) * real (unat (sn_cadence a)) < real (unat (sn_age a)) * real (unat (sn_cadence b))"
      using p by (simp add: divide_simps mult.commute)
    also have "\<dots> \<longleftrightarrow> unat (sn_age b) * unat (sn_cadence a) < unat (sn_age a) * unat (sn_cadence b)"
      by (simp only: of_nat_mult [symmetric] of_nat_less_iff)
    finally show ?thesis by (simp only: word_less_nat_alt e)
  qed
  have eq: "sn_age a * sn_cadence b = sn_age b * sn_cadence a \<longleftrightarrow> ?x = ?y"
  proof -
    have "?x = ?y \<longleftrightarrow> real (unat (sn_age a)) * real (unat (sn_cadence b)) = real (unat (sn_age b)) * real (unat (sn_cadence a))"
      using p by (intro frac_eq_eq) simp_all
    also have "\<dots> \<longleftrightarrow> unat (sn_age a) * unat (sn_cadence b) = unat (sn_age b) * unat (sn_cadence a)"
      by (simp only: of_nat_mult [symmetric] of_nat_eq_iff)
    finally show ?thesis by (simp only: word_unat_eq_iff e)
  qed
  have ids: "en_ID (sn_entity a) < en_ID (sn_entity b) \<longleftrightarrow> unat (en_ID (sn_entity a)) < unat (en_ID (sn_entity b))"
    by (simp add: word_less_nat_alt)
  have ages: "sn_age b < sn_age a \<longleftrightarrow> uint (sn_age b) < uint (sn_age a)" "sn_age a = sn_age b \<longleftrightarrow> uint (sn_age a) = uint (sn_age b)"
    by (simp_all add: word_less_def word_uint_eq_iff)
  show ?thesis
  proof (cases "?x = ?y")
    case False
    then have "candidateHigherPriority a b \<longleftrightarrow> ?y < ?x" by (simp add: candidateHigherPriority_def Let_def eq less)
    also have "\<dots> \<longleftrightarrow> urgency a < urgency b" using False by (simp only: urgency_def lex_less neg_less_iff_less neg_equal_iff_equal) simp
    finally show ?thesis .
  next
    case True
    then have "candidateHigherPriority a b \<longleftrightarrow> (if sn_dirty a \<noteq> sn_dirty b then sn_dirty a
      else if sn_tier a \<noteq> sn_tier b then sn_tier a < sn_tier b
      else if uint (sn_age a) \<noteq> uint (sn_age b) then uint (sn_age a) > uint (sn_age b)
      else unat (en_ID (sn_entity a)) < unat (en_ID (sn_entity b)))"
      unfolding candidateHigherPriority_def Let_def eq ages ids by simp
    also have "\<dots> \<longleftrightarrow> urgency a < urgency b"
      using True by (auto simp: urgency_def lex_less)
    finally show ?thesis .
  qed
qed

interpretation urgent: priority candidateHigherPriority "{c. candidate_ok c}"
  by unfold_locales (auto simp: higher_urgency)

lemma worse_is: "candidate_worse = (\<lambda>a b. candidateHigherPriority b a)"
  by (simp add: fun_eq_iff candidate_worse_def)

text \<open>What a selection holds after the candidates \<open>cs\<close>: the most urgent of them, up to the budget.\<close>

definition most_urgent :: "int \<Rightarrow> snapshot_candidate list \<Rightarrow> snapshot_candidate list \<Rightarrow> bool" where
  "most_urgent budget cs xs =
     (length xs = min (nat budget) (length cs) \<and> (\<exists>rest. mset cs = mset xs + mset rest \<and>
       (\<forall>x \<in> set xs. \<forall>r \<in> set rest. \<not> candidateHigherPriority r x)))"

definition selection_inv :: "int \<Rightarrow> snapshot_candidate list \<Rightarrow> snapshot_selection \<Rightarrow> bool" where
  "selection_inv budget cs s =
     (sl_budget s = budget \<and> sl_count s = length cs \<and> most_urgent budget cs (sl_selected s) \<and>
      (\<not> sl_heapReady s \<longrightarrow> sl_selected s = cs) \<and>
      (sl_heapReady s \<longrightarrow> budget < int (length cs) \<and> heap_above candidate_worse 0 (sl_selected s)))"

lemma replace_root:
  assumes "h \<noteq> []"
  shows "mset (heap_Fix0 candidate_worse (h[0 := c])) + {#h ! 0#} = mset h + {#c#}"
  using assms by (cases h) (simp_all add: heap_Fix0_def heap_down_mset)

lemma fix_above:
  assumes "heap_above candidate_worse 0 h" and "list_all candidate_ok h" and "candidate_ok c" and "h \<noteq> []"
  shows "heap_above candidate_worse 0 (heap_Fix0 candidate_worse (h[0 := c]))"
  unfolding heap_Fix0_def worse_is
proof (rule urgent.heap_down_above)
  show "set (h[0 := c]) \<subseteq> {c. candidate_ok c}"
    using assms(2,3) set_update_subset_insert [of h 0 c] by (auto simp: list_all_iff)
next
  fix i j assume i: "0 \<le> i" "i \<noteq> 0" "j < length (h[0 := c])" "j = 2 * i + 1 \<or> j = 2 * i + 2"
  then have "j \<noteq> 0" by auto
  with i have "h[0 := c] ! j = h ! j" "h[0 := c] ! i = h ! i" by simp_all
  then show "\<not> candidateHigherPriority (h[0 := c] ! i) (h[0 := c] ! j)"
    using assms(1) i unfolding heap_above_def candidate_worse_def by auto
qed simp_all

lemma Consider_inv:
  assumes inv: "selection_inv budget cs s" and b: "0 < budget" and ok: "list_all candidate_ok cs" "candidate_ok c"
  shows "selection_inv budget (cs @ [c]) (selection_Consider c s)"
proof (cases "int (length (sl_selected s)) < budget")
  case True
  have len: "length (sl_selected s) = min (nat budget) (length cs)" using inv by (simp add: selection_inv_def most_urgent_def)
  with True have "length cs < nat budget" by linarith
  then have "\<not> sl_heapReady s" using inv by (auto simp: selection_inv_def)
  then have same: "sl_selected s = cs" using inv by (simp add: selection_inv_def)
  have "length (cs @ [c]) = min (nat budget) (length (cs @ [c]))" using True same by simp
  then have "most_urgent budget (cs @ [c]) (cs @ [c])"
    unfolding most_urgent_def by (intro conjI exI [of _ "[]"]) simp_all
  then show ?thesis
    using inv True same \<open>\<not> sl_heapReady s\<close> by (simp add: selection_Consider_def selection_inv_def Let_def)
next
  case False
  define h where "h = (if sl_heapReady s then sl_selected s else heap_Init candidate_worse (sl_selected s))"
  have h_mset: "mset h = mset (sl_selected s)" by (simp add: h_def worse_is urgent.heap_Init_mset)
  have len: "length h = nat budget" "length cs \<ge> nat budget"
    using inv False b size_mset [of h] h_mset by (auto simp: selection_inv_def most_urgent_def)
  then have "h \<noteq> []" using b by auto
  obtain rest where rest: "mset cs = mset h + mset rest" "\<forall>x \<in> set h. \<forall>r \<in> set rest. \<not> candidateHigherPriority r x"
    using inv h_mset unfolding selection_inv_def most_urgent_def by (metis set_mset_mset)
  have okh: "list_all candidate_ok h" "list_all candidate_ok rest"
    using ok(1) arg_cong [OF rest(1), of set_mset] by (auto simp: list_all_iff)
  have above: "heap_above candidate_worse 0 h"
  proof (cases "sl_heapReady s")
    case True
    then show ?thesis using inv by (simp add: h_def selection_inv_def)
  next
    case False
    have "list_all candidate_ok (sl_selected s)" using okh(1) h_mset by (metis list_all_iff set_mset_mset)
    then show ?thesis using False urgent.heap_Init_above [of "sl_selected s"] by (simp add: h_def worse_is list_all_iff subset_eq)
  qed
  have root: "\<not> candidateHigherPriority (h ! 0) x" if "x \<in> set h" for x
  proof -
    from that obtain i where "i < length h" "h ! i = x" by (metis in_set_conv_nth)
    with urgent.heap_root [of h i] above okh(1) show ?thesis by (auto simp: worse_is list_all_iff)
  qed
  have h0: "h ! 0 \<in> set h" "candidate_ok (h ! 0)" using \<open>h \<noteq> []\<close> okh(1) by (auto simp: list_all_iff)
  define h' where "h' = (if candidateHigherPriority c (h ! 0) then heap_Fix0 candidate_worse (h[0 := c]) else h)"
  have above': "heap_above candidate_worse 0 h'"
    using above fix_above [OF above okh(1) ok(2) \<open>h \<noteq> []\<close>] by (simp add: h'_def)
  have urgent': "most_urgent budget (cs @ [c]) h'"
  proof (cases "candidateHigherPriority c (h ! 0)")
    case True
    have m: "mset h' + {#h ! 0#} = mset h + {#c#}" using True replace_root [OF \<open>h \<noteq> []\<close>, of c] by (simp add: h'_def)
    have mem: "x = c \<or> x \<in> set h" if "x \<in> set h'" for x
      using that arg_cong [OF m, of set_mset] by auto
    have "\<not> candidateHigherPriority r x" if x: "x \<in> set h'" and r: "r \<in> set (h ! 0 # rest)" for x r
    proof (cases "x = c")
      case c: True
      have okr: "candidate_ok r" using r okh h0 by (auto simp: list_all_iff)
      have "\<not> candidateHigherPriority r (h ! 0)" using r rest(2) h0(1) root by auto
      moreover have "\<not> candidateHigherPriority (h ! 0) c" using urgent.asym [of c "h ! 0"] True ok(2) h0(2) by simp
      ultimately show ?thesis using urgent.not_trans [of r "h ! 0" c] okr h0(2) ok(2) c by simp
    next
      case False
      then have "x \<in> set h" using mem [OF x] by simp
      then show ?thesis using r rest(2) root by auto
    qed
    moreover have "mset (cs @ [c]) = mset h' + mset (h ! 0 # rest)" using m rest(1) by (simp add: ac_simps)
    moreover have "length h' = nat budget" using m len(1) by (metis add_right_cancel size_mset size_single size_union)
    ultimately show ?thesis using len(2) unfolding most_urgent_def by (intro conjI exI [of _ "h ! 0 # rest"]) auto
  next
    case False
    have "\<not> candidateHigherPriority c x" if "x \<in> set h" for x
      using urgent.not_trans [of c "h ! 0" x] False root [OF that] ok(2) h0(2) okh(1) that by (simp add: list_all_iff)
    then have "\<forall>x \<in> set h. \<forall>r \<in> set (c # rest). \<not> candidateHigherPriority r x" using rest(2) by auto
    moreover have "mset (cs @ [c]) = mset h + mset (c # rest)" using rest(1) by simp
    ultimately show ?thesis using False len unfolding most_urgent_def h'_def by (intro conjI exI [of _ "c # rest"]) auto
  qed
  have "selection_Consider c s = s\<lparr>sl_count := sl_count s + 1, sl_heapReady := True, sl_selected := h'\<rparr>"
    using False b inv by (simp add: selection_Consider_def Let_def h_def [symmetric] h'_def [symmetric] selection_inv_def)
  then show ?thesis
    using inv above' urgent' len(2) b by (simp add: selection_inv_def)
qed

lemma Consider_all_inv:
  assumes "0 < budget" and "list_all candidate_ok cs"
  shows "selection_inv budget cs (fold selection_Consider cs (newSnapshotSelection budget))"
  using assms(2)
proof (induction cs rule: rev_induct)
  case Nil
  then show ?case by (simp add: selection_inv_def most_urgent_def newSnapshotSelection_def)
next
  case (snoc c cs)
  then show ?case using Consider_inv [OF _ assms(1), of cs _ c] by simp
qed


lemma Consider_fill:
  "budget \<le> 0 \<or> int (length cs) \<le> budget \<Longrightarrow>
   fold selection_Consider cs (newSnapshotSelection budget) =
     \<lparr>sl_selected = cs, sl_budget = budget, sl_count = length cs, sl_heapReady = False\<rparr>"
proof (induction cs rule: rev_induct)
  case Nil
  then show ?case by (simp add: newSnapshotSelection_def)
next
  case (snoc c cs)
  then show ?case by (auto simp: selection_Consider_def)
qed

lemma heap_Init_length [simp]: "length (heap_Init lt xs) = length xs"
proof -
  have "length (fold (\<lambda>i ys. heap_down lt ys i) is xs) = length xs" for "is"
    by (induction "is" arbitrary: xs) simp_all
  then show ?thesis by (simp add: heap_Init_def)
qed

lemma Consider_ready:
  assumes "sl_heapReady s" and "sl_budget s \<le> int (length (sl_selected s))" and "0 < sl_budget s"
  shows "sl_selected (fold selection_Consider cs s) =
    fold (\<lambda>c h. if candidateHigherPriority c (h ! 0) then heap_Fix0 candidate_worse (h[0 := c]) else h) cs (sl_selected s)"
  using assms
proof (induction cs arbitrary: s)
  case (Cons c cs)
  have "sl_heapReady (selection_Consider c s)" "sl_budget (selection_Consider c s) = sl_budget s"
    "sl_selected (selection_Consider c s) =
      (if candidateHigherPriority c (sl_selected s ! 0) then heap_Fix0 candidate_worse ((sl_selected s)[0 := c]) else sl_selected s)"
    using Cons.prems by (simp_all add: selection_Consider_def Let_def)
  moreover from this have "length (sl_selected (selection_Consider c s)) = length (sl_selected s)" by (simp add: heap_Fix0_def)
  ultimately show ?case using Cons.IH [of "selection_Consider c s"] Cons.prems by simp
qed simp

lemma one_pass:
  "sl_selected (fold selection_Consider cs (newSnapshotSelection budget)) = selectSnapshotCandidates cs budget"
proof (cases "budget \<le> 0 \<or> int (length cs) \<le> budget")
  case True
  then show ?thesis by (simp add: Consider_fill selectSnapshotCandidates_def)
next
  case False
  define k where "k = nat budget"
  have k: "length (take k cs) = k" "int k = budget" using False by (simp_all add: k_def, linarith)
  obtain c ds where d: "drop k cs = c # ds" using False by (cases "drop k cs") (auto simp: k_def)
  define s where "s = selection_Consider c \<lparr>sl_selected = take k cs, sl_budget = budget, sl_count = k, sl_heapReady = False\<rparr>"
  have "fold selection_Consider cs (newSnapshotSelection budget) =
      fold selection_Consider (take k cs @ c # ds) (newSnapshotSelection budget)" by (simp only: d [symmetric] append_take_drop_id)
  also have "\<dots> = fold selection_Consider ds (selection_Consider c (fold selection_Consider (take k cs) (newSnapshotSelection budget)))"
    by simp
  also have "fold selection_Consider (take k cs) (newSnapshotSelection budget) =
      \<lparr>sl_selected = take k cs, sl_budget = budget, sl_count = k, sl_heapReady = False\<rparr>"
    using Consider_fill [of budget "take k cs"] k by simp
  finally have step: "fold selection_Consider cs (newSnapshotSelection budget) = fold selection_Consider ds s" by (simp only: s_def)
  define h where "h = heap_Init candidate_worse (take k cs)"
  have sel: "sl_selected s = (if candidateHigherPriority c (h ! 0) then heap_Fix0 candidate_worse (h[0 := c]) else h)"
      "sl_heapReady s" "sl_budget s = budget"
    using False k by (simp_all add: s_def selection_Consider_def Let_def h_def)
  have "length (sl_selected s) = k" using k by (simp add: sel heap_Fix0_def h_def)
  then have "sl_selected (fold selection_Consider ds s) =
      fold (\<lambda>c h. if candidateHigherPriority c (h ! 0) then heap_Fix0 candidate_worse (h[0 := c]) else h) (c # ds) h"
    using Consider_ready [of s ds] sel False k by simp
  then show ?thesis using False step d by (simp add: selectSnapshotCandidates_def k_def h_def)
qed

text \<open>
  C13. The snapshot carries what is most urgent. For candidates with ages and cadences below \<open>2 ^ 32\<close>, the
  one-pass selection with its heap holds as many as the budget allows, each of them a candidate, and
  no candidate left out has priority over one selected. It is the same list as that of the older
  two-pass selector.
\<close>

theorem selection_most_urgent:
  assumes "0 < budget" and "list_all candidate_ok cs"
  shows "\<exists>rest. mset cs = mset (sl_selected (fold selection_Consider cs (newSnapshotSelection budget))) + mset rest \<and>
      length (sl_selected (fold selection_Consider cs (newSnapshotSelection budget))) = min (nat budget) (length cs) \<and>
      (\<forall>x \<in> set (sl_selected (fold selection_Consider cs (newSnapshotSelection budget))). \<forall>r \<in> set rest.
         \<not> candidateHigherPriority r x) \<and>
      sl_selected (fold selection_Consider cs (newSnapshotSelection budget)) = selectSnapshotCandidates cs budget"
  using Consider_all_inv [OF assms] one_pass [of cs budget] unfolding selection_inv_def most_urgent_def by blast

definition sample_candidate :: "u64 \<Rightarrow> u64 \<Rightarrow> snapshot_candidate" where
  "sample_candidate i age = \<lparr>sn_entity = \<lparr>en_ID = i, en_Kind = EntityPlayer, en_ArchetypeID = '''', en_BodySize = '''',
     en_Transform = \<lparr>tf_Position = \<lparr>pos_X = 0, pos_Y = 0, pos_Z = 0, pos_Layer = 0\<rparr>, tf_Yaw = 0\<rparr>\<rparr>,
     sn_generation = 1, sn_trackIndex = 0, sn_tier = TierNear, sn_age = age, sn_cadence = 1, sn_dirty = True\<rparr>"

theorem selection_most_urgent_witness:
  "\<exists>rest. mset (map (sample_candidate 7) [3, 9, 5]) = mset (sl_selected (fold selection_Consider
     (map (sample_candidate 7) [3, 9, 5]) (newSnapshotSelection 2))) + mset rest \<and> length rest = 1"
proof -
  have "list_all candidate_ok (map (sample_candidate 7) [3, 9, 5])"
    by (simp add: candidate_ok_def sample_candidate_def)
  from selection_most_urgent [OF _ this, of 2] obtain rest where
    r: "mset (map (sample_candidate 7) [3, 9, 5]) = mset (sl_selected (fold selection_Consider
      (map (sample_candidate 7) [3, 9, 5]) (newSnapshotSelection 2))) + mset rest"
    and l: "length (sl_selected (fold selection_Consider (map (sample_candidate 7) [3, 9, 5]) (newSnapshotSelection 2))) = 2"
    by (auto simp del: fold_simps)
  from arg_cong [OF r, of size] l have "length rest = 1" by (simp only: size_union size_mset length_map) simp
  with r show ?thesis by blast
qed

end
