(* ===== verification/Replication.thy ===== *)
theory Replication
  imports SnapshotSelection Session
begin

text \<open>
  What each session is told about the world (\<open>internal/replication\<close>, but for the selection of transforms
  in \<^theory_text>\<open>SnapshotSelection\<close>): the view of a session with its desired area of interest and the
  entities its client knows, the builders of spawn, despawn, snapshot and correction messages, and
  the delivery loop of \<open>worldruntime/step.go\<close>. Buffers that are only reused memory are left out; a
  visible entity is an index into the shared frame.
\<close>

section \<open>Messages\<close>

record entity_transform =
  xf_EntityID :: entity_id
  xf_Tick :: u64
  xf_Position :: position
  xf_Yaw :: f32

datatype repl_message =
  EntitySpawn entity_id entity_kind entity_transform string
| EntityDespawn entity_id
| WorldSnapshot u64 u16 u16 "entity_transform list"
| PositionCorrection u64 entity_id position f32 u32

record outbound =
  ob_Delivery :: delivery
  ob_Message :: repl_message

definition MaxSnapshotEntitiesPerChunk :: nat where [go_defs]: "MaxSnapshotEntitiesPerChunk = 43"

definition ValidChunk :: "u16 \<Rightarrow> u16 \<Rightarrow> entity_transform list \<Rightarrow> bool" where
  "ValidChunk chunkIndex chunkCount es =
     (0 < chunkCount \<and> chunkIndex < chunkCount \<and> length es \<le> MaxSnapshotEntitiesPerChunk)"

record build_stats =
  bs_SpawnCandidates :: nat
  bs_SpawnSelected :: nat
  bs_SpawnDeferred :: nat
  bs_DespawnCandidates :: nat
  bs_DespawnSelected :: nat
  bs_DespawnDeferred :: nat
  bs_SnapshotCandidates :: nat
  bs_SnapshotSelected :: nat
  bs_SnapshotDeferred :: nat
  bs_DirtyVisible :: nat
  bs_ForcedRefreshCandidates :: nat
  bs_NearSelected :: nat
  bs_MidSelected :: nat
  bs_FarSelected :: nat

definition zero_stats :: build_stats where
  "zero_stats =
     \<lparr>bs_SpawnCandidates = 0, bs_SpawnSelected = 0, bs_SpawnDeferred = 0, bs_DespawnCandidates = 0,
      bs_DespawnSelected = 0, bs_DespawnDeferred = 0, bs_SnapshotCandidates = 0, bs_SnapshotSelected = 0,
      bs_SnapshotDeferred = 0, bs_DirtyVisible = 0, bs_ForcedRefreshCandidates = 0, bs_NearSelected = 0,
      bs_MidSelected = 0, bs_FarSelected = 0\<rparr>"

record lifecycle_limits =
  lm_MaxSpawns :: int
  lm_MaxDespawns :: int
  lm_MaxMessages :: int

definition no_limits :: lifecycle_limits where
  "no_limits = \<lparr>lm_MaxSpawns = 0, lm_MaxDespawns = 0, lm_MaxMessages = 0\<rparr>"

definition lifecycleLimitAllows :: "int \<Rightarrow> nat \<Rightarrow> bool" where
  "lifecycleLimitAllows limit selected = (if limit < 0 then False else limit = 0 \<or> int selected < limit)"

definition allowSpawn :: "lifecycle_limits \<Rightarrow> nat \<Rightarrow> bool" where
  "allowSpawn l selected = lifecycleLimitAllows (lm_MaxSpawns l) selected"

definition allowDespawn :: "lifecycle_limits \<Rightarrow> nat \<Rightarrow> bool" where
  "allowDespawn l selected = lifecycleLimitAllows (lm_MaxDespawns l) selected"

definition allowMessage :: "lifecycle_limits \<Rightarrow> nat \<Rightarrow> bool" where
  "allowMessage l selected = lifecycleLimitAllows (lm_MaxMessages l) selected"

definition lifecycle_selected :: "build_stats \<Rightarrow> nat" where
  "lifecycle_selected s = bs_SpawnSelected s + bs_DespawnSelected s"

record batch =
  bt_Messages :: "outbound list"
  bt_Stats :: build_stats

section \<open>Views\<close>

record entity_track =
  et_id :: entity_id
  et_known :: bool
  et_lastDeliveredGeneration :: u64
  et_lastSentBuild :: u64

definition zero_track :: entity_track where
  "zero_track = \<lparr>et_id = 0, et_known = False, et_lastDeliveredGeneration = 0, et_lastSentBuild = 0\<rparr>"

record view_state =
  vs_known :: "entity_id fset"
  vs_desiredIDs :: "entity_id list"
  vs_tracks :: "entity_track list"
  vs_departed :: "entity_id list"
  vs_lastSnapshot :: "(entity_id, position \<times> f32) fmap"
  vs_lastDeliveredGeneration :: "(entity_id, u64) fmap"
  vs_lastSentBuild :: "(entity_id, u64) fmap"
  vs_buildNumber :: u64

definition newViewState :: view_state where
  "newViewState =
     \<lparr>vs_known = {||}, vs_desiredIDs = [], vs_tracks = [], vs_departed = [], vs_lastSnapshot = fmempty,
      vs_lastDeliveredGeneration = fmempty, vs_lastSentBuild = fmempty, vs_buildNumber = 0\<rparr>"

text \<open>\<open>sort.Search\<close> of the standard library: the halving search for the first index that passes.\<close>

function search_from :: "(nat \<Rightarrow> bool) \<Rightarrow> nat \<Rightarrow> nat \<Rightarrow> nat" where
  "search_from f i j =
     (if j \<le> i then i
      else let h = (i + j) div 2 in if \<not> f h then search_from f (h + 1) j else search_from f i h)"
  by pat_completeness auto
termination
  by (relation "measure (\<lambda>(f, i, j). j - i)") (auto simp: Let_def)

declare search_from.simps [simp del]

definition desiredIndex :: "entity_id list \<Rightarrow> entity_id \<Rightarrow> nat option" where
  "desiredIndex ids i =
     (let k = search_from (\<lambda>k. i \<le> ids ! k) 0 (length ids) in
      if k < length ids \<and> ids ! k = i then Some k else None)"

definition containsDesiredID :: "entity_id list \<Rightarrow> entity_id \<Rightarrow> bool" where
  "containsDesiredID ids i = (desiredIndex ids i \<noteq> None)"

text \<open>The entity at an index of the frame; \<open>None\<close> where the code skips an index out of range.\<close>

definition frame_at :: "replication_frame \<Rightarrow> nat \<Rightarrow> entity_state option" where
  "frame_at f k = (if k < length (pf_Entities f) then Some (pf_Entities f ! k) else None)"

definition sameDesiredIDs :: "entity_id list \<Rightarrow> replication_frame \<Rightarrow> nat list \<Rightarrow> bool" where
  "sameDesiredIDs previous f visible =
     list_all2 (\<lambda>i k. case frame_at f k of None \<Rightarrow> False | Some e \<Rightarrow> i = en_ID e) previous visible"

definition desired_of :: "replication_frame \<Rightarrow> nat list \<Rightarrow> entity_id list" where
  "desired_of f visible = map (\<lambda>k. case frame_at f k of None \<Rightarrow> 0 | Some e \<Rightarrow> en_ID e) visible"

definition stored_track :: "view_state \<Rightarrow> entity_id \<Rightarrow> entity_track" where
  "stored_track v i =
     \<lparr>et_id = i, et_known = (i |\<in>| vs_known v), et_lastDeliveredGeneration = gomap_at 0 (vs_lastDeliveredGeneration v) i,
      et_lastSentBuild = gomap_at 0 (vs_lastSentBuild v) i\<rparr>"

definition rebuildDesiredTracks :: "replication_frame \<Rightarrow> nat list \<Rightarrow> view_state \<Rightarrow> view_state" where
  "rebuildDesiredTracks f visible v =
     v\<lparr>vs_desiredIDs := desired_of f visible,
       vs_tracks := map (\<lambda>k. case frame_at f k of None \<Rightarrow> zero_track | Some e \<Rightarrow> stored_track v (en_ID e)) visible\<rparr>"

section \<open>Confirmation\<close>

text \<open>The service keeps one view per session; these act on the view of one session.\<close>

definition view_ConfirmSpawn :: "entity_id \<Rightarrow> view_state \<Rightarrow> view_state" where
  "view_ConfirmSpawn i v =
     v\<lparr>vs_known := finsert i (vs_known v),
       vs_tracks := (case desiredIndex (vs_desiredIDs v) i of
           None \<Rightarrow> vs_tracks v
         | Some k \<Rightarrow> if k < length (vs_tracks v) then (vs_tracks v)[k := (vs_tracks v ! k)\<lparr>et_known := True\<rparr>] else vs_tracks v)\<rparr>"

definition view_ConfirmDespawn :: "entity_id \<Rightarrow> view_state \<Rightarrow> view_state" where
  "view_ConfirmDespawn i v =
     v\<lparr>vs_known := vs_known v |-| {|i|}, vs_lastSnapshot := fmdrop i (vs_lastSnapshot v),
       vs_lastDeliveredGeneration := fmdrop i (vs_lastDeliveredGeneration v),
       vs_lastSentBuild := fmdrop i (vs_lastSentBuild v),
       vs_tracks := (case desiredIndex (vs_desiredIDs v) i of
           None \<Rightarrow> vs_tracks v
         | Some k \<Rightarrow> if k < length (vs_tracks v)
             then (vs_tracks v)[k := (vs_tracks v ! k)\<lparr>et_known := False, et_lastDeliveredGeneration := 0, et_lastSentBuild := 0\<rparr>]
             else vs_tracks v)\<rparr>"

section \<open>The frame builder\<close>

definition transform_of :: "u64 \<Rightarrow> entity_state \<Rightarrow> entity_transform" where
  "transform_of tick e =
     \<lparr>xf_EntityID = en_ID e, xf_Tick = tick, xf_Position = tf_Position (en_Transform e), xf_Yaw = tf_Yaw (en_Transform e)\<rparr>"

definition spawn_message :: "u64 \<Rightarrow> entity_state \<Rightarrow> outbound" where
  "spawn_message tick e =
     \<lparr>ob_Delivery = DeliveryReliableOrdered,
      ob_Message = EntitySpawn (en_ID e) (en_Kind e) (transform_of tick e) (en_ArchetypeID e)\<rparr>"

definition despawn_message :: "entity_id \<Rightarrow> outbound" where
  "despawn_message i = \<lparr>ob_Delivery = DeliveryReliableOrdered, ob_Message = EntityDespawn i\<rparr>"

definition correction_message :: "u64 \<Rightarrow> u32 \<Rightarrow> entity_state \<Rightarrow> outbound" where
  "correction_message tick lastProcessedInput e =
     \<lparr>ob_Delivery = DeliveryRealtimeSequenced,
      ob_Message = PositionCorrection tick (en_ID e) (tf_Position (en_Transform e)) (tf_Yaw (en_Transform e)) lastProcessedInput\<rparr>"

text \<open>The scan over the visible entities; \<open>i\<close> is the position in the view.\<close>

record visible_scan =
  vn_messages :: "outbound list"
  vn_stats :: build_stats
  vn_hasUnknown :: bool
  vn_selection :: snapshot_selection

definition scan_unknown :: "lifecycle_limits \<Rightarrow> u64 \<Rightarrow> entity_state \<Rightarrow> visible_scan \<Rightarrow> visible_scan" where
  "scan_unknown limits tick e s =
     (let st = (vn_stats s)\<lparr>bs_SpawnCandidates := bs_SpawnCandidates (vn_stats s) + 1\<rparr> in
      if allowMessage limits (lifecycle_selected st) \<and> allowSpawn limits (bs_SpawnSelected st)
      then s\<lparr>vn_hasUnknown := True, vn_messages := vn_messages s @ [spawn_message tick e],
             vn_stats := st\<lparr>bs_SpawnSelected := bs_SpawnSelected st + 1\<rparr>\<rparr>
      else s\<lparr>vn_hasUnknown := True, vn_stats := st\<lparr>bs_SpawnDeferred := bs_SpawnDeferred st + 1\<rparr>\<rparr>)"

definition scan_known ::
  "replication_policy \<Rightarrow> entity_state option \<Rightarrow> u64 \<Rightarrow> nat \<Rightarrow> entity_track \<Rightarrow> entity_state \<Rightarrow> u64 \<Rightarrow> visible_scan \<Rightarrow> visible_scan" where
  "scan_known p self buildNumber i track e generation s =
     (let tier = (case self of None \<Rightarrow> TierFar
                  | Some se \<Rightarrow> policy_tier p (tf_Position (en_Transform se)) (tf_Position (en_Transform e)));
          hasDelivered = (et_lastDeliveredGeneration track \<noteq> 0);
          dirty = (\<not> hasDelivered \<or> et_lastDeliveredGeneration track \<noteq> generation);
          st = (if dirty then (vn_stats s)\<lparr>bs_DirtyVisible := bs_DirtyVisible (vn_stats s) + 1\<rparr> else vn_stats s);
          age = buildNumber - et_lastSentBuild track;
          cadence = policy_cadence p tier;
          forced = (hasDelivered \<and> policy_refresh p tier \<le> age);
          dueDirty = (dirty \<and> (\<not> hasDelivered \<or> cadence \<le> age))
      in if \<not> dueDirty \<and> \<not> forced then s\<lparr>vn_stats := st\<rparr>
         else s\<lparr>vn_stats := (if forced then st\<lparr>bs_ForcedRefreshCandidates := bs_ForcedRefreshCandidates st + 1\<rparr> else st),
                vn_selection := selection_Consider
                  \<lparr>sn_entity = e, sn_generation = generation, sn_trackIndex = i, sn_tier = tier, sn_age = age,
                   sn_cadence = cadence, sn_dirty = dirty\<rparr> (vn_selection s)\<rparr>)"

fun scan_visible ::
  "replication_policy \<Rightarrow> lifecycle_limits \<Rightarrow> replication_frame \<Rightarrow> entity_id \<Rightarrow> entity_state option \<Rightarrow> view_state \<Rightarrow>
     nat \<Rightarrow> nat list \<Rightarrow> visible_scan \<Rightarrow> visible_scan" where
  "scan_visible p limits f selfID self v i [] s = s"
| "scan_visible p limits f selfID self v i (k # ks) s =
     (let s' = (case frame_at f k of
          None \<Rightarrow> s
        | Some e \<Rightarrow>
            if length (vs_tracks v) \<le> i then s
            else let track = vs_tracks v ! i in
              if \<not> et_known track then scan_unknown limits (pf_Tick f) e s
              else if en_ID e = selfID then s
              else scan_known p self (vs_buildNumber v) i track e (pf_TransformGenerations f ! k) s)
      in scan_visible p limits f selfID self v (i + 1) ks s')"

text \<open>The despawns in the order of the ids, as the limits allow.\<close>

fun select_despawns :: "lifecycle_limits \<Rightarrow> entity_id list \<Rightarrow> outbound list \<Rightarrow> build_stats \<Rightarrow> outbound list \<times> build_stats" where
  "select_despawns limits [] ms st = (ms, st)"
| "select_despawns limits (i # ids) ms st =
     (if \<not> allowMessage limits (lifecycle_selected st) \<or> \<not> allowDespawn limits (bs_DespawnSelected st)
      then select_despawns limits ids ms (st\<lparr>bs_DespawnDeferred := bs_DespawnDeferred st + 1\<rparr>)
      else select_despawns limits ids (ms @ [despawn_message i]) (st\<lparr>bs_DespawnSelected := bs_DespawnSelected st + 1\<rparr>))"

text \<open>What a sent transform leaves in the view.\<close>

definition mark_sent :: "snapshot_candidate \<Rightarrow> view_state \<Rightarrow> view_state" where
  "mark_sent c v =
     (let e = sn_entity c; i = en_ID e; k = sn_trackIndex c in
      v\<lparr>vs_tracks := (if k < length (vs_tracks v)
          then (vs_tracks v)[k := (vs_tracks v ! k)\<lparr>et_lastDeliveredGeneration := sn_generation c, et_lastSentBuild := vs_buildNumber v\<rparr>]
          else vs_tracks v),
        vs_lastSnapshot := fmupd i (tf_Position (en_Transform e), tf_Yaw (en_Transform e)) (vs_lastSnapshot v),
        vs_lastDeliveredGeneration := fmupd i (sn_generation c) (vs_lastDeliveredGeneration v),
        vs_lastSentBuild := fmupd i (vs_buildNumber v) (vs_lastSentBuild v)\<rparr>)"

definition count_tier :: "snapshot_candidate \<Rightarrow> build_stats \<Rightarrow> build_stats" where
  "count_tier c st =
     (case sn_tier c of
        TierNear \<Rightarrow> st\<lparr>bs_NearSelected := bs_NearSelected st + 1\<rparr>
      | TierMid \<Rightarrow> st\<lparr>bs_MidSelected := bs_MidSelected st + 1\<rparr>
      | TierFar \<Rightarrow> st\<lparr>bs_FarSelected := bs_FarSelected st + 1\<rparr>
      | TierCritical \<Rightarrow> st)"

text \<open>A snapshot is cut into chunks; an empty one is one empty chunk.\<close>

definition chunk_count :: "nat \<Rightarrow> nat" where
  "chunk_count n =
     (let c = (n + MaxSnapshotEntitiesPerChunk - 1) div MaxSnapshotEntitiesPerChunk in if c = 0 then 1 else c)"

definition snapshot_chunks :: "u64 \<Rightarrow> entity_transform list \<Rightarrow> outbound list" where
  "snapshot_chunks tick ts =
     map (\<lambda>c. \<lparr>ob_Delivery = DeliveryRealtimeSequenced,
               ob_Message = WorldSnapshot tick (of_nat c) (of_nat (chunk_count (length ts)))
                 (take MaxSnapshotEntitiesPerChunk (drop (c * MaxSnapshotEntitiesPerChunk) ts))\<rparr>)
       [0..<chunk_count (length ts)]"

definition correction_for :: "replication_frame \<Rightarrow> entity_id \<Rightarrow> u32 \<Rightarrow> outbound list" where
  "correction_for f selfID lastProcessedInput =
     (case frame_Entity f selfID of None \<Rightarrow> [] | Some (e, _) \<Rightarrow> [correction_message (pf_Tick f) lastProcessedInput e])"

definition known_outside :: "view_state \<Rightarrow> entity_id list" where
  "known_outside v = sorted_list_of_fset (ffilter (\<lambda>i. \<not> containsDesiredID (vs_desiredIDs v) i) (vs_known v))"

definition buildFrame ::
  "replication_policy \<Rightarrow> entity_id \<Rightarrow> u32 \<Rightarrow> replication_frame \<Rightarrow> nat list \<Rightarrow> lifecycle_limits \<Rightarrow> view_state \<Rightarrow> batch \<times> view_state" where
  "buildFrame p selfID lastProcessedInput f visible limits v0 =
     (let v1 = v0\<lparr>vs_buildNumber := vs_buildNumber v0 + 1\<rparr>;
          self = map_option fst (frame_Entity f selfID);
          desiredChanged = (\<not> sameDesiredIDs (vs_desiredIDs v1) f visible);
          v2 = (if desiredChanged then rebuildDesiredTracks f visible v1 else v1);
          s = scan_visible p limits f selfID self v2 0 visible
                \<lparr>vn_messages = [], vn_stats = zero_stats, vn_hasUnknown = False,
                 vn_selection = newSnapshotSelection (pl_MaxTransformsPerBuild p)\<rparr>;
          departed = (if desiredChanged \<or> vn_hasUnknown s \<or> length (vs_desiredIDs v2) < fcard (vs_known v2)
                      then known_outside v2 else []);
          v3 = v2\<lparr>vs_departed := departed\<rparr>;
          (ms, st) = select_despawns limits departed (vn_messages s)
                       ((vn_stats s)\<lparr>bs_DespawnCandidates := length departed\<rparr>);
          selected = sl_selected (vn_selection s);
          candidateCount = sl_count (vn_selection s);
          st' = fold count_tier selected
                  (st\<lparr>bs_SnapshotCandidates := candidateCount, bs_SnapshotSelected := length selected,
                      bs_SnapshotDeferred := candidateCount - length selected\<rparr>);
          v4 = fold mark_sent selected v3;
          transforms = map (\<lambda>c. transform_of (pf_Tick f) (sn_entity c)) selected;
          transforms' = (if int candidateCount > pl_MaxTransformsPerBuild p then sort_key xf_EntityID transforms else transforms)
      in (\<lparr>bt_Messages = ms @ snapshot_chunks (pf_Tick f) transforms' @ correction_for f selfID lastProcessedInput,
           bt_Stats = st'\<rparr>, v4))"

section \<open>Lifecycle first\<close>

definition desiredAppendOnly :: "entity_id list \<Rightarrow> replication_frame \<Rightarrow> nat list \<Rightarrow> bool" where
  "desiredAppendOnly previous f visible =
     (if previous = [] \<or> length visible \<le> length previous then False
      else sameDesiredIDs previous f (take (length previous) visible))"

text \<open>The tracks are as many as the desired ids, so the new ones follow the old ones.\<close>

definition appendDesiredTracks :: "replication_frame \<Rightarrow> nat list \<Rightarrow> view_state \<Rightarrow> view_state" where
  "appendDesiredTracks f visible v =
     (let new = drop (length (vs_desiredIDs v)) visible in
      v\<lparr>vs_desiredIDs := vs_desiredIDs v @ desired_of f new,
        vs_tracks := vs_tracks v @
          map (\<lambda>k. case frame_at f k of None \<Rightarrow> zero_track | Some e \<Rightarrow> stored_track v (en_ID e)) new\<rparr>)"

text \<open>The merge of the old desired ids with the new visible ones, both ordered by id.\<close>

fun desired_diff :: "entity_id fset \<Rightarrow> replication_frame \<Rightarrow> entity_id list \<Rightarrow> nat list \<Rightarrow> entity_id list" where
  "desired_diff known f [] visible = []"
| "desired_diff known f (old # olds) [] = (if old |\<in>| known then [old] else []) @ desired_diff known f olds []"
| "desired_diff known f (old # olds) (k # ks) =
     (case frame_at f k of
        None \<Rightarrow> desired_diff known f (old # olds) ks
      | Some e \<Rightarrow>
          if en_ID e < old then desired_diff known f (old # olds) ks
          else if en_ID e = old then desired_diff known f olds ks
          else (if old |\<in>| known then [old] else []) @ desired_diff known f olds (k # ks))"

definition rebuildPendingDepartedFromDesiredDiff :: "replication_frame \<Rightarrow> nat list \<Rightarrow> view_state \<Rightarrow> view_state" where
  "rebuildPendingDepartedFromDesiredDiff f visible v =
     v\<lparr>vs_departed := desired_diff (vs_known v) f (vs_desiredIDs v) visible\<rparr>"

definition rebuildPendingDeparted :: "view_state \<Rightarrow> view_state" where
  "rebuildPendingDeparted v = v\<lparr>vs_departed := known_outside v\<rparr>"

definition prunePendingDeparted :: "view_state \<Rightarrow> view_state" where
  "prunePendingDeparted v =
     v\<lparr>vs_departed := filter (\<lambda>i. i |\<in>| vs_known v \<and> \<not> containsDesiredID (vs_desiredIDs v) i) (vs_departed v)\<rparr>"

definition pruneConfirmedDepartedPrefix :: "view_state \<Rightarrow> view_state" where
  "pruneConfirmedDepartedPrefix v = v\<lparr>vs_departed := dropWhile (\<lambda>i. i |\<notin>| vs_known v) (vs_departed v)\<rparr>"

text \<open>
  The merge of the old tracks with the new visible ids when everything desired was known: what
  departed, the new desired ids and the new tracks.
\<close>

fun converged_merge ::
  "replication_frame \<Rightarrow> nat list \<Rightarrow> entity_track list \<Rightarrow> entity_id list \<times> entity_id list \<times> entity_track list" where
  "converged_merge f [] old = (map et_id (filter et_known old), [], [])"
| "converged_merge f (k # ks) old =
     (case frame_at f k of
        None \<Rightarrow> (case converged_merge f ks old of (dep, ids, ts) \<Rightarrow> (dep, 0 # ids, zero_track # ts))
      | Some e \<Rightarrow>
          let gone = takeWhile (\<lambda>t. et_id t < en_ID e) old;
              left = dropWhile (\<lambda>t. et_id t < en_ID e) old;
              retained = (left \<noteq> [] \<and> et_id (hd left) = en_ID e);
              t = (if retained then hd left else zero_track\<lparr>et_id := en_ID e\<rparr>)
          in case converged_merge f ks (if retained then drop 1 left else left) of
               (dep, ids, ts) \<Rightarrow> (map et_id (filter et_known gone) @ dep, en_ID e # ids, t # ts))"

definition rebuildConvergedLifecycleTracks :: "replication_frame \<Rightarrow> nat list \<Rightarrow> view_state \<Rightarrow> view_state" where
  "rebuildConvergedLifecycleTracks f visible v =
     (case converged_merge f visible (vs_tracks v) of
        (dep, ids, ts) \<Rightarrow> v\<lparr>vs_departed := dep, vs_desiredIDs := ids, vs_tracks := ts\<rparr>)"

definition lifecycle_track :: "view_state \<Rightarrow> entity_id \<Rightarrow> entity_track" where
  "lifecycle_track v i = (if i |\<in>| vs_known v then stored_track v i else zero_track\<lparr>et_id := i\<rparr>)"

definition rebuildLifecycleDesiredTracks :: "replication_frame \<Rightarrow> nat list \<Rightarrow> view_state \<Rightarrow> view_state" where
  "rebuildLifecycleDesiredTracks f visible v =
     v\<lparr>vs_desiredIDs := desired_of f visible,
       vs_tracks := map (\<lambda>k. case frame_at f k of None \<Rightarrow> zero_track | Some e \<Rightarrow> lifecycle_track v (en_ID e)) visible\<rparr>"

text \<open>The first half of the lifecycle-first builder: the view catches up with the visible entities.\<close>

definition sync_view :: "replication_frame \<Rightarrow> nat list \<Rightarrow> view_state \<Rightarrow> view_state" where
  "sync_view f visible v =
     (if \<not> sameDesiredIDs (vs_desiredIDs v) f visible
      then if desiredAppendOnly (vs_desiredIDs v) f visible
           then let v1 = appendDesiredTracks f visible v in if vs_departed v1 \<noteq> [] then prunePendingDeparted v1 else v1
           else let hadPendingDeparted = (vs_departed v \<noteq> []) in
             if \<not> hadPendingDeparted \<and> fcard (vs_known v) = length (vs_desiredIDs v)
             then rebuildConvergedLifecycleTracks f visible v
             else let v1 = (if \<not> hadPendingDeparted then rebuildPendingDepartedFromDesiredDiff f visible v else v);
                      v2 = rebuildLifecycleDesiredTracks f visible v1
                  in if hadPendingDeparted then rebuildPendingDeparted v2 else v2
      else if vs_departed v \<noteq> [] then pruneConfirmedDepartedPrefix v
      else v)"

definition firstUnknownDesired :: "view_state \<Rightarrow> nat option" where
  "firstUnknownDesired v =
     (let k = length (takeWhile et_known (vs_tracks v)) in if k < length (vs_tracks v) then Some k else None)"

definition buildDeferredLifecycleFrame ::
  "entity_id \<Rightarrow> u32 \<Rightarrow> replication_frame \<Rightarrow> view_state \<Rightarrow> batch \<times> view_state" where
  "buildDeferredLifecycleFrame selfID lastProcessedInput f v =
     (\<lparr>bt_Messages = correction_for f selfID lastProcessedInput,
       bt_Stats = zero_stats\<lparr>bs_SpawnDeferred := (if firstUnknownDesired v \<noteq> None then 1 else 0),
         bs_DespawnDeferred := length (vs_departed v)\<rparr>\<rparr>,
      v\<lparr>vs_buildNumber := vs_buildNumber v + 1\<rparr>)"

text \<open>Both loops of the bootstrap builder end at the first entity the limits refuse.\<close>

fun bootstrap_despawns ::
  "lifecycle_limits \<Rightarrow> entity_id fset \<Rightarrow> entity_id list \<Rightarrow> outbound list \<Rightarrow> build_stats \<Rightarrow> outbound list \<times> build_stats" where
  "bootstrap_despawns limits known [] ms st = (ms, st)"
| "bootstrap_despawns limits known (i # ids) ms st =
     (if i |\<notin>| known then bootstrap_despawns limits known ids ms st
      else if \<not> allowMessage limits (lifecycle_selected st) \<or> \<not> allowDespawn limits (bs_DespawnSelected st)
      then (ms, st\<lparr>bs_DespawnDeferred := length (i # ids)\<rparr>)
      else bootstrap_despawns limits known ids (ms @ [despawn_message i])
             (st\<lparr>bs_DespawnSelected := bs_DespawnSelected st + 1\<rparr>))"

definition mark_spawned :: "nat \<Rightarrow> entity_id \<Rightarrow> u64 \<Rightarrow> view_state \<Rightarrow> view_state" where
  "mark_spawned k i generation v =
     v\<lparr>vs_tracks := (vs_tracks v)[k := (vs_tracks v ! k)\<lparr>et_lastDeliveredGeneration := generation, et_lastSentBuild := vs_buildNumber v\<rparr>],
       vs_lastDeliveredGeneration := fmupd i generation (vs_lastDeliveredGeneration v),
       vs_lastSentBuild := fmupd i (vs_buildNumber v) (vs_lastSentBuild v)\<rparr>"

fun bootstrap_spawns ::
  "lifecycle_limits \<Rightarrow> replication_frame \<Rightarrow> nat \<Rightarrow> nat list \<Rightarrow> outbound list \<Rightarrow> build_stats \<Rightarrow> view_state \<Rightarrow>
     (outbound list \<times> build_stats) \<times> view_state" where
  "bootstrap_spawns limits f i [] ms st v = ((ms, st), v)"
| "bootstrap_spawns limits f i (k # ks) ms st v =
     (if length (vs_tracks v) \<le> i then ((ms, st), v)
      else case frame_at f k of
        None \<Rightarrow> bootstrap_spawns limits f (i + 1) ks ms st v
      | Some e \<Rightarrow>
          if et_known (vs_tracks v ! i) then bootstrap_spawns limits f (i + 1) ks ms st v
          else let st1 = st\<lparr>bs_SpawnCandidates := bs_SpawnCandidates st + 1\<rparr> in
            if \<not> allowMessage limits (lifecycle_selected st1) \<or> \<not> allowSpawn limits (bs_SpawnSelected st1)
            then ((ms, st1\<lparr>bs_SpawnDeferred := 1\<rparr>), v)
            else bootstrap_spawns limits f (i + 1) ks (ms @ [spawn_message (pf_Tick f) e])
                   (st1\<lparr>bs_SpawnSelected := bs_SpawnSelected st1 + 1\<rparr>)
                   (mark_spawned i (en_ID e) (pf_TransformGenerations f ! k) v))"

definition buildBootstrapLifecycleFrame ::
  "entity_id \<Rightarrow> u32 \<Rightarrow> replication_frame \<Rightarrow> nat list \<Rightarrow> nat \<Rightarrow> lifecycle_limits \<Rightarrow> view_state \<Rightarrow> batch \<times> view_state" where
  "buildBootstrapLifecycleFrame selfID lastProcessedInput f visible firstUnknown limits v =
     (let v1 = v\<lparr>vs_buildNumber := vs_buildNumber v + 1\<rparr>;
          (ms, st) = bootstrap_despawns limits (vs_known v1) (vs_departed v1) []
                       (zero_stats\<lparr>bs_DespawnCandidates := length (vs_departed v1)\<rparr>)
      in case bootstrap_spawns limits f firstUnknown (drop firstUnknown visible) ms st v1 of
           ((ms', st'), v2) \<Rightarrow>
             (\<lparr>bt_Messages = ms' @ correction_for f selfID lastProcessedInput, bt_Stats = st'\<rparr>, v2))"

definition buildFrameLifecycleFirst ::
  "replication_policy \<Rightarrow> entity_id \<Rightarrow> u32 \<Rightarrow> replication_frame \<Rightarrow> nat list \<Rightarrow> lifecycle_limits \<Rightarrow> view_state \<Rightarrow> batch \<times> view_state" where
  "buildFrameLifecycleFirst p selfID lastProcessedInput f visible limits v =
     (let v1 = sync_view f visible v in
      if lm_MaxMessages limits < 0 then buildDeferredLifecycleFrame selfID lastProcessedInput f v1
      else case firstUnknownDesired v1 of
        None \<Rightarrow> buildFrame p selfID lastProcessedInput f visible limits v1
      | Some firstUnknown \<Rightarrow>
          buildBootstrapLifecycleFrame selfID lastProcessedInput f visible firstUnknown limits v1)"

section \<open>The service\<close>

record replication_service =
  rs_views :: "(u64, view_state) fmap"
  rs_policy :: replication_policy

text \<open>More than one policy panics, as does an invalid one.\<close>

definition replication_NewService :: "replication_policy list \<Rightarrow> replication_service option" where
  "replication_NewService policies =
     (case policies of
        [] \<Rightarrow> Some \<lparr>rs_views = fmempty, rs_policy = DefaultPolicy\<rparr>
      | [p] \<Rightarrow> map_option (\<lambda>q. \<lparr>rs_views = fmempty, rs_policy = q\<rparr>) (resolvedPolicy p)
      | _ \<Rightarrow> None)"

definition replication_Register :: "u64 \<Rightarrow> replication_service \<Rightarrow> replication_service" where
  "replication_Register sessionID s =
     (if gomap_has (rs_views s) sessionID then s else s\<lparr>rs_views := fmupd sessionID newViewState (rs_views s)\<rparr>)"

definition replication_Remove :: "u64 \<Rightarrow> replication_service \<Rightarrow> replication_service" where
  "replication_Remove sessionID s = s\<lparr>rs_views := fmdrop sessionID (rs_views s)\<rparr>"

definition Knows :: "u64 \<Rightarrow> entity_id \<Rightarrow> replication_service \<Rightarrow> bool" where
  "Knows sessionID i s = (case fmlookup (rs_views s) sessionID of None \<Rightarrow> False | Some v \<Rightarrow> i |\<in>| vs_known v)"

definition Wants :: "u64 \<Rightarrow> entity_id \<Rightarrow> replication_service \<Rightarrow> bool" where
  "Wants sessionID i s =
     (case fmlookup (rs_views s) sessionID of None \<Rightarrow> False | Some v \<Rightarrow> desiredIndex (vs_desiredIDs v) i \<noteq> None)"

definition ConfirmSpawn :: "u64 \<Rightarrow> entity_id \<Rightarrow> replication_service \<Rightarrow> replication_service" where
  "ConfirmSpawn sessionID i s =
     (case fmlookup (rs_views s) sessionID of
        None \<Rightarrow> s | Some v \<Rightarrow> s\<lparr>rs_views := fmupd sessionID (view_ConfirmSpawn i v) (rs_views s)\<rparr>)"

definition ConfirmDespawn :: "u64 \<Rightarrow> entity_id \<Rightarrow> replication_service \<Rightarrow> replication_service" where
  "ConfirmDespawn sessionID i s =
     (case fmlookup (rs_views s) sessionID of
        None \<Rightarrow> s | Some v \<Rightarrow> s\<lparr>rs_views := fmupd sessionID (view_ConfirmDespawn i v) (rs_views s)\<rparr>)"

definition ensureView :: "u64 \<Rightarrow> replication_service \<Rightarrow> view_state" where
  "ensureView sessionID s = (case fmlookup (rs_views s) sessionID of None \<Rightarrow> newViewState | Some v \<Rightarrow> v)"

definition BuildFrameWithLifecycleLimits ::
  "u64 \<Rightarrow> entity_id \<Rightarrow> u32 \<Rightarrow> replication_frame \<Rightarrow> nat list \<Rightarrow> lifecycle_limits \<Rightarrow> replication_service \<Rightarrow> batch \<times> replication_service" where
  "BuildFrameWithLifecycleLimits sessionID selfID lastProcessedInput f visible limits s =
     (case buildFrame (rs_policy s) selfID lastProcessedInput f visible limits (ensureView sessionID s) of
        (b, v) \<Rightarrow> (b, s\<lparr>rs_views := fmupd sessionID v (rs_views s)\<rparr>))"

definition BuildFrame ::
  "u64 \<Rightarrow> entity_id \<Rightarrow> u32 \<Rightarrow> replication_frame \<Rightarrow> nat list \<Rightarrow> replication_service \<Rightarrow> batch \<times> replication_service" where
  "BuildFrame sessionID selfID lastProcessedInput f visible s =
     BuildFrameWithLifecycleLimits sessionID selfID lastProcessedInput f visible no_limits s"

definition BuildFrameLifecycleFirst ::
  "u64 \<Rightarrow> entity_id \<Rightarrow> u32 \<Rightarrow> replication_frame \<Rightarrow> nat list \<Rightarrow> lifecycle_limits \<Rightarrow> replication_service \<Rightarrow> batch \<times> replication_service" where
  "BuildFrameLifecycleFirst sessionID selfID lastProcessedInput f visible limits s =
     (case buildFrameLifecycleFirst (rs_policy s) selfID lastProcessedInput f visible limits (ensureView sessionID s) of
        (b, v) \<Rightarrow> (b, s\<lparr>rs_views := fmupd sessionID v (rs_views s)\<rparr>))"

text \<open>
  The borrowed variants differ in who owns the memory of the transforms, and \<open>Build\<close> makes a frame of
  its own from the entities it is given.
\<close>

definition BuildFrameBorrowed ::
  "u64 \<Rightarrow> entity_id \<Rightarrow> u32 \<Rightarrow> replication_frame \<Rightarrow> nat list \<Rightarrow> replication_service \<Rightarrow> batch \<times> replication_service" where
  "BuildFrameBorrowed sessionID selfID lastProcessedInput f visible s =
     BuildFrameWithLifecycleLimits sessionID selfID lastProcessedInput f visible no_limits s"

definition BuildFrameBorrowedWithLifecycleLimits ::
  "u64 \<Rightarrow> entity_id \<Rightarrow> u32 \<Rightarrow> replication_frame \<Rightarrow> nat list \<Rightarrow> lifecycle_limits \<Rightarrow> replication_service \<Rightarrow> batch \<times> replication_service" where
  "BuildFrameBorrowedWithLifecycleLimits sessionID selfID lastProcessedInput f visible limits s =
     (case buildFrame (rs_policy s) selfID lastProcessedInput f visible limits (ensureView sessionID s) of
        (b, v) \<Rightarrow> (b, s\<lparr>rs_views := fmupd sessionID v (rs_views s)\<rparr>))"

definition BuildFrameBorrowedLifecycleFirst ::
  "u64 \<Rightarrow> entity_id \<Rightarrow> u32 \<Rightarrow> replication_frame \<Rightarrow> nat list \<Rightarrow> lifecycle_limits \<Rightarrow> replication_service \<Rightarrow> batch \<times> replication_service" where
  "BuildFrameBorrowedLifecycleFirst sessionID selfID lastProcessedInput f visible limits s =
     (case buildFrameLifecycleFirst (rs_policy s) selfID lastProcessedInput f visible limits (ensureView sessionID s) of
        (b, v) \<Rightarrow> (b, s\<lparr>rs_views := fmupd sessionID v (rs_views s)\<rparr>))"

definition legacy_generation :: "view_state \<Rightarrow> entity_state \<Rightarrow> u64" where
  "legacy_generation v e =
     (let g = gomap_at 0 (vs_lastDeliveredGeneration v) (en_ID e) in
      if (case fmlookup (vs_lastSnapshot v) (en_ID e) of
            None \<Rightarrow> True
          | Some (position, yaw) \<Rightarrow> \<not> transform_eq \<lparr>tf_Position = position, tf_Yaw = yaw\<rparr> (en_Transform e))
      then (if g + 1 = 0 then 1 else g + 1)
      else g)"

definition legacy_frame :: "u64 \<Rightarrow> entity_state list \<Rightarrow> view_state \<Rightarrow> replication_frame" where
  "legacy_frame tick visible v =
     (let ordered = (if sorted (map en_ID visible) then visible else sort_key en_ID visible) in
      \<lparr>pf_Tick = tick, pf_Entities = ordered, pf_TransformGenerations = map (legacy_generation v) ordered,
       pf_IndexByID = fold (\<lambda>k m. fmupd (en_ID (ordered ! k)) k m) [0..<length ordered] fmempty,
       pf_Spatial = zero_read_frame\<rparr>)"

definition replication_Build ::
  "u64 \<Rightarrow> entity_id \<Rightarrow> u32 \<Rightarrow> u64 \<Rightarrow> entity_state list \<Rightarrow> replication_service \<Rightarrow> batch \<times> replication_service" where
  "replication_Build sessionID selfID lastProcessedInput tick visible s =
     (let v = ensureView sessionID s in
      case buildFrame (rs_policy s) selfID lastProcessedInput (legacy_frame tick visible v) [0..<length visible] no_limits v of
        (b, v') \<Rightarrow> (b, s\<lparr>rs_views := fmupd sessionID v' (rs_views s)\<rparr>))"

text \<open>Whether a membership change removes anything: a merge that stops at the first missing id.\<close>

fun membership_removed :: "replication_frame \<Rightarrow> entity_id list \<Rightarrow> nat list \<Rightarrow> bool" where
  "membership_removed f previous [] = (previous \<noteq> [])"
| "membership_removed f previous (k # ks) =
     (case frame_at f k of
        None \<Rightarrow> membership_removed f previous ks
      | Some e \<Rightarrow>
          (case previous of
             [] \<Rightarrow> membership_removed f [] ks
           | p # ps \<Rightarrow>
               if p < en_ID e then True
               else if p = en_ID e then (if ps = [] then False else membership_removed f ps ks)
               else membership_removed f previous ks))"

definition desiredMembershipRemoved :: "entity_id list \<Rightarrow> replication_frame \<Rightarrow> nat list \<Rightarrow> bool" where
  "desiredMembershipRemoved previous f visible = (if previous = [] then False else membership_removed f previous visible)"

definition NeedsLifecycleWork :: "u64 \<Rightarrow> replication_frame \<Rightarrow> nat list \<Rightarrow> replication_service \<Rightarrow> bool \<times> replication_service" where
  "NeedsLifecycleWork sessionID f visible s =
     (let v = ensureView sessionID s in
      (if \<not> sameDesiredIDs (vs_desiredIDs v) f visible then True
       else if firstUnknownDesired v \<noteq> None then True
       else vs_departed v \<noteq> [],
       s\<lparr>rs_views := fmupd sessionID v (rs_views s)\<rparr>))"

definition KnownByAny :: "entity_id \<Rightarrow> replication_service \<Rightarrow> bool" where
  "KnownByAny i s = fBex (fmdom (rs_views s)) (\<lambda>k. Knows k i s)"

definition HasKnownOutsideDesired :: "entity_id \<Rightarrow> replication_service \<Rightarrow> bool" where
  "HasKnownOutsideDesired i s = fBex (fmdom (rs_views s)) (\<lambda>k. Knows k i s \<and> \<not> Wants k i s)"


text \<open>The diagnostic counts over all views.\<close>

record convergence_stats =
  vg_Views :: nat
  vg_BuiltViews :: nat
  vg_DesiredRelationships :: nat
  vg_KnownDesired :: nat
  vg_PendingSpawns :: nat
  vg_PendingDespawns :: nat

definition known_desired :: "view_state \<Rightarrow> nat" where
  "known_desired v =
     length (filter (\<lambda>k. k < length (vs_tracks v) \<and> et_known (vs_tracks v ! k)) [0..<length (vs_desiredIDs v)])"

definition ConvergenceStats :: "replication_service option \<Rightarrow> convergence_stats" where
  "ConvergenceStats s =
     (case s of
        None \<Rightarrow> \<lparr>vg_Views = 0, vg_BuiltViews = 0, vg_DesiredRelationships = 0, vg_KnownDesired = 0,
                  vg_PendingSpawns = 0, vg_PendingDespawns = 0\<rparr>
      | Some s \<Rightarrow>
          \<lparr>vg_Views = gomap_len (rs_views s),
           vg_BuiltViews = gomap_sum (\<lambda>_ v. if 0 < vs_buildNumber v then 1 else 0) (rs_views s),
           vg_DesiredRelationships = gomap_sum (\<lambda>_ v. length (vs_desiredIDs v)) (rs_views s),
           vg_KnownDesired = gomap_sum (\<lambda>_ v. known_desired v) (rs_views s),
           vg_PendingSpawns = gomap_sum (\<lambda>_ v. length (vs_desiredIDs v) - known_desired v) (rs_views s),
           vg_PendingDespawns = gomap_sum (\<lambda>_ v. length (known_outside v)) (rs_views s)\<rparr>)"

section \<open>Delivery\<close>

text \<open>
  The loop of the world owner over the messages of a batch. A connection is anything that answers a
  send; a lifecycle message that meets back pressure stops the lifecycle messages after it, and one
  that was accepted is confirmed. The messages that were accepted are returned.
\<close>

fun isLifecycleMessage :: "repl_message \<Rightarrow> bool" where
  "isLifecycleMessage (EntitySpawn _ _ _ _) = True"
| "isLifecycleMessage (EntityDespawn _) = True"
| "isLifecycleMessage _ = False"

fun confirmLifecycleDelivery :: "repl_message \<Rightarrow> view_state \<Rightarrow> view_state" where
  "confirmLifecycleDelivery (EntitySpawn i _ _ _) v = view_ConfirmSpawn i v"
| "confirmLifecycleDelivery (EntityDespawn i) v = view_ConfirmDespawn i v"
| "confirmLifecycleDelivery _ v = v"

fun deliver ::
  "(outbound \<Rightarrow> 'c \<Rightarrow> session_error option \<times> 'c) \<Rightarrow> bool \<Rightarrow> outbound list \<Rightarrow> 'c \<Rightarrow> view_state \<Rightarrow>
     repl_message list \<times> 'c \<times> view_state" where
  "deliver send backpressured [] c v = ([], c, v)"
| "deliver send backpressured (m # ms) c v =
     (let lifecycle = isLifecycleMessage (ob_Message m) in
      if lifecycle \<and> backpressured then deliver send backpressured ms c v
      else case send m c of
        (Some err, c') \<Rightarrow>
          deliver send (if lifecycle \<and> err = ErrBackpressure then True else backpressured) ms c' v
      | (None, c') \<Rightarrow>
          (case deliver send backpressured ms c' (confirmLifecycleDelivery (ob_Message m) v) of
             (accepted, c'', v') \<Rightarrow> (ob_Message m # accepted, c'', v')))"

end
