(* ===== verification/ReplicationView.thy ===== *)
theory ReplicationView
  imports Replication
begin

text \<open>
  The view of a session (\<^theory_text>\<open>Replication\<close>): the search in the desired ids finds what is there, every way of
  catching up with the visible entities keeps the invariant \<open>view_inv\<close>, and the confirmations keep
  it. \<open>batch_ok\<close> says what a batch may hold, \<open>client_after\<close> and \<open>client_follows\<close> what a client makes of it.
\<close>

section \<open>Searching the desired ids\<close>

lemma search_spec:
  assumes "\<And>a b. a \<le> b \<Longrightarrow> b < j \<Longrightarrow> f a \<Longrightarrow> f b" and "i \<le> j"
  shows "i \<le> search_from f i j \<and> search_from f i j \<le> j \<and> (\<forall>k. i \<le> k \<and> k < search_from f i j \<longrightarrow> \<not> f k) \<and>
    (search_from f i j < j \<longrightarrow> f (search_from f i j))"
  using assms
proof (induction f i j rule: search_from.induct)
  case (1 f i j)
  define h where "h = (i + j) div 2"
  show ?case
  proof (cases "j \<le> i")
    case True
    then have "search_from f i j = i" by (subst search_from.simps) simp
    then show ?thesis using "1.prems"(2) True by auto
  next
    case False
    then have h: "i \<le> h" "h < j" by (auto simp: h_def)
    show ?thesis
    proof (cases "f h")
      case False
      have r: "search_from f i j = search_from f (h + 1) j"
        using False \<open>\<not> j \<le> i\<close> by (subst search_from.simps) (simp add: h_def Let_def)
      have ih: "h + 1 \<le> search_from f (h + 1) j \<and> search_from f (h + 1) j \<le> j \<and>
          (\<forall>k. h + 1 \<le> k \<and> k < search_from f (h + 1) j \<longrightarrow> \<not> f k) \<and>
          (search_from f (h + 1) j < j \<longrightarrow> f (search_from f (h + 1) j))"
        by (rule "1.IH"(1) [OF \<open>\<not> j \<le> i\<close> h_def False "1.prems"(1)]) (use h in simp_all)
      have below: "\<not> f k" if "k \<le> h" for k using False "1.prems"(1) [OF that h(2)] by blast
      have "\<not> f k" if "i \<le> k" "k < search_from f (h + 1) j" for k
        using below [of k] ih that by (cases "k \<le> h") auto
      with ih h r show ?thesis by auto
    next
      case True
      have r: "search_from f i j = search_from f i h"
        using True \<open>\<not> j \<le> i\<close> by (subst search_from.simps) (simp add: h_def Let_def)
      have mono: "\<And>a b. a \<le> b \<Longrightarrow> b < h \<Longrightarrow> f a \<Longrightarrow> f b"
        using "1.prems"(1) h(2) by (meson less_trans)
      have "i \<le> search_from f i h \<and> search_from f i h \<le> h \<and> (\<forall>k. i \<le> k \<and> k < search_from f i h \<longrightarrow> \<not> f k) \<and>
          (search_from f i h < h \<longrightarrow> f (search_from f i h))"
        by (rule "1.IH"(2) [OF \<open>\<not> j \<le> i\<close> h_def _ mono h(1)]) (use True in simp)
      then show ?thesis using True h r by (cases "search_from f i h = h") auto
    qed
  qed
qed

lemma desiredIndex_iff:
  assumes "sorted_wrt (<) ids"
  shows "desiredIndex ids i = Some k \<longleftrightarrow> k < length ids \<and> ids ! k = i"
proof -
  define r where "r = search_from (\<lambda>k. i \<le> ids ! k) 0 (length ids)"
  have less: "ids ! a < ids ! b" if "a < b" "b < length ids" for a b
    using assms that by (simp add: sorted_wrt_iff_nth_less)
  have mono: "i \<le> ids ! b" if "a \<le> b" "b < length ids" "i \<le> ids ! a" for a b
    using less [of a b] that by (cases "a = b") auto
  have spec: "0 \<le> r \<and> r \<le> length ids \<and> (\<forall>k. 0 \<le> k \<and> k < r \<longrightarrow> \<not> i \<le> ids ! k) \<and> (r < length ids \<longrightarrow> i \<le> ids ! r)"
    unfolding r_def by (rule search_spec) (rule mono, assumption+, simp)
  have s: "r \<le> length ids" "\<And>k. k < r \<Longrightarrow> \<not> i \<le> ids ! k" "r < length ids \<Longrightarrow> i \<le> ids ! r"
    using spec by simp_all
  have idx: "desiredIndex ids i = (if r < length ids \<and> ids ! r = i then Some r else None)"
    by (simp add: desiredIndex_def r_def [symmetric] Let_def)
  show ?thesis
  proof
    assume k: "k < length ids \<and> ids ! k = i"
    then have "\<not> k < r" using s(2) by auto
    moreover have "\<not> r < k" using k s(3) less [of r k] by auto
    ultimately have "r = k" by simp
    with k show "desiredIndex ids i = Some k" by (simp add: idx)
  qed (simp add: idx split: if_splits)
qed

lemma contains_iff: "sorted_wrt (<) ids \<Longrightarrow> containsDesiredID ids i \<longleftrightarrow> i \<in> set ids"
  using desiredIndex_iff [of ids i] unfolding containsDesiredID_def in_set_conv_nth by (metis not_None_eq)


section \<open>The view catches up\<close>

definition visible_ok :: "replication_frame \<Rightarrow> nat list \<Rightarrow> bool" where
  "visible_ok f visible =
     (list_all (\<lambda>k. k < length (pf_Entities f)) visible \<and> sorted_wrt (<) (desired_of f visible))"

lemma desired_of_simps:
  "desired_of f [] = []"
  "k < length (pf_Entities f) \<Longrightarrow> desired_of f (k # ks) = en_ID (pf_Entities f ! k) # desired_of f ks"
  by (simp_all add: desired_of_def frame_at_def)

lemma desired_of_append: "desired_of f (xs @ ys) = desired_of f xs @ desired_of f ys"
  by (simp add: desired_of_def)

lemma length_desired_of [simp]: "length (desired_of f xs) = length xs"
  by (simp add: desired_of_def)

lemma visible_ok_Cons:
  "visible_ok f (k # ks) \<longleftrightarrow> k < length (pf_Entities f) \<and> visible_ok f ks \<and>
     (\<forall>i \<in> set (desired_of f ks). en_ID (pf_Entities f ! k) < i)"
  by (auto simp: visible_ok_def desired_of_def frame_at_def list_all_iff)

lemma same_iff:
  "list_all (\<lambda>k. k < length (pf_Entities f)) visible \<Longrightarrow> sameDesiredIDs previous f visible \<longleftrightarrow> previous = desired_of f visible"
proof (induction visible arbitrary: previous)
  case Nil
  then show ?case by (simp add: sameDesiredIDs_def desired_of_def)
next
  case (Cons k ks)
  then show ?case
    by (cases previous) (auto simp: sameDesiredIDs_def desired_of_simps frame_at_def)
qed

lemma append_only:
  assumes "visible_ok f visible" and "desiredAppendOnly previous f visible"
  shows "desired_of f visible = previous @ desired_of f (drop (length previous) visible)"
proof -
  let ?n = "length previous"
  have "list_all (\<lambda>k. k < length (pf_Entities f)) (take ?n visible)"
    using assms(1) set_take_subset [of ?n visible] by (auto simp: visible_ok_def list_all_iff)
  then have "previous = desired_of f (take ?n visible)"
    using assms(2) same_iff by (auto simp: desiredAppendOnly_def split: if_splits)
  then show ?thesis by (metis append_take_drop_id desired_of_append)
qed

text \<open>The test for removals is a subset test.\<close>

lemma membership_removed_iff:
  "visible_ok f visible \<Longrightarrow> sorted_wrt (<) previous \<Longrightarrow>
     membership_removed f previous visible \<longleftrightarrow> \<not> set previous \<subseteq> set (desired_of f visible)"
proof (induction visible arbitrary: previous)
  case Nil
  then show ?case by (simp add: desired_of_simps)
next
  case (Cons k ks)
  define e where "e = pf_Entities f ! k"
  have k: "k < length (pf_Entities f)" "visible_ok f ks" "\<And>i. i \<in> set (desired_of f ks) \<Longrightarrow> en_ID e < i"
    using Cons.prems(1) by (simp_all add: visible_ok_Cons e_def)
  have at: "frame_at f k = Some e" using k(1) by (simp add: frame_at_def e_def)
  have want: "desired_of f (k # ks) = en_ID e # desired_of f ks" using k(1) by (simp add: desired_of_simps e_def)
  show ?case
  proof (cases previous)
    case Nil
    then show ?thesis using Cons.IH [OF k(2), of "[]"] at by simp
  next
    case p: (Cons p ps)
    have ps: "sorted_wrt (<) ps" "\<And>i. i \<in> set ps \<Longrightarrow> p < i" using Cons.prems(2) by (simp_all add: p)
    consider "p < en_ID e" | "p = en_ID e" | "en_ID e < p" by fastforce
    then show ?thesis
    proof cases
      case 1
      then have "p \<notin> set (desired_of f (k # ks))" using k(3) [of p] by (auto simp: want)
      then show ?thesis using 1 at by (simp add: p)
    next
      case 2
      then have "en_ID e \<notin> set ps" using ps(2) by blast
      then show ?thesis using 2 at Cons.IH [OF k(2) ps(1)] by (auto simp: p want)
    next
      case 3
      then have "en_ID e \<notin> set previous" using ps(2) by (fastforce simp: p)
      moreover have "membership_removed f previous (k # ks) = membership_removed f previous ks" using 3 at by (auto simp: p)
      ultimately show ?thesis using Cons.IH [OF k(2) Cons.prems(2)] by (auto simp: want)
    qed
  qed
qed

lemma desiredMembershipRemoved_iff:
  "visible_ok f visible \<Longrightarrow> sorted_wrt (<) previous \<Longrightarrow>
     desiredMembershipRemoved previous f visible \<longleftrightarrow> \<not> set previous \<subseteq> set (desired_of f visible)"
  using membership_removed_iff by (simp add: desiredMembershipRemoved_def)

text \<open>The frame of the older builder is in order, so what holds of frames holds of it.\<close>

lemma legacy_frame_ok:
  assumes "distinct (map en_ID visible)"
  shows "visible_ok (legacy_frame tick visible v) [0..<length visible]"
proof -
  define ordered where "ordered = (if sorted (map en_ID visible) then visible else sort_key en_ID visible)"
  have o: "sorted (map en_ID ordered)" "length ordered = length visible" "pf_Entities (legacy_frame tick visible v) = ordered"
    by (simp_all add: ordered_def legacy_frame_def Let_def)
  have "mset (map en_ID ordered) = mset (map en_ID visible)" by (simp add: ordered_def)
  then have "distinct (map en_ID ordered)" using assms mset_eq_imp_distinct_iff by metis
  moreover have "desired_of (legacy_frame tick visible v) [0..<length visible] = map en_ID ordered"
    using o by (intro nth_equalityI) (simp_all add: desired_of_def frame_at_def)
  ultimately show ?thesis using o by (simp add: visible_ok_def list_all_iff strict_sorted_iff)
qed

definition tracks_ok :: "view_state \<Rightarrow> bool" where
  "tracks_ok v = (map et_id (vs_tracks v) = vs_desiredIDs v \<and>
     (\<forall>t \<in> set (vs_tracks v). et_known t \<longleftrightarrow> et_id t |\<in>| vs_known v))"

definition view_inv :: "view_state \<Rightarrow> bool" where
  "view_inv v =
     (sorted_wrt (<) (vs_desiredIDs v) \<and> tracks_ok v \<and> sorted_wrt (<) (vs_departed v) \<and>
      set (vs_departed v) \<inter> set (vs_desiredIDs v) = {} \<and>
      (\<forall>i. i |\<in>| vs_known v \<longrightarrow> i \<notin> set (vs_desiredIDs v) \<longrightarrow> i \<in> set (vs_departed v)))"

lemma sorted_wrt_filter_less: "sorted_wrt (<) xs \<Longrightarrow> sorted_wrt (<) (filter P xs)" for xs :: "u64 list"
  by (rule sorted_wrt_filter)

lemma known_outside_props:
  assumes "sorted_wrt (<) (vs_desiredIDs v)"
  shows "sorted_wrt (<) (known_outside v)" and "set (known_outside v) = {i. i |\<in>| vs_known v \<and> i \<notin> set (vs_desiredIDs v)}"
proof -
  show "sorted_wrt (<) (known_outside v)"
    by (simp add: known_outside_def sorted_list_of_fset.rep_eq strict_sorted_list_of_set)
  show "set (known_outside v) = {i. i |\<in>| vs_known v \<and> i \<notin> set (vs_desiredIDs v)}"
    using contains_iff [OF assms] by (auto simp: known_outside_def)
qed

lemma desired_diff_spec:
  "visible_ok f visible \<Longrightarrow> sorted_wrt (<) olds \<Longrightarrow>
     desired_diff K f olds visible = filter (\<lambda>i. i |\<in>| K \<and> i \<notin> set (desired_of f visible)) olds"
proof (induction K f olds visible rule: desired_diff.induct)
  case (2 known f old olds)
  then show ?case by (simp add: desired_of_simps)
next
  case (3 known f old olds k ks)
  let ?e = "pf_Entities f ! k"
  have k: "k < length (pf_Entities f)" "visible_ok f ks" "\<forall>i \<in> set (desired_of f ks). en_ID ?e < i"
    using "3.prems"(1) by (simp_all add: visible_ok_Cons)
  have olds: "sorted_wrt (<) olds" "\<forall>i \<in> set olds. old < i" using "3.prems"(2) by simp_all
  have at: "frame_at f k = Some ?e" using k(1) by (simp add: frame_at_def)
  consider "en_ID ?e < old" | "en_ID ?e = old" | "old < en_ID ?e" by fastforce
  then show ?case
  proof cases
    case 1
    have "desired_diff known f (old # olds) ks = filter (\<lambda>i. i |\<in>| known \<and> i \<notin> set (desired_of f ks)) (old # olds)"
      by (rule "3.IH"(2) [OF at 1 k(2) "3.prems"(2)])
    moreover have "\<forall>i \<in> set (old # olds). i \<noteq> en_ID ?e" using 1 olds(2) by auto
    ultimately show ?thesis using 1 at k(1) by (auto simp: desired_of_simps intro: filter_cong)
  next
    case 2
    have "desired_diff known f olds ks = filter (\<lambda>i. i |\<in>| known \<and> i \<notin> set (desired_of f ks)) olds"
      by (rule "3.IH"(3) [OF at _ 2 k(2) olds(1)]) (simp add: 2)
    moreover have "\<forall>i \<in> set olds. i \<noteq> en_ID ?e" using 2 olds(2) by auto
    ultimately show ?thesis using 2 at k(1) by (auto simp: desired_of_simps intro: filter_cong)
  next
    case 3
    have "desired_diff known f olds (k # ks) = filter (\<lambda>i. i |\<in>| known \<and> i \<notin> set (desired_of f (k # ks))) olds"
      by (rule "3.IH"(4) [OF at _ _ "3.prems"(1) olds(1)]) (use 3 in auto)
    moreover have "old \<notin> set (desired_of f (k # ks))" using 3 k by (auto simp: desired_of_simps)
    ultimately show ?thesis using 3 at by auto
  qed
qed simp

lemma converged_merge_spec:
  assumes "visible_ok f visible" and "sorted_wrt (<) (map et_id old)" and "list_all et_known old"
    and "converged_merge f visible old = (dep, ids, ts)"
  shows "ids = desired_of f visible \<and> dep = filter (\<lambda>i. i \<notin> set (desired_of f visible)) (map et_id old) \<and>
    map et_id ts = ids \<and> (\<forall>t \<in> set ts. et_known t \<longleftrightarrow> et_id t \<in> et_id ` set old)"
  using assms
proof (induction visible arbitrary: old dep ids ts)
  case Nil
  then show ?case by (auto simp: desired_of_simps list_all_iff intro: filter_True)
next
  case (Cons k ks)
  define e where "e = pf_Entities f ! k"
  define gone where "gone = takeWhile (\<lambda>t. et_id t < en_ID e) old"
  define left where "left = dropWhile (\<lambda>t. et_id t < en_ID e) old"
  define kept where "kept = (left \<noteq> [] \<and> et_id (hd left) = en_ID e)"
  define left' where "left' = (if kept then drop 1 left else left)"
  have k: "k < length (pf_Entities f)" "visible_ok f ks" "\<forall>i \<in> set (desired_of f ks). en_ID e < i"
    using Cons.prems(1) by (simp_all add: visible_ok_Cons e_def)
  have at: "frame_at f k = Some e" using k(1) by (simp add: frame_at_def e_def)
  have old: "old = gone @ left" by (simp add: gone_def left_def)
  have gone: "et_id t < en_ID e" if "t \<in> set gone" for t using set_takeWhileD [OF that [unfolded gone_def]] by simp
  have s: "sorted_wrt (<) (map et_id left)" "sorted_wrt (<) (map et_id gone)"
    using Cons.prems(2) by (simp_all add: old sorted_wrt_append)
  have left: "en_ID e \<le> et_id t" if "t \<in> set left" for t
  proof (cases left)
    case (Cons a as)
    then have "\<not> et_id a < en_ID e" using hd_dropWhile [of "\<lambda>t. et_id t < en_ID e" old] by (auto simp: left_def)
    moreover have "et_id a \<le> et_id t" using that s(1) Cons by auto
    ultimately show ?thesis by auto
  qed (use that in simp)
  have left': "en_ID e < et_id t" if "t \<in> set left'" for t
  proof (cases left)
    case (Cons a as)
    then have as: "et_id a < et_id u" if "u \<in> set as" for u using that s(1) by auto
    show ?thesis
    proof (cases kept)
      case True
      then show ?thesis using that as Cons by (auto simp: left'_def kept_def)
    next
      case False
      then have "et_id a \<noteq> en_ID e" "t \<in> set left" using Cons that by (auto simp: left'_def kept_def)
      then show ?thesis using left [of a] left [of t] as Cons by fastforce
    qed
  qed (use that in \<open>simp add: left'_def split: if_splits\<close>)
  have s': "sorted_wrt (<) (map et_id left')" "list_all et_known left'"
    using s(1) Cons.prems(3) by (cases left; simp add: left'_def old)+
  obtain dep1 ids1 ts1 where rec: "converged_merge f ks left' = (dep1, ids1, ts1)" by (metis prod_cases3)
  note ih = Cons.IH [OF k(2) s' rec]
  have "converged_merge f (k # ks) old = (case converged_merge f ks left' of (dep, ids, ts) \<Rightarrow>
      (map et_id (filter et_known gone) @ dep, en_ID e # ids, (if kept then hd left else zero_track\<lparr>et_id := en_ID e\<rparr>) # ts))"
    by (simp only: converged_merge.simps at option.case Let_def gone_def left_def kept_def left'_def)
  then have res: "dep = map et_id (filter et_known gone) @ dep1" "ids = en_ID e # ids1"
    "ts = (if kept then hd left else zero_track\<lparr>et_id := en_ID e\<rparr>) # ts1"
    using Cons.prems(4) rec by simp_all
  have known_gone: "filter et_known gone = gone" using Cons.prems(3) by (simp add: old list_all_iff)
  have want: "desired_of f (k # ks) = en_ID e # desired_of f ks" using k(1) by (simp add: desired_of_simps e_def)
  have d1: "filter (\<lambda>i. i \<notin> set (desired_of f (k # ks))) (map et_id gone) = map et_id gone"
    using gone k(3) by (intro filter_True) (fastforce simp: want)
  have d2: "filter (\<lambda>i. i \<notin> set (desired_of f (k # ks))) (map et_id left) = filter (\<lambda>i. i \<notin> set (desired_of f ks)) (map et_id left')"
  proof -
    have "filter (\<lambda>i. i \<notin> set (desired_of f (k # ks))) (map et_id left') = filter (\<lambda>i. i \<notin> set (desired_of f ks)) (map et_id left')"
      by (intro filter_cong) (auto simp: want dest!: left')
    moreover have "filter (\<lambda>i. i \<notin> set (desired_of f (k # ks))) (map et_id left) =
        filter (\<lambda>i. i \<notin> set (desired_of f (k # ks))) (map et_id left')"
      by (cases left) (auto simp: left'_def kept_def want)
    ultimately show ?thesis by simp
  qed
  have dep: "dep = filter (\<lambda>i. i \<notin> set (desired_of f (k # ks))) (map et_id old)"
    using ih by (simp only: res(1) known_gone old map_append filter_append d1 d2)
  have beyond: "j \<in> et_id ` set old \<longleftrightarrow> j \<in> et_id ` set left'" if "en_ID e < j" for j
  proof -
    have g: "j \<notin> et_id ` set gone" using gone that by fastforce
    have "et_id ` set left - {en_ID e} = et_id ` set left' - {en_ID e}"
      by (cases left) (auto simp: left'_def kept_def)
    moreover have "j \<noteq> en_ID e" using that by auto
    ultimately have "j \<in> et_id ` set left \<longleftrightarrow> j \<in> et_id ` set left'" by blast
    with g show ?thesis by (simp add: old image_Un)
  qed
  have "et_known t \<longleftrightarrow> et_id t \<in> et_id ` set old" if "t \<in> set ts" for t
  proof (cases "t \<in> set ts1")
    case True
    then have "et_known t \<longleftrightarrow> et_id t \<in> et_id ` set left'" using ih by blast
    moreover have "et_id t \<in> set (desired_of f ks)" using ih True by (metis image_eqI list.set_map)
    then have "en_ID e < et_id t" using k(3) by blast
    then have "et_id t \<in> et_id ` set old \<longleftrightarrow> et_id t \<in> et_id ` set left'" by (rule beyond)
    ultimately show ?thesis by simp
  next
    case False
    show ?thesis
    proof (cases kept)
      case True
      then have t: "t = hd left" "left \<noteq> []" using False that by (auto simp: res(3) kept_def)
      then have "t \<in> set old" by (simp add: old)
      then show ?thesis using Cons.prems(3) by (auto simp: list_all_iff)
    next
      case no: False
      then have t: "t = zero_track\<lparr>et_id := en_ID e\<rparr>" using False that by (simp add: res(3))
      have "left' = left" using no by (simp add: left'_def)
      then have "en_ID e \<notin> et_id ` set old" using gone left' by (fastforce simp: old)
      then show ?thesis by (simp add: t zero_track_def)
    qed
  qed
  moreover have "map et_id ts = ids" using ih by (simp add: res kept_def)
  moreover have "ids = desired_of f (k # ks)" using ih by (simp add: res want)
  ultimately show ?case using dep by blast
qed

lemma track_maps:
  assumes "list_all (\<lambda>k. k < length (pf_Entities f)) visible" and "\<And>i. et_id (T i) = i" and "\<And>i. et_known (T i) \<longleftrightarrow> i |\<in>| K"
  shows "map et_id (map (\<lambda>k. case frame_at f k of None \<Rightarrow> zero_track | Some e \<Rightarrow> T (en_ID e)) visible) = desired_of f visible"
    and "t \<in> set (map (\<lambda>k. case frame_at f k of None \<Rightarrow> zero_track | Some e \<Rightarrow> T (en_ID e)) visible) \<Longrightarrow> et_known t \<longleftrightarrow> et_id t |\<in>| K"
  using assms by (auto simp: desired_of_def frame_at_def list_all_iff)

lemma stored_track_fields [simp]: "et_id (stored_track v i) = i" "et_known (stored_track v i) \<longleftrightarrow> i |\<in>| vs_known v"
  by (simp_all add: stored_track_def)

lemma lifecycle_track_fields [simp]: "et_id (lifecycle_track v i) = i" "et_known (lifecycle_track v i) \<longleftrightarrow> i |\<in>| vs_known v"
  by (simp_all add: lifecycle_track_def zero_track_def)

lemma visible_okD:
  "visible_ok f visible \<Longrightarrow> list_all (\<lambda>k. k < length (pf_Entities f)) visible"
  "visible_ok f visible \<Longrightarrow> sorted_wrt (<) (desired_of f visible)"
  by (simp_all add: visible_ok_def)

lemma view_invI:
  assumes "sorted_wrt (<) (vs_desiredIDs v)" and "map et_id (vs_tracks v) = vs_desiredIDs v"
    and "\<And>t. t \<in> set (vs_tracks v) \<Longrightarrow> et_known t \<longleftrightarrow> et_id t |\<in>| vs_known v"
    and "sorted_wrt (<) (vs_departed v)" and "\<And>i. i \<in> set (vs_departed v) \<Longrightarrow> i \<notin> set (vs_desiredIDs v)"
    and "\<And>i. i |\<in>| vs_known v \<Longrightarrow> i \<notin> set (vs_desiredIDs v) \<Longrightarrow> i \<in> set (vs_departed v)"
  shows "view_inv v"
  using assms by (auto simp: view_inv_def tracks_ok_def)

lemma view_invD:
  assumes "view_inv v"
  shows "sorted_wrt (<) (vs_desiredIDs v)" and "map et_id (vs_tracks v) = vs_desiredIDs v"
    and "t \<in> set (vs_tracks v) \<Longrightarrow> et_known t \<longleftrightarrow> et_id t |\<in>| vs_known v"
    and "sorted_wrt (<) (vs_departed v)" and "i \<in> set (vs_departed v) \<Longrightarrow> i \<notin> set (vs_desiredIDs v)"
    and "i |\<in>| vs_known v \<Longrightarrow> i \<notin> set (vs_desiredIDs v) \<Longrightarrow> i \<in> set (vs_departed v)"
    and "length (vs_tracks v) = length (vs_desiredIDs v)"
  using assms by (auto simp: view_inv_def tracks_ok_def) (metis length_map)

lemma fset_within_sorted:
  fixes K :: "entity_id fset"
  assumes "sorted_wrt (<) ids" and "fcard K = length ids" and "\<And>i. i |\<in>| K \<Longrightarrow> i \<in> set ids"
  shows "i \<in> set ids \<Longrightarrow> i |\<in>| K"
proof -
  have "distinct ids" using assms(1) by (simp add: strict_sorted_iff)
  then have "card (set ids) = card (fset K)" using assms(2) by (simp add: distinct_card fcard.rep_eq)
  then have "fset K = set ids" using assms(3) by (intro card_subset_eq) auto
  then show "i \<in> set ids \<Longrightarrow> i |\<in>| K" by simp
qed

text \<open>
  Whichever of its ways the catching up takes, the view afterwards desires what is visible, its
  tracks agree with what is known, and everything known outside is listed as departed.
\<close>

lemma sync_view_inv:
  assumes inv: "view_inv v" and ok: "visible_ok f visible"
  shows "view_inv (sync_view f visible v) \<and> vs_desiredIDs (sync_view f visible v) = desired_of f visible \<and>
    vs_known (sync_view f visible v) = vs_known v"
proof -
  note i = view_invD [OF inv] and o = visible_okD [OF ok]
  define D where "D = desired_of f visible"
  consider (same) "vs_desiredIDs v = D" | (append) "vs_desiredIDs v \<noteq> D" "desiredAppendOnly (vs_desiredIDs v) f visible"
    | (converged) "vs_desiredIDs v \<noteq> D" "\<not> desiredAppendOnly (vs_desiredIDs v) f visible" "vs_departed v = []"
      "fcard (vs_known v) = length (vs_desiredIDs v)"
    | (fresh) "vs_desiredIDs v \<noteq> D" "\<not> desiredAppendOnly (vs_desiredIDs v) f visible" "vs_departed v = []"
      "fcard (vs_known v) \<noteq> length (vs_desiredIDs v)"
    | (pending) "vs_desiredIDs v \<noteq> D" "\<not> desiredAppendOnly (vs_desiredIDs v) f visible" "vs_departed v \<noteq> []"
    by blast
  then show ?thesis
  proof cases
    case same
    define v' where "v' = (if vs_departed v \<noteq> [] then pruneConfirmedDepartedPrefix v else v)"
    have s: "sync_view f visible v = v'" using same o(1) by (simp add: sync_view_def same_iff D_def v'_def)
    have dep: "vs_departed v' = dropWhile (\<lambda>i. i |\<notin>| vs_known v) (vs_departed v)"
      by (simp add: v'_def pruneConfirmedDepartedPrefix_def)
    have f: "vs_desiredIDs v' = D" "vs_tracks v' = vs_tracks v" "vs_known v' = vs_known v"
      using same by (simp_all add: v'_def pruneConfirmedDepartedPrefix_def)
    have "view_inv v'"
    proof (rule view_invI)
      show "sorted_wrt (<) (vs_departed v')"
        using i(4) sorted_wrt_append takeWhile_dropWhile_id unfolding dep by (metis (no_types, lifting))
      show "j \<notin> set (vs_desiredIDs v')" if "j \<in> set (vs_departed v')" for j
        using i(5) that set_dropWhileD f(1) same unfolding dep by metis
      fix j assume j: "j |\<in>| vs_known v'" "j \<notin> set (vs_desiredIDs v')"
      then have "j \<in> set (vs_departed v)" using i(6) f same by simp
      moreover have "j \<notin> set (takeWhile (\<lambda>i. i |\<notin>| vs_known v) (vs_departed v))" using j(1) f(3) set_takeWhileD by metis
      ultimately show "j \<in> set (vs_departed v')" unfolding dep by (metis Un_iff set_append takeWhile_dropWhile_id)
    qed (use i f same in simp_all)
    then show ?thesis using s f by (simp add: D_def)
  next
    case append
    define n where "n = length (vs_desiredIDs v)"
    define v1 where "v1 = appendDesiredTracks f visible v"
    define v' where "v' = (if vs_departed v1 \<noteq> [] then prunePendingDeparted v1 else v1)"
    have s: "sync_view f visible v = v'"
      using append o(1) by (simp add: sync_view_def same_iff D_def v'_def v1_def Let_def)
    have D: "D = vs_desiredIDs v @ desired_of f (drop n visible)"
      using append_only [OF ok append(2)] by (simp add: D_def n_def)
    have d1: "vs_desiredIDs v1 = D" "vs_known v1 = vs_known v" "vs_departed v1 = vs_departed v"
      using D by (simp_all add: v1_def appendDesiredTracks_def Let_def n_def)
    have f: "vs_desiredIDs v' = D" "vs_known v' = vs_known v" "vs_tracks v' = vs_tracks v1"
      using d1 by (simp_all add: v'_def prunePendingDeparted_def)
    have drop: "list_all (\<lambda>k. k < length (pf_Entities f)) (drop n visible)"
      using o(1) set_drop_subset [of n visible] by (auto simp: list_all_iff)
    note new = track_maps [OF drop, of "stored_track v" "vs_known v"]
    have t1: "vs_tracks v1 = vs_tracks v @
        map (\<lambda>k. case frame_at f k of None \<Rightarrow> zero_track | Some e \<Rightarrow> stored_track v (en_ID e)) (drop n visible)"
      by (simp add: v1_def appendDesiredTracks_def Let_def n_def)
    have contains: "containsDesiredID D j \<longleftrightarrow> j \<in> set D" for j using contains_iff o(2) by (simp add: D_def)
    have dep: "vs_departed v' = filter (\<lambda>j. j |\<in>| vs_known v \<and> j \<notin> set D) (vs_departed v)"
      using d1 contains by (simp add: v'_def prunePendingDeparted_def)
    have "view_inv v'"
    proof (rule view_invI)
      show "map et_id (vs_tracks v') = vs_desiredIDs v'"
        using i(2) new(1) by (simp only: f t1 D map_append stored_track_fields)
      show "et_known t \<longleftrightarrow> et_id t |\<in>| vs_known v'" if "t \<in> set (vs_tracks v')" for t
        using that i(3) new(2) unfolding f t1 set_append Un_iff by (metis stored_track_fields)
      show "sorted_wrt (<) (vs_departed v')" unfolding dep using i(4) by (rule sorted_wrt_filter)
      show "j \<in> set (vs_departed v')" if "j |\<in>| vs_known v'" "j \<notin> set (vs_desiredIDs v')" for j
        using that i(6) [of j] by (simp add: dep f D)
    qed (use f dep o(2) in \<open>simp_all add: D_def\<close>)
    then show ?thesis using s f by (simp add: D_def)
  next
    case converged
    obtain dep ids ts where m: "converged_merge f visible (vs_tracks v) = (dep, ids, ts)" by (metis prod_cases3)
    have s: "sync_view f visible v = v\<lparr>vs_departed := dep, vs_desiredIDs := ids, vs_tracks := ts\<rparr>"
      using converged o(1) m
      by (simp add: sync_view_def same_iff D_def rebuildConvergedLifecycleTracks_def Let_def)
    have in_desired: "j \<in> set (vs_desiredIDs v)" if "j |\<in>| vs_known v" for j using i(6) [OF that] converged(3) by auto
    have all: "j |\<in>| vs_known v" if "j \<in> set (vs_desiredIDs v)" for j
      using fset_within_sorted [OF i(1) converged(4) in_desired] that by blast
    then have "list_all et_known (vs_tracks v)" using i(2,3) by (metis (no_types, lifting) image_eqI list.set_map list_all_iff)
    from converged_merge_spec [OF ok _ this m] have r: "ids = D" "dep = filter (\<lambda>i. i \<notin> set D) (vs_desiredIDs v)"
      "map et_id ts = ids" "\<And>t. t \<in> set ts \<Longrightarrow> et_known t \<longleftrightarrow> et_id t \<in> set (vs_desiredIDs v)"
      using i(1,2) by (auto simp: D_def simp flip: list.set_map)
    have "view_inv (v\<lparr>vs_departed := dep, vs_desiredIDs := ids, vs_tracks := ts\<rparr>)"
    proof (rule view_invI)
      show "sorted_wrt (<) (vs_departed (v\<lparr>vs_departed := dep, vs_desiredIDs := ids, vs_tracks := ts\<rparr>))"
        using i(1) by (simp add: r(2) sorted_wrt_filter)
    qed (use r o(2) all in_desired in \<open>auto simp: D_def\<close>)
    then show ?thesis using s r by (simp add: D_def)
  next
    case fresh
    define v1 where "v1 = rebuildPendingDepartedFromDesiredDiff f visible v"
    have s: "sync_view f visible v = rebuildLifecycleDesiredTracks f visible v1"
      using fresh o(1) by (simp add: sync_view_def same_iff D_def v1_def Let_def)
    have dep: "vs_departed (rebuildLifecycleDesiredTracks f visible v1) =
        filter (\<lambda>i. i |\<in>| vs_known v \<and> i \<notin> set D) (vs_desiredIDs v)"
      using desired_diff_spec [OF ok i(1)]
      by (simp add: rebuildLifecycleDesiredTracks_def v1_def rebuildPendingDepartedFromDesiredDiff_def D_def)
    have f: "vs_known v1 = vs_known v" by (simp add: v1_def rebuildPendingDepartedFromDesiredDiff_def)
    have "view_inv (rebuildLifecycleDesiredTracks f visible v1)"
    proof (rule view_invI)
      show "sorted_wrt (<) (vs_departed (rebuildLifecycleDesiredTracks f visible v1))"
        unfolding dep using i(1) by (rule sorted_wrt_filter)
      show "j \<in> set (vs_departed (rebuildLifecycleDesiredTracks f visible v1))"
        if "j |\<in>| vs_known (rebuildLifecycleDesiredTracks f visible v1)"
          "j \<notin> set (vs_desiredIDs (rebuildLifecycleDesiredTracks f visible v1))" for j
        using that i(6) [of j] fresh(3) f unfolding dep by (auto simp: rebuildLifecycleDesiredTracks_def D_def)
    qed (use o(2) track_maps [OF o(1), of "lifecycle_track v1" "vs_known v1"] dep in
        \<open>auto simp: rebuildLifecycleDesiredTracks_def D_def\<close>)
    then show ?thesis using s f by (simp add: rebuildLifecycleDesiredTracks_def)
  next
    case pending
    define v2 where "v2 = rebuildLifecycleDesiredTracks f visible v"
    have s: "sync_view f visible v = rebuildPendingDeparted v2"
      using pending o(1) by (simp add: sync_view_def same_iff D_def v2_def Let_def)
    have f: "vs_desiredIDs v2 = D" "vs_known v2 = vs_known v" by (simp_all add: v2_def rebuildLifecycleDesiredTracks_def D_def)
    note out = known_outside_props [of v2]
    have "view_inv (rebuildPendingDeparted v2)"
    proof (rule view_invI)
      show "map et_id (vs_tracks (rebuildPendingDeparted v2)) = vs_desiredIDs (rebuildPendingDeparted v2)"
        using track_maps(1) [OF o(1), of "lifecycle_track v" "vs_known v"]
        by (simp add: rebuildPendingDeparted_def v2_def rebuildLifecycleDesiredTracks_def)
      show "et_known t \<longleftrightarrow> et_id t |\<in>| vs_known (rebuildPendingDeparted v2)" if "t \<in> set (vs_tracks (rebuildPendingDeparted v2))" for t
        using that track_maps(2) [OF o(1), of "lifecycle_track v" "vs_known v" t]
        by (simp add: rebuildPendingDeparted_def v2_def rebuildLifecycleDesiredTracks_def)
    qed (use out o(2) f in \<open>auto simp: rebuildPendingDeparted_def D_def\<close>)
    then show ?thesis using s f by (simp add: rebuildPendingDeparted_def D_def)
  qed
qed

section \<open>What a batch may hold\<close>

fun spawned :: "repl_message \<Rightarrow> entity_id list" where
  "spawned (EntitySpawn i _ _ _) = [i]"
| "spawned _ = []"

fun despawned :: "repl_message \<Rightarrow> entity_id list" where
  "despawned (EntityDespawn i) = [i]"
| "despawned _ = []"

fun updated :: "repl_message \<Rightarrow> entity_id list" where
  "updated (WorldSnapshot _ _ _ ts) = map xf_EntityID ts"
| "updated _ = []"

definition spawns :: "outbound list \<Rightarrow> entity_id list" where
  "spawns ms = concat (map (spawned \<circ> ob_Message) ms)"

definition despawns :: "outbound list \<Rightarrow> entity_id list" where
  "despawns ms = concat (map (despawned \<circ> ob_Message) ms)"

definition updates :: "outbound list \<Rightarrow> entity_id list" where
  "updates ms = concat (map (updated \<circ> ob_Message) ms)"

lemma message_lists [simp]:
  "spawns [] = []" "despawns [] = []" "updates [] = []"
  "spawns (m # ms) = spawned (ob_Message m) @ spawns ms" "despawns (m # ms) = despawned (ob_Message m) @ despawns ms"
  "updates (m # ms) = updated (ob_Message m) @ updates ms"
  "spawns (ms @ ns) = spawns ms @ spawns ns" "despawns (ms @ ns) = despawns ms @ despawns ns"
  "updates (ms @ ns) = updates ms @ updates ns"
  by (simp_all add: spawns_def despawns_def updates_def)

lemma lifecycle_messages [simp]:
  "spawns [spawn_message tick e] = [en_ID e]" "despawns [spawn_message tick e] = []" "updates [spawn_message tick e] = []"
  "spawns [despawn_message i] = []" "despawns [despawn_message i] = [i]" "updates [despawn_message i] = []"
  by (simp_all add: spawn_message_def despawn_message_def)

lemma correction_lists [simp]:
  "spawns (correction_for f s n) = []" "despawns (correction_for f s n) = []" "updates (correction_for f s n) = []"
  by (simp_all add: correction_for_def correction_message_def split: option.split)

lemma chunk_lists: "spawns (snapshot_chunks tick ts) = []" "despawns (snapshot_chunks tick ts) = []"
  by (simp_all add: snapshot_chunks_def spawns_def despawns_def comp_def concat_eq_Nil_conv)

text \<open>The chunks hold the transforms, in order.\<close>

lemma blocks_concat: "length ts \<le> n * b \<Longrightarrow> concat (map (\<lambda>c. take b (drop (c * b) ts)) [0..<n]) = ts"
proof (induction n arbitrary: ts)
  case (Suc n)
  have "concat (map (\<lambda>c. take b (drop (c * b) ts)) [0..<Suc n]) =
      take b ts @ concat (map (\<lambda>c. take b (drop (c * b) (drop b ts))) [0..<n])"
    by (simp only: upt_conv_Cons [of 0 "Suc n"] zero_less_Suc list.map concat.simps mult_0 drop0 map_Suc_upt [symmetric] map_map comp_def
        mult_Suc drop_drop add.commute)
  also have "\<dots> = ts" using Suc.IH [of "drop b ts"] Suc.prems by simp
  finally show ?case .
qed simp

lemma chunk_count_props: "0 < chunk_count n" "n \<le> chunk_count n * 43" "n \<le> 43 * 65535 \<Longrightarrow> chunk_count n \<le> 65535"
proof -
  have c: "chunk_count n = (if (42 + n) div 43 = 0 then 1 else (42 + n) div 43)"
    by (simp add: chunk_count_def MaxSnapshotEntitiesPerChunk_def Let_def)
  show "0 < chunk_count n" by (simp add: c)
  show "n \<le> chunk_count n * 43" unfolding c by presburger
  have "(42 + n) div 43 \<le> (42 + 43 * 65535) div 43" if "n \<le> 43 * 65535" by (intro div_le_mono add_left_mono that)
  then show "n \<le> 43 * 65535 \<Longrightarrow> chunk_count n \<le> 65535" by (simp add: c)
qed

lemma chunk_updates: "updates (snapshot_chunks tick ts) = map xf_EntityID ts"
proof -
  have "updates (snapshot_chunks tick ts) =
      concat (map (\<lambda>c. map xf_EntityID (take 43 (drop (c * 43) ts))) [0..<chunk_count (length ts)])"
    by (simp add: updates_def snapshot_chunks_def comp_def MaxSnapshotEntitiesPerChunk_def)
  also have "\<dots> = map xf_EntityID (concat (map (\<lambda>c. take 43 (drop (c * 43) ts)) [0..<chunk_count (length ts)]))"
    by (simp add: map_concat comp_def)
  also have "\<dots> = map xf_EntityID ts" by (simp only: blocks_concat [OF chunk_count_props(2)])
  finally show ?thesis .
qed

text \<open>
  A batch for a client that knows \<open>K\<close>, when \<open>D\<close> is desired: spawns of what is desired and unknown, despawns
  of what is known and not desired, each once, and transforms of what is both.
\<close>

definition batch_ok :: "entity_id fset \<Rightarrow> entity_id set \<Rightarrow> outbound list \<Rightarrow> bool" where
  "batch_ok K D ms =
     (distinct (spawns ms) \<and> distinct (despawns ms) \<and> set (spawns ms) \<subseteq> D - fset K \<and> set (despawns ms) \<subseteq> fset K - D \<and>
      set (updates ms) \<subseteq> fset K \<inter> D)"

text \<open>A client that applies the messages it is sent.\<close>

fun client_after :: "entity_id fset \<Rightarrow> repl_message list \<Rightarrow> entity_id fset" where
  "client_after K [] = K"
| "client_after K (EntitySpawn i _ _ _ # ms) = client_after (finsert i K) ms"
| "client_after K (EntityDespawn i # ms) = client_after (K |-| {|i|}) ms"
| "client_after K (WorldSnapshot _ _ _ _ # ms) = client_after K ms"
| "client_after K (PositionCorrection _ _ _ _ _ # ms) = client_after K ms"

text \<open>It is never told to create what it has, to remove what it has not or to move what it does not know.\<close>

fun client_follows :: "entity_id fset \<Rightarrow> repl_message list \<Rightarrow> bool" where
  "client_follows K [] = True"
| "client_follows K (EntitySpawn i _ _ _ # ms) = (i |\<notin>| K \<and> client_follows (finsert i K) ms)"
| "client_follows K (EntityDespawn i # ms) = (i |\<in>| K \<and> client_follows (K |-| {|i|}) ms)"
| "client_follows K (WorldSnapshot _ _ _ ts # ms) = ((\<forall>t \<in> set ts. xf_EntityID t |\<in>| K) \<and> client_follows K ms)"
| "client_follows K (PositionCorrection _ _ _ _ _ # ms) = client_follows K ms"

lemma client_append:
  "client_after K (xs @ ys) = client_after (client_after K xs) ys"
  "client_follows K (xs @ ys) \<longleftrightarrow> client_follows K xs \<and> client_follows (client_after K xs) ys"
  by (induction K xs rule: client_after.induct) auto

section \<open>Confirmations keep the view\<close>

lemma ConfirmSpawn_inv:
  assumes inv: "view_inv v" and i: "i \<in> set (vs_desiredIDs v)"
  shows "view_inv (view_ConfirmSpawn i v)"
proof -
  note I = view_invD [OF inv]
  obtain k where k: "k < length (vs_desiredIDs v)" "vs_desiredIDs v ! k = i" using i by (auto simp: in_set_conv_nth)
  then have "desiredIndex (vs_desiredIDs v) i = Some k" using desiredIndex_iff [OF I(1)] by blast
  then have tracks: "vs_tracks (view_ConfirmSpawn i v) = (vs_tracks v)[k := (vs_tracks v ! k)\<lparr>et_known := True\<rparr>]"
    using k I(7) by (simp add: view_ConfirmSpawn_def)
  have id: "et_id (vs_tracks v ! k) = i" using k I(2,7) by (metis nth_map)
  have ids: "map et_id (vs_tracks (view_ConfirmSpawn i v)) = vs_desiredIDs v"
    using I(2,7) k id by (simp add: tracks map_update list_update_same_conv)
  have "et_known t \<longleftrightarrow> et_id t |\<in>| finsert i (vs_known v)" if mem: "t \<in> set (vs_tracks (view_ConfirmSpawn i v))" for t
  proof -
    obtain l where l: "l < length (vs_tracks v)" "t = vs_tracks (view_ConfirmSpawn i v) ! l"
      using mem unfolding tracks in_set_conv_nth length_list_update by blast
    show ?thesis
    proof (cases "l = k")
      case True
      then show ?thesis using l id by (simp add: tracks)
    next
      case False
      then have t: "t = vs_tracks v ! l" using l by (simp add: tracks)
      then have "et_id t = vs_desiredIDs v ! l" using I(2) l by (metis nth_map)
      then have "et_id t \<noteq> i" using False k l I(1,7) by (metis nth_eq_iff_index_eq strict_sorted_iff)
      then show ?thesis using I(3) [of t] t l by simp
    qed
  qed
  then show ?thesis
    using I ids i by (intro view_invI) (auto simp: view_ConfirmSpawn_def)
qed

lemma ConfirmDespawn_inv:
  assumes inv: "view_inv v" and i: "i \<notin> set (vs_desiredIDs v)"
  shows "view_inv (view_ConfirmDespawn i v)"
proof -
  note I = view_invD [OF inv]
  have "desiredIndex (vs_desiredIDs v) i = None"
    using desiredIndex_iff [OF I(1), of i] i by (metis nth_mem option.exhaust)
  then have f: "vs_tracks (view_ConfirmDespawn i v) = vs_tracks v" "vs_desiredIDs (view_ConfirmDespawn i v) = vs_desiredIDs v"
    "vs_departed (view_ConfirmDespawn i v) = vs_departed v" "vs_known (view_ConfirmDespawn i v) = vs_known v |-| {|i|}"
    by (simp_all add: view_ConfirmDespawn_def)
  have "et_id t \<noteq> i" if "t \<in> set (vs_tracks v)" for t using that i I(2) by (metis image_eqI list.set_map)
  then show ?thesis using I by (intro view_invI) (auto simp: f)
qed

lemma deliver_props:
  assumes "view_inv v" and "batch_ok (vs_known v) (set (vs_desiredIDs v)) ms" and "deliver send bp ms c v = (sent, c', v')"
  shows "view_inv v' \<and> vs_desiredIDs v' = vs_desiredIDs v \<and> client_follows (vs_known v) sent \<and> client_after (vs_known v) sent = vs_known v'"
  using assms
proof (induction send bp ms c v arbitrary: sent c' v' rule: deliver.induct)
  case (2 send bp m ms c v)
  let ?D = "set (vs_desiredIDs v)" and ?M = "ob_Message m"
  have rest: "batch_ok (vs_known v) ?D ms" using "2.prems"(2) by (auto simp: batch_ok_def)
  show ?case
  proof (cases "isLifecycleMessage ?M \<and> bp")
    case True
    then have "deliver send bp ms c v = (sent, c', v')" using "2.prems"(3) by simp
    from "2.IH"(1) [OF refl True "2.prems"(1) rest this] show ?thesis .
  next
    case False
    obtain a c1 where s: "send m c = (a, c1)" by force
    show ?thesis
    proof (cases a)
      case (Some err)
      then have "deliver send (if isLifecycleMessage ?M \<and> err = ErrBackpressure then True else bp) ms c1 v = (sent, c', v')"
        using "2.prems"(3) False s by (simp only: deliver.simps Let_def if_False prod.case option.case)
      from "2.IH"(3) [OF refl False s [symmetric] Some "2.prems"(1) rest this] show ?thesis .
    next
      case None
      define w where "w = confirmLifecycleDelivery ?M v"
      obtain sent1 c2 v2 where d: "deliver send bp ms c1 w = (sent1, c2, v2)" by (metis prod_cases3)
      then have r: "sent = ?M # sent1" "v' = v2"
        using "2.prems"(3) False s None by (simp_all add: Let_def w_def)
      have ok: "view_inv w \<and> vs_desiredIDs w = vs_desiredIDs v \<and> batch_ok (vs_known w) ?D ms"
      proof (cases ?M)
        case (EntitySpawn i kd tr ar)
        then have i: "i \<in> ?D" "i |\<notin>| vs_known v" "i \<notin> set (spawns ms)" using "2.prems"(2) by (auto simp: batch_ok_def)
        have w: "w = view_ConfirmSpawn i v" by (simp add: w_def EntitySpawn)
        have "vs_known w = finsert i (vs_known v)" "vs_desiredIDs w = vs_desiredIDs v" by (simp_all add: w view_ConfirmSpawn_def)
        moreover have "view_inv w" using ConfirmSpawn_inv "2.prems"(1) i(1) by (simp add: w)
        ultimately show ?thesis using rest i unfolding batch_ok_def by auto
      next
        case (EntityDespawn i)
        then have i: "i \<notin> ?D" "i \<notin> set (despawns ms)" using "2.prems"(2) by (auto simp: batch_ok_def)
        have w: "w = view_ConfirmDespawn i v" by (simp add: w_def EntityDespawn)
        have "vs_known w = vs_known v |-| {|i|}" "vs_desiredIDs w = vs_desiredIDs v" by (simp_all add: w view_ConfirmDespawn_def)
        moreover have "view_inv w" using ConfirmDespawn_inv "2.prems"(1) i(1) by (simp add: w)
        ultimately show ?thesis using rest i unfolding batch_ok_def by auto
      qed (use rest "2.prems"(1) in \<open>simp_all add: w_def\<close>)
      have "view_inv v2 \<and> vs_desiredIDs v2 = vs_desiredIDs w \<and> client_follows (vs_known w) sent1 \<and> client_after (vs_known w) sent1 = vs_known v2"
        using "2.IH"(2) [OF refl False s [symmetric] None, folded w_def] ok d by metis
      moreover have "client_follows (vs_known v) (?M # sent1) \<longleftrightarrow> client_follows (vs_known w) sent1"
        "client_after (vs_known v) (?M # sent1) = client_after (vs_known w) sent1"
        using "2.prems"(2)
        by (cases ?M; auto simp: w_def batch_ok_def view_ConfirmSpawn_def view_ConfirmDespawn_def)+
      ultimately show ?thesis using ok r by simp
    qed
  qed
qed simp

end
