(* ===== verification/ReplicationHistory.thy ===== *)
theory ReplicationHistory
  imports ReplicationView
begin

text \<open>
  What a session is told over its life: both builders make well-formed batches, so the client stays
  in step over any history; with stable surroundings it converges; the short cuts for departed
  entities lose nothing; a snapshot stays within its bounds.
\<close>

section \<open>The batches are well formed\<close>

definition sel_ids :: "snapshot_selection \<Rightarrow> entity_id list" where
  "sel_ids s = map (en_ID \<circ> sn_entity) (sl_selected s)"

lemma fix_mset: "h \<noteq> [] \<Longrightarrow> mset (heap_Fix0 candidate_worse (h[0 := c])) \<subseteq># mset h + {#c#}"
  using replace_root [of h c] by (metis mset_subset_eq_add_left)

lemma heap_Init_same: "mset (heap_Init candidate_worse xs) = mset xs"
  by (simp add: worse_is urgent.heap_Init_mset)

lemma Consider_ids:
  "mset (sel_ids (selection_Consider c s)) \<subseteq># mset (sel_ids s) + {#en_ID (sn_entity c)#}"
proof -
  define h where "h = (if sl_heapReady s then sl_selected s else heap_Init candidate_worse (sl_selected s))"
  have h: "mset h = mset (sl_selected s)" by (simp add: h_def heap_Init_same)
  have "mset (sl_selected (selection_Consider c s)) \<subseteq># mset (sl_selected s) + {#c#}"
  proof (cases "sl_budget s \<le> 0 \<or> int (length (sl_selected s)) < sl_budget s")
    case True
    then show ?thesis by (simp add: selection_Consider_def Let_def)
  next
    case False
    then have "length h \<noteq> 0" using h size_mset [of h] by auto
    then have "h \<noteq> []" by simp
    have "sl_selected (selection_Consider c s) =
        (if candidateHigherPriority c (h ! 0) then heap_Fix0 candidate_worse (h[0 := c]) else h)"
      using False by (simp add: selection_Consider_def Let_def h_def)
    then show ?thesis using fix_mset [OF \<open>h \<noteq> []\<close>, of c] h by simp
  qed
  from image_mset_subseteq_mono [OF this, of "en_ID \<circ> sn_entity"] show ?thesis by (simp add: sel_ids_def)
qed

lemma Consider_budget: "sl_budget (selection_Consider c s) = sl_budget s"
  by (simp add: selection_Consider_def Let_def)

lemma Consider_length:
  "0 < sl_budget s \<Longrightarrow> int (length (sl_selected s)) \<le> sl_budget s \<Longrightarrow> int (length (sl_selected (selection_Consider c s))) \<le> sl_budget s"
  by (auto simp: selection_Consider_def Let_def heap_Fix0_def)

lemma distinct_subset_mset: "mset xs \<subseteq># mset ys \<Longrightarrow> distinct ys \<Longrightarrow> distinct xs"
proof -
  assume "mset xs \<subseteq># mset ys" "distinct ys"
  then obtain zs where "mset ys = mset (xs @ zs)" by (metis ex_mset mset_append subset_mset.le_iff_add)
  with \<open>distinct ys\<close> have "distinct (xs @ zs)" by (metis mset_eq_imp_distinct_iff)
  then show ?thesis by simp
qed

lemma scan_known_selection:
  "mset (sel_ids (vn_selection (scan_known p self n i track e g s))) \<subseteq># mset (sel_ids (vn_selection s)) + {#en_ID e#}"
  "sl_budget (vn_selection (scan_known p self n i track e g s)) = sl_budget (vn_selection s)"
  "0 < sl_budget (vn_selection s) \<Longrightarrow> int (length (sl_selected (vn_selection s))) \<le> sl_budget (vn_selection s) \<Longrightarrow>
    int (length (sl_selected (vn_selection (scan_known p self n i track e g s)))) \<le> sl_budget (vn_selection s)"
  using Consider_ids [of "\<lparr>sn_entity = e, sn_generation = g, sn_trackIndex = i, sn_tier = t, sn_age = a, sn_cadence = c, sn_dirty = d\<rparr>"
      "vn_selection s" for t a c d]
  by (auto simp: scan_known_def Let_def Consider_budget Consider_length)

lemma scan_known_rest:
  "vn_messages (scan_known p self n i track e g s) = vn_messages s"
  "vn_hasUnknown (scan_known p self n i track e g s) = vn_hasUnknown s"
  "bs_SpawnSelected (vn_stats (scan_known p self n i track e g s)) = bs_SpawnSelected (vn_stats s)"
  "bs_DespawnSelected (vn_stats (scan_known p self n i track e g s)) = bs_DespawnSelected (vn_stats s)"
  by (simp_all add: scan_known_def Let_def)

lemma scan_unknown_rest:
  "\<exists>ms. vn_messages (scan_unknown limits tick e s) = vn_messages s @ ms \<and> (ms = [] \<or> ms = [spawn_message tick e])"
  "vn_hasUnknown (scan_unknown limits tick e s)"
  "vn_selection (scan_unknown limits tick e s) = vn_selection s"
  "bs_DespawnSelected (vn_stats (scan_unknown limits tick e s)) = bs_DespawnSelected (vn_stats s)"
  by (simp_all add: scan_unknown_def Let_def)

text \<open>What the scan adds over the entities \<open>is\<close>.\<close>

definition scan_adds :: "entity_id fset \<Rightarrow> entity_id list \<Rightarrow> visible_scan \<Rightarrow> visible_scan \<Rightarrow> bool" where
  "scan_adds K is s s' =
     ((\<exists>ms. vn_messages s' = vn_messages s @ ms \<and> despawns ms = [] \<and> updates ms = [] \<and> distinct (spawns ms) \<and>
        set (spawns ms) \<subseteq> set is - fset K) \<and>
      (vn_hasUnknown s' \<longleftrightarrow> vn_hasUnknown s \<or> (\<exists>i \<in> set is. i |\<notin>| K)) \<and>
      mset (sel_ids (vn_selection s')) \<subseteq># mset (sel_ids (vn_selection s)) + mset (filter (\<lambda>i. i |\<in>| K) is) \<and>
      bs_DespawnSelected (vn_stats s') = bs_DespawnSelected (vn_stats s) \<and>
      ((\<forall>i \<in> set is. i |\<in>| K) \<longrightarrow> bs_SpawnSelected (vn_stats s') = bs_SpawnSelected (vn_stats s)) \<and>
      sl_budget (vn_selection s') = sl_budget (vn_selection s) \<and>
      (0 < sl_budget (vn_selection s) \<and> int (length (sl_selected (vn_selection s))) \<le> sl_budget (vn_selection s) \<longrightarrow>
         int (length (sl_selected (vn_selection s'))) \<le> sl_budget (vn_selection s)))"

lemma scan_adds_trans:
  assumes one: "scan_adds K [i] s s1" and more: "scan_adds K is s1 s2" and i: "i \<notin> set is"
  shows "scan_adds K (i # is) s s2"
proof -
  obtain ms where ms: "vn_messages s1 = vn_messages s @ ms" "despawns ms = []" "updates ms = []" "distinct (spawns ms)"
      "set (spawns ms) \<subseteq> {i} - fset K" using one unfolding scan_adds_def by auto
  obtain ns where ns: "vn_messages s2 = vn_messages s1 @ ns" "despawns ns = []" "updates ns = []" "distinct (spawns ns)"
      "set (spawns ns) \<subseteq> set is - fset K" using more unfolding scan_adds_def by blast
  have "vn_messages s2 = vn_messages s @ (ms @ ns) \<and> despawns (ms @ ns) = [] \<and> updates (ms @ ns) = [] \<and>
      distinct (spawns (ms @ ns)) \<and> set (spawns (ms @ ns)) \<subseteq> set (i # is) - fset K"
    using ms ns i by auto
  moreover have "mset (sel_ids (vn_selection s2)) \<subseteq># mset (sel_ids (vn_selection s)) + mset (filter (\<lambda>i. i |\<in>| K) (i # is))"
  proof -
    have "mset (sel_ids (vn_selection s2)) \<subseteq># mset (sel_ids (vn_selection s1)) + mset (filter (\<lambda>i. i |\<in>| K) is)"
      using more by (simp add: scan_adds_def)
    also have "\<dots> \<subseteq># (mset (sel_ids (vn_selection s)) + mset (filter (\<lambda>i. i |\<in>| K) [i])) + mset (filter (\<lambda>i. i |\<in>| K) is)"
      using one by (intro subset_mset.add_right_mono) (simp only: scan_adds_def)
    also have "\<dots> = mset (sel_ids (vn_selection s)) + mset (filter (\<lambda>i. i |\<in>| K) (i # is))" by simp
    finally show ?thesis .
  qed
  ultimately show ?thesis using one more unfolding scan_adds_def by (intro conjI exI [of _ "ms @ ns"]) auto
qed

lemma tracks_okD:
  assumes "tracks_ok v"
  shows "map et_id (vs_tracks v) = vs_desiredIDs v"
    and "t \<in> set (vs_tracks v) \<Longrightarrow> et_known t \<longleftrightarrow> et_id t |\<in>| vs_known v"
    and "length (vs_tracks v) = length (vs_desiredIDs v)"
  using assms by (auto simp: tracks_ok_def) (metis length_map)

lemma scan_props:
  assumes "tracks_ok v" and "visible_ok f (pre @ ks)" and "vs_desiredIDs v = desired_of f (pre @ ks)" and "i = length pre"
  shows "scan_adds (vs_known v) (desired_of f ks) s (scan_visible p limits f selfID self v i ks s)"
  using assms(2-)
proof (induction ks arbitrary: pre i s)
  case Nil
  then show ?case by (simp add: scan_adds_def desired_of_simps)
next
  case (Cons k ks)
  define e where "e = pf_Entities f ! k"
  have k: "k < length (pf_Entities f)" "en_ID e \<notin> set (desired_of f ks)"
    using Cons.prems(1) by (auto simp: visible_ok_def desired_of_append desired_of_simps sorted_wrt_append e_def)
  have at: "frame_at f k = Some e" using k(1) by (simp add: frame_at_def e_def)
  have len: "i < length (vs_tracks v)" using tracks_okD(3) [OF assms(1)] Cons.prems(2,3) by simp
  define t where "t = vs_tracks v ! i"
  have "et_id t = vs_desiredIDs v ! i" using tracks_okD(1) [OF assms(1)] len by (metis nth_map t_def)
  then have id: "et_id t = en_ID e"
    using Cons.prems(2,3) k(1) by (simp add: desired_of_append desired_of_simps e_def nth_append)
  have known: "et_known t \<longleftrightarrow> en_ID e |\<in>| vs_known v"
    using tracks_okD(2) [OF assms(1), of t] len id by (simp add: t_def)
  define s1 where "s1 = (if \<not> et_known t then scan_unknown limits (pf_Tick f) e s else if en_ID e = selfID then s
      else scan_known p self (vs_buildNumber v) i t e (pf_TransformGenerations f ! k) s)"
  have step: "scan_visible p limits f selfID self v i (k # ks) s = scan_visible p limits f selfID self v (i + 1) ks s1"
    using at len by (simp add: Let_def s1_def t_def)
  have one: "scan_adds (vs_known v) [en_ID e] s s1"
  proof (cases "et_known t")
    case False
    obtain ms where "vn_messages s1 = vn_messages s @ ms" "ms = [] \<or> ms = [spawn_message (pf_Tick f) e]"
      using scan_unknown_rest(1) [of limits "pf_Tick f" e s] False by (auto simp: s1_def)
    then show ?thesis using False known scan_unknown_rest [of limits "pf_Tick f" e s]
      unfolding scan_adds_def by (intro conjI exI [of _ ms]) (auto simp: s1_def spawn_message_def)
  next
    case True
    show ?thesis
    proof (cases "en_ID e = selfID")
      case same: True
      then show ?thesis using True known by (simp add: s1_def scan_adds_def)
    next
      case False
      then have s1: "s1 = scan_known p self (vs_buildNumber v) i t e (pf_TransformGenerations f ! k) s"
        using True by (simp add: s1_def)
      show ?thesis using True known scan_known_selection [where p = p and self = self and s = s and e = e]
        by (simp add: s1 scan_adds_def scan_known_rest)
    qed
  qed
  have "scan_adds (vs_known v) (desired_of f ks) s1 (scan_visible p limits f selfID self v (i + 1) ks s1)"
    by (rule Cons.IH [of "pre @ [k]"]) (use Cons.prems in simp_all)
  from scan_adds_trans [OF one this k(2)] show ?case using step k(1) by (simp add: desired_of_simps e_def)
qed

lemma select_despawns_props:
  "\<exists>ds st'. select_despawns limits ids ms st = (ms @ map despawn_message ds, st') \<and> subseq ds ids"
proof (induction limits ids ms st rule: select_despawns.induct)
  case (2 limits i ids ms st)
  show ?case
  proof (cases "\<not> allowMessage limits (lifecycle_selected st) \<or> \<not> allowDespawn limits (bs_DespawnSelected st)")
    case True
    from "2.IH"(1) [OF this] obtain ds st' where
      "select_despawns limits ids ms (st\<lparr>bs_DespawnDeferred := bs_DespawnDeferred st + 1\<rparr>) = (ms @ map despawn_message ds, st')"
      "subseq ds ids" by blast
    with True show ?thesis by (intro exI [of _ ds] exI [of _ st']) (simp del: disj_not1 add: list_emb_Cons)
  next
    case False
    from "2.IH"(2) [OF this] obtain ds st' where
      "select_despawns limits ids (ms @ [despawn_message i]) (st\<lparr>bs_DespawnSelected := bs_DespawnSelected st + 1\<rparr>) =
        ((ms @ [despawn_message i]) @ map despawn_message ds, st')" "subseq ds ids" by blast
    with False show ?thesis by (intro exI [of _ "i # ds"] exI [of _ st']) (simp del: disj_not1)
  qed
qed auto

lemma despawn_lists: "spawns (map despawn_message ds) = []" "despawns (map despawn_message ds) = ds" "updates (map despawn_message ds) = []"
  by (induction ds) (simp_all add: despawn_message_def)

lemma mark_sent_inv:
  assumes "view_inv v"
  shows "view_inv (mark_sent c v) \<and> vs_known (mark_sent c v) = vs_known v \<and> vs_desiredIDs (mark_sent c v) = vs_desiredIDs v"
proof -
  note I = view_invD [OF assms]
  let ?k = "sn_trackIndex c"
  have tracks: "vs_tracks (mark_sent c v) = (if ?k < length (vs_tracks v)
      then (vs_tracks v)[?k := (vs_tracks v ! ?k)\<lparr>et_lastDeliveredGeneration := sn_generation c, et_lastSentBuild := vs_buildNumber v\<rparr>]
      else vs_tracks v)" by (simp add: mark_sent_def Let_def)
  have f: "vs_known (mark_sent c v) = vs_known v" "vs_desiredIDs (mark_sent c v) = vs_desiredIDs v"
    "vs_departed (mark_sent c v) = vs_departed v" by (simp_all add: mark_sent_def Let_def)
  have same: "map et_id (vs_tracks (mark_sent c v)) = map et_id (vs_tracks v)"
    "map et_known (vs_tracks (mark_sent c v)) = map et_known (vs_tracks v)"
    by (auto simp: tracks map_update list_update_same_conv)
  have "et_known t \<longleftrightarrow> et_id t |\<in>| vs_known v" if mem: "t \<in> set (vs_tracks (mark_sent c v))" for t
  proof -
    obtain l where l: "l < length (vs_tracks (mark_sent c v))" "t = vs_tracks (mark_sent c v) ! l"
      using mem unfolding in_set_conv_nth by blast
    have "l < length (vs_tracks v)" using l(1) same(1) by (metis length_map)
    moreover have "et_id t = et_id (vs_tracks v ! l)" "et_known t = et_known (vs_tracks v ! l)"
      using l same calculation by (metis nth_map)+
    ultimately show ?thesis using I(3) [of "vs_tracks v ! l"] by simp
  qed
  then show ?thesis using I same f by (intro conjI view_invI) simp_all
qed

lemma mark_all_inv:
  "view_inv v \<Longrightarrow> view_inv (fold mark_sent cs v) \<and> vs_known (fold mark_sent cs v) = vs_known v \<and>
     vs_desiredIDs (fold mark_sent cs v) = vs_desiredIDs v"
proof (induction cs arbitrary: v)
  case (Cons c cs)
  then show ?case using mark_sent_inv [of v c] by simp
qed simp


lemma rebuilt_tracks_ok:
  "visible_ok f visible \<Longrightarrow> tracks_ok (rebuildDesiredTracks f visible v) \<and>
     vs_desiredIDs (rebuildDesiredTracks f visible v) = desired_of f visible \<and> vs_known (rebuildDesiredTracks f visible v) = vs_known v"
  using track_maps [of f visible "stored_track v" "vs_known v"] visible_okD(1) [of f visible]
  by (simp add: rebuildDesiredTracks_def tracks_ok_def)

text \<open>The frame builder lists everything known outside the desired ids, though it looks for it only when it must.\<close>

definition frame_departed :: "bool \<Rightarrow> view_state \<Rightarrow> entity_id list" where
  "frame_departed look v = (if look \<or> length (vs_desiredIDs v) < fcard (vs_known v) then known_outside v else [])"

lemma frame_departed_props:
  assumes "sorted_wrt (<) (vs_desiredIDs v)" and "look \<or> (\<forall>i \<in> set (vs_desiredIDs v). i |\<in>| vs_known v)"
  shows "sorted_wrt (<) (frame_departed look v)"
    and "set (frame_departed look v) = {i. i |\<in>| vs_known v \<and> i \<notin> set (vs_desiredIDs v)}"
proof -
  note out = known_outside_props [OF assms(1)]
  show "sorted_wrt (<) (frame_departed look v)" using out by (simp add: frame_departed_def)
  show "set (frame_departed look v) = {i. i |\<in>| vs_known v \<and> i \<notin> set (vs_desiredIDs v)}"
  proof (cases "look \<or> length (vs_desiredIDs v) < fcard (vs_known v)")
    case True
    then show ?thesis using out by (simp add: frame_departed_def)
  next
    case False
    then have sub: "set (vs_desiredIDs v) \<subseteq> fset (vs_known v)" using assms(2) by auto
    have "distinct (vs_desiredIDs v)" using assms(1) by (simp add: strict_sorted_iff)
    then have "card (set (vs_desiredIDs v)) = length (vs_desiredIDs v)" by (rule distinct_card)
    then have "card (fset (vs_known v)) \<le> card (set (vs_desiredIDs v))" using False by (simp add: fcard.rep_eq)
    then have "set (vs_desiredIDs v) = fset (vs_known v)" using sub by (intro card_seteq) simp_all
    then have "{i. i |\<in>| vs_known v \<and> i \<notin> set (vs_desiredIDs v)} = {}" by auto
    then show ?thesis using False by (simp add: frame_departed_def)
  qed
qed

text \<open>The parts of the frame builder, named.\<close>

lemma buildFrame_parts:
  assumes "buildFrame p selfID n f visible limits v0 = (b, v4)"
  obtains v2 s ms st ts where
    "v2 = (if sameDesiredIDs (vs_desiredIDs v0) f visible then v0\<lparr>vs_buildNumber := vs_buildNumber v0 + 1\<rparr>
      else rebuildDesiredTracks f visible (v0\<lparr>vs_buildNumber := vs_buildNumber v0 + 1\<rparr>))"
    "s = scan_visible p limits f selfID (map_option fst (frame_Entity f selfID)) v2 0 visible
      \<lparr>vn_messages = [], vn_stats = zero_stats, vn_hasUnknown = False,
       vn_selection = newSnapshotSelection (pl_MaxTransformsPerBuild p)\<rparr>"
    "select_despawns limits (frame_departed (\<not> sameDesiredIDs (vs_desiredIDs v0) f visible \<or> vn_hasUnknown s) v2) (vn_messages s)
      ((vn_stats s)\<lparr>bs_DespawnCandidates :=
         length (frame_departed (\<not> sameDesiredIDs (vs_desiredIDs v0) f visible \<or> vn_hasUnknown s) v2)\<rparr>) = (ms, st)"
    "v4 = fold mark_sent (sl_selected (vn_selection s))
      (v2\<lparr>vs_departed := frame_departed (\<not> sameDesiredIDs (vs_desiredIDs v0) f visible \<or> vn_hasUnknown s) v2\<rparr>)"
    "mset (map xf_EntityID ts) = mset (sel_ids (vn_selection s))" "bt_Messages b = ms @ snapshot_chunks (pf_Tick f) ts @ correction_for f selfID n"
proof -
  define v2 where "v2 = (if sameDesiredIDs (vs_desiredIDs v0) f visible then v0\<lparr>vs_buildNumber := vs_buildNumber v0 + 1\<rparr>
      else rebuildDesiredTracks f visible (v0\<lparr>vs_buildNumber := vs_buildNumber v0 + 1\<rparr>))"
  define s where "s = scan_visible p limits f selfID (map_option fst (frame_Entity f selfID)) v2 0 visible
      \<lparr>vn_messages = [], vn_stats = zero_stats, vn_hasUnknown = False,
       vn_selection = newSnapshotSelection (pl_MaxTransformsPerBuild p)\<rparr>"
  define departed where "departed = frame_departed (\<not> sameDesiredIDs (vs_desiredIDs v0) f visible \<or> vn_hasUnknown s) v2"
  obtain ms st where d: "select_despawns limits departed (vn_messages s) ((vn_stats s)\<lparr>bs_DespawnCandidates := length departed\<rparr>) = (ms, st)"
    by force
  define us where "us = map (\<lambda>c. transform_of (pf_Tick f) (sn_entity c)) (sl_selected (vn_selection s))"
  define ts where "ts = (if int (sl_count (vn_selection s)) > pl_MaxTransformsPerBuild p then sort_key xf_EntityID us else us)"
  have u: "map xf_EntityID us = sel_ids (vn_selection s)" by (simp add: us_def sel_ids_def transform_of_def comp_def)
  have "mset (map xf_EntityID ts) = mset (map xf_EntityID us)" by (simp add: ts_def)
  then have ts: "mset (map xf_EntityID ts) = mset (sel_ids (vn_selection s))" unfolding u .
  have v2': "(if \<not> sameDesiredIDs (vs_desiredIDs (v0\<lparr>vs_buildNumber := vs_buildNumber v0 + 1\<rparr>)) f visible
      then rebuildDesiredTracks f visible (v0\<lparr>vs_buildNumber := vs_buildNumber v0 + 1\<rparr>)
      else v0\<lparr>vs_buildNumber := vs_buildNumber v0 + 1\<rparr>) = v2" by (simp add: v2_def)
  have dep': "(if \<not> sameDesiredIDs (vs_desiredIDs (v0\<lparr>vs_buildNumber := vs_buildNumber v0 + 1\<rparr>)) f visible \<or> vn_hasUnknown s \<or>
        length (vs_desiredIDs v2) < fcard (vs_known v2) then known_outside v2 else []) = departed"
    by (simp add: departed_def frame_departed_def)
  have r: "v4 = fold mark_sent (sl_selected (vn_selection s)) (v2\<lparr>vs_departed := departed\<rparr>)"
    "bt_Messages b = ms @ snapshot_chunks (pf_Tick f) ts @ correction_for f selfID n"
    using assms unfolding buildFrame_def Let_def v2' s_def [symmetric] dep' d prod.case
    by (auto simp: ts_def us_def)
  show thesis by (rule that [OF v2_def s_def d [unfolded departed_def] r(1) [unfolded departed_def] ts r(2)])
qed

lemma subseq_sorted: "subseq ds ids \<Longrightarrow> sorted_wrt (<) ids \<Longrightarrow> distinct ds \<and> set ds \<subseteq> set ids" for ids :: "u64 list"
  by (auto simp: subseq_conv_nths strict_sorted_iff distinct_nthsI dest: in_set_nthsD)

lemma frame_tracks:
  assumes "view_inv v0" and "visible_ok f visible"
  shows "tracks_ok (if sameDesiredIDs (vs_desiredIDs v0) f visible then v0\<lparr>vs_buildNumber := vs_buildNumber v0 + 1\<rparr>
      else rebuildDesiredTracks f visible (v0\<lparr>vs_buildNumber := vs_buildNumber v0 + 1\<rparr>)) \<and>
    vs_desiredIDs (if sameDesiredIDs (vs_desiredIDs v0) f visible then v0\<lparr>vs_buildNumber := vs_buildNumber v0 + 1\<rparr>
      else rebuildDesiredTracks f visible (v0\<lparr>vs_buildNumber := vs_buildNumber v0 + 1\<rparr>)) = desired_of f visible \<and>
    vs_known (if sameDesiredIDs (vs_desiredIDs v0) f visible then v0\<lparr>vs_buildNumber := vs_buildNumber v0 + 1\<rparr>
      else rebuildDesiredTracks f visible (v0\<lparr>vs_buildNumber := vs_buildNumber v0 + 1\<rparr>)) = vs_known v0"
proof (cases "sameDesiredIDs (vs_desiredIDs v0) f visible")
  case True
  then have "vs_desiredIDs v0 = desired_of f visible" using same_iff [OF visible_okD(1) [OF assms(2)]] by simp
  then show ?thesis using True view_invD(2,3) [OF assms(1)] by (simp add: tracks_ok_def)
next
  case False
  then show ?thesis using rebuilt_tracks_ok [OF assms(2), of "v0\<lparr>vs_buildNumber := vs_buildNumber v0 + 1\<rparr>"] by simp
qed

lemma buildFrame_ok:
  assumes inv: "view_inv v0" and ok: "visible_ok f visible" and b: "buildFrame p selfID n f visible limits v0 = (b, v4)"
  shows "view_inv v4 \<and> vs_known v4 = vs_known v0 \<and> vs_desiredIDs v4 = desired_of f visible \<and>
    batch_ok (vs_known v0) (set (desired_of f visible)) (bt_Messages b)"
proof -
  define K where "K = vs_known v0"
  define D where "D = desired_of f visible"
  have sorted: "sorted_wrt (<) D" using visible_okD(2) [OF ok] by (simp add: D_def)
  obtain v2 s ms st ts look where v2: "v2 = (if sameDesiredIDs (vs_desiredIDs v0) f visible then v0\<lparr>vs_buildNumber := vs_buildNumber v0 + 1\<rparr>
      else rebuildDesiredTracks f visible (v0\<lparr>vs_buildNumber := vs_buildNumber v0 + 1\<rparr>))"
    and s: "s = scan_visible p limits f selfID (map_option fst (frame_Entity f selfID)) v2 0 visible
      \<lparr>vn_messages = [], vn_stats = zero_stats, vn_hasUnknown = False,
       vn_selection = newSnapshotSelection (pl_MaxTransformsPerBuild p)\<rparr>"
    and look: "look = (\<not> sameDesiredIDs (vs_desiredIDs v0) f visible \<or> vn_hasUnknown s)"
    and d: "select_despawns limits (frame_departed look v2) (vn_messages s)
      ((vn_stats s)\<lparr>bs_DespawnCandidates := length (frame_departed look v2)\<rparr>) = (ms, st)"
    and v4: "v4 = fold mark_sent (sl_selected (vn_selection s)) (v2\<lparr>vs_departed := frame_departed look v2\<rparr>)"
    and ts: "mset (map xf_EntityID ts) = mset (sel_ids (vn_selection s))"
    and ms: "bt_Messages b = ms @ snapshot_chunks (pf_Tick f) ts @ correction_for f selfID n"
    by (rule buildFrame_parts [OF b]) blast
  have t: "tracks_ok v2 \<and> vs_desiredIDs v2 = D \<and> vs_known v2 = K"
    using frame_tracks [OF inv ok] by (simp only: v2 D_def K_def)
  have "scan_adds (vs_known v2) (desired_of f visible)
      \<lparr>vn_messages = [], vn_stats = zero_stats, vn_hasUnknown = False, vn_selection = newSnapshotSelection (pl_MaxTransformsPerBuild p)\<rparr> s"
    unfolding s by (rule scan_props [where pre = "[]"]) (use t ok in \<open>simp_all add: D_def\<close>)
  then have scan: "despawns (vn_messages s) = []" "updates (vn_messages s) = []" "distinct (spawns (vn_messages s))"
      "set (spawns (vn_messages s)) \<subseteq> set D - fset K" "vn_hasUnknown s \<longleftrightarrow> (\<exists>i \<in> set D. i |\<notin>| K)"
      "mset (sel_ids (vn_selection s)) \<subseteq># mset (filter (\<lambda>i. i |\<in>| K) D)"
    using t by (auto simp: scan_adds_def D_def sel_ids_def newSnapshotSelection_def)
  have sel: "set (sel_ids (vn_selection s)) \<subseteq> fset K \<inter> set D" using set_mset_mono [OF scan(6)] by auto
  have "look \<or> (\<forall>i \<in> set (vs_desiredIDs v2). i |\<in>| vs_known v2)" using scan(5) t by (auto simp: look)
  from frame_departed_props [OF _ this] sorted t
  have dep: "sorted_wrt (<) (frame_departed look v2)" "set (frame_departed look v2) = {i. i |\<in>| K \<and> i \<notin> set D}" by auto
  obtain ds where ds: "ms = vn_messages s @ map despawn_message ds" "subseq ds (frame_departed look v2)"
    using d select_despawns_props [of limits "frame_departed look v2" "vn_messages s"] by (metis prod.inject)
  have ds': "distinct ds" "set ds \<subseteq> fset K - set D" using subseq_sorted [OF ds(2) dep(1)] dep(2) by auto
  have "view_inv (v2\<lparr>vs_departed := frame_departed look v2\<rparr>)"
    by (rule view_invI) (use sorted t dep in \<open>auto simp: tracks_ok_def\<close>)
  from mark_all_inv [OF this] have "view_inv v4 \<and> vs_known v4 = K \<and> vs_desiredIDs v4 = D" using t by (simp add: v4)
  moreover have "batch_ok K (set D) (bt_Messages b)"
    using scan ds' sel ts mset_eq_setD [OF ts] unfolding batch_ok_def ms ds(1) message_lists despawn_lists chunk_lists chunk_updates correction_lists by auto
  ultimately show ?thesis by (simp add: K_def D_def)
qed

section \<open>The bootstrap builder\<close>

lemma mark_spawned_fields:
  "vs_known (mark_spawned k i g v) = vs_known v" "vs_desiredIDs (mark_spawned k i g v) = vs_desiredIDs v"
  "vs_departed (mark_spawned k i g v) = vs_departed v" "length (vs_tracks (mark_spawned k i g v)) = length (vs_tracks v)"
  "map et_id (vs_tracks (mark_spawned k i g v)) = map et_id (vs_tracks v)"
  "map et_known (vs_tracks (mark_spawned k i g v)) = map et_known (vs_tracks v)"
proof -
  show "map et_id (vs_tracks (mark_spawned k i g v)) = map et_id (vs_tracks v)"
    "map et_known (vs_tracks (mark_spawned k i g v)) = map et_known (vs_tracks v)"
    by (cases "k < length (vs_tracks v)"; simp add: mark_spawned_def map_update list_update_same_conv list_update_beyond)+
qed (simp_all add: mark_spawned_def)

text \<open>The tracks say the same of every id and of its being known.\<close>

lemma tracks_okI:
  assumes "tracks_ok v" and "map et_id (vs_tracks w) = map et_id (vs_tracks v)" and "map et_known (vs_tracks w) = map et_known (vs_tracks v)"
    and "vs_known w = vs_known v" and "vs_desiredIDs w = vs_desiredIDs v"
  shows "tracks_ok w"
proof -
  have "et_known t \<longleftrightarrow> et_id t |\<in>| vs_known w" if mem: "t \<in> set (vs_tracks w)" for t
  proof -
    obtain l where l: "l < length (vs_tracks w)" "t = vs_tracks w ! l" using mem by (auto simp: in_set_conv_nth)
    have "l < length (vs_tracks v)" using l(1) assms(2) by (metis length_map)
    moreover have "et_id t = et_id (vs_tracks v ! l)" "et_known t = et_known (vs_tracks v ! l)"
      using l assms(2,3) calculation by (metis nth_map)+
    ultimately show ?thesis using tracks_okD(2) [OF assms(1), of "vs_tracks v ! l"] assms(4) by simp
  qed
  then show ?thesis using assms(2,5) tracks_okD(1) [OF assms(1)] by (simp add: tracks_ok_def)
qed

lemma bootstrap_despawns_props:
  "\<exists>ds st'. bootstrap_despawns limits known ids ms st = (ms @ map despawn_message ds, st') \<and> subseq ds (filter (\<lambda>i. i |\<in>| known) ids)"
proof (induction limits known ids ms st rule: bootstrap_despawns.induct)
  case (2 limits known i ids ms st)
  let ?stop = "\<not> allowMessage limits (lifecycle_selected st) \<or> \<not> allowDespawn limits (bs_DespawnSelected st)"
  consider "i |\<notin>| known" | "i |\<in>| known" "?stop" | "i |\<in>| known" "\<not> ?stop" by blast
  then show ?case
  proof cases
    case 1
    then show ?thesis using "2.IH"(1) [OF 1] by simp
  next
    case 2
    then show ?thesis by (intro exI [of _ "[]"]) (simp del: disj_not1)
  next
    case 3
    then have "\<not> i |\<notin>| known" by simp
    from "2.IH"(2) [OF this 3(2)] obtain ds st' where
      "bootstrap_despawns limits known ids (ms @ [despawn_message i]) (st\<lparr>bs_DespawnSelected := bs_DespawnSelected st + 1\<rparr>) =
        ((ms @ [despawn_message i]) @ map despawn_message ds, st')" "subseq ds (filter (\<lambda>i. i |\<in>| known) ids)" by blast
    with 3 show ?thesis by (intro exI [of _ "i # ds"] exI [of _ st']) (simp del: disj_not1)
  qed
qed auto

text \<open>The spawns are of entities unknown at their place in the view.\<close>

lemma bootstrap_spawns_props:
  assumes "tracks_ok v" and "visible_ok f (pre @ ks)" and "vs_desiredIDs v = desired_of f (pre @ ks)" and "i = length pre"
    and "bootstrap_spawns limits f i ks ms st v = ((ms', st'), v')"
  shows "tracks_ok v' \<and> vs_known v' = vs_known v \<and> vs_desiredIDs v' = vs_desiredIDs v \<and> vs_departed v' = vs_departed v \<and>
    (\<exists>ns. ms' = ms @ ns \<and> despawns ns = [] \<and> updates ns = [] \<and> distinct (spawns ns) \<and>
       set (spawns ns) \<subseteq> set (desired_of f ks) - fset (vs_known v))"
  using assms
proof (induction ks arbitrary: pre i ms st v)
  case Nil
  then show ?case by auto
next
  case (Cons k ks)
  define e where "e = pf_Entities f ! k"
  have k: "k < length (pf_Entities f)" "en_ID e \<notin> set (desired_of f ks)"
    using Cons.prems(2) by (auto simp: visible_ok_def desired_of_append desired_of_simps sorted_wrt_append e_def)
  have at: "frame_at f k = Some e" using k(1) by (simp add: frame_at_def e_def)
  have want: "desired_of f (k # ks) = en_ID e # desired_of f ks" using k(1) by (simp add: desired_of_simps e_def)
  have len: "i < length (vs_tracks v)" using tracks_okD(3) [OF Cons.prems(1)] Cons.prems(3,4) by simp
  define t where "t = vs_tracks v ! i"
  have "et_id t = vs_desiredIDs v ! i" using tracks_okD(1) [OF Cons.prems(1)] len by (metis nth_map t_def)
  then have id: "et_id t = en_ID e"
    using Cons.prems(3,4) k(1) by (simp add: desired_of_append desired_of_simps e_def nth_append)
  have known: "et_known t \<longleftrightarrow> en_ID e |\<in>| vs_known v"
    using tracks_okD(2) [OF Cons.prems(1), of t] len id by (simp add: t_def)
  define st1 where "st1 = st\<lparr>bs_SpawnCandidates := bs_SpawnCandidates st + 1\<rparr>"
  define stop where "stop = (\<not> allowMessage limits (lifecycle_selected st1) \<or> \<not> allowSpawn limits (bs_SpawnSelected st1))"
  note step = Cons.prems(5) [unfolded bootstrap_spawns.simps at option.case Let_def, folded st1_def t_def, folded stop_def]
  have more: "visible_ok f ((pre @ [k]) @ ks)" "i + 1 = length (pre @ [k])" using Cons.prems by simp_all
  consider (known) "et_known t" | (stop) "\<not> et_known t" "stop" | (sent) "\<not> et_known t" "\<not> stop" by blast
  then show ?case
  proof cases
    case known
    then have "bootstrap_spawns limits f (i + 1) ks ms st v = ((ms', st'), v')" using step len by simp
    from Cons.IH [OF Cons.prems(1) more(1) _ more(2) this] Cons.prems(3) show ?thesis by (auto simp: want)
  next
    case stop
    then have "ms' = ms" "v' = v" using step len by simp_all
    then show ?thesis using Cons.prems(1) by simp
  next
    case sent
    define w where "w = mark_spawned i (en_ID e) (pf_TransformGenerations f ! k) v"
    have r: "bootstrap_spawns limits f (i + 1) ks (ms @ [spawn_message (pf_Tick f) e])
        (st1\<lparr>bs_SpawnSelected := bs_SpawnSelected st1 + 1\<rparr>) w = ((ms', st'), v')" using step len sent by (simp add: w_def)
    have w: "tracks_ok w" "vs_known w = vs_known v" "vs_desiredIDs w = vs_desiredIDs v" "vs_departed w = vs_departed v"
      using tracks_okI [OF Cons.prems(1)] mark_spawned_fields by (simp_all add: w_def)
    from Cons.IH [OF w(1) more(1) _ more(2) r] obtain ns where
      a: "tracks_ok v'" "vs_known v' = vs_known v" "vs_desiredIDs v' = vs_desiredIDs v" "vs_departed v' = vs_departed v" and
      b: "ms' = (ms @ [spawn_message (pf_Tick f) e]) @ ns" "despawns ns = []" "updates ns = []" "distinct (spawns ns)"
        "set (spawns ns) \<subseteq> set (desired_of f ks) - fset (vs_known v)"
      using w Cons.prems(3) by auto
    have "despawns (spawn_message (pf_Tick f) e # ns) = [] \<and> updates (spawn_message (pf_Tick f) e # ns) = [] \<and>
        spawns (spawn_message (pf_Tick f) e # ns) = en_ID e # spawns ns" using b by (simp add: spawn_message_def)
    moreover have "distinct (en_ID e # spawns ns)" using b k(2) by auto
    moreover have "set (en_ID e # spawns ns) \<subseteq> set (desired_of f (k # ks)) - fset (vs_known v)"
      using b sent known by (auto simp: want)
    moreover have "ms' = ms @ (spawn_message (pf_Tick f) e # ns)" using b(1) by simp
    ultimately show ?thesis using a by (intro conjI exI [of _ "spawn_message (pf_Tick f) e # ns"]) simp_all
  qed
qed

text \<open>Every batch of the lifecycle-first builder is well formed for what the client knows.\<close>

lemma tracks_ok_of_inv: "view_inv v \<Longrightarrow> tracks_ok v"
  by (simp add: view_inv_def)

lemma view_inv_of_tracks:
  "view_inv v \<Longrightarrow> tracks_ok w \<Longrightarrow> vs_known w = vs_known v \<Longrightarrow> vs_desiredIDs w = vs_desiredIDs v \<Longrightarrow> vs_departed w = vs_departed v \<Longrightarrow> view_inv w"
  by (simp add: view_inv_def)

lemma first_unknown:
  "firstUnknownDesired v = None \<longleftrightarrow> list_all et_known (vs_tracks v)"
  "firstUnknownDesired v = Some k \<Longrightarrow> k < length (vs_tracks v) \<and> list_all et_known (take k (vs_tracks v)) \<and> \<not> et_known (vs_tracks v ! k)"
proof -
  have l: "length (takeWhile et_known ts) < length ts \<longleftrightarrow> \<not> list_all et_known ts" for ts :: "entity_track list"
    by (metis length_takeWhile_le linorder_not_less list_all_iff nat_less_le takeWhile_eq_all_conv takeWhile_eq_take take_all)
  then show "firstUnknownDesired v = None \<longleftrightarrow> list_all et_known (vs_tracks v)" by (simp add: firstUnknownDesired_def Let_def)
  assume "firstUnknownDesired v = Some k"
  then have k: "k = length (takeWhile et_known (vs_tracks v))" "k < length (vs_tracks v)"
    by (auto simp: firstUnknownDesired_def Let_def split: if_splits)
  then have "take k (vs_tracks v) = takeWhile et_known (vs_tracks v)" by (metis takeWhile_eq_take)
  then have "list_all et_known (take k (vs_tracks v))" by (auto simp: list_all_iff dest: set_takeWhileD)
  moreover have "\<not> et_known (vs_tracks v ! k)" using nth_length_takeWhile [of et_known "vs_tracks v"] k by simp
  ultimately show "k < length (vs_tracks v) \<and> list_all et_known (take k (vs_tracks v)) \<and> \<not> et_known (vs_tracks v ! k)"
    using k(2) by simp
qed

lemma batch_ok_correction: "batch_ok K D (correction_for f s n)"
  by (simp add: batch_ok_def)

lemma bootstrap_ok:
  assumes inv: "view_inv v" and ok: "visible_ok f visible" and want: "vs_desiredIDs v = desired_of f visible" and k: "k < length visible"
    and b: "buildBootstrapLifecycleFrame selfID n f visible k limits v = (b, v')"
  shows "view_inv v' \<and> vs_known v' = vs_known v \<and> vs_desiredIDs v' = vs_desiredIDs v \<and>
    batch_ok (vs_known v) (set (vs_desiredIDs v)) (bt_Messages b)"
proof -
  define v1 where "v1 = v\<lparr>vs_buildNumber := vs_buildNumber v + 1\<rparr>"
  have v1: "tracks_ok v1" "vs_known v1 = vs_known v" "vs_desiredIDs v1 = vs_desiredIDs v" "vs_departed v1 = vs_departed v"
    using tracks_ok_of_inv [OF inv] by (simp_all add: v1_def tracks_ok_def)
  define st0 where "st0 = zero_stats\<lparr>bs_DespawnCandidates := length (vs_departed v1)\<rparr>"
  obtain ds st where ds: "bootstrap_despawns limits (vs_known v1) (vs_departed v1) [] st0 = (map despawn_message ds, st)"
      "subseq ds (filter (\<lambda>i. i |\<in>| vs_known v1) (vs_departed v1))"
    using bootstrap_despawns_props [of limits "vs_known v1" "vs_departed v1" "[]" st0] by auto
  obtain ms st' v2 where sp: "bootstrap_spawns limits f k (drop k visible) (map despawn_message ds) st v1 = ((ms, st'), v2)"
    by (metis prod.collapse)
  have r: "v' = v2" "bt_Messages b = ms @ correction_for f selfID n"
    using b unfolding buildBootstrapLifecycleFrame_def Let_def v1_def [symmetric] st0_def [symmetric] ds(1) sp prod.case by auto
  have split: "take k visible @ drop k visible = visible" by simp
  have props: "tracks_ok v2 \<and> vs_known v2 = vs_known v1 \<and> vs_desiredIDs v2 = vs_desiredIDs v1 \<and> vs_departed v2 = vs_departed v1 \<and>
      (\<exists>ns. ms = map despawn_message ds @ ns \<and> despawns ns = [] \<and> updates ns = [] \<and> distinct (spawns ns) \<and>
       set (spawns ns) \<subseteq> set (desired_of f (drop k visible)) - fset (vs_known v1))"
    by (rule bootstrap_spawns_props [where pre = "take k visible", OF v1(1) _ _ _ sp]) (use k ok want v1 in \<open>simp_all only: split, simp_all\<close>)
  then obtain ns where ns: "ms = map despawn_message ds @ ns" "despawns ns = []" "updates ns = []" "distinct (spawns ns)"
      "set (spawns ns) \<subseteq> set (desired_of f (drop k visible)) - fset (vs_known v)" using v1 by auto
  have "set (desired_of f (drop k visible)) \<subseteq> set (vs_desiredIDs v)"
    unfolding want using set_drop_subset [of k visible] by (auto simp: desired_of_def)
  moreover have "sorted_wrt (<) (filter (\<lambda>i. i |\<in>| vs_known v) (vs_departed v))"
    using view_invD(4) [OF inv] by (rule sorted_wrt_filter)
  then have "distinct ds \<and> set ds \<subseteq> set (filter (\<lambda>i. i |\<in>| vs_known v) (vs_departed v))"
    using subseq_sorted ds(2) v1 by metis
  moreover have "set (vs_departed v) \<inter> set (vs_desiredIDs v) = {}" using inv by (simp add: view_inv_def)
  ultimately have "batch_ok (vs_known v) (set (vs_desiredIDs v)) (bt_Messages b)"
    using ns unfolding batch_ok_def r(2) ns(1) message_lists despawn_lists correction_lists by auto
  moreover have "view_inv v2" using view_inv_of_tracks [OF inv] props v1 by metis
  ultimately show ?thesis using props v1 r(1) by simp
qed

lemma buildFrameLifecycleFirst_ok:
  assumes inv: "view_inv v" and ok: "visible_ok f visible" and b: "buildFrameLifecycleFirst p selfID n f visible limits v = (b, v')"
  shows "view_inv v' \<and> vs_known v' = vs_known v \<and> vs_desiredIDs v' = desired_of f visible \<and>
    batch_ok (vs_known v) (set (desired_of f visible)) (bt_Messages b)"
proof -
  define v1 where "v1 = sync_view f visible v"
  have v1: "view_inv v1" "vs_desiredIDs v1 = desired_of f visible" "vs_known v1 = vs_known v"
    using sync_view_inv [OF inv ok] by (simp_all add: v1_def)
  note b = b [unfolded buildFrameLifecycleFirst_def Let_def, folded v1_def]
  consider (deferred) "lm_MaxMessages limits < 0" | (steady) "\<not> lm_MaxMessages limits < 0" "firstUnknownDesired v1 = None"
    | (bootstrap) k where "\<not> lm_MaxMessages limits < 0" "firstUnknownDesired v1 = Some k" by blast
  then show ?thesis
  proof cases
    case deferred
    then have r: "bt_Messages b = correction_for f selfID n" "v' = v1\<lparr>vs_buildNumber := vs_buildNumber v1 + 1\<rparr>"
      using b by (auto simp: buildDeferredLifecycleFrame_def)
    have "view_inv v'" using view_inv_of_tracks [OF v1(1), of v'] tracks_ok_of_inv [OF v1(1)] by (simp add: r(2) tracks_ok_def)
    then show ?thesis using r v1 batch_ok_correction by simp
  next
    case steady
    then have "buildFrame p selfID n f visible limits v1 = (b, v')" using b by simp
    from buildFrame_ok [OF v1(1) ok this] show ?thesis using v1 by simp
  next
    case bootstrap
    then have r: "buildBootstrapLifecycleFrame selfID n f visible k limits v1 = (b, v')" using b by simp
    have "k < length visible" using first_unknown(2) [OF bootstrap(2)] view_invD(7) [OF v1(1)] v1(2) by simp
    from bootstrap_ok [OF v1(1) ok v1(2) this r] show ?thesis using v1 by simp
  qed
qed

section \<open>The history of a session\<close>

text \<open>
  A session lives through frames; with each, its view builds a batch (with either builder) and the
  batch is delivered over its connection. Between frames the connection may change in any way. The
  visible entities come in order of their ids, as the area query of the frame gives them.
\<close>

inductive replicated ::
  "(outbound \<Rightarrow> 'c \<Rightarrow> session_error option \<times> 'c) \<Rightarrow> view_state \<Rightarrow> repl_message list \<Rightarrow> bool" for send where
  replicated_new: "replicated send newViewState []"
| replicated_frame:
    "replicated send v sent \<Longrightarrow> visible_ok f visible \<Longrightarrow> buildFrame p selfID n f visible limits v = (b, v1) \<Longrightarrow>
     deliver send False (bt_Messages b) c v1 = (accepted, c', v') \<Longrightarrow> replicated send v' (sent @ accepted)"
| replicated_lifecycle:
    "replicated send v sent \<Longrightarrow> visible_ok f visible \<Longrightarrow> buildFrameLifecycleFirst p selfID n f visible limits v = (b, v1) \<Longrightarrow>
     deliver send False (bt_Messages b) c v1 = (accepted, c', v') \<Longrightarrow> replicated send v' (sent @ accepted)"

inductive_cases replicated_cases: "replicated send v sent"

lemma newViewState_inv: "view_inv newViewState"
  by (simp add: view_inv_def tracks_ok_def newViewState_def)

text \<open>A batch that was well formed for what the client knows is followed by it, however much of it is accepted.\<close>

definition client_agrees :: "view_state \<Rightarrow> repl_message list \<Rightarrow> bool" where
  "client_agrees v sent = (view_inv v \<and> client_follows {||} sent \<and> client_after {||} sent = vs_known v)"

lemma agrees_step:
  assumes "client_agrees v sent" and "view_inv v1 \<and> vs_known v1 = vs_known v \<and> batch_ok (vs_known v) (set (vs_desiredIDs v1)) ms"
    and "deliver send False ms c v1 = (accepted, c', v')"
  shows "client_agrees v' (sent @ accepted)"
  using deliver_props [OF _ _ assms(3)] assms(1,2) by (simp add: client_agrees_def client_append)

lemma replicated_agrees: "replicated send v sent \<Longrightarrow> client_agrees v sent"
proof (induction rule: replicated.induct)
  case replicated_new
  show ?case using newViewState_inv by (simp add: client_agrees_def newViewState_def)
next
  case (replicated_frame v sent f visible p selfID n limits b v1 c accepted c' v')
  then have "view_inv v" by (simp add: client_agrees_def)
  from buildFrame_ok [OF this replicated_frame.hyps(2,3)] show ?case
    by (intro agrees_step [OF replicated_frame.IH _ replicated_frame.hyps(4)]) simp
next
  case (replicated_lifecycle v sent f visible p selfID n limits b v1 c accepted c' v')
  then have "view_inv v" by (simp add: client_agrees_def)
  from buildFrameLifecycleFirst_ok [OF this replicated_lifecycle.hyps(2,3)] show ?case
    by (intro agrees_step [OF replicated_lifecycle.IH _ replicated_lifecycle.hyps(4)]) simp
qed

text \<open>The departed ids that are kept from frame to frame are those a full scan finds.\<close>

lemma inv_departed: "view_inv v \<Longrightarrow> filter (\<lambda>i. i |\<in>| vs_known v) (vs_departed v) = known_outside v"
proof -
  assume inv: "view_inv v"
  note i = view_invD [OF inv] and out = known_outside_props [of v]
  have "set (filter (\<lambda>i. i |\<in>| vs_known v) (vs_departed v)) = set (known_outside v)" using i out by auto
  moreover have "sorted_wrt (<) (filter (\<lambda>i. i |\<in>| vs_known v) (vs_departed v))" using i(4) by (rule sorted_wrt_filter)
  ultimately show ?thesis using out(1) [OF i(1)] by (simp add: strict_sorted_equal)
qed

section \<open>Convergence\<close>

text \<open>Rounds of the lifecycle-first builder over a connection that accepts everything.\<close>

definition accept_all :: "outbound \<Rightarrow> unit \<Rightarrow> session_error option \<times> unit" where
  "accept_all m c = (None, c)"

fun lifecycle_rounds ::
  "replication_policy \<Rightarrow> entity_id \<Rightarrow> (u32 \<times> replication_frame \<times> nat list \<times> lifecycle_limits) list \<Rightarrow> view_state \<Rightarrow> view_state" where
  "lifecycle_rounds p selfID [] v = v"
| "lifecycle_rounds p selfID ((n, f, visible, limits) # rs) v =
     (case buildFrameLifecycleFirst p selfID n f visible limits v of
        (b, v1) \<Rightarrow> case deliver accept_all False (bt_Messages b) () v1 of
          (_, _, v2) \<Rightarrow> lifecycle_rounds p selfID rs v2)"

definition open_limits :: "lifecycle_limits \<Rightarrow> bool" where
  "open_limits l = (0 \<le> lm_MaxSpawns l \<and> 0 \<le> lm_MaxDespawns l \<and> 0 \<le> lm_MaxMessages l)"

lemma open_limits_allow:
  assumes "open_limits l"
  shows "allowSpawn l 0" and "allowDespawn l 0" and "allowMessage l 0"
  using assms by (auto simp: open_limits_def allowSpawn_def allowDespawn_def allowMessage_def lifecycleLimitAllows_def)

lemma accept_known:
  "deliver accept_all False ms () v = (accepted, c, w) \<Longrightarrow>
     accepted = map ob_Message ms \<and> vs_known w = client_after (vs_known v) (map ob_Message ms)"
proof (induction ms arbitrary: v accepted c w)
  case (Cons m ms)
  obtain acc c1 w1 where r: "deliver accept_all False ms () (confirmLifecycleDelivery (ob_Message m) v) = (acc, c1, w1)"
    by (metis prod_cases3)
  moreover have "deliver accept_all False (m # ms) () v =
      (case deliver accept_all False ms () (confirmLifecycleDelivery (ob_Message m) v) of
         (accepted, c, w) \<Rightarrow> (ob_Message m # accepted, c, w))"
    by (simp only: deliver.simps Let_def accept_all_def option.case prod.case simp_thms if_False)
  ultimately have "accepted = ob_Message m # acc" "w = w1" using Cons.prems by simp_all
  moreover have "client_after (vs_known v) (ob_Message m # map ob_Message ms) =
      client_after (vs_known (confirmLifecycleDelivery (ob_Message m) v)) (map ob_Message ms)"
    by (cases "ob_Message m") (simp_all add: view_ConfirmSpawn_def view_ConfirmDespawn_def)
  ultimately show ?case using Cons.IH [OF r] by simp
qed simp

lemma client_after_set:
  "set (spawns ms) \<inter> set (despawns ms) = {} \<Longrightarrow>
     fset (client_after K (map ob_Message ms)) = (fset K \<union> set (spawns ms)) - set (despawns ms)"
proof (induction ms arbitrary: K)
  case (Cons m ms)
  then show ?case by (cases "ob_Message m") auto
qed simp

text \<open>How far the client is from what is desired.\<close>

definition distance :: "entity_id fset \<Rightarrow> entity_id set \<Rightarrow> nat" where
  "distance K D = card ((fset K - D) \<union> (D - fset K))"

lemma distance_zero: "finite D \<Longrightarrow> distance K D = 0 \<longleftrightarrow> fset K = D"
  by (auto simp: distance_def)

lemma less_without: "A \<noteq> {} \<Longrightarrow> A \<subseteq> S \<Longrightarrow> S - A \<subset> S"
  by blast

lemma batch_moves:
  assumes "finite D" and "batch_ok K D ms" and "fset K' = (fset K \<union> set (spawns ms)) - set (despawns ms)"
  shows "distance K' D \<le> distance K D" and "spawns ms \<noteq> [] \<or> despawns ms \<noteq> [] \<Longrightarrow> distance K' D < distance K D"
proof -
  let ?S = "\<lambda>K. (fset K - D) \<union> (D - fset K)"
  have sub: "?S K' = ?S K - (set (spawns ms) \<union> set (despawns ms))" "set (spawns ms) \<union> set (despawns ms) \<subseteq> ?S K"
    using assms(2,3) by (auto simp: batch_ok_def)
  have fin: "finite (?S K)" using assms(1) by simp
  show "distance K' D \<le> distance K D" unfolding distance_def sub(1) by (rule card_mono [OF fin]) blast
  assume "spawns ms \<noteq> [] \<or> despawns ms \<noteq> []"
  then have "set (spawns ms) \<union> set (despawns ms) \<noteq> {}" by simp
  from less_without [OF this sub(2)] show "distance K' D < distance K D"
    unfolding distance_def sub(1) by (rule psubset_card_mono [OF fin])
qed

text \<open>While the client is not where it should be, a round with open limits has something for it.\<close>

lemma bootstrap_despawns_some:
  assumes "open_limits limits" and "lifecycle_selected st = 0" and "bs_DespawnSelected st = 0" and "i \<in> set ids" and "i |\<in>| known"
    and "bootstrap_despawns limits known ids ms st = (ms @ map despawn_message ds, st')"
  shows "ds \<noteq> []"
  using assms(4,6)
proof (induction ids)
  case (Cons j ids)
  show ?case
  proof (cases "j |\<in>| known")
    case True
    then have r: "bootstrap_despawns limits known ids (ms @ [despawn_message j]) (st\<lparr>bs_DespawnSelected := bs_DespawnSelected st + 1\<rparr>) =
        (ms @ map despawn_message ds, st')"
      using Cons.prems(2) assms(2,3) open_limits_allow [OF assms(1)] by simp
    obtain ds' st'' where "bootstrap_despawns limits known ids (ms @ [despawn_message j]) (st\<lparr>bs_DespawnSelected := bs_DespawnSelected st + 1\<rparr>) =
        ((ms @ [despawn_message j]) @ map despawn_message ds', st'')"
      using bootstrap_despawns_props [of limits known ids "ms @ [despawn_message j]" "st\<lparr>bs_DespawnSelected := bs_DespawnSelected st + 1\<rparr>"]
      by blast
    with r show ?thesis by auto
  next
    case False
    then show ?thesis using Cons assms(5) by auto
  qed
qed simp

lemma bootstrap_spawns_some:
  assumes "open_limits limits" and "lifecycle_selected st = 0" and "bs_SpawnSelected st = 0" and "tracks_ok v"
    and "visible_ok f visible" and "vs_desiredIDs v = desired_of f visible" and "i < length visible" and "\<not> et_known (vs_tracks v ! i)"
    and "bootstrap_spawns limits f i (drop i visible) ms st v = ((ms', st'), v')"
  shows "\<exists>ns. ms' = ms @ ns \<and> spawns ns \<noteq> []"
proof -
  define e where "e = pf_Entities f ! (visible ! i)"
  have split: "drop i visible = visible ! i # drop (Suc i) visible" using assms(7) by (simp add: Cons_nth_drop_Suc)
  have "visible ! i < length (pf_Entities f)" using assms(5,7) by (simp add: visible_ok_def list_all_length)
  then have at: "frame_at f (visible ! i) = Some e" by (simp add: frame_at_def e_def)
  have len: "\<not> length (vs_tracks v) \<le> i" using tracks_okD(3) [OF assms(4)] assms(6,7) by simp
  define st1 where "st1 = st\<lparr>bs_SpawnCandidates := bs_SpawnCandidates st + 1\<rparr>"
  define w where "w = mark_spawned i (en_ID e) (pf_TransformGenerations f ! (visible ! i)) v"
  have zero: "lifecycle_selected st1 = 0" "bs_SpawnSelected st1 = 0" using assms(2,3) by (simp_all add: st1_def lifecycle_selected_def)
  have r: "bootstrap_spawns limits f (i + 1) (drop (Suc i) visible) (ms @ [spawn_message (pf_Tick f) e])
      (st1\<lparr>bs_SpawnSelected := bs_SpawnSelected st1 + 1\<rparr>) w = ((ms', st'), v')"
    using assms(9) len assms(8) zero open_limits_allow [OF assms(1)]
    unfolding split bootstrap_spawns.simps at option.case Let_def st1_def [symmetric] w_def [symmetric] by simp
  have w: "tracks_ok w" "vs_desiredIDs w = vs_desiredIDs v"
    using tracks_okI [OF assms(4)] mark_spawned_fields by (simp_all add: w_def)
  have whole: "take (Suc i) visible @ drop (Suc i) visible = visible" by simp
  have "\<exists>ns. ms' = (ms @ [spawn_message (pf_Tick f) e]) @ ns"
    using bootstrap_spawns_props [where pre = "take (Suc i) visible", OF w(1) _ _ _ r] assms(5,6,7) w(2)
    unfolding whole by auto
  then obtain ns where "ms' = ms @ (spawn_message (pf_Tick f) e # ns)" by auto
  moreover have "spawns (spawn_message (pf_Tick f) e # ns) \<noteq> []" by (simp add: spawn_message_def)
  ultimately show ?thesis by blast
qed

lemma bootstrap_despawns_none:
  "\<not> (\<exists>i \<in> set ids. i |\<in>| known) \<Longrightarrow> bootstrap_despawns limits known ids ms st = (ms, st)"
  by (induction ids) simp_all

lemma select_despawns_some:
  assumes "open_limits limits" and "lifecycle_selected st = 0" and "bs_DespawnSelected st = 0" and "ids \<noteq> []"
    and "select_despawns limits ids ms st = (ms', st')"
  shows "\<exists>ds. ms' = ms @ map despawn_message ds \<and> ds \<noteq> []"
proof (cases ids)
  case (Cons i xs)
  have r: "select_despawns limits xs (ms @ [despawn_message i]) (st\<lparr>bs_DespawnSelected := bs_DespawnSelected st + 1\<rparr>) = (ms', st')"
    using assms(2,3,5) open_limits_allow [OF assms(1)] by (simp add: Cons)
  obtain ds st'' where "select_despawns limits xs (ms @ [despawn_message i]) (st\<lparr>bs_DespawnSelected := bs_DespawnSelected st + 1\<rparr>) =
      ((ms @ [despawn_message i]) @ map despawn_message ds, st'')"
    using select_despawns_props by blast
  with r have "ms' = ms @ map despawn_message (i # ds)" by simp
  then show ?thesis by blast
qed (use assms(4) in simp)

lemma steady_some:
  assumes inv: "view_inv v0" and ok: "visible_ok f visible" and lim: "open_limits limits"
    and want: "vs_desiredIDs v0 = desired_of f visible" and all: "list_all et_known (vs_tracks v0)"
    and far: "fset (vs_known v0) \<noteq> set (desired_of f visible)" and b: "buildFrame p selfID n f visible limits v0 = (b, v4)"
  shows "despawns (bt_Messages b) \<noteq> []"
proof -
  define K where "K = vs_known v0"
  define D where "D = desired_of f visible"
  obtain v2 s ms st ts where v2: "v2 = (if sameDesiredIDs (vs_desiredIDs v0) f visible then v0\<lparr>vs_buildNumber := vs_buildNumber v0 + 1\<rparr>
      else rebuildDesiredTracks f visible (v0\<lparr>vs_buildNumber := vs_buildNumber v0 + 1\<rparr>))"
    and s: "s = scan_visible p limits f selfID (map_option fst (frame_Entity f selfID)) v2 0 visible
      \<lparr>vn_messages = [], vn_stats = zero_stats, vn_hasUnknown = False,
       vn_selection = newSnapshotSelection (pl_MaxTransformsPerBuild p)\<rparr>"
    and d: "select_despawns limits (frame_departed (\<not> sameDesiredIDs (vs_desiredIDs v0) f visible \<or> vn_hasUnknown s) v2) (vn_messages s)
      ((vn_stats s)\<lparr>bs_DespawnCandidates :=
         length (frame_departed (\<not> sameDesiredIDs (vs_desiredIDs v0) f visible \<or> vn_hasUnknown s) v2)\<rparr>) = (ms, st)"
    and ms: "bt_Messages b = ms @ snapshot_chunks (pf_Tick f) ts @ correction_for f selfID n"
    by (rule buildFrame_parts [OF b]) blast
  have same: "sameDesiredIDs (vs_desiredIDs v0) f visible" using want same_iff [OF visible_okD(1) [OF ok]] by simp
  have t: "tracks_ok v2" "vs_desiredIDs v2 = D" "vs_known v2 = K"
    using same view_invD(2,3) [OF inv] want by (simp_all add: v2 tracks_ok_def K_def D_def)
  have known: "i |\<in>| K" if "i \<in> set D" for i
  proof -
    have "i \<in> et_id ` set (vs_tracks v0)" using that want view_invD(2) [OF inv] by (metis D_def list.set_map)
    then show ?thesis using all view_invD(3) [OF inv] by (auto simp: list_all_iff K_def)
  qed
  have "scan_adds (vs_known v2) (desired_of f visible)
      \<lparr>vn_messages = [], vn_stats = zero_stats, vn_hasUnknown = False, vn_selection = newSnapshotSelection (pl_MaxTransformsPerBuild p)\<rparr> s"
    unfolding s by (rule scan_props [where pre = "[]"]) (use t ok in \<open>simp_all add: D_def\<close>)
  then have scan: "\<not> vn_hasUnknown s" "bs_DespawnSelected (vn_stats s) = 0" "bs_SpawnSelected (vn_stats s) = 0"
    using t known by (auto simp: scan_adds_def D_def zero_stats_def)
  define dep where "dep = frame_departed (\<not> sameDesiredIDs (vs_desiredIDs v0) f visible \<or> vn_hasUnknown s) v2"
  have "sorted_wrt (<) (vs_desiredIDs v2)" using visible_okD(2) [OF ok] t by (simp add: D_def)
  then have "set dep = {i. i |\<in>| K \<and> i \<notin> set D}"
    unfolding dep_def using frame_departed_props(2) t known by simp
  moreover have "\<not> fset K \<subseteq> set D" using far known by (auto simp: K_def D_def)
  ultimately have "dep \<noteq> []" by auto
  from select_despawns_some [OF lim _ _ this d [folded dep_def]] scan
  obtain ds where "ms = vn_messages s @ map despawn_message ds" "ds \<noteq> []" by (auto simp: lifecycle_selected_def)
  then show ?thesis using ms by (simp add: despawn_lists)
qed

lemma bootstrap_some:
  assumes inv: "view_inv v" and ok: "visible_ok f visible" and lim: "open_limits limits"
    and want: "vs_desiredIDs v = desired_of f visible" and k: "k < length visible" "\<not> et_known (vs_tracks v ! k)"
    and b: "buildBootstrapLifecycleFrame selfID n f visible k limits v = (b, v')"
  shows "spawns (bt_Messages b) \<noteq> [] \<or> despawns (bt_Messages b) \<noteq> []"
proof -
  define v1 where "v1 = v\<lparr>vs_buildNumber := vs_buildNumber v + 1\<rparr>"
  have v1: "tracks_ok v1" "vs_desiredIDs v1 = desired_of f visible" "\<not> et_known (vs_tracks v1 ! k)"
    using tracks_ok_of_inv [OF inv] want k by (simp_all add: v1_def tracks_ok_def)
  define st0 where "st0 = zero_stats\<lparr>bs_DespawnCandidates := length (vs_departed v1)\<rparr>"
  have st0: "lifecycle_selected st0 = 0" "bs_DespawnSelected st0 = 0" "bs_SpawnSelected st0 = 0"
    by (simp_all add: st0_def zero_stats_def lifecycle_selected_def)
  obtain ds st where ds: "bootstrap_despawns limits (vs_known v1) (vs_departed v1) [] st0 = ([] @ map despawn_message ds, st)"
    using bootstrap_despawns_props by blast
  obtain ms st' v2 where sp: "bootstrap_spawns limits f k (drop k visible) (map despawn_message ds) st v1 = ((ms, st'), v2)"
    by (metis prod.collapse)
  have r: "bt_Messages b = ms @ correction_for f selfID n"
    using b ds unfolding buildBootstrapLifecycleFrame_def Let_def v1_def [symmetric] st0_def [symmetric] by (auto simp: sp)
  have split: "take k visible @ drop k visible = visible" by simp
  have "\<exists>ns. ms = map despawn_message ds @ ns"
    using bootstrap_spawns_props [where pre = "take k visible", OF v1(1) _ _ _ sp] ok k v1(2) unfolding split by auto
  then obtain ns where ns: "ms = map despawn_message ds @ ns" by blast
  show ?thesis
  proof (cases "ds = []")
    case False
    then show ?thesis by (simp add: r ns despawn_lists)
  next
    case True
    have none: "\<not> (\<exists>i \<in> set (vs_departed v1). i |\<in>| vs_known v1)"
      using bootstrap_despawns_some [OF lim st0(1,2) _ _ ds] True by blast
    then have "st = st0" using bootstrap_despawns_none ds by (metis append_Nil prod.inject)
    then have "\<exists>ns. ms = map despawn_message ds @ ns \<and> spawns ns \<noteq> []"
      by (intro bootstrap_spawns_some [OF lim _ _ v1(1) ok v1(2) k(1) v1(3) sp]) (simp_all add: st0)
    then show ?thesis by (auto simp: r)
  qed
qed

lemma round_some:
  assumes inv: "view_inv v" and ok: "visible_ok f visible" and lim: "open_limits limits"
    and far: "fset (vs_known v) \<noteq> set (desired_of f visible)" and b: "buildFrameLifecycleFirst p selfID n f visible limits v = (b, v')"
  shows "spawns (bt_Messages b) \<noteq> [] \<or> despawns (bt_Messages b) \<noteq> []"
proof -
  define v1 where "v1 = sync_view f visible v"
  have v1: "view_inv v1" "vs_desiredIDs v1 = desired_of f visible" "vs_known v1 = vs_known v"
    using sync_view_inv [OF inv ok] by (simp_all add: v1_def)
  have b: "(case firstUnknownDesired v1 of
        None \<Rightarrow> buildFrame p selfID n f visible limits v1
      | Some firstUnknown \<Rightarrow> buildBootstrapLifecycleFrame selfID n f visible firstUnknown limits v1) = (b, v')"
    using b lim by (simp add: buildFrameLifecycleFirst_def v1_def [symmetric] Let_def open_limits_def)
  show ?thesis
  proof (cases "firstUnknownDesired v1")
    case None
    then have "list_all et_known (vs_tracks v1)" by (simp only: first_unknown(1))
    then show ?thesis using steady_some [OF v1(1) ok lim v1(2)] far v1(3) b None by simp
  next
    case (Some k)
    from first_unknown(2) [OF this] have k: "k < length visible" "\<not> et_known (vs_tracks v1 ! k)"
      using view_invD(7) [OF v1(1)] v1(2) by simp_all
    show ?thesis by (rule bootstrap_some [OF v1(1) ok lim v1(2) k]) (use b Some in simp)
  qed
qed

lemma rounds_converge:
  assumes "view_inv v" and "finite D" and "distance (vs_known v) D \<le> length rs"
    and "list_all (\<lambda>(n, f, visible, limits). visible_ok f visible \<and> set (desired_of f visible) = D \<and> open_limits limits) rs"
  shows "fset (vs_known (lifecycle_rounds p selfID rs v)) = D"
  using assms
proof (induction rs arbitrary: v)
  case Nil
  then show ?case by (simp add: distance_zero)
next
  case (Cons r rs)
  obtain n f visible limits where r: "r = (n, f, visible, limits)" by (metis prod_cases4)
  have ok: "visible_ok f visible" "set (desired_of f visible) = D" "open_limits limits" using Cons.prems(4) by (simp_all add: r)
  obtain b v1 where b: "buildFrameLifecycleFirst p selfID n f visible limits v = (b, v1)" by force
  obtain acc c v2 where d: "deliver accept_all False (bt_Messages b) () v1 = (acc, c, v2)" by (metis prod_cases3)
  have v1: "view_inv v1" "vs_known v1 = vs_known v" "set (vs_desiredIDs v1) = D" "batch_ok (vs_known v) D (bt_Messages b)"
    using buildFrameLifecycleFirst_ok [OF Cons.prems(1) ok(1) b] ok(2) by auto
  have v2: "view_inv v2" using deliver_props [OF v1(1) _ d] v1 by simp
  have "set (spawns (bt_Messages b)) \<inter> set (despawns (bt_Messages b)) = {}" using v1(4) by (auto simp: batch_ok_def)
  then have known: "fset (vs_known v2) = (fset (vs_known v) \<union> set (spawns (bt_Messages b))) - set (despawns (bt_Messages b))"
    using accept_known [OF d] client_after_set v1(2) by simp
  note moves = batch_moves [OF Cons.prems(2) v1(4) known]
  have "distance (vs_known v2) D \<le> length rs"
  proof (cases "fset (vs_known v) = D")
    case True
    then have "distance (vs_known v) D = 0" using distance_zero [OF Cons.prems(2)] by simp
    then show ?thesis using moves(1) by simp
  next
    case False
    then have "distance (vs_known v2) D < distance (vs_known v) D"
      using moves(2) round_some [OF Cons.prems(1) ok(1,3) _ b] ok(2) by simp
    then show ?thesis using Cons.prems(3) by simp
  qed
  moreover have "lifecycle_rounds p selfID (r # rs) v = lifecycle_rounds p selfID rs v2" by (simp add: r b d)
  ultimately show ?case using Cons.IH [OF v2 Cons.prems(2)] Cons.prems(4) by simp
qed


section \<open>What a snapshot may hold\<close>

definition chunk_valid :: "repl_message \<Rightarrow> bool" where
  "chunk_valid m = (case m of WorldSnapshot _ c n ts \<Rightarrow> ValidChunk c n ts | _ \<Rightarrow> True)"

lemma chunks_valid:
  assumes "length ts \<le> 43 * 65535" and "m \<in> set (snapshot_chunks tick ts)"
  shows "chunk_valid (ob_Message m)"
proof -
  define n where "n = chunk_count (length ts)"
  obtain c where c: "c < n" "ob_Message m = WorldSnapshot tick (of_nat c) (of_nat n)
      (take MaxSnapshotEntitiesPerChunk (drop (c * MaxSnapshotEntitiesPerChunk) ts))"
    using assms(2) by (auto simp: snapshot_chunks_def n_def)
  have "n \<le> 65535" using chunk_count_props(3) [OF assms(1)] by (simp add: n_def)
  then have "unat (of_nat n :: u16) = n" "unat (of_nat c :: u16) = c"
    using c(1) by (simp_all add: unat_of_nat)
  then have "(of_nat c :: u16) < of_nat n" "(0 :: u16) < of_nat n" using c(1) by (simp_all add: word_less_nat_alt)
  then show ?thesis by (simp add: chunk_valid_def c(2) ValidChunk_def)
qed

lemma lifecycle_valid:
  "m \<in> set (map despawn_message ds) \<Longrightarrow> chunk_valid (ob_Message m)"
  "m \<in> set (correction_for f s n) \<Longrightarrow> chunk_valid (ob_Message m)" "chunk_valid (ob_Message (spawn_message tick e))"
  by (auto simp: despawn_message_def chunk_valid_def correction_for_def correction_message_def spawn_message_def split: option.splits)

lemma scan_visible_valid:
  "\<forall>m \<in> set (vn_messages s). chunk_valid (ob_Message m) \<Longrightarrow>
     \<forall>m \<in> set (vn_messages (scan_visible p limits f selfID self v i ks s)). chunk_valid (ob_Message m)"
proof (induction p limits f selfID self v i ks s rule: scan_visible.induct)
  case (2 p limits f selfID self v i k ks s)
  have u: "\<forall>m \<in> set (vn_messages (scan_unknown limits tick e s)). chunk_valid (ob_Message m)" for tick e
    using "2.prems" scan_unknown_rest(1) [of limits tick e s] lifecycle_valid(3) by auto
  show ?case
    unfolding scan_visible.simps Let_def
    by (rule "2.IH" [OF refl, unfolded Let_def]) (use "2.prems" u in \<open>auto simp: scan_known_rest split: option.split\<close>)
qed simp

lemma buildFrame_fits:
  assumes inv: "view_inv v0" and ok: "visible_ok f visible" and b: "buildFrame p selfID n f visible limits v0 = (b, v4)"
    and budget: "0 < pl_MaxTransformsPerBuild p" "pl_MaxTransformsPerBuild p \<le> 43 * 65535"
  shows "int (length (updates (bt_Messages b))) \<le> pl_MaxTransformsPerBuild p \<and> distinct (updates (bt_Messages b)) \<and>
    (\<forall>m \<in> set (bt_Messages b). chunk_valid (ob_Message m))"
proof -
  define D where "D = desired_of f visible"
  obtain v2 s ms st ts where v2: "v2 = (if sameDesiredIDs (vs_desiredIDs v0) f visible then v0\<lparr>vs_buildNumber := vs_buildNumber v0 + 1\<rparr>
      else rebuildDesiredTracks f visible (v0\<lparr>vs_buildNumber := vs_buildNumber v0 + 1\<rparr>))"
    and s: "s = scan_visible p limits f selfID (map_option fst (frame_Entity f selfID)) v2 0 visible
      \<lparr>vn_messages = [], vn_stats = zero_stats, vn_hasUnknown = False,
       vn_selection = newSnapshotSelection (pl_MaxTransformsPerBuild p)\<rparr>"
    and d: "select_despawns limits (frame_departed (\<not> sameDesiredIDs (vs_desiredIDs v0) f visible \<or> vn_hasUnknown s) v2) (vn_messages s)
      ((vn_stats s)\<lparr>bs_DespawnCandidates :=
         length (frame_departed (\<not> sameDesiredIDs (vs_desiredIDs v0) f visible \<or> vn_hasUnknown s) v2)\<rparr>) = (ms, st)"
    and ts: "mset (map xf_EntityID ts) = mset (sel_ids (vn_selection s))"
    and ms: "bt_Messages b = ms @ snapshot_chunks (pf_Tick f) ts @ correction_for f selfID n"
    by (rule buildFrame_parts [OF b]) blast
  have t: "tracks_ok v2 \<and> vs_desiredIDs v2 = D"
    using frame_tracks [OF inv ok] by (simp only: v2 D_def simp_thms)
  have "scan_adds (vs_known v2) (desired_of f visible)
      \<lparr>vn_messages = [], vn_stats = zero_stats, vn_hasUnknown = False, vn_selection = newSnapshotSelection (pl_MaxTransformsPerBuild p)\<rparr> s"
    unfolding s by (rule scan_props [where pre = "[]"]) (use t ok in \<open>simp_all add: D_def\<close>)
  then have scan: "updates (vn_messages s) = []" "mset (sel_ids (vn_selection s)) \<subseteq># mset (filter (\<lambda>i. i |\<in>| vs_known v2) D)"
      "int (length (sl_selected (vn_selection s))) \<le> pl_MaxTransformsPerBuild p"
    using budget(1) by (auto simp: scan_adds_def D_def sel_ids_def newSnapshotSelection_def)
  obtain ds where ds: "ms = vn_messages s @ map despawn_message ds"
    using d select_despawns_props by (metis prod.inject)
  have u: "updates (bt_Messages b) = map xf_EntityID ts"
    by (simp add: ms ds scan(1) despawn_lists chunk_updates)
  have len: "length ts = length (sl_selected (vn_selection s))" using mset_eq_length [OF ts] by (simp add: sel_ids_def)
  have "distinct D" using visible_okD(2) [OF ok] by (simp add: D_def strict_sorted_iff)
  then have "distinct (sel_ids (vn_selection s))" using distinct_subset_mset [OF scan(2)] by simp
  then have "distinct (map xf_EntityID ts)" using mset_eq_imp_distinct_iff [OF ts] by simp
  moreover have "int (length (updates (bt_Messages b))) \<le> pl_MaxTransformsPerBuild p" using scan(3) len by (simp add: u)
  moreover have "chunk_valid (ob_Message m)" if m: "m \<in> set (bt_Messages b)" for m
  proof -
    have "\<forall>m \<in> set (vn_messages s). chunk_valid (ob_Message m)" unfolding s by (rule scan_visible_valid) simp
    moreover have "length ts \<le> 43 * 65535" using len scan(3) budget(2) by linarith
    ultimately show ?thesis
      using m chunks_valid lifecycle_valid(1,2) unfolding ms ds set_append Un_iff by metis
  qed
  ultimately show ?thesis by (simp only: u) blast
qed

section \<open>The properties\<close>

text \<open>
  C4. A client is never told something it cannot follow. Over any history of a session, with either
  builder, any visible sets and limits and a connection that accepts or refuses what it likes, the
  messages that were accepted never spawn what the client has, never despawn what it has not and
  never move what it does not know; and what the server takes the client to know is exactly what
  the client has after applying them.
\<close>

theorem client_in_step:
  assumes "replicated send v sent"
  shows "client_follows {||} sent \<and> client_after {||} sent = vs_known v"
  using replicated_agrees [OF assms] by (simp add: client_agrees_def)

definition sample_replica :: "u64 \<Rightarrow> entity_state" where
  "sample_replica i = \<lparr>en_ID = i, en_Kind = EntityPlayer, en_ArchetypeID = '''', en_BodySize = '''',
     en_Transform = \<lparr>tf_Position = \<lparr>pos_X = 0, pos_Y = 0, pos_Z = 0, pos_Layer = 0\<rparr>, tf_Yaw = 0\<rparr>\<rparr>"

definition sample_frame :: replication_frame where
  "sample_frame = \<lparr>pf_Tick = 9, pf_Entities = [sample_replica 1, sample_replica 2, sample_replica 4], pf_TransformGenerations = [1, 1, 1],
     pf_IndexByID = fmempty, pf_Spatial = zero_read_frame\<rparr>"

lemma sample_frame_ok: "visible_ok sample_frame [0, 2]" "desired_of sample_frame [0, 2] = [1, 4]"
  by (simp_all add: visible_ok_def desired_of_def frame_at_def sample_frame_def sample_replica_def)

lemma sample_round:
  "\<exists>v. replicated accept_all v (map (ob_Message \<circ> spawn_message 9) [sample_replica 1, sample_replica 4])"
proof -
  let ?b = "buildFrameLifecycleFirst DefaultPolicy 1 0 sample_frame [0, 2] no_limits newViewState"
  have "bt_Messages (fst ?b) = map (spawn_message 9) [sample_replica 1, sample_replica 4]"
    by (simp add: buildFrameLifecycleFirst_def sync_view_def newViewState_def sameDesiredIDs_def desiredAppendOnly_def
        rebuildConvergedLifecycleTracks_def frame_at_def sample_frame_def sample_replica_def zero_track_def firstUnknownDesired_def
        buildBootstrapLifecycleFrame_def no_limits_def allowMessage_def allowSpawn_def lifecycleLimitAllows_def mark_spawned_def
        correction_for_def frame_Entity_def Let_def)
  moreover obtain acc c v where d: "deliver accept_all False (bt_Messages (fst ?b)) () (snd ?b) = (acc, c, v)" by (metis prod_cases3)
  moreover have "acc = map ob_Message (bt_Messages (fst ?b))" using accept_known [OF d] by simp
  moreover have "replicated accept_all v ([] @ acc)"
    by (rule replicated_lifecycle [OF replicated_new sample_frame_ok(1) _ d]) simp
  ultimately have "replicated accept_all v (map (ob_Message \<circ> spawn_message 9) [sample_replica 1, sample_replica 4])" by simp
  then show ?thesis by auto
qed

theorem client_in_step_witness:
  "client_follows {||} (map (ob_Message \<circ> spawn_message 9) [sample_replica 1, sample_replica 4]) \<and>
     (\<exists>v. vs_known v = {|1, 4|} \<and>
       replicated accept_all v (map (ob_Message \<circ> spawn_message 9) [sample_replica 1, sample_replica 4]))"
proof -
  obtain v where v: "replicated accept_all v (map (ob_Message \<circ> spawn_message 9) [sample_replica 1, sample_replica 4])"
    using sample_round by blast
  note r = client_in_step [OF v]
  moreover have "client_after {||} (map (ob_Message \<circ> spawn_message 9) [sample_replica 1, sample_replica 4]) = {|1, 4|}"
    by (simp add: spawn_message_def sample_replica_def finsert_commute)
  ultimately show ?thesis using v by metis
qed

text \<open>
  C6. Every client catches up. From any view a session can reach, once the visible entities stay the
  same and the limits let something through, as many lifecycle-first rounds over an accepting
  connection as there are differences leave the client with exactly the visible entities.
\<close>

theorem clients_converge:
  assumes "replicated send v sent"
    and "list_all (\<lambda>(n, f, visible, limits). visible_ok f visible \<and> desired_of f visible = D \<and> open_limits limits) rounds"
    and "card ((fset (vs_known v) - set D) \<union> (set D - fset (vs_known v))) \<le> length rounds"
  shows "fset (vs_known (lifecycle_rounds p selfID rounds v)) = set D"
proof -
  have "view_inv v" using replicated_agrees [OF assms(1)] by (simp add: client_agrees_def)
  moreover have "list_all (\<lambda>(n, f, visible, limits). visible_ok f visible \<and> set (desired_of f visible) = set D \<and> open_limits limits) rounds"
    using assms(2) by (auto simp: list_all_iff)
  ultimately show ?thesis using assms(3) by (intro rounds_converge) (simp_all add: distance_def)
qed

theorem clients_converge_witness:
  "fset (vs_known (lifecycle_rounds DefaultPolicy 1 [(0, sample_frame, [0, 2], no_limits\<lparr>lm_MaxMessages := 1\<rparr>), (1, sample_frame, [0, 2], no_limits)] newViewState)) = {1, 4}"
proof -
  have "fset (vs_known (lifecycle_rounds DefaultPolicy 1 [(0, sample_frame, [0, 2], no_limits\<lparr>lm_MaxMessages := 1\<rparr>), (1, sample_frame, [0, 2], no_limits)] newViewState)) =
      set [1, 4]"
    by (rule clients_converge [OF replicated_new [of accept_all]])
      (simp_all add: sample_frame_ok open_limits_def no_limits_def newViewState_def card_insert_if)
  then show ?thesis by simp
qed

text \<open>
  C15. The short cuts lose nothing. In any view a session can reach, however the lifecycle-first
  builder brings the departed ids up to date (appending, merging, pruning or scanning), those the
  client knows are what a scan of all known ids against the new desired ids gives, in the same order.
\<close>

theorem departed_as_scanned:
  assumes "replicated send v sent" and "visible_ok f visible"
  shows "filter (\<lambda>i. i |\<in>| vs_known v) (vs_departed (sync_view f visible v)) = known_outside (v\<lparr>vs_desiredIDs := desired_of f visible\<rparr>)"
proof -
  have "view_inv v" using replicated_agrees [OF assms(1)] by (simp add: client_agrees_def)
  from sync_view_inv [OF this assms(2)] show ?thesis using inv_departed [of "sync_view f visible v"] by (simp add: known_outside_def)
qed

theorem departed_as_scanned_witness:
  "\<exists>v. replicated accept_all v (map (ob_Message \<circ> spawn_message 9) [sample_replica 1, sample_replica 4]) \<and>
     filter (\<lambda>i. i |\<in>| vs_known v) (vs_departed (sync_view sample_frame [0, 2] v)) =
       known_outside (v\<lparr>vs_desiredIDs := desired_of sample_frame [0, 2]\<rparr>)"
  using sample_round departed_as_scanned [OF _ sample_frame_ok(1)] by blast

text \<open>
  C23. A snapshot stays within its bounds. For a positive budget, a frame's batch carries at most that
  many transforms, of different entities, and (up to \<open>43 * 65535\<close>) every chunk of it has a valid index
  and count, with no wrap-around, and at most 43 transforms.
\<close>

theorem snapshot_fits:
  assumes "replicated send v sent" and "visible_ok f visible" and "0 < pl_MaxTransformsPerBuild p"
    and "pl_MaxTransformsPerBuild p \<le> 43 * 65535"
  shows "int (length (updates (bt_Messages (fst (buildFrame p selfID n f visible limits v))))) \<le> pl_MaxTransformsPerBuild p \<and>
    distinct (updates (bt_Messages (fst (buildFrame p selfID n f visible limits v)))) \<and>
    (\<forall>m \<in> set (bt_Messages (fst (buildFrame p selfID n f visible limits v))). chunk_valid (ob_Message m))"
proof -
  have "view_inv v" using replicated_agrees [OF assms(1)] by (simp add: client_agrees_def)
  from buildFrame_fits [OF this assms(2) prod.collapse [symmetric] assms(3,4)] show ?thesis .
qed

theorem snapshot_fits_witness:
  "int (length (updates (bt_Messages (fst (buildFrame DefaultPolicy 1 0 sample_frame [0, 2] no_limits newViewState))))) \<le>
     pl_MaxTransformsPerBuild DefaultPolicy"
  using snapshot_fits [OF replicated_new [of accept_all] sample_frame_ok(1), where p = DefaultPolicy and selfID = 1 and n = 0 and limits = no_limits]
  by (simp add: DefaultPolicy_def)

end
