(* ===== verification/Spec2Isabelle.thy ===== *)
theory Spec2Isabelle
  imports SkillUse EquipmentStats Inventory Threat CharacterService SiegeConfig SiegeOwnership DeathRecord SimulationWorld
    CharacterStore Combat MonsterLoot OwnerIdentity ReplicationHistory
begin

text \<open>
  A verification development of the game server's core rules (\<open>src/internal\<close>, Go).

  \<^bold>\<open>The program.\<close> A single world-owner goroutine holds the authoritative state and advances it in
  ticks. Commands of the clients reach it through sessions; it calls packages that each own one part
  of the rules (skills, equipment, inventory, vitals, navigation, siege, death and respawn), keeps the
  simulation world with its spatial index, sends each session what lies in its area of interest, and
  hands durable facts (deaths, castle ownership, character snapshots) to outboxes, journals and
  stores. The packages are deterministic; they keep their state in Go maps and report errors as
  sentinel values. The theories follow the packages, one group of definitions per component with
  the names of the code, and the theorems marked C1 to C40 are the properties that make the
  components correct.

  \<^bold>\<open>Conventions\<close> (\<open>Prelude\<close>). Integers have their width: \<open>u8\<close> to \<open>u64\<close> are words, whose \<open>+\<close> wraps
  around as in Go; a signed 64 bit integer is an \<open>int\<close> wrapped by \<open>wrap_i64\<close>. A Go map is a finite map:
  \<open>gomap_at\<close> reads with the zero value, \<open>gomap_has\<close> is the second result of a lookup, \<open>gomap_len\<close> is
  \<open>len\<close>. Where the code ranges over a map, the order is an argument of the definition or the result
  does not depend on it. A method that may fail answers with a sum or an option and the new state;
  a panic is \<open>None\<close>. Error texts are reduced to the sentinel that \<open>errors.Is\<close> would find. A \<open>nil\<close>
  receiver is modelled where the code treats it. Strings are byte lists, so \<open>len\<close> and \<open><\<close> agree with Go.

  \<^bold>\<open>Skills.\<close> \<open>SkillCatalog\<close> (\<open>skillcatalog\<close>), \<open>LearnedSkills\<close> (\<open>learnedskills\<close>: the durable set and the
  runtime store), \<open>SkillLoadout\<close> (\<open>skillloadout\<close>), \<open>Appearance\<close> (\<open>appearance\<close>) and \<open>SkillUse\<close>
  (\<open>skilluse\<close> and \<open>worldruntime/character_skill_state.go\<close>): what is validated, restored and captured;
  the three stores stay consistent over any history, and a restore followed by a capture gives back
  the durable values.

  \<^bold>\<open>Equipment.\<close> \<open>EquipmentAffix\<close> (\<open>equipmentaffix\<close>: pools, rolls over a random source that is an
  argument), \<open>EquipmentCatalog\<close> (\<open>equipmentcatalog\<close>: construction, lookups, set bonuses),
  \<open>ItemInstance\<close> (\<open>iteminstance\<close>: canonical form and canonical JSON over an arbitrary codec),
  \<open>EquipmentStats\<close> (\<open>equipmentstats\<close>: fifteen checked sums, which do not depend on the order) and
  \<open>CharacterStats\<close> (\<open>characterstats\<close>).

  \<^bold>\<open>Possessions.\<close> \<open>Inventory\<close> (\<open>inventory\<close>): the nine operations keep the weight, the capacity and the
  slots consistent, a rejected one changes nothing, an exchange refines a removal and an addition.
  \<open>InventoryState\<close> (\<open>characterstate/inventory.go\<close>): the durable form of an inventory.

  \<^bold>\<open>Combat.\<close> \<open>Combat\<close> (\<open>combat\<close>: the action service with its cooldowns, self mitigation and ratings),
  \<open>CombatResources\<close> (\<open>status\<close>, \<open>targetresource\<close>, \<open>actionresource\<close>, \<open>actionpolicy\<close>),
  \<open>CharacterService\<close> (\<open>character\<close>: vitals, resources, defeat and revive) and \<open>Threat\<close> (\<open>threat\<close>).

  \<^bold>\<open>Loot and shops.\<close> \<open>Catalogs\<close> (\<open>loot\<close>, \<open>shop\<close>, \<open>itemuse\<close>: what the authored tables hold) and \<open>MonsterLoot\<close>
  (\<open>worldruntime/monster_loot.go\<close>: contributions, unbiased draws, and a lottery in proportion to damage).

  \<^bold>\<open>World.\<close> \<open>Float32\<close> and \<open>FloatArith\<close> give Go's \<open>float32\<close> and \<open>float64\<close> on their bits, rounding to
  nearest even included; a conversion to an integer out of range, which Go leaves to the machine,
  gives the least value as on amd64. \<open>GameplayWorld\<close> (\<open>gameplayworld\<close>: the validation of a baked
  world), \<open>Navigation\<close> (\<open>navigation\<close>), \<open>WorldTypes\<close> (\<open>world/types.go\<close>, \<open>movement\<close>), \<open>SpatialGrid\<close> and
  \<open>ReadFrame\<close> (\<open>spatial\<close>) and \<open>SimulationWorld\<close> (\<open>simulation\<close>): a move never crosses a closed blocker, an
  area query gives exactly the entities that pass the test, whichever way it is read.

  \<^bold>\<open>Replication.\<close> \<open>SnapshotSelection\<close> (\<open>replication/policy.go\<close> and the heap of \<open>service.go\<close>: which transforms a
  snapshot carries), \<open>Replication\<close> (\<open>replication\<close>: the view of a session, the plain and the lifecycle-first
  builder, the confirmations; the delivery loop of \<open>worldruntime/step.go\<close> and the four messages of
  \<open>protocol/messages.go\<close>), \<open>ReplicationView\<close> (its invariant) and \<open>ReplicationHistory\<close>: the messages a connection
  accepted always make sense to the client, the server knows what the client has, and with stable
  surroundings the client ends with what is visible. Its hypothesis that visible indices come in the
  order of ids is what \<open>aoi_consistent\<close> (\<open>SimulationWorld\<close>) concludes of the area query.

  \<^bold>\<open>Siege.\<close> \<open>SiegeGate\<close> (\<open>siege/gate.go\<close>, \<open>action_target.go\<close>), \<open>SiegeMatch\<close> (\<open>match.go\<close>, \<open>throne.go\<close>),
  \<open>SiegeConfig\<close> (\<open>match_config.go\<close>) and \<open>SiegeOwnership\<close> (\<open>siegeownership/store.go\<close> with
  \<open>cmd/worldd/siege_ownership.go\<close>): the match as a machine over its operations, the castle on disk
  and the composition of both, so that a crash at any point leaves the castle with its owner.

  \<^bold>\<open>Death and respawn.\<close> \<open>RespawnPolicy\<close> (\<open>respawnpolicy\<close>), \<open>DeathPenalty\<close> (\<open>deathpenalty\<close>), \<open>DeathOutcome\<close>
  (\<open>deathoutcome/outbox.go\<close>), \<open>DeathJournal\<close> (\<open>deathoutcome/journal.go\<close>, over the bytes of the files)
  and \<open>DeathRecord\<close> (\<open>worldruntime/death_outcome.go\<close>, which composes them): a defeat is scheduled,
  penalised and recorded exactly once, and what the journal acknowledged survives a crash.

  \<^bold>\<open>Characters and sessions.\<close> \<open>CharacterIdentity\<close> (\<open>characteridentity\<close>), \<open>Session\<close> (\<open>session\<close>),
  \<open>OwnerIdentity\<close> (\<open>worldruntime/character_identity.go\<close>, \<open>session_ownership.go\<close>, \<open>session_transfer.go\<close>: who
  may act for a character, with admission leases and ownership fences), \<open>CharacterState\<close>
  (\<open>characterstate/store.go\<close>: snapshots and their validators; \<open>outbox.go\<close>) and \<open>CharacterStore\<close>
  (\<open>store.go\<close>: the record file, its migrations and the saves that compare revisions).

  \<^bold>\<open>Interfaces.\<close> \<open>kept_invariant\<close>, \<open>guarded_invariant\<close> and \<open>atomic_machine\<close> (\<open>Prelude\<close>) are the contracts of
  a machine of operations: every step keeps the invariant (under a guard, or with rejected steps that
  change nothing). The inventory, skills, characters, respawn, outbox, death boundary, siege, grid,
  simulation world, combat service and identity registry are interpretations. \<open>priority\<close> (\<open>SnapshotSelection\<close>) is the
  comparison that \<open>container/heap\<close> needs. \<open>entity_store\<close> and \<open>entity_store_write\<close> are the contract of a
  store keyed by entity, with a clear that erases one entity only (threat, status, loadout, appearance,
  learned skills). \<open>fifo_lane\<close> (\<open>Lanes\<close>) is a queue that neither loses nor doubles nor reorders
  (both lanes of a connection, the save outbox); \<open>session_connection\<close> (\<open>Session\<close>) is the Go interface
  \<open>session.Connection\<close>; \<open>siege_scene\<close> (\<open>SiegeGate\<close>) is what the siege needs of the navigator;
  \<open>learned_provider\<close> (\<open>SkillUse\<close>) what the use check needs of the learned skills; \<open>go_range\<close>
  (\<open>SpatialGrid\<close>) any order of a range over a map.

  \<^bold>\<open>Arguments of the model.\<close> Code that is not in the repository is an argument, with documented
  behaviour as named hypotheses: \<open>encoding/json\<close> (codecs that read back what they wrote), random
  sources, SHA-256, \<open>math.Atan2\<close>, orders of map ranges, and the faults of the operating system, which
  are inputs of each call on files (a write may stop after any number of bytes, a sync may fail).

  \<^bold>\<open>Bounds and fuel.\<close> The walk over region parents takes as many steps as there are regions, which
  the validation shows to be enough. The scan of the journal takes one step per byte of the file at
  most; each frame is longer than its header, so the fuel never runs out. A loot draw repeats until a
  sample is accepted and is a partial function: \<open>None\<close> when it never ends, and it ends whenever one
  sample is accepted. Other loops are structural.

  \<^bold>\<open>Not modelled.\<close> Decoding JSON definitions and the embedded data files (library code and data); the
  programs under \<open>cmd\<close> but for the ownership adapter (flags, HTTP, process glue, load and test drivers);
  \<open>netadapter\<close> (sockets and TLS); \<open>codec\<close> and the other messages of \<open>protocol\<close> (layouts);
  \<open>transport\<close> and \<open>gateway\<close>; the account and credential stores; the save journal (of the same
  construction as the death journal); and most of \<open>worldruntime\<close>, which wires the components together.
\<close>

end
